(* ===== verification/Prelude.thy ===== *)
theory Prelude imports Main "HOL-Library.Sublist" "HOL-Library.AList" begin

text \<open>
  What the components share: the JavaScript values and string operations that the
  sources use, insertion-ordered \<^verbatim>\<open>Map\<close> objects, and the collections of hints
  that the component proofs pass to the simplifier.

  A JavaScript string is a list of UTF-16 code units. The theories use Isabelle's
  \<open>string\<close>, whose characters are the code units below 256; the tables of white
  space and of letter case below are those of ECMAScript for that range. A time stamp
  (\<^verbatim>\<open>Date.now()\<close>) is an \<open>int\<close>, a string length or an index a \<open>nat\<close>: all
  stay far below the 53 bits in which JavaScript numbers are exact.
\<close>

named_theorems js_defs \<open>definitions of string and value operations, unfolded together\<close>
named_theorems js_string \<open>facts on string operations used as rewrite rules\<close>

section \<open>Characters and strings\<close>

abbreviation starts_with :: "string \<Rightarrow> string \<Rightarrow> bool" where
  "starts_with p s \<equiv> prefix p s"

abbreviation ends_with :: "string \<Rightarrow> string \<Rightarrow> bool" where
  "ends_with p s \<equiv> suffix p s"

abbreviation str_includes :: "string \<Rightarrow> string \<Rightarrow> bool" where
  "str_includes s p \<equiv> sublist p s"

text \<open>The code units that \<^verbatim>\<open>trim\<close> and the class \<^verbatim>\<open>\s\<close> of a regular expression accept.\<close>

definition is_space :: "char \<Rightarrow> bool" where
  "is_space c = (let n = (of_char c :: nat) in (9 \<le> n \<and> n \<le> 13) \<or> n = 32 \<or> n = 160)"

definition is_digit :: "char \<Rightarrow> bool" where
  "is_digit c = (let n = (of_char c :: nat) in 48 \<le> n \<and> n \<le> 57)"

definition is_upper_az :: "char \<Rightarrow> bool" where
  "is_upper_az c = (let n = (of_char c :: nat) in 65 \<le> n \<and> n \<le> 90)"

definition is_lower_az :: "char \<Rightarrow> bool" where
  "is_lower_az c = (let n = (of_char c :: nat) in 97 \<le> n \<and> n \<le> 122)"

definition is_alpha :: "char \<Rightarrow> bool" where
  "is_alpha c = (is_upper_az c \<or> is_lower_az c)"

text \<open>\<^verbatim>\<open>toLowerCase\<close> on one code unit: A to Z, and the capital letters of Latin-1.\<close>

definition lower_char :: "char \<Rightarrow> char" where
  "lower_char c = (let n = (of_char c :: nat) in
     if (65 \<le> n \<and> n \<le> 90) \<or> (192 \<le> n \<and> n \<le> 222 \<and> n \<noteq> 215) then char_of (n + 32) else c)"

definition to_lower :: "string \<Rightarrow> string" where
  "to_lower s = map lower_char s"

definition trim_start :: "string \<Rightarrow> string" where
  "trim_start s = dropWhile is_space s"

definition trim_end :: "string \<Rightarrow> string" where
  "trim_end s = rev (dropWhile is_space (rev s))"

definition trim :: "string \<Rightarrow> string" where
  "trim s = trim_end (trim_start s)"

text \<open>\<^verbatim>\<open>s.split(c)\<close> for a separator of one code unit, and \<^verbatim>\<open>xs.join(sep)\<close>.\<close>

fun split_on :: "char \<Rightarrow> string \<Rightarrow> string list" where
  "split_on c [] = [[]]"
| "split_on c (x # xs) =
     (if x = c then [] # split_on c xs
      else case split_on c xs of [] \<Rightarrow> [[x]] | w # ws \<Rightarrow> (x # w) # ws)"

fun join :: "string \<Rightarrow> string list \<Rightarrow> string" where
  "join sep [] = []"
| "join sep [w] = w"
| "join sep (w # ws) = w @ sep @ join sep ws"

text \<open>\<^verbatim>\<open>s.indexOf(p)\<close>: the first position where \<open>p\<close> occurs, \<open>None\<close> for \<^verbatim>\<open>-1\<close>.\<close>

fun index_of :: "string \<Rightarrow> string \<Rightarrow> nat option" where
  "index_of p [] = (if p = [] then Some 0 else None)"
| "index_of p (x # xs) =
     (if prefix p (x # xs) then Some 0 else map_option Suc (index_of p xs))"

text \<open>\<^verbatim>\<open>String(n)\<close> for an integer.\<close>

fun dec_nat :: "nat \<Rightarrow> string" where
  "dec_nat n =
     (if n < 10 then [char_of (48 + n)] else dec_nat (n div 10) @ [char_of (48 + n mod 10)])"

declare dec_nat.simps [simp del]

definition dec_int :: "int \<Rightarrow> string" where
  "dec_int i = (if i < 0 then CHR ''-'' # dec_nat (nat (- i)) else dec_nat (nat i))"

definition newline :: char where
  "newline = CHR 0x0A"

text \<open>\<^verbatim>\<open>Buffer.from(s)\<close>: the UTF-8 bytes of the code units below 256.\<close>

definition utf8_char :: "char \<Rightarrow> nat list" where
  "utf8_char c = (let n = (of_char c :: nat) in if n < 128 then [n] else [192 + n div 64, 128 + n mod 64])"

definition utf8_bytes :: "string \<Rightarrow> nat list" where
  "utf8_bytes s = concat (map utf8_char s)"

text \<open>
  \<^verbatim>\<open>parseInt(s, 10)\<close>: white space, an optional sign and the digits that follow;
  \<open>None\<close> stands for \<^verbatim>\<open>NaN\<close>.
\<close>

definition digit_val :: "char \<Rightarrow> nat" where
  "digit_val c = of_char c - 48"

definition digits_val :: "string \<Rightarrow> nat" where
  "digits_val ds = foldl (\<lambda>n c. 10 * n + digit_val c) 0 ds"

definition parse_int :: "string \<Rightarrow> int option" where
  "parse_int s =
     (let u = trim_start s;
          neg = (u \<noteq> [] \<and> hd u = CHR ''-'');
          r = (if u \<noteq> [] \<and> (hd u = CHR ''-'' \<or> hd u = CHR ''+'') then tl u else u);
          ds = takeWhile is_digit r
      in if ds = [] then None
         else Some (if neg then - int (digits_val ds) else int (digits_val ds)))"

text \<open>
  \<^verbatim>\<open>new Date(ms).toISOString().slice(0, 10)\<close> for the years 0 to 9999: the civil date of
  the day number, by the usual conversion over eras of 400 years that start on 1 March.
\<close>

definition pad_left :: "nat \<Rightarrow> char \<Rightarrow> string \<Rightarrow> string" where
  "pad_left n c s = replicate (n - length s) c @ s"

definition civil_of_days :: "int \<Rightarrow> int \<times> int \<times> int" where
  "civil_of_days days =
     (let z = days + 719468; era = z div 146097; doe = z mod 146097;
          yoe = (doe - doe div 1460 + doe div 36524 - doe div 146096) div 365;
          doy = doe - (365 * yoe + yoe div 4 - yoe div 100);
          mp = (5 * doy + 2) div 153;
          d = doy - (153 * mp + 2) div 5 + 1;
          m = (if mp < 10 then mp + 3 else mp - 9);
          y = yoe + era * 400 + (if m \<le> 2 then 1 else 0)
      in (y, m, d))"

definition iso_day :: "int \<Rightarrow> string" where
  "iso_day ms = (case civil_of_days (ms div 86400000) of
     (y, m, d) \<Rightarrow> pad_left 4 (CHR ''0'') (dec_int y) @ ''-'' @ pad_left 2 (CHR ''0'') (dec_int m)
                 @ ''-'' @ pad_left 2 (CHR ''0'') (dec_int d))"

section \<open>JavaScript values\<close>

text \<open>
  What \<^verbatim>\<open>JSON.parse\<close> returns, and what reaches a parameter of type \<^verbatim>\<open>any\<close> or
  \<^verbatim>\<open>unknown\<close>. An object is the list of its own properties in order.
\<close>

datatype jsval =
    JUndef
  | JNull
  | JBool bool
  | JNum int
  | JStr string
  | JArr "jsval list"
  | JObj "(string \<times> jsval) list"

fun truthy :: "jsval \<Rightarrow> bool" where
  "truthy JUndef = False"
| "truthy JNull = False"
| "truthy (JBool b) = b"
| "truthy (JNum n) = (n \<noteq> 0)"
| "truthy (JStr s) = (s \<noteq> [])"
| "truthy (JArr _) = True"
| "truthy (JObj _) = True"

text \<open>Reading a property: \<^verbatim>\<open>v?.k\<close>, where a value with no such property gives \<^verbatim>\<open>undefined\<close>.\<close>

fun get_prop :: "jsval \<Rightarrow> string \<Rightarrow> jsval" where
  "get_prop (JObj ps) k = (case map_of ps k of Some v \<Rightarrow> v | None \<Rightarrow> JUndef)"
| "get_prop _ k = JUndef"

text \<open>\<^verbatim>\<open>a || b\<close>.\<close>

definition js_or :: "jsval \<Rightarrow> jsval \<Rightarrow> jsval" where
  "js_or a b = (if truthy a then a else b)"

fun is_str :: "jsval \<Rightarrow> bool" where
  "is_str (JStr _) = True"
| "is_str _ = False"

text \<open>\<^verbatim>\<open>String(v)\<close>.\<close>

fun js_String :: "jsval \<Rightarrow> string" where
  "js_String JUndef = ''undefined''"
| "js_String JNull = ''null''"
| "js_String (JBool b) = (if b then ''true'' else ''false'')"
| "js_String (JNum n) = dec_int n"
| "js_String (JStr s) = s"
| "js_String (JArr vs) =
     join '','' (map (\<lambda>v. case v of JUndef \<Rightarrow> [] | JNull \<Rightarrow> [] | _ \<Rightarrow> js_String v) vs)"
| "js_String (JObj ps) = ''[object Object]''"

text \<open>\<^verbatim>\<open>String(v || '')\<close>.\<close>

definition string_or_empty :: "jsval \<Rightarrow> string" where
  "string_or_empty v = (if truthy v then js_String v else [])"

text \<open>A string on its own: \<^verbatim>\<open>a || b\<close> where both are strings, and an optional string.\<close>

definition str_or :: "string \<Rightarrow> string \<Rightarrow> string" where
  "str_or a b = (if a \<noteq> [] then a else b)"

fun opt_str :: "string option \<Rightarrow> string" where
  "opt_str None = []"
| "opt_str (Some s) = s"

section \<open>Facts on strings\<close>

lemma split_on_not_Nil [simp]: "split_on c s \<noteq> []"
  by (induction s) (auto split: list.splits)

lemma split_on_append: "split_on c (a @ c # b) = split_on c a @ split_on c b"
proof (induction a)
  case (Cons x a)
  then show ?case by (cases "split_on c a") auto
qed simp

lemma split_on_none [simp]: "c \<notin> set s \<Longrightarrow> split_on c s = [s]"
  by (induction s) auto

lemma split_on_no_sep: "w \<in> set (split_on c s) \<Longrightarrow> c \<notin> set w"
proof (induction s arbitrary: w)
  case (Cons x s)
  obtain u us where "split_on c s = u # us" by (meson neq_Nil_conv split_on_not_Nil)
  with Cons show ?case by (auto split: if_splits)
qed simp

lemma join_Cons: "join sep (w # ws) = (if ws = [] then w else w @ sep @ join sep ws)"
  by (cases ws) auto

lemma split_on_join:
  assumes "ws \<noteq> []" and "\<forall>w \<in> set ws. c \<notin> set w"
  shows "split_on c (join [c] ws) = ws"
  using assms
proof (induction ws)
  case (Cons w ws)
  then show ?case by (cases "ws = []") (auto simp: join_Cons split_on_append)
qed simp

lemma join_split_on: "join [c] (split_on c s) = s"
proof (induction s)
  case (Cons x s)
  obtain u us where "split_on c s = u # us" by (meson neq_Nil_conv split_on_not_Nil)
  with Cons show ?case by (auto simp: join_Cons split: if_splits)
qed simp

lemma set_trim: "set (trim s) \<subseteq> set s"
  by (auto simp: trim_def trim_end_def trim_start_def dest!: set_dropWhileD)

lemma trim_Nil_iff: "trim s = [] \<longleftrightarrow> (\<forall>c \<in> set s. is_space c)"
proof -
  have "trim s = [] \<longleftrightarrow> (\<forall>c \<in> set (dropWhile is_space s). is_space c)"
    by (auto simp: trim_def trim_end_def trim_start_def)
  also have "\<dots> \<longleftrightarrow> dropWhile is_space s = []"
    by (metis dropWhile_eq_Nil_conv hd_dropWhile hd_in_set list.set(1) empty_iff)
  also have "\<dots> \<longleftrightarrow> (\<forall>c \<in> set s. is_space c)" by simp
  finally show ?thesis .
qed

lemma trim_ident:
  assumes "\<forall>c \<in> set s. \<not> is_space c"
  shows "trim s = s"
proof -
  have dw: "dropWhile is_space u = u" if "\<forall>c \<in> set u. \<not> is_space c" for u
    using that by (cases u) auto
  have "dropWhile is_space s = s" and "dropWhile is_space (rev s) = rev s"
    using assms by (auto intro!: dw)
  then show ?thesis by (simp add: trim_def trim_end_def trim_start_def)
qed

lemma length_to_lower [simp]: "length (to_lower s) = length s"
  by (simp add: to_lower_def)

section \<open>Decimal numerals\<close>

lemma digits_val_snoc [simp]: "digits_val (ds @ [c]) = 10 * digits_val ds + digit_val c"
  by (simp add: digits_val_def)

lemma digit_val_char: "(k :: nat) < 10 \<Longrightarrow> digit_val (char_of (48 + k)) = k"
  by (simp add: digit_val_def)

lemma is_digit_char: "(k :: nat) < 10 \<Longrightarrow> is_digit (char_of (48 + k))"
  by (simp add: is_digit_def Let_def)

lemma dec_nat_digits: "list_all is_digit (dec_nat n)"
proof (induction n rule: dec_nat.induct)
  case (1 n)
  then show ?case
    by (subst dec_nat.simps) (simp add: is_digit_char del: of_char_of)
qed

lemma digits_val_dec_nat [simp]: "digits_val (dec_nat n) = n"
proof (induction n rule: dec_nat.induct)
  case (1 n)
  have "digits_val [c] = digit_val c" for c by (simp add: digits_val_def)
  with 1 show ?case by (subst dec_nat.simps) (simp add: digit_val_char)
qed

lemma dec_nat_not_Nil [simp]: "dec_nat n \<noteq> []"
  by (subst dec_nat.simps) simp

lemma dec_nat_inject [simp]: "dec_nat m = dec_nat n \<longleftrightarrow> m = n"
  by (metis digits_val_dec_nat)

lemma hd_dec_nat: "is_digit (hd (dec_nat n))"
  using dec_nat_digits [of n] by (cases "dec_nat n") (auto dest: sym)

lemma dec_int_inject [simp]: "dec_int i = dec_int j \<longleftrightarrow> i = j"
proof -
  have "\<not> is_digit (CHR ''-'')" by code_simp
  then have "CHR ''-'' # u \<noteq> dec_nat n" for u n using hd_dec_nat [of n] by (metis list.sel(1))
  then show ?thesis by (auto simp: dec_int_def) metis+
qed

lemma dec_int_chars: "c \<in> set (dec_int i) \<Longrightarrow> is_digit c \<or> c = CHR ''-''"
  using dec_nat_digits by (auto simp: dec_int_def list_all_iff split: if_splits)

lemma colon_notin_dec_int: "CHR '':'' \<notin> set (dec_int i)"
proof
  assume "CHR '':'' \<in> set (dec_int i)"
  from dec_int_chars [OF this] show False by (simp add: is_digit_def)
qed

section \<open>Maps that keep the order of insertion\<close>

text \<open>
  A JavaScript \<^verbatim>\<open>Map\<close> iterates in the order its keys were first inserted; setting a key
  that is present keeps its place. That is \<^const>\<open>AList.update\<close> on an association list
  with distinct keys; \<^verbatim>\<open>delete\<close> is \<^const>\<open>AList.delete\<close> and a loop that drops the
  entries for which a test holds is a filter.
\<close>

type_synonym ('k, 'v) jsmap = "('k \<times> 'v) list"

abbreviation map_get :: "('k, 'v) jsmap \<Rightarrow> 'k \<Rightarrow> 'v option" where
  "map_get m k \<equiv> map_of m k"

abbreviation map_set :: "'k \<Rightarrow> 'v \<Rightarrow> ('k, 'v) jsmap \<Rightarrow> ('k, 'v) jsmap" where
  "map_set k v m \<equiv> AList.update k v m"

abbreviation map_del :: "'k \<Rightarrow> ('k, 'v) jsmap \<Rightarrow> ('k, 'v) jsmap" where
  "map_del k m \<equiv> AList.delete k m"

definition map_has :: "('k, 'v) jsmap \<Rightarrow> 'k \<Rightarrow> bool" where
  "map_has m k = (map_of m k \<noteq> None)"

abbreviation keys_distinct :: "('k, 'v) jsmap \<Rightarrow> bool" where
  "keys_distinct m \<equiv> distinct (map fst m)"

lemma map_of_filter_value:
  "keys_distinct m \<Longrightarrow>
   map_of (filter (\<lambda>(k, v). P v) m) k =
     (case map_of m k of None \<Rightarrow> None | Some v \<Rightarrow> if P v then Some v else None)"
  by (induction m) (force simp: map_of_eq_None_iff split: option.splits)+

lemma keys_distinct_filter: "keys_distinct m \<Longrightarrow> keys_distinct (filter P m)"
  by (induction m) auto

lemma keys_distinct_delete: "keys_distinct m \<Longrightarrow> keys_distinct (map_del k m)"
  by (simp add: keys_distinct_filter AList.delete_eq)

lemmas jsmap_keys = distinct_update keys_distinct_filter keys_distinct_delete

lemma map_of_update [simp]: "map_of (map_set k v m) k' = (if k' = k then Some v else map_of m k')"
  by (simp add: update_conv')

lemma map_of_delete [simp]: "map_of (map_del k m) k' = (if k' = k then None else map_of m k')"
  by (simp add: delete_conv')

lemma set_map_set: "set (map_set k v m) \<subseteq> insert (k, v) (set m)"
  by (induction m) auto

end
