(* ===== verification/PathContainment.thy ===== *)
theory PathContainment imports Prelude begin

text \<open>
  \<^verbatim>\<open>backend/src/utils/pathContainment.ts\<close>: the guard that every user-supplied file
  path passes before it is opened below a repository.

  \<open>path_resolve\<close> and \<open>path_dirname\<close> are \<^verbatim>\<open>path.resolve\<close> and \<^verbatim>\<open>path.dirname\<close> of
  Node's POSIX \<^verbatim>\<open>path\<close> module. The file system is a parameter: \<open>lstat p\<close> says whether
  \<^verbatim>\<open>fs.lstat\<close> succeeds on \<open>p\<close>, \<open>realpath p\<close> is what \<^verbatim>\<open>fs.realpath\<close> returns
  (\<open>None\<close> when it throws); \<open>cwd\<close> is \<^verbatim>\<open>process.cwd()\<close>. The lemmas show that the
  string test of the lexical guard is the same as the ancestor relation on path segments,
  and that what the full guard returns lies below a directory whose real path is inside the
  real path of the repository.
\<close>

section \<open>Node's path operations\<close>

abbreviation slash :: char where "slash \<equiv> CHR ''/''"

abbreviation nul :: char where "nul \<equiv> CHR 0x00"

text \<open>The segments of a path with the empty and \<^verbatim>\<open>.\<close> segments removed and \<^verbatim>\<open>..\<close> resolved.\<close>

fun norm_segments :: "string list \<Rightarrow> string list \<Rightarrow> string list" where
  "norm_segments acc [] = rev acc"
| "norm_segments acc (s # ss) =
     (if s = [] \<or> s = ''.'' then norm_segments acc ss
      else if s = ''..'' then norm_segments (tl acc) ss
      else norm_segments (s # acc) ss)"

text \<open>The arguments are taken from the right until the path is absolute; empty ones are skipped.\<close>

fun resolve_join :: "string list \<Rightarrow> string \<Rightarrow> string" where
  "resolve_join [] acc = acc"
| "resolve_join (p # ps) acc =
     (if p = [] then resolve_join ps acc
      else if starts_with [slash] p then p @ slash # acc
      else resolve_join ps (p @ slash # acc))"

definition abs_path :: "string list \<Rightarrow> string" where
  "abs_path segs = slash # join [slash] segs"

definition path_segments :: "string \<Rightarrow> string list" where
  "path_segments p = norm_segments [] (split_on slash p)"

definition path_resolve :: "string \<Rightarrow> string list \<Rightarrow> string" where
  "path_resolve cwd args = abs_path (path_segments (resolve_join (rev args @ [cwd]) []))"

text \<open>
  Node scans from the end for the last slash that follows a segment, never looking at the
  first character; \<open>r\<close> is the reversed path from that slash down to the second character.
\<close>

definition path_dirname :: "string \<Rightarrow> string" where
  "path_dirname p =
     (if p = [] then ''.''
      else let r = dropWhile (\<lambda>c. c \<noteq> slash) (dropWhile (\<lambda>c. c = slash) (rev (tl p)))
           in if r = [] then (if hd p = slash then ''/'' else ''.'')
              else if hd p = slash \<and> length r = 1 then ''//''
              else take (length r) p)"

text \<open>\<^verbatim>\<open>path.extname\<close> of the last segment of a path.\<close>

definition extname :: "string \<Rightarrow> string" where
  "extname p =
     (let segs = filter (\<lambda>s. s \<noteq> []) (split_on slash p); name = (if segs = [] then [] else last segs)
      in if name = ''..'' \<or> CHR ''.'' \<notin> set (drop 1 name) then []
         else CHR ''.'' # rev (takeWhile (\<lambda>c. c \<noteq> CHR ''.'') (rev name)))"

section \<open>The guard\<close>

datatype containment_error = AccessDenied | RepositoryUnavailable

definition resolveContainedPathLexical ::
    "string \<Rightarrow> string \<Rightarrow> jsval \<Rightarrow> containment_error + string" where
  "resolveContainedPathLexical cwd basePath relativePath =
     (case relativePath of
        JStr rel \<Rightarrow>
          (if nul \<in> set rel \<or> nul \<in> set basePath then Inl AccessDenied
           else if trim rel = [] then Inl AccessDenied
           else let base = path_resolve cwd [basePath];
                    target = path_resolve cwd [base, rel]
                in if target \<noteq> base \<and> \<not> starts_with (base @ [slash]) target
                   then Inl AccessDenied
                   else Inr target)
      | _ \<Rightarrow> Inl AccessDenied)"

text \<open>
  The loop of \<^verbatim>\<open>deepestExistingAncestor\<close>: it stops where \<^verbatim>\<open>lstat\<close> succeeds, or where
  \<^verbatim>\<open>dirname\<close> returns its argument.
\<close>

definition dirname_tail :: "string \<Rightarrow> string" where
  "dirname_tail p = dropWhile (\<lambda>c. c \<noteq> slash) (dropWhile (\<lambda>c. c = slash) (rev (tl p)))"

lemma path_dirname_alt:
  "path_dirname p =
     (if p = [] then ''.''
      else if dirname_tail p = [] then (if hd p = slash then ''/'' else ''.'')
      else if hd p = slash \<and> length (dirname_tail p) = 1 then ''//''
      else take (length (dirname_tail p)) p)"
  unfolding path_dirname_def dirname_tail_def Let_def by (rule refl)

lemma length_dirname_tail: "length (dirname_tail p) \<le> length p - 1"
proof -
  have "length (dirname_tail p) \<le> length (dropWhile (\<lambda>c. c = slash) (rev (tl p)))"
    unfolding dirname_tail_def by (rule length_dropWhile_le)
  also have "\<dots> \<le> length (rev (tl p))" by (rule length_dropWhile_le)
  finally show ?thesis by simp
qed

lemma dirname_tail_short: "length p \<le> 2 \<Longrightarrow> dirname_tail p = []"
  by (cases p; cases "tl p") (auto simp: dirname_tail_def)

definition path_measure :: "string \<Rightarrow> nat" where
  "path_measure p = (if p = ''.'' then 0 else if p = [] then 2 else length p)"

lemma path_dirname_shrinks:
  assumes "path_dirname p \<noteq> p"
  shows "path_measure (path_dirname p) < path_measure p"
proof (cases "p = []")
  case True
  then show ?thesis by (simp add: path_dirname_def path_measure_def)
next
  case False
  have dot: "path_measure p > 0" if "p \<noteq> ''.''"
    using that False by (simp add: path_measure_def)
  show ?thesis
  proof (cases "dirname_tail p = []")
    case True
    with False assms dot show ?thesis
      by (cases p) (auto simp: path_dirname_alt path_measure_def)
  next
    case tail: False
    then have p3: "length p \<ge> 3" using dirname_tail_short [of p] by linarith
    moreover have "length (dirname_tail p) < length p"
      using length_dirname_tail [of p] p3 by linarith
    moreover have "length (path_dirname p) < length p"
    proof -
      have "path_dirname p = ''//'' \<or> path_dirname p = take (length (dirname_tail p)) p"
        using False tail by (simp add: path_dirname_alt)
      with p3 \<open>length (dirname_tail p) < length p\<close> show ?thesis by auto
    qed
    moreover have "path_dirname p \<noteq> []"
      using False tail by (auto simp: path_dirname_alt)
    ultimately show ?thesis by (auto simp: path_measure_def)
  qed
qed

function deepestExistingAncestor :: "(string \<Rightarrow> bool) \<Rightarrow> string \<Rightarrow> string" where
  "deepestExistingAncestor lstat current =
     (if lstat current then current
      else if path_dirname current = current then current
      else deepestExistingAncestor lstat (path_dirname current))"
  by pat_completeness auto
termination
  by (relation "measure (\<lambda>(lstat, p). path_measure p)") (auto simp: path_dirname_shrinks)

declare deepestExistingAncestor.simps [simp del]

definition resolveContainedPath ::
    "(string \<Rightarrow> bool) \<Rightarrow> (string \<Rightarrow> string option) \<Rightarrow> string \<Rightarrow>
     string \<Rightarrow> jsval \<Rightarrow> bool \<Rightarrow> containment_error + string" where
  "resolveContainedPath lstat realpath cwd basePath relativePath allowBaseItself =
     (case resolveContainedPathLexical cwd basePath relativePath of
        Inl e \<Rightarrow> Inl e
      | Inr target \<Rightarrow>
          let base = path_resolve cwd [basePath]
          in if \<not> allowBaseItself \<and> target = base then Inl AccessDenied
             else case realpath base of
                 None \<Rightarrow> Inl RepositoryUnavailable
               | Some realBase \<Rightarrow>
                   (case realpath (deepestExistingAncestor lstat target) of
                      None \<Rightarrow> Inl AccessDenied
                    | Some realAnchor \<Rightarrow>
                        if realAnchor \<noteq> realBase \<and> \<not> starts_with (realBase @ [slash]) realAnchor
                        then Inl AccessDenied
                        else Inr target))"

section \<open>Paths as lists of segments\<close>

definition clean_segment :: "string \<Rightarrow> bool" where
  "clean_segment s = (s \<noteq> [] \<and> s \<noteq> ''.'' \<and> s \<noteq> ''..'' \<and> slash \<notin> set s)"

abbreviation clean :: "string list \<Rightarrow> bool" where
  "clean ss \<equiv> (\<forall>s \<in> set ss. clean_segment s)"

lemma norm_segments_clean:
  assumes "clean acc" and "\<forall>s \<in> set ss. slash \<notin> set s"
  shows "clean (norm_segments acc ss)"
  using assms
proof (induction ss arbitrary: acc)
  case (Cons s ss)
  have tl: "clean (tl acc)" using Cons.prems(1) by (cases acc) auto
  have rest: "\<forall>s \<in> set ss. slash \<notin> set s" using Cons.prems(2) by simp
  consider "s = [] \<or> s = ''.''" | "s = ''..''"
    | "\<not> (s = [] \<or> s = ''.'')" "s \<noteq> ''..''" by blast
  then show ?case
  proof cases
    case 1
    with Cons.IH [OF Cons.prems(1) rest] show ?thesis by (simp only: norm_segments.simps if_True)
  next
    case 2
    then show ?thesis using Cons.IH [OF tl rest] by auto
  next
    case 3
    with Cons.prems have "clean (s # acc)" by (simp add: clean_segment_def)
    from Cons.IH [OF this rest] 3 show ?thesis
      by (simp only: norm_segments.simps if_False)
  qed
qed simp

lemma path_segments_clean [simp]: "clean (path_segments p)"
  unfolding path_segments_def by (rule norm_segments_clean) (auto dest: split_on_no_sep)

lemma norm_segments_ident: "clean ss \<Longrightarrow> norm_segments acc ss = rev acc @ ss"
proof (induction ss arbitrary: acc)
  case (Cons s ss)
  then have "s \<noteq> [] \<and> s \<noteq> ''.'' \<and> s \<noteq> ''..''" by (simp add: clean_segment_def)
  with Cons show ?case by simp
qed simp

lemma norm_segments_append:
  "norm_segments acc (xs @ ys) = norm_segments (rev (norm_segments acc xs)) ys"
  by (induction acc xs rule: norm_segments.induct) auto

lemma norm_segments_Nil [simp]: "norm_segments acc ([] # ss) = norm_segments acc ss"
  by simp

lemma split_abs_path:
  assumes "clean ss"
  shows "split_on slash (abs_path ss) = (if ss = [] then [[], []] else [] # ss)"
proof -
  have "split_on slash (join [slash] ss) = ss" if "ss \<noteq> []"
    using that assms by (intro split_on_join) (auto simp: clean_segment_def)
  then show ?thesis by (auto simp: abs_path_def)
qed

lemma path_segments_abs_path [simp]: "clean ss \<Longrightarrow> path_segments (abs_path ss) = ss"
  using norm_segments_ident [of ss "[]"] by (auto simp: path_segments_def split_abs_path)

lemma abs_path_inject: "clean xs \<Longrightarrow> clean ys \<Longrightarrow> abs_path xs = abs_path ys \<longleftrightarrow> xs = ys"
  by (metis path_segments_abs_path)

lemma path_resolve_segments: "path_resolve cwd args = abs_path (path_segments (path_resolve cwd args))"
  by (simp add: path_resolve_def)

lemma abs_path_append: "xs \<noteq> [] \<Longrightarrow> ys \<noteq> [] \<Longrightarrow> abs_path (xs @ ys) = abs_path xs @ abs_path ys"
proof (induction xs)
  case (Cons x xs)
  then show ?case by (cases "xs = []") (simp_all add: abs_path_def join_Cons)
qed simp

text \<open>The string test of the guard decides the ancestor relation on segments.\<close>

lemma inside_iff_prefix:
  assumes "clean bs" and "clean ts"
  shows "(abs_path ts = abs_path bs \<or> starts_with (abs_path bs @ [slash]) (abs_path ts))
         \<longleftrightarrow> ts = bs \<or> (bs \<noteq> [] \<and> prefix bs ts)"
proof
  assume "abs_path ts = abs_path bs \<or> starts_with (abs_path bs @ [slash]) (abs_path ts)"
  then show "ts = bs \<or> (bs \<noteq> [] \<and> prefix bs ts)"
  proof
    assume "starts_with (abs_path bs @ [slash]) (abs_path ts)"
    then obtain rest where "abs_path ts = abs_path bs @ slash # rest"
      by (auto simp: prefix_def)
    then have sp: "split_on slash (abs_path ts) = split_on slash (abs_path bs) @ split_on slash rest"
      by (simp add: split_on_append)
    have "ts \<noteq> []"
    proof
      assume "ts = []"
      with sp assms have "length ([[], []] :: string list) = length (split_on slash (abs_path bs) @ split_on slash rest)"
        by (simp add: split_abs_path)
      moreover have "length (split_on slash (abs_path bs)) \<ge> 2"
        using assms by (auto simp: split_abs_path neq_Nil_conv)
      moreover have "length (split_on slash rest) \<ge> 1"
        by (simp add: Suc_le_eq)
      ultimately show False by simp
    qed
    with sp assms have eq: "[] # ts = (if bs = [] then [[], []] else [] # bs) @ split_on slash rest"
      by (simp add: split_abs_path)
    have "bs \<noteq> []"
    proof
      assume "bs = []"
      with eq have "[] \<in> set ts" by simp
      with assms show False by (auto simp: clean_segment_def)
    qed
    with eq show ?thesis by auto
  qed (use assms in \<open>simp add: abs_path_inject\<close>)
next
  assume "ts = bs \<or> (bs \<noteq> [] \<and> prefix bs ts)"
  then show "abs_path ts = abs_path bs \<or> starts_with (abs_path bs @ [slash]) (abs_path ts)"
  proof
    assume "bs \<noteq> [] \<and> prefix bs ts"
    then obtain rest where "bs \<noteq> []" and ts: "ts = bs @ rest" by (auto simp: prefix_def)
    show ?thesis
    proof (cases "rest = []")
      case False
      with ts \<open>bs \<noteq> []\<close> have "abs_path ts = (abs_path bs @ [slash]) @ join [slash] rest"
        by (simp add: abs_path_append) (simp add: abs_path_def)
      then show ?thesis by (metis prefixI)
    qed (simp add: ts)
  qed simp
qed

section \<open>What the walk to an existing ancestor finds\<close>

lemma dirname_tail_abs_path:
  assumes "clean_segment s"
  shows "dirname_tail (abs_path (ss @ [s])) = (if ss = [] then [] else slash # rev (join [slash] ss))"
proof -
  have s: "slash \<notin> set s" "s \<noteq> []" using assms by (auto simp: clean_segment_def)
  have tl: "tl (abs_path (ss @ [s])) = (if ss = [] then s else join [slash] ss @ slash # s)"
    by (induction ss) (auto simp: abs_path_def join_Cons)
  have "dropWhile (\<lambda>c. c = slash) (rev s @ u) = rev s @ u" for u
    using s by (cases "rev s") (auto simp: dropWhile_eq_self_iff)
  moreover have "dropWhile (\<lambda>c. c \<noteq> slash) (rev s @ u) = dropWhile (\<lambda>c. c \<noteq> slash) u" for u
    using s by (subst dropWhile_append2) auto
  ultimately show ?thesis
    unfolding dirname_tail_def tl using s
    by (auto simp del: dropWhile_eq_Nil_conv) (metis append_Nil2 dropWhile.simps(1))
qed

lemma join_clean_not_Nil: "ss \<noteq> [] \<Longrightarrow> clean ss \<Longrightarrow> join [slash] ss \<noteq> []"
  by (cases ss) (auto simp: join_Cons clean_segment_def)

lemma path_dirname_abs_path:
  assumes "clean (ss @ [s])"
  shows "path_dirname (abs_path (ss @ [s])) = abs_path ss"
proof -
  have s: "clean_segment s" and ss: "clean ss" using assms by auto
  show ?thesis
  proof (cases "ss = []")
    case True
    with s have "dirname_tail (abs_path (ss @ [s])) = []"
      using dirname_tail_abs_path [of s ss] by simp
    then show ?thesis using True by (simp add: path_dirname_alt) (simp add: abs_path_def)
  next
    case False
    then have "abs_path (ss @ [s]) = abs_path ss @ slash # s"
      by (simp add: abs_path_append) (simp add: abs_path_def)
    moreover have "length (dirname_tail (abs_path (ss @ [s]))) = length (abs_path ss)"
      using False s by (simp add: dirname_tail_abs_path) (simp add: abs_path_def)
    moreover have "length (abs_path ss) > 1"
      using join_clean_not_Nil [OF False ss] by (simp add: abs_path_def)
    ultimately show ?thesis by (auto simp: path_dirname_alt)
  qed
qed

lemma path_dirname_root: "path_dirname (abs_path []) = abs_path []"
  by (simp add: abs_path_def path_dirname_alt dirname_tail_def)

text \<open>\<open>k\<close> is the number of leading segments of the deepest ancestor that exists, 0 for the root.\<close>

definition deepest_existing :: "(string \<Rightarrow> bool) \<Rightarrow> string list \<Rightarrow> nat \<Rightarrow> bool" where
  "deepest_existing lstat segs k =
     (k \<le> length segs
      \<and> (k = 0 \<or> lstat (abs_path (take k segs)))
      \<and> (\<forall>j. k < j \<and> j \<le> length segs \<longrightarrow> \<not> lstat (abs_path (take j segs))))"

lemma deepest_existing_unique:
  "deepest_existing lstat segs k \<Longrightarrow> deepest_existing lstat segs k' \<Longrightarrow> k = k'"
  unfolding deepest_existing_def by (metis leD linorder_neqE_nat not_gr_zero gr_implies_not_zero)

lemma deepestExistingAncestor_abs_path:
  assumes "clean segs"
  shows "\<exists>k. deepest_existing lstat segs k
             \<and> deepestExistingAncestor lstat (abs_path segs) = abs_path (take k segs)"
  using assms
proof (induction segs rule: rev_induct)
  case Nil
  show ?case
    by (subst deepestExistingAncestor.simps)
       (simp add: path_dirname_root Let_def deepest_existing_def)
next
  case (snoc s ss)
  have ne: "abs_path ss \<noteq> abs_path (ss @ [s])"
    using snoc.prems by (subst abs_path_inject) auto
  show ?case
  proof (cases "lstat (abs_path (ss @ [s]))")
    case True
    then have "deepestExistingAncestor lstat (abs_path (ss @ [s])) = abs_path (ss @ [s])"
      by (subst deepestExistingAncestor.simps) simp
    moreover have "deepest_existing lstat (ss @ [s]) (length (ss @ [s]))"
      using True by (auto simp: deepest_existing_def)
    ultimately show ?thesis by (intro exI [of _ "length (ss @ [s])"]) simp
  next
    case False
    from snoc obtain k where k: "deepest_existing lstat ss k"
      and anc: "deepestExistingAncestor lstat (abs_path ss) = abs_path (take k ss)" by auto
    have "deepestExistingAncestor lstat (abs_path (ss @ [s])) = abs_path (take k ss)"
      using False snoc.prems ne
      by (subst deepestExistingAncestor.simps) (simp add: path_dirname_abs_path Let_def anc)
    moreover have "deepest_existing lstat (ss @ [s]) k"
      using k False by (auto simp: deepest_existing_def le_Suc_eq)
    ultimately show ?thesis using k by (intro exI [of _ k]) (simp add: deepest_existing_def)
  qed
qed

section \<open>Properties\<close>

lemma path_resolve_cases:
  obtains segs where "clean segs" and "path_resolve cwd args = abs_path segs"
  unfolding path_resolve_def using path_segments_clean by blast

lemma path_segments_trailing:
  assumes "clean ss"
  shows "path_segments (abs_path ss @ [slash]) = ss"
proof -
  have "path_segments (abs_path ss @ [slash])
        = norm_segments (rev (path_segments (abs_path ss))) [[]]"
    using split_on_append [of slash "abs_path ss" "[]"]
    by (simp add: path_segments_def norm_segments_append)
  with assms show ?thesis by simp
qed

text \<open>
  The lexical guard is exact: it returns \<open>target\<close> precisely when neither string holds a
  NUL, the relative path is not blank, \<open>target\<close> is the resolved path, and \<open>target\<close> is the
  base directory or lies below it segment by segment, so a sibling such as
  \<^verbatim>\<open>/data/repo-evil\<close> never counts as inside \<^verbatim>\<open>/data/repo\<close>.
\<close>

theorem lexical_guard_iff:
  "resolveContainedPathLexical cwd basePath (JStr rel) = Inr target \<longleftrightarrow>
     nul \<notin> set rel \<and> nul \<notin> set basePath \<and> trim rel \<noteq> [] \<and>
     target = path_resolve cwd [path_resolve cwd [basePath], rel] \<and>
     (target = path_resolve cwd [basePath]
      \<or> (path_segments (path_resolve cwd [basePath]) \<noteq> []
         \<and> prefix (path_segments (path_resolve cwd [basePath])) (path_segments target)))"
proof -
  obtain bs where bs: "clean bs" "path_resolve cwd [basePath] = abs_path bs"
    by (rule path_resolve_cases)
  obtain ts where ts: "clean ts" "path_resolve cwd [abs_path bs, rel] = abs_path ts"
    by (rule path_resolve_cases)
  have "(\<not> (abs_path ts \<noteq> abs_path bs \<and> \<not> starts_with (abs_path bs @ [slash]) (abs_path ts)))
        \<longleftrightarrow> abs_path ts = abs_path bs \<or> (bs \<noteq> [] \<and> prefix bs ts)"
    using inside_iff_prefix [OF bs(1) ts(1)] abs_path_inject [OF ts(1) bs(1)] by blast
  then show ?thesis
    using bs(1) ts(1)
    by (auto simp: resolveContainedPathLexical_def Let_def bs(2) ts(2) split: if_splits)
qed

text \<open>
  The guard does not refuse legitimate paths: a relative path made of ordinary segments, with
  no NUL and not blank, is accepted below any base directory but the root, and the result
  is the base followed by those segments.
\<close>

theorem lexical_guard_complete:
  assumes "clean rs" and "rs \<noteq> []" and "clean bs" and "bs \<noteq> []"
    and "nul \<notin> set (join [slash] rs)" and "nul \<notin> set (abs_path bs)"
    and "trim (join [slash] rs) \<noteq> []"
  shows "resolveContainedPathLexical cwd (abs_path bs) (JStr (join [slash] rs))
         = Inr (abs_path (bs @ rs))"
proof -
  have rooted: "starts_with [slash] (abs_path ss)" "abs_path ss \<noteq> []" for ss
    by (simp_all add: abs_path_def)
  have trail: "path_segments (abs_path ss @ [slash]) = ss" if "clean ss" for ss
    using that by (rule path_segments_trailing)
  have base: "path_resolve cwd [abs_path bs] = abs_path bs"
    unfolding path_resolve_def using rooted trail [OF assms(3)] by simp
  have rel: "\<not> starts_with [slash] (join [slash] rs)"
  proof (cases rs)
    case (Cons r rest)
    with assms(1) have "clean_segment r" by simp
    then obtain c r' where "r = c # r'" "c \<noteq> slash"
      by (cases r) (auto simp: clean_segment_def)
    with Cons show ?thesis by (simp add: join_Cons)
  qed (use assms(2) in simp)
  have "abs_path bs @ slash # join [slash] rs = abs_path (bs @ rs)"
    using assms(2,4) by (simp add: abs_path_append) (simp add: abs_path_def)
  then have "abs_path bs @ slash # join [slash] rs @ [slash] = abs_path (bs @ rs) @ [slash]"
    by (metis append.assoc append_Cons)
  then have joined: "resolve_join (rev [abs_path bs, join [slash] rs] @ [cwd]) []
      = abs_path (bs @ rs) @ [slash]"
    using rooted rel join_clean_not_Nil [OF assms(2,1)] by simp
  have "clean (bs @ rs)" using assms(1,3) by auto
  then have "path_resolve cwd [abs_path bs, join [slash] rs] = abs_path (bs @ rs)"
    unfolding path_resolve_def joined by (simp only: trail)
  then show ?thesis
    using assms path_segments_abs_path [OF \<open>clean (bs @ rs)\<close>] path_segments_abs_path [OF assms(3)]
    by (simp only: lexical_guard_iff base) simp
qed

theorem lexical_guard_complete_witness:
  "resolveContainedPathLexical ''/srv'' ''/data/repo'' (JStr ''src/ch1.ptx'')
   = Inr ''/data/repo/src/ch1.ptx''"
proof -
  have "resolveContainedPathLexical ''/srv'' (abs_path [''data'', ''repo''])
          (JStr (join [slash] [''src'', ''ch1.ptx'']))
        = Inr (abs_path ([''data'', ''repo''] @ [''src'', ''ch1.ptx'']))"
    by (rule lexical_guard_complete; code_simp)
  moreover have "abs_path [''data'', ''repo''] = ''/data/repo''"
    and "join [slash] [''src'', ''ch1.ptx''] = ''src/ch1.ptx''"
    and "abs_path ([''data'', ''repo''] @ [''src'', ''ch1.ptx'']) = ''/data/repo/src/ch1.ptx''"
    by code_simp+
  ultimately show ?thesis by simp
qed

text \<open>
  Claim C1. The full guard, links included: it returns \<open>target\<close> precisely when the lexical guard does,
  \<open>target\<close> is not the base directory itself (unless that is allowed), and the real path of
  the deepest existing ancestor of \<open>target\<close> (\<open>target\<close> itself when it exists) is the
  real path of the repository or below it. Below that ancestor nothing exists on disk, so
  no link on the way to \<open>target\<close> is left unexamined.
\<close>

theorem contained_path_iff:
  "resolveContainedPath lstat realpath cwd basePath (JStr rel) allowBase = Inr target \<longleftrightarrow>
     resolveContainedPathLexical cwd basePath (JStr rel) = Inr target
     \<and> \<not> (\<not> allowBase \<and> target = path_resolve cwd [basePath])
     \<and> (\<exists>k realBase realAnchor.
          deepest_existing lstat (path_segments target) k
          \<and> realpath (path_resolve cwd [basePath]) = Some realBase
          \<and> realpath (abs_path (take k (path_segments target))) = Some realAnchor
          \<and> (realAnchor = realBase \<or> starts_with (realBase @ [slash]) realAnchor))"
proof (cases "resolveContainedPathLexical cwd basePath (JStr rel)")
  case (Inl e)
  then show ?thesis by (simp add: resolveContainedPath_def)
next
  case (Inr t)
  then have "t = path_resolve cwd [path_resolve cwd [basePath], rel]"
    by (simp add: lexical_guard_iff)
  then have "abs_path (path_segments t) = t" by (simp flip: path_resolve_segments)
  with deepestExistingAncestor_abs_path [of "path_segments t" lstat]
  obtain k where k: "deepest_existing lstat (path_segments t) k"
    and anc: "deepestExistingAncestor lstat t = abs_path (take k (path_segments t))" by auto
  have ex: "(\<exists>j rb ra. deepest_existing lstat (path_segments t) j
               \<and> realpath (path_resolve cwd [basePath]) = Some rb
               \<and> realpath (abs_path (take j (path_segments t))) = Some ra
               \<and> (ra = rb \<or> starts_with (rb @ [slash]) ra))
            \<longleftrightarrow> (\<exists>rb ra. realpath (path_resolve cwd [basePath]) = Some rb
               \<and> realpath (abs_path (take k (path_segments t))) = Some ra
               \<and> (ra = rb \<or> starts_with (rb @ [slash]) ra))"
    using k deepest_existing_unique [OF k] by blast
  show ?thesis
  proof (cases "target = t")
    case True
    show ?thesis unfolding True ex
      by (auto simp: resolveContainedPath_def Inr Let_def anc split: option.splits)
  next
    case False
    then show ?thesis
      by (auto simp: resolveContainedPath_def Inr Let_def split: option.splits if_splits)
  qed
qed

text \<open>A link inside the repository that leads out of it is refused; a plain file is not.\<close>

lemma symlink_escape_example:
  "resolveContainedPath
     (\<lambda>p. p \<in> set [''/data/repo'', ''/data/repo/escape''])
     (map_of [(''/data/repo'', ''/data/repo''), (''/data/repo/escape'', ''/etc'')])
     ''/srv'' ''/data/repo'' (JStr ''escape/passwd'') False = Inl AccessDenied"
proof -
  have "resolveContainedPathLexical ''/srv'' ''/data/repo'' (JStr ''escape/passwd'')
        = Inr ''/data/repo/escape/passwd''" by code_simp
  moreover have "path_resolve ''/srv'' [''/data/repo''] = ''/data/repo''" by code_simp
  moreover have "deepestExistingAncestor (\<lambda>p. p \<in> set [''/data/repo'', ''/data/repo/escape''])
      ''/data/repo/escape/passwd'' = ''/data/repo/escape''" by code_simp
  ultimately show ?thesis by (simp add: resolveContainedPath_def)
qed

end
