(* ===== verification/RepoIdentifier.thy ===== *)
theory RepoIdentifier imports PathContainment begin

text \<open>
  \<^verbatim>\<open>backend/src/utils/repoIdentifier.ts\<close>: the check of GitHub owner and repository
  names before they reach a \<^verbatim>\<open>git\<close> command line or a URL. The lemmas show that what is
  accepted holds no separator, quote or shell character and that the clone URL's path has
  exactly the two segments it is built from.
\<close>

datatype repo_field = Owner | Repo

datatype identifier_reason =
    MustBeString
  | MustNotBeEmpty
  | MustBeAtMost nat
  | BadCharacter
  | PathSegment

datatype identifier_error = InvalidRepoIdentifierError repo_field identifier_reason

definition MAX_OWNER_LENGTH :: nat where "MAX_OWNER_LENGTH = 39"

definition MAX_REPO_LENGTH :: nat where "MAX_REPO_LENGTH = 100"

definition RESERVED_SEGMENTS :: "string list" where
  "RESERVED_SEGMENTS = [''.'', ''..'']"

text \<open>The character class \<^verbatim>\<open>[A-Za-z0-9_.-]\<close>, and the anchored pattern: one or more of it.\<close>

definition identifier_char :: "char \<Rightarrow> bool" where
  "identifier_char c =
     (is_alpha c \<or> is_digit c \<or> c = CHR ''_'' \<or> c = CHR ''.'' \<or> c = CHR ''-'')"

definition REPO_IDENTIFIER_PATTERN :: "string \<Rightarrow> bool" where
  "REPO_IDENTIFIER_PATTERN s = (s \<noteq> [] \<and> list_all identifier_char s)"

definition validate :: "repo_field \<Rightarrow> jsval \<Rightarrow> nat \<Rightarrow> identifier_error + string" where
  "validate field v maxLength =
     (case v of
        JStr s \<Rightarrow>
          (if length s = 0 then Inl (InvalidRepoIdentifierError field MustNotBeEmpty)
           else if length s > maxLength
             then Inl (InvalidRepoIdentifierError field (MustBeAtMost maxLength))
           else if \<not> REPO_IDENTIFIER_PATTERN s
             then Inl (InvalidRepoIdentifierError field BadCharacter)
           else if s \<in> set RESERVED_SEGMENTS
             then Inl (InvalidRepoIdentifierError field PathSegment)
           else Inr s)
      | _ \<Rightarrow> Inl (InvalidRepoIdentifierError field MustBeString))"

definition assertValidOwner :: "jsval \<Rightarrow> identifier_error + string" where
  "assertValidOwner owner = validate Owner owner MAX_OWNER_LENGTH"

definition assertValidRepo :: "jsval \<Rightarrow> identifier_error + string" where
  "assertValidRepo repo = validate Repo repo MAX_REPO_LENGTH"

text \<open>The owner is checked first; the first failure is the one thrown.\<close>

definition assertValidRepoIdentifier :: "jsval \<Rightarrow> jsval \<Rightarrow> identifier_error + string \<times> string" where
  "assertValidRepoIdentifier owner repo =
     (case assertValidOwner owner of
        Inl e \<Rightarrow> Inl e
      | Inr ow \<Rightarrow> (case assertValidRepo repo of Inl e \<Rightarrow> Inl e | Inr r \<Rightarrow> Inr (ow, r)))"

definition isValidRepoIdentifier :: "jsval \<Rightarrow> jsval \<Rightarrow> bool" where
  "isValidRepoIdentifier owner repo =
     (case assertValidRepoIdentifier owner repo of Inl _ \<Rightarrow> False | Inr _ \<Rightarrow> True)"

section \<open>What is accepted\<close>

definition valid_name :: "nat \<Rightarrow> string \<Rightarrow> bool" where
  "valid_name maxLength s =
     (s \<noteq> [] \<and> length s \<le> maxLength \<and> list_all identifier_char s \<and> s \<notin> set RESERVED_SEGMENTS)"

lemma validate_Inr_iff:
  "validate field v maxLength = Inr s \<longleftrightarrow> v = JStr s \<and> valid_name maxLength s"
  by (cases v) (auto simp: validate_def valid_name_def REPO_IDENTIFIER_PATTERN_def)

lemma isValidRepoIdentifier_iff:
  "isValidRepoIdentifier owner repo \<longleftrightarrow>
     (\<exists>ow r. owner = JStr ow \<and> repo = JStr r
             \<and> valid_name MAX_OWNER_LENGTH ow \<and> valid_name MAX_REPO_LENGTH r)"
  by (auto simp: isValidRepoIdentifier_def assertValidRepoIdentifier_def assertValidOwner_def
      assertValidRepo_def validate_Inr_iff split: sum.splits)
     (metis validate_Inr_iff sum.distinct(1))+

text \<open>
  No code unit that a shell, a URL or a path gives a meaning to, and no white space, is in
  the class.
\<close>

definition dangerous_chars :: string where
  "dangerous_chars = ''/ ;|&$`(){}<>*?#!~%=+,:@[]^'' @ [CHR 0x22, CHR 0x27, CHR 0x5C, CHR 0x0A,
     CHR 0x0D, CHR 0x09, nul]"

lemma identifier_char_safe: "list_all (\<lambda>c. \<not> identifier_char c) dangerous_chars"
  by code_simp

lemma valid_name_safe:
  assumes "valid_name n s" and "c \<in> set dangerous_chars"
  shows "c \<notin> set s"
  using assms identifier_char_safe by (auto simp: valid_name_def list_all_iff)

lemma slash_dangerous: "slash \<in> set dangerous_chars"
  by code_simp

lemma valid_name_clean: "valid_name n s \<Longrightarrow> clean_segment s"
  using valid_name_safe [OF _ slash_dangerous]
  by (auto simp: clean_segment_def) (auto simp: valid_name_def RESERVED_SEGMENTS_def)

text \<open>The path of \<^verbatim>\<open>https://github.com/${owner}/${repo}.git\<close>.\<close>

definition clone_path :: "string \<Rightarrow> string \<Rightarrow> string" where
  "clone_path owner repo = slash # owner @ slash # repo @ ''.git''"

text \<open>
  Claim C2. Whatever pair of values passes the check, the path of the clone URL built from it
  resolves to the two segments owner and repository (with its suffix): the names cannot walk
  up the URL, add a segment or smuggle in a character with a meaning of its own.
\<close>

theorem accepted_pair_names_one_repository:
  assumes "assertValidRepoIdentifier owner repo = Inr (ow, r)"
  shows "owner = JStr ow \<and> repo = JStr r
         \<and> path_segments (clone_path ow r) = [ow, r @ ''.git'']
         \<and> set (ow @ r) \<inter> set dangerous_chars = {}
         \<and> length ow \<le> 39 \<and> length r \<le> 100"
proof -
  from assms have ov: "owner = JStr ow" "valid_name MAX_OWNER_LENGTH ow"
    and rv: "repo = JStr r" "valid_name MAX_REPO_LENGTH r"
    by (auto simp: assertValidRepoIdentifier_def assertValidOwner_def assertValidRepo_def
        validate_Inr_iff split: sum.splits)
  have o_clean: "clean_segment ow" and r_clean: "clean_segment r"
    using ov(2) rv(2) by (auto dest: valid_name_clean)
  have rgit: "clean_segment (r @ ''.git'')"
    using r_clean by (auto simp: clean_segment_def)
  have "clone_path ow r = abs_path [ow, r @ ''.git'']"
    by (simp add: clone_path_def abs_path_def)
  with o_clean rgit have "path_segments (clone_path ow r) = [ow, r @ ''.git'']"
    by (simp only: path_segments_abs_path list.set ball_simps)
  moreover have "set (ow @ r) \<inter> set dangerous_chars = {}"
    using valid_name_safe [OF ov(2)] valid_name_safe [OF rv(2)] by auto
  ultimately show ?thesis
    using ov rv by (simp add: valid_name_def MAX_OWNER_LENGTH_def MAX_REPO_LENGTH_def)
qed

theorem accepted_pair_names_one_repository_witness:
  "assertValidRepoIdentifier (JStr ''octo-cat'') (JStr ''my.book_1'')
     = Inr (''octo-cat'', ''my.book_1'')
   \<and> path_segments (clone_path ''octo-cat'' ''my.book_1'') = [''octo-cat'', ''my.book_1.git'']"
proof -
  have h: "assertValidRepoIdentifier (JStr ''octo-cat'') (JStr ''my.book_1'')
      = Inr (''octo-cat'', ''my.book_1'')" by code_simp
  from accepted_pair_names_one_repository [OF h] h show ?thesis by simp
qed

text \<open>
  The check is complete and its answer depends on the pair alone: the boolean form holds
  exactly for two strings that are non-empty, within GitHub's length limits, made of the
  permitted characters only, and different from \<^verbatim>\<open>.\<close> and \<^verbatim>\<open>..\<close>; on every other pair the
  throwing form gives an error, of the owner whenever the owner is at fault.
\<close>

theorem identifier_check_exact:
  "isValidRepoIdentifier owner repo = (\<exists>ow r. owner = JStr ow \<and> repo = JStr r
      \<and> valid_name 39 ow \<and> valid_name 100 r)
   \<and> (case assertValidRepoIdentifier owner repo of
        Inr p \<Rightarrow> isValidRepoIdentifier owner repo \<and> owner = JStr (fst p) \<and> repo = JStr (snd p)
      | Inl (InvalidRepoIdentifierError field reason) \<Rightarrow>
          \<not> isValidRepoIdentifier owner repo
          \<and> (field = Owner) = (\<nexists>ow. owner = JStr ow \<and> valid_name 39 ow))"
proof -
  have fields: "validate f v n = Inl (InvalidRepoIdentifierError g reason) \<Longrightarrow> g = f" for f g v n reason
    by (cases v) (auto simp: validate_def split: if_splits)
  show ?thesis
    unfolding isValidRepoIdentifier_iff
    by (auto simp: MAX_OWNER_LENGTH_def MAX_REPO_LENGTH_def assertValidRepoIdentifier_def
        assertValidOwner_def assertValidRepo_def validate_Inr_iff
        split: sum.splits identifier_error.splits dest: fields)
       (metis fields validate_Inr_iff sum.distinct(1) repo_field.distinct(1))+
qed

end
