(* ===== verification/AiBudget.thy ===== *)
theory AiBudget imports Prelude begin

text \<open>
  \<^verbatim>\<open>backend/src/services/aiUsageBudget.ts\<close>: the limits on paid model calls, a fixed
  window per user and a total per UTC day. The locale \<open>counter_store\<close> is the contract of
  the interface \<^verbatim>\<open>CounterStore\<close>; the in-process store is its interpretation, and the
  budget's bounds follow from the contract's lemmas.

  The hash that shortens a user key is a parameter, as is the store shared through Redis,
  whose increment may throw (\<open>None\<close>). A call reads the clock once.
\<close>

definition USER_WINDOW_MS :: int where "USER_WINDOW_MS = 10 * 60000"

definition USER_MAX_CALLS :: nat where "USER_MAX_CALLS = 10"

definition DEFAULT_DAILY_LIMIT :: int where "DEFAULT_DAILY_LIMIT = 500"

datatype budget_verdict = BudgetOk | UserLimit | DailyLimit

definition getDailyLimit :: "string option \<Rightarrow> int" where
  "getDailyLimit env =
     (case parse_int (opt_str env) of
        Some n \<Rightarrow> if n \<ge> 0 then n else DEFAULT_DAILY_LIMIT
      | None \<Rightarrow> DEFAULT_DAILY_LIMIT)"

section \<open>The in-process counter store\<close>

record counter =
  count :: nat
  expiresAt :: int

type_synonym counters = "(string, counter) jsmap"

definition mem_increment :: "int \<Rightarrow> string \<Rightarrow> int \<Rightarrow> counters \<Rightarrow> nat \<times> counters" where
  "mem_increment time key ttlSeconds counts =
     (let counts1 = (if length counts > 5000
                     then filter (\<lambda>(k, entry). \<not> expiresAt entry \<le> time) counts else counts);
          current = map_get counts1 key;
          new = (case current of
                   Some c \<Rightarrow> if expiresAt c > time then count c + 1 else 1
                 | None \<Rightarrow> 1);
          expiry = (case current of
                      Some c \<Rightarrow> if expiresAt c > time then expiresAt c else time + ttlSeconds * 1000
                    | None \<Rightarrow> time + ttlSeconds * 1000)
      in (new, map_set key \<lparr>count = new, expiresAt = expiry\<rparr> counts1))"

section \<open>Reserving a call\<close>

text \<open>
  \<open>usingMemory\<close> is the local variable \<^verbatim>\<open>counters\<close>: it starts as the shared store when
  Redis state is enabled and falls back to the in-process store, for the rest of the call,
  as soon as an increment throws.
\<close>

definition budget_count ::
    "(int \<Rightarrow> string \<Rightarrow> int \<Rightarrow> 's \<Rightarrow> (nat \<times> 's) option) \<Rightarrow> int \<Rightarrow> string \<Rightarrow> int \<Rightarrow>
     bool \<times> 's \<times> counters \<Rightarrow> nat \<times> (bool \<times> 's \<times> counters)" where
  "budget_count incr time key ttlSeconds st =
     (case st of (usingMemory, s, mem) \<Rightarrow>
        if usingMemory then
          (case mem_increment time key ttlSeconds mem of (v, mem') \<Rightarrow> (v, (True, s, mem')))
        else case incr time key ttlSeconds s of
            Some (v, s') \<Rightarrow> (v, (False, s', mem))
          | None \<Rightarrow> (case mem_increment time key ttlSeconds mem of (v, mem') \<Rightarrow> (v, (True, s, mem'))))"

definition user_key :: "(string \<Rightarrow> string) \<Rightarrow> string \<Rightarrow> int \<Rightarrow> string" where
  "user_key userKeyPart userKey time =
     ''proofdesk:ai:user:'' @ userKeyPart userKey @ '':'' @ dec_int (time div USER_WINDOW_MS)"

definition day_key :: "int \<Rightarrow> string" where
  "day_key time = ''proofdesk:ai:day:'' @ iso_day time"

definition reserveModelCall ::
    "(int \<Rightarrow> string \<Rightarrow> int \<Rightarrow> 's \<Rightarrow> (nat \<times> 's) option) \<Rightarrow> (string \<Rightarrow> string) \<Rightarrow> bool \<Rightarrow> int \<Rightarrow>
     string \<Rightarrow> int \<Rightarrow> 's \<times> counters \<Rightarrow> budget_verdict \<times> ('s \<times> counters)" where
  "reserveModelCall incr userKeyPart redisEnabled dailyLimit userKey time stores =
     (case stores of (s, mem) \<Rightarrow>
      case budget_count incr time (user_key userKeyPart userKey time) (USER_WINDOW_MS div 1000)
             (\<not> redisEnabled, s, mem) of
        (userCalls, st1) \<Rightarrow>
          if userCalls > USER_MAX_CALLS then (UserLimit, snd st1)
          else if dailyLimit > 0 then
            (case budget_count incr time (day_key time) (2 * 24 * 60 * 60) st1 of
               (dayCalls, st2) \<Rightarrow>
                 if int dayCalls > dailyLimit then (DailyLimit, snd st2) else (BudgetOk, snd st2))
          else (BudgetOk, snd st1))"

text \<open>A sequence of calls, each a user and a time, on a server without Redis.\<close>

fun run_calls ::
    "(string \<Rightarrow> string) \<Rightarrow> int \<Rightarrow> counters \<Rightarrow> (string \<times> int) list \<Rightarrow> budget_verdict list" where
  "run_calls userKeyPart dailyLimit mem [] = []"
| "run_calls userKeyPart dailyLimit mem ((u, t) # calls) =
     (case reserveModelCall (\<lambda>_ _ _ _. None) userKeyPart False dailyLimit u t ((), mem) of
        (verdict, (_, mem')) \<Rightarrow> verdict # run_calls userKeyPart dailyLimit mem' calls)"

section \<open>The contract of a counter store\<close>

text \<open>
  \<open>live s t k\<close> is the count of \<open>k\<close> that a caller sees at time \<open>t\<close>, with the time it
  expires.
\<close>

locale counter_store =
  fixes incr :: "int \<Rightarrow> string \<Rightarrow> int \<Rightarrow> 's \<Rightarrow> nat \<times> 's"
    and live :: "'s \<Rightarrow> int \<Rightarrow> string \<Rightarrow> (nat \<times> int) option"
    and ok :: "'s \<Rightarrow> bool"
  assumes incr_ok: "ok s \<Longrightarrow> ok (snd (incr t k ttl s))"
    and incr_value: "ok s \<Longrightarrow> fst (incr t k ttl s) = (case live s t k of Some (n, e) \<Rightarrow> n + 1 | None \<Rightarrow> 1)"
    and incr_same: "ok s \<Longrightarrow> t \<le> t' \<Longrightarrow>
      live (snd (incr t k ttl s)) t' k =
        (let e = (case live s t k of Some (n, e) \<Rightarrow> e | None \<Rightarrow> t + ttl * 1000)
         in if t' < e then Some (fst (incr t k ttl s), e) else None)"
    and incr_other: "ok s \<Longrightarrow> t \<le> t' \<Longrightarrow> k' \<noteq> k \<Longrightarrow>
      live (snd (incr t k ttl s)) t' k' = live s t' k'"
begin

text \<open>From time \<open>a\<close> up to \<open>T\<close> the key shows exactly \<open>n\<close> counted calls.\<close>

definition counted :: "'s \<Rightarrow> int \<Rightarrow> int \<Rightarrow> string \<Rightarrow> nat \<Rightarrow> bool" where
  "counted s a T k n =
     (\<forall>t. a \<le> t \<and> t < T \<longrightarrow> (if n = 0 then live s t k = None else (\<exists>e \<ge> T. live s t k = Some (n, e))))"

lemma counted_same:
  assumes "ok s" and "counted s a T k n" and "a \<le> t" and "t < T" and "T \<le> t + ttl * 1000"
  shows "fst (incr t k ttl s) = Suc n \<and> counted (snd (incr t k ttl s)) t T k (Suc n)"
proof -
  have now: "if n = 0 then live s t k = None else (\<exists>e \<ge> T. live s t k = Some (n, e))"
    using assms by (auto simp: counted_def)
  then have v: "fst (incr t k ttl s) = Suc n"
    using incr_value [OF assms(1)] by (auto split: if_splits)
  with now assms show ?thesis
    by (auto simp: counted_def incr_same Let_def split: if_splits)
qed

lemma counted_other:
  assumes "ok s" and "counted s a T k n" and "a \<le> t" and "k' \<noteq> k"
  shows "counted (snd (incr t k' ttl s)) t T k n"
  using assms by (auto simp: counted_def incr_other)

end

definition mem_live :: "counters \<Rightarrow> int \<Rightarrow> string \<Rightarrow> (nat \<times> int) option" where
  "mem_live mem t k =
     (case map_get mem k of
        Some c \<Rightarrow> if expiresAt c > t then Some (count c, expiresAt c) else None
      | None \<Rightarrow> None)"

lemma mem_live_cleanup:
  "keys_distinct mem \<Longrightarrow> t \<le> t' \<Longrightarrow>
   mem_live (filter (\<lambda>(k, entry). \<not> expiresAt entry \<le> t) mem) t' k = mem_live mem t' k"
  by (auto simp: mem_live_def map_of_filter_value split: option.splits)

interpretation mem: counter_store mem_increment mem_live keys_distinct
proof
  fix s :: counters and t t' ttl :: int and k k' :: string
  assume dist: "keys_distinct s"
  show "keys_distinct (snd (mem_increment t k ttl s))"
    using dist by (auto simp: mem_increment_def Let_def intro!: jsmap_keys)
  let ?s1 = "if length s > 5000 then filter (\<lambda>(k, entry). \<not> expiresAt entry \<le> t) s else s"
  have live1: "mem_live ?s1 u j = mem_live s u j" if "t \<le> u" for u j
    using dist that by (simp add: mem_live_cleanup)
  have step: "fst (mem_increment t k ttl s) = (case mem_live ?s1 t k of Some (n, e) \<Rightarrow> n + 1 | None \<Rightarrow> 1)"
    "snd (mem_increment t k ttl s) = map_set k
       \<lparr>count = fst (mem_increment t k ttl s),
        expiresAt = (case mem_live ?s1 t k of Some (n, e) \<Rightarrow> e | None \<Rightarrow> t + ttl * 1000)\<rparr> ?s1"
    by (auto simp: mem_increment_def mem_live_def Let_def split: option.splits)
  show "fst (mem_increment t k ttl s) = (case mem_live s t k of Some (n, e) \<Rightarrow> n + 1 | None \<Rightarrow> 1)"
    unfolding step(1) by (simp only: live1 order.refl)
  assume "t \<le> t'"
  show "mem_live (snd (mem_increment t k ttl s)) t' k =
        (let e = (case mem_live s t k of Some (n, e) \<Rightarrow> e | None \<Rightarrow> t + ttl * 1000)
         in if t' < e then Some (fst (mem_increment t k ttl s), e) else None)"
    unfolding step(2) live1 [OF order.refl] by (simp add: mem_live_def Let_def)
  assume "k' \<noteq> k"
  then have "mem_live (snd (mem_increment t k ttl s)) t' k' = mem_live ?s1 t' k'"
    unfolding step(2) by (simp add: mem_live_def)
  then show "mem_live (snd (mem_increment t k ttl s)) t' k' = mem_live s t' k'"
    using live1 [OF \<open>t \<le> t'\<close>] by simp
qed

section \<open>Bounds on the calls that get through\<close>

lemma user_key_inject:
  "user_key h v t = user_key h u t' \<longleftrightarrow> h v = h u \<and> t div USER_WINDOW_MS = t' div USER_WINDOW_MS"
proof -
  have last_colon: "x = y \<and> a = b" if "x @ CHR '':'' # a = y @ CHR '':'' # b"
    and "CHR '':'' \<notin> set a" and "CHR '':'' \<notin> set b" for x y a b :: string
  proof -
    from that(1) have "split_on (CHR '':'') (x @ CHR '':'' # a) = split_on (CHR '':'') (y @ CHR '':'' # b)"
      by simp
    with that(2,3) have "a = b" by (simp add: split_on_append)
    with that(1) show ?thesis by simp
  qed
  show ?thesis
    using last_colon [OF _ colon_notin_dec_int colon_notin_dec_int]
    by (auto simp: user_key_def)
qed

lemma user_key_not_day_key: "user_key h v t \<noteq> day_key t'"
  by (simp add: user_key_def day_key_def)

text \<open>One call on a server without Redis, seen through the counters it touches.\<close>

definition memory_call ::
    "(string \<Rightarrow> string) \<Rightarrow> int \<Rightarrow> string \<Rightarrow> int \<Rightarrow> counters \<Rightarrow> budget_verdict \<times> counters" where
  "memory_call h dailyLimit u t mem =
     (case reserveModelCall (\<lambda>_ _ _ _. None) h False dailyLimit u t ((), mem) of
        (verdict, (_, mem')) \<Rightarrow> (verdict, mem'))"

lemma run_calls_Cons:
  "run_calls h dailyLimit mem ((u, t) # calls) =
     fst (memory_call h dailyLimit u t mem)
     # run_calls h dailyLimit (snd (memory_call h dailyLimit u t mem)) calls"
  by (simp add: memory_call_def split: prod.splits)

lemma memory_call_eq:
  "memory_call h dailyLimit u t mem =
     (let r1 = mem_increment t (user_key h u t) 600 mem;
          r2 = mem_increment t (day_key t) 172800 (snd r1)
      in if fst r1 > USER_MAX_CALLS then (UserLimit, snd r1)
         else if dailyLimit > 0 then (if int (fst r2) > dailyLimit then DailyLimit else BudgetOk, snd r2)
         else (BudgetOk, snd r1))"
  by (simp add: memory_call_def reserveModelCall_def budget_count_def USER_WINDOW_MS_def Let_def
      split: prod.splits)

lemma memory_call_distinct:
  "keys_distinct mem \<Longrightarrow> keys_distinct (snd (memory_call h dailyLimit u t mem))"
  by (simp add: memory_call_eq Let_def mem.incr_ok)

lemma memory_call_other:
  assumes "keys_distinct mem" and "mem.counted mem a T k n" and "a \<le> t"
    and "user_key h u t \<noteq> k" and "day_key t \<noteq> k"
  shows "mem.counted (snd (memory_call h dailyLimit u t mem)) t T k n"
  using assms
  by (simp add: memory_call_eq Let_def mem.counted_other [where a = t] mem.counted_other [where a = a]
      mem.incr_ok)

lemma memory_call_user:
  assumes "keys_distinct mem" and "mem.counted mem a T (user_key h u t) n" and "a \<le> t" and "t < T"
    and "T \<le> t + USER_WINDOW_MS"
  shows "(fst (memory_call h dailyLimit u t mem) \<noteq> UserLimit) = (n < USER_MAX_CALLS)
         \<and> mem.counted (snd (memory_call h dailyLimit u t mem)) t T (user_key h u t) (Suc n)"
proof -
  have same: "fst (mem_increment t (user_key h u t) 600 mem) = Suc n
      \<and> mem.counted (snd (mem_increment t (user_key h u t) 600 mem)) t T (user_key h u t) (Suc n)"
    using assms by (intro mem.counted_same) (auto simp: USER_WINDOW_MS_def)
  then show ?thesis
    using assms(1) user_key_not_day_key [of h u t t, symmetric]
    by (auto simp: memory_call_eq Let_def mem.counted_other [where a = t] mem.incr_ok)
qed

text \<open>
  The calls of a history, in order, that a test selects, with the verdict each one got.
\<close>

definition verdicts_of ::
    "(string \<times> int \<Rightarrow> bool) \<Rightarrow> (string \<times> int) list \<Rightarrow> budget_verdict list \<Rightarrow> budget_verdict list" where
  "verdicts_of sel calls verdicts = map snd (filter (\<lambda>(c, v). sel c) (zip calls verdicts))"

lemma verdicts_of_simps [simp]:
  "verdicts_of sel [] vs = []"
  "verdicts_of sel (c # cs) (v # vs) = (if sel c then v # verdicts_of sel cs vs else verdicts_of sel cs vs)"
  by (auto simp: verdicts_of_def)

definition user_window :: "(string \<Rightarrow> string) \<Rightarrow> string \<Rightarrow> int \<Rightarrow> string \<times> int \<Rightarrow> bool" where
  "user_window h u w = (\<lambda>(v, t). h v = h u \<and> t div USER_WINDOW_MS = w)"

definition passed :: "budget_verdict list \<Rightarrow> nat" where
  "passed vs = length (filter (\<lambda>v. v \<noteq> UserLimit) vs)"

lemma passed_simps [simp]:
  "passed [] = 0" "passed (v # vs) = (if v \<noteq> UserLimit then Suc (passed vs) else passed vs)"
  by (auto simp: passed_def)

lemma window_over:
  assumes "\<forall>(v, t) \<in> set calls. T \<le> t" and "T = (w + 1) * USER_WINDOW_MS"
  shows "verdicts_of (user_window h u w) calls vs = []"
proof -
  have "\<not> user_window h u w (v, t)" if "T \<le> t" for v t
    using that assms(2) by (auto simp: user_window_def USER_WINDOW_MS_def)
  with assms(1) show ?thesis
    by (fastforce simp: verdicts_of_def filter_empty_conv dest: set_zip_leftD)
qed

lemma run_calls_window:
  assumes "keys_distinct mem" and "mem.counted mem a T (user_key h u (w * USER_WINDOW_MS)) n"
    and "sorted (map snd calls)" and "\<forall>(v, t) \<in> set calls. a \<le> t"
    and T: "T = (w + 1) * USER_WINDOW_MS"
  shows "passed (verdicts_of (user_window h u w) calls (run_calls h dailyLimit mem calls))
         = min (USER_MAX_CALLS - n)
               (length (verdicts_of (user_window h u w) calls (run_calls h dailyLimit mem calls)))"
  using assms(1-4)
proof (induction calls arbitrary: mem a n)
  case (Cons call calls)
  obtain v t where call: "call = (v, t)" by (cases call)
  let ?K = "user_key h u (w * USER_WINDOW_MS)"
  let ?mem = "snd (memory_call h dailyLimit v t mem)"
  have at: "a \<le> t" and later: "\<forall>(v', t') \<in> set calls. t \<le> t'"
    and srt: "sorted (map snd calls)"
    using Cons.prems call by auto
  have dist: "keys_distinct ?mem" by (rule memory_call_distinct [OF Cons.prems(1)])
  have w0: "w * USER_WINDOW_MS div USER_WINDOW_MS = w" by (simp add: USER_WINDOW_MS_def)
  show ?case
  proof (cases "user_window h u w (v, t)")
    case True
    then have K: "user_key h v t = ?K" by (auto simp: user_window_def user_key_inject w0)
    have "t < T" and "T \<le> t + USER_WINDOW_MS"
      using True T by (auto simp: user_window_def USER_WINDOW_MS_def)
    with memory_call_user [of mem a T h v t n dailyLimit] K Cons.prems at
    have step: "(fst (memory_call h dailyLimit v t mem) \<noteq> UserLimit) = (n < USER_MAX_CALLS)"
      and cnt: "mem.counted ?mem t T ?K (Suc n)" by auto
    from Cons.IH [OF dist cnt srt later] step True show ?thesis
      by (auto simp: call run_calls_Cons simp del: run_calls.simps)
  next
    case False
    show ?thesis
    proof (cases "t < T")
      case True
      have "user_key h v t \<noteq> ?K" using False by (auto simp: user_window_def user_key_inject w0)
      then have "mem.counted ?mem t T ?K n"
        using Cons.prems at user_key_not_day_key by (intro memory_call_other) (auto simp: eq_commute)
      from Cons.IH [OF dist this srt later] False show ?thesis
        by (simp add: call run_calls_Cons del: run_calls.simps)
    next
      case late: False
      then have "verdicts_of (user_window h u w) calls (run_calls h dailyLimit ?mem calls) = []"
        using later by (intro window_over [OF _ T]) auto
      with False show ?thesis by (simp add: call run_calls_Cons del: run_calls.simps)
    qed
  qed
qed simp

lemma window_count:
  assumes "sorted (map snd calls)"
  shows "passed (verdicts_of (user_window h u w) calls (run_calls h dailyLimit [] calls))
         = min 10 (length (verdicts_of (user_window h u w) calls (run_calls h dailyLimit [] calls)))"
proof (cases calls)
  case (Cons c cs)
  have "mem.counted [] (snd c) T k 0" for T k
    by (simp add: mem.counted_def mem_live_def)
  with assms Cons have
    "passed (verdicts_of (user_window h u w) calls (run_calls h dailyLimit [] calls))
     = min (USER_MAX_CALLS - 0)
         (length (verdicts_of (user_window h u w) calls (run_calls h dailyLimit [] calls)))"
    by (intro run_calls_window) auto
  then show ?thesis by (simp add: USER_MAX_CALLS_def)
qed simp

text \<open>
  However the calls of all users interleave, within any one window of ten minutes the
  server lets exactly the first ten calls of a user (of a hashed user key) pass the user
  limit and refuses all later ones: neither the expiry of counters nor the clean-up of a
  large store ever gives the user an eleventh call.
\<close>

theorem user_window_bound:
  assumes "sorted (map snd calls)"
  shows "passed (verdicts_of (user_window h u w) calls (run_calls h dailyLimit [] calls))
         = min 10 (length (verdicts_of (user_window h u w) calls (run_calls h dailyLimit [] calls)))"
  by (rule window_count [OF assms])

theorem user_window_bound_witness:
  "passed (verdicts_of (user_window id ''ann'' 0) (replicate 12 (''ann'', 5))
     (run_calls id 500 [] (replicate 12 (''ann'', 5)))) = 10"
proof -
  have "sorted (map snd (replicate 12 (''ann'', 5 :: int)))" by simp
  from user_window_bound [OF this, of id "''ann''" 0 500]
  show ?thesis
    by (simp add: verdicts_of_def user_window_def USER_WINDOW_MS_def run_calls_Cons
        eval_nat_numeral del: run_calls.simps(2))
qed

lemma memory_call_day:
  assumes "keys_distinct mem" and "mem.counted mem a T (day_key t) n" and "a \<le> t" and "t < T"
    and "T \<le> t + 172800000" and "dailyLimit > 0"
  shows "if fst (memory_call h dailyLimit u t mem) = UserLimit
         then mem.counted (snd (memory_call h dailyLimit u t mem)) t T (day_key t) n
         else (fst (memory_call h dailyLimit u t mem) = BudgetOk) = (int n < dailyLimit)
              \<and> mem.counted (snd (memory_call h dailyLimit u t mem)) t T (day_key t) (Suc n)"
proof -
  let ?s1 = "snd (mem_increment t (user_key h u t) 600 mem)"
  have ok: "keys_distinct ?s1" using assms(1) by (rule mem.incr_ok)
  have s1: "mem.counted ?s1 t T (day_key t) n"
    using assms(1-3) user_key_not_day_key by (intro mem.counted_other)
  have "fst (mem_increment t (day_key t) 172800 ?s1) = Suc n
      \<and> mem.counted (snd (mem_increment t (day_key t) 172800 ?s1)) t T (day_key t) (Suc n)"
    by (rule mem.counted_same [OF ok s1]) (use assms in auto)
  with s1 assms(6) show ?thesis by (auto simp: memory_call_eq Let_def)
qed

definition granted :: "budget_verdict list \<Rightarrow> nat" where
  "granted vs = length (filter (\<lambda>v. v = BudgetOk) vs)"

lemma granted_simps [simp]:
  "granted [] = 0" "granted (v # vs) = (if v = BudgetOk then Suc (granted vs) else granted vs)"
  by (auto simp: granted_def)

lemma day_key_same: "t div 86400000 = t' div 86400000 \<Longrightarrow> day_key t = day_key t'"
  by (simp add: day_key_def iso_day_def)

lemma run_calls_day:
  assumes "keys_distinct mem" and "mem.counted mem a T (day_key (d * 86400000)) n"
    and "sorted (map snd calls)" and "\<forall>(v, t) \<in> set calls. a \<le> t \<and> t div 86400000 = d"
    and T: "T = (d + 1) * 86400000" and limit: "dailyLimit > 0"
  shows "granted (run_calls h dailyLimit mem calls)
         = min (nat dailyLimit - n) (passed (run_calls h dailyLimit mem calls))"
  using assms(1-4)
proof (induction calls arbitrary: mem a n)
  case (Cons call calls)
  obtain v t where call: "call = (v, t)" by (cases call)
  let ?K = "day_key (d * 86400000)"
  let ?mem = "snd (memory_call h dailyLimit v t mem)"
  have t: "a \<le> t" "t div 86400000 = d" using Cons.prems(4) call by auto
  have K: "day_key t = ?K" using t(2) by (intro day_key_same) simp
  have dist: "keys_distinct ?mem" by (rule memory_call_distinct [OF Cons.prems(1)])
  have srt: "sorted (map snd calls)"
    and later: "\<forall>(v', t') \<in> set calls. t \<le> t' \<and> t' div 86400000 = d"
    using Cons.prems(3,4) call by auto
  have tT: "t < T" "T \<le> t + 172800000" using t(2) T by auto
  have step: "if fst (memory_call h dailyLimit v t mem) = UserLimit then mem.counted ?mem t T ?K n
      else (fst (memory_call h dailyLimit v t mem) = BudgetOk) = (int n < dailyLimit)
           \<and> mem.counted ?mem t T ?K (Suc n)"
    by (rule memory_call_day [of mem a T t n dailyLimit h v, unfolded K,
          OF Cons.prems(1,2) t(1) tT limit])
  show ?case
  proof (cases "fst (memory_call h dailyLimit v t mem) = UserLimit")
    case True
    with step Cons.IH [OF dist _ srt later, of n] show ?thesis
      by (simp add: call run_calls_Cons del: run_calls.simps)
  next
    case False
    with step Cons.IH [OF dist _ srt later, of "Suc n"] show ?thesis
      by (auto simp: call run_calls_Cons simp del: run_calls.simps)
  qed
qed simp

lemma day_count:
  assumes "sorted (map snd calls)" and "\<forall>(v, t) \<in> set calls. t div 86400000 = d"
    and "0 < dailyLimit"
  shows "granted (run_calls h dailyLimit [] calls)
         = min (nat dailyLimit) (passed (run_calls h dailyLimit [] calls))"
proof (cases calls)
  case (Cons c cs)
  have "mem.counted [] (snd c) T k 0" for T k
    by (simp add: mem.counted_def mem_live_def)
  moreover have "\<forall>(v, t) \<in> set calls. snd c \<le> t \<and> t div 86400000 = d"
    using assms(1,2) Cons by auto
  ultimately show ?thesis
    using run_calls_day [of "[]" "snd c" "(d + 1) * 86400000" d 0 calls dailyLimit h] assms by simp
qed simp

text \<open>
  On one UTC day the server grants exactly as many calls as the daily limit
  allows, counting only calls that passed their user's window: a call refused for the user
  does not use up the day, and every call past the limit is refused.
\<close>

theorem daily_bound:
  assumes "sorted (map snd calls)" and "\<forall>(v, t) \<in> set calls. t div 86400000 = d"
    and "0 < dailyLimit"
  shows "granted (run_calls h dailyLimit [] calls)
         = min (nat dailyLimit) (passed (run_calls h dailyLimit [] calls))"
  by (rule day_count [OF assms])

theorem daily_bound_witness:
  "granted (run_calls id 2 [] [(''ann'', 5), (''bob'', 6), (''cy'', 7)])
   = min 2 (passed (run_calls id 2 [] [(''ann'', 5), (''bob'', 6), (''cy'', 7)]))"
  using daily_bound [of "[(''ann'', 5), (''bob'', 6), (''cy'', 7)]" 0 2 id] by simp

end
