(* ===== verification/Cookies.thy ===== *)
theory Cookies imports Prelude begin

text \<open>
  The cookie functions of \<^verbatim>\<open>backend/src/services/authSessionStore.ts\<close>, with the two
  functions of the language they rest on, \<^verbatim>\<open>encodeURIComponent\<close> and
  \<^verbatim>\<open>decodeURIComponent\<close>, for code units below 256. An escape that stands for a larger code
  point has no value here and counts as malformed. The main lemma is the round trip: a
  header that sets encoded values is parsed back to those values.
\<close>

section \<open>Percent encoding\<close>

definition hex_digit :: "nat \<Rightarrow> char" where
  "hex_digit n = (if n < 10 then char_of (48 + n) else char_of (55 + n))"

definition hex_val :: "char \<Rightarrow> nat option" where
  "hex_val c = (let n = (of_char c :: nat) in
     if 48 \<le> n \<and> n \<le> 57 then Some (n - 48)
     else if 65 \<le> n \<and> n \<le> 70 then Some (n - 55)
     else if 97 \<le> n \<and> n \<le> 102 then Some (n - 87) else None)"

definition escape_byte :: "nat \<Rightarrow> string" where
  "escape_byte b = [CHR ''%'', hex_digit (b div 16), hex_digit (b mod 16)]"

definition uri_unreserved :: "char \<Rightarrow> bool" where
  "uri_unreserved c = (is_alpha c \<or> is_digit c \<or> c \<in> set (''-_.!~*()'' @ [CHR 0x27]))"

definition encode_char :: "char \<Rightarrow> string" where
  "encode_char c = (let n = (of_char c :: nat) in
     if uri_unreserved c then [c]
     else if n < 128 then escape_byte n
     else escape_byte (192 + n div 64) @ escape_byte (128 + n mod 64))"

definition encodeURIComponent :: "string \<Rightarrow> string" where
  "encodeURIComponent s = concat (map encode_char s)"

definition hex_pair :: "char \<Rightarrow> char \<Rightarrow> nat option" where
  "hex_pair a b = (case (hex_val a, hex_val b) of (Some x, Some y) \<Rightarrow> Some (16 * x + y) | _ \<Rightarrow> None)"

fun decodeURIComponent :: "string \<Rightarrow> string option" where
  "decodeURIComponent [] = Some []"
| "decodeURIComponent (c # cs) =
     (if c \<noteq> CHR ''%'' then map_option ((#) c) (decodeURIComponent cs)
      else case cs of
          h1 # h2 # rest \<Rightarrow>
            (case hex_pair h1 h2 of
               None \<Rightarrow> None
             | Some b \<Rightarrow>
                 if b < 128 then map_option ((#) (char_of b)) (decodeURIComponent rest)
                 else if b = 194 \<or> b = 195 then
                   (case rest of
                      p # h3 # h4 # rest' \<Rightarrow>
                        (case hex_pair h3 h4 of
                           None \<Rightarrow> None
                         | Some b2 \<Rightarrow>
                             if p = CHR ''%'' \<and> 128 \<le> b2 \<and> b2 < 192
                             then map_option ((#) (char_of ((b - 192) * 64 + (b2 - 128))))
                                    (decodeURIComponent rest')
                             else None)
                    | _ \<Rightarrow> None)
                 else None)
        | _ \<Rightarrow> None)"

section \<open>The header functions\<close>

record cookie_options =
  maxAge :: "int option"
  cookie_path :: string
  httpOnly :: bool
  sameSite :: string
  secure :: bool

definition toCookieHeader :: "string \<Rightarrow> string \<Rightarrow> cookie_options \<Rightarrow> string" where
  "toCookieHeader name v options =
     join ''; ''
       ([name @ ''='' @ encodeURIComponent v]
        @ (case maxAge options of None \<Rightarrow> [] | Some a \<Rightarrow> [''Max-Age='' @ dec_int a])
        @ (if cookie_path options \<noteq> [] then [''Path='' @ cookie_path options] else [])
        @ (if httpOnly options then [''HttpOnly''] else [])
        @ (if sameSite options \<noteq> [] then [''SameSite='' @ sameSite options] else [])
        @ (if secure options then [''Secure''] else []))"

text \<open>\<open>None\<close>: the \<^verbatim>\<open>URIError\<close> that \<^verbatim>\<open>decodeURIComponent\<close> throws out of the reduction.\<close>

fun add_cookies :: "string list \<Rightarrow> (string, string) jsmap \<Rightarrow> (string, string) jsmap option" where
  "add_cookies [] cookies = Some cookies"
| "add_cookies (entry # entries) cookies =
     (case index_of ''='' entry of
        None \<Rightarrow> add_cookies entries cookies
      | Some i \<Rightarrow>
          (case decodeURIComponent (trim (drop (i + 1) entry)) of
             None \<Rightarrow> None
           | Some v \<Rightarrow> add_cookies entries (map_set (trim (take i entry)) v cookies)))"

definition parseCookies :: "string \<Rightarrow> (string, string) jsmap option" where
  "parseCookies cookieHeader =
     add_cookies (filter (\<lambda>entry. entry \<noteq> []) (map trim (split_on (CHR '';'') cookieHeader))) []"

section \<open>Encoding and decoding\<close>

lemma hex_val_digit: "n < 16 \<Longrightarrow> hex_val (hex_digit n) = Some n"
  by (auto simp: hex_val_def hex_digit_def Let_def)

lemma hex_pair_byte: "b < 256 \<Longrightarrow> hex_pair (hex_digit (b div 16)) (hex_digit (b mod 16)) = Some b"
  by (simp add: hex_pair_def hex_val_digit)

lemma decode_escape_low:
  "b < 128 \<Longrightarrow> decodeURIComponent (escape_byte b @ rest)
     = map_option ((#) (char_of b)) (decodeURIComponent rest)"
  by (simp add: escape_byte_def hex_pair_byte)

lemma decode_escape_high:
  assumes "128 \<le> n" and "n < 256"
  shows "decodeURIComponent (escape_byte (192 + n div 64) @ escape_byte (128 + n mod 64) @ rest)
         = map_option ((#) (char_of n)) (decodeURIComponent rest)"
proof -
  have "n div 64 = 2 \<or> n div 64 = 3" using assms by auto
  moreover have "192 + n div 64 < 256" and "128 + n mod 64 < 256" using assms by auto
  moreover have "n div 64 * 64 + n mod 64 = n" by simp
  ultimately show ?thesis
    by (auto simp: escape_byte_def hex_pair_byte simp del: div_mult_mod_eq)
qed

lemma decode_encode_char:
  "decodeURIComponent (encode_char c @ rest) = map_option ((#) c) (decodeURIComponent rest)"
proof -
  have small: "(of_char c :: nat) < 256" by simp
  have "c \<noteq> CHR ''%''" if "uri_unreserved c"
  proof
    assume "c = CHR ''%''"
    moreover have "\<not> uri_unreserved (CHR ''%'')" by code_simp
    ultimately show False using that by simp
  qed
  then have plain: "decodeURIComponent ([c] @ rest) = map_option ((#) c) (decodeURIComponent rest)"
    if "uri_unreserved c" using that by simp
  consider "uri_unreserved c" | "\<not> uri_unreserved c" "(of_char c :: nat) < 128"
    | "\<not> uri_unreserved c" "128 \<le> (of_char c :: nat)" by linarith
  then show ?thesis
  proof cases
    case 1
    with plain show ?thesis by (simp add: encode_char_def Let_def)
  next
    case 2
    then show ?thesis by (simp add: encode_char_def Let_def decode_escape_low)
  next
    case 3
    with small show ?thesis
      using decode_escape_high [of "of_char c" rest] by (simp add: encode_char_def Let_def)
  qed
qed

lemma decode_encode [simp]: "decodeURIComponent (encodeURIComponent s) = Some s"
  by (induction s) (simp_all add: encodeURIComponent_def decode_encode_char)

text \<open>An encoded value holds no separator of the header and no white space.\<close>

definition header_safe :: "char \<Rightarrow> bool" where
  "header_safe c = (c \<noteq> CHR '';'' \<and> c \<noteq> CHR ''='' \<and> \<not> is_space c)"

lemma header_safe_digits: "n < 16 \<Longrightarrow> header_safe (hex_digit n)"
proof -
  have "list_all (\<lambda>n. header_safe (hex_digit n)) [0..<16]" by code_simp
  then show "n < 16 \<Longrightarrow> header_safe (hex_digit n)" by (simp add: list_all_iff)
qed

lemma header_safe_escape: "b < 256 \<Longrightarrow> list_all header_safe (escape_byte b)"
proof -
  have "header_safe (CHR ''%'')" by code_simp
  then show "b < 256 \<Longrightarrow> list_all header_safe (escape_byte b)"
    by (simp add: escape_byte_def header_safe_digits)
qed

lemma header_safe_unreserved: "uri_unreserved c \<Longrightarrow> header_safe c"
  by (auto simp: uri_unreserved_def header_safe_def is_alpha_def is_upper_az_def is_lower_az_def
      is_digit_def is_space_def Let_def)

lemma header_safe_encode: "list_all header_safe (encodeURIComponent s)"
proof (induction s)
  case (Cons c s)
  have "192 + (of_char c :: nat) div 64 < 256" and "128 + (of_char c :: nat) mod 64 < 256"
    using nat_of_char_less_256 [of c] by linarith+
  then have "list_all header_safe (encode_char c)"
    using header_safe_unreserved [of c]
    by (auto simp: encode_char_def Let_def simp del: add_less_cancel_left
        intro!: header_safe_escape)
  with Cons show ?case by (simp add: encodeURIComponent_def)
qed (simp add: encodeURIComponent_def)

section \<open>The round trip\<close>

definition cookie_header :: "(string \<times> string) list \<Rightarrow> string" where
  "cookie_header cs = join ''; '' (map (\<lambda>(k, v). k @ ''='' @ encodeURIComponent v) cs)"

definition cookie_name :: "string \<Rightarrow> bool" where
  "cookie_name k = (k \<noteq> [] \<and> list_all header_safe k)"

lemma split_header:
  "\<forall>w \<in> set ws. CHR '';'' \<notin> set w \<Longrightarrow>
   split_on (CHR '';'') (join ''; '' ws)
     = (case ws of [] \<Rightarrow> [[]] | w # ws' \<Rightarrow> w # map ((#) (CHR '' '')) ws')"
proof (induction ws)
  case (Cons w ws)
  show ?case
  proof (cases ws)
    case (Cons w2 ws2)
    then have "join ''; '' (w # ws) = w @ CHR '';'' # CHR '' '' # join ''; '' ws"
      by (simp add: join_Cons)
    then show ?thesis
      using Cons.IH Cons.prems \<open>ws = w2 # ws2\<close>
      by (simp add: split_on_append del: join.simps)
  qed (use Cons.prems in simp)
qed simp

lemma trim_Cons_space: "is_space c \<Longrightarrow> trim (c # s) = trim s"
  by (simp add: trim_def trim_start_def)

lemma index_of_eq: "CHR ''='' \<notin> set k \<Longrightarrow> index_of ''='' (k @ ''='' @ e) = Some (length k)"
  by (induction k) auto

lemma space_is_space: "is_space (CHR '' '')"
  by code_simp

lemma pair_trim:
  assumes "cookie_name k"
  shows "trim (k @ ''='' @ encodeURIComponent v) = k @ ''='' @ encodeURIComponent v"
    and "trim k = k" and "trim (encodeURIComponent v) = encodeURIComponent v"
    and "CHR '';'' \<notin> set (k @ ''='' @ encodeURIComponent v)" and "CHR ''='' \<notin> set k"
proof -
  have eq: "\<not> is_space (CHR ''='')" by code_simp
  have k: "\<forall>c \<in> set k. \<not> is_space c \<and> c \<noteq> CHR '';'' \<and> c \<noteq> CHR ''=''"
    using assms by (simp add: cookie_name_def header_safe_def list_all_iff)
  have e: "\<forall>c \<in> set (encodeURIComponent v). \<not> is_space c \<and> c \<noteq> CHR '';'' \<and> c \<noteq> CHR ''=''"
    using header_safe_encode [of v] by (simp add: header_safe_def list_all_iff)
  show "trim (k @ ''='' @ encodeURIComponent v) = k @ ''='' @ encodeURIComponent v"
    by (rule trim_ident) (use k e eq in auto)
  show "trim k = k" and "trim (encodeURIComponent v) = encodeURIComponent v"
    using k e by (simp_all add: trim_ident)
  show "CHR '';'' \<notin> set (k @ ''='' @ encodeURIComponent v)" and "CHR ''='' \<notin> set k"
    using k e by auto
qed

lemma add_cookies_pairs:
  "\<forall>(k, v) \<in> set cs. cookie_name k \<Longrightarrow>
   add_cookies (map (\<lambda>(k, v). k @ ''='' @ encodeURIComponent v) cs) m
     = Some (foldl (\<lambda>m (k, v). map_set k v m) m cs)"
proof (induction cs arbitrary: m)
  case (Cons c cs)
  obtain k v where "c = (k, v)" by (cases c)
  with Cons show ?case
    using pair_trim(2,5) [of k] pair_trim(3) [of k v] index_of_eq [of k "encodeURIComponent v"] by simp
qed simp

lemma trim_split_entries:
  assumes "\<forall>w \<in> set ws. CHR '';'' \<notin> set w \<and> trim w = w \<and> w \<noteq> []"
  shows "filter (\<lambda>entry. entry \<noteq> []) (map trim (split_on (CHR '';'') (join ''; '' ws))) = ws"
proof -
  have tail: "filter (\<lambda>entry. entry \<noteq> []) (map trim (map ((#) (CHR '' '')) us)) = us"
    if "\<forall>w \<in> set us. trim w = w \<and> w \<noteq> []" for us
    using that by (induction us) (simp_all add: trim_Cons_space space_is_space)
  show ?thesis
  proof (cases ws)
    case Nil
    then show ?thesis by (simp add: trim_def trim_start_def trim_end_def)
  next
    case (Cons w us)
    then have "\<forall>w \<in> set us. trim w = w \<and> w \<noteq> []" using assms by simp
    from tail [OF this] show ?thesis
      using assms Cons split_header [of ws] by (simp del: join.simps map_map)
  qed
qed

lemma trim_header_entries:
  assumes "\<forall>(k, v) \<in> set cs. cookie_name k"
  shows "filter (\<lambda>entry. entry \<noteq> []) (map trim (split_on (CHR '';'') (cookie_header cs)))
         = map (\<lambda>(k, v). k @ ''='' @ encodeURIComponent v) cs"
  unfolding cookie_header_def
proof (rule trim_split_entries, rule ballI)
  fix w assume "w \<in> set (map (\<lambda>(k, v). k @ ''='' @ encodeURIComponent v) cs)"
  then obtain k v where "(k, v) \<in> set cs" and w: "w = k @ ''='' @ encodeURIComponent v" by auto
  with assms have "cookie_name k" by auto
  then show "CHR '';'' \<notin> set w \<and> trim w = w \<and> w \<noteq> []"
    unfolding w using pair_trim(1,4) by simp
qed

text \<open>
  A cookie header survives the server's own encoding: for any list of cookies with
  ordinary names, the header that carries their encoded values parses, and looking a name
  up gives the value set last under that name, whatever characters the values hold.
\<close>

theorem parse_cookie_header:
  assumes "\<forall>(k, v) \<in> set cs. cookie_name k"
  shows "\<exists>m. parseCookies (cookie_header cs) = Some m \<and> map_get m = map_of (rev cs)"
proof -
  have "map_get (foldl (\<lambda>m (k, v). map_set k v m) m cs) = map_get m ++ map_of (rev cs)" for m
  proof (induction cs arbitrary: m)
    case (Cons c cs)
    obtain k v where "c = (k, v)" by (cases c)
    with Cons show ?case by (auto simp: update_conv' map_add_def fun_eq_iff split: option.splits)
  qed simp
  then show ?thesis
    using add_cookies_pairs [OF assms] trim_header_entries [OF assms]
    by (simp add: parseCookies_def)
qed

theorem parse_cookie_header_witness:
  "\<exists>m. parseCookies (cookie_header [(''proofdesk_session'', ''ab 1;2''), (''x'', ''%'')]) = Some m
       \<and> map_get m ''proofdesk_session'' = Some ''ab 1;2''"
proof -
  have "\<forall>(k, v) \<in> set [(''proofdesk_session'', ''ab 1;2''), (''x'', ''%'')]. cookie_name k"
    by code_simp
  from parse_cookie_header [OF this] show ?thesis by auto
qed

text \<open>
  One malformed escape anywhere in the header makes the whole header unreadable, the
  session cookie included.
\<close>

lemma malformed_cookie_example:
  "parseCookies ''proofdesk_session=abc; other=50%'' = None"
  by code_simp

end
