(* ===== verification/ExpiringStore.thy ===== *)
theory ExpiringStore imports Prelude begin

text \<open>
  The contract that the stores of time-limited credentials share: the login sessions of
  \<^verbatim>\<open>authSessionStore.ts\<close> and the share links of \<^verbatim>\<open>shareTokenStore.ts\<close>. \<open>fetch t k s\<close> is
  the store's lookup at time \<open>t\<close>, which may touch or remove the entry; \<open>peek s k\<close> is the
  entry itself; \<open>stale t v\<close> says that an entry has outlived its time to live.
\<close>

locale expiring_store =
  fixes fetch :: "int \<Rightarrow> 'k \<Rightarrow> 's \<Rightarrow> 'v option \<times> 's"
    and peek :: "'s \<Rightarrow> 'k \<Rightarrow> 'v option"
    and stale :: "int \<Rightarrow> 'v \<Rightarrow> bool"
    and ok :: "'s \<Rightarrow> bool"
  assumes fetch_ok: "ok s \<Longrightarrow> ok (snd (fetch t k s))"
    and stale_mono: "stale t v \<Longrightarrow> t \<le> t' \<Longrightarrow> stale t' v"
    and fetch_live: "ok s \<Longrightarrow> peek s k = Some v \<Longrightarrow> \<not> stale t v \<Longrightarrow>
      fst (fetch t k s) \<noteq> None \<and> peek (snd (fetch t k s)) k = fst (fetch t k s)"
    and fetch_dead: "ok s \<Longrightarrow> (\<And>v. peek s k = Some v \<Longrightarrow> stale t v) \<Longrightarrow>
      fst (fetch t k s) = None \<and> peek (snd (fetch t k s)) k = None"
    and fetch_other: "ok s \<Longrightarrow> k' \<noteq> k \<Longrightarrow> peek (snd (fetch t k s)) k' = peek s k'"
begin

definition gone :: "'s \<Rightarrow> int \<Rightarrow> 'k \<Rightarrow> bool" where
  "gone s t k = (\<forall>v. peek s k = Some v \<longrightarrow> stale t v)"

lemma gone_later: "gone s t k \<Longrightarrow> t \<le> t' \<Longrightarrow> gone s t' k"
  by (auto simp: gone_def intro: stale_mono)

lemma fetch_gone: "ok s \<Longrightarrow> gone s t k \<Longrightarrow> fst (fetch t k s) = None"
  using fetch_dead [of s k t] by (auto simp: gone_def)

lemma fetch_iff:
  "ok s \<Longrightarrow> fst (fetch t k s) \<noteq> None \<longleftrightarrow> (\<exists>v. peek s k = Some v \<and> \<not> stale t v)"
  by (cases "gone s t k") (auto simp: gone_def fetch_gone dest: fetch_live)

lemma gone_fetch:
  assumes "ok s" and "gone s t k" and "t \<le> t'"
  shows "gone (snd (fetch t' k' s)) t' k"
proof (cases "k' = k")
  case True
  from gone_later [OF assms(2,3)] have "peek s k = Some v \<Longrightarrow> stale t' v" for v
    by (simp add: gone_def)
  with fetch_dead [OF assms(1), of k t'] True show ?thesis by (simp add: gone_def)
next
  case False
  with assms gone_later [OF assms(2,3)] show ?thesis
    by (auto simp: gone_def fetch_other)
qed

text \<open>A sequence of lookups and what each returns.\<close>

fun fetches :: "'s \<Rightarrow> (int \<times> 'k) list \<Rightarrow> 'v option list" where
  "fetches s [] = []"
| "fetches s ((t, k) # qs) = fst (fetch t k s) # fetches (snd (fetch t k s)) qs"

lemma fetches_gone:
  assumes "ok s" and "gone s t k" and "sorted (t # map fst qs)"
  shows "\<forall>(q, r) \<in> set (zip qs (fetches s qs)). snd q = k \<longrightarrow> r = None"
  using assms
proof (induction qs arbitrary: s t)
  case (Cons q qs)
  obtain t' k' where q: "q = (t', k')" by (cases q)
  with Cons.prems have t': "t \<le> t'" "sorted (t' # map fst qs)" by auto
  have "ok (snd (fetch t' k' s))" using Cons.prems(1) by (rule fetch_ok)
  moreover have "gone (snd (fetch t' k' s)) t' k" using Cons.prems t'(1) by (intro gone_fetch)
  ultimately have "\<forall>(q, r) \<in> set (zip qs (fetches (snd (fetch t' k' s)) qs)). snd q = k \<longrightarrow> r = None"
    using t'(2) by (rule Cons.IH)
  moreover have "k' = k \<Longrightarrow> fst (fetch t' k' s) = None"
    using fetch_gone [OF Cons.prems(1) gone_later [OF Cons.prems(2) t'(1)]] by simp
  ultimately show ?case by (simp add: q)
qed simp

end

end
