(* ===== verification/AuthSession.thy ===== *)
theory AuthSession imports Cookies ExpiringStore begin

text \<open>
  \<^verbatim>\<open>backend/src/services/authSessionStore.ts\<close>: login sessions in memory, with a copy on
  disk in which access tokens are encrypted under a configured secret.

  Parameters: \<open>seal secret token\<close> is the AES-GCM encryption under the key derived from the
  secret, for the nonce drawn at that moment, as the triple of cipher text, nonce and tag in
  base64; \<open>unseal secret triple\<close> is the decryption, \<open>None\<close> when the tag does not verify.
  Random identifiers are arguments of the operations that draw them. Every asynchronous
  method runs to completion before the next; the write to disk is a step of its own.
\<close>

definition SESSION_COOKIE_NAME :: string where "SESSION_COOKIE_NAME = ''proofdesk_session''"

definition OAUTH_STATE_COOKIE_NAME :: string where
  "OAUTH_STATE_COOKIE_NAME = ''proofdesk_oauth_state''"

definition OAUTH_VERIFIER_COOKIE_NAME :: string where
  "OAUTH_VERIFIER_COOKIE_NAME = ''proofdesk_oauth_verifier''"

definition SESSION_TTL_MS :: int where "SESSION_TTL_MS = 7 * 24 * 60 * 60 * 1000"

definition OAUTH_STATE_TTL_SECONDS :: int where "OAUTH_STATE_TTL_SECONDS = 10 * 60"

definition SESSION_MAX_AGE_SECONDS :: int where
  "SESSION_MAX_AGE_SECONDS = SESSION_TTL_MS div 1000"

definition PLACEHOLDER_VALUES :: "string list" where
  "PLACEHOLDER_VALUES = [''replace_me'', ''changeme'', ''change_me'']"

section \<open>Secrets\<close>

type_synonym env = "string \<Rightarrow> string option"

definition hasConfiguredSecret :: "string option \<Rightarrow> bool" where
  "hasConfiguredSecret v =
     (case v of
        None \<Rightarrow> False
      | Some s \<Rightarrow> trim s \<noteq> [] \<and> to_lower (trim s) \<notin> set PLACEHOLDER_VALUES)"

definition getSessionSecrets :: "env \<Rightarrow> string list" where
  "getSessionSecrets env =
     (let current = find hasConfiguredSecret
                      [env ''PROOFDESK_SESSION_SECRET'', env ''SESSION_ENCRYPTION_SECRET''];
          retired = filter (\<lambda>s. hasConfiguredSecret (Some s))
                      (map trim (split_on (CHR '','') (opt_str (env ''PROOFDESK_SESSION_SECRET_RETIRED''))))
      in case current of Some (Some c) \<Rightarrow> c # retired | _ \<Rightarrow> retired)"

type_synonym sealed = "string \<times> string \<times> string"

definition encryptAccessToken :: "(string \<Rightarrow> string \<Rightarrow> sealed) \<Rightarrow> string list \<Rightarrow> string \<Rightarrow> sealed option" where
  "encryptAccessToken seal secrets token =
     (case secrets of [] \<Rightarrow> None | primary # _ \<Rightarrow> Some (seal primary token))"

fun first_unsealed :: "(string \<Rightarrow> sealed \<Rightarrow> string option) \<Rightarrow> string list \<Rightarrow> sealed \<Rightarrow> string option" where
  "first_unsealed unseal [] box = None"
| "first_unsealed unseal (secret # secrets) box =
     (case unseal secret box of Some t \<Rightarrow> Some t | None \<Rightarrow> first_unsealed unseal secrets box)"

definition decryptAccessToken ::
    "(string \<Rightarrow> sealed \<Rightarrow> string option) \<Rightarrow> string list \<Rightarrow> sealed \<Rightarrow> string option" where
  "decryptAccessToken unseal secrets box =
     (case box of (ciphertext, iv, tag) \<Rightarrow>
        if ciphertext = [] \<or> iv = [] \<or> tag = [] then None else first_unsealed unseal secrets box)"

section \<open>Sessions and their stored form\<close>

record auth_session =
  session_id :: string
  accessToken :: string
  session_mode :: string
  session_user :: jsval
  createdAt :: int
  updatedAt :: int

text \<open>
  An entry of the JSON file. A missing field and an empty string (or the number 0) take the
  same branch everywhere in the code, so both are written as the empty value.
\<close>

record stored_session =
  stored_id :: string
  plainToken :: string
  sealedToken :: sealed
  stored_mode :: string
  stored_user :: jsval
  stored_createdAt :: int
  stored_updatedAt :: int

definition serializeSessionForStorage ::
    "(string \<Rightarrow> string \<Rightarrow> sealed) \<Rightarrow> string list \<Rightarrow> auth_session \<Rightarrow> stored_session" where
  "serializeSessionForStorage seal secrets session =
     \<lparr>stored_id = session_id session, plainToken = [],
      sealedToken = (if accessToken session = [] then ([], [], [])
                     else case encryptAccessToken seal secrets (accessToken session) of
                         None \<Rightarrow> ([], [], [])
                       | Some box \<Rightarrow> box),
      stored_mode = session_mode session, stored_user = js_or (session_user session) JNull,
      stored_createdAt = createdAt session, stored_updatedAt = updatedAt session\<rparr>"

definition int_or :: "int \<Rightarrow> int \<Rightarrow> int" where
  "int_or a b = (if a \<noteq> 0 then a else b)"

definition restoreSessionFromStorage ::
    "(string \<Rightarrow> sealed \<Rightarrow> string option) \<Rightarrow> string list \<Rightarrow> int \<Rightarrow> stored_session \<Rightarrow> auth_session option" where
  "restoreSessionFromStorage unseal secrets now entry =
     (if stored_id entry = [] then None
      else let token = (if plainToken entry \<noteq> [] then plainToken entry
                        else opt_str (decryptAccessToken unseal secrets (sealedToken entry)))
           in if token = [] then None
              else Some \<lparr>session_id = stored_id entry, accessToken = token,
                         session_mode = str_or (stored_mode entry) ''github'',
                         session_user = js_or (stored_user entry) JNull,
                         createdAt = int_or (stored_createdAt entry) now,
                         updatedAt = int_or (stored_updatedAt entry) (int_or (stored_createdAt entry) now)\<rparr>)"

section \<open>The store\<close>

record auth_store =
  sessions :: "(string, auth_session) jsmap"
  persistScheduled :: bool
  needsMigrationPersist :: bool
  store_file :: "stored_session list option"

definition last_touch :: "auth_session \<Rightarrow> int" where
  "last_touch s = int_or (updatedAt s) (createdAt s)"

definition session_stale :: "int \<Rightarrow> auth_session \<Rightarrow> bool" where
  "session_stale now s = (last_touch s + SESSION_TTL_MS < now)"

definition schedulePersist :: "auth_store \<Rightarrow> auth_store" where
  "schedulePersist st = (if persistScheduled st then st else st\<lparr>persistScheduled := True\<rparr>)"

text \<open>The microtask that \<^verbatim>\<open>schedulePersist\<close> queued: it writes every session of the map.\<close>

definition run_persist :: "(string \<Rightarrow> string \<Rightarrow> sealed) \<Rightarrow> string list \<Rightarrow> auth_store \<Rightarrow> auth_store" where
  "run_persist seal secrets st =
     (if persistScheduled st
      then st\<lparr>persistScheduled := False,
              store_file := Some (map (serializeSessionForStorage seal secrets \<circ> snd) (sessions st))\<rparr>
      else st)"

definition load_entry ::
    "(string \<Rightarrow> sealed \<Rightarrow> string option) \<Rightarrow> string list \<Rightarrow> int \<Rightarrow> stored_session \<Rightarrow> auth_store \<Rightarrow> auth_store" where
  "load_entry unseal secrets now entry st =
     (case restoreSessionFromStorage unseal secrets now entry of
        None \<Rightarrow> st
      | Some restored \<Rightarrow>
          if session_stale now restored then st
          else st\<lparr>needsMigrationPersist := needsMigrationPersist st \<or> plainToken entry \<noteq> [],
                  sessions := map_set (session_id restored) restored (sessions st)\<rparr>)"

definition load :: "(string \<Rightarrow> sealed \<Rightarrow> string option) \<Rightarrow> string list \<Rightarrow> int \<Rightarrow> auth_store \<Rightarrow> auth_store" where
  "load unseal secrets now st =
     (case store_file st of
        None \<Rightarrow> st
      | Some entries \<Rightarrow>
          let st' = fold (load_entry unseal secrets now) entries st
          in if needsMigrationPersist st' then schedulePersist st' else st')"

definition cleanupExpiredSessions :: "int \<Rightarrow> auth_store \<Rightarrow> auth_store" where
  "cleanupExpiredSessions now st =
     (let kept = filter (\<lambda>(k, s). \<not> session_stale now s) (sessions st)
      in if length kept < length (sessions st)
         then schedulePersist (st\<lparr>sessions := kept\<rparr>) else st)"

definition createSession ::
    "int \<Rightarrow> string \<Rightarrow> string \<Rightarrow> string \<Rightarrow> jsval \<Rightarrow> auth_store \<Rightarrow> auth_session \<times> auth_store" where
  "createSession now newId token mode user st =
     (let session = \<lparr>session_id = newId, accessToken = token, session_mode = mode,
                     session_user = user, createdAt = now, updatedAt = now\<rparr>
      in (session, schedulePersist (st\<lparr>sessions := map_set newId session (sessions st)\<rparr>)))"

definition destroySession :: "string \<Rightarrow> auth_store \<Rightarrow> auth_store" where
  "destroySession sid st =
     (if sid = [] then st
      else if map_has (sessions st) sid
      then schedulePersist (st\<lparr>sessions := map_del sid (sessions st)\<rparr>) else st)"

definition getSession :: "int \<Rightarrow> string \<Rightarrow> auth_store \<Rightarrow> auth_session option \<times> auth_store" where
  "getSession now sid st =
     (if sid = [] then (None, st)
      else case map_get (sessions st) sid of
          None \<Rightarrow> (None, st)
        | Some session \<Rightarrow>
            if session_stale now session
            then (None, schedulePersist (st\<lparr>sessions := map_del sid (sessions st)\<rparr>))
            else let session' = session\<lparr>updatedAt := now\<rparr>
                 in (Some session', schedulePersist (st\<lparr>sessions := map_set sid session' (sessions st)\<rparr>)))"

text \<open>\<open>updates\<close> is \<^verbatim>\<open>Object.assign(session, updates)\<close> as a function on the session.\<close>

definition updateSession ::
    "int \<Rightarrow> string \<Rightarrow> (auth_session \<Rightarrow> auth_session) \<Rightarrow> auth_store \<Rightarrow> auth_session option \<times> auth_store" where
  "updateSession now sid updates st =
     (case getSession now sid st of
        (None, st') \<Rightarrow> (None, st')
      | (Some session, st') \<Rightarrow>
          let session' = (updates session)\<lparr>updatedAt := now\<rparr>
          in (Some session', schedulePersist (st'\<lparr>sessions := map_set sid session' (sessions st')\<rparr>)))"

text \<open>\<open>None\<close> at the outside is the exception that an unreadable cookie header raises.\<close>

definition getSessionFromRequest ::
    "int \<Rightarrow> string \<Rightarrow> auth_store \<Rightarrow> (auth_session option \<times> auth_store) option" where
  "getSessionFromRequest now cookieHeader st =
     (case parseCookies cookieHeader of
        None \<Rightarrow> None
      | Some cookies \<Rightarrow>
          (case map_get cookies SESSION_COOKIE_NAME of
             None \<Rightarrow> Some (None, st)
           | Some sid \<Rightarrow> if sid = [] then Some (None, st) else Some (getSession now sid st)))"

section \<open>Cookies of the login flow\<close>

definition login_cookie :: "bool \<Rightarrow> string \<Rightarrow> string \<Rightarrow> int \<Rightarrow> string" where
  "login_cookie secureCookies name v age =
     toCookieHeader name v
       \<lparr>maxAge = Some age, cookie_path = ''/'', httpOnly = True, sameSite = ''Lax'', secure = secureCookies\<rparr>"

definition attachSessionCookie :: "bool \<Rightarrow> string \<Rightarrow> string" where
  "attachSessionCookie secureCookies sid =
     login_cookie secureCookies SESSION_COOKIE_NAME sid SESSION_MAX_AGE_SECONDS"

definition clearSessionCookie :: "bool \<Rightarrow> string" where
  "clearSessionCookie secureCookies = login_cookie secureCookies SESSION_COOKIE_NAME [] 0"

definition createOAuthState :: "bool \<Rightarrow> string \<Rightarrow> string" where
  "createOAuthState secureCookies state =
     login_cookie secureCookies OAUTH_STATE_COOKIE_NAME state OAUTH_STATE_TTL_SECONDS"

definition createPkceVerifier :: "bool \<Rightarrow> string \<Rightarrow> string" where
  "createPkceVerifier secureCookies verifier =
     login_cookie secureCookies OAUTH_VERIFIER_COOKIE_NAME verifier OAUTH_STATE_TTL_SECONDS"

text \<open>\<^verbatim>\<open>cookies[name] || null\<close>; the outer \<open>None\<close> is the exception of the parser.\<close>

definition read_login_cookie :: "string \<Rightarrow> string \<Rightarrow> string option option" where
  "read_login_cookie name cookieHeader =
     (case parseCookies cookieHeader of
        None \<Rightarrow> None
      | Some cookies \<Rightarrow>
          Some (case map_get cookies name of
                  None \<Rightarrow> None
                | Some v \<Rightarrow> if v = [] then None else Some v))"

definition readOAuthState :: "string \<Rightarrow> string option option" where
  "readOAuthState = read_login_cookie OAUTH_STATE_COOKIE_NAME"

definition readPkceVerifier :: "string \<Rightarrow> string option option" where
  "readPkceVerifier = read_login_cookie OAUTH_VERIFIER_COOKIE_NAME"

definition clearOAuthState :: "bool \<Rightarrow> string" where
  "clearOAuthState secureCookies = login_cookie secureCookies OAUTH_STATE_COOKIE_NAME [] 0"

definition clearPkceVerifier :: "bool \<Rightarrow> string" where
  "clearPkceVerifier secureCookies = login_cookie secureCookies OAUTH_VERIFIER_COOKIE_NAME [] 0"

section \<open>The lookup meets the contract of an expiring store\<close>

definition auth_ok :: "auth_store \<Rightarrow> bool" where
  "auth_ok st = (keys_distinct (sessions st) \<and> map_get (sessions st) [] = None
                 \<and> (\<forall>(k, s) \<in> set (sessions st). session_id s = k))"

lemma schedulePersist_sel [simp]:
  "sessions (schedulePersist st) = sessions st"
  "persistScheduled (schedulePersist st)"
  "store_file (schedulePersist st) = store_file st"
  by (simp_all add: schedulePersist_def)

lemma session_stale_fresh: "0 < now \<Longrightarrow> \<not> session_stale now (s\<lparr>updatedAt := now\<rparr>)"
  by (simp add: session_stale_def last_touch_def int_or_def SESSION_TTL_MS_def)

lemma auth_ok_iff:
  "auth_ok st = (keys_distinct (sessions st) \<and> map_get (sessions st) [] = None
     \<and> (\<forall>k s. map_get (sessions st) k = Some s \<longrightarrow> session_id s = k))"
  by (auto simp: auth_ok_def dest: map_of_SomeD)

lemma auth_ok_set:
  "auth_ok st \<Longrightarrow> sid \<noteq> [] \<Longrightarrow> session_id s = sid \<Longrightarrow> sessions st' = map_set sid s (sessions st) \<Longrightarrow> auth_ok st'"
  by (auto simp: auth_ok_iff distinct_update simp del: map_of_eq_Some_iff)

lemma auth_ok_filter:
  "auth_ok st \<Longrightarrow> sessions st' = filter P (sessions st) \<Longrightarrow> auth_ok st'"
  by (auto simp: auth_ok_def keys_distinct_filter map_of_eq_None_iff)

lemma auth_ok_del: "auth_ok st \<Longrightarrow> sessions st' = map_del sid (sessions st) \<Longrightarrow> auth_ok st'"
  by (rule auth_ok_filter) (simp_all add: AList.delete_eq)

lemma auth_ok_id: "auth_ok st \<Longrightarrow> map_get (sessions st) k = Some s \<Longrightarrow> session_id s = k"
  by (auto simp: auth_ok_def dest: map_of_SomeD)

lemma getSession_ok: "auth_ok st \<Longrightarrow> auth_ok (snd (getSession now sid st))"
  by (auto simp: getSession_def Let_def auth_ok_iff distinct_update keys_distinct_delete
      simp del: map_of_eq_Some_iff split: option.splits if_splits)

lemma getSession_SomeD:
  assumes "auth_ok st" and "fst (getSession now sid st) = Some s"
  shows "sid \<noteq> [] \<and> map_get (sessions st) sid \<noteq> None \<and> session_id s = sid"
  using assms auth_ok_id [OF assms(1)]
  by (auto simp: getSession_def Let_def simp del: map_of_eq_Some_iff split: if_splits option.splits)

lemma sessions_getSession:
  "map_get (sessions (snd (getSession now sid st))) k =
     (if k = sid \<and> sid \<noteq> [] then fst (getSession now sid st) else map_get (sessions st) k)"
  by (auto simp: getSession_def Let_def split: option.splits)

interpretation auth: expiring_store getSession "\<lambda>st k. map_get (sessions st) k" session_stale auth_ok
proof
  show "auth_ok st \<Longrightarrow> auth_ok (snd (getSession t k st))" for st t k by (rule getSession_ok)
  show "session_stale t v \<Longrightarrow> t \<le> t' \<Longrightarrow> session_stale t' v" for t t' v
    by (simp add: session_stale_def)
  show "auth_ok st \<Longrightarrow> map_get (sessions st) k = Some v \<Longrightarrow> \<not> session_stale t v \<Longrightarrow>
      fst (getSession t k st) \<noteq> None
      \<and> map_get (sessions (snd (getSession t k st))) k = fst (getSession t k st)" for st k v t
    by (auto simp: getSession_def Let_def auth_ok_def)
  show "auth_ok st \<Longrightarrow> (\<And>v. map_get (sessions st) k = Some v \<Longrightarrow> session_stale t v) \<Longrightarrow>
      fst (getSession t k st) = None \<and> map_get (sessions (snd (getSession t k st))) k = None" for st k t
    by (auto simp: getSession_def Let_def auth_ok_def split: option.splits)
  show "auth_ok st \<Longrightarrow> k' \<noteq> k \<Longrightarrow>
      map_get (sessions (snd (getSession t k st))) k' = map_get (sessions st) k'" for st k k' t
    by (simp add: sessions_getSession)
qed

section \<open>Histories of operations\<close>

text \<open>
  What the routes do with the store, the write of the file and a restart of the process.
  The routes update only the user of a session. A restart first lets the write that is
  due finish, then loads the file, perhaps under other secrets.
\<close>

datatype auth_op =
    CreateSession int string string string jsval
  | GetSession int string
  | UpdateUser int string jsval
  | DestroySession string
  | CleanupExpired int
  | PersistDue "string list"
  | Restart int "string list" "string list"

fun auth_step ::
    "(string \<Rightarrow> string \<Rightarrow> sealed) \<Rightarrow> (string \<Rightarrow> sealed \<Rightarrow> string option) \<Rightarrow> auth_op \<Rightarrow> auth_store \<Rightarrow>
     auth_session option \<times> auth_store" where
  "auth_step seal unseal (CreateSession now newId token mode user) st =
     (case createSession now newId token mode user st of (s, st') \<Rightarrow> (Some s, st'))"
| "auth_step seal unseal (GetSession now sid) st = getSession now sid st"
| "auth_step seal unseal (UpdateUser now sid user) st =
     updateSession now sid (\<lambda>s. s\<lparr>session_user := user\<rparr>) st"
| "auth_step seal unseal (DestroySession sid) st = (None, destroySession sid st)"
| "auth_step seal unseal (CleanupExpired now) st = (None, cleanupExpiredSessions now st)"
| "auth_step seal unseal (PersistDue secrets) st = (None, run_persist seal secrets st)"
| "auth_step seal unseal (Restart now secrets secrets') st =
     (None, load unseal secrets' now
              \<lparr>sessions = [], persistScheduled = False, needsMigrationPersist = False,
               store_file = store_file (run_persist seal secrets st)\<rparr>)"

fun auth_replies ::
    "(string \<Rightarrow> string \<Rightarrow> sealed) \<Rightarrow> (string \<Rightarrow> sealed \<Rightarrow> string option) \<Rightarrow> auth_op list \<Rightarrow> auth_store \<Rightarrow>
     auth_session option list" where
  "auth_replies seal unseal [] st = []"
| "auth_replies seal unseal (a # as) st =
     (case auth_step seal unseal a st of (r, st') \<Rightarrow> r # auth_replies seal unseal as st')"

fun asks_for :: "string \<Rightarrow> auth_op \<Rightarrow> bool" where
  "asks_for k (GetSession now sid) = (sid = k)"
| "asks_for k (UpdateUser now sid user) = (sid = k)"
| "asks_for k _ = False"

fun draws :: "auth_op \<Rightarrow> string option" where
  "draws (CreateSession now newId token mode user) = Some newId"
| "draws _ = None"

text \<open>A session that is gone from memory, and from the file unless the file is due to be rewritten.\<close>

definition revoked :: "string \<Rightarrow> auth_store \<Rightarrow> bool" where
  "revoked k st = (auth_ok st \<and> map_get (sessions st) k = None \<and>
     (persistScheduled st \<or> (case store_file st of None \<Rightarrow> True | Some es \<Rightarrow> k \<notin> stored_id ` set es)))"

lemma revokedI:
  "auth_ok st' \<Longrightarrow> map_get (sessions st') k = None \<Longrightarrow>
   persistScheduled st' \<or> persistScheduled st' = persistScheduled st \<and> store_file st' = store_file st \<Longrightarrow>
   revoked k st \<Longrightarrow> revoked k st'"
  by (auto simp: revoked_def)

lemma stored_id_serialize [simp]: "stored_id (serializeSessionForStorage seal secrets s) = session_id s"
  by (simp add: serializeSessionForStorage_def)

lemma restore_id:
  "restoreSessionFromStorage unseal secrets now e = Some s \<Longrightarrow> session_id s = stored_id e \<and> stored_id e \<noteq> []"
  by (auto simp: restoreSessionFromStorage_def Let_def split: if_splits)

lemma load_entry_ok: "auth_ok st \<Longrightarrow> auth_ok (load_entry unseal secrets now e st)"
proof (cases "restoreSessionFromStorage unseal secrets now e")
  case (Some s)
  assume "auth_ok st"
  then have "auth_ok (st\<lparr>needsMigrationPersist := m, sessions := map_set (session_id s) s (sessions st)\<rparr>)" for m
    by (rule auth_ok_set) (use restore_id [OF Some] in auto)
  with Some \<open>auth_ok st\<close> show ?thesis by (simp add: load_entry_def)
qed (simp add: load_entry_def)

lemma load_entry_other:
  "stored_id e \<noteq> k \<Longrightarrow> map_get (sessions (load_entry unseal secrets now e st)) k = map_get (sessions st) k"
  by (auto simp: load_entry_def dest: restore_id split: option.splits)

lemma load_entry_file [simp]: "store_file (load_entry unseal secrets now e st) = store_file st"
  by (simp add: load_entry_def split: option.splits)

lemma fold_load_entry:
  "auth_ok st \<Longrightarrow> k \<notin> stored_id ` set es \<Longrightarrow>
   auth_ok (fold (load_entry unseal secrets now) es st)
   \<and> map_get (sessions (fold (load_entry unseal secrets now) es st)) k = map_get (sessions st) k
   \<and> store_file (fold (load_entry unseal secrets now) es st) = store_file st"
  by (induction es arbitrary: st) (auto simp: load_entry_ok load_entry_other)

lemma auth_ok_schedule [simp]: "auth_ok (schedulePersist st) = auth_ok st"
  by (simp add: auth_ok_def)

lemma auth_ok_empty: "sessions st = [] \<Longrightarrow> auth_ok st"
  by (simp add: auth_ok_def)

lemma revoked_load:
  assumes "\<forall>es. store_file st = Some es \<longrightarrow> k \<notin> stored_id ` set es" and "sessions st = []"
  shows "revoked k (load unseal secrets now st)"
proof (cases "store_file st")
  case None
  with assms show ?thesis by (simp add: load_def revoked_def auth_ok_def)
next
  case (Some es)
  with assms fold_load_entry [OF auth_ok_empty [OF assms(2)], of k es unseal secrets now]
  show ?thesis by (auto simp: load_def revoked_def Let_def)
qed

lemma revoked_file:
  assumes "revoked k st" and "store_file (run_persist seal secrets st) = Some es"
  shows "k \<notin> stored_id ` set es"
proof (cases "persistScheduled st")
  case True
  have "session_id s \<noteq> k" if ks: "(k', s) \<in> set (sessions st)" for k' s
  proof -
    have "session_id s = k'" using assms(1) ks by (auto simp: revoked_def auth_ok_def)
    moreover have "k' \<in> fst ` set (sessions st)" using ks by force
    moreover have "k \<notin> fst ` set (sessions st)" using assms(1) by (simp add: revoked_def map_of_eq_None_iff)
    ultimately show ?thesis by auto
  qed
  with True assms(2) show ?thesis by (fastforce simp: run_persist_def)
next
  case False
  with assms show ?thesis by (simp add: revoked_def run_persist_def)
qed

lemma revoked_getSession: "revoked k st \<Longrightarrow> revoked k (snd (getSession now sid st))"
  using getSession_ok [of st now sid] sessions_getSession [of now sid st k]
  by (auto simp: revoked_def getSession_def Let_def split: option.splits)

lemma revoked_step:
  assumes "revoked k st" and "draws a \<noteq> Some k" and "draws a \<noteq> Some []"
  shows "revoked k (snd (auth_step seal unseal a st))
         \<and> (asks_for k a \<longrightarrow> fst (auth_step seal unseal a st) = None)"
proof (cases a)
  case (CreateSession now newId token mode user)
  with assms show ?thesis
    by (auto simp: createSession_def Let_def revoked_def
        intro!: auth_ok_set [where st = st and sid = newId])
next
  case (GetSession now sid)
  with assms show ?thesis
    by (auto simp: revoked_getSession) (auto simp: revoked_def getSession_def split: option.splits)
next
  case (UpdateUser now sid user)
  show ?thesis
  proof (cases "fst (getSession now sid st)")
    case None
    with assms UpdateUser show ?thesis
      using revoked_getSession [OF assms(1), of now sid] by (auto simp: updateSession_def split: prod.splits)
  next
    case (Some s)
    have st: "auth_ok st" "map_get (sessions st) k = None" using assms(1) by (auto simp: revoked_def)
    from getSession_SomeD [OF st(1) Some] have "sid \<noteq> []" and sid: "session_id s = sid" "sid \<noteq> k"
      using st(2) by auto
    obtain st1 where g: "getSession now sid st = (Some s, st1)"
      using Some by (cases "getSession now sid st") auto
    have "auth_ok st1" using getSession_ok [OF st(1), of now sid] g by simp
    then have ok: "auth_ok (snd (updateSession now sid (\<lambda>s. s\<lparr>session_user := user\<rparr>) st))"
      using \<open>sid \<noteq> []\<close> sid
      by (simp add: updateSession_def Let_def g) (rule auth_ok_set [where st = st1 and sid = sid], simp_all)
    have "map_get (sessions st1) k = None"
      using sessions_getSession [of now sid st k] g sid st(2) by simp
    then have "map_get (sessions (snd (updateSession now sid (\<lambda>s. s\<lparr>session_user := user\<rparr>) st))) k = None"
      and "persistScheduled (snd (updateSession now sid (\<lambda>s. s\<lparr>session_user := user\<rparr>) st))"
      using sid by (simp_all add: updateSession_def Let_def g)
    with ok UpdateUser \<open>sid \<noteq> k\<close> show ?thesis by (simp add: revoked_def)
  qed
next
  case (DestroySession sid)
  with assms show ?thesis
    by (auto simp: destroySession_def revoked_def intro: auth_ok_del)
next
  case (CleanupExpired now)
  have "map_get (filter (\<lambda>(k, s). \<not> session_stale now s) (sessions st)) k = None"
    using assms(1) by (auto simp: revoked_def map_of_eq_None_iff)
  then have "revoked k (cleanupExpiredSessions now st)"
    using assms(1) by (auto simp: cleanupExpiredSessions_def Let_def revoked_def intro: auth_ok_filter)
  with CleanupExpired show ?thesis by simp
next
  case (PersistDue secrets)
  have "revoked k (run_persist seal secrets st)"
    using assms(1) revoked_file [OF assms(1), of seal secrets]
    by (auto simp: revoked_def run_persist_def auth_ok_def split: option.splits)
  with PersistDue show ?thesis by simp
next
  case (Restart now secrets secrets')
  with revoked_file [OF assms(1), of seal secrets] show ?thesis by (simp add: revoked_load)
qed

lemma revoked_replies:
  assumes "revoked k st" and "Some k \<notin> draws ` set as" and "Some [] \<notin> draws ` set as"
  shows "\<forall>(a, r) \<in> set (zip as (auth_replies seal unseal as st)). asks_for k a \<longrightarrow> r = None"
  using assms
proof (induction as arbitrary: st)
  case (Cons a as)
  have "draws a \<noteq> Some k" "draws a \<noteq> Some []" using Cons.prems by auto
  from revoked_step [OF Cons.prems(1) this, of seal unseal] Cons.IH Cons.prems show ?case
    by (cases "auth_step seal unseal a st") auto
qed simp



section \<open>What survives on disk\<close>

lemma first_unsealed_iff:
  assumes "\<And>sec t. unseal sec (seal sec t) = Some t"
    and "\<And>sec sec' t. sec' \<noteq> sec \<Longrightarrow> unseal sec' (seal sec t) = None"
  shows "first_unsealed unseal secrets (seal sec t) = (if sec \<in> set secrets then Some t else None)"
proof (induction secrets)
  case (Cons a secrets)
  then show ?case using assms(1) assms(2) [of a sec t] by (cases "a = sec") simp_all
qed simp

text \<open>
  Claim C21. A session written under one list of secrets and read back under another comes back
  with its identifier, token and times exactly when some secret was configured at the time
  of writing and that secret, the first of the list, is still among the current or retired
  ones: rotating secrets keeps the users logged in, dropping a secret logs them out.
\<close>

theorem session_survives_rotation:
  assumes "\<And>sec t. unseal sec (seal sec t) = Some t"
    and "\<And>sec sec' t. sec' \<noteq> sec \<Longrightarrow> unseal sec' (seal sec t) = None"
    and "\<And>sec t. fst (seal sec t) = [] \<Longrightarrow> t = []"
    and "\<And>sec t. fst (snd (seal sec t)) \<noteq> [] \<and> snd (snd (seal sec t)) \<noteq> []"
    and "session_id s \<noteq> []" and "accessToken s \<noteq> []"
  shows "restoreSessionFromStorage unseal newSecrets now (serializeSessionForStorage seal oldSecrets s) =
    (if oldSecrets \<noteq> [] \<and> hd oldSecrets \<in> set newSecrets
     then Some \<lparr>session_id = session_id s, accessToken = accessToken s,
                session_mode = str_or (session_mode s) ''github'',
                session_user = js_or (session_user s) JNull,
                createdAt = int_or (createdAt s) now,
                updatedAt = int_or (updatedAt s) (int_or (createdAt s) now)\<rparr>
     else None)"
proof (cases oldSecrets)
  case Nil
  with assms(5,6) show ?thesis
    by (simp add: restoreSessionFromStorage_def serializeSessionForStorage_def encryptAccessToken_def
        decryptAccessToken_def)
next
  case (Cons sec secs)
  obtain c i g where box: "seal sec (accessToken s) = (c, i, g)" by (cases "seal sec (accessToken s)")
  have "c \<noteq> [] \<and> i \<noteq> [] \<and> g \<noteq> []"
    using assms(3) [of sec "accessToken s"] assms(4) [of sec "accessToken s"] assms(6) box by auto
  then have "decryptAccessToken unseal newSecrets (seal sec (accessToken s))
      = (if sec \<in> set newSecrets then Some (accessToken s) else None)"
    using first_unsealed_iff [of unseal seal newSecrets sec "accessToken s", OF assms(1,2)] box
    by (simp add: decryptAccessToken_def)
  with Cons assms(5,6) show ?thesis
    by (simp add: restoreSessionFromStorage_def serializeSessionForStorage_def encryptAccessToken_def js_or_def)
qed

definition toy_seal :: "string \<Rightarrow> string \<Rightarrow> sealed" where
  "toy_seal sec t = (t, ''iv'', CHR ''t'' # sec)"

definition toy_unseal :: "string \<Rightarrow> sealed \<Rightarrow> string option" where
  "toy_unseal sec box = (case box of (c, i, t) \<Rightarrow> if t = CHR ''t'' # sec then Some c else None)"

theorem session_survives_rotation_witness:
  "restoreSessionFromStorage toy_unseal [''new'', ''old''] 99
     (serializeSessionForStorage toy_seal [''old'']
        \<lparr>session_id = ''a'', accessToken = ''tok'', session_mode = ''github'', session_user = JNull,
         createdAt = 5, updatedAt = 7\<rparr>)
   = Some \<lparr>session_id = ''a'', accessToken = ''tok'', session_mode = ''github'', session_user = JNull,
           createdAt = 5, updatedAt = 7\<rparr>"
proof -
  let ?s = "\<lparr>session_id = ''a'', accessToken = ''tok'', session_mode = ''github'', session_user = JNull,
         createdAt = 5, updatedAt = 7\<rparr>"
  have "restoreSessionFromStorage toy_unseal [''new'', ''old''] 99 (serializeSessionForStorage toy_seal [''old''] ?s) =
    (if [''old''] \<noteq> [] \<and> hd [''old''] \<in> set [''new'', ''old'']
     then Some \<lparr>session_id = session_id ?s, accessToken = accessToken ?s,
                session_mode = str_or (session_mode ?s) ''github'',
                session_user = js_or (session_user ?s) JNull,
                createdAt = int_or (createdAt ?s) 99,
                updatedAt = int_or (updatedAt ?s) (int_or (createdAt ?s) 99)\<rparr>
     else None)"
    by (rule session_survives_rotation) (auto simp: toy_seal_def toy_unseal_def)
  then show ?thesis by (simp add: str_or_def js_or_def int_or_def)
qed

text \<open>
  The file never gains a plain token: every write replaces it by entries whose plain
  token is empty, so after a start that restored at least one session from an old entry
  with a plain token, the write that the start scheduled leaves no plain token on disk.
\<close>

theorem migration_seals_file:
  assumes "e \<in> set es" and "plainToken e \<noteq> []" and "restoreSessionFromStorage unseal secrets now e = Some s"
    and "\<not> session_stale now s"
  shows "case store_file (run_persist seal secrets
             (load unseal secrets now \<lparr>sessions = [], persistScheduled = False,
                needsMigrationPersist = False, store_file = Some es\<rparr>))
         of None \<Rightarrow> False | Some es' \<Rightarrow> list_all (\<lambda>e'. plainToken e' = []) es'"
proof -
  have keep: "needsMigrationPersist st \<Longrightarrow> needsMigrationPersist (fold (load_entry unseal secrets now) xs st)"
    for xs st
    by (induction xs arbitrary: st) (auto simp: load_entry_def split: option.splits)
  obtain xs ys where es: "es = xs @ e # ys" using assms(1) by (meson split_list)
  have "needsMigrationPersist (load_entry unseal secrets now e st)" for st
    using assms by (simp add: load_entry_def)
  then have "needsMigrationPersist (fold (load_entry unseal secrets now) es st)" for st
    by (simp add: es keep)
  then show ?thesis
    by (simp add: load_def run_persist_def Let_def list_all_iff serializeSessionForStorage_def)
qed

theorem migration_seals_file_witness:
  "case store_file (run_persist toy_seal [''k'']
      (load toy_unseal [''k''] 9 \<lparr>sessions = [], persistScheduled = False, needsMigrationPersist = False,
         store_file = Some [\<lparr>stored_id = ''a'', plainToken = ''tok'', sealedToken = ([], [], []),
           stored_mode = ''github'', stored_user = JNull, stored_createdAt = 5, stored_updatedAt = 7\<rparr>]\<rparr>))
   of None \<Rightarrow> False | Some es' \<Rightarrow> list_all (\<lambda>e'. plainToken e' = []) es'"
  by (rule migration_seals_file
      [of "\<lparr>stored_id = ''a'', plainToken = ''tok'', sealedToken = ([], [], []),
           stored_mode = ''github'', stored_user = JNull, stored_createdAt = 5, stored_updatedAt = 7\<rparr>" _ toy_unseal "[''k'']" 9
         "\<lparr>session_id = ''a'', accessToken = ''tok'', session_mode = ''github'', session_user = JNull,
           createdAt = 5, updatedAt = 7\<rparr>"])
    (simp_all add: restoreSessionFromStorage_def session_stale_def last_touch_def int_or_def str_or_def
       js_or_def SESSION_TTL_MS_def)

end
