(* ===== verification/AccessControl.thy ===== *)
theory AccessControl imports AuthSession begin

text \<open>
  \<^verbatim>\<open>backend/src/middleware/auth.ts\<close>: who a request speaks for and what it may do. A
  middleware function is a function of the request and the session store that either passes
  the request on or answers it; the outer \<open>None\<close> is the exception of an unreadable cookie
  header. The build sessions of \<^verbatim>\<open>buildExecutor\<close> are a lookup function.
\<close>

record request =
  hdr_authorization :: "string option"
  hdr_cookie :: string
  req_accessToken :: string
  req_authSession :: "auth_session option"

datatype middleware = Next request | Answer nat string

definition extractBearerToken :: "request \<Rightarrow> string option" where
  "extractBearerToken req =
     (case hdr_authorization req of
        None \<Rightarrow> None
      | Some h \<Rightarrow>
          (case split_on (CHR '' '') h of
             _ # token # _ \<Rightarrow> if token = [] then None else Some token
           | _ \<Rightarrow> None))"

definition extractAccessToken ::
    "int \<Rightarrow> request \<Rightarrow> auth_store \<Rightarrow> (string option \<times> request \<times> auth_store) option" where
  "extractAccessToken now req st =
     (if req_accessToken req \<noteq> [] then Some (Some (req_accessToken req), req, st)
      else case getSessionFromRequest now (hdr_cookie req) st of
          None \<Rightarrow> None
        | Some (session, st') \<Rightarrow>
            let bearer = (case extractBearerToken req of
                            None \<Rightarrow> (None, req, st')
                          | Some token \<Rightarrow>
                              (Some token, req\<lparr>req_accessToken := token, req_authSession := None\<rparr>, st'))
            in Some (case session of
                       None \<Rightarrow> bearer
                     | Some s \<Rightarrow>
                         if accessToken s \<noteq> []
                         then (Some (accessToken s),
                               req\<lparr>req_accessToken := accessToken s, req_authSession := Some s\<rparr>, st')
                         else bearer))"

definition requireAccessToken ::
    "int \<Rightarrow> request \<Rightarrow> auth_store \<Rightarrow> (middleware \<times> auth_store) option" where
  "requireAccessToken now req st =
     (case extractAccessToken now req st of
        None \<Rightarrow> None
      | Some (None, req', st') \<Rightarrow> Some (Answer 401 ''No token provided'', st')
      | Some (Some token, req', st') \<Rightarrow> Some (Next (req'\<lparr>req_accessToken := token\<rparr>), st'))"

definition getAdminLogins :: "env \<Rightarrow> string list" where
  "getAdminLogins env =
     filter (\<lambda>e. e \<noteq> [])
       (map (\<lambda>e. to_lower (trim e)) (split_on (CHR '','') (opt_str (env ''PROOFDESK_ADMIN_LOGINS''))))"

definition session_login :: "request \<Rightarrow> jsval" where
  "session_login req =
     (case req_authSession req of None \<Rightarrow> JUndef | Some s \<Rightarrow> get_prop (session_user s) ''login'')"

definition requireAdmin :: "env \<Rightarrow> request \<Rightarrow> middleware" where
  "requireAdmin env req =
     (if getAdminLogins env = [] then Answer 403 ''Administrative access is not configured''
      else if \<not> truthy (session_login req)
              \<or> to_lower (js_String (session_login req)) \<notin> set (getAdminLogins env)
      then Answer 403 ''Administrative access required''
      else Next req)"

definition tokensMatch :: "string \<Rightarrow> string \<Rightarrow> bool" where
  "tokensMatch expected actual =
     (if expected = [] \<or> actual = [] then False
      else length (utf8_bytes expected) = length (utf8_bytes actual) \<and> utf8_bytes expected = utf8_bytes actual)"

record build_owner =
  creatorLogin :: string
  build_token :: string

definition canAccessBuildSession :: "build_owner \<Rightarrow> request \<Rightarrow> bool" where
  "canAccessBuildSession session req =
     (if creatorLogin session \<noteq> [] \<and> truthy (session_login req) \<and> session_login req = JStr (creatorLogin session)
      then True else tokensMatch (build_token session) (req_accessToken req))"

definition checkWorkspaceOwner :: "(string \<Rightarrow> build_owner option) \<Rightarrow> string \<Rightarrow> request \<Rightarrow> middleware" where
  "checkWorkspaceOwner builds sessionId req =
     (if sessionId = [] then Next req
      else case builds sessionId of
          None \<Rightarrow> Answer 404 ''Session not found''
        | Some session \<Rightarrow>
            if \<not> canAccessBuildSession session req then Answer 403 ''Access denied'' else Next req)"

section \<open>Who gets through\<close>

text \<open>A route guarded by \<^verbatim>\<open>requireAccessToken\<close> and a second check.\<close>

definition guarded ::
    "(request \<Rightarrow> middleware) \<Rightarrow> int \<Rightarrow> request \<Rightarrow> auth_store \<Rightarrow> middleware option" where
  "guarded check now req st =
     (case requireAccessToken now req st of
        None \<Rightarrow> None
      | Some (Answer code msg, st') \<Rightarrow> Some (Answer code msg)
      | Some (Next req', st') \<Rightarrow> Some (check req'))"

text \<open>The session of the store that the cookie of the request names, if it is still valid.\<close>

definition live_session :: "int \<Rightarrow> request \<Rightarrow> auth_store \<Rightarrow> auth_session option" where
  "live_session now req st =
     (case parseCookies (hdr_cookie req) of
        None \<Rightarrow> None
      | Some cookies \<Rightarrow>
          (case map_get cookies SESSION_COOKIE_NAME of
             None \<Rightarrow> None
           | Some sid \<Rightarrow>
               if sid = [] then None
               else case map_get (sessions st) sid of
                   None \<Rightarrow> None
                 | Some s \<Rightarrow> if session_stale now s then None else Some s))"

lemma session_from_request:
  "getSessionFromRequest now (hdr_cookie req) st = Some (r, st') \<Longrightarrow>
   r = map_option (\<lambda>s. s\<lparr>updatedAt := now\<rparr>) (live_session now req st)"
  by (auto simp: getSessionFromRequest_def live_session_def getSession_def Let_def
      split: option.splits if_splits)

lemma fresh_request_token:
  assumes "req_accessToken req = []" and "req_authSession req = None"
    and "requireAccessToken now req st = Some (Next req', st')"
  shows "(case live_session now req st of
            Some s \<Rightarrow> if accessToken s \<noteq> []
              then req_accessToken req' = accessToken s \<and> req_authSession req' = Some (s\<lparr>updatedAt := now\<rparr>)
              else extractBearerToken req = Some (req_accessToken req') \<and> req_authSession req' = None
          | None \<Rightarrow> extractBearerToken req = Some (req_accessToken req') \<and> req_authSession req' = None)"
proof -
  obtain r st1 where g: "getSessionFromRequest now (hdr_cookie req) st = Some (r, st1)"
    using assms by (auto simp: requireAccessToken_def extractAccessToken_def split: option.splits)
  note r = session_from_request [OF g]
  from assms g r show ?thesis
    by (auto simp: requireAccessToken_def extractAccessToken_def Let_def split: option.splits if_splits)
qed

lemma utf8_bytes_inject: "utf8_bytes s = utf8_bytes t \<longleftrightarrow> s = t"
proof -
  have dm: "n = m" if "(n :: nat) div 64 = m div 64" "n mod 64 = m mod 64" for n m
    using that by (metis div_mult_mod_eq)
  have ch: "utf8_char a @ xs = utf8_char b @ ys \<Longrightarrow> a = b \<and> xs = ys" for a b xs ys
    using dm [of "of_char a" "of_char b"]
    by (auto simp: utf8_char_def Let_def split: if_splits)
  have ne: "utf8_char a \<noteq> []" for a by (simp add: utf8_char_def Let_def)
  have "utf8_bytes s = utf8_bytes t \<Longrightarrow> s = t"
  proof (induction s arbitrary: t)
    case Nil
    with ne show ?case by (cases t) (auto simp: utf8_bytes_def)
  next
    case (Cons a s)
    from Cons.prems ne obtain b t' where t: "t = b # t'" by (cases t) (auto simp: utf8_bytes_def)
    from Cons.prems t ch [of a "utf8_bytes s" b "utf8_bytes t'"] Cons.IH show ?case
      by (auto simp: utf8_bytes_def)
  qed
  then show ?thesis by auto
qed

lemma tokensMatch_iff: "tokensMatch a b \<longleftrightarrow> a \<noteq> [] \<and> a = b"
  by (auto simp: tokensMatch_def utf8_bytes_inject)

lemma getAdminLogins_not_Nil: "e \<in> set (getAdminLogins env) \<Longrightarrow> getAdminLogins env \<noteq> []"
  by auto

text \<open>
  Claim C23. A request reaches an administrator's route exactly when its cookie names a session of the
  store that has not expired and holds a token, and the login of that session's user is,
  up to the case of letters, one of \<^verbatim>\<open>PROOFDESK_ADMIN_LOGINS\<close>. A bearer token alone never
  gets there, and with no list configured nobody does.
\<close>

theorem admin_route_reached:
  assumes "req_accessToken req = []" and "req_authSession req = None"
  shows "(\<exists>req'. guarded (requireAdmin env) now req st = Some (Next req')) \<longleftrightarrow>
    (case live_session now req st of
       None \<Rightarrow> False
     | Some s \<Rightarrow> accessToken s \<noteq> [] \<and> truthy (get_prop (session_user s) ''login'')
         \<and> to_lower (js_String (get_prop (session_user s) ''login'')) \<in> set (getAdminLogins env))"
proof (cases "requireAccessToken now req st")
  case None
  then have "parseCookies (hdr_cookie req) = None"
    using assms by (auto simp: requireAccessToken_def extractAccessToken_def getSessionFromRequest_def
        Let_def split: option.splits if_splits)
  with None show ?thesis by (simp add: guarded_def live_session_def)
next
  case (Some p)
  obtain m st' where p: "p = (m, st')" by (cases p)
  show ?thesis
  proof (cases m)
    case (Next req')
    from fresh_request_token [OF assms Some [unfolded p Next]] Some p Next show ?thesis
      by (auto simp: guarded_def requireAdmin_def session_login_def split: option.splits if_splits)
  next
    case (Answer code msg)
    have "live_session now req st = Some s \<Longrightarrow> accessToken s = []" for s
      using Some p Answer assms session_from_request [of now req st]
      by (auto simp: requireAccessToken_def extractAccessToken_def Let_def split: option.splits if_splits)
    with Some p Answer show ?thesis by (auto simp: guarded_def split: option.splits)
  qed
qed

definition sample_store :: auth_store where
  "sample_store =
     \<lparr>sessions = [(''s1'', \<lparr>session_id = ''s1'', accessToken = ''tok'', session_mode = ''github'',
        session_user = JObj [(''login'', JStr ''Ann'')], createdAt = 5, updatedAt = 5\<rparr>)],
      persistScheduled = False, needsMigrationPersist = False, store_file = None\<rparr>"

definition sample_request :: request where
  "sample_request = \<lparr>hdr_authorization = Some ''Bearer other'', hdr_cookie = ''proofdesk_session=s1'',
     req_accessToken = [], req_authSession = None\<rparr>"

lemma sample_live:
  "live_session 9 sample_request sample_store = map_of (sessions sample_store) ''s1''"
  by code_simp

theorem admin_route_reached_witness:
  "\<exists>req'. guarded (requireAdmin (\<lambda>v. Some ''bob, ANN'')) 9 sample_request sample_store = Some (Next req')"
proof -
  have "req_accessToken sample_request = []" and "req_authSession sample_request = None"
    by (simp_all add: sample_request_def)
  moreover have "to_lower (js_String (JStr ''Ann'')) \<in> set (getAdminLogins (\<lambda>v. Some ''bob, ANN''))"
    by code_simp
  ultimately show ?thesis
    using admin_route_reached [of sample_request "\<lambda>v. Some ''bob, ANN''" 9 sample_store]
    by (simp add: sample_live) (simp add: sample_store_def)
qed

text \<open>The token a request proves to hold: that of its session, or the bearer token without one.\<close>

definition presented_token :: "int \<Rightarrow> request \<Rightarrow> auth_store \<Rightarrow> string" where
  "presented_token now req st =
     (case live_session now req st of
        None \<Rightarrow> opt_str (extractBearerToken req)
      | Some s \<Rightarrow> if accessToken s \<noteq> [] then accessToken s else opt_str (extractBearerToken req))"

definition presented_login :: "int \<Rightarrow> request \<Rightarrow> auth_store \<Rightarrow> jsval" where
  "presented_login now req st =
     (case live_session now req st of
        None \<Rightarrow> JUndef
      | Some s \<Rightarrow> if accessToken s \<noteq> [] then get_prop (session_user s) ''login'' else JUndef)"

lemma extractBearerToken_not_Nil: "extractBearerToken req = Some t \<Longrightarrow> t \<noteq> []"
  by (auto simp: extractBearerToken_def split: option.splits list.splits if_splits)

lemma requireAccessToken_cases:
  assumes "req_accessToken req = []" and "req_authSession req = None"
  shows "if parseCookies (hdr_cookie req) = None then requireAccessToken now req st = None
         else if presented_token now req st = []
         then \<exists>st'. requireAccessToken now req st = Some (Answer 401 ''No token provided'', st')
         else \<exists>req' st'. requireAccessToken now req st = Some (Next req', st')
                \<and> req_accessToken req' = presented_token now req st
                \<and> session_login req' = presented_login now req st"
proof (cases "parseCookies (hdr_cookie req)")
  case None
  with assms show ?thesis
    by (simp add: requireAccessToken_def extractAccessToken_def getSessionFromRequest_def)
next
  case (Some cookies)
  then have "getSessionFromRequest now (hdr_cookie req) st \<noteq> None"
    by (simp add: getSessionFromRequest_def split: option.splits)
  then obtain r st1 where g: "getSessionFromRequest now (hdr_cookie req) st = Some (r, st1)" by auto
  note r = session_from_request [OF g]
  show ?thesis
  proof (cases "live_session now req st")
    case None
    with assms Some g r show ?thesis
      by (cases "extractBearerToken req")
        (auto simp: requireAccessToken_def extractAccessToken_def presented_token_def presented_login_def
          session_login_def dest: extractBearerToken_not_Nil)
  next
    case (Some s)
    with assms \<open>parseCookies (hdr_cookie req) = Some cookies\<close> g r show ?thesis
      by (cases "extractBearerToken req")
        (auto simp: requireAccessToken_def extractAccessToken_def presented_token_def presented_login_def
          session_login_def dest: extractBearerToken_not_Nil)
  qed
qed

text \<open>
  A request reaches a route of a build session exactly when its cookies can be read, the build
  session exists, and the request proves either the token that started the build or a live
  login session whose verified login is the one that started it. Knowing the identifier of
  a build session and holding some other valid token is not enough.
\<close>

theorem build_route_reached:
  assumes "req_accessToken req = []" and "req_authSession req = None" and "sid \<noteq> []"
  shows "(\<exists>req'. guarded (checkWorkspaceOwner builds sid) now req st = Some (Next req')) \<longleftrightarrow>
    (parseCookies (hdr_cookie req) \<noteq> None \<and> presented_token now req st \<noteq> [] \<and>
     (case builds sid of
        None \<Rightarrow> False
      | Some b \<Rightarrow> presented_token now req st = build_token b
          \<or> (\<not> creatorLogin b = [] \<and> presented_login now req st = JStr (creatorLogin b))))"
  using requireAccessToken_cases [OF assms(1,2), of now st] assms(3)
  by (auto simp: guarded_def checkWorkspaceOwner_def canAccessBuildSession_def tokensMatch_iff
      split: if_splits option.splits)

theorem build_route_reached_witness:
  "\<exists>req'. guarded (checkWorkspaceOwner (\<lambda>sid. Some \<lparr>creatorLogin = ''Ann'', build_token = ''x''\<rparr>) ''b1'')
     9 sample_request sample_store = Some (Next req')"
proof -
  have "req_accessToken sample_request = []" "req_authSession sample_request = None" "''b1'' \<noteq> []"
    by (simp_all add: sample_request_def)
  moreover have "parseCookies (hdr_cookie sample_request) = Some [(''proofdesk_session'', ''s1'')]"
    by code_simp
  ultimately show ?thesis
    using build_route_reached [of sample_request "''b1''"
        "\<lambda>sid. Some \<lparr>creatorLogin = ''Ann'', build_token = ''x''\<rparr>" 9 sample_store]
    by (simp add: presented_token_def presented_login_def sample_live) (simp add: sample_store_def)
qed

end
