(* ===== verification/AuthRoutes.thy ===== *)
theory AuthRoutes imports AccessControl begin

text \<open>
  \<^verbatim>\<open>backend/src/routes/auth.routes.ts\<close> with the parts of \<^verbatim>\<open>githubIdentity.ts\<close> and
  \<^verbatim>\<open>localTestRepoService.ts\<close> it calls: how a browser gets a login session.

  GitHub is a parameter: \<open>exchange code verifier\<close> is the answer of the token endpoint
  (\<open>None\<close> when the request fails, an empty token when the answer has none), \<open>api token\<close>
  the user of a token (\<open>None\<close> when GitHub rejects it), \<open>upsert user\<close> whether the user
  repository takes the user. A route returns its answer, the \<^verbatim>\<open>Set-Cookie\<close> headers it
  appends and the session store; \<open>None\<close> is the exception of an unreadable cookie header.
  Monitoring events and log lines are not modelled.
\<close>

datatype reply = Redirect string | Json nat jsval

definition getFrontendUrl :: "env \<Rightarrow> string" where
  "getFrontendUrl env = str_or (opt_str (env ''FRONTEND_URL'')) ''http://localhost:3000''"

definition buildGitHubAuthUrl :: "string \<Rightarrow> string \<Rightarrow> string \<Rightarrow> string \<Rightarrow> string" where
  "buildGitHubAuthUrl clientId redirectUri state codeChallenge =
     ''https://github.com/login/oauth/authorize?client_id='' @ clientId @ ''&redirect_uri='' @ redirectUri
     @ ''&scope=repo,user&state='' @ state
     @ ''&code_challenge='' @ codeChallenge @ ''&code_challenge_method=S256''"

definition toBoolean :: "string option \<Rightarrow> bool" where
  "toBoolean v = (to_lower (opt_str v) = ''true'')"

definition local_enabled :: "env \<Rightarrow> bool" where
  "local_enabled env = toBoolean (env ''ENABLE_LOCAL_TEST_MODE'')"

definition local_token :: "env \<Rightarrow> string" where
  "local_token env = str_or (opt_str (env ''LOCAL_TEST_TOKEN'')) ''local-test''"

definition isLocalTestToken :: "env \<Rightarrow> string \<Rightarrow> bool" where
  "isLocalTestToken env token = (local_enabled env \<and> token = local_token env)"

definition local_user :: jsval where
  "local_user = JObj [(''id'', JNum 999001), (''login'', JStr ''local-tester''),
     (''name'', JStr ''Local Test User''), (''avatar_url'', JNull), (''type'', JStr ''User'')]"

definition getAuthenticatedGitHubUser ::
    "(string \<Rightarrow> jsval option) \<Rightarrow> env \<Rightarrow> string \<Rightarrow> auth_session option \<Rightarrow> jsval option" where
  "getAuthenticatedGitHubUser api env token existingSession =
     (if isLocalTestToken env token then Some local_user
      else case existingSession of
          Some s \<Rightarrow> if truthy (get_prop (session_user s) ''login'') then Some (session_user s) else api token
        | None \<Rightarrow> api token)"

definition hasConfiguredValue :: "string option \<Rightarrow> bool" where
  "hasConfiguredValue v =
     (case v of None \<Rightarrow> False
      | Some s \<Rightarrow> trim s \<noteq> [] \<and> to_lower (trim s) \<notin> set PLACEHOLDER_VALUES)"

definition secure_cookies :: "env \<Rightarrow> bool" where
  "secure_cookies env = (env ''PROOFDESK_SECURE_COOKIES'' = Some ''true'')"

type_synonym route_result = "(reply \<times> string list \<times> auth_store) option"

definition get_github ::
    "env \<Rightarrow> (string \<Rightarrow> string) \<Rightarrow> string \<Rightarrow> string \<Rightarrow> auth_store \<Rightarrow> route_result" where
  "get_github env deriveCodeChallenge state verifier st =
     (if \<not> hasConfiguredValue (env ''GITHUB_CLIENT_ID'') \<or> \<not> hasConfiguredValue (env ''GITHUB_CLIENT_SECRET'')
         \<or> \<not> hasConfiguredValue (env ''GITHUB_REDIRECT_URI'')
      then Some (Redirect (getFrontendUrl env @ ''?error=github_not_configured''), [], st)
      else Some (Redirect (buildGitHubAuthUrl (opt_str (env ''GITHUB_CLIENT_ID''))
                    (opt_str (env ''GITHUB_REDIRECT_URI'')) state (deriveCodeChallenge verifier)),
                 [createOAuthState (secure_cookies env) state,
                  createPkceVerifier (secure_cookies env) verifier], st))"

definition get_local_test :: "env \<Rightarrow> int \<Rightarrow> string \<Rightarrow> auth_store \<Rightarrow> route_result" where
  "get_local_test env now newId st =
     (if \<not> local_enabled env then Some (Json 404 (JStr ''Local test mode is disabled''), [], st)
      else case createSession now newId (local_token env) ''local-test'' local_user st of
          (session, st') \<Rightarrow>
            Some (Redirect (getFrontendUrl env),
                  [attachSessionCookie (secure_cookies env) (session_id session)], st'))"

definition get_github_callback ::
    "(jsval \<Rightarrow> string \<Rightarrow> string option) \<Rightarrow> (string \<Rightarrow> jsval option) \<Rightarrow> (jsval \<Rightarrow> bool) \<Rightarrow> env \<Rightarrow> int \<Rightarrow> string \<Rightarrow>
     jsval \<Rightarrow> jsval \<Rightarrow> string \<Rightarrow> auth_store \<Rightarrow> route_result" where
  "get_github_callback exchange api upsert env now newId code state cookieHeader st =
     (let fail = (\<lambda>err. Redirect (getFrontendUrl env @ ''?error='' @ err));
          cleared = [clearOAuthState (secure_cookies env), clearPkceVerifier (secure_cookies env)]
      in if \<not> truthy code then Some (fail ''no_code'', [], st)
         else case (readOAuthState cookieHeader, readPkceVerifier cookieHeader) of
             (Some expectedState, Some codeVerifier) \<Rightarrow>
               if \<not> truthy state \<or> expectedState = None \<or> state \<noteq> JStr (opt_str expectedState)
               then Some (fail ''auth_state_mismatch'', cleared, st)
               else (case codeVerifier of
                   None \<Rightarrow> Some (fail ''auth_verifier_missing'', cleared, st)
                 | Some verifier \<Rightarrow>
                     (case exchange code verifier of
                        None \<Rightarrow> Some (fail ''auth_failed'', cleared, st)
                      | Some token \<Rightarrow>
                          if token = [] then Some (fail ''no_token'', cleared, st)
                          else (case getAuthenticatedGitHubUser api env token None of
                              None \<Rightarrow> Some (fail ''auth_failed'', cleared, st)
                            | Some user \<Rightarrow>
                                if \<not> upsert user then Some (fail ''auth_failed'', cleared, st)
                                else (case createSession now newId token ''github'' user st of
                                    (session, st') \<Rightarrow>
                                      Some (Redirect (getFrontendUrl env),
                                            cleared @ [attachSessionCookie (secure_cookies env) (session_id session)],
                                            st')))))
           | _ \<Rightarrow> None)"

definition get_session ::
    "(string \<Rightarrow> jsval option) \<Rightarrow> env \<Rightarrow> int \<Rightarrow> string \<Rightarrow> auth_store \<Rightarrow> route_result" where
  "get_session api env now cookieHeader st =
     (case getSessionFromRequest now cookieHeader st of
        None \<Rightarrow> None
      | Some (found, st1) \<Rightarrow>
          let denied = (\<lambda>more st'. Some (Json 401 (JObj ((''authenticated'', JBool False) # more)),
                            [clearSessionCookie (secure_cookies env)], st'))
          in case found of
              None \<Rightarrow> denied [] st1
            | Some session \<Rightarrow>
                if accessToken session = [] then denied [] st1
                else case getAuthenticatedGitHubUser api env (accessToken session) (Some session) of
                    None \<Rightarrow> denied [(''error'', JStr ''Session expired'')] (destroySession (session_id session) st1)
                  | Some user \<Rightarrow>
                      Some (Json 200 (JObj [(''authenticated'', JBool True),
                              (''mode'', JStr (str_or (session_mode session) ''github'')), (''user'', user)]),
                            [], snd (updateSession now (session_id session) (\<lambda>s. s\<lparr>session_user := user\<rparr>) st1)))"

definition post_logout :: "env \<Rightarrow> int \<Rightarrow> string \<Rightarrow> auth_store \<Rightarrow> route_result" where
  "post_logout env now cookieHeader st =
     (case getSessionFromRequest now cookieHeader st of
        None \<Rightarrow> None
      | Some (found, st1) \<Rightarrow>
          Some (Json 200 (JObj [(''success'', JBool True)]), [clearSessionCookie (secure_cookies env)],
                case found of None \<Rightarrow> st1 | Some session \<Rightarrow> destroySession (session_id session) st1))"

definition post_test_session :: "env \<Rightarrow> int \<Rightarrow> string \<Rightarrow> jsval \<Rightarrow> auth_store \<Rightarrow> route_result" where
  "post_test_session env now newId body st =
     (if \<not> toBoolean (env ''ALLOW_TEST_SESSION_AUTH'')
      then Some (Json 404 (JObj [(''error'', JStr ''Not found'')]), [], st)
      else let token = trim (string_or_empty (get_prop body ''accessToken''));
               mode = js_String (js_or (get_prop body ''mode'') (JStr ''github''))
           in if token = []
              then Some (Json 400 (JObj [(''error'', JStr ''accessToken is required'')]), [], st)
              else case createSession now newId token mode (js_or (get_prop body ''user'') JNull) st of
                  (session, st') \<Rightarrow>
                    Some (Json 200 (JObj [(''success'', JBool True), (''sessionId'', JStr (session_id session))]),
                          [attachSessionCookie (secure_cookies env) (session_id session)], st'))"

text \<open>The router: every request it serves.\<close>

datatype auth_request =
    GetGithub string string
  | GetLocalTest int string
  | GetGithubCallback int string jsval jsval string
  | GetSessionRoute int string
  | PostLogout int string
  | PostTestSession int string jsval

fun authRouter ::
    "(string \<Rightarrow> string) \<Rightarrow> (jsval \<Rightarrow> string \<Rightarrow> string option) \<Rightarrow> (string \<Rightarrow> jsval option) \<Rightarrow> (jsval \<Rightarrow> bool) \<Rightarrow>
     env \<Rightarrow> auth_request \<Rightarrow> auth_store \<Rightarrow> route_result" where
  "authRouter challenge exchange api upsert env (GetGithub state verifier) st =
     get_github env challenge state verifier st"
| "authRouter challenge exchange api upsert env (GetLocalTest now newId) st = get_local_test env now newId st"
| "authRouter challenge exchange api upsert env (GetGithubCallback now newId code state hdr) st =
     get_github_callback exchange api upsert env now newId code state hdr st"
| "authRouter challenge exchange api upsert env (GetSessionRoute now hdr) st = get_session api env now hdr st"
| "authRouter challenge exchange api upsert env (PostLogout now hdr) st = post_logout env now hdr st"
| "authRouter challenge exchange api upsert env (PostTestSession now newId body) st =
     post_test_session env now newId body st"

section \<open>Where sessions come from\<close>

lemma getSession_not_new:
  "map_get (sessions st) k = None \<Longrightarrow> map_get (sessions (snd (getSession now sid st))) k = None"
  by (auto simp: getSession_def Let_def split: option.splits)

lemma updateSession_not_new:
  "map_get (sessions st) k = None \<Longrightarrow> map_get (sessions (snd (updateSession now sid f st))) k = None"
  by (auto simp: updateSession_def getSession_def Let_def split: option.splits prod.splits if_splits)

lemma destroySession_not_new:
  "map_get (sessions st) k = None \<Longrightarrow> map_get (sessions (destroySession sid st)) k = None"
  by (simp add: destroySession_def)

lemma fromRequest_not_new:
  "getSessionFromRequest now hdr st = Some (r, st') \<Longrightarrow> map_get (sessions st) k = None \<Longrightarrow>
   map_get (sessions st') k = None"
  by (auto simp: getSessionFromRequest_def dest: getSession_not_new [where now = now] split: option.splits if_splits)
    (metis getSession_not_new snd_conv)

lemma createSession_new:
  "createSession now newId token mode user st = (s, st') \<Longrightarrow>
   map_get (sessions st') k = (if k = newId then Some s else map_get (sessions st) k)
   \<and> s = \<lparr>session_id = newId, accessToken = token, session_mode = mode, session_user = user,
          createdAt = now, updatedAt = now\<rparr>"
  by (auto simp: createSession_def Let_def)

text \<open>What a request must show for a session to come out of it.\<close>

definition login_evidence ::
    "(jsval \<Rightarrow> string \<Rightarrow> string option) \<Rightarrow> (string \<Rightarrow> jsval option) \<Rightarrow> env \<Rightarrow> auth_request \<Rightarrow> auth_session \<Rightarrow> bool" where
  "login_evidence exchange api env r s =
     (case r of
        GetGithubCallback now newId code state hdr \<Rightarrow>
          (case (readOAuthState hdr, readPkceVerifier hdr) of
             (Some (Some sent), Some (Some verifier)) \<Rightarrow>
               state = JStr sent \<and> exchange code verifier = Some (accessToken s) \<and>
               (isLocalTestToken env (accessToken s) \<or> api (accessToken s) = Some (session_user s))
           | _ \<Rightarrow> False)
      | GetLocalTest now newId \<Rightarrow> local_enabled env
      | PostTestSession now newId body \<Rightarrow> toBoolean (env ''ALLOW_TEST_SESSION_AUTH'')
      | _ \<Rightarrow> False)"

text \<open>
  Claim C28. No session without a login: the only requests after which the store holds a session it did
  not hold before are a callback from GitHub whose \<^verbatim>\<open>state\<close> is the one in the cookie this
  server set, whose PKCE verifier comes from the cookie and redeems the code for the
  session's token, and whose user is the one GitHub reports for that token; or the two test
  logins, and these only when their environment variable is set.
\<close>

theorem session_needs_login:
  assumes "authRouter challenge exchange api upsert env r st = Some (reply, cookies, st')"
    and "map_get (sessions st) k = None" and "map_get (sessions st') k = Some s"
  shows "login_evidence exchange api env r s"
proof (cases r)
  case (GetGithub state verifier)
  with assms show ?thesis by (auto simp: get_github_def split: if_splits)
next
  case (GetLocalTest now newId)
  with assms show ?thesis by (auto simp: get_local_test_def login_evidence_def split: if_splits)
next
  case (GetGithubCallback now newId code state hdr)
  with assms show ?thesis
    by (auto simp: get_github_callback_def login_evidence_def Let_def getAuthenticatedGitHubUser_def
        split: if_splits option.splits prod.splits dest!: createSession_new [where k = k])
next
  case (GetSessionRoute now hdr)
  with assms show ?thesis
    by (auto simp: get_session_def Let_def updateSession_not_new destroySession_not_new
        split: option.splits prod.splits if_splits dest!: fromRequest_not_new)
next
  case (PostLogout now hdr)
  with assms show ?thesis
    by (auto simp: post_logout_def destroySession_not_new
        split: option.splits prod.splits dest!: fromRequest_not_new)
next
  case (PostTestSession now newId body)
  with assms show ?thesis by (auto simp: post_test_session_def login_evidence_def split: if_splits)
qed

theorem session_needs_login_witness:
  "login_evidence (\<lambda>code verifier. Some ''tok'') (\<lambda>token. Some (JObj [])) (\<lambda>v. None)
     (GetGithubCallback 5 ''s1'' (JStr ''c'') (JStr ''x'') ''proofdesk_oauth_state=x; proofdesk_oauth_verifier=y'')
     \<lparr>session_id = ''s1'', accessToken = ''tok'', session_mode = ''github'', session_user = JObj [],
      createdAt = 5, updatedAt = 5\<rparr>"
proof -
  have "readOAuthState ''proofdesk_oauth_state=x; proofdesk_oauth_verifier=y'' = Some (Some ''x'')"
    and "readPkceVerifier ''proofdesk_oauth_state=x; proofdesk_oauth_verifier=y'' = Some (Some ''y'')"
    by code_simp+
  then have "authRouter id (\<lambda>code verifier. Some ''tok'') (\<lambda>token. Some (JObj [])) (\<lambda>u. True) (\<lambda>v. None)
      (GetGithubCallback 5 ''s1'' (JStr ''c'') (JStr ''x'') ''proofdesk_oauth_state=x; proofdesk_oauth_verifier=y'')
      \<lparr>sessions = [], persistScheduled = False, needsMigrationPersist = False, store_file = None\<rparr>
    = Some (Redirect ''http://localhost:3000'',
        [clearOAuthState False, clearPkceVerifier False, attachSessionCookie False ''s1''],
        \<lparr>sessions = [(''s1'', \<lparr>session_id = ''s1'', accessToken = ''tok'', session_mode = ''github'',
            session_user = JObj [], createdAt = 5, updatedAt = 5\<rparr>)],
         persistScheduled = True, needsMigrationPersist = False, store_file = None\<rparr>)"
    by (simp add: get_github_callback_def Let_def getAuthenticatedGitHubUser_def isLocalTestToken_def
        local_enabled_def toBoolean_def to_lower_def createSession_def schedulePersist_def
        getFrontendUrl_def str_or_def secure_cookies_def)
  from session_needs_login [OF this, of "''s1''"] show ?thesis by simp
qed

text \<open>
  A session whose user is known is confirmed without asking GitHub, so a token revoked at
  GitHub keeps its session.
\<close>

lemma session_route_trusts_stored_user:
  "getSessionFromRequest now hdr st = Some (Some s, st1) \<Longrightarrow> accessToken s \<noteq> [] \<Longrightarrow>
   truthy (get_prop (session_user s) ''login'') \<Longrightarrow> \<not> local_enabled env \<Longrightarrow>
   get_session api env now hdr st = get_session (\<lambda>token. None) env now hdr st"
  by (simp add: get_session_def Let_def getAuthenticatedGitHubUser_def isLocalTestToken_def)

end
