(* ===== verification/ShareTokens.thy ===== *)
theory ShareTokens imports ExpiringStore begin

text \<open>
  \<^verbatim>\<open>backend/src/services/shareTokenStore.ts\<close>: links that give read access to the
  output of a build for seven days. The tokens live in an object that the first request
  loads from disk, and every change rewrites the file through a temporary file and a rename.

  The state has the cached object, the file and nothing else: \<^verbatim>\<open>loadPromise\<close> makes
  concurrent loads share one object and \<^verbatim>\<open>persistQueue\<close> orders the writes, so that each
  operation sees the object as the one before left it. A file that is missing, or does
  not hold a JSON object, is \<open>None\<close>. Whether a write succeeds is an argument: a failed
  one is logged and leaves the file as it was.
\<close>

definition TOKEN_TTL_MS :: int where "TOKEN_TTL_MS = 7 * 24 * 60 * 60 * 1000"

record share_entry =
  sessionId :: string
  outputPath :: string
  repoPath :: string
  entryFile :: string
  entry_createdAt :: int
  entry_expiresAt :: int

record share_store =
  cache :: "(string, share_entry) jsmap option"
  share_file :: "(string, share_entry) jsmap option"

definition load_tokens :: "share_store \<Rightarrow> (string, share_entry) jsmap" where
  "load_tokens st =
     (case cache st of
        Some tokens \<Rightarrow> tokens
      | None \<Rightarrow> (case share_file st of Some parsed \<Rightarrow> parsed | None \<Rightarrow> []))"

definition persist_tokens :: "bool \<Rightarrow> (string, share_entry) jsmap \<Rightarrow> share_store \<Rightarrow> share_store" where
  "persist_tokens writeOk tokens st = (if writeOk then st\<lparr>share_file := Some tokens\<rparr> else st)"

definition pruneExpired :: "int \<Rightarrow> (string, share_entry) jsmap \<Rightarrow> (string, share_entry) jsmap" where
  "pruneExpired now tokens = filter (\<lambda>(token, entry). \<not> entry_expiresAt entry < now) tokens"

definition createShareToken ::
    "int \<Rightarrow> bool \<Rightarrow> string \<Rightarrow> string \<Rightarrow> string \<Rightarrow> string \<Rightarrow> string option \<Rightarrow> share_store \<Rightarrow> share_store" where
  "createShareToken now writeOk token session output repo file st =
     (let tokens = map_set token
            \<lparr>sessionId = session, outputPath = output, repoPath = repo,
             entryFile = str_or (opt_str file) ''overview.html'',
             entry_createdAt = now, entry_expiresAt = now + TOKEN_TTL_MS\<rparr>
            (pruneExpired now (load_tokens st))
      in persist_tokens writeOk tokens (st\<lparr>cache := Some tokens\<rparr>))"

definition token_syntax :: "string \<Rightarrow> bool" where
  "token_syntax token = (length token = 32 \<and> list_all (\<lambda>c. c \<in> set ''0123456789abcdef'') token)"

definition getShareToken :: "int \<Rightarrow> bool \<Rightarrow> string \<Rightarrow> share_store \<Rightarrow> share_entry option \<times> share_store" where
  "getShareToken now writeOk token st =
     (if \<not> token_syntax token then (None, st)
      else let tokens = load_tokens st; st1 = st\<lparr>cache := Some tokens\<rparr>
           in case map_get tokens token of
                None \<Rightarrow> (None, st1)
              | Some entry \<Rightarrow>
                  if entry_expiresAt entry < now
                  then (None, persist_tokens writeOk (map_del token tokens)
                                (st1\<lparr>cache := Some (map_del token tokens)\<rparr>))
                  else (Some entry, st1))"

section \<open>The lookup meets the contract of an expiring store\<close>

definition share_ok :: "share_store \<Rightarrow> bool" where
  "share_ok st = (keys_distinct (load_tokens st) \<and> list_all token_syntax (map fst (load_tokens st)))"

definition token_stale :: "int \<Rightarrow> share_entry \<Rightarrow> bool" where
  "token_stale t entry = (entry_expiresAt entry < t)"

lemma load_tokens_simps [simp]:
  "load_tokens (st\<lparr>cache := Some tokens\<rparr>) = tokens"
  "load_tokens (persist_tokens w tokens' (st\<lparr>cache := Some tokens\<rparr>)) = tokens"
  by (simp_all add: load_tokens_def persist_tokens_def)

lemma share_ok_syntax: "share_ok st \<Longrightarrow> map_get (load_tokens st) k = Some e \<Longrightarrow> token_syntax k"
  by (auto simp: share_ok_def list_all_iff dest: map_of_SomeD)

lemma load_getShareToken:
  "load_tokens (snd (getShareToken t w k st)) =
     (if token_syntax k \<and> (case map_get (load_tokens st) k of Some e \<Rightarrow> token_stale t e | None \<Rightarrow> False)
      then map_del k (load_tokens st) else load_tokens st)"
  by (simp add: getShareToken_def Let_def token_stale_def split: option.splits)

lemma share_ok_load: "load_tokens st' = load_tokens st \<Longrightarrow> share_ok st \<Longrightarrow> share_ok st'"
  by (simp add: share_ok_def)

lemma share_ok_filter: "load_tokens st' = filter P (load_tokens st) \<Longrightarrow> share_ok st \<Longrightarrow> share_ok st'"
  by (auto simp: share_ok_def keys_distinct_filter list_all_iff)

lemma getShareToken_ok: "share_ok st \<Longrightarrow> share_ok (snd (getShareToken t w k st))"
  by (cases "load_tokens (snd (getShareToken t w k st)) = load_tokens st")
    (auto simp: load_getShareToken AList.delete_eq intro: share_ok_load share_ok_filter split: if_splits)

interpretation share: expiring_store "\<lambda>t. getShareToken t w" "\<lambda>st. map_get (load_tokens st)" token_stale share_ok
  for w
proof
  show "share_ok st \<Longrightarrow> share_ok (snd (getShareToken t w k st))" for st t k by (rule getShareToken_ok)
  show "token_stale t v \<Longrightarrow> t \<le> t' \<Longrightarrow> token_stale t' v" for t t' v by (simp add: token_stale_def)
  show "share_ok st \<Longrightarrow> map_get (load_tokens st) k = Some v \<Longrightarrow> \<not> token_stale t v \<Longrightarrow>
      fst (getShareToken t w k st) \<noteq> None
      \<and> map_get (load_tokens (snd (getShareToken t w k st))) k = fst (getShareToken t w k st)" for st k v t
    using share_ok_syntax [of st k v] by (simp add: getShareToken_def Let_def token_stale_def)
  show "share_ok st \<Longrightarrow> (\<And>v. map_get (load_tokens st) k = Some v \<Longrightarrow> token_stale t v) \<Longrightarrow>
      fst (getShareToken t w k st) = None
      \<and> map_get (load_tokens (snd (getShareToken t w k st))) k = None" for st k t
    using share_ok_syntax [of st k]
    by (cases "map_get (load_tokens st) k") (auto simp: getShareToken_def Let_def token_stale_def)
  show "share_ok st \<Longrightarrow> k' \<noteq> k \<Longrightarrow>
      map_get (load_tokens (snd (getShareToken t w k st))) k' = map_get (load_tokens st) k'" for st k k' t
    by (simp add: load_getShareToken)
qed

section \<open>Histories\<close>

text \<open>A restart drops the cached object: the next request reads the file.\<close>

datatype share_op =
    Create int bool string string string string "string option"
  | Get int bool string
  | RestartServer

fun share_step :: "share_op \<Rightarrow> share_store \<Rightarrow> share_store" where
  "share_step (Create now w token session output repo file) st =
     createShareToken now w token session output repo file st"
| "share_step (Get now w token) st = snd (getShareToken now w token st)"
| "share_step RestartServer st = st\<lparr>cache := None\<rparr>"

fun op_time :: "share_op \<Rightarrow> int option" where
  "op_time (Create now w token session output repo file) = Some now"
| "op_time (Get now w token) = Some now"
| "op_time RestartServer = None"

fun op_written :: "share_op \<Rightarrow> bool" where
  "op_written (Create now w token session output repo file) = w"
| "op_written (Get now w token) = w"
| "op_written RestartServer = True"

fun op_creates :: "share_op \<Rightarrow> string option" where
  "op_creates (Create now w token session output repo file) = Some token"
| "op_creates _ = None"

text \<open>
  What both copies of the tokens, the object in memory and the file, know of one token
  until the time \<open>T\<close>: its entry, unless that has expired by then.
\<close>

definition tracks :: "int \<Rightarrow> string \<Rightarrow> share_entry \<Rightarrow> (string, share_entry) jsmap \<Rightarrow> bool" where
  "tracks T k e m =
     (keys_distinct m \<and> list_all token_syntax (map fst m) \<and>
      (map_get m k = Some e \<or> (map_get m k = None \<and> entry_expiresAt e < T)))"

definition tracked :: "int \<Rightarrow> string \<Rightarrow> share_entry \<Rightarrow> share_store \<Rightarrow> bool" where
  "tracked T k e st = (tracks T k e (load_tokens st) \<and> tracks T k e (load_tokens (st\<lparr>cache := None\<rparr>)))"

lemma load_tokens_uncached [simp]:
  "load_tokens (st\<lparr>cache := None\<rparr>) = (case share_file st of Some parsed \<Rightarrow> parsed | None \<Rightarrow> [])"
  by (simp add: load_tokens_def)

lemma share_file_simps [simp]:
  "share_file (st\<lparr>cache := c\<rparr>) = share_file st"
  "share_file (persist_tokens w tokens st) = (if w then Some tokens else share_file st)"
  by (simp_all add: persist_tokens_def)

lemma token_map_prune:
  "keys_distinct m \<Longrightarrow> list_all token_syntax (map fst m) \<Longrightarrow>
   keys_distinct (pruneExpired now m) \<and> list_all token_syntax (map fst (pruneExpired now m))"
  by (auto simp: pruneExpired_def keys_distinct_filter list_all_iff)

lemma token_map_set:
  "keys_distinct m \<Longrightarrow> list_all token_syntax (map fst m) \<Longrightarrow> token_syntax k \<Longrightarrow>
   keys_distinct (map_set k v m) \<and> list_all token_syntax (map fst (map_set k v m))"
  by (simp add: distinct_update list_all_iff update_keys)

lemma tracks_prune: "tracks T k e m \<Longrightarrow> now \<le> T \<Longrightarrow> tracks T k e (pruneExpired now m)"
  using token_map_prune [of m now]
  by (auto simp: tracks_def pruneExpired_def map_of_filter_value simp del: map_of_eq_Some_iff
      split: if_splits)

lemma tracks_set: "tracks T k e m \<Longrightarrow> token_syntax j \<Longrightarrow> j \<noteq> k \<Longrightarrow> tracks T k e (map_set j v m)"
  using token_map_set [of m j v] by (auto simp: tracks_def simp del: map_of_eq_Some_iff)

lemma tracks_del:
  assumes "tracks T k e m" and "map_get m j = Some v" and "entry_expiresAt v < T"
  shows "tracks T k e (map_del j m)"
proof -
  have "keys_distinct (map_del j m)" "list_all token_syntax (map fst (map_del j m))"
    using assms(1) by (auto simp: tracks_def AList.delete_eq keys_distinct_filter list_all_iff)
  with assms show ?thesis by (auto simp: tracks_def simp del: map_of_eq_Some_iff)
qed

lemma tracked_create:
  assumes "tracks T k e (map_set j v (pruneExpired now (load_tokens st)))"
    and "v = \<lparr>sessionId = sess, outputPath = outp, repoPath = repo,
             entryFile = str_or (opt_str fl) ''overview.html'',
             entry_createdAt = now, entry_expiresAt = now + TOKEN_TTL_MS\<rparr>"
  shows "tracked T k e (createShareToken now True j sess outp repo fl st)"
  using assms by (simp add: tracked_def createShareToken_def Let_def)

lemma tracked_get:
  assumes "tracked T k e st" and "now \<le> T"
  shows "tracked T k e (snd (getShareToken now True j st))"
proof (cases "map_get (load_tokens st) j")
  case None
  with assms(1) show ?thesis by (simp add: tracked_def getShareToken_def Let_def)
next
  case (Some v)
  have "entry_expiresAt v < now \<Longrightarrow> tracks T k e (map_del j (load_tokens st))"
    using assms Some by (intro tracks_del) (auto simp: tracked_def)
  with assms(1) Some show ?thesis by (simp add: tracked_def getShareToken_def Let_def)
qed

lemma tracked_step:
  assumes "tracked T k e st" and "\<forall>now. op_time a = Some now \<longrightarrow> now \<le> T"
    and "op_written a" and "op_creates a \<noteq> Some k" and "\<forall>j. op_creates a = Some j \<longrightarrow> token_syntax j"
  shows "tracked T k e (share_step a st)"
proof (cases a)
  case (Create now w token sess outp repo fl)
  have "tracks T k e (map_set token v (pruneExpired now (load_tokens st)))" for v
    using assms Create by (intro tracks_set tracks_prune) (auto simp: tracked_def)
  with Create assms(3) show ?thesis by (simp add: tracked_create)
next
  case (Get now w token)
  with assms show ?thesis by (simp add: tracked_get)
next
  case RestartServer
  with assms(1) show ?thesis by (simp add: tracked_def)
qed

lemma tracked_fold:
  "tracked T k e st \<Longrightarrow>
   \<forall>a \<in> set as. (\<forall>now. op_time a = Some now \<longrightarrow> now \<le> T) \<and> op_written a
     \<and> op_creates a \<noteq> Some k \<and> (\<forall>j. op_creates a = Some j \<longrightarrow> token_syntax j) \<Longrightarrow>
   tracked T k e (fold share_step as st)"
  by (induction as arbitrary: st) (simp_all add: tracked_step)

text \<open>
  Claim C22. A share link works for its whole seven days and not a millisecond longer: after
  \<^verbatim>\<open>createShareToken\<close> at time \<open>t0\<close>, whatever other links are created, looked up or pruned and
  however often the server restarts, a lookup at time \<open>t\<close> returns the entry as it was
  created if \<open>t \<le> t0 + 7\<close> days and nothing afterwards.
\<close>

theorem share_link_lifetime:
  assumes "share_ok st" and "token_syntax k"
    and "\<forall>a \<in> set as. op_written a \<and> op_creates a \<noteq> Some k"
    and "\<forall>a \<in> set as. \<forall>now. op_time a = Some now \<longrightarrow> now \<le> t"
    and "\<forall>a \<in> set as. \<forall>j. op_creates a = Some j \<longrightarrow> token_syntax j"
  shows "fst (getShareToken t w k
           (fold share_step as (createShareToken t0 True k sess outp repo fl st))) =
         (if t \<le> t0 + TOKEN_TTL_MS
          then Some \<lparr>sessionId = sess, outputPath = outp, repoPath = repo,
                     entryFile = str_or (opt_str fl) ''overview.html'',
                     entry_createdAt = t0, entry_expiresAt = t0 + TOKEN_TTL_MS\<rparr>
          else None)"
proof -
  let ?e = "\<lparr>sessionId = sess, outputPath = outp, repoPath = repo,
             entryFile = str_or (opt_str fl) ''overview.html'',
             entry_createdAt = t0, entry_expiresAt = t0 + TOKEN_TTL_MS\<rparr>"
  let ?st = "createShareToken t0 True k sess outp repo fl st"
  have "tracks t k ?e (map_set k ?e (pruneExpired t0 (load_tokens st)))"
    using token_map_set [of "pruneExpired t0 (load_tokens st)" k ?e]
      token_map_prune [of "load_tokens st" t0] assms(1,2) by (simp add: tracks_def share_ok_def)
  then have "tracked t k ?e (fold share_step as (createShareToken t0 True k sess outp repo fl st))"
    using assms(3-5) by (intro tracked_fold tracked_create) auto
  with assms(2) show ?thesis
    by (auto simp: tracked_def tracks_def getShareToken_def Let_def simp del: map_of_eq_Some_iff)
qed

theorem share_link_lifetime_witness:
  "fst (getShareToken 604800008 True (replicate 32 (CHR ''a''))
     (fold share_step [RestartServer, Get 9 True (replicate 32 (CHR ''b''))]
        (createShareToken 8 True (replicate 32 (CHR ''a'')) ''s'' ''/out'' ''/repo'' None
           \<lparr>cache = None, share_file = None\<rparr>))) =
   Some \<lparr>sessionId = ''s'', outputPath = ''/out'', repoPath = ''/repo'', entryFile = ''overview.html'',
         entry_createdAt = 8, entry_expiresAt = 604800008\<rparr>"
proof -
  have "share_ok \<lparr>cache = None, share_file = None\<rparr>" by (simp add: share_ok_def load_tokens_def)
  moreover have "token_syntax (replicate 32 (CHR ''a''))" by (simp add: token_syntax_def list_all_iff)
  ultimately have "fst (getShareToken 604800008 True (replicate 32 (CHR ''a''))
     (fold share_step [RestartServer, Get 9 True (replicate 32 (CHR ''b''))]
        (createShareToken 8 True (replicate 32 (CHR ''a'')) ''s'' ''/out'' ''/repo'' None
           \<lparr>cache = None, share_file = None\<rparr>))) =
     (if 604800008 \<le> 8 + TOKEN_TTL_MS
      then Some \<lparr>sessionId = ''s'', outputPath = ''/out'', repoPath = ''/repo'',
                 entryFile = str_or (opt_str None) ''overview.html'',
                 entry_createdAt = 8, entry_expiresAt = 8 + TOKEN_TTL_MS\<rparr>
      else None)"
    by (rule share_link_lifetime) auto
  then show ?thesis by (simp add: TOKEN_TTL_MS_def str_or_def)
qed

end
