(* ===== verification/BuildQueue.thy ===== *)
theory BuildQueue imports Prelude begin

text \<open>
  \<^verbatim>\<open>backend/src/services/buildQueue.ts\<close>: builds run one at a time in a queue inside the
  process, or in a queue shared through Redis that falls back to the first.

  A job is added, and later ends with the outcome of its build: the two steps of the
  relation \<open>queue_run\<close>. The build (\<^verbatim>\<open>buildExecutor.build\<close>) and the database of
  workspace sessions are parameters, the queue in Redis a list that the job is appended to
  when BullMQ accepts it. \<open>settled\<close> records the promises that were resolved or rejected
  and \<open>logs\<close> the calls of \<^verbatim>\<open>_finishLog\<close>.
\<close>

record build_job =
  job_session :: string
  job_xmlId :: "string option"
  job_trace :: "string option"

record build_result =
  success :: bool
  error_text :: string
  stdout :: string
  stderr :: string

record build_error =
  err_message :: string
  err_stdout :: string
  err_stderr :: string

type_synonym build_outcome = "build_error + build_result"

record build_state =
  waiting :: "build_job list"
  running :: bool
  current :: "build_job option"
  redis_jobs :: "build_job list"
  hydrated :: "string list"
  logs :: "(string \<times> build_result) list"
  settled :: "(build_job \<times> build_outcome) list"

definition processNext :: "build_state \<Rightarrow> build_state" where
  "processNext st =
     (if running st \<or> waiting st = [] then st
      else st\<lparr>running := True, current := Some (hd (waiting st)), waiting := tl (waiting st)\<rparr>)"

definition add_local :: "build_job \<Rightarrow> build_state \<Rightarrow> build_state" where
  "add_local job st = processNext (st\<lparr>waiting := waiting st @ [job]\<rparr>)"

definition ensureSessionHydrated :: "(string \<Rightarrow> bool) \<Rightarrow> string \<Rightarrow> build_state \<Rightarrow> build_error + build_state" where
  "ensureSessionHydrated inDatabase sid st =
     (if sid \<in> set (hydrated st) then Inr st
      else if inDatabase sid then Inr (st\<lparr>hydrated := sid # hydrated st\<rparr>)
      else Inl \<lparr>err_message = ''Session '' @ sid @ '' not found in database'', err_stdout = [], err_stderr = []\<rparr>)"

definition error_result :: "build_error \<Rightarrow> build_result" where
  "error_result e = \<lparr>success = False, error_text = err_message e, stdout = err_stdout e,
                     stderr = str_or (err_stderr e) (err_message e)\<rparr>"

text \<open>The build of a job, with the session loaded first.\<close>

definition run_job ::
    "(string \<Rightarrow> bool) \<Rightarrow> (build_job \<Rightarrow> build_outcome) \<Rightarrow> build_job \<Rightarrow> build_state \<Rightarrow> build_outcome \<times> build_state" where
  "run_job inDatabase build job st =
     (case ensureSessionHydrated inDatabase (job_session job) st of
        Inl e \<Rightarrow> (Inl e, st)
      | Inr st' \<Rightarrow>
          (case build job of
             Inl e \<Rightarrow> (Inl e, st')
           | Inr result \<Rightarrow> (Inr result, st'\<lparr>logs := logs st' @ [(job_session job, result)]\<rparr>)))"

text \<open>The rest of \<^verbatim>\<open>processNext\<close> for the job in flight, with its \<^verbatim>\<open>catch\<close> and \<^verbatim>\<open>finally\<close>.\<close>

definition finish_current ::
    "(string \<Rightarrow> bool) \<Rightarrow> (build_job \<Rightarrow> build_outcome) \<Rightarrow> build_state \<Rightarrow> build_state" where
  "finish_current inDatabase build st =
     (case current st of
        None \<Rightarrow> st
      | Some job \<Rightarrow>
          (case run_job inDatabase build job st of
             (res, st1) \<Rightarrow>
               let st2 = (case res of
                            Inl e \<Rightarrow> st1\<lparr>logs := logs st1 @ [(job_session job, error_result e)]\<rparr>
                          | Inr r \<Rightarrow> st1)
               in processNext (st2\<lparr>settled := settled st2 @ [(job, res)], running := False, current := None\<rparr>)))"

definition pushBuildJob :: "bool \<Rightarrow> bool \<Rightarrow> build_job \<Rightarrow> build_state \<Rightarrow> bool \<times> build_state" where
  "pushBuildJob redisEnabled redisAccepts job st =
     (if redisEnabled
      then if redisAccepts then (True, st\<lparr>redis_jobs := redis_jobs st @ [job]\<rparr>) else (True, add_local job st)
      else (True, add_local job st))"

text \<open>The worker that serves the shared queue, with its handler for failed jobs.\<close>

definition worker_job ::
    "(string \<Rightarrow> bool) \<Rightarrow> (build_job \<Rightarrow> build_outcome) \<Rightarrow> build_job \<Rightarrow> build_state \<Rightarrow> build_state" where
  "worker_job inDatabase build job st =
     (case run_job inDatabase build job st of
        (Inr result, st') \<Rightarrow> st'
      | (Inl e, st') \<Rightarrow>
          st'\<lparr>logs := logs st' @ [(job_session job,
                \<lparr>success = False, error_text = err_message e, stdout = [], stderr = err_message e\<rparr>)]\<rparr>)"

definition idle :: build_state where
  "idle = \<lparr>waiting = [], running = False, current = None, redis_jobs = [], hydrated = [], logs = [], settled = []\<rparr>"

text \<open>
  The states of the queue, with the jobs it was given so far: those for this process and
  those that Redis took.
\<close>

inductive queue_run ::
    "(string \<Rightarrow> bool) \<Rightarrow> (build_job \<Rightarrow> build_outcome) \<Rightarrow> build_state \<Rightarrow> build_job list \<Rightarrow> build_job list \<Rightarrow> bool"
  for inDatabase build where
  queue_start: "queue_run inDatabase build idle [] []"
| queue_push_redis:
    "queue_run inDatabase build st ls rs \<Longrightarrow> pushBuildJob True True job st = (taken, st') \<Longrightarrow>
     queue_run inDatabase build st' ls (rs @ [job])"
| queue_push_local:
    "queue_run inDatabase build st ls rs \<Longrightarrow> \<not> (enabled \<and> accepts) \<Longrightarrow>
     pushBuildJob enabled accepts job st = (taken, st') \<Longrightarrow>
     queue_run inDatabase build st' (ls @ [job]) rs"
| queue_finish:
    "queue_run inDatabase build st ls rs \<Longrightarrow> current st = Some job \<Longrightarrow>
     queue_run inDatabase build (finish_current inDatabase build st) ls rs"

inductive_cases queue_runE: "queue_run inDatabase build st ls rs"

section \<open>Order and progress\<close>

definition in_flight :: "build_state \<Rightarrow> build_job list" where
  "in_flight st = (case current st of None \<Rightarrow> [] | Some job \<Rightarrow> [job])"

definition queue_inv :: "build_state \<Rightarrow> bool" where
  "queue_inv st = ((running st \<longleftrightarrow> current st \<noteq> None) \<and> (waiting st \<noteq> [] \<longrightarrow> running st))"

text \<open>All jobs given to the process, in the order in which their builds start.\<close>

definition all_jobs :: "build_state \<Rightarrow> build_job list" where
  "all_jobs st = map fst (settled st) @ in_flight st @ waiting st"

lemma processNext_facts:
  assumes "running st \<longleftrightarrow> current st \<noteq> None"
  shows "queue_inv (processNext st)" "all_jobs (processNext st) = all_jobs st"
    "settled (processNext st) = settled st" "redis_jobs (processNext st) = redis_jobs st"
  using assms by (auto simp: processNext_def queue_inv_def all_jobs_def in_flight_def)

lemma add_local_facts:
  assumes "queue_inv st"
  shows "queue_inv (add_local job st)" "all_jobs (add_local job st) = all_jobs st @ [job]"
    "redis_jobs (add_local job st) = redis_jobs st"
  unfolding add_local_def using assms
  by (subst processNext_facts; simp add: queue_inv_def all_jobs_def in_flight_def)+

lemma run_job_frame:
  "run_job db build job st = (res, st') \<Longrightarrow>
   waiting st' = waiting st \<and> running st' = running st \<and> current st' = current st
   \<and> redis_jobs st' = redis_jobs st \<and> settled st' = settled st"
  by (auto simp: run_job_def ensureSessionHydrated_def split: sum.splits if_splits)

lemma finish_current_facts:
  assumes "queue_inv st" and "current st = Some job"
  shows "queue_inv (finish_current db build st) \<and> all_jobs (finish_current db build st) = all_jobs st
    \<and> redis_jobs (finish_current db build st) = redis_jobs st
    \<and> map fst (settled (finish_current db build st)) = map fst (settled st) @ [job]"
proof -
  obtain res st1 where r: "run_job db build job st = (res, st1)" by (cases "run_job db build job st")
  define st2 where "st2 = (case res of
       Inl e \<Rightarrow> st1\<lparr>logs := logs st1 @ [(job_session job, error_result e)]\<rparr> | Inr r \<Rightarrow> st1)"
  define st3 where "st3 = st2\<lparr>settled := settled st2 @ [(job, res)], running := False, current := None\<rparr>"
  have "waiting st3 = waiting st" "settled st3 = settled st @ [(job, res)]" "current st3 = None"
    "running st3 = False" "redis_jobs st3 = redis_jobs st"
    using run_job_frame [OF r] by (simp_all add: st3_def st2_def split: sum.split)
  moreover have "finish_current db build st = processNext st3"
    using assms(2) r by (simp add: finish_current_def Let_def st3_def st2_def)
  ultimately show ?thesis
    using processNext_facts [of st3] assms by (simp add: all_jobs_def in_flight_def)
qed

lemma queue_run_inv:
  assumes "queue_run db build st ls rs"
  shows "queue_inv st \<and> all_jobs st = ls \<and> redis_jobs st = rs"
  using assms
proof (induction rule: queue_run.induct)
  case queue_start
  then show ?case by (simp add: idle_def queue_inv_def all_jobs_def in_flight_def)
next
  case (queue_push_redis st ls rs job taken st')
  then show ?case by (auto simp: pushBuildJob_def queue_inv_def all_jobs_def in_flight_def)
next
  case (queue_push_local st ls rs enabled accepts job taken st')
  then have "st' = add_local job st" by (auto simp: pushBuildJob_def split: if_splits)
  with queue_push_local.IH show ?case by (simp add: add_local_facts)
next
  case (queue_finish st ls rs job)
  with finish_current_facts [of st job db build] show ?case by auto
qed

text \<open>
  Claim C30. The queue loses, repeats and reorders nothing: at every moment the jobs that this process
  accepted, directly or because Redis refused them, are exactly those whose promise is
  settled, then the one that runs, then those that wait, in the order they were pushed; at
  most one runs, and none waits while nothing runs. A build that fails is settled like any
  other.
\<close>

theorem queue_fifo_exactly_once:
  assumes "queue_run db build st ls rs"
  shows "ls = map fst (settled st) @ (case current st of None \<Rightarrow> [] | Some job \<Rightarrow> [job]) @ waiting st
    \<and> rs = redis_jobs st \<and> \<not> (current st = None \<and> waiting st \<noteq> [])"
  using queue_run_inv [OF assms] by (auto simp: all_jobs_def in_flight_def queue_inv_def)

lemma finish_shortens:
  assumes "queue_inv st" and "current st = Some job"
  shows "length (in_flight (finish_current db build st) @ waiting (finish_current db build st)) = length (waiting st)"
proof -
  let ?f = "finish_current db build st"
  have "map fst (settled st) @ [job] @ in_flight ?f @ waiting ?f = all_jobs st"
    using conjunct1 [OF conjunct2 [OF finish_current_facts [OF assms, of db build]]]
      finish_current_facts [OF assms, of db build] by (simp add: all_jobs_def [of ?f])
  also have "all_jobs st = map fst (settled st) @ [job] @ waiting st"
    using assms(2) by (simp add: all_jobs_def in_flight_def)
  finally show ?thesis by simp
qed

lemma drain:
  assumes "queue_inv st" and "length (in_flight st @ waiting st) = n"
  shows "queue_inv ((finish_current db build ^^ n) st)
    \<and> in_flight ((finish_current db build ^^ n) st) @ waiting ((finish_current db build ^^ n) st) = []
    \<and> all_jobs ((finish_current db build ^^ n) st) = all_jobs st"
  using assms
proof (induction n arbitrary: st)
  case (Suc n)
  then obtain job where cur: "current st = Some job"
    by (cases "current st") (auto simp: in_flight_def queue_inv_def)
  with Suc.prems have "length (waiting st) = n" by (simp add: in_flight_def)
  with finish_shortens [OF Suc.prems(1) cur] finish_current_facts [OF Suc.prems(1) cur] Suc.IH
  show ?case by (simp only: funpow_Suc_right o_apply)
qed simp

text \<open>
  Claim C34. Every job gets its turn: when the builds of a state end one after the other, each with
  whatever outcome, then after as many ends as jobs were running or waiting the queue is
  idle and every job it ever accepted is settled, in the order of the pushes.
\<close>

theorem queue_drains:
  assumes "queue_run db build st ls rs"
  shows "case (finish_current db build ^^ length (in_flight st @ waiting st)) st of
           st' \<Rightarrow> current st' = None \<and> waiting st' = [] \<and> map fst (settled st') = ls"
proof -
  let ?n = "length (in_flight st @ waiting st)"
  from drain [OF conjunct1 [OF queue_run_inv [OF assms]] refl, of db build]
  have "in_flight ((finish_current db build ^^ ?n) st) @ waiting ((finish_current db build ^^ ?n) st) = []"
    and "all_jobs ((finish_current db build ^^ ?n) st) = ls"
    using queue_run_inv [OF assms] by auto
  then show ?thesis by (auto simp: all_jobs_def in_flight_def split: option.splits)
qed

definition sample_job :: "string \<Rightarrow> build_job" where
  "sample_job sid = \<lparr>job_session = sid, job_xmlId = None, job_trace = None\<rparr>"

lemma sample_run:
  "queue_run (\<lambda>sid. sid = ''a'') (\<lambda>j. Inr \<lparr>success = True, error_text = [], stdout = [], stderr = []\<rparr>)
     (add_local (sample_job ''b'') (add_local (sample_job ''a'') idle)) [sample_job ''a'', sample_job ''b''] []"
proof -
  let ?run = "queue_run (\<lambda>sid. sid = ''a'') (\<lambda>j. Inr \<lparr>success = True, error_text = [], stdout = [], stderr = []\<rparr>)"
  have "?run (add_local (sample_job ''a'') idle) ([] @ [sample_job ''a'']) []"
    by (rule queue_push_local [OF queue_start, of False False]) (simp_all add: pushBuildJob_def)
  then have "?run (add_local (sample_job ''b'') (add_local (sample_job ''a'') idle)) (([] @ [sample_job ''a'']) @ [sample_job ''b'']) []"
    by (rule queue_push_local [of _ _ _ _ _ True False]) (simp_all add: pushBuildJob_def)
  then show ?thesis by simp
qed

theorem queue_fifo_exactly_once_witness:
  "\<not> (current (add_local (sample_job ''b'') (add_local (sample_job ''a'') idle)) = None
      \<and> waiting (add_local (sample_job ''b'') (add_local (sample_job ''a'') idle)) \<noteq> [])"
  using queue_fifo_exactly_once [OF sample_run] by simp

theorem queue_drains_witness:
  "map fst (settled ((finish_current (\<lambda>sid. sid = ''a'')
      (\<lambda>j. Inr \<lparr>success = True, error_text = [], stdout = [], stderr = []\<rparr>) ^^ 2)
      (add_local (sample_job ''b'') (add_local (sample_job ''a'') idle)))) = [sample_job ''a'', sample_job ''b'']"
proof -
  let ?st = "add_local (sample_job ''b'') (add_local (sample_job ''a'') idle)"
  have "length (in_flight ?st @ waiting ?st) = 2" by code_simp
  then show ?thesis using queue_drains [OF sample_run] by simp
qed

end
