(* ===== verification/ImportDiff.thy ===== *)
theory ImportDiff imports Prelude begin

text \<open>
  \<^verbatim>\<open>frontend/src/utils/importDiff.ts\<close>: the line diff of the import preview, and the checks
  on a file before it is uploaded. The table of longest common subsequences is a list of
  rows, built from the last line upwards as the two \<^verbatim>\<open>for\<close> loops fill it.
\<close>

datatype row_type = Add | Remove | Context

record diff_row =
  row_kind :: row_type
  row_text :: string
  oldLine :: "nat option"
  newLine :: "nat option"

record diff_summary =
  added :: nat
  removed :: nat
  unchanged :: nat

record diff_result =
  rows :: "diff_row list"
  summary :: diff_summary
  truncated :: bool

definition MAX_DIFF_LINES :: nat where "MAX_DIFF_LINES = 2000"

fun normalize_crlf :: "string \<Rightarrow> string" where
  "normalize_crlf (c # d # s) =
     (if c = CHR 0x0D \<and> d = newline then newline # normalize_crlf s else c # normalize_crlf (d # s))"
| "normalize_crlf s = s"

definition splitLines :: "string \<Rightarrow> string list" where
  "splitLines s = (if s = [] then [] else split_on newline (normalize_crlf s))"

definition emptySummary :: diff_summary where
  "emptySummary = \<lparr>added = 0, removed = 0, unchanged = 0\<rparr>"

definition count_row :: "diff_row \<Rightarrow> diff_summary \<Rightarrow> diff_summary" where
  "count_row row s =
     (case row_kind row of
        Add \<Rightarrow> s\<lparr>added := added s + 1\<rparr>
      | Remove \<Rightarrow> s\<lparr>removed := removed s + 1\<rparr>
      | Context \<Rightarrow> s\<lparr>unchanged := unchanged s + 1\<rparr>)"

definition summarize :: "diff_row list \<Rightarrow> diff_summary" where
  "summarize rs = fold count_row rs emptySummary"

definition remove_row :: "string list \<Rightarrow> nat \<Rightarrow> diff_row" where
  "remove_row a i = \<lparr>row_kind = Remove, row_text = a ! i, oldLine = Some (i + 1), newLine = None\<rparr>"

definition add_row :: "string list \<Rightarrow> nat \<Rightarrow> diff_row" where
  "add_row b j = \<lparr>row_kind = Add, row_text = b ! j, oldLine = None, newLine = Some (j + 1)\<rparr>"

definition wholeBlockDiff :: "string list \<Rightarrow> string list \<Rightarrow> bool \<Rightarrow> diff_result" where
  "wholeBlockDiff a b trunc =
     (let rs = map (remove_row a) [0..<length a] @ map (add_row b) [0..<length b]
      in \<lparr>rows = rs, summary = summarize rs, truncated = trunc\<rparr>)"

text \<open>Row \<open>i\<close> of the table, for the line \<open>x\<close>, from row \<open>i + 1\<close>; then the table.\<close>

fun lcs_row :: "string \<Rightarrow> string list \<Rightarrow> nat list \<Rightarrow> nat list" where
  "lcs_row x [] below = [0]"
| "lcs_row x (y # ys) below =
     (let r = lcs_row x ys (tl below)
      in (if x = y then below ! 1 + 1 else max (below ! 0) (hd r)) # r)"

fun lcs_table :: "string list \<Rightarrow> string list \<Rightarrow> nat list list" where
  "lcs_table [] b = [replicate (length b + 1) 0]"
| "lcs_table (x # xs) b = (let t = lcs_table xs b in lcs_row x b (hd t) # t)"

text \<open>The three \<^verbatim>\<open>while\<close> loops.\<close>

function diff_loop :: "string list \<Rightarrow> string list \<Rightarrow> nat list list \<Rightarrow> nat \<Rightarrow> nat \<Rightarrow> diff_row list" where
  "diff_loop a b lcs i j =
     (if i < length a \<and> j < length b
      then if a ! i = b ! j
           then \<lparr>row_kind = Context, row_text = a ! i, oldLine = Some (i + 1), newLine = Some (j + 1)\<rparr>
                # diff_loop a b lcs (i + 1) (j + 1)
           else if lcs ! (i + 1) ! j \<ge> lcs ! i ! (j + 1)
           then remove_row a i # diff_loop a b lcs (i + 1) j
           else add_row b j # diff_loop a b lcs i (j + 1)
      else map (remove_row a) [i..<length a] @ map (add_row b) [j..<length b])"
  by pat_completeness auto
termination by (relation "measure (\<lambda>(a, b, lcs, i, j). (length a - i) + (length b - j))") auto

declare diff_loop.simps [simp del]

definition diffLines :: "string \<Rightarrow> string \<Rightarrow> diff_result" where
  "diffLines before after =
     (let a = splitLines before; b = splitLines after
      in if a = [] \<or> b = [] then wholeBlockDiff a b False
         else if length a > MAX_DIFF_LINES \<or> length b > MAX_DIFF_LINES then wholeBlockDiff a b True
         else let rs = diff_loop a b (lcs_table a b) 0 0
              in \<lparr>rows = rs, summary = summarize rs, truncated = False\<rparr>)"

definition formatDiffSummary :: "diff_summary \<Rightarrow> string" where
  "formatDiffSummary s =
     (let parts = (if added s > 0 then [dec_nat (added s) @ '' added''] else [])
                  @ (if removed s > 0 then [dec_nat (removed s) @ '' removed''] else [])
      in if parts = [] then ''No changes'' else join '', '' parts)"

text \<open>
  \<^verbatim>\<open>(n / d).toFixed(1)\<close> for a power of two \<open>d\<close>: the quotient is exact, and of two
  numbers equally near the larger one is taken.
\<close>

definition toFixed1 :: "nat \<Rightarrow> nat \<Rightarrow> string" where
  "toFixed1 n d = (let t = (20 * n + d) div (2 * d) in dec_nat (t div 10) @ ''.'' @ dec_nat (t mod 10))"

definition formatFileSize :: "int \<Rightarrow> string" where
  "formatFileSize bytes =
     (if bytes < 0 then ''0 B''
      else if bytes < 1024 then dec_int bytes @ '' B''
      else if bytes < 1024 * 1024 then toFixed1 (nat bytes) 1024 @ '' KB''
      else toFixed1 (nat bytes) (1024 * 1024) @ '' MB'')"

definition MAX_IMPORT_FILE_BYTES :: int where "MAX_IMPORT_FILE_BYTES = 15 * 1024 * 1024"

record import_file =
  file_name :: string
  file_type :: string
  file_size :: int

definition is_pdf :: "import_file \<Rightarrow> bool" where
  "is_pdf f = (file_type f = ''application/pdf'' \<or> ends_with ''.pdf'' (to_lower (file_name f)))"

text \<open>The result: \<open>None\<close> for \<^verbatim>\<open>ok\<close>, otherwise the error text.\<close>

definition validateImportFile :: "import_file option \<Rightarrow> string option" where
  "validateImportFile file =
     (case file of
        None \<Rightarrow> Some ''No file selected.''
      | Some f \<Rightarrow>
          if \<not> is_pdf f
          then Some (''\"'' @ file_name f @ ''\" is not a PDF. Please choose a PDF document.'')
          else if file_size f > MAX_IMPORT_FILE_BYTES
          then Some (''\"'' @ file_name f @ ''\" is '' @ formatFileSize (file_size f)
                     @ ''. The maximum upload size is '' @ formatFileSize MAX_IMPORT_FILE_BYTES @ ''.'')
          else if file_size f = 0 then Some (''\"'' @ file_name f @ ''\" is empty.'')
          else None)"

record drop_item =
  item_kind :: string
  item_file :: "import_file option"

record drop_data =
  drop_files :: "import_file list"
  drop_items :: "drop_item list"

fun first_item_file :: "drop_item list \<Rightarrow> import_file option" where
  "first_item_file [] = None"
| "first_item_file (it # its) =
     (if item_kind it \<noteq> ''file'' then first_item_file its
      else case item_file it of Some f \<Rightarrow> Some f | None \<Rightarrow> first_item_file its)"

definition extractDroppedFile :: "drop_data option \<Rightarrow> import_file option" where
  "extractDroppedFile dt =
     (case dt of
        None \<Rightarrow> None
      | Some d \<Rightarrow>
          if drop_files d \<noteq> []
          then (case List.find is_pdf (drop_files d) of
                  Some pdf \<Rightarrow> Some pdf
                | None \<Rightarrow> Some (hd (drop_files d)))
          else first_item_file (drop_items d))"

section \<open>The table holds the lengths of longest common subsequences\<close>

fun lcs_length :: "'a list \<Rightarrow> 'a list \<Rightarrow> nat" where
  "lcs_length [] ys = 0"
| "lcs_length xs [] = 0"
| "lcs_length (x # xs) (y # ys) =
     (if x = y then lcs_length xs ys + 1 else max (lcs_length xs (y # ys)) (lcs_length (x # xs) ys))"

lemma lcs_length_Nil2 [simp]: "lcs_length xs [] = 0"
  by (cases xs) auto

lemma lcs_length_upper: "subseq zs xs \<Longrightarrow> subseq zs ys \<Longrightarrow> length zs \<le> lcs_length xs ys"
proof (induction xs ys arbitrary: zs rule: lcs_length.induct)
  case (3 x xs y ys)
  show ?case
  proof (cases zs)
    case (Cons z zs')
    show ?thesis
    proof (cases "x = y")
      case True
      have "subseq zs' xs" "subseq zs' ys"
        using 3 Cons by (auto intro: subseq_Cons' split: if_splits)
      with 3(1) [OF True] True Cons show ?thesis by simp
    next
      case False
      then have "subseq zs xs \<and> subseq zs (y # ys) \<or> subseq zs (x # xs) \<and> subseq zs ys"
        using 3(4,5) Cons by (auto split: if_splits)
      then show ?thesis using 3(2,3) [OF False, of zs] False by auto
    qed
  qed simp
qed auto

lemma lcs_row_eq:
  "below = map (\<lambda>j. lcs_length xs (drop j b)) [0..<length b + 1] \<Longrightarrow>
   lcs_row x b below = map (\<lambda>j. lcs_length (x # xs) (drop j b)) [0..<length b + 1]"
proof (induction b arbitrary: below)
  case (Cons y ys)
  have shift: "map f [0..<Suc (length (y # ys))] = f 0 # map (\<lambda>j. f (Suc j)) [0..<Suc (length ys)]"
    for f :: "nat \<Rightarrow> nat"
    by (simp only: length_Cons map_upt_Suc)
  let ?r = "map (\<lambda>j. lcs_length (x # xs) (drop j ys)) [0..<length ys + 1]"
  have below: "below = lcs_length xs (y # ys) # map (\<lambda>j. lcs_length xs (drop j ys)) [0..<length ys + 1]"
    using Cons.prems by (simp only: Suc_eq_plus1 [symmetric] shift drop0 drop_Suc_Cons)
  have r: "lcs_row x ys (tl below) = ?r"
    by (rule Cons.IH) (simp add: below del: upt_Suc)
  have "?r = lcs_length (x # xs) ys # map (\<lambda>j. lcs_length (x # xs) (drop (Suc j) ys)) [0..<length ys]"
    by (simp only: Suc_eq_plus1 [symmetric] map_upt_Suc drop0)
  moreover have "below ! 1 = lcs_length xs ys" "below ! 0 = lcs_length xs (y # ys)"
    by (simp_all add: below del: upt_Suc)
  ultimately have "lcs_row x (y # ys) below = lcs_length (x # xs) (y # ys) # ?r"
    using r by (simp del: upt_Suc)
  then show ?case by (simp only: Suc_eq_plus1 [symmetric] shift drop0 drop_Suc_Cons)
qed simp

lemma lcs_table_row:
  "i \<le> length a \<Longrightarrow> lcs_table a b ! i = map (\<lambda>j. lcs_length (drop i a) (drop j b)) [0..<length b + 1]"
proof (induction a arbitrary: i)
  case Nil
  then show ?case by (simp add: map_replicate_const del: replicate_Suc upt_Suc)
next
  case (Cons x xs)
  have "hd (lcs_table xs b) = lcs_table xs b ! 0" by (cases xs) (simp_all add: Let_def)
  with Cons.IH [of 0] have "lcs_row x b (hd (lcs_table xs b)) =
      map (\<lambda>j. lcs_length (x # xs) (drop j b)) [0..<length b + 1]"
    by (intro lcs_row_eq) simp
  with Cons show ?case by (cases i) (simp_all add: Let_def del: upt_Suc)
qed

lemma lcs_table_entry:
  "i \<le> length a \<Longrightarrow> j \<le> length b \<Longrightarrow> lcs_table a b ! i ! j = lcs_length (drop i a) (drop j b)"
  by (simp add: lcs_table_row del: upt_Suc)

section \<open>The rows\<close>

text \<open>One side of a changeset: its lines with their numbers.\<close>

definition old_side :: "diff_row list \<Rightarrow> (string \<times> nat option) list" where
  "old_side rs = map (\<lambda>r. (row_text r, oldLine r)) (filter (\<lambda>r. row_kind r \<noteq> Add) rs)"

definition new_side :: "diff_row list \<Rightarrow> (string \<times> nat option) list" where
  "new_side rs = map (\<lambda>r. (row_text r, newLine r)) (filter (\<lambda>r. row_kind r \<noteq> Remove) rs)"

definition numbered_from :: "nat \<Rightarrow> string list \<Rightarrow> (string \<times> nat option) list" where
  "numbered_from i a = map (\<lambda>k. (a ! k, Some (k + 1))) [i..<length a]"

definition count_kind :: "row_type \<Rightarrow> diff_row list \<Rightarrow> nat" where
  "count_kind k rs = length (filter (\<lambda>r. row_kind r = k) rs)"

named_theorems diff_sides \<open>the sides and counts of lists of rows\<close>

lemma sides_simps [diff_sides]:
  "old_side [] = []" "new_side [] = []" "count_kind k [] = 0"
  "old_side (r # rs) = (if row_kind r = Add then old_side rs else (row_text r, oldLine r) # old_side rs)"
  "new_side (r # rs) = (if row_kind r = Remove then new_side rs else (row_text r, newLine r) # new_side rs)"
  "count_kind k (r # rs) = (if row_kind r = k then 1 + count_kind k rs else count_kind k rs)"
  "old_side (rs @ rs') = old_side rs @ old_side rs'"
  "new_side (rs @ rs') = new_side rs @ new_side rs'"
  "count_kind k (rs @ rs') = count_kind k rs + count_kind k rs'"
  by (auto simp: old_side_def new_side_def count_kind_def)

lemma sides_blocks [diff_sides]:
  "old_side (map (remove_row a) [i..<length a]) = numbered_from i a"
  "new_side (map (remove_row a) ks) = []"
  "old_side (map (add_row b) ks) = []"
  "new_side (map (add_row b) [j..<length b]) = numbered_from j b"
  "count_kind Context (map (remove_row a) ks) = 0"
  "count_kind Context (map (add_row b) ks) = 0"
  by (simp_all add: old_side_def new_side_def count_kind_def numbered_from_def filter_map o_def
      remove_row_def add_row_def)

lemma numbered_from_step [diff_sides]:
  "i < length a \<Longrightarrow> numbered_from i a = (a ! i, Some (i + 1)) # numbered_from (i + 1) a"
  by (simp add: numbered_from_def upt_conv_Cons)

lemma diff_loop_sides:
  "i \<le> length a \<Longrightarrow> j \<le> length b \<Longrightarrow>
   old_side (diff_loop a b t i j) = numbered_from i a \<and> new_side (diff_loop a b t i j) = numbered_from j b"
proof (induction a b t i j rule: diff_loop.induct)
  case (1 a b t i j)
  show ?case
  proof (cases "i < length a \<and> j < length b")
    case True
    then have ij: "i + 1 \<le> length a" "j + 1 \<le> length b" "i \<le> length a" "j \<le> length b" by auto
    show ?thesis
    proof (cases "a ! i = b ! j")
      case same: True
      from 1(1) [OF True same ij(1,2)] True same show ?thesis
        by (subst (1 2) diff_loop.simps) (simp add: diff_sides)
    next
      case False
      show ?thesis
      proof (cases "t ! (i + 1) ! j \<ge> t ! i ! (j + 1)")
        case le: True
        from 1(2) [OF True False le ij(1,4)] True False le show ?thesis
          by (subst (1 2) diff_loop.simps) (simp add: diff_sides remove_row_def)
      next
        case gt: False
        from 1(3) [OF True False gt ij(3,2)] True False gt show ?thesis
          by (subst (1 2) diff_loop.simps) (simp add: diff_sides add_row_def)
      qed
    qed
  next
    case False
    then show ?thesis by (subst (1 2) diff_loop.simps) (auto simp: diff_sides)
  qed
qed

lemma diff_loop_context:
  "i \<le> length a \<Longrightarrow> j \<le> length b \<Longrightarrow> t = lcs_table a b \<Longrightarrow>
   count_kind Context (diff_loop a b t i j) = lcs_length (drop i a) (drop j b)"
proof (induction a b t i j rule: diff_loop.induct)
  case (1 a b t i j)
  show ?case
  proof (cases "i < length a \<and> j < length b")
    case True
    then have ij: "i + 1 \<le> length a" "j + 1 \<le> length b" "i \<le> length a" "j \<le> length b" by auto
    have d: "drop i a = a ! i # drop (i + 1) a" "drop j b = b ! j # drop (j + 1) b"
      using True by (simp_all add: Cons_nth_drop_Suc)
    have t: "t ! (i + 1) ! j = lcs_length (drop (i + 1) a) (drop j b)"
      "t ! i ! (j + 1) = lcs_length (drop i a) (drop (j + 1) b)"
      unfolding 1(6) using ij by (simp_all only: lcs_table_entry)
    show ?thesis
    proof (cases "a ! i = b ! j")
      case same: True
      from 1(1) [OF True same ij(1,2) 1(6)] True same d show ?thesis
        by (subst diff_loop.simps) (simp add: diff_sides)
    next
      case False
      show ?thesis
      proof (cases "t ! (i + 1) ! j \<ge> t ! i ! (j + 1)")
        case le: True
        from 1(2) [OF True False le ij(1,4) 1(6)] True False le t d show ?thesis
          by (subst diff_loop.simps) (simp add: diff_sides remove_row_def)
      next
        case gt: False
        from 1(3) [OF True False gt ij(3,2) 1(6)] True False gt t d show ?thesis
          by (subst diff_loop.simps) (simp add: diff_sides add_row_def)
      qed
    qed
  next
    case False
    then show ?thesis by (subst diff_loop.simps) (auto simp: diff_sides)
  qed
qed

lemma summarize_counts:
  "summarize rs = \<lparr>added = count_kind Add rs, removed = count_kind Remove rs, unchanged = count_kind Context rs\<rparr>"
proof -
  have "fold count_row rs s = \<lparr>added = added s + count_kind Add rs, removed = removed s + count_kind Remove rs,
      unchanged = unchanged s + count_kind Context rs\<rparr>" for s
    by (induction rs arbitrary: s) (auto simp: diff_sides count_row_def split: row_type.split)
  then show ?thesis by (simp add: summarize_def emptySummary_def)
qed

lemma count_sides:
  "count_kind Remove rs + count_kind Context rs = length (old_side rs)"
  "count_kind Add rs + count_kind Context rs = length (new_side rs)"
proof (induction rs)
  case (Cons r rs)
  { case 1 with Cons show ?case by (cases "row_kind r") (auto simp: diff_sides) }
  { case 2 with Cons show ?case by (cases "row_kind r") (auto simp: diff_sides) }
qed (simp_all add: diff_sides)

lemma diffLines_sides:
  "old_side (rows (diffLines before after)) = numbered_from 0 (splitLines before)"
  "new_side (rows (diffLines before after)) = numbered_from 0 (splitLines after)"
  by (auto simp: diffLines_def wholeBlockDiff_def Let_def diff_sides diff_loop_sides)

lemma diffLines_summary: "summary (diffLines before after) = summarize (rows (diffLines before after))"
  by (simp add: diffLines_def wholeBlockDiff_def Let_def)

text \<open>
  The preview never misreports a document: in the changeset of any two texts, also an empty or
  oversized one, the removed and unchanged rows are the lines of the old text in order with
  their line numbers, the added and unchanged rows those of the new text, and the summary
  adds up to the two line counts.
\<close>

theorem diff_shows_both_sides:
  "old_side (rows (diffLines before after)) =
     zip (splitLines before) (map Some [1..<length (splitLines before) + 1]) \<and>
   new_side (rows (diffLines before after)) =
     zip (splitLines after) (map Some [1..<length (splitLines after) + 1]) \<and>
   removed (summary (diffLines before after)) + unchanged (summary (diffLines before after))
     = length (splitLines before) \<and>
   added (summary (diffLines before after)) + unchanged (summary (diffLines before after))
     = length (splitLines after)"
proof -
  have "numbered_from 0 a = zip a (map Some [1..<length a + 1])" for a :: "string list"
    by (rule nth_equalityI) (simp_all add: numbered_from_def del: upt_Suc)
  moreover have "length (numbered_from 0 a) = length a" for a :: "string list"
    by (simp add: numbered_from_def)
  ultimately show ?thesis
    by (simp add: diffLines_sides diffLines_summary summarize_counts count_sides)
qed

text \<open>
  Claim C35. The preview keeps as much as can be kept: unless the texts are so long that the changeset says
  it is a whole-block replacement, no list of lines that occurs in order in both texts is
  longer than the number of rows shown as unchanged.
\<close>

theorem diff_is_minimal:
  assumes "\<not> truncated (diffLines before after)"
    and "subseq zs (splitLines before)" and "subseq zs (splitLines after)"
  shows "length zs \<le> unchanged (summary (diffLines before after))"
proof (cases "splitLines before = [] \<or> splitLines after = []")
  case True
  with assms(2,3) have "zs = []" by (auto dest: list_emb_Nil2)
  then show ?thesis by simp
next
  case False
  with assms(1) have "rows (diffLines before after) =
      diff_loop (splitLines before) (splitLines after) (lcs_table (splitLines before) (splitLines after)) 0 0"
    by (auto simp: diffLines_def Let_def wholeBlockDiff_def split: if_splits)
  then have "unchanged (summary (diffLines before after)) = lcs_length (splitLines before) (splitLines after)"
    by (simp add: diffLines_summary summarize_counts diff_loop_context)
  with lcs_length_upper [OF assms(2,3)] show ?thesis by simp
qed

theorem diff_is_minimal_witness:
  "length [''a'', ''c''] \<le> unchanged (summary (diffLines (''a'' @ [newline] @ ''b'' @ [newline] @ ''c'')
     (''a'' @ [newline] @ ''c'' @ [newline] @ ''d'')))"
proof (rule diff_is_minimal)
  show "\<not> truncated (diffLines (''a'' @ [newline] @ ''b'' @ [newline] @ ''c'')
      (''a'' @ [newline] @ ''c'' @ [newline] @ ''d''))"
    by (simp add: diffLines_def Let_def splitLines_def newline_def MAX_DIFF_LINES_def)
qed (simp_all add: splitLines_def newline_def)

text \<open>
  A file is uploaded exactly when it is a PDF by type or name, not empty and at most 15 MB, and
  what a drop offers is a PDF whenever there is one among the dropped files.
\<close>

theorem import_file_accepted:
  "(validateImportFile (extractDroppedFile dt) = None) =
   (case extractDroppedFile dt of
      None \<Rightarrow> False
    | Some f \<Rightarrow> is_pdf f \<and> \<not> file_size f = 0 \<and> file_size f \<le> 15728640) \<and>
   (case dt of
      None \<Rightarrow> extractDroppedFile dt = None
    | Some d \<Rightarrow> list_ex is_pdf (drop_files d)
        = (case extractDroppedFile dt of None \<Rightarrow> False | Some f \<Rightarrow> drop_files d \<noteq> [] \<and> is_pdf f))"
proof -
  have "list_ex is_pdf fs = (case List.find is_pdf fs of None \<Rightarrow> False | Some f \<Rightarrow> is_pdf f)" for fs
    by (induction fs) auto
  moreover have "fs \<noteq> [] \<Longrightarrow> List.find is_pdf fs = None \<Longrightarrow> \<not> is_pdf (hd fs)" for fs
    by (cases fs) auto
  ultimately show ?thesis
    by (auto simp: validateImportFile_def extractDroppedFile_def MAX_IMPORT_FILE_BYTES_def split: option.splits)
qed

end
