(* ===== verification/CursorReconciliation.thy ===== *)
theory CursorReconciliation imports Prelude begin

text \<open>
  \<^verbatim>\<open>frontend/src/utils/cursorReconciliation.ts\<close>: carrying the selections of the editor over
  an edit that came from another participant. The editor's model is given by its two
  conversions between offsets and positions.
\<close>

record position =
  lineNumber :: int
  column :: int

record selection =
  selectionStart :: position
  selectionPosition :: position

record monaco_selection =
  sel :: selection
  sel_start :: position
  sel_end :: position
  direction :: int

record cursor_state =
  cursor_selection :: selection
  startOffset :: int
  endOffset :: int
  isReversed :: bool

record delta =
  delta_offset :: int
  lengthRemoved :: int
  lengthAdded :: int

definition captureAllCursorStates ::
    "(position \<Rightarrow> int) \<Rightarrow> monaco_selection list option \<Rightarrow> cursor_state list" where
  "captureAllCursorStates getOffsetAt selections =
     (case selections of
        None \<Rightarrow> []
      | Some ss \<Rightarrow>
          map (\<lambda>s. \<lparr>cursor_selection = sel s, startOffset = getOffsetAt (sel_start s),
                    endOffset = getOffsetAt (sel_end s), isReversed = (direction s = 1)\<rparr>) ss)"

definition reconcile_step :: "int \<Rightarrow> delta \<Rightarrow> int \<Rightarrow> int" where
  "reconcile_step ofs d adjusted =
     (if delta_offset d \<le> ofs
      then adjusted - min (lengthRemoved d) (ofs - delta_offset d) + lengthAdded d
      else adjusted)"

definition reconcileOffset :: "int \<Rightarrow> delta list \<Rightarrow> int" where
  "reconcileOffset ofs deltas = max 0 (fold (reconcile_step ofs) deltas ofs)"

text \<open>The selections the editor is given; \<open>None\<close> when it is left alone.\<close>

definition restoreAllCursorStates ::
    "(int \<Rightarrow> position) \<Rightarrow> int \<Rightarrow> cursor_state list \<Rightarrow> delta list \<Rightarrow> selection list option" where
  "restoreAllCursorStates getPositionAt maxOffset savedStates deltas =
     (if savedStates = [] then None
      else Some (map (\<lambda>saved.
        let startPos = getPositionAt (min maxOffset (reconcileOffset (startOffset saved) deltas));
            endPos = getPositionAt (min maxOffset (reconcileOffset (endOffset saved) deltas))
        in if isReversed saved
           then \<lparr>selectionStart = endPos, selectionPosition = startPos\<rparr>
           else \<lparr>selectionStart = startPos, selectionPosition = endPos\<rparr>) savedStates))"

section \<open>Edits of a text\<close>

text \<open>
  An edit replaces \<open>removed\<close> characters at an offset of the text before by a string. The
  edits of one change come in order and do not overlap.
\<close>

record edit =
  edit_offset :: nat
  edit_removed :: nat
  edit_text :: string

definition delta_of :: "edit \<Rightarrow> delta" where
  "delta_of e = \<lparr>delta_offset = int (edit_offset e), lengthRemoved = int (edit_removed e),
                 lengthAdded = int (length (edit_text e))\<rparr>"

text \<open>\<open>apply_edits k s es\<close> is the result for the part \<open>s\<close> of a text that starts at offset \<open>k\<close>.\<close>

fun apply_edits :: "nat \<Rightarrow> string \<Rightarrow> edit list \<Rightarrow> string" where
  "apply_edits k s [] = s"
| "apply_edits k s (e # es) =
     take (edit_offset e - k) s @ edit_text e
     @ apply_edits (edit_offset e + edit_removed e) (drop (edit_offset e + edit_removed e - k) s) es"

fun edits_ok :: "nat \<Rightarrow> nat \<Rightarrow> edit list \<Rightarrow> bool" where
  "edits_ok k n [] = (k \<le> n)"
| "edits_ok k n (e # es) = (k \<le> edit_offset e \<and> edits_ok (edit_offset e + edit_removed e) n es)"

definition covers :: "nat \<Rightarrow> edit \<Rightarrow> bool" where
  "covers p e = (edit_offset e \<le> p \<and> p < edit_offset e + edit_removed e)"

lemma edits_ok_le: "edits_ok k n es \<Longrightarrow> k \<le> n"
  by (induction k n es rule: edits_ok.induct) auto

lemma edits_ok_offset: "edits_ok k n es \<Longrightarrow> e \<in> set es \<Longrightarrow> k \<le> edit_offset e"
  by (induction k n es rule: edits_ok.induct) auto

lemma fold_reconcile_shift:
  "fold (reconcile_step p) ds (x + y) = fold (reconcile_step p) ds x + y"
proof (induction ds arbitrary: x)
  case (Cons d ds)
  have "reconcile_step p d (x + y) = reconcile_step p d x + y" by (simp add: reconcile_step_def)
  with Cons show ?case by simp
qed simp

lemma fold_reconcile_later:
  "\<forall>e \<in> set es. p < edit_offset e \<Longrightarrow> fold (reconcile_step (int p)) (map delta_of es) x = x"
  by (induction es arbitrary: x) (auto simp: reconcile_step_def delta_of_def)

lemma apply_edits_nth:
  assumes "edits_ok k (k + length s) es" and "k \<le> p" and "p < k + length s"
    and "\<not> list_ex (covers p) es"
  shows "\<exists>q. fold (reconcile_step (int p)) (map delta_of es) (int p - int k) = int q
    \<and> q < length (apply_edits k s es) \<and> apply_edits k s es ! q = s ! (p - k)"
  using assms
proof (induction k s es rule: apply_edits.induct)
  case (1 k s)
  then show ?case by (intro exI [of _ "p - k"]) auto
next
  case (2 k s e es)
  let ?k = "edit_offset e + edit_removed e"
  have k: "k \<le> edit_offset e" and ok: "edits_ok ?k (k + length s) es" using 2 by auto
  have le: "?k \<le> k + length s" using edits_ok_le [OF ok] .
  show ?case
  proof (cases "p < edit_offset e")
    case True
    then have "\<forall>e' \<in> set (e # es). p < edit_offset e'"
      using edits_ok_offset [OF ok] by force
    then have "fold (reconcile_step (int p)) (map delta_of (e # es)) (int p - int k) = int (p - k)"
      using 2 by (simp only: fold_reconcile_later of_nat_diff)
    with True 2 le k show ?thesis
      by (intro exI [of _ "p - k"]) (auto simp: nth_append)
  next
    case False
    with 2 have past: "?k \<le> p" by (auto simp: covers_def)
    have "edits_ok ?k (?k + length (drop (?k - k) s)) es"
      using ok le k by (simp add: add.commute)
    with 2 past le k obtain q where q:
      "fold (reconcile_step (int p)) (map delta_of es) (int p - int ?k) = int q"
      "q < length (apply_edits ?k (drop (?k - k) s) es)"
      "apply_edits ?k (drop (?k - k) s) es ! q = drop (?k - k) s ! (p - ?k)"
      by auto
    let ?m = "edit_offset e - k + length (edit_text e)"
    have "reconcile_step (int p) (delta_of e) (int p - int k) = (int p - int ?k) + int ?m"
      using past k by (auto simp: reconcile_step_def delta_of_def)
    then have "fold (reconcile_step (int p)) (map delta_of (e # es)) (int p - int k) = int (q + ?m)"
      using q(1) by (simp add: fold_reconcile_shift)
    moreover have "length (take (edit_offset e - k) s) = edit_offset e - k"
      using le k by simp
    moreover have "drop (?k - k) s ! (p - ?k) = s ! (p - k)"
      using past le k by simp
    ultimately show ?thesis
      using q(2,3) by (intro exI [of _ "q + ?m"]) (auto simp: nth_append)
  qed
qed

text \<open>
  A cursor stays at its character: when a change replaces separate parts of a text, in order, the
  offset computed for a character that none of the edits removes is the place where this
  very character stands in the new text, however much is inserted or removed before it.
\<close>

theorem cursor_follows_character:
  assumes "edits_ok 0 (length s) es" and "p < length s" and "\<not> list_ex (covers p) es"
  shows "nat (reconcileOffset (int p) (map delta_of es)) < length (apply_edits 0 s es) \<and>
         apply_edits 0 s es ! nat (reconcileOffset (int p) (map delta_of es)) = s ! p"
proof -
  obtain q where "fold (reconcile_step (int p)) (map delta_of es) (int p) = int q"
    "q < length (apply_edits 0 s es)" "apply_edits 0 s es ! q = s ! p"
    using apply_edits_nth [of 0 s es p] assms by auto
  then show ?thesis by (simp add: reconcileOffset_def)
qed

theorem cursor_follows_character_witness:
  "''axyef'' ! nat (reconcileOffset 4 (map delta_of
      [\<lparr>edit_offset = 1, edit_removed = 3, edit_text = ''xy''\<rparr>])) = ''abcdef'' ! 4"
proof -
  let ?es = "[\<lparr>edit_offset = 1, edit_removed = 3, edit_text = ''xy''\<rparr>]"
  have "apply_edits 0 ''abcdef'' ?es = ''axyef''" by simp
  with cursor_follows_character [of "''abcdef''" ?es 4] show ?thesis by (simp add: covers_def)
qed

text \<open>
  Called without the edits of the change, as \<^verbatim>\<open>yjsCollaboration.ts\<close> does, the module puts a
  cursor back at the old offset: before an insertion of another participant it no longer
  stands at its character.
\<close>

lemma cursor_without_deltas:
  "reconcileOffset 4 [] = 4" and "apply_edits 0 ''abcdef'' [\<lparr>edit_offset = 0, edit_removed = 0, edit_text = ''xy''\<rparr>] ! 4 = CHR ''c''"
    and "''abcdef'' ! 4 = CHR ''e''"
  by (simp_all add: reconcileOffset_def)

end
