(* ===== verification/PreviewTransform.thy ===== *)
theory PreviewTransform imports PathContainment begin

text \<open>
  \<^verbatim>\<open>backend/src/services/previewTransformService.ts\<close>: what is done to the pages and style sheets
  of a preview: absolute addresses are moved below the preview of the session, and style and script blocks are put
  in. A global regular expression is a scan: at each place a matcher says how much it takes and what replaces it.
  The long constant blocks are a parameter.
\<close>

section \<open>Replacing\<close>

text \<open>
  \<^verbatim>\<open>s.replace(/.../g, f)\<close>: \<open>m\<close> gets what is left of the text and answers the text after the
  match, which is shorter, with the replacement.
\<close>

function replace_all :: "(string \<Rightarrow> (string \<times> string) option) \<Rightarrow> string \<Rightarrow> string" where
  "replace_all m s =
     (case s of
        [] \<Rightarrow> []
      | c # cs \<Rightarrow>
          (case m s of
             None \<Rightarrow> c # replace_all m cs
           | Some (rest, new) \<Rightarrow>
               if length rest < length s then new @ replace_all m rest else c # replace_all m cs))"
  by pat_completeness auto
termination by (relation "measure (\<lambda>(m, s). length s)") auto

declare replace_all.simps [simp del]

text \<open>What follows a literal at the start of a text.\<close>

definition after :: "string \<Rightarrow> string \<Rightarrow> string option" where
  "after p s = (if starts_with p s then Some (drop (length p) s) else None)"

fun after_one_of :: "string list \<Rightarrow> string \<Rightarrow> (string \<times> string) option" where
  "after_one_of [] s = None"
| "after_one_of (p # ps) s = (case after p s of Some r \<Rightarrow> Some (p, r) | None \<Rightarrow> after_one_of ps s)"

definition replace_text :: "string \<Rightarrow> string \<Rightarrow> string \<Rightarrow> string" where
  "replace_text p new = replace_all (\<lambda>s. map_option (\<lambda>r. (r, new)) (after p s))"

text \<open>\<^verbatim>\<open>s.replace(p, new)\<close> with a text: the first occurrence only.\<close>

definition replace_first :: "string \<Rightarrow> string \<Rightarrow> string \<Rightarrow> string" where
  "replace_first p new s =
     (case index_of p s of None \<Rightarrow> s | Some k \<Rightarrow> take k s @ new @ drop (k + length p) s)"

section \<open>Addresses\<close>

definition PREVIEW_SHARED_ROOT_DIRS :: "string list" where
  "PREVIEW_SHARED_ROOT_DIRS =
     [''images'', ''figure-images'', ''fonts'', ''mathbook-assets'', ''static'', ''theme'', ''theme-duke'', ''theme-gt'',
      ''theme-vanderbilt'']"

definition dq :: char where "dq = CHR 0x22"
definition sq :: char where "sq = CHR 0x27"

definition is_scheme_char :: "char \<Rightarrow> bool" where
  "is_scheme_char c = (is_alpha c \<or> is_digit c \<or> c \<in> set ''+.-'')"

text \<open>\<^verbatim>\<open>PREVIEW_SKIP_URL_PATTERN\<close>\<close>

definition skip_url :: "string \<Rightarrow> bool" where
  "skip_url url =
     (case url of
        [] \<Rightarrow> False
      | c # cs \<Rightarrow>
          (is_alpha c \<and> starts_with '':'' (dropWhile is_scheme_char cs))
          \<or> c = slash \<or> c = CHR ''#'' \<or> c = CHR ''?'' \<or> starts_with ''./'' url \<or> starts_with ''../'' url)"

definition url_attributes :: "string list" where "url_attributes = [''href'', ''src'', ''action'', ''poster'']"

text \<open>The five replacements, one after the other.\<close>

definition absolute_attribute :: "string \<Rightarrow> string \<Rightarrow> (string \<times> string) option" where
  "absolute_attribute sessionBase s =
     (case after_one_of (map (\<lambda>a. a @ ''='' @ [dq] @ ''/'') url_attributes) s of
        None \<Rightarrow> None
      | Some (p, r) \<Rightarrow> if starts_with ''preview/'' r then None else Some (r, butlast p @ sessionBase))"

definition rewriteAbsolutePreviewUrls :: "string \<Rightarrow> string \<Rightarrow> string" where
  "rewriteAbsolutePreviewUrls content sessionBase =
     replace_text (''@import url('' @ [dq] @ ''/'') (''@import url('' @ [dq] @ sessionBase)
       (replace_text (''url('' @ [dq] @ ''/'') (''url('' @ [dq] @ sessionBase)
         (replace_text (''url('' @ [sq] @ ''/'') (''url('' @ [sq] @ sessionBase)
           (replace_text ''url(/'' (''url('' @ sessionBase)
             (replace_all (absolute_attribute sessionBase) content))))"

definition bare_attribute :: "string \<Rightarrow> string \<Rightarrow> (string \<times> string) option" where
  "bare_attribute sessionBase s =
     (case after_one_of (concat (map (\<lambda>a. [a @ ''='' @ [dq], a @ ''='' @ [sq]]) url_attributes)) s of
        None \<Rightarrow> None
      | Some (p, r) \<Rightarrow>
          let url = takeWhile (\<lambda>c. c \<noteq> dq \<and> c \<noteq> sq) r; r' = drop (length url) r
          in if url = [] \<or> r' = [] then None
             else Some (tl r', if skip_url url then p @ url @ [hd r'] else p @ sessionBase @ url @ [hd r']))"

definition rewriteBareRelativeAttributes :: "string \<Rightarrow> string \<Rightarrow> string" where
  "rewriteBareRelativeAttributes content sessionBase = replace_all (bare_attribute sessionBase) content"

text \<open>
  \<^verbatim>\<open>/url\((['"]?)([^)"']+)\1\)/\<close>: an optional quote, an address without quotes and brackets, the
  same quote, the bracket.
\<close>

definition css_url :: "string \<Rightarrow> (string \<times> string \<times> string) option" where
  "css_url s =
     (case after ''url('' s of
        None \<Rightarrow> None
      | Some r \<Rightarrow>
          let quote = (case r of c # cs \<Rightarrow> if c = dq \<or> c = sq then [c] else [] | [] \<Rightarrow> []);
              r1 = drop (length quote) r;
              url = takeWhile (\<lambda>c. c \<noteq> CHR '')'' \<and> c \<noteq> dq \<and> c \<noteq> sq) r1
          in if url = [] then None
             else map_option (\<lambda>rest. (quote, url, rest)) (after (quote @ '')'') (drop (length url) r1)))"

definition css_replacement :: "string \<Rightarrow> string list \<Rightarrow> string \<Rightarrow> (string \<times> string) option" where
  "css_replacement sessionBase allowedRelativeDirs s =
     (case css_url s of
        None \<Rightarrow> None
      | Some (quote, url, rest) \<Rightarrow>
          let keep = ''url('' @ quote @ url @ quote @ '')'';
              moved = (\<lambda>u. ''url('' @ quote @ sessionBase @ u @ quote @ '')'')
          in Some (rest,
               if starts_with sessionBase url then keep
               else if skip_url url then (if \<not> starts_with ''/'' url then keep else moved (tl url))
               else if \<not> list_ex (\<lambda>dir. starts_with (dir @ ''/'') url) allowedRelativeDirs then keep
               else moved url))"

definition rewriteCssUrls :: "string \<Rightarrow> string \<Rightarrow> string list \<Rightarrow> string" where
  "rewriteCssUrls content sessionBase allowedRelativeDirs =
     replace_all (css_replacement sessionBase allowedRelativeDirs) content"

section \<open>Blocks\<close>

text \<open>The constant texts that are put into a page; \<open>layout_style\<close> begins with its \<^verbatim>\<open>style\<close> tag.\<close>

record preview_blocks =
  pb_layoutFix :: string
  pb_mathBoxFixes :: string
  pb_fallback :: string
  pb_structureStyle :: string

definition is_word :: "char \<Rightarrow> bool" where
  "is_word c = (is_alpha c \<or> is_digit c \<or> c = CHR ''_'')"

text \<open>
  \<^verbatim>\<open>[^>]*\bid=["']...["'][^>]*>\<close> on what follows the tag's name: the attribute stands in the tag,
  after a character that is not part of a word, and the rest is what follows the tag.
\<close>

fun has_id :: "string \<Rightarrow> char \<Rightarrow> string \<Rightarrow> bool" where
  "has_id ident before [] = False"
| "has_id ident before (c # cs) =
     ((\<not> is_word before \<and>
       list_ex (\<lambda>(q, r). starts_with (to_lower (''id='' @ [q] @ ident @ [r])) (to_lower (c # cs)))
         [(dq, dq), (dq, sq), (sq, dq), (sq, sq)])
      \<or> has_id ident c cs)"

definition tag_with_id :: "string \<Rightarrow> string \<Rightarrow> string \<Rightarrow> string option" where
  "tag_with_id name ident s =
     (if starts_with (CHR ''<'' # name) (to_lower s) then
        let r = drop (Suc (length name)) s; attrs = takeWhile (\<lambda>c. c \<noteq> CHR ''>'') r
        in if attrs \<noteq> [] \<and> \<not> is_word (hd attrs) \<and> has_id ident (CHR ''x'') attrs \<and> length attrs < length r
           then Some (drop (Suc (length attrs)) r) else None
      else None)"

text \<open>\<^verbatim>\<open>\s*<tag ...>[\s\S]*?</tag>\<close>\<close>

definition block_with_id :: "string \<Rightarrow> string \<Rightarrow> string \<Rightarrow> (string \<times> string) option" where
  "block_with_id name ident s =
     (case tag_with_id name ident (trim_start s) of
        None \<Rightarrow> None
      | Some r \<Rightarrow>
          let close = ''</'' @ name @ ''>''
          in map_option (\<lambda>k. (drop (k + length close) r, [])) (index_of close (to_lower r)))"

definition removeExistingPreTeXtLayoutFix :: "string \<Rightarrow> string" where
  "removeExistingPreTeXtLayoutFix html =
     replace_all (block_with_id ''script'' ''proofdesk-pretex-layout-guard'')
       (replace_all (block_with_id ''style'' ''proofdesk-pretex-layout-fix'') html)"

definition injectLatestPreTeXtLayoutFix :: "preview_blocks \<Rightarrow> string \<Rightarrow> string" where
  "injectLatestPreTeXtLayoutFix blocks html =
     (let cleaned = removeExistingPreTeXtLayoutFix html
      in if str_includes cleaned ''</head>''
         then replace_first ''</head>'' (pb_layoutFix blocks @ [newline] @ ''</head>'') cleaned
         else pb_layoutFix blocks @ [newline] @ cleaned)"

text \<open>\<^verbatim>\<open>.replace(/<head([^>]*)>/i, ...)\<close>: the first tag whose name begins with \<^verbatim>\<open>head\<close>.\<close>

fun after_head_tag :: "string \<Rightarrow> string \<Rightarrow> string" where
  "after_head_tag new [] = []"
| "after_head_tag new (c # cs) =
     (if starts_with ''<head'' (to_lower (c # cs)) \<and> CHR ''>'' \<in> set cs
      then let tag = takeWhile (\<lambda>c. c \<noteq> CHR ''>'') (c # cs) in tag @ ''>'' @ new @ drop (Suc (length tag)) (c # cs)
      else c # after_head_tag new cs)"

definition buildPreviewHtml :: "preview_blocks \<Rightarrow> string \<Rightarrow> string \<Rightarrow> bool \<Rightarrow> string" where
  "buildPreviewHtml blocks raw sessionBase isKnowlFile =
     (let ilaAddOnRef = (if str_includes raw ''ila-add-on.css'' then []
            else ''<link rel='' @ [dq] @ ''stylesheet'' @ [dq] @ '' href='' @ [dq] @ sessionBase @ ''css/ila-add-on.css'' @ [dq]
                 @ '' type='' @ [dq] @ ''text/css'' @ [dq] @ ''>'');
          structuralCss = ilaAddOnRef @ pb_structureStyle blocks;
          rewritten = rewriteAbsolutePreviewUrls raw sessionBase;
          rewritten' = (if isKnowlFile
            then rewriteCssUrls (rewriteBareRelativeAttributes rewritten sessionBase) sessionBase PREVIEW_SHARED_ROOT_DIRS
            else rewritten);
          html = replace_first ''</body>'' (pb_fallback blocks @ [newline] @ ''</body>'')
            (replace_first ''</head>'' (pb_mathBoxFixes blocks @ [newline] @ ''</head>'')
              (after_head_tag ([newline] @ structuralCss) rewritten'))
      in injectLatestPreTeXtLayoutFix blocks html)"

definition buildPreviewCss :: "string \<Rightarrow> string \<Rightarrow> bool \<Rightarrow> string" where
  "buildPreviewCss rawCss sessionBase isSiteCssFile =
     (let rewrittenCss = rewriteAbsolutePreviewUrls rawCss sessionBase
      in if isSiteCssFile then rewriteCssUrls rewrittenCss sessionBase PREVIEW_SHARED_ROOT_DIRS else rewrittenCss)"

text \<open>\<^verbatim>\<open>/\.[^.]+$/\<close> on the path: the last dot with what follows, if something follows.\<close>

definition last_extension :: "string \<Rightarrow> string" where
  "last_extension path =
     (let t = rev (takeWhile (\<lambda>c. c \<noteq> CHR ''.'') (rev path))
      in if CHR ''.'' \<in> set path \<and> t \<noteq> [] then CHR ''.'' # t else [])"

definition preview_base :: "string \<Rightarrow> string" where "preview_base sid = ''/preview/'' @ sid @ ''/''"

definition transformPreviewFile :: "preview_blocks \<Rightarrow> string \<Rightarrow> string \<Rightarrow> string \<Rightarrow> string" where
  "transformPreviewFile blocks relativePath rawContent sid =
     (let ext = last_extension (to_lower relativePath)
      in if ext = ''.html'' then buildPreviewHtml blocks rawContent (preview_base sid) (starts_with ''knowl/'' relativePath)
         else if ext = ''.css'' then buildPreviewCss rawContent (preview_base sid) (starts_with ''css/'' relativePath)
         else rawContent)"

section \<open>The pass over attributes is idempotent\<close>

text \<open>What stands before the first slash, and what follows it.\<close>

definition front :: "string \<Rightarrow> string" where "front s = takeWhile (\<lambda>c. c \<noteq> slash) s"
definition beyond :: "string \<Rightarrow> string" where "beyond s = drop (Suc (length (front s))) s"

lemma front_simps [simp]:
  "front [] = []" "front (c # s) = (if c = slash then [] else c # front s)"
  "beyond (c # s) = (if c = slash then s else beyond s)"
  by (simp_all add: front_def beyond_def)

lemma front_append: "slash \<notin> set a \<Longrightarrow> front (a @ slash # s) = a \<and> beyond (a @ slash # s) = s"
  by (induction a) auto

lemma front_beyond: "slash \<in> set s \<Longrightarrow> s = front s @ slash # beyond s"
  by (induction s) auto

lemma slash_not_front: "slash \<notin> set (front s)"
  by (auto simp: front_def dest: set_takeWhileD)

definition attribute_starts :: "string list" where "attribute_starts = map (\<lambda>a. a @ ''='' @ [dq]) url_attributes"

lemma attribute_starts_list: "attribute_starts = [''href='' @ [dq], ''src='' @ [dq], ''action='' @ [dq], ''poster='' @ [dq]]"
  by (simp add: attribute_starts_def url_attributes_def)

lemma starts_with_front:
  assumes "slash \<notin> set a"
  shows "starts_with (a @ [slash]) s \<longleftrightarrow> slash \<in> set s \<and> front s = a"
proof
  assume "starts_with (a @ [slash]) s"
  then obtain r where "s = a @ slash # r" by (auto simp: prefix_def)
  then show "slash \<in> set s \<and> front s = a" using front_append [OF assms] by simp
next
  assume h: "slash \<in> set s \<and> front s = a"
  then have "s = a @ slash # beyond s" using front_beyond [of s] by simp
  then show "starts_with (a @ [slash]) s" by (metis append.assoc append_Cons append_Nil prefixI)
qed

lemma after_one_of_attributes:
  "slash \<notin> \<Union> (set ` set as) \<Longrightarrow>
   after_one_of (map (\<lambda>a. a @ [slash]) as) s =
     (if slash \<in> set s \<and> front s \<in> set as then Some (front s @ [slash], beyond s) else None)"
proof (induction "as")
  case (Cons a "as")
  have a: "slash \<notin> set a" using Cons.prems by auto
  show ?case
  proof (cases "slash \<in> set s \<and> front s = a")
    case True
    then show ?thesis using starts_with_front [OF a, of s] by (auto simp: after_def beyond_def)
  next
    case False
    then show ?thesis using Cons starts_with_front [OF a, of s] by (auto simp: after_def)
  qed
qed simp

text \<open>A match, in these terms.\<close>

lemma absolute_attribute_iff:
  "absolute_attribute base s =
     (if slash \<in> set s \<and> front s \<in> set attribute_starts \<and> \<not> starts_with ''preview/'' (beyond s)
      then Some (beyond s, front s @ base) else None)"
proof -
  have "map (\<lambda>a. a @ ''='' @ [dq] @ ''/'') url_attributes = map (\<lambda>a. a @ [slash]) attribute_starts"
    by (simp add: attribute_starts_def)
  moreover have "slash \<notin> \<Union> (set ` set attribute_starts)" by (auto simp: attribute_starts_list dq_def)
  ultimately show ?thesis by (simp add: absolute_attribute_def after_one_of_attributes)
qed

text \<open>Some attribute ends just before the first slash, and its address is not yet that of a preview.\<close>

definition pending_address :: "string \<Rightarrow> bool" where
  "pending_address s =
     (slash \<in> set s \<and> (\<exists>a \<in> set attribute_starts. suffix a (front s)) \<and> \<not> starts_with ''preview/'' (beyond s))"

abbreviation (input) pass :: "string \<Rightarrow> string \<Rightarrow> string" where
  "pass sid \<equiv> replace_all (absolute_attribute (preview_base sid))"

lemma pass_Nil [simp]: "pass sid [] = []"
  by (simp add: replace_all.simps)

lemma beyond_shorter: "slash \<in> set s \<Longrightarrow> length (beyond s) < length s"
  by (induction s) (auto simp: less_SucI)

lemma pass_Cons:
  "pass sid (c # cs) =
     (case absolute_attribute (preview_base sid) (c # cs) of
        None \<Rightarrow> c # pass sid cs
      | Some (rest, new) \<Rightarrow> new @ pass sid rest)"
proof -
  have "length rest < length (c # cs)" if "absolute_attribute (preview_base sid) (c # cs) = Some (rest, new)" for rest new
    using that beyond_shorter [of "c # cs"] by (auto simp: absolute_attribute_iff split: if_splits)
  then show ?thesis by (subst replace_all.simps) (auto split: option.split)
qed

text \<open>
  The attribute names do not end in one another, so a match before the first slash is the only one there.
\<close>

lemma suffix_attribute:
  assumes "a \<in> set attribute_starts" and "b \<in> set attribute_starts" and "suffix a b"
  shows "a = b"
  using assms by (auto simp: attribute_starts_list suffix_Cons dq_def)

text \<open>Up to the first slash the pass changes nothing; after it an address may be moved below the preview.\<close>

lemma pass_front:
  "(slash \<in> set (pass sid s) \<longleftrightarrow> slash \<in> set s) \<and> front (pass sid s) = front s \<and>
   (slash \<in> set s \<longrightarrow> beyond (pass sid s) =
      (if pending_address s then ''preview/'' @ sid @ ''/'' @ pass sid (beyond s) else pass sid (beyond s)))"
proof (induction s)
  case (Cons c cs)
  show ?case
  proof (cases "absolute_attribute (preview_base sid) (c # cs)")
    case None
    show ?thesis
    proof (cases "c = slash")
      case True
      have "\<not> pending_address (c # cs)" using True by (auto simp: pending_address_def attribute_starts_list)
      then show ?thesis using None True by (simp add: pass_Cons)
    next
      case False
      have "pending_address (c # cs) \<longleftrightarrow> pending_address cs"
        using None False by (auto simp: pending_address_def absolute_attribute_iff suffix_Cons split: if_splits)
      then show ?thesis using None False Cons by (simp add: pass_Cons)
    qed
  next
    case (Some x)
    then have m: "slash \<in> set (c # cs)" "front (c # cs) \<in> set attribute_starts" "\<not> starts_with ''preview/'' (beyond (c # cs))"
      "x = (beyond (c # cs), front (c # cs) @ preview_base sid)"
      by (auto simp: absolute_attribute_iff simp del: front_simps split: if_splits)
    have p: "pass sid (c # cs) = front (c # cs) @ slash # (''preview/'' @ sid @ ''/'' @ pass sid (beyond (c # cs)))"
      unfolding pass_Cons Some m(4) by (simp add: preview_base_def del: front_simps)
    have "pending_address (c # cs)" using m unfolding pending_address_def by blast
    then show ?thesis
      unfolding p using front_append [OF slash_not_front [of "c # cs"]] m(1) by (simp del: front_simps)
  qed
qed simp

lemma pass_keeps_preview: "starts_with ''preview/'' s \<Longrightarrow> starts_with ''preview/'' (pass sid s)"
proof -
  assume "starts_with ''preview/'' s"
  then have "slash \<in> set s \<and> front s = ''preview''" using starts_with_front [of "''preview''" s] by simp
  then have "slash \<in> set (pass sid s) \<and> front (pass sid s) = ''preview''" using pass_front by metis
  then show ?thesis using starts_with_front [of "''preview''" "pass sid s"] by simp
qed

text \<open>No match is left where the result begins.\<close>

lemma pass_no_match: "absolute_attribute base (pass sid s) = None"
proof (cases "slash \<in> set s \<and> front s \<in> set attribute_starts")
  case True
  then have "starts_with ''preview/'' (beyond (pass sid s))"
    using pass_front [of sid s] pass_keeps_preview [of "beyond s" sid]
    by (cases "pending_address s") (auto simp: pending_address_def)
  then show ?thesis by (simp add: absolute_attribute_iff)
next
  case False
  then show ?thesis using pass_front [of sid s] by (auto simp: absolute_attribute_iff)
qed

text \<open>Nor inside an address that was moved.\<close>

lemma moved_no_match:
  assumes "a \<in> set attribute_starts" and "dq \<notin> set sid" and "slash \<notin> set sid"
    and v: "suffix v (a @ ''/preview/'' @ sid @ ''/'')" "v \<noteq> []"
  shows "absolute_attribute base (v @ t) = None"
proof -
  consider (whole) x where "v = x @ ''/preview/'' @ sid @ ''/''" "suffix x a"
    | (name) x where "v = x @ ''/'' @ sid @ ''/''" "suffix x ''preview''"
    | (ident) x where "v = x @ ''/''" "suffix x sid"
  proof -
    have cut: "suffix v (A @ B) \<Longrightarrow> suffix v B \<or> (\<exists>x. v = x @ B \<and> suffix x A)" for v A B :: string
      by (simp add: suffix_append)
    let ?B = "''/'' @ sid @ ''/''"
    have "suffix v ((a @ ''/preview'') @ ?B)" using v by simp
    then consider "suffix v ?B" | x where "v = x @ ?B" "suffix x (a @ ''/preview'')" using cut by blast
    then show thesis
    proof cases
      case 1
      then have "v = ?B \<or> suffix v (sid @ ''/'')" by (simp add: suffix_Cons)
      then consider "v = [] @ ?B" | "suffix v ''/''" | x where "v = x @ ''/''" "suffix x sid" using cut [of v sid "''/''"] by auto
      then show thesis
      proof cases
        case 1 then show thesis using that(2) [of "[]"] by simp
      next
        case 2
        then have "v = [] @ ''/''" using v(2) by (simp add: suffix_Cons)
        then show thesis using that(3) [of "[]"] by simp
      qed (rule that(3))
    next
      case (2 x)
      consider "suffix x ''/preview''" | y where "x = y @ ''/preview''" "suffix y a" using cut [OF 2(2)] by blast
      then show thesis
      proof cases
        case 1
        then have "x = ''/preview'' \<or> suffix x ''preview''" by (simp add: suffix_Cons)
        then show thesis using 2(1) that(1) [of "[]"] that(2) [of x] by auto
      next
        case (2 y)
        then show thesis using \<open>v = x @ ?B\<close> that(1) [of y] by simp
      qed
    qed
  qed
  then show ?thesis
  proof cases
    case whole
    have "slash \<notin> set x" using whole(2) assms(1) set_mono_suffix [of x a] by (auto simp: attribute_starts_list dq_def)
    then have "front (v @ t) = x \<and> beyond (v @ t) = ''preview/'' @ sid @ ''/'' @ t"
      using front_append [of x "''preview/'' @ sid @ ''/'' @ t"] whole(1) by simp
    then show ?thesis by (simp add: absolute_attribute_iff)
  next
    case name
    have "slash \<notin> set x" "dq \<notin> set x" using name(2) set_mono_suffix [of x "''preview''"] by (auto simp: dq_def)
    then have "front (v @ t) = x" "dq \<notin> set x" using front_append [of x "sid @ ''/'' @ t"] name(1) by simp_all
    then show ?thesis by (auto simp: absolute_attribute_iff attribute_starts_list)
  next
    case ident
    have "slash \<notin> set x" "dq \<notin> set x" using ident(2) assms(2,3) set_mono_suffix [of x sid] by auto
    then have "front (v @ t) = x" "dq \<notin> set x" using front_append [of x t] ident(1) by simp_all
    then show ?thesis by (auto simp: absolute_attribute_iff attribute_starts_list)
  qed
qed

lemma pass_no_match_inside:
  assumes "dq \<notin> set sid" and "slash \<notin> set sid"
  shows "suffix v (pass sid s) \<Longrightarrow> v \<noteq> [] \<Longrightarrow> absolute_attribute base v = None"
proof (induction s rule: length_induct)
  case (1 s)
  show ?case
  proof (cases s)
    case (Cons c cs)
    show ?thesis
    proof (cases "absolute_attribute (preview_base sid) s")
      case None
      then have p: "pass sid s = c # pass sid cs" using Cons by (simp add: pass_Cons)
      then have "v = pass sid s \<or> suffix v (pass sid cs)" using 1(2) by (auto simp: suffix_Cons)
      then show ?thesis using "1.IH" 1(3) Cons pass_no_match by auto
    next
      case (Some x)
      then have m: "slash \<in> set s" "front s \<in> set attribute_starts" "x = (beyond s, front s @ preview_base sid)"
        by (auto simp: absolute_attribute_iff split: if_splits)
      have shorter: "length (beyond s) < length s" by (rule beyond_shorter [OF m(1)])
      have p: "pass sid s = (front s @ preview_base sid) @ pass sid (beyond s)"
        using Some m(3) Cons by (simp add: pass_Cons)
      then have "suffix v (pass sid (beyond s)) \<or> (\<exists>y. v = y @ pass sid (beyond s) \<and> suffix y (front s @ preview_base sid))"
        using 1(2) by (simp only: suffix_append)
      then show ?thesis
      proof
        assume "suffix v (pass sid (beyond s))"
        then show ?thesis using "1.IH" shorter 1(3) by blast
      next
        assume "\<exists>y. v = y @ pass sid (beyond s) \<and> suffix y (front s @ preview_base sid)"
        then obtain y where y: "v = y @ pass sid (beyond s)" "suffix y (front s @ preview_base sid)" by blast
        show ?thesis
        proof (cases "y = []")
          case True
          then show ?thesis using "1.IH" shorter 1(3) y(1) by auto
        next
          case False
          then show ?thesis using moved_no_match [OF m(2) assms, of y] y by (simp add: preview_base_def)
        qed
      qed
    qed
  qed (use 1 in simp)
qed

lemma replace_all_nothing: "(\<And>v. suffix v s \<Longrightarrow> v \<noteq> [] \<Longrightarrow> m v = None) \<Longrightarrow> replace_all m s = s"
proof (induction s)
  case (Cons c s)
  have "m (c # s) = None" using Cons.prems by blast
  moreover have "replace_all m s = s" using Cons.prems by (intro Cons.IH) (auto simp: suffix_Cons)
  ultimately show ?case by (subst replace_all.simps) simp
qed (simp add: replace_all.simps)

text \<open>
  The pass that moves the absolute addresses of \<^verbatim>\<open>href\<close>, \<^verbatim>\<open>src\<close>,
  \<^verbatim>\<open>action\<close> and \<^verbatim>\<open>poster\<close> below the preview of a session changes nothing when it runs
  again over its own result, whatever the page holds.
\<close>

theorem attribute_pass_idempotent:
  assumes "dq \<notin> set sid" and "slash \<notin> set sid"
  shows "replace_all (absolute_attribute (preview_base sid)) (replace_all (absolute_attribute (preview_base sid)) page)
    = replace_all (absolute_attribute (preview_base sid)) page"
  using replace_all_nothing pass_no_match_inside [OF assms] by blast

theorem attribute_pass_idempotent_witness:
  "replace_all (absolute_attribute (preview_base ''0a1b''))
     (replace_all (absolute_attribute (preview_base ''0a1b'')) (''<a href='' @ [dq] @ ''/x.html'' @ [dq] @ ''>''))
   = ''<a href='' @ [dq] @ ''/preview/0a1b/x.html'' @ [dq] @ ''>''"
proof -
  have "replace_all (absolute_attribute (preview_base ''0a1b'')) (''<a href='' @ [dq] @ ''/x.html'' @ [dq] @ ''>'')
    = ''<a href='' @ [dq] @ ''/preview/0a1b/x.html'' @ [dq] @ ''>''" by code_simp
  then show ?thesis
    using attribute_pass_idempotent [of "''0a1b''" "''<a href='' @ [dq] @ ''/x.html'' @ [dq] @ ''>''"]
    by (simp add: dq_def)
qed

section \<open>Where addresses go wrong\<close>

text \<open>An absolute import is moved twice in one pass, and any absolute \<^verbatim>\<open>url(...)\<close> again in every further pass.\<close>

lemma import_moved_twice:
  "buildPreviewCss (''@import url('' @ [dq] @ ''/css/a.css'' @ [dq] @ '');'') (preview_base ''0a1b'') True
   = ''@import url('' @ [dq] @ ''/preview/0a1b/preview/0a1b/css/a.css'' @ [dq] @ '');''"
  by code_simp

lemma css_pass_not_idempotent:
  "rewriteAbsolutePreviewUrls (rewriteAbsolutePreviewUrls ''url(/a.png)'' (preview_base ''0a1b'')) (preview_base ''0a1b'')
   = ''url(/preview/0a1b/preview/0a1b/a.png)''"
  by code_simp

end
