(* ===== verification/WorkspaceFiles.thy ===== *)
theory WorkspaceFiles imports PathContainment "HOL-Library.Multiset" begin

text \<open>
  \<^verbatim>\<open>backend/src/services/workspaceService.ts\<close>: the files of a workspace that the editor
  lists, reads, writes and searches.

  A directory of the repository is the list of its entries in the order \<^verbatim>\<open>readdir\<close> gives
  them. \<open>le\<close> stands for \<^verbatim>\<open>localeCompare\<close>, and \<open>hash\<close> for the SHA-1 digest of
  \<^verbatim>\<open>hashContent\<close>. Symbolic links are outside the tree model; the last lemma shows what
  the guard of this file does about them.
\<close>

section \<open>Session ids and paths\<close>

definition is_hex_lower :: "char \<Rightarrow> bool" where
  "is_hex_lower c = (is_digit c \<or> c \<in> set ''abcdef'')"

definition assertValidSessionId :: "string \<Rightarrow> bool" where
  "assertValidSessionId sid = (length sid = 16 \<and> list_all is_hex_lower sid)"

datatype workspace_error =
    InvalidSessionId | SessionNotFound | PathAccessDenied | GitForbidden | FileTooLarge | NoSuchFile

definition dot_git :: string where "dot_git = ''.git''"

text \<open>\<^verbatim>\<open>path.relative\<close> for a path that is \<open>base\<close> or lies below it.\<close>

definition relative_below :: "string \<Rightarrow> string \<Rightarrow> string" where
  "relative_below base p = drop (length base + 1) p"

definition ensureChildPath :: "string \<Rightarrow> string \<Rightarrow> string \<Rightarrow> workspace_error + string" where
  "ensureChildPath cwd basePath relativePath =
     (let resolved = path_resolve cwd [basePath, relativePath]
      in if \<not> starts_with (basePath @ [slash]) resolved \<and> resolved \<noteq> basePath then Inl PathAccessDenied
         else let relativeToRoot = relative_below basePath resolved
              in if relativeToRoot = dot_git \<or> starts_with (dot_git @ [slash]) relativeToRoot
                 then Inl GitForbidden else Inr resolved)"

lemma relative_below_segments:
  assumes "clean bs" "clean (bs @ rs)" "bs \<noteq> []"
  shows "relative_below (abs_path bs) (abs_path (bs @ rs)) = join [slash] rs"
proof (cases "rs = []")
  case False
  then have "abs_path (bs @ rs) = abs_path bs @ slash # join [slash] rs"
    using assms(3) by (simp add: abs_path_append) (simp add: abs_path_def)
  then show ?thesis by (simp add: relative_below_def)
qed (simp add: relative_below_def)

lemma join_is_git:
  assumes "clean rs"
  shows "(join [slash] rs = dot_git \<or> starts_with (dot_git @ [slash]) (join [slash] rs))
         \<longleftrightarrow> rs \<noteq> [] \<and> hd rs = dot_git"
proof
  assume "rs \<noteq> [] \<and> hd rs = dot_git"
  then obtain rest where "rs = dot_git # rest" by (metis list.collapse)
  then show "join [slash] rs = dot_git \<or> starts_with (dot_git @ [slash]) (join [slash] rs)"
    by (auto simp: join_Cons)
next
  assume git: "join [slash] rs = dot_git \<or> starts_with (dot_git @ [slash]) (join [slash] rs)"
  then have ne: "rs \<noteq> []" by (auto simp: dot_git_def)
  have sp: "split_on slash (join [slash] rs) = rs"
    using assms ne by (intro split_on_join) (auto simp: clean_segment_def)
  have plain: "split_on slash dot_git = [dot_git]" by (rule split_on_none) (simp add: dot_git_def)
  from git show "rs \<noteq> [] \<and> hd rs = dot_git"
  proof
    assume "starts_with (dot_git @ [slash]) (join [slash] rs)"
    then obtain u where "join [slash] rs = dot_git @ slash # u" by (auto simp: prefix_def)
    then have "rs = dot_git # split_on slash u" using sp plain by (simp add: split_on_append)
    then show ?thesis by simp
  qed (use sp plain ne in \<open>metis list.sel(1)\<close>)
qed

text \<open>
  The guard of workspace files is exact: for a repository directory (an absolute path without
  redundant segments) a relative path is accepted precisely when it resolves to the repository or to a path below it,
  and the first segment below the repository is not \<^verbatim>\<open>.git\<close>.
\<close>

theorem child_path_exact:
  assumes "clean bs" and "bs \<noteq> []"
  shows "ensureChildPath cwd (abs_path bs) rel = Inr target \<longleftrightarrow>
     (\<exists>rs. path_resolve cwd [abs_path bs, rel] = abs_path (bs @ rs) \<and> clean (bs @ rs)
           \<and> target = abs_path (bs @ rs) \<and> (rs = [] \<or> hd rs \<noteq> dot_git))"
proof -
  obtain ts where ts: "clean ts" "path_resolve cwd [abs_path bs, rel] = abs_path ts" by (rule path_resolve_cases)
  show ?thesis
  proof (cases "prefix bs ts")
    case True
    then obtain rs where rs: "ts = bs @ rs" by (auto simp: prefix_def)
    have "clean rs" using ts(1) rs by simp
    have inside: "\<not> (\<not> starts_with (abs_path bs @ [slash]) (abs_path ts) \<and> abs_path ts \<noteq> abs_path bs)"
      using inside_iff_prefix [OF assms(1) ts(1)] True assms(2) by blast
    have "ensureChildPath cwd (abs_path bs) rel =
        (if rs \<noteq> [] \<and> hd rs = dot_git then Inl GitForbidden else Inr (abs_path ts))"
      unfolding ensureChildPath_def ts(2) Let_def if_not_P [OF inside]
      using join_is_git [OF \<open>clean rs\<close>] relative_below_segments [OF assms(1) _ assms(2), of rs] ts(1) rs by simp
    moreover have "(\<exists>rs'. abs_path ts = abs_path (bs @ rs') \<and> clean (bs @ rs') \<and> target = abs_path (bs @ rs')
        \<and> (rs' = [] \<or> hd rs' \<noteq> dot_git)) \<longleftrightarrow> target = abs_path ts \<and> (rs = [] \<or> hd rs \<noteq> dot_git)"
      using ts(1) rs by (metis abs_path_inject same_append_eq)
    ultimately show ?thesis unfolding ts(2) by (auto split: if_splits)
  next
    case False
    then have "\<not> starts_with (abs_path bs @ [slash]) (abs_path ts) \<and> abs_path ts \<noteq> abs_path bs"
      using inside_iff_prefix [OF assms(1) ts(1)] by auto
    then have "ensureChildPath cwd (abs_path bs) rel = Inl PathAccessDenied"
      unfolding ensureChildPath_def ts(2) by simp
    moreover have "\<not> (\<exists>rs. abs_path ts = abs_path (bs @ rs) \<and> clean (bs @ rs))"
      using ts(1) False by (metis abs_path_inject prefixI)
    ultimately show ?thesis unfolding ts(2) by auto
  qed
qed

theorem child_path_exact_witness:
  "(\<exists>rs. path_resolve ''/srv'' [''/d/repo'', ''src/../a.xml''] = abs_path ([''d'', ''repo''] @ rs)
         \<and> clean ([''d'', ''repo''] @ rs) \<and> ''/d/repo/a.xml'' = abs_path ([''d'', ''repo''] @ rs)
         \<and> (rs = [] \<or> hd rs \<noteq> dot_git))"
proof -
  have c: "clean [''d'', ''repo'']" by (simp add: clean_segment_def)
  have a: "abs_path [''d'', ''repo''] = ''/d/repo''" by (simp add: abs_path_def)
  have "ensureChildPath ''/srv'' (abs_path [''d'', ''repo'']) ''src/../a.xml'' = Inr ''/d/repo/a.xml''"
    by code_simp
  then show ?thesis by (subst (asm) child_path_exact [OF c]) (simp_all add: a)
qed

section \<open>The tree of a directory\<close>

datatype node = File string | Dir "(string \<times> node) list"

datatype entry_type = DirEntry | FileEntry

record tree_entry =
  te_name :: string
  te_path :: string
  te_type :: entry_type
  te_sha :: "string option"
  te_size :: "nat option"

fun is_dir :: "node \<Rightarrow> bool" where
  "is_dir (Dir _) = True"
| "is_dir (File _) = False"

text \<open>
  A file's \<^verbatim>\<open>sha\<close> in the tree is a digest of its path, its time stamp and its size; \<open>mtime\<close>
  gives the time stamps.
\<close>

definition toTreeEntry :: "(string \<Rightarrow> string) \<Rightarrow> (string \<Rightarrow> int) \<Rightarrow> string \<Rightarrow> string \<times> node \<Rightarrow> tree_entry" where
  "toTreeEntry hash mtime relativePath entry =
     (let entryPath = (if relativePath \<noteq> [] then relativePath @ [slash] @ fst entry else fst entry)
      in case snd entry of
           Dir _ \<Rightarrow> \<lparr>te_name = fst entry, te_path = entryPath, te_type = DirEntry, te_sha = None, te_size = None\<rparr>
         | File content \<Rightarrow>
             let size = length (utf8_bytes content)
             in \<lparr>te_name = fst entry, te_path = entryPath, te_type = FileEntry,
                 te_sha = Some (hash (entryPath @ '':'' @ dec_int (mtime entryPath) @ '':'' @ dec_nat size)),
                 te_size = Some size\<rparr>)"

text \<open>
  The comparator of the listing, and \<^verbatim>\<open>Array.sort\<close> as the insertion sort that every stable
  sort agrees with: an entry goes before the first one it does not come after.
\<close>

definition tree_le :: "(string \<Rightarrow> string \<Rightarrow> bool) \<Rightarrow> tree_entry \<Rightarrow> tree_entry \<Rightarrow> bool" where
  "tree_le le left right =
     (if te_type left \<noteq> te_type right then te_type left = DirEntry else le (te_name left) (te_name right))"

fun insert_by :: "('a \<Rightarrow> 'a \<Rightarrow> bool) \<Rightarrow> 'a \<Rightarrow> 'a list \<Rightarrow> 'a list" where
  "insert_by le x [] = [x]"
| "insert_by le x (y # ys) = (if le x y then x # y # ys else y # insert_by le x ys)"

definition sort_by :: "('a \<Rightarrow> 'a \<Rightarrow> bool) \<Rightarrow> 'a list \<Rightarrow> 'a list" where
  "sort_by le xs = foldr (insert_by le) xs []"

definition getWorkspaceTree ::
    "(string \<Rightarrow> string \<Rightarrow> bool) \<Rightarrow> (string \<Rightarrow> string) \<Rightarrow> (string \<Rightarrow> int) \<Rightarrow> string \<Rightarrow> (string \<times> node) list \<Rightarrow> tree_entry list" where
  "getWorkspaceTree le hash mtime relativePath entries =
     (let visibleEntries = filter (\<lambda>(name, n). \<not> (is_dir n \<and> name = dot_git)) entries
      in sort_by (tree_le le) (map (toTreeEntry hash mtime relativePath) visibleEntries))"

lemma set_insert_by [simp]: "set (insert_by le x ys) = insert x (set ys)"
  by (induction ys) auto

lemma mset_insert_by [simp]: "mset (insert_by le x ys) = add_mset x (mset ys)"
  by (induction ys) auto

lemma mset_sort_by [simp]: "mset (sort_by le xs) = mset xs"
  by (induction xs) (simp_all add: sort_by_def)

text \<open>
  The directories of the list in order, then the files in order.
\<close>

definition dirs_first :: "tree_entry list \<Rightarrow> bool" where
  "dirs_first ts = sorted_wrt (\<lambda>a b. te_type a = DirEntry \<or> te_type b = FileEntry) ts"

lemma insert_dirs_first: "dirs_first ts \<Longrightarrow> dirs_first (insert_by (tree_le le) t ts)"
proof (induction ts)
  case (Cons u ts)
  have "\<And>x. te_type x \<noteq> DirEntry \<longleftrightarrow> te_type x = FileEntry" by (metis entry_type.exhaust entry_type.distinct(1))
  with Cons show ?case
    by (cases "te_type t"; cases "te_type u") (auto simp: dirs_first_def tree_le_def)
qed (simp add: dirs_first_def)

lemma sort_dirs_first: "dirs_first (sort_by (tree_le le) ts)"
proof (induction ts)
  case (Cons t ts)
  then show ?case using insert_dirs_first by (simp add: sort_by_def)
qed (simp add: sort_by_def dirs_first_def)

text \<open>
  The listing of a directory holds exactly its entries, the \<^verbatim>\<open>.git\<close> directory left out, each described once,
  all directories before all files, whatever order the locale gives to the names.
\<close>

theorem tree_lists_directory:
  "mset (getWorkspaceTree le hash mtime rel entries)
     = image_mset (toTreeEntry hash mtime rel) (mset (filter (\<lambda>(name, n). \<not> (is_dir n \<and> name = dot_git)) entries))
   \<and> dirs_first (getWorkspaceTree le hash mtime rel entries)"
  by (simp add: getWorkspaceTree_def sort_dirs_first)

section \<open>Reading and writing a file\<close>

definition MAX_FILE_SIZE_BYTES :: int where "MAX_FILE_SIZE_BYTES = 10 * 1024 * 1024"

text \<open>The checks of \<^verbatim>\<open>updateWorkspaceFileContent\<close> before it writes; the result is the path and the new digest.\<close>

definition updateWorkspaceFileContent ::
    "(string \<Rightarrow> string) \<Rightarrow> string \<Rightarrow> string option \<Rightarrow> string \<Rightarrow> string \<Rightarrow> string \<Rightarrow> workspace_error + string \<times> string" where
  "updateWorkspaceFileContent hash cwd sessionRepo sid relativePath content =
     (if \<not> assertValidSessionId sid then Inl InvalidSessionId
      else case sessionRepo of
          None \<Rightarrow> Inl SessionNotFound
        | Some repo \<Rightarrow>
            (case ensureChildPath cwd (path_resolve cwd [repo]) relativePath of
               Inl e \<Rightarrow> Inl e
             | Inr targetPath \<Rightarrow>
                 if int (length (utf8_bytes content)) > MAX_FILE_SIZE_BYTES then Inl FileTooLarge
                 else Inr (targetPath, hash content)))"

record file_content =
  fc_path :: string
  fc_sha :: string
  fc_size :: nat
  fc_decoded :: string

definition getWorkspaceFileContent ::
    "(string \<Rightarrow> string) \<Rightarrow> (string \<Rightarrow> string option) \<Rightarrow> string \<Rightarrow> string option \<Rightarrow> string \<Rightarrow> string \<Rightarrow> workspace_error + file_content" where
  "getWorkspaceFileContent hash readFile cwd sessionRepo sid relativePath =
     (if \<not> assertValidSessionId sid then Inl InvalidSessionId
      else case sessionRepo of
          None \<Rightarrow> Inl SessionNotFound
        | Some repo \<Rightarrow>
            (case ensureChildPath cwd (path_resolve cwd [repo]) relativePath of
               Inl e \<Rightarrow> Inl e
             | Inr targetPath \<Rightarrow>
                 (case readFile targetPath of
                    None \<Rightarrow> Inl NoSuchFile
                  | Some content \<Rightarrow>
                      Inr \<lparr>fc_path = relativePath, fc_sha = hash content, fc_size = length (utf8_bytes content),
                           fc_decoded = content\<rparr>)))"

section \<open>Search\<close>

definition TEXT_EXTENSIONS :: "string list" where
  "TEXT_EXTENSIONS =
     [''.txt'', ''.md'', ''.tex'', ''.xml'', ''.ptx'', ''.html'', ''.htm'', ''.css'', ''.js'',
      ''.ts'', ''.tsx'', ''.jsx'', ''.json'', ''.yaml'', ''.yml'', ''.toml'', ''.ini'', ''.cfg'',
      ''.py'', ''.rb'', ''.java'', ''.c'', ''.cpp'', ''.h'', ''.hpp'', ''.sh'', ''.bash'', ''.zsh'',
      ''.rst'', ''.bib'', ''.cls'', ''.sty'']"

definition MAX_SEARCH_RESULTS :: nat where "MAX_SEARCH_RESULTS = 50"

definition MAX_SEARCH_FILE_SIZE :: nat where "MAX_SEARCH_FILE_SIZE = 1024 * 1024"

text \<open>\<^verbatim>\<open>path.extname\<close> of a file name that does not start with a dot.\<close>

definition path_extname :: "string \<Rightarrow> string" where
  "path_extname name =
     (if CHR ''.'' \<in> set name then CHR ''.'' # rev (takeWhile (\<lambda>c. c \<noteq> CHR ''.'') (rev name)) else [])"

text \<open>
  The walk collects the text files in order, each with its path below the repository and its content;
  a directory is entered only while fewer than 250 files have been found.
\<close>

fun walkForSearch :: "string \<Rightarrow> (string \<times> node) list \<Rightarrow> (string \<times> string) list \<Rightarrow> (string \<times> string) list" where
  "walkForSearch dir [] results = results"
| "walkForSearch dir ((name, Dir es) # entries) results =
     walkForSearch dir entries
       (if starts_with ''.'' name then results
        else if length results < MAX_SEARCH_RESULTS * 5 then walkForSearch (dir @ name @ [slash]) es results
        else results)"
| "walkForSearch dir ((name, File content) # entries) results =
     walkForSearch dir entries
       (if starts_with ''.'' name then results
        else if to_lower (path_extname name) \<in> set TEXT_EXTENSIONS then results @ [(dir @ name, content)]
        else results)"

record search_match =
  sm_line :: nat
  sm_text :: string

text \<open>The loop over the lines, with the matches so far; it breaks at the fifth.\<close>

fun match_lines :: "string \<Rightarrow> nat \<Rightarrow> string list \<Rightarrow> search_match list \<Rightarrow> search_match list" where
  "match_lines q i [] matches = matches"
| "match_lines q i (l # ls) matches =
     (if str_includes (to_lower l) q
      then let matches' = matches @ [\<lparr>sm_line = i + 1, sm_text = take 300 (trim_end l)\<rparr>]
           in if length matches' \<ge> 5 then matches' else match_lines q (i + 1) ls matches'
      else match_lines q (i + 1) ls matches)"

fun search_files :: "string \<Rightarrow> (string \<times> string) list \<Rightarrow> (string \<times> search_match list) list \<Rightarrow> (string \<times> search_match list) list" where
  "search_files q [] results = results"
| "search_files q ((path, content) # fs) results =
     (if length results \<ge> MAX_SEARCH_RESULTS then results
      else if length (utf8_bytes content) > MAX_SEARCH_FILE_SIZE then search_files q fs results
      else let matches = match_lines q 0 (split_on newline content) []
           in search_files q fs (if length matches > 0 then results @ [(path, matches)] else results))"

definition searchWorkspaceFiles :: "string \<Rightarrow> (string \<times> node) list \<Rightarrow> (string \<times> search_match list) list" where
  "searchWorkspaceFiles query repo = search_files (to_lower query) (walkForSearch [] repo []) []"

text \<open>What the search means: the matching lines of a file, and the files that have one.\<close>

definition line_hits :: "string \<Rightarrow> string \<Rightarrow> search_match list" where
  "line_hits q content =
     map (\<lambda>(i, l). \<lparr>sm_line = i + 1, sm_text = take 300 (trim_end l)\<rparr>)
       (filter (\<lambda>(i, l). str_includes (to_lower l) q) (enumerate 0 (split_on newline content)))"

definition file_hits :: "string \<Rightarrow> (string \<times> string) list \<Rightarrow> (string \<times> search_match list) list" where
  "file_hits q files =
     filter (\<lambda>(path, ms). ms \<noteq> [])
       (map (\<lambda>(path, content). (path, take 5 (line_hits q content)))
         (filter (\<lambda>(path, content). length (utf8_bytes content) \<le> MAX_SEARCH_FILE_SIZE) files))"

lemma match_lines_take:
  "length acc < 5 \<Longrightarrow>
   match_lines q i ls acc = take 5 (acc @ map (\<lambda>(i, l). \<lparr>sm_line = i + 1, sm_text = take 300 (trim_end l)\<rparr>)
     (filter (\<lambda>(i, l). str_includes (to_lower l) q) (enumerate i ls)))"
proof (induction ls arbitrary: i acc)
  case (Cons l ls)
  show ?case
  proof (cases "length acc = 4")
    case True
    then show ?thesis using Cons.IH [OF Cons.prems, of "i + 1"] by (auto simp: Let_def)
  next
    case False
    then obtain k where "5 - length acc = Suc k" "4 - length acc = k" "k > 0"
      using Cons.prems by (metis Suc_diff_Suc diff_Suc_1 eval_nat_numeral(3) less_Suc_eq zero_less_diff semiring_norm(26,27) numeral_eq_Suc pred_numeral_simps(3) diff_Suc_Suc)
    then show ?thesis using Cons.IH [of acc "i + 1"] Cons.IH [of "acc @ [_]" "i + 1"] Cons.prems False
      by (auto simp: Let_def)
  qed
qed simp

lemma search_files_take:
  "length acc \<le> MAX_SEARCH_RESULTS \<Longrightarrow> search_files q fs acc = take MAX_SEARCH_RESULTS (acc @ file_hits q fs)"
proof (induction fs arbitrary: acc)
  case (Cons f fs)
  obtain path content where f: "f = (path, content)" by (cases f)
  have m: "match_lines q 0 (split_on newline content) [] = take 5 (line_hits q content)"
    by (simp add: match_lines_take line_hits_def)
  show ?case
  proof (cases "length acc \<ge> MAX_SEARCH_RESULTS")
    case True
    then show ?thesis using Cons.prems f by simp
  next
    case False
    then obtain k where "MAX_SEARCH_RESULTS - length acc = Suc k" "MAX_SEARCH_RESULTS - Suc (length acc) = k"
      by (metis Suc_diff_Suc not_le)
    then show ?thesis using False Cons.IH f m by (simp add: file_hits_def Let_def)
  qed
qed (simp add: file_hits_def)

text \<open>
  The early exits of the search lose nothing but what is past the limits: the result is the first 50
  files with a matching line, in the order of the walk, each with its first five matching lines.
\<close>

theorem search_is_prefix_of_hits:
  "searchWorkspaceFiles query repo = take 50 (file_hits (to_lower query) (walkForSearch [] repo []))"
  by (simp add: searchWorkspaceFiles_def search_files_take) (simp add: MAX_SEARCH_RESULTS_def)

section \<open>What the guard does not see\<close>

text \<open>
  The guard looks at the path only: where the full guard refuses a path through a link committed to
  the repository, this one lets it pass.
\<close>

lemma links_not_seen:
  "ensureChildPath ''/srv'' ''/data/repo'' ''escape/passwd'' = Inr ''/data/repo/escape/passwd''"
  by code_simp

end
