(* ===== verification/PreviewServer.thy ===== *)
theory PreviewServer imports PreviewTransform AccessControl ShareTokens WorkspaceFiles begin

text \<open>
  The bundle that a preview is served from, \<^verbatim>\<open>backend/src/services/previewBundleService.ts\<close>, the
  route that serves it, \<^verbatim>\<open>backend/src/routes/preview.routes.ts\<close>, and the route of shared links in
  \<^verbatim>\<open>backend/src/controllers/build.controller.ts\<close>. Directories are maps from relative paths to contents, by
  the path of the directory. A first use of a bundle takes three steps, between which other requests run: the
  entry in \<^verbatim>\<open>inFlightSyncs\<close>, the empty directory, the files. The version mark that the live preview puts on
  the addresses of a page (\<^verbatim>\<open>versionLivePreviewAssets\<close>) is a parameter.
\<close>

section \<open>The bundle\<close>

type_synonym tree = "(string, string) jsmap"

definition PREVIEW_REPO_MIRROR_DIRS :: "string list" where
  "PREVIEW_REPO_MIRROR_DIRS = PREVIEW_SHARED_ROOT_DIRS @ [''css'', ''js'', ''demos'', ''knowl'']"

definition text_types :: "string list" where
  "text_types = [''.html'', ''.css'', ''.js'', ''.json'', ''.xml'', ''.txt'']"

text \<open>What is written for a file: text is transformed by its path, the rest is copied.\<close>

definition mirrored :: "preview_blocks \<Rightarrow> string \<Rightarrow> string \<Rightarrow> string \<Rightarrow> string" where
  "mirrored blocks sid relativePath raw =
     (if to_lower (extname relativePath) \<in> set text_types then transformPreviewFile blocks relativePath raw sid else raw)"

definition mirrorTree :: "preview_blocks \<Rightarrow> string \<Rightarrow> string \<Rightarrow> bool \<Rightarrow> tree \<Rightarrow> tree \<Rightarrow> tree" where
  "mirrorTree blocks sid targetPrefix onlyIfMissing source bundle =
     fold (\<lambda>(rel, raw) b.
         if onlyIfMissing \<and> map_has b (targetPrefix @ rel) then b
         else map_set (targetPrefix @ rel) (mirrored blocks sid rel raw) b)
       source bundle"

definition subtree :: "string \<Rightarrow> tree \<Rightarrow> tree" where
  "subtree dir t = map (\<lambda>(p, c). (drop (Suc (length dir)) p, c)) (filter (\<lambda>(p, c). starts_with (dir @ [slash]) p) t)"

definition mirrorSelectedRepoDirs :: "preview_blocks \<Rightarrow> string \<Rightarrow> tree \<Rightarrow> tree \<Rightarrow> tree" where
  "mirrorSelectedRepoDirs blocks sid repo bundle =
     fold (\<lambda>dir b. mirrorTree blocks sid (dir @ [slash]) True (subtree dir repo) b) PREVIEW_REPO_MIRROR_DIRS bundle"

text \<open>The directories on disk and the bundles that are being made.\<close>

record preview_state =
  pv_dirs :: "(string, tree) jsmap"
  pv_inFlight :: "string list"

definition dir_at :: "preview_state \<Rightarrow> string \<Rightarrow> tree" where
  "dir_at st path = (case map_get (pv_dirs st) path of None \<Rightarrow> [] | Some t \<Rightarrow> t)"

definition bundle_of :: "preview_blocks \<Rightarrow> string \<Rightarrow> tree \<Rightarrow> tree option \<Rightarrow> tree" where
  "bundle_of blocks sid output repo =
     (let b = mirrorTree blocks sid [] False output []
      in case repo of None \<Rightarrow> b | Some r \<Rightarrow> mirrorSelectedRepoDirs blocks sid r b)"

definition bundle_root :: "string \<Rightarrow> string \<Rightarrow> string" where
  "bundle_root dataRoot sid = dataRoot @ [slash] @ sid @ ''/preview''"

definition sync_begin :: "string \<Rightarrow> string \<Rightarrow> preview_state \<Rightarrow> preview_state" where
  "sync_begin dataRoot sid st = st\<lparr>pv_dirs := map_set (bundle_root dataRoot sid) [] (pv_dirs st)\<rparr>"

definition sync_end :: "preview_blocks \<Rightarrow> string \<Rightarrow> string \<Rightarrow> string \<Rightarrow> string option \<Rightarrow> preview_state \<Rightarrow> preview_state" where
  "sync_end blocks dataRoot sid outDir repoDir st =
     st\<lparr>pv_dirs := map_set (bundle_root dataRoot sid)
          (bundle_of blocks sid (dir_at st outDir) (map_option (dir_at st) repoDir)) (pv_dirs st),
        pv_inFlight := removeAll sid (pv_inFlight st)\<rparr>"

definition syncPreviewBundle :: "preview_blocks \<Rightarrow> string \<Rightarrow> string \<Rightarrow> string \<Rightarrow> string option \<Rightarrow> preview_state \<Rightarrow> preview_state" where
  "syncPreviewBundle blocks dataRoot sid outDir repoDir st =
     sync_end blocks dataRoot sid outDir repoDir (sync_begin dataRoot sid st)"

text \<open>Whether the caller goes on at once, waits for a bundle that is being made, or begins one.\<close>

datatype ensured = Ready | Waits | Begins

definition ensurePreviewBundle :: "string \<Rightarrow> string \<Rightarrow> preview_state \<Rightarrow> ensured \<times> preview_state" where
  "ensurePreviewBundle dataRoot sid st =
     (if map_has (pv_dirs st) (bundle_root dataRoot sid) then (Ready, st)
      else if sid \<in> set (pv_inFlight st) then (Waits, st)
      else (Begins, st\<lparr>pv_inFlight := pv_inFlight st @ [sid]\<rparr>))"

definition updatePreviewBundleFile :: "preview_blocks \<Rightarrow> string \<Rightarrow> string \<Rightarrow> string \<Rightarrow> string \<Rightarrow> preview_state \<Rightarrow> preview_state" where
  "updatePreviewBundleFile blocks dataRoot sid filePath content st =
     (let root = bundle_root dataRoot sid
      in st\<lparr>pv_dirs := map_set root (map_set filePath (transformPreviewFile blocks filePath content sid) (dir_at st root)) (pv_dirs st)\<rparr>)"

section \<open>The route\<close>

record preview_session =
  ps_owner :: build_owner
  ps_outputPath :: string
  ps_repoPath :: string
  ps_previewPath :: string

datatype preview_reply =
    Page string string string
  | Refused nat string
  | Unanswered

definition getPreviewMimeType :: "string \<Rightarrow> string" where
  "getPreviewMimeType ext =
     (case map_of [(''.html'', ''text/html; charset=utf-8''), (''.js'', ''application/javascript''), (''.css'', ''text/css''),
        (''.json'', ''application/json''), (''.svg'', ''image/svg+xml''), (''.png'', ''image/png''), (''.jpg'', ''image/jpeg''),
        (''.jpeg'', ''image/jpeg''), (''.gif'', ''image/gif''), (''.webp'', ''image/webp''), (''.ico'', ''image/x-icon''),
        (''.woff'', ''font/woff''), (''.woff2'', ''font/woff2''), (''.ttf'', ''font/ttf''), (''.otf'', ''font/otf''),
        (''.eot'', ''application/vnd.ms-fontobject''), (''.xml'', ''application/xml''), (''.txt'', ''text/plain'')] ext of
        Some m \<Rightarrow> m
      | None \<Rightarrow> ''application/octet-stream'')"

definition getPreviewCacheHeader :: "string \<Rightarrow> string" where
  "getPreviewCacheHeader ext =
     (if ext \<in> set [''.html'', ''.htm'', ''.css'', ''.js''] then ''no-store'' else ''public, max-age=60'')"

text \<open>\<^verbatim>\<open>requirePreviewAccess\<close>: \<open>None\<close> where the request is passed on.\<close>

definition requirePreviewAccess ::
    "int \<Rightarrow> request \<Rightarrow> auth_store \<Rightarrow> (string \<Rightarrow> preview_session option) \<Rightarrow> string \<Rightarrow> preview_reply option" where
  "requirePreviewAccess now req store builds sid =
     (if \<not> assertValidSessionId sid then Some (Refused 400 ''Invalid session ID'')
      else case getSessionFromRequest now (hdr_cookie req) store of
          None \<Rightarrow> Some Unanswered
        | Some (None, store') \<Rightarrow> Some (Refused 401 ''Authentication required'')
        | Some (Some s, store') \<Rightarrow>
            if \<not> truthy (get_prop (session_user s) ''login'') then Some (Refused 401 ''Authentication required'')
            else (case builds sid of
                    None \<Rightarrow> Some (Refused 404 ''Session not found'')
                  | Some b \<Rightarrow>
                      if \<not> canAccessBuildSession (ps_owner b)
                           (req\<lparr>req_authSession := Some s, req_accessToken := accessToken s\<rparr>)
                      then Some (Refused 403 ''Access denied'') else None))"

text \<open>\<^verbatim>\<open>fs.access\<close> on a path below a directory: a file, a directory, or nothing.\<close>

datatype found = Found_file string | Found_dir | Missing

definition look_up :: "tree \<Rightarrow> string \<Rightarrow> string \<Rightarrow> found" where
  "look_up t root full =
     (if full = root then Found_dir
      else let rel = relative_below root full
           in case map_get t rel of
                Some c \<Rightarrow> Found_file c
              | None \<Rightarrow> if list_ex (\<lambda>(p, c). starts_with (rel @ [slash]) p) t then Found_dir else Missing)"

text \<open>
  What follows once the bundle is there. A second look after a failed one finds the same, as the bundle exists;
  reading a directory fails outside every handler of errors, and the request gets no answer.
\<close>

definition serve_preview ::
    "preview_blocks \<Rightarrow> (string \<Rightarrow> string) \<Rightarrow> string \<Rightarrow> string \<Rightarrow> string \<Rightarrow> preview_state \<Rightarrow> preview_reply" where
  "serve_preview blocks version cwd previewRoot filePath st =
     (let fullPath = path_resolve cwd [previewRoot, filePath]
      in if \<not> starts_with (previewRoot @ [slash]) fullPath \<and> fullPath \<noteq> previewRoot
         then Refused 403 ''Access denied''
         else case look_up (dir_at st previewRoot) previewRoot fullPath of
             Missing \<Rightarrow> Refused 404 ''Preview file not found''
           | Found_dir \<Rightarrow> Unanswered
           | Found_file content \<Rightarrow>
               let ext = to_lower (extname filePath)
               in Page (if ext = ''.html'' \<or> ext = ''.htm'' then injectLatestPreTeXtLayoutFix blocks (version content) else content)
                    (getPreviewMimeType ext) (getPreviewCacheHeader ext))"

definition preview_root_of :: "string \<Rightarrow> string \<Rightarrow> string \<Rightarrow> preview_session \<Rightarrow> string" where
  "preview_root_of dataRoot cwd sid b =
     (if ps_previewPath b \<noteq> [] then path_resolve cwd [ps_previewPath b] else bundle_root dataRoot sid)"

text \<open>
  A request whose bundle is there (\<open>get_preview\<close> is \<open>None\<close> for one that has to wait until then).
\<close>

definition get_preview ::
    "preview_blocks \<Rightarrow> (string \<Rightarrow> string) \<Rightarrow> string \<Rightarrow> string \<Rightarrow> int \<Rightarrow> request \<Rightarrow> auth_store \<Rightarrow>
     (string \<Rightarrow> preview_session option) \<Rightarrow> string \<Rightarrow> string \<Rightarrow> preview_state \<Rightarrow> preview_reply option" where
  "get_preview blocks version dataRoot cwd now req store builds sid path st =
     (case requirePreviewAccess now req store builds sid of
        Some r \<Rightarrow> Some r
      | None \<Rightarrow>
          (case builds sid of
             None \<Rightarrow> None
           | Some b \<Rightarrow>
               if ps_previewPath b = [] \<and> fst (ensurePreviewBundle dataRoot sid st) \<noteq> Ready then None
               else Some (serve_preview blocks version cwd (preview_root_of dataRoot cwd sid b) (str_or path ''overview.html'') st)))"

section \<open>Shared links\<close>

definition shared_mime :: "string \<Rightarrow> string" where
  "shared_mime ext =
     (case map_of [(''.html'', ''text/html; charset=utf-8''), (''.css'', ''text/css''), (''.js'', ''application/javascript''),
        (''.svg'', ''image/svg+xml''), (''.png'', ''image/png''), (''.jpg'', ''image/jpeg''), (''.jpeg'', ''image/jpeg''),
        (''.gif'', ''image/gif''), (''.woff'', ''font/woff''), (''.woff2'', ''font/woff2''), (''.ttf'', ''font/ttf''),
        (''.ico'', ''image/x-icon'')] ext of
        Some m \<Rightarrow> m
      | None \<Rightarrow> ''application/octet-stream'')"

definition getSharedPreviewFile ::
    "preview_blocks \<Rightarrow> string \<Rightarrow> int \<Rightarrow> bool \<Rightarrow> string \<Rightarrow> string \<Rightarrow> preview_state \<Rightarrow> share_store \<Rightarrow> preview_reply" where
  "getSharedPreviewFile blocks cwd now writeOk token path st store =
     (case fst (getShareToken now writeOk token store) of
        None \<Rightarrow> Refused 404 ''Share link not found or expired.''
      | Some entry \<Rightarrow>
          let filePath = str_or path (entryFile entry);
              outputBase = path_resolve cwd [outputPath entry];
              fullPath = path_resolve cwd [outputBase, filePath]
          in if \<not> starts_with (outputBase @ [slash]) fullPath \<and> fullPath \<noteq> outputBase
             then Refused 403 ''Access denied''
             else case look_up (dir_at st outputBase) outputBase fullPath of
                 Found_file content \<Rightarrow>
                   let ext = to_lower (extname filePath); page = (ext \<in> set [''.html'', ''.htm''])
                   in Page (if page then injectLatestPreTeXtLayoutFix blocks content else content)
                        (shared_mime ext) (if page then ''no-store'' else ''public, max-age=300'')
               | _ \<Rightarrow> Refused 404 ''File not found'')"

text \<open>What a build does for the preview at its end: nothing after an edit.\<close>

definition preview_after_build ::
    "preview_blocks \<Rightarrow> string \<Rightarrow> string \<Rightarrow> bool \<Rightarrow> bool \<Rightarrow> preview_session \<Rightarrow> preview_state \<Rightarrow> preview_session \<times> preview_state" where
  "preview_after_build blocks dataRoot sid success hasLocalEdits b st =
     (if success \<and> \<not> hasLocalEdits
      then (b\<lparr>ps_previewPath := bundle_root dataRoot sid\<rparr>,
            syncPreviewBundle blocks dataRoot sid (ps_outputPath b) (Some (ps_repoPath b)) st)
      else (b, st))"

section \<open>What a bundle holds\<close>

lemma mirrorTree_get:
  assumes "keys_distinct source"
  shows "map_get (mirrorTree blocks sid pre keep source bnd) path =
    (if starts_with pre path \<and> map_has source (drop (length pre) path) \<and> \<not> (keep \<and> map_has bnd path)
     then map_option (mirrored blocks sid (drop (length pre) path)) (map_get source (drop (length pre) path))
     else map_get bnd path)"
  using assms
proof (induction source arbitrary: bnd)
  case Nil
  then show ?case by (simp add: mirrorTree_def map_has_def)
next
  case (Cons x source)
  obtain rel raw where x: "x = (rel, raw)" by force
  let ?b = "if keep \<and> map_has bnd (pre @ rel) then bnd
            else map_set (pre @ rel) (mirrored blocks sid rel raw) bnd"
  have d: "keys_distinct source" "map_get source rel = None" using Cons.prems x by (auto simp: map_of_eq_None_iff)
  have step: "mirrorTree blocks sid pre keep (x # source) bnd = mirrorTree blocks sid pre keep source ?b"
    by (simp add: mirrorTree_def x)
  have eq: "pre @ rel = path \<longleftrightarrow> starts_with pre path \<and> drop (length pre) path = rel"
    by (metis append_eq_conv_conj append_take_drop_id prefixI prefix_def)
  define b where "b = ?b"
  have e: "map_get (mirrorTree blocks sid pre keep (x # source) bnd) path =
    (if starts_with pre path \<and> map_has source (drop (length pre) path) \<and> \<not> (keep \<and> map_has b path)
     then map_option (mirrored blocks sid (drop (length pre) path)) (map_get source (drop (length pre) path))
     else map_get b path)"
    by (simp only: step b_def [symmetric] Cons.IH [OF d(1)])
  show ?case
  proof (cases "pre @ rel = path")
    case True
    then have p: "drop (length pre) path = rel" "starts_with pre path" using eq by auto
    have "map_get b path = (if keep \<and> map_has bnd path then map_get bnd path else Some (mirrored blocks sid rel raw))"
      using True by (simp add: b_def)
    then show ?thesis unfolding e using d(2) p by (simp add: map_has_def x)
  next
    case False
    then have "map_get b path = map_get bnd path" by (simp add: b_def)
    moreover have "starts_with pre path \<Longrightarrow> map_get (x # source) (drop (length pre) path) = map_get source (drop (length pre) path)"
      using False eq x by auto
    ultimately show ?thesis unfolding e by (cases "starts_with pre path") (simp_all add: map_has_def del: map_of.simps)
  qed
qed

lemma subtree_get: "map_get (subtree dir t) rel = map_get t (dir @ slash # rel)"
proof (induction t)
  case (Cons x t)
  obtain p c where x: "x = (p, c)" by force
  have "starts_with (dir @ [slash]) p \<Longrightarrow> drop (Suc (length dir)) p = rel \<longleftrightarrow> p = dir @ slash # rel"
    by (auto simp: prefix_def)
  moreover have "p = dir @ slash # rel \<Longrightarrow> starts_with (dir @ [slash]) p" by (auto simp: prefix_def)
  ultimately show ?case
    using Cons x by (cases "starts_with (dir @ [slash]) p") (auto simp: subtree_def simp del: map_of_eq_Some_iff)
qed (simp add: subtree_def)

lemma subtree_distinct: "keys_distinct t \<Longrightarrow> keys_distinct (subtree dir t)"
proof -
  assume t: "keys_distinct t"
  let ?f = "filter (\<lambda>(p, c). starts_with (dir @ [slash]) p) t"
  have "map fst (subtree dir t) = map (drop (Suc (length dir))) (map fst ?f)" by (auto simp: subtree_def)
  moreover have "inj_on (drop (Suc (length dir))) (set (map fst ?f))"
    by (auto simp: inj_on_def prefix_def)
  moreover have "distinct (map fst ?f)" using t by (rule keys_distinct_filter)
  ultimately show ?thesis by (simp only: distinct_map)
qed

lemma repo_dirs_get:
  assumes "keys_distinct repo" and "list_all (\<lambda>d. slash \<notin> set d) dirs" and "distinct dirs"
  shows "map_get (fold (\<lambda>dir b. mirrorTree blocks sid (dir @ [slash]) True (subtree dir repo) b) dirs bnd) path =
    (case map_get bnd path of
       Some c \<Rightarrow> Some c
     | None \<Rightarrow> if slash \<in> set path \<and> front path \<in> set dirs
               then map_option (mirrored blocks sid (beyond path)) (map_get repo path) else None)"
  using assms(2,3)
proof (induction dirs arbitrary: bnd)
  case Nil
  then show ?case by (simp split: option.split)
next
  case (Cons d dirs)
  let ?b = "mirrorTree blocks sid (d @ [slash]) True (subtree d repo) bnd"
  have g: "map_get ?b path =
    (if starts_with (d @ [slash]) path \<and> map_get repo path \<noteq> None \<and> map_get bnd path = None
     then map_option (mirrored blocks sid (beyond path)) (map_get repo path) else map_get bnd path)"
  proof (cases "starts_with (d @ [slash]) path")
    case True
    then obtain r where r: "path = d @ slash # r" by (auto simp: prefix_def)
    then have "beyond path = r" using front_append [of d r] Cons.prems by simp
    then show ?thesis
      using mirrorTree_get [OF subtree_distinct [OF assms(1)], of blocks sid "d @ [slash]" True d bnd path] r
      by (auto simp: subtree_get map_has_def)
  next
    case False
    then show ?thesis
      using mirrorTree_get [OF subtree_distinct [OF assms(1)], of blocks sid "d @ [slash]" True d bnd path]
      by auto
  qed
  have "starts_with (d @ [slash]) path \<longleftrightarrow> slash \<in> set path \<and> front path = d"
    using starts_with_front Cons.prems by simp
  then show ?case using Cons g by (auto split: option.split)
qed

text \<open>
  A bundle holds each file of the output, transformed, and besides only what the repository has in one of the
  directories that are mirrored and the output does not have; such a file is transformed by its path below that
  directory.
\<close>

theorem bundle_exact:
  assumes "keys_distinct output" and "keys_distinct repo"
  shows "map_get (bundle_of blocks sid output (Some repo)) path =
    (case map_get output path of
       Some raw \<Rightarrow> Some (mirrored blocks sid path raw)
     | None \<Rightarrow> if slash \<in> set path \<and> front path \<in> set PREVIEW_REPO_MIRROR_DIRS
               then map_option (mirrored blocks sid (beyond path)) (map_get repo path) else None)"
proof -
  have "list_all (\<lambda>d. slash \<notin> set d) PREVIEW_REPO_MIRROR_DIRS" "distinct PREVIEW_REPO_MIRROR_DIRS"
    by (simp_all add: PREVIEW_REPO_MIRROR_DIRS_def PREVIEW_SHARED_ROOT_DIRS_def)
  note repo_dirs_get [OF assms(2) this, of blocks sid "mirrorTree blocks sid [] False output []" path]
  then show ?thesis using mirrorTree_get [OF assms(1), of blocks sid "[]" False "[]" path]
    by (auto simp: bundle_of_def Let_def mirrorSelectedRepoDirs_def map_has_def split: option.split)
qed

definition plain_blocks :: preview_blocks where
  "plain_blocks = \<lparr>pb_layoutFix = ''<style></style>'', pb_mathBoxFixes = [], pb_fallback = [], pb_structureStyle = []\<rparr>"

theorem bundle_exact_witness:
  "map_get (bundle_of plain_blocks ''0a1b'' [(''css/a.css'', ''url(/x.png)'')]
     (Some [(''css/a.css'', ''old''), (''css/b.css'', ''url(/y.png)''), (''secret.txt'', ''s'')])) ''css/b.css''
   = Some ''url(/preview/0a1b/y.png)''"
proof -
  have m: "mirrored plain_blocks ''0a1b'' ''b.css'' ''url(/y.png)'' = ''url(/preview/0a1b/y.png)''" by code_simp
  show ?thesis
    using bundle_exact [of "[(''css/a.css'', ''url(/x.png)'')]"
        "[(''css/a.css'', ''old''), (''css/b.css'', ''url(/y.png)''), (''secret.txt'', ''s'')]" plain_blocks "''0a1b''" "''css/b.css''"] m
    by (simp add: PREVIEW_REPO_MIRROR_DIRS_def)
qed

section \<open>Who gets a page\<close>

text \<open>The login session behind a request, and what it may see: the builds it started, by login or by token.\<close>

definition may_preview :: "auth_session \<Rightarrow> preview_session \<Rightarrow> bool" where
  "may_preview s b =
     ((creatorLogin (ps_owner b) \<noteq> [] \<and> get_prop (session_user s) ''login'' = JStr (creatorLogin (ps_owner b)))
      \<or> (accessToken s \<noteq> [] \<and> build_token (ps_owner b) = accessToken s))"

definition bundle_there :: "string \<Rightarrow> string \<Rightarrow> preview_session \<Rightarrow> preview_state \<Rightarrow> bool" where
  "bundle_there dataRoot sid b st =
     (if ps_previewPath b = [] then map_has (pv_dirs st) (bundle_root dataRoot sid) else True)"

definition sent_page :: "preview_blocks \<Rightarrow> (string \<Rightarrow> string) \<Rightarrow> string \<Rightarrow> string \<Rightarrow> string" where
  "sent_page blocks version path raw =
     (if to_lower (extname path) = ''.html'' \<or> to_lower (extname path) = ''.htm''
      then injectLatestPreTeXtLayoutFix blocks (version raw) else raw)"

lemma access_passed:
  "requirePreviewAccess now req store builds sid = None \<longleftrightarrow>
     assertValidSessionId sid \<and>
     (case (live_session now req store, builds sid) of
        (Some s, Some b) \<Rightarrow> truthy (get_prop (session_user s) ''login'') \<and> may_preview s b
      | _ \<Rightarrow> False)"
proof (cases "getSessionFromRequest now (hdr_cookie req) store")
  case None
  then have "live_session now req store = None"
    by (auto simp: getSessionFromRequest_def live_session_def split: option.splits if_splits prod.splits)
  then show ?thesis using None by (simp add: requirePreviewAccess_def)
next
  case (Some p)
  obtain r st' where p: "p = (r, st')" by force
  have r: "r = map_option (\<lambda>s. s\<lparr>updatedAt := now\<rparr>) (live_session now req store)"
    using session_from_request Some p by blast
  show ?thesis
  proof (cases "live_session now req store")
    case None
    then show ?thesis using Some p r by (simp add: requirePreviewAccess_def)
  next
    case (Some s)
    have "canAccessBuildSession (ps_owner b) (req\<lparr>req_authSession := Some (s\<lparr>updatedAt := now\<rparr>), req_accessToken := accessToken s\<rparr>)
      \<longleftrightarrow> (creatorLogin (ps_owner b) \<noteq> [] \<and> truthy (get_prop (session_user s) ''login'')
            \<and> get_prop (session_user s) ''login'' = JStr (creatorLogin (ps_owner b)))
          \<or> (accessToken s \<noteq> [] \<and> build_token (ps_owner b) = accessToken s)" for b
      by (auto simp: canAccessBuildSession_def session_login_def tokensMatch_iff)
    then show ?thesis
      using Some \<open>getSessionFromRequest now (hdr_cookie req) store = Some p\<close> p r
      by (auto simp: requirePreviewAccess_def may_preview_def split: option.split)
  qed
qed

lemma page_found:
  "(\<exists>m h. serve_preview blocks version cwd root path st = Page body m h) \<longleftrightarrow>
   (\<exists>rel raw. path_resolve cwd [root, path] = root @ slash # rel \<and> map_get (dir_at st root) rel = Some raw
      \<and> body = sent_page blocks version path raw)"
proof -
  let ?full = "path_resolve cwd [root, path]"
  have rel: "starts_with (root @ [slash]) ?full \<longleftrightarrow> (\<exists>rel. ?full = root @ slash # rel)"
    by (auto simp: prefix_def)
  show ?thesis
  proof (cases "\<exists>rel. ?full = root @ slash # rel")
    case True
    then obtain rel where r: "?full = root @ slash # rel" ..
    then have "look_up (dir_at st root) root ?full =
        (case map_get (dir_at st root) rel of Some c \<Rightarrow> Found_file c
         | None \<Rightarrow> if list_ex (\<lambda>(p, c). starts_with (rel @ [slash]) p) (dir_at st root) then Found_dir else Missing)"
      by (simp add: look_up_def relative_below_def)
    then show ?thesis using r
      by (auto simp: serve_preview_def Let_def sent_page_def split: option.split)
  next
    case False
    then show ?thesis using rel by (auto simp: serve_preview_def Let_def look_up_def)
  qed
qed

text \<open>
  Claim C24. A preview page is sent exactly when the request carries a live login session whose login started the build, or
  whose token did, the bundle is there, and the path leads to a file below the root of the bundle; and what is
  sent is that file, a page with the current layout block. Nothing below another directory and nobody else's
  build is ever sent.
\<close>

theorem preview_reached:
  "(\<exists>m h. get_preview blocks version dataRoot cwd now req store builds sid path st = Some (Page body m h)) \<longleftrightarrow>
   assertValidSessionId sid \<and>
   (\<exists>s b rel raw. live_session now req store = Some s \<and> truthy (get_prop (session_user s) ''login'')
      \<and> builds sid = Some b \<and> may_preview s b \<and> bundle_there dataRoot sid b st
      \<and> path_resolve cwd [preview_root_of dataRoot cwd sid b, str_or path ''overview.html'']
        = preview_root_of dataRoot cwd sid b @ slash # rel
      \<and> map_get (dir_at st (preview_root_of dataRoot cwd sid b)) rel = Some raw
      \<and> body = sent_page blocks version (str_or path ''overview.html'') raw)"
proof (cases "requirePreviewAccess now req store builds sid")
  case (Some r)
  then have "\<nexists>m h. r = Page body m h"
    by (auto simp: requirePreviewAccess_def split: if_splits option.splits prod.splits)
  moreover have "\<not> (assertValidSessionId sid \<and> (case (live_session now req store, builds sid) of
        (Some s, Some b) \<Rightarrow> truthy (get_prop (session_user s) ''login'') \<and> may_preview s b | _ \<Rightarrow> False))"
    using Some access_passed [of now req store builds sid] by simp
  ultimately show ?thesis using Some by (auto simp: get_preview_def)
next
  case None
  then obtain s b where sb: "live_session now req store = Some s" "builds sid = Some b" "assertValidSessionId sid"
    "truthy (get_prop (session_user s) ''login'')" "may_preview s b"
    using access_passed [of now req store builds sid] by (auto split: option.splits)
  have "fst (ensurePreviewBundle dataRoot sid st) = Ready \<longleftrightarrow> map_has (pv_dirs st) (bundle_root dataRoot sid)"
    by (simp add: ensurePreviewBundle_def)
  then have "get_preview blocks version dataRoot cwd now req store builds sid path st
    = (if bundle_there dataRoot sid b st
       then Some (serve_preview blocks version cwd (preview_root_of dataRoot cwd sid b) (str_or path ''overview.html'') st) else None)"
    using None sb by (simp add: get_preview_def bundle_there_def)
  then show ?thesis
    using sb page_found [of blocks version cwd "preview_root_of dataRoot cwd sid b" "str_or path ''overview.html''" st body]
    by auto
qed

text \<open>A shared link sends what lies below the output directory it was made for, while it is live.\<close>

lemma shared_page_found:
  "(\<exists>m h. getSharedPreviewFile blocks cwd now w token path st store = Page body m h) \<longrightarrow>
   (\<exists>e rel raw. fst (getShareToken now w token store) = Some e
      \<and> path_resolve cwd [path_resolve cwd [outputPath e], str_or path (entryFile e)]
        = path_resolve cwd [outputPath e] @ slash # rel
      \<and> map_get (dir_at st (path_resolve cwd [outputPath e])) rel = Some raw)"
proof
  assume "\<exists>m h. getSharedPreviewFile blocks cwd now w token path st store = Page body m h"
  then obtain m h where g: "getSharedPreviewFile blocks cwd now w token path st store = Page body m h" by blast
  then obtain e where e: "fst (getShareToken now w token store) = Some e"
    by (auto simp: getSharedPreviewFile_def split: option.splits)
  let ?base = "path_resolve cwd [outputPath e]"
  let ?full = "path_resolve cwd [?base, str_or path (entryFile e)]"
  obtain c where c: "starts_with (?base @ [slash]) ?full \<or> ?full = ?base" "look_up (dir_at st ?base) ?base ?full = Found_file c"
    using g e by (auto simp: getSharedPreviewFile_def Let_def split: if_splits found.splits)
  then have "?full \<noteq> ?base" by (auto simp: look_up_def)
  then obtain rel where "?full = ?base @ slash # rel" using c(1) by (auto simp: prefix_def)
  then show "\<exists>e rel raw. fst (getShareToken now w token store) = Some e
      \<and> path_resolve cwd [path_resolve cwd [outputPath e], str_or path (entryFile e)]
        = path_resolve cwd [outputPath e] @ slash # rel
      \<and> map_get (dir_at st (path_resolve cwd [outputPath e])) rel = Some raw"
    using e c(2) by (auto simp: look_up_def relative_below_def split: option.splits if_splits)
qed

section \<open>Where the code does not do what it says\<close>

definition demo_session :: preview_session where
  "demo_session = \<lparr>ps_owner = \<lparr>creatorLogin = ''ada'', build_token = []\<rparr>, ps_outputPath = ''/d/o'', ps_repoPath = ''/d/r'',
     ps_previewPath = []\<rparr>"

text \<open>The build that follows an edit leaves the preview as it was before the edit.\<close>

lemma edit_not_previewed:
  "(case preview_after_build plain_blocks ''/d'' ''0a1b'' True False demo_session
          \<lparr>pv_dirs = [(''/d/o'', [(''a.txt'', ''old'')]), (''/d/r'', [])], pv_inFlight = []\<rparr> of
      (b, st) \<Rightarrow>
        (case preview_after_build plain_blocks ''/d'' ''0a1b'' True True b
                (st\<lparr>pv_dirs := map_set ''/d/o'' [(''a.txt'', ''new'')] (pv_dirs st)\<rparr>) of
           (b', st') \<Rightarrow> serve_preview plain_blocks id ''/'' (ps_previewPath b') ''a.txt'' st'))
   = Page ''old'' ''text/plain'' ''public, max-age=60''"
  by code_simp

text \<open>While a bundle is being made its directory is there already: the next request does not wait and finds nothing.\<close>

lemma second_request_not_found:
  "(case ensurePreviewBundle ''/d'' ''0a1b'' \<lparr>pv_dirs = [(''/d/o'', [(''a.txt'', ''x'')])], pv_inFlight = []\<rparr> of
      (r, st) \<Rightarrow>
        (let st' = sync_begin ''/d'' ''0a1b'' st
         in (r, fst (ensurePreviewBundle ''/d'' ''0a1b'' st'),
             serve_preview plain_blocks id ''/'' (bundle_root ''/d'' ''0a1b'') ''a.txt'' st')))
   = (Begins, Ready, Refused 404 ''Preview file not found'')"
  by code_simp

text \<open>
  A knowl or a site style sheet that comes from the repository is transformed by its path below its directory, so its
  relative addresses stay as they are.
\<close>

lemma repo_css_not_rewritten:
  "map_get (bundle_of plain_blocks ''0a1b'' [] (Some [(''css/a.css'', ''url(images/x.png)'')])) ''css/a.css'' = Some ''url(images/x.png)''
   \<and> map_get (bundle_of plain_blocks ''0a1b'' [(''css/a.css'', ''url(images/x.png)'')] None) ''css/a.css''
     = Some ''url(/preview/0a1b/images/x.png)''"
  by code_simp

text \<open>A request for a directory of the bundle is never answered.\<close>

lemma directory_unanswered:
  "serve_preview plain_blocks id ''/'' ''/d/p'' ''css'' \<lparr>pv_dirs = [(''/d/p'', [(''css/a.css'', ''x'')])], pv_inFlight = []\<rparr> = Unanswered"
  by code_simp

end
