(* ===== verification/BuildLogs.thy ===== *)
theory BuildLogs imports Prelude begin

text \<open>
  The logs of builds in \<^verbatim>\<open>backend/src/services/buildExecutor.ts\<close>: the output of the
  build's process cut into lines, the buffer of the last 2000 of them, and the clients that follow it, with
  \<^verbatim>\<open>backend/src/utils/buildDiagnostics.ts\<close> for the advice that a failed build gets. Events sent to
  clients are recorded in the order they are sent. Without Redis a client follows the buffer; with Redis it follows a
  list and a channel, in the steps of \<^verbatim>\<open>setupRedisSub\<close>.
\<close>

section \<open>Lines\<close>

definition carriage_return :: char where "carriage_return = CHR 0x0D"
definition escape_char :: char where "escape_char = CHR 0x1B"

definition ansi_finals :: string where "ansi_finals = ''mGKHFABCDEJIiRSTnhlLMPXZ''"

text \<open>What follows an escape sequence at the start of a text, if there is one.\<close>

definition after_ansi :: "string \<Rightarrow> string option" where
  "after_ansi s =
     (case s of
        e # b # rest \<Rightarrow>
          if e = escape_char \<and> b = CHR ''['' then
            (case dropWhile (\<lambda>c. is_digit c \<or> c = CHR '';'') rest of
               [] \<Rightarrow> None
             | f # more \<Rightarrow> if f \<in> set ansi_finals then Some more else None)
          else None
      | _ \<Rightarrow> None)"

lemma after_ansi_shorter: "after_ansi s = Some t \<Longrightarrow> length t < length s"
proof -
  assume a: "after_ansi s = Some t"
  then obtain e b rest where s: "s = e # b # rest" by (auto simp: after_ansi_def split: list.splits)
  let ?P = "\<lambda>c. is_digit c \<or> c = CHR '';''"
  from a s have "Suc (length t) = length (dropWhile ?P rest)" by (auto simp: after_ansi_def split: list.splits if_splits)
  then show ?thesis using s length_dropWhile_le [of ?P rest] by simp
qed

function remove_ansi :: "string \<Rightarrow> string" where
  "remove_ansi s =
     (case after_ansi s of
        Some more \<Rightarrow> remove_ansi more
      | None \<Rightarrow> (case s of [] \<Rightarrow> [] | c # cs \<Rightarrow> c # remove_ansi cs))"
  by pat_completeness auto
termination by (relation "measure length") (auto dest: after_ansi_shorter)

declare remove_ansi.simps [simp del]

definition stripAnsi :: "string \<Rightarrow> string" where
  "stripAnsi s = remove_ansi (last (split_on carriage_return s))"

datatype log_stream = Stdout | Stderr

record log_line =
  ll_line :: string
  ll_stream :: log_stream

text \<open>The record of a raw line, unless nothing of it is left.\<close>

definition log_record :: "string \<Rightarrow> log_stream \<Rightarrow> log_line option" where
  "log_record rawLine stream =
     (let line = trim_end (stripAnsi rawLine) in if line = [] then None else Some \<lparr>ll_line = line, ll_stream = stream\<rparr>)"

section \<open>Diagnostics\<close>

record diagnostic =
  di_code :: string
  di_advice :: string

definition classifyBuildFailure :: "string \<Rightarrow> diagnostic" where
  "classifyBuildFailure message =
     (let lower = to_lower message; has = str_includes lower
      in if has ''docker'' \<or> has ''builder image'' then
           \<lparr>di_code = ''docker_unavailable'',
            di_advice = ''Start Docker Desktop and retry the build so the textbook preview can be generated again.''\<rparr>
         else if has ''invalid or expired token'' \<or> has ''bad credentials'' \<or> has ''clone failed'' then
           \<lparr>di_code = ''github_access_failed'',
            di_advice = ''Refresh the GitHub session and confirm this account can read the repository you selected.''\<rparr>
         else if has ''xml'' \<or> has ''parsererror'' \<or> has ''scons'' \<or> has ''traceback'' then
           \<lparr>di_code = ''course_source_invalid'',
            di_advice = ''Check the recent XML or PreTeXt edits first. A broken tag, missing include, invalid LaTeX command, or failing build script is stopping the rendered output.''\<rparr>
         else if has ''undefined control sequence'' \<or> has ''latex error'' then
           \<lparr>di_code = ''latex_source_invalid'',
            di_advice = ''A LaTeX command in the source is not supported or is misspelled. Review the math near the first reported line and retry the build.''\<rparr>
         else if has ''no such file or directory'' \<or> has ''cannot open'' then
           \<lparr>di_code = ''missing_asset'',
            di_advice = ''A referenced file could not be found. Check image names, includes, and paths that were edited recently.''\<rparr>
         else
           \<lparr>di_code = ''build_failed'',
            di_advice = ''Review the build log and retry after fixing the most recent source change.''\<rparr>)"

record failure_payload =
  fp_error :: string
  fp_details :: string
  fp_diagnostic :: diagnostic

definition buildFailurePayload :: "string \<Rightarrow> string \<Rightarrow> failure_payload" where
  "buildFailurePayload message details =
     \<lparr>fp_error = str_or message ''Build failed'', fp_details = details,
      fp_diagnostic = classifyBuildFailure (message @ [newline] @ details)\<rparr>"

section \<open>The local log\<close>

text \<open>
  The result of a build as far as its log uses it; empty strings stand for missing fields. A row is what is
  stored in the table of build logs.
\<close>

record build_outcome =
  bo_success :: bool
  bo_error :: string
  bo_stdout :: string
  bo_stderr :: string
  bo_code :: string
  bo_advice :: string

record log_entry =
  le_lines :: "log_line list"
  le_subscribers :: "nat list"
  le_done :: bool
  le_result :: "build_outcome option"

datatype log_event = Line_event log_line | Done_event "build_outcome option"

record log_row =
  lr_session :: string
  lr_success :: bool
  lr_stdout :: string
  lr_stderr :: string

record log_state =
  lg_logs :: "(string, log_entry) jsmap"
  lg_sent :: "(nat \<times> log_event) list"
  lg_rows :: "log_row list"

definition empty_log :: log_entry where
  "empty_log = \<lparr>le_lines = [], le_subscribers = [], le_done = False, le_result = None\<rparr>"

definition initLog :: "string \<Rightarrow> log_state \<Rightarrow> log_state" where
  "initLog sid st = (if map_has (lg_logs st) sid then st else st\<lparr>lg_logs := map_set sid empty_log (lg_logs st)\<rparr>)"

definition MAX_LOG_LINES :: nat where "MAX_LOG_LINES = 2000"

text \<open>\<^verbatim>\<open>lines.push\<close>, then \<^verbatim>\<open>lines.shift\<close> when there are more than 2000.\<close>

definition push_line :: "log_line \<Rightarrow> log_line list \<Rightarrow> log_line list" where
  "push_line r ls = (let ls' = ls @ [r] in if length ls' > MAX_LOG_LINES then tl ls' else ls')"

definition appendLog :: "string \<Rightarrow> string \<Rightarrow> log_stream \<Rightarrow> log_state \<Rightarrow> log_state" where
  "appendLog sid rawLine stream st =
     (case log_record rawLine stream of
        None \<Rightarrow> st
      | Some r \<Rightarrow>
          (case map_get (lg_logs st) sid of
             None \<Rightarrow> st
           | Some e \<Rightarrow>
               st\<lparr>lg_logs := map_set sid (e\<lparr>le_lines := push_line r (le_lines e)\<rparr>) (lg_logs st),
                  lg_sent := lg_sent st @ map (\<lambda>c. (c, Line_event r)) (le_subscribers e)\<rparr>))"

text \<open>\<open>building\<close>: a promise of a build is registered for the session.\<close>

definition startLog :: "bool \<Rightarrow> string \<Rightarrow> log_state \<Rightarrow> log_state" where
  "startLog building sid st =
     (if building then st
      else case map_get (lg_logs st) sid of
          None \<Rightarrow> st\<lparr>lg_logs := map_set sid empty_log (lg_logs st)\<rparr>
        | Some e \<Rightarrow>
            if \<not> le_done e \<and> le_subscribers e \<noteq> [] then st
            else st\<lparr>lg_logs := map_set sid (empty_log\<lparr>le_subscribers := le_subscribers e\<rparr>) (lg_logs st)\<rparr>)"

definition stream_text :: "log_stream \<Rightarrow> log_line list \<Rightarrow> string" where
  "stream_text s ls = join [newline] (map ll_line (filter (\<lambda>l. ll_stream l = s) ls))"

definition advised :: "log_line list \<Rightarrow> build_outcome \<Rightarrow> build_outcome" where
  "advised ls r =
     (if \<not> bo_success r \<and> bo_advice r = []
      then let d = classifyBuildFailure (join [newline]
                 (filter (\<lambda>s. s \<noteq> []) [bo_error r, bo_stderr r, stream_text Stderr ls, bo_stdout r, stream_text Stdout ls]))
           in r\<lparr>bo_code := str_or (bo_code r) (di_code d), bo_advice := di_advice d\<rparr>
      else r)"

definition finishLog :: "string \<Rightarrow> build_outcome \<Rightarrow> log_state \<Rightarrow> build_outcome \<times> log_state" where
  "finishLog sid r0 st =
     (let entry = map_get (lg_logs st) sid;
          ls = (case entry of None \<Rightarrow> [] | Some e \<Rightarrow> le_lines e);
          r = advised ls r0;
          st1 = (case entry of
                   None \<Rightarrow> st
                 | Some e \<Rightarrow>
                     st\<lparr>lg_logs := map_set sid (e\<lparr>le_done := True, le_result := Some r, le_subscribers := []\<rparr>) (lg_logs st),
                        lg_sent := lg_sent st @ map (\<lambda>c. (c, Done_event (Some r))) (le_subscribers e)\<rparr>)
      in (r, st1\<lparr>lg_rows := lg_rows st1 @ [\<lparr>lr_session = sid, lr_success = bo_success r,
             lr_stdout = stream_text Stdout ls, lr_stderr = stream_text Stderr ls\<rparr>]\<rparr>))"

definition isBuildLogOpen :: "string \<Rightarrow> log_state \<Rightarrow> bool" where
  "isBuildLogOpen sid st = (case map_get (lg_logs st) sid of None \<Rightarrow> False | Some e \<Rightarrow> \<not> le_done e)"

definition getFinishedBuildLog :: "string \<Rightarrow> log_state \<Rightarrow> (string \<times> build_outcome option) option" where
  "getFinishedBuildLog sid st =
     (case map_get (lg_logs st) sid of
        None \<Rightarrow> None
      | Some e \<Rightarrow> if le_done e then Some (join [newline] (map ll_line (le_lines e)), le_result e) else None)"

text \<open>A client is the function it passes, so every call is a new client.\<close>

definition subscribeToLogs :: "string \<Rightarrow> nat \<Rightarrow> log_state \<Rightarrow> log_state" where
  "subscribeToLogs sid c st0 =
     (let st = initLog sid st0
      in case map_get (lg_logs st) sid of
           None \<Rightarrow> st
         | Some e \<Rightarrow>
             let st1 = st\<lparr>lg_sent := lg_sent st @ map (\<lambda>r. (c, Line_event r)) (le_lines e)\<rparr>
             in if le_done e then st1\<lparr>lg_sent := lg_sent st1 @ [(c, Done_event (le_result e))]\<rparr>
                else st1\<lparr>lg_logs := map_set sid (e\<lparr>le_subscribers := le_subscribers e @ [c]\<rparr>) (lg_logs st1)\<rparr>)"

definition unsubscribe :: "string \<Rightarrow> nat \<Rightarrow> log_state \<Rightarrow> log_state" where
  "unsubscribe sid c st =
     (case map_get (lg_logs st) sid of
        None \<Rightarrow> st
      | Some e \<Rightarrow> st\<lparr>lg_logs := map_set sid (e\<lparr>le_subscribers := removeAll c (le_subscribers e)\<rparr>) (lg_logs st)\<rparr>)"

datatype log_op =
    Init string
  | Append string string log_stream
  | Start bool string
  | Finish string build_outcome
  | Subscribe string nat
  | Unsubscribe string nat

fun log_step :: "log_op \<Rightarrow> log_state \<Rightarrow> log_state" where
  "log_step (Init sid) st = initLog sid st"
| "log_step (Append sid raw s) st = appendLog sid raw s st"
| "log_step (Start building sid) st = startLog building sid st"
| "log_step (Finish sid r) st = snd (finishLog sid r st)"
| "log_step (Subscribe sid c) st = subscribeToLogs sid c st"
| "log_step (Unsubscribe sid c) st = unsubscribe sid c st"

definition log_run :: "log_op list \<Rightarrow> log_state \<Rightarrow> log_state" where
  "log_run ops st = fold log_step ops st"

definition no_logs :: log_state where "no_logs = \<lparr>lg_logs = [], lg_sent = [], lg_rows = []\<rparr>"

section \<open>The output of a process\<close>

text \<open>
  \<open>pp_out\<close> and \<open>pp_err\<close> are the pieces of a line that have arrived; the lines that are complete
  go to the log.
\<close>

record pipes =
  pp_out :: string
  pp_err :: string

definition pending :: "log_stream \<Rightarrow> pipes \<Rightarrow> string" where
  "pending s p = (case s of Stdout \<Rightarrow> pp_out p | Stderr \<Rightarrow> pp_err p)"

definition set_pending :: "log_stream \<Rightarrow> string \<Rightarrow> pipes \<Rightarrow> pipes" where
  "set_pending s t p = (case s of Stdout \<Rightarrow> p\<lparr>pp_out := t\<rparr> | Stderr \<Rightarrow> p\<lparr>pp_err := t\<rparr>)"

text \<open>The loop that cuts complete lines off a buffer: the lines, and what is left.\<close>

function cut_lines :: "string \<Rightarrow> string list \<times> string" where
  "cut_lines buf =
     (case index_of [newline] buf of
        None \<Rightarrow> ([], buf)
      | Some idx \<Rightarrow> (case cut_lines (drop (idx + 1) buf) of (ls, rest) \<Rightarrow> (take idx buf # ls, rest)))"
  by pat_completeness auto
termination
proof (relation "measure length")
  fix buf :: string and idx
  assume "index_of [newline] buf = Some idx"
  then have "buf \<noteq> []" by (cases buf) auto
  then show "(drop (idx + 1) buf, buf) \<in> measure length" by simp
qed simp

declare cut_lines.simps [simp del]

definition flushLines :: "string \<Rightarrow> log_stream \<Rightarrow> string \<Rightarrow> pipes \<times> log_state \<Rightarrow> pipes \<times> log_state" where
  "flushLines sid s data ps =
     (case ps of
        (p, st) \<Rightarrow>
          (case cut_lines (pending s p @ data) of
             (ls, rest) \<Rightarrow> (set_pending s rest p, fold (\<lambda>l. appendLog sid l s) ls st)))"

definition closePipes :: "string \<Rightarrow> pipes \<times> log_state \<Rightarrow> log_state" where
  "closePipes sid ps =
     (case ps of
        (p, st) \<Rightarrow>
          let st1 = (if pp_out p \<noteq> [] then appendLog sid (pp_out p) Stdout st else st)
          in if pp_err p \<noteq> [] then appendLog sid (pp_err p) Stderr st1 else st1)"

text \<open>A process whose chunks of output arrive in the given order.\<close>

definition run_process :: "string \<Rightarrow> (log_stream \<times> string) list \<Rightarrow> log_state \<Rightarrow> log_state" where
  "run_process sid chunks st =
     closePipes sid (fold (\<lambda>(s, data). flushLines sid s data) chunks (\<lparr>pp_out = [], pp_err = []\<rparr>, st))"

section \<open>With Redis\<close>

text \<open>
  The list of a running build, its final result, the clients of the channel, and the steps that are still to
  happen: of an append, the push to the list and the publication; of a finish, the result, the publication and the
  deletion of the list; of a client, the list it was sent and the look at the result.
\<close>

record shared_logs =
  sh_active :: "(string, log_line list) jsmap"
  sh_status :: "(string, build_outcome) jsmap"
  sh_clients :: "(string, nat list) jsmap"
  sh_sent :: "(nat \<times> log_event) list"
  sh_ended :: "nat list"

definition no_shared_logs :: shared_logs where
  "no_shared_logs = \<lparr>sh_active = [], sh_status = [], sh_clients = [], sh_sent = [], sh_ended = []\<rparr>"

definition list_or_empty :: "'a list option \<Rightarrow> 'a list" where
  "list_or_empty x = (case x of None \<Rightarrow> [] | Some xs \<Rightarrow> xs)"

definition publish :: "string \<Rightarrow> log_event \<Rightarrow> shared_logs \<Rightarrow> shared_logs" where
  "publish sid ev st =
     st\<lparr>sh_sent := sh_sent st @ map (\<lambda>c. (c, ev)) (list_or_empty (map_get (sh_clients st) sid))\<rparr>"

datatype shared_op =
    Sh_push string log_line
  | Sh_publish string log_event
  | Sh_status string build_outcome
  | Sh_drop string
  | Sh_reset string
  | Sh_catch_up string nat
  | Sh_check string nat
  | Sh_join string nat
  | Sh_leave string nat

fun shared_step :: "shared_op \<Rightarrow> shared_logs \<Rightarrow> shared_logs" where
  "shared_step (Sh_push sid r) st =
     st\<lparr>sh_active := map_set sid (list_or_empty (map_get (sh_active st) sid) @ [r]) (sh_active st)\<rparr>"
| "shared_step (Sh_publish sid ev) st = publish sid ev st"
| "shared_step (Sh_status sid r) st = st\<lparr>sh_status := map_set sid r (sh_status st)\<rparr>"
| "shared_step (Sh_drop sid) st = st\<lparr>sh_active := map_del sid (sh_active st)\<rparr>"
| "shared_step (Sh_reset sid) st =
     st\<lparr>sh_status := map_del sid (sh_status st), sh_active := map_del sid (sh_active st)\<rparr>"
| "shared_step (Sh_catch_up sid c) st =
     st\<lparr>sh_sent := sh_sent st @ map (\<lambda>r. (c, Line_event r)) (list_or_empty (map_get (sh_active st) sid))\<rparr>"
| "shared_step (Sh_check sid c) st =
     (case map_get (sh_status st) sid of
        None \<Rightarrow> st
      | Some r \<Rightarrow> st\<lparr>sh_sent := sh_sent st @ [(c, Done_event (Some r))], sh_ended := sh_ended st @ [c]\<rparr>)"
| "shared_step (Sh_join sid c) st =
     (if c \<in> set (sh_ended st) then st
      else st\<lparr>sh_clients := map_set sid (list_or_empty (map_get (sh_clients st) sid) @ [c]) (sh_clients st)\<rparr>)"
| "shared_step (Sh_leave sid c) st =
     (case map_get (sh_clients st) sid of
        None \<Rightarrow> st
      | Some cs \<Rightarrow>
          let cs' = removeAll c cs
          in st\<lparr>sh_clients := (if cs' = [] then map_del sid (sh_clients st) else map_set sid cs' (sh_clients st))\<rparr>)"

definition shared_run :: "shared_op list \<Rightarrow> shared_logs \<Rightarrow> shared_logs" where
  "shared_run ops st = fold shared_step ops st"

text \<open>
  The steps of one append, one finish and one client in the order in which the code takes them; other steps come in between.
\<close>

definition append_shared :: "string \<Rightarrow> log_line \<Rightarrow> shared_op list" where
  "append_shared sid r = [Sh_push sid r, Sh_publish sid (Line_event r)]"

definition finish_shared :: "string \<Rightarrow> build_outcome \<Rightarrow> shared_op list" where
  "finish_shared sid r = [Sh_status sid r, Sh_publish sid (Done_event (Some r)), Sh_drop sid]"

definition follow_shared :: "string \<Rightarrow> nat \<Rightarrow> shared_op list" where
  "follow_shared sid c = [Sh_catch_up sid c, Sh_check sid c, Sh_join sid c]"

section \<open>The lines of a process do not depend on its chunks\<close>

definition lastn :: "nat \<Rightarrow> 'a list \<Rightarrow> 'a list" where
  "lastn n xs = drop (length xs - n) xs"

lemma length_push_line: "length ls \<le> MAX_LOG_LINES \<Longrightarrow> length (push_line r ls) \<le> MAX_LOG_LINES"
  by (simp add: push_line_def Let_def)

lemma push_lines:
  "length ls \<le> MAX_LOG_LINES \<Longrightarrow> fold push_line rs ls = lastn MAX_LOG_LINES (ls @ rs)"
proof (induction rs arbitrary: ls)
  case (Cons r rs)
  have "lastn MAX_LOG_LINES (push_line r ls @ rs) = lastn MAX_LOG_LINES (ls @ r # rs)"
  proof (cases "length ls < MAX_LOG_LINES")
    case True
    then show ?thesis by (simp add: push_line_def Let_def)
  next
    case False
    then have "length ls = MAX_LOG_LINES" using Cons.prems by simp
    moreover have "ls \<noteq> []" using calculation by (auto simp: MAX_LOG_LINES_def)
    then obtain l ls' where "ls = l # ls'" by (cases ls) auto
    ultimately show ?thesis by (simp add: push_line_def Let_def lastn_def Suc_diff_le)
  qed
  then show ?case using Cons by (simp add: length_push_line)
qed (simp add: lastn_def)

definition opt_list :: "'a option \<Rightarrow> 'a list" where
  "opt_list x = (case x of None \<Rightarrow> [] | Some y \<Rightarrow> [y])"

definition records :: "log_stream \<Rightarrow> string list \<Rightarrow> log_line list" where
  "records s ls = concat (map (\<lambda>l. opt_list (log_record l s)) ls)"

lemma log_record_Nil [simp]: "log_record [] s = None"
  by (simp add: log_record_def stripAnsi_def remove_ansi.simps after_ansi_def trim_end_def)

lemma records_stream: "l \<in> set (records s ls) \<Longrightarrow> ll_stream l = s"
  by (auto simp: records_def opt_list_def log_record_def Let_def split: if_splits)

text \<open>Records that reach the log of a session: the buffer and every client get them in order.\<close>

definition deliver :: "string \<Rightarrow> log_line \<Rightarrow> log_state \<Rightarrow> log_state" where
  "deliver sid r st =
     (case map_get (lg_logs st) sid of
        None \<Rightarrow> st
      | Some e \<Rightarrow>
          st\<lparr>lg_logs := map_set sid (e\<lparr>le_lines := push_line r (le_lines e)\<rparr>) (lg_logs st),
             lg_sent := lg_sent st @ map (\<lambda>c. (c, Line_event r)) (le_subscribers e)\<rparr>)"

lemma append_deliver: "appendLog sid l s st = fold (deliver sid) (opt_list (log_record l s)) st"
  by (simp add: appendLog_def deliver_def opt_list_def split: option.split)

lemma appends_deliver: "fold (\<lambda>l. appendLog sid l s) ls st = fold (deliver sid) (records s ls) st"
  by (induction ls arbitrary: st) (simp_all add: append_deliver records_def)

lemma index_of_newline: "index_of [newline] buf = Some k \<Longrightarrow> newline \<notin> set (take k buf) \<and> drop k buf = newline # drop (Suc k) buf \<and> k < length buf"
proof (induction buf arbitrary: k)
  case (Cons c buf)
  then show ?case by (cases "c = newline") auto
qed simp

lemma index_of_newline_None: "index_of [newline] buf = None \<longleftrightarrow> newline \<notin> set buf"
  by (induction buf) auto

text \<open>The complete lines and the rest are the pieces between the line breaks.\<close>

lemma cut_lines_split: "cut_lines buf = (butlast (split_on newline buf), last (split_on newline buf))"
proof (induction buf rule: cut_lines.induct)
  case (1 buf)
  show ?case
  proof (cases "index_of [newline] buf")
    case None
    then have "newline \<notin> set buf" using index_of_newline_None by blast
    then show ?thesis using None by (subst cut_lines.simps) simp
  next
    case (Some k)
    have k: "newline \<notin> set (take k buf)" "buf = take k buf @ newline # drop (Suc k) buf"
      using index_of_newline [OF Some] append_take_drop_id [of k buf] by simp_all
    have "split_on newline buf = [take k buf] @ split_on newline (drop (Suc k) buf)"
      by (subst k(2), subst split_on_append) (simp add: k(1))
    then show ?thesis using Some "1.IH" [OF Some] by (subst cut_lines.simps) (simp split: prod.split)
  qed
qed

lemma split_rest:
  "split_on newline (a @ b) = butlast (split_on newline a) @ split_on newline (last (split_on newline a) @ b)"
proof (induction a)
  case (Cons c a)
  obtain w ws where w: "split_on newline a = w # ws" by (cases "split_on newline a") auto
  show ?case
  proof (cases "c = newline")
    case True
    then show ?thesis using Cons by simp
  next
    case False
    then show ?thesis using Cons w by (cases ws) (auto split: list.splits)
  qed
qed simp

definition arrived :: "log_stream \<Rightarrow> (log_stream \<times> string) list \<Rightarrow> string" where
  "arrived s chunks = concat (map snd (filter (\<lambda>c. fst c = s) chunks))"

lemma pending_set [simp]: "pending s (set_pending s' t p) = (if s = s' then t else pending s p)"
  by (cases s; cases s') (simp_all add: pending_def set_pending_def)

lemma filter_records [simp]:
  "filter (\<lambda>l. ll_stream l = s) (records s' ls) = (if s = s' then records s ls else [])"
  using records_stream by (auto simp: filter_id_conv filter_empty_conv)

lemma records_append [simp]: "records s (a @ b) = records s a @ records s b"
  by (simp add: records_def)

lemma chunks_deliver:
  "\<exists>rs p'. fold (\<lambda>(s, data). flushLines sid s data) chunks (p, st) = (p', fold (deliver sid) rs st)
     \<and> (\<forall>s. newline \<notin> set (pending s p) \<longrightarrow> newline \<notin> set (pending s p')
          \<and> filter (\<lambda>l. ll_stream l = s) rs @ records s [pending s p'] = records s (split_on newline (pending s p @ arrived s chunks)))"
proof (induction chunks arbitrary: p st)
  case Nil
  show ?case by (rule exI [of _ "[]"], rule exI [of _ p]) (simp add: arrived_def)
next
  case (Cons ch chunks)
  obtain s0 data where ch: "ch = (s0, data)" by force
  let ?pieces = "split_on newline (pending s0 p @ data)"
  let ?q = "set_pending s0 (last ?pieces) p" and ?st = "fold (deliver sid) (records s0 (butlast ?pieces)) st"
  have step: "flushLines sid s0 data (p, st) = (?q, ?st)"
    by (simp add: flushLines_def cut_lines_split appends_deliver)
  obtain rs p' where r: "fold (\<lambda>(s, data). flushLines sid s data) chunks (?q, ?st) = (p', fold (deliver sid) rs ?st)"
    "\<And>s. newline \<notin> set (pending s ?q) \<Longrightarrow> newline \<notin> set (pending s p')
       \<and> filter (\<lambda>l. ll_stream l = s) rs @ records s [pending s p'] = records s (split_on newline (pending s ?q @ arrived s chunks))"
    using Cons.IH [of ?q ?st] by blast
  have nq: "newline \<notin> set (last ?pieces)" using split_on_no_sep last_in_set split_on_not_Nil by blast
  have "newline \<notin> set (pending s p') \<and>
      filter (\<lambda>l. ll_stream l = s) (records s0 (butlast ?pieces) @ rs) @ records s [pending s p']
      = records s (split_on newline (pending s p @ arrived s (ch # chunks)))" if "newline \<notin> set (pending s p)" for s
  proof (cases "s = s0")
    case True
    then have "arrived s (ch # chunks) = data @ arrived s chunks" by (simp add: arrived_def ch)
    moreover have "split_on newline (pending s p @ data @ arrived s chunks)
      = butlast ?pieces @ split_on newline (last ?pieces @ arrived s chunks)"
      using split_rest [of "pending s0 p @ data" "arrived s chunks"] True by simp
    ultimately show ?thesis using r(2) [of s] nq True by simp
  next
    case False
    then have "arrived s (ch # chunks) = arrived s chunks" by (simp add: arrived_def ch)
    then show ?thesis using r(2) [of s] that False by simp
  qed
  then show ?case using r(1) step ch
    by (intro exI [of _ "records s0 (butlast ?pieces) @ rs"] exI [of _ p']) simp
qed

lemma close_deliver:
  "closePipes sid (p, st) = fold (deliver sid) (records Stdout [pp_out p] @ records Stderr [pp_err p]) st"
  by (simp add: closePipes_def append_deliver records_def Let_def opt_list_def)

lemma run_process_records:
  "\<exists>rs. run_process sid chunks st = fold (deliver sid) rs st
     \<and> (\<forall>s. filter (\<lambda>l. ll_stream l = s) rs = records s (split_on newline (arrived s chunks)))"
proof -
  obtain rs p' where r: "fold (\<lambda>(s, data). flushLines sid s data) chunks (\<lparr>pp_out = [], pp_err = []\<rparr>, st) = (p', fold (deliver sid) rs st)"
    "\<And>s. newline \<notin> set (pending s \<lparr>pp_out = [], pp_err = []\<rparr>) \<Longrightarrow>
       filter (\<lambda>l. ll_stream l = s) rs @ records s [pending s p']
       = records s (split_on newline (pending s \<lparr>pp_out = [], pp_err = []\<rparr> @ arrived s chunks))"
    using chunks_deliver [of sid chunks "\<lparr>pp_out = [], pp_err = []\<rparr>" st] by blast
  have "pending s \<lparr>pp_out = [], pp_err = []\<rparr> = []" for s by (cases s) (simp_all add: pending_def)
  then have q: "filter (\<lambda>l. ll_stream l = s) rs @ records s [pending s p'] = records s (split_on newline (arrived s chunks))" for s
    using r(2) [of s] by simp
  have "filter (\<lambda>l. ll_stream l = s) (rs @ records Stdout [pp_out p'] @ records Stderr [pp_err p'])
      = records s (split_on newline (arrived s chunks))" for s
    using q [of s] by (cases s) (simp_all add: pending_def)
  moreover have "run_process sid chunks st = fold (deliver sid) (rs @ records Stdout [pp_out p'] @ records Stderr [pp_err p']) st"
    by (simp add: run_process_def r(1) close_deliver)
  ultimately show ?thesis by blast
qed

lemma deliver_effect:
  assumes "map_get (lg_logs st) sid = Some e"
  shows "map_get (lg_logs (fold (deliver sid) rs st)) k
      = (if k = sid then Some (e\<lparr>le_lines := fold push_line rs (le_lines e)\<rparr>) else map_get (lg_logs st) k)
    \<and> lg_sent (fold (deliver sid) rs st)
      = lg_sent st @ concat (map (\<lambda>r. map (\<lambda>c. (c, Line_event r)) (le_subscribers e)) rs)"
  using assms
proof (induction rs arbitrary: st e)
  case (Cons r rs)
  let ?e = "e\<lparr>le_lines := push_line r (le_lines e)\<rparr>"
  have "map_get (lg_logs (deliver sid r st)) sid = Some ?e" using Cons.prems by (simp add: deliver_def)
  from Cons.IH [OF this] show ?case using Cons.prems by (simp add: deliver_def)
qed simp

text \<open>
  However the output of a build's process is cut into chunks and however the chunks of its two streams
  interleave, the log gets of each stream exactly its non-empty lines in order, an unfinished last one
  included; the buffer holds the last 2000 records, and every client is sent all of them in order.
\<close>

theorem log_independent_of_chunks:
  assumes "map_get (lg_logs st) sid = Some e" and "length (le_lines e) \<le> MAX_LOG_LINES"
  shows "\<exists>rs. filter (\<lambda>l. ll_stream l = Stdout) rs = records Stdout (split_on newline (arrived Stdout chunks))
    \<and> filter (\<lambda>l. ll_stream l = Stderr) rs = records Stderr (split_on newline (arrived Stderr chunks))
    \<and> map_get (lg_logs (run_process sid chunks st)) sid = Some (e\<lparr>le_lines := lastn MAX_LOG_LINES (le_lines e @ rs)\<rparr>)
    \<and> lg_sent (run_process sid chunks st)
      = lg_sent st @ concat (map (\<lambda>r. map (\<lambda>c. (c, Line_event r)) (le_subscribers e)) rs)"
proof -
  obtain rs where rs: "run_process sid chunks st = fold (deliver sid) rs st"
    "\<And>s. filter (\<lambda>l. ll_stream l = s) rs = records s (split_on newline (arrived s chunks))"
    using run_process_records by blast
  show ?thesis
    using deliver_effect [OF assms(1), of rs] rs push_lines [OF assms(2), of rs] by (intro exI [of _ rs]) simp
qed

definition sample_chunks :: "(log_stream \<times> string) list" where
  "sample_chunks = [(Stdout, ''read''), (Stderr, ''warn''), (Stdout, ''ing'' @ [newline] @ ''do''), (Stdout, ''ne'')]"

theorem log_independent_of_chunks_witness:
  "map_option (\<lambda>e. map ll_line (le_lines e)) (map_get (lg_logs (run_process ''s'' sample_chunks (initLog ''s'' no_logs))) ''s'')
    = Some [''reading'', ''done'', ''warn'']
   \<and> (\<exists>rs. filter (\<lambda>l. ll_stream l = Stdout) rs = records Stdout (split_on newline (arrived Stdout sample_chunks))
     \<and> filter (\<lambda>l. ll_stream l = Stderr) rs = records Stderr (split_on newline (arrived Stderr sample_chunks)))"
proof
  show "map_option (\<lambda>e. map ll_line (le_lines e)) (map_get (lg_logs (run_process ''s'' sample_chunks (initLog ''s'' no_logs))) ''s'')
    = Some [''reading'', ''done'', ''warn'']" by code_simp
  have "map_get (lg_logs (initLog ''s'' no_logs)) ''s'' = Some empty_log"
    by (simp add: initLog_def no_logs_def map_has_def)
  from log_independent_of_chunks [OF this, of sample_chunks]
  show "\<exists>rs. filter (\<lambda>l. ll_stream l = Stdout) rs = records Stdout (split_on newline (arrived Stdout sample_chunks))
     \<and> filter (\<lambda>l. ll_stream l = Stderr) rs = records Stderr (split_on newline (arrived Stderr sample_chunks))"
    by (auto simp: empty_log_def)
qed

section \<open>What a client sees\<close>

definition sent_to :: "nat \<Rightarrow> log_state \<Rightarrow> log_event list" where
  "sent_to c st = map snd (filter (\<lambda>x. fst x = c) (lg_sent st))"

definition stranger :: "nat \<Rightarrow> log_state \<Rightarrow> bool" where
  "stranger c st = (sent_to c st = [] \<and> (\<forall>sid e. map_get (lg_logs st) sid = Some e \<longrightarrow> c \<notin> set (le_subscribers e)))"

text \<open>The operations of others: everything but subscriptions of the client.\<close>

fun by_others :: "nat \<Rightarrow> log_op \<Rightarrow> bool" where
  "by_others c (Subscribe sid d) = (d \<noteq> c)"
| "by_others c op = True"

text \<open>The operations during a build that a client follows: the build does not end, the client does not leave.\<close>

fun meanwhile :: "string \<Rightarrow> nat \<Rightarrow> log_op \<Rightarrow> bool" where
  "meanwhile sid c (Subscribe s d) = (d \<noteq> c)"
| "meanwhile sid c (Unsubscribe s d) = (d \<noteq> c)"
| "meanwhile sid c (Finish s r) = (s \<noteq> sid)"
| "meanwhile sid c op = True"

fun new_records :: "string \<Rightarrow> log_op \<Rightarrow> log_line list" where
  "new_records sid (Append s raw stream) = (if s = sid then opt_list (log_record raw stream) else [])"
| "new_records sid op = []"

definition visible_lines :: "string \<Rightarrow> log_state \<Rightarrow> log_line list" where
  "visible_lines sid st = (case map_get (lg_logs st) sid of None \<Rightarrow> [] | Some e \<Rightarrow> le_lines e)"

lemma filter_pairs [simp]: "map snd (filter (\<lambda>x. fst x = c) (map (\<lambda>r. (d, f r)) xs)) = (if d = c then map f xs else [])"
  by (induction xs) auto

lemma filter_clients:
  "map snd (filter (\<lambda>x. fst x = c) (map (\<lambda>d. (d, ev)) cs)) = map (\<lambda>_. ev) (filter (\<lambda>d. d = c) cs)"
  by (induction cs) auto

lemma no_client [simp]: "c \<notin> set cs \<Longrightarrow> filter (\<lambda>d. d = c) cs = []"
  by (auto simp: filter_empty_conv)

lemma no_client_sent [simp]: "c \<notin> set cs \<Longrightarrow> filter (\<lambda>x. fst x = c) (map (\<lambda>d. (d, ev)) cs) = []"
  by (auto simp: filter_empty_conv)

text \<open>A stranger is sent nothing by what others do.\<close>

lemma stranger_step:
  assumes "stranger c st" and "by_others c op"
  shows "stranger c (log_step op st)"
  using assms
  by (cases op)
    (auto simp: stranger_def sent_to_def initLog_def appendLog_def startLog_def finishLog_def subscribeToLogs_def
      unsubscribe_def empty_log_def filter_clients Let_def split: option.splits if_splits)

lemma stranger_run: "stranger c st \<Longrightarrow> list_all (by_others c) ops \<Longrightarrow> stranger c (log_run ops st)"
  unfolding log_run_def by (induction ops arbitrary: st) (simp_all add: stranger_step)

lemma lines_bounded_step:
  "(\<And>s e. map_get (lg_logs st) s = Some e \<Longrightarrow> length (le_lines e) \<le> MAX_LOG_LINES) \<Longrightarrow>
   map_get (lg_logs (log_step op st)) s = Some e \<Longrightarrow> length (le_lines e) \<le> MAX_LOG_LINES"
  by (cases op)
    (auto simp: initLog_def appendLog_def startLog_def finishLog_def subscribeToLogs_def
      unsubscribe_def empty_log_def length_push_line Let_def split: option.splits if_splits)

lemma lines_bounded:
  assumes "map_get (lg_logs (log_run ops no_logs)) s = Some e"
  shows "length (le_lines e) \<le> MAX_LOG_LINES"
proof -
  have "\<forall>s e. map_get (lg_logs (fold log_step ops st)) s = Some e \<longrightarrow> length (le_lines e) \<le> MAX_LOG_LINES"
    if "\<forall>s e. map_get (lg_logs st) s = Some e \<longrightarrow> length (le_lines e) \<le> MAX_LOG_LINES" for st
    using that
  proof (induction ops arbitrary: st)
    case (Cons op ops)
    have "\<forall>s e. map_get (lg_logs (log_step op st)) s = Some e \<longrightarrow> length (le_lines e) \<le> MAX_LOG_LINES"
      using lines_bounded_step [of st op] Cons.prems by blast
    then show ?case using Cons.IH by simp
  qed simp
  moreover have "\<forall>s e. map_get (lg_logs no_logs) s = Some e \<longrightarrow> length (le_lines e) \<le> MAX_LOG_LINES"
    by (simp add: no_logs_def)
  ultimately show ?thesis using assms unfolding log_run_def by blast
qed

definition follows :: "string \<Rightarrow> nat \<Rightarrow> log_state \<Rightarrow> log_line list \<Rightarrow> log_event list \<Rightarrow> bool" where
  "follows sid c st ls evs =
     (sent_to c st = evs \<and>
      (\<forall>s e. s \<noteq> sid \<longrightarrow> map_get (lg_logs st) s = Some e \<longrightarrow> c \<notin> set (le_subscribers e)) \<and>
      (\<exists>e. map_get (lg_logs st) sid = Some e \<and> \<not> le_done e \<and> filter (\<lambda>d. d = c) (le_subscribers e) = [c] \<and> le_lines e = ls))"

lemma follows_start:
  assumes "stranger c st" and "isBuildLogOpen sid st \<or> map_get (lg_logs st) sid = None"
  shows "follows sid c (subscribeToLogs sid c st) (visible_lines sid st) (map Line_event (visible_lines sid st))"
proof (cases "map_get (lg_logs st) sid")
  case None
  then show ?thesis using assms(1)
    by (auto simp: follows_def subscribeToLogs_def initLog_def map_has_def empty_log_def visible_lines_def stranger_def
        sent_to_def Let_def)
next
  case (Some e)
  then show ?thesis using assms
    by (auto simp: follows_def subscribeToLogs_def initLog_def map_has_def visible_lines_def stranger_def
        sent_to_def isBuildLogOpen_def Let_def)
qed

lemma still_one: "filter (\<lambda>d. d = c) cs = [c] \<Longrightarrow> d \<noteq> c \<Longrightarrow> filter (\<lambda>x. x = c) (removeAll d cs) = [c]"
  by (simp add: removeAll_filter_not_eq conj_commute) (metis (mono_tags, lifting) filter_cong)

lemma one_not_empty: "filter (\<lambda>d. d = c) cs = [c] \<Longrightarrow> cs \<noteq> []"
  by auto

lemma follows_step:
  assumes f: "follows sid c st ls evs" and op: "meanwhile sid c op"
  shows "follows sid c (log_step op st) (fold push_line (new_records sid op) ls) (evs @ map Line_event (new_records sid op))"
proof -
  obtain e where e: "map_get (lg_logs st) sid = Some e" "\<not> le_done e" "filter (\<lambda>d. d = c) (le_subscribers e) = [c]"
    "le_lines e = ls" using f by (auto simp: follows_def)
  have o: "c \<notin> set (le_subscribers e')" if "s \<noteq> sid" "map_get (lg_logs st) s = Some e'" for s e'
    using f that by (auto simp: follows_def)
  have o': "c \<notin> set (le_subscribers e')" if "sid \<noteq> s" "map_get (lg_logs st) s = Some e'" for s e'
    using that(1) [symmetric] that(2) by (rule o)
  note ne = one_not_empty [OF e(3)]
  have evs: "sent_to c st = evs" using f by (simp add: follows_def)
  show ?thesis
  proof (cases op)
    case (Append s raw stream)
    then show ?thesis using e o o' evs
      by (auto simp: follows_def appendLog_def opt_list_def sent_to_def filter_clients split: option.split)
  next
    case (Unsubscribe s d)
    then show ?thesis using e o o' evs op
      by (auto simp: follows_def unsubscribe_def sent_to_def still_one split: option.split)
  next
    case (Start building s)
    then show ?thesis using e o o' evs ne
      by (auto simp: follows_def startLog_def sent_to_def empty_log_def split: option.split)
  next
    case (Subscribe s d)
    then show ?thesis using e o o' evs op
      by (auto simp: follows_def subscribeToLogs_def initLog_def map_has_def empty_log_def sent_to_def Let_def split: option.split)
  next
    case (Finish s r)
    then show ?thesis using e o o' evs op
      by (auto simp: follows_def finishLog_def sent_to_def Let_def split: option.split)
  next
    case (Init s)
    then show ?thesis using e o o' evs
      by (auto simp: follows_def initLog_def map_has_def empty_log_def sent_to_def)
  qed
qed

lemma follows_run:
  "follows sid c st ls evs \<Longrightarrow> list_all (meanwhile sid c) ops \<Longrightarrow>
   follows sid c (log_run ops st) (fold push_line (concat (map (new_records sid) ops)) ls)
     (evs @ map Line_event (concat (map (new_records sid) ops)))"
proof (induction ops arbitrary: st ls evs)
  case (Cons op ops)
  then show ?case using follows_step [OF Cons.prems(1)] Cons.IH by (fastforce simp: log_run_def)
qed (simp add: log_run_def)

lemma follows_finish:
  assumes "follows sid c st ls evs"
  shows "sent_to c (log_step (Finish sid r) st) = evs @ [Done_event (Some (advised ls r))]
    \<and> (\<forall>s e. map_get (lg_logs (log_step (Finish sid r) st)) s = Some e \<longrightarrow> c \<notin> set (le_subscribers e))"
  using assms by (auto simp: follows_def finishLog_def sent_to_def filter_clients Let_def split: if_splits)

lemma silent_step:
  assumes "\<forall>s e. map_get (lg_logs st) s = Some e \<longrightarrow> c \<notin> set (le_subscribers e)" and "by_others c op"
  shows "sent_to c (log_step op st) = sent_to c st
    \<and> (\<forall>s e. map_get (lg_logs (log_step op st)) s = Some e \<longrightarrow> c \<notin> set (le_subscribers e))"
  using assms
  by (cases op)
    (auto simp: sent_to_def initLog_def appendLog_def startLog_def finishLog_def subscribeToLogs_def
      unsubscribe_def empty_log_def Let_def split: option.splits if_splits)

lemma silent_run:
  "\<forall>s e. map_get (lg_logs st) s = Some e \<longrightarrow> c \<notin> set (le_subscribers e) \<Longrightarrow> list_all (by_others c) ops \<Longrightarrow>
   sent_to c (log_run ops st) = sent_to c st"
proof (induction ops arbitrary: st)
  case (Cons op ops)
  have "by_others c op" "list_all (by_others c) ops" using Cons.prems(2) by simp_all
  note q = silent_step [OF Cons.prems(1) this(1)] and rest = this(2)
  show ?case using Cons.IH [OF conjunct2 [OF q] rest] conjunct1 [OF q] by (simp add: log_run_def)
qed (simp add: log_run_def)


definition ok_outcome :: build_outcome where
  "ok_outcome = \<lparr>bo_success = True, bo_error = [], bo_stdout = [], bo_stderr = [], bo_code = [], bo_advice = []\<rparr>"


section \<open>Where the code does not do what it says\<close>

text \<open>A line that ends in a carriage return and a line feed is not logged.\<close>

lemma crlf_line_lost: "cut_lines (''fatal'' @ [carriage_return, newline]) = ([''fatal'' @ [carriage_return]], [])
    \<and> log_record (''fatal'' @ [carriage_return]) Stderr = None"
  by code_simp

text \<open>
  An edit while a build of the session runs: the rebuild waits behind it in the queue, and the client that waits for
  the rebuild is sent the result of the build before and never its own.
\<close>

lemma rebuild_gets_old_result:
  "sent_to 7 (log_run [Start False ''s'', Append ''s'' ''old'' Stdout, Start False ''s'', Subscribe ''s'' 7,
      Finish ''s'' (ok_outcome\<lparr>bo_stdout := ''old build''\<rparr>), Finish ''s'' (ok_outcome\<lparr>bo_stdout := ''rebuild''\<rparr>)] no_logs)
   = [Done_event (Some (ok_outcome\<lparr>bo_stdout := ''old build''\<rparr>))]"
  by code_simp

text \<open>With Redis, what is published between the look at the list and the subscription is lost: a line, or the end.\<close>

definition shared_line :: log_line where "shared_line = \<lparr>ll_line = ''x'', ll_stream = Stdout\<rparr>"

lemma gap_loses_line:
  "sh_sent (shared_run ([Sh_catch_up ''s'' 7, Sh_check ''s'' 7] @ append_shared ''s'' shared_line @ [Sh_join ''s'' 7]
     @ finish_shared ''s'' ok_outcome) no_shared_logs) = [(7, Done_event (Some ok_outcome))]"
  by code_simp

lemma gap_loses_end:
  "sh_sent (shared_run ([Sh_catch_up ''s'' 7, Sh_check ''s'' 7] @ finish_shared ''s'' ok_outcome @ [Sh_join ''s'' 7]) no_shared_logs) = []"
  by code_simp

text \<open>A line that is in the list already and not published yet is sent twice.\<close>

lemma line_sent_twice:
  "sh_sent (shared_run ([Sh_push ''s'' shared_line] @ follow_shared ''s'' 7 @ [Sh_publish ''s'' (Line_event shared_line)]) no_shared_logs)
   = [(7, Line_event shared_line), (7, Line_event shared_line)]"
  by code_simp

end
