(* ===== verification/TextScan.thy ===== *)
theory TextScan imports Prelude "HOL-Library.While_Combinator" begin

text \<open>
  Texts of the editor as JavaScript has them: lists of UTF-16 code units, read by offset. The scanners of
  the front end are loops over an offset; \<open>while_option\<close> runs them, and its result is \<open>None\<close>
  for a loop that does not end.
\<close>

type_synonym code_unit = nat
type_synonym code_text = "code_unit list"

text \<open>A literal of the source, and one of its characters.\<close>

definition unit_of :: "char \<Rightarrow> code_unit" where "unit_of c = of_char c"

definition units :: "string \<Rightarrow> code_text" where "units s = map unit_of s"

definition unit_at :: "'a list \<Rightarrow> nat \<Rightarrow> 'a option" where
  "unit_at s i = (if i < length s then Some (s ! i) else None)"

definition slice :: "nat \<Rightarrow> nat \<Rightarrow> 'a list \<Rightarrow> 'a list" where
  "slice i j s = take (j - i) (drop i s)"

text \<open>\<^verbatim>\<open>indexOf(p)\<close> and \<^verbatim>\<open>indexOf(p, from)\<close>.\<close>

fun find_sub :: "'a list \<Rightarrow> 'a list \<Rightarrow> nat option" where
  "find_sub p [] = (if p = [] then Some 0 else None)"
| "find_sub p (x # xs) = (if prefix p (x # xs) then Some 0 else map_option Suc (find_sub p xs))"

definition find_from :: "'a list \<Rightarrow> 'a list \<Rightarrow> nat \<Rightarrow> nat option" where
  "find_from p s i = map_option (\<lambda>k. i + k) (find_sub p (drop i s))"

text \<open>The end of a match, or of the text when there is none.\<close>

definition stop_after :: "'a list \<Rightarrow> 'a list \<Rightarrow> nat \<Rightarrow> nat" where
  "stop_after p s i = (case find_from p s i of None \<Rightarrow> length s | Some e \<Rightarrow> e + length p)"

text \<open>\<^verbatim>\<open>while (j < len && P(s[j])) j += 1\<close>.\<close>

definition run_end :: "('a \<Rightarrow> bool) \<Rightarrow> 'a list \<Rightarrow> nat \<Rightarrow> nat" where
  "run_end P s j = j + length (takeWhile P (drop j s))"

text \<open>
  \<^verbatim>\<open>replace(pattern, ...)\<close> with the flag \<^verbatim>\<open>g\<close>: the matcher gets what stands before a
  place and the text from there on, and returns the length of the match and what replaces it.
\<close>

function replace_all :: "('a option \<Rightarrow> 'a list \<Rightarrow> (nat \<times> 'a list) option) \<Rightarrow> 'a option \<Rightarrow> 'a list \<Rightarrow> 'a list" where
  "replace_all m prev [] = []"
| "replace_all m prev (x # xs) =
     (case m prev (x # xs) of
        None \<Rightarrow> x # replace_all m (Some x) xs
      | Some (n, r) \<Rightarrow> r @ replace_all m (unit_at (x # xs) (n - 1)) (drop (n - 1) xs))"
  by pat_completeness auto
termination by (relation "measure (\<lambda>(m, prev, s). length s)") auto

declare replace_all.simps(2) [simp del]

definition is_letter :: "code_unit \<Rightarrow> bool" where
  "is_letter c = ((unit_of (CHR ''a'') \<le> c \<and> c \<le> unit_of (CHR ''z'')) \<or> (unit_of (CHR ''A'') \<le> c \<and> c \<le> unit_of (CHR ''Z'')))"

text \<open>
  \<^verbatim>\<open>toLowerCase\<close> and \<^verbatim>\<open>toUpperCase\<close> as far as their results are ASCII: the
  upper case letters and the Kelvin sign. A text with any other letter is only ever compared with texts of ASCII
  letters.
\<close>

definition lower_unit :: "code_unit \<Rightarrow> code_unit" where
  "lower_unit c = (if unit_of (CHR ''A'') \<le> c \<and> c \<le> unit_of (CHR ''Z'') then c + 32 else if c = 0x212A then unit_of (CHR ''k'') else c)"

definition upper_unit :: "code_unit \<Rightarrow> code_unit" where
  "upper_unit c = (if unit_of (CHR ''a'') \<le> c \<and> c \<le> unit_of (CHR ''z'') then c - 32 else c)"

definition lower_text :: "code_text \<Rightarrow> code_text" where "lower_text s = map lower_unit s"
definition upper_text :: "code_text \<Rightarrow> code_text" where "upper_text s = map upper_unit s"

text \<open>\<^verbatim>\<open>\s\<close> of a regular expression.\<close>

definition is_white :: "code_unit \<Rightarrow> bool" where
  "is_white c = ((9 \<le> c \<and> c \<le> 13) \<or> c \<in> {32, 160, 0x1680, 0x2028, 0x2029, 0x202F, 0x205F, 0x3000, 0xFEFF}
     \<or> (0x2000 \<le> c \<and> c \<le> 0x200A))"

definition nl :: code_unit where "nl = 10"
definition blank_unit :: code_unit where "blank_unit = 32"

section \<open>Facts\<close>

lemma length_slice [simp]: "length (slice i j s) = min (j - i) (length s - i)"
  by (simp add: slice_def min.commute)

lemma nth_slice: "k < j - i \<Longrightarrow> i + k < length s \<Longrightarrow> slice i j s ! k = s ! (i + k)"
  by (simp add: slice_def)

lemma slice_same [simp]: "slice i i s = []"
  by (simp add: slice_def)

lemma slice_append: "i \<le> j \<Longrightarrow> j \<le> k \<Longrightarrow> slice i j s @ slice j k s = slice i k s"
proof -
  assume "i \<le> j" "j \<le> k"
  then have "take (k - i) (drop i s) = take (j - i) (drop i s) @ take (k - j) (drop (j - i) (drop i s))"
    by (metis diff_add_assoc2 le_add_diff_inverse take_add diff_add_assoc add.commute le_add_diff_inverse2)
  then show ?thesis using \<open>i \<le> j\<close> by (simp add: slice_def)
qed

lemma length_units [simp]: "length (units s) = length s"
  by (simp add: units_def)

lemma find_sub_bound: "find_sub p s = Some k \<Longrightarrow> k + length p \<le> length s"
  by (induction s arbitrary: k) (auto split: if_splits dest!: prefix_length_le)

lemma find_sub_prefix: "find_sub p s = Some k \<Longrightarrow> prefix p (drop k s)"
  by (induction s arbitrary: k) (auto split: if_splits)

lemma find_sub_first: "find_sub p s = Some k \<Longrightarrow> m < k \<Longrightarrow> \<not> prefix p (drop m s)"
proof (induction s arbitrary: k m)
  case (Cons x s)
  then show ?case by (cases m) (auto split: if_splits)
qed (auto split: if_splits)

lemma find_sub_Some_iff:
  "find_sub p s = Some k \<longleftrightarrow> k \<le> length s \<and> prefix p (drop k s) \<and> (\<forall>m < k. \<not> prefix p (drop m s))"
proof (induction s arbitrary: k)
  case (Cons x s)
  then show ?case
  proof (cases k)
    case (Suc k')
    have "(\<forall>m < Suc k'. \<not> prefix p (drop m (x # s))) \<longleftrightarrow> \<not> prefix p (x # s) \<and> (\<forall>m < k'. \<not> prefix p (drop m s))"
      by (auto simp: less_Suc_eq_0_disj)
    then show ?thesis using Cons.IH Suc by auto
  qed auto
qed auto

text \<open>A match that ends a text is found where it is whatever follows.\<close>

lemma find_sub_append:
  assumes "find_sub p (t @ p) = Some (length t)"
  shows "find_sub p (t @ p @ r) = Some (length t)"
proof -
  have "\<not> prefix p (drop m (t @ p @ r))" if "m < length t" for m
  proof
    assume "prefix p (drop m (t @ p @ r))"
    moreover have "length p \<le> length (drop m (t @ p))" using that by simp
    moreover have "drop m (t @ p @ r) = drop m (t @ p) @ r" using that by simp
    ultimately have "prefix p (drop m (t @ p))" by (metis prefix_length_prefix prefixI)
    then show False using find_sub_first [OF assms that] by simp
  qed
  then show ?thesis by (simp add: find_sub_Some_iff)
qed

lemma stop_after_le: "p \<noteq> [] \<Longrightarrow> stop_after p s i \<le> length s"
  using find_sub_bound [of p "drop i s"]
  by (cases "i \<le> length s") (auto simp: stop_after_def find_from_def split: option.split)

lemma stop_after_ge: "i \<le> length s \<Longrightarrow> i \<le> stop_after p s i"
  by (auto simp: stop_after_def find_from_def split: option.split)

lemma run_end_ge [simp]: "j \<le> run_end P s j"
  by (simp add: run_end_def)

lemma run_end_le: "j \<le> length s \<Longrightarrow> run_end P s j \<le> length s"
  using length_takeWhile_le [of P "drop j s"] by (simp add: run_end_def)

lemma run_end_all: "j \<le> k \<Longrightarrow> k < run_end P s j \<Longrightarrow> P (s ! k)"
proof -
  assume h: "j \<le> k" "k < run_end P s j"
  then have m: "k - j < length (takeWhile P (drop j s))" by (simp add: run_end_def)
  have "takeWhile P (drop j s) ! (k - j) = drop j s ! (k - j)" using m by (rule takeWhile_nth)
  moreover have "j \<le> length s" using m by (cases "j \<le> length s") auto
  ultimately have "takeWhile P (drop j s) ! (k - j) = s ! k" using h by simp
  then show ?thesis using nth_mem [OF m] set_takeWhileD by metis
qed

lemma prefix_around:
  assumes "prefix w (u @ z # v)" and "z \<notin> set w"
  shows "prefix w u"
proof -
  from assms(1) consider "prefix w u" | us where "w = u @ us" "prefix us (z # v)" by (auto simp: prefix_append)
  then show ?thesis using assms(2) by cases (auto simp: prefix_Cons)
qed

lemma sublist_around:
  assumes "sublist w (u @ z # v)" and "z \<notin> set w"
  shows "sublist w u \<or> sublist w v"
  using assms
proof (induction u)
  case Nil
  then show ?case by (cases w) (auto simp: sublist_Cons_right)
next
  case (Cons x u)
  have "prefix w (x # u)" if "prefix w ((x # u) @ z # v)" using that Cons.prems(2) by (rule prefix_around)
  with Cons show ?case by (auto simp: sublist_Cons_right)
qed

section \<open>Loops over an offset\<close>

text \<open>A loop whose offset grows in every round ends.\<close>

lemma scan_ends:
  fixes n :: nat
  assumes "\<And>s. I s \<Longrightarrow> pos s < n \<Longrightarrow> I (f s) \<and> pos s < pos (f s)" and "I s"
  shows "\<exists>t. while_option (\<lambda>s. pos s < n) f s = Some t \<and> I t \<and> n \<le> pos t"
proof -
  have "\<exists>t. while_option (\<lambda>s. pos s < n) f s = Some t"
    by (rule measure_while_option_Some [where P = I and f = "\<lambda>s. n - pos s"]) (use assms in \<open>auto simp: diff_less_mono2\<close>)
  then obtain t where t: "while_option (\<lambda>s. pos s < n) f s = Some t" ..
  moreover have "I t" using while_option_rule [where P = I, OF _ t] assms by blast
  ultimately show ?thesis using while_option_stop [OF t] by auto
qed

text \<open>The states that a loop passes through.\<close>

inductive reach :: "('s \<Rightarrow> bool) \<Rightarrow> ('s \<Rightarrow> 's) \<Rightarrow> 's \<Rightarrow> 's \<Rightarrow> bool" for b f where
  reach_here [simp, intro]: "reach b f s s"
| reach_step: "b s \<Longrightarrow> reach b f (f s) t \<Longrightarrow> reach b f s t"

lemma reach_trans: "reach b f s t \<Longrightarrow> reach b f t v \<Longrightarrow> reach b f s v"
  by (induction rule: reach.induct) (auto intro: reach_step)

lemma reach_one: "b s \<Longrightarrow> reach b f s (f s)"
  by (blast intro: reach_step)

lemma reach_while: "reach b f s t \<Longrightarrow> \<not> b t \<Longrightarrow> while_option b f s = Some t"
  by (induction rule: reach.induct) (simp_all add: while_option_unfold)

end
