(* ===== verification/LogRedaction.thy ===== *)
theory LogRedaction imports TextScan begin

text \<open>
  What leaves the server for the model, from \<^verbatim>\<open>backend/src/services/buildErrorExplainer.ts\<close>: the
  replacements that remove credentials from a text and the cut of a build log to its head and tail.

  A replacement with the flag \<^verbatim>\<open>g\<close> is \<open>replace_all\<close> on a matcher, which gets the code unit
  before the place and the text from there on and returns the length of the match and what stands for it. In each
  pattern the class of a run excludes what has to follow the run, so the longest run is the only one that can match.
  The lemmas show that no token of the four providers is left, whatever the text around it.
\<close>

section \<open>Replacing every match\<close>

type_synonym matcher = "code_unit option \<Rightarrow> code_text \<Rightarrow> (nat \<times> code_text) option"

section \<open>The patterns\<close>

definition ci_unit :: "code_unit \<Rightarrow> code_unit" where
  "ci_unit c = (if unit_of (CHR ''A'') \<le> c \<and> c \<le> unit_of (CHR ''Z'') then c + 32 else c)"

text \<open>A literal in lower case at the start of a text, with the flag \<^verbatim>\<open>i\<close>.\<close>

definition ci_prefix :: "string \<Rightarrow> code_text \<Rightarrow> bool" where
  "ci_prefix p s = prefix (units p) (map ci_unit s)"

definition is_unit_digit :: "code_unit \<Rightarrow> bool" where
  "is_unit_digit c = (unit_of (CHR ''0'') \<le> c \<and> c \<le> unit_of (CHR ''9''))"

definition is_alnum :: "code_unit \<Rightarrow> bool" where "is_alnum c = (is_letter c \<or> is_unit_digit c)"

definition among :: "string \<Rightarrow> code_unit \<Rightarrow> bool" where "among cs c = (c \<in> set (units cs))"

definition is_word :: "code_unit \<Rightarrow> bool" where "is_word c = (is_alnum c \<or> c = unit_of (CHR ''_''))"

text \<open>\<^verbatim>\<open>\b\<close> before a letter.\<close>

definition word_starts :: "code_unit option \<Rightarrow> bool" where
  "word_starts prev = (case prev of None \<Rightarrow> True | Some c \<Rightarrow> \<not> is_word c)"

definition starts_unit :: "string \<Rightarrow> code_text \<Rightarrow> bool" where
  "starts_unit cs s = (s \<noteq> [] \<and> among cs (hd s))"

definition url_credentials :: matcher where
  "url_credentials prev s =
     (let k = (if ci_prefix ''https://'' s then 8 else if ci_prefix ''http://'' s then 7 else 0);
          user = takeWhile (\<lambda>c. \<not> is_white c \<and> \<not> among ''/@:'' c) (drop k s);
          rest = drop (k + length user) s;
          pass = takeWhile (\<lambda>c. \<not> is_white c \<and> \<not> among ''/@'' c) (tl rest)
      in if k \<noteq> 0 \<and> user \<noteq> [] \<and> starts_unit '':'' rest \<and> pass \<noteq> [] \<and> starts_unit ''@'' (drop (Suc (length pass)) rest)
         then Some (k + length user + 1 + length pass + 1, take k s @ units ''[REDACTED]@'') else None)"

text \<open>A literal of \<open>heads\<close>, then a run of at least \<open>least\<close> units, or of exactly as many.\<close>

definition secret_token :: "string list \<Rightarrow> (code_unit \<Rightarrow> bool) \<Rightarrow> nat \<Rightarrow> bool \<Rightarrow> string \<Rightarrow> matcher" where
  "secret_token heads cls least exact mark prev s =
     (case find (\<lambda>p. prefix (units p) s) heads of
        None \<Rightarrow> None
      | Some p \<Rightarrow>
          let n = length (takeWhile cls (drop (length p) s))
          in if n < least then None else Some (length p + (if exact then least else n), units mark))"

definition github_token :: matcher where
  "github_token = secret_token [''ghp_'', ''gho_'', ''ghu_'', ''ghs_'', ''ghr_''] is_alnum 20 False ''[REDACTED_TOKEN]''"

definition github_pat :: matcher where
  "github_pat = secret_token [''github_pat_''] is_word 20 False ''[REDACTED_TOKEN]''"

definition anthropic_key :: matcher where
  "anthropic_key = secret_token [''sk-ant-''] (\<lambda>c. is_word c \<or> c = unit_of (CHR ''-'')) 10 False ''[REDACTED_KEY]''"

definition aws_key :: matcher where
  "aws_key = secret_token [''AKIA'']
     (\<lambda>c. is_unit_digit c \<or> (unit_of (CHR ''A'') \<le> c \<and> c \<le> unit_of (CHR ''Z''))) 16 True ''[REDACTED_KEY]''"

definition auth_header :: matcher where
  "auth_header prev s =
     (let k = (if ci_prefix ''bearer'' s then 6 else if ci_prefix ''basic'' s then 5 else 0);
          w = length (takeWhile is_white (drop k s));
          n = length (takeWhile (\<lambda>c. is_alnum c \<or> among ''._~+/=-'' c) (drop (k + w) s))
      in if word_starts prev \<and> k \<noteq> 0 \<and> w \<noteq> 0 \<and> 16 \<le> n then Some (k + w + n, take k s @ units '' [REDACTED]'') else None)"

definition secret_names :: "string list" where
  "secret_names = [''api_key'', ''api-key'', ''apikey'', ''secret'', ''token'', ''password'', ''passwd'']"

definition optional_quote :: "code_text \<Rightarrow> nat" where
  "optional_quote s = (if starts_unit [CHR 0x22, CHR 0x27] s then 1 else 0)"

definition secret_assignment :: matcher where
  "secret_assignment prev s =
     (case find (\<lambda>p. ci_prefix p s) secret_names of
        None \<Rightarrow> None
      | Some p \<Rightarrow>
          let i = length p + length (takeWhile is_white (drop (length p) s));
              j = Suc i + length (takeWhile is_white (drop (Suc i) s));
              a = j + optional_quote (drop j s);
              n = length (takeWhile (\<lambda>c. \<not> is_white c \<and> \<not> among [CHR 0x22, CHR 0x27] c) (drop a s))
          in if word_starts prev \<and> starts_unit ''=:'' (drop i s) \<and> 6 \<le> n
             then Some (a + n + optional_quote (drop (a + n) s), take j s @ units ''[REDACTED]'') else None)"

definition SECRET_PATTERNS :: "matcher list" where
  "SECRET_PATTERNS =
     [url_credentials, github_token, github_pat, anthropic_key, aws_key, auth_header, secret_assignment]"

definition redactSecrets :: "code_text \<Rightarrow> code_text" where
  "redactSecrets t = fold (\<lambda>m acc. replace_all m None acc) SECRET_PATTERNS t"

section \<open>The log that is sent\<close>

definition MAX_LOG_CHARS :: nat where "MAX_LOG_CHARS = 12000"
definition LOG_HEAD_CHARS :: nat where "LOG_HEAD_CHARS = 2000"

text \<open>\<^verbatim>\<open>replace(/\r\n/g, '\n')\<close>, and \<^verbatim>\<open>trim\<close> on code units.\<close>

fun crlf_to_lf :: "code_text \<Rightarrow> code_text" where
  "crlf_to_lf (a # b # s) = (if a = 13 \<and> b = nl then nl # crlf_to_lf s else a # crlf_to_lf (b # s))"
| "crlf_to_lf s = s"

definition trim_text :: "code_text \<Rightarrow> code_text" where
  "trim_text s = rev (dropWhile is_white (rev (dropWhile is_white s)))"

definition prepareLogForModel :: "code_text \<Rightarrow> code_text" where
  "prepareLogForModel rawLog =
     (let log = trim_text (redactSecrets (crlf_to_lf rawLog))
      in if length log \<le> MAX_LOG_CHARS then log
         else let tailChars = MAX_LOG_CHARS - LOG_HEAD_CHARS;
                  omitted = length log - LOG_HEAD_CHARS - tailChars
              in take LOG_HEAD_CHARS log @ [nl, nl] @ units ''[... '' @ units (dec_nat omitted)
                 @ units '' characters omitted ...]'' @ [nl, nl] @ drop (length log - tailChars) log)"

section \<open>What a replacement leaves\<close>

definition token_unit :: "code_unit \<Rightarrow> bool" where
  "token_unit c = (is_word c \<or> c = unit_of (CHR ''-''))"

text \<open>
  A matcher whose replacement keeps a first part of the match and puts a mark behind it that starts and ends with
  units that no token has.
\<close>

definition marks_with :: "code_text \<Rightarrow> bool" where
  "marks_with mark = (mark \<noteq> [] \<and> \<not> token_unit (hd mark) \<and> \<not> token_unit (last mark) \<and> length mark \<le> 16)"

definition marking :: "matcher \<Rightarrow> bool" where
  "marking m = (\<forall>prev s n r. m prev s = Some (n, r) \<longrightarrow> (\<exists>k mark. r = take k s @ mark \<and> marks_with mark))"

definition all_token_units :: "code_text \<Rightarrow> bool" where
  "all_token_units w = (\<forall>c \<in> set w. token_unit c)"

lemma sublist_past_mark:
  assumes "sublist w (u @ mark @ v)" and "marks_with mark" and "all_token_units w" and "16 < length w"
  shows "sublist w u \<or> sublist w v"
proof -
  obtain z rest where mark: "mark = z # rest" using assms(2) by (cases mark) (auto simp: marks_with_def)
  have "z \<notin> set w" using assms mark by (auto simp: marks_with_def all_token_units_def)
  with assms(1) have "sublist w u \<or> sublist w (rest @ v)" using sublist_around [of w u z "rest @ v"] mark by simp
  moreover have "sublist w v" if "sublist w (rest @ v)"
  proof (cases rest rule: rev_cases)
    case (snoc rest' y)
    then have "y \<notin> set w" using assms mark by (auto simp: marks_with_def all_token_units_def)
    then have "sublist w rest' \<or> sublist w v" using sublist_around [of w rest' y v] that snoc by simp
    moreover have "\<not> sublist w rest'"
      using assms mark snoc sublist_length_le [of w rest'] by (auto simp: marks_with_def)
    ultimately show ?thesis by simp
  qed (use that in simp)
  ultimately show ?thesis by blast
qed

lemma prefix_before_mark:
  assumes "prefix w (u @ mark @ v)" and "marks_with mark" and "all_token_units w"
  shows "prefix w u"
proof -
  obtain z rest where mark: "mark = z # rest" using assms(2) by (cases mark) (auto simp: marks_with_def)
  have "z \<notin> set w" using assms mark by (auto simp: marks_with_def all_token_units_def)
  then show ?thesis using assms(1) mark by (intro prefix_around [of w u z "rest @ v"]) simp_all
qed

lemma marking_result:
  "marking m \<Longrightarrow> m prev s = Some (n, r) \<Longrightarrow> \<exists>k mark. r = take k s @ mark \<and> marks_with mark"
  unfolding marking_def by blast

lemma replaced_prefix:
  assumes "marking m" and "all_token_units w" and "prefix w (replace_all m prev s)"
  shows "prefix w s"
  using assms
proof (induction m prev s arbitrary: w rule: replace_all.induct [case_names nil cons])
  case (cons m prev x xs)
  show ?case
  proof (cases "m prev (x # xs)")
    case None
    then have "prefix w (x # replace_all m (Some x) xs)" using cons.prems by (simp add: replace_all.simps)
    then show ?thesis using cons.IH(1) [OF None cons.prems(1)] cons.prems(2) by (cases w) (auto simp: all_token_units_def)
  next
    case (Some nr)
    obtain n r where nr: "nr = (n, r)" by (cases nr)
    with Some obtain k mark where r: "r = take k (x # xs) @ mark" "marks_with mark"
      using marking_result [OF cons.prems(1)] by blast
    have "prefix w (take k (x # xs) @ mark @ replace_all m (unit_at (x # xs) (n - 1)) (drop (n - 1) xs))"
      using cons.prems(3) Some nr r by (simp add: replace_all.simps)
    from prefix_before_mark [OF this r(2) cons.prems(2)] show ?thesis by (metis prefix_order.trans take_is_prefix)
  qed
qed simp

text \<open>A word of token units behind a replacement was there before it.\<close>

lemma replaced_sublist:
  assumes "marking m" and "all_token_units w" and "16 < length w" and "sublist w (replace_all m prev s)"
  shows "sublist w s"
  using assms
proof (induction m prev s rule: replace_all.induct [case_names nil cons])
  case (cons m prev x xs)
  show ?case
  proof (cases "m prev (x # xs)")
    case None
    then have sub: "sublist w (x # replace_all m (Some x) xs)" using cons.prems by (simp add: replace_all.simps)
    show ?thesis
    proof (cases "sublist w (replace_all m (Some x) xs)")
      case True
      then show ?thesis using cons.IH(1) [OF None cons.prems(1-3)] by (simp add: sublist_Cons_right)
    next
      case False
      then have "prefix w (replace_all m prev (x # xs))" using sub None by (simp add: sublist_Cons_right replace_all.simps)
      then show ?thesis using replaced_prefix [OF cons.prems(1,2)] by (simp add: prefix_imp_sublist)
    qed
  next
    case (Some nr)
    obtain n r where nr: "nr = (n, r)" by (cases nr)
    with Some obtain k mark where r: "r = take k (x # xs) @ mark" "marks_with mark"
      using marking_result [OF cons.prems(1)] by blast
    let ?out = "replace_all m (unit_at (x # xs) (n - 1)) (drop (n - 1) xs)"
    have "sublist w (take k (x # xs) @ mark @ ?out)" using cons.prems(4) Some nr r by (simp add: replace_all.simps)
    then consider "sublist w (take k (x # xs))" | "sublist w ?out"
      using sublist_past_mark [OF _ r(2) cons.prems(2,3)] by blast
    then show ?thesis
    proof cases
      case 1
      then show ?thesis by (metis sublist_order.order_trans sublist_take)
    next
      case 2
      then have "sublist w (drop (n - 1) xs)" using cons.IH(2) [OF Some nr [symmetric] cons.prems(1-3)] by simp
      then show ?thesis by (metis sublist_order.order_trans sublist_drop sublist_Cons_right)
    qed
  qed
qed simp

text \<open>Where the replacement is a mark alone, such a word is at a place at which the pattern does not match.\<close>

definition only_mark :: "matcher \<Rightarrow> bool" where
  "only_mark m = (\<forall>prev s n r. m prev s = Some (n, r) \<longrightarrow> marks_with r)"

lemma only_mark_marking: "only_mark m \<Longrightarrow> marking m"
  unfolding only_mark_def marking_def by (metis append_Nil take0)

lemma replaced_unmatched:
  assumes "only_mark m" and "all_token_units w" and "16 < length w" and "sublist w (replace_all m prev s)"
  shows "\<exists>prev' s'. prefix w s' \<and> m prev' s' = None"
  using assms
proof (induction m prev s rule: replace_all.induct [case_names nil cons])
  case (cons m prev x xs)
  note mk = only_mark_marking [OF cons.prems(1)]
  show ?case
  proof (cases "m prev (x # xs)")
    case None
    then have sub: "sublist w (x # replace_all m (Some x) xs)" using cons.prems by (simp add: replace_all.simps)
    show ?thesis
    proof (cases "sublist w (replace_all m (Some x) xs)")
      case True
      then show ?thesis using cons.IH(1) [OF None cons.prems(1-3)] by simp
    next
      case False
      then have "prefix w (replace_all m prev (x # xs))" using sub None by (simp add: sublist_Cons_right replace_all.simps)
      then show ?thesis using replaced_prefix [OF mk cons.prems(2)] None by blast
    qed
  next
    case (Some nr)
    obtain n r where nr: "nr = (n, r)" by (cases nr)
    with Some have r: "marks_with r" using cons.prems(1) by (auto simp: only_mark_def)
    let ?out = "replace_all m (unit_at (x # xs) (n - 1)) (drop (n - 1) xs)"
    have "sublist w ([] @ r @ ?out)" using cons.prems(4) Some nr by (simp add: replace_all.simps)
    then have "sublist w ?out" using sublist_past_mark [OF _ r cons.prems(2,3), of "[]" ?out] cons.prems(3) by force
    then show ?thesis using cons.IH(2) [OF Some nr [symmetric] cons.prems(1-3)] by simp
  qed
qed simp

section \<open>The tokens of the four providers\<close>

text \<open>The shortest words that the patterns with a distinctive prefix stand for.\<close>

definition token_word :: "string list \<Rightarrow> (code_unit \<Rightarrow> bool) \<Rightarrow> nat \<Rightarrow> code_text \<Rightarrow> bool" where
  "token_word heads cls least w = (\<exists>h \<in> set heads. \<exists>b. w = units h @ b \<and> length b = least \<and> list_all cls b)"

definition provider_token :: "code_text \<Rightarrow> bool" where
  "provider_token w =
     (token_word [''ghp_'', ''gho_'', ''ghu_'', ''ghs_'', ''ghr_''] is_alnum 20 w
      \<or> token_word [''github_pat_''] is_word 20 w
      \<or> token_word [''sk-ant-''] (\<lambda>c. is_word c \<or> c = unit_of (CHR ''-'')) 10 w
      \<or> token_word [''AKIA''] (\<lambda>c. is_unit_digit c \<or> (unit_of (CHR ''A'') \<le> c \<and> c \<le> unit_of (CHR ''Z''))) 16 w)"

lemmas unit_classes = is_word_def is_alnum_def is_letter_def is_unit_digit_def token_unit_def unit_of_def units_def

lemma secret_token_only_mark: "marks_with (units mark) \<Longrightarrow> only_mark (secret_token heads cls least exact mark)"
  by (auto simp: only_mark_def secret_token_def Let_def split: option.splits if_splits)

lemma secret_token_matches:
  assumes "token_word heads cls least w" and "prefix w s" and "\<forall>h \<in> set heads. \<forall>h' \<in> set heads. length h = length h'"
  shows "secret_token heads cls least exact mark prev s \<noteq> None"
proof -
  from assms(1) obtain h b where h: "h \<in> set heads" "w = units h @ b" "length b = least" "list_all cls b"
    by (auto simp: token_word_def)
  with assms(2) obtain v where s: "s = units h @ b @ v" by (auto elim!: prefixE)
  then have "find (\<lambda>p. prefix (units p) s) heads \<noteq> None" using h by (auto simp: find_None_iff)
  then obtain p where p: "find (\<lambda>p. prefix (units p) s) heads = Some p" by blast
  then have "p \<in> set heads" by (auto simp: find_Some_iff)
  then have "length p = length h" using assms(3) h by blast
  then have "drop (length p) s = b @ v" using s by simp
  moreover have "takeWhile cls (b @ v) = b @ takeWhile cls v" using h(4) by (simp add: list_all_iff)
  ultimately show ?thesis using p h(3) by (simp add: secret_token_def)
qed

lemma token_word_units:
  assumes "token_word heads cls least w" and "\<forall>h \<in> set heads. all_token_units (units h)" and "\<And>c. cls c \<Longrightarrow> token_unit c"
  shows "all_token_units w"
  using assms by (fastforce simp: token_word_def all_token_units_def list_all_iff)

lemma marks: "marks_with (units ''[REDACTED_TOKEN]'')" "marks_with (units ''[REDACTED_KEY]'')"
    "marks_with (units ''[REDACTED]@'')" "marks_with (units '' [REDACTED]'')" "marks_with (units ''[REDACTED]'')"
  by (simp_all add: marks_with_def unit_classes)

lemma patterns_mark: "\<forall>m \<in> set SECRET_PATTERNS. marking m"
proof -
  have "marking url_credentials" "marking auth_header" "marking secret_assignment"
    unfolding marking_def url_credentials_def auth_header_def secret_assignment_def Let_def
    using marks by (auto split: option.splits if_splits)
  then show ?thesis using marks
    by (auto simp: SECRET_PATTERNS_def github_token_def github_pat_def anthropic_key_def aws_key_def
             intro!: only_mark_marking secret_token_only_mark)
qed

lemma provider_token_facts:
  assumes "provider_token w"
  shows "all_token_units w" and "16 < length w" and "\<not> is_unit_digit (hd w)"
proof -
  from assms show "all_token_units w"
    unfolding provider_token_def
    by (elim disjE) (rule token_word_units, assumption, simp add: all_token_units_def unit_classes,
        force simp: unit_classes)+
  from assms show "16 < length w" by (auto simp: provider_token_def token_word_def)
  from assms show "\<not> is_unit_digit (hd w)"
    by (auto simp: provider_token_def token_word_def unit_classes)
qed

lemma patterns_keep:
  assumes "\<forall>m \<in> set ms. marking m" and "all_token_units w" and "16 < length w"
    and "sublist w (fold (\<lambda>m acc. replace_all m None acc) ms t)"
  shows "sublist w t"
  using assms(1,4)
  by (induction ms arbitrary: t) (auto intro: replaced_sublist [OF _ assms(2,3)])

lemma provider_token_removed:
  assumes "SECRET_PATTERNS = ms @ secret_token heads cls least exact mark # ms'"
    and "marks_with (units mark)" and "token_word heads cls least w" and "provider_token w"
    and "\<forall>h \<in> set heads. \<forall>h' \<in> set heads. length h = length h'"
  shows "\<not> sublist w (redactSecrets t)"
proof
  let ?m = "secret_token heads cls least exact mark"
  note w = provider_token_facts [OF assms(4)]
  assume "sublist w (redactSecrets t)"
  then have "sublist w (replace_all ?m None (fold (\<lambda>m acc. replace_all m None acc) ms t))"
    using patterns_keep [of ms' w] patterns_mark w by (simp add: redactSecrets_def assms(1))
  from replaced_unmatched [OF secret_token_only_mark [OF assms(2)] w(1,2) this]
  show False using secret_token_matches [OF assms(3) _ assms(5)] by blast
qed

lemma redacted_without_tokens:
  assumes "provider_token w"
  shows "\<not> sublist w (redactSecrets t)"
proof -
  note defs = SECRET_PATTERNS_def github_token_def github_pat_def anthropic_key_def aws_key_def
  from assms consider
      "token_word [''ghp_'', ''gho_'', ''ghu_'', ''ghs_'', ''ghr_''] is_alnum 20 w"
    | "token_word [''github_pat_''] is_word 20 w"
    | "token_word [''sk-ant-''] (\<lambda>c. is_word c \<or> c = unit_of (CHR ''-'')) 10 w"
    | "token_word [''AKIA''] (\<lambda>c. is_unit_digit c \<or> (unit_of (CHR ''A'') \<le> c \<and> c \<le> unit_of (CHR ''Z''))) 16 w"
    unfolding provider_token_def by blast
  then show ?thesis
  proof cases
    case 1
    show ?thesis
      by (rule provider_token_removed [of "[url_credentials]", OF _ marks(1) 1 assms]) (simp_all add: defs)
  next
    case 2
    show ?thesis
      by (rule provider_token_removed [of "[url_credentials, github_token]", OF _ marks(1) 2 assms]) (simp_all add: defs)
  next
    case 3
    show ?thesis
      by (rule provider_token_removed [of "[url_credentials, github_token, github_pat]", OF _ marks(2) 3 assms])
        (simp_all add: defs)
  next
    case 4
    show ?thesis
      by (rule provider_token_removed [of "[url_credentials, github_token, github_pat, anthropic_key]", OF _ marks(2) 4 assms])
        (simp_all add: defs)
  qed
qed

section \<open>The cut does not make a token\<close>

lemma sublist_trim_text: "sublist (trim_text s) s"
  unfolding trim_text_def
  by (metis rev_rev_ident sublist_order.order_trans sublist_rev sublist_dropWhile)

text \<open>Around a unit that no token has, a token is on one side.\<close>

lemma token_around:
  assumes "provider_token w" and "\<not> token_unit z" and "sublist w (u @ z # v)"
  shows "sublist w u \<or> sublist w v"
  using assms provider_token_facts(1) [OF assms(1)]
  by (intro sublist_around) (auto simp: all_token_units_def)

lemma short_no_token: "provider_token w \<Longrightarrow> length s \<le> 16 \<Longrightarrow> \<not> sublist w s"
  using provider_token_facts(2) [of w] sublist_length_le [of w s] by auto

lemma number_no_token:
  assumes "provider_token w"
  shows "\<not> sublist w (units (dec_nat n))"
proof
  assume "sublist w (units (dec_nat n))"
  moreover have "w \<noteq> []" using provider_token_facts(2) [OF assms] by auto
  ultimately have "hd w \<in> set (units (dec_nat n))" using set_mono_sublist by (metis hd_in_set subsetD)
  then have "is_unit_digit (hd w)"
    using dec_nat_digits [of n] by (auto simp: units_def list_all_iff is_digit_def is_unit_digit_def unit_of_def Let_def)
  then show False using provider_token_facts(3) [OF assms] by simp
qed

text \<open>Whatever the build printed, the text that is sent holds no token of a provider, not even at the cut.\<close>

lemma prepared_without_tokens:
  assumes "provider_token w"
  shows "\<not> sublist w (prepareLogForModel rawLog)"
proof
  let ?log = "trim_text (redactSecrets (crlf_to_lf rawLog))"
  have clean: "\<not> sublist w (take i ?log)" "\<not> sublist w (drop i ?log)" for i
    using redacted_without_tokens [OF assms, of "crlf_to_lf rawLog"] sublist_trim_text
    by (meson sublist_order.order_trans sublist_take sublist_drop)+
  have sep: "\<not> token_unit nl" "\<not> token_unit (unit_of (CHR '' ''))" by (simp_all add: nl_def unit_classes)
  note around = token_around [OF assms]
  assume "sublist w (prepareLogForModel rawLog)"
  then show False
  proof (cases "length ?log \<le> MAX_LOG_CHARS")
    case True
    with \<open>sublist w _\<close> clean(1) [of "length ?log"] show False by (simp add: prepareLogForModel_def)
  next
    case False
    define n where "n = length ?log - LOG_HEAD_CHARS - (MAX_LOG_CHARS - LOG_HEAD_CHARS)"
    define tail where "tail = drop (length ?log - (MAX_LOG_CHARS - LOG_HEAD_CHARS)) ?log"
    have "prepareLogForModel rawLog =
        take LOG_HEAD_CHARS ?log @ nl # [nl] @ units ''[...'' @ unit_of (CHR '' '') # units (dec_nat n)
          @ unit_of (CHR '' '') # units ''characters'' @ unit_of (CHR '' '') # units ''omitted ...]'' @ nl # [] @ nl # tail"
      using False by (simp add: prepareLogForModel_def Let_def n_def tail_def units_def)
    with \<open>sublist w (prepareLogForModel rawLog)\<close> have
      "sublist w (take LOG_HEAD_CHARS ?log) \<or> sublist w ([nl] @ units ''[...'') \<or> sublist w (units (dec_nat n))
       \<or> sublist w (units ''characters'') \<or> sublist w (units ''omitted ...]'') \<or> sublist w [] \<or> sublist w tail"
      using around [OF sep(1)] around [OF sep(2)] by (metis append.assoc)
    then show False
      using clean number_no_token [OF assms] short_no_token [OF assms] by (auto simp: tail_def)
  qed
qed

end
