(* ===== verification/SourceContext.thy ===== *)
theory SourceContext imports WorkspaceFiles LogRedaction begin

text \<open>
  \<^verbatim>\<open>backend/src/services/buildSourceContext.ts\<close>: the places a build log names, the files of the
  repository they stand for, and the lines around them that go to the model with the log.

  The file system is a parameter: \<open>lstat\<close> and \<open>realpath\<close> as in \<open>PathContainment\<close>,
  whether a path is a file and its size, its text, and the entries of a directory below the repository, in the order
  of \<^verbatim>\<open>localeCompare\<close>. The walk over the directories is a loop that ends where they form a finite
  tree. The lemmas show that every snippet is a piece of a file that the guard of \<open>PathContainment\<close> let
  pass, read at the very path the guard returned.
\<close>

definition CONTEXT_RADIUS :: nat where "CONTEXT_RADIUS = 6"
definition MAX_SNIPPETS :: nat where "MAX_SNIPPETS = 3"
definition MAX_SOURCE_BYTES :: nat where "MAX_SOURCE_BYTES = 2 * 1024 * 1024"
definition MAX_LINE_CHARS :: nat where "MAX_LINE_CHARS = 300"
definition MAX_SEARCH_FILES :: nat where "MAX_SEARCH_FILES = 2000"

definition SKIPPED_DIRS :: "string list" where
  "SKIPPED_DIRS = [''.git'', ''node_modules'', ''output'', ''generated-assets'', ''.proofdesk-data'']"

definition SOURCE_EXTENSIONS :: "string list" where "SOURCE_EXTENSIONS = [''.xml'', ''.ptx'']"

record source_snippet =
  sn_path :: string
  sn_line :: nat
  sn_text :: code_text

type_synonym log_location = "string \<times> nat"

section \<open>The places a log names\<close>

text \<open>The matches of a pattern with the flag \<^verbatim>\<open>g\<close>, each with its index.\<close>

function scan_all :: "(char option \<Rightarrow> string \<Rightarrow> (nat \<times> 'b) option) \<Rightarrow> nat \<Rightarrow> char option \<Rightarrow> string \<Rightarrow> (nat \<times> 'b) list" where
  "scan_all m i prev [] = []"
| "scan_all m i prev (x # xs) =
     (case m prev (x # xs) of
        None \<Rightarrow> scan_all m (Suc i) (Some x) xs
      | Some (n, v) \<Rightarrow>
          (i, v) # scan_all m (i + max 1 n) (if n - 1 < length (x # xs) then Some ((x # xs) ! (n - 1)) else None) (drop (n - 1) xs))"
  by pat_completeness auto
termination by (relation "measure (\<lambda>(m, i, prev, s). length s)") auto

declare scan_all.simps(2) [simp del]

definition path_char :: "char \<Rightarrow> bool" where
  "path_char c = (\<not> is_space c \<and> c \<notin> set ''|>(),:'' \<and> c \<noteq> CHR 0x22 \<and> c \<noteq> CHR 0x27)"

text \<open>One or more characters and \<^verbatim>\<open>\.(?:xml|ptx|tex)\<close>, in upper or lower case.\<close>

definition names_source :: "string \<Rightarrow> bool" where
  "names_source p = (4 < length p \<and> (\<exists>e \<in> set [''.xml'', ''.ptx'', ''.tex'']. ends_with e (to_lower p)))"

text \<open>\<^verbatim>\<open>\b\<close> after a digit.\<close>

definition word_ends :: "string \<Rightarrow> bool" where
  "word_ends s = (case s of [] \<Rightarrow> True | c # _ \<Rightarrow> \<not> (is_alpha c \<or> is_digit c \<or> c = CHR ''_''))"

definition colon_location :: "char option \<Rightarrow> string \<Rightarrow> (nat \<times> log_location) option" where
  "colon_location prev s =
     (let p = takeWhile path_char s; r = drop (length p) s; ds = takeWhile is_digit (tl r)
      in if names_source p \<and> starts_with '':'' r \<and> ds \<noteq> [] \<and> word_ends (drop (length ds) (tl r))
         then Some (length p + 1 + length ds, (p, digits_val ds)) else None)"

definition opens :: "char list \<Rightarrow> string \<Rightarrow> nat" where
  "opens cs s = (if s \<noteq> [] \<and> hd s \<in> set cs then 1 else 0)"

definition worded_location :: "char option \<Rightarrow> string \<Rightarrow> (nat \<times> log_location) option" where
  "worded_location prev s =
     (let q = opens [CHR 0x22, CHR ''(''] s;
          p = takeWhile path_char (drop q s);
          a = q + length p + opens [CHR 0x22] (drop (q + length p) s);
          b = Suc a + length (takeWhile is_space (drop (Suc a) s));
          w = length (takeWhile is_space (drop (b + 4) s));
          ds = takeWhile is_digit (drop (b + 4 + w) s);
          e = b + 4 + w + length ds
      in if names_source p \<and> starts_with '','' (drop a s) \<and> to_lower (take 4 (drop b s)) = ''line'' \<and> w \<noteq> 0
            \<and> ds \<noteq> [] \<and> word_ends (drop e s)
         then Some (e, (p, digits_val ds)) else None)"

definition location_key :: "log_location \<Rightarrow> string" where
  "location_key l = fst l @ '':'' @ dec_nat (snd l)"

definition distinct_locations :: "log_location list \<Rightarrow> log_location list" where
  "distinct_locations ls =
     rev (fst (fold (\<lambda>l (out, seen). if location_key l \<in> set seen then (out, seen) else (l # out, location_key l # seen))
            ls ([], [])))"

definition findLogLocations :: "string \<Rightarrow> log_location list" where
  "findLogLocations log =
     (let found = filter (\<lambda>(_, _, line). 1 \<le> line \<and> line \<le> 1000000)
            (scan_all colon_location 0 None log @ scan_all worded_location 0 None log)
      in distinct_locations (map snd (sort_key fst found)))"

text \<open>
  \<^verbatim>\<open>Undefined control sequence\<close>, the rest of its line, at most four lines, and a line
  \<^verbatim>\<open>l.<number> <text>\<close>; the value is that text.
\<close>

definition tex_line :: "string \<Rightarrow> string option" where
  "tex_line l =
     (let ds = takeWhile is_digit (drop 2 l)
      in if starts_with ''l.'' l \<and> ds \<noteq> [] \<and> starts_with '' '' (drop (2 + length ds) l)
         then Some (drop (3 + length ds) l) else None)"

fun first_tex_line :: "nat \<Rightarrow> string list \<Rightarrow> (nat \<times> string) option" where
  "first_tex_line i [] = None"
| "first_tex_line i (l # ls) = (case tex_line l of Some t \<Rightarrow> Some (i, t) | None \<Rightarrow> first_tex_line (Suc i) ls)"

definition undefined_macro :: "char option \<Rightarrow> string \<Rightarrow> (nat \<times> string) option" where
  "undefined_macro prev s =
     (let lit = ''Undefined control sequence''; lines = split_on newline (drop (length lit) s)
      in if starts_with lit s then
           (case first_tex_line 0 (take 5 (tl lines)) of
              Some (i, t) \<Rightarrow> Some (length lit + length (join [newline] (take (i + 2) lines)), t)
            | None \<Rightarrow> None)
         else None)"

definition backslash :: char where "backslash = CHR 0x5C"

definition tex_command :: "char option \<Rightarrow> string \<Rightarrow> (nat \<times> string) option" where
  "tex_command prev s =
     (let w = takeWhile is_alpha (tl s)
      in if starts_with [backslash] s \<and> w \<noteq> [] then Some (Suc (length w), backslash # w) else None)"

definition findUndefinedMacros :: "string \<Rightarrow> string list" where
  "findUndefinedMacros log =
     fold (\<lambda>(_, t) macros.
         let commands = map snd (scan_all tex_command 0 None t)
         in if commands = [] \<or> last commands \<in> set macros then macros else macros @ [last commands])
       (scan_all undefined_macro 0 None log) []"

section \<open>Files of the repository\<close>

datatype dir_entry = Dir_entry | File_entry | Other_entry

record source_fs =
  sf_lstat :: "string \<Rightarrow> bool"
  sf_realpath :: "string \<Rightarrow> string option"
  sf_stat :: "string \<Rightarrow> (bool \<times> nat) option"
  sf_read :: "string \<Rightarrow> string option"
  sf_readdir :: "string \<Rightarrow> (string \<times> dir_entry) list option"

text \<open>A path below the repository.\<close>

definition in_repo :: "string \<Rightarrow> string \<Rightarrow> string \<Rightarrow> string" where
  "in_repo cwd repoRoot rel = path_resolve cwd [repoRoot, rel]"

fun first_file :: "source_fs \<Rightarrow> string \<Rightarrow> string \<Rightarrow> string list \<Rightarrow> string option" where
  "first_file fs cwd repoRoot [] = None"
| "first_file fs cwd repoRoot (s # ss) =
     (case resolveContainedPath (sf_lstat fs) (sf_realpath fs) cwd repoRoot (JStr (join [slash] (s # ss))) False of
        Inr absolute \<Rightarrow>
          (case sf_stat fs absolute of
             Some (isFile, bytes) \<Rightarrow>
               if isFile \<and> bytes \<le> MAX_SOURCE_BYTES then Some (relative_below (path_resolve cwd [repoRoot]) absolute)
               else first_file fs cwd repoRoot ss
           | None \<Rightarrow> first_file fs cwd repoRoot ss)
      | Inl _ \<Rightarrow> first_file fs cwd repoRoot ss)"

definition resolveLogPath :: "source_fs \<Rightarrow> string \<Rightarrow> string \<Rightarrow> string \<Rightarrow> string option" where
  "resolveLogPath fs cwd repoRoot rawPath =
     (let segments = filter (\<lambda>s. s \<noteq> [] \<and> s \<noteq> ''.'')
            (split_on slash (map (\<lambda>c. if c = backslash then slash else c) rawPath))
      in if ''..'' \<in> set segments then None else first_file fs cwd repoRoot segments)"

definition take_entries :: "string \<Rightarrow> (string \<times> dir_entry) list \<Rightarrow> string list \<times> string list" where
  "take_entries dir entries =
     (let named = map (\<lambda>(n, k). (if dir = [] then n else dir @ slash # n, n, k)) entries
      in (map fst (filter (\<lambda>(_, n, k). k = Dir_entry \<and> n \<notin> set SKIPPED_DIRS) named),
          map fst (filter (\<lambda>(_, n, k). k = File_entry \<and> path_extname (drop 1 n) \<in> set SOURCE_EXTENSIONS) named)))"

definition walk_step :: "source_fs \<Rightarrow> string list \<times> string list \<Rightarrow> string list \<times> string list" where
  "walk_step fs st =
     (case sf_readdir fs (hd (fst st)) of
        None \<Rightarrow> (tl (fst st), snd st)
      | Some entries \<Rightarrow>
          (case take_entries (hd (fst st)) entries of (dirs, files) \<Rightarrow> (tl (fst st) @ dirs, snd st @ files)))"

definition listSourceFiles :: "source_fs \<Rightarrow> string list option" where
  "listSourceFiles fs =
     map_option snd (while_option (\<lambda>st. fst st \<noteq> [] \<and> length (snd st) < MAX_SEARCH_FILES) (walk_step fs) ([[]], []))"

text \<open>The pattern of a macro: the macro with no letter after it.\<close>

fun uses_macro :: "string \<Rightarrow> string \<Rightarrow> bool" where
  "uses_macro macro [] = (macro = [])"
| "uses_macro macro (c # s) =
     (starts_with macro (c # s) \<and> (case drop (length macro) (c # s) of [] \<Rightarrow> True | d # _ \<Rightarrow> \<not> is_alpha d)
      \<or> uses_macro macro s)"

fun find_index :: "('a \<Rightarrow> bool) \<Rightarrow> 'a list \<Rightarrow> nat option" where
  "find_index P [] = None"
| "find_index P (x # xs) = (if P x then Some 0 else map_option Suc (find_index P xs))"

definition macro_hits :: "string \<Rightarrow> string list \<Rightarrow> string list \<Rightarrow> nat \<Rightarrow> log_location list \<Rightarrow> log_location list" where
  "macro_hits file lines macros limit hits =
     fold (\<lambda>macro hits. case find_index (uses_macro macro) lines of
             Some i \<Rightarrow> if length hits < limit then hits @ [(file, i + 1)] else hits
           | None \<Rightarrow> hits) macros hits"

fun locate_in :: "source_fs \<Rightarrow> string \<Rightarrow> string \<Rightarrow> string list \<Rightarrow> nat \<Rightarrow> string list \<Rightarrow> log_location list \<Rightarrow> log_location list" where
  "locate_in fs cwd repoRoot macros limit [] hits = hits"
| "locate_in fs cwd repoRoot macros limit (f # files) hits =
     (if limit \<le> length hits then hits
      else case sf_stat fs (in_repo cwd repoRoot f) of
          None \<Rightarrow> locate_in fs cwd repoRoot macros limit files hits
        | Some (_, bytes) \<Rightarrow>
            if MAX_SOURCE_BYTES < bytes then locate_in fs cwd repoRoot macros limit files hits
            else case sf_read fs (in_repo cwd repoRoot f) of
                None \<Rightarrow> locate_in fs cwd repoRoot macros limit files hits
              | Some content \<Rightarrow>
                  locate_in fs cwd repoRoot macros limit files (macro_hits f (split_on newline content) macros limit hits))"

definition locateMacroUses :: "source_fs \<Rightarrow> string \<Rightarrow> string \<Rightarrow> string list \<Rightarrow> nat \<Rightarrow> log_location list option" where
  "locateMacroUses fs cwd repoRoot macros limit =
     (if macros = [] \<or> limit = 0 then Some []
      else map_option (\<lambda>files. locate_in fs cwd repoRoot macros limit files []) (listSourceFiles fs))"

section \<open>Snippets\<close>

definition ellipsis_mark :: code_unit where "ellipsis_mark = 0x2026"

definition snippet_line :: "string list \<Rightarrow> nat \<Rightarrow> nat \<Rightarrow> nat \<Rightarrow> code_text" where
  "snippet_line lines width line n =
     (let raw = (if n - 1 < length lines then lines ! (n - 1) else []);
          txt = (if MAX_LINE_CHARS < length raw then units (take MAX_LINE_CHARS raw) @ [ellipsis_mark] else units raw)
      in units ((if n = line then ''>'' else '' '') @ '' '' @ pad_left width (CHR '' '') (dec_nat n) @ '' | '') @ txt)"

fun join_units :: "code_text \<Rightarrow> code_text list \<Rightarrow> code_text" where
  "join_units sep [] = []"
| "join_units sep [w] = w"
| "join_units sep (w # ws) = w @ sep @ join_units sep ws"

definition formatSnippet :: "string list \<Rightarrow> nat \<Rightarrow> code_text" where
  "formatSnippet lines line =
     (let first_line = max 1 (line - CONTEXT_RADIUS);
          last_line = min (length lines) (line + CONTEXT_RADIUS);
          width = length (dec_nat last_line)
      in join_units [nl] (map (snippet_line lines width line) [first_line ..< Suc last_line]))"

text \<open>\<^verbatim>\<open>content.replace(/\r\n/g, '\n').split('\n')\<close>.\<close>

fun unix_lines :: "string \<Rightarrow> string" where
  "unix_lines (a # b # s) =
     (if a = CHR 0x0D \<and> b = newline then newline # unix_lines s else a # unix_lines (b # s))"
| "unix_lines s = s"

definition source_lines :: "string \<Rightarrow> string list" where
  "source_lines content = split_on newline (unix_lines content)"

type_synonym file_cache = "(string, string list option) jsmap"

definition cached_lines :: "source_fs \<Rightarrow> string \<Rightarrow> string \<Rightarrow> string \<Rightarrow> file_cache \<Rightarrow> string list option \<times> file_cache" where
  "cached_lines fs cwd repoRoot relative fileCache =
     (case map_get fileCache relative of
        Some lines \<Rightarrow> (lines, fileCache)
      | None \<Rightarrow>
          (let lines = map_option source_lines (sf_read fs (in_repo cwd repoRoot relative))
           in (lines, map_set relative lines fileCache)))"

definition close_to :: "string \<Rightarrow> nat \<Rightarrow> source_snippet \<Rightarrow> bool" where
  "close_to relative line s =
     (sn_path s = relative \<and> (sn_line s - line) + (line - sn_line s) \<le> CONTEXT_RADIUS)"

fun collect :: "source_fs \<Rightarrow> string \<Rightarrow> string \<Rightarrow> log_location list \<Rightarrow> source_snippet list \<times> file_cache \<Rightarrow> source_snippet list" where
  "collect fs cwd repoRoot [] (snippets, fileCache) = snippets"
| "collect fs cwd repoRoot ((rawPath, line) # ls) (snippets, fileCache) =
     (if MAX_SNIPPETS \<le> length snippets then snippets
      else case resolveLogPath fs cwd repoRoot rawPath of
          None \<Rightarrow> collect fs cwd repoRoot ls (snippets, fileCache)
        | Some relative \<Rightarrow>
            if relative = [] \<or> list_ex (close_to relative line) snippets
            then collect fs cwd repoRoot ls (snippets, fileCache)
            else case cached_lines fs cwd repoRoot relative fileCache of
                (None, fileCache') \<Rightarrow> collect fs cwd repoRoot ls (snippets, fileCache')
              | (Some lines, fileCache') \<Rightarrow>
                  collect fs cwd repoRoot ls
                    (if length lines < line then snippets
                     else snippets @ [\<lparr>sn_path = relative, sn_line = line, sn_text = formatSnippet lines line\<rparr>],
                     fileCache'))"

definition collectSourceContext :: "source_fs \<Rightarrow> string \<Rightarrow> string option \<Rightarrow> string \<Rightarrow> source_snippet list option" where
  "collectSourceContext fs cwd repoRoot log =
     (case repoRoot of
        None \<Rightarrow> Some []
      | Some root \<Rightarrow>
          if root = [] then Some []
          else map_option (\<lambda>macroUses. collect fs cwd root (findLogLocations log @ macroUses) ([], []))
                 (locateMacroUses fs cwd root (findUndefinedMacros log) MAX_SNIPPETS))"

section \<open>The guard's path is the path that is read\<close>

lemma resolve_join_append: "resolve_join ps acc = resolve_join ps [] @ acc"
proof (induction ps arbitrary: acc)
  case (Cons p ps)
  show ?case using Cons.IH [of "p @ slash # acc"] Cons.IH [of "p @ [slash]"] Cons.IH [of acc] by simp
qed simp

lemma resolve_join_slash: "resolve_join ps [] = [] \<or> (\<exists>u. resolve_join ps [] = u @ [slash])"
proof (induction ps)
  case (Cons p ps)
  then show ?case using resolve_join_append [of ps "p @ [slash]"] by auto
qed simp

lemma clean_relative:
  assumes "clean rs" and "rs \<noteq> []"
  shows "\<not> starts_with [slash] (join [slash] rs)"
proof (cases rs)
  case (Cons r rest)
  with assms(1) have "clean_segment r" by simp
  then obtain c r' where "r = c # r'" "c \<noteq> slash" by (cases r) (auto simp: clean_segment_def)
  with Cons show ?thesis by (simp add: join_Cons)
qed (use assms in simp)

text \<open>Ordinary segments below a directory are appended to its segments.\<close>

lemma in_repo_below:
  assumes "root \<noteq> []" and "clean rs" and "rs \<noteq> []"
  shows "in_repo cwd root (join [slash] rs) = abs_path (path_segments (path_resolve cwd [root]) @ rs)"
proof -
  let ?X = "resolve_join [root, cwd] []"
  have ne: "join [slash] rs \<noteq> []" by (rule join_clean_not_Nil [OF assms(3,2)])
  have "?X \<noteq> []" using assms(1) by (auto simp: resolve_join_append [of _ "_ # _"])
  then obtain u where u: "?X = u @ [slash]" using resolve_join_slash by blast
  have "resolve_join [join [slash] rs, root, cwd] [] = resolve_join [root, cwd] (join [slash] rs @ [slash])"
    using ne clean_relative [OF assms(2,3)] by simp
  also have "\<dots> = u @ slash # join [slash] rs @ [slash]"
    unfolding resolve_join_append [of _ "join [slash] rs @ [slash]"] u by simp
  finally have joined: "resolve_join [join [slash] rs, root, cwd] [] = u @ slash # join [slash] rs @ [slash]" .
  have sp: "split_on slash (join [slash] rs @ [slash]) = rs @ [[]]"
    using split_on_append [of slash "join [slash] rs" "[]"] split_on_join [of rs slash] assms(2,3)
    by (simp add: clean_segment_def)
  have spj: "split_on slash (join [slash] rs) = rs"
    using split_on_join [of rs slash] assms(2,3) by (simp add: clean_segment_def)
  have segs: "path_segments ?X = norm_segments [] (split_on slash u)"
    unfolding u path_segments_def using split_on_append [of slash u "[]"] by (simp add: norm_segments_append)
  have "path_segments (resolve_join [join [slash] rs, root, cwd] []) = path_segments ?X @ rs"
    unfolding joined segs
    unfolding path_segments_def split_on_append sp norm_segments_append [of _ _ "rs @ _"]
    by (simp add: spj norm_segments_append norm_segments_ident [OF assms(2)])
  then show ?thesis by (simp add: in_repo_def path_resolve_def)
qed

lemma guarded_path_reread:
  assumes "resolveContainedPath ls rp cwd root (JStr rel) False = Inr target" and "root \<noteq> []"
  shows "in_repo cwd root (relative_below (path_resolve cwd [root]) target) = target"
proof -
  let ?bs = "path_segments (path_resolve cwd [root])"
  have base: "path_resolve cwd [root] = abs_path ?bs" by (rule path_resolve_segments)
  from assms(1) have lex: "resolveContainedPathLexical cwd root (JStr rel) = Inr target"
    and not_base: "target \<noteq> path_resolve cwd [root]"
    by (auto simp: resolveContainedPath_def Let_def split: sum.splits if_splits option.splits)
  from lex have "target = path_resolve cwd [path_resolve cwd [root], rel]" and pre: "?bs \<noteq> []" "prefix ?bs (path_segments target)"
    using not_base by (auto simp: lexical_guard_iff)
  then have target: "target = abs_path (path_segments target)" using path_resolve_segments by metis
  from pre(2) obtain rs where rs: "path_segments target = ?bs @ rs" by (auto simp: prefix_def)
  have "rs \<noteq> []" using target rs base not_base by auto
  have all: "clean (?bs @ rs)" using path_segments_clean [of target] rs by simp
  have "relative_below (path_resolve cwd [root]) target = join [slash] rs"
    using relative_below_segments [OF path_segments_clean all pre(1)] target rs base by metis
  moreover have "in_repo cwd root (join [slash] rs) = abs_path (?bs @ rs)"
    using all by (intro in_repo_below [OF assms(2) _ \<open>rs \<noteq> []\<close>]) simp
  ultimately show ?thesis using target rs by simp
qed

section \<open>Every snippet is a piece of a guarded file\<close>

text \<open>The snippet shows the lines around a line of a file that the guard let pass.\<close>

definition guarded_source :: "source_fs \<Rightarrow> string \<Rightarrow> string \<Rightarrow> source_snippet \<Rightarrow> bool" where
  "guarded_source fs cwd root s \<longleftrightarrow>
     (\<exists>rel target bytes content.
        resolveContainedPath (sf_lstat fs) (sf_realpath fs) cwd root (JStr rel) False = Inr target
        \<and> sn_path s = relative_below (path_resolve cwd [root]) target
        \<and> sf_stat fs target = Some (True, bytes) \<and> bytes \<le> MAX_SOURCE_BYTES \<and> sf_read fs target = Some content
        \<and> 1 \<le> sn_line s \<and> sn_line s \<le> length (source_lines content)
        \<and> sn_text s = formatSnippet (source_lines content) (sn_line s))"

lemma first_file_guarded:
  assumes "first_file fs cwd root ss = Some r"
  shows "\<exists>rel target bytes. resolveContainedPath (sf_lstat fs) (sf_realpath fs) cwd root (JStr rel) False = Inr target
           \<and> sf_stat fs target = Some (True, bytes) \<and> bytes \<le> MAX_SOURCE_BYTES
           \<and> r = relative_below (path_resolve cwd [root]) target"
  using assms
proof (induction ss)
  case (Cons s ss)
  then show ?case by (fastforce split: sum.splits option.splits if_splits)
qed simp

lemma resolved_guarded:
  assumes "resolveLogPath fs cwd root rawPath = Some r"
  shows "\<exists>rel target bytes. resolveContainedPath (sf_lstat fs) (sf_realpath fs) cwd root (JStr rel) False = Inr target
           \<and> sf_stat fs target = Some (True, bytes) \<and> bytes \<le> MAX_SOURCE_BYTES
           \<and> r = relative_below (path_resolve cwd [root]) target"
  using assms unfolding resolveLogPath_def Let_def by (split if_split_asm) (blast dest: first_file_guarded)+

definition cache_true :: "source_fs \<Rightarrow> string \<Rightarrow> string \<Rightarrow> file_cache \<Rightarrow> bool" where
  "cache_true fs cwd root fileCache =
     (\<forall>rel lines. map_get fileCache rel = Some lines \<longrightarrow> lines = map_option source_lines (sf_read fs (in_repo cwd root rel)))"

lemma cached_lines_true:
  assumes "cache_true fs cwd root fileCache"
  shows "fst (cached_lines fs cwd root rel fileCache) = map_option source_lines (sf_read fs (in_repo cwd root rel))"
    and "cache_true fs cwd root (snd (cached_lines fs cwd root rel fileCache))"
  using assms by (auto simp: cached_lines_def cache_true_def Let_def split: option.splits)

definition snippets_ok :: "source_fs \<Rightarrow> string \<Rightarrow> string \<Rightarrow> source_snippet list \<Rightarrow> bool" where
  "snippets_ok fs cwd root snippets \<longleftrightarrow>
     length snippets \<le> MAX_SNIPPETS \<and> (\<forall>s \<in> set snippets. guarded_source fs cwd root s)
     \<and> sorted_wrt (\<lambda>s t. \<not> close_to (sn_path t) (sn_line t) s) snippets"

definition from_one :: "log_location \<Rightarrow> bool" where "from_one l = (1 \<le> snd l)"

lemma collect_ok:
  assumes "root \<noteq> []" and "list_all from_one ls" and "cache_true fs cwd root fileCache"
    and "snippets_ok fs cwd root snippets"
  shows "snippets_ok fs cwd root (collect fs cwd root ls (snippets, fileCache))"
  using assms(2-4)
proof (induction ls arbitrary: snippets fileCache)
  case (Cons l ls)
  obtain rawPath line where l: "l = (rawPath, line)" by (cases l)
  have lines: "list_all from_one ls" "1 \<le> line" using Cons.prems(1) by (simp_all add: l from_one_def [of "(_, _)"])
  note IH = Cons.IH [OF lines(1)]
  show ?case
  proof (cases "MAX_SNIPPETS \<le> length snippets \<or> resolveLogPath fs cwd root rawPath = None")
    case True
    then show ?thesis using Cons.prems IH by (auto simp: l)
  next
    case False
    then obtain relative where relative: "resolveLogPath fs cwd root rawPath = Some relative"
      and room: "length snippets < MAX_SNIPPETS" by auto
    obtain found fileCache' where c: "cached_lines fs cwd root relative fileCache = (found, fileCache')" by fastforce
    note true = cached_lines_true [OF Cons.prems(2), of relative, unfolded c fst_conv snd_conv]
    show ?thesis
    proof (cases "relative = [] \<or> list_ex (close_to relative line) snippets \<or> found = None \<or> length (the found) < line")
      case True
      have no_room: "\<not> MAX_SNIPPETS \<le> length snippets" using room by simp
      consider "relative = [] \<or> list_ex (close_to relative line) snippets"
        | "\<not> (relative = [] \<or> list_ex (close_to relative line) snippets)" "found = None"
        | lns where "\<not> (relative = [] \<or> list_ex (close_to relative line) snippets)" "found = Some lns" "length lns < line"
        using True by (cases found) auto
      then show ?thesis
      proof cases
        case 1
        show ?thesis using IH [OF Cons.prems(2,3)]
          by (simp only: l collect.simps if_not_P [OF no_room] relative option.simps if_P [OF 1])
      next
        case 2
        show ?thesis using IH [OF true(2) Cons.prems(3)]
          by (simp only: l collect.simps if_not_P [OF no_room] relative option.simps if_not_P [OF 2(1)] c 2(2) prod.case)
      next
        case 3
        show ?thesis using IH [OF true(2) Cons.prems(3)]
          by (simp only: l collect.simps if_not_P [OF no_room] relative option.simps if_not_P [OF 3(1)] c 3(2) prod.case if_P [OF 3(3)])
      qed
    next
      case new: False
      then obtain lns where lns: "found = Some lns" "line \<le> length lns" by auto
      from relative obtain rel target bytes where t:
        "resolveContainedPath (sf_lstat fs) (sf_realpath fs) cwd root (JStr rel) False = Inr target"
        "sf_stat fs target = Some (True, bytes)" "bytes \<le> MAX_SOURCE_BYTES"
        "relative = relative_below (path_resolve cwd [root]) target"
        using resolved_guarded by blast
      then have "sf_read fs (in_repo cwd root relative) = sf_read fs target"
        using guarded_path_reread [OF t(1) assms(1)] by simp
      then obtain content where "sf_read fs target = Some content" "lns = source_lines content"
        using true(1) lns by (cases "sf_read fs target") simp_all
      then have "guarded_source fs cwd root \<lparr>sn_path = relative, sn_line = line, sn_text = formatSnippet lns line\<rparr>"
        unfolding guarded_source_def using t lns lines(2) by auto
      then have "snippets_ok fs cwd root (snippets @ [\<lparr>sn_path = relative, sn_line = line, sn_text = formatSnippet lns line\<rparr>])"
        using Cons.prems(3) room new by (auto simp: snippets_ok_def sorted_wrt_append list_ex_iff)
      from IH [OF true(2) this] show ?thesis using room relative c new lns by (simp add: l)
    qed
  qed
qed simp

lemma located_lines:
  assumes "list_all from_one hits"
  shows "list_all from_one (macro_hits file lns macros limit hits)"
  using assms
proof (induction macros arbitrary: hits)
  case (Cons m macros)
  show ?case
  proof (cases "find_index (uses_macro m) lns")
    case (Some i)
    with Cons.IH [of "hits @ [(file, i + 1)]"] Cons.IH [of hits] Cons.prems show ?thesis by (simp add: macro_hits_def from_one_def)
  qed (use Cons in \<open>simp add: macro_hits_def\<close>)
qed (simp add: macro_hits_def)

lemma locate_in_lines:
  assumes "list_all from_one hits"
  shows "list_all from_one (locate_in fs cwd root macros limit files hits)"
  using assms
proof (induction files arbitrary: hits)
  case (Cons f files)
  have "list_all from_one (macro_hits f lns macros limit hits)" for lns
    using located_lines [OF Cons.prems] by blast
  with Cons.IH Cons.prems show ?case by (simp split: option.split prod.split)
qed simp

lemma set_distinct_locations: "set (distinct_locations ls) \<subseteq> set ls"
proof -
  have "set (fst (fold (\<lambda>l (out, seen). if location_key l \<in> set seen then (out, seen) else (l # out, location_key l # seen))
      ls (out, seen))) \<subseteq> set ls \<union> set out" for out seen
  proof (induction ls arbitrary: out seen)
    case (Cons l ls)
    show ?case
    proof (cases "location_key l \<in> set seen")
      case True
      then show ?thesis using Cons [of out seen] by auto
    next
      case False
      then show ?thesis using Cons [of "l # out" "location_key l # seen"] by auto
    qed
  qed simp
  from this [of "[]" "[]"] show ?thesis by (simp add: distinct_locations_def)
qed

lemma found_lines: "list_all from_one (findLogLocations log)"
proof -
  define found where "found = filter (\<lambda>(_, _, line). 1 \<le> line \<and> line \<le> 1000000)
      (scan_all colon_location 0 None log @ scan_all worded_location 0 None log)"
  have "1 \<le> snd (snd x)" if "x \<in> set found" for x using that by (auto simp: found_def)
  then have "list_all from_one (map snd (sort_key fst found))" by (simp add: list_all_iff from_one_def)
  moreover have "findLogLocations log = distinct_locations (map snd (sort_key fst found))"
    by (simp add: findLogLocations_def Let_def found_def)
  ultimately show ?thesis using set_distinct_locations unfolding list_all_iff by (metis subsetD)
qed

text \<open>
  Claim C3. The source that goes to the model. However the log names files, a snippet shows the lines around a line that
  exists in a file of at most 2 MB, which the guard let pass and which was read at the path the guard returned; there
  are at most three, and no two show the same lines of a file.
\<close>

theorem collected_source_is_guarded:
  assumes "collectSourceContext fs cwd (Some root) log = Some snippets"
  shows "length snippets \<le> 3 \<and> (\<forall>s \<in> set snippets. guarded_source fs cwd root s)
         \<and> sorted_wrt (\<lambda>s t. \<not> close_to (sn_path t) (sn_line t) s) snippets"
proof -
  have "snippets_ok fs cwd root snippets"
  proof (cases "root = []")
    case True
    then show ?thesis using assms by (auto simp: collectSourceContext_def snippets_ok_def)
  next
    case False
    then obtain uses where uses: "locateMacroUses fs cwd root (findUndefinedMacros log) MAX_SNIPPETS = Some uses"
      and snippets: "snippets = collect fs cwd root (findLogLocations log @ uses) ([], [])"
      using assms by (auto simp: collectSourceContext_def)
    have "list_all from_one uses"
    proof (cases "findUndefinedMacros log = []")
      case False
      then obtain files where "uses = locate_in fs cwd root (findUndefinedMacros log) MAX_SNIPPETS files []"
        using uses by (auto simp: locateMacroUses_def MAX_SNIPPETS_def)
      then show ?thesis using locate_in_lines [of "[]"] by simp
    qed (use uses in \<open>simp add: locateMacroUses_def\<close>)
    then have "list_all from_one (findLogLocations log @ uses)" using found_lines by auto
    from collect_ok [OF False this, of fs cwd "[]" "[]"] show ?thesis
      by (simp add: snippets cache_true_def snippets_ok_def)
  qed
  then show ?thesis by (simp add: snippets_ok_def MAX_SNIPPETS_def)
qed

definition one_chapter :: source_fs where
  "one_chapter = \<lparr>sf_lstat = (\<lambda>p. p \<in> set [''/r'', ''/r/c.xml'']), sf_realpath = (\<lambda>p. Some p),
     sf_stat = (\<lambda>p. if p = ''/r/c.xml'' then Some (True, 9) else None),
     sf_read = (\<lambda>p. if p = ''/r/c.xml'' then Some (''<p>'' @ [newline] @ ''<q>'') else None), sf_readdir = (\<lambda>d. None)\<rparr>"

theorem collected_source_is_guarded_witness:
  "\<exists>s. collectSourceContext one_chapter ''/'' (Some ''/r'') ''/build/c.xml:2: bad c.xml:1: worse'' = Some [s]
     \<and> guarded_source one_chapter ''/'' ''/r'' s"
proof -
  let ?log = "''/build/c.xml:2: bad c.xml:1: worse''"
  have "scan_all colon_location 0 None ?log = [(0, ''/build/c.xml'', 2), (20, ''c.xml'', 1)]"
    "scan_all worded_location 0 None ?log = []" by code_simp+
  moreover have "distinct_locations [(''/build/c.xml'', 2), (''c.xml'', 1)] = [(''/build/c.xml'', 2), (''c.xml'', 1)]"
    by code_simp
  ultimately have found: "findLogLocations ?log = [(''/build/c.xml'', 2), (''c.xml'', 1)]"
    by (simp add: findLogLocations_def)
  have macros: "findUndefinedMacros ?log = []" by code_simp
  have guard: "resolveContainedPath (sf_lstat one_chapter) (sf_realpath one_chapter) ''/'' ''/r'' (JStr ''c.xml'') False
      = Inr ''/r/c.xml''"
    "resolveContainedPath (sf_lstat one_chapter) (sf_realpath one_chapter) ''/'' ''/r'' (JStr ''build/c.xml'') False
      = Inr ''/r/build/c.xml''"
    "relative_below (path_resolve ''/'' [''/r'']) ''/r/c.xml'' = ''c.xml''" "in_repo ''/'' ''/r'' ''c.xml'' = ''/r/c.xml''"
    by code_simp+
  have stat: "sf_stat one_chapter ''/r/c.xml'' = Some (True, 9)" "sf_stat one_chapter ''/r/build/c.xml'' = None"
    by (simp_all add: one_chapter_def)
  have segs: "filter (\<lambda>s. s \<noteq> [] \<and> s \<noteq> ''.'') (split_on slash (map (\<lambda>c. if c = backslash then slash else c) ''/build/c.xml''))
      = [''build'', ''c.xml'']"
    "filter (\<lambda>s. s \<noteq> [] \<and> s \<noteq> ''.'') (split_on slash (map (\<lambda>c. if c = backslash then slash else c) ''c.xml''))
      = [''c.xml'']" by code_simp+
  have path: "resolveLogPath one_chapter ''/'' ''/r'' ''/build/c.xml'' = Some ''c.xml''"
    "resolveLogPath one_chapter ''/'' ''/r'' ''c.xml'' = Some ''c.xml''"
    unfolding resolveLogPath_def segs by (simp_all add: guard stat MAX_SOURCE_BYTES_def)
  have lines: "map_option source_lines (sf_read one_chapter ''/r/c.xml'') = Some [''<p>'', ''<q>'']" by code_simp
  have c: "collectSourceContext one_chapter ''/'' (Some ''/r'') ?log
      = Some [\<lparr>sn_path = ''c.xml'', sn_line = 2, sn_text = formatSnippet [''<p>'', ''<q>''] 2\<rparr>]"
    unfolding collectSourceContext_def found macros
    by (simp add: locateMacroUses_def path cached_lines_def Let_def guard lines MAX_SNIPPETS_def close_to_def CONTEXT_RADIUS_def)
  from collected_source_is_guarded [OF c] show ?thesis unfolding c by simp
qed

section \<open>The walk ends\<close>

text \<open>
  Directories that form a finite tree have a weight: that of a directory is at least that of all directories in it,
  each counted with itself.
\<close>

definition finite_tree :: "source_fs \<Rightarrow> (string \<Rightarrow> nat) \<Rightarrow> bool" where
  "finite_tree fs weight \<longleftrightarrow>
     (\<forall>dir entries. sf_readdir fs dir = Some entries \<longrightarrow>
        sum_list (map (\<lambda>d. Suc (weight d)) (fst (take_entries dir entries))) \<le> weight dir)"

theorem source_walk_ends:
  assumes "finite_tree fs weight"
  shows "\<exists>files. listSourceFiles fs = Some files"
proof -
  let ?f = "\<lambda>st :: string list \<times> string list. sum_list (map (\<lambda>d. Suc (weight d)) (fst st))"
  have "\<exists>t. while_option (\<lambda>st. fst st \<noteq> [] \<and> length (snd st) < MAX_SEARCH_FILES) (walk_step fs) ([[]], []) = Some t"
  proof (rule measure_while_option_Some [where P = "\<lambda>_. True" and f = ?f])
    fix st :: "string list \<times> string list"
    assume "fst st \<noteq> [] \<and> length (snd st) < MAX_SEARCH_FILES"
    then obtain d ds where st: "fst st = d # ds" by (auto simp: neq_Nil_conv)
    show "True \<and> ?f (walk_step fs st) < ?f st"
    proof (cases "sf_readdir fs d")
      case (Some entries)
      then have "sum_list (map (\<lambda>d. Suc (weight d)) (fst (take_entries d entries))) \<le> weight d"
        using assms by (simp add: finite_tree_def)
      then show ?thesis using st Some by (cases "take_entries d entries") (simp add: walk_step_def)
    qed (simp add: walk_step_def st)
  qed simp
  then show ?thesis by (auto simp: listSourceFiles_def)
qed

end
