(* ===== verification/RateLimiter.thy ===== *)
theory RateLimiter imports AuthRoutes begin

text \<open>
  \<^verbatim>\<open>backend/src/utils/rateLimiter.ts\<close>: the sliding-window limiter in front of the routes that start
  builds and take feedback. The state of a limiter is the map from a key to the times of its calls, and a call reads
  the clock once. The theorem says what a call answers over any history, in which the sweep of old buckets must not show.
\<close>

definition LIMIT_TRUE_VALUES :: "string list" where "LIMIT_TRUE_VALUES = [''1'', ''true'', ''yes'', ''on'']"

definition rateLimitingDisabled :: "env \<Rightarrow> bool" where
  "rateLimitingDisabled env =
     (env ''NODE_ENV'' = Some ''test''
      \<or> to_lower (trim (opt_str (env ''ENABLE_LOCAL_TEST_MODE''))) \<in> set LIMIT_TRUE_VALUES)"

type_synonym buckets = "(string, int list) jsmap"

definition times_of :: "buckets \<Rightarrow> string \<Rightarrow> int list" where
  "times_of bs key = (case map_get bs key of None \<Rightarrow> [] | Some ts \<Rightarrow> ts)"

definition sweep :: "int \<Rightarrow> buckets \<Rightarrow> buckets" where
  "sweep cutoff bs = (if 5000 < length bs then filter (\<lambda>(_, ts). \<not> last ts < cutoff) bs else bs)"

definition limiter_call :: "env \<Rightarrow> int \<Rightarrow> nat \<Rightarrow> string \<Rightarrow> int \<Rightarrow> buckets \<Rightarrow> bool \<times> buckets" where
  "limiter_call env windowMs maxRequests key now bs =
     (if rateLimitingDisabled env then (True, bs)
      else let cutoff = now - windowMs;
               timestamps = filter (\<lambda>t. cutoff < t) (times_of bs key) @ [now]
           in (length timestamps \<le> maxRequests, sweep cutoff (map_set key timestamps bs)))"

fun run_limiter :: "env \<Rightarrow> int \<Rightarrow> nat \<Rightarrow> buckets \<Rightarrow> (string \<times> int) list \<Rightarrow> bool list" where
  "run_limiter env w m bs [] = []"
| "run_limiter env w m bs ((key, now) # calls) =
     (case limiter_call env w m key now bs of (ok, bs') \<Rightarrow> ok # run_limiter env w m bs' calls)"

section \<open>What the buckets remember\<close>

definition calls_of :: "string \<Rightarrow> (string \<times> int) list \<Rightarrow> int list" where
  "calls_of key calls = map snd (filter (\<lambda>(k, _). k = key) calls)"

text \<open>Of every key all calls are known that are later than \<open>T\<close>; the calls of a bucket are in order, up to \<open>now\<close>.\<close>

definition remembers :: "int \<Rightarrow> int \<Rightarrow> (string \<times> int) list \<Rightarrow> buckets \<Rightarrow> bool" where
  "remembers T now past bs =
     (keys_distinct bs \<and> (\<forall>key. filter (\<lambda>t. T < t) (times_of bs key) = filter (\<lambda>t. T < t) (calls_of key past))
      \<and> (\<forall>(key, ts) \<in> set bs. ts \<noteq> [] \<and> sorted ts \<and> last ts \<le> now))"

lemma remembers_later:
  assumes "remembers T now past bs" and "T \<le> T'" and "now \<le> now'"
  shows "remembers T' now' past bs"
proof -
  have f: "filter (\<lambda>t. T' < t) xs = filter (\<lambda>t. T' < t) (filter (\<lambda>t. T < t) xs)" for xs :: "int list"
    using assms(2) by (auto intro: filter_cong)
  have "filter (\<lambda>t. T' < t) (times_of bs key) = filter (\<lambda>t. T' < t) (calls_of key past)" for key
    using assms(1) f [of "times_of bs key"] f [of "calls_of key past"] by (simp add: remembers_def)
  then show ?thesis using assms by (fastforce simp: remembers_def)
qed

lemma sweep_forgets_nothing:
  assumes "keys_distinct bs" and "\<forall>(key, ts) \<in> set bs. ts \<noteq> [] \<and> sorted ts"
  shows "filter (\<lambda>t. T < t) (times_of (sweep T bs) key) = filter (\<lambda>t. T < t) (times_of bs key)"
proof (cases "5000 < length bs \<and> (\<exists>ts. map_get bs key = Some ts \<and> last ts < T)")
  case True
  then obtain ts where ts: "map_get bs key = Some ts" "last ts < T" by auto
  then have "sorted ts" "ts \<noteq> []" using assms(2) map_of_SomeD by fastforce+
  then have "\<forall>t \<in> set ts. t \<le> last ts"
    using \<open>sorted ts\<close> by (cases ts rule: rev_cases) (auto simp: sorted_append)
  then have "filter (\<lambda>t. T < t) ts = []" using ts(2) by (auto simp: filter_empty_conv)
  then show ?thesis
    using True ts by (simp add: times_of_def sweep_def map_of_filter_value [OF assms(1)])
next
  case False
  then show ?thesis
    by (auto simp: times_of_def sweep_def map_of_filter_value [OF assms(1)] split: option.split)
qed

lemma calls_of_snoc: "calls_of key (past @ [(k, now)]) = calls_of key past @ (if k = key then [now] else [])"
  by (simp add: calls_of_def)

lemma times_of_set: "times_of (map_set k ts bs) key = (if key = k then ts else times_of bs key)"
  by (simp add: times_of_def)

lemma bucket_sorted:
  assumes "remembers T now past bs"
  shows "sorted (times_of bs key) \<and> (\<forall>t \<in> set (times_of bs key). t \<le> now)"
proof (cases "map_get bs key")
  case (Some ts)
  then have "sorted ts" "last ts \<le> now" "ts \<noteq> []" using assms map_of_SomeD by (fastforce simp: remembers_def)+
  then show ?thesis using Some by (cases ts rule: rev_cases) (auto simp: times_of_def sorted_append)
qed (simp add: times_of_def)

lemma limiter_call_remembers:
  assumes "remembers T last_now past bs" and "T \<le> now - w" and "last_now \<le> now" and "0 < w"
    and "\<not> rateLimitingDisabled env"
  shows "fst (limiter_call env w m key now bs) =
           (length (filter (\<lambda>t. now - w < t) (calls_of key (past @ [(key, now)]))) \<le> m)"
    and "remembers (now - w) now (past @ [(key, now)]) (snd (limiter_call env w m key now bs))"
proof -
  let ?T = "now - w"
  let ?ts = "filter (\<lambda>t. ?T < t) (times_of bs key) @ [now]"
  let ?bs = "map_set key ?ts bs"
  have r: "remembers ?T now past bs" by (rule remembers_later [OF assms(1-3)])
  then have known: "filter (\<lambda>t. ?T < t) (times_of bs k) = filter (\<lambda>t. ?T < t) (calls_of k past)" for k
    by (simp add: remembers_def)
  have in_time: "?T < now" using assms(4) by simp
  have call: "limiter_call env w m key now bs = (length ?ts \<le> m, sweep ?T ?bs)"
    using assms(5) by (simp add: limiter_call_def Let_def)
  show "fst (limiter_call env w m key now bs) =
      (length (filter (\<lambda>t. ?T < t) (calls_of key (past @ [(key, now)]))) \<le> m)"
    using in_time by (simp add: call known calls_of_snoc)
  have dist: "keys_distinct ?bs" using r by (simp add: remembers_def distinct_update)
  have "sorted ?ts \<and> last ?ts \<le> now" using bucket_sorted [OF r, of key] by (auto simp: sorted_append intro: sorted_wrt_filter)
  moreover have "set ?bs \<subseteq> insert (key, ?ts) (set bs)" by (rule set_map_set)
  ultimately have ok: "\<forall>(k, ts) \<in> set ?bs. ts \<noteq> [] \<and> sorted ts \<and> last ts \<le> now"
    using r by (fastforce simp: remembers_def)
  then have wf: "\<forall>(k, ts) \<in> set ?bs. ts \<noteq> [] \<and> sorted ts" by blast
  have "filter (\<lambda>t. ?T < t) (times_of (sweep ?T ?bs) k) = filter (\<lambda>t. ?T < t) (calls_of k (past @ [(key, now)]))" for k
    unfolding sweep_forgets_nothing [OF dist wf] using known in_time by (auto simp: times_of_set calls_of_snoc)
  moreover have "keys_distinct (sweep ?T ?bs)" using dist by (simp add: sweep_def keys_distinct_filter)
  moreover have "\<forall>(k, ts) \<in> set (sweep ?T ?bs). ts \<noteq> [] \<and> sorted ts \<and> last ts \<le> now"
    using ok by (auto simp: sweep_def)
  ultimately show "remembers ?T now (past @ [(key, now)]) (snd (limiter_call env w m key now bs))"
    by (simp add: call remembers_def)
qed

lemma run_limiter_window:
  assumes "remembers T last_now past bs" and "sorted (map snd calls)" and "\<forall>(_, t) \<in> set calls. last_now \<le> t \<and> T \<le> t - w"
    and "0 < w" and "\<not> rateLimitingDisabled env" and "i < length calls"
  shows "run_limiter env w m bs calls ! i =
    (length (filter (\<lambda>t. snd (calls ! i) - w < t) (calls_of (fst (calls ! i)) (past @ take (Suc i) calls))) \<le> m)"
  using assms(1-3,6)
proof (induction calls arbitrary: T last_now past bs i)
  case (Cons c calls)
  obtain key now where c: "c = (key, now)" by (cases c)
  have h: "T \<le> now - w" "last_now \<le> now" using Cons.prems(3) c by auto
  note step = limiter_call_remembers [OF Cons.prems(1) h assms(4,5), where m = m and key = key]
  obtain ok bs' where ok: "limiter_call env w m key now bs = (ok, bs')" by fastforce
  show ?case
  proof (cases i)
    case 0
    then show ?thesis using step(1) ok by (simp add: c)
  next
    case (Suc j)
    have "remembers (now - w) now (past @ [(key, now)]) bs'" using step(2) ok by simp
    moreover have "sorted (map snd calls)" "\<forall>(_, t) \<in> set calls. now \<le> t \<and> now - w \<le> t - w"
      using Cons.prems(2) c by auto
    ultimately show ?thesis using Cons.IH [of "now - w" now "past @ [(key, now)]" bs' j] Cons.prems(4) Suc ok
      by (simp add: c)
  qed
qed simp

text \<open>
  The limiter is exact: whatever other keys do and however often old buckets are swept, a call passes precisely
  when the calls of its key in the window that ends with it, refused ones and itself included, are at most
  \<open>m\<close>.
\<close>

theorem limiter_is_exact:
  assumes "sorted (map snd calls)" and "i < length calls" and "0 < w" and "\<not> rateLimitingDisabled env"
  shows "run_limiter env w m [] calls ! i =
    (length (filter (\<lambda>t. snd (calls ! i) - w < t) (calls_of (fst (calls ! i)) (take (Suc i) calls))) \<le> m)"
proof -
  have start: "remembers (snd (hd calls) - w) (snd (hd calls)) [] []"
    by (simp add: remembers_def times_of_def calls_of_def)
  have "\<forall>(_, t) \<in> set calls. snd (hd calls) \<le> t \<and> snd (hd calls) - w \<le> t - w"
    using assms(1) by (cases calls) auto
  from run_limiter_window [OF start assms(1) this assms(3,4,2)] show ?thesis by simp
qed

definition plain_env :: env where "plain_env = (\<lambda>_. None)"

theorem limiter_is_exact_witness:
  "run_limiter plain_env 10 1 [] [(''a'', 0), (''b'', 1), (''a'', 9), (''a'', 20)] ! 2
   = (length (filter (\<lambda>t. 9 - 10 < t) (calls_of ''a'' [(''a'', 0), (''b'', 1), (''a'', 9)])) \<le> 1)"
proof -
  have "\<not> rateLimitingDisabled plain_env" by (simp add: rateLimitingDisabled_def plain_env_def LIMIT_TRUE_VALUES_def trim_def trim_start_def trim_end_def to_lower_def)
  from limiter_is_exact [OF _ _ _ this, of "[(''a'', 0), (''b'', 1), (''a'', 9), (''a'', 20)]" 2 10 1]
  show ?thesis by (simp add: numeral_nat)
qed

text \<open>The value \<^verbatim>\<open>1\<close> switches the limits off although it does not switch the local test mode on.\<close>

lemma limits_off_without_local_mode:
  "rateLimitingDisabled ((\<lambda>_. None)(''ENABLE_LOCAL_TEST_MODE'' := Some ''1''))
   \<and> \<not> local_enabled ((\<lambda>_. None)(''ENABLE_LOCAL_TEST_MODE'' := Some ''1''))"
  by code_simp

end
