(* ===== verification/ErrorExplainer.thy ===== *)
theory ErrorExplainer imports SourceContext BuildLogs AiBudget RateLimiter begin

text \<open>
  The explanation of a failed build: \<^verbatim>\<open>backend/src/services/buildErrorExplainer.ts\<close> and the
  handlers of \<^verbatim>\<open>backend/src/controllers/aiAssist.controller.ts\<close>.

  Parameters are the SHA-256 digest, \<^verbatim>\<open>JSON.parse\<close> (\<open>None\<close> when it throws) and the client of
  the model, which answers or throws. The log comes from \<open>BuildLogs\<close>, the source around the error from
  \<open>SourceContext\<close>, the limits from \<open>AiBudget\<close> on a server without Redis. The world keeps the
  counters, the cache of answers and, as a record of the calls, what was sent to the model, for whom and when.
\<close>

section \<open>Explanations\<close>

datatype confidence = High | Medium | Low

record explanation =
  ex_summary :: string
  ex_likelyCause :: string
  ex_fixSteps :: "string list"
  ex_location :: string
  ex_confidence :: confidence

datatype explain_error =
    Unavailable
  | RateLimited budget_verdict
  | Declined string
  | ProviderBusy
  | ProviderFailed

definition declined :: explain_error where
  "declined = Declined ''The assistant could not explain this build error''"

definition CACHE_TTL_MS :: int where "CACHE_TTL_MS = 60 * 60000"
definition CACHE_MAX_ENTRIES :: nat where "CACHE_MAX_ENTRIES = 200"
definition DEFAULT_MODEL :: string where "DEFAULT_MODEL = ''claude-haiku-5-5''"

definition isExplainerConfigured :: "env \<Rightarrow> bool" where
  "isExplainerConfigured env = hasConfiguredValue (env ''ANTHROPIC_API_KEY'')"

definition trimmed_string :: "jsval \<Rightarrow> string" where
  "trimmed_string v = (case v of JStr s \<Rightarrow> trim s | _ \<Rightarrow> [])"

definition asStringArray :: "jsval \<Rightarrow> string list" where
  "asStringArray v =
     (case v of JArr vs \<Rightarrow> filter (\<lambda>s. s \<noteq> []) (map trimmed_string vs) | _ \<Rightarrow> [])"

definition confidence_of :: "jsval \<Rightarrow> confidence" where
  "confidence_of v = (if v = JStr ''high'' then High else if v = JStr ''low'' then Low else Medium)"

definition is_object :: "jsval \<Rightarrow> bool" where
  "is_object v = (case v of JObj _ \<Rightarrow> True | JArr _ \<Rightarrow> True | _ \<Rightarrow> False)"

definition parseExplanation :: "(code_text \<Rightarrow> jsval option) \<Rightarrow> code_text \<Rightarrow> explain_error + explanation" where
  "parseExplanation parse txt =
     (case parse txt of
        None \<Rightarrow> Inl declined
      | Some data \<Rightarrow>
          if \<not> is_object data then Inl declined
          else let summary = trimmed_string (get_prop data ''summary'');
                   likelyCause = trimmed_string (get_prop data ''likelyCause'');
                   fixSteps = asStringArray (get_prop data ''fixSteps'')
               in if summary = [] \<or> likelyCause = [] \<or> fixSteps = [] then Inl declined
                  else Inr \<lparr>ex_summary = summary, ex_likelyCause = likelyCause, ex_fixSteps = fixSteps,
                            ex_location = trimmed_string (get_prop data ''location''),
                            ex_confidence = confidence_of (get_prop data ''confidence'')\<rparr>)"

text \<open>
  \<^verbatim>\<open>/^(.*?):(\d+)(?::\d+)?$/\<close>: the parts between the colons, the last of them a number or the last two.
\<close>

definition number_part :: "string \<Rightarrow> bool" where
  "number_part s = (s \<noteq> [] \<and> list_all is_digit s)"

definition split_location :: "string \<Rightarrow> (string \<times> string) option" where
  "split_location s =
     (let parts = split_on (CHR '':'') s; k = length parts
      in if 3 \<le> k \<and> number_part (parts ! (k - 1)) \<and> number_part (parts ! (k - 2))
            \<and> newline \<notin> set s \<and> carriage_return \<notin> set s
         then Some (join '':'' (take (k - 2) parts), parts ! (k - 2))
         else if 2 \<le> k \<and> number_part (parts ! (k - 1)) \<and> newline \<notin> set s \<and> carriage_return \<notin> set s
         then Some (join '':'' (take (k - 1) parts), parts ! (k - 1))
         else None)"

definition normalizeLocation :: "string \<Rightarrow> source_snippet list \<Rightarrow> string" where
  "normalizeLocation location sourceContext =
     (case split_location (trim location) of
        None \<Rightarrow> trim location
      | Some (rawPath, line) \<Rightarrow>
          let printed = map (\<lambda>c. if c = backslash then slash else c) rawPath;
              known = find (\<lambda>s. printed = sn_path s \<or> ends_with (slash # sn_path s) printed
                              \<or> ends_with (slash # printed) (sn_path s)) sourceContext
          in (case known of Some s \<Rightarrow> sn_path s | None \<Rightarrow> printed) @ '':'' @ line)"

section \<open>The question\<close>

definition escape_unit :: matcher where
  "escape_unit prev s =
     (if starts_unit [CHR ''&'', CHR 0x22, CHR ''<'', CHR ''>''] s
      then Some (1, units ''&#'' @ units (dec_nat (hd s)) @ units '';'') else None)"

definition escapeAttribute :: "string \<Rightarrow> code_text" where
  "escapeAttribute v = replace_all escape_unit None (units v)"

definition quote_unit :: code_unit where "quote_unit = 0x22"

definition source_block :: "source_snippet \<Rightarrow> code_text" where
  "source_block s =
     units ''<file path='' @ [quote_unit] @ escapeAttribute (sn_path s) @ [quote_unit] @ units '' line='' @ [quote_unit]
       @ units (dec_nat (sn_line s)) @ [quote_unit] @ units ''>'' @ [nl] @ redactSecrets (sn_text s) @ [nl]
       @ units ''</file>''"

definition hint_block :: "diagnostic \<Rightarrow> code_text" where
  "hint_block hint =
     units ''<keyword_hint code='' @ [quote_unit] @ escapeAttribute (di_code hint) @ [quote_unit] @ units ''>''
       @ units (di_advice hint) @ units ''</keyword_hint>''"

definition buildUserContent :: "code_text \<Rightarrow> source_snippet list \<Rightarrow> diagnostic option \<Rightarrow> code_text" where
  "buildUserContent log sourceContext hint =
     join_units [nl, nl]
       ([units ''Explain why this PreTeXt build failed.'' @ [nl, nl] @ units ''<build_log>'' @ [nl] @ log @ [nl]
           @ units ''</build_log>'']
        @ (if sourceContext = [] then []
           else [units ''<source_context>'' @ [nl] @ join_units [nl] (map source_block sourceContext) @ [nl]
                   @ units ''</source_context>''])
        @ (case hint of
             Some h \<Rightarrow> if di_code h \<noteq> ''build_failed'' then [hint_block h] else []
           | None \<Rightarrow> []))"

section \<open>The cache of answers\<close>

record answer =
  an_explanation :: explanation
  an_inputTokens :: nat
  an_outputTokens :: nat
  an_id :: string
  an_model :: string

type_synonym answer_cache = "(string, answer \<times> int) jsmap"

definition readCache :: "string \<Rightarrow> int \<Rightarrow> answer_cache \<Rightarrow> answer option \<times> answer_cache" where
  "readCache key now cache =
     (case map_get cache key of
        None \<Rightarrow> (None, cache)
      | Some (result, expiry) \<Rightarrow> if expiry \<le> now then (None, map_del key cache) else (Some result, cache))"

text \<open>The loop removes the first key until 200 entries are left.\<close>

definition writeCache :: "string \<Rightarrow> answer \<Rightarrow> int \<Rightarrow> answer_cache \<Rightarrow> answer_cache" where
  "writeCache key result now cache =
     (let cache' = map_set key (result, now + CACHE_TTL_MS) (map_del key cache)
      in drop (length cache' - CACHE_MAX_ENTRIES) cache')"

definition lookupExplanationModel :: "string \<Rightarrow> answer_cache \<Rightarrow> string option" where
  "lookupExplanationModel aid cache =
     map_option (\<lambda>(key, entry). an_model (fst entry)) (find (\<lambda>(key, entry). starts_with aid key) cache)"

section \<open>Explaining a build\<close>

record response =
  rs_stop_reason :: string
  rs_content :: "(string \<times> code_text) list"
  rs_input_tokens :: nat
  rs_output_tokens :: nat

record explainer =
  xp_sha256 :: "code_text \<Rightarrow> string"
  xp_parse :: "code_text \<Rightarrow> jsval option"
  xp_client :: "string \<Rightarrow> code_text \<Rightarrow> explain_error + response"

record request =
  rq_user :: string
  rq_time :: int
  rq_done :: int
  rq_log :: string
  rq_context :: "source_snippet list"
  rq_hint :: "diagnostic option"

record world =
  w_counters :: counters
  w_cache :: answer_cache
  w_sent :: "(string \<times> int \<times> code_text) list"

text \<open>The server: its environment and the hash of a user key.\<close>

record server =
  sv_env :: env
  sv_user_hash :: "string \<Rightarrow> string"
  sv_daily_limit :: int

definition model_of :: "env \<Rightarrow> string" where
  "model_of env = (case env ''PROOFDESK_AI_MODEL'' of Some m \<Rightarrow> m | None \<Rightarrow> DEFAULT_MODEL)"

definition answer_of :: "explainer \<Rightarrow> string \<Rightarrow> string \<Rightarrow> source_snippet list \<Rightarrow> response \<Rightarrow> explain_error + answer" where
  "answer_of xp key model context r =
     (if rs_stop_reason r = ''refusal'' \<or> rs_stop_reason r = ''max_tokens'' then Inl declined
      else case find (\<lambda>b. fst b = ''text'') (rs_content r) of
          None \<Rightarrow> Inl declined
        | Some (_, txt) \<Rightarrow>
            (case parseExplanation (xp_parse xp) txt of
               Inl e \<Rightarrow> Inl e
             | Inr ex \<Rightarrow>
                 Inr \<lparr>an_explanation = ex\<lparr>ex_location := normalizeLocation (ex_location ex) context\<rparr>,
                      an_inputTokens = rs_input_tokens r, an_outputTokens = rs_output_tokens r,
                      an_id = take 16 key, an_model = model\<rparr>))"

text \<open>The content of the question, and the key of its answer.\<close>

definition question :: "request \<Rightarrow> code_text" where
  "question rq = buildUserContent (prepareLogForModel (units (rq_log rq))) (rq_context rq) (rq_hint rq)"

definition answer_key :: "explainer \<Rightarrow> server \<Rightarrow> request \<Rightarrow> string" where
  "answer_key xp sv rq = xp_sha256 xp (units (model_of (sv_env sv)) @ [0] @ question rq)"

text \<open>
  The call as the handler makes it, with the reservation and the model of the server. The result is the answer and
  whether it was cached.
\<close>

definition explainBuildError :: "explainer \<Rightarrow> server \<Rightarrow> request \<Rightarrow> world \<Rightarrow> (explain_error + answer \<times> bool) \<times> world" where
  "explainBuildError xp sv rq w =
     (if prepareLogForModel (units (rq_log rq)) = [] then (Inl (Declined ''There is no build output to explain''), w)
      else let key = answer_key xp sv rq
           in case readCache key (rq_time rq) (w_cache w) of
               (Some cached, cache) \<Rightarrow> (Inr (cached, True), w\<lparr>w_cache := cache\<rparr>)
             | (None, cache) \<Rightarrow>
                 (case memory_call (sv_user_hash sv) (sv_daily_limit sv) (rq_user rq) (rq_time rq) (w_counters w) of
                    (verdict, counters) \<Rightarrow>
                      let w1 = w\<lparr>w_cache := cache, w_counters := counters\<rparr>
                      in if verdict \<noteq> BudgetOk then (Inl (RateLimited verdict), w1)
                         else if \<not> isExplainerConfigured (sv_env sv) then (Inl Unavailable, w1)
                         else let w2 = w1\<lparr>w_sent := w_sent w1 @ [(rq_user rq, rq_time rq, question rq)]\<rparr>
                              in case xp_client xp (model_of (sv_env sv)) (question rq) of
                                  Inl e \<Rightarrow> (Inl e, w2)
                                | Inr r \<Rightarrow>
                                    (case answer_of xp key (model_of (sv_env sv)) (rq_context rq) r of
                                       Inl e \<Rightarrow> (Inl e, w2)
                                     | Inr a \<Rightarrow> (Inr (a, False), w2\<lparr>w_cache := writeCache key a (rq_done rq) cache\<rparr>))))"

text \<open>The ways the call can go.\<close>

lemma explain_cases:
  assumes "explainBuildError xp sv rq w = (r, w')"
  obtains (silent) e where "prepareLogForModel (units (rq_log rq)) = []" "r = Inl e" "w' = w"
  | (cached) a cache where "readCache (answer_key xp sv rq) (rq_time rq) (w_cache w) = (Some a, cache)"
      "r = Inr (a, True)" "w' = w\<lparr>w_cache := cache\<rparr>"
  | (refused) cache verdict counters e where "readCache (answer_key xp sv rq) (rq_time rq) (w_cache w) = (None, cache)"
      "memory_call (sv_user_hash sv) (sv_daily_limit sv) (rq_user rq) (rq_time rq) (w_counters w) = (verdict, counters)"
      "verdict \<noteq> BudgetOk \<or> \<not> isExplainerConfigured (sv_env sv)" "r = Inl e"
      "w' = w\<lparr>w_cache := cache, w_counters := counters\<rparr>"
  | (failed) cache counters e where "readCache (answer_key xp sv rq) (rq_time rq) (w_cache w) = (None, cache)"
      "memory_call (sv_user_hash sv) (sv_daily_limit sv) (rq_user rq) (rq_time rq) (w_counters w) = (BudgetOk, counters)"
      "isExplainerConfigured (sv_env sv)" "r = Inl e"
      "w' = w\<lparr>w_cache := cache, w_counters := counters, w_sent := w_sent w @ [(rq_user rq, rq_time rq, question rq)]\<rparr>"
  | (answered) cache counters rs a where "readCache (answer_key xp sv rq) (rq_time rq) (w_cache w) = (None, cache)"
      "memory_call (sv_user_hash sv) (sv_daily_limit sv) (rq_user rq) (rq_time rq) (w_counters w) = (BudgetOk, counters)"
      "isExplainerConfigured (sv_env sv)" "answer_of xp (answer_key xp sv rq) (model_of (sv_env sv)) (rq_context rq) rs = Inr a"
      "r = Inr (a, False)"
      "w' = w\<lparr>w_cache := writeCache (answer_key xp sv rq) a (rq_done rq) cache, w_counters := counters,
               w_sent := w_sent w @ [(rq_user rq, rq_time rq, question rq)]\<rparr>"
proof (cases "prepareLogForModel (units (rq_log rq)) = []")
  case True
  with assms that(1) show ?thesis by (auto simp: explainBuildError_def)
next
  case asked: False
  obtain hit cache where read: "readCache (answer_key xp sv rq) (rq_time rq) (w_cache w) = (hit, cache)" by fastforce
  show ?thesis
  proof (cases hit)
    case (Some a)
    with assms asked read that(2) show ?thesis by (simp add: explainBuildError_def Let_def)
  next
    case miss: None
    obtain verdict counters where call:
      "memory_call (sv_user_hash sv) (sv_daily_limit sv) (rq_user rq) (rq_time rq) (w_counters w) = (verdict, counters)"
      by fastforce
    show ?thesis
    proof (cases "verdict = BudgetOk \<and> isExplainerConfigured (sv_env sv)")
      case False
      with assms asked read miss call that(3) show ?thesis
        by (auto simp: explainBuildError_def Let_def split: if_splits)
    next
      case ok: True
      note facts = assms asked read miss call ok
      show ?thesis
      proof (cases "xp_client xp (model_of (sv_env sv)) (question rq)")
        case (Inl e)
        with facts that(4) show ?thesis by (auto simp add: explainBuildError_def Let_def)
      next
        case (Inr rs)
        show ?thesis
        proof (cases "answer_of xp (answer_key xp sv rq) (model_of (sv_env sv)) (rq_context rq) rs")
          case (Inl e)
          with facts Inr that(4) show ?thesis by (auto simp add: explainBuildError_def Let_def)
        next
          case (Inr a)
          with facts \<open>xp_client xp _ _ = Inr rs\<close> that(5) show ?thesis by (auto simp add: explainBuildError_def Let_def)
        qed
      qed
    qed
  qed
qed

definition new_world :: world where "new_world = \<lparr>w_counters = [], w_cache = [], w_sent = []\<rparr>"

fun run_explains :: "explainer \<Rightarrow> server \<Rightarrow> request list \<Rightarrow> world \<Rightarrow> (explain_error + answer \<times> bool) list \<times> world" where
  "run_explains xp sv [] w = ([], w)"
| "run_explains xp sv (rq # rqs) w =
     (case explainBuildError xp sv rq w of (r, w1) \<Rightarrow>
      case run_explains xp sv rqs w1 of (rs, w2) \<Rightarrow> (r # rs, w2))"

section \<open>The handlers\<close>

datatype failed_build_log =
    Failed string "diagnostic option"
  | Succeeded
  | Running
  | Missing

definition non_empty_lines :: "string list \<Rightarrow> string" where
  "non_empty_lines parts = join [newline] (filter (\<lambda>s. s \<noteq> []) parts)"

definition loadFailedBuildLog :: "bool \<Rightarrow> string \<Rightarrow> log_state \<Rightarrow> failed_build_log" where
  "loadFailedBuildLog redisShared sid st =
     (case getFinishedBuildLog sid st of
        Some (txt, result) \<Rightarrow>
          (case result of
             None \<Rightarrow> Failed (if trim txt \<noteq> [] then txt else []) None
           | Some r \<Rightarrow>
               if bo_success r then Succeeded
               else Failed (if trim txt \<noteq> [] then txt else non_empty_lines [bo_error r, bo_stderr r, bo_stdout r])
                      (if bo_advice r \<noteq> []
                       then Some \<lparr>di_code = str_or (bo_code r) ''build_failed'', di_advice = bo_advice r\<rparr> else None))
      | None \<Rightarrow>
          if \<not> redisShared \<and> isBuildLogOpen sid st then Running
          else case find (\<lambda>row. lr_session row = sid) (rev (lg_rows st)) of
              None \<Rightarrow> Missing
            | Some row \<Rightarrow>
                if lr_success row then Succeeded
                else let log = non_empty_lines [lr_stdout row, lr_stderr row]
                     in Failed log (Some (classifyBuildFailure log)))"

datatype explain_reply = Explained answer bool | Refused nat string

definition refusal :: "explain_error \<Rightarrow> explain_reply" where
  "refusal e =
     (case e of
        RateLimited v \<Rightarrow> if v = DailyLimit then Refused 429 ''ai_daily_limit'' else Refused 429 ''rate_limited''
      | Unavailable \<Rightarrow> Refused 503 ''ai_not_configured''
      | Declined _ \<Rightarrow> Refused 422 ''ai_declined''
      | ProviderBusy \<Rightarrow> Refused 503 ''ai_busy''
      | ProviderFailed \<Rightarrow> Refused 502 ''ai_failed'')"

text \<open>
  The request: the session, the key for the limits and the times at which the clock is read; \<open>repoPath\<close> is
  the directory of the session. The result is \<open>None\<close> only if the walk over the repository does not end.
\<close>

definition explain_handler ::
    "explainer \<Rightarrow> server \<Rightarrow> source_fs \<Rightarrow> string \<Rightarrow> bool \<Rightarrow> (string \<Rightarrow> string option) \<Rightarrow> log_state \<Rightarrow>
     string \<Rightarrow> string \<Rightarrow> int \<Rightarrow> int \<Rightarrow> world \<Rightarrow> (explain_reply \<times> world) option" where
  "explain_handler xp sv fs cwd redisShared repoPath logs sid key now finished w =
     (if \<not> isExplainerConfigured (sv_env sv) then Some (Refused 503 ''ai_not_configured'', w)
      else if \<not> assertValidSessionId sid then Some (Refused 400 ''invalid_session'', w)
      else case loadFailedBuildLog redisShared sid logs of
          Missing \<Rightarrow> Some (Refused 404 ''build_log_not_found'', w)
        | Running \<Rightarrow> Some (Refused 409 ''build_in_progress'', w)
        | Succeeded \<Rightarrow> Some (Refused 409 ''build_not_failed'', w)
        | Failed log hint \<Rightarrow>
            if trim log = [] then Some (Refused 404 ''build_log_not_found'', w)
            else case collectSourceContext fs cwd (repoPath sid) log of
                None \<Rightarrow> None
              | Some context \<Rightarrow>
                  (case explainBuildError xp sv
                          \<lparr>rq_user = key, rq_time = now, rq_done = finished, rq_log = log, rq_context = context, rq_hint = hint\<rparr> w of
                     (Inl e, w') \<Rightarrow> Some (refusal e, w')
                   | (Inr (a, cached), w') \<Rightarrow> Some (Explained a cached, w')))"

record feedback =
  fb_explanationId :: string
  fb_helpful :: bool
  fb_sessionId :: string
  fb_model :: string

text \<open>The votes on explanations; a stored vote is a row of the database table.\<close>

definition feedback_handler ::
    "env \<Rightarrow> string \<Rightarrow> string \<Rightarrow> jsval \<Rightarrow> int \<Rightarrow> answer_cache \<Rightarrow> buckets \<times> feedback list \<Rightarrow> nat \<times> (buckets \<times> feedback list)" where
  "feedback_handler env sid key body now cache st =
     (case (get_prop body ''id'', get_prop body ''helpful'') of
        (JStr aid, JBool helpful) \<Rightarrow>
          if \<not> assertValidSessionId sid \<or> \<not> assertValidSessionId aid then (400, st)
          else (case limiter_call env (10 * 60000) 30 key now (fst st) of
                  (allowed, bs) \<Rightarrow>
                    if \<not> allowed then (429, (bs, snd st))
                    else (204, (bs, snd st @ [\<lparr>fb_explanationId = aid, fb_helpful = helpful, fb_sessionId = sid,
                            fb_model = (case lookupExplanationModel aid cache of Some m \<Rightarrow> m | None \<Rightarrow> ''unknown'')\<rparr>])))
      | _ \<Rightarrow> (400, st))"

section \<open>The shape of an answer\<close>

lemma trim_trim [simp]: "trim (trim s) = trim s"
proof -
  define u where "u = dropWhile is_space s"
  define v where "v = rev (dropWhile is_space (rev u))"
  have v: "trim s = v" by (simp add: trim_def trim_start_def trim_end_def u_def v_def)
  show ?thesis
  proof (cases "v = []")
    case False
    then have u: "u \<noteq> []" by (auto simp: v_def)
    have "prefix v u" unfolding v_def by (metis rev_rev_ident suffix_dropWhile suffix_to_prefix)
    then have "hd v = hd u" using False by (auto simp: prefix_def)
    moreover have "\<not> is_space (hd u)" using u unfolding u_def by (rule hd_dropWhile)
    moreover have "\<not> is_space (hd (rev v))" using False hd_dropWhile [of is_space "rev u"] by (auto simp: v_def)
    ultimately have "dropWhile is_space v = v" "dropWhile is_space (rev v) = rev v"
      using False by (cases v; cases "rev v"; simp)+
    then have "trim v = v" by (simp add: trim_def trim_start_def trim_end_def)
    then show ?thesis unfolding v .
  qed (unfold v, simp add: trim_def trim_start_def trim_end_def)
qed

definition shown_text :: "string \<Rightarrow> bool" where
  "shown_text s = (s \<noteq> [] \<and> trim s = s)"

definition well_formed :: "explanation \<Rightarrow> bool" where
  "well_formed ex =
     (shown_text (ex_summary ex) \<and> shown_text (ex_likelyCause ex) \<and> ex_fixSteps ex \<noteq> [] \<and> list_all shown_text (ex_fixSteps ex))"

lemma trimmed_string_shown: "trimmed_string v \<noteq> [] \<Longrightarrow> shown_text (trimmed_string v)"
  by (auto simp: shown_text_def trimmed_string_def split: jsval.splits)

lemma asStringArray_shown: "list_all shown_text (asStringArray v)"
  by (auto simp: asStringArray_def list_all_iff trimmed_string_shown split: jsval.split)

lemma parsed_well_formed: "parseExplanation parse txt = Inr ex \<Longrightarrow> well_formed ex"
  using asStringArray_shown trimmed_string_shown
  by (auto simp: parseExplanation_def well_formed_def Let_def split: option.splits if_splits)

lemma answer_well_formed: "answer_of xp key model context r = Inr a \<Longrightarrow> well_formed (an_explanation a)"
  by (auto simp: answer_of_def well_formed_def split: if_splits option.splits sum.splits dest!: parsed_well_formed)

definition cache_well_formed :: "answer_cache \<Rightarrow> bool" where
  "cache_well_formed cache = (\<forall>(key, entry) \<in> set cache. well_formed (an_explanation (fst entry)))"

lemma set_delete_subset: "set (map_del k m) \<subseteq> set m"
  by (auto simp: AList.delete_eq)

lemma read_well_formed:
  assumes "cache_well_formed cache" and "readCache key now cache = (r, cache')"
  shows "cache_well_formed cache'" and "\<And>a. r = Some a \<Longrightarrow> well_formed (an_explanation a)"
  using assms set_delete_subset map_of_SomeD
  by (fastforce simp: readCache_def cache_well_formed_def split: option.splits if_splits)+

lemma write_well_formed:
  assumes "cache_well_formed cache" and "well_formed (an_explanation a)"
  shows "cache_well_formed (writeCache key a now cache)"
proof -
  let ?c = "map_set key (a, now + CACHE_TTL_MS) (map_del key cache)"
  have "set (drop n ?c) \<subseteq> insert (key, (a, now + CACHE_TTL_MS)) (set cache)" for n
    using set_drop_subset [of n ?c] set_map_set [of key "(a, now + CACHE_TTL_MS)" "map_del key cache"]
      set_delete_subset [of key cache] by blast
  then show ?thesis using assms unfolding writeCache_def cache_well_formed_def Let_def by fastforce
qed

lemma explain_well_formed:
  assumes "cache_well_formed (w_cache w)" and "explainBuildError xp sv rq w = (r, w')"
  shows "cache_well_formed (w_cache w')" and "\<And>a c. r = Inr (a, c) \<Longrightarrow> well_formed (an_explanation a)"
  using assms(2)
  by (cases rule: explain_cases;
      use assms(1) in \<open>auto intro: write_well_formed answer_well_formed read_well_formed\<close>)+

text \<open>
  Claim C9. Whatever the model returns, over any series of requests: what the editor is given has a summary, a cause
  and at least one step, all of them trimmed and none empty; an answer from the cache is no exception.
\<close>

theorem shown_explanations_well_formed:
  "list_all (\<lambda>r. case r of Inl _ \<Rightarrow> True | Inr (a, _) \<Rightarrow> well_formed (an_explanation a))
     (fst (run_explains xp sv rqs new_world))"
proof -
  have "list_all (\<lambda>r. case r of Inl _ \<Rightarrow> True | Inr (a, _) \<Rightarrow> well_formed (an_explanation a)) (fst (run_explains xp sv rqs w))"
    if "cache_well_formed (w_cache w)" for w
    using that
  proof (induction rqs arbitrary: w)
    case (Cons rq rqs)
    obtain r w1 where r: "explainBuildError xp sv rq w = (r, w1)" by fastforce
    note ok = explain_well_formed [OF Cons.prems r]
    from Cons.IH [OF ok(1)] ok(2) r show ?case by (cases "run_explains xp sv rqs w1") (auto split: sum.split)
  qed simp
  then show ?thesis by (simp add: new_world_def cache_well_formed_def)
qed

section \<open>No token in a question\<close>

text \<open>A text whose runs of token units are short has no token in it.\<close>

fun short_runs :: "nat \<Rightarrow> code_text \<Rightarrow> bool" where
  "short_runs n [] = True"
| "short_runs n (c # s) = (if token_unit c then n < 16 \<and> short_runs (Suc n) s else short_runs 0 s)"

lemma short_runs_mono: "short_runs n s \<Longrightarrow> m \<le> n \<Longrightarrow> short_runs m s"
  by (induction s arbitrary: m n) (auto split: if_splits)

lemma short_runs_prefix: "short_runs n s \<Longrightarrow> prefix w s \<Longrightarrow> all_token_units w \<Longrightarrow> w \<noteq> [] \<Longrightarrow> n + length w \<le> 16"
proof (induction s arbitrary: n w)
  case (Cons c s)
  then obtain w' where w: "w = c # w'" "prefix w' s" by (cases w) auto
  with Cons.prems have "token_unit c" "all_token_units w'" by (auto simp: all_token_units_def)
  with Cons.prems have "n < 16" "short_runs (Suc n) s" by auto
  then show ?case using Cons.IH [of "Suc n" w'] w \<open>all_token_units w'\<close> by (cases "w' = []") auto
qed simp

lemma short_runs_no_token:
  assumes "provider_token w" and "short_runs 0 s"
  shows "\<not> sublist w s"
  using assms(2)
proof (induction s)
  case Nil
  then show ?case using short_no_token [OF assms(1), of "[]"] by simp
next
  case (Cons c s)
  note w = provider_token_facts [OF assms(1)]
  have "\<not> prefix w (c # s)" using short_runs_prefix [OF Cons.prems _ w(1)] w(2) by force
  moreover have "short_runs 0 s" using Cons.prems by (auto split: if_splits intro: short_runs_mono)
  ultimately show ?case using Cons.IH by (simp add: sublist_Cons_right)
qed

lemma token_past_separator:
  assumes "provider_token w" and "list_all (\<lambda>z. \<not> token_unit z) sep" and "sep \<noteq> []" and "sublist w (a @ sep @ b)"
  shows "sublist w a \<or> sublist w b"
  using assms(2-4)
proof (induction sep arbitrary: a)
  case (Cons z sep)
  then have "sublist w a \<or> sublist w (sep @ b)" using token_around [OF assms(1), of z a "sep @ b"] by simp
  then show ?case using Cons.IH [of "[]"] Cons.prems short_no_token [OF assms(1), of "[]"] by (cases "sep = []") auto
qed simp

lemma token_in_join:
  assumes "provider_token w" and "list_all (\<lambda>z. \<not> token_unit z) sep" and "sep \<noteq> []" and "sublist w (join_units sep parts)"
  shows "\<exists>p \<in> set parts. sublist w p"
  using assms(2-4)
proof (induction sep parts rule: join_units.induct)
  case (3 sep v u us)
  from token_past_separator [OF assms(1) 3(2,3), of v "join_units sep (u # us)"] 3(4) 3(1) [OF 3(2,3)]
  show ?case by auto
qed (use short_no_token [OF assms(1), of "[]"] in auto)

lemma escape_marking: "marking escape_unit"
proof -
  have "marks_with (units ''&#'' @ units (dec_nat c) @ units '';'')"
    if "among [CHR ''&'', CHR 0x22, CHR ''<'', CHR ''>''] c" for c
  proof -
    from that consider "c = 38" | "c = 34" | "c = 60" | "c = 62" by (auto simp: among_def units_def unit_of_def)
    moreover have "dec_nat 38 = ''38''" "dec_nat 34 = ''34''" "dec_nat 60 = ''60''" "dec_nat 62 = ''62''" by code_simp+
    ultimately show ?thesis by cases (simp_all add: marks_with_def unit_classes)
  qed
  then show ?thesis
    unfolding marking_def escape_unit_def starts_unit_def
    by (auto split: if_splits) (metis append_Nil take0)
qed

lemma token_in_escape:
  assumes "provider_token w" and "sublist w (escapeAttribute v)"
  shows "sublist w (units v)"
  using replaced_sublist [OF escape_marking provider_token_facts(1,2) [OF assms(1)]] assms(2)
  by (simp add: escapeAttribute_def)

lemma no_token_units: "\<not> token_unit quote_unit" "\<not> token_unit nl" "\<not> token_unit (unit_of (CHR ''>''))"
    "\<not> token_unit (unit_of (CHR ''<''))"
  by (simp_all add: quote_unit_def nl_def unit_classes)

lemma token_in_source_block:
  assumes "provider_token w" and "sublist w (source_block s)"
  shows "sublist w (units (sn_path s))"
proof -
  note around = token_around [OF assms(1)]
  have "source_block s = units ''<file path='' @ quote_unit # escapeAttribute (sn_path s) @ quote_unit # units '' line=''
      @ quote_unit # units (dec_nat (sn_line s)) @ quote_unit # units ''>'' @ nl # redactSecrets (sn_text s) @ nl # units ''</file>''"
    by (simp add: source_block_def)
  with assms(2) have "sublist w (units ''<file path='') \<or> sublist w (escapeAttribute (sn_path s)) \<or> sublist w (units '' line='')
      \<or> sublist w (units (dec_nat (sn_line s))) \<or> sublist w (units ''>'') \<or> sublist w (redactSecrets (sn_text s))
      \<or> sublist w (units ''</file>'')"
    using around [OF no_token_units(1)] around [OF no_token_units(2)] by metis
  then show ?thesis
    using number_no_token [OF assms(1)] short_no_token [OF assms(1)] redacted_without_tokens [OF assms(1)]
      token_in_escape [OF assms(1)] by auto
qed

lemma token_in_hint_block:
  assumes "provider_token w" and "sublist w (hint_block h)"
  shows "sublist w (units (di_code h)) \<or> sublist w (units (di_advice h))"
proof -
  note around = token_around [OF assms(1)]
  have "hint_block h = units ''<keyword_hint code='' @ quote_unit # escapeAttribute (di_code h) @ quote_unit # []
      @ unit_of (CHR ''>'') # units (di_advice h) @ unit_of (CHR ''<'') # units ''/keyword_hint>''"
    by (simp add: hint_block_def units_def)
  with assms(2) have "sublist w (units ''<keyword_hint code='') \<or> sublist w (escapeAttribute (di_code h)) \<or> sublist w []
      \<or> sublist w (units (di_advice h)) \<or> sublist w (units ''/keyword_hint>'')"
    using around [OF no_token_units(1)] around [OF no_token_units(3)] around [OF no_token_units(4)] by metis
  moreover have "short_runs 0 (units ''<keyword_hint code='')" by (simp add: unit_classes)
  ultimately show ?thesis
    using short_no_token [OF assms(1)] short_runs_no_token [OF assms(1)] token_in_escape [OF assms(1)] by auto
qed

lemma in_parts:
  "p \<in> set ([i] @ (if b then [] else [s]) @ (case h of Some x \<Rightarrow> if P x then [f x] else [] | None \<Rightarrow> []))
   \<Longrightarrow> p = i \<or> p = s \<or> (\<exists>x. h = Some x \<and> p = f x)"
  by (auto split: if_splits option.splits)

lemma token_in_question:
  assumes "provider_token w" and "sublist w (question rq)"
  shows "(\<exists>s \<in> set (rq_context rq). sublist w (units (sn_path s)))
         \<or> (\<exists>h. rq_hint rq = Some h \<and> (sublist w (units (di_code h)) \<or> sublist w (units (di_advice h))))"
proof -
  let ?log = "prepareLogForModel (units (rq_log rq))"
  let ?intro = "units ''Explain why this PreTeXt build failed.'' @ [nl, nl] @ units ''<build_log>'' @ [nl] @ ?log @ [nl]
      @ units ''</build_log>''"
  let ?files = "join_units [nl] (map source_block (rq_context rq))"
  let ?source = "units ''<source_context>'' @ [nl] @ ?files @ [nl] @ units ''</source_context>''"
  note around = token_around [OF assms(1) no_token_units(2)]
  have seps: "list_all (\<lambda>z. \<not> token_unit z) [nl]" "list_all (\<lambda>z. \<not> token_unit z) [nl, nl]"
    using no_token_units by auto
  have intro: "\<not> sublist w ?intro"
  proof
    assume "sublist w ?intro"
    then have "sublist w (units ''Explain why this PreTeXt build failed.'' @ nl # [] @ nl # units ''<build_log>'' @ nl # ?log
        @ nl # units ''</build_log>'')" by simp
    then have "sublist w (units ''Explain why this PreTeXt build failed.'') \<or> sublist w [] \<or> sublist w (units ''<build_log>'')
        \<or> sublist w ?log \<or> sublist w (units ''</build_log>'')" using around by metis
    moreover have "short_runs 0 (units ''Explain why this PreTeXt build failed.'')" by (simp add: unit_classes)
    ultimately show False
      using short_no_token [OF assms(1)] short_runs_no_token [OF assms(1)] prepared_without_tokens [OF assms(1)] by auto
  qed
  have source: "sublist w ?source \<Longrightarrow> \<exists>s \<in> set (rq_context rq). sublist w (units (sn_path s))"
  proof -
    assume "sublist w ?source"
    then have "sublist w (units ''<source_context>'' @ nl # ?files @ nl # units ''</source_context>'')" by simp
    then have "sublist w (units ''<source_context>'') \<or> sublist w ?files \<or> sublist w (units ''</source_context>'')"
      using around by metis
    moreover have "short_runs 0 (units ''<source_context>'')" "short_runs 0 (units ''</source_context>'')"
      by (simp_all add: unit_classes)
    ultimately have "sublist w ?files" using short_runs_no_token [OF assms(1)] by auto
    from token_in_join [OF assms(1) seps(1) _ this] show ?thesis using token_in_source_block [OF assms(1)] by auto
  qed
  define parts where "parts = [?intro] @ (if rq_context rq = [] then [] else [?source])
      @ (case rq_hint rq of Some h \<Rightarrow> if di_code h \<noteq> ''build_failed'' then [hint_block h] else [] | None \<Rightarrow> [])"
  have "question rq = join_units [nl, nl] parts" by (simp only: question_def buildUserContent_def parts_def)
  then have "\<exists>p \<in> set parts. sublist w p" using token_in_join [OF assms(1) seps(2)] assms(2) by simp
  then obtain p where p: "p \<in> set parts" "sublist w p" ..
  from in_parts [OF p(1) [unfolded parts_def]]
  show ?thesis using p(2) intro source token_in_hint_block [OF assms(1)] by blast
qed

definition tokens_in :: "code_text \<Rightarrow> code_text set" where
  "tokens_in t = {w. provider_token w \<and> sublist w t}"

lemma sent_is_question:
  assumes "x \<in> set (w_sent (snd (run_explains xp sv rqs w0)))" and "x \<notin> set (w_sent w0)"
  shows "\<exists>rq \<in> set rqs. snd (snd x) = question rq"
  using assms
proof (induction rqs arbitrary: w0)
  case (Cons rq rqs)
  obtain r w1 where r: "explainBuildError xp sv rq w0 = (r, w1)" by fastforce
  have "set (w_sent w1) \<subseteq> insert (rq_user rq, rq_time rq, question rq) (set (w_sent w0))"
    using r by (cases rule: explain_cases) auto
  moreover have "x \<in> set (w_sent (snd (run_explains xp sv rqs w1)))"
    using Cons.prems(1) r by (simp split: prod.splits)
  ultimately show ?case
  proof (cases "x \<in> set (w_sent w1)")
    case True
    with Cons.prems(2) have "x = (rq_user rq, rq_time rq, question rq)"
      using \<open>set (w_sent w1) \<subseteq> _\<close> by blast
    then show ?thesis by simp
  qed (use Cons.IH [of w1] in simp)
qed simp

text \<open>
  Claim C6. Over any series of requests, a token of GitHub, Anthropic or AWS in a question to the model is part of the path
  of a source file, or of the hint that came with a request: none comes from the build log or from the source itself,
  whatever surrounds it and wherever the log is cut.
\<close>

theorem questions_reveal_no_token:
  "(\<Union>(_, _, content) \<in> set (w_sent (snd (run_explains xp sv rqs new_world))). tokens_in content)
   \<subseteq> (\<Union>rq \<in> set rqs. (\<Union>s \<in> set (rq_context rq). tokens_in (units (sn_path s)))
        \<union> (case rq_hint rq of None \<Rightarrow> {} | Some h \<Rightarrow> tokens_in (units (di_code h)) \<union> tokens_in (units (di_advice h))))"
proof (intro subsetI, elim UN_E)
  fix w x
  assume x: "x \<in> set (w_sent (snd (run_explains xp sv rqs new_world)))"
    and w: "w \<in> (case x of (_, _, content) \<Rightarrow> tokens_in content)"
  have "x \<notin> set (w_sent new_world)" by (simp add: new_world_def)
  with sent_is_question x obtain rq where rq: "rq \<in> set rqs" "snd (snd x) = question rq" by blast
  with w have "provider_token w" "sublist w (question rq)" by (auto simp: tokens_in_def split: prod.splits)
  with token_in_question [OF this] rq(1) show "w \<in> (\<Union>rq \<in> set rqs. (\<Union>s \<in> set (rq_context rq). tokens_in (units (sn_path s)))
        \<union> (case rq_hint rq of None \<Rightarrow> {} | Some h \<Rightarrow> tokens_in (units (di_code h)) \<union> tokens_in (units (di_advice h))))"
    by (fastforce simp: tokens_in_def)
qed

section \<open>What is paid for\<close>

text \<open>The calls that reserved a call of the model, and those of them that were granted.\<close>

definition granted_calls :: "(string \<times> int) list \<Rightarrow> budget_verdict list \<Rightarrow> (string \<times> int) list" where
  "granted_calls calls verdicts = map fst (filter (\<lambda>(c, v). v = BudgetOk) (zip calls verdicts))"

definition payers :: "world \<Rightarrow> (string \<times> int) list" where
  "payers w = map (\<lambda>(u, t, _). (u, t)) (w_sent w)"

lemma sent_calls:
  assumes "isExplainerConfigured (sv_env sv)"
  shows "\<exists>calls. subseq calls (map (\<lambda>rq. (rq_user rq, rq_time rq)) rqs)
    \<and> payers (snd (run_explains xp sv rqs w))
      = payers w @ granted_calls calls (run_calls (sv_user_hash sv) (sv_daily_limit sv) (w_counters w) calls)"
proof (induction rqs arbitrary: w)
  case Nil
  show ?case by (auto simp: granted_calls_def)
next
  case (Cons rq rqs)
  obtain r w1 where r: "explainBuildError xp sv rq w = (r, w1)" by fastforce
  from Cons.IH [of w1] obtain calls where
    calls: "subseq calls (map (\<lambda>rq. (rq_user rq, rq_time rq)) rqs)"
      "payers (snd (run_explains xp sv rqs w1))
       = payers w1 @ granted_calls calls (run_calls (sv_user_hash sv) (sv_daily_limit sv) (w_counters w1) calls)" by blast
  have rest: "snd (run_explains xp sv (rq # rqs) w) = snd (run_explains xp sv rqs w1)" using r by (simp split: prod.split)
  let ?c = "(rq_user rq, rq_time rq)"
  have asked: ?case if "memory_call (sv_user_hash sv) (sv_daily_limit sv) (rq_user rq) (rq_time rq) (w_counters w) = (v, w_counters w1)"
    and "payers w1 = payers w @ (if v = BudgetOk then [?c] else [])" for v
  proof (intro exI conjI)
    show "subseq (?c # calls) (map (\<lambda>rq. (rq_user rq, rq_time rq)) (rq # rqs))" using calls(1) by simp
    show "payers (snd (run_explains xp sv (rq # rqs) w))
        = payers w @ granted_calls (?c # calls) (run_calls (sv_user_hash sv) (sv_daily_limit sv) (w_counters w) (?c # calls))"
      using that calls(2) unfolding rest by (simp add: run_calls_Cons granted_calls_def del: run_calls.simps)
  qed
  from r show ?case
  proof (cases rule: explain_cases)
    case (refused cache verdict counters e)
    then show ?thesis using asked [of verdict] assms by (auto simp: payers_def)
  next
    case (failed cache counters e)
    then show ?thesis using asked [of BudgetOk] by (auto simp: payers_def)
  next
    case (answered cache counters rs a)
    then show ?thesis using asked [of BudgetOk] by (auto simp: payers_def)
  next
    case (silent e)
    then show ?thesis using calls rest by (auto intro: exI [of _ calls])
  next
    case (cached a cache)
    then show ?thesis using calls rest by (auto simp: payers_def intro: exI [of _ calls])
  qed
qed

lemma granted_passed:
  "length (filter sel (map fst (filter (\<lambda>(c, v). v = BudgetOk) zs))) \<le> passed (map snd (filter (\<lambda>(c, v). sel c) zs))"
  by (induction zs) auto

lemma nothing_sent: "\<not> isExplainerConfigured (sv_env sv) \<Longrightarrow> w_sent (snd (run_explains xp sv rqs w)) = w_sent w"
proof (induction rqs arbitrary: w)
  case (Cons rq rqs)
  obtain r w1 where r: "explainBuildError xp sv rq w = (r, w1)" by fastforce
  then have "w_sent w1 = w_sent w" using Cons.prems by (cases rule: explain_cases) auto
  then show ?case using Cons.IH [OF Cons.prems, of w1] r by (cases "run_explains xp sv rqs w1") simp
qed simp

lemma sorted_subseq: "subseq xs ys \<Longrightarrow> sorted (map snd ys) \<Longrightarrow> sorted (map snd xs)"
  by (induction rule: list_emb.induct) (auto dest: subseq_order.order_trans list_emb_set)


definition plain_request :: "string \<Rightarrow> int \<Rightarrow> string \<Rightarrow> request" where
  "plain_request u t log =
     \<lparr>rq_user = u, rq_time = t, rq_done = t + 1, rq_log = log, rq_context = [], rq_hint = None\<rparr>"

definition plain_server :: server where
  "plain_server = \<lparr>sv_env = (\<lambda>_. None)(''ANTHROPIC_API_KEY'' := Some ''key''), sv_user_hash = id, sv_daily_limit = 500\<rparr>"

definition silent_model :: explainer where
  "silent_model = \<lparr>xp_sha256 = (\<lambda>c. map char_of c), xp_parse = (\<lambda>_. None), xp_client = (\<lambda>_ _. Inl ProviderBusy)\<rparr>"


section \<open>The cache\<close>

text \<open>The entry of a key is in the cache with at most \<open>n\<close> entries after it.\<close>

definition cached_within :: "nat \<Rightarrow> string \<Rightarrow> answer \<times> int \<Rightarrow> answer_cache \<Rightarrow> bool" where
  "cached_within n key entry cache \<longleftrightarrow>
     keys_distinct cache \<and> (\<exists>xs ys. cache = xs @ (key, entry) # ys \<and> length ys \<le> n)"

lemma map_get_middle: "key \<notin> fst ` set xs \<Longrightarrow> map_get (xs @ (key, entry) # ys) key = Some entry"
  by (induction xs) auto

lemma cached_within_get:
  assumes "cached_within n key entry cache"
  shows "map_get cache key = Some entry"
proof -
  from assms obtain xs ys where c: "cache = xs @ (key, entry) # ys" and d: "distinct (map fst cache)"
    unfolding cached_within_def by blast
  from d have "key \<notin> fst ` set xs" unfolding c by auto
  then show ?thesis unfolding c by (rule map_get_middle)
qed

lemma cached_within_del:
  assumes "cached_within n key entry cache" and "k \<noteq> key"
  shows "cached_within n key entry (map_del k cache)"
proof -
  from assms(1) obtain xs ys where c: "cache = xs @ (key, entry) # ys" "length ys \<le> n" by (auto simp: cached_within_def)
  then have "map_del k cache = map_del k xs @ (key, entry) # map_del k ys" using assms(2) by (simp add: AList.delete_eq)
  moreover have "length (map_del k ys) \<le> length ys" by (simp add: AList.delete_eq)
  moreover have "keys_distinct (map_del k cache)" using assms(1) by (intro keys_distinct_delete) (simp add: cached_within_def)
  ultimately show ?thesis using c(2) order_trans unfolding cached_within_def by blast
qed

lemma map_set_absent: "k \<notin> fst ` set m \<Longrightarrow> map_set k v m = m @ [(k, v)]"
  by (induction m) auto

lemma write_appends:
  "writeCache k a now cache =
     (let c = map_del k cache @ [(k, (a, now + CACHE_TTL_MS))] in drop (length c - CACHE_MAX_ENTRIES) c)"
proof -
  have "k \<notin> fst ` set (map_del k cache)" by (auto simp: AList.delete_eq)
  from map_set_absent [OF this] show ?thesis by (simp add: writeCache_def Let_def)
qed

lemma keys_distinct_drop: "keys_distinct m \<Longrightarrow> keys_distinct (drop n m)"
  by (simp add: drop_map [symmetric] distinct_drop)

lemma write_distinct:
  assumes "keys_distinct cache"
  shows "keys_distinct (writeCache k a now cache)"
proof -
  have "keys_distinct (map_del k cache @ [(k, (a, now + CACHE_TTL_MS))])"
    using keys_distinct_delete [OF assms, of k] by (auto simp: AList.delete_eq)
  from keys_distinct_drop [OF this] show ?thesis by (simp only: write_appends Let_def)
qed

lemma cached_within_write:
  assumes "cached_within n key entry cache" and "k \<noteq> key" and "n + 1 < CACHE_MAX_ENTRIES"
  shows "cached_within (Suc n) key entry (writeCache k a now cache)"
proof -
  from cached_within_del [OF assms(1,2)] obtain xs ys where
    c: "map_del k cache = xs @ (key, entry) # ys" "length ys \<le> n" by (auto simp: cached_within_def)
  let ?e = "(k, (a, now + CACHE_TTL_MS))"
  have "writeCache k a now cache = drop (length xs + length ys + 2 - CACHE_MAX_ENTRIES) (xs @ (key, entry) # ys @ [?e])"
    by (simp add: write_appends Let_def c)
  also have "\<dots> = drop (length xs + length ys + 2 - CACHE_MAX_ENTRIES) xs @ (key, entry) # (ys @ [?e])"
    using assms(3) c(2) by simp
  finally have "writeCache k a now cache = drop (length xs + length ys + 2 - CACHE_MAX_ENTRIES) xs @ (key, entry) # (ys @ [?e])" .
  moreover have "length (ys @ [?e]) \<le> Suc n" using c(2) by simp
  ultimately show ?thesis using write_distinct assms(1) unfolding cached_within_def by blast
qed

lemma written_is_cached: "keys_distinct cache \<Longrightarrow> cached_within 0 k (a, now + CACHE_TTL_MS) (writeCache k a now cache)"
proof -
  assume d: "keys_distinct cache"
  let ?c = "map_del k cache"
  have "length ?c + 1 - CACHE_MAX_ENTRIES \<le> length ?c" by (simp add: CACHE_MAX_ENTRIES_def)
  then have "writeCache k a now cache = drop (length ?c + 1 - CACHE_MAX_ENTRIES) ?c @ (k, (a, now + CACHE_TTL_MS)) # []"
    by (simp add: write_appends Let_def)
  then show ?thesis using write_distinct [OF d] unfolding cached_within_def by (metis le0 list.size(3))
qed

lemma read_distinct: "keys_distinct cache \<Longrightarrow> keys_distinct (snd (readCache k now cache))"
  by (auto simp: readCache_def keys_distinct_delete split: option.split)

lemma explain_distinct:
  assumes "keys_distinct (w_cache w)" and "explainBuildError xp sv rq w = (r, w')"
  shows "keys_distinct (w_cache w')"
proof -
  have read: "keys_distinct (snd (readCache (answer_key xp sv rq) (rq_time rq) (w_cache w)))"
    by (rule read_distinct [OF assms(1)])
  from assms(2) show ?thesis
    by (cases rule: explain_cases) (use assms(1) read in \<open>simp_all add: write_distinct\<close>)
qed

text \<open>Another request moves an entry that has not expired back by one place at most, and never replaces it.\<close>

lemma explain_keeps_cached:
  assumes "cached_within n key (a, e) (w_cache w)" and "n + 1 < CACHE_MAX_ENTRIES" and "rq_time rq < e"
    and "explainBuildError xp sv rq w = (r, w')"
  shows "cached_within (Suc n) key (a, e) (w_cache w')"
proof -
  have weaker: "cached_within (Suc n) key (a, e) c" if "cached_within n key (a, e) c" for c
    using that le_SucI unfolding cached_within_def by blast
  show ?thesis
  proof (cases "answer_key xp sv rq = key")
    case True
    then have "readCache (answer_key xp sv rq) (rq_time rq) (w_cache w) = (Some a, w_cache w)"
      using cached_within_get [OF assms(1)] assms(3) by (simp add: readCache_def)
    with assms(4) show ?thesis by (cases rule: explain_cases) (use assms(1) weaker in auto)
  next
    case False
    have read: "cached_within n key (a, e) (snd (readCache (answer_key xp sv rq) (rq_time rq) (w_cache w)))"
      using assms(1) cached_within_del [OF assms(1) False] by (auto simp: readCache_def split: option.split)
    from assms(4) show ?thesis
      by (cases rule: explain_cases) (use assms(1) read weaker cached_within_write [OF _ False assms(2)] in auto)
  qed
qed

lemma run_keeps_cached:
  assumes "cached_within n key (a, e) (w_cache w)" and "n + length rqs < CACHE_MAX_ENTRIES" and "\<forall>rq \<in> set rqs. rq_time rq < e"
  shows "cached_within (n + length rqs) key (a, e) (w_cache (snd (run_explains xp sv rqs w)))"
  using assms
proof (induction rqs arbitrary: n w)
  case (Cons rq rqs)
  obtain r w1 where r: "explainBuildError xp sv rq w = (r, w1)" by fastforce
  have "cached_within (Suc n) key (a, e) (w_cache w1)"
    using explain_keeps_cached [OF Cons.prems(1) _ _ r] Cons.prems(2,3) by simp
  from Cons.IH [OF this] Cons.prems(2,3) r show ?case by (cases "run_explains xp sv rqs w1") simp
qed simp

lemma run_distinct: "keys_distinct (w_cache w) \<Longrightarrow> keys_distinct (w_cache (snd (run_explains xp sv rqs w)))"
proof (induction rqs arbitrary: w)
  case (Cons rq rqs)
  obtain r w1 where r: "explainBuildError xp sv rq w = (r, w1)" by fastforce
  from Cons.IH [OF explain_distinct [OF Cons.prems r]] r show ?case by (cases "run_explains xp sv rqs w1") simp
qed simp

text \<open>
  Claim C8. A rebuild of the same broken file is free: when a question was answered, the same question is answered from
  the cache for an hour, with the same answer, no reservation and nothing sent, provided that fewer than 200 other
  requests came between.
\<close>

theorem same_question_is_free:
  assumes "explainBuildError xp sv rq (snd (run_explains xp sv before new_world)) = (Inr (a, False), w1)"
    and "length between < 200" and "\<forall>r \<in> set (rq' # between). rq_time r < rq_done rq + CACHE_TTL_MS"
    and "rq_log rq' = rq_log rq" and "rq_context rq' = rq_context rq" and "rq_hint rq' = rq_hint rq"
  defines "w2 \<equiv> snd (run_explains xp sv between w1)"
  shows "explainBuildError xp sv rq' w2 = (Inr (a, True), w2)"
proof -
  let ?key = "answer_key xp sv rq"
  have dist: "keys_distinct (w_cache (snd (run_explains xp sv before new_world)))"
    by (rule run_distinct) (simp add: new_world_def)
  have cached: "cached_within 0 ?key (a, rq_done rq + CACHE_TTL_MS) (w_cache w1)"
    using assms(1)
  proof (cases rule: explain_cases)
    case (answered cache counters rs a')
    then have "keys_distinct cache" using read_distinct [OF dist] by (metis snd_conv)
    with answered show ?thesis by (simp add: written_is_cached)
  qed auto
  have spoken: "prepareLogForModel (units (rq_log rq)) \<noteq> []"
    using assms(1) by (auto simp: explainBuildError_def)
  have "cached_within (0 + length between) ?key (a, rq_done rq + CACHE_TTL_MS) (w_cache w2)"
    unfolding w2_def by (rule run_keeps_cached [OF cached]) (use assms(2,3) in \<open>auto simp: CACHE_MAX_ENTRIES_def\<close>)
  then have "map_get (w_cache w2) ?key = Some (a, rq_done rq + CACHE_TTL_MS)" by (rule cached_within_get)
  moreover have "answer_key xp sv rq' = ?key" using assms(4-6) by (simp add: answer_key_def question_def)
  ultimately show ?thesis using assms(3,4) spoken by (simp add: explainBuildError_def readCache_def)
qed

text \<open>A model that always explains.\<close>

definition kind_answer :: jsval where
  "kind_answer = JObj [(''summary'', JStr '' A tag is open. ''), (''likelyCause'', JStr ''no end tag''),
     (''fixSteps'', JArr [JStr ''close it'', JNum 3, JStr '' '']), (''location'', JStr ''/build/c.xml:7:2''), (''confidence'', JStr ''sure'')]"

definition kind_model :: explainer where
  "kind_model = \<lparr>xp_sha256 = (\<lambda>c. map char_of c), xp_parse = (\<lambda>_. Some kind_answer),
     xp_client = (\<lambda>_ _. Inr \<lparr>rs_stop_reason = ''end_turn'', rs_content = [(''text'', [])], rs_input_tokens = 9, rs_output_tokens = 4\<rparr>)\<rparr>"

lemma kind_explanation:
  "parseExplanation (\<lambda>_. Some kind_answer) [] =
     Inr \<lparr>ex_summary = ''A tag is open.'', ex_likelyCause = ''no end tag'', ex_fixSteps = [''close it''],
         ex_location = ''/build/c.xml:7:2'', ex_confidence = Medium\<rparr>"
  "normalizeLocation ''/build/c.xml:7:2'' [\<lparr>sn_path = ''c.xml'', sn_line = 7, sn_text = []\<rparr>] = ''c.xml:7''"
  "normalizeLocation ''/build/c.xml:7:2'' [] = ''/build/c.xml:7''"
  by code_simp+

lemma kind_model_explains:
  "\<exists>a w1. explainBuildError kind_model plain_server (plain_request ''ann'' 5 ''bad'') new_world = (Inr (a, False), w1)"
proof -
  have eq: "trim_text (redactSecrets (crlf_to_lf (units ''bad''))) = units ''bad''"
    by (simp add: redactSecrets_def SECRET_PATTERNS_def replace_all.simps url_credentials_def github_token_def github_pat_def
        anthropic_key_def aws_key_def secret_token_def auth_header_def secret_assignment_def secret_names_def ci_prefix_def
        ci_unit_def units_def unit_of_def Let_def trim_text_def is_white_def)
  have spoken: "prepareLogForModel (units ''bad'') \<noteq> []"
    unfolding prepareLogForModel_def Let_def eq by (simp add: MAX_LOG_CHARS_def units_def)
  have "fst (memory_call id 500 ''ann'' 5 []) = BudgetOk"
    by (simp add: memory_call_eq mem_increment_def Let_def USER_MAX_CALLS_def user_key_not_day_key [symmetric])
  then obtain counters where paid: "memory_call id 500 ''ann'' 5 [] = (BudgetOk, counters)" by (metis prod.collapse)
  have on: "isExplainerConfigured ((\<lambda>_. None)(''ANTHROPIC_API_KEY'' := Some ''key''))" by code_simp
  have "\<exists>a. answer_of kind_model key model [] \<lparr>rs_stop_reason = ''end_turn'', rs_content = [(''text'', [])], rs_input_tokens = 9, rs_output_tokens = 4\<rparr>
      = Inr a" for key model
    by (simp add: answer_of_def kind_model_def kind_explanation)
  then obtain f where f: "\<And>key model. answer_of kind_model key model []
      \<lparr>rs_stop_reason = ''end_turn'', rs_content = [(''text'', [])], rs_input_tokens = 9, rs_output_tokens = 4\<rparr> = Inr (f key model)" by metis
  have client: "xp_client kind_model m c = Inr \<lparr>rs_stop_reason = ''end_turn'', rs_content = [(''text'', [])], rs_input_tokens = 9, rs_output_tokens = 4\<rparr>" for m c
    by (simp add: kind_model_def)
  show ?thesis
    using spoken paid on by (simp add: explainBuildError_def Let_def new_world_def readCache_def plain_request_def plain_server_def client f)
qed

theorem same_question_is_free_witness:
  "\<exists>a w2. explainBuildError kind_model plain_server (plain_request ''cy'' 3600005 ''bad'') w2 = (Inr (a, True), w2)"
proof -
  from kind_model_explains obtain a w1 where
    "explainBuildError kind_model plain_server (plain_request ''ann'' 5 ''bad'') (snd (run_explains kind_model plain_server [] new_world))
     = (Inr (a, False), w1)" by auto
  from same_question_is_free [OF this, of "[plain_request ''bob'' 9 ''worse'']" "plain_request ''cy'' 3600005 ''bad''"]
  show ?thesis by (fastforce simp: plain_request_def CACHE_TTL_MS_def)
qed

section \<open>The build that is explained\<close>

lemma advice_not_empty: "di_advice (classifyBuildFailure s) \<noteq> []" "di_code (classifyBuildFailure s) \<noteq> []"
  by (simp_all add: classifyBuildFailure_def Let_def)

text \<open>When a build of this process ends, it is this build that is explained, with a hint, whatever older rows say.\<close>

lemma finished_build_is_explained:
  assumes "map_get (lg_logs st) sid = Some e"
  defines "txt \<equiv> join [newline] (map ll_line (le_lines e))"
  shows "loadFailedBuildLog redisShared sid (snd (finishLog sid r st)) =
    (if bo_success r then Succeeded
     else Failed (if trim txt \<noteq> [] then txt else non_empty_lines [bo_error r, bo_stderr r, bo_stdout r])
       (Some \<lparr>di_code = str_or (bo_code (advised (le_lines e) r)) ''build_failed'', di_advice = bo_advice (advised (le_lines e) r)\<rparr>))"
  using advice_not_empty
  by (simp add: loadFailedBuildLog_def getFinishedBuildLog_def finishLog_def Let_def assms(1) txt_def advised_def)



end
