(* ===== verification/SpellCheck.thy ===== *)
theory SpellCheck imports TextScan begin

text \<open>
  \<^verbatim>\<open>frontend/src/utils/proseSpellCheck.ts\<close>: the spell check of the prose in a PreTeXt
  buffer. A scan finds the spans of the text that are prose, everything else is blanked out, then inline TeX and
  entities, and the words of what remains are looked up. The dictionary (nspell) is a parameter: \<open>correct\<close>, and
  \<open>suggest\<close>, which is \<open>None\<close> where it throws. The offset loops are \<open>while_option\<close> loops with one
  round of the code as their step.
\<close>

section \<open>Vocabulary\<close>

definition PROSE_ELEMENTS :: "string list" where
  "PROSE_ELEMENTS = [''p'', ''title'', ''statement'', ''caption'']"

definition NON_PROSE_ELEMENTS :: "string list" where
  "NON_PROSE_ELEMENTS = [
     ''m'', ''me'', ''men'', ''md'', ''mdn'', ''mrow'',
     ''c'', ''cd'', ''pre'', ''program'', ''console'', ''sage'', ''input'', ''output'',
     ''latex-image'', ''tikz'', ''asymptote'', ''sageplot'',
     ''xi:include'', ''docinfo'', ''macros'', ''latex-preamble'']"

definition VOID_ELEMENTS :: "string list" where
  "VOID_ELEMENTS = [''br'', ''nbsp'', ''ndash'', ''mdash'', ''ellipsis'']"

definition MATHEMATICAL_WORDS :: "string list" where
  "MATHEMATICAL_WORDS = [
     ''eigenvalue'', ''eigenvalues'', ''eigenvector'', ''eigenvectors'', ''eigenspace'', ''eigenspaces'',
     ''eigenbasis'', ''diagonalizable'', ''diagonalisable'', ''diagonalization'', ''diagonalisation'',
     ''invertible'', ''noninvertible'', ''orthonormal'', ''orthogonality'', ''orthogonalization'',
     ''orthogonalisation'', ''rref'', ''submatrix'', ''submatrices'', ''cofactor'', ''cofactors'',
     ''adjugate'', ''nullity'', ''nullspace'', ''rowspace'', ''colspace'', ''idempotent'', ''nilpotent'',
     ''unitary'', ''hermitian'', ''skew'', ''transpose'', ''transposes'', ''determinants'', ''pivot'',
     ''pivots'', ''augmented'', ''span'', ''spanning'', ''basis'', ''bases'', ''homomorphism'',
     ''homomorphisms'', ''isomorphism'', ''isomorphisms'', ''automorphism'', ''automorphisms'',
     ''endomorphism'', ''endomorphisms'', ''monomorphism'', ''epimorphism'', ''homeomorphism'',
     ''diffeomorphism'', ''abelian'', ''nonabelian'', ''subgroup'', ''subgroups'', ''subring'', ''subrings'',
     ''subfield'', ''subfields'', ''subspace'', ''subspaces'', ''submodule'', ''quotient'', ''quotients'',
     ''coset'', ''cosets'', ''centralizer'', ''normalizer'', ''stabilizer'', ''groupoid'', ''monoid'',
     ''semigroup'', ''semigroups'', ''ideal'', ''ideals'', ''noetherian'', ''artinian'', ''surjective'',
     ''injective'', ''bijective'', ''surjection'', ''injection'', ''bijection'', ''endomorph'',
     ''commutator'', ''commutative'', ''noncommutative'', ''associativity'', ''distributivity'',
     ''continuity'', ''differentiable'', ''differentiability'', ''integrable'', ''integrability'',
     ''summable'', ''convergence'', ''divergence'', ''asymptotic'', ''asymptotically'', ''monotonic'',
     ''monotonicity'', ''supremum'', ''infimum'', ''suprema'', ''infima'', ''lipschitz'', ''compactness'',
     ''connectedness'', ''homotopy'', ''homology'', ''cohomology'', ''manifold'', ''manifolds'',
     ''metrizable'', ''neighbourhood'', ''neighborhoods'', ''neighbourhoods'', ''clopen'', ''countable'',
     ''uncountable'', ''denumerable'', ''cardinality'', ''bijectively'', ''combinatorial'', ''combinatorics'',
     ''bijections'', ''permutation'', ''permutations'', ''multiset'', ''multisets'', ''recurrence'',
     ''recurrences'', ''binomial'', ''multinomial'', ''factorial'', ''factorials'', ''modulo'', ''modular'',
     ''congruence'', ''congruences'', ''coprime'', ''divisor'', ''divisors'', ''divisible'', ''divisibility'',
     ''primality'', ''totient'', ''diophantine'', ''unimodular'', ''tautology'', ''tautologies'',
     ''satisfiability'', ''quantifier'', ''quantifiers'', ''predicate'', ''predicates'', ''contrapositive'',
     ''biconditional'', ''iff'', ''axiom'', ''axioms'', ''axiomatic'', ''lemma'', ''lemmas'', ''lemmata'',
     ''corollary'', ''corollaries'', ''variance'', ''covariance'', ''stochastic'', ''stochastically'',
     ''markov'', ''bayesian'', ''posterior'', ''priors'', ''heteroscedastic'', ''homoscedastic'',
     ''unbiasedness'', ''quantile'', ''quantiles'', ''percentile'', ''percentiles'', ''euler'', ''eulerian'',
     ''gauss'', ''gaussian'', ''cauchy'', ''riemann'', ''riemannian'', ''lagrange'', ''lagrangian'',
     ''hamiltonian'', ''jacobian'', ''hessian'', ''laplacian'', ''fourier'', ''taylor'', ''maclaurin'',
     ''bernoulli'', ''chebyshev'', ''poisson'', ''newton'', ''leibniz'', ''fermat'', ''galois'', ''hilbert'',
     ''banach'', ''lebesgue'', ''noether'', ''cayley'', ''sylow'', ''dedekind'', ''weierstrass'', ''bolzano'',
     ''kronecker'', ''vandermonde'', ''wronskian'', ''gram'', ''schmidt'', ''schur'', ''adjoint'',
     ''adjoints'', ''idempotents'', ''summand'', ''summands'', ''codomain'', ''preimage'', ''preimages'',
     ''bilinear'', ''multilinear'', ''sesquilinear'', ''trilinear'', ''seminorm'', ''seminorms'', ''normed'',
     ''pseudometric'', ''ultrametric'', ''equicontinuous'', ''subadditive'', ''superadditive'',
     ''submultiplicative'', ''involutive'', ''antisymmetric'', ''semidefinite'', ''tridiagonal'',
     ''bidiagonal'', ''nonsingular'', ''dualizable'', ''functor'', ''functors'', ''functorial'',
     ''adjunction'', ''naturality'', ''presheaf'', ''cocycle'', ''coboundary'', ''subgradient'',
     ''subdifferential'', ''quasiconvex'', ''quasiconcave'', ''affinely'', ''simplices'', ''polytope'',
     ''polytopes'', ''matroid'', ''matroids'', ''hypergraph'', ''hypergraphs'', ''planarity'', ''automata'',
     ''pushdown'', ''computable'', ''polylogarithmic'', ''asymptotics'', ''nonmeasurable'', ''submartingale'',
     ''supermartingale'', ''ergodic'', ''ergodicity'', ''holomorphic'', ''meromorphic'', ''biholomorphic'',
     ''analyticity'', ''laurent'', ''nikodym'', ''antiderivative'', ''antiderivatives'', ''integrand'',
     ''integrands'', ''uncountably'', ''contravariant'', ''christoffel'', ''ricci'', ''minkowski'',
     ''lorentzian'', ''orthocenter'', ''circumcenter'', ''incenter'', ''centroid'', ''barycentric'',
     ''parametrize'', ''parametrized'', ''parametrization'', ''aleph'', ''zorn'', ''axiomatized'',
     ''equinumerous'', ''pretext'', ''xml'', ''html'', ''latex'', ''tex'', ''pdf'', ''epub'', ''mathjax'',
     ''katex'', ''runestone'', ''sagemath'', ''docinfo'', ''subsubsection'', ''frontmatter'', ''backmatter'',
     ''colophon'', ''bibinfo'', ''webwork'', ''checkpointed'']"

text \<open>\<^verbatim>\<open>Set.has\<close> on a set of literals.\<close>

definition among :: "string list \<Rightarrow> code_text \<Rightarrow> bool" where
  "among ws t = (t \<in> set (map units ws))"

text \<open>It is evaluated without converting the whole list.\<close>

fun is_units :: "string \<Rightarrow> code_text \<Rightarrow> bool" where
  "is_units [] t = (t = [])"
| "is_units (c # cs) t = (case t of [] \<Rightarrow> False | d # ds \<Rightarrow> d = unit_of c \<and> is_units cs ds)"

lemma is_units_iff: "is_units s t \<longleftrightarrow> t = units s"
  by (induction s arbitrary: t) (auto simp: units_def split: list.split)

lemma among_code [code]: "among ws t = list_ex (\<lambda>w. is_units w t) ws"
  by (auto simp: among_def is_units_iff list_ex_iff)

abbreviation ch :: "char \<Rightarrow> code_unit" where "ch \<equiv> unit_of"

definition quote_unit :: code_unit where "quote_unit = 39"
definition dquote_unit :: code_unit where "dquote_unit = 34"
definition backslash :: code_unit where "backslash = 92"
definition right_quote :: code_unit where "right_quote = 0x2019"

definition isNameStart :: "code_unit \<Rightarrow> bool" where
  "isNameStart c = (is_letter c \<or> c = ch (CHR ''_'') \<or> c = ch (CHR '':''))"

definition isNameChar :: "code_unit \<Rightarrow> bool" where
  "isNameChar c = (isNameStart c \<or> (ch (CHR ''0'') \<le> c \<and> c \<le> ch (CHR ''9'')) \<or> c = ch (CHR ''-'') \<or> c = ch (CHR ''.''))"

section \<open>The scan for prose\<close>

type_synonym prose_span = "nat \<times> nat"

text \<open>
  The variables of the scan. The stack holds the innermost element last; \<open>sc_textStart\<close> is
  \<open>None\<close> where the code has \<^verbatim>\<open>-1\<close>.
\<close>

record scan =
  sc_i :: nat
  sc_spans :: "prose_span list"
  sc_stack :: "code_text list"
  sc_proseDepth :: int
  sc_nonProseDepth :: int
  sc_textStart :: "nat option"

definition closeText :: "nat \<Rightarrow> scan \<Rightarrow> scan" where
  "closeText end_at st =
     (case sc_textStart st of
        None \<Rightarrow> st
      | Some s \<Rightarrow> (if end_at > s then st\<lparr>sc_spans := sc_spans st @ [(s, end_at)]\<rparr> else st)\<lparr>sc_textStart := None\<rparr>)"

definition isMarkupAt :: "code_text \<Rightarrow> nat \<Rightarrow> bool" where
  "isMarkupAt src p =
     (case unit_at src (p + 1) of
        None \<Rightarrow> False
      | Some n \<Rightarrow>
          if n = ch (CHR ''!'') \<or> n = ch (CHR ''?'') then True
          else if n = ch (CHR ''/'') then (case unit_at src (p + 2) of None \<Rightarrow> False | Some m \<Rightarrow> isNameStart m)
          else isNameStart n)"

text \<open>\<^verbatim>\<open>source.startsWith(s, i)\<close>\<close>

definition starts_at :: "string \<Rightarrow> code_text \<Rightarrow> nat \<Rightarrow> bool" where
  "starts_at s src i = prefix (units s) (drop i src)"

text \<open>The unwinding to the last open element of that name, if there is one.\<close>

fun last_index :: "'a \<Rightarrow> 'a list \<Rightarrow> nat option" where
  "last_index x [] = None"
| "last_index x (y # ys) =
     (case last_index x ys of Some k \<Rightarrow> Some (Suc k) | None \<Rightarrow> if x = y then Some 0 else None)"

definition weight :: "string list \<Rightarrow> code_text \<Rightarrow> int" where
  "weight ws name = (if among ws name then 1 else 0)"

definition unwind :: "code_text \<Rightarrow> scan \<Rightarrow> scan" where
  "unwind name st =
     (case last_index name (sc_stack st) of
        None \<Rightarrow> st
      | Some idx \<Rightarrow>
          let popped = drop idx (sc_stack st)
          in st\<lparr>sc_stack := take idx (sc_stack st),
                sc_proseDepth := sc_proseDepth st - sum_list (map (weight PROSE_ELEMENTS) popped),
                sc_nonProseDepth := sc_nonProseDepth st - sum_list (map (weight NON_PROSE_ELEMENTS) popped)\<rparr>)"

text \<open>The loop to the end of an opening tag, over what remains of the text at offset \<open>j\<close>.\<close>

fun tag_end :: "code_text \<Rightarrow> code_unit option \<Rightarrow> nat \<Rightarrow> nat" where
  "tag_end [] q j = j"
| "tag_end (c # cs) q j =
     (case q of
        Some d \<Rightarrow> tag_end cs (if c = d then None else q) (Suc j)
      | None \<Rightarrow>
          if c = dquote_unit \<or> c = quote_unit then tag_end cs (Some c) (Suc j)
          else if c = ch (CHR ''>'') then j
          else tag_end cs None (Suc j))"

definition scan_step :: "code_text \<Rightarrow> scan \<Rightarrow> scan" where
  "scan_step src st0 =
     (let i = sc_i st0
      in if unit_at src i \<noteq> Some (ch (CHR ''<'')) \<or> \<not> isMarkupAt src i
         then (if sc_textStart st0 = None \<and> sc_proseDepth st0 > 0 \<and> sc_nonProseDepth st0 = 0
               then st0\<lparr>sc_textStart := Some i\<rparr> else st0)\<lparr>sc_i := i + 1\<rparr>
         else
           let st = closeText i st0
           in if starts_at ''<!--'' src i then st\<lparr>sc_i := stop_after (units ''-->'') src (i + 4)\<rparr>
              else if starts_at ''<![CDATA['' src i then st\<lparr>sc_i := stop_after (units '']]>'') src (i + 9)\<rparr>
              else if starts_at ''<!'' src i \<or> starts_at ''<?'' src i then st\<lparr>sc_i := stop_after (units ''>'') src (i + 2)\<rparr>
              else if starts_at ''</'' src i then
                let j = run_end isNameChar src (i + 2)
                in unwind (lower_text (slice (i + 2) j src)) (st\<lparr>sc_i := stop_after (units ''>'') src j\<rparr>)
              else
                let n = run_end isNameChar src (i + 1);
                    name = lower_text (slice (i + 1) n src);
                    j = tag_end (drop n src) None n;
                    selfClosing = (j < length src \<and> src ! (j - 1) = ch (CHR ''/''));
                    st1 = st\<lparr>sc_i := (if j < length src then j + 1 else length src)\<rparr>
                in if \<not> selfClosing \<and> \<not> among VOID_ELEMENTS name
                   then st1\<lparr>sc_stack := sc_stack st1 @ [name],
                            sc_proseDepth := sc_proseDepth st1 + weight PROSE_ELEMENTS name,
                            sc_nonProseDepth := sc_nonProseDepth st1 + weight NON_PROSE_ELEMENTS name\<rparr>
                   else st1)"

definition scan_start :: scan where
  "scan_start = \<lparr>sc_i = 0, sc_spans = [], sc_stack = [], sc_proseDepth = 0, sc_nonProseDepth = 0, sc_textStart = None\<rparr>"

definition extractProseSpans :: "code_text \<Rightarrow> prose_span list option" where
  "extractProseSpans src =
     map_option (\<lambda>st. sc_spans (closeText (length src) st))
       (while_option (\<lambda>st. sc_i st < length src) (scan_step src) scan_start)"

section \<open>Masking\<close>

definition blank_of :: "code_unit \<Rightarrow> code_unit" where
  "blank_of c = (if c = nl then nl else blank_unit)"

definition maskOutsideSpans :: "code_text \<Rightarrow> prose_span list \<Rightarrow> code_text" where
  "maskOutsideSpans src spans =
     fold (\<lambda>(s, e) out. fold (\<lambda>i o'. o'[i := src ! i]) [s..<e] out) spans (map blank_of src)"

definition blank :: "nat \<Rightarrow> nat \<Rightarrow> code_text \<Rightarrow> code_text" where
  "blank s e chars = take s chars @ map blank_of (slice s e chars) @ drop (max s e) chars"

text \<open>One round of \<^verbatim>\<open>maskInlineNonProse\<close>: the array and the offset.\<close>

definition mask_step :: "code_text \<Rightarrow> code_text \<times> nat \<Rightarrow> code_text \<times> nat" where
  "mask_step txt st =
     (case st of
        (chars, i) \<Rightarrow>
          let c = chars ! i; len = length txt
          in if c = backslash then
               if unit_at chars (i + 1) = Some (ch (CHR ''('')) then
                 let stop = stop_after [backslash, ch (CHR '')'')] txt (i + 2) in (blank i stop chars, stop)
               else if unit_at chars (i + 1) = Some (ch (CHR ''['')) then
                 let stop = stop_after [backslash, ch (CHR '']'')] txt (i + 2) in (blank i stop chars, stop)
               else
                 let j = run_end is_letter chars (i + 1);
                     stop = (if j = i + 1 then i + 2 else j)
                 in (blank i stop chars, stop)
             else if c = ch (CHR ''$'') then
               let delim = (if unit_at chars (i + 1) = Some (ch (CHR ''$'')) then units ''$$'' else units ''$'');
                   stop = stop_after delim txt (i + length delim)
               in (blank i stop chars, stop)
             else if c = ch (CHR ''&'') then
               (case find_from (units '';'') txt (i + 1) of
                  None \<Rightarrow> (chars, i + 1)
                | Some semi \<Rightarrow>
                    if semi > i \<and> semi - i \<le> 12 then (blank i (semi + 1) chars, semi + 1) else (chars, i + 1))
             else (chars, i + 1))"

definition maskInlineNonProse :: "code_text \<Rightarrow> code_text option" where
  "maskInlineNonProse txt =
     map_option fst (while_option (\<lambda>(chars, i). i < length txt) (mask_step txt) (txt, 0))"

section \<open>Words and positions\<close>

definition buildLineStarts :: "code_text \<Rightarrow> nat list" where
  "buildLineStarts src = 0 # map Suc (filter (\<lambda>i. src ! i = nl) [0..<length src])"

function line_search :: "nat list \<Rightarrow> nat \<Rightarrow> nat \<Rightarrow> nat \<Rightarrow> nat" where
  "line_search starts offset lo hi =
     (if lo < hi
      then let mid = (lo + hi + 1) div 2
           in if starts ! mid \<le> offset then line_search starts offset mid hi
              else line_search starts offset lo (mid - 1)
      else lo)"
  by pat_completeness auto
termination by (relation "measure (\<lambda>(starts, offset, lo, hi). hi - lo)") auto

declare line_search.simps [simp del]

definition offsetToPosition :: "nat list \<Rightarrow> nat \<Rightarrow> nat \<times> nat" where
  "offsetToPosition lineStarts offset =
     (let lo = line_search lineStarts offset 0 (length lineStarts - 1)
      in (lo + 1, offset - lineStarts ! lo + 1))"

record word_token =
  tk_word :: code_text
  tk_start :: nat
  tk_end :: nat

text \<open>The inner loop: the end of the word, over what remains of the text at offset \<open>i\<close>.\<close>

definition joins_words :: "code_unit \<Rightarrow> bool" where
  "joins_words c = (c = quote_unit \<or> c = right_quote \<or> c = ch (CHR ''-''))"

fun word_end :: "code_text \<Rightarrow> nat \<Rightarrow> nat" where
  "word_end (c # d # cs) i =
     (if is_letter c then word_end (d # cs) (Suc i)
      else if joins_words c \<and> is_letter d then word_end cs (Suc (Suc i))
      else i)"
| "word_end [c] i = (if is_letter c then Suc i else i)"
| "word_end [] i = i"

definition not_a_word :: "code_unit \<Rightarrow> bool" where
  "not_a_word c = (c = ch (CHR ''/'') \<or> c = backslash \<or> c = ch (CHR ''@'') \<or> c = ch (CHR ''_'') \<or> c = ch (CHR ''.'') \<or> c = ch (CHR '':''))"

definition token_step :: "code_text \<Rightarrow> word_token list \<times> nat \<Rightarrow> word_token list \<times> nat" where
  "token_step txt st =
     (case st of
        (tokens, i) \<Rightarrow>
          if \<not> is_letter (txt ! i) then (tokens, i + 1)
          else
            let e = word_end (drop i txt) i; raw = slice i e txt
            in if (case unit_at txt e of None \<Rightarrow> False | Some c \<Rightarrow> not_a_word c)
               then (tokens, run_end (\<lambda>c. \<not> is_white c) txt e)
               else if length raw < 2 then (tokens, e)
               else if raw = upper_text raw then (tokens, e)
               else (tokens @ [\<lparr>tk_word = raw, tk_start = i, tk_end = e\<rparr>], e))"

definition tokenizeWords :: "code_text \<Rightarrow> word_token list option" where
  "tokenizeWords txt = map_option fst (while_option (\<lambda>(tokens, i). i < length txt) (token_step txt) ([], 0))"

section \<open>The check\<close>

definition normalizeCustomWords :: "code_text list option \<Rightarrow> code_text list" where
  "normalizeCustomWords custom = (case custom of None \<Rightarrow> [] | Some ws \<Rightarrow> map lower_text ws)"

text \<open>\<^verbatim>\<open>lower.replace(/['\u2019]s$/, '')\<close>\<close>

definition strip_possessive :: "code_text \<Rightarrow> code_text" where
  "strip_possessive w =
     (if suffix [quote_unit, ch (CHR ''s'')] w \<or> suffix [right_quote, ch (CHR ''s'')] w
      then take (length w - 2) w else w)"

definition isAllowlisted :: "code_text \<Rightarrow> code_text list \<Rightarrow> bool" where
  "isAllowlisted word custom =
     (let lower = lower_text word; known = (\<lambda>w. among MATHEMATICAL_WORDS w \<or> w \<in> set custom);
          withoutPossessive = strip_possessive lower
      in if known lower then True
         else if withoutPossessive \<noteq> lower then known withoutPossessive
         else False)"

fun split_unit :: "code_unit \<Rightarrow> code_text \<Rightarrow> code_text list" where
  "split_unit d [] = [[]]"
| "split_unit d (x # xs) = (if x = d then [] # split_unit d xs
      else case split_unit d xs of [] \<Rightarrow> [[x]] | w # ws \<Rightarrow> (x # w) # ws)"

definition starts_upper :: "code_text \<Rightarrow> bool" where
  "starts_upper w = (hd w = upper_unit (hd w))"

definition isWordAccepted :: "(code_text \<Rightarrow> bool) \<Rightarrow> code_text list \<Rightarrow> code_text \<Rightarrow> bool" where
  "isWordAccepted correct custom word =
     (if correct word then True
      else if starts_upper word \<and> (correct (lower_text word) \<or> isAllowlisted (lower_text word) custom) then True
      else if ch (CHR ''-'') \<in> set word then
        let parts = filter (\<lambda>p. length p > 0) (split_unit (ch (CHR ''-'')) word)
        in length parts > 1 \<and>
           list_all (\<lambda>part.
               isAllowlisted part custom \<or> correct part \<or> starts_upper part \<and> correct (lower_text part)
               \<or> length part = 1 \<and> is_letter (hd part)) parts
      else False)"

text \<open>\<^verbatim>\<open>suggestions.slice(0, n)\<close>, which counts a negative \<open>n\<close> from the end.\<close>

definition slice0 :: "int \<Rightarrow> 'a list \<Rightarrow> 'a list" where
  "slice0 n xs = take (if n < 0 then length xs - nat (- n) else nat n) xs"

fun join_texts :: "code_text \<Rightarrow> code_text list \<Rightarrow> code_text" where
  "join_texts sep [] = []"
| "join_texts sep [w] = w"
| "join_texts sep (w # v # ws) = w @ sep @ join_texts sep (v # ws)"

record spell_issue =
  si_startLine :: nat
  si_startColumn :: nat
  si_endLine :: nat
  si_endColumn :: nat
  si_message :: code_text
  si_word :: code_text
  si_suggestions :: "code_text list"

definition spell_issue_at ::
    "(code_text \<Rightarrow> code_text list option) \<Rightarrow> int \<Rightarrow> nat list \<Rightarrow> word_token \<Rightarrow> spell_issue" where
  "spell_issue_at suggest maxSuggestions lineStarts tok =
     (let suggestions = (case suggest (tk_word tok) of None \<Rightarrow> [] | Some ss \<Rightarrow> slice0 maxSuggestions ss);
          (startLine, startColumn) = offsetToPosition lineStarts (tk_start tok);
          (endLine, endColumn) = offsetToPosition lineStarts (tk_end tok);
          detail = (if suggestions \<noteq> [] then units '' Did you mean: '' @ join_texts (units '', '') suggestions @ units ''?'' else [])
      in \<lparr>si_startLine = startLine, si_startColumn = startColumn, si_endLine = endLine, si_endColumn = endColumn,
          si_message = [dquote_unit] @ tk_word tok @ [dquote_unit] @ units '' may be misspelled.'' @ detail,
          si_word = tk_word tok, si_suggestions = suggestions\<rparr>)"

text \<open>The loop over the words, with its cache of verdicts and the issues so far.\<close>

fun check_tokens ::
    "(code_text \<Rightarrow> bool) \<Rightarrow> (word_token \<Rightarrow> spell_issue) \<Rightarrow> code_text list \<Rightarrow> int \<Rightarrow>
     (code_text, bool) jsmap \<Rightarrow> spell_issue list \<Rightarrow> word_token list \<Rightarrow> spell_issue list" where
  "check_tokens correct issue custom maxIssues verdicts issues [] = issues"
| "check_tokens correct issue custom maxIssues verdicts issues (tok # toks) =
     (if int (length issues) \<ge> maxIssues then issues
      else if isAllowlisted (tk_word tok) custom then check_tokens correct issue custom maxIssues verdicts issues toks
      else
        let (ok, verdicts') = (case map_get verdicts (tk_word tok) of
              Some v \<Rightarrow> (v, verdicts)
            | None \<Rightarrow> let v = isWordAccepted correct custom (tk_word tok) in (v, map_set (tk_word tok) v verdicts))
        in if ok then check_tokens correct issue custom maxIssues verdicts' issues toks
           else check_tokens correct issue custom maxIssues verdicts' (issues @ [issue tok]) toks)"

record spell_options =
  so_customWords :: "code_text list option"
  so_maxIssues :: "int option"
  so_maxSuggestions :: "int option"

definition DEFAULT_MAX_ISSUES :: int where "DEFAULT_MAX_ISSUES = 500"
definition DEFAULT_MAX_SUGGESTIONS :: int where "DEFAULT_MAX_SUGGESTIONS = 5"

definition spellCheckBuffer ::
    "(code_text \<Rightarrow> bool) \<Rightarrow> (code_text \<Rightarrow> code_text list option) \<Rightarrow> spell_options \<Rightarrow> code_text \<Rightarrow> spell_issue list option" where
  "spellCheckBuffer correct suggest options source =
     (let maxIssues = (case so_maxIssues options of None \<Rightarrow> DEFAULT_MAX_ISSUES | Some n \<Rightarrow> n);
          maxSuggestions = (case so_maxSuggestions options of None \<Rightarrow> DEFAULT_MAX_SUGGESTIONS | Some n \<Rightarrow> n);
          custom = normalizeCustomWords (so_customWords options)
      in if source = [] \<or> maxIssues \<le> 0 then Some []
         else (case extractProseSpans source of
             None \<Rightarrow> None
           | Some spans \<Rightarrow>
               if spans = [] then Some []
               else (case maskInlineNonProse (maskOutsideSpans source spans) of
                   None \<Rightarrow> None
                 | Some masked \<Rightarrow>
                     (case tokenizeWords masked of
                        None \<Rightarrow> None
                      | Some tokens \<Rightarrow>
                          if tokens = [] then Some []
                          else Some (check_tokens correct
                                 (spell_issue_at suggest maxSuggestions (buildLineStarts source)) custom maxIssues [] [] tokens)))))"

definition SPELL_CHECK_EXTENSIONS :: "string list" where
  "SPELL_CHECK_EXTENSIONS = [''xml'', ''ptx'']"

definition isSpellCheckableFile :: "code_text option \<Rightarrow> bool" where
  "isSpellCheckableFile filename =
     (case filename of
        None \<Rightarrow> False
      | Some f \<Rightarrow>
          (case last_index (ch (CHR ''.'')) f of
             None \<Rightarrow> False
           | Some dot \<Rightarrow> among SPELL_CHECK_EXTENSIONS (lower_text (drop (dot + 1) f))))"

end
