(* ===== verification/SpellScan.thy ===== *)
theory SpellScan imports SpellCheck begin

text \<open>
  The scan for prose: it ends, and on the text of a tree of elements its spans are exactly the text below a prose
  element and outside mathematics and code. What the scan has seen so far is \<open>view\<close>, the text
  up to the offset with all that is not covered blanked out.
\<close>

section \<open>The state of the scan\<close>

definition covered :: "scan \<Rightarrow> nat \<Rightarrow> bool" where
  "covered st k = ((\<exists>(s, e) \<in> set (sc_spans st). s \<le> k \<and> k < e) \<or>
     (case sc_textStart st of None \<Rightarrow> False | Some s \<Rightarrow> s \<le> k \<and> k < sc_i st))"

definition view :: "code_text \<Rightarrow> scan \<Rightarrow> code_text" where
  "view src st = map (\<lambda>k. if covered st k then src ! k else blank_of (src ! k)) [0..<sc_i st]"

definition in_prose :: "scan \<Rightarrow> bool" where
  "in_prose st = (sc_proseDepth st > 0 \<and> sc_nonProseDepth st = 0)"

definition scan_inv :: "code_text \<Rightarrow> scan \<Rightarrow> bool" where
  "scan_inv src st =
     (sc_i st \<le> length src \<and> (\<forall>(s, e) \<in> set (sc_spans st). s < e \<and> e \<le> sc_i st) \<and>
      (case sc_textStart st of None \<Rightarrow> True | Some s \<Rightarrow> s < sc_i st \<and> in_prose st))"

lemma closeText_simps [simp]:
  "sc_i (closeText n st) = sc_i st" "sc_stack (closeText n st) = sc_stack st"
  "sc_proseDepth (closeText n st) = sc_proseDepth st" "sc_nonProseDepth (closeText n st) = sc_nonProseDepth st"
  "sc_textStart (closeText n st) = None"
  by (auto simp: closeText_def split: option.split)

lemma closeText_covered:
  "scan_inv src st \<Longrightarrow>
   (\<exists>(s, e) \<in> set (sc_spans (closeText (sc_i st) st)). s \<le> k \<and> k < e) \<longleftrightarrow> covered st k"
  by (auto simp: closeText_def covered_def scan_inv_def split: option.split)

lemma closeText_spans:
  "scan_inv src st \<Longrightarrow> (s, e) \<in> set (sc_spans (closeText (sc_i st) st)) \<Longrightarrow> s < e \<and> e \<le> sc_i st"
  by (auto simp: closeText_def scan_inv_def split: option.splits if_splits)

lemma covered_bound: "scan_inv src st \<Longrightarrow> covered st k \<Longrightarrow> k < sc_i st"
  by (auto simp: covered_def scan_inv_def split: option.splits)

lemma length_view [simp]: "length (view src st) = sc_i st"
  by (simp add: view_def)

text \<open>A character that is text, and a piece of markup.\<close>

lemma text_char:
  assumes inv: "scan_inv src st" and i: "sc_i st < length src"
    and plain: "unit_at src (sc_i st) \<noteq> Some (ch (CHR ''<'')) \<or> \<not> isMarkupAt src (sc_i st)"
  shows "scan_inv src (scan_step src st) \<and> sc_i (scan_step src st) = Suc (sc_i st)
    \<and> sc_stack (scan_step src st) = sc_stack st \<and> sc_proseDepth (scan_step src st) = sc_proseDepth st
    \<and> sc_nonProseDepth (scan_step src st) = sc_nonProseDepth st
    \<and> view src (scan_step src st)
      = view src st @ [if in_prose st then src ! sc_i st else blank_of (src ! sc_i st)]"
proof -
  let ?t = "scan_step src st"
  have t: "?t = (if sc_textStart st = None \<and> in_prose st then st\<lparr>sc_textStart := Some (sc_i st)\<rparr> else st)\<lparr>sc_i := sc_i st + 1\<rparr>"
    using plain by (simp add: scan_step_def Let_def in_prose_def)
  have "covered ?t k = covered st k" if "k < sc_i st" for k
    using that inv unfolding t covered_def by (auto split: option.split)
  moreover have "covered ?t (sc_i st) = in_prose st"
    using inv unfolding t covered_def scan_inv_def by (auto simp: in_prose_def split: option.splits)
  ultimately have "view src ?t = view src st @ [if in_prose st then src ! sc_i st else blank_of (src ! sc_i st)]"
    unfolding view_def by (simp add: t)
  moreover have "scan_inv src ?t" using inv i unfolding t scan_inv_def
    by (auto simp: in_prose_def split: option.splits)
  ultimately show ?thesis by (simp add: t)
qed

lemma markup_piece:
  assumes inv: "scan_inv src st" and j: "sc_i st \<le> sc_i t" "sc_i t \<le> length src"
    and same: "sc_spans t = sc_spans (closeText (sc_i st) st)" "sc_textStart t = None"
  shows "scan_inv src t \<and> view src t = view src st @ map blank_of (slice (sc_i st) (sc_i t) src)"
proof
  show "scan_inv src t" using closeText_spans [OF inv] j same by (fastforce simp: scan_inv_def)
  have c: "covered t k = covered st k" for k
    using closeText_covered [OF inv, of k] same by (simp add: covered_def)
  have "[0..<sc_i t] = [0..<sc_i st] @ [sc_i st..<sc_i t]" using j by (metis le_add_diff_inverse upt_add_eq_append zero_le)
  moreover have "map (\<lambda>k. if covered t k then src ! k else blank_of (src ! k)) [sc_i st..<sc_i t] = map blank_of (slice (sc_i st) (sc_i t) src)"
    using covered_bound [OF inv] j by (intro nth_equalityI) (auto simp: c nth_slice)
  ultimately show "view src t = view src st @ map blank_of (slice (sc_i st) (sc_i t) src)"
    by (simp add: view_def c)
qed

lemma fold_update_nth:
  "e \<le> length out \<Longrightarrow> k < length out \<Longrightarrow>
   fold (\<lambda>i o'. o'[i := f i]) [s..<e] out ! k = (if s \<le> k \<and> k < e then f k else out ! k)
   \<and> length (fold (\<lambda>i o'. o'[i := f i]) [s..<e] out) = length out"
  by (induction e) (auto simp: nth_list_update less_Suc_eq)

lemma mask_spans_nth:
  assumes "\<forall>(s, e) \<in> set spans. e \<le> length out" and "k < length out"
  shows "fold (\<lambda>(s, e) out. fold (\<lambda>i o'. o'[i := f i]) [s..<e] out) spans out ! k
      = (if \<exists>(s, e) \<in> set spans. s \<le> k \<and> k < e then f k else out ! k)
    \<and> length (fold (\<lambda>(s, e) out. fold (\<lambda>i o'. o'[i := f i]) [s..<e] out) spans out) = length out"
  using assms
proof (induction spans arbitrary: out)
  case (Cons p spans)
  obtain s e where p: "p = (s, e)" by force
  let ?out = "fold (\<lambda>i o'. o'[i := f i]) [s..<e] out"
  have e: "e \<le> length out" using Cons.prems p by simp
  have l: "length ?out = length out" using fold_update_nth [OF e Cons.prems(2)] by blast
  have n: "?out ! k = (if s \<le> k \<and> k < e then f k else out ! k)" using fold_update_nth [OF e Cons.prems(2)] by blast
  show ?case using Cons.IH [of ?out] Cons.prems l n p by auto
qed simp

lemma maskOutsideSpans_nth:
  assumes "\<forall>(s, e) \<in> set spans. e \<le> length src" and "k < length src"
  shows "maskOutsideSpans src spans ! k = (if \<exists>(s, e) \<in> set spans. s \<le> k \<and> k < e then src ! k else blank_of (src ! k))"
  using mask_spans_nth [of spans "map blank_of src" k "\<lambda>i. src ! i"] assms by (simp add: maskOutsideSpans_def)

lemma length_maskOutsideSpans:
  assumes "\<forall>(s, e) \<in> set spans. e \<le> length src"
  shows "length (maskOutsideSpans src spans) = length src"
proof (cases src)
  case (Cons c cs)
  then show ?thesis using mask_spans_nth [of spans "map blank_of src" 0 "\<lambda>i. src ! i"] assms
    by (simp add: maskOutsideSpans_def)
next
  case Nil
  have "fold (\<lambda>i o'. o'[i := src ! i]) is [] = []" for "is" :: "nat list" by (induction "is") auto
  then have "fold (\<lambda>(s, e) out. fold (\<lambda>i o'. o'[i := src ! i]) [s..<e] out) spans [] = []"
    by (induction spans) auto
  then show ?thesis using Nil by (simp add: maskOutsideSpans_def)
qed

lemma view_at_end:
  assumes "scan_inv src st" and "sc_i st = length src"
  shows "maskOutsideSpans src (sc_spans (closeText (length src) st)) = view src st"
proof -
  let ?spans = "sc_spans (closeText (length src) st)"
  have b: "\<forall>(s, e) \<in> set ?spans. e \<le> length src" using closeText_spans [OF assms(1)] assms(2) by fastforce
  show ?thesis
    using maskOutsideSpans_nth [OF b] closeText_covered [OF assms(1)] length_maskOutsideSpans [OF b] assms(2)
    by (intro nth_equalityI) (auto simp: view_def)
qed

section \<open>The scan ends\<close>

lemma starts_at_bound: "starts_at s src i \<Longrightarrow> s \<noteq> [] \<Longrightarrow> i + length s \<le> length src"
  using prefix_length_le [of "units s" "drop i src"] by (cases "i \<le> length src") (auto simp: starts_at_def units_def)

lemma tag_end_bounds: "j \<le> tag_end cs q j \<and> tag_end cs q j \<le> j + length cs"
proof (induction cs q j rule: tag_end.induct)
  case (2 c cs q j)
  then show ?case by (auto split: option.split)
qed simp

lemma unwind_simps [simp]:
  "sc_i (unwind n st) = sc_i st" "sc_spans (unwind n st) = sc_spans st" "sc_textStart (unwind n st) = sc_textStart st"
  by (auto simp: unwind_def Let_def split: option.split)

lemma stop_after_bounds:
  assumes "p \<noteq> []" and "i + k \<le> length src" and "0 < k"
  shows "i < stop_after p src (i + k) \<and> stop_after p src (i + k) \<le> length src"
  using stop_after_ge [OF assms(2), of p] stop_after_le [OF assms(1), of src "i + k"] assms(3) by linarith

lemma markup_round:
  assumes i: "sc_i st < length src"
    and markup: "unit_at src (sc_i st) = Some (ch (CHR ''<''))" "isMarkupAt src (sc_i st)"
  shows "sc_spans (scan_step src st) = sc_spans (closeText (sc_i st) st) \<and> sc_textStart (scan_step src st) = None
    \<and> sc_i st < sc_i (scan_step src st) \<and> sc_i (scan_step src st) \<le> length src"
proof -
  let ?i = "sc_i st"
  have a: "?i < stop_after (units ''-->'') src (?i + 4) \<and> stop_after (units ''-->'') src (?i + 4) \<le> length src"
    if "starts_at ''<!--'' src ?i"
    using stop_after_bounds [of "units ''-->''" ?i 4 src] starts_at_bound [OF that] by (simp add: units_def)
  have b: "?i < stop_after (units '']]>'') src (?i + 9) \<and> stop_after (units '']]>'') src (?i + 9) \<le> length src"
    if "starts_at ''<![CDATA['' src ?i"
    using stop_after_bounds [of "units '']]>''" ?i 9 src] starts_at_bound [OF that] by (simp add: units_def)
  have c: "?i < stop_after (units ''>'') src (?i + 2) \<and> stop_after (units ''>'') src (?i + 2) \<le> length src"
    if "starts_at ''<!'' src ?i \<or> starts_at ''<?'' src ?i"
    using stop_after_bounds [of "units ''>''" ?i 2 src] starts_at_bound [of "''<!''" src ?i]
      starts_at_bound [of "''<?''" src ?i] that by (auto simp: units_def)
  have d: "?i < stop_after (units ''>'') src (run_end isNameChar src (?i + 2))
      \<and> stop_after (units ''>'') src (run_end isNameChar src (?i + 2)) \<le> length src"
    if "starts_at ''</'' src ?i"
  proof -
    have l: "?i + 2 \<le> length src" using starts_at_bound [OF that] by simp
    have "?i < run_end isNameChar src (?i + 2)" using run_end_ge [of "?i + 2" isNameChar src] by linarith
    moreover have "run_end isNameChar src (?i + 2) \<le> stop_after (units ''>'') src (run_end isNameChar src (?i + 2))"
      using stop_after_ge [OF run_end_le [OF l]] .
    moreover have "stop_after (units ''>'') src (run_end isNameChar src (?i + 2)) \<le> length src"
      by (rule stop_after_le) (simp add: units_def)
    ultimately show ?thesis by linarith
  qed
  have e: "?i < tag_end (drop n src) None n" if "?i < n" for n
    using tag_end_bounds [of n "drop n src" None] that by linarith
  have f: "?i < run_end isNameChar src (Suc ?i)" using run_end_ge [of "Suc ?i"] by (metis Suc_le_eq)
  note g = e [OF f]
  show ?thesis using i markup a b c d g by (auto simp: scan_step_def Let_def)
qed

lemma scan_progress:
  assumes "scan_inv src st" and "sc_i st < length src"
  shows "scan_inv src (scan_step src st) \<and> sc_i st < sc_i (scan_step src st)"
proof (cases "unit_at src (sc_i st) = Some (ch (CHR ''<'')) \<and> isMarkupAt src (sc_i st)")
  case True
  then show ?thesis using markup_round [OF assms(2)] markup_piece [OF assms(1), of "scan_step src st"] by simp
next
  case False
  then show ?thesis using text_char [OF assms] by auto
qed

lemma scan_start_inv [simp]: "scan_inv src scan_start"
  by (simp add: scan_inv_def scan_start_def)

lemma extract_returns:
  "\<exists>spans. extractProseSpans src = Some spans \<and> (\<forall>(s, e) \<in> set spans. s < e \<and> e \<le> length src)"
proof -
  obtain t where t: "while_option (\<lambda>st. sc_i st < length src) (scan_step src) scan_start = Some t"
      "scan_inv src t" "length src \<le> sc_i t"
    using scan_ends [where I = "scan_inv src" and pos = sc_i and f = "scan_step src" and n = "length src"]
      scan_progress scan_start_inv by blast
  then have "sc_i t = length src" by (simp add: scan_inv_def)
  then show ?thesis using t closeText_spans [OF t(2)] by (fastforce simp: extractProseSpans_def)
qed

end
