(* ===== verification/SpellTree.thy ===== *)
theory SpellTree imports SpellScan begin

text \<open>
  Documents as trees, how they are written, and what of them is prose; the scan reads the prose off the
  written document.
\<close>

section \<open>Documents\<close>

text \<open>
  \<open>Alone\<close> is an element without a closing tag: a void one, or one whose tag ends in a slash, which is part of
  its attribute text. An attribute text is what stands between the name and the closing bracket.
\<close>

datatype doc_node =
    Prose_text code_text
  | Element code_text code_text "doc_node list"
  | Alone code_text code_text
  | Comment code_text
  | Cdata code_text
  | Instruction code_text

fun written :: "doc_node \<Rightarrow> code_text" where
  "written (Prose_text t) = t"
| "written (Element n a cs) = units ''<'' @ n @ a @ units ''>'' @ concat (map written cs) @ units ''</'' @ n @ units ''>''"
| "written (Alone n a) = units ''<'' @ n @ a @ units ''>''"
| "written (Comment t) = units ''<!--'' @ t @ units ''-->''"
| "written (Cdata t) = units ''<![CDATA['' @ t @ units '']]>''"
| "written (Instruction t) = units ''<?'' @ t @ units ''>''"

definition opens_markup :: "code_unit \<Rightarrow> bool" where
  "opens_markup c = (c = ch (CHR ''!'') \<or> c = ch (CHR ''?'') \<or> c = ch (CHR ''/'') \<or> isNameStart c)"

text \<open>A text may hold a bare bracket, as in \<^verbatim>\<open>x < y\<close>.\<close>

fun text_ok :: "code_text \<Rightarrow> bool" where
  "text_ok [] = True"
| "text_ok (c # cs) = ((c = ch (CHR ''<'') \<longrightarrow> cs \<noteq> [] \<and> \<not> opens_markup (hd cs)) \<and> text_ok cs)"

definition name_ok :: "code_text \<Rightarrow> bool" where
  "name_ok n = (n \<noteq> [] \<and> isNameStart (hd n) \<and> list_all isNameChar n)"

text \<open>Quotes are closed, and a closing bracket stands in quotes only.\<close>

fun quotes_ok :: "code_unit option \<Rightarrow> code_text \<Rightarrow> bool" where
  "quotes_ok q [] = (q = None)"
| "quotes_ok (Some d) (c # cs) = quotes_ok (if c = d then None else Some d) cs"
| "quotes_ok None (c # cs) =
     (if c = dquote_unit \<or> c = quote_unit then quotes_ok (Some c) cs else c \<noteq> ch (CHR ''>'') \<and> quotes_ok None cs)"

definition attrs_ok :: "code_text \<Rightarrow> bool" where
  "attrs_ok a = (quotes_ok None a \<and> (a \<noteq> [] \<longrightarrow> \<not> isNameChar (hd a)))"

definition ends_with_slash :: "code_text \<Rightarrow> bool" where
  "ends_with_slash a = (a \<noteq> [] \<and> last a = ch (CHR ''/''))"

definition is_void :: "code_text \<Rightarrow> bool" where
  "is_void n = among VOID_ELEMENTS (lower_text n)"

fun doc_ok :: "doc_node \<Rightarrow> bool" where
  "doc_ok (Prose_text t) = text_ok t"
| "doc_ok (Element n a cs) = (name_ok n \<and> attrs_ok a \<and> \<not> ends_with_slash a \<and> \<not> is_void n \<and> list_all doc_ok cs)"
| "doc_ok (Alone n a) = (name_ok n \<and> attrs_ok a \<and> (ends_with_slash a \<or> is_void n))"
| "doc_ok (Comment t) = (find_sub (units ''-->'') (t @ units ''-->'') = Some (length t))"
| "doc_ok (Cdata t) = (find_sub (units '']]>'') (t @ units '']]>'') = Some (length t))"
| "doc_ok (Instruction t) = (find_sub (units ''>'') (t @ units ''>'') = Some (length t))"

text \<open>
  The document with everything blanked but the prose: text below at least one prose element and below no element
  that never holds prose. The two numbers count these elements among the ancestors.
\<close>

fun prose_only :: "int \<Rightarrow> int \<Rightarrow> doc_node \<Rightarrow> code_text" where
  "prose_only p np (Prose_text t) = (if p > 0 \<and> np = 0 then t else map blank_of t)"
| "prose_only p np (Element n a cs) =
     map blank_of (units ''<'' @ n @ a @ units ''>'')
     @ concat (map (prose_only (p + weight PROSE_ELEMENTS (lower_text n)) (np + weight NON_PROSE_ELEMENTS (lower_text n))) cs)
     @ map blank_of (units ''</'' @ n @ units ''>'')"
| "prose_only p np d = map blank_of (written d)"

section \<open>Reading one piece of a document\<close>

lemma unit_at_append: "drop i src = c # cs \<Longrightarrow> unit_at src i = Some c"
  by (metis Cons_nth_drop_Suc drop_all list.distinct(1) list.inject not_le unit_at_def)

lemma unit_at_drop: "drop i src = xs @ c # cs \<Longrightarrow> unit_at src (i + length xs) = Some c"
  by (rule unit_at_append [of _ _ _ cs]) (metis append_eq_conv_conj drop_drop add.commute)

lemma drop_more: "drop i src = xs @ ys \<Longrightarrow> drop (i + length xs) src = ys"
  by (metis append_eq_conv_conj drop_drop add.commute)

lemma slice_drop: "drop i src = xs @ ys \<Longrightarrow> slice i (i + length xs) src = xs"
  by (simp add: slice_def)

lemma stop_after_found:
  assumes "drop i src = t @ p @ r" and "find_sub p (t @ p) = Some (length t)"
  shows "stop_after p src i = i + length t + length p"
  using find_sub_append [OF assms(2), of r] assms(1) by (simp add: stop_after_def find_from_def)

lemma run_end_found:
  assumes "drop j src = n @ r" and "list_all P n" and "r \<noteq> [] \<longrightarrow> \<not> P (hd r)"
  shows "run_end P src j = j + length n"
proof -
  have "takeWhile P (n @ r) = n" using assms(2,3) by (cases r) (auto simp: list_all_iff takeWhile_append2)
  then show ?thesis using assms(1) by (simp add: run_end_def)
qed

lemma tag_end_attrs: "quotes_ok q a \<Longrightarrow> tag_end (a @ ch (CHR ''>'') # r) q j = j + length a"
proof (induction q a arbitrary: j rule: quotes_ok.induct)
  case (1 q)
  have "ch (CHR ''>'') \<noteq> dquote_unit" "ch (CHR ''>'') \<noteq> quote_unit"
    by (simp_all add: unit_of_def dquote_unit_def quote_unit_def)
  then show ?case using 1 by simp
qed (auto split: if_splits)

lemma name_nonempty: "name_ok n \<Longrightarrow> \<exists>c cs. n = c # cs \<and> isNameStart c"
  by (cases n) (auto simp: name_ok_def)

lemma name_start_plain:
  "isNameStart c \<Longrightarrow> c \<noteq> ch (CHR ''!'') \<and> c \<noteq> ch (CHR ''?'') \<and> c \<noteq> ch (CHR ''/'')"
  by (auto simp: isNameStart_def is_letter_def unit_of_def)

lemma not_name_char [simp]:
  "\<not> isNameChar (ch (CHR ''>''))" "\<not> isNameChar (ch (CHR ''/''))"
  by (simp_all add: isNameChar_def isNameStart_def is_letter_def unit_of_def)

text \<open>The pieces of markup, at the offset where they start.\<close>

lemma markup_view:
  assumes inv: "scan_inv src st" and d: "drop (sc_i st) src = xs @ rest" "xs \<noteq> []"
    and m: "unit_at src (sc_i st) = Some (ch (CHR ''<''))" "isMarkupAt src (sc_i st)"
    and i: "sc_i (scan_step src st) = sc_i st + length xs"
  shows "scan_inv src (scan_step src st) \<and> view src (scan_step src st) = view src st @ map blank_of xs"
proof -
  have "sc_i st < length src" using d by (metis append_is_Nil_conv drop_all not_le)
  note r = markup_round [OF this m]
  show ?thesis using markup_piece [OF inv, of "scan_step src st"] r i slice_drop [OF d(1)] by simp
qed

lemma tag_markup:
  assumes "drop i src = units ''<'' @ n @ r" and "name_ok n"
  shows "unit_at src i = Some (ch (CHR ''<''))" "isMarkupAt src i"
    "\<not> starts_at ''<!--'' src i" "\<not> starts_at ''<![CDATA['' src i" "\<not> starts_at ''<!'' src i"
    "\<not> starts_at ''<?'' src i" "\<not> starts_at ''</'' src i"
proof -
  obtain c cs where n: "n = c # cs" "isNameStart c" using name_nonempty [OF assms(2)] by blast
  have d: "drop i src = ch (CHR ''<'') # c # cs @ r" using assms(1) n by (simp add: units_def)
  show "unit_at src i = Some (ch (CHR ''<''))" by (rule unit_at_append [OF d])
  have "unit_at src (i + 1) = Some c" using unit_at_drop [of i src "[ch (CHR ''<'')]" c "cs @ r"] d by simp
  then show "isMarkupAt src i" using n name_start_plain by (simp add: isMarkupAt_def)
  show "\<not> starts_at ''<!--'' src i" "\<not> starts_at ''<![CDATA['' src i" "\<not> starts_at ''<!'' src i"
    "\<not> starts_at ''<?'' src i" "\<not> starts_at ''</'' src i"
    using name_start_plain [OF n(2)] by (simp_all add: starts_at_def units_def d)
qed

lemma tag_parts:
  assumes d: "drop i src = units ''<'' @ n @ a @ units ''>'' @ rest" and n: "name_ok n" and a: "attrs_ok a"
  shows "run_end isNameChar src (Suc i) = Suc i + length n"
    "slice (Suc i) (Suc i + length n) src = n"
    "tag_end (drop (Suc i + length n) src) None (Suc i + length n) = Suc i + length n + length a"
    "Suc i + length n + length a < length src"
    "src ! (i + length n + length a) = ch (CHR ''/'') \<longleftrightarrow> ends_with_slash a"
proof -
  let ?tag = "units ''<'' @ n @ a"
  have d1: "drop (Suc i) src = n @ a @ units ''>'' @ rest" using drop_more [of i src "units ''<''"] d by simp
  have d2: "drop (Suc i + length n) src = a @ units ''>'' @ rest" using drop_more [OF d1] .
  have d3: "drop (Suc i + length n + length a) src = units ''>'' @ rest" using drop_more [OF d2] .
  have "a @ units ''>'' @ rest \<noteq> [] \<longrightarrow> \<not> isNameChar (hd (a @ units ''>'' @ rest))"
    using a by (cases a) (auto simp: attrs_ok_def units_def)
  then show "run_end isNameChar src (Suc i) = Suc i + length n"
    using run_end_found [OF d1] n by (simp add: name_ok_def)
  show "slice (Suc i) (Suc i + length n) src = n" by (rule slice_drop [OF d1])
  show "tag_end (drop (Suc i + length n) src) None (Suc i + length n) = Suc i + length n + length a"
    using tag_end_attrs [of None a "rest" "Suc i + length n"] a d2 by (simp add: attrs_ok_def units_def)
  show l: "Suc i + length n + length a < length src"
    using d3 by (metis append_is_Nil_conv drop_all length_units list.size(3) not_le length_Cons nat.distinct(1))
  have ne: "n \<noteq> []" using n by (simp add: name_ok_def)
  have d4: "drop i src = ?tag @ units ''>'' @ rest" using d by simp
  have len: "length ?tag = Suc (length n + length a)" by simp
  have "src ! (i + length n + length a) = drop i src ! (length n + length a)"
    using l nth_drop [of i src "length n + length a"] by (simp add: add.assoc)
  also have "\<dots> = ?tag ! (length n + length a)" unfolding d4 using len by (metis lessI nth_append)
  also have "\<dots> = last ?tag" using len last_conv_nth [of ?tag] by (metis diff_Suc_1 list.size(3) nat.distinct(1))
  finally have z: "src ! (i + length n + length a) = (if a = [] then last n else last a)" using ne by (simp add: units_def)
  have "isNameChar (last n)" using n ne by (simp add: name_ok_def list_all_iff)
  then show "src ! (i + length n + length a) = ch (CHR ''/'') \<longleftrightarrow> ends_with_slash a"
    using z by (auto simp: ends_with_slash_def)
qed

lemma open_tag:
  assumes inv: "scan_inv src st" and d: "drop (sc_i st) src = units ''<'' @ n @ a @ units ''>'' @ rest"
    and n: "name_ok n" and a: "attrs_ok a"
  shows "sc_i (scan_step src st) = sc_i st + length (units ''<'' @ n @ a @ units ''>'')
    \<and> scan_inv src (scan_step src st)
    \<and> view src (scan_step src st) = view src st @ map blank_of (units ''<'' @ n @ a @ units ''>'')
    \<and> (if ends_with_slash a \<or> is_void n
       then sc_stack (scan_step src st) = sc_stack st \<and> sc_proseDepth (scan_step src st) = sc_proseDepth st
         \<and> sc_nonProseDepth (scan_step src st) = sc_nonProseDepth st
       else sc_stack (scan_step src st) = sc_stack st @ [lower_text n]
         \<and> sc_proseDepth (scan_step src st) = sc_proseDepth st + weight PROSE_ELEMENTS (lower_text n)
         \<and> sc_nonProseDepth (scan_step src st) = sc_nonProseDepth st + weight NON_PROSE_ELEMENTS (lower_text n))"
proof -
  note m = tag_markup [OF d n] and p = tag_parts [OF d n a]
  have i: "sc_i (scan_step src st) = sc_i st + length (units ''<'' @ n @ a @ units ''>'')"
    using m p by (simp add: scan_step_def Let_def)
  have d': "drop (sc_i st) src = (units ''<'' @ n @ a @ units ''>'') @ rest" using d by simp
  have v: "scan_inv src (scan_step src st) \<and> view src (scan_step src st) = view src st @ map blank_of (units ''<'' @ n @ a @ units ''>'')"
    by (rule markup_view [OF inv d' _ m(1,2) i]) (simp add: units_def)
  show ?thesis using i v m p by (auto simp: scan_step_def Let_def is_void_def)
qed

lemma last_index_last: "last_index x (xs @ [x]) = Some (length xs)"
  by (induction xs) simp_all

lemma stop_at_bracket: "drop j src = units ''>'' @ rest \<Longrightarrow> stop_after (units ''>'') src j = j + 1"
  using stop_after_found [of j src "[]" "units ''>''" rest] by (simp add: units_def)

lemma close_tag:
  assumes inv: "scan_inv src st" and d: "drop (sc_i st) src = units ''</'' @ n @ units ''>'' @ rest"
    and n: "name_ok n" and stack: "sc_stack st = S @ [lower_text n]"
  shows "sc_i (scan_step src st) = sc_i st + length (units ''</'' @ n @ units ''>'')
    \<and> scan_inv src (scan_step src st)
    \<and> view src (scan_step src st) = view src st @ map blank_of (units ''</'' @ n @ units ''>'')
    \<and> sc_stack (scan_step src st) = S
    \<and> sc_proseDepth (scan_step src st) = sc_proseDepth st - weight PROSE_ELEMENTS (lower_text n)
    \<and> sc_nonProseDepth (scan_step src st) = sc_nonProseDepth st - weight NON_PROSE_ELEMENTS (lower_text n)"
proof -
  let ?i = "sc_i st"
  obtain c cs where c: "n = c # cs" "isNameStart c" using name_nonempty [OF n] by blast
  have d0: "drop ?i src = [ch (CHR ''<''), ch (CHR ''/'')] @ c # cs @ units ''>'' @ rest"
    using d c by (simp add: units_def)
  have m1: "unit_at src ?i = Some (ch (CHR ''<''))" using unit_at_append d0 by simp
  have "unit_at src (?i + 1) = Some (ch (CHR ''/''))"
    using unit_at_drop [of ?i src "[ch (CHR ''<'')]" "ch (CHR ''/'')"] d0 by simp
  moreover have "unit_at src (?i + 2) = Some c" using unit_at_drop [OF d0] by simp
  ultimately have m2: "isMarkupAt src ?i" using c by (simp add: isMarkupAt_def unit_of_def)
  have s: "\<not> starts_at ''<!--'' src ?i" "\<not> starts_at ''<![CDATA['' src ?i" "\<not> starts_at ''<!'' src ?i"
    "\<not> starts_at ''<?'' src ?i" "starts_at ''</'' src ?i"
    by (simp_all add: starts_at_def units_def d0 unit_of_def)
  have d1: "drop (Suc (Suc ?i)) src = n @ units ''>'' @ rest" using drop_more [of ?i src "units ''</''"] d by simp
  have e: "run_end isNameChar src (Suc (Suc ?i)) = Suc (Suc ?i) + length n"
    using run_end_found [OF d1] n by (simp add: name_ok_def units_def)
  have f: "stop_after (units ''>'') src (Suc (Suc ?i) + length n) = Suc (Suc ?i) + length n + 1"
    by (rule stop_at_bracket) (rule drop_more [OF d1])
  have g: "slice (Suc (Suc ?i)) (Suc (Suc ?i) + length n) src = n" by (rule slice_drop [OF d1])
  have step: "scan_step src st = unwind (lower_text n) ((closeText ?i st)\<lparr>sc_i := Suc (Suc ?i) + length n + 1\<rparr>)"
    using m1 m2 s e f g by (simp add: scan_step_def Let_def)
  have i: "sc_i (scan_step src st) = ?i + length (units ''</'' @ n @ units ''>'')" by (simp add: step)
  have d': "drop ?i src = (units ''</'' @ n @ units ''>'') @ rest" using d by simp
  have v: "scan_inv src (scan_step src st) \<and> view src (scan_step src st) = view src st @ map blank_of (units ''</'' @ n @ units ''>'')"
    by (rule markup_view [OF inv d' _ m1 m2 i]) (simp add: units_def)
  show ?thesis using i v by (simp add: step unwind_def Let_def stack last_index_last)
qed

text \<open>Comments and the like.\<close>

lemma skipped_piece:
  assumes inv: "scan_inv src st" and d: "drop (sc_i st) src = units s @ t @ units e @ rest"
    and f: "find_sub (units e) (t @ units e) = Some (length t)"
    and k: "(s, e) \<in> {(''<!--'', ''-->''), (''<![CDATA['', '']]>''), (''<?'', ''>'')}"
  shows "sc_i (scan_step src st) = sc_i st + length (units s @ t @ units e)
    \<and> scan_inv src (scan_step src st)
    \<and> view src (scan_step src st) = view src st @ map blank_of (units s @ t @ units e)
    \<and> sc_stack (scan_step src st) = sc_stack st \<and> sc_proseDepth (scan_step src st) = sc_proseDepth st
    \<and> sc_nonProseDepth (scan_step src st) = sc_nonProseDepth st"
proof -
  let ?i = "sc_i st"
  obtain b cs where s: "units s = ch (CHR ''<'') # b # cs" "b = ch (CHR ''!'') \<or> b = ch (CHR ''?'')"
    using k by (auto simp: units_def)
  have d0: "drop ?i src = [ch (CHR ''<'')] @ b # cs @ t @ units e @ rest" using d s by simp
  have m1: "unit_at src ?i = Some (ch (CHR ''<''))" using unit_at_append d0 by simp
  have "unit_at src (?i + 1) = Some b" using unit_at_drop [OF d0] by simp
  then have m2: "isMarkupAt src ?i" using s by (auto simp: isMarkupAt_def)
  have d1: "drop (?i + length s) src = t @ units e @ rest" using drop_more [OF d] by simp
  have st: "stop_after (units e) src (?i + length s) = ?i + length (units s @ t @ units e)"
    using stop_after_found [OF d1 f] by simp
  have at: "starts_at w src ?i \<longleftrightarrow> prefix (units w) (units s @ t @ units e @ rest)" for w
    by (simp add: starts_at_def d)
  consider "s = ''<!--''" "e = ''-->''" | "s = ''<![CDATA[''" "e = '']]>''" | "s = ''<?''" "e = ''>''" using k by auto
  then have step: "scan_step src st = (closeText ?i st)\<lparr>sc_i := stop_after (units e) src (?i + length s)\<rparr>"
  proof cases
    case 1
    then have "starts_at ''<!--'' src ?i" by (simp add: at)
    then show ?thesis using m1 m2 1 by (simp add: scan_step_def Let_def eval_nat_numeral)
  next
    case 2
    then have "starts_at ''<![CDATA['' src ?i" "\<not> starts_at ''<!--'' src ?i" by (simp_all add: at units_def unit_of_def)
    then show ?thesis using m1 m2 2 by (simp add: scan_step_def Let_def eval_nat_numeral)
  next
    case 3
    then have "starts_at ''<?'' src ?i" "\<not> starts_at ''<!--'' src ?i" "\<not> starts_at ''<![CDATA['' src ?i"
      by (simp_all add: at units_def unit_of_def)
    then show ?thesis using m1 m2 3 by (simp add: scan_step_def Let_def eval_nat_numeral)
  qed
  have i: "sc_i (scan_step src st) = ?i + length (units s @ t @ units e)" using step st by simp
  have d': "drop ?i src = (units s @ t @ units e) @ rest" using d by simp
  have v: "scan_inv src (scan_step src st) \<and> view src (scan_step src st) = view src st @ map blank_of (units s @ t @ units e)"
    by (rule markup_view [OF inv d' _ m1 m2 i]) (simp add: s)
  show ?thesis using i v by (simp add: step)
qed

section \<open>Reading a document\<close>

definition reads :: "code_text \<Rightarrow> scan \<Rightarrow> nat \<Rightarrow> code_text \<Rightarrow> scan \<Rightarrow> bool" where
  "reads src st n out t =
     (reach (\<lambda>s. sc_i s < length src) (scan_step src) st t \<and> sc_i t = sc_i st + n \<and> scan_inv src t
      \<and> view src t = view src st @ out \<and> sc_stack t = sc_stack st
      \<and> sc_proseDepth t = sc_proseDepth st \<and> sc_nonProseDepth t = sc_nonProseDepth st)"

lemma reads_nothing [simp]: "scan_inv src st \<Longrightarrow> reads src st 0 [] st"
  by (simp add: reads_def)

lemma reads_more: "reads src st n out t \<Longrightarrow> reads src t m out' v \<Longrightarrow> reads src st (n + m) (out @ out') v"
  by (auto simp: reads_def intro: reach_trans)

lemma more_to_read: "drop i src = xs @ rest \<Longrightarrow> xs \<noteq> [] \<Longrightarrow> i < length src"
  by (metis append_is_Nil_conv drop_all not_le)

lemma reads_text:
  assumes "text_ok t" and "scan_inv src st" and "drop (sc_i st) src = t @ rest"
  shows "\<exists>v. reads src st (length t) (if in_prose st then t else map blank_of t) v"
  using assms
proof (induction t arbitrary: st)
  case (Cons c t)
  let ?s = "scan_step src st"
  have i: "sc_i st < length src" using Cons.prems(3) more_to_read by blast
  have d: "drop (sc_i st) src = [] @ c # t @ rest" using Cons.prems(3) by simp
  have c: "unit_at src (sc_i st) = Some c" "src ! sc_i st = c"
    using unit_at_drop [OF d] i by (simp_all add: unit_at_def)
  have "unit_at src (sc_i st) \<noteq> Some (ch (CHR ''<'')) \<or> \<not> isMarkupAt src (sc_i st)"
  proof (cases "c = ch (CHR ''<'')")
    case True
    then obtain e t' where t: "t = e # t'" "\<not> opens_markup e" using Cons.prems(1) by (cases t) auto
    then have "unit_at src (sc_i st + 1) = Some e" using unit_at_drop [of "sc_i st" src "[c]" e] d by simp
    then show ?thesis using t by (auto simp: isMarkupAt_def opens_markup_def)
  qed (use c in simp)
  note s = text_char [OF Cons.prems(2) i this]
  have "drop (sc_i ?s) src = t @ rest" using s drop_more [of "sc_i st" src "[c]"] d by simp
  then obtain v where v: "reads src ?s (length t) (if in_prose ?s then t else map blank_of t) v"
    using Cons.IH Cons.prems(1) s by fastforce
  have "reads src st 1 [if in_prose st then c else blank_of c] ?s"
    using s c i by (simp add: reads_def reach_one)
  from reads_more [OF this v] show ?case using s by (auto simp: in_prose_def)
qed (auto intro: reads_nothing exI)

lemma reads_one:
  assumes "sc_i st < length src" and "sc_i (scan_step src st) = sc_i st + n \<and> scan_inv src (scan_step src st)
    \<and> view src (scan_step src st) = view src st @ out \<and> sc_stack (scan_step src st) = sc_stack st
    \<and> sc_proseDepth (scan_step src st) = sc_proseDepth st \<and> sc_nonProseDepth (scan_step src st) = sc_nonProseDepth st"
  shows "\<exists>v. reads src st n out v"
  using assms reach_one [of "\<lambda>s. sc_i s < length src" st "scan_step src"] unfolding reads_def by blast

lemma reads_nodes:
  assumes "\<And>x st rest. x \<in> set cs \<Longrightarrow> scan_inv src st \<Longrightarrow> drop (sc_i st) src = written x @ rest \<Longrightarrow>
      \<exists>v. reads src st (length (written x)) (prose_only (sc_proseDepth st) (sc_nonProseDepth st) x) v"
    and "scan_inv src st" and "drop (sc_i st) src = concat (map written cs) @ rest"
  shows "\<exists>v. reads src st (length (concat (map written cs)))
    (concat (map (prose_only (sc_proseDepth st) (sc_nonProseDepth st)) cs)) v"
  using assms
proof (induction cs arbitrary: st)
  case (Cons x cs)
  obtain t where t: "reads src st (length (written x)) (prose_only (sc_proseDepth st) (sc_nonProseDepth st) x) t"
    using Cons.prems(1) [of x st "concat (map written cs) @ rest"] Cons.prems(2,3) by auto
  have "drop (sc_i t) src = concat (map written cs) @ rest"
    using t drop_more [of "sc_i st" src "written x"] Cons.prems(3) by (simp add: reads_def)
  then obtain v where v: "reads src t (length (concat (map written cs)))
    (concat (map (prose_only (sc_proseDepth t) (sc_nonProseDepth t)) cs)) v"
    using Cons.IH [of t] Cons.prems(1) t by (auto simp: reads_def)
  show ?case using reads_more [OF t v] t by (auto simp: reads_def)
qed (auto intro: reads_nothing exI)

lemma reads_piece:
  assumes "drop (sc_i st) src = written x @ rest" and "written x \<noteq> []"
    and "sc_i (scan_step src st) = sc_i st + length (written x) \<and> scan_inv src (scan_step src st)
      \<and> view src (scan_step src st) = view src st @ map blank_of (written x) \<and> sc_stack (scan_step src st) = sc_stack st
      \<and> sc_proseDepth (scan_step src st) = sc_proseDepth st \<and> sc_nonProseDepth (scan_step src st) = sc_nonProseDepth st"
  shows "\<exists>v. reads src st (length (written x)) (map blank_of (written x)) v"
  using reads_one [OF more_to_read [OF assms(1,2)] assms(3)] .

lemma reads_element:
  assumes ok: "name_ok n" "attrs_ok a" "\<not> ends_with_slash a" "\<not> is_void n"
    and inside: "\<And>x st rest. x \<in> set cs \<Longrightarrow> scan_inv src st \<Longrightarrow> drop (sc_i st) src = written x @ rest \<Longrightarrow>
      \<exists>v. reads src st (length (written x)) (prose_only (sc_proseDepth st) (sc_nonProseDepth st) x) v"
    and inv: "scan_inv src st" and d: "drop (sc_i st) src = written (Element n a cs) @ rest"
  shows "\<exists>v. reads src st (length (written (Element n a cs)))
    (prose_only (sc_proseDepth st) (sc_nonProseDepth st) (Element n a cs)) v"
proof -
  let ?b = "\<lambda>s. sc_i s < length src" and ?f = "scan_step src"
  let ?open = "units ''<'' @ n @ a @ units ''>''" and ?close = "units ''</'' @ n @ units ''>''"
  let ?body = "concat (map written cs)"
  let ?p = "sc_proseDepth st + weight PROSE_ELEMENTS (lower_text n)"
  let ?np = "sc_nonProseDepth st + weight NON_PROSE_ELEMENTS (lower_text n)"
  let ?s = "?f st"
  have d1: "drop (sc_i st) src = units ''<'' @ n @ a @ units ''>'' @ (?body @ ?close @ rest)" using d by simp
  note op = open_tag [OF inv d1 ok(1,2)]
  have b1: "?b st" using more_to_read [OF d1] by (simp add: units_def)
  have s: "sc_i ?s = sc_i st + length ?open" "scan_inv src ?s" "view src ?s = view src st @ map blank_of ?open"
    "sc_stack ?s = sc_stack st @ [lower_text n]" "sc_proseDepth ?s = ?p" "sc_nonProseDepth ?s = ?np"
    using op ok(3,4) by simp_all
  have d2: "drop (sc_i ?s) src = ?body @ (?close @ rest)"
    unfolding s(1) by (rule drop_more) (use d1 in simp)
  obtain t where t: "reads src ?s (length ?body) (concat (map (prose_only ?p ?np) cs)) t"
    using reads_nodes [of cs src ?s "?close @ rest", OF _ s(2) d2] inside unfolding s(5,6) by blast
  have t1: "sc_i t = sc_i ?s + length ?body" "scan_inv src t" "sc_stack t = sc_stack st @ [lower_text n]"
    "reach ?b ?f ?s t" "view src t = view src ?s @ concat (map (prose_only ?p ?np) cs)"
    "sc_proseDepth t = ?p" "sc_nonProseDepth t = ?np"
    using t s by (simp_all add: reads_def)
  have d3: "drop (sc_i t) src = units ''</'' @ n @ units ''>'' @ rest"
    unfolding t1(1) using drop_more [OF d2] by simp
  note cl = close_tag [OF t1(2) d3 ok(1) t1(3)]
  have b2: "?b t" using more_to_read [OF d3] by (simp add: units_def)
  have "reach ?b ?f st (?f t)"
    using reach_trans [OF reach_one [of ?b, OF b1] reach_trans [OF t1(4) reach_one [of ?b, OF b2]]] .
  then have "reads src st (length (written (Element n a cs)))
      (prose_only (sc_proseDepth st) (sc_nonProseDepth st) (Element n a cs)) (?f t)"
    using cl t1 s by (simp add: reads_def)
  then show ?thesis ..
qed

lemma reads_doc:
  "doc_ok x \<Longrightarrow> scan_inv src st \<Longrightarrow> drop (sc_i st) src = written x @ rest \<Longrightarrow>
   \<exists>v. reads src st (length (written x)) (prose_only (sc_proseDepth st) (sc_nonProseDepth st) x) v"
proof (induction x arbitrary: st rest)
  case (Prose_text t)
  then show ?case using reads_text [of t src st rest] by (simp add: in_prose_def)
next
  case (Element n a cs)
  then show ?case by (intro reads_element) (auto simp: list_all_iff)
next
  case (Alone n a)
  then have "\<exists>v. reads src st (length (written (Alone n a))) (map blank_of (written (Alone n a))) v"
    using open_tag [of src st n a rest] by (intro reads_piece) (auto simp: units_def)
  then show ?case by simp
next
  case (Comment t)
  then have "\<exists>v. reads src st (length (written (Comment t))) (map blank_of (written (Comment t))) v"
    using skipped_piece [of src st "''<!--''" t "''-->''" rest] by (intro reads_piece) (auto simp: units_def)
  then show ?case by simp
next
  case (Cdata t)
  then have "\<exists>v. reads src st (length (written (Cdata t))) (map blank_of (written (Cdata t))) v"
    using skipped_piece [of src st "''<![CDATA[''" t "'']]>''" rest] by (intro reads_piece) (auto simp: units_def)
  then show ?case by simp
next
  case (Instruction t)
  then have "\<exists>v. reads src st (length (written (Instruction t))) (map blank_of (written (Instruction t))) v"
    using skipped_piece [of src st "''<?''" t "''>''" rest] by (intro reads_piece) (auto simp: units_def)
  then show ?case by simp
qed

text \<open>
  Claim C37. On the text of any document of elements, comments, CDATA sections and instructions, the spans found leave
  exactly the prose: masking everything outside them keeps each character of text below a paragraph,
  title, statement or caption and outside mathematics, code and machinery, at its offset, and blanks all else.
\<close>

theorem spans_are_the_prose:
  assumes "list_all doc_ok docs"
  shows "map_option (maskOutsideSpans (concat (map written docs))) (extractProseSpans (concat (map written docs)))
    = Some (concat (map (prose_only 0 0) docs))"
proof -
  let ?src = "concat (map written docs)"
  obtain t where t: "reads ?src scan_start (length ?src) (concat (map (prose_only 0 0) docs)) t"
    using reads_nodes [of docs ?src scan_start "[]"] reads_doc assms scan_start_inv
    by (auto simp: scan_start_def list_all_iff)
  then have "while_option (\<lambda>st. sc_i st < length ?src) (scan_step ?src) scan_start = Some t"
    by (intro reach_while) (auto simp: reads_def scan_start_def)
  moreover have "maskOutsideSpans ?src (sc_spans (closeText (length ?src) t)) = view ?src t"
    using t by (intro view_at_end) (auto simp: reads_def scan_start_def)
  moreover have view_start: "view ?src scan_start = []" by (simp add: view_def scan_start_def)
  have "view ?src t = concat (map (prose_only 0 0) docs)"
    using t view_start by (simp add: reads_def)
  ultimately show ?thesis by (simp add: extractProseSpans_def)
qed

definition sample_docs :: "doc_node list" where
  "sample_docs =
     [Comment (units ''note''),
      Element (units ''p'') (units '' xml:id=\"a>b\"'')
        [Prose_text (units ''If x < y then ''), Element (units ''m'') [] [Prose_text (units ''x'')],
         Alone (units ''br'') [], Alone (units ''xref'') (units '' ref=\"r\"/''), Prose_text (units '' ends.'')]]"

lemma sample_docs_ok: "list_all doc_ok sample_docs" by code_simp

theorem spans_are_the_prose_witness:
  "map_option (maskOutsideSpans (concat (map written sample_docs))) (extractProseSpans (concat (map written sample_docs)))
    = Some (units ''                           If x < y then                             ends.    '')"
proof -
  have "concat (map (prose_only 0 0) sample_docs)
    = units ''                           If x < y then                             ends.    ''" by code_simp
  then show ?thesis using spans_are_the_prose [OF sample_docs_ok] by simp
qed

end
