(* ===== verification/SpellPositions.thy ===== *)
theory SpellPositions imports SpellTree begin

text \<open>
  The rest of the spell check: masking moves nothing, the words found are pieces of the source, the positions
  reported are theirs, and the early exits and the cache of verdicts do not change what is reported.
\<close>

section \<open>Masking keeps offsets\<close>

definition masks :: "code_text \<Rightarrow> code_text \<Rightarrow> bool" where
  "masks src out = (length out = length src \<and> (\<forall>k < length src. out ! k = src ! k \<or> out ! k = blank_of (src ! k)))"

lemma blank_of_idem [simp]: "blank_of (blank_of c) = blank_of c"
  by (simp add: blank_of_def blank_unit_def nl_def)

lemma masks_refl [simp]: "masks src src"
  by (simp add: masks_def)

lemma masks_trans: "masks a b \<Longrightarrow> masks b c \<Longrightarrow> masks a c"
  unfolding masks_def by (metis blank_of_idem)

lemma length_blank: "s \<le> length chars \<Longrightarrow> length (blank s e chars) = length chars"
  by (auto simp: blank_def min_def max_def)

lemma blank_nth:
  assumes "s \<le> length chars" and "k < length chars"
  shows "blank s e chars ! k = (if s \<le> k \<and> k < e then blank_of (chars ! k) else chars ! k)"
proof -
  consider "k < s" | "s \<le> k" "k < e" | "s \<le> k" "e \<le> k" by linarith
  then show ?thesis
  proof cases
    case 1 then show ?thesis using assms by (simp add: blank_def nth_append)
  next
    case 2
    then have "k - s < length (map blank_of (slice s e chars))" using assms by auto
    then show ?thesis using 2 assms by (simp add: blank_def nth_append nth_slice min_def)
  next
  case 3
    have l: "length (take s chars @ map blank_of (slice s e chars)) = max s e" using 3 assms by (auto simp: max_def)
    have "blank s e chars = (take s chars @ map blank_of (slice s e chars)) @ drop (max s e) chars"
      by (simp add: blank_def)
    moreover have "\<not> k < max s e" using 3 by simp
    ultimately have "blank s e chars ! k = drop (max s e) chars ! (k - max s e)"
      by (simp only: nth_append l if_False)
    then show ?thesis using 3 assms by auto
  qed
qed

lemma masks_blank: "s \<le> length chars \<Longrightarrow> masks chars (blank s e chars)"
  by (simp add: masks_def length_blank blank_nth)

lemma mask_round:
  assumes "i < length tx" and "length chars = length tx"
  shows "masks chars (fst (mask_step tx (chars, i))) \<and> i < snd (mask_step tx (chars, i))"
proof -
  have a: "i < stop_after p tx (i + k)" if "0 < k" "p \<noteq> []" for p k
  proof (cases "i + k \<le> length tx")
    case True
    then show ?thesis using stop_after_ge [OF True, of p] that by linarith
  next
    case False
    then have "stop_after p tx (i + k) = length tx" using that by (simp add: stop_after_def find_from_def)
    then show ?thesis using assms by simp
  qed
  have b: "i < run_end is_letter chars (Suc i)" using run_end_ge [of "Suc i"] by (metis Suc_le_eq)
  have c: "i < semi" if "find_from (units '';'') tx (Suc i) = Some semi" for semi
    using that by (auto simp: find_from_def)
  have d: "masks chars (blank i e chars)" for e using assms masks_blank by simp
  show ?thesis using a [of 2] a [of 1] b c d
    by (auto simp: mask_step_def Let_def units_def split: option.split)
qed

lemma mask_returns: "\<exists>out. maskInlineNonProse tx = Some out \<and> masks tx out"
proof -
  have "\<exists>t. while_option (\<lambda>s. snd s < length tx) (mask_step tx) (tx, 0) = Some t \<and> masks tx (fst t) \<and> length tx \<le> snd t"
  proof (rule scan_ends)
    fix s :: "code_text \<times> nat"
    assume s: "masks tx (fst s)" "snd s < length tx"
    then have "length (fst s) = length tx" by (simp add: masks_def)
    from mask_round [OF s(2) this] show "masks tx (fst (mask_step tx s)) \<and> snd s < snd (mask_step tx s)"
      using masks_trans [OF s(1)] by simp
  qed simp
  then show ?thesis by (auto simp: maskInlineNonProse_def case_prod_unfold)
qed

lemma mask_spans:
  assumes "extractProseSpans src = Some spans"
  shows "masks src (maskOutsideSpans src spans)"
proof -
  have b: "\<forall>(s, e) \<in> set spans. e \<le> length src" using extract_returns [of src] assms by auto
  show ?thesis using maskOutsideSpans_nth [OF b] length_maskOutsideSpans [OF b] by (auto simp: masks_def)
qed

section \<open>Words\<close>

definition word_unit :: "code_unit \<Rightarrow> bool" where
  "word_unit c = (is_letter c \<or> joins_words c)"

lemma word_unit_plain: "word_unit c \<Longrightarrow> c \<noteq> nl \<and> c \<noteq> blank_unit"
  by (auto simp: word_unit_def is_letter_def joins_words_def quote_unit_def right_quote_def unit_of_def nl_def blank_unit_def)

lemma blank_not_word [simp]: "\<not> word_unit (blank_of c)"
  using word_unit_plain by (auto simp: blank_of_def)

lemma word_end_bounds:
  "i \<le> word_end cs i \<and> word_end cs i \<le> i + length cs \<and> list_all word_unit (take (word_end cs i - i) cs)"
proof (induction cs i rule: word_end.induct)
  case (1 c d cs i)
  show ?case
  proof (cases "is_letter c")
    case True
    then have s: "word_end (d # cs) (Suc i) - i = Suc (word_end (d # cs) (Suc i) - Suc i)" using 1 by linarith
    show ?thesis using True 1 s by (simp add: word_unit_def)
  next
    case False
    show ?thesis
    proof (cases "joins_words c \<and> is_letter d")
      case True
      then have s: "word_end cs (Suc (Suc i)) - i = Suc (Suc (word_end cs (Suc (Suc i)) - Suc (Suc i)))"
        using 1 False by linarith
      show ?thesis using True False 1 s by (simp add: word_unit_def)
    next
      case no: False
      have "word_end (c # d # cs) i = i" using False no by auto
      then show ?thesis by simp
    qed
  qed
qed (auto simp: word_unit_def)

lemma word_end_progress: "is_letter c \<Longrightarrow> i < word_end (c # cs) i"
proof (cases cs)
  case (Cons d ds)
  assume "is_letter c"
  then show ?thesis using Cons word_end_bounds [of "Suc i" "d # ds"] by simp
qed simp

definition token_ok :: "code_text \<Rightarrow> word_token \<Rightarrow> bool" where
  "token_ok tx tok =
     (tk_start tok < tk_end tok \<and> tk_end tok \<le> length tx \<and> tk_word tok = slice (tk_start tok) (tk_end tok) tx
      \<and> list_all word_unit (tk_word tok))"

lemma token_round:
  assumes "i < length tx" and "list_all (token_ok tx) toks"
  shows "list_all (token_ok tx) (fst (token_step tx (toks, i))) \<and> i < snd (token_step tx (toks, i))"
proof (cases "is_letter (tx ! i)")
  case True
  have d: "drop i tx = tx ! i # drop (Suc i) tx" using assms(1) by (rule Cons_nth_drop_Suc [symmetric])
  define e where "e = word_end (drop i tx) i"
  have e: "i < e" "e \<le> length tx" "list_all word_unit (slice i e tx)"
    using word_end_progress [OF True] word_end_bounds [of i "drop i tx"] assms(1) d unfolding e_def slice_def by auto
  have "i < run_end P tx e" for P using e(1) run_end_ge [of e P tx] by linarith
  then show ?thesis using True e assms
    by (auto simp: token_step_def Let_def e_def [symmetric] token_ok_def)
qed (use assms in \<open>simp add: token_step_def\<close>)

lemma tokenize_returns: "\<exists>toks. tokenizeWords tx = Some toks \<and> list_all (token_ok tx) toks"
proof -
  have "\<exists>t. while_option (\<lambda>s. snd s < length tx) (token_step tx) ([], 0) = Some t \<and> list_all (token_ok tx) (fst t) \<and> length tx \<le> snd t"
  proof (rule scan_ends)
    fix s :: "word_token list \<times> nat"
    assume "list_all (token_ok tx) (fst s)" "snd s < length tx"
    then show "list_all (token_ok tx) (fst (token_step tx s)) \<and> snd s < snd (token_step tx s)"
      using token_round [of "snd s" tx "fst s"] by simp
  qed simp
  then show ?thesis by (auto simp: tokenizeWords_def case_prod_unfold)
qed

text \<open>The words of the prose of a buffer.\<close>

definition prose_words :: "code_text \<Rightarrow> word_token list option" where
  "prose_words src =
     (case extractProseSpans src of
        None \<Rightarrow> None
      | Some spans \<Rightarrow> (case maskInlineNonProse (maskOutsideSpans src spans) of None \<Rightarrow> None | Some m \<Rightarrow> tokenizeWords m))"

lemma masked_token:
  assumes "masks src m" and "token_ok m tok"
  shows "token_ok src tok"
proof -
  have b: "tk_start tok < tk_end tok" "tk_end tok \<le> length src" "length m = length src"
    using assms by (auto simp: masks_def token_ok_def)
  have "m ! k = src ! k" if k: "tk_start tok \<le> k" "k < tk_end tok" for k
  proof -
    have "tk_word tok = slice (tk_start tok) (tk_end tok) m" using assms(2) by (simp add: token_ok_def)
    then have "k - tk_start tok < length (tk_word tok)" using k b by auto
    moreover have "tk_word tok ! (k - tk_start tok) = m ! k"
      using assms(2) k b nth_slice [of "k - tk_start tok" "tk_end tok" "tk_start tok" m] by (auto simp: token_ok_def)
    ultimately have "word_unit (m ! k)" using assms(2) by (metis list_all_length token_ok_def)
    then show ?thesis using assms(1) k b unfolding masks_def by (metis blank_not_word less_le_trans)
  qed
  then have "slice (tk_start tok) (tk_end tok) src = slice (tk_start tok) (tk_end tok) m"
    using b by (intro nth_equalityI) (auto simp: nth_slice)
  then show ?thesis using assms(2) b by (auto simp: token_ok_def)
qed

lemma prose_words_ok: "\<exists>toks. prose_words src = Some toks \<and> list_all (token_ok src) toks"
proof -
  obtain spans where s: "extractProseSpans src = Some spans" using extract_returns by blast
  obtain m where m: "maskInlineNonProse (maskOutsideSpans src spans) = Some m" "masks (maskOutsideSpans src spans) m"
    using mask_returns by blast
  obtain toks where t: "tokenizeWords m = Some toks" "list_all (token_ok m) toks" using tokenize_returns by blast
  have "masks src m" using masks_trans [OF mask_spans [OF s] m(2)] .
  then show ?thesis using s m t masked_token by (auto simp: prose_words_def list_all_iff)
qed

section \<open>Lines\<close>

text \<open>The starts of the lines are where the lines of the text start.\<close>

lemma filter_upt_Suc: "filter P [0..<Suc n] = (if P 0 then [0] else []) @ map Suc (filter (\<lambda>i. P (Suc i)) [0..<n])"
proof -
  have "[0..<Suc n] = 0 # map Suc [0..<n]" by (metis map_Suc_upt upt_conv_Cons zero_less_Suc)
  then show ?thesis by (simp add: filter_map comp_def)
qed

lemma line_starts_Cons:
  "buildLineStarts (c # cs) =
     (if c = nl then 0 # map Suc (buildLineStarts cs) else 0 # map Suc (tl (buildLineStarts cs)))"
  unfolding buildLineStarts_def length_Cons by (subst filter_upt_Suc) simp

lemma line_starts_head: "\<exists>rest. buildLineStarts src = 0 # rest"
  by (simp add: buildLineStarts_def)

lemma split_unit_nonempty [simp]: "split_unit d s \<noteq> []"
  by (induction s) (auto split: list.split)

lemma lines_at_starts:
  "length (buildLineStarts src) = length (split_unit nl src) \<and>
   (\<forall>k < length (split_unit nl src). split_unit nl src ! k = takeWhile (\<lambda>c. c \<noteq> nl) (drop (buildLineStarts src ! k) src))"
proof (induction src)
  case Nil
  then show ?case by (simp add: buildLineStarts_def)
next
  case (Cons c cs)
  obtain rest where r: "buildLineStarts cs = 0 # rest" using line_starts_head by blast
  obtain w ws where w: "split_unit nl cs = w # ws" by (cases "split_unit nl cs") auto
  have k: "(w # ws) ! k = takeWhile (\<lambda>c. c \<noteq> nl) (drop ((0 # rest) ! k) cs)" if "k < length (w # ws)" for k
    using Cons.IH that unfolding r w by blast
  have l: "length rest = length ws" using Cons.IH by (simp add: r w)
  have w0: "w = takeWhile (\<lambda>c. c \<noteq> nl) cs" using k [of 0] by simp
  have ws: "ws ! m = takeWhile (\<lambda>c. c \<noteq> nl) (drop (rest ! m) cs)" if "m < length ws" for m
    using k [of "Suc m"] that by simp
  show ?case
    using l w0 ws by (auto simp: line_starts_Cons r w nth_Cons split: nat.split)
qed

lemma in_line_starts: "v \<in> set (buildLineStarts src) \<longleftrightarrow> v = 0 \<or> (0 < v \<and> v \<le> length src \<and> src ! (v - 1) = nl)"
  by (cases v) (auto simp: buildLineStarts_def image_iff)

lemma line_starts_sorted: "sorted_wrt (<) (buildLineStarts src)"
proof -
  have "sorted_wrt (<) (filter P [0..<n])" for P n using sorted_wrt_filter sorted_wrt_upt by blast
  then show ?thesis by (simp add: buildLineStarts_def sorted_wrt_map)
qed

lemma line_search_spec:
  "lo \<le> hi \<Longrightarrow> hi < length starts \<Longrightarrow> starts ! lo \<le> offset \<Longrightarrow> sorted_wrt (<) starts \<Longrightarrow>
   (\<forall>k. hi < k \<longrightarrow> k < length starts \<longrightarrow> offset < starts ! k) \<Longrightarrow>
   (let r = line_search starts offset lo hi in r < length starts \<and> starts ! r \<le> offset
      \<and> (\<forall>k. r < k \<longrightarrow> k < length starts \<longrightarrow> offset < starts ! k))"
proof (induction starts offset lo hi rule: line_search.induct)
  case (1 starts offset lo hi)
  show ?case
  proof (cases "lo < hi")
    case True
    define mid where "mid = (lo + hi + 1) div 2"
    have m: "lo < mid" "mid \<le> hi" using True unfolding mid_def by linarith+
    have s: "line_search starts offset lo hi =
      (if starts ! mid \<le> offset then line_search starts offset mid hi else line_search starts offset lo (mid - 1))"
      by (subst line_search.simps) (simp add: True mid_def)
    show ?thesis
    proof (cases "starts ! mid \<le> offset")
      case yes: True
      then show ?thesis using "1.IH"(1) [OF True mid_def yes] "1.prems" m s by simp
    next
      case no: False
      have "offset < starts ! k" if "mid - 1 < k" "k < length starts" for k
      proof (cases "k = mid")
        case False
        then have "starts ! mid < starts ! k"
          using that sorted_wrt_nth_less [OF "1.prems"(4), of mid k] by simp
        then show ?thesis using no by linarith
      qed (use no in simp)
      then show ?thesis using "1.IH"(2) [OF True mid_def no] "1.prems" m s no by (simp add: less_imp_diff_less)
    qed
  next
    case False
    then show ?thesis using "1.prems" by (subst line_search.simps) (simp add: Let_def)
  qed
qed

text \<open>The line of an offset: the last one that starts at or before it.\<close>

lemma offset_line:
  fixes src :: code_text
  defines "starts \<equiv> buildLineStarts src"
  shows "\<exists>r. offsetToPosition starts offset = (r + 1, offset - starts ! r + 1) \<and> r < length starts \<and> starts ! r \<le> offset
    \<and> (\<forall>k. r < k \<longrightarrow> k < length starts \<longrightarrow> offset < starts ! k)"
proof -
  obtain rest where r: "starts = 0 # rest" using line_starts_head unfolding starts_def by blast
  have "sorted_wrt (<) starts" unfolding starts_def by (rule line_starts_sorted)
  then show ?thesis
    using line_search_spec [of 0 "length starts - 1" starts offset] r by (auto simp: offsetToPosition_def Let_def)
qed

lemma word_no_break:
  assumes "token_ok src tok" and "tk_start tok \<le> k" and "k < tk_end tok"
  shows "src ! k \<noteq> nl"
proof -
  have w: "tk_word tok = slice (tk_start tok) (tk_end tok) src" and l: "tk_end tok \<le> length src"
    and u: "list_all word_unit (tk_word tok)" using assms(1) by (auto simp: token_ok_def)
  have "k - tk_start tok < length (tk_word tok)" using w l assms by auto
  then have "word_unit (tk_word tok ! (k - tk_start tok))" using u by (simp add: list_all_length)
  moreover have "tk_word tok ! (k - tk_start tok) = src ! k" using w l assms by (simp add: nth_slice)
  ultimately show ?thesis using word_unit_plain by auto
qed

definition points_at_word :: "code_text \<Rightarrow> spell_issue \<Rightarrow> bool" where
  "points_at_word src i =
     (si_word i \<noteq> [] \<and> si_endLine i = si_startLine i \<and> 1 \<le> si_startLine i
      \<and> si_startLine i \<le> length (split_unit nl src) \<and> 1 \<le> si_startColumn i
      \<and> slice (si_startColumn i - 1) (si_endColumn i - 1) (split_unit nl src ! (si_startLine i - 1)) = si_word i)"

lemma issue_points:
  assumes ok: "token_ok src tok"
  shows "points_at_word src (spell_issue_at suggest n (buildLineStarts src) tok)"
proof -
  let ?st = "buildLineStarts src" and ?s = "tk_start tok" and ?e = "tk_end tok"
  have b: "?s < ?e" "?e \<le> length src" "tk_word tok = slice ?s ?e src" using ok by (auto simp: token_ok_def)
  obtain r where r: "offsetToPosition ?st ?s = (r + 1, ?s - ?st ! r + 1)" "r < length ?st" "?st ! r \<le> ?s"
      "\<And>k. r < k \<Longrightarrow> k < length ?st \<Longrightarrow> ?s < ?st ! k"
    using offset_line by blast
  obtain q where q: "offsetToPosition ?st ?e = (q + 1, ?e - ?st ! q + 1)" "q < length ?st" "?st ! q \<le> ?e"
      "\<And>k. q < k \<Longrightarrow> k < length ?st \<Longrightarrow> ?e < ?st ! k"
    using offset_line by blast
  have quiet: "src ! k \<noteq> nl" if "?st ! r \<le> k" "k < ?e" for k
  proof (cases "?s \<le> k")
    case True
    then show ?thesis using word_no_break [OF ok] that by blast
  next
    case False
    show ?thesis
    proof
      assume "src ! k = nl"
      then have "Suc k \<in> set ?st" using b that by (auto simp: in_line_starts)
      then obtain m where m: "m < length ?st" "?st ! m = Suc k" by (auto simp: in_set_conv_nth)
      have "m \<le> r"
      proof (rule ccontr)
        assume "\<not> m \<le> r"
        then have "?s < Suc k" using r(4) [of m] m by simp
        then show False using False by simp
      qed
      then have "?st ! m \<le> ?st ! r" using m r line_starts_sorted [of src]
        by (metis le_neq_implies_less less_imp_le_nat order_refl sorted_wrt_nth_less)
      then show False using m that by linarith
    qed
  qed
  have "q = r"
  proof (rule ccontr)
    assume "q \<noteq> r"
    moreover have "r \<le> q" using q(4) [of r] r b by (meson leD le_less_trans less_le_trans not_le order_less_imp_le)
    ultimately have lt: "r < q" by simp
    then have "?s < ?st ! q" using r(4) q(2) by blast
    moreover have "?st ! q \<in> set ?st" using q(2) by simp
    then have "?st ! q = 0 \<or> src ! (?st ! q - 1) = nl" unfolding in_line_starts by blast
    ultimately show False using quiet [of "?st ! q - 1"] q(3) r(3) b by fastforce
  qed
  have ln: "r < length (split_unit nl src)"
    "split_unit nl src ! r = takeWhile (\<lambda>c. c \<noteq> nl) (drop (?st ! r) src)"
    using lines_at_starts [of src] r(2) by auto
  have pre: "takeWhile (\<lambda>c. c \<noteq> nl) (drop (?st ! r) src)
    = slice (?st ! r) ?e src @ takeWhile (\<lambda>c. c \<noteq> nl) (drop ?e src)"
  proof -
    have "drop (?st ! r) src = slice (?st ! r) ?e src @ drop ?e src"
      using r(3) b by (simp add: slice_def) (metis append_take_drop_id drop_drop le_add_diff_inverse2 less_imp_le_nat le_trans)
    moreover have "c \<noteq> nl" if "c \<in> set (slice (?st ! r) ?e src)" for c
      using that quiet r(3) b by (auto simp: in_set_conv_nth nth_slice)
    ultimately show ?thesis by (simp add: takeWhile_append2)
  qed
  have "slice (?s - ?st ! r) (?e - ?st ! r) (split_unit nl src ! r) = slice ?s ?e src"
    unfolding ln(2) pre using r(3) b by (intro nth_equalityI) (auto simp: nth_slice nth_append)
  moreover have "tk_word tok \<noteq> []" using b by (metis leD length_0_conv length_slice min_def zero_less_diff diff_is_0_eq less_le_trans)
  ultimately show ?thesis
    using r(1) q(1) \<open>q = r\<close> ln(1) b by (auto simp: points_at_word_def spell_issue_at_def Let_def)
qed

section \<open>What is reported\<close>

definition misspelled :: "(code_text \<Rightarrow> bool) \<Rightarrow> code_text list \<Rightarrow> word_token \<Rightarrow> bool" where
  "misspelled correct custom tok =
     (\<not> isAllowlisted (tk_word tok) custom \<and> \<not> isWordAccepted correct custom (tk_word tok))"

text \<open>The cache holds true verdicts, and the limit cuts the list of issues short.\<close>

lemma check_tokens_exact:
  assumes "\<And>w v. map_get verdicts w = Some v \<Longrightarrow> v = isWordAccepted correct custom w" and "0 \<le> maxIssues"
  shows "check_tokens correct issue custom maxIssues verdicts issues toks
    = issues @ map issue (take (nat maxIssues - length issues) (filter (misspelled correct custom) toks))"
  using assms(1)
proof (induction toks arbitrary: verdicts issues)
  case (Cons tok toks)
  show ?case
  proof (cases "int (length issues) \<ge> maxIssues \<or> isAllowlisted (tk_word tok) custom")
    case True
    then show ?thesis using Cons.IH [OF Cons.prems] by (auto simp: misspelled_def)
  next
    case False
    define ok where "ok = isWordAccepted correct custom (tk_word tok)"
    let ?lookup = "case map_get verdicts (tk_word tok) of Some v \<Rightarrow> (v, verdicts)
        | None \<Rightarrow> let v = isWordAccepted correct custom (tk_word tok) in (v, map_set (tk_word tok) v verdicts)"
    define vs where "vs = snd ?lookup"
    have vs1: "?lookup = (ok, vs)"
      using Cons.prems by (cases "map_get verdicts (tk_word tok)") (auto simp: ok_def vs_def Let_def)
    have vs2: "\<And>w v. map_get vs w = Some v \<Longrightarrow> v = isWordAccepted correct custom w"
      using Cons.prems by (cases "map_get verdicts (tk_word tok)") (auto simp: vs_def Let_def split: if_splits)
    note vs = vs1 vs2
    have room: "nat maxIssues - length issues = Suc (nat maxIssues - Suc (length issues))" using False assms(2) by linarith
    show ?thesis
      using False vs(1) Cons.IH [where verdicts = vs and issues = issues, OF vs(2)]
        Cons.IH [where verdicts = vs and issues = "issues @ [issue tok]", OF vs(2)] room
      by (simp add: misspelled_def ok_def [symmetric])
  qed
qed simp

lemma check_from_scratch:
  "0 < n \<Longrightarrow> check_tokens correct issue custom n [] [] toks
    = map issue (take (nat n) (filter (misspelled correct custom) toks))"
  using check_tokens_exact [of "[]" correct custom n issue "[]" toks] by simp

lemma blank_no_tokens:
  assumes "masks (map blank_of src) m" and "list_all (token_ok m) toks"
  shows "toks = []"
proof (rule ccontr)
  assume "toks \<noteq> []"
  then obtain tok where "token_ok m tok" using assms(2) by (cases toks) auto
  then have t: "token_ok (map blank_of src) tok" using masked_token [OF assms(1)] by simp
  then have "tk_start tok < length src" by (auto simp: token_ok_def)
  moreover have "word_unit (map blank_of src ! tk_start tok)"
  proof -
    have "0 < length (tk_word tok)" "tk_word tok ! 0 = map blank_of src ! tk_start tok"
      using t by (auto simp: token_ok_def nth_slice)
    then show ?thesis using t by (metis list_all_length token_ok_def)
  qed
  ultimately show False by simp
qed

definition issue_limit :: "spell_options \<Rightarrow> int" where
  "issue_limit options = (case so_maxIssues options of None \<Rightarrow> DEFAULT_MAX_ISSUES | Some n \<Rightarrow> n)"

definition suggestion_limit :: "spell_options \<Rightarrow> int" where
  "suggestion_limit options = (case so_maxSuggestions options of None \<Rightarrow> DEFAULT_MAX_SUGGESTIONS | Some n \<Rightarrow> n)"

definition reference_issues ::
    "(code_text \<Rightarrow> bool) \<Rightarrow> (code_text \<Rightarrow> code_text list option) \<Rightarrow> spell_options \<Rightarrow> code_text \<Rightarrow> word_token list \<Rightarrow> spell_issue list" where
  "reference_issues correct suggest options source toks =
     map (spell_issue_at suggest (suggestion_limit options) (buildLineStarts source))
       (take (nat (issue_limit options))
         (filter (misspelled correct (normalizeCustomWords (so_customWords options))) toks))"

text \<open>
  Claim C39. The check reports the misspelled words of the prose, in their order and up to the limit, and nothing else: its
  early exits, its limit inside the loop and its cache of verdicts give what filtering all words of the prose by
  the two word tests gives.
\<close>

theorem spell_check_is_reference:
  "spellCheckBuffer correct suggest options source
   = map_option (reference_issues correct suggest options source) (prose_words source)"
proof -
  obtain spans where s: "extractProseSpans source = Some spans" using extract_returns by blast
  obtain m where m: "maskInlineNonProse (maskOutsideSpans source spans) = Some m" "masks (maskOutsideSpans source spans) m"
    using mask_returns by blast
  obtain toks where t: "tokenizeWords m = Some toks" "list_all (token_ok m) toks" using tokenize_returns by blast
  have none: "toks = []" if "spans = []"
    using blank_no_tokens [of source m toks] m(2) t(2) that by (simp add: maskOutsideSpans_def)
  have empty: "toks = []" if "source = []"
  proof -
    have "masks (map blank_of []) m"
      using masks_trans [OF mask_spans [OF s] m(2)] that by (simp add: masks_def)
    then show ?thesis using blank_no_tokens t(2) by blast
  qed
  show ?thesis
    using s m(1) t(1) none empty
    by (auto simp: spellCheckBuffer_def prose_words_def reference_issues_def issue_limit_def suggestion_limit_def Let_def
        check_from_scratch not_le)
qed

text \<open>
  The check of any buffer, however malformed, ends, with at most the allowed number of issues.
\<close>

theorem spell_check_ends:
  "\<exists>issues. spellCheckBuffer correct suggest options source = Some issues
     \<and> int (length issues) \<le> max 0 (issue_limit options)"
proof -
  have "int (length (reference_issues correct suggest options source toks)) \<le> max 0 (issue_limit options)" for toks
    by (simp add: reference_issues_def)
  then show ?thesis using prose_words_ok [of source] by (auto simp: spell_check_is_reference)
qed

text \<open>
  Claim C38. Every issue points at its word: read by line and column from the lines of the source, the marked stretch is
  the reported word, on a single line.
\<close>

theorem issues_point_at_words:
  "\<exists>issues. spellCheckBuffer correct suggest options source = Some issues \<and> list_all (points_at_word source) issues"
proof -
  obtain toks where t: "prose_words source = Some toks" "list_all (token_ok source) toks" using prose_words_ok by blast
  have "list_all (points_at_word source) (reference_issues correct suggest options source toks)"
    using t(2) issue_points by (auto simp: reference_issues_def list_all_iff dest!: in_set_takeD)
  then show ?thesis using t(1) by (auto simp: spell_check_is_reference)
qed

end
