(* ===== verification/PretexValidator.thy ===== *)
theory PretexValidator imports Prelude begin

text \<open>
  \<^verbatim>\<open>frontend/src/utils/pretexValidator.ts\<close>: the live check of a PreTeXt buffer. The
  regular expression \<^verbatim>\<open>TAG_RE\<close> is the function \<open>tag_match\<close>, its alternatives in order;
  the stack of open elements is a list with the innermost element first. A problem is a
  value of the type \<open>problem\<close>, from which the message and the severity are computed.
\<close>

datatype severity = ErrorSeverity | WarningSeverity

record issue =
  startLineNumber :: int
  startColumn :: int
  endLineNumber :: int
  endColumn :: int
  issue_message :: string
  issue_severity :: severity

definition PTX_FILE_EXTENSIONS :: "string list" where
  "PTX_FILE_EXTENSIONS = [''xml'', ''ptx'']"

text \<open>What follows the last dot, in lower case; empty without a dot.\<close>

definition getFileExtension :: "string \<Rightarrow> string" where
  "getFileExtension filename =
     (if CHR ''.'' \<in> set filename then to_lower (last (split_on (CHR ''.'') filename)) else [])"

definition isPtxFile :: "string option \<Rightarrow> bool" where
  "isPtxFile filename =
     (case filename of
        None \<Rightarrow> False
      | Some f \<Rightarrow> if f = [] then False else getFileExtension f \<in> set PTX_FILE_EXTENSIONS)"

definition PTX_ELEMENTS :: "string list" where
  "PTX_ELEMENTS = [
     ''pretext'', ''book'', ''article'', ''chapter'', ''section'', ''subsection'',
     ''subsubsection'', ''paragraphs'', ''introduction'', ''conclusion'',
     ''theorem'', ''lemma'', ''corollary'', ''proposition'', ''claim'', ''fact'',
     ''identity'', ''conjecture'', ''definition'', ''example'', ''remark'', ''note'',
     ''warning'', ''caution'', ''tip'', ''convention'', ''principle'', ''observation'',
     ''heuristic'', ''assumption'',
     ''exercise'', ''exercises'', ''project'', ''activity'', ''exploration'',
     ''investigation'', ''task'',
     ''statement'', ''proof'', ''hint'', ''answer'', ''solution'',
     ''p'', ''title'', ''subtitle'', ''idx'', ''term'', ''em'', ''alert'', ''q'', ''sq'',
     ''dq'', ''fn'', ''notation'', ''pubtitle'', ''articletitle'',
     ''m'', ''me'', ''men'', ''mrow'', ''mdn'', ''md'',
     ''ol'', ''ul'', ''dl'', ''li'',
     ''figure'', ''image'', ''video'', ''interactive'', ''table'', ''tabular'',
     ''description'', ''shortdescription'',
     ''row'', ''cell'', ''col'',
     ''program'', ''console'', ''input'', ''output'', ''listing'', ''cd'',
     ''xref'', ''ref'', ''cite'',
     ''sidebyside'', ''stack'', ''sbsgroup'',
     ''frontmatter'', ''backmatter'', ''titlepage'', ''abstract'', ''preface'',
     ''appendix'', ''colophon'', ''index'',
     ''author'', ''editor'', ''date'', ''credit'', ''biography'', ''website'', ''email'',
     ''br'', ''var'', ''fillin'']"

definition CONTAINER_ELEMENTS :: "string list" where
  "CONTAINER_ELEMENTS = [
     ''pretext'', ''book'', ''article'', ''chapter'', ''section'', ''subsection'',
     ''subsubsection'', ''paragraphs'', ''exercises'', ''appendix'', ''frontmatter'',
     ''backmatter'']"

definition VOID_ELEMENTS :: "string list" where
  "VOID_ELEMENTS = [''br'', ''var'', ''fillin'']"

definition MATH_ELEMENTS :: "string list" where
  "MATH_ELEMENTS = [''m'', ''me'', ''men'', ''mrow'', ''mdn'', ''md'']"

definition BLOCK_ELEMENTS :: "string list" where
  "BLOCK_ELEMENTS = [
     ''theorem'', ''lemma'', ''corollary'', ''proposition'', ''claim'', ''fact'',
     ''identity'', ''conjecture'', ''definition'', ''example'', ''remark'', ''note'',
     ''warning'', ''caution'', ''tip'', ''figure'', ''table'', ''listing'',
     ''ol'', ''ul'', ''dl'', ''exercise'', ''project'', ''activity'', ''exploration'',
     ''investigation'', ''sidebyside'', ''sbsgroup'', ''assemblage'']"

section \<open>Tokens\<close>

datatype token_type = Open | Close | SelfClosing

record tag_token =
  tok_name :: string
  tok_type :: token_type
  tok_offset :: nat
  tok_length :: nat

record stack_entry =
  entry_name :: string
  entry_offset :: nat
  entry_length :: nat
  hasDescription :: bool

text \<open>Where the first occurrence of \<open>p\<close> from position \<open>k\<close> on ends.\<close>

definition find_end :: "string \<Rightarrow> nat \<Rightarrow> string \<Rightarrow> nat option" where
  "find_end p k s = map_option (\<lambda>i. k + i + length p) (index_of p (drop k s))"

definition name_start :: "char \<Rightarrow> bool" where
  "name_start c = is_alpha c"

definition name_char :: "char \<Rightarrow> bool" where
  "name_char c = (is_alpha c \<or> is_digit c \<or> c = CHR ''_'' \<or> c = CHR '':'' \<or> c = CHR ''-'')"

text \<open>The last alternative: whether there is a slash, the name, and the length of the match.\<close>

definition element_match :: "string \<Rightarrow> (bool \<times> string \<times> nat) option" where
  "element_match s =
     (let slash = starts_with ''</'' s;
          r = drop (if slash then 2 else 1) s;
          name = takeWhile name_char r
      in if \<not> starts_with ''<'' s \<or> r = [] \<or> \<not> name_start (hd r) then None
         else map_option (\<lambda>e. (slash, name, e))
                (find_end ''>'' ((if slash then 2 else 1) + length name) s))"

text \<open>
  \<^verbatim>\<open>TAG_RE\<close> at the start of a string: the length of the match, and for an element its
  slash and name.
\<close>

definition tag_match :: "string \<Rightarrow> ((bool \<times> string) option \<times> nat) option" where
  "tag_match s =
     (if starts_with ''<!--'' s \<and> find_end ''-->'' 4 s \<noteq> None
      then Some (None, the (find_end ''-->'' 4 s))
      else if starts_with ''<?'' s \<and> find_end ''?>'' 2 s \<noteq> None
      then Some (None, the (find_end ''?>'' 2 s))
      else if starts_with ''<![CDATA['' s \<and> find_end '']]>'' 9 s \<noteq> None
      then Some (None, the (find_end '']]>'' 9 s))
      else if starts_with ''<!'' s \<and> find_end ''>'' 2 s \<noteq> None
      then Some (None, the (find_end ''>'' 2 s))
      else map_option (\<lambda>(slash, name, e). (Some (slash, name), e)) (element_match s))"

definition make_token :: "nat \<Rightarrow> string \<Rightarrow> (bool \<times> string) option \<Rightarrow> nat \<Rightarrow> tag_token list" where
  "make_token ofs s found len =
     (case found of
        None \<Rightarrow> []
      | Some (isClose, matched) \<Rightarrow>
          let name = to_lower matched;
              isSelfClose = (\<not> isClose \<and> (ends_with ''/>'' (take len s) \<or> name \<in> set VOID_ELEMENTS))
          in if name \<notin> set PTX_ELEMENTS then []
             else [\<lparr>tok_name = name,
                    tok_type = (if isClose then Close else if isSelfClose then SelfClosing else Open),
                    tok_offset = ofs, tok_length = len\<rparr>])"

lemma find_end_pos: "find_end p k s = Some e \<Longrightarrow> p \<noteq> [] \<Longrightarrow> 0 < e"
  by (auto simp: find_end_def)

lemma tag_match_pos: "tag_match s = Some (found, len) \<Longrightarrow> 0 < len"
  by (auto simp: tag_match_def element_match_def Let_def dest: find_end_pos split: if_splits)

lemma tag_match_Nil: "tag_match [] = None"
  by (simp add: tag_match_def element_match_def)

function tokens_from :: "nat \<Rightarrow> string \<Rightarrow> tag_token list" where
  "tokens_from ofs s =
     (case tag_match s of
        Some (found, len) \<Rightarrow> make_token ofs s found len @ tokens_from (ofs + len) (drop len s)
      | None \<Rightarrow> (case s of [] \<Rightarrow> [] | c # s' \<Rightarrow> tokens_from (ofs + 1) s'))"
  by pat_completeness auto
termination
proof (relation "measure (length \<circ> snd)")
  fix ofs s x found len
  assume "tag_match s = Some x" and "(found, len) = x"
  then have "0 < len" and "s \<noteq> []" using tag_match_pos [of s found len] tag_match_Nil by auto
  then show "((ofs + len, drop len s), (ofs, s)) \<in> measure (length \<circ> snd)" by simp
qed auto

declare tokens_from.simps [simp del]

definition extractTagTokens :: "string \<Rightarrow> tag_token list" where
  "extractTagTokens content = tokens_from 0 content"

section \<open>Issues\<close>

definition offsetToPosition :: "string \<Rightarrow> nat \<Rightarrow> int \<times> int" where
  "offsetToPosition content ofs =
     (let capped = min ofs (length content);
          (line, lastNewline) =
            fold (\<lambda>i (line, lastNewline). if content ! i = newline then (line + 1, int i) else (line, lastNewline))
              [0..<capped] (1, - 1)
      in (line, int capped - lastNewline))"

datatype problem =
    NestedMath string
  | BlockInParagraph string
  | NestedParagraph
  | NestedTitle
  | NestedProof
  | MissingDescription
  | NoOpeningTag string
  | NotClosedBefore string string
  | NeverClosed string

text \<open>The messages; the dash in the sixth is U+2014 in the source.\<close>

fun problem_message :: "problem \<Rightarrow> string" where
  "problem_message (NestedMath n) = ''<'' @ n @ ''> cannot be nested inside a math element''"
| "problem_message (BlockInParagraph n) = ''<'' @ n @ ''> cannot appear inside a <p>''"
| "problem_message NestedParagraph = ''<p> cannot be nested inside another <p>''"
| "problem_message NestedTitle = ''<title> cannot be nested inside another <title>''"
| "problem_message NestedProof = ''<proof> cannot be nested inside another <proof>''"
| "problem_message MissingDescription =
     ''<image> is missing a <description> child - screen readers will have no alt text for it''"
| "problem_message (NoOpeningTag n) = ''</'' @ n @ ''> has no matching opening tag''"
| "problem_message (NotClosedBefore n m) = ''<'' @ n @ ''> is not closed before </'' @ m @ ''>''"
| "problem_message (NeverClosed n) = ''<'' @ n @ ''> is never closed''"

fun problem_severity :: "problem \<Rightarrow> severity" where
  "problem_severity MissingDescription = WarningSeverity"
| "problem_severity (NeverClosed n) = WarningSeverity"
| "problem_severity _ = ErrorSeverity"

type_synonym located = "problem \<times> nat \<times> nat"

definition makeIssue :: "string \<Rightarrow> located \<Rightarrow> issue" where
  "makeIssue content l =
     (case l of (p, ofs, tagLength) \<Rightarrow>
        case offsetToPosition content ofs of (line, col) \<Rightarrow>
          \<lparr>startLineNumber = line, startColumn = col, endLineNumber = line,
           endColumn = col + int tagLength, issue_message = problem_message p,
           issue_severity = problem_severity p\<rparr>)"

definition checkForbiddenNesting :: "tag_token \<Rightarrow> stack_entry list \<Rightarrow> located list" where
  "checkForbiddenNesting token stack =
     (let ancestors = map entry_name stack;
          at = (\<lambda>p. [(p, tok_offset token, tok_length token)])
      in if tok_name token \<in> set MATH_ELEMENTS \<and> list_ex (\<lambda>a. a \<in> set MATH_ELEMENTS) ancestors
         then at (NestedMath (tok_name token))
         else if tok_name token \<in> set BLOCK_ELEMENTS \<and> ''p'' \<in> set ancestors
         then at (BlockInParagraph (tok_name token))
         else if tok_name token = ''p'' \<and> ''p'' \<in> set ancestors then at NestedParagraph
         else if tok_name token = ''title'' \<and> ''title'' \<in> set ancestors then at NestedTitle
         else if tok_name token = ''proof'' \<and> ''proof'' \<in> set ancestors then at NestedProof
         else [])"

definition IMAGE_DESCRIPTION_ELEMENTS :: "string list" where
  "IMAGE_DESCRIPTION_ELEMENTS = [''description'', ''shortdescription'']"

definition warnUndescribedImages :: "stack_entry list \<Rightarrow> located list" where
  "warnUndescribedImages entries =
     concat (map (\<lambda>e. if entry_name e = ''image'' \<and> \<not> hasDescription e
                      then [(MissingDescription, entry_offset e, entry_length e)] else []) entries)"

definition markDescriptionOnParentImage :: "string \<Rightarrow> stack_entry list \<Rightarrow> stack_entry list" where
  "markDescriptionOnParentImage name stack =
     (if name \<notin> set IMAGE_DESCRIPTION_ELEMENTS then stack
      else case stack of
          [] \<Rightarrow> []
        | parent # rest \<Rightarrow>
            if entry_name parent = ''image'' then parent\<lparr>hasDescription := True\<rparr> # rest else stack)"

text \<open>How many open elements lie above the innermost one of a name.\<close>

definition findLastMatchingOpen :: "stack_entry list \<Rightarrow> string \<Rightarrow> nat option" where
  "findLastMatchingOpen stack name =
     (if name \<in> set (map entry_name stack)
      then Some (length (takeWhile (\<lambda>e. entry_name e \<noteq> name) stack)) else None)"

definition validate_token :: "tag_token \<Rightarrow> stack_entry list \<times> located list \<Rightarrow> stack_entry list \<times> located list" where
  "validate_token token st =
     (case st of (stack, issues) \<Rightarrow>
        case tok_type token of
          SelfClosing \<Rightarrow>
            (markDescriptionOnParentImage (tok_name token) stack,
             issues @ checkForbiddenNesting token stack
             @ (if tok_name token = ''image'' then [(MissingDescription, tok_offset token, tok_length token)] else []))
        | Open \<Rightarrow>
            (\<lparr>entry_name = tok_name token, entry_offset = tok_offset token, entry_length = tok_length token,
              hasDescription = False\<rparr> # markDescriptionOnParentImage (tok_name token) stack,
             issues @ checkForbiddenNesting token stack)
        | Close \<Rightarrow>
            (case findLastMatchingOpen stack (tok_name token) of
               None \<Rightarrow> (stack, issues @ [(NoOpeningTag (tok_name token), tok_offset token, tok_length token)])
             | Some depth \<Rightarrow>
                 if depth = 0 then (tl stack, issues @ warnUndescribedImages [hd stack])
                 else (drop (depth + 1) stack,
                       issues @ [(NotClosedBefore (entry_name (hd stack)) (tok_name token),
                                  entry_offset (hd stack), entry_length (hd stack))]
                       @ warnUndescribedImages (rev (take (depth + 1) stack)))))"

definition unclosed_issues :: "stack_entry list \<Rightarrow> located list" where
  "unclosed_issues stack =
     concat (map (\<lambda>e. if entry_name e \<notin> set CONTAINER_ELEMENTS
                      then [(NeverClosed (entry_name e), entry_offset e, entry_length e)] else []) (rev stack))"

definition validate_tokens :: "tag_token list \<Rightarrow> located list" where
  "validate_tokens tokens =
     (case fold validate_token tokens ([], []) of (stack, issues) \<Rightarrow> issues @ unclosed_issues stack)"

definition validatePtxBuffer :: "string \<Rightarrow> string option \<Rightarrow> issue list" where
  "validatePtxBuffer content filename =
     (if \<not> isPtxFile filename then []
      else map (makeIssue content) (validate_tokens (extractTagTokens content)))"

section \<open>Matching of tags\<close>

fun structural :: "located \<Rightarrow> bool" where
  "structural (NoOpeningTag n, l) = True"
| "structural (NotClosedBefore n m, l) = True"
| "structural (NeverClosed n, l) = True"
| "structural _ = False"

text \<open>Sequences in which every tag has its partner, and those that leave elements open.\<close>

inductive balanced :: "tag_token list \<Rightarrow> bool" where
  balanced_Nil: "balanced []"
| balanced_leaf: "tok_type t = SelfClosing \<Longrightarrow> balanced ts \<Longrightarrow> balanced (t # ts)"
| balanced_node:
    "tok_type o1 = Open \<Longrightarrow> tok_type c = Close \<Longrightarrow> tok_name c = tok_name o1 \<Longrightarrow>
     balanced xs \<Longrightarrow> balanced ys \<Longrightarrow> balanced (o1 # xs @ c # ys)"

inductive well_nested :: "tag_token list \<Rightarrow> string list \<Rightarrow> bool" where
  nested_closed: "balanced b \<Longrightarrow> well_nested b []"
| nested_open:
    "well_nested ts names \<Longrightarrow> tok_type o1 = Open \<Longrightarrow> balanced b \<Longrightarrow>
     well_nested (ts @ o1 # b) (tok_name o1 # names)"

inductive_cases well_nested_ConsE: "well_nested ts (n # names)"

lemma balanced_append: "balanced xs \<Longrightarrow> balanced ys \<Longrightarrow> balanced (xs @ ys)"
proof (induction xs rule: balanced.induct)
  case (balanced_node o1 c xs zs)
  then show ?case using balanced.balanced_node [of o1 c xs "zs @ ys"] by simp
qed (auto intro: balanced.intros)

lemma well_nested_append: "well_nested ts names \<Longrightarrow> balanced c \<Longrightarrow> well_nested (ts @ c) names"
proof (induction rule: well_nested.cases)
  case (nested_open ts names o1 b)
  then show ?case
    using well_nested.nested_open [of ts names o1 "b @ c"] by (simp add: balanced_append)
qed (auto intro: well_nested.intros balanced_append)

lemma well_nested_close:
  assumes "well_nested ts (n # names)" and "tok_type c = Close" and "tok_name c = n"
  shows "well_nested (ts @ [c]) names"
proof -
  obtain us o1 b where 1: "ts = us @ o1 # b" "n = tok_name o1" "well_nested us names"
    "tok_type o1 = Open" "balanced b"
    using assms(1) by (auto elim: well_nested_ConsE)
  have "balanced (o1 # b @ [c])"
    using 1 assms balanced_node [of o1 c b "[]"] by (simp add: balanced_Nil)
  with 1 well_nested_append [of us names "o1 # b @ [c]"] show ?thesis by simp
qed

text \<open>The stack of names that the check keeps, and its failure at the first bad tag.\<close>

fun match_tags :: "string list \<Rightarrow> tag_token list \<Rightarrow> string list option" where
  "match_tags names [] = Some names"
| "match_tags names (t # ts) =
     (case tok_type t of
        SelfClosing \<Rightarrow> match_tags names ts
      | Open \<Rightarrow> match_tags (tok_name t # names) ts
      | Close \<Rightarrow>
          (case names of
             [] \<Rightarrow> None
           | n # rest \<Rightarrow> if n = tok_name t then match_tags rest ts else None))"

lemma match_tags_append:
  "match_tags names (ts @ us) = (case match_tags names ts of None \<Rightarrow> None | Some st \<Rightarrow> match_tags st us)"
  by (induction names ts rule: match_tags.induct) (auto split: token_type.split list.split)

lemma match_balanced: "balanced b \<Longrightarrow> match_tags names b = Some names"
  by (induction b arbitrary: names rule: balanced.induct) (auto simp: match_tags_append)

lemma match_well_nested: "well_nested ts names \<Longrightarrow> match_tags [] ts = Some names"
  by (induction rule: well_nested.induct) (auto simp: match_balanced match_tags_append)

lemma well_nested_match: "match_tags [] ts = Some names \<Longrightarrow> well_nested ts names"
proof (induction ts arbitrary: names rule: rev_induct)
  case Nil
  then show ?case by (auto intro: nested_closed balanced_Nil)
next
  case (snoc t ts)
  then obtain st where st: "match_tags [] ts = Some st" "match_tags st [t] = Some names"
    by (auto simp: match_tags_append split: option.splits)
  have ts: "well_nested ts st" using st(1) by (rule snoc.IH)
  show ?case
  proof (cases "tok_type t")
    case Open
    with st(2) nested_open [OF ts Open balanced_Nil] show ?thesis by simp
  next
    case Close
    with st(2) ts show ?thesis by (auto intro: well_nested_close split: list.splits if_splits)
  next
    case SelfClosing
    with st(2) well_nested_append [OF ts] show ?thesis
      by (auto intro: balanced_leaf balanced_Nil)
  qed
qed

lemma names_mark [simp]: "map entry_name (markDescriptionOnParentImage n stack) = map entry_name stack"
  by (auto simp: markDescriptionOnParentImage_def split: list.split)

lemma not_structural_lists:
  "list_all (\<lambda>l. \<not> structural l) (checkForbiddenNesting t stack)"
  "list_all (\<lambda>l. \<not> structural l) (warnUndescribedImages es)"
  by (auto simp: checkForbiddenNesting_def Let_def warnUndescribedImages_def list_all_iff)

lemma findLastMatchingOpen_Cons:
  "findLastMatchingOpen (e # es) n =
     (if entry_name e = n then Some 0 else map_option Suc (findLastMatchingOpen es n))"
  by (auto simp: findLastMatchingOpen_def)

lemma validate_token_match:
  "\<exists>stack' new. validate_token t (stack, issues) = (stack', issues @ new) \<and>
     (list_all (\<lambda>l. \<not> structural l) new \<longleftrightarrow> match_tags (map entry_name stack) [t] = Some (map entry_name stack')) \<and>
     (\<not> list_all (\<lambda>l. \<not> structural l) new \<longleftrightarrow> match_tags (map entry_name stack) [t] = None)"
proof (cases "tok_type t")
  case Close
  show ?thesis
  proof (cases stack)
    case Nil
    with Close show ?thesis by (simp add: validate_token_def findLastMatchingOpen_def)
  next
    case (Cons e es)
    with Close show ?thesis
      by (cases "findLastMatchingOpen es (tok_name t)")
        (simp_all add: validate_token_def findLastMatchingOpen_Cons not_structural_lists)
  qed
qed (simp_all add: validate_token_def not_structural_lists)

lemma validate_fold_match:
  "\<exists>stack' new. fold validate_token ts (stack, issues) = (stack', issues @ new) \<and>
     (list_all (\<lambda>l. \<not> structural l) new \<longleftrightarrow> match_tags (map entry_name stack) ts = Some (map entry_name stack')) \<and>
     (\<not> list_all (\<lambda>l. \<not> structural l) new \<longleftrightarrow> match_tags (map entry_name stack) ts = None)"
proof (induction ts arbitrary: stack issues)
  case (Cons t ts)
  obtain st1 new1 where 1: "validate_token t (stack, issues) = (st1, issues @ new1)"
    "list_all (\<lambda>l. \<not> structural l) new1 \<longleftrightarrow> match_tags (map entry_name stack) [t] = Some (map entry_name st1)"
    "\<not> list_all (\<lambda>l. \<not> structural l) new1 \<longleftrightarrow> match_tags (map entry_name stack) [t] = None"
    using validate_token_match [of t stack issues] by (elim exE conjE) (rule that)
  obtain st2 new2 where 2: "fold validate_token ts (st1, issues @ new1) = (st2, (issues @ new1) @ new2)"
    "list_all (\<lambda>l. \<not> structural l) new2 \<longleftrightarrow> match_tags (map entry_name st1) ts = Some (map entry_name st2)"
    "\<not> list_all (\<lambda>l. \<not> structural l) new2 \<longleftrightarrow> match_tags (map entry_name st1) ts = None"
    using Cons.IH [of st1 "issues @ new1"] by (elim exE conjE) (rule that)
  have "match_tags (map entry_name stack) (t # ts) =
      (case match_tags (map entry_name stack) [t] of None \<Rightarrow> None | Some st \<Rightarrow> match_tags st ts)"
    using match_tags_append [of "map entry_name stack" "[t]" ts] by simp
  then have "list_all (\<lambda>l. \<not> structural l) (new1 @ new2) \<longleftrightarrow>
        match_tags (map entry_name stack) (t # ts) = Some (map entry_name st2)"
    and "\<not> list_all (\<lambda>l. \<not> structural l) (new1 @ new2) \<longleftrightarrow>
        match_tags (map entry_name stack) (t # ts) = None"
    using 1(2,3) 2(2,3) by (cases "list_all (\<lambda>l. \<not> structural l) new1"; simp)+
  moreover have "fold validate_token (t # ts) (stack, issues) = (st2, issues @ (new1 @ new2))"
    using 1(1) 2(1) by simp
  ultimately show ?case by (intro exI conjI)
qed simp

lemma unclosed_structural:
  "list_all (\<lambda>l. \<not> structural l) (unclosed_issues stack)
   \<longleftrightarrow> list_all (\<lambda>n. n \<in> set CONTAINER_ELEMENTS) (map entry_name stack)"
  by (auto simp: unclosed_issues_def list_all_iff)

text \<open>
  The check of tag structure is exact: a sequence of tags gets none of the three structural
  complaints (no opening tag, closed too late, never closed) if and only if every tag has
  its partner in properly nested order, except that the elements left open at the end are
  document-level containers, as in an included fragment.
\<close>

theorem tag_structure_exact:
  "list_all (\<lambda>l. \<not> structural l) (validate_tokens ts) =
   (\<exists>names. well_nested ts names \<and> list_all (\<lambda>n. n \<in> set CONTAINER_ELEMENTS) names)"
proof -
  obtain stack new where f: "fold validate_token ts ([], []) = (stack, new)"
    "list_all (\<lambda>l. \<not> structural l) new \<longleftrightarrow> match_tags [] ts = Some (map entry_name stack)"
    "\<not> list_all (\<lambda>l. \<not> structural l) new \<longleftrightarrow> match_tags [] ts = None"
    using validate_fold_match [of ts "[]" "[]"] by auto
  have wn: "well_nested ts names \<longleftrightarrow> match_tags [] ts = Some names" for names
    using well_nested_match match_well_nested by blast
  show ?thesis
    using f by (auto simp: validate_tokens_def unclosed_structural wn)
qed

section \<open>Documents as trees\<close>

datatype ptx_tree = Leaf tag_token | Node tag_token "ptx_tree list" tag_token

fun tree_tokens :: "ptx_tree \<Rightarrow> tag_token list" where
  "tree_tokens (Leaf t) = [t]"
| "tree_tokens (Node o1 children c) = o1 # concat (map tree_tokens children) @ [c]"

fun root_name :: "ptx_tree \<Rightarrow> string" where
  "root_name (Leaf t) = tok_name t"
| "root_name (Node o1 children c) = tok_name o1"

fun tree_ok :: "ptx_tree \<Rightarrow> bool" where
  "tree_ok (Leaf t) = (tok_type t = SelfClosing)"
| "tree_ok (Node o1 children c) =
     (tok_type o1 = Open \<and> tok_type c = Close \<and> tok_name c = tok_name o1 \<and> list_all tree_ok children)"

text \<open>
  What is wrong with an element below given ancestors, innermost first, read off the tree:
  the first rule of nesting it breaks, then its children, then a missing description.
\<close>

definition nesting_problem :: "string \<Rightarrow> string list \<Rightarrow> problem list" where
  "nesting_problem n ancestors =
     (if n \<in> set MATH_ELEMENTS \<and> set ancestors \<inter> set MATH_ELEMENTS \<noteq> {} then [NestedMath n]
      else if n \<in> set BLOCK_ELEMENTS \<and> ''p'' \<in> set ancestors then [BlockInParagraph n]
      else if n = ''p'' \<and> n \<in> set ancestors then [NestedParagraph]
      else if n = ''title'' \<and> n \<in> set ancestors then [NestedTitle]
      else if n = ''proof'' \<and> n \<in> set ancestors then [NestedProof] else [])"

fun tree_issues :: "string list \<Rightarrow> ptx_tree \<Rightarrow> located list" where
  "tree_issues ancestors (Leaf t) =
     map (\<lambda>p. (p, tok_offset t, tok_length t))
       (nesting_problem (tok_name t) ancestors
        @ (if tok_name t = ''image'' then [MissingDescription] else []))"
| "tree_issues ancestors (Node o1 children c) =
     map (\<lambda>p. (p, tok_offset o1, tok_length o1)) (nesting_problem (tok_name o1) ancestors)
     @ concat (map (tree_issues (tok_name o1 # ancestors)) children)
     @ (if tok_name o1 = ''image'' \<and> \<not> list_ex (\<lambda>ch. root_name ch \<in> set IMAGE_DESCRIPTION_ELEMENTS) children
        then [(MissingDescription, tok_offset o1, tok_length o1)] else [])"

lemma nesting_of_stack:
  "checkForbiddenNesting t stack =
   map (\<lambda>p. (p, tok_offset t, tok_length t)) (nesting_problem (tok_name t) (map entry_name stack))"
proof -
  have "list_ex (\<lambda>a. a \<in> set M) as \<longleftrightarrow> set as \<inter> set M \<noteq> {}" for M as :: "string list"
    by (auto simp: list_ex_iff)
  then show ?thesis by (auto simp: checkForbiddenNesting_def Let_def nesting_problem_def)
qed

lemma mark_children:
  "fold markDescriptionOnParentImage names (e # rest) =
   e\<lparr>hasDescription := hasDescription e
        \<or> entry_name e = ''image'' \<and> list_ex (\<lambda>n. n \<in> set IMAGE_DESCRIPTION_ELEMENTS) names\<rparr> # rest"
proof (induction names arbitrary: e)
  case (Cons n names)
  have "markDescriptionOnParentImage n (e # rest) =
      e\<lparr>hasDescription := hasDescription e \<or> entry_name e = ''image'' \<and> n \<in> set IMAGE_DESCRIPTION_ELEMENTS\<rparr> # rest"
    by (auto simp: markDescriptionOnParentImage_def)
  with Cons show ?case by (simp add: conj_disj_distribL disj_assoc)
qed simp

lemma names_fold_mark [simp]:
  "map entry_name (fold markDescriptionOnParentImage names stack) = map entry_name stack"
  by (induction names arbitrary: stack) auto

lemma validate_tree:
  "tree_ok tr \<Longrightarrow> fold validate_token (tree_tokens tr) (stack, issues) =
     (markDescriptionOnParentImage (root_name tr) stack, issues @ tree_issues (map entry_name stack) tr)"
proof (induction tr arbitrary: stack issues)
  case (Leaf t)
  then show ?case by (auto simp: validate_token_def nesting_of_stack)
next
  case (Node o1 children c)
  have forest: "fold validate_token (concat (map tree_tokens cs)) (st, iss) =
      (fold markDescriptionOnParentImage (map root_name cs) st,
       iss @ concat (map (tree_issues (map entry_name st)) cs))"
    if "set cs \<subseteq> set children" for cs st iss
    using that
  proof (induction cs arbitrary: st iss)
    case (Cons ch cs)
    then have "ch \<in> set children" "tree_ok ch" using Node.prems by (auto simp: list_all_iff)
    with Cons Node.IH [of ch] show ?case by simp
  qed simp
  let ?st = "markDescriptionOnParentImage (tok_name o1) stack"
  let ?e = "\<lparr>entry_name = tok_name o1, entry_offset = tok_offset o1, entry_length = tok_length o1,
             hasDescription = False\<rparr>"
  let ?d = "tok_name o1 = ''image'' \<and> list_ex (\<lambda>n. n \<in> set IMAGE_DESCRIPTION_ELEMENTS) (map root_name children)"
  have entered: "validate_token o1 (stack, iss) = (?e # ?st,
      iss @ map (\<lambda>p. (p, tok_offset o1, tok_length o1)) (nesting_problem (tok_name o1) (map entry_name stack)))"
    for iss
    using Node.prems by (simp add: validate_token_def nesting_of_stack)
  have inner: "fold validate_token (concat (map tree_tokens children)) (?e # ?st, iss) =
      (?e\<lparr>hasDescription := ?d\<rparr> # ?st, iss @ concat (map (tree_issues (tok_name o1 # map entry_name stack)) children))"
    for iss
    by (subst forest) (simp_all add: mark_children)
  have left: "validate_token c (?e\<lparr>hasDescription := d\<rparr> # ?st, iss) =
      (?st, iss @ (if tok_name o1 = ''image'' \<and> \<not> d then [(MissingDescription, tok_offset o1, tok_length o1)] else []))"
    for d iss
    using Node.prems by (simp add: validate_token_def findLastMatchingOpen_Cons warnUndescribedImages_def)
  have "list_ex (\<lambda>n. n \<in> set IMAGE_DESCRIPTION_ELEMENTS) (map root_name children) =
      list_ex (\<lambda>ch. root_name ch \<in> set IMAGE_DESCRIPTION_ELEMENTS) children"
    by (simp add: list_ex_iff)
  then show ?case
    by (simp add: entered inner left del: stack_entry.simps)
qed

text \<open>
  Claim C36. On a document whose tags form a tree, the check reports exactly what one reads off the tree:
  for each element the nesting rule it breaks with respect to all its ancestors, and for
  each image without a direct description child the missing alternative text; nothing
  else, and in the order of the tree.
\<close>

theorem tree_document_issues:
  assumes "list_all tree_ok forest"
  shows "validate_tokens (concat (map tree_tokens forest)) = concat (map (tree_issues []) forest)"
proof -
  have "fold validate_token (concat (map tree_tokens forest)) ([], issues) =
      ([], issues @ concat (map (tree_issues []) forest))" for issues
    using assms
  proof (induction forest arbitrary: issues)
    case (Cons tr forest)
    then have "markDescriptionOnParentImage (root_name tr) [] = []"
      by (simp add: markDescriptionOnParentImage_def)
    with Cons show ?case by (simp add: validate_tree)
  qed simp
  then show ?thesis by (simp add: validate_tokens_def unclosed_issues_def)
qed

definition tok :: "string \<Rightarrow> token_type \<Rightarrow> nat \<Rightarrow> tag_token" where
  "tok n ty k = \<lparr>tok_name = n, tok_type = ty, tok_offset = k, tok_length = 3\<rparr>"

theorem tree_document_issues_witness:
  "validate_tokens (concat (map tree_tokens
     [Node (tok ''p'' Open 0) [Node (tok ''figure'' Open 3)
        [Node (tok ''image'' Open 6) [Leaf (tok ''br'' SelfClosing 9)] (tok ''image'' Close 12)]
        (tok ''figure'' Close 15)] (tok ''p'' Close 18)]))
   = [(BlockInParagraph ''figure'', 3, 3), (MissingDescription, 6, 3)]"
  by (subst tree_document_issues)
    (simp_all add: tok_def nesting_problem_def MATH_ELEMENTS_def BLOCK_ELEMENTS_def
      IMAGE_DESCRIPTION_ELEMENTS_def)

section \<open>Documents that the check misjudges\<close>

lemma display_math_rejected:
  "validate_tokens (extractTagTokens ''<p><md><mrow>x</mrow></md></p>'') = [(NestedMath ''mrow'', 7, 6)]"
  by code_simp

lemma closed_fillin_rejected:
  "validate_tokens (extractTagTokens ''<p><fillin></fillin></p>'') = [(NoOpeningTag ''fillin'', 11, 9)]"
  by code_simp

lemma assemblage_never_seen:
  "''assemblage'' \<in> set BLOCK_ELEMENTS \<and> ''assemblage'' \<notin> set PTX_ELEMENTS"
  by (simp add: BLOCK_ELEMENTS_def PTX_ELEMENTS_def)

end
