(* ===== verification/CommandPalette.thy ===== *)
theory CommandPalette imports Prelude "HOL-Library.Multiset" begin

text \<open>
  \<^verbatim>\<open>frontend/src/utils/commandPalette.ts\<close>: fuzzy matching and ranking of the editor's
  commands. The search of \<^verbatim>\<open>scoreMatch\<close> passes its memo table along; a key is the triple
  whose fields the source joins with colons. The score of a listed command, a multiple of
  0.001 in the source, is counted in thousandths.
\<close>

datatype command_group = BuildGroup | LayoutGroup | ViewGroup | FileGroup | SnippetGroup

fun group_name :: "command_group \<Rightarrow> string" where
  "group_name BuildGroup = ''Build''"
| "group_name LayoutGroup = ''Layout''"
| "group_name ViewGroup = ''View''"
| "group_name FileGroup = ''File''"
| "group_name SnippetGroup = ''Snippet''"

record palette_command =
  cmd_id :: string
  title :: string
  group :: command_group
  hint :: "string option"
  cmd_keywords :: "string list option"
  enabled :: "bool option"

record command_match =
  command :: palette_command
  milliscore :: int
  matchedIndices :: "nat list"

definition SCORE_START :: int where "SCORE_START = 12"
definition SCORE_WORD_BOUNDARY :: int where "SCORE_WORD_BOUNDARY = 8"
definition SCORE_CONSECUTIVE :: int where "SCORE_CONSECUTIVE = 10"
definition SCORE_ANY :: int where "SCORE_ANY = 1"
definition MAX_OPTIMAL_LENGTH :: nat where "MAX_OPTIMAL_LENGTH = 200"

definition isBoundary :: "string \<Rightarrow> nat \<Rightarrow> bool" where
  "isBoundary hay i = (if i = 0 then True else hay ! (i - 1) \<in> {CHR '' '', CHR ''-'', CHR ''/''})"

definition characterScore :: "string \<Rightarrow> nat \<Rightarrow> bool \<Rightarrow> int" where
  "characterScore hay i adjacent =
     (if i = 0 then SCORE_START else if isBoundary hay i then SCORE_WORD_BOUNDARY else SCORE_ANY)
     + (if adjacent then SCORE_CONSECUTIVE else 0)"

type_synonym scored = "int \<times> nat list"

text \<open>The greedy pass; \<open>previous\<close> starts at \<open>- 1\<close>.\<close>

fun greedy :: "string \<Rightarrow> string \<Rightarrow> nat \<Rightarrow> int \<Rightarrow> scored option" where
  "greedy hay [] start previous = Some (0, [])"
| "greedy hay (c # cs) start previous =
     (case index_of [c] (drop start hay) of
        None \<Rightarrow> None
      | Some k \<Rightarrow>
          (case greedy hay cs (start + k + 1) (int (start + k)) of
             None \<Rightarrow> None
           | Some (s, ks) \<Rightarrow>
               Some (characterScore hay (start + k) (previous = int (start + k) - 1) + s, (start + k) # ks)))"

text \<open>One candidate position of the loop in \<^verbatim>\<open>solve\<close>.\<close>

definition better :: "scored option \<Rightarrow> int \<Rightarrow> nat \<Rightarrow> scored option \<Rightarrow> scored option" where
  "better best here i rest =
     (case rest of
        None \<Rightarrow> best
      | Some (s, ks) \<Rightarrow>
          (case best of
             None \<Rightarrow> Some (here + s, i # ks)
           | Some (b, bs) \<Rightarrow> if here + s > b then Some (here + s, i # ks) else best))"

type_synonym memo = "nat \<times> nat \<times> bool \<Rightarrow> scored option option"

text \<open>\<open>cs\<close> is what is left of the query from \<open>q\<close> on.\<close>

fun solve_memo :: "string \<Rightarrow> string \<Rightarrow> nat \<Rightarrow> nat \<Rightarrow> bool \<Rightarrow> memo \<Rightarrow> scored option \<times> memo" where
  "solve_memo hay [] q start hasPrevious memo = (Some (0, []), memo)"
| "solve_memo hay (c # cs) q start hasPrevious memo =
     (case memo (q, start, hasPrevious) of
        Some cached \<Rightarrow> (cached, memo)
      | None \<Rightarrow>
          (case fold (\<lambda>i (best, memo).
                  if hay ! i \<noteq> c then (best, memo)
                  else case solve_memo hay cs (q + 1) (i + 1) True memo of
                      (rest, memo') \<Rightarrow>
                        (better best (characterScore hay i (hasPrevious \<and> i = start)) i rest, memo'))
                [start..<length hay] (None, memo) of
             (best, memo') \<Rightarrow> (best, memo'((q, start, hasPrevious) := Some best))))"

definition query_needle :: "string \<Rightarrow> string" where
  "query_needle query = filter (\<lambda>c. \<not> is_space c) (to_lower query)"

definition scoreMatch :: "string \<Rightarrow> string \<Rightarrow> scored option" where
  "scoreMatch txt query =
     (let needle = query_needle query; haystack = to_lower txt;
          lengthPenalty = int (length haystack div 20)
      in if needle = [] then Some (0, [])
         else if length needle > length haystack then None
         else if length haystack > MAX_OPTIMAL_LENGTH
         then map_option (\<lambda>(s, ks). (s - lengthPenalty, ks)) (greedy haystack needle 0 (- 1))
         else map_option (\<lambda>(s, ks). (s - lengthPenalty, ks))
                (fst (solve_memo haystack needle 0 0 False (\<lambda>_. None))))"

text \<open>The keyword loop, and the score of one command with its highlighted indices.\<close>

definition keyword_step :: "string \<Rightarrow> string \<Rightarrow> scored option \<Rightarrow> scored option" where
  "keyword_step query keyword best =
     (case scoreMatch keyword query of
        None \<Rightarrow> best
      | Some (s, ks) \<Rightarrow>
          (case best of
             None \<Rightarrow> Some (s - 6, [])
           | Some (b, bs) \<Rightarrow> if s > b then Some (s - 6, []) else best))"

definition command_score :: "string \<Rightarrow> palette_command \<Rightarrow> scored option" where
  "command_score query cmd =
     (let direct = scoreMatch (title cmd) query;
          best = (if direct = None \<and> cmd_keywords cmd \<noteq> None
                  then fold (keyword_step query) (the (cmd_keywords cmd)) None else direct)
      in if best = None
         then map_option (\<lambda>(s, ks). (s - 10, [])) (scoreMatch (group_name (group cmd)) query)
         else best)"

definition filterCommands :: "palette_command list \<Rightarrow> string \<Rightarrow> command_match list" where
  "filterCommands commands query =
     (let trimmed = trim query
      in if trimmed = [] then map (\<lambda>c. \<lparr>command = c, milliscore = 0, matchedIndices = []\<rparr>) commands
         else sort_key (\<lambda>m. - milliscore m)
                (concat (map (\<lambda>(i, c).
                    case command_score trimmed c of
                      None \<Rightarrow> []
                    | Some (s, ks) \<Rightarrow> [\<lparr>command = c, milliscore = 1000 * s - int i, matchedIndices = ks\<rparr>])
                  (enumerate 0 commands))))"

text \<open>\<^verbatim>\<open>a % b\<close>, with the sign of \<open>a\<close>.\<close>

definition js_rem :: "int \<Rightarrow> int \<Rightarrow> int" where
  "js_rem a b = sgn a * (\<bar>a\<bar> mod \<bar>b\<bar>)"

definition moveSelection :: "int \<Rightarrow> int \<Rightarrow> int \<Rightarrow> int" where
  "moveSelection current delta len =
     (if len \<le> 0 then 0 else js_rem (js_rem (current + delta) len + len) len)"

section \<open>The memo table changes nothing\<close>

fun solve :: "string \<Rightarrow> string \<Rightarrow> nat \<Rightarrow> bool \<Rightarrow> scored option" where
  "solve hay [] start hasPrevious = Some (0, [])"
| "solve hay (c # cs) start hasPrevious =
     fold (\<lambda>i best. if hay ! i \<noteq> c then best
             else better best (characterScore hay i (hasPrevious \<and> i = start)) i (solve hay cs (i + 1) True))
       [start..<length hay] None"

definition memo_ok :: "string \<Rightarrow> string \<Rightarrow> memo \<Rightarrow> bool" where
  "memo_ok hay needle memo =
     (\<forall>q start h r. memo (q, start, h) = Some r \<longrightarrow> r = solve hay (drop q needle) start h)"

lemma solve_memo_solve:
  "memo_ok hay needle memo \<Longrightarrow> cs = drop q needle \<Longrightarrow>
   fst (solve_memo hay cs q start h memo) = solve hay cs start h
   \<and> memo_ok hay needle (snd (solve_memo hay cs q start h memo))"
proof (induction cs arbitrary: q start h memo)
  case (Cons c cs)
  have cs: "cs = drop (q + 1) needle" using Cons.prems(2) by (metis add.commute drop_drop drop_Suc_Cons drop0 One_nat_def)
  let ?f = "\<lambda>i (best, memo). if hay ! i \<noteq> c then (best, memo)
      else case solve_memo hay cs (q + 1) (i + 1) True memo of
          (rest, memo') \<Rightarrow> (better best (characterScore hay i (h \<and> i = start)) i rest, memo')"
  let ?g = "\<lambda>i best. if hay ! i \<noteq> c then best
      else better best (characterScore hay i (h \<and> i = start)) i (solve hay cs (i + 1) True)"
  have loop: "memo_ok hay needle m \<Longrightarrow>
      fst (fold ?f is (b, m)) = fold ?g is b \<and> memo_ok hay needle (snd (fold ?f is (b, m)))" for "is" b m
  proof (induction "is" arbitrary: b m)
    case (Cons i "is")
    have "fst (?f i (b, m)) = ?g i b \<and> memo_ok hay needle (snd (?f i (b, m)))"
      using \<open>\<And>q start h memo. memo_ok hay needle memo \<Longrightarrow> cs = drop q needle \<Longrightarrow>
        fst (solve_memo hay cs q start h memo) = solve hay cs start h
        \<and> memo_ok hay needle (snd (solve_memo hay cs q start h memo))\<close> [OF Cons.prems cs, of "i + 1" True]
        Cons.prems
      by (auto split: prod.splits)
    with Cons.IH [of "snd (?f i (b, m))" "fst (?f i (b, m))"] show ?case by simp
  qed simp
  show ?case
  proof (cases "memo (q, start, h)")
    case None
    with loop [OF Cons.prems(1), of "[start..<length hay]" None] Cons.prems(1) show ?thesis
      by (auto simp: memo_ok_def Cons.prems(2) [symmetric] split: prod.splits)
  next
    case (Some r)
    with Cons.prems have "r = solve hay (c # cs) start h" by (auto simp: memo_ok_def)
    with Some Cons.prems(1) show ?thesis by simp
  qed
qed simp

section \<open>The search is optimal\<close>

text \<open>An alignment of a query with a text from a position on, and its score.\<close>

fun aligned :: "string \<Rightarrow> string \<Rightarrow> nat \<Rightarrow> nat list \<Rightarrow> bool" where
  "aligned hay [] start ks = (ks = [])"
| "aligned hay (c # cs) start [] = False"
| "aligned hay (c # cs) start (k # ks) =
     (start \<le> k \<and> k < length hay \<and> hay ! k = c \<and> aligned hay cs (k + 1) ks)"

fun align_score :: "string \<Rightarrow> nat \<Rightarrow> bool \<Rightarrow> nat list \<Rightarrow> int" where
  "align_score hay start h [] = 0"
| "align_score hay start h (k # ks) =
     characterScore hay k (h \<and> k = start) + align_score hay (k + 1) True ks"

definition optimal :: "(nat list \<Rightarrow> bool) \<Rightarrow> (nat list \<Rightarrow> int) \<Rightarrow> scored option \<Rightarrow> bool" where
  "optimal P f r =
     (case r of
        None \<Rightarrow> (\<forall>ks. \<not> P ks)
      | Some (s, ks) \<Rightarrow> P ks \<and> s = f ks \<and> (\<forall>ks'. P ks' \<longrightarrow> f ks' \<le> s))"

lemma optimal_better:
  assumes "optimal P f best" and "optimal Q g rest"
    and "\<And>ks. Q ks \<Longrightarrow> f (i # ks) = here + g ks"
  shows "optimal (\<lambda>ks. P ks \<or> (\<exists>ks'. ks = i # ks' \<and> Q ks')) f (better best here i rest)"
proof (cases rest)
  case None
  with assms(1,2) show ?thesis by (simp add: optimal_def better_def split: option.splits)
next
  case (Some p)
  obtain s ks where p: "p = (s, ks)" by (cases p)
  with Some assms(2) have q: "Q ks" "s = g ks" "\<And>ks'. Q ks' \<Longrightarrow> g ks' \<le> s" by (auto simp: optimal_def)
  show ?thesis
  proof (cases best)
    case None
    with assms(1,3) Some p q show ?thesis by (auto simp: optimal_def better_def)
  next
    case (Some b)
    obtain t bs where b: "b = (t, bs)" by (cases b)
    with Some assms(1) have "P bs" "t = f bs" "\<And>ks'. P ks' \<Longrightarrow> f ks' \<le> t" by (auto simp: optimal_def)
    with Some \<open>rest = Some p\<close> b p q assms(3) show ?thesis
      by (force simp: optimal_def better_def)
  qed
qed

lemma solve_optimal: "optimal (aligned hay cs start) (align_score hay start h) (solve hay cs start h)"
proof (induction cs arbitrary: start h)
  case Nil
  then show ?case by (simp add: optimal_def)
next
  case (Cons c cs)
  let ?f = "align_score hay start h"
  let ?step = "\<lambda>i best. if hay ! i \<noteq> c then best
      else better best (characterScore hay i (h \<and> i = start)) i (solve hay cs (i + 1) True)"
  let ?P = "\<lambda>n ks. aligned hay (c # cs) start ks \<and> ks \<noteq> [] \<and> hd ks < n"
  have loop: "optimal (?P n) ?f (fold ?step [start..<n] None)" if "n \<le> length hay" for n
    using that
  proof (induction n)
    case 0
    then show ?case by (auto simp: optimal_def)
  next
    case (Suc n)
    show ?case
    proof (cases "start \<le> n")
      case False
      then have "?P (Suc n) = (\<lambda>ks. False)"
        by (auto simp: fun_eq_iff elim: aligned.elims)
      with False show ?thesis by (simp add: optimal_def)
    next
      case True
      have IH: "optimal (?P n) ?f (fold ?step [start..<n] None)" using Suc by simp
      show ?thesis
      proof (cases "hay ! n = c")
        case hit: True
        have P: "?P (Suc n) = (\<lambda>ks. ?P n ks \<or> (\<exists>ks'. ks = n # ks' \<and> aligned hay cs (n + 1) ks'))"
        proof (rule ext)
          fix ks
          show "?P (Suc n) ks = (?P n ks \<or> (\<exists>ks'. ks = n # ks' \<and> aligned hay cs (n + 1) ks'))"
            using hit Suc.prems True by (cases ks) (auto simp: less_Suc_eq)
        qed
        have "optimal (\<lambda>ks. ?P n ks \<or> (\<exists>ks'. ks = n # ks' \<and> aligned hay cs (n + 1) ks')) ?f
            (better (fold ?step [start..<n] None) (characterScore hay n (h \<and> n = start)) n
               (solve hay cs (n + 1) True))"
          by (rule optimal_better [OF IH Cons.IH]) simp
        with hit True P show ?thesis by simp
      next
        case miss: False
        have "?P (Suc n) = ?P n"
        proof (rule ext)
          fix ks
          show "?P (Suc n) ks = ?P n ks" using miss by (cases ks) (auto simp: less_Suc_eq)
        qed
        with miss True IH show ?thesis by simp
      qed
    qed
  qed
  have "?P (length hay) = aligned hay (c # cs) start"
  proof (rule ext)
    fix ks
    show "?P (length hay) ks = aligned hay (c # cs) start ks" by (cases ks) auto
  qed
  with loop [OF order.refl] show ?case by simp
qed

lemma aligned_subseq: "aligned hay cs start ks \<Longrightarrow> subseq cs (drop start hay)"
proof (induction hay cs start ks rule: aligned.induct)
  case (3 hay c cs start k ks)
  then have "subseq (c # cs) (drop k hay)"
    by (simp add: Cons_nth_drop_Suc [symmetric, of k hay])
  moreover have "suffix (drop k hay) (drop start hay)"
    using 3 suffix_drop [of "k - start" "drop start hay"] by simp
  ultimately show ?case by (meson suffix_imp_subseq subseq_order.trans)
qed auto

lemma subseq_aligned: "subseq cs (drop start hay) \<Longrightarrow> \<exists>ks. aligned hay cs start ks"
proof (induction cs arbitrary: start)
  case (Cons c cs)
  from list_emb_ConsD [OF Cons.prems]
  obtain us vs where d: "drop start hay = us @ c # vs" and cs: "subseq cs vs" by blast
  let ?k = "start + length us"
  have "length us < length (drop start hay)" using d by simp
  then have k: "?k < length hay" by simp
  have "drop start hay ! length us = c" using d by simp
  then have hit: "hay ! ?k = c" using k by simp
  have "vs = drop (length us + 1) (drop start hay)" using d by simp
  then have "vs = drop (?k + 1) hay" by (simp add: add.commute)
  with cs Cons.IH obtain ks where "aligned hay cs (?k + 1) ks" by blast
  with k hit show ?case by (intro exI [of _ "?k # ks"]) simp
qed (intro exI [of _ "[]"], simp)

text \<open>
  The palette finds the best match: for a text of at most 200 characters \<^verbatim>\<open>scoreMatch\<close>
  answers nothing exactly when the query is not a subsequence of the text; otherwise the
  indices it highlights are an occurrence of the query, the score is that occurrence's less
  the penalty for length, and no other occurrence scores higher. The memo table that makes
  the search fast does not change its answer.
\<close>

theorem score_match_optimal:
  assumes "length txt \<le> MAX_OPTIMAL_LENGTH" and "query_needle query \<noteq> []"
  shows "case scoreMatch txt query of
       None \<Rightarrow> \<not> subseq (query_needle query) (to_lower txt)
     | Some (s, ks) \<Rightarrow>
         aligned (to_lower txt) (query_needle query) 0 ks
         \<and> s + int (length txt div 20) = align_score (to_lower txt) 0 False ks
         \<and> (\<forall>ks'. aligned (to_lower txt) (query_needle query) 0 ks'
              \<longrightarrow> align_score (to_lower txt) 0 False ks' \<le> align_score (to_lower txt) 0 False ks)"
proof (cases "length (query_needle query) > length (to_lower txt)")
  case True
  then have "\<not> subseq (query_needle query) (to_lower txt)"
    using list_emb_length by fastforce
  with True assms show ?thesis by (simp add: scoreMatch_def Let_def)
next
  case False
  let ?r = "solve (to_lower txt) (query_needle query) 0 False"
  have "fst (solve_memo (to_lower txt) (query_needle query) 0 0 False (\<lambda>_. None)) = ?r"
    using solve_memo_solve [of "to_lower txt" "query_needle query" "\<lambda>_. None" _ 0]
    by (simp add: memo_ok_def)
  then have r: "scoreMatch txt query = map_option (\<lambda>(s, ks). (s - int (length txt div 20), ks)) ?r"
    using False assms by (simp add: scoreMatch_def Let_def)
  have opt: "optimal (aligned (to_lower txt) (query_needle query) 0) (align_score (to_lower txt) 0 False) ?r"
    by (rule solve_optimal)
  show ?thesis
  proof (cases ?r)
    case None
    with opt r subseq_aligned [of "query_needle query" 0 "to_lower txt"] show ?thesis
      by (auto simp: optimal_def)
  next
    case (Some p)
    with opt r show ?thesis by (auto simp: optimal_def split: prod.splits)
  qed
qed

theorem score_match_optimal_witness:
  "case scoreMatch ''Export PDF'' ''pdf'' of
     None \<Rightarrow> \<not> subseq (query_needle ''pdf'') (to_lower ''Export PDF'')
   | Some (s, ks) \<Rightarrow>
       aligned (to_lower ''Export PDF'') (query_needle ''pdf'') 0 ks
       \<and> s + int (length ''Export PDF'' div 20) = align_score (to_lower ''Export PDF'') 0 False ks
       \<and> (\<forall>ks'. aligned (to_lower ''Export PDF'') (query_needle ''pdf'') 0 ks'
            \<longrightarrow> align_score (to_lower ''Export PDF'') 0 False ks' \<le> align_score (to_lower ''Export PDF'') 0 False ks)"
proof -
  have "query_needle ''pdf'' = ''pdf''" by code_simp
  then show ?thesis by (intro score_match_optimal) (simp_all add: MAX_OPTIMAL_LENGTH_def)
qed

text \<open>
  The palette lists every command that matches, by title, keyword or group, exactly as often as
  it is given and no other, in order of decreasing score; a blank query lists all commands
  as they are given.
\<close>

theorem palette_lists_matches:
  "mset (map command (filterCommands cmds query)) =
     mset (filter (\<lambda>c. \<not> (trim query \<noteq> [] \<and> command_score (trim query) c = None)) cmds)
   \<and> sorted (map (\<lambda>m. - milliscore m) (filterCommands cmds query))
   \<and> (if trim query = [] then map command (filterCommands cmds query) = cmds else True)"
proof (cases "trim query = []")
  case True
  then show ?thesis
    by (auto simp: filterCommands_def o_def sorted_wrt_map sorted_map intro: sorted_wrt_mono_rel)
next
  case False
  let ?row = "\<lambda>(i, c). case command_score (trim query) c of None \<Rightarrow> []
      | Some (s, ks) \<Rightarrow> [\<lparr>command = c, milliscore = 1000 * s - int i, matchedIndices = ks\<rparr>]"
  have "map command (concat (map ?row (enumerate n cs))) =
      filter (\<lambda>c. command_score (trim query) c \<noteq> None) cs" for n cs
    by (induction cs arbitrary: n) (auto split: option.splits)
  then have "image_mset command (mset (concat (map ?row (enumerate 0 cmds)))) =
      mset (filter (\<lambda>c. command_score (trim query) c \<noteq> None) cmds)"
    by (metis mset_map)
  with False show ?thesis by (simp add: filterCommands_def Let_def)
qed

text \<open>
  Moving the selection wraps around and never leaves the list: it is addition modulo the
  number of entries, also for a negative step, and 0 in an empty list.
\<close>

theorem move_selection_wraps:
  "moveSelection current delta len = (if len \<le> 0 then 0 else (current + delta) mod len)"
proof (cases "0 < len")
  case True
  have rem: "js_rem a len = (if a < 0 then - ((- a) mod len) else a mod len)" for a
    using True by (auto simp: js_rem_def sgn_if)
  have "js_rem (js_rem a len + len) len = a mod len" for a
  proof (cases "a < 0")
    case neg: True
    have "(- a) mod len < len" "0 \<le> (- a) mod len" using True by simp_all
    then have "js_rem (js_rem a len + len) len = (- ((- a) mod len)) mod len"
      using neg by (simp add: rem)
    also have "\<dots> = a mod len" by (simp add: mod_minus_eq)
    finally show ?thesis .
  next
    case False
    have "0 \<le> a mod len" using True by simp
    with False show ?thesis by (simp add: rem)
  qed
  with True show ?thesis by (simp add: moveSelection_def)
qed (simp add: moveSelection_def)

section \<open>Where the ranking departs from its description\<close>

definition cmd :: "string \<Rightarrow> string list \<Rightarrow> palette_command" where
  "cmd t ws = \<lparr>cmd_id = t, title = t, group = ViewGroup, hint = None, cmd_keywords = Some ws, enabled = None\<rparr>"

text \<open>A match through a keyword can stand before a match of a title.\<close>

lemma keyword_before_title:
  "map (title \<circ> command) (filterCommands [cmd ''xpxt'' [], cmd ''Layout'' [''pt'']] ''pt'') = [''Layout'', ''xpxt'']"
  by code_simp

text \<open>
  A further keyword that matches worse can lower the score: its raw score is compared with
  the reduced score of the first.
\<close>

lemma keyword_lowers_score:
  "command_score ''ab'' (cmd ''zz'' [''ab'']) = Some (17, [])"
  "command_score ''ab'' (cmd ''zz'' [''ab'', ''a-b'']) = Some (14, [])"
  by code_simp+

text \<open>The greedy pass takes the first character of a long text for a continued run.\<close>

lemma greedy_start_bonus:
  "greedy ''axx'' ''a'' 0 (- 1) = Some (22, [0])"
  "solve ''axx'' ''a'' 0 False = Some (12, [0])"
  by code_simp+

end
