(* ===== verification/GitWorkspace.thy ===== *)
theory GitWorkspace imports PathContainment begin

text \<open>
  \<^verbatim>\<open>backend/src/services/gitWorkspaceService.ts\<close>: the git operations of a workspace.

  Git itself is a parameter: \<open>run_git ops call w\<close> is the answer of one git process, started
  with the arguments and the extra environment of \<open>call\<close>, in the world \<open>w\<close>, and the world
  after it; an exit code 0 is a success. So is the test for a \<^verbatim>\<open>.git\<close> directory and the
  removal of a file. Every process and every removal is recorded in the trace. The operations
  run in a state with the session of the workspace; an operation that throws returns \<open>Inl\<close>
  of the message. The repository path is absolute, the encoding in base64 a parameter.
\<close>

record git_call =
  call_cwd :: string
  call_args :: "string list"
  call_env :: "(string \<times> string) list"

record git_result =
  git_stdout :: string
  git_stderr :: string
  git_code :: int
  git_message :: string

datatype git_event = GitRun git_call | RemoveFile string

record 'w git_ops =
  run_git :: "git_call \<Rightarrow> 'w \<Rightarrow> git_result \<times> 'w"
  has_git_dir :: "string \<Rightarrow> 'w \<Rightarrow> bool"
  remove_file :: "string \<Rightarrow> 'w \<Rightarrow> 'w"
  base64 :: "string \<Rightarrow> string"

record ws_session =
  ws_repoPath :: string
  ws_defaultBranch :: string
  ws_token :: string
  ws_owner :: string
  ws_repo :: string

record 'w git_state =
  git_world :: 'w
  git_session :: ws_session
  git_trace :: "git_event list"

type_synonym ('w, 'a) git_m = "'w git_state \<Rightarrow> (string + 'a) \<times> 'w git_state"

definition git_return :: "'a \<Rightarrow> ('w, 'a) git_m" where
  "git_return a = (\<lambda>s. (Inr a, s))"

definition git_throw :: "string \<Rightarrow> ('w, 'a) git_m" where
  "git_throw e = (\<lambda>s. (Inl e, s))"

definition and_then :: "('w, 'a) git_m \<Rightarrow> ('a \<Rightarrow> ('w, 'b) git_m) \<Rightarrow> ('w, 'b) git_m" where
  "and_then m f = (\<lambda>s. case m s of (Inl e, s') \<Rightarrow> (Inl e, s') | (Inr a, s') \<Rightarrow> f a s')"

definition get_session :: "('w, ws_session) git_m" where
  "get_session = (\<lambda>s. (Inr (git_session s), s))"

definition set_session :: "ws_session \<Rightarrow> ('w, unit) git_m" where
  "set_session ws = (\<lambda>s. (Inr (), s\<lparr>git_session := ws\<rparr>))"

definition gitAuthEnv :: "(string \<Rightarrow> string) \<Rightarrow> string \<Rightarrow> bool \<Rightarrow> (string \<times> string) list" where
  "gitAuthEnv b64 token needsRemote =
     (if token = [] \<or> \<not> needsRemote then []
      else [(''GIT_CONFIG_COUNT'', ''1''), (''GIT_CONFIG_KEY_0'', ''http.extraHeader''),
            (''GIT_CONFIG_VALUE_0'', ''Authorization: Basic '' @ b64 (''x-token:'' @ token))])"

text \<open>
  One git process. \<open>token\<close> is empty where the source passes none or does not need the
  remote; \<open>extra\<close> is the caller's environment, and \<open>allowFailure\<close> makes a failure a result.
\<close>

definition runGit ::
    "'w git_ops \<Rightarrow> string \<Rightarrow> string list \<Rightarrow> string \<Rightarrow> bool \<Rightarrow> (string \<times> string) list \<Rightarrow> bool \<Rightarrow> ('w, git_result) git_m" where
  "runGit ops cwd args token needsRemote extra allowFailure = (\<lambda>s.
     let call = \<lparr>call_cwd = cwd, call_args = args,
                 call_env = (''GIT_TERMINAL_PROMPT'', ''0'') # gitAuthEnv (base64 ops) token needsRemote @ extra\<rparr>
     in case run_git ops call (git_world s) of
         (r, w) \<Rightarrow>
           let s' = s\<lparr>git_world := w, git_trace := git_trace s @ [GitRun call]\<rparr>
           in if git_code r = 0 then (Inr r, s')
              else if allowFailure
              then (Inr (r\<lparr>git_stderr := str_or (git_stderr r) (git_message r)\<rparr>), s')
              else (Inl (trim (str_or (git_stderr r) (str_or (git_stdout r)
                            (str_or (git_message r) ''Git command failed'')))), s'))"

text \<open>The two usual ways to call it: a local command that must succeed, and one that may fail.\<close>

definition git :: "'w git_ops \<Rightarrow> string \<Rightarrow> string list \<Rightarrow> ('w, git_result) git_m" where
  "git ops cwd args = runGit ops cwd args [] False [] False"

definition git_try :: "'w git_ops \<Rightarrow> string \<Rightarrow> string list \<Rightarrow> ('w, git_result) git_m" where
  "git_try ops cwd args = runGit ops cwd args [] False [] True"

definition hasGitDirectory :: "'w git_ops \<Rightarrow> string \<Rightarrow> ('w, bool) git_m" where
  "hasGitDirectory ops repoPath = (\<lambda>s. (Inr (has_git_dir ops repoPath (git_world s)), s))"

section \<open>Reading what git prints\<close>

record status_file =
  sf_path :: string
  sf_previousPath :: "string option"
  sf_indexStatus :: char
  sf_worktreeStatus :: char
  sf_status :: string
  sf_staged :: bool
  sf_unstaged :: bool

text \<open>\<^verbatim>\<open>s.split(' -> ')\<close> as far as it is used: the first part, and the second if there is one.\<close>

definition split_arrow :: "string \<Rightarrow> string \<times> string" where
  "split_arrow s =
     (case index_of '' -> '' s of
        None \<Rightarrow> (s, [])
      | Some i \<Rightarrow>
          let rest = drop (i + 4) s
          in (take i s, case index_of '' -> '' rest of None \<Rightarrow> rest | Some j \<Rightarrow> take j rest))"

definition parse_status_line :: "string \<Rightarrow> status_file" where
  "parse_status_line line =
     (let x = line ! 0; y = line ! 1;
          (pathPart, renamedTo) = split_arrow (trim (drop 3 line))
      in \<lparr>sf_path = str_or renamedTo pathPart,
          sf_previousPath = (if renamedTo \<noteq> [] then Some pathPart else None),
          sf_indexStatus = x, sf_worktreeStatus = y,
          sf_status =
            (if x = CHR ''?'' \<and> y = CHR ''?'' then ''untracked''
             else if x = CHR ''A'' \<or> y = CHR ''A'' then ''added''
             else if x = CHR ''D'' \<or> y = CHR ''D'' then ''deleted''
             else if x = CHR ''R'' \<or> y = CHR ''R'' then ''renamed'' else ''modified''),
          sf_staged = (x \<noteq> CHR '' '' \<and> x \<noteq> CHR ''?''),
          sf_unstaged = (y \<noteq> CHR '' '' \<and> y \<noteq> CHR ''?'')\<rparr>)"

definition parseStatusEntries :: "string \<Rightarrow> status_file list" where
  "parseStatusEntries statusOutput =
     map parse_status_line
       (filter (\<lambda>l. l \<noteq> []) (map trim_end (split_on newline statusOutput)))"

text \<open>The first occurrences, in order, as \<^verbatim>\<open>[...new Set(xs)]\<close> keeps them.\<close>

definition js_unique :: "'a list \<Rightarrow> 'a list" where
  "js_unique xs = rev (remdups (rev xs))"

definition strip_origin :: "string \<Rightarrow> string" where
  "strip_origin line = (if starts_with ''origin/'' line then drop 7 line else line)"

definition normalizeBranchList :: "string \<Rightarrow> string list" where
  "normalizeBranchList out =
     js_unique (filter (\<lambda>l. l \<noteq> ''HEAD'')
       (map strip_origin (filter (\<lambda>l. l \<noteq> []) (map trim (split_on newline out)))))"

definition getRemoteName :: "'w git_ops \<Rightarrow> string \<Rightarrow> ('w, string) git_m" where
  "getRemoteName ops cwd =
     and_then (git_try ops cwd [''remote'']) (\<lambda>r.
     git_return (opt_str (List.find (\<lambda>l. l \<noteq> []) (map trim (split_on newline (git_stdout r))))))"

section \<open>Preparing a workspace\<close>

definition resolve_path :: "string \<Rightarrow> string" where
  "resolve_path p = path_resolve ''/'' [p]"

definition set_config_if_missing :: "'w git_ops \<Rightarrow> string \<Rightarrow> string \<Rightarrow> string \<Rightarrow> ('w, unit) git_m" where
  "set_config_if_missing ops repoPath key v =
     and_then (git_try ops repoPath [''config'', ''--get'', key]) (\<lambda>r.
     if git_code r \<noteq> 0 \<or> trim (git_stdout r) = []
     then and_then (git ops repoPath [''config'', key, v]) (\<lambda>_. git_return ())
     else git_return ())"

definition ensureWorkspaceGitReady :: "'w git_ops \<Rightarrow> ('w, ws_session) git_m" where
  "ensureWorkspaceGitReady ops =
     and_then get_session (\<lambda>session.
     let repoPath = resolve_path (ws_repoPath session);
         branchName = str_or (ws_defaultBranch session) ''main''
     in and_then (hasGitDirectory ops repoPath) (\<lambda>present.
        if \<not> present
        then and_then (git ops repoPath [''init'', ''-b'', branchName]) (\<lambda>_.
             and_then (git ops repoPath [''add'', ''-A'']) (\<lambda>_.
             and_then (git ops repoPath [''config'', ''user.name'', ''Proofdesk Local Demo'']) (\<lambda>_.
             and_then (git ops repoPath [''config'', ''user.email'', ''demo@proofdesk.local'']) (\<lambda>_.
             and_then (git_try ops repoPath [''commit'', ''-m'', ''Initial workspace snapshot'']) (\<lambda>commitResult.
             if git_code commitResult \<noteq> 0
                \<and> \<not> str_includes (to_lower (git_stderr commitResult)) ''nothing to commit''
             then git_throw (str_or (trim (git_stderr commitResult)) ''Failed to initialize local workspace repository'')
             else and_then (set_session (session\<lparr>ws_defaultBranch := branchName\<rparr>)) (\<lambda>_.
                  git_return (session\<lparr>ws_defaultBranch := branchName\<rparr>)))))))
        else and_then (set_config_if_missing ops repoPath ''user.name'' ''Proofdesk Workspace'') (\<lambda>_.
             and_then (set_config_if_missing ops repoPath ''user.email'' ''workspace@proofdesk.local'') (\<lambda>_.
             git_return session))))"

text \<open>The token of a call, remembered in the session if that has none.\<close>

definition take_token :: "string \<Rightarrow> ws_session \<Rightarrow> ('w, string) git_m" where
  "take_token tokenOverride session =
     (let token = str_or tokenOverride (ws_token session)
      in if tokenOverride \<noteq> [] \<and> ws_token session = []
         then and_then (set_session (session\<lparr>ws_token := tokenOverride\<rparr>)) (\<lambda>_. git_return token)
         else git_return token)"

definition current_branch :: "'w git_ops \<Rightarrow> string \<Rightarrow> ws_session \<Rightarrow> ('w, string) git_m" where
  "current_branch ops cwd session =
     and_then (git ops cwd [''branch'', ''--show-current'']) (\<lambda>r.
     git_return (str_or (trim (git_stdout r)) (str_or (ws_defaultBranch session) ''main'')))"

record branch_info =
  bi_current :: string
  bi_remote :: string
  bi_branches :: "string list"

definition fetchWorkspaceBranches :: "'w git_ops \<Rightarrow> bool \<Rightarrow> string \<Rightarrow> ('w, branch_info) git_m" where
  "fetchWorkspaceBranches ops refreshRemote tokenOverride =
     and_then (ensureWorkspaceGitReady ops) (\<lambda>session.
     and_then (take_token tokenOverride session) (\<lambda>token.
     let cwd = resolve_path (ws_repoPath session)
     in and_then (getRemoteName ops cwd) (\<lambda>remoteName.
        and_then (if refreshRemote \<and> remoteName \<noteq> []
                  then and_then (runGit ops cwd [''fetch'', ''--prune'', remoteName] token True [] True)
                         (\<lambda>_. git_return ())
                  else git_return ()) (\<lambda>_.
        and_then (current_branch ops cwd session) (\<lambda>currentBranch.
        and_then (git ops cwd [''for-each-ref'', ''--format=%(refname:short)'', ''refs/heads'']) (\<lambda>local.
        and_then (if remoteName \<noteq> []
                  then and_then (git_try ops cwd [''for-each-ref'', ''--format=%(refname:short)'', ''refs/remotes/'' @ remoteName])
                         (\<lambda>r. git_return (git_stdout r))
                  else git_return []) (\<lambda>remote.
        git_return \<lparr>bi_current = currentBranch, bi_remote = remoteName,
          bi_branches = normalizeBranchList (git_stdout local @ [newline] @ remote)\<rparr>)))))))"

record git_status =
  gs_current :: string
  gs_branches :: "string list"
  gs_remote :: string
  gs_files :: "status_file list"

definition getWorkspaceGitStatus :: "'w git_ops \<Rightarrow> ('w, git_status) git_m" where
  "getWorkspaceGitStatus ops =
     and_then (ensureWorkspaceGitReady ops) (\<lambda>session.
     and_then (fetchWorkspaceBranches ops False []) (\<lambda>info.
     and_then (git ops (resolve_path (ws_repoPath session))
                [''status'', ''--porcelain=v1'', ''--untracked-files=all'']) (\<lambda>r.
     git_return \<lparr>gs_current = bi_current info, gs_branches = bi_branches info,
       gs_remote = bi_remote info, gs_files = parseStatusEntries (git_stdout r)\<rparr>)))"

section \<open>Staging, committing and moving between branches\<close>

definition stageWorkspaceFile :: "'w git_ops \<Rightarrow> string \<Rightarrow> ('w, git_status) git_m" where
  "stageWorkspaceFile ops filePath =
     and_then (ensureWorkspaceGitReady ops) (\<lambda>session.
     and_then (git ops (ws_repoPath session) [''add'', ''--'', filePath]) (\<lambda>_.
     getWorkspaceGitStatus ops))"

definition unstageWorkspaceFile :: "'w git_ops \<Rightarrow> string \<Rightarrow> ('w, git_status) git_m" where
  "unstageWorkspaceFile ops filePath =
     and_then (ensureWorkspaceGitReady ops) (\<lambda>session.
     and_then (git_try ops (ws_repoPath session) [''restore'', ''--staged'', ''--'', filePath]) (\<lambda>r.
     and_then (if git_code r \<noteq> 0
               then and_then (git ops (ws_repoPath session) [''reset'', ''HEAD'', ''--'', filePath]) (\<lambda>_. git_return ())
               else git_return ()) (\<lambda>_.
     getWorkspaceGitStatus ops)))"

definition stageAllWorkspaceFiles :: "'w git_ops \<Rightarrow> ('w, git_status) git_m" where
  "stageAllWorkspaceFiles ops =
     and_then (ensureWorkspaceGitReady ops) (\<lambda>session.
     and_then (git ops (ws_repoPath session) [''add'', ''-A'']) (\<lambda>_.
     getWorkspaceGitStatus ops))"

definition unstageAllWorkspaceFiles :: "'w git_ops \<Rightarrow> ('w, git_status) git_m" where
  "unstageAllWorkspaceFiles ops =
     and_then (ensureWorkspaceGitReady ops) (\<lambda>session.
     and_then (git_try ops (ws_repoPath session) [''restore'', ''--staged'', ''.'']) (\<lambda>r.
     and_then (if git_code r \<noteq> 0
               then and_then (git ops (ws_repoPath session) [''reset'']) (\<lambda>_. git_return ())
               else git_return ()) (\<lambda>_.
     getWorkspaceGitStatus ops)))"

definition getWorkspaceDiff :: "'w git_ops \<Rightarrow> string \<Rightarrow> ('w, string \<times> string) git_m" where
  "getWorkspaceDiff ops filePath =
     and_then (ensureWorkspaceGitReady ops) (\<lambda>session.
     let cwd = resolve_path (ws_repoPath session)
     in and_then (git_try ops cwd [''diff'', ''--'', filePath]) (\<lambda>unstaged.
        and_then (git_try ops cwd [''diff'', ''--cached'', ''--'', filePath]) (\<lambda>staged.
        git_return (git_stdout unstaged, git_stdout staged))))"

definition commitWorkspaceChanges :: "'w git_ops \<Rightarrow> string \<Rightarrow> ('w, string \<times> git_status) git_m" where
  "commitWorkspaceChanges ops message =
     and_then (ensureWorkspaceGitReady ops) (\<lambda>session.
     let cwd = resolve_path (ws_repoPath session)
     in and_then (getWorkspaceGitStatus ops) (\<lambda>status.
        if trim message = [] then git_throw ''Commit message is required''
        else if \<not> list_ex sf_staged (gs_files status)
        then git_throw ''Stage at least one file before committing''
        else and_then (git ops cwd [''commit'', ''-m'', trim message]) (\<lambda>_.
             and_then (git ops cwd [''rev-parse'', ''HEAD'']) (\<lambda>r.
             and_then (getWorkspaceGitStatus ops) (\<lambda>status'.
             git_return (trim (git_stdout r), status'))))))"

definition token_expired :: string where
  "token_expired = ''Session token expired - please reload the page to re-authenticate''"

definition pullWorkspaceBranch :: "'w git_ops \<Rightarrow> string \<Rightarrow> ('w, string \<times> git_status) git_m" where
  "pullWorkspaceBranch ops tokenOverride =
     and_then (ensureWorkspaceGitReady ops) (\<lambda>session.
     and_then (take_token tokenOverride session) (\<lambda>token.
     let cwd = resolve_path (ws_repoPath session)
     in and_then (getRemoteName ops cwd) (\<lambda>remoteName.
        if remoteName = [] then git_throw ''This workspace has no remote to pull from''
        else if token = [] then git_throw token_expired
        else and_then (current_branch ops cwd session) (\<lambda>branch.
             and_then (runGit ops cwd [''pull'', ''--ff-only'', remoteName, branch] token True [] False) (\<lambda>r.
             and_then (getWorkspaceGitStatus ops) (\<lambda>status.
             git_return (str_or (trim (git_stdout r)) (str_or (trim (git_stderr r))
                           (''Pulled '' @ remoteName @ ''/'' @ branch)), status)))))))"

definition pushWorkspaceBranch :: "'w git_ops \<Rightarrow> string \<Rightarrow> ('w, string \<times> string \<times> git_status) git_m" where
  "pushWorkspaceBranch ops tokenOverride =
     and_then (ensureWorkspaceGitReady ops) (\<lambda>session.
     and_then (take_token tokenOverride session) (\<lambda>token.
     let cwd = resolve_path (ws_repoPath session)
     in and_then (getRemoteName ops cwd) (\<lambda>remoteName.
        if remoteName = [] then git_throw ''This workspace has no remote to push to''
        else if token = [] then git_throw token_expired
        else and_then (current_branch ops cwd session) (\<lambda>branch.
             and_then (runGit ops cwd [''push'', ''-u'', remoteName, branch] token True [] False) (\<lambda>r.
             and_then (getWorkspaceGitStatus ops) (\<lambda>status.
             git_return (branch, str_or (trim (git_stdout r)) (str_or (trim (git_stderr r))
                           (''Pushed '' @ remoteName @ ''/'' @ branch)), status)))))))"

text \<open>\<^verbatim>\<open>VALID_BRANCH_RE\<close>; the class excludes the line ends at which \<^verbatim>\<open>.*\<close> would stop.\<close>

definition branch_char :: "char \<Rightarrow> bool" where
  "branch_char c = (let n = (of_char c :: nat) in \<not> n < 32 \<and> n \<noteq> 127 \<and> c \<notin> set '' ~^:?*['' \<and> n \<noteq> 92)"

definition VALID_BRANCH_RE :: "string \<Rightarrow> bool" where
  "VALID_BRANCH_RE b =
     (b \<noteq> [] \<and> list_all branch_char b \<and> \<not> str_includes b ''..'' \<and> \<not> str_includes b ''//''
      \<and> \<not> starts_with ''/'' b \<and> \<not> ends_with ''/'' b)"

definition ref_exists :: "'w git_ops \<Rightarrow> string \<Rightarrow> string \<Rightarrow> ('w, bool) git_m" where
  "ref_exists ops cwd ref =
     and_then (git_try ops cwd [''show-ref'', ''--verify'', ''--quiet'', ref]) (\<lambda>r. git_return (git_code r = 0))"

definition switchWorkspaceBranch :: "'w git_ops \<Rightarrow> string \<Rightarrow> string \<Rightarrow> ('w, git_status) git_m" where
  "switchWorkspaceBranch ops branchName tokenOverride =
     and_then (ensureWorkspaceGitReady ops) (\<lambda>session.
     and_then (take_token tokenOverride session) (\<lambda>token.
     let cwd = resolve_path (ws_repoPath session); nextBranch = trim branchName
     in if nextBranch = [] then git_throw ''Branch name is required''
        else if \<not> VALID_BRANCH_RE nextBranch
        then git_throw (''Invalid branch name: \"'' @ nextBranch @ ''\"'')
        else and_then (getRemoteName ops cwd) (\<lambda>remoteName.
             and_then (ref_exists ops cwd (''refs/heads/'' @ nextBranch)) (\<lambda>localExists.
             and_then
               (if localExists then git ops cwd [''switch'', nextBranch]
                else if remoteName \<noteq> []
                then and_then (ref_exists ops cwd (''refs/remotes/'' @ remoteName @ ''/'' @ nextBranch)) (\<lambda>remoteExists.
                     and_then (if \<not> remoteExists
                               then and_then (runGit ops cwd [''fetch'', ''--prune'', remoteName] token True [] True)
                                      (\<lambda>_. git_return ())
                               else git_return ()) (\<lambda>_.
                     and_then (ref_exists ops cwd (''refs/remotes/'' @ remoteName @ ''/'' @ nextBranch)) (\<lambda>refreshed.
                     if refreshed
                     then git ops cwd [''switch'', ''--track'', ''-c'', nextBranch, remoteName @ ''/'' @ nextBranch]
                     else git ops cwd [''switch'', ''-c'', nextBranch])))
                else git ops cwd [''switch'', ''-c'', nextBranch]) (\<lambda>_.
             and_then get_session (\<lambda>session'.
             and_then (set_session (session'\<lparr>ws_defaultBranch := str_or (ws_defaultBranch session') nextBranch\<rparr>)) (\<lambda>_.
             getWorkspaceGitStatus ops)))))))"

section \<open>Drafts\<close>

definition DRAFT_BRANCH_PREFIX :: string where "DRAFT_BRANCH_PREFIX = ''drafts/''"

definition draft_char :: "char \<Rightarrow> bool" where
  "draft_char c = (is_lower_az c \<or> is_digit c \<or> c = CHR ''_'' \<or> c = CHR ''-'')"

definition separator :: "char \<Rightarrow> bool" where
  "separator c = (c = CHR ''-'' \<or> c = CHR ''_'')"

text \<open>\<^verbatim>\<open>replace(/[^a-z0-9_-]+/g, '-')\<close>: every maximal run of other characters becomes one dash.\<close>

fun replace_runs :: "bool \<Rightarrow> string \<Rightarrow> string" where
  "replace_runs inRun [] = []"
| "replace_runs inRun (c # cs) =
     (if draft_char c then c # replace_runs False cs
      else if inRun then replace_runs True cs
      else CHR ''-'' # replace_runs True cs)"

text \<open>\<^verbatim>\<open>replace(/-{2,}/g, '-')\<close>.\<close>

fun collapse_dashes :: "string \<Rightarrow> string" where
  "collapse_dashes (c # d # cs) =
     (if c = CHR ''-'' \<and> d = CHR ''-'' then collapse_dashes (d # cs) else c # collapse_dashes (d # cs))"
| "collapse_dashes s = s"

definition drop_trailing :: "string \<Rightarrow> string" where
  "drop_trailing s = rev (dropWhile separator (rev s))"

definition draft_segment :: "string \<Rightarrow> string" where
  "draft_segment username =
     drop_trailing (take 64 (drop_trailing (dropWhile separator
       (collapse_dashes (replace_runs False (to_lower (trim username)))))))"

definition toDraftBranch :: "string \<Rightarrow> string + string" where
  "toDraftBranch username =
     (let cleaned = draft_segment username
      in if cleaned = [] then Inl ''A username is required to save a draft''
         else Inr (DRAFT_BRANCH_PREFIX @ cleaned))"

record draft_result =
  dr_saved :: bool
  dr_branch :: string
  dr_commitSha :: "string option"
  dr_reason :: "string option"
  dr_savedAt :: string

definition remove_path :: "'w git_ops \<Rightarrow> string \<Rightarrow> 'w git_state \<Rightarrow> 'w git_state" where
  "remove_path ops p s =
     s\<lparr>git_world := remove_file ops p (git_world s), git_trace := git_trace s @ [RemoveFile p]\<rparr>"

text \<open>The body of the \<^verbatim>\<open>try\<close> block, with its clean-up in \<^verbatim>\<open>finally\<close>.\<close>

definition write_draft ::
    "'w git_ops \<Rightarrow> string \<Rightarrow> string \<Rightarrow> string \<Rightarrow> string \<Rightarrow> string \<Rightarrow> ('w, draft_result) git_m" where
  "write_draft ops cwd branch headSha tempIndex savedAt =
     (let indexed = (\<lambda>args. runGit ops cwd args [] False [(''GIT_INDEX_FILE'', tempIndex)] False)
      in and_then (indexed [''read-tree'', headSha]) (\<lambda>_.
         and_then (indexed [''add'', ''-A'']) (\<lambda>_.
         and_then (indexed [''write-tree'']) (\<lambda>t.
         let tree = trim (git_stdout t)
         in and_then (git_try ops cwd [''rev-parse'', ''--verify'', ''refs/heads/'' @ branch]) (\<lambda>existing.
            let parent = (if git_code existing = 0 then trim (git_stdout existing) else headSha)
            in and_then (git_try ops cwd [''rev-parse'', parent @ ''^{tree}'']) (\<lambda>parentTree.
               if git_code parentTree = 0 \<and> trim (git_stdout parentTree) = tree
               then git_return \<lparr>dr_saved = False, dr_branch = branch, dr_commitSha = Some parent,
                                dr_reason = Some ''unchanged'', dr_savedAt = savedAt\<rparr>
               else and_then (git ops cwd [''commit-tree'', tree, ''-p'', parent, ''-m'',
                                           ''draft: auto-save '' @ savedAt]) (\<lambda>c.
                    and_then (git ops cwd [''update-ref'', ''refs/heads/'' @ branch, trim (git_stdout c)]) (\<lambda>_.
                    git_return \<lparr>dr_saved = True, dr_branch = branch, dr_commitSha = Some (trim (git_stdout c)),
                                dr_reason = None, dr_savedAt = savedAt\<rparr>))))))))"

definition with_cleanup :: "'w git_ops \<Rightarrow> string \<Rightarrow> ('w, 'a) git_m \<Rightarrow> ('w, 'a) git_m" where
  "with_cleanup ops tempIndex m = (\<lambda>s. case m s of
     (r, s') \<Rightarrow> (r, remove_path ops (tempIndex @ ''.lock'') (remove_path ops tempIndex s')))"

text \<open>\<open>stamp\<close> is the process identifier and the time in the name of the index file.\<close>

definition saveWorkspaceDraft ::
    "'w git_ops \<Rightarrow> string \<Rightarrow> string \<Rightarrow> string \<Rightarrow> ('w, draft_result) git_m" where
  "saveWorkspaceDraft ops stamp savedAt username =
     and_then (ensureWorkspaceGitReady ops) (\<lambda>session.
     let cwd = resolve_path (ws_repoPath session)
     in case toDraftBranch username of
          Inl e \<Rightarrow> git_throw e
        | Inr branch \<Rightarrow>
            if \<not> VALID_BRANCH_RE branch then git_throw (''Invalid draft branch name: \"'' @ branch @ ''\"'')
            else and_then (git_try ops cwd [''rev-parse'', ''--verify'', ''HEAD'']) (\<lambda>headResult.
                 if git_code headResult \<noteq> 0
                 then git_return \<lparr>dr_saved = False, dr_branch = branch, dr_commitSha = None,
                                  dr_reason = Some ''empty-workspace'', dr_savedAt = savedAt\<rparr>
                 else and_then (git ops cwd [''rev-parse'', ''--git-dir'']) (\<lambda>dir.
                      let gitDir = trim (git_stdout dir);
                          gitDirAbsolute = (if starts_with ''/'' gitDir then gitDir else path_resolve ''/'' [cwd, gitDir]);
                          tempIndex = path_resolve ''/'' [gitDirAbsolute, ''proofdesk-draft-index-'' @ stamp]
                      in with_cleanup ops tempIndex
                           (write_draft ops cwd branch (trim (git_stdout headResult)) tempIndex savedAt))))"

section \<open>Pull requests and history\<close>

text \<open>\<open>create_pr owner repo title body head base\<close> is the call of the GitHub API.\<close>

record pull_request =
  pr_number :: int
  pr_url :: string
  pr_title :: string

definition createWorkspacePullRequest ::
    "'w git_ops \<Rightarrow> (string \<Rightarrow> string \<Rightarrow> string \<Rightarrow> string \<Rightarrow> string \<Rightarrow> string \<Rightarrow> string \<Rightarrow> string + pull_request) \<Rightarrow>
     string \<Rightarrow> string \<Rightarrow> string \<Rightarrow> string \<Rightarrow> ('w, pull_request \<times> string \<times> string) git_m" where
  "createWorkspacePullRequest ops create_pr baseBranch prTitle body tokenOverride =
     and_then (ensureWorkspaceGitReady ops) (\<lambda>session.
     and_then (take_token tokenOverride session) (\<lambda>token.
     if token = [] then git_throw token_expired
     else and_then (git ops (resolve_path (ws_repoPath session)) [''branch'', ''--show-current'']) (\<lambda>r.
          let currentBranch = trim (git_stdout r);
              base = trim (str_or baseBranch (str_or (ws_defaultBranch session) ''main''));
              title = trim prTitle
          in if currentBranch = [] then git_throw ''Could not determine the current branch''
             else if title = [] then git_throw ''Pull request title is required''
             else if currentBranch = base then git_throw ''Switch to a feature branch before opening a pull request''
             else case create_pr token (ws_owner session) (ws_repo session) title body currentBranch base of
                 Inl e \<Rightarrow> git_throw e
               | Inr pr \<Rightarrow> git_return (pr, currentBranch, base))))"

record commit_info =
  ci_hash :: string
  ci_shortHash :: string
  ci_author :: string
  ci_date :: string
  ci_subject :: string
  ci_files :: "string list"

text \<open>
  One line of the log. The list holds the commits found so far with the newest first, so
  that its head is \<^verbatim>\<open>currentCommit\<close>; fields that are missing are empty.
\<close>

definition commit_of_payload :: "string \<Rightarrow> commit_info" where
  "commit_of_payload payload =
     (let fields = split_on (CHR ''|'') payload; field = (\<lambda>i. if i < length fields then fields ! i else [])
      in \<lparr>ci_hash = field 0, ci_shortHash = field 1, ci_author = field 2, ci_date = field 3,
          ci_subject = join ''|'' (drop 4 fields), ci_files = []\<rparr>)"

definition history_line :: "string \<Rightarrow> commit_info list \<Rightarrow> commit_info list" where
  "history_line line commits =
     (let trimmed = trim line
      in if trimmed = [] then commits
         else if starts_with ''COMMIT:'' trimmed then commit_of_payload (drop 7 trimmed) # commits
         else case commits of
             [] \<Rightarrow> []
           | c # cs \<Rightarrow> c\<lparr>ci_files := ci_files c @ [trimmed]\<rparr> # cs)"

definition parse_history :: "string \<Rightarrow> commit_info list" where
  "parse_history out =
     (if trim out = [] then [] else rev (fold history_line (split_on newline out) []))"

definition getWorkspaceCommitHistory :: "'w git_ops \<Rightarrow> ('w, commit_info list) git_m" where
  "getWorkspaceCommitHistory ops =
     and_then (ensureWorkspaceGitReady ops) (\<lambda>session.
     and_then (git_try ops (resolve_path (ws_repoPath session))
                [''log'', ''-n'', ''50'', ''--name-only'', ''--pretty=format:COMMIT:%H|%h|%an|%ad|%s'', ''--date=short'']) (\<lambda>r.
     git_return (parse_history (git_stdout r))))"

definition commit_sha :: "string \<Rightarrow> bool" where
  "commit_sha s = (length s = 40 \<and> list_all (\<lambda>c. c \<in> set ''0123456789abcdefABCDEF'') s)"

definition getWorkspaceFileDiffAtCommit :: "'w git_ops \<Rightarrow> string \<Rightarrow> string \<Rightarrow> ('w, string) git_m" where
  "getWorkspaceFileDiffAtCommit ops commitSha filePath =
     and_then (ensureWorkspaceGitReady ops) (\<lambda>session.
     let cwd = resolve_path (ws_repoPath session)
     in if \<not> commit_sha commitSha then git_throw ''Invalid commit SHA''
        else and_then (git_try ops cwd [''diff'', commitSha @ ''~1'', commitSha, ''--'', filePath]) (\<lambda>d.
             if git_code d \<noteq> 0 \<or> trim (git_stdout d) = []
             then and_then (git_try ops cwd [''show'', commitSha, ''--'', filePath]) (\<lambda>r. git_return (git_stdout r))
             else git_return (git_stdout d)))"

definition rollbackWorkspaceFileToCommit :: "'w git_ops \<Rightarrow> string \<Rightarrow> string \<Rightarrow> ('w, git_status) git_m" where
  "rollbackWorkspaceFileToCommit ops commitSha filePath =
     and_then (ensureWorkspaceGitReady ops) (\<lambda>session.
     let cwd = resolve_path (ws_repoPath session)
     in if \<not> commit_sha commitSha then git_throw ''Invalid commit SHA''
        else and_then (git ops cwd [''checkout'', commitSha, ''--'', filePath]) (\<lambda>_.
             getWorkspaceGitStatus ops))"

section \<open>Draft branches\<close>

lemma set_replace_runs: "c \<in> set (replace_runs r s) \<Longrightarrow> draft_char c"
  by (induction r s rule: replace_runs.induct) (auto simp: draft_char_def split: if_splits)

lemma set_collapse_dashes: "set (collapse_dashes s) \<subseteq> set s"
  by (induction s rule: collapse_dashes.induct) auto

lemma draft_segment_chars: "c \<in> set (draft_segment u) \<Longrightarrow> draft_char c"
  using set_collapse_dashes set_replace_runs
  by (fastforce simp: draft_segment_def drop_trailing_def dest!: set_dropWhileD in_set_takeD)

lemma draft_char_facts:
  assumes "draft_char c"
  shows "branch_char c" "c \<noteq> CHR ''/''" "c \<noteq> CHR ''.''"
proof -
  have "of_char c < (256 :: nat)" by simp
  have "branch_char c \<and> c \<noteq> CHR ''/'' \<and> c \<noteq> CHR ''.''"
    using assms by (auto simp: draft_char_def branch_char_def is_lower_az_def is_digit_def Let_def)
  then show "branch_char c" "c \<noteq> CHR ''/''" "c \<noteq> CHR ''.''" by auto
qed

lemma draft_segment_edges:
  "draft_segment u \<noteq> [] \<Longrightarrow> \<not> separator (last (draft_segment u)) \<and> \<not> separator (hd (draft_segment u))"
proof -
  assume ne: "draft_segment u \<noteq> []"
  have "\<not> separator (last (drop_trailing s))" if "drop_trailing s \<noteq> []" for s
    using that hd_dropWhile [of separator "rev s"] by (simp add: drop_trailing_def last_rev)
  moreover have "\<not> separator (hd (drop_trailing s))" if "drop_trailing s \<noteq> []" "\<not> separator (hd s)" for s
  proof -
    obtain ys where "s = drop_trailing s @ ys"
      by (metis drop_trailing_def rev_append rev_rev_ident takeWhile_dropWhile_id)
    with that show ?thesis by (metis hd_append2)
  qed
  moreover have "\<not> separator (hd (dropWhile separator s))" if "dropWhile separator s \<noteq> []" for s
    using that by (rule hd_dropWhile)
  moreover have "hd (take 64 s) = hd s" for s :: string by (cases s) auto
  moreover have "drop_trailing [] = []" "take 64 s = [] \<longleftrightarrow> s = []" for s :: string
    by (simp_all add: drop_trailing_def)
  ultimately show ?thesis using ne unfolding draft_segment_def by metis
qed

lemma drafts_branch_valid:
  assumes "seg \<noteq> []" and "\<And>c. c \<in> set seg \<Longrightarrow> draft_char c"
  shows "VALID_BRANCH_RE (''drafts/'' @ seg)"
proof -
  have chars: "\<forall>c \<in> set seg. branch_char c \<and> c \<noteq> CHR ''/'' \<and> c \<noteq> CHR ''.''"
    using assms(2) draft_char_facts by blast
  have "list_all branch_char ''drafts/''" by code_simp
  then have "list_all branch_char (''drafts/'' @ seg)"
    using chars by (simp only: list_all_append) (simp add: list_all_iff)
  moreover have "\<not> sublist ''..'' (''drafts/'' @ seg)"
    using chars set_mono_sublist [of "''..''" "''drafts/'' @ seg"] by auto
  moreover have "\<not> sublist ''//'' seg"
    using chars set_mono_sublist [of "''//''" seg] by auto
  then have "\<not> sublist ''//'' (''drafts/'' @ seg)"
    using chars assms(1) by (cases seg) (auto simp: sublist_Cons_right)
  moreover have "\<not> suffix ''/'' (''drafts/'' @ seg)"
  proof
    assume "suffix ''/'' (''drafts/'' @ seg)"
    then obtain zs where z: "''drafts/'' @ seg = zs @ ''/''" by (rule suffixE)
    from arg_cong [OF z, of last] assms(1) have "last seg = CHR ''/''" by simp
    with chars assms(1) show False using last_in_set by blast
  qed
  ultimately show ?thesis by (simp add: VALID_BRANCH_RE_def)
qed

text \<open>
  Every user name either has nothing left to name a branch with, or gets a branch that git
  accepts: below \<^verbatim>\<open>drafts/\<close>, made of lower-case letters, digits, dashes and underscores, and
  neither starting nor ending with a separator. So the check of the name that follows in
  \<^verbatim>\<open>saveWorkspaceDraft\<close> never fails.
\<close>

theorem draft_branch_valid:
  "case toDraftBranch username of
     Inl e \<Rightarrow> e = ''A username is required to save a draft''
   | Inr branch \<Rightarrow>
       VALID_BRANCH_RE branch \<and> starts_with DRAFT_BRANCH_PREFIX branch \<and>
       list_all draft_char (drop 7 branch) \<and> \<not> separator (hd (drop 7 branch)) \<and> \<not> separator (last branch)"
  using draft_segment_chars [of _ username] draft_segment_edges [of username]
    drafts_branch_valid [of "draft_segment username"]
  by (auto simp: toDraftBranch_def Let_def DRAFT_BRANCH_PREFIX_def list_all_iff)

text \<open>A login as GitHub allows it: letters, digits and single inner dashes, at most 39 characters.\<close>

definition github_login :: "string \<Rightarrow> bool" where
  "github_login l = (l \<noteq> [] \<and> length l \<le> 39 \<and> list_all (\<lambda>c. is_alpha c \<or> is_digit c \<or> c = CHR ''-'') l
     \<and> hd l \<noteq> CHR ''-'' \<and> last l \<noteq> CHR ''-'' \<and> \<not> sublist ''--'' l)"

lemma replace_runs_ident: "list_all draft_char s \<Longrightarrow> replace_runs r s = s"
  by (induction s arbitrary: r) auto

lemma collapse_dashes_ident: "\<not> sublist ''--'' s \<Longrightarrow> collapse_dashes s = s"
proof (induction s rule: collapse_dashes.induct)
  case (1 c d cs)
  then have no: "\<not> (c = CHR ''-'' \<and> d = CHR ''-'')" and tl: "\<not> sublist ''--'' (d # cs)"
    by (auto simp: sublist_Cons_right)
  show ?case by (simp only: collapse_dashes.simps if_not_P [OF no] 1(2) [OF no tl])
qed simp_all

lemma drop_trailing_ident: "s = [] \<or> \<not> separator (last s) \<Longrightarrow> drop_trailing s = s"
  by (cases s rule: rev_cases) (auto simp: drop_trailing_def)

lemma lower_login_char:
  assumes "is_alpha c \<or> is_digit c \<or> c = CHR ''-''"
  shows "draft_char (lower_char c)" "lower_char c = CHR ''-'' \<longleftrightarrow> c = CHR ''-''" "\<not> is_space c"
    "lower_char c \<noteq> CHR ''_''"
proof -
  have "draft_char (lower_char c) \<and> (lower_char c = CHR ''-'' \<longleftrightarrow> c = CHR ''-'') \<and> \<not> is_space c
    \<and> lower_char c \<noteq> CHR ''_''"
  proof -
    have "of_char (lower_char c) = (let n = (of_char c :: nat) in if 65 \<le> n \<and> n \<le> 90 then n + 32 else n)"
      using assms by (auto simp: lower_char_def is_alpha_def is_upper_az_def is_lower_az_def is_digit_def Let_def)
    moreover have "lower_char (CHR ''-'') = CHR ''-''" by code_simp
    ultimately show ?thesis using assms
      by (auto simp: draft_char_def is_space_def is_alpha_def is_upper_az_def is_lower_az_def is_digit_def Let_def)
  qed
  then show "draft_char (lower_char c)" "lower_char c = CHR ''-'' \<longleftrightarrow> c = CHR ''-''" "\<not> is_space c"
    "lower_char c \<noteq> CHR ''_''" by auto
qed

text \<open>
  No two GitHub users share a draft branch: the branch of a login is \<^verbatim>\<open>drafts/\<close> followed by the
  login in lower case, and GitHub logins differ in more than case.
\<close>

theorem draft_branch_of_login:
  assumes "github_login l"
  shows "toDraftBranch l = Inr (DRAFT_BRANCH_PREFIX @ to_lower l)"
proof -
  have l: "l \<noteq> []" "length l \<le> 39" "hd l \<noteq> CHR ''-''" "last l \<noteq> CHR ''-''" "\<not> sublist ''--'' l"
    and chars: "\<And>c. c \<in> set l \<Longrightarrow> is_alpha c \<or> is_digit c \<or> c = CHR ''-''"
    using assms by (auto simp: github_login_def list_all_iff)
  note lc = lower_login_char [OF chars]
  have trim: "trim l = l" using lc(3) by (intro trim_ident) auto
  have "replace_runs False (to_lower l) = to_lower l"
    using lc(1) by (intro replace_runs_ident) (auto simp: to_lower_def list_all_iff)
  moreover have "\<not> sublist ''--'' (to_lower l)"
  proof
    assume "sublist ''--'' (to_lower l)"
    then obtain xs ys where eq: "map lower_char l = xs @ ''--'' @ ys" by (auto simp: sublist_def to_lower_def)
    then obtain us a b ws where u: "l = us @ a # b # ws" "lower_char a = CHR ''-''" "lower_char b = CHR ''-''"
      by (auto simp: map_eq_append_conv map_eq_Cons_conv)
    then have "a = CHR ''-''" "b = CHR ''-''" using lc(2) [of a] lc(2) [of b] by simp_all
    with u(1) l(5) show False by (auto simp: sublist_def)
  qed
  then have "collapse_dashes (to_lower l) = to_lower l" by (rule collapse_dashes_ident)
  moreover have sep: "\<not> separator (lower_char c)" if "c \<in> set l" "c \<noteq> CHR ''-''" for c
    using lc(2,4) [OF that(1)] that(2) by (simp add: separator_def)
  have "hd l \<in> set l" "last l \<in> set l" using l(1) by simp_all
  then have "\<not> separator (hd (to_lower l))" "\<not> separator (last (to_lower l))"
    using sep l by (simp_all add: to_lower_def hd_map last_map)
  then have "dropWhile separator (to_lower l) = to_lower l" "drop_trailing (to_lower l) = to_lower l"
    by (cases "to_lower l"; simp add: drop_trailing_ident)+
  moreover have "take 64 (to_lower l) = to_lower l" using l(2) by simp
  ultimately have "draft_segment l = to_lower l" by (simp add: draft_segment_def trim)
  moreover have "to_lower l \<noteq> []" using l(1) by (simp add: to_lower_def)
  ultimately show ?thesis by (simp add: toDraftBranch_def Let_def)
qed

theorem draft_branch_of_login_witness: "toDraftBranch ''Ann-Lee7'' = Inr ''drafts/ann-lee7''"
proof -
  have "github_login ''Ann-Lee7''" by code_simp
  moreover have "DRAFT_BRANCH_PREFIX @ to_lower ''Ann-Lee7'' = ''drafts/ann-lee7''" by code_simp
  ultimately show ?thesis using draft_branch_of_login by simp
qed

section \<open>What an operation runs\<close>

text \<open>Every event that \<open>m\<close> adds to the trace satisfies \<open>P\<close>.\<close>

definition emits :: "(git_event \<Rightarrow> bool) \<Rightarrow> ('w, 'a) git_m \<Rightarrow> bool" where
  "emits P m = (\<forall>s. \<exists>new. git_trace (snd (m s)) = git_trace s @ new \<and> list_all P new)"

named_theorems emits_rules \<open>introduction rules for the events of an operation\<close>

lemma emits_basic [emits_rules]:
  "emits P (git_return a)" "emits P (git_throw e)" "emits P get_session" "emits P (set_session ws)"
  "emits P (hasGitDirectory ops p)"
  by (simp_all add: emits_def git_return_def git_throw_def get_session_def set_session_def hasGitDirectory_def)

lemma emits_then [emits_rules]:
  assumes "emits P m" and "\<And>a. emits P (f a)"
  shows "emits P (and_then m f)"
  unfolding emits_def
proof
  fix s
  obtain r s1 where m: "m s = (r, s1)" by (cases "m s")
  obtain n1 where n1: "git_trace s1 = git_trace s @ n1" "list_all P n1"
    using assms(1) m unfolding emits_def by (metis snd_conv)
  show "\<exists>new. git_trace (snd (and_then m f s)) = git_trace s @ new \<and> list_all P new"
  proof (cases r)
    case (Inl e)
    with m n1 show ?thesis by (auto simp: and_then_def)
  next
    case (Inr a)
    obtain n2 where "git_trace (snd (f a s1)) = git_trace s1 @ n2" "list_all P n2"
      using assms(2) unfolding emits_def by blast
    with m n1 Inr show ?thesis by (auto simp: and_then_def intro!: exI [of _ "n1 @ n2"])
  qed
qed

lemma emits_runGit [emits_rules]:
  "P (GitRun \<lparr>call_cwd = cwd, call_args = args,
        call_env = (''GIT_TERMINAL_PROMPT'', ''0'') # gitAuthEnv (base64 ops) token needsRemote @ extra\<rparr>) \<Longrightarrow>
   emits P (runGit ops cwd args token needsRemote extra allowFailure)"
  by (simp add: emits_def runGit_def Let_def split: prod.splits)

lemma emits_git [emits_rules]:
  "P (GitRun \<lparr>call_cwd = cwd, call_args = args, call_env = [(''GIT_TERMINAL_PROMPT'', ''0'')]\<rparr>) \<Longrightarrow> emits P (git ops cwd args)"
  "P (GitRun \<lparr>call_cwd = cwd, call_args = args, call_env = [(''GIT_TERMINAL_PROMPT'', ''0'')]\<rparr>) \<Longrightarrow> emits P (git_try ops cwd args)"
  unfolding git_def git_try_def by (rule emits_runGit; simp add: gitAuthEnv_def)+

lemma emits_if [emits_rules]: "(b \<Longrightarrow> emits P m) \<Longrightarrow> (\<not> b \<Longrightarrow> emits P n) \<Longrightarrow> emits P (if b then m else n)"
  by simp

lemma emits_sum [emits_rules]:
  "(\<And>e. x = Inl e \<Longrightarrow> emits P (f e)) \<Longrightarrow> (\<And>a. x = Inr a \<Longrightarrow> emits P (g a)) \<Longrightarrow>
   emits P (case x of Inl e \<Rightarrow> f e | Inr a \<Rightarrow> g a)"
  by (cases x) auto

lemma emits_cleanup [emits_rules]:
  assumes "emits P m" and "P (RemoveFile p)" and "P (RemoveFile (p @ ''.lock''))"
  shows "emits P (with_cleanup ops p m)"
  unfolding emits_def
proof
  fix s
  obtain r s1 where m: "m s = (r, s1)" by (cases "m s")
  then obtain new where "git_trace s1 = git_trace s @ new" "list_all P new"
    using assms(1) unfolding emits_def by (metis snd_conv)
  with assms(2,3) m show "\<exists>new. git_trace (snd (with_cleanup ops p m s)) = git_trace s @ new \<and> list_all P new"
    by (auto simp: with_cleanup_def remove_path_def)
qed

subsection \<open>Credentials\<close>

definition credentials_ok :: "git_event \<Rightarrow> bool" where
  "credentials_ok ev =
     (case ev of
        RemoveFile p \<Rightarrow> True
      | GitRun c \<Rightarrow> map_of (call_env c) ''GIT_CONFIG_VALUE_0'' = None
          \<or> take 1 (call_args c) \<in> {[''fetch''], [''pull''], [''push'']})"

named_theorems quiet \<open>operations that hand credentials only to remote commands\<close>

lemma credentials_ok_simps [simp]:
  "credentials_ok (RemoveFile p)"
  "credentials_ok (GitRun \<lparr>call_cwd = cwd, call_args = args, call_env = env\<rparr>) =
     (map_of env ''GIT_CONFIG_VALUE_0'' = None \<or> take 1 args \<in> {[''fetch''], [''pull''], [''push'']})"
  by (simp_all add: credentials_ok_def)

lemma no_credentials [simp]: "gitAuthEnv b64 token False = []" "gitAuthEnv b64 [] remote = []"
  by (simp_all add: gitAuthEnv_def)

lemma quiet_helpers [quiet]:
  "emits credentials_ok (getRemoteName ops cwd)"
  "emits credentials_ok (set_config_if_missing ops cwd key v)"
  "emits credentials_ok (take_token t session)"
  "emits credentials_ok (current_branch ops cwd session)"
  "emits credentials_ok (ref_exists ops cwd ref)"
  by (auto simp: getRemoteName_def set_config_if_missing_def take_token_def Let_def current_branch_def
      ref_exists_def intro!: emits_rules)

lemma quiet_ensure [quiet]: "emits credentials_ok (ensureWorkspaceGitReady ops)"
  by (auto simp: ensureWorkspaceGitReady_def Let_def intro!: emits_rules quiet)

lemma quiet_fetch [quiet]: "emits credentials_ok (fetchWorkspaceBranches ops refresh t)"
  by (auto simp: fetchWorkspaceBranches_def Let_def intro!: emits_rules quiet)

lemma quiet_status [quiet]: "emits credentials_ok (getWorkspaceGitStatus ops)"
  by (auto simp: getWorkspaceGitStatus_def Let_def intro!: emits_rules quiet)

lemma quiet_local [quiet]:
  "emits credentials_ok (stageWorkspaceFile ops f)"
  "emits credentials_ok (unstageWorkspaceFile ops f)"
  "emits credentials_ok (stageAllWorkspaceFiles ops)"
  "emits credentials_ok (unstageAllWorkspaceFiles ops)"
  "emits credentials_ok (getWorkspaceDiff ops f)"
  "emits credentials_ok (commitWorkspaceChanges ops message)"
  "emits credentials_ok (getWorkspaceCommitHistory ops)"
  "emits credentials_ok (getWorkspaceFileDiffAtCommit ops sha f)"
  "emits credentials_ok (rollbackWorkspaceFileToCommit ops sha f)"
  by (auto simp: stageWorkspaceFile_def unstageWorkspaceFile_def stageAllWorkspaceFiles_def
      unstageAllWorkspaceFiles_def getWorkspaceDiff_def commitWorkspaceChanges_def
      getWorkspaceCommitHistory_def getWorkspaceFileDiffAtCommit_def rollbackWorkspaceFileToCommit_def
      Let_def intro!: emits_rules quiet)

lemma quiet_remote [quiet]:
  "emits credentials_ok (pullWorkspaceBranch ops t)"
  "emits credentials_ok (pushWorkspaceBranch ops t)"
  "emits credentials_ok (switchWorkspaceBranch ops b t)"
  "emits credentials_ok (createWorkspacePullRequest ops create_pr base ttl body t)"
  by (auto simp: pullWorkspaceBranch_def pushWorkspaceBranch_def switchWorkspaceBranch_def
      createWorkspacePullRequest_def Let_def intro!: emits_rules quiet)

lemma quiet_draft [quiet]: "emits credentials_ok (saveWorkspaceDraft ops stamp savedAt u)"
  by (auto simp: saveWorkspaceDraft_def write_draft_def Let_def intro!: emits_rules quiet)

text \<open>Every request that the service takes.\<close>

datatype git_request =
    FetchBranches bool string | Status | Stage string | Unstage string | StageAll | UnstageAll
  | Diff string | Commit string | Pull string | Push string | Switch string string
  | SaveDraft string string string | OpenPullRequest string string string string
  | History | DiffAt string string | Rollback string string

definition ignore :: "('w, 'a) git_m \<Rightarrow> ('w, unit) git_m" where
  "ignore m = and_then m (\<lambda>_. git_return ())"

fun serve ::
    "'w git_ops \<Rightarrow> (string \<Rightarrow> string \<Rightarrow> string \<Rightarrow> string \<Rightarrow> string \<Rightarrow> string \<Rightarrow> string \<Rightarrow> string + pull_request) \<Rightarrow>
     git_request \<Rightarrow> ('w, unit) git_m" where
  "serve ops create_pr (FetchBranches refresh t) = ignore (fetchWorkspaceBranches ops refresh t)"
| "serve ops create_pr Status = ignore (getWorkspaceGitStatus ops)"
| "serve ops create_pr (Stage f) = ignore (stageWorkspaceFile ops f)"
| "serve ops create_pr (Unstage f) = ignore (unstageWorkspaceFile ops f)"
| "serve ops create_pr StageAll = ignore (stageAllWorkspaceFiles ops)"
| "serve ops create_pr UnstageAll = ignore (unstageAllWorkspaceFiles ops)"
| "serve ops create_pr (Diff f) = ignore (getWorkspaceDiff ops f)"
| "serve ops create_pr (Commit message) = ignore (commitWorkspaceChanges ops message)"
| "serve ops create_pr (Pull t) = ignore (pullWorkspaceBranch ops t)"
| "serve ops create_pr (Push t) = ignore (pushWorkspaceBranch ops t)"
| "serve ops create_pr (Switch b t) = ignore (switchWorkspaceBranch ops b t)"
| "serve ops create_pr (SaveDraft stamp savedAt u) = ignore (saveWorkspaceDraft ops stamp savedAt u)"
| "serve ops create_pr (OpenPullRequest base ttl body t) =
     ignore (createWorkspacePullRequest ops create_pr base ttl body t)"
| "serve ops create_pr History = ignore (getWorkspaceCommitHistory ops)"
| "serve ops create_pr (DiffAt sha f) = ignore (getWorkspaceFileDiffAtCommit ops sha f)"
| "serve ops create_pr (Rollback sha f) = ignore (rollbackWorkspaceFileToCommit ops sha f)"

definition run_request ::
    "'w git_ops \<Rightarrow> (string \<Rightarrow> string \<Rightarrow> string \<Rightarrow> string \<Rightarrow> string \<Rightarrow> string \<Rightarrow> string \<Rightarrow> string + pull_request) \<Rightarrow>
     git_request \<Rightarrow> 'w git_state \<Rightarrow> 'w git_state" where
  "run_request ops create_pr r s = snd (serve ops create_pr r s)"

lemma quiet_serve: "emits credentials_ok (serve ops create_pr r)"
  by (cases r) (auto simp: ignore_def intro!: emits_rules quiet)

text \<open>
  Claim C16. The GitHub token is handed only to git processes that talk to the remote: over any series of
  requests, whatever git answers and however the requests end, each process whose
  environment carries the authorization header is a fetch, a pull or a push.
\<close>

theorem credentials_only_for_remote:
  "list_all credentials_ok
     (git_trace (fold (run_request ops create_pr) rs \<lparr>git_world = w, git_session = ws, git_trace = []\<rparr>))"
proof -
  have "list_all credentials_ok (git_trace s) \<Longrightarrow>
      list_all credentials_ok (git_trace (fold (run_request ops create_pr) rs s))" for s
  proof (induction rs arbitrary: s)
    case (Cons r rs)
    obtain new where "git_trace (run_request ops create_pr r s) = git_trace s @ new" "list_all credentials_ok new"
      using quiet_serve unfolding emits_def run_request_def by blast
    with Cons show ?case by simp
  qed simp
  then show ?thesis by simp
qed

subsection \<open>Drafts leave the workspace alone\<close>

lemma resolve_join_root: "\<exists>y. resolve_join (ps @ [''/'']) acc = y @ slash # acc"
proof (induction ps arbitrary: acc)
  case (Cons p ps)
  show ?case
  proof (cases "p = [] \<or> starts_with [slash] p")
    case True
    with Cons.IH show ?thesis by auto
  next
    case False
    obtain y where "resolve_join (ps @ [''/'']) (p @ slash # acc) = y @ slash # (p @ slash # acc)"
      using Cons.IH by blast
    with False show ?thesis by (auto intro!: exI [of _ "y @ slash # p"])
  qed
qed (auto intro: exI [of _ "''/''"])

lemma resolve_file_name:
  assumes "clean_segment f"
  shows "ends_with (slash # f) (path_resolve ''/'' [d, f])"
proof -
  have f: "f \<noteq> []" "slash \<notin> set f" using assms by (auto simp: clean_segment_def)
  then have "\<not> starts_with [slash] f" by (cases f) auto
  then have "resolve_join [f, d, ''/''] [] = resolve_join [d, ''/''] (f @ [slash])" using f(1) by simp
  also obtain y where "resolve_join [d, ''/''] (f @ [slash]) = y @ slash # (f @ [slash])"
    using resolve_join_root [of "[d]" "f @ [slash]"] by auto
  finally have "path_segments (resolve_join [f, d, ''/''] []) = norm_segments [] (split_on slash y @ [f, []])"
    using f(2) split_on_append [of slash f "[]"] by (simp add: path_segments_def split_on_append)
  also have "\<dots> = norm_segments [] (split_on slash y) @ [f]"
    using assms by (simp add: norm_segments_append clean_segment_def)
  finally have "path_resolve ''/'' [d, f] = abs_path (norm_segments [] (split_on slash y) @ [f])"
    by (simp add: path_resolve_def)
  moreover have "abs_path [f] = slash # f" by (simp add: abs_path_def)
  ultimately show ?thesis
    by (cases "norm_segments [] (split_on slash y) = []") (auto simp: abs_path_append suffix_def)
qed

definition draft_index :: "string \<Rightarrow> string \<Rightarrow> bool" where
  "draft_index stamp p = ends_with (''/proofdesk-draft-index-'' @ stamp) p"

text \<open>
  What saving a draft may run: commands that read; commands on an index, but only on the
  throwaway index that the environment names; the creation of a commit object; and the
  update of a reference below \<^verbatim>\<open>refs/heads/drafts/\<close>. And which files it removes.
\<close>

definition draft_event_ok :: "string \<Rightarrow> git_event \<Rightarrow> bool" where
  "draft_event_ok stamp ev =
     (case ev of
        RemoveFile p \<Rightarrow> draft_index stamp p \<or> (\<exists>q. p = q @ ''.lock'' \<and> draft_index stamp q)
      | GitRun c \<Rightarrow>
          (case call_args c of
             [] \<Rightarrow> False
           | command # rest \<Rightarrow>
               command = ''rev-parse'' \<or> command = ''commit-tree''
               \<or> command \<in> {''read-tree'', ''add'', ''write-tree''}
                 \<and> (case map_of (call_env c) ''GIT_INDEX_FILE'' of Some p \<Rightarrow> draft_index stamp p | None \<Rightarrow> False)
               \<or> command = ''update-ref'' \<and> rest \<noteq> [] \<and> starts_with ''refs/heads/drafts/'' (hd rest)))"

lemma write_draft_events:
  assumes "draft_index stamp tempIndex" and "starts_with DRAFT_BRANCH_PREFIX branch"
  shows "emits (draft_event_ok stamp) (write_draft ops cwd branch headSha tempIndex savedAt)"
  using assms by (auto simp: write_draft_def Let_def draft_event_ok_def DRAFT_BRANCH_PREFIX_def prefix_def
      intro!: emits_rules)

lemma draft_cleanup:
  assumes "draft_index stamp p" and "emits (draft_event_ok stamp) m"
  shows "emits (draft_event_ok stamp) (with_cleanup ops p m)"
  using assms by (intro emits_cleanup) (auto simp: draft_event_ok_def)

lemma draft_reads:
  "draft_event_ok stamp (GitRun \<lparr>call_cwd = cwd, call_args = ''rev-parse'' # args, call_env = env\<rparr>)"
  by (simp add: draft_event_ok_def)

lemma draft_index_resolved:
  assumes "slash \<notin> set stamp"
  shows "draft_index stamp (path_resolve ''/'' [d, ''proofdesk-draft-index-'' @ stamp])"
  using resolve_file_name [of "''proofdesk-draft-index-'' @ stamp" d] assms
  by (simp add: draft_index_def clean_segment_def)


text \<open>A world in which git answers every command with one line, for the examples.\<close>

definition sample_ops :: "unit git_ops" where
  "sample_ops =
     \<lparr>run_git = (\<lambda>c w. (\<lparr>git_stdout = ''x'', git_stderr = [], git_code = 0, git_message = []\<rparr>, w)),
      has_git_dir = (\<lambda>p w. True), remove_file = (\<lambda>p w. w), base64 = id\<rparr>"

definition sample_workspace :: "unit git_state" where
  "sample_workspace =
     \<lparr>git_world = (),
      git_session = \<lparr>ws_repoPath = ''/r'', ws_defaultBranch = ''main'', ws_token = ''t'', ws_owner = ''o'', ws_repo = ''r''\<rparr>,
      git_trace = []\<rparr>"


section \<open>Reading the history back\<close>

text \<open>What git prints for a commit in the requested format, and for a history.\<close>

definition print_commit :: "commit_info \<Rightarrow> string list" where
  "print_commit c =
     (''COMMIT:'' @ join ''|'' [ci_hash c, ci_shortHash c, ci_author c, ci_date c, ci_subject c])
     # ci_files c @ [[]]"

definition print_history :: "commit_info list \<Rightarrow> string" where
  "print_history cs = join [newline] (concat (map print_commit cs))"

definition plain_field :: "string \<Rightarrow> bool" where
  "plain_field f = (CHR ''|'' \<notin> set f \<and> newline \<notin> set f)"

definition commit_ok :: "commit_info \<Rightarrow> bool" where
  "commit_ok c =
     (list_all plain_field [ci_hash c, ci_shortHash c, ci_author c, ci_date c]
      \<and> newline \<notin> set (ci_subject c) \<and> (ci_subject c \<noteq> [] \<and> \<not> is_space (last (ci_subject c)))
      \<and> list_all (\<lambda>f. f \<noteq> [] \<and> trim f = f \<and> newline \<notin> set f \<and> \<not> starts_with ''COMMIT:'' f) (ci_files c))"

lemma trim_edges:
  assumes "s \<noteq> []" and "\<not> is_space (hd s)" and "\<not> is_space (last s)"
  shows "trim s = s"
proof -
  have "dropWhile is_space s = s" using assms(1,2) by (cases s) auto
  moreover have "dropWhile is_space (rev s) = rev s" using assms(1,3) by (cases s rule: rev_cases) auto
  ultimately show ?thesis by (simp add: trim_def trim_start_def trim_end_def)
qed

lemma payload_round_trip:
  assumes "commit_ok c"
  shows "commit_of_payload (join ''|'' [ci_hash c, ci_shortHash c, ci_author c, ci_date c, ci_subject c])
         = c\<lparr>ci_files := []\<rparr>"
proof -
  have "split_on (CHR ''|'') (join ''|'' [ci_hash c, ci_shortHash c, ci_author c, ci_date c, ci_subject c])
      = [ci_hash c, ci_shortHash c, ci_author c, ci_date c] @ split_on (CHR ''|'') (ci_subject c)"
    using assms by (simp add: commit_ok_def plain_field_def split_on_append)
  then show ?thesis by (simp add: commit_of_payload_def Let_def join_split_on)
qed

lemma header_line:
  assumes "commit_ok c"
  shows "history_line (hd (print_commit c)) cs = c\<lparr>ci_files := []\<rparr> # cs"
proof -
  let ?h = "hd (print_commit c)"
  have "?h \<noteq> []" "hd ?h = CHR ''C''" by (simp_all add: print_commit_def)
  moreover have "last ?h = last (ci_subject c)" using assms by (simp add: print_commit_def commit_ok_def)
  moreover have "\<not> is_space (CHR ''C'')" by code_simp
  ultimately have "trim ?h = ?h" using assms by (intro trim_edges) (auto simp: commit_ok_def)
  moreover have "prefix ''COMMIT:'' ?h" "drop 7 ?h = join ''|'' [ci_hash c, ci_shortHash c, ci_author c, ci_date c, ci_subject c]"
    by (simp_all add: print_commit_def)
  ultimately show ?thesis
    using payload_round_trip [OF assms] \<open>?h \<noteq> []\<close> by (simp add: history_line_def)
qed

lemma file_lines:
  "list_all (\<lambda>f. f \<noteq> [] \<and> trim f = f \<and> newline \<notin> set f \<and> \<not> starts_with ''COMMIT:'' f) fs \<Longrightarrow>
   fold history_line fs (c # cs) = c\<lparr>ci_files := ci_files c @ fs\<rparr> # cs"
proof (induction fs arbitrary: c)
  case (Cons f fs)
  then have "history_line f (c # cs) = c\<lparr>ci_files := ci_files c @ [f]\<rparr> # cs"
    by (simp add: history_line_def)
  with Cons show ?case by simp
qed simp

lemma commit_lines:
  assumes "commit_ok c"
  shows "fold history_line (print_commit c) cs = c # cs"
proof -
  have "print_commit c = hd (print_commit c) # ci_files c @ [[]]" by (simp add: print_commit_def)
  then have "fold history_line (print_commit c) cs =
      history_line [] (fold history_line (ci_files c) (history_line (hd (print_commit c)) cs))"
    by (metis fold_Cons fold_append fold_simps(1) o_apply)
  also have "\<dots> = history_line [] (c # cs)"
    using assms by (simp add: header_line file_lines commit_ok_def)
  also have "\<dots> = c # cs" by (simp add: history_line_def trim_def trim_start_def trim_end_def)
  finally show ?thesis .
qed

lemma history_lines:
  "list_all commit_ok cs \<Longrightarrow> fold history_line (concat (map print_commit cs)) acc = rev cs @ acc"
  by (induction cs arbitrary: acc) (simp_all add: commit_lines)

text \<open>
  The history view shows the history: from what git prints for a list of commits in the
  format that \<^verbatim>\<open>getWorkspaceCommitHistory\<close> asks for, the parser gets the same commits with
  the same files back, in order, also when a subject contains the separator; only a
  separator inside an author's name would be misread.
\<close>

theorem history_round_trip:
  assumes "list_all commit_ok cs"
  shows "parse_history (print_history cs) = cs"
proof (cases cs)
  case Nil
  then show ?thesis by (simp add: parse_history_def print_history_def trim_def trim_start_def trim_end_def)
next
  case (Cons c cs')
  let ?lines = "concat (map print_commit cs)"
  have "newline \<notin> set l" if "l \<in> set (print_commit c)" "commit_ok c" for l c
    using that by (auto simp: print_commit_def commit_ok_def plain_field_def newline_def list_all_iff)
  with assms have nonl: "\<forall>l \<in> set ?lines. newline \<notin> set l" by (auto simp: list_all_iff)
  have ne: "?lines \<noteq> []" using Cons by (simp add: print_commit_def)
  have sp: "split_on newline (print_history cs) = ?lines"
    unfolding print_history_def by (rule split_on_join [OF ne nonl])
  have "CHR ''C'' \<in> set (print_history cs)"
    using Cons by (auto simp: print_history_def print_commit_def join_Cons)
  moreover have "\<not> is_space (CHR ''C'')" by code_simp
  ultimately have "trim (print_history cs) \<noteq> []" by (auto simp: trim_Nil_iff)
  then show ?thesis using sp history_lines [OF assms, of "[]"] by (simp add: parse_history_def)
qed

definition sample_commit :: commit_info where
  "sample_commit = \<lparr>ci_hash = ''a1'', ci_shortHash = ''a'', ci_author = ''Ann'', ci_date = ''2024-01-01'',
     ci_subject = ''x | y'', ci_files = [''src/a.xml'']\<rparr>"

theorem history_round_trip_witness: "parse_history (print_history [sample_commit]) = [sample_commit]"
proof (rule history_round_trip)
  show "list_all commit_ok [sample_commit]" by code_simp
qed

section \<open>Where the readers go wrong\<close>

text \<open>Git quotes a path with a space; the quotes stay part of the path.\<close>

lemma quoted_path_kept:
  "map sf_path (parseStatusEntries ('' M '' @ [CHR 0x22] @ ''my file.xml'' @ [CHR 0x22])) =
     [[CHR 0x22] @ ''my file.xml'' @ [CHR 0x22]]"
  by code_simp

text \<open>Only the prefix \<^verbatim>\<open>origin/\<close> is removed, although the remote may have any name.\<close>

lemma other_remote_kept:
  "normalizeBranchList (''main'' @ [newline] @ ''upstream/main'') = [''main'', ''upstream/main'']"
  by code_simp

end
