(* ===== verification/RedisClient.thy ===== *)
theory RedisClient imports AuthSession begin

text \<open>
  \<^verbatim>\<open>backend/src/utils/redisClient.ts\<close>: whether shared state is on, and the three cached
  connections. A promise is named by a number; its state is pending until the attempt to
  connect succeeds or fails. One slot of the cache has three kinds of event: a caller asks
  for the connection, an attempt ends, and the clients are reset. The handler that clears a
  slot runs before the cached promise rejects, so both are one event.
\<close>

definition REDIS_URL :: "env \<Rightarrow> string" where
  "REDIS_URL env = trim (opt_str (env ''PROOFDESK_REDIS_URL''))"

datatype state_backend = RedisBackend | FilesystemBackend

definition getSharedStateBackend :: "env \<Rightarrow> state_backend" where
  "getSharedStateBackend env =
     (if to_lower (trim (str_or (opt_str (env ''PROOFDESK_SHARED_STATE_BACKEND'')) ''filesystem'')) = ''redis''
      then RedisBackend else FilesystemBackend)"

definition isRedisSharedStateEnabled :: "env \<Rightarrow> bool" where
  "isRedisSharedStateEnabled env = (getSharedStateBackend env = RedisBackend \<and> length (REDIS_URL env) > 0)"

definition reconnectStrategy :: "int \<Rightarrow> int" where
  "reconnectStrategy retries = min (1000 * (retries + 1)) 5000"

datatype attempt = Pending | Connected | Failed

record connection_slot =
  slot :: "nat option"
  attempts :: "attempt list"
  closed :: "nat list"

definition cacheConnection :: "connection_slot \<Rightarrow> nat \<times> connection_slot" where
  "cacheConnection st =
     (case slot st of
        Some cached \<Rightarrow> (cached, st)
      | None \<Rightarrow>
          let pending = length (attempts st)
          in (pending, st\<lparr>slot := Some pending, attempts := attempts st @ [Pending]\<rparr>))"

text \<open>The end of an attempt, with the \<^verbatim>\<open>catch\<close> handler of a failed one.\<close>

definition attempt_ends :: "nat \<Rightarrow> bool \<Rightarrow> connection_slot \<Rightarrow> connection_slot" where
  "attempt_ends p connected st =
     (if p < length (attempts st) \<and> attempts st ! p = Pending
      then let st1 = st\<lparr>attempts := (attempts st)[p := if connected then Connected else Failed]\<rparr>
           in if \<not> connected \<and> slot st = Some p then st1\<lparr>slot := None\<rparr> else st1
      else st)"

text \<open>\<^verbatim>\<open>resetRedisClients\<close> for one slot: it is emptied, then its client closed if there is one.\<close>

definition resetRedisClients :: "connection_slot \<Rightarrow> connection_slot" where
  "resetRedisClients st =
     (case slot st of None \<Rightarrow> st | Some p \<Rightarrow> st\<lparr>slot := None, closed := p # closed st\<rparr>)"

inductive slot_run :: "connection_slot \<Rightarrow> bool" where
  slot_start: "slot_run \<lparr>slot = None, attempts = [], closed = []\<rparr>"
| slot_ask: "slot_run st \<Longrightarrow> cacheConnection st = (p, st') \<Longrightarrow> slot_run st'"
| slot_end: "slot_run st \<Longrightarrow> slot_run (attempt_ends p connected st)"
| slot_reset: "slot_run st \<Longrightarrow> slot_run (resetRedisClients st)"

lemma slot_inv:
  "slot_run st \<Longrightarrow> case slot st of None \<Rightarrow> True
     | Some p \<Rightarrow> p < length (attempts st) \<and> attempts st ! p \<noteq> Failed \<and> p \<notin> set (closed st)"
  and closed_inv: "slot_run st \<Longrightarrow> \<forall>p \<in> set (closed st). p < length (attempts st)"
proof (induction rule: slot_run.induct)
  case slot_start
  { case 1 then show ?case by simp }
  { case 2 then show ?case by simp }
next
  case (slot_ask st p st')
  { case 1 with slot_ask show ?case by (auto simp: cacheConnection_def Let_def split: option.splits) }
  { case 2 with slot_ask show ?case
      by (fastforce simp: cacheConnection_def Let_def split: option.splits) }
next
  case (slot_end st p connected)
  { case 1 with slot_end show ?case
      by (auto simp: attempt_ends_def Let_def nth_list_update split: option.splits) }
  { case 2 with slot_end show ?case by (auto simp: attempt_ends_def Let_def) }
next
  case (slot_reset st)
  { case 1 with slot_reset show ?case by (auto simp: resetRedisClients_def split: option.splits) }
  { case 2 with slot_reset show ?case by (auto simp: resetRedisClients_def split: option.splits) }
qed

text \<open>
  A failure to reach Redis is never remembered: at every moment, whatever the order in which
  attempts end and resets happen, a caller gets either the cached promise, which has not
  failed and whose client is not being closed, or a new attempt that every caller shares
  until it ends; and the failure of an older attempt never throws a newer one away.
\<close>

theorem failed_connection_not_cached:
  assumes "slot_run st"
  shows "case cacheConnection st of
     (p, st') \<Rightarrow>
       attempts st' ! p \<noteq> Failed \<and> \<not> p \<in> set (closed st') \<and> fst (cacheConnection st') = p \<and>
       (if q = p then True else slot (attempt_ends q connected st') = Some p)"
proof -
  have "case slot st of None \<Rightarrow> True
     | Some p \<Rightarrow> p < length (attempts st) \<and> attempts st ! p \<noteq> Failed \<and> p \<notin> set (closed st)"
    and "\<forall>p \<in> set (closed st). p < length (attempts st)"
    using slot_inv closed_inv assms by auto
  then show ?thesis
    by (auto simp: cacheConnection_def Let_def attempt_ends_def split: option.splits)
qed

theorem failed_connection_not_cached_witness:
  "case cacheConnection (attempt_ends 0 False (snd (cacheConnection \<lparr>slot = None, attempts = [], closed = []\<rparr>))) of
     (p, st') \<Rightarrow> attempts st' ! p \<noteq> Failed"
proof -
  let ?st = "snd (cacheConnection \<lparr>slot = None, attempts = [], closed = []\<rparr>)"
  have "slot_run (attempt_ends 0 False ?st)"
    by (rule slot_end, rule slot_ask [OF slot_start, of "fst (cacheConnection \<lparr>slot = None, attempts = [], closed = []\<rparr>)"]) simp
  from failed_connection_not_cached [OF this, of 0 False] show ?thesis by (auto split: prod.splits)
qed

end
