(* ===== verification/PreviewHistory.thy ===== *)
theory PreviewHistory imports Prelude begin

text \<open>
  \<^verbatim>\<open>backend/src/services/previewHistoryService.ts\<close>: the last snapshots of a preview. The
  state of a session's history directory is its manifest, \<open>None\<close> when it is missing or not
  JSON, and the files of the snapshots. The identifier and the time of a snapshot are
  arguments.
\<close>

definition MAX_PREVIEW_SNAPSHOTS :: nat where "MAX_PREVIEW_SNAPSHOTS = 12"

text \<open>
  The tags that \<^verbatim>\<open>stripHtml\<close> removes. \<open>strip_element name\<close> replaces \<^verbatim>\<open><name ... </name>\<close>
  (the shortest match) by a space; \<open>strip_tags\<close> does so with \<^verbatim>\<open><...>\<close> of at least one
  character inside.
\<close>

function strip_element :: "string \<Rightarrow> string \<Rightarrow> string" where
  "strip_element name [] = []"
| "strip_element name (c # s) =
     (if starts_with (''<'' @ name) (to_lower (c # s))
         \<and> index_of (''</'' @ name @ ''>'') (to_lower (drop (1 + length name) (c # s))) \<noteq> None
      then CHR '' '' # strip_element name
             (drop (1 + length name + the (index_of (''</'' @ name @ ''>'') (to_lower (drop (1 + length name) (c # s))))
                    + 3 + length name) (c # s))
      else c # strip_element name s)"
  by pat_completeness auto
termination by (relation "measure (length \<circ> snd)") auto

function strip_tags :: "string \<Rightarrow> string" where
  "strip_tags [] = []"
| "strip_tags (c # s) =
     (if c = CHR ''<'' \<and> s \<noteq> [] \<and> hd s \<noteq> CHR ''>'' \<and> CHR ''>'' \<in> set s
      then CHR '' '' # strip_tags (tl (dropWhile (\<lambda>d. d \<noteq> CHR ''>'') s))
      else c # strip_tags s)"
  by pat_completeness auto
termination
proof (relation "measure length")
  fix c :: char and s
  assume "c = CHR ''<'' \<and> s \<noteq> [] \<and> hd s \<noteq> CHR ''>'' \<and> CHR ''>'' \<in> set s"
  have "length (tl (dropWhile (\<lambda>d. d \<noteq> CHR ''>'') s)) \<le> length s"
    using length_dropWhile_le [of "\<lambda>d. d \<noteq> CHR ''>''" s] by simp
  then show "(tl (dropWhile (\<lambda>d. d \<noteq> CHR ''>'') s), c # s) \<in> measure length" by simp
qed auto

fun replace_ci :: "string \<Rightarrow> string \<Rightarrow> nat \<Rightarrow> string \<Rightarrow> string" where
  "replace_ci p r skip [] = []"
| "replace_ci p r (Suc n) (c # s) = replace_ci p r n s"
| "replace_ci p r 0 (c # s) =
     (if p \<noteq> [] \<and> starts_with p (to_lower (c # s)) then r @ replace_ci p r (length p - 1) s
      else c # replace_ci p r 0 s)"

fun squeeze_spaces :: "bool \<Rightarrow> string \<Rightarrow> string" where
  "squeeze_spaces inRun [] = []"
| "squeeze_spaces inRun (c # s) =
     (if is_space c then (if inRun then squeeze_spaces True s else CHR '' '' # squeeze_spaces True s)
      else c # squeeze_spaces False s)"

definition stripHtml :: "string \<Rightarrow> string" where
  "stripHtml html =
     trim (squeeze_spaces False
       (replace_ci ''&gt;'' ''>'' 0 (replace_ci ''&lt;'' ''<'' 0 (replace_ci ''&amp;'' ''&'' 0
         (replace_ci ''&nbsp;'' '' '' 0
           (strip_tags (strip_element ''style'' (strip_element ''script'' html))))))))"

record change_summary =
  changedLines :: nat
  addedLines :: nat
  removedLines :: nat
  change_preview :: string

record snapshot =
  snapshotId :: string
  snap_entryFile :: string
  snap_label :: string
  snap_createdAt :: string
  excerpt :: string
  textLength :: nat
  changeSummary :: change_summary

definition text_lines :: "string \<Rightarrow> string list" where
  "text_lines s = filter (\<lambda>l. l \<noteq> []) (map trim (split_on newline s))"

definition line_at :: "string list \<Rightarrow> nat \<Rightarrow> string option" where
  "line_at ls i = (if i < length ls then Some (ls ! i) else None)"

definition change_step ::
    "string list \<Rightarrow> string list \<Rightarrow> nat \<Rightarrow> change_summary \<Rightarrow> change_summary" where
  "change_step beforeLines afterLines i acc =
     (let previous = line_at beforeLines i; next_line = line_at afterLines i
      in if previous = next_line then acc
         else acc\<lparr>changedLines := changedLines acc + 1,
                  addedLines := addedLines acc + (if next_line = None then 0 else 1),
                  removedLines := removedLines acc + (if previous = None then 0 else 1),
                  change_preview :=
                    (if change_preview acc = []
                     then take 180 (squeeze_spaces False (str_or (opt_str next_line) (opt_str previous)))
                     else change_preview acc)\<rparr>)"

definition summarizeTextChanges :: "string \<Rightarrow> string \<Rightarrow> change_summary" where
  "summarizeTextChanges beforeText afterText =
     (let b = text_lines beforeText; a = text_lines afterText
      in fold (change_step b a) [0..<max (length b) (length a)]
           \<lparr>changedLines = 0, addedLines = 0, removedLines = 0, change_preview = []\<rparr>)"

record history =
  manifest :: "snapshot list option"
  snapshot_files :: "(string, string) jsmap"

definition readManifest :: "history \<Rightarrow> snapshot list" where
  "readManifest h = (case manifest h of None \<Rightarrow> [] | Some snapshots \<Rightarrow> snapshots)"

definition readPreviewSnapshotHtml :: "history \<Rightarrow> string \<Rightarrow> string option" where
  "readPreviewSnapshotHtml h sid = map_get (snapshot_files h) sid"

text \<open>The newest first; the times are ISO strings of one length, compared by code unit.\<close>

fun string_le :: "string \<Rightarrow> string \<Rightarrow> bool" where
  "string_le [] t = True"
| "string_le (c # s) [] = False"
| "string_le (c # s) (d # t) =
     ((of_char c :: nat) < of_char d \<or> c = d \<and> string_le s t)"

fun insert_newest :: "snapshot \<Rightarrow> snapshot list \<Rightarrow> snapshot list" where
  "insert_newest s [] = [s]"
| "insert_newest s (t # ts) =
     (if string_le (snap_createdAt t) (snap_createdAt s) then s # t # ts else t # insert_newest s ts)"

definition listPreviewSnapshots :: "history \<Rightarrow> snapshot list" where
  "listPreviewSnapshots h = foldr insert_newest (readManifest h) []"

definition remove_files :: "string list \<Rightarrow> (string, string) jsmap \<Rightarrow> (string, string) jsmap" where
  "remove_files ids files = fold map_del ids files"

text \<open>The work on a preview page that has been read.\<close>

definition snapshot_page ::
    "string \<Rightarrow> string \<Rightarrow> string \<Rightarrow> string \<Rightarrow> string \<Rightarrow> history \<Rightarrow> snapshot \<times> history" where
  "snapshot_page newId now entry label html h =
     (let plainText = stripHtml html;
          snapshots = readManifest h;
          initial = \<lparr>changedLines = 0, addedLines = 0, removedLines = 0,
                     change_preview = ''Initial preview snapshot''\<rparr>;
          summary = (case snapshots of
                       [] \<Rightarrow> initial
                     | previous # _ \<Rightarrow>
                         if snapshotId previous = [] then initial
                         else case readPreviewSnapshotHtml h (snapshotId previous) of
                             None \<Rightarrow> initial
                           | Some previousHtml \<Rightarrow> summarizeTextChanges (stripHtml previousHtml) plainText);
          nextEntry = \<lparr>snapshotId = newId, snap_entryFile = entry, snap_label = label, snap_createdAt = now,
                       excerpt = take 220 plainText, textLength = length plainText, changeSummary = summary\<rparr>;
          stale = filter (\<lambda>i. i \<noteq> []) (map snapshotId (drop MAX_PREVIEW_SNAPSHOTS snapshots))
      in (nextEntry,
          h\<lparr>manifest := Some (take MAX_PREVIEW_SNAPSHOTS (nextEntry # snapshots)),
            snapshot_files := remove_files stale (map_set newId html (snapshot_files h))\<rparr>))"

text \<open>
  \<open>page\<close> is the content of the preview file; when there is none, reading it throws. The
  result of a call that has nothing to record is \<open>None\<close> (\<^verbatim>\<open>null\<close>).
\<close>

definition recordPreviewSnapshot ::
    "string \<Rightarrow> string \<Rightarrow> string \<Rightarrow> string \<Rightarrow> string \<Rightarrow> string \<Rightarrow> string option \<Rightarrow> history \<Rightarrow>
     (string + snapshot option) \<times> history" where
  "recordPreviewSnapshot sessionId previewPath newId now entry label page h =
     (if sessionId = [] \<or> previewPath = [] \<or> entry = [] then (Inr None, h)
      else case page of
          None \<Rightarrow> (Inl ''ENOENT'', h)
        | Some html \<Rightarrow> (case snapshot_page newId now entry label html h of (nextEntry, h') \<Rightarrow> (Inr (Some nextEntry), h')))"

section \<open>What the history keeps\<close>

text \<open>A snapshot to record: its identifier, time, entry file, label and page.\<close>

type_synonym recording = "string \<times> string \<times> string \<times> string \<times> string"

fun record_all :: "string \<Rightarrow> string \<Rightarrow> recording list \<Rightarrow> history \<Rightarrow> history" where
  "record_all sid path [] h = h"
| "record_all sid path ((newId, now, entry, label, html) # rs) h =
     record_all sid path rs (snd (recordPreviewSnapshot sid path newId now entry label (Some html) h))"

definition recording_id :: "recording \<Rightarrow> string" where "recording_id r = fst r"

definition recording_entry :: "recording \<Rightarrow> string" where "recording_entry r = fst (snd (snd r))"

definition recording_html :: "recording \<Rightarrow> string" where "recording_html r = snd (snd (snd (snd r)))"

lemma remove_files_Nil [simp]: "remove_files [] files = files"
  by (simp add: remove_files_def)

lemma record_short:
  assumes "length (readManifest h) \<le> MAX_PREVIEW_SNAPSHOTS"
  shows "map snapshotId (readManifest (snd (snapshot_page i now entry label html h)))
           = take MAX_PREVIEW_SNAPSHOTS (i # map snapshotId (readManifest h))"
    and "snapshot_files (snd (snapshot_page i now entry label html h)) = map_set i html (snapshot_files h)"
  using assms by (simp_all add: snapshot_page_def Let_def readManifest_def [of "_\<lparr>manifest := _\<rparr>"]
      readManifest_def [of "_\<lparr>manifest := _, snapshot_files := _\<rparr>"] take_map [symmetric])

lemma record_page:
  "sid \<noteq> [] \<Longrightarrow> path \<noteq> [] \<Longrightarrow> entry \<noteq> [] \<Longrightarrow>
   snd (recordPreviewSnapshot sid path i now entry label (Some html) h) = snd (snapshot_page i now entry label html h)"
  by (simp add: recordPreviewSnapshot_def split: prod.split)

lemma record_all_history:
  assumes "sid \<noteq> []" "path \<noteq> []" and "\<forall>r \<in> set rs. recording_entry r \<noteq> []" and "length (readManifest h) \<le> MAX_PREVIEW_SNAPSHOTS"
  shows "map snapshotId (readManifest (record_all sid path rs h))
           = take MAX_PREVIEW_SNAPSHOTS (rev (map recording_id rs) @ map snapshotId (readManifest h))
         \<and> map_of (snapshot_files (record_all sid path rs h)) =
             map_of (snapshot_files h) ++ map_of (rev (map (\<lambda>r. (recording_id r, recording_html r)) rs))"
  using assms
proof (induction rs arbitrary: h)
  case (Cons r rs)
  obtain i now entry label html where r: "r = (i, now, entry, label, html)" by (cases r)
  have entry: "entry \<noteq> []" "\<forall>r \<in> set rs. recording_entry r \<noteq> []"
    using Cons.prems r by (auto simp: recording_entry_def)
  have parts: "recording_id r = i" "recording_html r = html" by (simp_all add: r recording_id_def recording_html_def)
  let ?h = "snd (snapshot_page i now entry label html h)"
  note step = record_short [OF Cons.prems(4), of i now entry label html]
  have "length (readManifest ?h) = length (map snapshotId (readManifest ?h))" by simp
  then have "length (readManifest ?h) \<le> MAX_PREVIEW_SNAPSHOTS" unfolding step(1) by simp
  from Cons.IH [OF Cons.prems(1,2) entry(2) this] step
  have 1: "map snapshotId (readManifest (record_all sid path rs ?h)) =
      take MAX_PREVIEW_SNAPSHOTS (rev (map recording_id rs) @ take MAX_PREVIEW_SNAPSHOTS (i # map snapshotId (readManifest h)))"
    and 2: "map_of (snapshot_files (record_all sid path rs ?h)) =
      (map_of (snapshot_files h))(i \<mapsto> html) ++ map_of (rev (map (\<lambda>r. (recording_id r, recording_html r)) rs))"
    by (simp_all add: update_conv fun_upd_def)
  have "take m (xs @ take m ys) = take m (xs @ ys)" for m and xs ys :: "string list"
    by (simp add: min_def)
  with 1 2 show ?case
    unfolding list.map(2) parts by (simp add: r record_page Cons.prems(1,2) entry(1) map_add_upd_left)
qed simp

text \<open>
  The history lists the last twelve previews, newest first, and each of them can still be
  read as it was recorded: starting from an empty directory and with identifiers that the random
  generator does not repeat, after any recordings the manifest names the last twelve and
  their files hold their pages.
\<close>

theorem history_keeps_last_snapshots:
  assumes "sid \<noteq> []" "path \<noteq> []" and "\<forall>r \<in> set rs. recording_entry r \<noteq> []"
    and "distinct (map recording_id rs)"
  shows "case record_all sid path rs \<lparr>manifest = None, snapshot_files = []\<rparr> of
     h \<Rightarrow> map snapshotId (readManifest h) = take 12 (rev (map recording_id rs)) \<and>
          (\<forall>r \<in> set rs. readPreviewSnapshotHtml h (recording_id r) = Some (recording_html r))"
proof -
  let ?h = "record_all sid path rs \<lparr>manifest = None, snapshot_files = []\<rparr>"
  have h: "map snapshotId (readManifest ?h) = take 12 (rev (map recording_id rs))"
    "map_of (snapshot_files ?h) = map_of (rev (map (\<lambda>r. (recording_id r, recording_html r)) rs))"
    using record_all_history [of sid path rs "\<lparr>manifest = None, snapshot_files = []\<rparr>"] assms(1-3)
    by (simp_all add: readManifest_def MAX_PREVIEW_SNAPSHOTS_def)
  have "distinct (map fst (rev (map (\<lambda>r. (recording_id r, recording_html r)) rs)))"
    using assms(4) by (simp add: rev_map [symmetric] o_def)
  then have "map_of (rev (map (\<lambda>r. (recording_id r, recording_html r)) rs)) (recording_id r) = Some (recording_html r)"
    if "r \<in> set rs" for r
    using that by (intro map_of_is_SomeI) auto
  with h show ?thesis by (simp add: readPreviewSnapshotHtml_def)
qed

theorem history_keeps_last_snapshots_witness:
  "map snapshotId (readManifest (record_all ''s'' ''/tmp/p''
     [(''a'', ''1'', ''x.html'', ''Build'', ''<p>one</p>''), (''b'', ''2'', ''x.html'', ''Build'', ''<p>two</p>'')]
     \<lparr>manifest = None, snapshot_files = []\<rparr>)) = [''b'', ''a'']"
  using history_keeps_last_snapshots
    [of "''s''" "''/tmp/p''" "[(''a'', ''1'', ''x.html'', ''Build'', ''<p>one</p>''), (''b'', ''2'', ''x.html'', ''Build'', ''<p>two</p>'')]"]
  by (simp add: recording_id_def recording_entry_def)

text \<open>
  The other side of the claim: the files of snapshots that leave the manifest are never
  removed, since \<^verbatim>\<open>staleSnapshots\<close> is computed from the manifest before the new entry,
  which has at most twelve entries.
\<close>

lemma dropped_files_stay:
  assumes "sid \<noteq> []" "path \<noteq> []" and "\<forall>r \<in> set rs. recording_entry r \<noteq> []" and "distinct (map recording_id rs)"
  shows "length (snapshot_files (record_all sid path rs \<lparr>manifest = None, snapshot_files = []\<rparr>)) = length rs"
proof -
  have "length (snapshot_files (record_all sid path rs h)) = length (snapshot_files h) + length rs"
    if "length (readManifest h) \<le> MAX_PREVIEW_SNAPSHOTS" "\<forall>r \<in> set rs. recording_entry r \<noteq> []" "distinct (map recording_id rs)"
      "set (map recording_id rs) \<inter> fst ` set (snapshot_files h) = {}" for h rs
    using that
  proof (induction rs arbitrary: h)
    case (Cons r rs)
    obtain i now entry label html where r: "r = (i, now, entry, label, html)" by (cases r)
    have entry: "entry \<noteq> []" "\<forall>r \<in> set rs. recording_entry r \<noteq> []"
      using Cons.prems r by (auto simp: recording_entry_def)
    let ?h = "snd (snapshot_page i now entry label html h)"
    note step = record_short [OF Cons.prems(1), of i now entry label html]
    have "length (readManifest ?h) = length (map snapshotId (readManifest ?h))" by simp
    then have short: "length (readManifest ?h) \<le> MAX_PREVIEW_SNAPSHOTS" unfolding step(1) by simp
    have new: "i \<notin> set (map fst (snapshot_files h))" using Cons.prems(4) r by (auto simp: recording_id_def)
    have keys: "map fst (map_set i html (snapshot_files h)) = map fst (snapshot_files h) @ [i]"
      using new by (simp add: update_keys)
    from arg_cong [OF keys, of length] arg_cong [OF keys, of set]
    have "length (map_set i html (snapshot_files h)) = Suc (length (snapshot_files h))"
      and "fst ` set (map_set i html (snapshot_files h)) = insert i (fst ` set (snapshot_files h))" by simp_all
    with Cons.IH [OF short entry(2)] Cons.prems(3,4) step(2) entry(1) r assms(1,2) show ?case
      by (auto simp: recording_id_def record_page)
  qed simp
  with assms show ?thesis by (simp add: readManifest_def)
qed

end
