(* ===== verification/GithubCache.thy ===== *)
theory GithubCache imports Cookies begin

text \<open>
  \<^verbatim>\<open>backend/src/services/githubCacheStore.ts\<close>: the render cache kept as an asset of a GitHub
  release. Docker, the network, the URL parser, JSON and the file system are parameters that
  act on a world; every request is recorded. An operation returns, throws (its promise is
  rejected), or ends in an exception that no handler sees.
\<close>

definition DOCKER_VOLUME :: string where "DOCKER_VOLUME = ''mra-pretex-cache''"

text \<open>Whether a host may be sent the API token.\<close>

definition isGitHubHost :: "string \<Rightarrow> bool" where
  "isGitHubHost hostname = (hostname = ''github.com'' \<or> ends_with ''.github.com'' hostname)"

record url =
  url_protocol :: string
  url_host :: string
  url_path :: string
  url_search :: string

record http_request =
  rq_method :: string
  rq_secure :: bool
  rq_host :: string
  rq_path :: string
  rq_headers :: "(string \<times> string) list"
  rq_body :: string

text \<open>A request fails with a message, or is answered with a status, a location header and a body.\<close>

datatype http_reply = NoReply string | Reply nat "string option" string

record 'w cache_ops =
  docker :: "string \<Rightarrow> int \<Rightarrow> 'w \<Rightarrow> (string + string) \<times> 'w"
  send_request :: "http_request \<Rightarrow> 'w \<Rightarrow> http_reply \<times> 'w"
  parse_url :: "string \<Rightarrow> url option"
  resolve_url :: "string \<Rightarrow> url \<Rightarrow> string option"
  parse_json :: "string \<Rightarrow> jsval option"
  json_text :: "jsval \<Rightarrow> string"
  stat_size :: "string \<Rightarrow> 'w \<Rightarrow> int option"
  read_file :: "string \<Rightarrow> 'w \<Rightarrow> string option"
  write_file :: "string \<Rightarrow> string \<Rightarrow> 'w \<Rightarrow> (string + unit) \<times> 'w"
  unlink :: "string \<Rightarrow> 'w \<Rightarrow> 'w"

datatype 'a ending = Returns 'a | Throws string | Uncaught string

record 'w cache_state =
  cache_world :: 'w
  cache_requests :: "http_request list"

type_synonym ('w, 'a) cache_m = "'w cache_state \<Rightarrow> 'a ending \<times> 'w cache_state"

definition cache_return :: "'a \<Rightarrow> ('w, 'a) cache_m" where
  "cache_return a = (\<lambda>s. (Returns a, s))"

definition cache_throw :: "string \<Rightarrow> ('w, 'a) cache_m" where
  "cache_throw e = (\<lambda>s. (Throws e, s))"

definition cache_crash :: "string \<Rightarrow> ('w, 'a) cache_m" where
  "cache_crash e = (\<lambda>s. (Uncaught e, s))"

definition bind :: "('w, 'a) cache_m \<Rightarrow> ('a \<Rightarrow> ('w, 'b) cache_m) \<Rightarrow> ('w, 'b) cache_m" where
  "bind m f = (\<lambda>s. case m s of
       (Returns a, s') \<Rightarrow> f a s' | (Throws e, s') \<Rightarrow> (Throws e, s') | (Uncaught e, s') \<Rightarrow> (Uncaught e, s'))"

definition catch_with :: "('w, 'a) cache_m \<Rightarrow> (string \<Rightarrow> ('w, 'a) cache_m) \<Rightarrow> ('w, 'a) cache_m" where
  "catch_with m h = (\<lambda>s. case m s of (Throws e, s') \<Rightarrow> h e s' | r \<Rightarrow> r)"

definition run_docker :: "'w cache_ops \<Rightarrow> string \<Rightarrow> int \<Rightarrow> ('w, string) cache_m" where
  "run_docker ops command timeout = (\<lambda>s. case docker ops command timeout (cache_world s) of
       (Inl e, w) \<Rightarrow> (Throws e, s\<lparr>cache_world := w\<rparr>) | (Inr out, w) \<Rightarrow> (Returns out, s\<lparr>cache_world := w\<rparr>))"

definition exchange :: "'w cache_ops \<Rightarrow> http_request \<Rightarrow> ('w, http_reply) cache_m" where
  "exchange ops r = (\<lambda>s. case send_request ops r (cache_world s) of
       (reply, w) \<Rightarrow> (Returns reply, s\<lparr>cache_world := w, cache_requests := cache_requests s @ [r]\<rparr>))"

definition put_file :: "'w cache_ops \<Rightarrow> string \<Rightarrow> string \<Rightarrow> ('w, unit) cache_m" where
  "put_file ops dest content = (\<lambda>s. case write_file ops dest content (cache_world s) of
       (Inl e, w) \<Rightarrow> (Throws e, s\<lparr>cache_world := w\<rparr>) | (Inr _, w) \<Rightarrow> (Returns (), s\<lparr>cache_world := w\<rparr>))"

definition drop_file :: "'w cache_ops \<Rightarrow> string \<Rightarrow> ('w, unit) cache_m" where
  "drop_file ops p = (\<lambda>s. (Returns (), s\<lparr>cache_world := unlink ops p (cache_world s)\<rparr>))"

definition ask :: "('w \<Rightarrow> 'a option) \<Rightarrow> string \<Rightarrow> ('w, 'a) cache_m" where
  "ask f e = (\<lambda>s. case f (cache_world s) of None \<Rightarrow> (Throws e, s) | Some a \<Rightarrow> (Returns a, s))"

section \<open>GitHub\<close>

record cache_config =
  cc_token :: string
  cc_repo :: string
  cc_enabled :: bool

text \<open>The constructor; an empty variable counts as missing.\<close>

definition cacheStore :: "(string \<Rightarrow> string option) \<Rightarrow> cache_config" where
  "cacheStore env =
     (let token = opt_str (env ''GITHUB_PERSONAL_TOKEN'')
      in \<lparr>cc_token = token,
          cc_repo = str_or (opt_str (env ''PROOFDESK_CACHE_REPO'')) ''harsharajkumar/proofdesk'',
          cc_enabled = (token \<noteq> [])\<rparr>)"

definition cache_tag :: "string \<Rightarrow> string \<Rightarrow> string \<Rightarrow> string" where
  "cache_tag owner repo sha = ''pretex-cache-'' @ owner @ ''-'' @ repo @ ''-'' @ take 8 sha"

definition token_header :: "cache_config \<Rightarrow> string \<times> string" where
  "token_header cfg = (''Authorization'', ''token '' @ cc_token cfg)"

definition user_agent :: "string \<times> string" where
  "user_agent = (''User-Agent'', ''proofdesk-cache/1.0'')"

text \<open>A body that is not JSON is returned as the string it is.\<close>

definition json_or_text :: "'w cache_ops \<Rightarrow> string \<Rightarrow> jsval" where
  "json_or_text ops body = (case parse_json ops body of None \<Rightarrow> JStr body | Some v \<Rightarrow> v)"

definition apiRequest ::
    "'w cache_ops \<Rightarrow> cache_config \<Rightarrow> string \<Rightarrow> string \<Rightarrow> jsval \<Rightarrow> ('w, jsval) cache_m" where
  "apiRequest ops cfg method pathStr body =
     bind (exchange ops
       \<lparr>rq_method = method, rq_secure = True, rq_host = ''api.github.com'', rq_path = pathStr,
        rq_headers = [token_header cfg, user_agent, (''Accept'', ''application/vnd.github.v3+json'')]
          @ (if truthy body then [(''Content-Type'', ''application/json'')] else []),
        rq_body = (if truthy body then json_text ops body else [])\<rparr>) (\<lambda>reply.
     case reply of
       NoReply e \<Rightarrow> cache_throw e
     | Reply status _ data \<Rightarrow>
         if status = 404 then cache_return JNull
         else if 400 \<le> status then cache_throw (''GitHub API '' @ dec_nat status @ '': '' @ data)
         else cache_return (json_or_text ops data))"

text \<open>\<^verbatim>\<open>const [owner, repo] = this.cacheRepo.split('/')\<close> in a template string.\<close>

definition repo_path :: "cache_config \<Rightarrow> string" where
  "repo_path cfg =
     (let parts = split_on (CHR ''/'') (cc_repo cfg)
      in ''/repos/'' @ hd parts @ ''/'' @ (if length parts < 2 then ''undefined'' else parts ! 1))"

definition getRelease :: "'w cache_ops \<Rightarrow> cache_config \<Rightarrow> string \<Rightarrow> ('w, jsval) cache_m" where
  "getRelease ops cfg tag = apiRequest ops cfg ''GET'' (repo_path cfg @ ''/releases/tags/'' @ tag) JNull"

definition createRelease :: "'w cache_ops \<Rightarrow> cache_config \<Rightarrow> string \<Rightarrow> string \<Rightarrow> ('w, jsval) cache_m" where
  "createRelease ops cfg tag body =
     apiRequest ops cfg ''POST'' (repo_path cfg @ ''/releases'')
       (JObj [(''tag_name'', JStr tag), (''name'', JStr tag), (''body'', JStr body),
              (''draft'', JBool False), (''prerelease'', JBool True)])"

text \<open>
  \<^verbatim>\<open>uploadUrl.replace(/\{.*\}/, '')\<close>: the text from the first brace to the last closing one
  on the same line.
\<close>

definition drop_template :: "string \<Rightarrow> string" where
  "drop_template u =
     (let before = takeWhile (\<lambda>c. c \<noteq> CHR ''{'') u;
          rest = dropWhile (\<lambda>c. c \<noteq> CHR ''{'') u;
          line = takeWhile (\<lambda>c. c \<noteq> newline) rest
      in if CHR ''}'' \<in> set line
         then before @ rev (takeWhile (\<lambda>c. c \<noteq> CHR ''}'') (rev line)) @ drop (length line) rest
         else u)"

definition uploadAsset ::
    "'w cache_ops \<Rightarrow> cache_config \<Rightarrow> jsval \<Rightarrow> string \<Rightarrow> string \<Rightarrow> int \<Rightarrow> ('w, jsval) cache_m" where
  "uploadAsset ops cfg uploadUrl filePath name bytes =
     (case uploadUrl of
        JStr u \<Rightarrow>
          (case parse_url ops (drop_template u @ ''?name='' @ encodeURIComponent name) of
             None \<Rightarrow> cache_throw ''Invalid URL''
           | Some target \<Rightarrow>
               bind (ask (read_file ops filePath) ''ENOENT'') (\<lambda>content.
               bind (exchange ops
                 \<lparr>rq_method = ''POST'', rq_secure = True, rq_host = url_host target,
                  rq_path = url_path target @ url_search target,
                  rq_headers = [token_header cfg, user_agent, (''Content-Type'', ''application/gzip''),
                                (''Content-Length'', dec_int bytes)],
                  rq_body = content\<rparr>) (\<lambda>reply.
               case reply of
                 NoReply e \<Rightarrow> cache_throw e
               | Reply status _ data \<Rightarrow>
                   if 400 \<le> status then cache_throw (''Upload failed '' @ dec_nat status @ '': '' @ data)
                   else cache_return (json_or_text ops data))))
      | _ \<Rightarrow> cache_throw ''uploadUrl.replace is not a function'')"

text \<open>
  The download, which follows at most five redirects. The address of a redirect is resolved
  in the callback of the response, outside any handler: when it is malformed, the exception
  reaches nobody.
\<close>

fun follow :: "'w cache_ops \<Rightarrow> cache_config \<Rightarrow> string \<Rightarrow> nat \<Rightarrow> string \<Rightarrow> ('w, unit) cache_m" where
  "follow ops cfg dest 0 u = cache_throw ''Too many redirects''"
| "follow ops cfg dest (Suc redirects) u =
     (case parse_url ops u of
        None \<Rightarrow> cache_throw (''Invalid redirect target: '' @ u)
      | Some target \<Rightarrow>
          bind (exchange ops
            \<lparr>rq_method = ''GET'', rq_secure = (url_protocol target = ''https:''), rq_host = url_host target,
             rq_path = url_path target @ url_search target,
             rq_headers = [user_agent, (''Accept'', ''application/octet-stream'')]
               @ (if isGitHubHost (url_host target) then [token_header cfg] else []),
             rq_body = []\<rparr>) (\<lambda>reply.
          case reply of
            NoReply e \<Rightarrow> cache_throw e
          | Reply status location body \<Rightarrow>
              if 300 \<le> status \<and> status < 400 \<and> opt_str location \<noteq> []
              then (case resolve_url ops (opt_str location) target of
                      None \<Rightarrow> cache_crash ''Invalid URL''
                    | Some next_url \<Rightarrow> follow ops cfg dest redirects next_url)
              else if status \<noteq> 200 then cache_throw (''Download failed: HTTP '' @ dec_nat status)
              else put_file ops dest body))"

definition downloadAsset :: "'w cache_ops \<Rightarrow> cache_config \<Rightarrow> string \<Rightarrow> string \<Rightarrow> ('w, unit) cache_m" where
  "downloadAsset ops cfg assetUrl dest = follow ops cfg dest 5 assetUrl"

section \<open>Restore and save\<close>

definition quote :: "string \<Rightarrow> string" where
  "quote s = [CHR 0x27] @ s @ [CHR 0x27]"

definition in_volume :: "string \<Rightarrow> string" where
  "in_volume script =
     ''docker run --rm -v '' @ DOCKER_VOLUME @ '':/cache alpine sh -c '' @ [CHR 0x22] @ script @ [CHR 0x22]"

definition read_tag_command :: string where
  "read_tag_command = in_volume (''cat /cache/.cache-tag 2>/dev/null || echo '' @ quote [])"

definition clear_command :: string where
  "clear_command = in_volume ''rm -rf /cache/* /cache/.[!.]* 2>/dev/null || true''"

definition write_tag_command :: "string \<Rightarrow> string" where
  "write_tag_command tag = in_volume (''echo '' @ quote tag @ '' > /cache/.cache-tag'')"

definition inject_command :: "string \<Rightarrow> string \<Rightarrow> string" where
  "inject_command tmpFile tag =
     ''docker run --rm -v '' @ DOCKER_VOLUME @ '':/cache -v '' @ [CHR 0x22] @ tmpFile
     @ '':/tmp/cache.tar.gz:ro'' @ [CHR 0x22] @ '' alpine sh -c '' @ [CHR 0x22]
     @ ''tar xzf /tmp/cache.tar.gz -C / 2>/dev/null; echo '' @ quote tag @ '' > /cache/.cache-tag'' @ [CHR 0x22]"

definition pack_command :: "string \<Rightarrow> string \<Rightarrow> string" where
  "pack_command tmpDir base =
     ''docker run --rm -v '' @ DOCKER_VOLUME @ '':/cache -v '' @ [CHR 0x22] @ tmpDir @ '':/out'' @ [CHR 0x22]
     @ '' alpine tar czf '' @ [CHR 0x22] @ ''/out/'' @ base @ [CHR 0x22] @ '' /cache''"

definition cache_file :: "int \<Rightarrow> string" where
  "cache_file now = ''pretex-cache-'' @ dec_int now @ ''.tar.gz''"

text \<open>\<^verbatim>\<open>release.assets?.find((a) => a.name === ...)\<close>; \<^verbatim>\<open>a.name\<close> throws on \<^verbatim>\<open>null\<close>.\<close>

fun find_asset :: "string \<Rightarrow> jsval list \<Rightarrow> string + jsval" where
  "find_asset name [] = Inr JUndef"
| "find_asset name (a # as) =
     (if a \<in> {JNull, JUndef} then Inl ''Cannot read properties''
      else if get_prop a ''name'' = JStr name then Inr a else find_asset name as)"

fun release_asset :: "string \<Rightarrow> jsval \<Rightarrow> string + jsval" where
  "release_asset name (JArr as) = find_asset name as"
| "release_asset name JUndef = Inr JUndef"
| "release_asset name JNull = Inr JUndef"
| "release_asset name _ = Inl ''find is not a function''"

text \<open>
  The first \<^verbatim>\<open>try\<close> of \<open>checkAndRestore\<close>: whether the volume already holds the cache. A
  volume with another tag is cleared.
\<close>

definition volume_ready :: "'w cache_ops \<Rightarrow> string \<Rightarrow> ('w, bool) cache_m" where
  "volume_ready ops tag =
     catch_with
       (bind (run_docker ops read_tag_command 15000) (\<lambda>out.
        let loadedTag = trim out
        in if loadedTag = tag then cache_return True
           else if loadedTag \<noteq> []
           then catch_with (bind (run_docker ops clear_command 30000) (\<lambda>_. cache_return False))
                  (\<lambda>_. cache_return False)
           else cache_return False))
       (\<lambda>_. cache_return False)"

definition restore_release ::
    "'w cache_ops \<Rightarrow> cache_config \<Rightarrow> string \<Rightarrow> string \<Rightarrow> ('w, bool) cache_m" where
  "restore_release ops cfg tag tmpFile =
     bind (getRelease ops cfg tag) (\<lambda>release.
     if \<not> truthy release then cache_return False
     else case release_asset ''pretex-cache.tar.gz'' (get_prop release ''assets'') of
         Inl e \<Rightarrow> cache_throw e
       | Inr asset \<Rightarrow>
           if \<not> truthy asset then cache_return False
           else bind (downloadAsset ops cfg (js_String (get_prop asset ''url'')) tmpFile) (\<lambda>_.
                bind (run_docker ops (inject_command tmpFile tag) 300000) (\<lambda>_.
                bind (drop_file ops tmpFile) (\<lambda>_. cache_return True))))"

definition checkAndRestore ::
    "'w cache_ops \<Rightarrow> cache_config \<Rightarrow> string \<Rightarrow> int \<Rightarrow> string \<Rightarrow> string \<Rightarrow> string \<Rightarrow> ('w, bool) cache_m" where
  "checkAndRestore ops cfg dataRoot now owner repo sha =
     (if \<not> cc_enabled cfg \<or> sha = [] then cache_return False
      else let tag = cache_tag owner repo sha
           in bind (volume_ready ops tag) (\<lambda>ready.
              if ready then cache_return True
              else catch_with (restore_release ops cfg tag (dataRoot @ ''/'' @ cache_file now))
                     (\<lambda>_. cache_return False)))"

text \<open>The dash of the text, beyond the range of the model, stands as its bytes in UTF-8.\<close>

definition release_text :: "string \<Rightarrow> string \<Rightarrow> string \<Rightarrow> string" where
  "release_text owner repo sha =
     ''Pretex equation cache for '' @ owner @ ''/'' @ repo @ '' @ '' @ take 8 sha @ [newline, newline]
     @ ''Auto-generated by Proofdesk '' @ [CHR 0xE2, CHR 0x80, CHR 0x94] @ '' do not edit.''"

text \<open>The \<^verbatim>\<open>try\<close> of \<^verbatim>\<open>save\<close>; the end of the temporary file is the \<^verbatim>\<open>finally\<close> block.\<close>

definition upload_cache ::
    "'w cache_ops \<Rightarrow> cache_config \<Rightarrow> string \<Rightarrow> int \<Rightarrow> string \<Rightarrow> string \<Rightarrow> string \<Rightarrow> ('w, unit) cache_m" where
  "upload_cache ops cfg dataRoot now owner repo sha =
     (let tag = cache_tag owner repo sha; tmpFile = dataRoot @ ''/'' @ cache_file now
      in bind (run_docker ops (pack_command dataRoot (cache_file now)) 300000) (\<lambda>_.
         bind (ask (stat_size ops tmpFile) ''ENOENT'') (\<lambda>bytes.
         bind (createRelease ops cfg tag (release_text owner repo sha)) (\<lambda>release.
         if \<not> truthy release then cache_throw ''Failed to create GitHub release''
         else bind (uploadAsset ops cfg (get_prop release ''upload_url'') tmpFile ''pretex-cache.tar.gz'' bytes) (\<lambda>_.
              catch_with (bind (run_docker ops (write_tag_command tag) 15000) (\<lambda>_. cache_return ()))
                (\<lambda>_. cache_return ()))))))"

definition save_cache ::
    "'w cache_ops \<Rightarrow> cache_config \<Rightarrow> string \<Rightarrow> int \<Rightarrow> string \<Rightarrow> string \<Rightarrow> string \<Rightarrow> ('w, unit) cache_m" where
  "save_cache ops cfg dataRoot now owner repo sha =
     (if \<not> cc_enabled cfg \<or> sha = [] then cache_return ()
      else bind (catch_with (getRelease ops cfg (cache_tag owner repo sha)) (\<lambda>_. cache_return JNull)) (\<lambda>existing.
           if truthy existing then cache_return ()
           else bind (catch_with (upload_cache ops cfg dataRoot now owner repo sha) (\<lambda>_. cache_return ())) (\<lambda>_.
                drop_file ops (dataRoot @ ''/'' @ cache_file now))))"

section \<open>Who sees the token\<close>

text \<open>The names of a host that ends in \<^verbatim>\<open>github.com\<close>, label by label.\<close>

definition github_name :: "string \<Rightarrow> bool" where
  "github_name h = suffix [''github'', ''com''] (split_on (CHR ''.'') h)"

lemma isGitHubHost_name:
  assumes "isGitHubHost h"
  shows "github_name h"
proof (cases "h = ''github.com''")
  case True
  then show ?thesis by (simp add: github_name_def)
next
  case False
  then obtain p where "h = p @ CHR ''.'' # ''github.com''"
    using assms by (auto simp: isGitHubHost_def suffix_def)
  then show ?thesis by (simp add: github_name_def split_on_append suffix_def)
qed

text \<open>At most \<open>n\<close> requests, all of which satisfy \<open>P\<close>.\<close>

definition requests :: "(http_request \<Rightarrow> bool) \<Rightarrow> nat \<Rightarrow> ('w, 'a) cache_m \<Rightarrow> bool" where
  "requests P n m = (\<forall>s. \<exists>new. cache_requests (snd (m s)) = cache_requests s @ new
     \<and> length new \<le> n \<and> list_all P new)"

named_theorems requests_rules \<open>introduction rules for the requests of an operation\<close>

lemma requests_silent [requests_rules]:
  "requests P n (cache_return a)" "requests P n (cache_throw e)" "requests P n (cache_crash e)"
  "requests P n (run_docker ops c t)" "requests P n (put_file ops f d)"
  "requests P n (drop_file ops f)" "requests P n (ask g e)"
  by (auto simp: requests_def cache_return_def cache_throw_def cache_crash_def run_docker_def put_file_def
      drop_file_def ask_def split: prod.splits sum.splits option.splits)

lemma requests_exchange [requests_rules]: "P r \<Longrightarrow> 1 \<le> n \<Longrightarrow> requests P n (exchange ops r)"
  by (simp add: requests_def exchange_def split: prod.splits)

lemma requests_bind:
  assumes "requests P k m" and "\<And>a. requests P n (f a)"
  shows "requests P (k + n) (bind m f)"
  unfolding requests_def
proof
  fix s
  obtain r s1 where m: "m s = (r, s1)" by (cases "m s")
  obtain new1 where 1: "cache_requests s1 = cache_requests s @ new1" "length new1 \<le> k" "list_all P new1"
    using assms(1) m unfolding requests_def by (metis snd_conv)
  show "\<exists>new. cache_requests (snd (bind m f s)) = cache_requests s @ new \<and> length new \<le> k + n \<and> list_all P new"
  proof (cases r)
    case (Returns a)
    obtain new2 where "cache_requests (snd (f a s1)) = cache_requests s1 @ new2" "length new2 \<le> n" "list_all P new2"
      using assms(2) unfolding requests_def by blast
    with 1 m Returns show ?thesis by (intro exI [of _ "new1 @ new2"]) (simp add: bind_def)
  qed (use 1 m in \<open>auto simp: bind_def\<close>)
qed

lemma requests_catch:
  assumes "requests P k m" and "\<And>e. requests P 0 (h e)"
  shows "requests P k (catch_with m h)"
  unfolding requests_def
proof
  fix s
  obtain r s1 where m: "m s = (r, s1)" by (cases "m s")
  obtain new1 where 1: "cache_requests s1 = cache_requests s @ new1" "length new1 \<le> k" "list_all P new1"
    using assms(1) m unfolding requests_def by (metis snd_conv)
  have 2: "cache_requests (snd (h e s1)) = cache_requests s1" for e
    using assms(2) [of e] unfolding requests_def by (metis append_Nil2 le_zero_eq length_0_conv)
  show "\<exists>new. cache_requests (snd (catch_with m h s)) = cache_requests s @ new \<and> length new \<le> k \<and> list_all P new"
    using 1 2 m by (cases r) (auto simp: catch_with_def)
qed

lemma requests_if [requests_rules]: "requests P n a \<Longrightarrow> requests P n b \<Longrightarrow> requests P n (if c then a else b)"
  by simp

text \<open>A request is cautious when it shows the token to GitHub only.\<close>

definition cautious :: "http_request \<Rightarrow> bool" where
  "cautious r = (''Authorization'' \<in> fst ` set (rq_headers r) \<longrightarrow> github_name (rq_host r))"

lemma requests_api: "requests cautious 1 (apiRequest ops cfg method p body)"
proof -
  have "github_name ''api.github.com''" by (rule isGitHubHost_name) (simp add: isGitHubHost_def suffix_def)
  then have "requests cautious (1 + 0) (apiRequest ops cfg method p body)"
    unfolding apiRequest_def
    by (intro requests_bind requests_exchange) (auto simp: cautious_def intro: requests_rules split: http_reply.split)
  then show ?thesis by simp
qed

lemma requests_follow: "requests cautious n (follow ops cfg dest n u)"
proof (induction n arbitrary: u)
  case 0
  show ?case by (simp add: requests_rules)
next
  case (Suc n)
  show ?case
  proof (cases "parse_url ops u")
    case None
    then show ?thesis by (simp add: requests_rules)
  next
    case (Some target)
    have "requests cautious (1 + n) (follow ops cfg dest (Suc n) u)"
      unfolding follow.simps Some option.case
      by (intro requests_bind requests_exchange)
        (auto simp: cautious_def user_agent_def token_header_def isGitHubHost_name Suc.IH
          intro!: requests_rules split: http_reply.split option.split)
    then show ?thesis by simp
  qed
qed

lemma requests_ready: "requests cautious 0 (volume_ready ops tag)"
proof -
  have clear: "requests cautious (0 + 0) (bind (run_docker ops clear_command 30000) (\<lambda>_. cache_return False))"
    by (intro requests_bind requests_rules)
  have "requests cautious (0 + 0) (bind (run_docker ops read_tag_command 15000) (\<lambda>out.
      let loadedTag = trim out
      in if loadedTag = tag then cache_return True
         else if loadedTag \<noteq> []
         then catch_with (bind (run_docker ops clear_command 30000) (\<lambda>_. cache_return False))
                (\<lambda>_. cache_return False)
         else cache_return False))"
    unfolding Let_def using clear by (intro requests_bind requests_catch requests_rules) simp_all
  then show ?thesis unfolding volume_ready_def by (intro requests_catch requests_rules) simp
qed

lemma requests_release: "requests cautious 6 (restore_release ops cfg tag tmpFile)"
proof -
  have inject: "requests cautious (0 + (0 + 0)) (bind (run_docker ops (inject_command tmpFile tag) 300000) (\<lambda>_.
      bind (drop_file ops tmpFile) (\<lambda>_. cache_return True)))"
    by (intro requests_bind requests_rules)
  have "requests cautious (5 + 0) (bind (downloadAsset ops cfg u tmpFile) (\<lambda>_.
      bind (run_docker ops (inject_command tmpFile tag) 300000) (\<lambda>_.
      bind (drop_file ops tmpFile) (\<lambda>_. cache_return True))))" for u
    unfolding downloadAsset_def using inject by (intro requests_bind requests_follow) simp
  then have "requests cautious (1 + 5) (restore_release ops cfg tag tmpFile)"
    unfolding restore_release_def getRelease_def
    by (intro requests_bind requests_api) (auto intro!: requests_rules split: sum.split)
  then show ?thesis by simp
qed

text \<open>
  Claim C19. Restoring the cache shows the API token to GitHub only: whatever docker, the network and
  the URL parser answer, redirects included, a restore sends at most six requests, and each
  request that carries an authorization header goes to a host whose last two labels are
  \<^verbatim>\<open>github\<close> and \<^verbatim>\<open>com\<close>, never to a lookalike domain or to the storage behind a redirect.
\<close>

theorem token_only_to_github:
  fixes s :: "'w cache_state"
  assumes "cache_requests s = []"
  shows "length (cache_requests (snd (checkAndRestore ops cfg dataRoot now owner repo sha s))) \<le> 6 \<and>
    (\<forall>r \<in> set (cache_requests (snd (checkAndRestore ops cfg dataRoot now owner repo sha s))).
       ''Authorization'' \<in> fst ` set (rq_headers r) \<longrightarrow> suffix [''github'', ''com''] (split_on (CHR ''.'') (rq_host r)))"
proof -
  have "requests cautious (0 + 6) (bind (volume_ready ops tag) (\<lambda>ready.
      if ready then cache_return True else catch_with (restore_release ops cfg tag f) (\<lambda>_. cache_return False)))"
    for tag f by (intro requests_bind requests_ready requests_catch requests_release requests_rules)
  then have "requests cautious 6 (checkAndRestore ops cfg dataRoot now owner repo sha)"
    unfolding checkAndRestore_def Let_def by (simp add: requests_rules)
  with assms show ?thesis
    unfolding requests_def cautious_def github_name_def list_all_iff by (metis append_Nil)
qed

text \<open>
  A network in which the release exists and its asset redirects to a lookalike of GitHub.
\<close>

definition sample_ops :: "string option \<Rightarrow> unit cache_ops" where
  "sample_ops redirect = \<lparr>docker = (\<lambda>c t w. (Inl ''no docker'', w)),
     send_request = (\<lambda>r w.
       (if rq_path r = ''/asset'' then Reply 302 (Some ''https://evilgithub.com/x'') []
        else if rq_path r = ''/x'' then Reply 200 None ''data'' else Reply 200 None ''release'', w)),
     parse_url = (\<lambda>u. Some (if u = ''https://api.github.com/asset''
       then \<lparr>url_protocol = ''https:'', url_host = ''api.github.com'', url_path = ''/asset'', url_search = []\<rparr>
       else \<lparr>url_protocol = ''https:'', url_host = ''evilgithub.com'', url_path = ''/x'', url_search = []\<rparr>)),
     resolve_url = (\<lambda>l u. redirect),
     parse_json = (\<lambda>b. Some (JObj [(''assets'', JArr [JObj
       [(''name'', JStr ''pretex-cache.tar.gz''), (''url'', JStr ''https://api.github.com/asset'')]])])),
     json_text = (\<lambda>v. []), stat_size = (\<lambda>f w. None), read_file = (\<lambda>f w. None),
     write_file = (\<lambda>f d w. (Inr (), w)), unlink = (\<lambda>f w. w)\<rparr>"

definition sample_restore :: "string option \<Rightarrow> bool ending \<times> unit cache_state" where
  "sample_restore redirect =
     checkAndRestore (sample_ops redirect) \<lparr>cc_token = ''t'', cc_repo = ''o/r'', cc_enabled = True\<rparr> ''/data'' 0
       ''o'' ''r'' ''0123456789'' \<lparr>cache_world = (), cache_requests = []\<rparr>"

lemmas sample_eval = sample_restore_def sample_ops_def checkAndRestore_def bind_def catch_with_def volume_ready_def
  run_docker_def restore_release_def getRelease_def apiRequest_def exchange_def cache_return_def cache_throw_def
  cache_crash_def put_file_def drop_file_def downloadAsset_def json_or_text_def Let_def numeral_nat isGitHubHost_def
  suffix_def token_header_def user_agent_def

lemma sample_hosts:
  "map (\<lambda>r. (rq_host r, rq_secure r, ''Authorization'' \<in> fst ` set (rq_headers r)))
     (cache_requests (snd (sample_restore (Some ''https://evilgithub.com/x'')))) =
   [(''api.github.com'', True, True), (''api.github.com'', True, True), (''evilgithub.com'', True, False)]"
  by (simp add: sample_eval)

theorem token_only_to_github_witness:
  "list_all (\<lambda>r. suffix [''github'', ''com''] (split_on (CHR ''.'') (rq_host r)))
     (filter (\<lambda>r. ''Authorization'' \<in> fst ` set (rq_headers r))
       (cache_requests (snd (sample_restore (Some ''https://evilgithub.com/x'')))))"
  using token_only_to_github
    [of "\<lparr>cache_world = (), cache_requests = []\<rparr>" "sample_ops (Some ''https://evilgithub.com/x'')"
      "\<lparr>cc_token = ''t'', cc_repo = ''o/r'', cc_enabled = True\<rparr>" "''/data''" 0 "''o''" "''r''" "''0123456789''"]
  unfolding sample_restore_def by (simp add: list_all_iff)

section \<open>A restore that fails is only a slower build\<close>

definition settles :: "('w, 'a) cache_m \<Rightarrow> bool" where
  "settles m = (\<forall>s e. fst (m s) \<noteq> Uncaught e)"

lemma settles_basic:
  "settles (cache_return a)" "settles (cache_throw e)" "settles (run_docker ops c t)" "settles (put_file ops f d)"
  "settles (drop_file ops f)" "settles (ask g e)" "settles (exchange ops r)"
  by (auto simp: settles_def cache_return_def cache_throw_def run_docker_def put_file_def exchange_def
      drop_file_def ask_def split: prod.splits sum.splits option.splits)

lemma settles_bind:
  assumes "settles m" and "\<And>a. settles (f a)"
  shows "settles (bind m f)"
  unfolding settles_def
proof (intro allI)
  fix s e
  have "fst (m s) \<noteq> Uncaught e'" "fst (f a t) \<noteq> Uncaught e'" for a t e'
    using assms unfolding settles_def by blast+
  then show "fst (bind m f s) \<noteq> Uncaught e"
    by (cases "m s"; cases "fst (m s)") (auto simp: bind_def split: ending.split)
qed

lemma settles_catch:
  assumes "settles m" and "\<And>e. settles (h e)"
  shows "settles (catch_with m h)"
  unfolding settles_def
proof (intro allI)
  fix s e
  have "fst (m s) \<noteq> Uncaught e'" "fst (h a t) \<noteq> Uncaught e'" for a t e'
    using assms unfolding settles_def by blast+
  then show "fst (catch_with m h s) \<noteq> Uncaught e"
    by (cases "m s"; cases "fst (m s)") (auto simp: catch_with_def split: ending.split)
qed

lemmas settles_rules = settles_basic settles_bind settles_catch

lemma settles_follow:
  assumes "\<And>l t. resolve_url ops l t \<noteq> None"
  shows "settles (follow ops cfg dest n u)"
  by (induction n arbitrary: u)
    (auto simp: assms intro!: settles_rules split: option.split http_reply.split)

lemma settles_restore:
  assumes "\<And>l t. resolve_url ops l t \<noteq> None"
  shows "settles (checkAndRestore ops cfg dataRoot now owner repo sha)"
  using settles_follow [of ops, OF assms]
  by (auto simp: checkAndRestore_def volume_ready_def restore_release_def getRelease_def apiRequest_def
      downloadAsset_def Let_def intro!: settles_rules split: sum.split http_reply.split)

text \<open>
  Without that assumption it is not: a redirect to a malformed address ends in an exception
  outside the handlers of \<^verbatim>\<open>checkAndRestore\<close>.
\<close>

lemma malformed_redirect_uncaught: "fst (sample_restore None) = Uncaught ''Invalid URL''"
  by (simp add: sample_eval)

end
