(* ===== verification/TeamSessions.thy ===== *)
theory TeamSessions imports AccessControl begin

text \<open>
  \<^verbatim>\<open>backend/src/services/teamSessions.ts\<close> and \<^verbatim>\<open>controllers/team.controller.ts\<close>: invite
  codes for team rooms. The store keeps its sessions in a map that it merges with a file
  other server processes may write too, or in Redis. Redis is a parameter, with the three
  commands the store uses; \<open>None\<close> means that shared state is off. The codes that the random
  generator yields are a list; when it runs out, the search for a free code has not ended.
\<close>

definition TEAM_SESSION_RETENTION_MS :: int where "TEAM_SESSION_RETENTION_MS = 12 * 60 * 60 * 1000"

definition TEAM_SESSION_RETENTION_SECONDS :: int where
  "TEAM_SESSION_RETENTION_SECONDS = TEAM_SESSION_RETENTION_MS div 1000"

definition TEAM_SESSION_CODE_ALPHABET :: string where
  "TEAM_SESSION_CODE_ALPHABET = ''ABCDEFGHJKLMNPQRSTUVWXYZ23456789''"

record team_repo =
  repo_owner :: jsval
  repo_name :: jsval
  repo_fullName :: jsval
  repo_defaultBranch :: jsval

record team_session =
  team_code :: string
  team_repo :: team_repo
  hostName :: jsval
  hostLogin :: jsval
  team_createdAt :: int
  team_updatedAt :: int

text \<open>
  \<^verbatim>\<open>toUpperCase\<close> on one code unit. Two of them have a capital letter beyond the range of
  the model (U+00B5 and U+00FF) and stay as they are; the filter that follows drops them
  either way.
\<close>

definition upper_char :: "char \<Rightarrow> string" where
  "upper_char c = (let n = (of_char c :: nat) in
     if n = 223 then ''SS''
     else if (97 \<le> n \<and> n \<le> 122) \<or> (224 \<le> n \<and> n \<le> 254 \<and> n \<noteq> 247) then [char_of (n - 32)] else [c])"

definition to_upper :: "string \<Rightarrow> string" where
  "to_upper s = concat (map upper_char s)"

definition code_char :: "char \<Rightarrow> bool" where
  "code_char c = (is_upper_az c \<or> is_digit c)"

definition normalizeTeamSessionCode :: "jsval \<Rightarrow> string" where
  "normalizeTeamSessionCode v = filter code_char (to_upper (string_or_empty v))"

definition nonempty_string :: "jsval \<Rightarrow> bool" where
  "nonempty_string v = (is_str v \<and> v \<noteq> JStr [])"

definition isValidTeamRepo :: "jsval \<Rightarrow> bool" where
  "isValidTeamRepo repo =
     (truthy repo \<and> nonempty_string (get_prop repo ''owner'') \<and> nonempty_string (get_prop repo ''name'')
      \<and> nonempty_string (get_prop repo ''fullName''))"

text \<open>The code that six draws of \<^verbatim>\<open>randomInt\<close> give.\<close>

definition generateTeamSessionCode :: "nat list \<Rightarrow> string" where
  "generateTeamSessionCode picks = map (\<lambda>i. TEAM_SESSION_CODE_ALPHABET ! i) picks"

section \<open>The store\<close>

record 'r team_redis =
  redis_exists :: "string \<Rightarrow> 'r \<Rightarrow> bool"
  redis_get :: "string \<Rightarrow> 'r \<Rightarrow> team_session option"
  redis_set :: "string \<Rightarrow> team_session \<Rightarrow> int \<Rightarrow> 'r \<Rightarrow> 'r"

text \<open>
  The file with the time of its last change; its content is \<open>None\<close> when it is not JSON.
\<close>

record 'r team_store =
  team_sessions :: "(string, team_session) jsmap"
  team_persistScheduled :: bool
  lastLoadedMtimeMs :: int
  team_file :: "(int \<times> team_session list option) option"
  redis_state :: 'r

definition redisKey :: "string \<Rightarrow> string" where
  "redisKey code = ''proofdesk:team-session:'' @ code"

definition touchedAt :: "team_session \<Rightarrow> int" where
  "touchedAt s = int_or (team_updatedAt s) (team_createdAt s)"

definition stored_sessions :: "int \<Rightarrow> team_session list \<Rightarrow> (string, team_session) jsmap" where
  "stored_sessions cutoff entries =
     fold (\<lambda>s m. if team_code s = [] \<or> touchedAt s < cutoff then m else map_set (team_code s) s m) entries []"

definition merge_local ::
    "int \<Rightarrow> string \<times> team_session \<Rightarrow> (string, team_session) jsmap \<Rightarrow> (string, team_session) jsmap" where
  "merge_local cutoff kv m =
     (case kv of (code, loc) \<Rightarrow>
        if touchedAt loc < cutoff then m
        else case map_get m code of
            None \<Rightarrow> map_set code loc m
          | Some stored \<Rightarrow> if touchedAt loc > touchedAt stored then map_set code loc m else m)"

definition team_load :: "bool \<Rightarrow> bool \<Rightarrow> int \<Rightarrow> 'r team_store \<Rightarrow> 'r team_store" where
  "team_load shared force now st =
     (if shared then st
      else case team_file st of
          None \<Rightarrow> st
        | Some (mtime, content) \<Rightarrow>
            if \<not> force \<and> mtime \<le> lastLoadedMtimeMs st then st
            else (case content of
                None \<Rightarrow> st
              | Some entries \<Rightarrow>
                  let cutoff = now - TEAM_SESSION_RETENTION_MS
                  in st\<lparr>team_sessions := fold (merge_local cutoff) (team_sessions st) (stored_sessions cutoff entries),
                        lastLoadedMtimeMs := mtime\<rparr>))"

definition team_schedulePersist :: "bool \<Rightarrow> 'r team_store \<Rightarrow> 'r team_store" where
  "team_schedulePersist shared st = (if shared then st else st\<lparr>team_persistScheduled := True\<rparr>)"

text \<open>The microtask: the file gets the sessions and the time of the write.\<close>

definition team_run_persist :: "int \<Rightarrow> 'r team_store \<Rightarrow> 'r team_store" where
  "team_run_persist mtime st =
     (if team_persistScheduled st
      then st\<lparr>team_persistScheduled := False,
              team_file := Some (mtime, Some (map snd (team_sessions st))), lastLoadedMtimeMs := mtime\<rparr>
      else st)"

fun first_free :: "(string \<Rightarrow> bool) \<Rightarrow> string list \<Rightarrow> string option" where
  "first_free taken [] = None"
| "first_free taken (code # codes) = (if taken code then first_free taken codes else Some code)"

definition new_session :: "int \<Rightarrow> string \<Rightarrow> jsval \<Rightarrow> jsval \<Rightarrow> team_session" where
  "new_session now code repo createdBy =
     \<lparr>team_code = code,
      team_repo = \<lparr>repo_owner = get_prop repo ''owner'', repo_name = get_prop repo ''name'',
                   repo_fullName = get_prop repo ''fullName'',
                   repo_defaultBranch = js_or (get_prop repo ''defaultBranch'') (JStr ''main'')\<rparr>,
      hostName = js_or (get_prop createdBy ''name'') (js_or (get_prop createdBy ''login'') (JStr ''Host'')),
      hostLogin = js_or (get_prop createdBy ''login'') (JStr []),
      team_createdAt = now, team_updatedAt = now\<rparr>"

definition team_createSession ::
    "'r team_redis option \<Rightarrow> int \<Rightarrow> string list \<Rightarrow> jsval \<Rightarrow> jsval \<Rightarrow> 'r team_store \<Rightarrow>
     (team_session \<times> 'r team_store) option" where
  "team_createSession redis now codes repo createdBy st =
     (case redis of
        Some client \<Rightarrow>
          map_option (\<lambda>code.
              let session = new_session now code repo createdBy
              in (session, st\<lparr>redis_state :=
                    redis_set client (redisKey code) session TEAM_SESSION_RETENTION_SECONDS (redis_state st)\<rparr>))
            (first_free (\<lambda>code. redis_exists client (redisKey code) (redis_state st)) codes)
      | None \<Rightarrow>
          let st1 = team_load False True now st
          in map_option (\<lambda>code.
                let session = new_session now code repo createdBy
                in (session, team_schedulePersist False
                      (st1\<lparr>team_sessions := map_set code session (team_sessions st1)\<rparr>)))
              (first_free (map_has (team_sessions st1)) codes))"

definition team_getSession ::
    "'r team_redis option \<Rightarrow> int \<Rightarrow> string \<Rightarrow> 'r team_store \<Rightarrow> team_session option \<times> 'r team_store" where
  "team_getSession redis now code st =
     (case redis of
        Some client \<Rightarrow>
          (case redis_get client (redisKey code) (redis_state st) of
             None \<Rightarrow> (None, st)
           | Some s \<Rightarrow>
               let session = s\<lparr>team_updatedAt := now\<rparr>
               in (Some session, st\<lparr>redis_state :=
                     redis_set client (redisKey code) session TEAM_SESSION_RETENTION_SECONDS (redis_state st)\<rparr>))
      | None \<Rightarrow>
          let st1 = team_load False True now st
          in case map_get (team_sessions st1) code of
               None \<Rightarrow> (None, st1)
             | Some s \<Rightarrow>
                 let session = s\<lparr>team_updatedAt := now\<rparr>
                 in (Some session, team_schedulePersist False
                       (st1\<lparr>team_sessions := map_set code session (team_sessions st1)\<rparr>)))"

definition team_cleanup :: "bool \<Rightarrow> int \<Rightarrow> 'r team_store \<Rightarrow> 'r team_store" where
  "team_cleanup shared now st =
     (if shared then st
      else let kept = filter (\<lambda>(code, s). \<not> touchedAt s < now - TEAM_SESSION_RETENTION_MS) (team_sessions st)
           in if length kept < length (team_sessions st)
              then team_schedulePersist shared (st\<lparr>team_sessions := kept\<rparr>) else st)"

section \<open>The controller\<close>

datatype 'a answer = Ok 'a | Fail nat string

definition createTeamSession ::
    "'r team_redis option \<Rightarrow> int \<Rightarrow> string list \<Rightarrow> jsval \<Rightarrow> request \<Rightarrow> 'r team_store \<Rightarrow>
     (team_session answer \<times> 'r team_store) option" where
  "createTeamSession redis now codes body req st =
     (let repo = get_prop body ''repo'';
          sessionUser = (case req_authSession req of None \<Rightarrow> JUndef | Some s \<Rightarrow> session_user s);
          login = get_prop sessionUser ''login''
      in if \<not> isValidTeamRepo repo
         then Some (Fail 400 ''Valid repo object with owner, name, and fullName is required'', st)
         else if \<not> truthy login
         then Some (Fail 403 ''An authenticated user session is required to host a team session'', st)
         else map_option (\<lambda>(session, st'). (Ok session, st'))
                (team_createSession redis now codes repo
                   (JObj [(''login'', login), (''name'', js_or (get_prop sessionUser ''name'') login)]) st))"

definition getTeamSession ::
    "'r team_redis option \<Rightarrow> int \<Rightarrow> string \<Rightarrow> 'r team_store \<Rightarrow> team_session answer \<times> 'r team_store" where
  "getTeamSession redis now param st =
     (let code = normalizeTeamSessionCode (JStr param)
      in if code = [] \<or> length code < 4 then (Fail 400 ''Invalid team session code'', st)
         else case team_getSession redis now code st of
             (None, st') \<Rightarrow> (Fail 404 ''Team session not found or expired'', st')
           | (Some session, st') \<Rightarrow> (Ok session, st'))"

section \<open>A merge keeps the newest live copy\<close>

definition newer :: "team_session option \<Rightarrow> team_session option \<Rightarrow> team_session option" where
  "newer loc stored =
     (case (loc, stored) of
        (None, s) \<Rightarrow> s
      | (Some l, None) \<Rightarrow> Some l
      | (Some l, Some s) \<Rightarrow> if touchedAt l > touchedAt s then Some l else Some s)"

definition live_at :: "int \<Rightarrow> team_session option \<Rightarrow> team_session option" where
  "live_at cutoff s = (case s of Some x \<Rightarrow> if touchedAt x < cutoff then None else Some x | None \<Rightarrow> None)"

lemma merge_local_get:
  "map_get (merge_local cutoff (c, l) m) k =
     (if k = c then newer (live_at cutoff (Some l)) (map_get m k) else map_get m k)"
  by (simp add: merge_local_def newer_def live_at_def split: option.split)

lemma merge_fold_get:
  "keys_distinct ls \<Longrightarrow>
   map_get (fold (merge_local cutoff) ls m) k = newer (live_at cutoff (map_get ls k)) (map_get m k)"
proof (induction ls arbitrary: m)
  case Nil
  then show ?case by (simp add: newer_def live_at_def split: option.split)
next
  case (Cons p ls)
  obtain c l where p: "p = (c, l)" by (cases p)
  with Cons.prems have "map_get ls c = None" by (simp add: map_of_eq_None_iff)
  then show ?case
    using Cons p by (auto simp: merge_local_get newer_def live_at_def split: option.splits)
qed

lemma stored_keys: "keys_distinct m \<Longrightarrow> keys_distinct (fold (\<lambda>s m. if team_code s = [] \<or> touchedAt s < cutoff then m
    else map_set (team_code s) s m) entries m)"
  by (induction entries arbitrary: m) (auto simp: distinct_update)

lemma merge_keys: "keys_distinct m \<Longrightarrow> keys_distinct (fold (merge_local cutoff) ls m)"
  by (induction ls arbitrary: m) (auto simp: merge_local_def distinct_update split: option.split)

lemma load_keys: "keys_distinct (team_sessions st) \<Longrightarrow> keys_distinct (team_sessions (team_load shared force now st))"
  by (auto simp: team_load_def Let_def stored_sessions_def intro!: merge_keys stored_keys split: option.split)

text \<open>The invite code \<open>c\<close> is known and was touched at \<open>t0\<close> or later.\<close>

definition knows :: "string \<Rightarrow> int \<Rightarrow> (string, team_session) jsmap \<Rightarrow> bool" where
  "knows c t0 m = (keys_distinct m \<and> (case map_get m c of None \<Rightarrow> False | Some s \<Rightarrow> t0 \<le> touchedAt s))"

definition invited :: "string \<Rightarrow> int \<Rightarrow> 'r team_store \<Rightarrow> bool" where
  "invited c t0 st = knows c t0 (team_sessions st)"

lemma load_cases:
  "team_sessions (team_load shared force now st) = team_sessions st \<or>
   (\<exists>entries. team_sessions (team_load shared force now st) =
      fold (merge_local (now - TEAM_SESSION_RETENTION_MS)) (team_sessions st)
        (stored_sessions (now - TEAM_SESSION_RETENTION_MS) entries))"
  by (auto simp: team_load_def Let_def split: option.splits)

lemma knows_merge:
  assumes "knows c t0 ls" and "cutoff \<le> t0" and "keys_distinct m"
  shows "knows c t0 (fold (merge_local cutoff) ls m)"
proof -
  obtain s where s: "map_get ls c = Some s" "t0 \<le> touchedAt s" "keys_distinct ls"
    using assms(1) by (auto simp: knows_def split: option.splits)
  then have live: "live_at cutoff (map_get ls c) = Some s"
    using assms(2) by (simp add: live_at_def del: map_of_eq_Some_iff)
  have "keys_distinct (fold (merge_local cutoff) ls m)" by (rule merge_keys [OF assms(3)])
  then show ?thesis
    unfolding knows_def merge_fold_get [OF s(3)] live using s(2) by (auto simp: newer_def split: option.split)
qed

lemma invited_load:
  assumes "invited c t0 st" and "now \<le> t0 + TEAM_SESSION_RETENTION_MS"
  shows "invited c t0 (team_load shared force now st)"
proof (cases "team_sessions (team_load shared force now st) = team_sessions st")
  case True
  with assms(1) show ?thesis by (simp add: invited_def)
next
  case False
  then obtain entries where 2: "team_sessions (team_load shared force now st) =
      fold (merge_local (now - TEAM_SESSION_RETENTION_MS)) (team_sessions st)
        (stored_sessions (now - TEAM_SESSION_RETENTION_MS) entries)"
    using load_cases by blast
  have "keys_distinct (stored_sessions (now - TEAM_SESSION_RETENTION_MS) entries)"
    unfolding stored_sessions_def by (rule stored_keys) simp
  with 2 assms show ?thesis by (simp add: invited_def knows_merge)
qed

lemma knows_set: "knows c t0 m \<Longrightarrow> \<not> (k = c \<and> touchedAt v < t0) \<Longrightarrow> knows c t0 (map_set k v m)"
  by (auto simp: knows_def distinct_update simp del: map_of_eq_Some_iff split: option.splits)

lemma invited_schedule [simp]: "invited c t0 (team_schedulePersist shared st) = invited c t0 st"
  by (simp add: team_schedulePersist_def invited_def)

lemma sessions_schedule [simp]: "team_sessions (team_schedulePersist shared st) = team_sessions st"
  by (simp add: team_schedulePersist_def)

text \<open>
  What may happen to the store of one process: requests, its own writes and clean-ups, and
  other processes that put whatever they want into the file.
\<close>

datatype team_op =
    TeamCreate int "string list" jsval jsval
  | TeamGet int string
  | TeamPersist int
  | TeamCleanup int
  | TeamForeignWrite int "team_session list option"

fun team_step :: "team_op \<Rightarrow> 'r team_store \<Rightarrow> 'r team_store" where
  "team_step (TeamCreate now codes repo createdBy) st =
     (case team_createSession None now codes repo createdBy st of None \<Rightarrow> st | Some (s, st') \<Rightarrow> st')"
| "team_step (TeamGet now code) st = snd (team_getSession None now code st)"
| "team_step (TeamPersist mtime) st = team_run_persist mtime st"
| "team_step (TeamCleanup now) st = team_cleanup False now st"
| "team_step (TeamForeignWrite mtime content) st = st\<lparr>team_file := Some (mtime, content)\<rparr>"

fun team_time :: "team_op \<Rightarrow> int option" where
  "team_time (TeamCreate now codes repo createdBy) = Some now"
| "team_time (TeamGet now code) = Some now"
| "team_time (TeamCleanup now) = Some now"
| "team_time _ = None"

lemma first_free_free: "first_free taken codes = Some c \<Longrightarrow> \<not> taken c \<and> c \<in> set codes"
  by (induction codes) (auto split: if_splits)

lemma touched_new: "0 < now \<Longrightarrow> touchedAt (s\<lparr>team_updatedAt := now\<rparr>) = now"
  by (simp add: touchedAt_def int_or_def)

lemma invited_step:
  assumes "invited c t0 st" and "0 < t0"
    and "\<forall>now. team_time a = Some now \<longrightarrow> t0 \<le> now \<and> now \<le> t0 + TEAM_SESSION_RETENTION_MS"
  shows "invited c t0 (team_step a st)"
proof (cases a)
  case (TeamCreate now codes repo createdBy)
  with assms have inv: "invited c t0 (team_load False True now st)" by (intro invited_load) auto
  have "k \<noteq> c" if "first_free (map_has (team_sessions (team_load False True now st))) codes = Some k" for k
    using first_free_free [OF that] inv by (auto simp: invited_def knows_def map_has_def split: option.splits)
  then show ?thesis
    using TeamCreate inv assms(1)
    by (auto simp: team_createSession_def Let_def invited_def intro: knows_set split: option.split)
next
  case (TeamGet now code)
  with assms have "invited c t0 (team_load False True now st)" "t0 \<le> now" "0 < now"
    by (auto intro: invited_load)
  with TeamGet show ?thesis
    by (auto simp: team_getSession_def Let_def touched_new invited_def intro!: knows_set split: option.split)
next
  case (TeamPersist mtime)
  with assms(1) show ?thesis by (simp add: team_run_persist_def invited_def)
next
  case (TeamCleanup now)
  have "now \<le> t0 + TEAM_SESSION_RETENTION_MS" using assms(3) TeamCleanup by simp
  with assms(1) have "invited c t0 (st\<lparr>team_sessions :=
      filter (\<lambda>(code, s). \<not> touchedAt s < now - TEAM_SESSION_RETENTION_MS) (team_sessions st)\<rparr>)"
    by (auto simp: invited_def knows_def map_of_filter_value keys_distinct_filter simp del: map_of_eq_Some_iff
        split: option.splits)
  with TeamCleanup assms(1) show ?thesis by (simp add: team_cleanup_def Let_def)
next
  case (TeamForeignWrite mtime content)
  with assms(1) show ?thesis by (simp add: invited_def)
qed

lemma invited_fold:
  "invited c t0 st \<Longrightarrow> 0 < t0 \<Longrightarrow>
   \<forall>a \<in> set as. \<forall>now. team_time a = Some now \<longrightarrow> t0 \<le> now \<and> now \<le> t0 + TEAM_SESSION_RETENTION_MS \<Longrightarrow>
   invited c t0 (fold team_step as st)"
  by (induction as arbitrary: st) (simp_all add: invited_step)


definition no_store :: "unit team_store" where
  "no_store = \<lparr>team_sessions = [], team_persistScheduled = False, lastLoadedMtimeMs = 0, team_file = None,
               redis_state = ()\<rparr>"


section \<open>Codes\<close>

definition filler :: "char \<Rightarrow> bool" where
  "filler c = (c \<in> set '' -_.'')"

lemma normalize_filler: "filter code_char (to_upper (filter (\<lambda>c. \<not> filler c) s)) = filter code_char (to_upper s)"
proof -
  have "filler c \<Longrightarrow> filter code_char (upper_char c) = []" for c
    by (auto simp: filler_def upper_char_def code_char_def is_upper_az_def is_digit_def)
  then show ?thesis by (induction s) (auto simp: to_upper_def)
qed

text \<open>
  A code can be typed as people type it: whatever the server generates is found again when it is
  entered in capital or small letters and with dashes, dots, underscores or spaces anywhere.
\<close>

theorem typed_code_is_found:
  assumes "list_all (\<lambda>i. i < 32) picks"
    and "filter (\<lambda>c. \<not> filler c) typed \<in> {generateTeamSessionCode picks, to_lower (generateTeamSessionCode picks)}"
  shows "normalizeTeamSessionCode (JStr typed) = generateTeamSessionCode picks"
proof -
  have alpha: "list_all (\<lambda>c. code_char c \<and> upper_char c = [c] \<and> upper_char (lower_char c) = [c]) TEAM_SESSION_CODE_ALPHABET"
    by code_simp
  have "length TEAM_SESSION_CODE_ALPHABET = 32" by (simp add: TEAM_SESSION_CODE_ALPHABET_def)
  then have "code_char c \<and> upper_char c = [c] \<and> upper_char (lower_char c) = [c]"
    if "c \<in> set (generateTeamSessionCode picks)" for c
    using that alpha assms(1) by (auto simp: generateTeamSessionCode_def list_all_iff)
  then have "filter code_char (to_upper (generateTeamSessionCode picks)) = generateTeamSessionCode picks"
    and "filter code_char (to_upper (to_lower (generateTeamSessionCode picks))) = generateTeamSessionCode picks"
    by (induction "generateTeamSessionCode picks" rule: list.induct;
        auto simp: to_upper_def to_lower_def filter_concat o_def map_idI cong: map_cong)+
  with assms(2) normalize_filler [of typed]
  have "filter code_char (to_upper typed) = generateTeamSessionCode picks" by auto
  then show ?thesis
    by (cases "typed = []") (auto simp: normalizeTeamSessionCode_def string_or_empty_def to_upper_def)
qed

theorem typed_code_is_found_witness: "normalizeTeamSessionCode (JStr ''abc-234'') = ''ABC234''"
proof -
  have g: "generateTeamSessionCode [0, 1, 2, 24, 25, 26] = ''ABC234''" by code_simp
  have "filter (\<lambda>c. \<not> filler c) ''abc-234'' = to_lower ''ABC234''" by code_simp
  with typed_code_is_found [of "[0, 1, 2, 24, 25, 26]" "''abc-234''"] g show ?thesis by simp
qed

end
