(* ===== verification/Collaboration.thy ===== *)
theory Collaboration imports TeamSessions "HOL-Library.Word" begin

text \<open>
  \<^verbatim>\<open>backend/src/services/collaborationServer.ts\<close>: shared editing over web sockets. The state
  holds the shared documents (a heap, and the map \<^verbatim>\<open>docs\<close> from a room to the document that is
  registered for it), the connections, the sessions that decide who may enter, and traces of
  what is sent, published and handled. Its events are the callbacks of the server: an answer
  that the setup of a connection waits for, a message, the end of a connection, a timer. A
  callback runs to its end before the next; the setups that wait for one document go on,
  in order, in the event that ends its loading, as the microtasks of its promise do.

  Yjs and its awareness protocol are parameters: \<open>y_apply\<close> and \<open>aw_apply\<close> give the new
  state and, if there is one, the content of the event they fire; \<open>None\<close> is an exception. So
  are \<^verbatim>\<open>JSON.parse\<close> and the hash of a file name. The work on a snapshot is one event.
\<close>

type_synonym bytes = "8 word list"

record ('y, 'a) collab_ops =
  y_new :: 'y
  y_apply :: "bytes \<Rightarrow> 'y \<Rightarrow> ('y \<times> bytes option) option"
  y_insert :: "string \<Rightarrow> 'y \<Rightarrow> 'y \<times> bytes"
  y_length :: "'y \<Rightarrow> nat"
  y_encode :: "'y \<Rightarrow> bytes"
  aw_new :: 'a
  aw_apply :: "bytes \<Rightarrow> 'a \<Rightarrow> ('a \<times> (nat list \<times> nat list \<times> nat list) option) option"
  aw_remove :: "nat list \<Rightarrow> 'a \<Rightarrow> 'a \<times> nat list option"
  aw_tick :: "int \<Rightarrow> 'a \<Rightarrow> 'a \<times> (nat list \<times> nat list \<times> nat list) option"
  aw_clients :: "'a \<Rightarrow> nat list"
  aw_encode :: "'a \<Rightarrow> nat list \<Rightarrow> bytes"
  read_json :: "string \<Rightarrow> jsval option"
  sha1_hex :: "string \<Rightarrow> string"
  sharedState :: bool
  instanceId :: string

definition MESSAGE_DOC_UPDATE :: "8 word" where "MESSAGE_DOC_UPDATE = 0"
definition MESSAGE_AWARENESS_UPDATE :: "8 word" where "MESSAGE_AWARENESS_UPDATE = 1"
definition DOC_RETENTION_MS :: int where "DOC_RETENTION_MS = 10 * 60 * 1000"
definition TEAM_ROOM_PREFIX :: string where "TEAM_ROOM_PREFIX = ''team:''"

datatype collab_message = TextMessage string | BinaryMessage bytes

datatype origin = FromConnection nat | ExternalSync | NoOrigin

record ('y, 'a) shared_doc =
  roomId :: string
  ydoc :: 'y
  awareness :: 'a
  connections :: "(nat, nat list) jsmap"
  doc_updatedAt :: int
  persistTimer :: bool
  doc_loaded :: bool
  waiting :: "nat list"
  lastSnapshotMtimeMs :: int
  lastSnapshotVersion :: int
  snapshotSyncTimer :: bool
  cleanupTimers :: "int list"

text \<open>
  A connection: the request it came with, the variables of its handler, whether its socket is
  open, and how far its setup has come.
\<close>

datatype setup_state = Starting | AskTeam string | SetupDone

record collab_conn =
  cn_cookie :: string
  cn_room :: "string option"
  cn_setup :: setup_state
  cn_open :: bool
  pendingMessages :: "collab_message list"
  cn_doc :: "nat option"
  cn_ready :: bool
  cn_closed :: bool
  decDone :: bool

record ('y, 'a, 'r) collab =
  docs :: "(string, nat) jsmap"
  heap :: "('y, 'a) shared_doc list"
  conns :: "collab_conn list"
  snapshots :: "(string, int \<times> bytes) jsmap"
  sent :: "(nat \<times> bytes) list"
  published :: "(string \<times> string \<times> bytes) list"
  closes :: "(nat \<times> nat \<times> string) list"
  handled :: "(nat \<times> collab_message) list"
  activeConnections :: int
  auths :: auth_store
  teams :: "'r team_store"
  builds :: "string \<Rightarrow> build_owner option"

definition upd_doc ::
    "nat \<Rightarrow> (('y, 'a) shared_doc \<Rightarrow> ('y, 'a) shared_doc) \<Rightarrow> ('y, 'a, 'r) collab \<Rightarrow> ('y, 'a, 'r) collab" where
  "upd_doc d f st = st\<lparr>heap := (heap st)[d := f (heap st ! d)]\<rparr>"

definition upd_conn ::
    "nat \<Rightarrow> (collab_conn \<Rightarrow> collab_conn) \<Rightarrow> ('y, 'a, 'r) collab \<Rightarrow> ('y, 'a, 'r) collab" where
  "upd_conn c f st = st\<lparr>conns := (conns st)[c := f (conns st ! c)]\<rparr>"

section \<open>Snapshots\<close>

definition snapshot_key :: "('y, 'a) collab_ops \<Rightarrow> string \<Rightarrow> string" where
  "snapshot_key ops room =
     (if sharedState ops then ''proofdesk:collab-snapshot:'' @ room else sha1_hex ops room @ ''.bin'')"

definition persistDocState :: "('y, 'a) collab_ops \<Rightarrow> int \<Rightarrow> nat \<Rightarrow> ('y, 'a, 'r) collab \<Rightarrow> ('y, 'a, 'r) collab" where
  "persistDocState ops now d st =
     (let x = heap st ! d;
          st1 = st\<lparr>snapshots := map_set (snapshot_key ops (roomId x)) (now, y_encode ops (ydoc x)) (snapshots st)\<rparr>
      in if sharedState ops then upd_doc d (\<lambda>x. x\<lparr>lastSnapshotVersion := now\<rparr>) st1
         else upd_doc d (\<lambda>x. x\<lparr>lastSnapshotMtimeMs := now\<rparr>) st1)"

section \<open>Updates of a document\<close>

definition encodeMessage :: "8 word \<Rightarrow> bytes \<Rightarrow> bytes" where
  "encodeMessage type payload = type # payload"

definition broadcast ::
    "nat \<Rightarrow> bytes \<Rightarrow> nat option \<Rightarrow> ('y, 'a, 'r) collab \<Rightarrow> ('y, 'a, 'r) collab" where
  "broadcast d payload skip st =
     st\<lparr>sent := sent st @ map (\<lambda>c. (c, payload))
          (filter (\<lambda>c. Some c \<noteq> skip \<and> cn_open (conns st ! c)) (map fst (connections (heap st ! d))))\<rparr>"

fun skip_of :: "origin \<Rightarrow> nat option" where
  "skip_of (FromConnection c) = Some c"
| "skip_of ExternalSync = None"
| "skip_of NoOrigin = None"

definition publishCollaborationEvent ::
    "('y, 'a) collab_ops \<Rightarrow> string \<Rightarrow> string \<Rightarrow> bytes \<Rightarrow> ('y, 'a, 'r) collab \<Rightarrow> ('y, 'a, 'r) collab" where
  "publishCollaborationEvent ops room kind payload st =
     (if \<not> sharedState ops then st else st\<lparr>published := published st @ [(room, kind, payload)]\<rparr>)"

text \<open>The handler of the document's update event.\<close>

definition on_doc_update ::
    "('y, 'a) collab_ops \<Rightarrow> int \<Rightarrow> bytes \<Rightarrow> origin \<Rightarrow> nat \<Rightarrow> ('y, 'a, 'r) collab \<Rightarrow> ('y, 'a, 'r) collab" where
  "on_doc_update ops now update origin d st =
     (let st1 = upd_doc d (\<lambda>x. x\<lparr>doc_updatedAt := now\<rparr>) st;
          st2 = broadcast d (encodeMessage MESSAGE_DOC_UPDATE update) (skip_of origin) st1
      in if origin = ExternalSync then st2
         else publishCollaborationEvent ops (roomId (heap st ! d)) ''doc'' update
                (upd_doc d (\<lambda>x. x\<lparr>persistTimer := True\<rparr>) st2))"

definition apply_doc ::
    "('y, 'a) collab_ops \<Rightarrow> int \<Rightarrow> bytes \<Rightarrow> origin \<Rightarrow> nat \<Rightarrow> ('y, 'a, 'r) collab \<Rightarrow>
     (bool \<times> ('y, 'a, 'r) collab)" where
  "apply_doc ops now payload origin d st =
     (case y_apply ops payload (ydoc (heap st ! d)) of
        None \<Rightarrow> (False, st)
      | Some (y, fired) \<Rightarrow>
          let st1 = upd_doc d (\<lambda>x. x\<lparr>ydoc := y\<rparr>) st
          in (True, case fired of None \<Rightarrow> st1 | Some update \<Rightarrow> on_doc_update ops now update origin d st1))"

definition set_add :: "nat \<Rightarrow> nat list \<Rightarrow> nat list" where
  "set_add x xs = (if x \<in> set xs then xs else xs @ [x])"

text \<open>The handler of the awareness event: it keeps the clients that a connection speaks for.\<close>

definition on_awareness ::
    "('y, 'a) collab_ops \<Rightarrow> int \<Rightarrow> nat list \<times> nat list \<times> nat list \<Rightarrow> origin \<Rightarrow> nat \<Rightarrow>
     ('y, 'a, 'r) collab \<Rightarrow> ('y, 'a, 'r) collab" where
  "on_awareness ops now change origin d st =
     (case change of (added, updated, removed) \<Rightarrow>
        let update = aw_encode ops (awareness (heap st ! d)) (added @ updated @ removed);
            st1 = upd_doc d (\<lambda>x. x\<lparr>doc_updatedAt := now\<rparr>) st;
            st2 = (case origin of
                FromConnection c \<Rightarrow>
                  (case map_get (connections (heap st ! d)) c of
                     None \<Rightarrow> st1
                   | Some ids \<Rightarrow> upd_doc d (\<lambda>x. x\<lparr>connections := map_set c
                       (filter (\<lambda>i. i \<notin> set removed) (fold set_add (added @ updated) ids)) (connections x)\<rparr>) st1)
              | _ \<Rightarrow> st1);
            st3 = broadcast d (encodeMessage MESSAGE_AWARENESS_UPDATE update) (skip_of origin) st2
        in if origin = ExternalSync then st3
           else publishCollaborationEvent ops (roomId (heap st ! d)) ''awareness'' update st3)"

definition apply_awareness ::
    "('y, 'a) collab_ops \<Rightarrow> int \<Rightarrow> bytes \<Rightarrow> origin \<Rightarrow> nat \<Rightarrow> ('y, 'a, 'r) collab \<Rightarrow> ('y, 'a, 'r) collab" where
  "apply_awareness ops now payload origin d st =
     (case aw_apply ops payload (awareness (heap st ! d)) of
        None \<Rightarrow> st
      | Some (a, fired) \<Rightarrow>
          let st1 = upd_doc d (\<lambda>x. x\<lparr>awareness := a\<rparr>) st
          in case fired of None \<Rightarrow> st1 | Some change \<Rightarrow> on_awareness ops now change origin d st1)"

definition loadDocState :: "('y, 'a) collab_ops \<Rightarrow> int \<Rightarrow> nat \<Rightarrow> ('y, 'a, 'r) collab \<Rightarrow> ('y, 'a, 'r) collab" where
  "loadDocState ops now d st =
     (case map_get (snapshots st) (snapshot_key ops (roomId (heap st ! d))) of
        None \<Rightarrow> st
      | Some (mtime, snapshot) \<Rightarrow>
          if sharedState ops
          then (if snapshot = [] then st
                else case apply_doc ops now snapshot NoOrigin d st of
                    (False, st1) \<Rightarrow> st1
                  | (True, st1) \<Rightarrow> upd_doc d (\<lambda>x. x\<lparr>lastSnapshotVersion := now\<rparr>) st1)
          else (case (if snapshot = [] then (True, st) else apply_doc ops now snapshot NoOrigin d st) of
                    (False, st1) \<Rightarrow> st1
                  | (True, st1) \<Rightarrow> upd_doc d (\<lambda>x. x\<lparr>lastSnapshotMtimeMs := int_or mtime (lastSnapshotMtimeMs x)\<rparr>) st1))"

definition syncDocStateFromDisk ::
    "('y, 'a) collab_ops \<Rightarrow> int \<Rightarrow> nat \<Rightarrow> ('y, 'a, 'r) collab \<Rightarrow> ('y, 'a, 'r) collab" where
  "syncDocStateFromDisk ops now d st =
     (case map_get (snapshots st) (snapshot_key ops (roomId (heap st ! d))) of
        None \<Rightarrow> st
      | Some (mtime, snapshot) \<Rightarrow>
          if mtime \<le> lastSnapshotMtimeMs (heap st ! d) then st
          else let st1 = upd_doc d (\<lambda>x. x\<lparr>lastSnapshotMtimeMs := mtime\<rparr>) st
               in if snapshot = [] then st1 else snd (apply_doc ops now snapshot ExternalSync d st1))"

text \<open>The awareness object renews and drops states on a timer of its own.\<close>

definition awareness_tick :: "('y, 'a) collab_ops \<Rightarrow> int \<Rightarrow> nat \<Rightarrow> ('y, 'a, 'r) collab \<Rightarrow> ('y, 'a, 'r) collab" where
  "awareness_tick ops now d st =
     (case aw_tick ops now (awareness (heap st ! d)) of
        (a, fired) \<Rightarrow>
          let st1 = upd_doc d (\<lambda>x. x\<lparr>awareness := a\<rparr>) st
          in case fired of None \<Rightarrow> st1 | Some change \<Rightarrow> on_awareness ops now change NoOrigin d st1)"

text \<open>A message of another server process.\<close>

definition redis_message ::
    "('y, 'a) collab_ops \<Rightarrow> int \<Rightarrow> string \<Rightarrow> string \<Rightarrow> string \<Rightarrow> bytes \<Rightarrow> ('y, 'a, 'r) collab \<Rightarrow> ('y, 'a, 'r) collab" where
  "redis_message ops now room sender kind payload st =
     (case map_get (docs st) room of
        None \<Rightarrow> st
      | Some d \<Rightarrow>
          if sender = instanceId ops then st
          else if kind = ''doc'' \<and> payload \<noteq> [] then snd (apply_doc ops now payload ExternalSync d st)
          else if kind = ''awareness'' \<and> payload \<noteq> [] then apply_awareness ops now payload ExternalSync d st
          else st)"

section \<open>Rooms\<close>

definition isValidRoomId :: "string option \<Rightarrow> bool" where
  "isValidRoomId room = (case room of None \<Rightarrow> False | Some r \<Rightarrow> 0 < length r \<and> length r \<le> 1024)"

definition new_doc :: "('y, 'a) collab_ops \<Rightarrow> int \<Rightarrow> string \<Rightarrow> ('y, 'a) shared_doc" where
  "new_doc ops now room =
     \<lparr>roomId = room, ydoc = y_new ops, awareness = aw_new ops, connections = [], doc_updatedAt = now,
      persistTimer = False, doc_loaded = False, waiting = [], lastSnapshotMtimeMs = 0,
      lastSnapshotVersion = 0, snapshotSyncTimer = (\<not> sharedState ops), cleanupTimers = []\<rparr>"

definition getOrCreateDoc ::
    "('y, 'a) collab_ops \<Rightarrow> int \<Rightarrow> string \<Rightarrow> ('y, 'a, 'r) collab \<Rightarrow> nat \<times> ('y, 'a, 'r) collab" where
  "getOrCreateDoc ops now room st =
     (case map_get (docs st) room of
        Some d \<Rightarrow> (d, st)
      | None \<Rightarrow> (length (heap st),
          st\<lparr>heap := heap st @ [new_doc ops now room], docs := map_set room (length (heap st)) (docs st)\<rparr>))"

definition scheduleDocCleanup :: "int \<Rightarrow> nat \<Rightarrow> ('y, 'a, 'r) collab \<Rightarrow> ('y, 'a, 'r) collab" where
  "scheduleDocCleanup now d st =
     upd_doc d (\<lambda>x. x\<lparr>cleanupTimers := cleanupTimers x @ [now + DOC_RETENTION_MS]\<rparr>) st"

text \<open>The callback of the first cleanup timer of a document, once it is due.\<close>

definition cleanup_due :: "int \<Rightarrow> nat \<Rightarrow> ('y, 'a, 'r) collab \<Rightarrow> ('y, 'a, 'r) collab" where
  "cleanup_due now d st =
     (case cleanupTimers (heap st ! d) of
        [] \<Rightarrow> st
      | due # rest \<Rightarrow>
          if now < due then st
          else let x = heap st ! d; st1 = upd_doc d (\<lambda>x. x\<lparr>cleanupTimers := rest\<rparr>) st
               in if map_get (docs st) (roomId x) \<noteq> Some d then st1
                  else if connections x \<noteq> [] then st1
                  else if now - doc_updatedAt x < DOC_RETENTION_MS then st1
                  else (upd_doc d (\<lambda>x. x\<lparr>snapshotSyncTimer := False, persistTimer := False\<rparr>) st1)
                         \<lparr>docs := map_del (roomId x) (docs st)\<rparr>)"

definition send_to :: "nat \<Rightarrow> bytes \<Rightarrow> ('y, 'a, 'r) collab \<Rightarrow> ('y, 'a, 'r) collab" where
  "send_to c payload st = (if cn_open (conns st ! c) then st\<lparr>sent := sent st @ [(c, payload)]\<rparr> else st)"

definition sendCurrentState ::
    "('y, 'a) collab_ops \<Rightarrow> nat \<Rightarrow> nat \<Rightarrow> ('y, 'a, 'r) collab \<Rightarrow> ('y, 'a, 'r) collab" where
  "sendCurrentState ops c d st =
     (let x = heap st ! d; clients = aw_clients ops (awareness x);
          st1 = send_to c (encodeMessage MESSAGE_DOC_UPDATE (y_encode ops (ydoc x))) st
      in if clients = [] then st1
         else send_to c (encodeMessage MESSAGE_AWARENESS_UPDATE (aw_encode ops (awareness x) clients)) st1)"

definition closeConnection ::
    "('y, 'a) collab_ops \<Rightarrow> int \<Rightarrow> nat \<Rightarrow> nat \<Rightarrow> ('y, 'a, 'r) collab \<Rightarrow> ('y, 'a, 'r) collab" where
  "closeConnection ops now c d st =
     (case map_get (connections (heap st ! d)) c of
        None \<Rightarrow> st
      | Some controlledIds \<Rightarrow>
          let st1 = upd_doc d (\<lambda>x. x\<lparr>connections := map_del c (connections x)\<rparr>) st;
              st2 = (if controlledIds = [] then st1
                     else case aw_remove ops controlledIds (awareness (heap st1 ! d)) of
                         (a, fired) \<Rightarrow>
                           let st' = upd_doc d (\<lambda>x. x\<lparr>awareness := a\<rparr>) st1
                           in case fired of
                               None \<Rightarrow> st'
                             | Some removed \<Rightarrow> on_awareness ops now ([], [], removed) (FromConnection c) d st');
              st3 = upd_doc d (\<lambda>x. x\<lparr>doc_updatedAt := now\<rparr>) st2
          in if connections (heap st3 ! d) = [] then scheduleDocCleanup now d st3 else st3)"

section \<open>Messages\<close>

definition join_message ::
    "('y, 'a) collab_ops \<Rightarrow> int \<Rightarrow> nat \<Rightarrow> nat \<Rightarrow> jsval \<Rightarrow> ('y, 'a, 'r) collab \<Rightarrow> ('y, 'a, 'r) collab" where
  "join_message ops now c d payload st =
     (let st1 = (case get_prop payload ''initialContent'' of
            JStr content \<Rightarrow>
              if 0 < length content \<and> y_length ops (ydoc (heap st ! d)) = 0
              then (case y_insert ops content (ydoc (heap st ! d)) of
                  (y, update) \<Rightarrow>
                    on_doc_update ops now update (FromConnection c) d (upd_doc d (\<lambda>x. x\<lparr>ydoc := y\<rparr>) st))
              else st
          | _ \<Rightarrow> st)
      in sendCurrentState ops c d st1)"

definition processConnectionMessage ::
    "('y, 'a) collab_ops \<Rightarrow> int \<Rightarrow> nat \<Rightarrow> nat \<Rightarrow> collab_message \<Rightarrow> ('y, 'a, 'r) collab \<Rightarrow> ('y, 'a, 'r) collab" where
  "processConnectionMessage ops now c d message st =
     (let st1 = st\<lparr>handled := handled st @ [(c, message)]\<rparr>
      in case message of
          TextMessage raw \<Rightarrow>
            (case read_json ops raw of
               None \<Rightarrow> st1
             | Some payload \<Rightarrow>
                 if get_prop payload ''type'' = JStr ''join'' then join_message ops now c d payload st1 else st1)
        | BinaryMessage [] \<Rightarrow> st1
        | BinaryMessage (messageType # payload) \<Rightarrow>
            if messageType = MESSAGE_DOC_UPDATE then snd (apply_doc ops now payload (FromConnection c) d st1)
            else if messageType = MESSAGE_AWARENESS_UPDATE
            then apply_awareness ops now payload (FromConnection c) d st1
            else st1)"

section \<open>The setup of a connection\<close>

definition refuse :: "nat \<Rightarrow> nat \<Rightarrow> string \<Rightarrow> ('y, 'a, 'r) collab \<Rightarrow> ('y, 'a, 'r) collab" where
  "refuse c code reason st =
     upd_conn c (\<lambda>k. k\<lparr>cn_setup := SetupDone, cn_open := False\<rparr>) (st\<lparr>closes := closes st @ [(c, code, reason)]\<rparr>)"

text \<open>The end of the setup, once the document is loaded.\<close>

definition admit ::
    "('y, 'a) collab_ops \<Rightarrow> int \<Rightarrow> nat \<Rightarrow> nat \<Rightarrow> ('y, 'a, 'r) collab \<Rightarrow> ('y, 'a, 'r) collab" where
  "admit ops now d c st =
     (let k = conns st ! c; st1 = upd_conn c (\<lambda>k. k\<lparr>cn_setup := SetupDone\<rparr>) st
      in if cn_closed k then st1
         else fold (processConnectionMessage ops now c d) (pendingMessages k)
                (upd_conn c (\<lambda>k. k\<lparr>cn_ready := True, pendingMessages := []\<rparr>)
                  (upd_doc d (\<lambda>x. x\<lparr>connections := map_set c [] (connections x), doc_updatedAt := now\<rparr>) st1)))"

definition join_room ::
    "('y, 'a) collab_ops \<Rightarrow> int \<Rightarrow> nat \<Rightarrow> string \<Rightarrow> ('y, 'a, 'r) collab \<Rightarrow> ('y, 'a, 'r) collab" where
  "join_room ops now c room st =
     (case getOrCreateDoc ops now room st of
        (d, st1) \<Rightarrow>
          let st2 = upd_conn c (\<lambda>k. k\<lparr>cn_setup := SetupDone, cn_doc := Some d\<rparr>) st1
          in if doc_loaded (heap st2 ! d) then admit ops now d c st2
             else upd_doc d (\<lambda>x. x\<lparr>waiting := waiting x @ [c]\<rparr>) st2)"

definition finish_load :: "('y, 'a) collab_ops \<Rightarrow> int \<Rightarrow> nat \<Rightarrow> ('y, 'a, 'r) collab \<Rightarrow> ('y, 'a, 'r) collab" where
  "finish_load ops now d st =
     (if doc_loaded (heap st ! d) then st
      else let st1 = loadDocState ops now d st
           in fold (admit ops now d) (waiting (heap st1 ! d))
                (upd_doc d (\<lambda>x. x\<lparr>doc_loaded := True, waiting := []\<rparr>) st1))"

definition team_room_code :: "string \<Rightarrow> string" where
  "team_room_code room =
     normalizeTeamSessionCode (JStr (hd (split_on (CHR '':'') (drop (length TEAM_ROOM_PREFIX) room))))"

text \<open>The setup up to its second wait, or to its end for a build session.\<close>

definition authenticate_conn ::
    "('y, 'a) collab_ops \<Rightarrow> int \<Rightarrow> nat \<Rightarrow> ('y, 'a, 'r) collab \<Rightarrow> ('y, 'a, 'r) collab" where
  "authenticate_conn ops now c st =
     (case getSessionFromRequest now (cn_cookie (conns st ! c)) (auths st) of
        None \<Rightarrow> refuse c 1011 ''collaboration setup failed'' st
      | Some (found, auths') \<Rightarrow>
          let st1 = st\<lparr>auths := auths'\<rparr>; room = cn_room (conns st ! c)
          in case found of
               None \<Rightarrow> refuse c 1008 ''authenticated session is required'' st1
             | Some session \<Rightarrow>
                 if accessToken session = [] then refuse c 1008 ''authenticated session is required'' st1
                 else if \<not> isValidRoomId room then refuse c 1008 ''roomId is required'' st1
                 else let login = get_prop (session_user session) ''login'' in
                   if \<not> truthy login then refuse c 1008 ''authenticated user required'' st1
                   else if starts_with TEAM_ROOM_PREFIX (opt_str room)
                   then (let code = team_room_code (opt_str room)
                         in if code = [] then refuse c 1008 ''invalid session'' st1
                            else upd_conn c (\<lambda>k. k\<lparr>cn_setup := AskTeam code\<rparr>) st1)
                   else (case builds st (opt_str room) of
                           None \<Rightarrow> refuse c 1008 ''invalid session'' st1
                         | Some owner \<Rightarrow>
                             if creatorLogin owner = [] \<or> JStr (creatorLogin owner) \<noteq> login
                             then refuse c 1008 ''access denied'' st1
                             else join_room ops now c (opt_str room) st1))"

definition team_looked_up ::
    "('y, 'a) collab_ops \<Rightarrow> 'r team_redis option \<Rightarrow> int \<Rightarrow> nat \<Rightarrow> string \<Rightarrow> ('y, 'a, 'r) collab \<Rightarrow> ('y, 'a, 'r) collab" where
  "team_looked_up ops redis now c code st =
     (case team_getSession redis now code (teams st) of
        (found, teams') \<Rightarrow>
          let st1 = st\<lparr>teams := teams'\<rparr>
          in case found of
               None \<Rightarrow> refuse c 1008 ''invalid session'' st1
             | Some _ \<Rightarrow> join_room ops now c (opt_str (cn_room (conns st ! c))) st1)"

section \<open>The server\<close>

datatype 'r collab_event =
    Opens string "string option"
  | SessionAnswer nat
  | TeamAnswer nat
  | Loaded nat
  | Arrives nat collab_message
  | PeerClosing nat
  | Closes nat
  | PersistDue nat
  | CleanupDue nat
  | DiskTick nat
  | AwarenessTick nat
  | RedisMessage string string string bytes
  | SnapshotWritten string int bytes
  | Elsewhere auth_store "'r team_store" "string \<Rightarrow> build_owner option"

definition open_conn :: "string \<Rightarrow> string option \<Rightarrow> ('y, 'a, 'r) collab \<Rightarrow> ('y, 'a, 'r) collab" where
  "open_conn cookie room st =
     st\<lparr>activeConnections := activeConnections st + 1,
        conns := conns st @ [\<lparr>cn_cookie = cookie, cn_room = room, cn_setup = Starting, cn_open = True,
                              pendingMessages = [], cn_doc = None, cn_ready = False, cn_closed = False,
                              decDone = False\<rparr>]\<rparr>"

definition on_message ::
    "('y, 'a) collab_ops \<Rightarrow> int \<Rightarrow> nat \<Rightarrow> collab_message \<Rightarrow> ('y, 'a, 'r) collab \<Rightarrow> ('y, 'a, 'r) collab" where
  "on_message ops now c message st =
     (let k = conns st ! c
      in case (cn_ready k, cn_doc k) of
          (True, Some d) \<Rightarrow> processConnectionMessage ops now c d message st
        | _ \<Rightarrow> upd_conn c (\<lambda>k. k\<lparr>pendingMessages := pendingMessages k @ [message]\<rparr>) st)"

definition on_close ::
    "('y, 'a) collab_ops \<Rightarrow> int \<Rightarrow> nat \<Rightarrow> ('y, 'a, 'r) collab \<Rightarrow> ('y, 'a, 'r) collab" where
  "on_close ops now c st =
     (let st1 = upd_conn c (\<lambda>k. k\<lparr>cn_closed := True, cn_open := False\<rparr>) st;
          st2 = (case cn_doc (conns st ! c) of None \<Rightarrow> st1 | Some d \<Rightarrow> closeConnection ops now c d st1)
      in if decDone (conns st ! c) then st2
         else upd_conn c (\<lambda>k. k\<lparr>decDone := True\<rparr>) (st2\<lparr>activeConnections := activeConnections st2 - 1\<rparr>))"

fun collab_step ::
    "('y, 'a) collab_ops \<Rightarrow> 'r team_redis option \<Rightarrow> int \<times> 'r collab_event \<Rightarrow> ('y, 'a, 'r) collab \<Rightarrow> ('y, 'a, 'r) collab" where
  "collab_step ops redis (now, Opens cookie room) st = open_conn cookie room st"
| "collab_step ops redis (now, SessionAnswer c) st =
     (if c < length (conns st) \<and> cn_setup (conns st ! c) = Starting then authenticate_conn ops now c st else st)"
| "collab_step ops redis (now, TeamAnswer c) st =
     (if c < length (conns st)
      then (case cn_setup (conns st ! c) of AskTeam code \<Rightarrow> team_looked_up ops redis now c code st | _ \<Rightarrow> st)
      else st)"
| "collab_step ops redis (now, Loaded d) st = (if d < length (heap st) then finish_load ops now d st else st)"
| "collab_step ops redis (now, Arrives c message) st =
     (if c < length (conns st) then on_message ops now c message st else st)"
| "collab_step ops redis (now, PeerClosing c) st = upd_conn c (\<lambda>k. k\<lparr>cn_open := False\<rparr>) st"
| "collab_step ops redis (now, Closes c) st = (if c < length (conns st) then on_close ops now c st else st)"
| "collab_step ops redis (now, PersistDue d) st =
     (if d < length (heap st) \<and> persistTimer (heap st ! d)
      then persistDocState ops now d (upd_doc d (\<lambda>x. x\<lparr>persistTimer := False\<rparr>) st) else st)"
| "collab_step ops redis (now, CleanupDue d) st = (if d < length (heap st) then cleanup_due now d st else st)"
| "collab_step ops redis (now, DiskTick d) st =
     (if d < length (heap st) \<and> snapshotSyncTimer (heap st ! d) then syncDocStateFromDisk ops now d st else st)"
| "collab_step ops redis (now, AwarenessTick d) st =
     (if d < length (heap st) then awareness_tick ops now d st else st)"
| "collab_step ops redis (now, RedisMessage room sender kind payload) st =
     (if sharedState ops then redis_message ops now room sender kind payload st else st)"
| "collab_step ops redis (now, SnapshotWritten key mtime content) st =
     st\<lparr>snapshots := map_set key (mtime, content) (snapshots st)\<rparr>"
| "collab_step ops redis (now, Elsewhere a t b) st = st\<lparr>auths := a, teams := t, builds := b\<rparr>"

definition collab_run ::
    "('y, 'a) collab_ops \<Rightarrow> 'r team_redis option \<Rightarrow> (int \<times> 'r collab_event) list \<Rightarrow>
     ('y, 'a, 'r) collab \<Rightarrow> ('y, 'a, 'r) collab" where
  "collab_run ops redis evs st = fold (collab_step ops redis) evs st"

text \<open>The server after its start.\<close>

definition collab_start ::
    "auth_store \<Rightarrow> 'r team_store \<Rightarrow> (string \<Rightarrow> build_owner option) \<Rightarrow> ('y, 'a, 'r) collab" where
  "collab_start a t b = \<lparr>docs = [], heap = [], conns = [], snapshots = [], sent = [], published = [], closes = [],
     handled = [], activeConnections = 0, auths = a, teams = t, builds = b\<rparr>"

section \<open>Who is in which room: an abstract machine\<close>

text \<open>
  What decides who takes part: a document without its content, the connections, and the
  messages handled so far. The labels of a step are the messages that arrive in it.
\<close>

record doc_shape =
  s_room :: string
  s_members :: "nat list"
  s_loaded :: bool
  s_waiting :: "nat list"
  s_timers :: bool

record room_shape =
  s_docs :: "(string, nat) jsmap"
  s_heap :: "doc_shape list"
  s_conns :: "collab_conn list"
  s_handled :: "(nat \<times> collab_message) list"
  s_active :: int

definition doc_shape :: "('y, 'a) shared_doc \<Rightarrow> doc_shape" where
  "doc_shape x = \<lparr>s_room = roomId x, s_members = map fst (connections x), s_loaded = doc_loaded x,
     s_waiting = waiting x, s_timers = (cleanupTimers x \<noteq> [])\<rparr>"

definition shape :: "('y, 'a, 'r) collab \<Rightarrow> room_shape" where
  "shape st = \<lparr>s_docs = docs st, s_heap = map doc_shape (heap st), s_conns = conns st,
     s_handled = handled st, s_active = activeConnections st\<rparr>"

definition s_doc :: "nat \<Rightarrow> (doc_shape \<Rightarrow> doc_shape) \<Rightarrow> room_shape \<Rightarrow> room_shape" where
  "s_doc d f S = S\<lparr>s_heap := (s_heap S)[d := f (s_heap S ! d)]\<rparr>"

definition s_conn :: "nat \<Rightarrow> (collab_conn \<Rightarrow> collab_conn) \<Rightarrow> room_shape \<Rightarrow> room_shape" where
  "s_conn c f S = S\<lparr>s_conns := (s_conns S)[c := f (s_conns S ! c)]\<rparr>"

definition s_admit :: "nat \<Rightarrow> nat \<Rightarrow> room_shape \<Rightarrow> room_shape" where
  "s_admit d c S =
     (let k = s_conns S ! c; S1 = s_conn c (\<lambda>k. k\<lparr>cn_setup := SetupDone\<rparr>) S
      in if cn_closed k then S1
         else (s_conn c (\<lambda>k. k\<lparr>cn_ready := True, pendingMessages := []\<rparr>)
                (s_doc d (\<lambda>x. x\<lparr>s_members := set_add c (s_members x)\<rparr>) S1))
                \<lparr>s_handled := s_handled S @ map (Pair c) (pendingMessages k)\<rparr>)"

definition s_room_doc :: "string \<Rightarrow> room_shape \<Rightarrow> nat \<times> room_shape" where
  "s_room_doc room S =
     (case map_get (s_docs S) room of
        Some d \<Rightarrow> (d, S)
      | None \<Rightarrow> (length (s_heap S),
          S\<lparr>s_heap := s_heap S @ [\<lparr>s_room = room, s_members = [], s_loaded = False, s_waiting = [], s_timers = False\<rparr>],
            s_docs := map_set room (length (s_heap S)) (s_docs S)\<rparr>))"

definition s_join :: "nat \<Rightarrow> string \<Rightarrow> room_shape \<Rightarrow> room_shape" where
  "s_join c room S =
     (case s_room_doc room S of
        (d, S1) \<Rightarrow>
          let S2 = s_conn c (\<lambda>k. k\<lparr>cn_setup := SetupDone, cn_doc := Some d\<rparr>) S1
          in if s_loaded (s_heap S2 ! d) then s_admit d c S2
             else s_doc d (\<lambda>x. x\<lparr>s_waiting := s_waiting x @ [c]\<rparr>) S2)"

definition s_finish :: "nat \<Rightarrow> room_shape \<Rightarrow> room_shape" where
  "s_finish d S = fold (s_admit d) (s_waiting (s_heap S ! d)) (s_doc d (\<lambda>x. x\<lparr>s_loaded := True, s_waiting := []\<rparr>) S)"

definition s_leave :: "nat \<Rightarrow> nat \<Rightarrow> room_shape \<Rightarrow> room_shape" where
  "s_leave c d S =
     (if c \<notin> set (s_members (s_heap S ! d)) then S
      else let S1 = s_doc d (\<lambda>x. x\<lparr>s_members := removeAll c (s_members x)\<rparr>) S
           in if s_members (s_heap S1 ! d) = [] then s_doc d (\<lambda>x. x\<lparr>s_timers := True\<rparr>) S1 else S1)"

definition s_close :: "nat \<Rightarrow> room_shape \<Rightarrow> room_shape" where
  "s_close c S =
     (let k = s_conns S ! c;
          S1 = s_conn c (\<lambda>k. k\<lparr>cn_closed := True, cn_open := False\<rparr>) S;
          S2 = (case cn_doc k of None \<Rightarrow> S1 | Some d \<Rightarrow> s_leave c d S1)
      in if decDone k then S2 else s_conn c (\<lambda>k. k\<lparr>decDone := True\<rparr>) (S2\<lparr>s_active := s_active S2 - 1\<rparr>))"

definition s_arrive :: "nat \<Rightarrow> collab_message \<Rightarrow> room_shape \<Rightarrow> room_shape" where
  "s_arrive c message S =
     (if cn_ready (s_conns S ! c) \<and> cn_doc (s_conns S ! c) \<noteq> None
      then S\<lparr>s_handled := s_handled S @ [(c, message)]\<rparr>
      else s_conn c (\<lambda>k. k\<lparr>pendingMessages := pendingMessages k @ [message]\<rparr>) S)"

definition s_open :: "string \<Rightarrow> string option \<Rightarrow> room_shape \<Rightarrow> room_shape" where
  "s_open cookie room S =
     S\<lparr>s_active := s_active S + 1,
       s_conns := s_conns S @ [\<lparr>cn_cookie = cookie, cn_room = room, cn_setup = Starting, cn_open = True,
         pendingMessages = [], cn_doc = None, cn_ready = False, cn_closed = False, decDone = False\<rparr>]\<rparr>"

inductive room_step :: "(nat \<times> collab_message) list \<Rightarrow> room_shape \<Rightarrow> room_shape \<Rightarrow> bool" where
  idle: "room_step [] S S"
| opens: "room_step [] S (s_open cookie room S)"
| refused: "c < length (s_conns S) \<Longrightarrow>
    room_step [] S (s_conn c (\<lambda>k. k\<lparr>cn_setup := SetupDone, cn_open := False\<rparr>) S)"
| asks: "c < length (s_conns S) \<Longrightarrow> cn_setup (s_conns S ! c) = Starting \<Longrightarrow> cn_room (s_conns S ! c) \<noteq> None \<Longrightarrow>
    room_step [] S (s_conn c (\<lambda>k. k\<lparr>cn_setup := AskTeam code\<rparr>) S)"
| joins: "c < length (s_conns S) \<Longrightarrow> cn_setup (s_conns S ! c) \<noteq> SetupDone \<Longrightarrow> cn_room (s_conns S ! c) = Some room \<Longrightarrow>
    room_step [] S (s_join c room S)"
| loads: "d < length (s_heap S) \<Longrightarrow> \<not> s_loaded (s_heap S ! d) \<Longrightarrow> room_step [] S (s_finish d S)"
| arrives: "c < length (s_conns S) \<Longrightarrow> room_step [(c, message)] S (s_arrive c message S)"
| shuts: "room_step [] S (s_conn c (\<lambda>k. k\<lparr>cn_open := False\<rparr>) S)"
| leaves: "c < length (s_conns S) \<Longrightarrow> room_step [] S (s_close c S)"
| ticks: "d < length (s_heap S) \<Longrightarrow> s_timers (s_heap S ! d) \<Longrightarrow>
    room_step [] S (s_doc d (\<lambda>x. x\<lparr>s_timers := b\<rparr>) S)"
| expires: "d < length (s_heap S) \<Longrightarrow> s_timers (s_heap S ! d) \<Longrightarrow> s_members (s_heap S ! d) = [] \<Longrightarrow>
    map_get (s_docs S) (s_room (s_heap S ! d)) = Some d \<Longrightarrow>
    room_step [] S ((s_doc d (\<lambda>x. x\<lparr>s_timers := b\<rparr>) S)\<lparr>s_docs := map_del (s_room (s_heap S ! d)) (s_docs S)\<rparr>)"

section \<open>The server refines the machine\<close>

named_theorems shape_simps \<open>the shape of the state after an operation\<close>

lemma shape_sel [simp]:
  "s_docs (shape st) = docs st" "s_heap (shape st) = map doc_shape (heap st)" "s_conns (shape st) = conns st"
  "s_handled (shape st) = handled st" "s_active (shape st) = activeConnections st"
  by (simp_all add: shape_def)

lemma doc_shape_sel [simp]:
  "s_room (doc_shape x) = roomId x" "s_members (doc_shape x) = map fst (connections x)"
  "s_loaded (doc_shape x) = doc_loaded x" "s_waiting (doc_shape x) = waiting x"
  "s_timers (doc_shape x) = (cleanupTimers x \<noteq> [])"
  by (simp_all add: doc_shape_def)

lemma shape_upd_doc:
  assumes "doc_shape (f (heap st ! d)) = g (doc_shape (heap st ! d))"
  shows "shape (upd_doc d f st) = s_doc d g (shape st)"
proof (cases "d < length (heap st)")
  case True
  with assms show ?thesis by (simp add: shape_def upd_doc_def s_doc_def map_update)
next
  case False
  then show ?thesis by (simp add: shape_def upd_doc_def s_doc_def list_update_beyond)
qed

lemma shape_same_doc:
  assumes "doc_shape (f (heap st ! d)) = doc_shape (heap st ! d)"
  shows "shape (upd_doc d f st) = shape st"
proof -
  have "xs[d := xs ! d] = xs" for xs :: "doc_shape list" by simp
  with shape_upd_doc [of f st d "\<lambda>x. x"] assms show ?thesis by (simp add: s_doc_def)
qed

lemma shape_upd_conn [shape_simps]: "shape (upd_conn c f st) = s_conn c f (shape st)"
  by (simp add: shape_def upd_conn_def s_conn_def)

lemma shape_content [shape_simps]:
  "shape (upd_doc d (\<lambda>x. x\<lparr>ydoc := y\<rparr>) st) = shape st"
  "shape (upd_doc d (\<lambda>x. x\<lparr>awareness := a\<rparr>) st) = shape st"
  "shape (upd_doc d (\<lambda>x. x\<lparr>doc_updatedAt := t\<rparr>) st) = shape st"
  "shape (upd_doc d (\<lambda>x. x\<lparr>persistTimer := b\<rparr>) st) = shape st"
  "shape (upd_doc d (\<lambda>x. x\<lparr>lastSnapshotMtimeMs := t\<rparr>) st) = shape st"
  "shape (upd_doc d (\<lambda>x. x\<lparr>lastSnapshotVersion := t\<rparr>) st) = shape st"
  "shape (upd_doc d (\<lambda>x. x\<lparr>lastSnapshotMtimeMs := int_or t (lastSnapshotMtimeMs x)\<rparr>) st) = shape st"
  "shape (upd_doc d (\<lambda>x. x\<lparr>snapshotSyncTimer := b, persistTimer := b'\<rparr>) st) = shape st"
  "shape (broadcast d payload skip st) = shape st"
  "shape (publishCollaborationEvent ops room kind payload st) = shape st"
  "shape (send_to c payload st) = shape st"
  "shape (st\<lparr>snapshots := sn\<rparr>) = shape st"
  "shape (st\<lparr>auths := au\<rparr>) = shape st"
  "shape (st\<lparr>teams := te\<rparr>) = shape st"
  "shape (st\<lparr>closes := cl\<rparr>) = shape st"
  "shape (st\<lparr>auths := au, teams := te, builds := bu\<rparr>) = shape st"
  by (simp_all add: shape_same_doc doc_shape_def) (simp_all add: shape_def broadcast_def
      publishCollaborationEvent_def send_to_def)

lemma shape_on_doc_update [shape_simps]: "shape (on_doc_update ops now u origin d st) = shape st"
  by (simp add: on_doc_update_def Let_def shape_simps)

lemma shape_apply_doc [shape_simps]: "shape (snd (apply_doc ops now p origin d st)) = shape st"
  by (simp add: apply_doc_def Let_def shape_simps split: option.split)

lemma heap_upd_doc: "heap (upd_doc d f st) = (heap st)[d := f (heap st ! d)]"
  by (simp add: upd_doc_def)

lemma shape_outside: "length (heap st) \<le> d \<Longrightarrow> shape (upd_doc d f st) = shape st"
  by (simp add: shape_def upd_doc_def list_update_beyond)

lemma map_set_keys: "map_get m c = Some v \<Longrightarrow> map fst (map_set c w m) = map fst m"
  by (simp add: update_keys) (metis map_of_eq_None_iff option.simps(3) set_map)

lemma shape_on_awareness [shape_simps]: "shape (on_awareness ops now change origin d st) = shape st"
proof (cases "d < length (heap st)")
  case True
  then show ?thesis
    by (auto simp: on_awareness_def Let_def shape_simps doc_shape_def heap_upd_doc map_set_keys
        intro!: trans [OF shape_same_doc] split: prod.split origin.split option.split)
next
  case False
  then show ?thesis
    by (simp add: on_awareness_def Let_def shape_simps shape_outside heap_upd_doc
        split: prod.split origin.split option.split)
qed

lemma shape_awareness [shape_simps]:
  "shape (apply_awareness ops now p origin d st) = shape st"
  "shape (awareness_tick ops now d st) = shape st"
  by (simp_all add: apply_awareness_def awareness_tick_def Let_def shape_simps split: option.split prod.split)

lemma shape_persist [shape_simps]: "shape (persistDocState ops now d st) = shape st"
  by (simp add: persistDocState_def Let_def shape_simps)

lemma shape_load [shape_simps]: "shape (loadDocState ops now d st) = shape st"
proof -
  have "shape st1 = shape st" if "apply_doc ops now p NoOrigin d st = (b, st1)" for b p st1
    using shape_apply_doc [of ops now p NoOrigin d st] that by simp
  then show ?thesis
    by (auto simp: loadDocState_def shape_simps split: option.split prod.split bool.split)
qed

lemma shape_sync [shape_simps]: "shape (syncDocStateFromDisk ops now d st) = shape st"
  by (simp add: syncDocStateFromDisk_def Let_def shape_simps split: option.split)

lemma shape_redis [shape_simps]: "shape (redis_message ops now room sender kind p st) = shape st"
  by (simp add: redis_message_def shape_simps split: option.split)

lemma shape_join_message [shape_simps]: "shape (join_message ops now c d p st) = shape st"
  by (simp add: join_message_def sendCurrentState_def Let_def shape_simps split: prod.split jsval.split)

lemma shape_process [shape_simps]:
  "shape (processConnectionMessage ops now c d m st) = (shape st)\<lparr>s_handled := handled st @ [(c, m)]\<rparr>"
proof -
  have "shape (st\<lparr>handled := h\<rparr>) = (shape st)\<lparr>s_handled := h\<rparr>" for h by (simp add: shape_def)
  then show ?thesis
    by (auto simp: processConnectionMessage_def Let_def shape_simps split: collab_message.split list.split option.split)
qed

lemma shape_process_all:
  "shape (fold (processConnectionMessage ops now c d) ms st) =
     (shape st)\<lparr>s_handled := handled st @ map (Pair c) ms\<rparr>"
proof (induction ms arbitrary: st)
  case Nil
  show ?case by (simp add: shape_def)
next
  case (Cons m ms)
  have "handled (processConnectionMessage ops now c d m st) = handled st @ [(c, m)]"
    using arg_cong [OF shape_process [of ops now c d m st], of s_handled] by simp
  with Cons show ?case by (simp add: shape_simps)
qed

lemma shape_add_member:
  "shape (upd_doc d (\<lambda>x. x\<lparr>connections := map_set c [] (connections x), doc_updatedAt := now\<rparr>) st)
     = s_doc d (\<lambda>x. x\<lparr>s_members := set_add c (s_members x)\<rparr>) (shape st)"
  by (rule shape_upd_doc) (simp add: doc_shape_def update_keys set_add_def)

lemma handled_upd [simp]: "handled (upd_doc d f st) = handled st" "handled (upd_conn c g st) = handled st"
  by (simp_all add: upd_doc_def upd_conn_def)

lemma shape_admit [shape_simps]: "shape (admit ops now d c st) = s_admit d c (shape st)"
  by (simp add: admit_def s_admit_def Let_def shape_process_all shape_simps shape_add_member)

lemma shape_admit_all: "shape (fold (admit ops now d) cs st) = fold (s_admit d) cs (shape st)"
  by (induction cs arbitrary: st) (simp_all add: shape_simps)

lemma shape_room_doc:
  "getOrCreateDoc ops now room st = (d, st1) \<Longrightarrow> s_room_doc room (shape st) = (d, shape st1)"
  by (auto simp: getOrCreateDoc_def s_room_doc_def shape_def doc_shape_def new_doc_def split: option.splits)

lemma room_doc_valid:
  assumes "s_room_doc room S = (d, S1)" and "\<And>r d. map_get (s_docs S) r = Some d \<Longrightarrow> d < length (s_heap S)"
  shows "d < length (s_heap S1)"
  using assms by (auto simp: s_room_doc_def split: option.splits)

text \<open>What holds of every state the machine reaches.\<close>

definition docs_ok :: "room_shape \<Rightarrow> bool" where
  "docs_ok S = (\<forall>r d. map_get (s_docs S) r = Some d \<longrightarrow> d < length (s_heap S) \<and> s_room (s_heap S ! d) = r)"

definition doc_ok :: "room_shape \<Rightarrow> nat \<Rightarrow> doc_shape \<Rightarrow> bool" where
  "doc_ok S d x =
     ((s_members x \<noteq> [] \<longrightarrow> s_loaded x) \<and> (s_waiting x \<noteq> [] \<longrightarrow> \<not> s_loaded x) \<and> (s_timers x \<longrightarrow> s_loaded x)
      \<and> (s_members x \<noteq> [] \<or> \<not> s_loaded x \<longrightarrow> map_get (s_docs S) (s_room x) = Some d)
      \<and> (\<forall>c \<in> set (s_members x) \<union> set (s_waiting x).
           c < length (s_conns S) \<and> cn_doc (s_conns S ! c) = Some d))"

definition conn_ok :: "room_shape \<Rightarrow> nat \<Rightarrow> collab_conn \<Rightarrow> bool" where
  "conn_ok S c k =
     ((cn_setup k \<noteq> SetupDone \<longrightarrow> cn_doc k = None) \<and> (cn_doc k = None \<longrightarrow> \<not> cn_ready k)
      \<and> (\<forall>code. cn_setup k = AskTeam code \<longrightarrow> cn_room k \<noteq> None)
      \<and> (cn_ready k \<longrightarrow> pendingMessages k = []) \<and> decDone k = cn_closed k
      \<and> (\<forall>d. cn_doc k = Some d \<longrightarrow> d < length (s_heap S) \<and> cn_room k = Some (s_room (s_heap S ! d))
           \<and> (cn_ready k \<and> \<not> cn_closed k \<longrightarrow> c \<in> set (s_members (s_heap S ! d)))))"

definition rooms_ok :: "room_shape \<Rightarrow> bool" where
  "rooms_ok S = (docs_ok S \<and> (\<forall>d < length (s_heap S). doc_ok S d (s_heap S ! d))
     \<and> (\<forall>c < length (s_conns S). conn_ok S c (s_conns S ! c))
     \<and> s_active S = int (card {c. c < length (s_conns S) \<and> \<not> decDone (s_conns S ! c)}))"

lemma shape_join:
  assumes "docs_ok (shape st)"
  shows "shape (join_room ops now c room st) = s_join c room (shape st)"
proof -
  obtain d st1 where g: "getOrCreateDoc ops now room st = (d, st1)" by (cases "getOrCreateDoc ops now room st")
  note s = shape_room_doc [OF g]
  have d: "d < length (heap st1)"
    using room_doc_valid [OF s] assms unfolding docs_ok_def by auto
  have wait: "shape (upd_doc d (\<lambda>x. x\<lparr>waiting := waiting x @ [c]\<rparr>) t)
      = s_doc d (\<lambda>x. x\<lparr>s_waiting := s_waiting x @ [c]\<rparr>) (shape t)" for t :: "('a, 'b, 'c) collab"
    by (rule shape_upd_doc) (simp add: doc_shape_def)
  have "s_loaded (s_heap (s_conn c f (shape st1)) ! d) = doc_loaded (heap (upd_conn c f st1) ! d)" for f
    using d by (simp add: s_conn_def upd_conn_def)
  then show ?thesis
    unfolding join_room_def s_join_def g s prod.case Let_def by (simp add: shape_simps wait)
qed

lemma shape_finish:
  assumes "d < length (heap st)" and "\<not> doc_loaded (heap st ! d)"
  shows "shape (finish_load ops now d st) = s_finish d (shape st)"
proof -
  let ?st = "loadDocState ops now d st"
  have same: "shape ?st = shape st" by (simp add: shape_simps)
  then have "map doc_shape (heap ?st) = map doc_shape (heap st)" by (metis shape_sel(2))
  then have "doc_shape (heap ?st ! d) = doc_shape (heap st ! d)" using assms(1) by (metis length_map nth_map)
  then have w: "waiting (heap ?st ! d) = waiting (heap st ! d)" by (metis doc_shape_sel(4))
  have "shape (upd_doc d (\<lambda>x. x\<lparr>doc_loaded := True, waiting := []\<rparr>) t)
      = s_doc d (\<lambda>x. x\<lparr>s_loaded := True, s_waiting := []\<rparr>) (shape t)" for t :: "('a, 'b, 'c) collab"
    by (rule shape_upd_doc) (simp add: doc_shape_def)
  with assms same w show ?thesis by (simp add: finish_load_def s_finish_def Let_def shape_admit_all)
qed

lemma shape_leave:
  fixes st :: "('a, 'b, 'c) collab"
  assumes "d < length (heap st)"
  shows "shape (closeConnection ops now c d st) = s_leave c d (shape st)"
proof (cases "map_get (connections (heap st ! d)) c")
  case None
  then have "c \<notin> set (map fst (connections (heap st ! d)))" by (simp add: map_of_eq_None_iff)
  then show ?thesis using assms unfolding closeConnection_def None by (simp add: s_leave_def)
next
  case (Some ids)
  have member: "c \<in> set (map fst (connections (heap st ! d)))"
    using Some by (metis map_of_eq_None_iff option.simps(3) set_map)
  let ?gone = "\<lambda>x. x\<lparr>s_members := removeAll c (s_members x)\<rparr>"
  have del: "shape (upd_doc d (\<lambda>x. x\<lparr>connections := map_del c (connections x)\<rparr>) st) = s_doc d ?gone (shape st)"
    by (rule shape_upd_doc) (simp add: doc_shape_def delete_keys)
  have timer: "shape (scheduleDocCleanup now d t) = s_doc d (\<lambda>x. x\<lparr>s_timers := True\<rparr>) (shape t)"
    for t :: "('a, 'b, 'c) collab"
    unfolding scheduleDocCleanup_def by (rule shape_upd_doc) (simp add: doc_shape_def)
  have last: "shape (if connections (heap t ! d) = [] then scheduleDocCleanup now d t else t) = s_leave c d (shape st)"
    if t: "shape t = s_doc d ?gone (shape st)" for t :: "('a, 'b, 'c) collab"
  proof -
    have "length (s_heap (shape t)) = length (heap st)" unfolding t by (simp add: s_doc_def)
    then have "s_members (s_heap (shape t) ! d) = map fst (connections (heap t ! d))" using assms by simp
    then have "connections (heap t ! d) = [] \<longleftrightarrow> s_members (s_heap (shape t) ! d) = []" by simp
    then show ?thesis using assms member by (simp add: timer s_leave_def Let_def t)
  qed
  show ?thesis
    unfolding closeConnection_def Some option.case Let_def
    by (rule last) (simp add: shape_simps del split: prod.split option.split)
qed

text \<open>The state of the machine when a document is valid.\<close>

lemma conn_docD:
  assumes "rooms_ok S" and "c < length (s_conns S)" and "cn_doc (s_conns S ! c) = Some d"
  shows "d < length (s_heap S)"
  using assms by (simp add: rooms_ok_def conn_ok_def)

lemma shape_close:
  assumes "rooms_ok (shape st)" and "c < length (conns st)"
  shows "shape (on_close ops now c st) = s_close c (shape st)"
proof -
  have active: "shape (st\<lparr>activeConnections := n\<rparr>) = (shape st)\<lparr>s_active := n\<rparr>" for st :: "('a, 'b, 'c) collab" and n
    by (simp add: shape_def)
  have heap_conn: "heap (upd_conn c f st) = heap st" for f by (simp add: upd_conn_def)
  have "shape (closeConnection ops now c d (upd_conn c f st)) = s_leave c d (s_conn c f (shape st))"
    if "cn_doc (conns st ! c) = Some d" for d f
    using conn_docD [OF assms(1), of c d] assms(2) that by (simp add: shape_leave heap_conn shape_simps)
  moreover have "activeConnections t = s_active (shape t)" for t :: "('a, 'b, 'c) collab" by simp
  ultimately show ?thesis
    by (simp add: on_close_def s_close_def Let_def shape_simps active del: shape_sel(5) split: option.split)
qed

lemma shape_message:
  "shape (on_message ops now c m st) = s_arrive c m (shape st)"
  by (auto simp: on_message_def s_arrive_def Let_def shape_simps split: option.split bool.split)

lemma shape_open: "shape (open_conn cookie room st) = s_open cookie room (shape st)"
  by (simp add: open_conn_def s_open_def shape_def)

lemma shape_refuse: "shape (refuse c code reason st) = s_conn c (\<lambda>k. k\<lparr>cn_setup := SetupDone, cn_open := False\<rparr>) (shape st)"
  by (simp add: refuse_def shape_simps)

lemma shape_conns: "shape st = shape st' \<Longrightarrow> conns st = conns st'"
  by (metis shape_sel(3))

text \<open>
  The user a connection speaks for: the login of the live session, with a token, that the
  cookie of its request names.
\<close>

definition conn_login :: "int \<Rightarrow> string \<Rightarrow> auth_store \<Rightarrow> jsval option" where
  "conn_login now cookie st =
     (case live_session now \<lparr>hdr_authorization = None, hdr_cookie = cookie, req_accessToken = [],
                             req_authSession = None\<rparr> st of
        None \<Rightarrow> None
      | Some s \<Rightarrow>
          if accessToken s \<noteq> [] \<and> truthy (get_prop (session_user s) ''login'')
          then Some (get_prop (session_user s) ''login'') else None)"

text \<open>The setup: what its two answers do to the shape.\<close>

lemma authenticate_cases:
  assumes "rooms_ok (shape st)" and "k = conns st ! c"
  shows "shape (authenticate_conn ops now c st) = s_conn c (\<lambda>k. k\<lparr>cn_setup := SetupDone, cn_open := False\<rparr>) (shape st)
    \<or> (\<exists>r login. cn_room k = Some r \<and> conn_login now (cn_cookie k) (auths st) = Some login
         \<and> starts_with TEAM_ROOM_PREFIX r
         \<and> shape (authenticate_conn ops now c st) = s_conn c (\<lambda>k. k\<lparr>cn_setup := AskTeam (team_room_code r)\<rparr>) (shape st))
    \<or> (\<exists>r owner. cn_room k = Some r \<and> \<not> starts_with TEAM_ROOM_PREFIX r \<and> builds st r = Some owner
         \<and> conn_login now (cn_cookie k) (auths st) = Some (JStr (creatorLogin owner))
         \<and> shape (authenticate_conn ops now c st) = s_join c r (shape st))"
proof (cases "getSessionFromRequest now (cn_cookie k) (auths st)")
  case None
  then show ?thesis using assms(2) by (simp add: authenticate_conn_def shape_refuse)
next
  case (Some found)
  obtain session a where found: "found = (session, a)" by (cases found)
  let ?req = "\<lparr>hdr_authorization = None, hdr_cookie = cn_cookie k, req_accessToken = [], req_authSession = None\<rparr>"
  have live: "session = map_option (\<lambda>s. s\<lparr>updatedAt := now\<rparr>) (live_session now ?req (auths st))"
    using session_from_request [of now ?req "auths st" session a] Some found by simp
  have "docs_ok (shape (st\<lparr>auths := a\<rparr>))" using assms(1) by (simp add: rooms_ok_def shape_simps)
  note join = shape_join [OF this]
  show ?thesis
  proof (cases "session \<noteq> None \<and> accessToken (the session) \<noteq> [] \<and> isValidRoomId (cn_room k)
      \<and> truthy (get_prop (session_user (the session)) ''login'')")
    case False
    then show ?thesis
      using Some found assms(2)
      by (cases session) (auto simp: authenticate_conn_def Let_def shape_refuse shape_simps)
  next
    case True
    then obtain s where s: "session = Some s" by auto
    obtain r where r: "cn_room k = Some r" using True by (auto simp: isValidRoomId_def split: option.splits)
    have login: "conn_login now (cn_cookie k) (auths st) = Some (get_prop (session_user s) ''login'')"
      using live True s by (auto simp: conn_login_def)
    show ?thesis
    proof (cases "starts_with TEAM_ROOM_PREFIX r")
      case prefix: True
      then show ?thesis
        using Some found s r True assms(2) login
        by (simp add: authenticate_conn_def Let_def shape_refuse shape_simps)
    next
      case False
      then show ?thesis
        using Some found s r True assms(2) login join [of ops now c r]
        by (cases "builds st r") (auto simp: authenticate_conn_def Let_def shape_refuse shape_simps)
    qed
  qed
qed

lemma authenticate_step:
  assumes "rooms_ok (shape st)" and "c < length (conns st)" and "cn_setup (conns st ! c) = Starting"
  shows "room_step [] (shape st) (shape (authenticate_conn ops now c st))"
  using authenticate_cases [OF assms(1) refl, of ops now c] assms(2,3)
  by (auto intro!: room_step.refused room_step.asks room_step.joins)

lemma team_cases:
  assumes "rooms_ok (shape st)" and "cn_room (conns st ! c) = Some r"
  shows "shape (team_looked_up ops redis now c code st) = s_conn c (\<lambda>k. k\<lparr>cn_setup := SetupDone, cn_open := False\<rparr>) (shape st)
    \<or> (fst (team_getSession redis now code (teams st)) \<noteq> None
        \<and> shape (team_looked_up ops redis now c code st) = s_join c r (shape st))"
proof -
  have "docs_ok (shape (st\<lparr>teams := t\<rparr>))" for t using assms(1) by (simp add: rooms_ok_def shape_simps)
  from shape_join [OF this] show ?thesis
    using assms(2) by (auto simp: team_looked_up_def Let_def shape_refuse shape_simps split: prod.split option.split)
qed

lemma team_step:
  assumes "rooms_ok (shape st)" and "c < length (conns st)" and "cn_setup (conns st ! c) = AskTeam code"
  shows "room_step [] (shape st) (shape (team_looked_up ops redis now c code st))"
proof -
  have "conn_ok (shape st) c (conns st ! c)" using assms(1,2) by (simp add: rooms_ok_def)
  then obtain r where r: "cn_room (conns st ! c) = Some r" using assms(3) by (auto simp: conn_ok_def)
  show ?thesis
    using team_cases [OF assms(1) r, of ops redis now code] assms(2,3) r
    by (auto intro!: room_step.refused room_step.joins)
qed

lemma cleanup_step:
  assumes "rooms_ok (shape st)" and "d < length (heap st)"
  shows "room_step [] (shape st) (shape (cleanup_due now d st))"
proof (cases "cleanupTimers (heap st ! d)")
  case Nil
  then show ?thesis by (simp add: cleanup_due_def room_step.idle)
next
  case (Cons due rest)
  have tick: "shape (upd_doc d (\<lambda>x. x\<lparr>cleanupTimers := rest\<rparr>) st) = s_doc d (\<lambda>x. x\<lparr>s_timers := (rest \<noteq> [])\<rparr>) (shape st)"
    by (rule shape_upd_doc) (simp add: doc_shape_def)
  have drop: "shape (t\<lparr>docs := m\<rparr>) = (shape t)\<lparr>s_docs := m\<rparr>" for t :: "('a, 'b, 'c) collab" and m
    by (simp add: shape_def)
  have timers: "d < length (s_heap (shape st))" "s_timers (s_heap (shape st) ! d)"
    using assms(2) Cons by simp_all
  have ticks: "room_step [] (shape st) (shape (upd_doc d (\<lambda>x. x\<lparr>cleanupTimers := rest\<rparr>) st))"
    unfolding tick using timers by (rule room_step.ticks)
  have expires: "room_step [] (shape st) (shape ((upd_doc d (\<lambda>x. x\<lparr>snapshotSyncTimer := False, persistTimer := False\<rparr>)
      (upd_doc d (\<lambda>x. x\<lparr>cleanupTimers := rest\<rparr>) st))\<lparr>docs := map_del (roomId (heap st ! d)) (docs st)\<rparr>))"
    if "map_get (docs st) (roomId (heap st ! d)) = Some d" and "connections (heap st ! d) = []"
    unfolding drop shape_content(8) tick
    using room_step.expires [OF timers, of "rest \<noteq> []"] that assms(2) by simp
  show ?thesis
    unfolding cleanup_due_def Cons list.case Let_def
    by (simp add: ticks expires room_step.idle del: map_of_eq_Some_iff)
qed

definition arrival :: "(int \<times> 'r collab_event) \<Rightarrow> ('y, 'a, 'r) collab \<Rightarrow> (nat \<times> collab_message) list" where
  "arrival ev st = (case snd ev of Arrives c m \<Rightarrow> if c < length (conns st) then [(c, m)] else [] | _ \<Rightarrow> [])"

text \<open>The simulation.\<close>

lemma collab_refines:
  assumes "rooms_ok (shape st)"
  shows "room_step (arrival ev st) (shape st) (shape (collab_step ops redis ev st))"
proof -
  obtain now e where ev: "ev = (now, e)" by (cases ev)
  show ?thesis
  proof (cases e)
    case (SessionAnswer c)
    then show ?thesis using authenticate_step [OF assms] by (simp add: ev arrival_def room_step.idle)
  next
    case (TeamAnswer c)
    then show ?thesis
      using team_step [OF assms] by (simp add: ev arrival_def room_step.idle split: setup_state.split)
  next
    case (Loaded d)
    have "doc_loaded (heap st ! d) \<Longrightarrow> finish_load ops now d st = st" by (simp add: finish_load_def)
    then show ?thesis
      using room_step.loads [of d "shape st"] Loaded
      by (cases "doc_loaded (heap st ! d)") (auto simp: ev arrival_def room_step.idle shape_finish)
  next
    case (Closes c)
    then show ?thesis
      using room_step.leaves [of c "shape st"] by (simp add: ev arrival_def room_step.idle shape_close [OF assms])
  next
    case (CleanupDue d)
    then show ?thesis using cleanup_step [OF assms] by (simp add: ev arrival_def room_step.idle)
  qed (auto simp: ev arrival_def shape_simps shape_open shape_message intro!: room_step.intros)
qed

section \<open>What the machine keeps\<close>

lemma rooms_okI:
  assumes "docs_ok S" and "\<And>d. d < length (s_heap S) \<Longrightarrow> doc_ok S d (s_heap S ! d)"
    and "\<And>c. c < length (s_conns S) \<Longrightarrow> conn_ok S c (s_conns S ! c)"
    and "s_active S = int (card {c. c < length (s_conns S) \<and> \<not> decDone (s_conns S ! c)})"
  shows "rooms_ok S"
  using assms by (simp add: rooms_ok_def)

lemma rooms_okD:
  assumes "rooms_ok S"
  shows "docs_ok S" and "d < length (s_heap S) \<Longrightarrow> doc_ok S d (s_heap S ! d)"
    and "c < length (s_conns S) \<Longrightarrow> conn_ok S c (s_conns S ! c)"
    and "s_active S = int (card {c. c < length (s_conns S) \<and> \<not> decDone (s_conns S ! c)})"
  using assms by (simp_all add: rooms_ok_def)

lemma s_sel [simp]:
  "s_docs (s_doc d f S) = s_docs S" "s_conns (s_doc d f S) = s_conns S" "s_handled (s_doc d f S) = s_handled S"
  "s_active (s_doc d f S) = s_active S" "s_heap (s_doc d f S) = (s_heap S)[d := f (s_heap S ! d)]"
  "s_docs (s_conn c g S) = s_docs S" "s_heap (s_conn c g S) = s_heap S" "s_handled (s_conn c g S) = s_handled S"
  "s_active (s_conn c g S) = s_active S" "s_conns (s_conn c g S) = (s_conns S)[c := g (s_conns S ! c)]"
  by (simp_all add: s_doc_def s_conn_def)

lemma nth_update_proj: "f y = f (xs ! c) \<Longrightarrow> f (xs[c := y] ! i) = f (xs ! i)"
  by (cases "c < length xs"; cases "i = c") (auto simp: list_update_beyond)

lemma nth_update_if: "xs[d := y] ! i = (if i = d \<and> d < length xs then y else xs ! i)"
  by (cases "i = d"; cases "d < length xs") (simp_all add: list_update_beyond)

text \<open>A change of one connection that leaves its document alone.\<close>

lemma rooms_ok_conn:
  assumes ok: "rooms_ok S" and k: "\<And>k. cn_doc (f k) = cn_doc k" "\<And>k. decDone (f k) = decDone k"
    and c: "c < length (s_conns S) \<Longrightarrow> conn_ok S c (f (s_conns S ! c))"
  shows "rooms_ok (s_conn c f S)"
proof (rule rooms_okI)
  have doc: "cn_doc ((s_conns S)[c := f (s_conns S ! c)] ! i) = cn_doc (s_conns S ! i)" for i
    by (rule nth_update_proj) (rule k(1))
  show "docs_ok (s_conn c f S)" using rooms_okD(1) [OF ok] by (simp add: docs_ok_def)
  show "doc_ok (s_conn c f S) d (s_heap (s_conn c f S) ! d)" if "d < length (s_heap (s_conn c f S))" for d
    using rooms_okD(2) [OF ok, of d] that by (simp add: doc_ok_def doc)
  show "conn_ok (s_conn c f S) c' (s_conns (s_conn c f S) ! c')" if "c' < length (s_conns (s_conn c f S))" for c'
  proof -
    have "conn_ok (s_conn c f S) c' k = conn_ok S c' k" for k by (simp add: conn_ok_def)
    then show ?thesis using rooms_okD(3) [OF ok, of c'] that c by (cases "c' = c") auto
  qed
  have "decDone ((s_conns S)[c := f (s_conns S ! c)] ! i) = decDone (s_conns S ! i)" for i
    by (rule nth_update_proj) (rule k(2))
  then show "s_active (s_conn c f S) = int (card {i. i < length (s_conns (s_conn c f S)) \<and> \<not> decDone (s_conns (s_conn c f S) ! i)})"
    using rooms_okD(4) [OF ok] by simp
qed

lemma conn_ok_mono:
  assumes "conn_ok S c k" and "length (s_heap S') = length (s_heap S)"
    and "\<And>i. s_room (s_heap S' ! i) = s_room (s_heap S ! i)"
    and "\<And>i. c \<in> set (s_members (s_heap S ! i)) \<Longrightarrow> c \<in> set (s_members (s_heap S' ! i)) \<or> cn_closed k"
  shows "conn_ok S' c k"
  using assms by (cases "cn_doc k") (auto simp: conn_ok_def)

text \<open>A change of one document that keeps its members.\<close>

lemma rooms_ok_doc:
  assumes ok: "rooms_ok S" and x: "\<And>x. s_room (f x) = s_room x"
    and keep: "\<And>c. c \<in> set (s_members (s_heap S ! d)) \<Longrightarrow> c \<in> set (s_members (f (s_heap S ! d))) \<or> cn_closed (s_conns S ! c)"
    and d: "d < length (s_heap S) \<Longrightarrow> doc_ok S d (f (s_heap S ! d))"
  shows "rooms_ok (s_doc d f S)"
proof (rule rooms_okI)
  have room: "s_room ((s_heap S)[d := f (s_heap S ! d)] ! i) = s_room (s_heap S ! i)" for i
    by (rule nth_update_proj) (rule x)
  show "docs_ok (s_doc d f S)" using rooms_okD(1) [OF ok] room by (simp add: docs_ok_def)
  show "doc_ok (s_doc d f S) i (s_heap (s_doc d f S) ! i)" if "i < length (s_heap (s_doc d f S))" for i
  proof -
    have "doc_ok (s_doc d f S) i x = doc_ok S i x" for x by (simp add: doc_ok_def)
    then show ?thesis using rooms_okD(2) [OF ok, of i] that d by (cases "i = d") auto
  qed
  show "conn_ok (s_doc d f S) c (s_conns (s_doc d f S) ! c)" if "c < length (s_conns (s_doc d f S))" for c
  proof -
    have members: "c \<in> set (s_members ((s_heap S)[d := f (s_heap S ! d)] ! i)) \<or> cn_closed (s_conns S ! c)"
      if "c \<in> set (s_members (s_heap S ! i))" for i
      unfolding nth_update_if using keep [of c] that by (cases "i = d") simp_all
    have "conn_ok S c (s_conns S ! c)" using rooms_okD(3) [OF ok, of c] that by simp
    then show ?thesis unfolding s_sel(2) by (rule conn_ok_mono) (simp_all only: s_sel room length_list_update members)
  qed
  show "s_active (s_doc d f S) = int (card {c. c < length (s_conns (s_doc d f S)) \<and> \<not> decDone (s_conns (s_doc d f S) ! c)})"
    using rooms_okD(4) [OF ok] by simp
qed

lemma rooms_ok_handled: "rooms_ok (S\<lparr>s_handled := h\<rparr>) = rooms_ok S"
  by (simp add: rooms_ok_def docs_ok_def doc_ok_def conn_ok_def)

lemma admit_ok:
  assumes ok: "rooms_ok S" and d: "d < length (s_heap S)" "s_loaded (s_heap S ! d)"
    "map_get (s_docs S) (s_room (s_heap S ! d)) = Some d"
    and c: "c < length (s_conns S)" "cn_doc (s_conns S ! c) = Some d"
  shows "rooms_ok (s_admit d c S)"
proof -
  have k: "conn_ok S c (s_conns S ! c)" using rooms_okD(3) [OF ok c(1)] .
  have 1: "rooms_ok (s_conn c (\<lambda>k. k\<lparr>cn_setup := SetupDone\<rparr>) S)"
    by (rule rooms_ok_conn [OF ok]) (use k in \<open>auto simp: conn_ok_def\<close>)
  have 2: "rooms_ok (s_doc d (\<lambda>x. x\<lparr>s_members := set_add c (s_members x)\<rparr>) (s_conn c (\<lambda>k. k\<lparr>cn_setup := SetupDone\<rparr>) S))"
    (is "rooms_ok ?S2")
    by (rule rooms_ok_doc [OF 1]) (use rooms_okD(2) [OF 1, of d] d c in \<open>auto simp: doc_ok_def set_add_def\<close>)
  have "rooms_ok (s_conn c (\<lambda>k. k\<lparr>cn_ready := True, pendingMessages := []\<rparr>) ?S2)"
    by (rule rooms_ok_conn [OF 2]) (use rooms_okD(3) [OF 2, of c] d c in \<open>auto simp: conn_ok_def set_add_def\<close>)
  with 1 show ?thesis by (simp add: s_admit_def Let_def rooms_ok_handled)
qed

lemma admit_sel:
  "s_docs (s_admit d c S) = s_docs S" "length (s_heap (s_admit d c S)) = length (s_heap S)"
  "length (s_conns (s_admit d c S)) = length (s_conns S)"
  "s_room (s_heap (s_admit d c S) ! i) = s_room (s_heap S ! i)"
  "s_loaded (s_heap (s_admit d c S) ! i) = s_loaded (s_heap S ! i)"
  "cn_doc (s_conns (s_admit d c S) ! j) = cn_doc (s_conns S ! j)"
  by (simp_all add: s_admit_def Let_def nth_update_proj)

lemma admit_all_ok:
  assumes "rooms_ok S" "d < length (s_heap S)" "s_loaded (s_heap S ! d)"
    "map_get (s_docs S) (s_room (s_heap S ! d)) = Some d"
    "\<forall>c \<in> set cs. c < length (s_conns S) \<and> cn_doc (s_conns S ! c) = Some d"
  shows "rooms_ok (fold (s_admit d) cs S)"
  using assms
proof (induction cs arbitrary: S)
  case (Cons c cs)
  have "rooms_ok (s_admit d c S)" using Cons.prems by (intro admit_ok) auto
  with Cons show ?case by (simp add: admit_sel del: map_of_eq_Some_iff)
qed simp

lemma finish_ok:
  assumes ok: "rooms_ok S" and d: "d < length (s_heap S)" "\<not> s_loaded (s_heap S ! d)"
  shows "rooms_ok (s_finish d S)"
proof -
  note x = rooms_okD(2) [OF ok d(1)]
  have "rooms_ok (s_doc d (\<lambda>x. x\<lparr>s_loaded := True, s_waiting := []\<rparr>) S)"
    by (rule rooms_ok_doc [OF ok]) (use x d in \<open>auto simp: doc_ok_def\<close>)
  moreover have "map_get (s_docs S) (s_room (s_heap S ! d)) = Some d" using x d by (simp add: doc_ok_def)
  moreover have "\<forall>c \<in> set (s_waiting (s_heap S ! d)). c < length (s_conns S) \<and> cn_doc (s_conns S ! c) = Some d"
    using x by (simp add: doc_ok_def)
  ultimately show ?thesis
    unfolding s_finish_def using d by (intro admit_all_ok) (simp_all del: map_of_eq_Some_iff)
qed

lemma room_doc_ok:
  assumes ok: "rooms_ok S" and r: "s_room_doc room S = (d, S1)"
  shows "rooms_ok S1 \<and> d < length (s_heap S1) \<and> s_room (s_heap S1 ! d) = room \<and> map_get (s_docs S1) room = Some d
    \<and> s_conns S1 = s_conns S"
proof (cases "map_get (s_docs S) room")
  case (Some e)
  then show ?thesis using r ok rooms_okD(1) [OF ok] by (simp add: s_room_doc_def docs_ok_def del: map_of_eq_Some_iff)
next
  case None
  have S1: "S1 = S\<lparr>s_heap := s_heap S @ [\<lparr>s_room = room, s_members = [], s_loaded = False, s_waiting = [], s_timers = False\<rparr>],
      s_docs := map_set room (length (s_heap S)) (s_docs S)\<rparr>" and d: "d = length (s_heap S)"
    using r None by (auto simp: s_room_doc_def)
  have other: "map_get (s_docs S) r = Some i \<Longrightarrow> r \<noteq> room" for r i using None by auto
  have "rooms_ok S1"
  proof (rule rooms_okI)
    show "docs_ok S1" using rooms_okD(1) [OF ok]
      by (auto simp: S1 docs_ok_def nth_append less_Suc_eq simp del: map_of_eq_Some_iff)
    show "doc_ok S1 i (s_heap S1 ! i)" if "i < length (s_heap S1)" for i
      using rooms_okD(2) [OF ok, of i] that other
      by (auto simp: S1 doc_ok_def nth_append less_Suc_eq simp del: map_of_eq_Some_iff)
    show "conn_ok S1 c (s_conns S1 ! c)" if "c < length (s_conns S1)" for c
      using rooms_okD(3) [OF ok, of c] that by (auto simp: S1 conn_ok_def nth_append)
    show "s_active S1 = int (card {c. c < length (s_conns S1) \<and> \<not> decDone (s_conns S1 ! c)})"
      using rooms_okD(4) [OF ok] by (simp add: S1)
  qed
  then show ?thesis by (simp add: S1 d)
qed

lemma join_ok:
  assumes ok: "rooms_ok S" and c: "c < length (s_conns S)" "cn_setup (s_conns S ! c) \<noteq> SetupDone"
    "cn_room (s_conns S ! c) = Some room"
  shows "rooms_ok (s_join c room S)"
proof -
  obtain d S1 where r: "s_room_doc room S = (d, S1)" by (cases "s_room_doc room S")
  note S1 = room_doc_ok [OF ok r]
  let ?S2 = "s_conn c (\<lambda>k. k\<lparr>cn_setup := SetupDone, cn_doc := Some d\<rparr>) S1"
  have k: "cn_doc (s_conns S1 ! c) = None" "conn_ok S1 c (s_conns S1 ! c)"
    using rooms_okD(3) [of S1 c] S1 c by (auto simp: conn_ok_def)
  have apart: "c \<notin> set (s_members (s_heap S1 ! i)) \<union> set (s_waiting (s_heap S1 ! i))" if "i < length (s_heap S1)" for i
    using rooms_okD(2) [of S1 i] S1 that k(1) by (auto simp: doc_ok_def)
  have 2: "rooms_ok ?S2"
  proof (rule rooms_okI)
    show "docs_ok ?S2" using rooms_okD(1) [of S1] S1 by (simp add: docs_ok_def)
    show "doc_ok ?S2 i (s_heap ?S2 ! i)" if "i < length (s_heap ?S2)" for i
    proof -
      have "cn_doc (s_conns ?S2 ! e) = cn_doc (s_conns S1 ! e)"
        if "e \<in> set (s_members (s_heap S1 ! i)) \<union> set (s_waiting (s_heap S1 ! i))" for e
        using apart [of i] that \<open>i < length (s_heap ?S2)\<close> by (cases "e = c") auto
      then show ?thesis using rooms_okD(2) [of S1 i] S1 that by (simp add: doc_ok_def)
    qed
    show "conn_ok ?S2 e (s_conns ?S2 ! e)" if "e < length (s_conns ?S2)" for e
    proof (cases "e = c")
      case True
      then show ?thesis using k c S1 by (simp add: conn_ok_def)
    next
      case False
      have "conn_ok ?S2 e x = conn_ok S1 e x" for x by (simp add: conn_ok_def)
      then show ?thesis using rooms_okD(3) [of S1 e] S1 that False by simp
    qed
    have "decDone ((s_conns S1)[c := (s_conns S1 ! c)\<lparr>cn_setup := SetupDone, cn_doc := Some d\<rparr>] ! i) = decDone (s_conns S1 ! i)" for i
      by (rule nth_update_proj) simp
    then show "s_active ?S2 = int (card {i. i < length (s_conns ?S2) \<and> \<not> decDone (s_conns ?S2 ! i)})"
      using rooms_okD(4) [of S1] S1 by simp
  qed
  have wait: "rooms_ok (s_doc d (\<lambda>x. x\<lparr>s_waiting := s_waiting x @ [c]\<rparr>) ?S2)" if "\<not> s_loaded (s_heap ?S2 ! d)"
    by (rule rooms_ok_doc [OF 2]) (use rooms_okD(2) [OF 2, of d] S1 c that in \<open>auto simp: doc_ok_def\<close>)
  have "rooms_ok (s_admit d c ?S2)" if "s_loaded (s_heap ?S2 ! d)"
    using S1 c that by (intro admit_ok [OF 2]) (simp_all del: map_of_eq_Some_iff)
  with wait show ?thesis by (simp add: s_join_def r Let_def)
qed

lemma leave_ok:
  assumes ok: "rooms_ok S" and closed: "cn_closed (s_conns S ! c)"
  shows "rooms_ok (s_leave c d S)"
proof (cases "d < length (s_heap S)")
  case True
  note x = rooms_okD(2) [OF ok True]
  let ?S2 = "s_doc d (\<lambda>x. x\<lparr>s_members := removeAll c (s_members x)\<rparr>) S"
  have 2: "rooms_ok ?S2"
    by (rule rooms_ok_doc [OF ok]) (use x closed in \<open>auto simp: doc_ok_def\<close>)
  have "rooms_ok (s_doc d (\<lambda>x. x\<lparr>s_timers := True\<rparr>) ?S2)" if "c \<in> set (s_members (s_heap S ! d))"
    by (rule rooms_ok_doc [OF 2]) (use rooms_okD(2) [OF 2, of d] x True that in \<open>auto simp: doc_ok_def\<close>)
  with ok 2 show ?thesis unfolding s_leave_def Let_def by simp
next
  case False
  then have "s_doc d f S = S" for f by (simp add: s_doc_def list_update_beyond)
  with ok show ?thesis by (simp add: s_leave_def Let_def)
qed

lemma close_ok:
  assumes ok: "rooms_ok S" and c: "c < length (s_conns S)"
  shows "rooms_ok (s_close c S)"
proof -
  let ?k = "s_conns S ! c"
  have k: "conn_ok S c ?k" using rooms_okD(3) [OF ok c] .
  text \<open>The connection is marked, with its share of the gauge.\<close>
  let ?S1 = "if decDone ?k then s_conn c (\<lambda>k. k\<lparr>cn_closed := True, cn_open := False\<rparr>) S
             else (s_conn c (\<lambda>k. k\<lparr>cn_closed := True, cn_open := False, decDone := True\<rparr>) S)\<lparr>s_active := s_active S - 1\<rparr>"
  have 1: "rooms_ok ?S1"
  proof (cases "decDone ?k")
    case True
    then have "rooms_ok (s_conn c (\<lambda>k. k\<lparr>cn_closed := True, cn_open := False\<rparr>) S)"
      by (intro rooms_ok_conn [OF ok]) (use k in \<open>auto simp: conn_ok_def\<close>)
    with True show ?thesis by simp
  next
    case False
    let ?f = "\<lambda>k. k\<lparr>cn_closed := True, cn_open := False, decDone := True\<rparr>"
    let ?T = "(s_conn c ?f S)\<lparr>s_active := s_active S - 1\<rparr>"
    have "rooms_ok ?T"
    proof (rule rooms_okI)
      show "docs_ok ?T" using rooms_okD(1) [OF ok] by (simp add: docs_ok_def)
      have doc: "cn_doc ((s_conns S)[c := ?f ?k] ! i) = cn_doc (s_conns S ! i)" for i
        by (rule nth_update_proj) simp
      show "doc_ok ?T d (s_heap ?T ! d)" if "d < length (s_heap ?T)" for d
        using rooms_okD(2) [OF ok, of d] that by (simp add: doc_ok_def doc)
      show "conn_ok ?T e (s_conns ?T ! e)" if "e < length (s_conns ?T)" for e
      proof -
        have "conn_ok ?T e x = conn_ok S e x" for x by (simp add: conn_ok_def)
        then show ?thesis using rooms_okD(3) [OF ok, of e] that k by (cases "e = c") (auto simp: conn_ok_def)
      qed
      let ?A = "{i. i < length (s_conns S) \<and> \<not> decDone (s_conns S ! i)}"
      have "decDone ((s_conns S)[c := ?f ?k] ! i) = (i = c \<or> decDone (s_conns S ! i))" for i
        using c by (cases "i = c") simp_all
      then have "{i. i < length (s_conns ?T) \<and> \<not> decDone (s_conns ?T ! i)} = ?A - {c}" by auto
      moreover have mem: "c \<in> ?A" "finite ?A" using c False by simp_all
      have "card ?A = Suc (card (?A - {c}))" using card_Suc_Diff1 [OF mem(2,1)] by simp
      ultimately show "s_active ?T = int (card {i. i < length (s_conns ?T) \<and> \<not> decDone (s_conns ?T ! i)})"
        using rooms_okD(4) [OF ok] by simp
    qed
    with False show ?thesis by simp
  qed
  have closed: "cn_closed (s_conns ?S1 ! c)" using c by simp
  note leave = leave_ok [OF 1 closed]
  show ?thesis
  proof (cases "cn_doc ?k")
    case None
    have "s_conn c (\<lambda>k. k\<lparr>decDone := True\<rparr>) ((s_conn c (\<lambda>k. k\<lparr>cn_closed := True, cn_open := False\<rparr>) S)\<lparr>s_active := a\<rparr>)
        = (s_conn c (\<lambda>k. k\<lparr>cn_closed := True, cn_open := False, decDone := True\<rparr>) S)\<lparr>s_active := a\<rparr>" for a
      using c by (simp add: s_conn_def)
    with 1 None show ?thesis by (auto simp: s_close_def Let_def split: if_splits)
  next
    case (Some d)
    have "s_conn c (\<lambda>k. k\<lparr>decDone := True\<rparr>)
          ((s_leave c d (s_conn c (\<lambda>k. k\<lparr>cn_closed := True, cn_open := False\<rparr>) S))\<lparr>s_active := a\<rparr>)
        = s_leave c d ((s_conn c (\<lambda>k. k\<lparr>cn_closed := True, cn_open := False, decDone := True\<rparr>) S)\<lparr>s_active := a\<rparr>)" for a
      using c by (simp add: s_leave_def s_conn_def s_doc_def Let_def)
    moreover have "s_active (s_leave c d T) = s_active T" for T by (simp add: s_leave_def Let_def)
    ultimately show ?thesis using leave [of d] unfolding s_close_def Let_def Some option.case
      by (cases "decDone ?k") (simp_all only: if_True if_False refl simp_thms s_sel)
  qed
qed

lemma arrive_ok:
  assumes ok: "rooms_ok S" and c: "c < length (s_conns S)"
  shows "rooms_ok (s_arrive c m S)"
proof -
  have "rooms_ok (s_conn c (\<lambda>k. k\<lparr>pendingMessages := pendingMessages k @ [m]\<rparr>) S)" if "\<not> cn_ready (s_conns S ! c)"
    by (rule rooms_ok_conn [OF ok]) (use rooms_okD(3) [OF ok c] that in \<open>auto simp: conn_ok_def\<close>)
  moreover have "cn_ready (s_conns S ! c) \<Longrightarrow> cn_doc (s_conns S ! c) \<noteq> None"
    using rooms_okD(3) [OF ok c] by (auto simp: conn_ok_def)
  ultimately show ?thesis using ok by (cases "cn_ready (s_conns S ! c)") (simp_all add: s_arrive_def rooms_ok_handled)
qed

lemma open_ok:
  assumes ok: "rooms_ok S"
  shows "rooms_ok (s_open cookie room S)"
proof (rule rooms_okI)
  let ?T = "s_open cookie room S"
  show "docs_ok ?T" using rooms_okD(1) [OF ok] by (simp add: docs_ok_def s_open_def)
  show "doc_ok ?T d (s_heap ?T ! d)" if "d < length (s_heap ?T)" for d
    using rooms_okD(2) [OF ok, of d] that by (auto simp: doc_ok_def s_open_def nth_append less_Suc_eq)
  show "conn_ok ?T c (s_conns ?T ! c)" if "c < length (s_conns ?T)" for c
    using rooms_okD(3) [OF ok, of c] that by (auto simp: conn_ok_def s_open_def nth_append less_Suc_eq)
  let ?A = "{i. i < length (s_conns S) \<and> \<not> decDone (s_conns S ! i)}"
  have "{i. i < length (s_conns ?T) \<and> \<not> decDone (s_conns ?T ! i)} = insert (length (s_conns S)) ?A"
    by (auto simp: s_open_def nth_append less_Suc_eq)
  then show "s_active ?T = int (card {i. i < length (s_conns ?T) \<and> \<not> decDone (s_conns ?T ! i)})"
    using rooms_okD(4) [OF ok] by (simp add: s_open_def)
qed

lemma tick_ok:
  assumes ok: "rooms_ok S" and d: "d < length (s_heap S)" "s_timers (s_heap S ! d)"
  shows "rooms_ok (s_doc d (\<lambda>x. x\<lparr>s_timers := b\<rparr>) S)"
  by (rule rooms_ok_doc [OF ok]) (use rooms_okD(2) [OF ok d(1)] d in \<open>auto simp: doc_ok_def\<close>)

lemma expire_ok:
  assumes ok: "rooms_ok S" and d: "d < length (s_heap S)" "s_timers (s_heap S ! d)" "s_members (s_heap S ! d) = []"
    "map_get (s_docs S) (s_room (s_heap S ! d)) = Some d"
  shows "rooms_ok ((s_doc d (\<lambda>x. x\<lparr>s_timers := b\<rparr>) S)\<lparr>s_docs := map_del (s_room (s_heap S ! d)) (s_docs S)\<rparr>)"
proof -
  let ?S1 = "s_doc d (\<lambda>x. x\<lparr>s_timers := b\<rparr>) S"
  let ?T = "?S1\<lparr>s_docs := map_del (s_room (s_heap S ! d)) (s_docs S)\<rparr>"
  have x: "doc_ok S d (s_heap S ! d)" "s_loaded (s_heap S ! d)"
    using rooms_okD(2) [OF ok d(1)] d(2) by (auto simp: doc_ok_def)
  have 1: "rooms_ok ?S1" by (rule tick_ok [OF ok d(1,2)])
  show "rooms_ok ?T"
  proof (rule rooms_okI)
    show "docs_ok ?T" using rooms_okD(1) [OF 1] by (simp add: docs_ok_def)
    show "doc_ok ?T i (s_heap ?T ! i)" if "i < length (s_heap ?T)" for i
    proof (cases "s_members (s_heap ?S1 ! i) \<noteq> [] \<or> \<not> s_loaded (s_heap ?S1 ! i)")
      case False
      then show ?thesis using rooms_okD(2) [OF 1, of i] that by (simp add: doc_ok_def)
    next
      case True
      have i: "i \<noteq> d" using True d x by auto
      have "map_get (s_docs S) (s_room (s_heap S ! i)) = Some i"
        using rooms_okD(2) [OF 1, of i] True that i by (simp add: doc_ok_def)
      then have "s_room (s_heap S ! i) \<noteq> s_room (s_heap S ! d)" using d(4) i by auto
      then show ?thesis using rooms_okD(2) [OF 1, of i] that i by (simp add: doc_ok_def)
    qed
    show "conn_ok ?T c (s_conns ?T ! c)" if "c < length (s_conns ?T)" for c
      using rooms_okD(3) [OF 1, of c] that by (simp add: conn_ok_def)
    show "s_active ?T = int (card {i. i < length (s_conns ?T) \<and> \<not> decDone (s_conns ?T ! i)})"
      using rooms_okD(4) [OF 1] by simp
  qed
qed

lemma step_ok: "room_step lab S S' \<Longrightarrow> rooms_ok S \<Longrightarrow> rooms_ok S'"
proof (induction rule: room_step.induct)
  case (asks c S code)
  then show ?case by (intro rooms_ok_conn) (auto simp: rooms_ok_def conn_ok_def)
next
  case (refused c S)
  then show ?case by (intro rooms_ok_conn) (auto simp: rooms_ok_def conn_ok_def)
next
  case (shuts S c)
  then show ?case by (intro rooms_ok_conn) (auto simp: rooms_ok_def conn_ok_def)
qed (simp_all add: open_ok join_ok finish_ok arrive_ok close_ok tick_ok expire_ok del: map_of_eq_Some_iff)

text \<open>What a connection has sent: the messages handled, then those that wait.\<close>

definition only :: "nat \<Rightarrow> (nat \<times> collab_message) list \<Rightarrow> collab_message list" where
  "only c xs = map snd (filter (\<lambda>(k, m). k = c) xs)"

definition traffic :: "nat \<Rightarrow> room_shape \<Rightarrow> collab_message list" where
  "traffic c S = only c (s_handled S) @ (if c < length (s_conns S) then pendingMessages (s_conns S ! c) else [])"

lemma only_simps [simp]:
  "only c [] = []" "only c (xs @ ys) = only c xs @ only c ys"
  "only c (map (Pair k) ms) = (if k = c then ms else [])" "only c [(k, m)] = (if k = c then [m] else [])"
  by (simp_all add: only_def filter_map o_def)

lemma traffic_same:
  assumes "s_handled S' = s_handled S" and "length (s_conns S') = length (s_conns S)"
    and "\<And>i. pendingMessages (s_conns S' ! i) = pendingMessages (s_conns S ! i)"
  shows "traffic c S' = traffic c S"
  using assms by (simp add: traffic_def)

lemma traffic_admit: "e < length (s_conns S) \<Longrightarrow> traffic c (s_admit d e S) = traffic c S"
  by (auto simp: traffic_def s_admit_def Let_def nth_update_if)

lemma traffic_admit_all:
  "\<forall>e \<in> set es. e < length (s_conns S) \<Longrightarrow> traffic c (fold (s_admit d) es S) = traffic c S"
  by (induction es arbitrary: S) (simp_all add: traffic_admit admit_sel)

lemma traffic_conn:
  "(\<And>k. pendingMessages (f k) = pendingMessages k) \<Longrightarrow> traffic c (s_conn e f S) = traffic c S"
  by (rule traffic_same) (simp_all add: nth_update_proj)

lemma traffic_doc [simp]: "traffic c (s_doc d f S) = traffic c S"
  by (simp add: traffic_def)

lemma traffic_join:
  assumes "e < length (s_conns S)"
  shows "traffic c (s_join e room S) = traffic c S"
proof -
  obtain d S1 where r: "s_room_doc room S = (d, S1)" by (cases "s_room_doc room S")
  then have "s_conns S1 = s_conns S" "s_handled S1 = s_handled S"
    by (auto simp: s_room_doc_def split: option.splits)
  then show ?thesis
    using assms by (simp add: s_join_def r Let_def traffic_admit traffic_conn) (simp add: traffic_def)
qed

lemma traffic_leave [simp]: "traffic c (s_leave e d S) = traffic c S"
  by (simp add: s_leave_def Let_def)

lemma traffic_active [simp]: "traffic c (S\<lparr>s_active := n\<rparr>) = traffic c S"
  by (simp add: traffic_def)

lemma traffic_step:
  "room_step lab S S' \<Longrightarrow> rooms_ok S \<Longrightarrow> traffic c S' = traffic c S @ only c lab"
proof (induction rule: room_step.induct)
  case (opens S cookie room)
  then show ?case by (auto simp: traffic_def s_open_def nth_append less_Suc_eq)
next
  case (loads d S)
  have "doc_ok S d (s_heap S ! d)" using rooms_okD(2) [OF loads(3,1)] .
  then show ?case unfolding s_finish_def by (subst traffic_admit_all) (auto simp: doc_ok_def)
next
  case (arrives e S m)
  have "conn_ok S e (s_conns S ! e)" using rooms_okD(3) [OF arrives(2,1)] .
  with arrives show ?case by (auto simp: traffic_def s_arrive_def conn_ok_def nth_update_if)
next
  case (leaves e S)
  then show ?case by (simp add: s_close_def Let_def traffic_conn split: option.split)
next
  case (expires d S b)
  then show ?case by (simp add: traffic_def)
qed (simp_all add: traffic_join traffic_conn)

section \<open>Every run of the server\<close>

lemma start_ok: "rooms_ok (shape (collab_start a t b))"
  by (simp add: rooms_ok_def docs_ok_def collab_start_def shape_def)

lemma run_ok: "rooms_ok (shape st) \<Longrightarrow> rooms_ok (shape (collab_run ops redis evs st))"
  unfolding collab_run_def by (induction evs arbitrary: st) (simp_all add: step_ok [OF collab_refines])

lemmas started_ok = run_ok [OF start_ok]

text \<open>The messages that arrived from a connection in a run.\<close>

fun received ::
    "('y, 'a) collab_ops \<Rightarrow> 'r team_redis option \<Rightarrow> nat \<Rightarrow> (int \<times> 'r collab_event) list \<Rightarrow> ('y, 'a, 'r) collab \<Rightarrow>
     collab_message list" where
  "received ops redis c [] st = []"
| "received ops redis c (ev # evs) st =
     only c (arrival ev st) @ received ops redis c evs (collab_step ops redis ev st)"

lemma traffic_run:
  "rooms_ok (shape st) \<Longrightarrow>
   traffic c (shape (collab_run ops redis evs st)) = traffic c (shape st) @ received ops redis c evs st"
proof (induction evs arbitrary: st)
  case (Cons ev evs)
  have step: "room_step (arrival ev st) (shape st) (shape (collab_step ops redis ev st))"
    using collab_refines [OF Cons.prems] .
  have "rooms_ok (shape (collab_step ops redis ev st))" by (rule step_ok [OF step Cons.prems])
  from Cons.IH [OF this] show ?case by (simp add: collab_run_def traffic_step [OF step Cons.prems])
qed (simp add: collab_run_def)

text \<open>
  A run with one user and two connections to the room of the build session that she
  created; a message arrives before the first connection is ready.
\<close>

definition sample_collab :: "(bytes list, unit) collab_ops" where
  "sample_collab = \<lparr>y_new = [], y_apply = (\<lambda>u y. Some (y @ [u], Some u)), y_insert = (\<lambda>s y. (y, [])),
     y_length = length, y_encode = concat, aw_new = (), aw_apply = (\<lambda>u a. None), aw_remove = (\<lambda>ids a. (a, None)),
     aw_tick = (\<lambda>n a. (a, None)), aw_clients = (\<lambda>a. []), aw_encode = (\<lambda>a cs. []), read_json = (\<lambda>s. None),
     sha1_hex = (\<lambda>s. s), sharedState = False, instanceId = ''i''\<rparr>"

definition sample_teams :: "unit team_store" where
  "sample_teams = \<lparr>team_sessions = [], team_persistScheduled = False, lastLoadedMtimeMs = 0, team_file = None,
     redis_state = ()\<rparr>"

definition sample_builds :: "string \<Rightarrow> build_owner option" where
  "sample_builds sid = (if sid = ''b1'' then Some \<lparr>creatorLogin = ''Ann'', build_token = ''tok''\<rparr> else None)"

definition sample_events :: "(int \<times> unit collab_event) list" where
  "sample_events =
     [(9, Opens ''proofdesk_session=s1'' (Some ''b1'')), (9, Arrives 0 (BinaryMessage [0, 7])), (9, SessionAnswer 0),
      (9, Loaded 0), (9, Opens ''proofdesk_session=s1'' (Some ''b1'')), (9, SessionAnswer 1),
      (9, Arrives 1 (BinaryMessage [0, 8]))]"

abbreviation sample_run :: "(bytes list, unit, unit) collab" where
  "sample_run \<equiv> collab_run sample_collab None sample_events (collab_start sample_store sample_teams sample_builds)"

lemma sample_conns: "map (\<lambda>k. (cn_room k, cn_ready k, cn_closed k)) (conns sample_run)
    = [(Some ''b1'', True, False), (Some ''b1'', True, False)]"
  by code_simp

lemma sample_sent: "sent sample_run = [(0, [0, 8])]"
  by code_simp

text \<open>
  Claim C12. No message of a collaborator is lost, repeated or reordered by the setup of its connection:
  in every run, whatever the order of the answers, messages and timers, the messages of a
  connection that the server has handled, followed by those that wait for the end of its
  setup, are exactly those that arrived, in order; none waits once the connection is ready.
\<close>

theorem messages_in_order:
  assumes "st = collab_run ops redis evs (collab_start a t b)" and "c < length (conns st)"
  shows "map snd (filter (\<lambda>(k, m). k = c) (handled st)) @ pendingMessages (conns st ! c)
      = received ops redis c evs (collab_start a t b) \<and>
    (cn_ready (conns st ! c) \<longrightarrow> pendingMessages (conns st ! c) = [])"
proof -
  have "traffic c (shape st) = received ops redis c evs (collab_start a t b)"
    using traffic_run [OF start_ok, of c ops redis evs a t b]
    by (simp add: assms(1) traffic_def collab_start_def shape_def only_def)
  moreover have "conn_ok (shape st) c (conns st ! c)"
    using rooms_okD(3) [OF started_ok, of c ops redis evs a t b] assms by simp
  ultimately show ?thesis using assms(2) by (simp add: traffic_def only_def conn_ok_def)
qed

theorem messages_in_order_witness:
  "map snd (filter (\<lambda>(k, m). k = 0) (handled sample_run)) = [BinaryMessage [0, 7]]"
proof -
  have c: "0 < length (conns sample_run)" by code_simp
  have "received sample_collab None 0 sample_events (collab_start sample_store sample_teams sample_builds)
      = [BinaryMessage [0, 7]]" and "cn_ready (conns sample_run ! 0)" by code_simp+
  with messages_in_order [OF refl c] show ?thesis by (metis append_Nil2)
qed

text \<open>
  Claim C13. A room has one document: in every run, two connections that are ready, not closed and in the
  same room are both connected to the document that the server has registered for that
  room, so an edit of one reaches the other. No clean-up timer takes a document away from
  its users, or from connections that wait for it to load.
\<close>

theorem room_has_one_document:
  assumes "st = collab_run ops redis evs (collab_start a t b)"
    and "c1 < length (conns st)" "cn_ready (conns st ! c1)" "\<not> cn_closed (conns st ! c1)"
    and "c2 < length (conns st)" "cn_ready (conns st ! c2)" "\<not> cn_closed (conns st ! c2)"
    and "cn_room (conns st ! c1) = Some room" "cn_room (conns st ! c2) = Some room"
  shows "\<exists>d. map_get (docs st) room = Some d \<and>
    {c1, c2} \<subseteq> set (map fst (connections (heap st ! d)))"
proof -
  have ok: "rooms_ok (shape st)" using assms(1) started_ok by simp
  have reg: "\<exists>d < length (heap st). map_get (docs st) room = Some d \<and> c \<in> set (map fst (connections (heap st ! d)))"
    if c: "c < length (conns st)" "cn_ready (conns st ! c)" "\<not> cn_closed (conns st ! c)" "cn_room (conns st ! c) = Some room" for c
  proof -
    have k: "conn_ok (shape st) c (conns st ! c)" using rooms_okD(3) [OF ok, of c] c by simp
    then obtain d where "cn_doc (conns st ! c) = Some d" using c(2) by (auto simp: conn_ok_def)
    with k c have d: "d < length (heap st)" "roomId (heap st ! d) = room" "c \<in> set (map fst (connections (heap st ! d)))"
      by (auto simp: conn_ok_def)
    moreover have "map_get (docs st) (roomId (heap st ! d)) = Some d"
      using rooms_okD(2) [OF ok, of d] d by (auto simp: doc_ok_def)
    ultimately show ?thesis by blast
  qed
  obtain d1 where 1: "map_get (docs st) room = Some d1" "c1 \<in> set (map fst (connections (heap st ! d1)))"
    using reg [OF assms(2-4,8)] by blast
  obtain d2 where 2: "map_get (docs st) room = Some d2" "c2 \<in> set (map fst (connections (heap st ! d2)))"
    using reg [OF assms(5-7,9)] by blast
  from 1 2 show ?thesis by (metis empty_subsetI insert_subset option.inject)
qed

theorem room_has_one_document_witness:
  "\<exists>d. map_get (docs sample_run) ''b1'' = Some d \<and> {0, 1} \<subseteq> set (map fst (connections (heap sample_run ! d)))"
proof -
  have 0: "0 < length (conns sample_run)" "cn_ready (conns sample_run ! 0)" "\<not> cn_closed (conns sample_run ! 0)"
    and 1: "1 < length (conns sample_run)" "cn_ready (conns sample_run ! 1)" "\<not> cn_closed (conns sample_run ! 1)"
    and room: "cn_room (conns sample_run ! 0) = Some ''b1''" "cn_room (conns sample_run ! 1) = Some ''b1''"
    by code_simp+
  show ?thesis by (rule room_has_one_document [OF refl 0 1 room])
qed

section \<open>Nobody enters a room without a right to it\<close>

text \<open>
  What a step does to the setup of a connection, other than by an answer to it: nothing, or
  the setup ends.
\<close>

definition still :: "collab_conn \<Rightarrow> collab_conn \<Rightarrow> bool" where
  "still k k' = (cn_doc k' = cn_doc k \<and> (cn_setup k' = cn_setup k \<or> cn_setup k' = SetupDone)
     \<and> cn_room k' = cn_room k \<and> cn_cookie k' = cn_cookie k)"

lemma still_refl [simp]: "still k k"
  by (simp add: still_def)

lemma still_trans: "still k k' \<Longrightarrow> still k' k'' \<Longrightarrow> still k k''"
  by (auto simp: still_def)

lemma still_conn: "(\<And>k. still k (f k)) \<Longrightarrow> still (s_conns S ! c) (s_conns (s_conn e f S) ! c)"
  by (simp add: nth_update_if)

lemma still_other: "e \<noteq> c \<Longrightarrow> still (s_conns S ! c) (s_conns (s_conn e f S) ! c)"
  by simp

lemma still_admit: "still (s_conns S ! c) (s_conns (s_admit d e S) ! c)"
  by (auto simp: s_admit_def Let_def nth_update_if still_def)

lemma still_admit_all: "still (s_conns S ! c) (s_conns (fold (s_admit d) es S) ! c)"
proof (induction es arbitrary: S)
  case (Cons e es)
  from still_trans [OF still_admit Cons.IH] show ?case by simp
qed simp

lemma still_join:
  assumes "e \<noteq> c"
  shows "still (s_conns S ! c) (s_conns (s_join e room S) ! c)"
proof -
  obtain d S1 where r: "s_room_doc room S = (d, S1)" by (cases "s_room_doc room S")
  then have S1: "s_conns S1 = s_conns S" by (auto simp: s_room_doc_def split: option.splits)
  let ?S2 = "s_conn e (\<lambda>k. k\<lparr>cn_setup := SetupDone, cn_doc := Some d\<rparr>) S1"
  have "s_conns ?S2 ! c = s_conns S ! c" using assms S1 by simp
  with still_admit [of ?S2 c d e] show ?thesis by (simp add: s_join_def r Let_def)
qed

lemma still_close: "still (s_conns S ! c) (s_conns (s_close e S) ! c)"
  by (auto simp: s_close_def s_leave_def Let_def nth_update_if still_def split: option.split)

lemma still_arrive: "still (s_conns S ! c) (s_conns (s_arrive e m S) ! c)"
  by (auto simp: s_arrive_def nth_update_if still_def)

lemma still_step:
  assumes ok: "rooms_ok (shape st)" and c: "c < length (conns st)"
    and other: "ev \<noteq> SessionAnswer c" "ev \<noteq> TeamAnswer c"
  shows "still (conns st ! c) (conns (collab_step ops redis (now, ev) st) ! c)"
proof -
  have via: "still (conns st ! c) (conns st' ! c)" if "still (s_conns (shape st) ! c) (s_conns (shape st') ! c)"
    for st' :: "('a, 'b, 'c) collab" using that by simp
  show ?thesis
  proof (cases ev)
    case (Opens cookie room)
    then show ?thesis using c by (simp add: open_conn_def nth_append)
  next
    case (SessionAnswer e)
    then have e: "e \<noteq> c" using other by auto
    from authenticate_cases [OF ok refl, of ops now e]
    have "still (s_conns (shape st) ! c) (s_conns (shape (authenticate_conn ops now e st)) ! c)"
      using still_other [OF e] still_join [OF e] by (elim disjE exE conjE) (simp_all only:)
    then show ?thesis using SessionAnswer via [of "authenticate_conn ops now e st"] by simp
  next
    case (TeamAnswer e)
    then have e: "e \<noteq> c" using other by auto
    have "still (s_conns (shape st) ! c) (s_conns (shape (team_looked_up ops redis now e code st)) ! c)"
      if asked: "cn_setup (conns st ! e) = AskTeam code" "e < length (conns st)" for code
    proof -
      have "conn_ok (shape st) e (conns st ! e)" using ok asked(2) by (simp add: rooms_ok_def)
      then obtain r where r: "cn_room (conns st ! e) = Some r" using asked(1) by (auto simp: conn_ok_def)
      from team_cases [OF ok r, of ops redis now code] show ?thesis
        using still_other [OF e] still_join [OF e] by (elim disjE exE conjE) (simp_all only:)
    qed
    then show ?thesis using TeamAnswer by (auto simp: via split: setup_state.split)
  next
    case (Loaded d)
    have "still (s_conns (shape st) ! c) (s_conns (shape (finish_load ops now d st)) ! c)" if "d < length (heap st)"
    proof (cases "doc_loaded (heap st ! d)")
      case True
      then show ?thesis by (simp add: finish_load_def)
    next
      case False
      from still_admit_all [of "s_doc d g (shape st)" for g] show ?thesis
        unfolding shape_finish [OF that False] s_finish_def by (metis s_sel(2))
    qed
    then show ?thesis using Loaded via [of "finish_load ops now d st"] by simp
  next
    case (Closes e)
    have "still (s_conns (shape st) ! c) (s_conns (shape (on_close ops now e st)) ! c)" if "e < length (conns st)"
      unfolding shape_close [OF ok that] by (rule still_close)
    then show ?thesis using Closes via [of "on_close ops now e st"] by simp
  next
    case (Arrives e m)
    then show ?thesis using via [of "on_message ops now e m st"] still_arrive [of "shape st" c e m]
      by (simp add: shape_message)
  next
    case (CleanupDue d)
    have "conns (cleanup_due now d st) = conns st"
      by (simp add: cleanup_due_def upd_doc_def Let_def split: list.split)
    then show ?thesis using CleanupDue by simp
  next
    case (PeerClosing e)
    then show ?thesis by (simp add: upd_conn_def nth_update_if still_def)
  qed (rule via; simp add: shape_simps del: shape_sel(3))+
qed

lemma join_self:
  assumes "c < length (s_conns S)"
  shows "cn_setup (s_conns (s_join c room S) ! c) = SetupDone" "cn_room (s_conns (s_join c room S) ! c) = cn_room (s_conns S ! c)"
proof -
  obtain d S1 where r: "s_room_doc room S = (d, S1)" by (cases "s_room_doc room S")
  then have S1: "s_conns S1 = s_conns S" by (auto simp: s_room_doc_def split: option.splits)
  let ?S2 = "s_conn c (\<lambda>k. k\<lparr>cn_setup := SetupDone, cn_doc := Some d\<rparr>) S1"
  have "still (s_conns ?S2 ! c) (s_conns (s_admit d c ?S2) ! c)" by (rule still_admit)
  then show "cn_setup (s_conns (s_join c room S) ! c) = SetupDone" "cn_room (s_conns (s_join c room S) ! c) = cn_room (s_conns S ! c)"
    using assms S1 by (simp_all add: s_join_def r Let_def still_def)
qed

lemma length_shapes [simp]:
  "length (s_conns (fold (s_admit d) es S)) = length (s_conns S)"
  "length (s_conns (s_join e room S)) = length (s_conns S)"
  "length (s_conns (s_close e S)) = length (s_conns S)"
  "length (s_conns (s_arrive e m S)) = length (s_conns S)"
proof -
  show "length (s_conns (fold (s_admit d) es S)) = length (s_conns S)"
    by (induction es arbitrary: S) (simp_all add: admit_sel)
  show "length (s_conns (s_join e room S)) = length (s_conns S)"
    by (simp add: s_join_def s_room_doc_def Let_def admit_sel split: prod.split option.split)
  show "length (s_conns (s_close e S)) = length (s_conns S)"
    by (simp add: s_close_def s_leave_def Let_def split: option.split)
  show "length (s_conns (s_arrive e m S)) = length (s_conns S)"
    by (simp add: s_arrive_def)
qed

lemma fresh_conn:
  "room_step lab S S' \<Longrightarrow> length (s_conns S) \<le> c \<Longrightarrow> c < length (s_conns S') \<Longrightarrow>
   cn_doc (s_conns S' ! c) = None \<and> cn_setup (s_conns S' ! c) = Starting"
  by (induction rule: room_step.induct) (simp_all add: s_finish_def s_open_def nth_append)

text \<open>
  In the run \<open>evs\<close>, the setup of connection \<open>c\<close> found a user: at some answer to it, the cookie
  of its request named a live session with a token and a login.
\<close>

definition identified ::
    "('y, 'a) collab_ops \<Rightarrow> 'r team_redis option \<Rightarrow> ('y, 'a, 'r) collab \<Rightarrow> (int \<times> 'r collab_event) list \<Rightarrow>
     nat \<Rightarrow> jsval \<Rightarrow> (int \<times> 'r collab_event) list \<Rightarrow> (int \<times> 'r collab_event) list \<Rightarrow> bool" where
  "identified ops redis st evs c login pre post =
     (\<exists>now. evs = pre @ (now, SessionAnswer c) # post
       \<and> (case collab_run ops redis pre st of s \<Rightarrow> conn_login now (cn_cookie (conns s ! c)) (auths s) = Some login))"

text \<open>
  It was granted entry to \<open>room\<close>: to a team room, because at a later answer the code in its
  name was the code of a team session; to the room of a build session, because the user
  was its creator.
\<close>

definition granted ::
    "('y, 'a) collab_ops \<Rightarrow> 'r team_redis option \<Rightarrow> ('y, 'a, 'r) collab \<Rightarrow> (int \<times> 'r collab_event) list \<Rightarrow>
     nat \<Rightarrow> string \<Rightarrow> bool" where
  "granted ops redis st evs c room =
     (\<exists>login pre post. identified ops redis st evs c login pre post \<and>
       (if starts_with TEAM_ROOM_PREFIX room
        then \<exists>before now after. evs = before @ (now, TeamAnswer c) # after \<and> length pre < length before
               \<and> fst (team_getSession redis now (team_room_code room) (teams (collab_run ops redis before st))) \<noteq> None
        else \<exists>owner. builds (collab_run ops redis pre st) room = Some owner \<and> login = JStr (creatorLogin owner)))"

lemma identified_more:
  "identified ops redis st evs c login pre post \<Longrightarrow> identified ops redis st (evs @ [e]) c login pre (post @ [e])"
  by (auto simp: identified_def)

lemma granted_more:
  assumes "granted ops redis st evs c room"
  shows "granted ops redis st (evs @ [e]) c room"
proof -
  obtain login pre post where id: "identified ops redis st evs c login pre post"
    and right: "if starts_with TEAM_ROOM_PREFIX room
      then \<exists>before now after. evs = before @ (now, TeamAnswer c) # after \<and> length pre < length before
             \<and> fst (team_getSession redis now (team_room_code room) (teams (collab_run ops redis before st))) \<noteq> None
      else \<exists>owner. builds (collab_run ops redis pre st) room = Some owner \<and> login = JStr (creatorLogin owner)"
    using assms unfolding granted_def by blast
  have "if starts_with TEAM_ROOM_PREFIX room
      then \<exists>before now after. evs @ [e] = before @ (now, TeamAnswer c) # after \<and> length pre < length before
             \<and> fst (team_getSession redis now (team_room_code room) (teams (collab_run ops redis before st))) \<noteq> None
      else \<exists>owner. builds (collab_run ops redis pre st) room = Some owner \<and> login = JStr (creatorLogin owner)"
  proof (cases "starts_with TEAM_ROOM_PREFIX room")
    case True
    then obtain before now after where "evs = before @ (now, TeamAnswer c) # after" "length pre < length before"
        "fst (team_getSession redis now (team_room_code room) (teams (collab_run ops redis before st))) \<noteq> None"
      using right by auto
    then have "evs @ [e] = before @ (now, TeamAnswer c) # (after @ [e]) \<and> length pre < length before
        \<and> fst (team_getSession redis now (team_room_code room) (teams (collab_run ops redis before st))) \<noteq> None" by simp
    with True show ?thesis by (simp only: if_True) blast
  next
    case False
    with right show ?thesis by simp
  qed
  with identified_more [OF id, of e] show ?thesis unfolding granted_def by blast
qed

text \<open>The two facts that a run keeps for each connection.\<close>

definition rightful ::
    "('y, 'a) collab_ops \<Rightarrow> 'r team_redis option \<Rightarrow> ('y, 'a, 'r) collab \<Rightarrow> (int \<times> 'r collab_event) list \<Rightarrow>
     nat \<Rightarrow> collab_conn \<Rightarrow> bool" where
  "rightful ops redis st evs c k =
     ((\<forall>code. cn_setup k = AskTeam code \<longrightarrow>
        (\<exists>r login pre post. cn_room k = Some r \<and> starts_with TEAM_ROOM_PREFIX r \<and> code = team_room_code r
           \<and> identified ops redis st evs c login pre post))
      \<and> (cn_doc k \<noteq> None \<longrightarrow> (\<exists>r. cn_room k = Some r \<and> granted ops redis st evs c r)))"

lemma rightful_still:
  assumes "rightful ops redis st evs c k" and "still k k'"
  shows "rightful ops redis st (evs @ [e]) c k'"
  using assms identified_more granted_more unfolding rightful_def still_def
  by (smt (verit) setup_state.distinct(5))

lemma run_snoc: "collab_run ops redis (evs @ [e]) st = collab_step ops redis e (collab_run ops redis evs st)"
  by (simp add: collab_run_def)

lemma rightful_session:
  assumes ok: "rooms_ok (shape s)" and s: "s = collab_run ops redis evs st" and c: "c < length (conns s)"
    and starting: "cn_setup (conns s ! c) = Starting"
  shows "rightful ops redis st (evs @ [(now, SessionAnswer c)]) c (conns (authenticate_conn ops now c s) ! c)"
proof -
  have none: "cn_doc (conns s ! c) = None"
    using rooms_okD(3) [OF ok, of c] c starting by (simp add: conn_ok_def)
  have id: "identified ops redis st (evs @ [(now, SessionAnswer c)]) c login evs []"
    if "conn_login now (cn_cookie (conns s ! c)) (auths s) = Some login" for login
    using that by (simp add: identified_def s)
  have via: "conns t = s_conns (shape t)" for t :: "('a, 'b, 'c) collab" by simp
  from authenticate_cases [OF ok refl, of ops now c] show ?thesis
  proof (elim disjE exE conjE)
    assume "shape (authenticate_conn ops now c s) = s_conn c (\<lambda>k. k\<lparr>cn_setup := SetupDone, cn_open := False\<rparr>) (shape s)"
    then show ?thesis using c none unfolding via by (simp add: rightful_def)
  next
    fix r login
    assume "cn_room (conns s ! c) = Some r" "conn_login now (cn_cookie (conns s ! c)) (auths s) = Some login"
      "starts_with TEAM_ROOM_PREFIX r"
      "shape (authenticate_conn ops now c s) = s_conn c (\<lambda>k. k\<lparr>cn_setup := AskTeam (team_room_code r)\<rparr>) (shape s)"
    then show ?thesis using c none id unfolding via by (auto simp: rightful_def)
  next
    fix r owner
    assume r: "cn_room (conns s ! c) = Some r" "\<not> starts_with TEAM_ROOM_PREFIX r" "builds s r = Some owner"
      "conn_login now (cn_cookie (conns s ! c)) (auths s) = Some (JStr (creatorLogin owner))"
      and shape: "shape (authenticate_conn ops now c s) = s_join c r (shape s)"
    have "granted ops redis st (evs @ [(now, SessionAnswer c)]) c r"
      unfolding granted_def using id [OF r(4)] r(2,3) s by auto
    then show ?thesis using c r(1) join_self [of c "shape s" r] unfolding via shape by (simp add: rightful_def)
  qed
qed

lemma rightful_team:
  assumes ok: "rooms_ok (shape s)" and s: "s = collab_run ops redis evs st" and c: "c < length (conns s)"
    and ask: "cn_setup (conns s ! c) = AskTeam code" and old: "rightful ops redis st evs c (conns s ! c)"
  shows "rightful ops redis st (evs @ [(now, TeamAnswer c)]) c (conns (team_looked_up ops redis now c code s) ! c)"
proof -
  have none: "cn_doc (conns s ! c) = None"
    using rooms_okD(3) [OF ok, of c] c ask by (simp add: conn_ok_def)
  obtain r login pre post where r: "cn_room (conns s ! c) = Some r" "starts_with TEAM_ROOM_PREFIX r"
      "code = team_room_code r" and id: "identified ops redis st evs c login pre post"
    using old ask unfolding rightful_def by blast
  have pre: "length pre < length evs" using id by (auto simp: identified_def)
  have via: "conns t = s_conns (shape t)" for t :: "('a, 'b, 'c) collab" by simp
  from team_cases [OF ok r(1), of ops redis now code] show ?thesis
  proof (elim disjE conjE)
    assume "shape (team_looked_up ops redis now c code s) = s_conn c (\<lambda>k. k\<lparr>cn_setup := SetupDone, cn_open := False\<rparr>) (shape s)"
    then show ?thesis using c none unfolding via by (simp add: rightful_def)
  next
    assume live: "fst (team_getSession redis now code (teams s)) \<noteq> None"
      and shape: "shape (team_looked_up ops redis now c code s) = s_join c r (shape s)"
    have "granted ops redis st (evs @ [(now, TeamAnswer c)]) c r"
      unfolding granted_def using identified_more [OF id] live r pre s by (simp only: if_True) blast
    then show ?thesis using c r(1) join_self [of c "shape s" r] unfolding via shape by (simp add: rightful_def)
  qed
qed

lemma rightful_run:
  assumes "c < length (conns (collab_run ops redis evs (collab_start a t b)))"
  shows "rightful ops redis (collab_start a t b) evs c (conns (collab_run ops redis evs (collab_start a t b)) ! c)"
  using assms
proof (induction evs rule: rev_induct)
  case Nil
  then show ?case by (simp add: collab_run_def collab_start_def)
next
  case (snoc e evs)
  let ?s = "collab_run ops redis evs (collab_start a t b)"
  obtain now ev where e: "e = (now, ev)" by (cases e)
  have ok: "rooms_ok (shape ?s)" by (rule started_ok)
  show ?case
  proof (cases "c < length (conns ?s)")
    case False
    have "cn_doc (conns (collab_step ops redis e ?s) ! c) = None \<and> cn_setup (conns (collab_step ops redis e ?s) ! c) = Starting"
      using fresh_conn [OF collab_refines [OF ok], of c ops redis e] False snoc.prems by (simp add: run_snoc)
    then show ?thesis by (simp add: run_snoc rightful_def)
  next
    case True
    note old = snoc.IH [OF True]
    show ?thesis
    proof (cases "ev = SessionAnswer c \<or> ev = TeamAnswer c")
      case False
      then show ?thesis
        unfolding run_snoc e using rightful_still [OF old still_step [OF ok True]] by blast
    next
      case answer: True
      show ?thesis
      proof (cases "ev = SessionAnswer c")
        case True
        then show ?thesis
          using rightful_session [OF ok refl \<open>c < length (conns ?s)\<close>, of now] rightful_still [OF old still_refl]
          by (simp add: run_snoc e)
      next
        case False
        with answer have "ev = TeamAnswer c" by simp
        then show ?thesis
          using rightful_team [OF ok refl True _ old, of _ now] rightful_still [OF old still_refl] True
          by (auto simp: run_snoc e split: setup_state.split)
      qed
    qed
  qed
qed

text \<open>
  Claim C11. Nobody takes part in a room without a right to it: in every run of the server, whenever a
  connection is among those of a document, its setup found the user of a live session with
  a token, and then either the code in the name of the room was, at a later moment, the code
  of a team session, or the room is that of a build session which this user created.
\<close>

theorem only_entitled_connections:
  assumes "st = collab_run ops redis evs (collab_start a t b)"
    and "d < length (heap st)" and "c \<in> set (map fst (connections (heap st ! d)))"
  shows "granted ops redis (collab_start a t b) evs c (roomId (heap st ! d))"
proof -
  have ok: "rooms_ok (shape st)" using assms(1) started_ok by simp
  have c: "c < length (conns st)" "cn_doc (conns st ! c) = Some d"
    using rooms_okD(2) [OF ok, of d] assms(2,3) by (auto simp: doc_ok_def)
  have "cn_room (conns st ! c) = Some (roomId (heap st ! d))"
    using rooms_okD(3) [OF ok, of c] c assms(2) by (simp add: conn_ok_def)
  then show ?thesis using rightful_run [of c ops redis evs a t b] c assms(1) by (auto simp: rightful_def)
qed

theorem only_entitled_connections_witness:
  "granted sample_collab None (collab_start sample_store sample_teams sample_builds) sample_events 1 ''b1''"
proof -
  have d: "0 < length (heap sample_run)" and c: "1 \<in> set (map fst (connections (heap sample_run ! 0)))"
    and room: "roomId (heap sample_run ! 0) = ''b1''" by code_simp+
  from only_entitled_connections [OF refl d c] show ?thesis unfolding room .
qed

section \<open>Documents that are never removed\<close>

text \<open>
  A connection that closes while its document loads leaves that document behind: no clean-up
  was scheduled for it, and none is until somebody else joins the room and leaves again. Its
  timer keeps reading the snapshot from the disk.
\<close>

lemma abandoned_document_stays:
  "case collab_run sample_collab None
      [(9, Opens ''proofdesk_session=s1'' (Some ''b1'')), (9, SessionAnswer 0), (9, Closes 0), (9, Loaded 0),
       (9000000, CleanupDue 0)]
      (collab_start sample_store sample_teams sample_builds) of
   st \<Rightarrow> map_get (docs st) ''b1'' = Some 0 \<and> cleanupTimers (heap st ! 0) = [] \<and> snapshotSyncTimer (heap st ! 0)"
  by code_simp

text \<open>
  Nor is a document removed whose retention began anew after the last connection closed: the
  timer that finds it too young is not set again.
\<close>

lemma young_document_stays:
  "case collab_run (sample_collab\<lparr>sharedState := True\<rparr>) None
      [(9, Opens ''proofdesk_session=s1'' (Some ''b1'')), (9, SessionAnswer 0), (9, Loaded 0), (9, Closes 0),
       (20, RedisMessage ''b1'' ''other'' ''doc'' [1]), (600010, CleanupDue 0), (9000000, CleanupDue 0)]
      (collab_start sample_store sample_teams sample_builds) of
   st \<Rightarrow> map_get (docs st) ''b1'' = Some 0 \<and> cleanupTimers (heap st ! 0) = []"
  by code_simp

end
