(* ===== verification/ArtifactCache.thy ===== *)
theory ArtifactCache imports Prelude begin

text \<open>
  The class \<^verbatim>\<open>ArtifactLRUCache\<close> of \<^verbatim>\<open>backend/src/services/buildExecutor.ts\<close>: served files, the least
  recently used first in the order of the map, with the total of their sizes and an index
  from a session to its keys. A buffer is a string, one character per byte.
\<close>

definition MAX_ARTIFACT_CACHE_ENTRIES :: nat where "MAX_ARTIFACT_CACHE_ENTRIES = 200"
definition MAX_ARTIFACT_CACHE_BYTES :: nat where "MAX_ARTIFACT_CACHE_BYTES = 32 * 1024 * 1024"

record cache_value =
  cv_buf :: string
  cv_size :: nat
  cv_session :: string

record artifact_cache =
  ac_map :: "(string, cache_value) jsmap"
  ac_bytes :: int
  ac_bySession :: "(string, string list) jsmap"

definition new_cache :: artifact_cache where
  "new_cache = \<lparr>ac_map = [], ac_bytes = 0, ac_bySession = []\<rparr>"

text \<open>\<^verbatim>\<open>Set.add\<close> on the list of the elements in order of insertion.\<close>

definition set_insert :: "string \<Rightarrow> string list \<Rightarrow> string list" where
  "set_insert x xs = (if x \<in> set xs then xs else xs @ [x])"

definition index_key :: "string \<Rightarrow> string \<Rightarrow> artifact_cache \<Rightarrow> artifact_cache" where
  "index_key key sid c =
     c\<lparr>ac_bySession := map_set sid
         (set_insert key (case map_get (ac_bySession c) sid of None \<Rightarrow> [] | Some keys \<Rightarrow> keys)) (ac_bySession c)\<rparr>"

definition unindex_key :: "string \<Rightarrow> string \<Rightarrow> artifact_cache \<Rightarrow> artifact_cache" where
  "unindex_key key sid c =
     (case map_get (ac_bySession c) sid of
        None \<Rightarrow> c
      | Some keys \<Rightarrow>
          let rest = removeAll key keys
          in c\<lparr>ac_bySession := (if rest = [] then map_del sid (ac_bySession c) else map_set sid rest (ac_bySession c))\<rparr>)"

definition cache_get :: "string \<Rightarrow> artifact_cache \<Rightarrow> string option \<times> artifact_cache" where
  "cache_get key c =
     (case map_get (ac_map c) key of
        None \<Rightarrow> (None, c)
      | Some entry \<Rightarrow> (Some (cv_buf entry), c\<lparr>ac_map := map_set key entry (map_del key (ac_map c))\<rparr>))"

text \<open>The loop of \<^verbatim>\<open>_evict\<close>: it ends because each round removes an entry.\<close>

function evict :: "artifact_cache \<Rightarrow> artifact_cache" where
  "evict c =
     (if length (ac_map c) > MAX_ARTIFACT_CACHE_ENTRIES \<or> ac_bytes c > int MAX_ARTIFACT_CACHE_BYTES
      then (case ac_map c of
          [] \<Rightarrow> c
        | (oldestKey, entry) # _ \<Rightarrow>
            evict ((unindex_key oldestKey (cv_session entry) (c\<lparr>ac_bytes := ac_bytes c - int (cv_size entry)\<rparr>))
                     \<lparr>ac_map := map_del oldestKey (ac_map c)\<rparr>))
      else c)"
  by pat_completeness auto
termination
  by (relation "measure (\<lambda>c. length (ac_map c))") (auto simp: length_delete_le less_Suc_eq_le)

declare evict.simps [simp del]

definition cache_set :: "string \<Rightarrow> string \<Rightarrow> string \<Rightarrow> artifact_cache \<Rightarrow> artifact_cache" where
  "cache_set key buf sid c =
     (let c1 = (case map_get (ac_map c) key of
                  None \<Rightarrow> c
                | Some existing \<Rightarrow>
                    (unindex_key key (cv_session existing) (c\<lparr>ac_bytes := ac_bytes c - int (cv_size existing)\<rparr>))
                      \<lparr>ac_map := map_del key (ac_map c)\<rparr>);
          c2 = c1\<lparr>ac_map := map_set key \<lparr>cv_buf = buf, cv_size = length buf, cv_session = sid\<rparr> (ac_map c1)\<rparr>;
          c3 = index_key key sid c2
      in evict (c3\<lparr>ac_bytes := ac_bytes c3 + int (length buf)\<rparr>))"

definition forget_key :: "string \<Rightarrow> artifact_cache \<Rightarrow> artifact_cache" where
  "forget_key key c =
     (case map_get (ac_map c) key of
        None \<Rightarrow> c
      | Some entry \<Rightarrow> c\<lparr>ac_bytes := ac_bytes c - int (cv_size entry), ac_map := map_del key (ac_map c)\<rparr>)"

definition invalidateSession :: "string \<Rightarrow> artifact_cache \<Rightarrow> artifact_cache" where
  "invalidateSession sid c =
     (case map_get (ac_bySession c) sid of
        None \<Rightarrow> c
      | Some keys \<Rightarrow> (fold forget_key keys c)\<lparr>ac_bySession := map_del sid (ac_bySession c)\<rparr>)"

section \<open>The invariant\<close>

text \<open>
  The counter is the sum of the sizes, a size is the length of its buffer, and the index
  holds exactly the keys of each session, no empty set among them.
\<close>

definition total :: "(string, cache_value) jsmap \<Rightarrow> int" where
  "total m = sum_list (map (\<lambda>(k, v). int (cv_size v)) m)"

definition owner_of :: "(string, cache_value) jsmap \<Rightarrow> string \<Rightarrow> string option" where
  "owner_of m key = map_option cv_session (map_get m key)"

definition indexed :: "(string, string list) jsmap \<Rightarrow> string \<Rightarrow> string list" where
  "indexed b sid = (case map_get b sid of None \<Rightarrow> [] | Some keys \<Rightarrow> keys)"

definition cache_ok :: "artifact_cache \<Rightarrow> bool" where
  "cache_ok c =
     (keys_distinct (ac_map c) \<and> ac_bytes c = total (ac_map c)
      \<and> (\<forall>(k, v) \<in> set (ac_map c). cv_size v = length (cv_buf v))
      \<and> (\<forall>key sid. key \<in> set (indexed (ac_bySession c) sid) \<longleftrightarrow> owner_of (ac_map c) key = Some sid)
      \<and> (\<forall>sid. map_get (ac_bySession c) sid \<noteq> Some []))"

lemma total_Cons [simp]: "total ((k, v) # m) = int (cv_size v) + total m"
  by (simp add: total_def)

lemma total_append [simp]: "total [] = 0" "total (m @ m') = total m + total m'"
  by (simp_all add: total_def)

lemma total_delete:
  "keys_distinct m \<Longrightarrow> map_get m key = Some v \<Longrightarrow> total (map_del key m) = total m - int (cv_size v)"
proof (induction m)
  case (Cons p m)
  obtain k w where p: "p = (k, w)" by (cases p)
  show ?case
  proof (cases "k = key")
    case True
    then have "map_del key m = m" using Cons.prems(1) p by (simp add: delete_id)
    then show ?thesis using True Cons.prems(2) p by simp
  next
    case False
    then show ?thesis using Cons p by simp
  qed
qed simp

lemma total_new: "map_get m key = None \<Longrightarrow> total (map_set key v m) = total m + int (cv_size v)"
  by (induction m) (auto split: if_splits)

lemma owner_update: "owner_of (map_set key v m) k = (if k = key then Some (cv_session v) else owner_of m k)"
  by (simp add: owner_of_def)

lemma owner_delete: "owner_of (map_del key m) k = (if k = key then None else owner_of m k)"
  by (simp add: owner_of_def)

lemma unindex_sel [simp]:
  "ac_map (unindex_key key sid c) = ac_map c" "ac_bytes (unindex_key key sid c) = ac_bytes c"
  by (simp_all add: unindex_key_def Let_def split: option.split)

lemma indexed_unindex:
  "set (indexed (ac_bySession (unindex_key key sid c)) s) =
     (if s = sid then set (indexed (ac_bySession c) s) - {key} else set (indexed (ac_bySession c) s))"
proof (cases "map_get (ac_bySession c) sid")
  case None
  then have "key \<notin> set (indexed (ac_bySession c) sid)" unfolding indexed_def by simp
  moreover have "unindex_key key sid c = c" unfolding unindex_key_def None by simp
  ultimately show ?thesis by simp
next
  case (Some keys)
  have "set (removeAll key keys) = set keys - {key}" by simp
  then show ?thesis
    unfolding unindex_key_def Some option.case Let_def
    by (cases "removeAll key keys = []") (use Some in \<open>auto simp: indexed_def simp del: map_of_eq_Some_iff\<close>)
qed

lemma no_empty_unindex:
  assumes "\<And>s. map_get (ac_bySession c) s \<noteq> Some []"
  shows "map_get (ac_bySession (unindex_key key sid c)) s \<noteq> Some []"
  using assms by (simp add: unindex_key_def Let_def split: option.split del: map_of_eq_Some_iff)

lemma remove_ok:
  assumes ok: "cache_ok c" and e: "map_get (ac_map c) key = Some e"
  shows "cache_ok ((unindex_key key (cv_session e) (c\<lparr>ac_bytes := ac_bytes c - int (cv_size e)\<rparr>))
    \<lparr>ac_map := map_del key (ac_map c)\<rparr>)" (is "cache_ok ?c")
proof -
  let ?d = "c\<lparr>ac_bytes := ac_bytes c - int (cv_size e)\<rparr>"
  have "k \<in> set (indexed (ac_bySession ?c) s) \<longleftrightarrow> owner_of (ac_map ?c) k = Some s" for k s
  proof -
    have "k \<in> set (indexed (ac_bySession c) s) \<longleftrightarrow> owner_of (ac_map c) k = Some s"
      using ok by (simp add: cache_ok_def)
    moreover have "owner_of (ac_map c) key = Some (cv_session e)" using e by (simp add: owner_of_def del: map_of_eq_Some_iff)
    ultimately show ?thesis
      using indexed_unindex [of key "cv_session e" ?d s] by (auto simp: owner_delete)
  qed
  moreover have "map_get (ac_bySession ?c) s \<noteq> Some []" for s
    using no_empty_unindex [of ?d key "cv_session e" s] ok by (simp add: cache_ok_def del: map_of_eq_Some_iff)
  moreover have "set (map_del key (ac_map c)) \<subseteq> set (ac_map c)" by (auto simp: AList.delete_eq)
  ultimately show ?thesis
    using ok e by (auto simp: cache_ok_def total_delete keys_distinct_delete simp del: map_of_eq_Some_iff)
qed

lemma del_filter: "map_del k m = filter (\<lambda>p. fst p \<noteq> k) m"
  by (induction m) auto

lemma map_set_new: "map_get m key = None \<Longrightarrow> map_set key v m = m @ [(key, v)]"
  by (induction m) (auto split: if_splits)

lemma add_ok:
  assumes ok: "cache_ok c" and new: "map_get (ac_map c) key = None"
  shows "cache_ok ((index_key key sid (c\<lparr>ac_map := map_set key \<lparr>cv_buf = buf, cv_size = length buf, cv_session = sid\<rparr> (ac_map c)\<rparr>))
    \<lparr>ac_bytes := ac_bytes c + int (length buf)\<rparr>)" (is "cache_ok ?c")
proof -
  have "set (indexed (ac_bySession ?c) s) = (if s = sid then insert key (set (indexed (ac_bySession c) s)) else set (indexed (ac_bySession c) s))" for s
    by (auto simp: index_key_def indexed_def set_insert_def split: option.split)
  moreover have "k \<in> set (indexed (ac_bySession c) s) \<longleftrightarrow> owner_of (ac_map c) k = Some s" for k s
    using ok by (simp add: cache_ok_def)
  moreover have "owner_of (ac_map c) key = None" using new unfolding owner_of_def by simp
  ultimately have "k \<in> set (indexed (ac_bySession ?c) s) \<longleftrightarrow> owner_of (ac_map ?c) k = Some s" for k s
    by (auto simp: index_key_def owner_update)
  moreover have "map_get (ac_bySession ?c) s \<noteq> Some []" for s
    using ok by (auto simp: cache_ok_def index_key_def set_insert_def split: option.splits simp del: map_of_eq_Some_iff)
  moreover have "map_set key v (ac_map c) = ac_map c @ [(key, v)]" for v using new by (rule map_set_new)
  ultimately show ?thesis
    using ok new by (auto simp: cache_ok_def index_key_def total_new distinct_update map_of_eq_None_iff)
qed

lemma evict_step:
  assumes ok: "cache_ok c" and m: "ac_map c = (key, e) # rest"
    and over: "length (ac_map c) > MAX_ARTIFACT_CACHE_ENTRIES \<or> ac_bytes c > int MAX_ARTIFACT_CACHE_BYTES"
  shows "\<exists>d. cache_ok d \<and> ac_map d = rest \<and> evict c = evict d"
proof -
  let ?d = "(unindex_key key (cv_session e) (c\<lparr>ac_bytes := ac_bytes c - int (cv_size e)\<rparr>))\<lparr>ac_map := map_del key (ac_map c)\<rparr>"
  have "key \<notin> fst ` set rest" using ok m by (simp add: cache_ok_def)
  then have "map_del key (ac_map c) = rest" using m by (simp add: delete_id)
  moreover have "evict c = evict ?d" using m over by (subst evict.simps) simp
  moreover have "cache_ok ?d" using m by (intro remove_ok [OF ok]) simp
  ultimately show ?thesis by (intro exI [of _ ?d]) simp
qed

text \<open>Eviction drops the oldest entries, no more than it must.\<close>

fun fits :: "(string \<times> string \<times> string) list \<Rightarrow> bool" where
  "fits es = (length es \<le> MAX_ARTIFACT_CACHE_ENTRIES
     \<and> sum_list (map (\<lambda>(k, b, s). length b) es) \<le> MAX_ARTIFACT_CACHE_BYTES)"

fun lru_trim :: "(string \<times> string \<times> string) list \<Rightarrow> (string \<times> string \<times> string) list" where
  "lru_trim [] = []"
| "lru_trim (e # es) = (if fits (e # es) then e # es else lru_trim es)"

lemma trim_fits: "fits es \<Longrightarrow> lru_trim es = es"
  by (cases es) (simp_all del: fits.simps)

definition recency :: "artifact_cache \<Rightarrow> (string \<times> string \<times> string) list" where
  "recency c = map (\<lambda>(k, v). (k, cv_buf v, cv_session v)) (ac_map c)"

lemma total_recency: "cache_ok c \<Longrightarrow> ac_bytes c = int (sum_list (map (\<lambda>(k, b, s). length b) (recency c)))"
proof -
  assume "cache_ok c"
  then have "ac_bytes c = total (ac_map c)" "\<forall>(k, v) \<in> set (ac_map c). cv_size v = length (cv_buf v)"
    by (simp_all add: cache_ok_def)
  moreover have "\<forall>(k, v) \<in> set m. cv_size v = length (cv_buf v) \<Longrightarrow>
      total m = int (sum_list (map (\<lambda>(k, b, s). length b) (map (\<lambda>(k, v). (k, cv_buf v, cv_session v)) m)))" for m
    by (induction m) (auto simp: total_def)
  ultimately show ?thesis by (simp add: recency_def)
qed

lemma evict_ok:
  "cache_ok c \<Longrightarrow> cache_ok (evict c) \<and> recency (evict c) = lru_trim (recency c)"
proof (induction "length (ac_map c)" arbitrary: c)
  case 0
  then have "ac_bytes c = 0" using total_recency [of c] by (simp add: recency_def)
  with 0 show ?case by (subst (1 2) evict.simps) (simp add: recency_def)
next
  case (Suc n)
  then obtain key e rest where m: "ac_map c = (key, e) # rest" by (cases "ac_map c") auto
  let ?over = "length (ac_map c) > MAX_ARTIFACT_CACHE_ENTRIES \<or> ac_bytes c > int MAX_ARTIFACT_CACHE_BYTES"
  have fit: "fits (recency c) \<longleftrightarrow> \<not> ?over"
    using total_recency [OF Suc.prems] by (auto simp: recency_def)
  have head: "recency c = (key, cv_buf e, cv_session e) # map (\<lambda>(k, v). (k, cv_buf v, cv_session v)) rest"
    using m by (simp add: recency_def)
  show ?case
  proof (cases ?over)
    case False
    then have "evict c = c" by (subst evict.simps) simp
    with Suc.prems fit False show ?thesis by (simp add: trim_fits del: fits.simps)
  next
    case True
    obtain d where d: "cache_ok d" "ac_map d = rest" "evict c = evict d"
      using evict_step [OF Suc.prems m True] by blast
    then have "n = length (ac_map d)" using Suc.hyps(2) m by simp
    with Suc.hyps(1) [of d] d show ?thesis
      using fit True head by (simp add: recency_def del: fits.simps)
  qed
qed

lemma cache_set_ok:
  assumes ok: "cache_ok c"
  shows "cache_ok (cache_set key buf sid c)
    \<and> recency (cache_set key buf sid c) = lru_trim (filter (\<lambda>e. fst e \<noteq> key) (recency c) @ [(key, buf, sid)])"
proof -
  obtain c1 where c1: "cache_ok c1" "ac_map c1 = map_del key (ac_map c)" and
    set: "cache_set key buf sid c = evict ((index_key key sid
      (c1\<lparr>ac_map := map_set key \<lparr>cv_buf = buf, cv_size = length buf, cv_session = sid\<rparr> (ac_map c1)\<rparr>))
      \<lparr>ac_bytes := ac_bytes c1 + int (length buf)\<rparr>)"
  proof (cases "map_get (ac_map c) key")
    case None
    then have "map_del key (ac_map c) = ac_map c" by (simp add: delete_id map_of_eq_None_iff)
    then show ?thesis using that [of c] ok None by (simp add: cache_set_def Let_def index_key_def)
  next
    case (Some e)
    from that [OF remove_ok [OF ok Some]] show ?thesis
      using Some by (simp add: cache_set_def Let_def index_key_def del: map_of_eq_Some_iff)
  qed
  have new: "map_get (ac_map c1) key = None" using c1(2) by simp
  let ?d = "(index_key key sid
      (c1\<lparr>ac_map := map_set key \<lparr>cv_buf = buf, cv_size = length buf, cv_session = sid\<rparr> (ac_map c1)\<rparr>))
      \<lparr>ac_bytes := ac_bytes c1 + int (length buf)\<rparr>"
  have "recency ?d = filter (\<lambda>e. fst e \<noteq> key) (recency c) @ [(key, buf, sid)]"
    using new c1(2) by (simp add: recency_def index_key_def map_set_new del_filter filter_map o_def case_prod_unfold)
  with evict_ok [OF add_ok [OF c1(1) new]] set show ?thesis by simp
qed

lemma filter_key: "keys_distinct m \<Longrightarrow> map_get m key = Some e \<Longrightarrow> filter (\<lambda>p. fst p = key) m = [(key, e)]"
  by (induction m) (force simp: filter_empty_conv split: if_splits)+

lemma cache_get_ok:
  assumes ok: "cache_ok c"
  shows "cache_ok (snd (cache_get key c))
    \<and> recency (snd (cache_get key c)) =
        filter (\<lambda>e. fst e \<noteq> key) (recency c) @ filter (\<lambda>e. fst e = key) (recency c)"
proof (cases "map_get (ac_map c) key")
  case None
  then have "key \<notin> fst ` set (ac_map c)" by (simp add: map_of_eq_None_iff)
  then have "filter (\<lambda>e. fst e \<noteq> key) (recency c) = recency c" "filter (\<lambda>e. fst e = key) (recency c) = []"
    by (force simp: recency_def filter_id_conv filter_empty_conv)+
  with None ok show ?thesis unfolding cache_get_def None by simp
next
  case (Some e)
  have d: "keys_distinct (ac_map c)" using ok by (simp add: cache_ok_def)
  let ?m = "map_del key (ac_map c) @ [(key, e)]"
  have m: "map_set key e (map_del key (ac_map c)) = ?m" by (simp add: map_set_new)
  have "map_get ?m k = map_get (ac_map c) k" for k
    using Some by (simp add: map_add_def split: option.split del: map_of_eq_Some_iff)
  moreover have "total ?m = total (ac_map c)" using total_delete [OF d Some] by simp
  moreover have "keys_distinct ?m" using d by (simp add: keys_distinct_delete delete_keys distinct_removeAll)
  moreover have "set ?m \<subseteq> set (ac_map c)" using d Some by (auto simp: del_filter)
  moreover have "filter (\<lambda>p. fst p = key) (ac_map c) = [(key, e)]" by (rule filter_key [OF d Some])
  ultimately show ?thesis
    using ok unfolding cache_get_def Some option.case m
    by (auto simp: cache_ok_def owner_of_def recency_def del_filter filter_map o_def case_prod_unfold)
qed

lemma forget_ok:
  assumes "keys_distinct (ac_map c)"
  shows "ac_map (fold forget_key keys c) = filter (\<lambda>p. fst p \<notin> set keys) (ac_map c)
    \<and> ac_bytes (fold forget_key keys c) - total (ac_map (fold forget_key keys c)) = ac_bytes c - total (ac_map c)
    \<and> ac_bySession (fold forget_key keys c) = ac_bySession c"
  using assms
proof (induction keys arbitrary: c)
  case (Cons key keys)
  have "ac_map (forget_key key c) = filter (\<lambda>p. fst p \<noteq> key) (ac_map c)
      \<and> ac_bytes (forget_key key c) - total (ac_map (forget_key key c)) = ac_bytes c - total (ac_map c)
      \<and> ac_bySession (forget_key key c) = ac_bySession c"
  proof (cases "map_get (ac_map c) key")
    case None
    then have "filter (\<lambda>p. fst p \<noteq> key) (ac_map c) = ac_map c" by (force simp: map_of_eq_None_iff filter_id_conv)
    then show ?thesis unfolding forget_key_def None by simp
  next
    case (Some e)
    then show ?thesis
      using total_delete [OF Cons.prems(1) Some] by (simp add: forget_key_def del_filter del: map_of_eq_Some_iff)
  qed
  with Cons.IH [of "forget_key key c"] Cons.prems show ?case
    by (simp add: keys_distinct_filter) (metis (no_types, lifting) filter_cong)
qed simp

lemma invalidate_ok:
  assumes ok: "cache_ok c"
  shows "cache_ok (invalidateSession sid c)
    \<and> recency (invalidateSession sid c) = filter (\<lambda>e. snd (snd e) \<noteq> sid) (recency c)"
proof -
  have d: "keys_distinct (ac_map c)" using ok by (simp add: cache_ok_def)
  have owner: "k \<in> set (indexed (ac_bySession c) s) \<longleftrightarrow> owner_of (ac_map c) k = Some s" for k s
    using ok by (simp add: cache_ok_def)
  have mem: "k \<in> set (indexed (ac_bySession c) sid) \<longleftrightarrow> cv_session v = sid" if "(k, v) \<in> set (ac_map c)" for k v
    using owner [of k sid] d that by (simp add: owner_of_def)
  have keep: "filter (\<lambda>p. fst p \<notin> set (indexed (ac_bySession c) sid)) (ac_map c)
      = filter (\<lambda>p. cv_session (snd p) \<noteq> sid) (ac_map c)"
    using mem by (intro filter_cong refl) auto
  show ?thesis
  proof (cases "map_get (ac_bySession c) sid")
    case None
    then have "indexed (ac_bySession c) sid = []" unfolding indexed_def by simp
    then have "filter (\<lambda>p. cv_session (snd p) \<noteq> sid) (ac_map c) = ac_map c" using keep by simp
    then have "filter (\<lambda>e. snd (snd e) \<noteq> sid) (recency c) = recency c"
      by (simp add: recency_def filter_map o_def case_prod_unfold)
    then show ?thesis using ok unfolding invalidateSession_def None by simp
  next
    case (Some keys)
    then have keys: "indexed (ac_bySession c) sid = keys" unfolding indexed_def by simp
    let ?f = "fold forget_key keys c"
    let ?c = "?f\<lparr>ac_bySession := map_del sid (ac_bySession c)\<rparr>"
    have f: "ac_map ?f = filter (\<lambda>p. cv_session (snd p) \<noteq> sid) (ac_map c)" "ac_bytes ?f = total (ac_map ?f)"
      using forget_ok [OF d, of keys] keep keys ok by (simp_all add: cache_ok_def)
    have "k \<in> set (indexed (ac_bySession ?c) s) \<longleftrightarrow> owner_of (ac_map ?c) k = Some s" for k s
    proof -
      have "owner_of (ac_map ?c) k = (case owner_of (ac_map c) k of None \<Rightarrow> None | Some t \<Rightarrow> if t = sid then None else Some t)"
        using map_of_filter_value [OF d, of "\<lambda>v. cv_session v \<noteq> sid" k] f(1)
        by (simp add: owner_of_def case_prod_unfold split: option.split)
      moreover have "indexed (ac_bySession ?c) s = (if s = sid then [] else indexed (ac_bySession c) s)"
        by (simp add: indexed_def)
      ultimately show ?thesis using owner [of k s] by (auto split: option.splits)
    qed
    moreover have "\<forall>s. map_get (ac_bySession ?c) s \<noteq> Some []" using ok by (auto simp: cache_ok_def)
    ultimately have "cache_ok ?c"
      using ok f by (auto simp: cache_ok_def keys_distinct_filter)
    moreover have "recency ?c = filter (\<lambda>e. snd (snd e) \<noteq> sid) (recency c)"
      using f(1) by (simp add: recency_def filter_map o_def case_prod_unfold)
    ultimately show ?thesis unfolding invalidateSession_def Some by simp
  qed
qed

section \<open>A cache that forgets the least recently used\<close>

datatype cache_op = CacheGet string | CacheSet string string string | CacheInvalidate string

text \<open>The answers and the last state of a series of operations.\<close>

fun cache_run :: "cache_op list \<Rightarrow> artifact_cache \<Rightarrow> string option list \<times> artifact_cache" where
  "cache_run [] c = ([], c)"
| "cache_run (CacheGet key # ops) c =
     (case cache_get key c of (r, c') \<Rightarrow> case cache_run ops c' of (rs, c'') \<Rightarrow> (r # rs, c''))"
| "cache_run (CacheSet key buf sid # ops) c = cache_run ops (cache_set key buf sid c)"
| "cache_run (CacheInvalidate sid # ops) c = cache_run ops (invalidateSession sid c)"

text \<open>
  The specification: a list of entries, key, buffer and session, the least recently used
  first, with no counter and no index.
\<close>

fun lru_run :: "cache_op list \<Rightarrow> (string \<times> string \<times> string) list \<Rightarrow>
    string option list \<times> (string \<times> string \<times> string) list" where
  "lru_run [] es = ([], es)"
| "lru_run (CacheGet key # ops) es =
     (case lru_run ops (filter (\<lambda>e. fst e \<noteq> key) es @ filter (\<lambda>e. fst e = key) es) of
        (rs, es') \<Rightarrow> (map_option fst (map_of es key) # rs, es'))"
| "lru_run (CacheSet key buf sid # ops) es =
     lru_run ops (lru_trim (filter (\<lambda>e. fst e \<noteq> key) es @ [(key, buf, sid)]))"
| "lru_run (CacheInvalidate sid # ops) es = lru_run ops (filter (\<lambda>e. snd (snd e) \<noteq> sid) es)"

lemma get_answer: "fst (cache_get key c) = map_option fst (map_of (recency c) key)"
proof -
  have "map_of (map (\<lambda>(k, v). (k, cv_buf v, cv_session v)) m) key
      = map_option (\<lambda>v. (cv_buf v, cv_session v)) (map_of m key)" for m :: "(string, cache_value) jsmap"
    by (induction m) auto
  then show ?thesis by (simp add: cache_get_def recency_def option.map_comp o_def split: option.split)
qed

lemma run_refines:
  assumes "cache_ok c" and "cache_run ops c = (rs, c')"
  shows "cache_ok c' \<and> lru_run ops (recency c) = (rs, recency c')"
  using assms
proof (induction ops c arbitrary: rs rule: cache_run.induct)
  case (2 key ops c)
  obtain r d where g: "cache_get key c = (r, d)" by (cases "cache_get key c")
  obtain rs' where rs: "cache_run ops d = (rs', c')" "rs = r # rs'" using 2(3) g by (auto split: prod.splits)
  have "r = map_option fst (map_of (recency c) key)" using get_answer [of key c] g by simp
  moreover have "cache_ok d" using cache_get_ok [OF 2(2), of key] g by simp
  ultimately show ?case using 2(1) [OF g [symmetric] _ rs(1)] cache_get_ok [OF 2(2), of key] g rs(2) by simp
next
  case (3 key buf sid ops c)
  then show ?case using cache_set_ok [of c key buf sid] by simp
next
  case (4 sid ops c)
  then show ?case using invalidate_ok [of c sid] by simp
qed simp

lemma new_ok: "cache_ok new_cache"
  by (simp add: cache_ok_def new_cache_def indexed_def owner_of_def)

text \<open>
  Claim C31. The artifact cache is an LRU cache: over any series of reads, writes and invalidations of
  sessions, it answers as the list that moves what is read or written to its end and drops
  entries from its front while there are more than 200 or they exceed 32 MB, and it holds
  the entries of that list in its order. Counter and index never get out of step.
\<close>

theorem artifact_cache_is_lru:
  "lru_run ops [] = (fst (cache_run ops new_cache), recency (snd (cache_run ops new_cache)))"
proof -
  obtain rs c where run: "cache_run ops new_cache = (rs, c)" by (cases "cache_run ops new_cache")
  have "recency new_cache = []" by (simp add: recency_def new_cache_def)
  with run_refines [OF new_ok run] run show ?thesis by simp
qed

lemma trim_bound: "fits (lru_trim es)"
  by (induction es) simp_all

lemma sum_filter: "sum_list (map f (filter P es)) + sum_list (map f (filter (\<lambda>e. \<not> P e) es)) = sum_list (map f es)"
  for f :: "'a \<Rightarrow> nat" by (induction es) auto

lemma fits_filter: "fits es \<Longrightarrow> fits (filter P es)"
  using le_trans [OF length_filter_le [of P es], of MAX_ARTIFACT_CACHE_ENTRIES]
    sum_filter [of "\<lambda>(k, b, s). length b" P es] by simp

lemma fits_move: "fits es \<Longrightarrow> fits (filter (\<lambda>e. fst e \<noteq> key) es @ filter (\<lambda>e. fst e = key) es)"
  using sum_length_filter_compl [of "\<lambda>e. fst e \<noteq> key" es] sum_filter [of "\<lambda>(k, b, s). length b" "\<lambda>e. fst e \<noteq> key" es]
  by simp

lemma run_fits: "cache_ok c \<Longrightarrow> fits (recency c) \<Longrightarrow> fits (recency (snd (cache_run ops c)))"
proof (induction ops c rule: cache_run.induct)
  case (2 key ops c)
  obtain r d where g: "cache_get key c = (r, d)" by (cases "cache_get key c")
  then have "cache_ok d" "fits (recency d)"
    using cache_get_ok [OF 2(2), of key] fits_move [OF 2(3), of key] by (simp_all del: fits.simps)
  from 2(1) [OF g [symmetric] this] show ?case by (cases "cache_run ops d") (simp add: g del: fits.simps)
next
  case (3 key buf sid ops c)
  then show ?case using cache_set_ok [of c key buf sid] trim_bound by (simp del: fits.simps)
next
  case (4 sid ops c)
  then show ?case using invalidate_ok [of c sid] fits_filter by (simp del: fits.simps)
qed simp

text \<open>
  The artifact cache is bounded and counts right: after any series of operations it holds at most
  200 entries of at most 32 MB together, and its byte counter is the sum of their lengths.
\<close>

theorem artifact_cache_bounded:
  "case snd (cache_run ops new_cache) of c \<Rightarrow>
     length (ac_map c) \<le> 200 \<and> ac_bytes c \<le> 33554432 \<and>
     ac_bytes c = sum_list (map (\<lambda>(key, v). int (length (cv_buf v))) (ac_map c))"
proof -
  let ?c = "snd (cache_run ops new_cache)"
  have start: "fits (recency new_cache)" by (simp add: recency_def new_cache_def)
  have ok: "cache_ok ?c" using run_refines [OF new_ok, of ops] by (metis prod.collapse)
  have fit: "fits (recency ?c)" by (rule run_fits [OF new_ok start])
  have len: "length (ac_map ?c) \<le> 200" and sum: "ac_bytes ?c \<le> 33554432"
    using fit total_recency [OF ok]
    by (simp_all add: recency_def MAX_ARTIFACT_CACHE_ENTRIES_def MAX_ARTIFACT_CACHE_BYTES_def)
  have "ac_bytes ?c = total (ac_map ?c)" "\<forall>(k, v) \<in> set (ac_map ?c). cv_size v = length (cv_buf v)"
    using ok by (simp_all add: cache_ok_def)
  then have "ac_bytes ?c = sum_list (map (\<lambda>(key, v). int (length (cv_buf v))) (ac_map ?c))"
    unfolding total_def by (auto intro!: arg_cong [of _ _ sum_list] map_cong)
  with len sum show ?thesis by simp
qed

end
