(* ===== verification/BuildWorkspaces.thy ===== *)
theory BuildWorkspaces imports RepoIdentifier PathContainment WorkspaceFiles ArtifactCache BuildQueue begin

text \<open>
  The workspaces of \<^verbatim>\<open>backend/src/services/buildExecutor.ts\<close>: sessions, the cache of builds,
  the requests that are being prepared, builds, edits and clean-ups, and the directories on disk that they
  share.

  The class runs on one thread and gives up control at every \<^verbatim>\<open>await\<close>: an operation is
  modelled as the steps between those points at which other requests can do something that matters, and
  \<open>exec_step\<close> takes one step. What git, Docker, the file system's path functions and the database answer comes
  with the event. A session object is an entry of \<open>ex_objects\<close>, because a build keeps using the object
  after the session was deleted from the map.
\<close>

section \<open>Directories\<close>

type_synonym files = "(string, string) jsmap"

text \<open>
  A workspace directory holds the checked-out files with git's HEAD, the output and the build directory;
  a part is \<open>None\<close> while it does not exist. Files are named by their path below the part.
\<close>

record directory =
  d_repo :: "files option"
  d_head :: "string option"
  d_output :: "files option"
  d_build :: "files option"

definition empty_dir :: directory where
  "empty_dir = \<lparr>d_repo = None, d_head = None, d_output = None, d_build = None\<rparr>"

definition BUILD_CACHE_VERSION :: string where "BUILD_CACHE_VERSION = ''preview-toolchain-20260324-1''"

definition PATCHED_TOOLCHAIN_FILES :: "string list" where
  "PATCHED_TOOLCHAIN_FILES =
     [''SConstruct'', ''demos/SConscript'', ''demos/rabbits.html'', ''pretex/processtex.py'',
      ''mathbox/gulpfile.js'', ''mathbox/src/shaders/factory.coffee'',
      ''mathbox/vendor/shadergraph/src/factory/library.coffee'', ''static/css/ila-add-on.css'',
      ''static/css/ila-add-on-gt.css'']"

text \<open>\<open>assets\<close> gives the files of the directory \<^verbatim>\<open>ila-toolchain\<close>.\<close>

definition syncPatchedToolchainFiles :: "(string \<Rightarrow> string option) \<Rightarrow> files \<Rightarrow> files" where
  "syncPatchedToolchainFiles assets repo =
     fold (\<lambda>relPath r. case assets relPath of None \<Rightarrow> r | Some content \<Rightarrow> map_set relPath content r)
       PATCHED_TOOLCHAIN_FILES repo"

text \<open>The filters of the two copies of a repository.\<close>

definition in_node_modules :: "string \<Rightarrow> bool" where
  "in_node_modules rel = (''node_modules'' \<in> set (split_on slash rel))"

definition mirror_filter :: "string \<Rightarrow> bool" where
  "mirror_filter rel = (\<not> in_node_modules rel \<and> hd (split_on slash rel) \<noteq> ''html'')"

definition base_dir :: "string \<Rightarrow> string \<Rightarrow> string" where
  "base_dir workDir sid = workDir @ [slash] @ sid"

definition repo_path :: "string \<Rightarrow> string" where "repo_path base = base @ ''/repo''"
definition output_path :: "string \<Rightarrow> string" where "output_path base = base @ ''/output''"
definition build_path :: "string \<Rightarrow> string" where "build_path base = base @ ''/build''"

type_synonym disk = "(string, directory) jsmap"

text \<open>
  \<^verbatim>\<open>_copyWorkspaceSnapshot\<close>: the copy of the repository throws when the source is gone; the
  other two parts are then created empty.
\<close>

definition part_of :: "(directory \<Rightarrow> 'a option) \<Rightarrow> disk \<Rightarrow> string \<Rightarrow> 'a option" where
  "part_of part disk path = (case map_get disk (path_dirname path) of None \<Rightarrow> None | Some d \<Rightarrow> part d)"

definition copyWorkspaceSnapshot ::
    "string \<Rightarrow> string \<Rightarrow> string option \<Rightarrow> string \<Rightarrow> disk \<Rightarrow> bool \<times> disk" where
  "copyWorkspaceSnapshot sourceRepoPath sourceOutputPath sourceBuildPath baseDir disk =
     (let disk1 = map_set baseDir empty_dir (map_del baseDir disk)
      in case part_of d_repo disk1 sourceRepoPath of
           None \<Rightarrow> (False, disk1)
         | Some repo \<Rightarrow>
             let output = (case part_of d_output disk1 sourceOutputPath of None \<Rightarrow> [] | Some fs \<Rightarrow> fs);
                 build = (case sourceBuildPath of
                            None \<Rightarrow> []
                          | Some p \<Rightarrow> (case part_of d_build disk1 p of None \<Rightarrow> [] | Some fs \<Rightarrow> fs))
             in (True, map_set baseDir
                   \<lparr>d_repo = Some (filter (\<lambda>(rel, content). \<not> in_node_modules rel) repo),
                    d_head = part_of d_head disk1 sourceRepoPath,
                    d_output = Some output, d_build = Some build\<rparr> disk1))"

section \<open>Sessions and the build cache\<close>

record session =
  s_owner :: string
  s_repo :: string
  s_token :: "string option"
  s_repoPath :: string
  s_outputPath :: string
  s_buildPath :: "string option"
  s_commitHash :: "string option"
  s_fromCache :: bool
  s_hasLocalEdits :: bool
  s_localTestMode :: bool
  s_seededFromLocal :: bool
  s_defaultBranch :: "string option"
  s_branch :: "string option"
  s_creatorLogin :: "string option"
  s_pdfReady :: bool

record cache_entry =
  ce_commitHash :: "string option"
  ce_cacheVersion :: string
  ce_repoPath :: string
  ce_outputPath :: string
  ce_buildPath :: string
  ce_sessionId :: string
  ce_builtAt :: int

text \<open>A row of the table of workspace sessions, as \<^verbatim>\<open>_saveSessionToDb\<close> writes it.\<close>

record db_row =
  db_owner :: string
  db_repo :: string
  db_branch :: string
  db_repoPath :: string
  db_outputPath :: string
  db_creatorLogin :: "string option"
  db_commitHash :: "string option"

record request =
  rq_owner :: string
  rq_repo :: string
  rq_token :: "string option"
  rq_defaultBranch :: string
  rq_creatorLogin :: "string option"
  rq_preferSeed :: bool

text \<open>
  A request that waits for the clone of another one holds that clone's promise: pending, or settled with the
  paths, or rejected.
\<close>

record workspace_paths =
  wp_repoPath :: string
  wp_outputPath :: string
  wp_buildPath :: string

datatype promise = Pending | Resolved workspace_paths | Rejected

text \<open>
  \<open>ex_copying\<close>, \<open>ex_fresh\<close> and \<open>ex_cloning\<close> are the requests between two steps of
  \<^verbatim>\<open>prepareRepository\<close>, by the session id they drew. \<open>ex_starting\<close> and \<open>ex_running\<close> are the builds before and during the Docker run,
  \<open>ex_written\<close> and \<open>ex_invalidated\<close> the edits before and after the cache was invalidated. A number
  is the place of a session object.
\<close>

record executor =
  ex_sessions :: "(string, nat) jsmap"
  ex_objects :: "session list"
  ex_cache :: "(string, cache_entry) jsmap"
  ex_cacheFile :: "(string, cache_entry) jsmap option"
  ex_inProgress :: "(string, string) jsmap"
  ex_copying :: "(string, request \<times> workspace_paths) jsmap"
  ex_fresh :: "(string, request \<times> string option) jsmap"
  ex_cloning :: "(string, request \<times> string option) jsmap"
  ex_waiting :: "(string \<times> request \<times> promise) list"
  ex_docker :: "string list"
  ex_starting :: "(string \<times> nat) list"
  ex_running :: "(string \<times> nat \<times> string option) list"
  ex_containers :: "string list"
  ex_pdf :: "(string, nat) jsmap"
  ex_promises :: "string list"
  ex_deferred :: "string list"
  ex_written :: "(string \<times> nat) list"
  ex_invalidated :: "(string \<times> nat) list"
  ex_queue :: build_state
  ex_artifacts :: artifact_cache
  ex_disk :: disk
  ex_db :: "(string, db_row) jsmap"

record build_reply =
  br_success :: bool
  br_buildType :: string
  br_artifacts :: "string list"
  br_entryFile :: "string option"
  br_fromCache :: bool
  br_buildInProgress :: bool

datatype reply =
    Accepted
  | Threw string
  | Prepared string bool
  | Built build_reply
  | Streaming
  | Served string
  | PdfAt "string option"
  | Ignored

definition repo_key :: "string \<Rightarrow> string \<Rightarrow> string" where
  "repo_key owner repo = owner @ [slash] @ repo"

definition key_of :: "session \<Rightarrow> string" where
  "key_of s = repo_key (s_owner s) (s_repo s)"

definition session_at :: "executor \<Rightarrow> string \<Rightarrow> (nat \<times> session) option" where
  "session_at st sid = map_option (\<lambda>i. (i, ex_objects st ! i)) (map_get (ex_sessions st) sid)"

text \<open>\<^verbatim>\<open>[...this.sessions.values()].some(...)\<close> on the base directories.\<close>

definition still_active :: "executor \<Rightarrow> string \<Rightarrow> bool" where
  "still_active st base = list_ex (\<lambda>(sid, i). path_dirname (s_repoPath (ex_objects st ! i)) = base) (ex_sessions st)"

definition update_object :: "nat \<Rightarrow> (session \<Rightarrow> session) \<Rightarrow> executor \<Rightarrow> executor" where
  "update_object i f st = st\<lparr>ex_objects := (ex_objects st)[i := f (ex_objects st ! i)]\<rparr>"

definition saveSessionToDb :: "string \<Rightarrow> executor \<Rightarrow> executor" where
  "saveSessionToDb sid st =
     (case session_at st sid of
        None \<Rightarrow> st
      | Some (i, s) \<Rightarrow>
          st\<lparr>ex_db := map_set sid
            \<lparr>db_owner = s_owner s, db_repo = s_repo s,
             db_branch = str_or (opt_str (s_branch s)) (str_or (opt_str (s_defaultBranch s)) ''main''),
             db_repoPath = s_repoPath s, db_outputPath = s_outputPath s,
             db_creatorLogin = s_creatorLogin s, db_commitHash = s_commitHash s\<rparr> (ex_db st)\<rparr>)"

text \<open>\<^verbatim>\<open>this.sessions.set\<close> with a new object, and the row for it.\<close>

definition setSession :: "string \<Rightarrow> session \<Rightarrow> executor \<Rightarrow> executor" where
  "setSession sid s st =
     st\<lparr>ex_sessions := map_set sid (length (ex_objects st)) (ex_sessions st), ex_objects := ex_objects st @ [s]\<rparr>"

definition new_session :: "request \<Rightarrow> string \<Rightarrow> bool \<Rightarrow> session" where
  "new_session rq base fromCache =
     \<lparr>s_owner = rq_owner rq, s_repo = rq_repo rq, s_token = rq_token rq, s_repoPath = repo_path base,
      s_outputPath = output_path base, s_buildPath = Some (build_path base), s_commitHash = None,
      s_fromCache = fromCache, s_hasLocalEdits = False, s_localTestMode = False, s_seededFromLocal = False,
      s_defaultBranch = Some (rq_defaultBranch rq), s_branch = None, s_creatorLogin = rq_creatorLogin rq,
      s_pdfReady = False\<rparr>"

definition saveCache :: "executor \<Rightarrow> executor" where
  "saveCache st = st\<lparr>ex_cacheFile := Some (ex_cache st)\<rparr>"

text \<open>\<^verbatim>\<open>fs.access(outputPath)\<close>, then \<^verbatim>\<open>_loadCache\<close> on the entries of the file.\<close>

definition loadCache :: "disk \<Rightarrow> (string, cache_entry) jsmap option \<Rightarrow> (string, cache_entry) jsmap" where
  "loadCache disk entries =
     fold (\<lambda>(key, e) cache.
         if ce_cacheVersion e \<noteq> BUILD_CACHE_VERSION then cache
         else if part_of d_output disk (ce_outputPath e) = None then cache
         else map_set key e cache)
       (case entries of None \<Rightarrow> [] | Some es \<Rightarrow> es) []"

section \<open>Preparing a workspace\<close>

text \<open>
  Up to the first step that takes time after the commit is known. \<open>lsRemote\<close> is what
  \<^verbatim>\<open>git ls-remote\<close> answered to the token of the request (\<^verbatim>\<open>null\<close> on any failure),
  \<open>mirrorCommit\<close> the commit of a local mirror.
\<close>

definition cache_hit :: "executor \<Rightarrow> string \<Rightarrow> string option \<Rightarrow> cache_entry option" where
  "cache_hit st key commitHash =
     (case commitHash of
        None \<Rightarrow> None
      | Some c \<Rightarrow>
          (case map_get (ex_cache st) key of
             None \<Rightarrow> None
           | Some e \<Rightarrow> if ce_cacheVersion e = BUILD_CACHE_VERSION \<and> ce_commitHash e = Some c then Some e else None))"

definition made_dirs :: directory where
  "made_dirs = \<lparr>d_repo = Some [], d_head = None, d_output = Some [], d_build = Some []\<rparr>"

definition prepareRepository ::
    "string \<Rightarrow> request \<Rightarrow> string option \<Rightarrow> string option \<Rightarrow> string \<Rightarrow> executor \<Rightarrow> reply \<times> executor" where
  "prepareRepository workDir rq lsRemote mirrorCommit sid st =
     (case assertValidRepoIdentifier (JStr (rq_owner rq)) (JStr (rq_repo rq)) of
        Inl _ \<Rightarrow> (Threw ''InvalidRepoIdentifierError'', st)
      | Inr _ \<Rightarrow>
          let commitHash = (case lsRemote of Some c \<Rightarrow> Some c | None \<Rightarrow> mirrorCommit);
              repoKey = repo_key (rq_owner rq) (rq_repo rq)
          in case cache_hit st repoKey commitHash of
               Some e \<Rightarrow>
                 (Accepted, st\<lparr>ex_copying := map_set sid
                    (rq, \<lparr>wp_repoPath = ce_repoPath e, wp_outputPath = ce_outputPath e, wp_buildPath = ce_buildPath e\<rparr>)
                    (ex_copying st)\<rparr>)
             | None \<Rightarrow>
                 (case map_get (ex_inProgress st) repoKey of
                    Some owner_sid \<Rightarrow> (Accepted, st\<lparr>ex_waiting := ex_waiting st @ [(owner_sid, rq, Pending)]\<rparr>)
                  | None \<Rightarrow>
                      (Accepted, st\<lparr>ex_fresh := map_set sid (rq, commitHash) (ex_fresh st),
                                   ex_disk := map_set (base_dir workDir sid) made_dirs (ex_disk st)\<rparr>)))"

text \<open>The copy of a cached or cloned workspace, and the session for it.\<close>

definition finish_copy :: "string \<Rightarrow> string \<Rightarrow> executor \<Rightarrow> reply \<times> executor" where
  "finish_copy workDir sid st =
     (case map_get (ex_copying st) sid of
        None \<Rightarrow> (Ignored, st)
      | Some (rq, src) \<Rightarrow>
          let base = base_dir workDir sid;
              (ok, disk) = copyWorkspaceSnapshot (wp_repoPath src) (wp_outputPath src) (Some (wp_buildPath src)) base (ex_disk st);
              st1 = st\<lparr>ex_copying := map_del sid (ex_copying st), ex_disk := disk\<rparr>
          in if ok then (Prepared sid True, saveSessionToDb sid (setSession sid (new_session rq base True) st1))
             else (Threw ''ENOENT'', st1))"

text \<open>A waiting request goes on when the promise it holds is settled, with a session id of its own.\<close>

definition remove_nth :: "nat \<Rightarrow> 'a list \<Rightarrow> 'a list" where
  "remove_nth k xs = take k xs @ drop (Suc k) xs"

definition resume_waiting :: "nat \<Rightarrow> string \<Rightarrow> executor \<Rightarrow> reply \<times> executor" where
  "resume_waiting k sid st =
     (if k < length (ex_waiting st)
      then case ex_waiting st ! k of
          (owner_sid, rq, Pending) \<Rightarrow> (Ignored, st)
        | (owner_sid, rq, Rejected) \<Rightarrow> (Threw ''Clone failed'', st\<lparr>ex_waiting := remove_nth k (ex_waiting st)\<rparr>)
        | (owner_sid, rq, Resolved paths) \<Rightarrow>
            (Accepted, st\<lparr>ex_waiting := remove_nth k (ex_waiting st),
                         ex_copying := map_set sid (rq, paths) (ex_copying st)\<rparr>)
      else (Ignored, st))"

text \<open>
  Parts of a directory are written only while the directory exists. A mirror is its tree with its HEAD, a
  seed the output of an earlier build on the machine.
\<close>

definition populateFromLocalMirror :: "files \<times> string option \<Rightarrow> directory \<Rightarrow> directory" where
  "populateFromLocalMirror mirror d =
     d\<lparr>d_repo := Some (filter (\<lambda>(rel, content). mirror_filter rel) (fst mirror)), d_head := snd mirror\<rparr>"

definition seedOutputFromLocalBuild :: "files option \<Rightarrow> directory \<Rightarrow> directory" where
  "seedOutputFromLocalBuild seed d =
     (case seed of
        None \<Rightarrow> d
      | Some fs \<Rightarrow> d\<lparr>d_output := Some (fold (\<lambda>(p, c). map_set p c) fs (case d_output d of None \<Rightarrow> [] | Some out \<Rightarrow> out))\<rparr>)"

definition sync_dir :: "(string \<Rightarrow> string option) \<Rightarrow> directory \<Rightarrow> directory" where
  "sync_dir assets d = d\<lparr>d_repo := map_option (syncPatchedToolchainFiles assets) (d_repo d)\<rparr>"

definition clone_session :: "request \<Rightarrow> string option \<Rightarrow> string \<Rightarrow> bool \<Rightarrow> session" where
  "clone_session rq commitHash base seeded =
     (new_session rq base seeded)\<lparr>s_commitHash := commitHash, s_seededFromLocal := seeded\<rparr>"

definition waiters_of :: "string \<Rightarrow> promise \<Rightarrow> (string \<times> request \<times> promise) list \<Rightarrow> (string \<times> request \<times> promise) list" where
  "waiters_of sid p ws = map (\<lambda>(o_sid, rq, q). if o_sid = sid then (o_sid, rq, p) else (o_sid, rq, q)) ws"

text \<open>
  After the directories were made: a request that prefers a seed and has a mirror ends here, any other
  registers its clone.
\<close>

definition begin_clone ::
    "string \<Rightarrow> (string \<Rightarrow> string option) \<Rightarrow> string \<Rightarrow> (files \<times> string option) option \<Rightarrow> files option \<Rightarrow>
     executor \<Rightarrow> reply \<times> executor" where
  "begin_clone workDir assets sid mirror seed st =
     (case map_get (ex_fresh st) sid of
        None \<Rightarrow> (Ignored, st)
      | Some (rq, commitHash) \<Rightarrow>
          let base = base_dir workDir sid; st1 = st\<lparr>ex_fresh := map_del sid (ex_fresh st)\<rparr>
          in case (if rq_preferSeed rq then mirror else None) of
               Some m \<Rightarrow>
                 let d = (case map_get (ex_disk st) base of None \<Rightarrow> empty_dir | Some d \<Rightarrow> d);
                     d' = sync_dir assets (seedOutputFromLocalBuild seed (populateFromLocalMirror m d));
                     seeded = (seed \<noteq> None)
                 in (Prepared sid seeded,
                     saveSessionToDb sid (setSession sid (clone_session rq commitHash base seeded)
                       (st1\<lparr>ex_disk := map_set base d' (ex_disk st)\<rparr>)))
             | None \<Rightarrow>
                 (Accepted, st1\<lparr>ex_cloning := map_set sid (rq, commitHash) (ex_cloning st),
                               ex_inProgress := map_set (repo_key (rq_owner rq) (rq_repo rq)) sid (ex_inProgress st)\<rparr>))"

text \<open>
  \<^verbatim>\<open>_clone\<close>: the public attempt, then one with the token if there is one; then the check
  that \<^verbatim>\<open>.git\<close> is there, which fails when the directory was removed meanwhile.
\<close>

definition clone_repo :: "string option \<Rightarrow> (files \<times> string) option \<Rightarrow> (files \<times> string) option \<Rightarrow> (files \<times> string) option" where
  "clone_repo token publicTry authTry =
     (case publicTry of Some r \<Rightarrow> Some r | None \<Rightarrow> if token = None then None else authTry)"

definition finish_clone ::
    "string \<Rightarrow> (string \<Rightarrow> string option) \<Rightarrow> string \<Rightarrow> (files \<times> string) option \<Rightarrow> (files \<times> string) option \<Rightarrow>
     (files \<times> string option) option \<Rightarrow> files option \<Rightarrow> files option \<Rightarrow> executor \<Rightarrow> reply \<times> executor" where
  "finish_clone workDir assets sid publicTry authTry mirror seed lateSeed st =
     (case map_get (ex_cloning st) sid of
        None \<Rightarrow> (Ignored, st)
      | Some (rq, commitHash) \<Rightarrow>
          let base = base_dir workDir sid;
              key = repo_key (rq_owner rq) (rq_repo rq);
              paths = \<lparr>wp_repoPath = repo_path base, wp_outputPath = output_path base, wp_buildPath = build_path base\<rparr>;
              here = map_get (ex_disk st) base;
              cloned = (case (here, clone_repo (rq_token rq) publicTry authTry) of
                          (Some d, Some (repo, head)) \<Rightarrow> Some (d\<lparr>d_repo := Some repo, d_head := Some head\<rparr>)
                        | _ \<Rightarrow> None);
              st1 = st\<lparr>ex_cloning := map_del sid (ex_cloning st), ex_inProgress := map_del key (ex_inProgress st)\<rparr>
          in case (case cloned of
                     Some d \<Rightarrow> Some (d, False)
                   | None \<Rightarrow>
                       (case mirror of
                          None \<Rightarrow> None
                        | Some m \<Rightarrow> Some (seedOutputFromLocalBuild seed
                            (populateFromLocalMirror m (case here of None \<Rightarrow> empty_dir | Some d \<Rightarrow> d)), seed \<noteq> None))) of
               None \<Rightarrow> (Threw ''Clone failed'', st1\<lparr>ex_waiting := waiters_of sid Rejected (ex_waiting st)\<rparr>)
             | Some (d, seeded) \<Rightarrow>
                 let late = (if rq_preferSeed rq \<and> \<not> seeded then lateSeed else None);
                     d' = seedOutputFromLocalBuild late (sync_dir assets d);
                     seeded' = (seeded \<or> late \<noteq> None)
                 in (Prepared sid seeded',
                     saveSessionToDb sid (setSession sid (clone_session rq commitHash base seeded')
                       (st1\<lparr>ex_waiting := waiters_of sid (Resolved paths) (ex_waiting st),
                            ex_disk := map_set base d' (ex_disk st)\<rparr>))))"

text \<open>The repository of the local test mode.\<close>

definition prepare_local :: "string \<Rightarrow> request \<Rightarrow> files \<Rightarrow> string \<Rightarrow> executor \<Rightarrow> reply \<times> executor" where
  "prepare_local workDir rq repo sid st =
     (let base = base_dir workDir sid
      in (Prepared sid False,
          saveSessionToDb sid (setSession sid ((new_session rq base False)\<lparr>s_localTestMode := True\<rparr>)
            (st\<lparr>ex_disk := map_set base \<lparr>d_repo = Some repo, d_head = None, d_output = Some [], d_build = Some []\<rparr>
                  (ex_disk st)\<rparr>))))"

section \<open>Builds\<close>

text \<open>The names at the top of a directory, and the page a preview starts with.\<close>

definition top_level :: "files \<Rightarrow> string list" where
  "top_level fs = remdups (map (\<lambda>(p, c). hd (split_on slash p)) fs)"

definition findEntry :: "files option \<Rightarrow> string option" where
  "findEntry output =
     (case output of
        None \<Rightarrow> None
      | Some fs \<Rightarrow>
          (case find (\<lambda>c. c \<in> set (top_level fs)) [''overview.html'', ''toc.html'', ''home.html'', ''main.html'', ''index.html''] of
             Some c \<Rightarrow> Some c
           | None \<Rightarrow> find (ends_with ''.html'') (top_level fs)))"

definition findArtifacts :: "files option \<Rightarrow> string list" where
  "findArtifacts output = (case output of None \<Rightarrow> [] | Some fs \<Rightarrow> map fst fs)"

definition failed_build :: "build_reply" where
  "failed_build = \<lparr>br_success = False, br_buildType = ''scons-html'', br_artifacts = [], br_entryFile = None,
     br_fromCache = False, br_buildInProgress = False\<rparr>"

text \<open>
  \<^verbatim>\<open>build\<close> up to its first step outside: local and cached sessions end here.
  \<open>localOutput\<close> is what the local test mode renders.
\<close>

definition put_part :: "string \<Rightarrow> (directory \<Rightarrow> directory) \<Rightarrow> executor \<Rightarrow> executor" where
  "put_part path f st =
     (case map_get (ex_disk st) (path_dirname path) of
        None \<Rightarrow> st
      | Some d \<Rightarrow> st\<lparr>ex_disk := map_set (path_dirname path) (f d) (ex_disk st)\<rparr>)"

definition build :: "string \<Rightarrow> files \<Rightarrow> executor \<Rightarrow> reply \<times> executor" where
  "build sid localOutput st =
     (case session_at st sid of
        None \<Rightarrow> (Threw ''Invalid build session'', st)
      | Some (i, s) \<Rightarrow>
          if s_localTestMode s then
            let st1 = saveSessionToDb sid (put_part (s_outputPath s) (\<lambda>d. d\<lparr>d_output := Some localOutput\<rparr>) st);
                artifacts = findArtifacts (part_of d_output (ex_disk st1) (s_outputPath s))
            in (Built \<lparr>br_success = (artifacts \<noteq> []), br_buildType = ''local'', br_artifacts = artifacts,
                  br_entryFile = findEntry (Some localOutput), br_fromCache = False, br_buildInProgress = False\<rparr>, st1)
          else if s_fromCache s then
            let output = part_of d_output (ex_disk st) (s_outputPath s);
                artifacts = findArtifacts output; entryFile = findEntry output
            in (Built \<lparr>br_success = (artifacts \<noteq> [] \<or> entryFile \<noteq> None),
                  br_buildType = (if s_seededFromLocal s then ''seeded-local'' else ''cached''), br_artifacts = artifacts,
                  br_entryFile = entryFile, br_fromCache = True, br_buildInProgress = False\<rparr>, saveSessionToDb sid st)
          else if key_of s \<in> set (ex_docker st) then (Built (failed_build\<lparr>br_buildInProgress := True\<rparr>), st)
          else (Accepted, st\<lparr>ex_starting := ex_starting st @ [(sid, i)]\<rparr>))"

text \<open>
  From there to the start of the container's process: the commit of the working tree, the image, the container.
  \<open>inspected\<close> says whether a container known from an earlier build still runs, \<open>started\<close> whether a
  new one could be started.
\<close>

definition head_of :: "executor \<Rightarrow> session \<Rightarrow> string option" where
  "head_of st s = part_of d_head (ex_disk st) (s_repoPath s)"

definition ensureContainerRunning :: "string \<Rightarrow> bool \<Rightarrow> bool \<Rightarrow> executor \<Rightarrow> bool \<times> executor" where
  "ensureContainerRunning sid inspected started st =
     (if sid \<in> set (ex_containers st) \<and> inspected then (True, st)
      else let st1 = st\<lparr>ex_containers := removeAll sid (ex_containers st)\<rparr>
           in if session_at st1 sid \<noteq> None \<and> started
              then (True, st1\<lparr>ex_containers := set_insert sid (ex_containers st1)\<rparr>) else (False, st1))"

definition launch_build :: "nat \<Rightarrow> bool \<Rightarrow> bool \<Rightarrow> bool \<Rightarrow> executor \<Rightarrow> reply \<times> executor" where
  "launch_build k imageReady inspected started st =
     (if k < length (ex_starting st)
      then case ex_starting st ! k of
          (sid, i) \<Rightarrow>
            let s = ex_objects st ! i; st1 = st\<lparr>ex_starting := remove_nth k (ex_starting st)\<rparr>;
                commitHash = (case head_of st s of Some c \<Rightarrow> Some c | None \<Rightarrow> s_commitHash s)
            in if \<not> imageReady then (Built failed_build, st1)
               else case ensureContainerRunning sid inspected started st1 of
                   (False, st2) \<Rightarrow> (Built failed_build, st2)
                 | (True, st2) \<Rightarrow>
                     (Accepted, st2\<lparr>ex_docker := set_insert (key_of s) (ex_docker st2),
                                   ex_running := ex_running st2 @ [(sid, i, commitHash)]\<rparr>)
      else (Ignored, st))"

text \<open>
  The end of the container's process: the files it left in the three directories, an error, or the time limit,
  which removes the container.
\<close>

datatype docker_end = Docker_ok files files files | Docker_failed | Docker_timeout

definition evict_old_entry :: "string \<Rightarrow> string \<Rightarrow> executor \<Rightarrow> executor" where
  "evict_old_entry key sid st =
     (case map_get (ex_cache st) key of
        None \<Rightarrow> st
      | Some oldEntry \<Rightarrow>
          if ce_sessionId oldEntry \<noteq> sid
          then let oldBase = path_dirname (ce_repoPath oldEntry)
               in if \<not> still_active st oldBase
                  then st\<lparr>ex_disk := map_del oldBase (ex_disk st),
                          ex_artifacts := invalidateSession (ce_sessionId oldEntry) (ex_artifacts st)\<rparr>
                  else st
          else st)"

definition cache_build :: "string \<Rightarrow> session \<Rightarrow> string option \<Rightarrow> int \<Rightarrow> executor \<Rightarrow> executor" where
  "cache_build sid s commitHash now st =
     (let st1 = evict_old_entry (key_of s) sid st
      in saveCache (st1\<lparr>ex_cache := map_set (key_of s)
           \<lparr>ce_commitHash = commitHash, ce_cacheVersion = BUILD_CACHE_VERSION, ce_repoPath = s_repoPath s,
            ce_outputPath = s_outputPath s,
            ce_buildPath = (case s_buildPath s of Some p \<Rightarrow> p | None \<Rightarrow> path_dirname (s_repoPath s) @ ''/build''),
            ce_sessionId = sid, ce_builtAt = now\<rparr> (ex_cache st1)\<rparr>))"

definition finish_build :: "nat \<Rightarrow> docker_end \<Rightarrow> int \<Rightarrow> executor \<Rightarrow> reply \<times> executor" where
  "finish_build k outcome now st =
     (if k < length (ex_running st)
      then case ex_running st ! k of
          (sid, i, launchCommit) \<Rightarrow>
            let s = ex_objects st ! i;
                st1 = st\<lparr>ex_running := remove_nth k (ex_running st), ex_docker := removeAll (key_of s) (ex_docker st)\<rparr>
            in case outcome of
                 Docker_failed \<Rightarrow> (Built failed_build, st1)
               | Docker_timeout \<Rightarrow> (Built failed_build, st1\<lparr>ex_containers := removeAll sid (ex_containers st1)\<rparr>)
               | Docker_ok repo output buildFiles \<Rightarrow>
                   let st2 = put_part (s_repoPath s)
                         (\<lambda>d. d\<lparr>d_repo := Some repo, d_output := Some output, d_build := Some buildFiles\<rparr>) st1;
                       out = part_of d_output (ex_disk st2) (s_outputPath s);
                       artifacts = findArtifacts out; entryFile = findEntry out;
                       success = (artifacts \<noteq> [] \<or> entryFile \<noteq> None);
                       st3 = (if success \<and> \<not> s_hasLocalEdits s
                              then let commitHash = (case launchCommit of Some c \<Rightarrow> Some c | None \<Rightarrow> head_of st2 s)
                                   in saveSessionToDb sid (cache_build sid s commitHash now st2)
                              else st2)
                   in (Built \<lparr>br_success = success, br_buildType = ''scons-html'', br_artifacts = artifacts,
                         br_entryFile = entryFile, br_fromCache = False, br_buildInProgress = False\<rparr>, st3)
      else (Ignored, st))"

text \<open>
  \<^verbatim>\<open>startBuild\<close>: \<open>redis\<close> and \<open>accepts\<close> are the state of the shared queue. A promise is
  registered only for a job that no queue took.
\<close>

definition startBuild :: "bool \<Rightarrow> bool \<Rightarrow> build_job \<Rightarrow> files \<Rightarrow> executor \<Rightarrow> reply \<times> executor" where
  "startBuild redis accepts job localOutput st =
     (case session_at st (job_session job) of
        None \<Rightarrow> (Threw ''Invalid build session'', st)
      | Some (i, s) \<Rightarrow>
          if s_fromCache s \<or> s_localTestMode s then build (job_session job) localOutput st
          else case pushBuildJob redis accepts job (ex_queue st) of
              (True, q) \<Rightarrow> (Streaming, st\<lparr>ex_queue := q\<rparr>)
            | (False, q) \<Rightarrow>
                if job_session job \<in> set (ex_promises st) then (Streaming, st)
                else case build (job_session job) localOutput st of
                    (r, st1) \<Rightarrow> (Streaming, st1\<lparr>ex_promises := set_insert (job_session job) (ex_promises st1)\<rparr>))"

section \<open>Edits\<close>

text \<open>
  \<^verbatim>\<open>updateFile\<close>: the write, with the answers of the file system; the deletion of the cache
  entry; the marks on the session, after the cache was written to its file. \<open>writeOk\<close> says whether
  \<^verbatim>\<open>fs.writeFile\<close> succeeded.
\<close>

definition write_repo_file :: "string \<Rightarrow> string \<Rightarrow> string \<Rightarrow> executor \<Rightarrow> executor" where
  "write_repo_file repoPath rel content st =
     put_part repoPath (\<lambda>d. d\<lparr>d_repo := Some (map_set rel content (case d_repo d of None \<Rightarrow> [] | Some fs \<Rightarrow> fs))\<rparr>) st"

definition update_write ::
    "(string \<Rightarrow> bool) \<Rightarrow> (string \<Rightarrow> string option) \<Rightarrow> string \<Rightarrow> bool \<Rightarrow> string \<Rightarrow> string \<Rightarrow> string \<Rightarrow> executor \<Rightarrow> reply \<times> executor" where
  "update_write lstat realpath cwd writeOk sid filePath content st =
     (case session_at st sid of
        None \<Rightarrow> (Threw ''Invalid session'', st)
      | Some (i, s) \<Rightarrow>
          (case resolveContainedPath lstat realpath cwd (s_repoPath s) (JStr filePath) False of
             Inl e \<Rightarrow> (Threw ''Access denied'', st)
           | Inr targetPath \<Rightarrow>
               if \<not> writeOk then (Threw ''EISDIR'', st)
               else (Accepted, (write_repo_file (s_repoPath s) (relative_below (s_repoPath s) targetPath) content st)
                                 \<lparr>ex_written := ex_written st @ [(sid, i)]\<rparr>)))"

definition update_invalidate :: "nat \<Rightarrow> files \<Rightarrow> executor \<Rightarrow> reply \<times> executor" where
  "update_invalidate k localOutput st =
     (if k < length (ex_written st)
      then case ex_written st ! k of
          (sid, i) \<Rightarrow>
            let s = ex_objects st ! i; st1 = st\<lparr>ex_written := remove_nth k (ex_written st)\<rparr>
            in if s_localTestMode s then build sid localOutput st1
               else (Accepted, saveCache (st1\<lparr>ex_cache := map_del (key_of s) (ex_cache st1),
                                              ex_invalidated := ex_invalidated st1 @ [(sid, i)]\<rparr>))
      else (Ignored, st))"

definition update_mark :: "nat \<Rightarrow> bool \<Rightarrow> bool \<Rightarrow> build_job \<Rightarrow> files \<Rightarrow> executor \<Rightarrow> reply \<times> executor" where
  "update_mark k redis accepts job localOutput st =
     (if k < length (ex_invalidated st)
      then case ex_invalidated st ! k of
          (sid, i) \<Rightarrow>
            let st1 = update_object i (\<lambda>s. s\<lparr>s_fromCache := False, s_hasLocalEdits := True\<rparr>)
                        (st\<lparr>ex_invalidated := remove_nth k (ex_invalidated st)\<rparr>)
            in (case pushBuildJob redis accepts (job\<lparr>job_session := sid\<rparr>) (ex_queue st1) of
                  (True, q) \<Rightarrow> (Streaming, st1\<lparr>ex_queue := q\<rparr>)
                | (False, q) \<Rightarrow> build sid localOutput st1)
      else (Ignored, st))"

text \<open>The editor's own way to save a file: \<^verbatim>\<open>updateWorkspaceFileContent\<close> on a session's directory.\<close>

definition workspace_write :: "(string \<Rightarrow> string) \<Rightarrow> string \<Rightarrow> string \<Rightarrow> string \<Rightarrow> string \<Rightarrow> executor \<Rightarrow> reply \<times> executor" where
  "workspace_write hash cwd sid relativePath content st =
     (let repo = map_option (\<lambda>(i, s). s_repoPath s) (session_at st sid)
      in case updateWorkspaceFileContent hash cwd repo sid relativePath content of
           Inl e \<Rightarrow> (Threw ''workspace error'', st)
         | Inr (targetPath, sha) \<Rightarrow>
             (case repo of
                None \<Rightarrow> (Ignored, st)
              | Some rp \<Rightarrow> (Accepted, write_repo_file rp (relative_below rp targetPath) content st)))"

section \<open>Clean-ups\<close>

text \<open>\<open>rmOk\<close> says for which directories the removal succeeds.\<close>

definition rm_dir :: "(string \<Rightarrow> bool) \<Rightarrow> string \<Rightarrow> disk \<Rightarrow> disk" where
  "rm_dir rmOk base disk = (if rmOk base then map_del base disk else disk)"

definition dir_cached :: "executor \<Rightarrow> string \<Rightarrow> bool" where
  "dir_cached st base = list_ex (\<lambda>(key, e). path_dirname (ce_repoPath e) = base) (ex_cache st)"

definition forget_session :: "string \<Rightarrow> executor \<Rightarrow> executor" where
  "forget_session sid st =
     st\<lparr>ex_containers := removeAll sid (ex_containers st), ex_sessions := map_del sid (ex_sessions st),
        ex_promises := removeAll sid (ex_promises st)\<rparr>"

definition cleanup :: "string \<Rightarrow> (string \<Rightarrow> bool) \<Rightarrow> string \<Rightarrow> executor \<Rightarrow> executor" where
  "cleanup workDir rmOk sid st =
     (if \<not> assertValidSessionId sid then st
      else if sid \<in> set (ex_promises st) \<or> map_has (ex_pdf st) sid
      then st\<lparr>ex_deferred := ex_deferred st @ [sid]\<rparr>
      else let baseDir = (case session_at st sid of
                            Some (i, s) \<Rightarrow> path_dirname (s_repoPath s)
                          | None \<Rightarrow> base_dir workDir sid)
           in if dir_cached st baseDir then forget_session sid st
              else let st1 = forget_session sid st
                   in st1\<lparr>ex_disk := rm_dir rmOk baseDir (ex_disk st1),
                          ex_artifacts := invalidateSession sid (ex_artifacts st1)\<rparr>)"

text \<open>
  \<^verbatim>\<open>runGlobalCleanup\<close>, taken as one step. One round of its first two loops, then the sweep of
  the directories that belong to nothing.
\<close>

definition drop_entry :: "(string \<Rightarrow> bool) \<Rightarrow> string \<times> cache_entry \<Rightarrow> executor \<Rightarrow> executor" where
  "drop_entry rmOk ke st =
     (let baseDir = path_dirname (ce_repoPath (snd ke))
      in if still_active st baseDir \<or> \<not> rmOk baseDir then st
         else st\<lparr>ex_disk := map_del baseDir (ex_disk st), ex_cache := map_del (fst ke) (ex_cache st),
                 ex_artifacts := invalidateSession (ce_sessionId (snd ke)) (ex_artifacts st)\<rparr>)"

definition expired_entries :: "int \<Rightarrow> int \<Rightarrow> executor \<Rightarrow> (string \<times> cache_entry) list" where
  "expired_entries now maxAge st = filter (\<lambda>(key, e). now - ce_builtAt e > maxAge) (ex_cache st)"

definition surplus_entries :: "nat \<Rightarrow> executor \<Rightarrow> (string \<times> cache_entry) list" where
  "surplus_entries maxSize st =
     (if length (ex_cache st) > maxSize
      then take (length (ex_cache st) - maxSize)
             (sort_by (\<lambda>a b. ce_builtAt (snd a) \<le> ce_builtAt (snd b)) (ex_cache st))
      else [])"

text \<open>The names in the data directory that look like a session id.\<close>

definition session_dirs :: "string \<Rightarrow> disk \<Rightarrow> string list" where
  "session_dirs workDir disk =
     filter assertValidSessionId
       (map (\<lambda>(p, d). drop (length workDir + 1) p) (filter (\<lambda>(p, d). starts_with (workDir @ [slash]) p) disk))"

definition sweep_dir :: "string \<Rightarrow> (string \<Rightarrow> bool) \<Rightarrow> string \<Rightarrow> executor \<Rightarrow> executor" where
  "sweep_dir workDir rmOk dir st =
     (if map_has (ex_sessions st) dir \<or> dir_cached st (base_dir workDir dir) then st
      else st\<lparr>ex_disk := rm_dir rmOk (base_dir workDir dir) (ex_disk st)\<rparr>)"

definition runGlobalCleanup :: "string \<Rightarrow> int \<Rightarrow> nat \<Rightarrow> (string \<Rightarrow> bool) \<Rightarrow> int \<Rightarrow> executor \<Rightarrow> executor" where
  "runGlobalCleanup workDir maxAge maxSize rmOk now st =
     (let st1 = fold (drop_entry rmOk) (expired_entries now maxAge st) st;
          st2 = fold (drop_entry rmOk) (surplus_entries maxSize st1) st1;
          st3 = saveCache st2
      in fold (sweep_dir workDir rmOk) (session_dirs workDir (ex_disk st3)) st3)"

section \<open>PDF builds\<close>

definition textbook :: string where "textbook = ''textbook.pdf''"

definition has_pdf :: "executor \<Rightarrow> session \<Rightarrow> bool" where
  "has_pdf st s = (case part_of d_output (ex_disk st) (s_outputPath s) of None \<Rightarrow> False | Some fs \<Rightarrow> map_has fs textbook)"

definition buildPdf :: "string \<Rightarrow> executor \<Rightarrow> reply \<times> executor" where
  "buildPdf sid st =
     (if \<not> assertValidSessionId sid then (Threw ''Invalid session ID'', st)
      else case session_at st sid of
          None \<Rightarrow> (Threw ''Build session not found'', st)
        | Some (i, s) \<Rightarrow>
            if s_pdfReady s \<and> has_pdf st s then (PdfAt (Some (s_outputPath s @ [slash] @ textbook)), st)
            else let st1 = (if s_pdfReady s then update_object i (\<lambda>s. s\<lparr>s_pdfReady := False\<rparr>) st else st)
                 in if map_has (ex_pdf st1) sid then (Accepted, st1)
                    else (Accepted, st1\<lparr>ex_pdf := map_set sid i (ex_pdf st1)\<rparr>))"

text \<open>
  The end of a PDF build: \<open>result\<close> is the output directory that a successful run left. The clean-ups that were
  put off until now follow.
\<close>

definition finish_pdf :: "string \<Rightarrow> (string \<Rightarrow> bool) \<Rightarrow> string \<Rightarrow> files option \<Rightarrow> executor \<Rightarrow> reply \<times> executor" where
  "finish_pdf workDir rmOk sid result st =
     (case map_get (ex_pdf st) sid of
        None \<Rightarrow> (Ignored, st)
      | Some i \<Rightarrow>
          let s = ex_objects st ! i;
              st1 = (case result of None \<Rightarrow> st | Some out \<Rightarrow> put_part (s_outputPath s) (\<lambda>d. d\<lparr>d_output := Some out\<rparr>) st);
              ready = (result \<noteq> None \<and> has_pdf st1 s);
              st2 = (if ready then update_object i (\<lambda>s. s\<lparr>s_pdfReady := True\<rparr>) st1 else st1);
              due = filter (\<lambda>d. d = sid) (ex_deferred st2);
              st3 = st2\<lparr>ex_pdf := map_del sid (ex_pdf st2), ex_deferred := filter (\<lambda>d. d \<noteq> sid) (ex_deferred st2)\<rparr>
          in (PdfAt (if ready then Some (s_outputPath s @ [slash] @ textbook) else None),
              fold (cleanup workDir rmOk) due st3))"

section \<open>Artifacts, restarts and rows of the database\<close>

text \<open>A file below a path of one of the parts.\<close>

definition read_below :: "(directory \<Rightarrow> files option) \<Rightarrow> disk \<Rightarrow> string \<Rightarrow> string \<Rightarrow> string option" where
  "read_below part disk root path =
     (case part_of part disk root of None \<Rightarrow> None | Some fs \<Rightarrow> map_get fs (relative_below root path))"

definition outside :: "string \<Rightarrow> string \<Rightarrow> bool" where
  "outside allowed p = (\<not> starts_with (allowed @ [slash]) p \<and> p \<noteq> allowed)"

definition serveArtifact :: "string \<Rightarrow> string \<Rightarrow> string \<Rightarrow> string \<Rightarrow> executor \<Rightarrow> reply \<times> executor" where
  "serveArtifact workDir cwd sid filePath st =
     (if \<not> assertValidSessionId sid then (Threw ''Invalid session ID'', st)
      else let outputPath = (case session_at st sid of Some (i, s) \<Rightarrow> s_outputPath s | None \<Rightarrow> output_path (base_dir workDir sid));
               repoPath = (case session_at st sid of Some (i, s) \<Rightarrow> s_repoPath s | None \<Rightarrow> repo_path (base_dir workDir sid));
               resolvedOutput = path_resolve cwd [outputPath, filePath];
               allowedOutput = path_resolve cwd [outputPath]
           in if outside allowedOutput resolvedOutput then (Threw ''Path traversal attempt blocked'', st)
              else let cacheKey = sid @ '':'' @ filePath
                   in case cache_get cacheKey (ex_artifacts st) of
                        (Some buf, ac) \<Rightarrow> (Served buf, st\<lparr>ex_artifacts := ac\<rparr>)
                      | (None, ac) \<Rightarrow>
                          (case read_below d_output (ex_disk st) allowedOutput resolvedOutput of
                             Some buf \<Rightarrow> (Served buf, st\<lparr>ex_artifacts := cache_set cacheKey buf sid ac\<rparr>)
                           | None \<Rightarrow>
                               let resolvedRepo = path_resolve cwd [repoPath, filePath];
                                   allowedRepo = path_resolve cwd [repoPath]
                               in if outside allowedRepo resolvedRepo then (Threw ''Path traversal attempt blocked'', st)
                                  else case read_below d_repo (ex_disk st) allowedRepo resolvedRepo of
                                      Some buf \<Rightarrow> (Served buf, st\<lparr>ex_artifacts := cache_set cacheKey buf sid ac\<rparr>)
                                    | None \<Rightarrow> (Threw ''Artifact not found'', st)))"

definition new_process :: "disk \<Rightarrow> (string, cache_entry) jsmap option \<Rightarrow> (string, db_row) jsmap \<Rightarrow> executor" where
  "new_process disk cacheFile db =
     \<lparr>ex_sessions = [], ex_objects = [], ex_cache = loadCache disk cacheFile, ex_cacheFile = cacheFile,
      ex_inProgress = [], ex_copying = [], ex_fresh = [], ex_cloning = [], ex_waiting = [], ex_docker = [],
      ex_starting = [], ex_running = [], ex_containers = [], ex_pdf = [], ex_promises = [], ex_deferred = [],
      ex_written = [], ex_invalidated = [], ex_queue = idle, ex_artifacts = new_cache, ex_disk = disk, ex_db = db\<rparr>"

text \<open>\<^verbatim>\<open>ensureSessionHydrated\<close> of \<^verbatim>\<open>buildQueue.ts\<close>: the session of a job, from its row.\<close>

definition hydrate :: "string \<Rightarrow> executor \<Rightarrow> reply \<times> executor" where
  "hydrate sid st =
     (if map_has (ex_sessions st) sid then (Ignored, st)
      else case map_get (ex_db st) sid of
          None \<Rightarrow> (Threw ''Session not found in database'', st)
        | Some row \<Rightarrow>
            (Accepted, setSession sid
              \<lparr>s_owner = db_owner row, s_repo = db_repo row, s_token = None, s_repoPath = db_repoPath row,
               s_outputPath = db_outputPath row, s_buildPath = None, s_commitHash = db_commitHash row,
               s_fromCache = False, s_hasLocalEdits = False, s_localTestMode = False, s_seededFromLocal = False,
               s_defaultBranch = None, s_branch = Some (db_branch row), s_creatorLogin = db_creatorLogin row,
               s_pdfReady = False\<rparr> st))"

section \<open>Steps and runs\<close>

datatype event =
    Ev_prepare request "string option" "string option" string
  | Ev_prepare_local request files string
  | Ev_copied string
  | Ev_resume nat string
  | Ev_made string "(files \<times> string option) option" "files option"
  | Ev_cloned string "(files \<times> string) option" "(files \<times> string) option" "(files \<times> string option) option"
      "files option" "files option"
  | Ev_start_build bool bool build_job files
  | Ev_build string files
  | Ev_launched nat bool bool bool
  | Ev_built nat docker_end int
  | Ev_write "string \<Rightarrow> bool" "string \<Rightarrow> string option" bool string string string
  | Ev_invalidate nat files
  | Ev_mark nat bool bool build_job files
  | Ev_workspace_write string string string
  | Ev_cleanup "string \<Rightarrow> bool" string
  | Ev_global_cleanup int nat "string \<Rightarrow> bool" int
  | Ev_pdf string
  | Ev_pdf_done "string \<Rightarrow> bool" string "files option"
  | Ev_serve string string
  | Ev_hydrate string
  | Ev_restart

text \<open>What does not change: the data directory, the working directory, the toolchain, the digest.\<close>

record installation =
  in_workDir :: string
  in_cwd :: string
  in_assets :: "string \<Rightarrow> string option"
  in_hash :: "string \<Rightarrow> string"

fun exec_step :: "installation \<Rightarrow> event \<Rightarrow> executor \<Rightarrow> reply \<times> executor" where
  "exec_step E (Ev_prepare rq lsRemote mirrorCommit sid) st = prepareRepository (in_workDir E) rq lsRemote mirrorCommit sid st"
| "exec_step E (Ev_prepare_local rq repo sid) st = prepare_local (in_workDir E) rq repo sid st"
| "exec_step E (Ev_copied sid) st = finish_copy (in_workDir E) sid st"
| "exec_step E (Ev_resume k sid) st = resume_waiting k sid st"
| "exec_step E (Ev_made sid mirror seed) st = begin_clone (in_workDir E) (in_assets E) sid mirror seed st"
| "exec_step E (Ev_cloned sid publicTry authTry mirror seed late) st =
     finish_clone (in_workDir E) (in_assets E) sid publicTry authTry mirror seed late st"
| "exec_step E (Ev_start_build redis accepts job out) st = startBuild redis accepts job out st"
| "exec_step E (Ev_build sid out) st = build sid out st"
| "exec_step E (Ev_launched k imageReady inspected started) st = launch_build k imageReady inspected started st"
| "exec_step E (Ev_built k outcome now) st = finish_build k outcome now st"
| "exec_step E (Ev_write lstat realpath ok sid path content) st = update_write lstat realpath (in_cwd E) ok sid path content st"
| "exec_step E (Ev_invalidate k out) st = update_invalidate k out st"
| "exec_step E (Ev_mark k redis accepts job out) st = update_mark k redis accepts job out st"
| "exec_step E (Ev_workspace_write sid path content) st = workspace_write (in_hash E) (in_cwd E) sid path content st"
| "exec_step E (Ev_cleanup rmOk sid) st = (Ignored, cleanup (in_workDir E) rmOk sid st)"
| "exec_step E (Ev_global_cleanup maxAge maxSize rmOk now) st = (Ignored, runGlobalCleanup (in_workDir E) maxAge maxSize rmOk now st)"
| "exec_step E (Ev_pdf sid) st = buildPdf sid st"
| "exec_step E (Ev_pdf_done rmOk sid result) st = finish_pdf (in_workDir E) rmOk sid result st"
| "exec_step E (Ev_serve sid path) st = serveArtifact (in_workDir E) (in_cwd E) sid path st"
| "exec_step E (Ev_hydrate sid) st = hydrate sid st"
| "exec_step E Ev_restart st = (Ignored, new_process (ex_disk st) (ex_cacheFile st) (ex_db st))"

fun exec_run :: "installation \<Rightarrow> event list \<Rightarrow> executor \<Rightarrow> executor" where
  "exec_run E [] st = st"
| "exec_run E (ev # evs) st = exec_run E evs (snd (exec_step E ev st))"

definition first_start :: executor where "first_start = new_process [] None []"

end
