(* ===== verification/WorkspaceSafety.thy ===== *)
theory WorkspaceSafety imports BuildWorkspaces begin

text \<open>
  Which directories stay: no clean-up, eviction or expiry of \<^verbatim>\<open>buildExecutor.ts\<close> removes a
  directory that a session or the build cache uses.
\<close>

section \<open>Directories of sessions\<close>

lemma path_dirname_part:
  assumes "length b \<ge> 2" and "name \<noteq> []" and "slash \<notin> set name"
  shows "path_dirname (b @ slash # name) = b"
proof -
  obtain c d b'' where bb: "b = c # d # b''" using assms(1) by (cases b; cases "tl b") auto
  define b' where "b' = d # b''"
  have b: "b = c # b'" "b' \<noteq> []" using bb by (simp_all add: b'_def)
  have hd_name: "hd (rev name @ slash # rev b') \<noteq> slash" using assms(2,3) by (cases "rev name") (auto dest!: arg_cong [of _ _ set])
  have "dropWhile (\<lambda>c. c = slash) (rev name @ slash # rev b') = rev name @ slash # rev b'"
    using hd_name by (cases "rev name @ slash # rev b'") auto
  moreover have "dropWhile (\<lambda>c. c \<noteq> slash) (rev name @ slash # rev b') = slash # rev b'"
    using assms(3) by (subst dropWhile_append2) auto
  ultimately have tail: "dirname_tail (b @ slash # name) = slash # rev b'" by (simp add: dirname_tail_def b)
  then show ?thesis using b by (simp add: path_dirname_alt)
qed

abbreviation rp :: "string \<Rightarrow> string \<Rightarrow> string" where "rp w sid \<equiv> repo_path (base_dir w sid)"
abbreviation op :: "string \<Rightarrow> string \<Rightarrow> string" where "op w sid \<equiv> output_path (base_dir w sid)"

lemma dirname_rp [simp]: "w \<noteq> [] \<Longrightarrow> path_dirname (rp w sid) = base_dir w sid"
  unfolding repo_path_def by (rule path_dirname_part) (cases w; auto simp: base_dir_def)+

lemma dirname_op [simp]: "w \<noteq> [] \<Longrightarrow> path_dirname (op w sid) = base_dir w sid"
  unfolding output_path_def by (rule path_dirname_part) (cases w; auto simp: base_dir_def)+

lemma base_dir_inject [simp]: "base_dir w sid = base_dir w sid' \<longleftrightarrow> sid = sid'"
  by (simp add: base_dir_def)

lemma rp_inject [simp]: "rp w sid = rp w sid' \<longleftrightarrow> sid = sid'"
  by (simp add: repo_path_def)

lemma op_inject [simp]: "op w sid = op w sid' \<longleftrightarrow> sid = sid'"
  by (simp add: output_path_def)

section \<open>The invariant\<close>

abbreviation keyset :: "('k, 'v) jsmap \<Rightarrow> 'k set" where "keyset m \<equiv> fst ` set m"

lemma keyset_set [simp]: "keyset (map_set k v m) = insert k (keyset m)"
  using dom_update [of k v m] by simp

lemma keyset_del [simp]: "keyset (map_del k m) = keyset m - {k}"
  by (auto simp: AList.delete_eq)

lemma set_map_del: "set (map_del k m) = {p \<in> set m. fst p \<noteq> k}"
  by (auto simp: AList.delete_eq)

lemma keyset_iff: "k \<in> keyset m \<longleftrightarrow> map_get m k \<noteq> None"
  by (metis domIff dom_map_of_conv_image_fst)

definition shape :: "session \<Rightarrow> string \<times> string \<times> string" where
  "shape s = (s_repoPath s, s_outputPath s, key_of s)"

definition file_entries :: "executor \<Rightarrow> (string, cache_entry) jsmap" where
  "file_entries st = (case ex_cacheFile st of None \<Rightarrow> [] | Some es \<Rightarrow> es)"

text \<open>Everything that names a repository directory, with the repository it belongs to.\<close>

definition mentions :: "executor \<Rightarrow> (string \<times> string) list" where
  "mentions st =
     map (\<lambda>s. (s_repoPath s, key_of s)) (ex_objects st)
     @ map (\<lambda>(k, e). (ce_repoPath e, k)) (ex_cache st)
     @ map (\<lambda>(k, e). (ce_repoPath e, k)) (file_entries st)
     @ map (\<lambda>(sid, row). (db_repoPath row, repo_key (db_owner row) (db_repo row))) (ex_db st)"

abbreviation object_names :: "session list \<Rightarrow> (string \<times> string) set" where
  "object_names os \<equiv> (\<lambda>s. (s_repoPath s, key_of s)) ` set os"

abbreviation entry_names :: "(string, cache_entry) jsmap \<Rightarrow> (string \<times> string) set" where
  "entry_names m \<equiv> (\<lambda>(k, e). (ce_repoPath e, k)) ` set m"

abbreviation row_names :: "(string, db_row) jsmap \<Rightarrow> (string \<times> string) set" where
  "row_names m \<equiv> (\<lambda>(sid, row). (db_repoPath row, repo_key (db_owner row) (db_repo row))) ` set m"

lemma set_mentions:
  "set (mentions st) = object_names (ex_objects st) \<union> entry_names (ex_cache st) \<union> entry_names (file_entries st) \<union> row_names (ex_db st)"
  by (simp add: mentions_def Un_assoc)

lemma entry_names_set: "entry_names (map_set k e m) \<subseteq> insert (ce_repoPath e, k) (entry_names m)"
  using image_mono [OF set_map_set [of k e m], of "\<lambda>(k, e). (ce_repoPath e, k)"] by simp

lemma row_names_set: "row_names (map_set sid r m) \<subseteq> insert (db_repoPath r, repo_key (db_owner r) (db_repo r)) (row_names m)"
  using image_mono [OF set_map_set [of sid r m], of "\<lambda>(sid, row). (db_repoPath row, repo_key (db_owner row) (db_repo row))"] by simp

definition pending_ids :: "executor \<Rightarrow> string list" where
  "pending_ids st = map fst (ex_copying st) @ map fst (ex_fresh st) @ map fst (ex_cloning st)"

definition run_ids :: "(string \<times> nat \<times> string option) list \<Rightarrow> (string \<times> nat) set" where
  "run_ids xs = (\<lambda>(sid, i, c). (sid, i)) ` set xs"

lemma run_ids_append [simp]: "run_ids (xs @ ys) = run_ids xs \<union> run_ids ys" "run_ids [(sid, i, c)] = {(sid, i)}"
  by (simp_all add: run_ids_def image_Un)

definition held :: "executor \<Rightarrow> (string \<times> nat) set" where
  "held st = set (ex_starting st) \<union> run_ids (ex_running st)
     \<union> set (ex_written st) \<union> set (ex_invalidated st)"

definition entry_at :: "string \<Rightarrow> cache_entry \<Rightarrow> bool" where
  "entry_at w e = (ce_repoPath e = rp w (ce_sessionId e) \<and> ce_outputPath e = op w (ce_sessionId e))"

definition object_at :: "string \<Rightarrow> executor \<Rightarrow> string \<Rightarrow> nat \<Rightarrow> bool" where
  "object_at w st sid i = (i < length (ex_objects st) \<and> s_repoPath (ex_objects st ! i) = rp w sid
     \<and> s_outputPath (ex_objects st ! i) = op w sid)"

definition dir_inv :: "string \<Rightarrow> executor \<Rightarrow> bool" where
  "dir_inv w st =
     ((\<forall>(sid, i) \<in> set (ex_sessions st). object_at w st sid i \<and> base_dir w sid \<in> keyset (ex_disk st))
      \<and> (\<forall>(k, e) \<in> set (ex_cache st). entry_at w e \<and> base_dir w (ce_sessionId e) \<in> keyset (ex_disk st))
      \<and> keys_distinct (ex_cache st)
      \<and> (\<forall>(k, e) \<in> set (file_entries st). entry_at w e)
      \<and> (\<forall>(sid, row) \<in> set (ex_db st). db_repoPath row = rp w sid \<and> db_outputPath row = op w sid)
      \<and> (\<forall>(sid, i) \<in> held st. object_at w st sid i)
      \<and> (\<forall>(sid, i) \<in> set (ex_pdf st). sid \<in> keyset (ex_sessions st) \<and> object_at w st sid i)
      \<and> single_valued (set (mentions st))
      \<and> (\<forall>sid \<in> set (pending_ids st). rp w sid \<notin> fst ` set (mentions st)))"

lemma dir_invD:
  assumes "dir_inv w st"
  shows "(sid, i) \<in> set (ex_sessions st) \<Longrightarrow> object_at w st sid i \<and> base_dir w sid \<in> keyset (ex_disk st)"
    and "(k, e) \<in> set (ex_cache st) \<Longrightarrow> entry_at w e \<and> base_dir w (ce_sessionId e) \<in> keyset (ex_disk st)"
    and "keys_distinct (ex_cache st)"
    and "(k, e) \<in> set (file_entries st) \<Longrightarrow> entry_at w e"
    and "(sid, row) \<in> set (ex_db st) \<Longrightarrow> db_repoPath row = rp w sid \<and> db_outputPath row = op w sid"
    and "(sid, i) \<in> held st \<Longrightarrow> object_at w st sid i"
    and "(sid, i) \<in> set (ex_pdf st) \<Longrightarrow> sid \<in> keyset (ex_sessions st) \<and> object_at w st sid i"
    and "single_valued (set (mentions st))"
    and "sid \<in> set (pending_ids st) \<Longrightarrow> rp w sid \<notin> fst ` set (mentions st)"
  using assms unfolding dir_inv_def by (blast+)

lemma dir_invI:
  assumes "\<And>sid i. (sid, i) \<in> set (ex_sessions st) \<Longrightarrow> object_at w st sid i \<and> base_dir w sid \<in> keyset (ex_disk st)"
    and "\<And>k e. (k, e) \<in> set (ex_cache st) \<Longrightarrow> entry_at w e \<and> base_dir w (ce_sessionId e) \<in> keyset (ex_disk st)"
    and "keys_distinct (ex_cache st)"
    and "\<And>k e. (k, e) \<in> set (file_entries st) \<Longrightarrow> entry_at w e"
    and "\<And>sid row. (sid, row) \<in> set (ex_db st) \<Longrightarrow> db_repoPath row = rp w sid \<and> db_outputPath row = op w sid"
    and "\<And>sid i. (sid, i) \<in> held st \<Longrightarrow> object_at w st sid i"
    and "\<And>sid i. (sid, i) \<in> set (ex_pdf st) \<Longrightarrow> sid \<in> keyset (ex_sessions st) \<and> object_at w st sid i"
    and "single_valued (set (mentions st))"
    and "\<And>sid. sid \<in> set (pending_ids st) \<Longrightarrow> rp w sid \<notin> fst ` set (mentions st)"
  shows "dir_inv w st"
proof -
  have split: "(\<And>a b. (a, b) \<in> A \<Longrightarrow> P a b) \<Longrightarrow> \<forall>(a, b) \<in> A. P a b" for A :: "('a \<times> 'b) set" and P by auto
  show ?thesis
    unfolding dir_inv_def
    by (intro conjI split ballI) (simp_all add: assms)
qed

text \<open>
  A state that has lost sessions, entries and pending requests, but no directory, and whose objects keep their
  places and names, is as good.
\<close>

lemma object_at_shape:
  assumes "map shape (ex_objects st') = map shape (ex_objects st)"
  shows "object_at w st' sid i = object_at w st sid i"
proof -
  have len: "length (ex_objects st') = length (ex_objects st)" using assms by (metis length_map)
  moreover have "i < length (ex_objects st) \<Longrightarrow> shape (ex_objects st' ! i) = shape (ex_objects st ! i)"
    using assms len by (metis nth_map)
  ultimately show ?thesis by (auto simp: object_at_def shape_def)
qed

lemma mention_objects:
  assumes "map shape (ex_objects st') = map shape (ex_objects st)"
  shows "map (\<lambda>s. (s_repoPath s, key_of s)) (ex_objects st') = map (\<lambda>s. (s_repoPath s, key_of s)) (ex_objects st)"
proof -
  have k: "map (\<lambda>s. (s_repoPath s, key_of s)) ss = map (\<lambda>(r, o', k). (r, k)) (map shape ss)" for ss
    by (simp add: shape_def)
  show ?thesis unfolding k assms by (rule refl)
qed

lemma dir_inv_weaken:
  assumes inv: "dir_inv w st"
    and sess: "set (ex_sessions st') \<subseteq> set (ex_sessions st)"
    and objs: "map shape (ex_objects st') = map shape (ex_objects st)"
    and cache: "set (ex_cache st') \<subseteq> set (ex_cache st)" "keys_distinct (ex_cache st')"
    and saved: "set (file_entries st') \<subseteq> set (file_entries st) \<union> set (ex_cache st)"
    and db: "set (ex_db st') \<subseteq> set (ex_db st)"
    and held: "held st' \<subseteq> held st \<union> set (ex_sessions st)"
    and pdf: "\<And>sid i. (sid, i) \<in> set (ex_pdf st') \<Longrightarrow> sid \<in> keyset (ex_sessions st') \<and> object_at w st sid i"
    and disk: "\<And>sid i. (sid, i) \<in> set (ex_sessions st') \<Longrightarrow> base_dir w sid \<in> keyset (ex_disk st')"
      "\<And>k e. (k, e) \<in> set (ex_cache st') \<Longrightarrow> base_dir w (ce_sessionId e) \<in> keyset (ex_disk st')"
    and pend: "\<And>sid. sid \<in> set (pending_ids st') \<Longrightarrow> sid \<in> set (pending_ids st) \<or> rp w sid \<notin> fst ` set (mentions st)"
  shows "dir_inv w st'"
proof -
  note D = dir_invD [OF inv] and ob = object_at_shape [OF objs]
  have mo: "(\<lambda>s. (s_repoPath s, key_of s)) ` set (ex_objects st') = (\<lambda>s. (s_repoPath s, key_of s)) ` set (ex_objects st)"
    using mention_objects [OF objs] by (metis list.set_map)
  have m: "set (mentions st') \<subseteq> set (mentions st)"
    unfolding mentions_def set_append list.set_map mo using cache(1) saved db by blast
  have sv: "single_valued (set (mentions st'))" by (rule single_valued_subset [OF m D(8)])
  show ?thesis
  proof (rule dir_invI)
    fix sid i assume "(sid, i) \<in> set (ex_sessions st')"
    then show "object_at w st' sid i \<and> base_dir w sid \<in> keyset (ex_disk st')"
      using D(1) sess disk(1) unfolding ob by blast
  next
    fix k e assume "(k, e) \<in> set (ex_cache st')"
    then show "entry_at w e \<and> base_dir w (ce_sessionId e) \<in> keyset (ex_disk st')"
      using D(2) cache(1) disk(2) by blast
  next
    fix k e assume "(k, e) \<in> set (file_entries st')"
    then show "entry_at w e" using D(2,4) saved by blast
  next
    fix sid row assume "(sid, row) \<in> set (ex_db st')"
    then show "db_repoPath row = rp w sid \<and> db_outputPath row = op w sid" using D(5) db by blast
  next
    fix sid i assume "(sid, i) \<in> held st'"
    then show "object_at w st' sid i" using D(1,6) held unfolding ob by blast
  next
    fix sid i assume "(sid, i) \<in> set (ex_pdf st')"
    then show "sid \<in> keyset (ex_sessions st') \<and> object_at w st' sid i" using pdf unfolding ob by blast
  next
    fix sid assume "sid \<in> set (pending_ids st')"
    then show "rp w sid \<notin> fst ` set (mentions st')" using D(9) pend m by blast
  qed (rule cache(2) sv)+
qed

section \<open>Operations that keep all directories\<close>

text \<open>\<open>frame\<close>: the parts of the state that the invariant reads are the same, up to more held objects.\<close>

lemma dir_inv_frame:
  assumes inv: "dir_inv w st"
    and same: "ex_sessions st' = ex_sessions st" "map shape (ex_objects st') = map shape (ex_objects st)"
      "ex_cache st' = ex_cache st" "ex_cacheFile st' = ex_cacheFile st" "ex_db st' = ex_db st"
      "keyset (ex_disk st') = keyset (ex_disk st)" "pending_ids st' = pending_ids st"
    and held: "held st' \<subseteq> held st \<union> set (ex_sessions st)"
    and pdf: "set (ex_pdf st') \<subseteq> set (ex_pdf st) \<union> set (ex_sessions st)"
  shows "dir_inv w st'"
proof (rule dir_inv_weaken [OF inv])
  fix sid i assume "(sid, i) \<in> set (ex_pdf st')"
  then show "sid \<in> keyset (ex_sessions st') \<and> object_at w st sid i"
    using pdf dir_invD(1,7) [OF inv] same(1) by force
qed (use same held dir_invD [OF inv] in \<open>auto simp: file_entries_def\<close>)

lemma keyset_put_part [simp]: "keyset (ex_disk (put_part path f st)) = keyset (ex_disk st)"
  by (auto simp: put_part_def keyset_iff split: option.split)

lemma put_part_sel [simp]:
  "ex_sessions (put_part path f st) = ex_sessions st" "ex_objects (put_part path f st) = ex_objects st"
  "ex_cache (put_part path f st) = ex_cache st" "ex_cacheFile (put_part path f st) = ex_cacheFile st"
  "ex_db (put_part path f st) = ex_db st" "pending_ids (put_part path f st) = pending_ids st"
  "held (put_part path f st) = held st" "ex_pdf (put_part path f st) = ex_pdf st"
  "ex_written (put_part path f st) = ex_written st" "ex_running (put_part path f st) = ex_running st"
  "ex_deferred (put_part path f st) = ex_deferred st"
  by (simp_all add: put_part_def pending_ids_def held_def split: option.split)

lemma put_part_inv: "dir_inv w st \<Longrightarrow> dir_inv w (put_part path f st)"
  by (rule dir_inv_frame) auto

lemma session_at_Some:
  "session_at st sid = Some (i, s) \<Longrightarrow> (sid, i) \<in> set (ex_sessions st) \<and> s = ex_objects st ! i"
  by (auto simp: session_at_def dest: map_of_SomeD)

lemma session_mention:
  assumes "dir_inv w st" "session_at st sid = Some (i, s)"
  shows "(rp w sid, key_of s) \<in> set (mentions st)" "s_repoPath s = rp w sid" "s_outputPath s = op w sid"
    "base_dir w sid \<in> keyset (ex_disk st)" "object_at w st sid i"
proof -
  have "(sid, i) \<in> set (ex_sessions st)" "s = ex_objects st ! i" using session_at_Some [OF assms(2)] by auto
  then show o: "object_at w st sid i" and "base_dir w sid \<in> keyset (ex_disk st)"
    using dir_invD(1) [OF assms(1)] by blast+
  then show "s_repoPath s = rp w sid" "s_outputPath s = op w sid"
    using \<open>s = _\<close> by (auto simp: object_at_def)
  then show "(rp w sid, key_of s) \<in> set (mentions st)"
    using o \<open>s = _\<close> by (force simp: object_at_def mentions_def)
qed

lemma dir_inv_db:
  assumes inv: "dir_inv w st" and row: "db_repoPath row = rp w sid" "db_outputPath row = op w sid"
    "(rp w sid, repo_key (db_owner row) (db_repo row)) \<in> set (mentions st)"
  shows "dir_inv w (st\<lparr>ex_db := map_set sid row (ex_db st)\<rparr>)"
proof -
  let ?st = "st\<lparr>ex_db := map_set sid row (ex_db st)\<rparr>"
  note D = dir_invD [OF inv] and sub = set_map_set [of sid row "ex_db st"]
  have "(db_repoPath row, repo_key (db_owner row) (db_repo row)) \<in> set (mentions st)" using row(1,3) by simp
  moreover have "row_names (ex_db st) \<subseteq> set (mentions st)" unfolding set_mentions by (rule Un_upper2)
  ultimately have "row_names (map_set sid row (ex_db st)) \<subseteq> set (mentions st)"
    by (intro order.trans [OF row_names_set] insert_subsetI)
  then have "row_names (ex_db ?st) \<subseteq> set (mentions st)" by simp
  then have m: "set (mentions ?st) \<subseteq> set (mentions st)"
    unfolding set_mentions [of ?st] by (simp add: file_entries_def set_mentions [of st] le_supI1)
  have same: "object_at w ?st = object_at w st" "held ?st = held st" "file_entries ?st = file_entries st"
    "pending_ids ?st = pending_ids st" by (simp_all add: object_at_def held_def file_entries_def pending_ids_def fun_eq_iff)
  have rows: "(sid', r) \<in> set (map_set sid row (ex_db st)) \<Longrightarrow> db_repoPath r = rp w sid' \<and> db_outputPath r = op w sid'" for sid' r
    using sub D(5) row by blast
  have pend: "sid' \<in> set (pending_ids st) \<Longrightarrow> rp w sid' \<notin> fst ` set (mentions ?st)" for sid'
    using D(9) image_mono [OF m, of fst] by blast
  show ?thesis
    by (rule dir_invI) (use D(1-7) single_valued_subset [OF m D(8)] rows pend in \<open>simp_all add: same\<close>)
qed

lemma saveSessionToDb_inv: "dir_inv w st \<Longrightarrow> dir_inv w (saveSessionToDb sid st)"
  unfolding saveSessionToDb_def
  by (auto simp: session_mention key_of_def [symmetric] intro!: dir_inv_db split: option.split)

lemma build_inv:
  assumes inv: "dir_inv w st" shows "dir_inv w (snd (build sid out st))"
proof (cases "session_at st sid")
  case None
  then show ?thesis using inv by (simp add: build_def)
next
  case (Some p)
  then obtain i s where s: "session_at st sid = Some (i, s)" by (cases p) auto
  have "dir_inv w (st\<lparr>ex_starting := ex_starting st @ [(sid, i)]\<rparr>)"
    by (rule dir_inv_frame [OF inv]) (use session_at_Some [OF s] in \<open>auto simp: held_def pending_ids_def\<close>)
  then show ?thesis
    using inv put_part_inv [OF inv] by (simp add: build_def s Let_def saveSessionToDb_inv)
qed

lemma set_remove_nth: "set (remove_nth k xs) \<subseteq> set xs"
  by (auto simp: remove_nth_def dest: in_set_takeD in_set_dropD)

lemma container_change:
  "ensureContainerRunning sid a b st = (r, st') \<Longrightarrow> \<exists>c. st' = st\<lparr>ex_containers := c\<rparr>"
  by (auto simp: ensureContainerRunning_def Let_def split: if_splits) (metis executor.surjective executor.update_convs(13))+

lemma nth_remove_held:
  "k < length xs \<Longrightarrow> set (remove_nth k xs) \<subseteq> set xs" "k < length xs \<Longrightarrow> xs ! k \<in> set xs"
  by (auto simp: set_remove_nth)

lemma launch_inv:
  assumes inv: "dir_inv w st" shows "dir_inv w (snd (launch_build k im a b st))"
proof (cases "k < length (ex_starting st)")
  case True
  obtain sid i where n: "ex_starting st ! k = (sid, i)" by (cases "ex_starting st ! k")
  have h: "(sid, i) \<in> held st" using nth_mem [OF True] n by (simp add: held_def)
  let ?st1 = "st\<lparr>ex_starting := remove_nth k (ex_starting st)\<rparr>"
  have st1: "dir_inv w ?st1"
    by (rule dir_inv_frame [OF inv])
      (use set_remove_nth [of k "ex_starting st"] in \<open>auto simp: held_def pending_ids_def\<close>)
  obtain r st2 where e: "ensureContainerRunning sid a b ?st1 = (r, st2)" by (cases "ensureContainerRunning sid a b ?st1")
  then obtain c where st2: "st2 = ?st1\<lparr>ex_containers := c\<rparr>" using container_change by blast
  then have inv2: "dir_inv w st2"
    by (intro dir_inv_frame [OF st1]) (auto simp: held_def pending_ids_def)
  have "dir_inv w (st2\<lparr>ex_docker := d, ex_running := ex_running st2 @ [(sid, i, cm)]\<rparr>)" for d cm
    by (rule dir_inv_frame [OF inv])
      (use h st2 set_remove_nth [of k "ex_starting st"] in \<open>auto simp: held_def pending_ids_def\<close>)
  then show ?thesis
    using st1 inv2 True n e by (simp add: launch_build_def Let_def split: bool.split)
next
  case False
  then show ?thesis using inv by (simp add: launch_build_def)
qed

lemma dir_inv_queue [simp]: "dir_inv w (st\<lparr>ex_queue := q\<rparr>) = dir_inv w st"
  "dir_inv w (st\<lparr>ex_promises := ps\<rparr>) = dir_inv w st" "dir_inv w (st\<lparr>ex_artifacts := ac\<rparr>) = dir_inv w st"
  "dir_inv w (st\<lparr>ex_containers := cs\<rparr>) = dir_inv w st" "dir_inv w (st\<lparr>ex_deferred := ds\<rparr>) = dir_inv w st"
  "dir_inv w (st\<lparr>ex_docker := dk\<rparr>) = dir_inv w st" "dir_inv w (st\<lparr>ex_waiting := ws\<rparr>) = dir_inv w st"
  "dir_inv w (st\<lparr>ex_inProgress := ip\<rparr>) = dir_inv w st"
  by (simp_all add: dir_inv_def object_at_def held_def mentions_def file_entries_def pending_ids_def)

lemma startBuild_inv:
  assumes inv: "dir_inv w st" shows "dir_inv w (snd (startBuild r a job out st))"
proof -
  obtain r' st' where b: "build (job_session job) out st = (r', st')" by (cases "build (job_session job) out st")
  then have "dir_inv w st'" using build_inv [OF inv, of "job_session job" out] by simp
  then show ?thesis
    using inv b by (auto simp: startBuild_def split: option.split prod.split bool.split)
qed

lemma write_repo_inv: "dir_inv w st \<Longrightarrow> dir_inv w (write_repo_file rr rel c st)"
  by (simp add: write_repo_file_def put_part_inv)

lemma update_write_inv:
  assumes inv: "dir_inv w st" shows "dir_inv w (snd (update_write l r cwd ok sid p c st))"
proof (cases "session_at st sid")
  case None
  then show ?thesis using inv by (simp add: update_write_def)
next
  case (Some q)
  then obtain i s where s: "session_at st sid = Some (i, s)" by (cases q) auto
  have h: "(sid, i) \<in> set (ex_sessions st)" using session_at_Some [OF s] by simp
  have "dir_inv w ((write_repo_file rr rel c st)\<lparr>ex_written := ex_written st @ [(sid, i)]\<rparr>)" for rr rel
    by (rule dir_inv_frame [OF inv])
      (use h in \<open>auto simp: write_repo_file_def held_def pending_ids_def put_part_def keyset_iff split: option.split\<close>)
  then show ?thesis using inv s by (simp add: update_write_def split: sum.split)
qed

lemma invalidate_inv:
  assumes inv: "dir_inv w st" shows "dir_inv w (snd (update_invalidate k out st))"
proof (cases "k < length (ex_written st)")
  case True
  obtain sid i where n: "ex_written st ! k = (sid, i)" by (cases "ex_written st ! k")
  have h: "(sid, i) \<in> held st" using nth_mem [OF True] n by (simp add: held_def)
  let ?st1 = "st\<lparr>ex_written := remove_nth k (ex_written st)\<rparr>"
  have st1: "dir_inv w ?st1"
    by (rule dir_inv_frame [OF inv])
      (use set_remove_nth [of k "ex_written st"] in \<open>auto simp: held_def pending_ids_def\<close>)
  have "dir_inv w (saveCache (?st1\<lparr>ex_cache := map_del key (ex_cache st), ex_invalidated := ex_invalidated st @ [(sid, i)]\<rparr>))" for key
    by (rule dir_inv_weaken [OF inv])
      (use h set_remove_nth [of k "ex_written st"] dir_invD [OF inv] in
        \<open>auto simp: saveCache_def file_entries_def held_def pending_ids_def set_map_del keys_distinct_delete\<close>)
  then show ?thesis using True n st1 by (simp add: update_invalidate_def Let_def build_inv)
qed (use inv in \<open>simp add: update_invalidate_def\<close>)

lemma update_object_shape:
  "(\<And>s. shape (f s) = shape s) \<Longrightarrow> map shape (ex_objects (update_object i f st)) = map shape (ex_objects st)"
  by (cases "i < length (ex_objects st)") (simp_all add: update_object_def map_update list_update_same_conv list_update_beyond)

lemma update_object_inv:
  assumes "dir_inv w st" and f: "\<And>s. shape (f s) = shape s"
  shows "dir_inv w (update_object i f st)"
  by (rule dir_inv_frame [OF assms(1) _ update_object_shape [OF f]])
    (auto simp: update_object_def held_def pending_ids_def)

lemma mark_inv:
  assumes inv: "dir_inv w st" shows "dir_inv w (snd (update_mark k r a job out st))"
proof (cases "k < length (ex_invalidated st)")
  case True
  obtain sid i where n: "ex_invalidated st ! k = (sid, i)" by (cases "ex_invalidated st ! k")
  have "dir_inv w (st\<lparr>ex_invalidated := remove_nth k (ex_invalidated st)\<rparr>)"
    by (rule dir_inv_frame [OF inv])
      (use set_remove_nth [of k "ex_invalidated st"] in \<open>auto simp: held_def pending_ids_def\<close>)
  then have "dir_inv w (update_object i (\<lambda>s. s\<lparr>s_fromCache := False, s_hasLocalEdits := True\<rparr>)
      (st\<lparr>ex_invalidated := remove_nth k (ex_invalidated st)\<rparr>))"
    by (rule update_object_inv) (simp add: shape_def key_of_def)
  then show ?thesis using True n
    by (auto simp: update_mark_def Let_def build_inv split: prod.split bool.split)
qed (use inv in \<open>simp add: update_mark_def\<close>)

lemma workspace_write_inv: "dir_inv w st \<Longrightarrow> dir_inv w (snd (workspace_write h cwd sid p c st))"
  by (simp add: workspace_write_def Let_def write_repo_inv split: sum.split prod.split option.split)

lemma buildPdf_inv:
  assumes inv: "dir_inv w st" shows "dir_inv w (snd (buildPdf sid st))"
proof (cases "session_at st sid")
  case (Some q)
  then obtain i s where s: "session_at st sid = Some (i, s)" by (cases q) auto
  define st1 where "st1 = (if s_pdfReady s then update_object i (\<lambda>s. s\<lparr>s_pdfReady := False\<rparr>) st else st)"
  have st1: "dir_inv w st1"
    using inv unfolding st1_def by (auto intro!: update_object_inv simp: shape_def key_of_def)
  have "(sid, i) \<in> set (ex_sessions st1)" using session_at_Some [OF s] by (simp add: st1_def update_object_def)
  then have "dir_inv w (st1\<lparr>ex_pdf := map_set sid i (ex_pdf st1)\<rparr>)"
    using set_map_set [of sid i "ex_pdf st1"] by (intro dir_inv_frame [OF st1]) (auto simp: held_def pending_ids_def)
  then show ?thesis using inv st1 s by (simp add: buildPdf_def st1_def [symmetric] Let_def)
qed (use inv in \<open>simp add: buildPdf_def\<close>)

lemma serve_inv: "dir_inv w st \<Longrightarrow> dir_inv w (snd (serveArtifact w' cwd sid p st))"
  by (simp add: serveArtifact_def Let_def split: prod.split option.split)

section \<open>Preparing\<close>

lemma fst_set_mono: "A \<subseteq> B \<Longrightarrow> x \<notin> fst ` B \<Longrightarrow> x \<notin> fst ` A"
  by blast

lemma single_valued_insert:
  assumes "single_valued R" and "a \<notin> fst ` R" shows "single_valued (insert (a, b) R)"
proof (rule single_valuedI)
  have "(a, z) \<notin> R" for z using assms(2) by (metis fst_conv imageI)
  moreover fix x y z assume "(x, y) \<in> insert (a, b) R" "(x, z) \<in> insert (a, b) R"
  ultimately show "y = z" using assms(1) by (auto dest: single_valuedD)
qed

lemma setSession_inv:
  assumes inv: "dir_inv w st" and name: "(rp w sid, key_of s) \<in> set (mentions st) \<or> rp w sid \<notin> fst ` set (mentions st)"
    and np: "sid \<notin> set (pending_ids st)" and base: "base_dir w sid \<in> keyset (ex_disk st)"
    and at: "s_repoPath s = rp w sid" "s_outputPath s = op w sid"
  shows "dir_inv w (setSession sid s st)"
proof -
  let ?st = "setSession sid s st"
  note D = dir_invD [OF inv]
  have m: "set (mentions ?st) = insert (rp w sid, key_of s) (set (mentions st))"
    by (auto simp: set_mentions setSession_def file_entries_def at)
  have old: "object_at w st sid' i \<Longrightarrow> object_at w ?st sid' i" for sid' i
    by (auto simp: object_at_def setSession_def nth_append)
  have new: "object_at w ?st sid (length (ex_objects st))"
    by (simp add: object_at_def setSession_def at)
  have sv: "single_valued (set (mentions ?st))"
  proof (cases "(rp w sid, key_of s) \<in> set (mentions st)")
    case True
    then show ?thesis using D(8) m by (simp add: insert_absorb)
  next
    case False
    then have "rp w sid \<notin> fst ` set (mentions st)" using name by blast
    then show ?thesis unfolding m using D(8) by (intro single_valued_insert)
  qed
  have same: "held ?st = held st" "ex_cache ?st = ex_cache st" "file_entries ?st = file_entries st"
    "ex_db ?st = ex_db st" "ex_disk ?st = ex_disk st" "pending_ids ?st = pending_ids st" "ex_pdf ?st = ex_pdf st"
    by (simp_all add: setSession_def held_def file_entries_def pending_ids_def)
  have sess: "ex_sessions ?st = map_set sid (length (ex_objects st)) (ex_sessions st)" by (simp add: setSession_def)
  show ?thesis
  proof (rule dir_invI; (unfold same)?)
    fix sid' i assume "(sid', i) \<in> set (ex_sessions ?st)"
    then have "(sid', i) = (sid, length (ex_objects st)) \<or> (sid', i) \<in> set (ex_sessions st)"
      using set_map_set unfolding sess by fastforce
    then show "object_at w ?st sid' i \<and> base_dir w sid' \<in> keyset (ex_disk st)" using D(1) old new base by blast
  next
    fix sid' i assume "(sid', i) \<in> set (ex_pdf st)"
    then show "sid' \<in> keyset (ex_sessions ?st) \<and> object_at w ?st sid' i" using D(7) old unfolding sess by auto
  next
    fix sid' i assume "(sid', i) \<in> held st"
    then show "object_at w ?st sid' i" using D(6) old by blast
  next
    fix sid' assume "sid' \<in> set (pending_ids st)"
    then show "rp w sid' \<notin> fst ` set (mentions ?st)" using D(9) np unfolding m by auto
  qed (use D(2-5) sv in simp_all)
qed

text \<open>The disk may gain directories, and requests may be added whose id is new.\<close>

lemma dir_inv_pending:
  assumes inv: "dir_inv w st"
    and same: "ex_sessions st' = ex_sessions st" "ex_objects st' = ex_objects st" "ex_cache st' = ex_cache st"
      "ex_cacheFile st' = ex_cacheFile st" "ex_db st' = ex_db st" "held st' = held st" "ex_pdf st' = ex_pdf st"
    and disk: "keyset (ex_disk st) \<subseteq> keyset (ex_disk st')"
    and pend: "\<And>s. s \<in> set (pending_ids st') \<Longrightarrow> s \<in> set (pending_ids st) \<or> rp w s \<notin> fst ` set (mentions st)"
  shows "dir_inv w st'"
proof (rule dir_inv_weaken [OF inv])
  show "\<And>sid. sid \<in> set (pending_ids st') \<Longrightarrow> sid \<in> set (pending_ids st) \<or> rp w sid \<notin> fst ` set (mentions st)" by (rule pend)
qed (use same disk dir_invD [OF inv] in \<open>auto simp: file_entries_def\<close>)

lemma keyset_map_set_pending:
  "set (map fst (map_set k v m)) = insert k (set (map fst m))" "set (map fst (map_del k m)) = set (map fst m) - {k}"
  using keyset_set [of k v m] keyset_del [of k m] by (simp_all only: set_map)

lemma prepare_inv:
  assumes inv: "dir_inv w st" and fresh: "rp w sid \<notin> fst ` set (mentions st)"
  shows "dir_inv w (snd (prepareRepository w rq ls mc sid st))"
proof -
  have a: "dir_inv w (st\<lparr>ex_copying := map_set sid x (ex_copying st)\<rparr>)" for x
    by (rule dir_inv_pending [OF inv]) (use fresh in \<open>auto simp: held_def pending_ids_def keyset_map_set_pending simp del: set_map\<close>)
  have b: "dir_inv w (st\<lparr>ex_fresh := map_set sid x (ex_fresh st), ex_disk := map_set b d (ex_disk st)\<rparr>)" for x b d
    by (rule dir_inv_pending [OF inv]) (use fresh in \<open>auto simp: held_def pending_ids_def keyset_map_set_pending simp del: set_map\<close>)
  show ?thesis using inv a b by (simp add: prepareRepository_def Let_def split: sum.split option.split)
qed

lemma resume_inv:
  assumes inv: "dir_inv w st" and fresh: "rp w sid \<notin> fst ` set (mentions st)"
  shows "dir_inv w (snd (resume_waiting k sid st))"
proof -
  have "dir_inv w (st\<lparr>ex_waiting := ws, ex_copying := map_set sid x (ex_copying st)\<rparr>)" for x ws
    by (rule dir_inv_pending [OF inv]) (use fresh in \<open>auto simp: held_def pending_ids_def keyset_map_set_pending simp del: set_map\<close>)
  then show ?thesis using inv by (simp add: resume_waiting_def split: prod.split promise.split)
qed

text \<open>A request whose id is pending becomes a session once its directory is there.\<close>

lemma new_session_inv:
  assumes inv: "dir_inv w st" and fresh: "rp w sid \<notin> fst ` set (mentions st)"
    and same: "ex_sessions st' = ex_sessions st" "ex_objects st' = ex_objects st" "ex_cache st' = ex_cache st"
      "ex_cacheFile st' = ex_cacheFile st" "ex_db st' = ex_db st" "held st' = held st" "ex_pdf st' = ex_pdf st"
    and disk: "keyset (ex_disk st') = insert (base_dir w sid) (keyset (ex_disk st))"
    and pend: "set (pending_ids st') \<subseteq> set (pending_ids st) - {sid}"
    and at: "s_repoPath s = rp w sid" "s_outputPath s = op w sid"
  shows "dir_inv w (saveSessionToDb sid (setSession sid s st'))"
proof -
  have st': "dir_inv w st'" by (rule dir_inv_pending [OF inv same]) (use disk pend in auto)
  have m: "mentions st' = mentions st" using same by (simp add: mentions_def file_entries_def)
  show ?thesis
    by (intro saveSessionToDb_inv setSession_inv [OF st']) (use m fresh disk pend at in auto)
qed

lemma prepare_local_inv:
  assumes "dir_inv w st" and "rp w sid \<notin> fst ` set (mentions st)" and "sid \<notin> set (pending_ids st)"
  shows "dir_inv w (snd (prepare_local w rq repo sid st))"
  unfolding prepare_local_def Let_def snd_conv
  by (rule new_session_inv [OF assms(1,2)]) (use assms(3) in \<open>auto simp: held_def pending_ids_def new_session_def\<close>)

lemma pending_fresh:
  assumes "dir_inv w st"
  shows "map_get (ex_copying st) sid = Some x \<Longrightarrow> rp w sid \<notin> fst ` set (mentions st)"
    and "map_get (ex_fresh st) sid = Some y \<Longrightarrow> rp w sid \<notin> fst ` set (mentions st)"
    and "map_get (ex_cloning st) sid = Some z \<Longrightarrow> rp w sid \<notin> fst ` set (mentions st)"
  using dir_invD(9) [OF assms, of sid] by (force simp: pending_ids_def dest: map_of_SomeD)+

text \<open>An id is drawn once: no request has it in two of the three stages.\<close>

definition once_pending :: "executor \<Rightarrow> bool" where
  "once_pending st = (keyset (ex_copying st) \<inter> keyset (ex_fresh st) = {}
     \<and> keyset (ex_copying st) \<inter> keyset (ex_cloning st) = {} \<and> keyset (ex_fresh st) \<inter> keyset (ex_cloning st) = {})"

lemma copy_disk:
  assumes "copyWorkspaceSnapshot a b c base disk = (ok, disk')"
  shows "keyset disk' = insert base (keyset disk)"
proof -
  have "keyset (snd (copyWorkspaceSnapshot a b c base disk)) = insert base (keyset disk)"
    by (simp add: copyWorkspaceSnapshot_def Let_def split: option.split)
  with assms show ?thesis by simp
qed

lemma finish_copy_inv:
  assumes inv: "dir_inv w st" and once: "once_pending st"
  shows "dir_inv w (snd (finish_copy w sid st))"
proof (cases "map_get (ex_copying st) sid")
  case (Some x)
  obtain rq src where x: "x = (rq, src)" by (cases x)
  have fresh: "rp w sid \<notin> fst ` set (mentions st)" using pending_fresh(1) [OF inv Some] .
  have np: "sid \<notin> set (map fst (ex_fresh st))" "sid \<notin> set (map fst (ex_cloning st))"
    using once Some keyset_iff [of sid "ex_copying st"] unfolding once_pending_def set_map by blast+
  obtain ok disk where c: "copyWorkspaceSnapshot (wp_repoPath src) (wp_outputPath src) (Some (wp_buildPath src))
      (base_dir w sid) (ex_disk st) = (ok, disk)"
    by (meson surj_pair)
  note k = copy_disk [OF c]
  let ?st1 = "st\<lparr>ex_copying := map_del sid (ex_copying st), ex_disk := disk\<rparr>"
  have p: "set (pending_ids ?st1) \<subseteq> set (pending_ids st) - {sid}"
    using np by (auto simp: pending_ids_def keyset_map_set_pending simp del: set_map)
  have "dir_inv w ?st1" by (rule dir_inv_pending [OF inv]) (use k p in \<open>auto simp: held_def\<close>)
  moreover have "dir_inv w (saveSessionToDb sid (setSession sid (new_session rq (base_dir w sid) True) ?st1))"
    by (rule new_session_inv [OF inv fresh]) (use k p in \<open>auto simp: held_def new_session_def\<close>)
  ultimately show ?thesis using Some x c by (simp add: finish_copy_def Let_def)
qed (use inv in \<open>simp add: finish_copy_def\<close>)

lemma clone_session_sel [simp]:
  "s_repoPath (clone_session rq c base sd) = repo_path base" "s_outputPath (clone_session rq c base sd) = output_path base"
  by (simp_all add: clone_session_def new_session_def)

lemma begin_clone_inv:
  assumes inv: "dir_inv w st" and once: "once_pending st"
  shows "dir_inv w (snd (begin_clone w assets sid mirror seed st))"
proof (cases "map_get (ex_fresh st) sid")
  case (Some x)
  obtain rq c where x: "x = (rq, c)" by (cases x)
  have fresh: "rp w sid \<notin> fst ` set (mentions st)" using pending_fresh(2) [OF inv Some] .
  have np: "sid \<notin> set (map fst (ex_copying st))" "sid \<notin> set (map fst (ex_cloning st))"
    using once Some keyset_iff [of sid "ex_fresh st"] unfolding once_pending_def set_map by blast+
  let ?st1 = "st\<lparr>ex_fresh := map_del sid (ex_fresh st)\<rparr>"
  have p: "set (pending_ids ?st1) \<subseteq> set (pending_ids st) - {sid}"
    using np by (auto simp: pending_ids_def keyset_map_set_pending simp del: set_map)
  have a: "dir_inv w (saveSessionToDb sid (setSession sid (clone_session rq c (base_dir w sid) sd)
      (?st1\<lparr>ex_disk := map_set (base_dir w sid) d (ex_disk st)\<rparr>)))" for sd d
    by (rule new_session_inv [OF inv fresh]) (use p in \<open>auto simp: held_def pending_ids_def\<close>)
  have b: "dir_inv w (?st1\<lparr>ex_cloning := map_set sid y (ex_cloning st), ex_inProgress := ip\<rparr>)" for y ip
    by (rule dir_inv_pending [OF inv])
      (use fresh in \<open>auto simp: held_def pending_ids_def keyset_map_set_pending simp del: set_map\<close>)
  show ?thesis using Some x a b by (simp add: begin_clone_def Let_def split: option.split)
qed (use inv in \<open>simp add: begin_clone_def\<close>)

lemma finish_clone_inv:
  assumes inv: "dir_inv w st" and once: "once_pending st"
  shows "dir_inv w (snd (finish_clone w assets sid pt at mirror seed late st))"
proof (cases "map_get (ex_cloning st) sid")
  case (Some x)
  obtain rq c where x: "x = (rq, c)" by (cases x)
  have fresh: "rp w sid \<notin> fst ` set (mentions st)" using pending_fresh(3) [OF inv Some] .
  have np: "sid \<notin> set (map fst (ex_copying st))" "sid \<notin> set (map fst (ex_fresh st))"
    using once Some keyset_iff [of sid "ex_cloning st"] unfolding once_pending_def set_map by blast+
  let ?st1 = "st\<lparr>ex_cloning := map_del sid (ex_cloning st), ex_inProgress := map_del (repo_key (rq_owner rq) (rq_repo rq)) (ex_inProgress st)\<rparr>"
  have p: "set (pending_ids ?st1) \<subseteq> set (pending_ids st) - {sid}"
    using np by (auto simp: pending_ids_def keyset_map_set_pending simp del: set_map)
  have a: "dir_inv w (saveSessionToDb sid (setSession sid (clone_session rq c (base_dir w sid) sd)
      (?st1\<lparr>ex_waiting := ws, ex_disk := map_set (base_dir w sid) d (ex_disk st)\<rparr>)))" for sd d ws
    by (rule new_session_inv [OF inv fresh]) (use p in \<open>auto simp: held_def pending_ids_def\<close>)
  have b: "dir_inv w ?st1"
    by (rule dir_inv_pending [OF inv]) (use p in \<open>auto simp: held_def\<close>)
  show ?thesis using Some x a b by (simp add: finish_clone_def Let_def split: option.split prod.split)
qed (use inv in \<open>simp add: finish_clone_def\<close>)

section \<open>Operations that remove directories\<close>

lemma still_active_rp:
  assumes inv: "dir_inv w st" and w: "w \<noteq> []"
  shows "still_active st (base_dir w sid) \<longleftrightarrow> sid \<in> keyset (ex_sessions st)"
proof -
  have "path_dirname (s_repoPath (ex_objects st ! i)) = base_dir w sid' " if "(sid', i) \<in> set (ex_sessions st)" for sid' i
    using dir_invD(1) [OF inv that] w by (simp add: object_at_def)
  then show ?thesis unfolding still_active_def list_ex_iff by force
qed

lemma dir_cached_rp:
  assumes inv: "dir_inv w st" and w: "w \<noteq> []"
  shows "dir_cached st (base_dir w sid) \<longleftrightarrow> (\<exists>(k, e) \<in> set (ex_cache st). ce_sessionId e = sid)"
proof -
  have "path_dirname (ce_repoPath e) = base_dir w (ce_sessionId e)" if "(k, e) \<in> set (ex_cache st)" for k e
    using dir_invD(2) [OF inv that] w by (simp add: entry_at_def)
  then show ?thesis unfolding dir_cached_def list_ex_iff by force
qed

text \<open>Two entries of the cache have different directories.\<close>

lemma cache_dirs_differ:
  assumes inv: "dir_inv w st" and "(k, e) \<in> set (ex_cache st)" "(k', e') \<in> set (ex_cache st)"
    and "ce_sessionId e = ce_sessionId e'"
  shows "k = k'"
proof -
  have "ce_repoPath e = ce_repoPath e'" using dir_invD(2) [OF inv] assms(2-4) by (simp add: entry_at_def)
  moreover have "(ce_repoPath e, k) \<in> set (mentions st)" "(ce_repoPath e', k') \<in> set (mentions st)"
    using assms(2,3) unfolding set_mentions by force+
  ultimately show ?thesis using dir_invD(8) [OF inv] by (auto dest: single_valuedD)
qed

text \<open>
  Removing a directory that no session uses keeps the invariant when the entries for it go as well.
\<close>

lemma remove_dir_inv:
  assumes inv: "dir_inv w st" and base: "sid \<notin> keyset (ex_sessions st)"
    and c: "set (ex_cache st') \<subseteq> {(k, e) \<in> set (ex_cache st). ce_sessionId e \<noteq> sid}" "keys_distinct (ex_cache st')"
    and same: "ex_sessions st' = ex_sessions st" "ex_objects st' = ex_objects st"
      "ex_cacheFile st' = ex_cacheFile st" "ex_db st' = ex_db st" "held st' = held st" "ex_pdf st' = ex_pdf st"
      "pending_ids st' = pending_ids st"
    and disk: "keyset (ex_disk st) - {base_dir w sid} \<subseteq> keyset (ex_disk st')"
  shows "dir_inv w st'"
proof (rule dir_inv_weaken [OF inv])
  fix sid' i assume "(sid', i) \<in> set (ex_sessions st')"
  then show "base_dir w sid' \<in> keyset (ex_disk st')"
    using dir_invD(1) [OF inv, of sid' i] base disk same(1) by force
next
  fix k e assume "(k, e) \<in> set (ex_cache st')"
  then have "base_dir w (ce_sessionId e) \<in> keyset (ex_disk st)" "ce_sessionId e \<noteq> sid"
    using dir_invD(2) [OF inv, of k e] c(1) by blast+
  then show "base_dir w (ce_sessionId e) \<in> keyset (ex_disk st')"
    using disk by (metis Diff_iff base_dir_inject singletonD subsetD)
qed (use c same dir_invD [OF inv] in \<open>auto simp: file_entries_def\<close>)

lemma drop_entry_inv:
  assumes inv: "dir_inv w st" and w: "w \<noteq> []" and at: "entry_at w e"
    and name: "(rp w (ce_sessionId e), k) \<in> N" and N: "single_valued N" "entry_names (ex_cache st) \<subseteq> N"
  shows "dir_inv w (drop_entry rmOk (k, e) st)"
proof (cases "still_active st (base_dir w (ce_sessionId e)) \<or> \<not> rmOk (base_dir w (ce_sessionId e))")
  case True
  then show ?thesis using inv at w by (simp add: drop_entry_def entry_at_def Let_def)
next
  case False
  let ?sid = "ce_sessionId e"
  have "k' = k" if "(k', e') \<in> set (ex_cache st)" "ce_sessionId e' = ?sid" for k' e'
  proof -
    have "(ce_repoPath e', k') \<in> N" using that(1) N(2) by force
    moreover have "ce_repoPath e' = rp w ?sid" using dir_invD(2) [OF inv that(1)] that(2) by (simp add: entry_at_def)
    ultimately show ?thesis using name N(1) by (auto dest: single_valuedD)
  qed
  then have "set (map_del k (ex_cache st)) \<subseteq> {(k', e') \<in> set (ex_cache st). ce_sessionId e' \<noteq> ?sid}"
    by (auto simp: set_map_del)
  moreover have "?sid \<notin> keyset (ex_sessions st)" using False still_active_rp [OF inv w] by simp
  moreover have "path_dirname (ce_repoPath e) = base_dir w ?sid" using at w by (simp add: entry_at_def)
  ultimately show ?thesis
    using False dir_invD(3) [OF inv]
    by (simp add: drop_entry_def Let_def)
      (rule remove_dir_inv [OF inv], auto simp: held_def pending_ids_def keys_distinct_delete)
qed

lemma drop_entry_cache: "set (ex_cache (drop_entry rmOk ke st)) \<subseteq> set (ex_cache st)"
  by (auto simp: drop_entry_def Let_def set_map_del)

lemma drop_entries_inv:
  assumes w: "w \<noteq> []" and N: "single_valued N"
  shows "dir_inv w st \<Longrightarrow> entry_names (ex_cache st) \<subseteq> N \<Longrightarrow> (\<And>k e. (k, e) \<in> set es \<Longrightarrow> entry_at w e \<and> (ce_repoPath e, k) \<in> N)
    \<Longrightarrow> dir_inv w (fold (drop_entry rmOk) es st)"
proof (induction es arbitrary: st)
  case (Cons ke es)
  obtain k e where ke: "ke = (k, e)" by (cases ke)
  have e: "entry_at w e" "(rp w (ce_sessionId e), k) \<in> N" using Cons.prems(3) [of k e] ke by (auto simp: entry_at_def)
  have "dir_inv w (drop_entry rmOk ke st)"
    unfolding ke by (rule drop_entry_inv [OF Cons.prems(1) w e N Cons.prems(2)])
  moreover have "entry_names (ex_cache (drop_entry rmOk ke st)) \<subseteq> N"
    using image_mono [OF drop_entry_cache [of rmOk ke st]] Cons.prems(2) by (rule order.trans)
  ultimately have "dir_inv w (fold (drop_entry rmOk) es (drop_entry rmOk ke st))"
    by (rule Cons.IH) (rule Cons.prems(3), simp)
  then show ?case by simp
qed simp

lemma insert_by_set_sort [simp]: "set (sort_by le xs) = set xs"
  by (metis mset_sort_by set_mset_mset)

lemma saveCache_inv: "dir_inv w st \<Longrightarrow> dir_inv w (saveCache st)"
  by (rule dir_inv_weaken)
    (use dir_invD [of w st] in \<open>auto simp: saveCache_def file_entries_def held_def pending_ids_def object_at_def\<close>)

lemma sweep_inv:
  assumes inv: "dir_inv w st" and w: "w \<noteq> []" shows "dir_inv w (sweep_dir w rmOk d st)"
proof (cases "map_has (ex_sessions st) d \<or> dir_cached st (base_dir w d)")
  case False
  have "d \<notin> keyset (ex_sessions st)" using False keyset_iff [of d "ex_sessions st"] by (simp add: map_has_def)
  moreover have "set (ex_cache st) \<subseteq> {(k, e) \<in> set (ex_cache st). ce_sessionId e \<noteq> d}"
    using False dir_cached_rp [OF inv w] by blast
  ultimately have "dir_inv w (st\<lparr>ex_disk := rm_dir rmOk (base_dir w d) (ex_disk st)\<rparr>)"
    using dir_invD(3) [OF inv]
    by (intro remove_dir_inv [OF inv, of d]) (simp_all add: held_def pending_ids_def rm_dir_def)
  then show ?thesis using False by (simp add: sweep_dir_def)
qed (use inv in \<open>simp add: sweep_dir_def\<close>)

lemma sweeps_inv: "w \<noteq> [] \<Longrightarrow> dir_inv w st \<Longrightarrow> dir_inv w (fold (sweep_dir w rmOk) ds st)"
  by (induction ds arbitrary: st) (simp_all add: sweep_inv)

lemma entries_of_cache:
  assumes inv: "dir_inv w st" and "set es \<subseteq> set (ex_cache st)"
  shows "(k, e) \<in> set es \<Longrightarrow> entry_at w e \<and> (ce_repoPath e, k) \<in> entry_names (ex_cache st)"
  using dir_invD(2) [OF inv] assms(2) by force

lemma drop_round_inv:
  assumes w: "w \<noteq> []" and inv: "dir_inv w st" and es: "set es \<subseteq> set (ex_cache st)"
  shows "dir_inv w (fold (drop_entry rmOk) es st)"
proof (rule drop_entries_inv [OF w _ inv, of "entry_names (ex_cache st)"])
  have "entry_names (ex_cache st) \<subseteq> set (mentions st)" unfolding set_mentions by blast
  then show "single_valued (entry_names (ex_cache st))" using dir_invD(8) [OF inv] by (rule single_valued_subset)
qed (use entries_of_cache [OF inv es] in auto)

lemma global_cleanup_inv:
  assumes w: "w \<noteq> []" and inv: "dir_inv w st"
  shows "dir_inv w (runGlobalCleanup w ma ms rmOk now st)"
proof -
  let ?st1 = "fold (drop_entry rmOk) (expired_entries now ma st) st"
  have 1: "dir_inv w ?st1" by (rule drop_round_inv [OF w inv]) (auto simp: expired_entries_def)
  have "dir_inv w (fold (drop_entry rmOk) (surplus_entries ms ?st1) ?st1)"
  proof (rule drop_round_inv [OF w 1])
    show "set (surplus_entries ms ?st1) \<subseteq> set (ex_cache ?st1)"
      unfolding surplus_entries_def using set_take_subset by fastforce
  qed
  then show ?thesis unfolding runGlobalCleanup_def Let_def by (intro sweeps_inv [OF w] saveCache_inv)
qed

lemma forget_inv:
  assumes inv: "dir_inv w st" and np: "sid \<notin> keyset (ex_pdf st)"
  shows "dir_inv w (forget_session sid st)"
proof (rule dir_inv_weaken [OF inv])
  fix sid' i assume "(sid', i) \<in> set (ex_pdf (forget_session sid st))"
  then have "(sid', i) \<in> set (ex_pdf st)" by (simp add: forget_session_def)
  moreover have "sid' \<noteq> sid" using calculation np by force
  ultimately show "sid' \<in> keyset (ex_sessions (forget_session sid st)) \<and> object_at w st sid' i"
    using dir_invD(7) [OF inv] by (simp add: forget_session_def)
qed (use dir_invD [OF inv] in \<open>auto simp: forget_session_def file_entries_def held_def pending_ids_def set_map_del\<close>)

lemma cleanup_inv:
  assumes w: "w \<noteq> []" and inv: "dir_inv w st"
  shows "dir_inv w (cleanup w rmOk sid st)"
proof -
  define base where "base = (case session_at st sid of Some (i, s) \<Rightarrow> path_dirname (s_repoPath s) | None \<Rightarrow> base_dir w sid)"
  have base: "base = base_dir w sid"
    using session_mention(2) [OF inv] w by (auto simp: base_def split: option.split)
  show ?thesis
  proof (cases "\<not> assertValidSessionId sid \<or> sid \<in> set (ex_promises st) \<or> map_has (ex_pdf st) sid")
    case True
    then show ?thesis using inv by (auto simp: cleanup_def)
  next
    case False
    then have np: "sid \<notin> keyset (ex_pdf st)" using keyset_iff [of sid "ex_pdf st"] by (simp add: map_has_def)
    note f = forget_inv [OF inv np]
    show ?thesis
    proof (cases "dir_cached st base")
      case True
      then show ?thesis using False f by (simp add: cleanup_def base_def [symmetric] Let_def)
    next
      case nc: False
      have "set (ex_cache (forget_session sid st)) \<subseteq> {(k, e) \<in> set (ex_cache (forget_session sid st)). ce_sessionId e \<noteq> sid}"
        using nc dir_cached_rp [OF inv w, of sid] unfolding base by (auto simp: forget_session_def)
      moreover have "sid \<notin> keyset (ex_sessions (forget_session sid st))" by (simp add: forget_session_def)
      ultimately have "dir_inv w ((forget_session sid st)\<lparr>ex_disk := rm_dir rmOk base (ex_disk (forget_session sid st)),
          ex_artifacts := invalidateSession sid (ex_artifacts (forget_session sid st))\<rparr>)"
        using dir_invD(3) [OF f]
        by (intro remove_dir_inv [OF f, of sid]) (simp_all add: held_def pending_ids_def rm_dir_def base)
      then show ?thesis using False nc by (simp add: cleanup_def base_def [symmetric] Let_def)
    qed
  qed
qed

lemma cleanups_inv: "w \<noteq> [] \<Longrightarrow> dir_inv w st \<Longrightarrow> dir_inv w (fold (cleanup w rmOk) sids st)"
  by (induction sids arbitrary: st) (simp_all add: cleanup_inv)

lemma finish_pdf_inv:
  assumes w: "w \<noteq> []" and inv: "dir_inv w st"
  shows "dir_inv w (snd (finish_pdf w rmOk sid result st))"
proof (cases "map_get (ex_pdf st) sid")
  case (Some i)
  define st1 where "st1 = (case result of None \<Rightarrow> st | Some out \<Rightarrow> put_part (s_outputPath (ex_objects st ! i)) (\<lambda>d. d\<lparr>d_output := Some out\<rparr>) st)"
  define ready where "ready = (result \<noteq> None \<and> has_pdf st1 (ex_objects st ! i))"
  define st2 where "st2 = (if ready then update_object i (\<lambda>s. s\<lparr>s_pdfReady := True\<rparr>) st1 else st1)"
  define due where "due = filter (\<lambda>d. d = sid) (ex_deferred st2)"
  let ?st3 = "st2\<lparr>ex_pdf := map_del sid (ex_pdf st2), ex_deferred := filter (\<lambda>d. d \<noteq> sid) (ex_deferred st2)\<rparr>"
  have "dir_inv w st1" using inv by (simp add: st1_def put_part_inv split: option.split)
  then have 2: "dir_inv w st2" by (auto simp: st2_def shape_def key_of_def intro!: update_object_inv)
  have "dir_inv w ?st3" by (rule dir_inv_frame [OF 2]) (auto simp: held_def pending_ids_def set_map_del)
  moreover have "snd (finish_pdf w rmOk sid result st) = fold (cleanup w rmOk) due ?st3"
    unfolding finish_pdf_def Some option.case Let_def snd_conv due_def st2_def ready_def st1_def by (rule refl)
  ultimately show ?thesis by (simp add: cleanups_inv [OF w])
qed (use inv in \<open>simp add: finish_pdf_def\<close>)

section \<open>Builds that end\<close>

lemma set_map_set_distinct: "keys_distinct m \<Longrightarrow> set (map_set k v m) = insert (k, v) (set (map_del k m))"
proof (induction m)
  case (Cons p m)
  obtain a b where p: "p = (a, b)" by (cases p)
  show ?case
  proof (cases "a = k")
    case True
    then have "k \<notin> keyset m" using Cons.prems p by simp
    then have "map_del k m = m" by (simp add: delete_id)
    then show ?thesis using p True by simp
  qed (use Cons p in auto)
qed simp

lemma add_entry_inv:
  assumes inv: "dir_inv w st" and at: "entry_at w e" and name: "(ce_repoPath e, k) \<in> set (mentions st)"
    and base: "base_dir w (ce_sessionId e) \<in> keyset (ex_disk st)"
    and c: "set (ex_cache st') \<subseteq> insert (k, e) (set (ex_cache st))" "keys_distinct (ex_cache st')"
    and f: "set (file_entries st') \<subseteq> set (file_entries st) \<union> set (ex_cache st')"
    and same: "ex_sessions st' = ex_sessions st" "ex_objects st' = ex_objects st" "ex_db st' = ex_db st"
      "held st' = held st" "ex_pdf st' = ex_pdf st" "pending_ids st' = pending_ids st" "ex_disk st' = ex_disk st"
  shows "dir_inv w st'"
proof -
  note D = dir_invD [OF inv]
  have "entry_names (ex_cache st') \<subseteq> insert (ce_repoPath e, k) (entry_names (ex_cache st))"
    using image_mono [OF c(1), of "\<lambda>(k, e). (ce_repoPath e, k)"] by simp
  moreover have "insert (ce_repoPath e, k) (entry_names (ex_cache st)) \<subseteq> set (mentions st)"
    using name by (rule insert_subsetI) (auto simp: set_mentions)
  ultimately have "entry_names (ex_cache st') \<subseteq> set (mentions st)" by (rule order.trans)
  note cm = this
  have parts: "object_names (ex_objects st) \<subseteq> set (mentions st)" "entry_names (file_entries st) \<subseteq> set (mentions st)"
    "row_names (ex_db st) \<subseteq> set (mentions st)"
    unfolding set_mentions by (simp_all add: le_supI1)
  have "entry_names (file_entries st') \<subseteq> entry_names (file_entries st) \<union> entry_names (ex_cache st')"
    using image_mono [OF f, of "\<lambda>(k, e). (ce_repoPath e, k)"] unfolding image_Un .
  then have fm: "entry_names (file_entries st') \<subseteq> set (mentions st)"
    using Un_least [OF parts(2) cm] by (rule order.trans)
  have m: "set (mentions st') \<subseteq> set (mentions st)"
    unfolding set_mentions [of st'] same by (intro Un_least cm fm parts)
  have ob: "object_at w st' = object_at w st" by (simp add: object_at_def same fun_eq_iff)
  have ce: "(k', e') \<in> set (ex_cache st') \<Longrightarrow> entry_at w e' \<and> base_dir w (ce_sessionId e') \<in> keyset (ex_disk st)" for k' e'
    using c(1) D(2) at base by blast
  have fe: "(k', e') \<in> set (file_entries st') \<Longrightarrow> entry_at w e'" for k' e'
    using f D(4) ce by blast
  have pd: "s \<in> set (pending_ids st) \<Longrightarrow> rp w s \<notin> fst ` set (mentions st')" for s
    using D(9) image_mono [OF m, of fst] by blast
  show ?thesis
    by (rule dir_invI) (use D(1,5,6,7) ce fe pd c(2) single_valued_subset [OF m D(8)] in \<open>simp_all add: same ob\<close>)
qed

lemma cache_build_inv:
  assumes inv: "dir_inv w st" and w: "w \<noteq> []" and at: "s_repoPath s = rp w sid" "s_outputPath s = op w sid"
    and name: "s \<in> set (ex_objects st)" and base: "base_dir w sid \<in> keyset (ex_disk st)"
  shows "dir_inv w (cache_build sid s c now st)"
proof -
  let ?k = "key_of s"
  define e where "e = \<lparr>ce_commitHash = c, ce_cacheVersion = BUILD_CACHE_VERSION, ce_repoPath = s_repoPath s,
            ce_outputPath = s_outputPath s,
            ce_buildPath = (case s_buildPath s of Some p \<Rightarrow> p | None \<Rightarrow> path_dirname (s_repoPath s) @ ''/build''),
            ce_sessionId = sid, ce_builtAt = now\<rparr>"
  define gone where "gone = evict_old_entry ?k sid st"
  let ?clear = "gone\<lparr>ex_cache := map_del ?k (ex_cache gone)\<rparr>"
  have e: "entry_at w e" "ce_sessionId e = sid" "ce_repoPath e = rp w sid" by (simp_all add: e_def entry_at_def at)
  have gone_sel: "ex_cache gone = ex_cache st" "ex_sessions gone = ex_sessions st" "ex_objects gone = ex_objects st"
    "ex_cacheFile gone = ex_cacheFile st" "ex_db gone = ex_db st" "held gone = held st" "ex_pdf gone = ex_pdf st"
    "pending_ids gone = pending_ids st"
    by (simp_all add: gone_def evict_old_entry_def Let_def held_def pending_ids_def split: option.split)
  have clear0: "dir_inv w (st\<lparr>ex_cache := map_del ?k (ex_cache st)\<rparr>)"
    by (rule dir_inv_weaken [OF inv])
      (use dir_invD [OF inv] in \<open>auto simp: file_entries_def held_def pending_ids_def set_map_del keys_distinct_delete\<close>)
  have "dir_inv w ?clear \<and> base_dir w sid \<in> keyset (ex_disk gone)"
  proof (cases "map_get (ex_cache st) ?k")
    case None
    then have "gone = st" by (simp add: gone_def evict_old_entry_def)
    then show ?thesis using clear0 base by simp
  next
    case (Some old)
    have o: "(?k, old) \<in> set (ex_cache st)" using Some by (rule map_of_SomeD)
    then have ob: "path_dirname (ce_repoPath old) = base_dir w (ce_sessionId old)"
      using dir_invD(2) [OF inv] w by (simp add: entry_at_def)
    show ?thesis
    proof (cases "ce_sessionId old \<noteq> sid \<and> \<not> still_active st (base_dir w (ce_sessionId old))")
      case True
      have "set (map_del ?k (ex_cache st)) \<subseteq> {(k, e) \<in> set (map_del ?k (ex_cache st)). ce_sessionId e \<noteq> ce_sessionId old}"
        using cache_dirs_differ [OF inv _ o] by (auto simp: set_map_del)
      moreover have "ce_sessionId old \<notin> keyset (ex_sessions st)" using True still_active_rp [OF inv w] by simp
      moreover have g: "gone = st\<lparr>ex_disk := map_del (base_dir w (ce_sessionId old)) (ex_disk st),
          ex_artifacts := invalidateSession (ce_sessionId old) (ex_artifacts st)\<rparr>"
        using True Some ob by (simp add: gone_def evict_old_entry_def Let_def)
      ultimately have "dir_inv w ?clear"
        using dir_invD(3) [OF clear0] unfolding g
        by (intro remove_dir_inv [OF clear0, of "ce_sessionId old"]) (simp_all add: held_def pending_ids_def)
      moreover have "base_dir w sid \<in> keyset (ex_disk gone)" using base True unfolding g by simp blast
      ultimately show ?thesis by simp
    next
      case False
      then have "gone = st" using Some ob by (auto simp: gone_def evict_old_entry_def Let_def)
      then show ?thesis using clear0 base by simp
    qed
  qed
  then have clear: "dir_inv w ?clear" "base_dir w (ce_sessionId e) \<in> keyset (ex_disk ?clear)" using e(2) by simp_all
  have set_new: "set (map_set ?k e (ex_cache st)) = insert (?k, e) (set (map_del ?k (ex_cache st)))"
    by (rule set_map_set_distinct [OF dir_invD(3) [OF inv]])
  have final: "cache_build sid s c now st = gone\<lparr>ex_cache := map_set ?k e (ex_cache gone), ex_cacheFile := Some (map_set ?k e (ex_cache gone))\<rparr>"
    by (simp add: cache_build_def Let_def saveCache_def gone_def e_def)
  have "(ce_repoPath e, ?k) \<in> set (mentions ?clear)"
    unfolding set_mentions using name at e(3) gone_sel by force
  then show ?thesis
    unfolding final using set_new gone_sel dir_invD(3) [OF inv]
    by (intro add_entry_inv [OF clear(1) e(1) _ clear(2), of ?k])
      (auto simp: file_entries_def held_def pending_ids_def distinct_update)
qed

lemma part_of_base: "part_of f disk path \<noteq> None \<Longrightarrow> path_dirname path \<in> keyset disk"
  by (auto simp: part_of_def keyset_iff split: option.splits)

lemma findArtifacts_None [simp]: "findArtifacts None = []" "findEntry None = None"
  by (simp_all add: findArtifacts_def findEntry_def)

lemma finish_build_inv:
  assumes inv: "dir_inv w st" and w: "w \<noteq> []"
  shows "dir_inv w (snd (finish_build k outcome now st))"
proof (cases "k < length (ex_running st)")
  case True
  obtain sid i lc where n: "ex_running st ! k = (sid, i, lc)" by (cases "ex_running st ! k")
  have "(sid, i) \<in> held st" using nth_mem [OF True] n by (force simp: held_def run_ids_def)
  then have o: "object_at w st sid i" by (rule dir_invD(6) [OF inv])
  define s where "s = ex_objects st ! i"
  have s: "s_repoPath s = rp w sid" "s_outputPath s = op w sid" "s \<in> set (ex_objects st)"
    using o by (simp_all add: object_at_def s_def)
  have run: "run_ids (remove_nth k (ex_running st)) \<subseteq> run_ids (ex_running st)"
    unfolding run_ids_def by (rule image_mono [OF set_remove_nth])
  let ?st1 = "st\<lparr>ex_running := remove_nth k (ex_running st), ex_docker := removeAll (key_of s) (ex_docker st)\<rparr>"
  have 1: "dir_inv w ?st1" by (rule dir_inv_frame [OF inv]) (use run in \<open>auto simp: held_def pending_ids_def\<close>)
  show ?thesis
  proof (cases outcome)
    case (Docker_ok repo out bf)
    define st2 where "st2 = put_part (s_repoPath s) (\<lambda>d. d\<lparr>d_repo := Some repo, d_output := Some out, d_build := Some bf\<rparr>) ?st1"
    have 2: "dir_inv w st2" unfolding st2_def by (rule put_part_inv [OF 1])
    have "dir_inv w (saveSessionToDb sid (cache_build sid s c now st2))"
      if "findArtifacts (part_of d_output (ex_disk st2) (s_outputPath s)) \<noteq> []
          \<or> findEntry (part_of d_output (ex_disk st2) (s_outputPath s)) \<noteq> None" for c
    proof (intro saveSessionToDb_inv cache_build_inv [OF 2 w s(1,2)])
      show "s \<in> set (ex_objects st2)" using s(3) by (simp add: st2_def)
      have "part_of d_output (ex_disk st2) (s_outputPath s) \<noteq> None"
      using that by (metis findArtifacts_None)
      then show "base_dir w sid \<in> keyset (ex_disk st2)" using part_of_base [of d_output "ex_disk st2" "s_outputPath s"] w s(2) by simp
    qed
    then show ?thesis
      using True n 2 by (simp add: finish_build_def Let_def Docker_ok s_def [symmetric] st2_def [symmetric])
  qed (use True n 1 s_def in \<open>simp_all add: finish_build_def Let_def\<close>)
qed (use inv in \<open>simp add: finish_build_def\<close>)

lemma hydrate_inv:
  assumes inv: "dir_inv w st" and base: "base_dir w sid \<in> keyset (ex_disk st)"
  shows "dir_inv w (snd (hydrate sid st))"
proof (cases "map_has (ex_sessions st) sid \<or> map_get (ex_db st) sid = None")
  case False
  then obtain row where row: "map_get (ex_db st) sid = Some row" by auto
  then have r: "(sid, row) \<in> set (ex_db st)" by (rule map_of_SomeD)
  then have at: "db_repoPath row = rp w sid" "db_outputPath row = op w sid" using dir_invD(5) [OF inv] by blast+
  have "(db_repoPath row, repo_key (db_owner row) (db_repo row)) \<in> set (mentions st)"
    unfolding set_mentions using r by force
  then have m: "(rp w sid, repo_key (db_owner row) (db_repo row)) \<in> set (mentions st)" by (simp add: at)
  then have "sid \<notin> set (pending_ids st)" using dir_invD(9) [OF inv, of sid] by force
  then have "dir_inv w (setSession sid s st)"
    if "s_owner s = db_owner row" "s_repo s = db_repo row" "s_repoPath s = rp w sid" "s_outputPath s = op w sid" for s
    using that m base by (intro setSession_inv [OF inv]) (simp_all add: key_of_def)
  then show ?thesis using False row at by (simp add: hydrate_def)
qed (use inv in \<open>auto simp: hydrate_def\<close>)

lemma loadCache_step:
  "keys_distinct cache \<Longrightarrow>
   keys_distinct (fold (\<lambda>(key, e) cache.
         if ce_cacheVersion e \<noteq> BUILD_CACHE_VERSION then cache
         else if part_of d_output disk (ce_outputPath e) = None then cache else map_set key e cache) es cache)
   \<and> set (fold (\<lambda>(key, e) cache.
         if ce_cacheVersion e \<noteq> BUILD_CACHE_VERSION then cache
         else if part_of d_output disk (ce_outputPath e) = None then cache else map_set key e cache) es cache)
     \<subseteq> set cache \<union> {(k, e) \<in> set es. part_of d_output disk (ce_outputPath e) \<noteq> None}"
proof (induction es arbitrary: cache)
  case (Cons ke es)
  obtain k e where ke: "ke = (k, e)" by (cases ke)
  show ?case
  proof (cases "ce_cacheVersion e \<noteq> BUILD_CACHE_VERSION \<or> part_of d_output disk (ce_outputPath e) = None")
    case True
    then show ?thesis using Cons.IH [OF Cons.prems] by (auto simp: ke)
  next
    case False
    have "keys_distinct (map_set k e cache)" using Cons.prems by (rule distinct_update)
    then show ?thesis using Cons.IH [of "map_set k e cache"] set_map_set [of k e cache] False by (auto simp: ke)
  qed
qed simp

lemma loadCache_ok:
  "keys_distinct (loadCache disk entries)"
  "set (loadCache disk entries)
     \<subseteq> {(k, e) \<in> set (case entries of None \<Rightarrow> [] | Some es \<Rightarrow> es). part_of d_output disk (ce_outputPath e) \<noteq> None}"
proof -
  have "keys_distinct ([] :: (string, cache_entry) jsmap)" by simp
  note loaded = loadCache_step [OF this, of disk "case entries of None \<Rightarrow> [] | Some es \<Rightarrow> es", folded loadCache_def]
  from loaded show "keys_distinct (loadCache disk entries)" by (rule conjunct1)
  from conjunct2 [OF loaded] show "set (loadCache disk entries)
     \<subseteq> {(k, e) \<in> set (case entries of None \<Rightarrow> [] | Some es \<Rightarrow> es). part_of d_output disk (ce_outputPath e) \<noteq> None}"
    unfolding list.set(1) Un_empty_left .
qed

lemma restart_inv:
  assumes inv: "dir_inv w st" and w: "w \<noteq> []"
  shows "dir_inv w (new_process (ex_disk st) (ex_cacheFile st) (ex_db st))"
proof -
  let ?st = "new_process (ex_disk st) (ex_cacheFile st) (ex_db st)"
  note D = dir_invD [OF inv]
  have f: "file_entries ?st = file_entries st" by (simp add: file_entries_def new_process_def)
  have c: "set (ex_cache ?st) \<subseteq> {(k, e) \<in> set (file_entries st). part_of d_output (ex_disk st) (ce_outputPath e) \<noteq> None}"
    unfolding file_entries_def using loadCache_ok(2) by (simp add: new_process_def)
  have "entry_names (ex_cache ?st) \<subseteq> entry_names (file_entries st)" using c by (intro image_mono) auto
  then have m: "set (mentions ?st) \<subseteq> set (mentions st)"
    unfolding set_mentions f by (auto simp: new_process_def)
  show ?thesis
  proof (rule dir_invI)
    fix k e assume "(k, e) \<in> set (ex_cache ?st)"
    then have e: "(k, e) \<in> set (file_entries st)" "part_of d_output (ex_disk st) (ce_outputPath e) \<noteq> None" using c by auto
    then have "entry_at w e" using D(4) by blast
    then show "entry_at w e \<and> base_dir w (ce_sessionId e) \<in> keyset (ex_disk ?st)"
      using part_of_base [OF e(2)] w by (simp add: entry_at_def new_process_def)
  next
    show "keys_distinct (ex_cache ?st)" by (simp add: new_process_def loadCache_ok)
  next
    show "single_valued (set (mentions ?st))" by (rule single_valued_subset [OF m D(8)])
  qed (use D(4,5) f in \<open>simp_all add: new_process_def held_def pending_ids_def run_ids_def\<close>)
qed

section \<open>Runs\<close>

definition stages :: "executor \<Rightarrow> (string, request \<times> workspace_paths) jsmap \<times> (string, request \<times> string option) jsmap
    \<times> (string, request \<times> string option) jsmap" where
  "stages st = (ex_copying st, ex_fresh st, ex_cloning st)"

lemma once_stages: "stages st' = stages st \<Longrightarrow> once_pending st' = once_pending st"
  by (simp add: stages_def once_pending_def)

lemma stages_put [simp]: "stages (put_part p f st) = stages st" "stages (saveSessionToDb sid st) = stages st"
  "stages (setSession sid s st) = stages st" "stages (update_object i g st) = stages st" "stages (saveCache st) = stages st"
  by (auto simp: stages_def put_part_def saveSessionToDb_def setSession_def update_object_def saveCache_def split: option.split)

lemma stages_build [simp]: "stages (snd (build sid out st)) = stages st"
proof -
  have "stages (st\<lparr>ex_starting := xs\<rparr>) = stages st" for xs by (simp add: stages_def)
  then show ?thesis by (simp add: build_def Let_def split: option.split prod.split)
qed

lemma stages_container: "ensureContainerRunning sid a b st = (r, st') \<Longrightarrow> stages st' = stages st"
  using container_change by (fastforce simp: stages_def)

lemma stages_launch [simp]: "stages (snd (launch_build k im a b st)) = stages st"
proof -
  have u: "stages (st\<lparr>ex_starting := xs\<rparr>) = stages st" "stages (st\<lparr>ex_docker := d, ex_running := rs\<rparr>) = stages st" for st xs d rs
    by (simp_all add: stages_def)
  show ?thesis
    by (auto simp: launch_build_def Let_def u dest!: stages_container split: prod.split bool.split)
qed

lemma stages_start [simp]: "stages (snd (startBuild r a job out st)) = stages st"
proof -
  have u: "stages (st\<lparr>ex_queue := q\<rparr>) = stages st" "stages (st\<lparr>ex_promises := ps\<rparr>) = stages st" for st q ps
    by (simp_all add: stages_def)
  obtain r' st' where b: "build (job_session job) out st = (r', st')" by (cases "build (job_session job) out st")
  then have "stages st' = stages st" using stages_build [of "job_session job" out st] by simp
  with b show ?thesis by (auto simp: startBuild_def u split: option.split prod.split bool.split)
qed

lemma stages_finish_build [simp]: "stages (snd (finish_build k outcome now st)) = stages st"
proof -
  have u: "stages (st\<lparr>ex_running := rs, ex_docker := d\<rparr>) = stages st" "stages (st\<lparr>ex_containers := c\<rparr>) = stages st"
    "stages (st\<lparr>ex_cache := ca\<rparr>) = stages st" "stages (st\<lparr>ex_disk := di, ex_artifacts := ac\<rparr>) = stages st" for st rs d c ca di ac
    by (simp_all add: stages_def)
  have e: "stages (evict_old_entry key sid st) = stages st" for key sid st
    by (simp add: evict_old_entry_def Let_def u split: option.split)
  show ?thesis
    by (simp add: finish_build_def Let_def u cache_build_def e split: prod.split docker_end.split)
qed

lemma stages_edit [simp]:
  "stages (snd (update_write l r cwd ok sid p c st)) = stages st" "stages (snd (update_invalidate k out st)) = stages st"
  "stages (snd (update_mark k r' a job out st)) = stages st" "stages (snd (workspace_write h cwd sid p c st)) = stages st"
proof -
  have u: "stages (st\<lparr>ex_written := ws\<rparr>) = stages st" "stages (st\<lparr>ex_invalidated := ws\<rparr>) = stages st"
    "stages (st\<lparr>ex_written := xs, ex_cache := ca, ex_invalidated := ws\<rparr>) = stages st"
    "stages (st\<lparr>ex_written := xs, ex_cache := ca\<rparr>) = stages st" "stages (st\<lparr>ex_queue := q\<rparr>) = stages st"
    for st ws xs ca q
    by (simp_all add: stages_def)
  show "stages (snd (update_write l r cwd ok sid p c st)) = stages st"
    by (simp add: update_write_def write_repo_file_def u split: option.split prod.split sum.split)
  show "stages (snd (update_invalidate k out st)) = stages st"
    by (simp add: update_invalidate_def Let_def u split: prod.split)
  show "stages (snd (update_mark k r' a job out st)) = stages st"
    by (simp add: update_mark_def Let_def u split: prod.split bool.split)
  show "stages (snd (workspace_write h cwd sid p c st)) = stages st"
    by (simp add: workspace_write_def write_repo_file_def Let_def split: sum.split prod.split option.split)
qed

lemma stages_cleanup [simp]: "stages (cleanup w rmOk sid st) = stages st"
  by (simp add: cleanup_def Let_def forget_session_def stages_def)

lemma stages_fold: "(\<And>x st. stages (f x st) = stages st) \<Longrightarrow> stages (fold f xs st) = stages st"
  by (induction xs arbitrary: st) simp_all

lemma stages_global [simp]: "stages (runGlobalCleanup w ma ms rmOk now st) = stages st"
proof -
  have "stages (drop_entry rmOk ke st) = stages st" for ke st by (simp add: drop_entry_def Let_def stages_def)
  moreover have "stages (sweep_dir w rmOk d st) = stages st" for d st by (simp add: sweep_dir_def stages_def)
  ultimately show ?thesis by (simp add: runGlobalCleanup_def Let_def stages_fold)
qed

lemma stages_pdf [simp]: "stages (snd (buildPdf sid st)) = stages st" "stages (snd (finish_pdf w rmOk sid result st)) = stages st"
proof -
  have u: "stages (st\<lparr>ex_pdf := m\<rparr>) = stages st" "stages (st\<lparr>ex_pdf := m, ex_deferred := d\<rparr>) = stages st" for st m d
    by (simp_all add: stages_def)
  show "stages (snd (buildPdf sid st)) = stages st"
    by (simp add: buildPdf_def Let_def u split: option.split prod.split)
  show "stages (snd (finish_pdf w rmOk sid result st)) = stages st"
    by (simp add: finish_pdf_def Let_def stages_fold u split: option.split)
qed

lemma stages_serve [simp]: "stages (snd (serveArtifact w cwd sid p st)) = stages st" "stages (snd (hydrate sid st)) = stages st"
proof -
  have u: "stages (st\<lparr>ex_artifacts := m\<rparr>) = stages st" for st m by (simp add: stages_def)
  show "stages (snd (serveArtifact w cwd sid p st)) = stages st"
    by (simp add: serveArtifact_def Let_def u split: option.split prod.split)
  show "stages (snd (hydrate sid st)) = stages st" by (simp add: hydrate_def split: option.split)
qed

text \<open>
  A session id is 64 random bits: it is new. A row of the database makes a session only while its directory
  exists (the process that serves the session and the one that builds for it share the data directory).
\<close>

definition fresh_id :: "string \<Rightarrow> string \<Rightarrow> executor \<Rightarrow> bool" where
  "fresh_id w sid st = (rp w sid \<notin> set (map fst (mentions st)) \<and> sid \<notin> set (pending_ids st))"

fun ids_fresh :: "string \<Rightarrow> event \<Rightarrow> executor \<Rightarrow> bool" where
  "ids_fresh w (Ev_prepare rq ls mc sid) st = fresh_id w sid st"
| "ids_fresh w (Ev_prepare_local rq repo sid) st = fresh_id w sid st"
| "ids_fresh w (Ev_resume k sid) st = fresh_id w sid st"
| "ids_fresh w (Ev_hydrate sid) st = map_has (ex_disk st) (base_dir w sid)"
| "ids_fresh w _ st = True"

lemma once_prepare:
  assumes once: "once_pending st" and f: "fresh_id w sid st"
  shows "once_pending (snd (prepareRepository w' rq ls mc sid st))" "once_pending (snd (resume_waiting k sid st))"
    "once_pending (snd (prepare_local w' rq repo sid st))"
proof -
  have n: "sid \<notin> keyset (ex_copying st)" "sid \<notin> keyset (ex_fresh st)" "sid \<notin> keyset (ex_cloning st)"
    using f by (simp_all add: fresh_id_def pending_ids_def)
  have c: "once_pending (st\<lparr>ex_copying := map_set sid x (ex_copying st)\<rparr>)"
    "once_pending (st\<lparr>ex_waiting := ws, ex_copying := map_set sid x (ex_copying st)\<rparr>)"
    "once_pending (st\<lparr>ex_fresh := map_set sid y (ex_fresh st), ex_disk := d\<rparr>)"
    "once_pending (st\<lparr>ex_waiting := ws\<rparr>)" for x y d ws
    using once n unfolding once_pending_def by simp_all
  show "once_pending (snd (prepareRepository w' rq ls mc sid st))"
    using once c by (simp add: prepareRepository_def Let_def split: sum.split option.split)
  show "once_pending (snd (resume_waiting k sid st))"
    using once c by (simp add: resume_waiting_def split: prod.split promise.split)
  have "stages (snd (prepare_local w' rq repo sid st)) = stages st"
  proof -
    have "stages (st\<lparr>ex_disk := d\<rparr>) = stages st" for d by (simp add: stages_def)
    then show ?thesis by (simp add: prepare_local_def Let_def)
  qed
  then show "once_pending (snd (prepare_local w' rq repo sid st))" using once once_stages by blast
qed

lemma disjoint_mono: "A \<inter> B = {} \<Longrightarrow> A' \<subseteq> A \<Longrightarrow> B' \<subseteq> B \<Longrightarrow> A' \<inter> B' = {}"
  by blast

lemma once_less:
  "once_pending st \<Longrightarrow> keyset (ex_copying st') \<subseteq> keyset (ex_copying st) \<Longrightarrow> keyset (ex_fresh st') \<subseteq> keyset (ex_fresh st) \<Longrightarrow>
   keyset (ex_cloning st') \<subseteq> keyset (ex_cloning st) \<Longrightarrow> once_pending st'"
  unfolding once_pending_def by (elim conjE, intro conjI; erule (2) disjoint_mono)

lemma save_set_sel [simp]:
  "ex_copying (saveSessionToDb sid (setSession sid s st)) = ex_copying st"
  "ex_fresh (saveSessionToDb sid (setSession sid s st)) = ex_fresh st"
  "ex_cloning (saveSessionToDb sid (setSession sid s st)) = ex_cloning st"
  by (simp_all add: saveSessionToDb_def setSession_def split: option.split)

lemma once_finish:
  assumes once: "once_pending st"
  shows "once_pending (snd (finish_copy w sid st))" "once_pending (snd (finish_clone w assets sid pt at m sd lt st))"
    "once_pending (snd (begin_clone w assets sid m sd st))"
proof -
  have d: "keyset (map_del sid xs) \<subseteq> keyset xs" for xs :: "(string, 'x) jsmap" by (simp add: Diff_subset)
  show "once_pending (snd (finish_copy w sid st))"
    by (rule once_less [OF once])
      (simp_all add: finish_copy_def Let_def Diff_subset split: option.split prod.split)
  show "once_pending (snd (finish_clone w assets sid pt at m sd lt st))"
    by (rule once_less [OF once])
      (simp_all add: finish_clone_def Let_def Diff_subset split: option.split prod.split)
  show "once_pending (snd (begin_clone w assets sid m sd st))"
  proof (cases "map_get (ex_fresh st) sid")
    case (Some x)
    obtain rq c where x: "x = (rq, c)" by (cases x)
    have np: "sid \<notin> keyset (ex_copying st)" "sid \<notin> keyset (ex_cloning st)"
      using once Some keyset_iff [of sid "ex_fresh st"] unfolding once_pending_def by blast+
    have "once_pending (st\<lparr>ex_fresh := map_del sid (ex_fresh st), ex_cloning := map_set sid y (ex_cloning st), ex_inProgress := ip\<rparr>)" for y ip
      using once np unfolding once_pending_def by auto
    moreover have "once_pending (saveSessionToDb sid (setSession sid s (st\<lparr>ex_fresh := map_del sid (ex_fresh st), ex_disk := di\<rparr>)))" for s di
      by (rule once_less [OF once]) (simp_all add: Diff_subset)
    ultimately show ?thesis using Some x by (simp add: begin_clone_def Let_def split: option.split)
  qed (use once in \<open>simp add: begin_clone_def\<close>)
qed

lemma step_inv:
  assumes w: "in_workDir E \<noteq> []" and inv: "dir_inv (in_workDir E) st" and once: "once_pending st"
    and f: "ids_fresh (in_workDir E) ev st"
  shows "dir_inv (in_workDir E) (snd (exec_step E ev st)) \<and> once_pending (snd (exec_step E ev st))"
proof -
  have fresh: "fresh_id (in_workDir E) sid st \<Longrightarrow> rp (in_workDir E) sid \<notin> fst ` set (mentions st)
      \<and> sid \<notin> set (pending_ids st)" for sid
    by (simp add: fresh_id_def)
  have same: "stages st' = stages st \<Longrightarrow> once_pending st'" for st' using once once_stages by blast
  show ?thesis
  proof (cases ev)
    case (Ev_hydrate sid)
    then show ?thesis
      using f hydrate_inv [OF inv, of sid] keyset_iff [of _ "ex_disk st"] by (simp add: same map_has_def)
  next
    case Ev_restart
    have "once_pending (new_process a b c)" for a b c by (simp add: once_pending_def new_process_def)
    then show ?thesis using Ev_restart restart_inv [OF inv w] by simp
  qed (use f fresh inv w once in \<open>simp_all add: same prepare_inv prepare_local_inv resume_inv once_prepare once_finish
      finish_copy_inv begin_clone_inv finish_clone_inv startBuild_inv build_inv launch_inv finish_build_inv update_write_inv
      invalidate_inv mark_inv workspace_write_inv cleanup_inv global_cleanup_inv buildPdf_inv finish_pdf_inv serve_inv\<close>)
qed

fun all_fresh :: "installation \<Rightarrow> event list \<Rightarrow> executor \<Rightarrow> bool" where
  "all_fresh E [] st = True"
| "all_fresh E (ev # evs) st = (ids_fresh (in_workDir E) ev st \<and> all_fresh E evs (snd (exec_step E ev st)))"

lemma run_inv:
  "in_workDir E \<noteq> [] \<Longrightarrow> dir_inv (in_workDir E) st \<Longrightarrow> once_pending st \<Longrightarrow> all_fresh E evs st \<Longrightarrow>
   dir_inv (in_workDir E) (exec_run E evs st)"
proof (induction evs arbitrary: st)
  case (Cons ev evs)
  then have "dir_inv (in_workDir E) (snd (exec_step E ev st)) \<and> once_pending (snd (exec_step E ev st))"
    by (intro step_inv) simp_all
  with Cons show ?case by simp
qed simp

lemma first_inv: "dir_inv w first_start" "once_pending first_start"
  by (simp_all add: dir_inv_def once_pending_def first_start_def new_process_def loadCache_def held_def run_ids_def
      mentions_def pending_ids_def file_entries_def)

text \<open>The directories that something in use points to.\<close>

definition used_dirs :: "executor \<Rightarrow> string list" where
  "used_dirs st =
     map (\<lambda>(sid, i). path_dirname (s_repoPath (ex_objects st ! i))) (ex_sessions st)
     @ map (\<lambda>(key, e). path_dirname (ce_repoPath e)) (ex_cache st)
     @ map (\<lambda>(sid, i). path_dirname (s_repoPath (ex_objects st ! i))) (ex_pdf st)"


text \<open>
  A run: a clone that is built and cached, its session cleaned up, a second session from the cache with a PDF build
  during which it is cleaned up.
\<close>

definition site :: installation where
  "site = \<lparr>in_workDir = ''/d'', in_cwd = ''/'', in_assets = (\<lambda>_. None), in_hash = (\<lambda>s. s)\<rparr>"

definition ada :: request where
  "ada = \<lparr>rq_owner = ''ada'', rq_repo = ''book'', rq_token = Some ''t'', rq_defaultBranch = ''main'',
     rq_creatorLogin = Some ''ada'', rq_preferSeed = False\<rparr>"

definition job_of :: "string \<Rightarrow> build_job" where
  "job_of sid = \<lparr>job_session = sid, job_xmlId = None, job_trace = None\<rparr>"

definition sid_a :: string where "sid_a = replicate 16 (CHR ''a'')"
definition sid_b :: string where "sid_b = replicate 16 (CHR ''b'')"

definition clone_events :: "request \<Rightarrow> string \<Rightarrow> string \<Rightarrow> event list" where
  "clone_events rq sid commit =
     [Ev_prepare rq (Some commit) None sid, Ev_made sid None None,
      Ev_cloned sid (Some ([(''ch1.xml'', commit)], commit)) None None None None]"

definition build_events :: "string \<Rightarrow> string \<Rightarrow> int \<Rightarrow> event list" where
  "build_events sid content now =
     [Ev_start_build False False (job_of sid) [], Ev_build sid [], Ev_launched 0 True False True,
      Ev_built 0 (Docker_ok [(''ch1.xml'', content)] [(''index.html'', content)] []) now]"

definition sample_events :: "event list" where
  "sample_events =
     clone_events ada sid_a ''c1'' @ build_events sid_a ''c1'' 5
     @ [Ev_cleanup (\<lambda>_. True) sid_a, Ev_prepare ada (Some ''c1'') None sid_b, Ev_copied sid_b, Ev_pdf sid_b,
        Ev_cleanup (\<lambda>_. True) sid_b, Ev_global_cleanup 100 5 (\<lambda>_. True) 50]"

lemma sample_fresh: "all_fresh site sample_events first_start" by code_simp

lemma sample_used: "used_dirs (exec_run site sample_events first_start)
     = [base_dir ''/d'' sid_b, base_dir ''/d'' sid_a, base_dir ''/d'' sid_b]"
  by code_simp


section \<open>Where the code does not do what it says\<close>

text \<open>
  A request that arrives while the repository is being cloned gets a copy of that clone, although git refused its
  token the repository: here the second request belongs to nobody, and its
  \<^verbatim>\<open>ls-remote\<close> failed.
\<close>

definition mallory :: request where
  "mallory = ada\<lparr>rq_token := None, rq_creatorLogin := Some ''mallory''\<rparr>"

definition dedup_events :: "event list" where
  "dedup_events =
     [Ev_prepare ada (Some ''c1'') None sid_a, Ev_made sid_a None None,
      Ev_prepare mallory None None sid_b,
      Ev_cloned sid_a None (Some ([(''secret.xml'', ''key'')], ''c1'')) None None None,
      Ev_resume 0 sid_b, Ev_copied sid_b]"

definition repo_of :: "executor \<Rightarrow> string \<Rightarrow> files option" where
  "repo_of st sid = (case session_at st sid of None \<Rightarrow> None | Some (i, s) \<Rightarrow> part_of d_repo (ex_disk st) (s_repoPath s))"

lemma dedup_ignores_access:
  "(case exec_run site dedup_events first_start of st \<Rightarrow>
      (repo_of st sid_b, map_option (\<lambda>(i, s). (s_creatorLogin s, s_fromCache s)) (session_at st sid_b)))
   = (Some [(''secret.xml'', ''key'')], Some (Some ''mallory'', True))"
  by code_simp

text \<open>The waiting request waited for the clone only: its build answers from an empty output directory.\<close>

lemma deduped_build_fails:
  "fst (build sid_b [] (exec_run site dedup_events first_start))
   = Built \<lparr>br_success = False, br_buildType = ''cached'', br_artifacts = [], br_entryFile = None, br_fromCache = True,
       br_buildInProgress = False\<rparr>"
  by code_simp

text \<open>
  Two requests that both look for a clone in progress before either has registered its own (the directories
  are made in between) clone twice.
\<close>

lemma clones_twice:
  "map fst (ex_cloning (exec_run site
     [Ev_prepare ada (Some ''c1'') None sid_a, Ev_prepare ada (Some ''c1'') None sid_b,
      Ev_made sid_a None None, Ev_made sid_b None None] first_start)) = [sid_a, sid_b]"
  by code_simp

text \<open>The hourly clean-up removes the directory of a clone in progress, and the request fails.\<close>

definition swept_events :: "event list" where
  "swept_events =
     [Ev_prepare ada (Some ''c1'') None sid_a, Ev_made sid_a None None, Ev_global_cleanup 100 5 (\<lambda>_. True) 50]"

lemma cleanup_sweeps_clone:
  "(case exec_run site swept_events first_start of st \<Rightarrow>
      (map fst (ex_disk st),
       fst (exec_step site (Ev_cloned sid_a (Some ([(''ch1.xml'', ''x'')], ''c1'')) None None None None) st)))
   = ([], Threw ''Clone failed'')"
  by code_simp

text \<open>A cache hit that is still copying loses its source to the build that replaces the entry.\<close>

lemma copy_loses_source:
  "fst (exec_step site (Ev_copied ''s'')
     (exec_run site (clone_events ada sid_a ''c1'' @ build_events sid_a ''c1'' 5
        @ clone_events ada sid_b ''c2''
        @ [Ev_start_build False False (job_of sid_b) [], Ev_build sid_b [], Ev_launched 0 True False True,
           Ev_prepare ada (Some ''c1'') None ''s'', Ev_cleanup (\<lambda>_. True) sid_a,
           Ev_built 0 (Docker_ok [] [(''index.html'', ''x'')] []) 9]) first_start))
   = Threw ''ENOENT''"
  by code_simp

text \<open>
  The promise of a running build is registered only when no queue took the job, and a queue always does: no build
  ever makes a clean-up wait.
\<close>

lemma push_always_queues: "fst (pushBuildJob redis accepts job q)"
  by (simp add: pushBuildJob_def)

lemma no_build_promise: "ex_promises (snd (startBuild redis accepts job out st)) = ex_promises st"
proof -
  have "ex_promises (snd (build sid out st)) = ex_promises st" for sid
    by (simp add: build_def Let_def saveSessionToDb_def put_part_def split: option.split prod.split)
  moreover have "\<exists>q. pushBuildJob redis accepts job (ex_queue st) = (True, q)"
    using push_always_queues [of redis accepts job "ex_queue st"] by (metis eq_fst_iff)
  ultimately show ?thesis by (auto simp: startBuild_def split: option.split prod.split)
qed

lemma cleanup_during_build:
  "map fst (ex_disk (exec_run site (clone_events ada sid_a ''c1''
     @ [Ev_start_build False False (job_of sid_a) [], Ev_build sid_a [], Ev_launched 0 True False True,
        Ev_cleanup (\<lambda>_. True) sid_a]) first_start)) = []"
  by code_simp

text \<open>After a rebuild the artifact cache still answers with the page of the build before.\<close>

definition page_cached :: artifact_cache where
  "page_cached =
     \<lparr>ac_map = [(sid_a @ '':index.html'', \<lparr>cv_buf = ''old'', cv_size = 3, cv_session = sid_a\<rparr>)], ac_bytes = 3,
      ac_bySession = [(sid_a, [sid_a @ '':index.html''])]\<rparr>"

lemma stale_artifact:
  "(case exec_run site (tl (build_events sid_a ''new'' 9))
           ((exec_run site (clone_events ada sid_a ''c1'' @ build_events sid_a ''old'' 5) first_start)
              \<lparr>ex_artifacts := page_cached\<rparr>) of st \<Rightarrow>
      (fst (exec_step site (Ev_serve sid_a ''index.html'') st),
       part_of d_output (ex_disk st) (output_path (base_dir ''/d'' sid_a))))
   = (Served ''old'', Some [(''index.html'', ''new'')])"
  by code_simp

end
