(* ===== verification/PristineCache.thy ===== *)
theory PristineCache imports WorkspaceSafety begin

text \<open>
  What the build cache of \<^verbatim>\<open>buildExecutor.ts\<close> hands out: a directory filed under a commit holds the
  checkout of that commit, with no edit of any user in it.

  \<open>checkout key commit\<close> is the tree that git checks out.
\<close>

section \<open>Clean directories\<close>

definition patched :: "installation \<Rightarrow> files \<Rightarrow> files" where
  "patched E fs = syncPatchedToolchainFiles (in_assets E) fs"

definition clean_dir :: "installation \<Rightarrow> (string \<Rightarrow> string \<Rightarrow> files) \<Rightarrow> string \<Rightarrow> directory \<Rightarrow> bool" where
  "clean_dir E checkout key d =
     (case (d_repo d, d_head d) of
        (Some repo, Some c) \<Rightarrow> map_of (patched E (checkout key c)) \<subseteq>\<^sub>m map_of repo
      | _ \<Rightarrow> False)"

definition plain :: "session \<Rightarrow> bool" where
  "plain s = (\<not> s_fromCache s \<and> \<not> s_localTestMode s \<and> \<not> s_hasLocalEdits s)"

definition dir_of :: "executor \<Rightarrow> string \<Rightarrow> directory option" where
  "dir_of st path = map_get (ex_disk st) (path_dirname path)"

definition touched :: "executor \<Rightarrow> nat \<Rightarrow> bool" where
  "touched st i = (i \<in> snd ` set (ex_written st) \<union> snd ` set (ex_invalidated st))"

definition being_written :: "executor \<Rightarrow> string \<Rightarrow> bool" where
  "being_written st path = (\<exists>(sid, i) \<in> set (ex_written st). s_repoPath (ex_objects st ! i) = path)"

definition entry_clean :: "installation \<Rightarrow> (string \<Rightarrow> string \<Rightarrow> files) \<Rightarrow> executor \<Rightarrow> string \<Rightarrow> cache_entry \<Rightarrow> bool" where
  "entry_clean E checkout st k e =
     ((\<forall>i < length (ex_objects st). s_repoPath (ex_objects st ! i) = ce_repoPath e \<longrightarrow> \<not> s_localTestMode (ex_objects st ! i))
      \<and> (\<forall>c d. ce_commitHash e = Some c \<longrightarrow> dir_of st (ce_repoPath e) = Some d \<longrightarrow>
           being_written st (ce_repoPath e) \<or> (d_head d = Some c \<and> clean_dir E checkout k d)))"

definition object_clean :: "installation \<Rightarrow> (string \<Rightarrow> string \<Rightarrow> files) \<Rightarrow> executor \<Rightarrow> nat \<Rightarrow> bool" where
  "object_clean E checkout st i =
     (plain (ex_objects st ! i) \<longrightarrow>
       (\<forall>d. dir_of st (s_repoPath (ex_objects st ! i)) = Some d \<longrightarrow>
          d_head d \<noteq> None \<and> (touched st i \<or> clean_dir E checkout (key_of (ex_objects st ! i)) d)))"

definition run_clean :: "executor \<Rightarrow> nat \<Rightarrow> string option \<Rightarrow> bool" where
  "run_clean st i c =
     (\<not> s_hasLocalEdits (ex_objects st ! i) \<longrightarrow>
       (\<forall>d. dir_of st (s_repoPath (ex_objects st ! i)) = Some d \<longrightarrow> d_head d = c))"

definition pristine_inv :: "installation \<Rightarrow> (string \<Rightarrow> string \<Rightarrow> files) \<Rightarrow> executor \<Rightarrow> bool" where
  "pristine_inv E checkout st =
     ((\<forall>s \<in> set (ex_objects st). \<exists>sid. s_repoPath s = rp (in_workDir E) sid)
      \<and> distinct (map s_repoPath (ex_objects st))
      \<and> (\<forall>i < length (ex_objects st). object_clean E checkout st i)
      \<and> (\<forall>(sid, i) \<in> set (ex_starting st) \<union> run_ids (ex_running st).
           \<not> s_fromCache (ex_objects st ! i) \<and> \<not> s_localTestMode (ex_objects st ! i))
      \<and> (\<forall>(sid, i, c) \<in> set (ex_running st). run_clean st i c)
      \<and> (\<forall>(k, e) \<in> set (ex_cache st) \<union> set (file_entries st). entry_clean E checkout st k e))"

lemma pristine_invD:
  assumes "pristine_inv E checkout st"
  shows "s \<in> set (ex_objects st) \<Longrightarrow> \<exists>sid. s_repoPath s = rp (in_workDir E) sid"
    and "distinct (map s_repoPath (ex_objects st))"
    and "i < length (ex_objects st) \<Longrightarrow> object_clean E checkout st i"
    and "(sid, i) \<in> set (ex_starting st) \<union> run_ids (ex_running st) \<Longrightarrow>
           \<not> s_fromCache (ex_objects st ! i) \<and> \<not> s_localTestMode (ex_objects st ! i)"
    and "(sid, i, c) \<in> set (ex_running st) \<Longrightarrow> run_clean st i c"
    and "(k, e) \<in> set (ex_cache st) \<union> set (file_entries st) \<Longrightarrow> entry_clean E checkout st k e"
  using assms unfolding pristine_inv_def by (blast+)

lemma pristine_invI:
  assumes "\<And>s. s \<in> set (ex_objects st) \<Longrightarrow> \<exists>sid. s_repoPath s = rp (in_workDir E) sid"
    and "distinct (map s_repoPath (ex_objects st))"
    and "\<And>i. i < length (ex_objects st) \<Longrightarrow> object_clean E checkout st i"
    and "\<And>sid i. (sid, i) \<in> set (ex_starting st) \<union> run_ids (ex_running st) \<Longrightarrow>
           \<not> s_fromCache (ex_objects st ! i) \<and> \<not> s_localTestMode (ex_objects st ! i)"
    and "\<And>sid i c. (sid, i, c) \<in> set (ex_running st) \<Longrightarrow> run_clean st i c"
    and "\<And>k e. (k, e) \<in> set (ex_cache st) \<union> set (file_entries st) \<Longrightarrow> entry_clean E checkout st k e"
  shows "pristine_inv E checkout st"
proof -
  have a: "\<forall>p \<in> set (ex_starting st) \<union> run_ids (ex_running st). case p of (sid, i) \<Rightarrow>
      \<not> s_fromCache (ex_objects st ! i) \<and> \<not> s_localTestMode (ex_objects st ! i)"
  proof
    fix p assume "p \<in> set (ex_starting st) \<union> run_ids (ex_running st)"
    moreover obtain sid i where "p = (sid, i)" by (cases p)
    ultimately show "case p of (sid, i) \<Rightarrow> \<not> s_fromCache (ex_objects st ! i) \<and> \<not> s_localTestMode (ex_objects st ! i)"
      using assms(4) [of sid i] by simp
  qed
  have b: "\<forall>p \<in> set (ex_running st). case p of (sid, i, c) \<Rightarrow> run_clean st i c"
    using assms(5) by auto
  have c: "\<forall>p \<in> set (ex_cache st) \<union> set (file_entries st). case p of (k, e) \<Rightarrow> entry_clean E checkout st k e"
  proof
    fix p assume "p \<in> set (ex_cache st) \<union> set (file_entries st)"
    moreover obtain k e where "p = (k, e)" by (cases p)
    ultimately show "case p of (k, e) \<Rightarrow> entry_clean E checkout st k e" using assms(6) [of k e] by simp
  qed
  show ?thesis
    unfolding pristine_inv_def by (intro conjI a b c ballI allI impI) (simp_all add: assms(1-3))
qed

section \<open>Steps that leave the checkouts alone\<close>

definition view :: "session \<Rightarrow> string \<times> string \<times> bool \<times> bool \<times> bool" where
  "view s = (s_repoPath s, key_of s, s_fromCache s, s_localTestMode s, s_hasLocalEdits s)"

text \<open>
  The directories of objects and entries, with their repository; a step may remove one, and keeps its HEAD and what it has of the checkout,
  unless a user's write to it is being recorded.
\<close>

definition scope :: "executor \<Rightarrow> (string \<times> string) set" where
  "scope st = object_names (ex_objects st) \<union> entry_names (ex_cache st) \<union> entry_names (file_entries st)"

definition keeps :: "installation \<Rightarrow> (string \<Rightarrow> string \<Rightarrow> files) \<Rightarrow> executor \<Rightarrow> executor \<Rightarrow> string \<Rightarrow> string \<Rightarrow> bool" where
  "keeps E co st' st path k =
     (\<forall>d'. dir_of st' path = Some d' \<longrightarrow>
        (\<exists>d. dir_of st path = Some d \<and> d_head d' = d_head d
             \<and> (clean_dir E co k d \<longrightarrow> clean_dir E co k d' \<or> being_written st' path)))"

definition disk_kept :: "installation \<Rightarrow> (string \<Rightarrow> string \<Rightarrow> files) \<Rightarrow> executor \<Rightarrow> executor \<Rightarrow> bool" where
  "disk_kept E co st' st = (\<forall>(path, k) \<in> scope st. keeps E co st' st path k)"

lemma view_nth:
  assumes "map view (ex_objects st') = map view (ex_objects st)"
  shows "length (ex_objects st') = length (ex_objects st)"
    "i < length (ex_objects st) \<Longrightarrow> view (ex_objects st' ! i) = view (ex_objects st ! i)"
proof -
  show len: "length (ex_objects st') = length (ex_objects st)" using assms by (metis length_map)
  show "i < length (ex_objects st) \<Longrightarrow> view (ex_objects st' ! i) = view (ex_objects st ! i)"
    using assms len by (metis nth_map)
qed

lemma pristine_frame:
  assumes p: "pristine_inv E co st" and inv: "dir_inv (in_workDir E) st"
    and objs: "map view (ex_objects st') = map view (ex_objects st)"
    and disk: "disk_kept E co st' st"
    and entries: "set (ex_cache st') \<union> set (file_entries st') \<subseteq> set (ex_cache st) \<union> set (file_entries st)"
    and wr: "set (ex_written st) \<subseteq> set (ex_written st')" "set (ex_invalidated st) \<subseteq> set (ex_invalidated st')"
    and wlt: "\<And>sid i. (sid, i) \<in> set (ex_written st') \<Longrightarrow> i < length (ex_objects st)"
    and st: "\<And>sid i. (sid, i) \<in> set (ex_starting st') \<Longrightarrow> i < length (ex_objects st) \<and>
       ((sid, i) \<in> set (ex_starting st) \<or> (\<not> s_fromCache (ex_objects st ! i) \<and> \<not> s_localTestMode (ex_objects st ! i)))"
    and run: "set (ex_running st') \<subseteq> set (ex_running st)"
  shows "pristine_inv E co st'"
proof -
  note P = pristine_invD [OF p] and len = view_nth(1) [OF objs] and nth = view_nth(2) [OF objs]
  have flags: "i < length (ex_objects st) \<Longrightarrow> s_repoPath (ex_objects st' ! i) = s_repoPath (ex_objects st ! i)
      \<and> key_of (ex_objects st' ! i) = key_of (ex_objects st ! i) \<and> plain (ex_objects st' ! i) = plain (ex_objects st ! i)
      \<and> s_fromCache (ex_objects st' ! i) = s_fromCache (ex_objects st ! i)
      \<and> s_localTestMode (ex_objects st' ! i) = s_localTestMode (ex_objects st ! i)
      \<and> s_hasLocalEdits (ex_objects st' ! i) = s_hasLocalEdits (ex_objects st ! i)" for i
    using nth [of i] by (simp add: view_def plain_def)
  have paths: "map s_repoPath (ex_objects st') = map s_repoPath (ex_objects st)"
  proof -
    have k: "map s_repoPath ss = map fst (map view ss)" for ss by (simp add: view_def)
    show ?thesis unfolding k objs by (rule refl)
  qed
  have in_scope: "i < length (ex_objects st) \<Longrightarrow> (s_repoPath (ex_objects st ! i), key_of (ex_objects st ! i)) \<in> scope st" for i
    by (simp add: scope_def)
  have kept: "(path, k) \<in> scope st \<Longrightarrow> dir_of st' path = Some d' \<Longrightarrow>
      \<exists>d. dir_of st path = Some d \<and> d_head d' = d_head d \<and> (clean_dir E co k d \<longrightarrow> clean_dir E co k d' \<or> being_written st' path)"
    for path d' k
    using disk unfolding disk_kept_def keeps_def by blast
  have heldlt: "(sid, i) \<in> held st \<Longrightarrow> i < length (ex_objects st)" for sid i
    using dir_invD(6) [OF inv] by (simp add: object_at_def)
  have runlt: "(sid, i, c) \<in> set (ex_running st) \<Longrightarrow> i < length (ex_objects st)" for sid i c
    using heldlt [of sid i] by (force simp: held_def run_ids_def)
  have one: "being_written st' (s_repoPath (ex_objects st ! i)) \<Longrightarrow> touched st' i" if "i < length (ex_objects st)" for i
  proof -
    assume "being_written st' (s_repoPath (ex_objects st ! i))"
    then obtain sid j where j: "(sid, j) \<in> set (ex_written st')" "s_repoPath (ex_objects st' ! j) = s_repoPath (ex_objects st ! i)"
      by (auto simp: being_written_def)
    then have "j < length (ex_objects st)" "map s_repoPath (ex_objects st) ! j = map s_repoPath (ex_objects st) ! i"
      using wlt flags that by auto
    then have "j = i" using nth_eq_iff_index_eq [OF P(2), of j i] that by simp
    then show ?thesis using j(1) by (force simp: touched_def)
  qed
  show ?thesis
  proof (rule pristine_invI)
    fix s assume "s \<in> set (ex_objects st')"
    then have "s_repoPath s \<in> set (map s_repoPath (ex_objects st))" using paths by (metis imageI set_map)
    then show "\<exists>sid. s_repoPath s = rp (in_workDir E) sid" using P(1) by auto
  next
    show "distinct (map s_repoPath (ex_objects st'))" using P(2) paths by simp
  next
    fix i assume "i < length (ex_objects st')"
    then have i: "i < length (ex_objects st)" using len by simp
    have t: "touched st i \<Longrightarrow> touched st' i" using wr by (auto simp: touched_def)
    show "object_clean E co st' i"
      unfolding object_clean_def
    proof (intro impI allI)
      fix d' assume a: "plain (ex_objects st' ! i)" "dir_of st' (s_repoPath (ex_objects st' ! i)) = Some d'"
      then obtain d where d: "dir_of st (s_repoPath (ex_objects st ! i)) = Some d" "d_head d' = d_head d"
          "clean_dir E co (key_of (ex_objects st ! i)) d \<longrightarrow>
             clean_dir E co (key_of (ex_objects st ! i)) d' \<or> being_written st' (s_repoPath (ex_objects st ! i))"
        using kept [OF in_scope [OF i]] flags [OF i] by auto
      then show "d_head d' \<noteq> None \<and> (touched st' i \<or> clean_dir E co (key_of (ex_objects st' ! i)) d')"
        using P(3) [OF i] a(1) flags [OF i] t one [OF i] by (auto simp: object_clean_def)
    qed
  next
    fix sid i assume "(sid, i) \<in> set (ex_starting st') \<union> run_ids (ex_running st')"
    moreover have "run_ids (ex_running st') \<subseteq> run_ids (ex_running st)" unfolding run_ids_def using run by (rule image_mono)
    ultimately have "i < length (ex_objects st) \<and> \<not> s_fromCache (ex_objects st ! i) \<and> \<not> s_localTestMode (ex_objects st ! i)"
      using st P(4) [of sid i] heldlt [of sid i] by (auto simp: held_def)
    then show "\<not> s_fromCache (ex_objects st' ! i) \<and> \<not> s_localTestMode (ex_objects st' ! i)" using flags by simp
  next
    fix sid i c assume "(sid, i, c) \<in> set (ex_running st')"
    then have r: "(sid, i, c) \<in> set (ex_running st)" using run by blast
    note i = runlt [OF r]
    show "run_clean st' i c"
      using P(5) [OF r] flags [OF i] kept [OF in_scope [OF i]] by (fastforce simp: run_clean_def)
  next
    fix k e assume "(k, e) \<in> set (ex_cache st') \<union> set (file_entries st')"
    then have e: "(k, e) \<in> set (ex_cache st) \<union> set (file_entries st)" using entries by blast
    then have sc: "(ce_repoPath e, k) \<in> scope st" by (force simp: scope_def)
    have w: "being_written st (ce_repoPath e) \<Longrightarrow> being_written st' (ce_repoPath e)"
    proof -
      assume "being_written st (ce_repoPath e)"
      then obtain sid i where h: "(sid, i) \<in> set (ex_written st)" "s_repoPath (ex_objects st ! i) = ce_repoPath e"
        by (auto simp: being_written_def)
      then have "s_repoPath (ex_objects st' ! i) = ce_repoPath e" using flags heldlt [of sid i] by (simp add: held_def)
      then show ?thesis using h(1) wr(1) by (auto simp: being_written_def)
    qed
    show "entry_clean E co st' k e"
      unfolding entry_clean_def
    proof (intro conjI allI impI)
      fix i assume "i < length (ex_objects st')" "s_repoPath (ex_objects st' ! i) = ce_repoPath e"
      then show "\<not> s_localTestMode (ex_objects st' ! i)"
        using P(6) [OF e] len flags by (simp add: entry_clean_def)
    next
      fix c d' assume a: "ce_commitHash e = Some c" "dir_of st' (ce_repoPath e) = Some d'"
      obtain d where d: "dir_of st (ce_repoPath e) = Some d" "d_head d' = d_head d"
          "clean_dir E co k d \<longrightarrow> clean_dir E co k d' \<or> being_written st' (ce_repoPath e)"
        using kept [OF sc a(2)] by blast
      then show "being_written st' (ce_repoPath e) \<or> d_head d' = Some c \<and> clean_dir E co k d'"
        using P(6) [OF e] a(1) w by (auto simp: entry_clean_def)
    qed
  qed
qed

lemma disk_keptI:
  assumes "\<And>path k d'. (path, k) \<in> scope st \<Longrightarrow> dir_of st' path = Some d' \<Longrightarrow>
     \<exists>d. dir_of st path = Some d \<and> d_repo d' = d_repo d \<and> d_head d' = d_head d"
  shows "disk_kept E co st' st"
proof -
  have "clean_dir E co k d' = clean_dir E co k d" if "d_repo d' = d_repo d" "d_head d' = d_head d" for k d d'
    using that by (simp add: clean_dir_def)
  with assms show ?thesis unfolding disk_kept_def keeps_def by blast
qed

lemma disk_same: "ex_disk st' = ex_disk st \<Longrightarrow> disk_kept E co st' st"
  by (rule disk_keptI) (auto simp: dir_of_def simp del: map_of_eq_Some_iff)

lemma disk_less: "(\<And>p. map_get (ex_disk st') p = map_get (ex_disk st) p \<or> map_get (ex_disk st') p = None) \<Longrightarrow> disk_kept E co st' st"
  by (rule disk_keptI) (metis dir_of_def option.distinct(1))

lemma disk_put: "(\<And>d. d_repo (f d) = d_repo d \<and> d_head (f d) = d_head d) \<Longrightarrow> disk_kept E co (put_part path f st) st"
  by (rule disk_keptI) (auto simp: put_part_def dir_of_def split: option.splits if_splits simp del: map_of_eq_Some_iff)

lemma put_part_more [simp]:
  "ex_invalidated (put_part path f st) = ex_invalidated st" "ex_starting (put_part path f st) = ex_starting st"
  "file_entries (put_part path f st) = file_entries st"
  by (simp_all add: put_part_def file_entries_def split: option.split)

lemma scope_mentions: "scope st \<subseteq> set (mentions st)"
  unfolding scope_def set_mentions by blast

lemma scope_paths:
  assumes "pristine_inv E co st" "dir_inv (in_workDir E) st" "(path, k) \<in> scope st"
  shows "\<exists>sid. path = rp (in_workDir E) sid"
proof -
  from assms(3) consider s where "s \<in> set (ex_objects st)" "path = s_repoPath s"
    | e where "(k, e) \<in> set (ex_cache st) \<union> set (file_entries st)" "path = ce_repoPath e"
    unfolding scope_def by auto
  then show ?thesis
  proof cases
    case 1
    then show ?thesis using pristine_invD(1) [OF assms(1) 1(1)] by simp
  next
    case 2
    then have "entry_at (in_workDir E) e" using dir_invD(2,4) [OF assms(2)] by blast
    then show ?thesis using 2(2) by (auto simp: entry_at_def)
  qed
qed

lemma scope_not_fresh:
  assumes "rp w sid \<notin> fst ` set (mentions st)" "(path, k) \<in> scope st" shows "path \<noteq> rp w sid"
proof
  assume "path = rp w sid"
  then have "(rp w sid, k) \<in> set (mentions st)" using assms(2) scope_mentions by blast
  then show False using assms(1) by (metis fst_conv imageI)
qed

text \<open>The directory of an id that nothing mentions may be written freely.\<close>

lemma disk_new:
  assumes p: "pristine_inv E co st" "dir_inv (in_workDir E) st" and w: "in_workDir E \<noteq> []"
    and fresh: "rp (in_workDir E) sid \<notin> fst ` set (mentions st)"
    and other: "\<And>p. p \<noteq> base_dir (in_workDir E) sid \<Longrightarrow> map_get (ex_disk st') p = map_get (ex_disk st) p"
  shows "disk_kept E co st' st"
proof (rule disk_keptI)
  fix path k d' assume a: "(path, k) \<in> scope st" "dir_of st' path = Some d'"
  obtain sid' where sid': "path = rp (in_workDir E) sid'" using scope_paths [OF p a(1)] by blast
  then have "sid' \<noteq> sid" using scope_not_fresh [OF fresh a(1)] by simp
  then have "dir_of st' path = dir_of st path" using w by (simp add: dir_of_def sid' other)
  then show "\<exists>d. dir_of st path = Some d \<and> d_repo d' = d_repo d \<and> d_head d' = d_head d" using a(2) by (intro exI [of _ d']) simp
qed

lemma save_db_pristine: "pristine_inv E co st \<Longrightarrow> pristine_inv E co (saveSessionToDb sid st)"
proof -
  have "pristine_inv E co (st\<lparr>ex_db := db\<rparr>) = pristine_inv E co st" for db
    by (simp add: pristine_inv_def object_clean_def run_clean_def entry_clean_def file_entries_def dir_of_def touched_def being_written_def)
  then show "pristine_inv E co st \<Longrightarrow> pristine_inv E co (saveSessionToDb sid st)"
    by (simp add: saveSessionToDb_def split: option.split)
qed

lemma new_object_pristine:
  assumes p: "pristine_inv E co st" and inv: "dir_inv (in_workDir E) st"
    and fresh: "rp (in_workDir E) sid \<notin> fst ` set (mentions st)" and at: "s_repoPath s = rp (in_workDir E) sid"
    and clean: "\<And>d. plain s \<Longrightarrow> dir_of st (s_repoPath s) = Some d \<Longrightarrow> d_head d \<noteq> None \<and> clean_dir E co (key_of s) d"
  shows "pristine_inv E co (setSession sid s st)"
proof -
  let ?st = "setSession sid s st" and ?n = "length (ex_objects st)"
  note P = pristine_invD [OF p]
  have objs: "ex_objects ?st = ex_objects st @ [s]" by (simp add: setSession_def)
  have old: "i < ?n \<Longrightarrow> ex_objects ?st ! i = ex_objects st ! i" for i by (simp add: objs nth_append)
  have same: "dir_of ?st = dir_of st" "touched ?st = touched st" "ex_starting ?st = ex_starting st" "ex_running ?st = ex_running st"
    "ex_cache ?st = ex_cache st" "file_entries ?st = file_entries st" "ex_written ?st = ex_written st"
    by (simp_all add: setSession_def dir_of_def touched_def file_entries_def fun_eq_iff)
  have heldlt: "(sid', i) \<in> held st \<Longrightarrow> i < ?n" for sid' i using dir_invD(6) [OF inv] by (simp add: object_at_def)
  have notin: "(path, k) \<in> scope st \<Longrightarrow> path \<noteq> rp (in_workDir E) sid" for path k
    using scope_not_fresh [OF fresh] by blast
  have written: "being_written st path \<Longrightarrow> being_written ?st path" for path
  proof -
    assume "being_written st path"
    then obtain sid' i where h: "(sid', i) \<in> set (ex_written st)" "s_repoPath (ex_objects st ! i) = path"
      by (auto simp: being_written_def)
    then have "s_repoPath (ex_objects ?st ! i) = path" using old heldlt [of sid' i] by (simp add: held_def)
    then show ?thesis using h(1) by (auto simp: being_written_def same)
  qed
  show ?thesis
  proof (rule pristine_invI)
    fix x assume "x \<in> set (ex_objects ?st)"
    then show "\<exists>sid. s_repoPath x = rp (in_workDir E) sid" using P(1) at objs by auto
  next
    have "s_repoPath x \<noteq> s_repoPath s" if "x \<in> set (ex_objects st)" for x
      using notin [of "s_repoPath x" "key_of x"] that at by (auto simp: scope_def)
    then have "s_repoPath s \<notin> s_repoPath ` set (ex_objects st)" by (metis imageE)
    then show "distinct (map s_repoPath (ex_objects ?st))" using P(2) objs by simp
  next
    fix i assume "i < length (ex_objects ?st)"
    then consider "i < ?n" | "i = ?n" using objs by force
    then show "object_clean E co ?st i"
    proof cases
      case 1
      then show ?thesis using P(3) [OF 1] by (simp add: object_clean_def old same)
    next
      case 2
      then show ?thesis using clean by (auto simp: object_clean_def objs same)
    qed
  next
    fix sid' i assume a: "(sid', i) \<in> set (ex_starting ?st) \<union> run_ids (ex_running ?st)"
    then have "i < ?n" using heldlt by (auto simp: same held_def)
    then show "\<not> s_fromCache (ex_objects ?st ! i) \<and> \<not> s_localTestMode (ex_objects ?st ! i)"
      using P(4) [of sid' i] a by (simp add: same old)
  next
    fix sid' i c assume a: "(sid', i, c) \<in> set (ex_running ?st)"
    then have "i < ?n" using heldlt [of sid' i] by (force simp: same held_def run_ids_def)
    then show "run_clean ?st i c" using P(5) [of sid' i c] a by (simp add: same run_clean_def old)
  next
    fix k e assume "(k, e) \<in> set (ex_cache ?st) \<union> set (file_entries ?st)"
    then have e: "(k, e) \<in> set (ex_cache st) \<union> set (file_entries st)" by (simp add: same)
    then have ne: "ce_repoPath e \<noteq> s_repoPath s" using notin [of "ce_repoPath e" k] at by (force simp: scope_def)
    show "entry_clean E co ?st k e"
      unfolding entry_clean_def
    proof (intro conjI allI impI)
      fix i assume "i < length (ex_objects ?st)" "s_repoPath (ex_objects ?st ! i) = ce_repoPath e"
      then show "\<not> s_localTestMode (ex_objects ?st ! i)"
        using P(6) [OF e] ne objs by (cases "i = ?n") (auto simp: entry_clean_def nth_append)
    next
      fix c d assume "ce_commitHash e = Some c" "dir_of ?st (ce_repoPath e) = Some d"
      then show "being_written ?st (ce_repoPath e) \<or> d_head d = Some c \<and> clean_dir E co k d"
        using P(6) [OF e] written by (auto simp: entry_clean_def same)
    qed
  qed
qed

section \<open>The operations\<close>

text \<open>A step that changes nothing the invariant reads but the disk and the builds being set up.\<close>

lemma pristine_quiet:
  assumes p: "pristine_inv E co st" and inv: "dir_inv (in_workDir E) st"
    and same: "map view (ex_objects st') = map view (ex_objects st)" "ex_cache st' = ex_cache st"
      "ex_cacheFile st' = ex_cacheFile st" "ex_written st' = ex_written st" "ex_invalidated st' = ex_invalidated st"
    and disk: "disk_kept E co st' st"
    and starting: "set (ex_starting st') \<subseteq> set (ex_starting st)" and run: "set (ex_running st') \<subseteq> set (ex_running st)"
  shows "pristine_inv E co st'"
proof (rule pristine_frame [OF p inv same(1) disk])
  have lt: "(sid, i) \<in> held st \<Longrightarrow> i < length (ex_objects st)" for sid i
    using dir_invD(6) [OF inv] by (simp add: object_at_def)
  show "(sid, i) \<in> set (ex_written st') \<Longrightarrow> i < length (ex_objects st)" for sid i
    using lt [of sid i] same(4) by (simp add: held_def)
  show "(sid, i) \<in> set (ex_starting st') \<Longrightarrow> i < length (ex_objects st) \<and>
       ((sid, i) \<in> set (ex_starting st) \<or> (\<not> s_fromCache (ex_objects st ! i) \<and> \<not> s_localTestMode (ex_objects st ! i)))" for sid i
    using starting lt [of sid i] by (auto simp: held_def)
qed (use same run in \<open>simp_all add: file_entries_def\<close>)

lemma prepare_pristine:
  assumes p: "pristine_inv E co st" and inv: "dir_inv (in_workDir E) st" and w: "in_workDir E \<noteq> []"
    and fresh: "rp (in_workDir E) sid \<notin> fst ` set (mentions st)"
  shows "pristine_inv E co (snd (prepareRepository (in_workDir E) rq ls mc sid st))"
proof -
  have a: "pristine_inv E co (st\<lparr>ex_copying := x\<rparr>)" "pristine_inv E co (st\<lparr>ex_waiting := y\<rparr>)" for x y
    by (rule pristine_quiet [OF p inv]; simp add: disk_same)+
  have b: "pristine_inv E co (st\<lparr>ex_fresh := x, ex_disk := map_set (base_dir (in_workDir E) sid) d (ex_disk st)\<rparr>)" for x d
    by (rule pristine_quiet [OF p inv]) (simp_all add: disk_new [OF p inv w fresh])
  show ?thesis using p a b by (simp add: prepareRepository_def Let_def split: sum.split option.split)
qed

lemma resume_pristine:
  assumes p: "pristine_inv E co st" and inv: "dir_inv (in_workDir E) st"
  shows "pristine_inv E co (snd (resume_waiting k sid st))"
proof -
  have "pristine_inv E co (st\<lparr>ex_waiting := y\<rparr>)" "pristine_inv E co (st\<lparr>ex_waiting := y, ex_copying := x\<rparr>)" for x y
    by (rule pristine_quiet [OF p inv]; simp add: disk_same)+
  then show ?thesis using p by (simp add: resume_waiting_def split: prod.split promise.split)
qed

text \<open>A new session over a directory that was just filled.\<close>

lemma new_session_pristine:
  assumes p: "pristine_inv E co st" and inv: "dir_inv (in_workDir E) st" and w: "in_workDir E \<noteq> []"
    and fresh: "rp (in_workDir E) sid \<notin> fst ` set (mentions st)"
    and same: "ex_sessions st' = ex_sessions st" "ex_objects st' = ex_objects st" "ex_cache st' = ex_cache st"
      "ex_cacheFile st' = ex_cacheFile st" "ex_db st' = ex_db st" "ex_pdf st' = ex_pdf st"
      "ex_written st' = ex_written st" "ex_invalidated st' = ex_invalidated st" "ex_starting st' = ex_starting st"
      "ex_running st' = ex_running st"
    and pend: "set (pending_ids st') \<subseteq> set (pending_ids st)"
    and disk: "map_get (ex_disk st') (base_dir (in_workDir E) sid) = Some d"
      "\<And>p. p \<noteq> base_dir (in_workDir E) sid \<Longrightarrow> map_get (ex_disk st') p = map_get (ex_disk st) p"
    and at: "s_repoPath s = rp (in_workDir E) sid"
    and clean: "plain s \<Longrightarrow> d_head d \<noteq> None \<and> clean_dir E co (key_of s) d"
  shows "pristine_inv E co (saveSessionToDb sid (setSession sid s st'))"
proof -
  have p': "pristine_inv E co st'"
    by (rule pristine_quiet [OF p inv]) (use same disk(2) in \<open>simp_all add: disk_new [OF p inv w fresh]\<close>)
  have "keyset (ex_disk st) \<subseteq> keyset (ex_disk st')" using disk by (metis keyset_iff option.distinct(1) subsetI)
  then have inv': "dir_inv (in_workDir E) st'"
    by (rule dir_inv_pending [OF inv, rotated -2]) (use same pend in \<open>auto simp: held_def\<close>)
  have m: "mentions st' = mentions st" using same by (simp add: mentions_def file_entries_def)
  show ?thesis
  proof (intro save_db_pristine new_object_pristine [OF p' inv' _ at])
    show "rp (in_workDir E) sid \<notin> fst ` set (mentions st')" using fresh m by simp
  next
    fix d' assume "plain s" "dir_of st' (s_repoPath s) = Some d'"
    then show "d_head d' \<noteq> None \<and> clean_dir E co (key_of s) d'" using clean w disk(1) by (simp add: dir_of_def at)
  qed
qed

lemma plain_new [simp]: "\<not> plain (new_session rq b True)" "\<not> plain (clone_session rq c b True)"
  "\<not> plain (s\<lparr>s_localTestMode := True\<rparr>)"
  by (simp_all add: plain_def new_session_def clone_session_def)

lemma prepare_local_pristine:
  assumes p: "pristine_inv E co st" and inv: "dir_inv (in_workDir E) st" and w: "in_workDir E \<noteq> []"
    and fresh: "rp (in_workDir E) sid \<notin> fst ` set (mentions st)"
  shows "pristine_inv E co (snd (prepare_local (in_workDir E) rq repo sid st))"
  unfolding prepare_local_def Let_def snd_conv
  by (rule new_session_pristine [OF p inv w fresh]) (auto simp: pending_ids_def new_session_def plain_def)

lemma copy_other:
  assumes "copyWorkspaceSnapshot a b c base disk = (ok, disk')"
  shows "\<exists>d. disk' = map_set base d (map_del base disk)"
proof -
  have twice: "map_set k v (map_set k v' m) = map_set k v m" for k :: string and v v' :: directory and m
    by (induction m) auto
  have "\<exists>d. snd (copyWorkspaceSnapshot a b c base disk) = map_set base d (map_del base disk)"
    unfolding copyWorkspaceSnapshot_def Let_def by (cases "part_of d_repo (map_set base empty_dir (map_del base disk)) a") (auto simp: twice)
  with assms show ?thesis by simp
qed

lemma finish_copy_pristine:
  assumes p: "pristine_inv E co st" and inv: "dir_inv (in_workDir E) st" and w: "in_workDir E \<noteq> []"
  shows "pristine_inv E co (snd (finish_copy (in_workDir E) sid st))"
proof (cases "map_get (ex_copying st) sid")
  case (Some x)
  let ?w = "in_workDir E"
  obtain rq src where x: "x = (rq, src)" by (cases x)
  have fresh: "rp ?w sid \<notin> fst ` set (mentions st)" using pending_fresh(1) [OF inv Some] .
  obtain ok disk where c: "copyWorkspaceSnapshot (wp_repoPath src) (wp_outputPath src) (Some (wp_buildPath src))
      (base_dir ?w sid) (ex_disk st) = (ok, disk)"
    by (meson surj_pair)
  obtain d where d: "disk = map_set (base_dir ?w sid) d (map_del (base_dir ?w sid) (ex_disk st))" using copy_other [OF c] by blast
  have other: "map_get disk p = map_get (ex_disk st) p" if "p \<noteq> base_dir ?w sid" for p using that d by simp
  have here: "map_get disk (base_dir ?w sid) = Some d" using d by simp
  have "pristine_inv E co (saveSessionToDb sid (setSession sid (new_session rq (base_dir ?w sid) True)
      (st\<lparr>ex_copying := map_del sid (ex_copying st), ex_disk := disk\<rparr>)))"
    by (rule new_session_pristine [OF p inv w fresh])
      (use here other set_map_del [of sid "ex_copying st"] in \<open>auto simp: pending_ids_def new_session_def plain_def\<close>)
  moreover have "pristine_inv E co (st\<lparr>ex_copying := map_del sid (ex_copying st), ex_disk := disk\<rparr>)"
    by (rule pristine_quiet [OF p inv]) (simp_all add: disk_new [OF p inv w fresh] other)
  ultimately show ?thesis using Some x c by (simp add: finish_copy_def Let_def)
qed (use p in \<open>simp add: finish_copy_def\<close>)

lemma begin_clone_pristine:
  assumes p: "pristine_inv E co st" and inv: "dir_inv (in_workDir E) st"
  shows "pristine_inv E co (snd (begin_clone (in_workDir E) assets sid None seed st))"
proof -
  have "pristine_inv E co (st\<lparr>ex_fresh := a, ex_cloning := b, ex_inProgress := c\<rparr>)" for a b c
    by (rule pristine_quiet [OF p inv]) (simp_all add: disk_same)
  then show ?thesis using p by (simp add: begin_clone_def Let_def split: option.split prod.split)
qed

text \<open>What git checks out is the tree of the commit it reports.\<close>

definition honest_try :: "(string \<Rightarrow> string \<Rightarrow> files) \<Rightarrow> string \<Rightarrow> (files \<times> string) option \<Rightarrow> bool" where
  "honest_try checkout key t = (case t of None \<Rightarrow> True | Some (repo, head) \<Rightarrow> repo = checkout key head)"

lemma seed_same: "d_repo (seedOutputFromLocalBuild s d) = d_repo d" "d_head (seedOutputFromLocalBuild s d) = d_head d"
  by (simp_all add: seedOutputFromLocalBuild_def split: option.split)

lemma finish_clone_pristine:
  assumes p: "pristine_inv E co st" and inv: "dir_inv (in_workDir E) st" and w: "in_workDir E \<noteq> []"
    and honest: "\<And>rq c. map_get (ex_cloning st) sid = Some (rq, c) \<Longrightarrow>
       honest_try co (repo_key (rq_owner rq) (rq_repo rq)) pt \<and> honest_try co (repo_key (rq_owner rq) (rq_repo rq)) at"
  shows "pristine_inv E co (snd (finish_clone (in_workDir E) (in_assets E) sid pt at None seed late st))"
proof (cases "map_get (ex_cloning st) sid")
  case (Some x)
  let ?w = "in_workDir E"
  let ?base = "base_dir ?w sid"
  obtain rq c where x: "x = (rq, c)" by (cases x)
  let ?key = "repo_key (rq_owner rq) (rq_repo rq)"
  have fresh: "rp ?w sid \<notin> fst ` set (mentions st)" using pending_fresh(3) [OF inv Some] .
  let ?st1 = "st\<lparr>ex_cloning := map_del sid (ex_cloning st), ex_inProgress := map_del ?key (ex_inProgress st)\<rparr>"
  have gone: "pristine_inv E co (?st1\<lparr>ex_waiting := ws\<rparr>)" for ws
    by (rule pristine_quiet [OF p inv]) (simp_all add: disk_same)
  show ?thesis
  proof (cases "map_get (ex_disk st) ?base")
    case None
    then show ?thesis using Some x gone by (simp add: finish_clone_def Let_def)
  next
    case here: (Some d)
    show ?thesis
    proof (cases "clone_repo (rq_token rq) pt at")
      case None
      then show ?thesis using Some x gone here by (simp add: finish_clone_def Let_def)
    next
      case cloned: (Some r)
      obtain repo head where r: "r = (repo, head)" by (cases r)
      have tree: "repo = co ?key head"
        using honest [of rq c] Some x cloned r
        by (auto simp: honest_try_def clone_repo_def split: option.splits if_splits)
      define lt where "lt = (if rq_preferSeed rq then late else None)"
      let ?d = "seedOutputFromLocalBuild lt (sync_dir (in_assets E) (d\<lparr>d_repo := Some repo, d_head := Some head\<rparr>))"
      have clean: "clean_dir E co ?key ?d \<and> d_head ?d = Some head"
        by (simp add: clean_dir_def seed_same sync_dir_def patched_def tree)
      let ?s = "clone_session rq c ?base (lt \<noteq> None)"
      have key: "key_of ?s = ?key" by (simp add: clone_session_def new_session_def key_of_def)
      have "pristine_inv E co (saveSessionToDb sid (setSession sid ?s
          (?st1\<lparr>ex_waiting := ws, ex_disk := map_set ?base ?d (ex_disk st)\<rparr>)))" for ws
        by (rule new_session_pristine [OF p inv w fresh])
          (use clean key set_map_del [of sid "ex_cloning st"] in \<open>auto simp: pending_ids_def\<close>)
      then show ?thesis
        using Some x here cloned r by (simp add: finish_clone_def Let_def lt_def)
    qed
  qed
qed (use p in \<open>simp add: finish_clone_def\<close>)

lemma build_pristine:
  assumes p: "pristine_inv E co st" and inv: "dir_inv (in_workDir E) st"
  shows "pristine_inv E co (snd (build sid out st))"
proof (cases "session_at st sid")
  case (Some q)
  then obtain i s where s: "session_at st sid = Some (i, s)" by (cases q) auto
  have o: "i < length (ex_objects st)" "s = ex_objects st ! i"
    using session_mention(5) [OF inv s] session_at_Some [OF s] by (auto simp: object_at_def)
  have lt: "(sid', j) \<in> held st \<Longrightarrow> j < length (ex_objects st)" for sid' j
    using dir_invD(6) [OF inv] by (simp add: object_at_def)
  have local_build: "pristine_inv E co (put_part path (\<lambda>d. d\<lparr>d_output := Some out\<rparr>) st)" for path
    by (rule pristine_quiet [OF p inv]) (simp_all add: disk_put)
  have "pristine_inv E co (st\<lparr>ex_starting := ex_starting st @ [(sid, i)]\<rparr>)" if "\<not> s_fromCache s \<and> \<not> s_localTestMode s"
  proof (rule pristine_frame [OF p inv])
    show "disk_kept E co (st\<lparr>ex_starting := ex_starting st @ [(sid, i)]\<rparr>) st" by (rule disk_same) simp
    show "(sid', j) \<in> set (ex_written (st\<lparr>ex_starting := ex_starting st @ [(sid, i)]\<rparr>)) \<Longrightarrow> j < length (ex_objects st)" for sid' j
      using lt [of sid' j] by (simp add: held_def)
    show "(sid', j) \<in> set (ex_starting (st\<lparr>ex_starting := ex_starting st @ [(sid, i)]\<rparr>)) \<Longrightarrow> j < length (ex_objects st) \<and>
       ((sid', j) \<in> set (ex_starting st) \<or> (\<not> s_fromCache (ex_objects st ! j) \<and> \<not> s_localTestMode (ex_objects st ! j)))" for sid' j
      using lt [of sid' j] o that by (auto simp: held_def)
  qed (simp_all add: file_entries_def)
  then show ?thesis using p local_build by (simp add: build_def s Let_def save_db_pristine)
qed (use p in \<open>simp add: build_def\<close>)

lemma pristine_queue [simp]: "pristine_inv E co (st\<lparr>ex_queue := q\<rparr>) = pristine_inv E co st"
  "pristine_inv E co (st\<lparr>ex_promises := ps\<rparr>) = pristine_inv E co st" "pristine_inv E co (st\<lparr>ex_artifacts := ac\<rparr>) = pristine_inv E co st"
  "pristine_inv E co (st\<lparr>ex_containers := cs\<rparr>) = pristine_inv E co st" "pristine_inv E co (st\<lparr>ex_deferred := ds\<rparr>) = pristine_inv E co st"
  "pristine_inv E co (st\<lparr>ex_docker := dk\<rparr>) = pristine_inv E co st" "pristine_inv E co (st\<lparr>ex_sessions := se\<rparr>) = pristine_inv E co st"
  "pristine_inv E co (st\<lparr>ex_pdf := pd\<rparr>) = pristine_inv E co st"
  by (simp_all add: pristine_inv_def object_clean_def run_clean_def entry_clean_def file_entries_def dir_of_def
      touched_def being_written_def)

lemma startBuild_pristine:
  assumes "pristine_inv E co st" and "dir_inv (in_workDir E) st"
  shows "pristine_inv E co (snd (startBuild r a job out st))"
proof -
  obtain r' st' where b: "build (job_session job) out st = (r', st')" by (cases "build (job_session job) out st")
  then have "pristine_inv E co st'" using build_pristine [OF assms, of "job_session job" out] by simp
  then show ?thesis
    using assms b by (auto simp: startBuild_def split: option.split prod.split bool.split)
qed

lemma serve_pristine: "pristine_inv E co st \<Longrightarrow> pristine_inv E co (snd (serveArtifact w' cwd sid p st))"
  by (simp add: serveArtifact_def Let_def split: prod.split option.split)

lemma launch_pristine:
  assumes p: "pristine_inv E co st" and inv: "dir_inv (in_workDir E) st"
  shows "pristine_inv E co (snd (launch_build k im a b st))"
proof (cases "k < length (ex_starting st)")
  case True
  obtain sid i where n: "ex_starting st ! k = (sid, i)" by (cases "ex_starting st ! k")
  have mem: "(sid, i) \<in> set (ex_starting st)" using nth_mem [OF True] n by simp
  let ?s = "ex_objects st ! i" and ?st1 = "st\<lparr>ex_starting := remove_nth k (ex_starting st)\<rparr>"
  define c where "c = (case head_of st ?s of Some c \<Rightarrow> Some c | None \<Rightarrow> s_commitHash ?s)"
  have lt: "i < length (ex_objects st)"
    using dir_invD(6) [OF inv, of sid i] mem by (simp add: held_def object_at_def)
  have flags: "\<not> s_fromCache ?s" "\<not> s_localTestMode ?s" using pristine_invD(4) [OF p, of sid i] mem by simp_all
  have st1: "pristine_inv E co ?st1"
    by (rule pristine_quiet [OF p inv]) (use set_remove_nth [of k "ex_starting st"] in \<open>simp_all add: disk_same\<close>)
  have rc: "run_clean st i c"
    unfolding run_clean_def
  proof (intro impI allI)
    fix d assume a: "\<not> s_hasLocalEdits ?s" "dir_of st (s_repoPath ?s) = Some d"
    then obtain h where "d_head d = Some h"
      using pristine_invD(3) [OF p lt] flags by (auto simp: object_clean_def plain_def)
    then show "d_head d = c" using a(2) by (simp add: c_def head_of_def part_of_def dir_of_def)
  qed
  note P = pristine_invD [OF p]
  have run: "pristine_inv E co (?st1\<lparr>ex_containers := cs, ex_docker := d, ex_running := ex_running st @ [(sid, i, c)]\<rparr>)" (is "pristine_inv E co ?st2") for cs d
  proof (rule pristine_invI)
    fix sid' j assume "(sid', j) \<in> set (ex_starting ?st2) \<union> run_ids (ex_running ?st2)"
    then have "(sid', j) \<in> set (ex_starting st) \<union> run_ids (ex_running st)"
      using mem set_remove_nth [of k "ex_starting st"] by auto
    then show "\<not> s_fromCache (ex_objects ?st2 ! j) \<and> \<not> s_localTestMode (ex_objects ?st2 ! j)" using P(4) by simp
  next
    fix sid' j c' assume "(sid', j, c') \<in> set (ex_running ?st2)"
    then have "run_clean st j c'" using P(5) rc by auto
    then show "run_clean ?st2 j c'" by (simp add: run_clean_def dir_of_def)
  next
    fix j assume "j < length (ex_objects ?st2)"
    then show "object_clean E co ?st2 j" using P(3) [of j] by (simp add: object_clean_def dir_of_def touched_def)
  next
    fix k' e assume "(k', e) \<in> set (ex_cache ?st2) \<union> set (file_entries ?st2)"
    then have "entry_clean E co st k' e" using P(6) [of k' e] by (simp add: file_entries_def)
    then show "entry_clean E co ?st2 k' e" by (simp add: entry_clean_def dir_of_def being_written_def)
  qed (use P(1,2) in simp_all)
  obtain r st2 where e: "ensureContainerRunning sid a b ?st1 = (r, st2)" by (cases "ensureContainerRunning sid a b ?st1")
  then obtain cs where st2: "st2 = ?st1\<lparr>ex_containers := cs\<rparr>" using container_change by blast
  show ?thesis
    using st1 run True n e st2 by (simp add: launch_build_def Let_def c_def [symmetric] split: bool.split)
qed (use p in \<open>simp add: launch_build_def\<close>)

text \<open>Clean-ups only take away.\<close>

definition shrinks :: "executor \<Rightarrow> executor \<Rightarrow> bool" where
  "shrinks st' st =
     (ex_objects st' = ex_objects st \<and> ex_written st' = ex_written st \<and> ex_invalidated st' = ex_invalidated st
      \<and> ex_starting st' = ex_starting st \<and> ex_running st' = ex_running st
      \<and> set (ex_cache st') \<union> set (file_entries st') \<subseteq> set (ex_cache st) \<union> set (file_entries st)
      \<and> (\<forall>p. map_get (ex_disk st') p = map_get (ex_disk st) p \<or> map_get (ex_disk st') p = None))"

lemma shrinks_refl: "shrinks st st"
  by (simp add: shrinks_def)

lemma shrinks_trans:
  assumes a: "shrinks a b" and b: "shrinks b c" shows "shrinks a c"
proof -
  have "map_get (ex_disk a) p = map_get (ex_disk c) p \<or> map_get (ex_disk a) p = None" for p
    using a b unfolding shrinks_def by metis
  moreover have "set (ex_cache a) \<union> set (file_entries a) \<subseteq> set (ex_cache c) \<union> set (file_entries c)"
    using a b unfolding shrinks_def by (meson order.trans)
  ultimately show ?thesis using a b unfolding shrinks_def by simp
qed

lemma shrinks_fold: "(\<And>x st. shrinks (f x st) st) \<Longrightarrow> shrinks (fold f xs st) st"
proof (induction xs arbitrary: st)
  case (Cons x xs)
  have "shrinks (fold f xs (f x st)) (f x st)" by (rule Cons.IH [OF Cons.prems])
  then show ?case using Cons.prems [of x st] shrinks_trans by simp
qed (simp add: shrinks_refl)

lemma shrinks_pristine:
  assumes p: "pristine_inv E co st" and inv: "dir_inv (in_workDir E) st" and s: "shrinks st' st"
  shows "pristine_inv E co st'"
proof (rule pristine_frame [OF p inv])
  have lt: "(sid, i) \<in> held st \<Longrightarrow> i < length (ex_objects st)" for sid i
    using dir_invD(6) [OF inv] by (simp add: object_at_def)
  show "disk_kept E co st' st" using s by (intro disk_less) (simp add: shrinks_def)
  show "(sid, i) \<in> set (ex_written st') \<Longrightarrow> i < length (ex_objects st)" for sid i
    using lt [of sid i] s by (simp add: held_def shrinks_def)
  show "(sid, i) \<in> set (ex_starting st') \<Longrightarrow> i < length (ex_objects st) \<and>
       ((sid, i) \<in> set (ex_starting st) \<or> (\<not> s_fromCache (ex_objects st ! i) \<and> \<not> s_localTestMode (ex_objects st ! i)))" for sid i
    using lt [of sid i] s by (simp add: held_def shrinks_def)
qed (use s in \<open>auto simp: shrinks_def\<close>)

lemma cleanup_shrinks: "shrinks (cleanup w rmOk sid st) st"
  by (simp add: shrinks_def cleanup_def Let_def forget_session_def file_entries_def rm_dir_def)

lemma global_cleanup_shrinks: "shrinks (runGlobalCleanup w ma ms rmOk now st) st"
proof -
  have a: "shrinks (drop_entry rmOk ke st) st" for ke st
    by (auto simp: shrinks_def drop_entry_def Let_def file_entries_def set_map_del)
  have b: "shrinks (sweep_dir w rmOk d st) st" for d st
    by (simp add: shrinks_def sweep_dir_def file_entries_def rm_dir_def)
  have c: "shrinks (saveCache st) st" for st
    by (simp add: shrinks_def saveCache_def file_entries_def)
  show ?thesis
    unfolding runGlobalCleanup_def Let_def
    by (intro shrinks_trans [OF shrinks_fold [OF b]] shrinks_trans [OF c] shrinks_trans [OF shrinks_fold [OF a]] shrinks_fold [OF a])
qed

lemma restart_pristine:
  assumes p: "pristine_inv E co st" and none: "ex_written st = []"
  shows "pristine_inv E co (new_process (ex_disk st) (ex_cacheFile st) (ex_db st))"
proof -
  let ?st = "new_process (ex_disk st) (ex_cacheFile st) (ex_db st)"
  have f: "file_entries ?st = file_entries st" by (simp add: file_entries_def new_process_def)
  have c: "set (ex_cache ?st) \<subseteq> set (file_entries st)"
    unfolding file_entries_def using loadCache_ok(2) by (fastforce simp: new_process_def)
  show ?thesis
  proof (rule pristine_invI)
    fix k e assume "(k, e) \<in> set (ex_cache ?st) \<union> set (file_entries ?st)"
    then have "(k, e) \<in> set (ex_cache st) \<union> set (file_entries st)" using c f by auto
    from pristine_invD(6) [OF p this] show "entry_clean E co ?st k e"
      using none by (simp add: entry_clean_def dir_of_def being_written_def new_process_def)
  qed (simp_all add: new_process_def run_ids_def)
qed

lemma view_update:
  "(\<And>s. view (f s) = view s) \<Longrightarrow> map view (ex_objects (update_object i f st)) = map view (ex_objects st)"
  by (cases "i < length (ex_objects st)") (simp_all add: update_object_def map_update list_update_same_conv list_update_beyond)

lemma update_object_more [simp]:
  "ex_cache (update_object i f st) = ex_cache st" "ex_cacheFile (update_object i f st) = ex_cacheFile st"
  "ex_written (update_object i f st) = ex_written st" "ex_invalidated (update_object i f st) = ex_invalidated st"
  "ex_disk (update_object i f st) = ex_disk st" "ex_starting (update_object i f st) = ex_starting st"
  "ex_running (update_object i f st) = ex_running st" "file_entries (update_object i f st) = file_entries st"
  by (simp_all add: update_object_def file_entries_def)

lemma pdf_flag_pristine:
  assumes "pristine_inv E co st" and "dir_inv (in_workDir E) st"
  shows "pristine_inv E co (update_object i (\<lambda>s. s\<lparr>s_pdfReady := b\<rparr>) st)"
  by (rule pristine_quiet [OF assms]) (auto simp: disk_same intro!: view_update simp: view_def key_of_def)

lemma buildPdf_pristine:
  assumes "pristine_inv E co st" and "dir_inv (in_workDir E) st"
  shows "pristine_inv E co (snd (buildPdf sid st))"
  using assms by (simp add: buildPdf_def Let_def pdf_flag_pristine split: option.split prod.split)

lemma finish_pdf_pristine:
  assumes p: "pristine_inv E co st" and inv: "dir_inv (in_workDir E) st" and w: "in_workDir E \<noteq> []"
  shows "pristine_inv E co (snd (finish_pdf (in_workDir E) rmOk sid result st))"
proof (cases "map_get (ex_pdf st) sid")
  case (Some i)
  define st1 where "st1 = (case result of None \<Rightarrow> st | Some out \<Rightarrow> put_part (s_outputPath (ex_objects st ! i)) (\<lambda>d. d\<lparr>d_output := Some out\<rparr>) st)"
  define ready where "ready = (result \<noteq> None \<and> has_pdf st1 (ex_objects st ! i))"
  define st2 where "st2 = (if ready then update_object i (\<lambda>s. s\<lparr>s_pdfReady := True\<rparr>) st1 else st1)"
  define due where "due = filter (\<lambda>d. d = sid) (ex_deferred st2)"
  let ?st3 = "st2\<lparr>ex_pdf := map_del sid (ex_pdf st2), ex_deferred := filter (\<lambda>d. d \<noteq> sid) (ex_deferred st2)\<rparr>"
  have "pristine_inv E co (put_part path (\<lambda>d. d\<lparr>d_output := Some out\<rparr>) st)" for path out
    by (rule pristine_quiet [OF p inv]) (simp_all add: disk_put)
  then have 1: "pristine_inv E co st1" "dir_inv (in_workDir E) st1"
    using p inv by (simp_all add: st1_def put_part_inv split: option.split)
  have 2: "pristine_inv E co st2" "dir_inv (in_workDir E) st2"
    using 1 pdf_flag_pristine [OF 1] by (auto simp: st2_def shape_def key_of_def intro!: update_object_inv)
  have 3: "dir_inv (in_workDir E) ?st3" by (rule dir_inv_frame [OF 2(2)]) (auto simp: held_def pending_ids_def set_map_del)
  have "pristine_inv E co ?st3" using 2(1) by simp
  then have "pristine_inv E co (fold (cleanup (in_workDir E) rmOk) due ?st3)"
    using 3 by (rule shrinks_pristine) (rule shrinks_fold [OF cleanup_shrinks])
  moreover have "snd (finish_pdf (in_workDir E) rmOk sid result st) = fold (cleanup (in_workDir E) rmOk) due ?st3"
    unfolding finish_pdf_def Some option.case Let_def snd_conv due_def st2_def ready_def st1_def by (rule refl)
  ultimately show ?thesis by simp
qed (use p in \<open>simp add: finish_pdf_def\<close>)

section \<open>Edits\<close>

lemma update_write_pristine:
  assumes p: "pristine_inv E co st" and inv: "dir_inv (in_workDir E) st" and w: "in_workDir E \<noteq> []"
  shows "pristine_inv E co (snd (update_write l r cwd ok sid path c st))"
proof (cases "session_at st sid")
  case (Some q)
  then obtain i s where s: "session_at st sid = Some (i, s)" by (cases q) auto
  have o: "i < length (ex_objects st)" "s = ex_objects st ! i" "s_repoPath s = rp (in_workDir E) sid"
    using session_mention(2,5) [OF inv s] session_at_Some [OF s] by (auto simp: object_at_def)
  have lt: "(sid', j) \<in> held st \<Longrightarrow> j < length (ex_objects st)" for sid' j
    using dir_invD(6) [OF inv] by (simp add: object_at_def)
  have "pristine_inv E co ((write_repo_file (s_repoPath s) rel c st)\<lparr>ex_written := ex_written st @ [(sid, i)]\<rparr>)" for rel
  proof (rule pristine_frame [OF p inv])
    let ?st = "(write_repo_file (s_repoPath s) rel c st)\<lparr>ex_written := ex_written st @ [(sid, i)]\<rparr>"
    show "disk_kept E co ?st st"
      unfolding disk_kept_def
    proof clarify
      fix pa k assume a: "(pa, k) \<in> scope st"
      obtain sid' where sid': "pa = rp (in_workDir E) sid'" using scope_paths [OF p inv a] by blast
      show "keeps E co ?st st pa k"
      proof (cases "sid' = sid")
        case True
        then have "being_written ?st pa" using o sid' by (auto simp: being_written_def write_repo_file_def)
        then show ?thesis
          by (auto simp: keeps_def dir_of_def write_repo_file_def put_part_def split: option.splits if_splits simp del: map_of_eq_Some_iff)
      next
        case False
        then have "dir_of ?st pa = dir_of st pa"
          using o(3) w by (simp add: dir_of_def write_repo_file_def put_part_def sid' split: option.split)
        then show ?thesis by (simp add: keeps_def)
      qed
    qed
    show "(sid', j) \<in> set (ex_written ?st) \<Longrightarrow> j < length (ex_objects st)" for sid' j
      using lt [of sid' j] o(1) by (auto simp: held_def)
    show "(sid', j) \<in> set (ex_starting ?st) \<Longrightarrow> j < length (ex_objects st) \<and>
       ((sid', j) \<in> set (ex_starting st) \<or> (\<not> s_fromCache (ex_objects st ! j) \<and> \<not> s_localTestMode (ex_objects st ! j)))" for sid' j
      using lt [of sid' j] by (simp add: held_def write_repo_file_def)
  qed (auto simp: write_repo_file_def file_entries_def)
  then show ?thesis using p s by (simp add: update_write_def split: sum.split)
qed (use p in \<open>simp add: update_write_def\<close>)

lemma in_remove_nth:
  assumes "x \<in> set xs" "x \<noteq> xs ! k" "k < length xs" shows "x \<in> set (remove_nth k xs)"
proof -
  have "set xs = set (take k xs) \<union> {xs ! k} \<union> set (drop (Suc k) xs)"
    using id_take_nth_drop [OF assms(3)] by (metis Un_insert_right insert_is_Un list.simps(15) set_append sup_bot_right Un_assoc)
  then show ?thesis using assms(1,2) by (auto simp: remove_nth_def)
qed

text \<open>
  A write leaves the list of writes being recorded when no entry names its directory any more.
\<close>

lemma recorded_pristine:
  assumes p: "pristine_inv E co st" and inv: "dir_inv (in_workDir E) st" and k: "k < length (ex_written st)" "ex_written st ! k = (sid, i)"
    and same: "ex_objects st' = ex_objects st" "ex_disk st' = ex_disk st" "ex_starting st' = ex_starting st" "ex_running st' = ex_running st"
      "ex_written st' = remove_nth k (ex_written st)" "set (ex_invalidated st) \<subseteq> set (ex_invalidated st')"
    and entries: "\<And>key e. (key, e) \<in> set (ex_cache st') \<union> set (file_entries st') \<Longrightarrow>
        (key, e) \<in> set (ex_cache st) \<union> set (file_entries st) \<and> ce_repoPath e \<noteq> s_repoPath (ex_objects st ! i)"
    and t: "touched st' i \<or> \<not> plain (ex_objects st ! i)"
  shows "pristine_inv E co st'"
proof (rule pristine_invI)
  note P = pristine_invD [OF p]
  fix j assume j: "j < length (ex_objects st')"
  have "touched st' j \<or> \<not> plain (ex_objects st ! j)" if "touched st j"
  proof (cases "j = i")
    case False
    have "j \<in> snd ` set (remove_nth k (ex_written st))" if w: "j \<in> snd ` set (ex_written st)"
    proof -
      obtain sid' where "(sid', j) \<in> set (ex_written st)" using w by auto
      moreover have "(sid', j) \<noteq> ex_written st ! k" using False k(2) by simp
      ultimately show ?thesis using in_remove_nth k(1) by (metis image_eqI snd_conv)
    qed
    then show ?thesis using that same(5,6) by (auto simp: touched_def)
  qed (use t in simp)
  then show "object_clean E co st' j"
    using P(3) [of j] j same(1,2) by (auto simp: object_clean_def dir_of_def)
next
  fix key e assume a: "(key, e) \<in> set (ex_cache st') \<union> set (file_entries st')"
  have w: "being_written st' (ce_repoPath e)" if "being_written st (ce_repoPath e)"
  proof -
    obtain sid' j where j: "(sid', j) \<in> set (ex_written st)" "s_repoPath (ex_objects st ! j) = ce_repoPath e"
      using \<open>being_written st (ce_repoPath e)\<close> by (auto simp: being_written_def)
    then have "(sid', j) \<noteq> ex_written st ! k" using entries [OF a] k(2) by auto
    then have "(sid', j) \<in> set (ex_written st')" using in_remove_nth [OF j(1) _ k(1)] same(5) by simp
    then show ?thesis using j(2) same(1) by (auto simp: being_written_def)
  qed
  then show "entry_clean E co st' key e"
    using pristine_invD(6) [OF p, of key e] entries [OF a] same(1,2) unfolding entry_clean_def dir_of_def by auto
qed (use pristine_invD [OF p] same in \<open>auto simp: run_clean_def dir_of_def\<close>)

lemma invalidate_pristine:
  assumes p: "pristine_inv E co st" and inv: "dir_inv (in_workDir E) st"
  shows "pristine_inv E co (snd (update_invalidate k out st))"
proof (cases "k < length (ex_written st)")
  case True
  obtain sid i where n: "ex_written st ! k = (sid, i)" by (cases "ex_written st ! k")
  let ?s = "ex_objects st ! i" and ?st1 = "st\<lparr>ex_written := remove_nth k (ex_written st)\<rparr>"
  have lt: "i < length (ex_objects st)"
    using dir_invD(6) [OF inv, of sid i] nth_mem [OF True] n by (simp add: held_def object_at_def)
  show ?thesis
  proof (cases "s_localTestMode ?s")
    case loc: True
    have ne: "ce_repoPath e \<noteq> s_repoPath ?s" if "(key, e) \<in> set (ex_cache st) \<union> set (file_entries st)" for key e
      using pristine_invD(6) [OF p that] lt loc by (auto simp: entry_clean_def)
    have 1: "pristine_inv E co ?st1"
      by (rule recorded_pristine [OF p inv True n]) (use ne loc in \<open>auto simp: file_entries_def plain_def\<close>)
    have 2: "dir_inv (in_workDir E) ?st1"
      by (rule dir_inv_frame [OF inv])
        (use set_remove_nth [of k "ex_written st"] in \<open>auto simp: held_def pending_ids_def\<close>)
    show ?thesis using True n loc build_pristine [OF 1 2] by (simp add: update_invalidate_def Let_def)
  next
    case False
    let ?st2 = "saveCache (?st1\<lparr>ex_cache := map_del (key_of ?s) (ex_cache st), ex_invalidated := ex_invalidated st @ [(sid, i)]\<rparr>)"
    have obj: "(s_repoPath ?s, key_of ?s) \<in> set (mentions st)" unfolding set_mentions using lt by force
    have ne: "ce_repoPath e \<noteq> s_repoPath ?s" if a: "(key, e) \<in> set (ex_cache st)" "key \<noteq> key_of ?s" for key e
    proof
      assume "ce_repoPath e = s_repoPath ?s"
      moreover have "(ce_repoPath e, key) \<in> set (mentions st)" unfolding set_mentions using a(1) by force
      ultimately show False using obj a(2) dir_invD(8) [OF inv] by (auto dest: single_valuedD)
    qed
    have "pristine_inv E co ?st2"
      by (rule recorded_pristine [OF p inv True n])
        (use ne in \<open>auto simp: saveCache_def file_entries_def set_map_del touched_def\<close>)
    then show ?thesis using True n False by (simp add: update_invalidate_def Let_def)
  qed
qed (use p in \<open>simp add: update_invalidate_def\<close>)

lemma mark_pristine:
  assumes p: "pristine_inv E co st" and inv: "dir_inv (in_workDir E) st"
  shows "pristine_inv E co (snd (update_mark k r a job out st))"
proof (cases "k < length (ex_invalidated st)")
  case True
  obtain sid i where n: "ex_invalidated st ! k = (sid, i)" by (cases "ex_invalidated st ! k")
  have lt: "i < length (ex_objects st)"
    using dir_invD(6) [OF inv, of sid i] nth_mem [OF True] n by (simp add: held_def object_at_def)
  let ?f = "\<lambda>s. s\<lparr>s_fromCache := False, s_hasLocalEdits := True\<rparr>"
  let ?st0 = "st\<lparr>ex_invalidated := remove_nth k (ex_invalidated st)\<rparr>"
  let ?st1 = "update_object i ?f ?st0"
  note P = pristine_invD [OF p]
  have nth: "ex_objects ?st1 ! j = (if j = i then ?f (ex_objects st ! i) else ex_objects st ! j)" for j
    using lt by (simp add: update_object_def nth_list_update)
  have path: "s_repoPath (ex_objects ?st1 ! j) = s_repoPath (ex_objects st ! j)"
    "s_localTestMode (ex_objects ?st1 ! j) = s_localTestMode (ex_objects st ! j)"
    "key_of (ex_objects ?st1 ! j) = key_of (ex_objects st ! j)" for j
    by (simp_all add: nth key_of_def)
  have len: "length (ex_objects ?st1) = length (ex_objects st)" by (simp add: update_object_def)
  have paths: "map s_repoPath (ex_objects ?st1) = map s_repoPath (ex_objects st)"
    by (rule nth_equalityI) (simp_all add: len path)
  have "pristine_inv E co ?st1"
  proof (rule pristine_invI)
    fix s assume "s \<in> set (ex_objects ?st1)"
    then have "s_repoPath s \<in> set (map s_repoPath (ex_objects ?st1))" by (simp del: update_object_more)
    then have "s_repoPath s \<in> set (map s_repoPath (ex_objects st))" unfolding paths .
    then show "\<exists>sid. s_repoPath s = rp (in_workDir E) sid" using P(1) by auto
  next
    show "distinct (map s_repoPath (ex_objects ?st1))" using P(2) paths by simp
  next
    fix j assume "j < length (ex_objects ?st1)"
    then have j: "j < length (ex_objects st)" using len by simp
    show "object_clean E co ?st1 j"
    proof (cases "j = i")
      case True
      then show ?thesis by (simp add: object_clean_def nth plain_def)
    next
      case False
      have "touched ?st1 j" if "touched st j"
      proof -
        have "j \<in> snd ` set (remove_nth k (ex_invalidated st))" if w: "j \<in> snd ` set (ex_invalidated st)"
        proof -
          obtain sid' where "(sid', j) \<in> set (ex_invalidated st)" using w by auto
          moreover have "(sid', j) \<noteq> ex_invalidated st ! k" using False n by simp
          ultimately show ?thesis using in_remove_nth \<open>k < length (ex_invalidated st)\<close> by (metis image_eqI snd_conv)
        qed
        then show ?thesis using that by (auto simp: touched_def)
      qed
      then show ?thesis using P(3) [OF j] False by (auto simp: object_clean_def nth dir_of_def)
    qed
  next
    fix sid' j assume a: "(sid', j) \<in> set (ex_starting ?st1) \<union> run_ids (ex_running ?st1)"
    then show "\<not> s_fromCache (ex_objects ?st1 ! j) \<and> \<not> s_localTestMode (ex_objects ?st1 ! j)"
      using P(4) [of sid' j] by (cases "j = i") (auto simp: nth)
  next
    fix sid' j c assume "(sid', j, c) \<in> set (ex_running ?st1)"
    then show "run_clean ?st1 j c" using P(5) [of sid' j c] by (simp add: run_clean_def nth dir_of_def)
  next
    fix key e assume "(key, e) \<in> set (ex_cache ?st1) \<union> set (file_entries ?st1)"
    then have "(key, e) \<in> set (ex_cache st) \<union> set (file_entries st)" by (simp add: file_entries_def)
    from P(6) [OF this] show "entry_clean E co ?st1 key e"
      unfolding entry_clean_def being_written_def dir_of_def path len by simp
  qed
  moreover have "dir_inv (in_workDir E) ?st1"
  proof (rule update_object_inv)
    show "dir_inv (in_workDir E) ?st0"
      by (rule dir_inv_frame [OF inv])
        (use set_remove_nth [of k "ex_invalidated st"] in \<open>auto simp: held_def pending_ids_def\<close>)
  qed (simp add: shape_def key_of_def)
  ultimately show ?thesis using True n
    by (auto simp: update_mark_def Let_def build_pristine split: prod.split bool.split)
qed (use p in \<open>simp add: update_mark_def\<close>)

section \<open>Builds that are cached\<close>

text \<open>
  A build may add files to the repository directory; it leaves those that were checked out.
\<close>

definition docker_keeps :: "installation \<Rightarrow> (string \<Rightarrow> string \<Rightarrow> files) \<Rightarrow> executor \<Rightarrow> session \<Rightarrow> docker_end \<Rightarrow> bool" where
  "docker_keeps E checkout st s outcome =
     (case outcome of
        Docker_ok repo out b \<Rightarrow>
          (case dir_of st (s_repoPath s) of
             None \<Rightarrow> True
           | Some d \<Rightarrow>
               (case (d_repo d, d_head d) of
                  (Some old, Some c) \<Rightarrow>
                    list_all (\<lambda>(p, x). map_get repo p = map_get old p) (patched E (checkout (key_of s) c))
                | _ \<Rightarrow> True))
      | _ \<Rightarrow> True)"

lemma keeps_clean:
  assumes "docker_keeps E co st s (Docker_ok repo out b)" and "dir_of st (s_repoPath s) = Some d" and "clean_dir E co (key_of s) d"
  shows "clean_dir E co (key_of s) (d\<lparr>d_repo := Some repo, d_output := o', d_build := b'\<rparr>)"
proof -
  obtain old c where d: "d_repo d = Some old" "d_head d = Some c" and le: "map_of (patched E (co (key_of s) c)) \<subseteq>\<^sub>m map_of old"
    using assms(3) by (auto simp: clean_dir_def split: option.splits)
  have "list_all (\<lambda>(p, x). map_get repo p = map_get old p) (patched E (co (key_of s) c))"
    using assms(1,2) d by (simp add: docker_keeps_def)
  then have "map_of (patched E (co (key_of s) c)) \<subseteq>\<^sub>m map_of repo"
    using le unfolding map_le_def dom_map_of_conv_image_fst list_all_iff by fastforce
  then show ?thesis by (simp add: clean_dir_def d)
qed

lemma evict_shrinks: "shrinks (evict_old_entry key sid st) st"
  by (simp add: evict_old_entry_def Let_def shrinks_def file_entries_def split: option.split)

lemma finish_build_pristine:
  assumes p: "pristine_inv E co st" and inv: "dir_inv (in_workDir E) st" and w: "in_workDir E \<noteq> []"
    and quiet: "\<And>sid i c. k < length (ex_running st) \<Longrightarrow> ex_running st ! k = (sid, i, c) \<Longrightarrow>
        \<not> touched st i \<and> docker_keeps E co st (ex_objects st ! i) outcome"
  shows "pristine_inv E co (snd (finish_build k outcome now st))"
proof (cases "k < length (ex_running st)")
  case True
  obtain sid i lc where n: "ex_running st ! k = (sid, i, lc)" by (cases "ex_running st ! k")
  have mem: "(sid, i, lc) \<in> set (ex_running st)" using nth_mem [OF True] n by simp
  then have rid: "(sid, i) \<in> run_ids (ex_running st)" by (force simp: run_ids_def)
  then have o: "object_at (in_workDir E) st sid i" using dir_invD(6) [OF inv] by (simp add: held_def)
  define s where "s = ex_objects st ! i"
  have lt: "i < length (ex_objects st)" and path: "s_repoPath s = rp (in_workDir E) sid"
    using o by (simp_all add: object_at_def s_def)
  have flags: "\<not> s_fromCache s" "\<not> s_localTestMode s" using pristine_invD(4) [OF p, of sid i] rid by (simp_all add: s_def)
  have untouched: "\<not> touched st i" and keep: "docker_keeps E co st s outcome"
    using quiet [OF True n] by (simp_all add: s_def)
  let ?st1 = "st\<lparr>ex_running := remove_nth k (ex_running st), ex_docker := removeAll (key_of s) (ex_docker st)\<rparr>"
  have 1: "pristine_inv E co ?st1"
    by (rule pristine_quiet [OF p inv]) (use set_remove_nth [of k "ex_running st"] in \<open>simp_all add: disk_same\<close>)
  show ?thesis
  proof (cases outcome)
    case (Docker_ok repo out bf)
    let ?f = "\<lambda>d. d\<lparr>d_repo := Some repo, d_output := Some out, d_build := Some bf\<rparr>"
    define st2 where "st2 = put_part (s_repoPath s) ?f ?st1"
    have here: "dir_of st2 (s_repoPath s) = map_option ?f (dir_of st (s_repoPath s))"
      by (simp add: st2_def put_part_def dir_of_def split: option.split)
    have kept: "disk_kept E co st2 st"
      unfolding disk_kept_def
    proof clarify
      fix pa ke assume a: "(pa, ke) \<in> scope st"
      obtain sid' where sid': "pa = rp (in_workDir E) sid'" using scope_paths [OF p inv a] by blast
      show "keeps E co st2 st pa ke"
      proof (cases "sid' = sid")
        case True
        then have pa: "pa = s_repoPath s" using sid' path by simp
        have "(pa, key_of s) \<in> set (mentions st)" unfolding set_mentions pa s_def using lt by force
        then have "ke = key_of s" using a scope_mentions dir_invD(8) [OF inv] by (meson single_valuedD subsetD)
        then show ?thesis
          using keeps_clean [OF keep [unfolded Docker_ok]] unfolding keeps_def pa here by auto
      next
        case False
        then have "dir_of st2 pa = dir_of st pa"
          using path w by (simp add: dir_of_def st2_def put_part_def sid' split: option.split)
        then show ?thesis by (simp add: keeps_def)
      qed
    qed
    have heldlt: "(sid', j) \<in> held st \<Longrightarrow> j < length (ex_objects st)" for sid' j
      using dir_invD(6) [OF inv] by (simp add: object_at_def)
    have 2: "pristine_inv E co st2"
    proof (rule pristine_frame [OF p inv _ kept])
      show "(sid', j) \<in> set (ex_written st2) \<Longrightarrow> j < length (ex_objects st)" for sid' j
        using heldlt [of sid' j] by (simp add: st2_def held_def)
      show "(sid', j) \<in> set (ex_starting st2) \<Longrightarrow> j < length (ex_objects st) \<and>
         ((sid', j) \<in> set (ex_starting st) \<or> (\<not> s_fromCache (ex_objects st ! j) \<and> \<not> s_localTestMode (ex_objects st ! j)))" for sid' j
        using heldlt [of sid' j] by (simp add: st2_def held_def)
    qed (use set_remove_nth [of k "ex_running st"] in \<open>simp_all add: st2_def file_entries_def\<close>)
    have run1: "run_ids (remove_nth k (ex_running st)) \<subseteq> run_ids (ex_running st)"
      unfolding run_ids_def by (rule image_mono [OF set_remove_nth])
    have "dir_inv (in_workDir E) ?st1" by (rule dir_inv_frame [OF inv]) (use run1 in \<open>auto simp: held_def pending_ids_def\<close>)
    then have inv2: "dir_inv (in_workDir E) st2" unfolding st2_def by (rule put_part_inv)
    define gone where "gone = evict_old_entry (key_of s) sid st2"
    have gs: "shrinks gone st2" unfolding gone_def by (rule evict_shrinks)
    have g: "pristine_inv E co gone" by (rule shrinks_pristine [OF 2 inv2 gs])
    have gsel: "ex_objects gone = ex_objects st" "ex_written gone = ex_written st" "ex_invalidated gone = ex_invalidated st"
      using gs by (simp_all add: shrinks_def st2_def)
    have gd: "dir_of gone (s_repoPath s) = Some d \<Longrightarrow> dir_of st2 (s_repoPath s) = Some d" for d
      using gs unfolding shrinks_def dir_of_def by (metis option.distinct(1))
    note G = pristine_invD [OF g]
    have cached: "pristine_inv E co (cache_build sid s cm now st2)"
      if edits: "\<not> s_hasLocalEdits s" and cm: "cm = (case lc of Some c \<Rightarrow> Some c | None \<Rightarrow> head_of st2 s)" for cm
    proof -
      define e where "e = \<lparr>ce_commitHash = cm, ce_cacheVersion = BUILD_CACHE_VERSION, ce_repoPath = s_repoPath s,
            ce_outputPath = s_outputPath s,
            ce_buildPath = (case s_buildPath s of Some p \<Rightarrow> p | None \<Rightarrow> path_dirname (s_repoPath s) @ ''/build''),
            ce_sessionId = sid, ce_builtAt = now\<rparr>"
      let ?final = "gone\<lparr>ex_cache := map_set (key_of s) e (ex_cache gone), ex_cacheFile := Some (map_set (key_of s) e (ex_cache gone))\<rparr>"
      have final: "cache_build sid s cm now st2 = ?final"
        by (simp add: cache_build_def Let_def saveCache_def gone_def e_def)
      have clean_e: "entry_clean E co gone (key_of s) e"
        unfolding entry_clean_def
      proof (intro conjI allI impI)
        fix j assume j: "j < length (ex_objects gone)" "s_repoPath (ex_objects gone ! j) = ce_repoPath e"
        then have "map s_repoPath (ex_objects st) ! j = map s_repoPath (ex_objects st) ! i"
          using lt by (simp add: gsel e_def s_def)
        then have "j = i" using nth_eq_iff_index_eq [OF pristine_invD(2) [OF p], of j i] j(1) lt by (simp add: gsel)
        then show "\<not> s_localTestMode (ex_objects gone ! j)" using flags by (simp add: gsel s_def)
      next
        fix c d assume a: "ce_commitHash e = Some c" "dir_of gone (ce_repoPath e) = Some d"
        then have d: "dir_of gone (s_repoPath s) = Some d" by (simp add: e_def)
        have "object_clean E co gone i" using G(3) lt by (simp add: gsel)
        then have cl: "d_head d \<noteq> None" "clean_dir E co (key_of s) d"
          using d edits flags untouched by (simp_all add: object_clean_def gsel s_def plain_def touched_def)
        obtain d0 where d0: "dir_of st (s_repoPath s) = Some d0" "d = ?f d0" using gd [OF d] here by auto
        have "d_head d0 = lc"
          using pristine_invD(5) [OF p mem] edits d0(1) by (simp add: run_clean_def s_def)
        then have "d_head d = lc" using d0(2) by simp
        then have "d_head d = Some c" using cl(1) cm a(1) by (auto simp: e_def)
        then show "being_written gone (ce_repoPath e) \<or> d_head d = Some c \<and> clean_dir E co (key_of s) d" using cl(2) by simp
      qed
      have sub: "set (ex_cache ?final) \<union> set (file_entries ?final) \<subseteq> insert (key_of s, e) (set (ex_cache gone))"
        using set_map_set [of "key_of s" e "ex_cache gone"] by (simp add: file_entries_def)
      have "entry_clean E co ?final ke e'" if "(ke, e') \<in> set (ex_cache ?final) \<union> set (file_entries ?final)" for ke e'
      proof -
        have "(ke, e') = (key_of s, e) \<or> (ke, e') \<in> set (ex_cache gone)" using that sub by blast
        then have "entry_clean E co gone ke e'" using clean_e G(6) [of ke e'] by blast
        then show ?thesis by (simp add: entry_clean_def dir_of_def being_written_def)
      qed
      then show ?thesis
        unfolding final
        by (intro pristine_invI)
          (use G(1-5) in \<open>simp_all add: object_clean_def run_clean_def dir_of_def touched_def\<close>)
    qed
    show ?thesis
      using 2 cached
      by (simp add: finish_build_def if_P [OF True] n Let_def Docker_ok s_def [symmetric] st2_def [symmetric] save_db_pristine
          cong: option.case_cong)
  qed (use True n 1 s_def in \<open>simp_all add: finish_build_def Let_def\<close>)
qed (use p in \<open>simp add: finish_build_def\<close>)

section \<open>Runs\<close>

text \<open>
  The steps that the cache is safe for: git checks out what it says, there is no local mirror, no file is changed behind
  \<^verbatim>\<open>updateFile\<close>'s back, no session is restored from its row, the process does not stop between a write and
  the end of its recording, and no build of a session ends in between.
\<close>

fun undisturbed :: "installation \<Rightarrow> (string \<Rightarrow> string \<Rightarrow> files) \<Rightarrow> event \<Rightarrow> executor \<Rightarrow> bool" where
  "undisturbed E co (Ev_made sid mirror seed) st = (mirror = None)"
| "undisturbed E co (Ev_cloned sid pt at mirror seed late) st =
     (mirror = None \<and>
      (case map_get (ex_cloning st) sid of
         None \<Rightarrow> True
       | Some (rq, c) \<Rightarrow> honest_try co (repo_key (rq_owner rq) (rq_repo rq)) pt \<and> honest_try co (repo_key (rq_owner rq) (rq_repo rq)) at))"
| "undisturbed E co (Ev_built k outcome now) st =
     (if k < length (ex_running st)
      then case ex_running st ! k of (sid, i, c) \<Rightarrow> \<not> touched st i \<and> docker_keeps E co st (ex_objects st ! i) outcome
      else True)"
| "undisturbed E co (Ev_workspace_write sid path content) st = False"
| "undisturbed E co (Ev_hydrate sid) st = False"
| "undisturbed E co Ev_restart st = (ex_written st = [])"
| "undisturbed E co _ st = True"

lemma step_pristine:
  assumes p: "pristine_inv E co st" and inv: "dir_inv (in_workDir E) st" and w: "in_workDir E \<noteq> []"
    and f: "ids_fresh (in_workDir E) ev st" and u: "undisturbed E co ev st"
  shows "pristine_inv E co (snd (exec_step E ev st))"
proof -
  have fresh: "fresh_id (in_workDir E) sid st \<Longrightarrow> rp (in_workDir E) sid \<notin> fst ` set (mentions st)" for sid
    by (simp add: fresh_id_def)
  show ?thesis
  proof (cases ev)
    case (Ev_cloned sid pt at mirror seed late)
    then show ?thesis
      using u finish_clone_pristine [OF p inv w, of sid pt at seed late] by (simp split: option.splits prod.splits)
  next
    case (Ev_built k outcome now)
    then show ?thesis
      using u finish_build_pristine [OF p inv w, of k outcome now] by (auto split: if_splits)
  next
    case (Ev_made sid mirror seed)
    then show ?thesis using u begin_clone_pristine [OF p inv] by simp
  next
    case Ev_restart
    then show ?thesis using u restart_pristine [OF p] by simp
  next
    case (Ev_cleanup rmOk sid)
    then show ?thesis using shrinks_pristine [OF p inv cleanup_shrinks] by simp
  next
    case (Ev_global_cleanup ma ms rmOk now)
    then show ?thesis using shrinks_pristine [OF p inv global_cleanup_shrinks] by simp
  qed (use f u p inv w fresh in \<open>simp_all add: prepare_pristine prepare_local_pristine resume_pristine finish_copy_pristine
      startBuild_pristine build_pristine launch_pristine update_write_pristine invalidate_pristine mark_pristine
      buildPdf_pristine finish_pdf_pristine serve_pristine\<close>)
qed

fun all_undisturbed :: "installation \<Rightarrow> (string \<Rightarrow> string \<Rightarrow> files) \<Rightarrow> event list \<Rightarrow> executor \<Rightarrow> bool" where
  "all_undisturbed E co [] st = True"
| "all_undisturbed E co (ev # evs) st = (undisturbed E co ev st \<and> all_undisturbed E co evs (snd (exec_step E ev st)))"

lemma run_pristine:
  "in_workDir E \<noteq> [] \<Longrightarrow> pristine_inv E co st \<Longrightarrow> dir_inv (in_workDir E) st \<Longrightarrow> once_pending st \<Longrightarrow>
   all_fresh E evs st \<Longrightarrow> all_undisturbed E co evs st \<Longrightarrow>
   pristine_inv E co (exec_run E evs st) \<and> dir_inv (in_workDir E) (exec_run E evs st)"
proof (induction evs arbitrary: st)
  case (Cons ev evs)
  then have "dir_inv (in_workDir E) (snd (exec_step E ev st)) \<and> once_pending (snd (exec_step E ev st))"
    by (intro step_inv) simp_all
  moreover have "pristine_inv E co (snd (exec_step E ev st))" using Cons.prems by (intro step_pristine) simp_all
  ultimately show ?case using Cons by simp
qed simp

lemma first_pristine: "pristine_inv E co first_start"
  by (rule pristine_invI) (simp_all add: first_start_def new_process_def loadCache_def file_entries_def run_ids_def)


text \<open>
  A run: a build that is cached, an edit in another session of the same repository that removes the entry, and a build of a
  third session that is cached again.
\<close>

definition tree_of :: "string \<Rightarrow> string \<Rightarrow> files" where
  "tree_of key c = [(''ch1.xml'', c)]"

definition edit_events :: "string \<Rightarrow> string \<Rightarrow> event list" where
  "edit_events sid content =
     [Ev_write (\<lambda>_. True) Some True sid ''ch1.xml'' content, Ev_invalidate 0 [], Ev_mark 0 False False (job_of sid) []]"

definition sid_c :: string where "sid_c = replicate 16 (CHR ''c'')"

definition cached_events :: "event list" where
  "cached_events =
     clone_events ada sid_a ''c1'' @ build_events sid_a ''c1'' 5 @ edit_events sid_a ''edited''
     @ tl (build_events sid_a ''edited'' 6) @ clone_events ada sid_b ''c2'' @ build_events sid_b ''c2'' 7"

lemma cached_run:
  "all_fresh site cached_events first_start" "all_undisturbed site tree_of cached_events first_start" by code_simp+

lemma cached_entry:
  "map_get (ex_cache (exec_run site cached_events first_start)) ''ada/book''
     = Some \<lparr>ce_commitHash = Some ''c2'', ce_cacheVersion = BUILD_CACHE_VERSION, ce_repoPath = rp ''/d'' sid_b,
         ce_outputPath = op ''/d'' sid_b, ce_buildPath = build_path (base_dir ''/d'' sid_b), ce_sessionId = sid_b,
         ce_builtAt = 7\<rparr>"
  by code_simp

lemma cached_quiet: "ex_written (exec_run site cached_events first_start) = []" by code_simp

lemma cached_tree: "map_get (patched site (tree_of ''ada/book'' ''c2'')) ''ch1.xml'' = Some ''c2''" by code_simp


section \<open>What breaks it\<close>

text \<open>
  A file saved through the workspace routes changes a cached directory and neither removes the entry nor marks the session: the
  next user who opens the commit gets the edit.
\<close>

lemma workspace_edit_is_shared:
  "(case exec_run site (clone_events ada sid_a ''c1'' @ build_events sid_a ''c1'' 5
        @ [Ev_workspace_write sid_a ''ch1.xml'' ''edited'', Ev_prepare mallory (Some ''c1'') None sid_b, Ev_copied sid_b]) first_start of
      st \<Rightarrow> repo_of st sid_b)
   = Some [(''ch1.xml'', ''edited'')]"
  by code_simp

text \<open>
  A session that another process restores from its row has forgotten that it was edited: its build is cached
  under the commit it no longer is.
\<close>

lemma restored_session_caches_edit:
  "(case exec_run site (clone_events ada sid_a ''c1'' @ edit_events sid_a ''edited'' @ [Ev_restart, Ev_hydrate sid_a]
        @ tl (build_events sid_a ''edited'' 9) @ [Ev_prepare mallory (Some ''c1'') None sid_b, Ev_copied sid_b]) first_start of
      st \<Rightarrow> repo_of st sid_b)
   = Some [(''ch1.xml'', ''edited'')]"
  by code_simp

text \<open>
  A build that ends between the write of an edit and the mark on the session is cached with the edit in it.
\<close>

lemma build_ends_during_edit:
  "(case exec_run site (clone_events ada sid_a ''c1''
        @ [Ev_build sid_a [], Ev_launched 0 True False True,
           Ev_write (\<lambda>_. True) Some True sid_a ''ch1.xml'' ''edited'', Ev_invalidate 0 [],
           Ev_built 0 (Docker_ok [(''ch1.xml'', ''edited'')] [(''index.html'', ''x'')] []) 9,
           Ev_mark 0 False False (job_of sid_a) [],
           Ev_prepare mallory (Some ''c1'') None sid_b, Ev_copied sid_b]) first_start of
      st \<Rightarrow> repo_of st sid_b)
   = Some [(''ch1.xml'', ''edited'')]"
  by code_simp

end
