(* ===== verification/MarkdownImport.thy ===== *)
theory MarkdownImport imports TextScan begin

text \<open>
  \<^verbatim>\<open>backend/src/services/pdfImportService.ts\<close> and
  \<^verbatim>\<open>backend/src/controllers/import.controller.ts\<close>: the import of Markdown, and of PDF files that the
  service MathPix turns into Markdown. The random part of an identifier is a parameter, a function of the number of
  pieces before it; the answers of MathPix and the moments of an abort are parameters too.

  The pieces of the output are kept as the list that the code joins at the end. The lemmas show that the block elements
  of the result are closed in the order they were opened, that no markup of the imported text survives, and that
  outside of code fences no line is lost.
\<close>

section \<open>Escaping\<close>

text \<open>\<^verbatim>\<open>replace(/c/g, r)\<close> for one character.\<close>

definition replace_char :: "char \<Rightarrow> string \<Rightarrow> string \<Rightarrow> string" where
  "replace_char c r s = concat (map (\<lambda>x. if x = c then r else [x]) s)"

definition escapeXml :: "string \<Rightarrow> string" where
  "escapeXml txt =
     replace_char (CHR 0x27) ''&apos;'' (replace_char (CHR 0x22) ''&quot;'' (replace_char (CHR ''>'') ''&gt;''
       (replace_char (CHR ''<'') ''&lt;'' (replace_char (CHR ''&'') ''&amp;'' txt))))"

section \<open>Mathematics\<close>

type_synonym string_matcher = "char option \<Rightarrow> string \<Rightarrow> (nat \<times> string) option"

definition backslash_char :: char where "backslash_char = CHR 0x5C"
definition dollar :: char where "dollar = CHR ''$''"

definition element :: "string \<Rightarrow> string \<Rightarrow> string" where
  "element tag content = ''<'' @ tag @ ''>'' @ content @ ''</'' @ tag @ ''>''"

text \<open>An opening delimiter, as little text as possible, and a closing delimiter.\<close>

definition delimited :: "string \<Rightarrow> string \<Rightarrow> string \<Rightarrow> string_matcher" where
  "delimited opener closer tag prev s =
     (if starts_with opener s then
        (case find_sub closer (drop (length opener) s) of
           None \<Rightarrow> None
         | Some k \<Rightarrow> Some (length opener + k + length closer, element tag (trim (take k (drop (length opener) s)))))
      else None)"

text \<open>A dollar that hugs what follows, one line without a dollar, and a dollar that hugs it with no digit behind.\<close>

definition inline_dollars :: string_matcher where
  "inline_dollars prev s =
     (let g = takeWhile (\<lambda>c. c \<noteq> dollar) (tl s); rest = drop (Suc (length g)) s
      in if prev \<noteq> Some dollar \<and> starts_with [dollar] s \<and> g \<noteq> [] \<and> \<not> is_space (hd g) \<and> newline \<notin> set g \<and> \<not> is_space (last g)
            \<and> rest \<noteq> [] \<and> (drop 1 rest = [] \<or> (hd (drop 1 rest) \<noteq> dollar \<and> \<not> is_digit (hd (drop 1 rest))))
         then Some (length g + 2, element ''m'' (trim g)) else None)"

definition replaceMathDelimiters :: "string \<Rightarrow> string" where
  "replaceMathDelimiters txt =
     replace_all inline_dollars None
       (replace_all (delimited [backslash_char, CHR ''(''] [backslash_char, CHR '')''] ''m'') None
         (replace_all (delimited [dollar, dollar] [dollar, dollar] ''me'') None
           (replace_all (delimited [backslash_char, CHR ''[''] [backslash_char, CHR '']''] ''me'') None (escapeXml txt))))"

section \<open>Blocks\<close>

record import_state =
  im_output :: "string list"
  im_stack :: "string list"
  im_paragraph :: bool
  im_list :: "string option"
  im_code :: bool
  im_codeLines :: "string list"

definition emit :: "string \<Rightarrow> import_state \<Rightarrow> import_state" where
  "emit p st = st\<lparr>im_output := im_output st @ [p]\<rparr>"

definition start_tag :: "string \<Rightarrow> string" where "start_tag t = ''<'' @ t @ ''>''"
definition end_tag :: "string \<Rightarrow> string" where "end_tag t = ''</'' @ t @ ''>''"

definition closeParagraph :: "import_state \<Rightarrow> import_state" where
  "closeParagraph st = (if im_paragraph st then (emit (end_tag ''p'') st)\<lparr>im_paragraph := False\<rparr> else st)"

definition closeList :: "import_state \<Rightarrow> import_state" where
  "closeList st =
     (case im_list st of
        None \<Rightarrow> st
      | Some t \<Rightarrow> (emit (end_tag t) (closeParagraph st))\<lparr>im_list := None\<rparr>)"

text \<open>The loop runs as often as there are elements to close; the innermost is the first of the stack.\<close>

fun close_open :: "string list \<Rightarrow> nat \<Rightarrow> import_state \<Rightarrow> import_state" where
  "close_open [] targetLevel st = st"
| "close_open (tag # tags) targetLevel st =
     (if targetLevel \<le> length (tag # tags)
      then close_open tags targetLevel ((emit (end_tag tag) (closeList (closeParagraph st)))\<lparr>im_stack := tags\<rparr>)
      else st)"

definition closeHeaderTags :: "nat \<Rightarrow> import_state \<Rightarrow> import_state" where
  "closeHeaderTags targetLevel st = close_open (im_stack st) targetLevel st"

text \<open>\<^verbatim>\<open>.*\<close> to the end: no line terminator is left in the rest.\<close>

definition one_line :: "string \<Rightarrow> bool" where
  "one_line s = (newline \<notin> set s \<and> CHR 0x0D \<notin> set s)"

definition after_spaces :: "string \<Rightarrow> string option" where
  "after_spaces s = (let r = dropWhile is_space s in if r \<noteq> s \<and> one_line r then Some r else None)"

definition heading_match :: "string \<Rightarrow> (nat \<times> string) option" where
  "heading_match line =
     (let n = length (takeWhile (\<lambda>c. c = CHR ''#'') line)
      in if 1 \<le> n \<and> n \<le> 6 then map_option (\<lambda>r. (n, r)) (after_spaces (drop n line)) else None)"

definition unordered_match :: "string \<Rightarrow> string option" where
  "unordered_match line = (if line \<noteq> [] \<and> hd line \<in> set ''-*+'' then after_spaces (tl line) else None)"

definition ordered_match :: "string \<Rightarrow> string option" where
  "ordered_match line =
     (let n = length (takeWhile is_digit line)
      in if n \<noteq> 0 \<and> starts_with ''.'' (drop n line) then after_spaces (drop (Suc n) line) else None)"

definition heading_tag :: "nat \<Rightarrow> string" where
  "heading_tag level = (if level = 1 then ''chapter'' else if level = 2 then ''section'' else ''subsection'')"

definition open_heading :: "string \<Rightarrow> string \<Rightarrow> string" where
  "open_heading tag rand =
     ''<'' @ tag @ '' xml:id='' @ [CHR 0x22] @ ''imported-'' @ tag @ ''-'' @ rand @ [CHR 0x22] @ ''>''"

definition title_piece :: "string \<Rightarrow> string" where
  "title_piece t = ''  <title>'' @ replaceMathDelimiters t @ ''</title>''"

definition item_piece :: "string \<Rightarrow> string" where
  "item_piece t = ''  <item><p>'' @ replaceMathDelimiters t @ ''</p></item>''"

definition fence :: string where "fence = ''```''"

definition program_start :: string where "program_start = ''<program><input>''"
definition program_end :: string where "program_end = ''</input></program>''"

text \<open>The kind of a trimmed line, in the order of the tests, and the text it gives.\<close>

datatype line_kind = Blank | Heading nat string | Item string string | Prose string

definition line_kind :: "string \<Rightarrow> line_kind" where
  "line_kind line =
     (if line = [] then Blank
      else case heading_match line of
          Some (level, t) \<Rightarrow> Heading level t
        | None \<Rightarrow>
            (case unordered_match line of
               Some t \<Rightarrow> Item ''ul'' t
             | None \<Rightarrow> (case ordered_match line of Some t \<Rightarrow> Item ''ol'' t | None \<Rightarrow> Prose line)))"

definition open_list :: "string \<Rightarrow> import_state \<Rightarrow> import_state" where
  "open_list t st =
     (if im_list st \<noteq> Some t then emit (start_tag t) ((closeList st)\<lparr>im_list := Some t\<rparr>) else st)"

definition plain_line :: "(nat \<Rightarrow> string) \<Rightarrow> string \<Rightarrow> import_state \<Rightarrow> import_state" where
  "plain_line rnd line st =
     (case line_kind line of
        Blank \<Rightarrow> closeParagraph st
      | Heading level t \<Rightarrow>
          let st1 = closeHeaderTags level (closeList (closeParagraph st)); tag = heading_tag level;
              st2 = emit (title_piece t) (emit (open_heading tag (rnd (length (im_output st1)))) st1)
          in st2\<lparr>im_stack := tag # im_stack st2\<rparr>
      | Item list_type t \<Rightarrow> emit (item_piece t) (open_list list_type (closeParagraph st))
      | Prose t \<Rightarrow>
          let st1 = closeList st;
              st2 = (if im_paragraph st1 then emit '' '' st1 else (emit (start_tag ''p'') st1)\<lparr>im_paragraph := True\<rparr>)
          in emit (replaceMathDelimiters t) st2)"

definition import_line :: "(nat \<Rightarrow> string) \<Rightarrow> string \<Rightarrow> import_state \<Rightarrow> import_state" where
  "import_line rnd rawLine st =
     (let line = trim rawLine
      in if starts_with fence line then
           (if im_code st
            then (emit program_end (emit (escapeXml (join [newline] (im_codeLines st))) (emit program_start st)))
                   \<lparr>im_code := False, im_codeLines := []\<rparr>
            else (closeList (closeParagraph st))\<lparr>im_code := True\<rparr>)
         else if im_code st then st\<lparr>im_codeLines := im_codeLines st @ [rawLine]\<rparr>
         else plain_line rnd line st)"

text \<open>\<^verbatim>\<open>split(/\r?\n/)\<close>.\<close>

fun chop_returns :: "string list \<Rightarrow> string list" where
  "chop_returns [] = []"
| "chop_returns [l] = [l]"
| "chop_returns (l # ls) = (if l \<noteq> [] \<and> last l = CHR 0x0D then butlast l else l) # chop_returns ls"

definition import_start :: import_state where
  "import_start = \<lparr>im_output = [], im_stack = [], im_paragraph = False, im_list = None, im_code = False, im_codeLines = []\<rparr>"

definition import_pieces :: "(nat \<Rightarrow> string) \<Rightarrow> string \<Rightarrow> string list" where
  "import_pieces rnd markdown =
     im_output (closeHeaderTags 1 (closeList (closeParagraph
       (fold (import_line rnd) (chop_returns (split_on newline markdown)) import_start))))"

definition parseMarkdownToPretext :: "(nat \<Rightarrow> string) \<Rightarrow> string \<Rightarrow> string" where
  "parseMarkdownToPretext rnd markdown = join [newline] (import_pieces rnd markdown)"

section \<open>No markup of the text survives\<close>

text \<open>Every \<open>c\<close> in a text begins one of the words \<open>G\<close>.\<close>

fun all_start :: "char \<Rightarrow> string list \<Rightarrow> string \<Rightarrow> bool" where
  "all_start c G [] = True"
| "all_start c G (x # s) = ((x = c \<longrightarrow> (\<exists>g \<in> set G. prefix g (x # s))) \<and> all_start c G s)"

lemma all_start_none: "c \<notin> set s \<Longrightarrow> all_start c G s"
  by (induction s) auto

lemma all_start_mono: "all_start c G s \<Longrightarrow> set G \<subseteq> set H \<Longrightarrow> all_start c H s"
  by (induction s) auto

lemma all_start_append: "all_start c G a \<Longrightarrow> all_start c G b \<Longrightarrow> all_start c G (a @ b)"
proof (induction a)
  case (Cons x a)
  have "prefix g (x # a @ b)" if "prefix g (x # a)" for g using that by (metis append_Cons prefix_prefix)
  with Cons show ?case by auto
qed simp

lemma all_start_drop: "all_start c G (a @ b) \<Longrightarrow> all_start c G b"
  by (induction a) auto

lemma all_start_upto:
  assumes "all_start c G (a @ z # b)" and "\<forall>g \<in> set G. z \<notin> set g"
  shows "all_start c G a"
  using assms(1)
proof (induction a)
  case (Cons x a)
  have "prefix g (x # a)" if "prefix g ((x # a) @ z # b)" "g \<in> set G" for g
    using prefix_around [OF that(1)] assms(2) that(2) by blast
  with Cons show ?case by auto
qed simp

lemma trim_parts: "\<exists>a b. s = a @ trim s @ b \<and> (\<forall>x \<in> set b. is_space x)"
proof -
  let ?u = "dropWhile is_space s"
  have "?u = trim s @ rev (takeWhile is_space (rev ?u))"
    unfolding trim_def trim_start_def trim_end_def by (metis rev_append rev_rev_ident takeWhile_dropWhile_id)
  moreover have "s = takeWhile is_space s @ ?u" by simp
  ultimately have "s = takeWhile is_space s @ trim s @ rev (takeWhile is_space (rev ?u))" by simp
  moreover have "\<forall>x \<in> set (rev (takeWhile is_space (rev ?u))). is_space x" by (auto dest: set_takeWhileD)
  ultimately show ?thesis by blast
qed

lemma all_start_trim:
  assumes "all_start c G s" and "\<forall>g \<in> set G. \<forall>z \<in> set g. \<not> is_space z"
  shows "all_start c G (trim s)"
proof -
  obtain a b where s: "s = a @ trim s @ b" "\<forall>x \<in> set b. is_space x" using trim_parts by blast
  from assms(1) have "all_start c G (trim s @ b)" by (subst (asm) s(1)) (rule all_start_drop)
  then show ?thesis using all_start_upto [of c G "trim s" "hd b" "tl b"] s(2) assms(2) by (cases b) auto
qed

text \<open>A word with no character at which the pattern can match is copied.\<close>

definition triggered :: "char set \<Rightarrow> string_matcher \<Rightarrow> bool" where
  "triggered T m = (\<forall>prev x s. x \<notin> T \<longrightarrow> m prev (x # s) = None)"

lemma word_copied: "triggered T m \<Longrightarrow> set g \<inter> T = {} \<Longrightarrow> prefix g s \<Longrightarrow> prefix g (replace_all m prev s)"
proof (induction g arbitrary: prev s)
  case (Cons x g)
  then obtain s' where s: "s = x # s'" "prefix g s'" by (cases s) auto
  have "m prev (x # s') = None" using Cons.prems by (simp add: triggered_def)
  then show ?case using Cons s by (simp add: replace_all.simps)
qed simp

text \<open>Each match becomes a text that is in order if the matched text is.\<close>

definition orderly :: "char \<Rightarrow> string list \<Rightarrow> string_matcher \<Rightarrow> bool" where
  "orderly c G m = (\<forall>prev s n r. m prev s = Some (n, r) \<longrightarrow> all_start c G s \<longrightarrow> all_start c G r)"

lemma replaced_all_start:
  assumes "triggered T m" and "orderly c G m" and "\<forall>g \<in> set G. set g \<inter> T = {}" and "all_start c G s"
  shows "all_start c G (replace_all m prev s)"
  using assms
proof (induction m prev s rule: replace_all.induct [case_names nil cons])
  case (cons m prev x s)
  show ?case
  proof (cases "m prev (x # s)")
    case None
    have "\<exists>g \<in> set G. prefix g (x # replace_all m (Some x) s)" if c: "x = c"
    proof -
      obtain g where g: "g \<in> set G" "prefix g (x # s)" using cons.prems(4) c by auto
      then have "prefix g (replace_all m prev (x # s))" using cons.prems(1,3) by (intro word_copied) auto
      then show ?thesis using g(1) None by (auto simp: replace_all.simps)
    qed
    moreover have "all_start c G (replace_all m (Some x) s)"
      using cons.IH(1) [OF None cons.prems(1-3)] cons.prems(4) by simp
    ultimately show ?thesis using None by (simp add: replace_all.simps)
  next
    case (Some nr)
    obtain n r where nr: "nr = (n, r)" by (cases nr)
    have "all_start c G (drop (n - 1) s)"
      using cons.prems(4) all_start_drop [of c G "take (n - 1) s" "drop (n - 1) s"] by simp
    moreover have "all_start c G r" using Some nr cons.prems(2,4) unfolding orderly_def by blast
    ultimately show ?thesis
      using cons.IH(2) [OF Some nr [symmetric] cons.prems(1-3)] Some nr by (simp add: replace_all.simps all_start_append)
  qed
qed simp

text \<open>The words that the import produces: tags, and the entities of the escape.\<close>

definition math_tags :: "string list" where "math_tags = [''<m>'', ''</m>'', ''<me>'', ''</me>'']"

definition block_tags :: "string list" where
  "block_tags = map start_tag [''p'', ''ul'', ''ol'', ''title'', ''item'', ''program'', ''input'']
     @ map end_tag [''p'', ''ul'', ''ol'', ''title'', ''item'', ''program'', ''input'', ''chapter'', ''section'', ''subsection'']
     @ map (\<lambda>t. ''<'' @ t @ '' xml:id='' @ [CHR 0x22] @ ''imported-'' @ t @ ''-'') [''chapter'', ''section'', ''subsection'']"

definition entities :: "string list" where "entities = [''&amp;'', ''&lt;'', ''&gt;'', ''&quot;'', ''&apos;'']"

definition triggers :: "char set" where "triggers = {backslash_char, dollar}"

definition math_safe :: "char \<Rightarrow> string list \<Rightarrow> bool" where
  "math_safe c G = ((\<forall>g \<in> set G. set g \<inter> triggers = {} \<and> (\<forall>z \<in> set g. \<not> is_space z))
     \<and> (\<forall>t \<in> {''m'', ''me''}. all_start c G (start_tag t) \<and> all_start c G (end_tag t)))"

lemma math_safe_tags: "math_safe (CHR ''<'') math_tags" and math_safe_entities: "math_safe (CHR ''&'') entities"
  by (auto simp: math_safe_def math_tags_def entities_def triggers_def backslash_char_def dollar_def start_tag_def end_tag_def
      is_space_def Let_def)

lemma element_all_start:
  assumes "math_safe c G" and "t \<in> {''m'', ''me''}" and "all_start c G x"
  shows "all_start c G (element t x)"
proof -
  have "element t x = start_tag t @ x @ end_tag t" by (simp add: element_def start_tag_def end_tag_def)
  then show ?thesis using assms unfolding math_safe_def by (metis all_start_append)
qed

lemma delimited_orderly:
  assumes "math_safe c G" and "t \<in> {''m'', ''me''}" and "closer = z # zs" and "z \<in> triggers"
  shows "orderly c G (delimited opener closer t)"
  unfolding orderly_def
proof (intro allI impI)
  fix prev s n r
  assume m: "delimited opener closer t prev s = Some (n, r)" and s: "all_start c G s"
  let ?rest = "drop (length opener) s"
  from m obtain k where k: "find_sub closer ?rest = Some k" and r: "r = element t (trim (take k ?rest))"
    by (auto simp: delimited_def split: if_splits option.splits)
  from find_sub_prefix [OF k] obtain w where "drop k ?rest = z # w" using assms(3) by (auto simp: prefix_def)
  then have "?rest = take k ?rest @ z # w" by (metis append_take_drop_id)
  moreover have "all_start c G ?rest" using s by (metis all_start_drop append_take_drop_id)
  moreover have "\<forall>g \<in> set G. z \<notin> set g" using assms(1,4) by (auto simp: math_safe_def)
  ultimately have "all_start c G (take k ?rest)" using all_start_upto [of c G "take k ?rest" z w] by metis
  then have "all_start c G (trim (take k ?rest))" using assms(1) by (intro all_start_trim) (auto simp: math_safe_def)
  then show "all_start c G r" unfolding r by (rule element_all_start [OF assms(1,2)])
qed

lemma inline_orderly:
  assumes "math_safe c G"
  shows "orderly c G inline_dollars"
  unfolding orderly_def
proof (intro allI impI)
  fix prev s n r
  assume m: "inline_dollars prev s = Some (n, r)" and s: "all_start c G s"
  let ?g = "takeWhile (\<lambda>c. c \<noteq> dollar) (tl s)"
  have r: "r = element ''m'' (trim ?g)" and rest: "drop (Suc (length ?g)) s \<noteq> []"
    using m by (auto simp: inline_dollars_def Let_def split: if_splits)
  have "tl s = ?g @ dropWhile (\<lambda>c. c \<noteq> dollar) (tl s)" by simp
  moreover have "dropWhile (\<lambda>c. c \<noteq> dollar) (tl s) \<noteq> []"
  proof
    assume "dropWhile (\<lambda>c. c \<noteq> dollar) (tl s) = []"
    then have "?g = tl s" by (metis append_Nil2 takeWhile_dropWhile_id)
    then have "length ?g = length (tl s)" by (rule arg_cong)
    then have "length s \<le> Suc (length ?g)" by simp
    then show False using rest by simp
  qed
  ultimately obtain w where "tl s = ?g @ dollar # w"
    by (metis (mono_tags, lifting) hd_dropWhile list.exhaust_sel)
  moreover have "all_start c G (tl s)" using s by (cases s) auto
  moreover have "\<forall>g \<in> set G. dollar \<notin> set g" using assms by (auto simp: math_safe_def triggers_def)
  ultimately have "all_start c G ?g" using all_start_upto [of c G ?g dollar w] by metis
  then have "all_start c G (trim ?g)" using assms by (intro all_start_trim) (auto simp: math_safe_def)
  then show "all_start c G r" unfolding r using element_all_start [OF assms] by blast
qed

lemma math_triggered:
  "triggered triggers (delimited [backslash_char, x] closer t)"
  "triggered triggers (delimited [dollar, x] closer t)"
  "triggered triggers inline_dollars"
  by (auto simp: triggered_def triggers_def delimited_def inline_dollars_def Let_def)

lemma math_all_start:
  assumes "math_safe c G" and "all_start c G (escapeXml t)"
  shows "all_start c G (replaceMathDelimiters t)"
proof -
  have disjoint: "\<forall>g \<in> set G. set g \<inter> triggers = {}" using assms(1) by (auto simp: math_safe_def)
  have T: "backslash_char \<in> triggers" "dollar \<in> triggers" by (simp_all add: triggers_def)
  note step = replaced_all_start [OF _ _ disjoint]
  show ?thesis
    unfolding replaceMathDelimiters_def
    by (intro step math_triggered inline_orderly [OF assms(1)] delimited_orderly [OF assms(1)] assms(2))
      (auto simp: T)
qed

lemma set_replace_char: "set (replace_char c r s) \<subseteq> (set s - {c}) \<union> set r"
  by (auto simp: replace_char_def split: if_splits)

lemma escape_no_tag: "CHR ''<'' \<notin> set (escapeXml t)"
  by (auto simp: escapeXml_def replace_char_def split: if_splits)

lemma replace_char_append: "replace_char c r (a @ b) = replace_char c r a @ replace_char c r b"
  by (simp add: replace_char_def)

lemma escape_append: "escapeXml (a @ b) = escapeXml a @ escapeXml b"
  by (simp add: escapeXml_def replace_char_append)

lemma escape_single:
  "escapeXml [x] = (if x = CHR ''&'' then ''&amp;'' else if x = CHR ''<'' then ''&lt;'' else if x = CHR ''>'' then ''&gt;''
     else if x = CHR 0x22 then ''&quot;'' else if x = CHR 0x27 then ''&apos;'' else [x])"
  by (simp add: escapeXml_def replace_char_def)

lemma escape_entities: "all_start (CHR ''&'') entities (escapeXml t)"
proof (induction t)
  case (Cons x t)
  have "all_start (CHR ''&'') entities (escapeXml [x])" by (simp add: escape_single entities_def)
  then show ?case using Cons escape_append [of "[x]" t] by (simp add: all_start_append)
qed (simp add: escapeXml_def replace_char_def)

lemma math_tags_only: "all_start (CHR ''<'') math_tags (replaceMathDelimiters t)"
  by (intro math_all_start math_safe_tags all_start_none escape_no_tag)

lemma math_entities_only: "all_start (CHR ''&'') entities (replaceMathDelimiters t)"
  by (intro math_all_start math_safe_entities escape_entities)

section \<open>Blocks are closed in order\<close>

text \<open>What a piece of the output does: it opens or closes an element, or neither.\<close>

definition heading_tags :: "string list" where "heading_tags = [''chapter'', ''section'', ''subsection'']"

definition tag_event :: "string \<Rightarrow> (bool \<times> string) option" where
  "tag_event p =
     (case find (\<lambda>t. p = start_tag t) [''p'', ''ul'', ''ol''] of
        Some t \<Rightarrow> Some (True, t)
      | None \<Rightarrow>
     (case find (\<lambda>t. p = end_tag t) ([''p'', ''ul'', ''ol''] @ heading_tags) of
        Some t \<Rightarrow> Some (False, t)
      | None \<Rightarrow>
     (case find (\<lambda>t. starts_with (''<'' @ t @ '' xml:id='') p) heading_tags of
        Some t \<Rightarrow> Some (True, t)
      | None \<Rightarrow>
          if p = program_start then Some (True, ''program'')
          else if p = program_end then Some (False, ''program'') else None)))"

text \<open>The elements that are open behind a list of pieces; \<open>None\<close> if one is closed out of order.\<close>

fun nest :: "string list \<Rightarrow> string list \<Rightarrow> string list option" where
  "nest opened [] = Some opened"
| "nest opened (p # ps) =
     (case tag_event p of
        None \<Rightarrow> nest opened ps
      | Some (True, t) \<Rightarrow> nest (t # opened) ps
      | Some (False, t) \<Rightarrow> (case opened of [] \<Rightarrow> None | u # us \<Rightarrow> if u = t then nest us ps else None))"

lemma nest_append: "nest opened (a @ b) = (case nest opened a of None \<Rightarrow> None | Some o' \<Rightarrow> nest o' b)"
  by (induction opened a rule: nest.induct) (auto split: option.split list.split bool.split)

lemma tag_events:
  "tag_event (start_tag ''p'') = Some (True, ''p'')" "tag_event (start_tag ''ul'') = Some (True, ''ul'')"
  "tag_event (start_tag ''ol'') = Some (True, ''ol'')" "tag_event (end_tag ''p'') = Some (False, ''p'')"
  "tag_event (end_tag ''ul'') = Some (False, ''ul'')" "tag_event (end_tag ''ol'') = Some (False, ''ol'')"
  "tag_event (end_tag ''chapter'') = Some (False, ''chapter'')" "tag_event (end_tag ''section'') = Some (False, ''section'')"
  "tag_event (end_tag ''subsection'') = Some (False, ''subsection'')" "tag_event program_start = Some (True, ''program'')"
  "tag_event program_end = Some (False, ''program'')"
  by code_simp+

lemma tag_event_heading: "t \<in> set heading_tags \<Longrightarrow> tag_event (open_heading t rand) = Some (True, t)"
proof -
  have e: "tag_event (CHR ''<'' # t @ '' xml:id='' @ w) = Some (True, t)"
    if "t \<in> {''chapter'', ''section'', ''subsection''}" for t w
  proof -
    have "find (\<lambda>u. CHR ''<'' # t @ '' xml:id='' @ w = start_tag u) [''p'', ''ul'', ''ol''] = None"
      "find (\<lambda>u. CHR ''<'' # t @ '' xml:id='' @ w = end_tag u) ([''p'', ''ul'', ''ol''] @ heading_tags) = None"
      "find (\<lambda>u. starts_with (''<'' @ u @ '' xml:id='') (CHR ''<'' # t @ '' xml:id='' @ w)) heading_tags = Some t"
      using that by (elim insertE; simp add: start_tag_def end_tag_def heading_tags_def)+
    then show ?thesis unfolding tag_event_def by (simp only: option.case)
  qed
  assume "t \<in> set heading_tags"
  then show ?thesis using e [of t] by (simp add: open_heading_def heading_tags_def)
qed

lemma tag_event_text: "\<not> prefix ''<'' p \<Longrightarrow> tag_event p = None"
proof -
  assume p: "\<not> prefix ''<'' p"
  have "find (\<lambda>t. p = start_tag t) xs = None" "find (\<lambda>t. p = end_tag t) xs = None"
    "find (\<lambda>t. starts_with (''<'' @ t @ '' xml:id='') p) xs = None" for xs
    using p by (auto simp: find_None_iff start_tag_def end_tag_def prefix_def)
  moreover have "p \<noteq> program_start" "p \<noteq> program_end" using p by (auto simp: program_start_def program_end_def)
  ultimately show ?thesis unfolding tag_event_def by (simp only: option.case if_False)
qed

lemma tag_event_plain: "tag_event (title_piece t) = None" "tag_event (item_piece t) = None" "tag_event '' '' = None"
  by (simp_all add: title_piece_def item_piece_def tag_event_text)

lemma tag_event_escape: "tag_event (escapeXml t) = None"
proof (rule tag_event_text, rule notI)
  assume "prefix ''<'' (escapeXml t)"
  then have "CHR ''<'' \<in> set (escapeXml t)" by (auto simp: prefix_def)
  then show False using escape_no_tag by blast
qed

lemma tag_event_math: "tag_event (replaceMathDelimiters t) = None"
proof (cases "replaceMathDelimiters t")
  case (Cons x w)
  show ?thesis
  proof (cases "x = CHR ''<''")
    case True
    then have "\<exists>g \<in> set math_tags. prefix g (replaceMathDelimiters t)" using math_tags_only [of t] Cons by simp
    then show ?thesis
      by (auto simp: math_tags_def tag_event_def heading_tags_def start_tag_def end_tag_def program_start_def program_end_def
          prefix_def)
  qed (use Cons in \<open>auto intro!: tag_event_text\<close>)
qed (auto intro!: tag_event_text)

text \<open>The elements a state has open, the innermost first.\<close>

definition opened :: "import_state \<Rightarrow> string list" where
  "opened st = (if im_paragraph st then [''p''] else []) @ (case im_list st of None \<Rightarrow> [] | Some t \<Rightarrow> [t]) @ im_stack st"

definition import_inv :: "import_state \<Rightarrow> bool" where
  "import_inv st =
     (nest [] (im_output st) = Some (opened st) \<and> im_list st \<in> {None, Some ''ul'', Some ''ol''}
      \<and> (im_paragraph st \<longrightarrow> im_list st = None) \<and> set (im_stack st) \<subseteq> set heading_tags)"

lemma close_paragraph_inv:
  assumes "import_inv st"
  shows "import_inv (closeParagraph st)" and "\<not> im_paragraph (closeParagraph st)"
    and "im_stack (closeParagraph st) = im_stack st" and "im_list (closeParagraph st) = im_list st"
  using assms by (auto simp: closeParagraph_def import_inv_def opened_def emit_def nest_append tag_events)

lemma close_list_inv:
  assumes "import_inv st"
  shows "import_inv (closeList st)" and "im_list (closeList st) = None" and "im_stack (closeList st) = im_stack st"
    and "\<not> im_paragraph st \<Longrightarrow> \<not> im_paragraph (closeList st)"
  using assms
  by (auto simp: closeList_def closeParagraph_def import_inv_def opened_def emit_def nest_append tag_events split: option.split)

lemma close_open_inv:
  assumes "import_inv st" and "im_stack st = tags" and "\<not> im_paragraph st" and "im_list st = None"
  shows "import_inv (close_open tags n st) \<and> \<not> im_paragraph (close_open tags n st) \<and> im_list (close_open tags n st) = None
         \<and> (n = 1 \<longrightarrow> im_stack (close_open tags n st) = [])"
  using assms
proof (induction tags n st rule: close_open.induct)
  case (2 tag tags n st)
  have same: "closeList (closeParagraph st) = st" using 2(4,5) by (simp add: closeList_def closeParagraph_def)
  let ?st = "(emit (end_tag tag) st)\<lparr>im_stack := tags\<rparr>"
  have "tag_event (end_tag tag) = Some (False, tag)"
    using 2(2,3) tag_events by (auto simp: import_inv_def heading_tags_def)
  then have "import_inv ?st" using 2(2-5) by (auto simp: import_inv_def opened_def emit_def nest_append)
  with 2 show ?case by (auto simp: same emit_def)
qed auto

lemma close_headers_inv:
  assumes "import_inv st" and "\<not> im_paragraph st" and "im_list st = None"
  shows "import_inv (closeHeaderTags n st)" and "\<not> im_paragraph (closeHeaderTags n st)" and "im_list (closeHeaderTags n st) = None"
    and "n = 1 \<Longrightarrow> im_stack (closeHeaderTags n st) = []"
  using close_open_inv [OF assms(1) refl assms(2,3)] by (simp_all add: closeHeaderTags_def)

lemma emit_inv: "import_inv st \<Longrightarrow> tag_event p = None \<Longrightarrow> import_inv (emit p st)"
  by (simp add: import_inv_def opened_def emit_def nest_append)

lemma plain_line_inv:
  assumes "import_inv st"
  shows "import_inv (plain_line rnd line st)"
proof (cases "line_kind line")
  case Blank
  then show ?thesis using close_paragraph_inv [OF assms] by (simp add: plain_line_def)
next
  case (Heading level t)
  let ?st1 = "closeHeaderTags level (closeList (closeParagraph st))"
  note cp = close_paragraph_inv [OF assms]
  note cl = close_list_inv [OF cp(1)]
  note ch = close_headers_inv [OF cl(1) cl(4) [OF cp(2)] cl(2), of level]
  have tag: "heading_tag level \<in> set heading_tags" by (simp add: heading_tag_def heading_tags_def)
  have "import_inv ((emit (open_heading (heading_tag level) r) ?st1)\<lparr>im_stack := heading_tag level # im_stack ?st1\<rparr>)" for r
    using ch tag tag_event_heading [OF tag] by (auto simp: import_inv_def opened_def emit_def nest_append)
  from emit_inv [OF this tag_event_plain(1)] show ?thesis
    by (simp add: plain_line_def Heading Let_def emit_def import_inv_def opened_def)
next
  case (Item list_type t)
  then have lt: "list_type \<in> {''ul'', ''ol''}" by (auto simp: line_kind_def split: if_splits option.splits)
  note cp = close_paragraph_inv [OF assms]
  note cl = close_list_inv [OF cp(1)]
  have "import_inv (open_list list_type (closeParagraph st))"
    using cp cl cl(4) [OF cp(2)] lt by (auto simp: open_list_def import_inv_def opened_def emit_def nest_append tag_events)
  from emit_inv [OF this tag_event_plain(2)] show ?thesis by (simp add: plain_line_def Item)
next
  case (Prose t)
  note cl = close_list_inv [OF assms]
  have "import_inv (if im_paragraph (closeList st) then emit '' '' (closeList st)
      else (emit (start_tag ''p'') (closeList st))\<lparr>im_paragraph := True\<rparr>)"
    using cl tag_event_plain(3) by (auto simp: import_inv_def opened_def emit_def nest_append tag_events)
  from emit_inv [OF this tag_event_math] show ?thesis by (simp add: plain_line_def Prose Let_def)
qed

lemma import_line_inv:
  assumes "import_inv st"
  shows "import_inv (import_line rnd rawLine st)"
proof -
  note cp = close_paragraph_inv [OF assms]
  note cl = close_list_inv [OF cp(1)]
  have code: "import_inv (emit program_end (emit (escapeXml c) (emit program_start st)))" for c
    using assms by (auto simp: import_inv_def opened_def emit_def nest_append tag_events tag_event_escape)
  have field: "import_inv (s\<lparr>im_code := b\<rparr>) = import_inv s" "import_inv (s\<lparr>im_codeLines := ls\<rparr>) = import_inv s" for s b ls
    by (simp_all add: import_inv_def opened_def)
  show ?thesis using assms cl(1) code plain_line_inv [OF assms] by (simp add: import_line_def Let_def field)
qed

text \<open>
  Whatever the imported Markdown is, the block elements of the result are well nested: read piece by piece,
  every end tag closes the element opened last, and nothing is left open.
\<close>

theorem import_well_nested:
  "nest [] (import_pieces rnd markdown) = Some []"
proof -
  have "import_inv (fold (import_line rnd) ls st)" if "import_inv st" for ls st
    using that by (induction ls arbitrary: st) (simp_all add: import_line_inv)
  moreover have "import_inv import_start" by (simp add: import_inv_def import_start_def opened_def)
  ultimately have inv: "import_inv (fold (import_line rnd) ls import_start)" for ls by blast
  note cp = close_paragraph_inv [OF inv]
  note cl = close_list_inv [OF cp(1)]
  note ch = close_headers_inv [OF cl(1) cl(4) [OF cp(2)] cl(2), of 1]
  from ch(1) [unfolded import_inv_def] ch(2-4) show ?thesis by (simp add: import_pieces_def opened_def)
qed

section \<open>The whole result is inert\<close>

text \<open>A piece in which every \<open><\<close> begins a tag of the import and every \<open>&\<close> an entity.\<close>

definition inert :: "string \<Rightarrow> bool" where
  "inert p = (all_start (CHR ''<'') (math_tags @ block_tags) p \<and> all_start (CHR ''&'') entities p)"

lemma inert_append: "inert a \<Longrightarrow> inert b \<Longrightarrow> inert (a @ b)"
  by (simp add: inert_def all_start_append)

lemma inert_tags:
  "t \<in> {''p'', ''ul'', ''ol'', ''title'', ''item'', ''program'', ''input''} \<Longrightarrow> inert (start_tag t)"
  "t \<in> {''p'', ''ul'', ''ol'', ''title'', ''item'', ''program'', ''input''} \<Longrightarrow> inert (end_tag t)"
  "t \<in> set heading_tags \<Longrightarrow> inert (end_tag t)"
proof -
  have "list_all (\<lambda>t. inert (start_tag t) \<and> inert (end_tag t)) [''p'', ''ul'', ''ol'', ''title'', ''item'', ''program'', ''input'']"
    "list_all (\<lambda>t. inert (end_tag t)) heading_tags"
    by code_simp+
  then show
    "t \<in> {''p'', ''ul'', ''ol'', ''title'', ''item'', ''program'', ''input''} \<Longrightarrow> inert (start_tag t)"
    "t \<in> {''p'', ''ul'', ''ol'', ''title'', ''item'', ''program'', ''input''} \<Longrightarrow> inert (end_tag t)"
    "t \<in> set heading_tags \<Longrightarrow> inert (end_tag t)"
    by (auto simp: list_all_iff)
qed

lemma inert_texts: "inert (replaceMathDelimiters t)" "inert (escapeXml t)"
  using all_start_mono [OF math_tags_only, of "math_tags @ block_tags"]
  by (simp_all add: inert_def math_entities_only escape_entities all_start_none [OF escape_no_tag])

lemma inert_plain: "set w \<inter> {CHR ''<'', CHR ''&''} = {} \<Longrightarrow> inert w"
  by (auto simp: inert_def intro!: all_start_none)

lemma inert_pieces:
  "inert (title_piece t)" "inert (item_piece t)" "inert program_start" "inert program_end" "inert '' ''"
proof -
  have e: "title_piece t = ''  '' @ start_tag ''title'' @ replaceMathDelimiters t @ end_tag ''title''"
    "item_piece t = ''  '' @ start_tag ''item'' @ start_tag ''p'' @ replaceMathDelimiters t @ end_tag ''p'' @ end_tag ''item''"
    "program_start = start_tag ''program'' @ start_tag ''input''"
    "program_end = end_tag ''input'' @ end_tag ''program''"
    by (simp_all add: title_piece_def item_piece_def program_start_def program_end_def start_tag_def end_tag_def)
  show "inert (title_piece t)" "inert (item_piece t)" "inert program_start" "inert program_end"
    unfolding e by (intro inert_append inert_texts inert_tags inert_plain; simp)+
qed (simp add: inert_plain)

lemma inert_tag:
  assumes "g \<in> set (math_tags @ block_tags)" and "prefix g (CHR ''<'' # w)" and "set w \<inter> {CHR ''<'', CHR ''&''} = {}"
  shows "inert (CHR ''<'' # w)"
  using assms by (auto simp: inert_def simp del: set_append intro!: all_start_none)

lemma inert_heading:
  assumes "t \<in> set heading_tags" and "set r \<inter> {CHR ''<'', CHR ''&''} = {}"
  shows "inert (open_heading t r)"
proof -
  let ?head = "\<lambda>t. '' xml:id='' @ [CHR 0x22] @ ''imported-'' @ t @ ''-''" and ?tail = "r @ [CHR 0x22] @ ''>''"
  have tag: "''<'' @ t @ ?head t \<in> set (math_tags @ block_tags)"
    using assms(1) by (auto simp: heading_tags_def block_tags_def)
  have none: "set (t @ ?head t @ ?tail) \<inter> {CHR ''<'', CHR ''&''} = {}" using assms by (auto simp: heading_tags_def)
  have "open_heading t r = CHR ''<'' # t @ ?head t @ ?tail" by (simp add: open_heading_def)
  moreover have "inert (CHR ''<'' # t @ ?head t @ ?tail)"
    using none by (intro inert_tag [OF tag]) auto
  ultimately show ?thesis by simp
qed

definition inert_output :: "import_state \<Rightarrow> bool" where
  "inert_output st = (\<forall>p \<in> set (im_output st). inert p)"

lemma inert_emit: "inert_output (emit p st) \<longleftrightarrow> inert_output st \<and> inert p"
  by (auto simp: inert_output_def emit_def)

lemma inert_fields [simp]:
  "inert_output (st\<lparr>im_paragraph := a\<rparr>) = inert_output st" "inert_output (st\<lparr>im_list := b\<rparr>) = inert_output st"
  "inert_output (st\<lparr>im_stack := c\<rparr>) = inert_output st" "inert_output (st\<lparr>im_code := d\<rparr>) = inert_output st"
  "inert_output (st\<lparr>im_codeLines := e\<rparr>) = inert_output st"
  by (simp_all add: inert_output_def)

lemma inert_close_paragraph: "inert_output st \<Longrightarrow> inert_output (closeParagraph st)"
  by (simp add: closeParagraph_def inert_emit inert_tags)

lemma inert_close_list: "inert_output st \<Longrightarrow> import_inv st \<Longrightarrow> inert_output (closeList st)"
  by (auto simp: closeList_def inert_emit inert_close_paragraph inert_tags import_inv_def)

lemma inert_close_open:
  "inert_output st \<Longrightarrow> set tags \<subseteq> set heading_tags \<Longrightarrow> \<not> im_paragraph st \<Longrightarrow> im_list st = None
   \<Longrightarrow> inert_output (close_open tags n st)"
proof (induction tags n st rule: close_open.induct)
  case (2 tag tags n st)
  have "closeList (closeParagraph st) = st" using 2(4,5) by (simp add: closeList_def closeParagraph_def)
  moreover have "inert_output (emit (end_tag tag) st)" using 2(2,3) by (simp add: inert_emit inert_tags)
  ultimately show ?case using 2 by (simp add: emit_def)
qed simp

lemma inert_close_headers:
  "inert_output st \<Longrightarrow> import_inv st \<Longrightarrow> \<not> im_paragraph st \<Longrightarrow> im_list st = None \<Longrightarrow> inert_output (closeHeaderTags n st)"
  unfolding closeHeaderTags_def import_inv_def by (intro inert_close_open) auto

lemma inert_plain_line:
  assumes "inert_output st" and "import_inv st" and "\<forall>n. set (rnd n) \<inter> {CHR ''<'', CHR ''&''} = {}"
  shows "inert_output (plain_line rnd line st)"
proof (cases "line_kind line")
  case Blank
  then show ?thesis using assms(1) by (simp add: plain_line_def inert_close_paragraph)
next
  case (Heading level t)
  note cp = close_paragraph_inv [OF assms(2)]
  note cl = close_list_inv [OF cp(1)]
  have "inert_output (closeHeaderTags level (closeList (closeParagraph st)))"
    using assms(1) cp(1,2) cl(1,2) cl(4) [OF cp(2)]
    by (intro inert_close_headers inert_close_list inert_close_paragraph) auto
  moreover have "heading_tag level \<in> set heading_tags" by (simp add: heading_tag_def heading_tags_def)
  ultimately show ?thesis
    using assms(3) by (simp add: plain_line_def Heading Let_def inert_emit inert_pieces inert_heading)
next
  case (Item list_type t)
  then have "list_type \<in> {''ul'', ''ol''}" by (auto simp: line_kind_def split: if_splits option.splits)
  moreover note close_paragraph_inv(1) [OF assms(2)]
  ultimately have "inert_output (open_list list_type (closeParagraph st))"
    using assms(1) by (auto simp: open_list_def inert_emit inert_tags inert_close_list inert_close_paragraph)
  then show ?thesis by (simp add: plain_line_def Item inert_emit inert_pieces)
next
  case (Prose t)
  then show ?thesis
    using inert_close_list [OF assms(1,2)] by (simp add: plain_line_def Let_def inert_emit inert_tags inert_texts inert_pieces)
qed

lemma inert_line:
  assumes "inert_output st" and "import_inv st" and "\<forall>n. set (rnd n) \<inter> {CHR ''<'', CHR ''&''} = {}"
  shows "inert_output (import_line rnd rawLine st)"
  using assms inert_plain_line [OF assms] close_paragraph_inv(1) [OF assms(2)]
  by (simp add: import_line_def Let_def inert_emit inert_texts inert_pieces inert_close_list inert_close_paragraph)

lemma import_lines:
  assumes "\<forall>n. set (rnd n) \<inter> {CHR ''<'', CHR ''&''} = {}"
  shows "import_inv (fold (import_line rnd) ls import_start) \<and> inert_output (fold (import_line rnd) ls import_start)"
proof -
  have "import_inv (fold (import_line rnd) ls st) \<and> inert_output (fold (import_line rnd) ls st)"
    if "import_inv st" "inert_output st" for ls st
    using that by (induction ls arbitrary: st) (simp_all add: import_line_inv inert_line [OF _ _ assms])
  moreover have "import_inv import_start" "inert_output import_start"
    by (simp_all add: import_inv_def import_start_def opened_def inert_output_def)
  ultimately show ?thesis by blast
qed

text \<open>
  Claim C25. No markup of an imported document survives, wherever in the document it stands: every \<open><\<close> of the result
  begins one of the tags that the import writes, and every \<open>&\<close> begins one of the five entities.
\<close>

theorem import_is_inert:
  assumes "\<forall>n. set (rnd n) \<inter> {CHR ''<'', CHR ''&''} = {}"
  shows "all_start (CHR ''<'') (math_tags @ block_tags) (parseMarkdownToPretext rnd markdown)
         \<and> all_start (CHR ''&'') entities (parseMarkdownToPretext rnd markdown)"
proof -
  obtain inv: "import_inv (fold (import_line rnd) ls import_start)"
    and ok: "inert_output (fold (import_line rnd) ls import_start)" for ls
    using import_lines [OF assms] by blast
  note cp = close_paragraph_inv [OF inv]
  note cl = close_list_inv [OF cp(1)]
  have join: "inert (join [newline] ps)" if "\<forall>p \<in> set ps. inert p" for ps
    using that
  proof (induction ps)
    case (Cons p ps)
    have "inert [newline]" by (intro inert_plain) (simp add: newline_def)
    with Cons show ?case by (simp add: join_Cons inert_append [of p] inert_append [of "[newline]", simplified])
  qed (simp add: inert_plain)
  have "\<forall>p \<in> set (import_pieces rnd markdown). inert p"
    using inert_close_headers [OF inert_close_list [OF inert_close_paragraph [OF ok] cp(1)] cl(1) cl(4) [OF cp(2)] cl(2)]
    unfolding import_pieces_def inert_output_def by blast
  from join [OF this] show ?thesis by (simp add: inert_def parseMarkdownToPretext_def)
qed

theorem import_is_inert_witness:
  "all_start (CHR ''<'') (math_tags @ block_tags) (parseMarkdownToPretext (\<lambda>_. ''abc'') ''# <b>'')
   \<and> all_start (CHR ''&'') entities (parseMarkdownToPretext (\<lambda>_. ''abc'') ''# <b>'')"
  using import_is_inert [of "\<lambda>_. ''abc''" "''# <b>''"] by simp

text \<open>
  The pieces nest, but formulas that overlap do not: the four kinds of delimiters are replaced one after the other, and a
  later one may begin outside and end inside an earlier one.
\<close>

lemma overlapping_formulas_mis_nest:
  "replaceMathDelimiters [backslash_char, CHR ''('', CHR ''a'', backslash_char, CHR ''['', CHR ''b'', backslash_char, CHR '')'',
     CHR ''c'', backslash_char, CHR '']''] = ''<m>a<me>b</m>c</me>''"
  by code_simp

text \<open>Lines behind a code fence that is not closed are not in the result.\<close>

lemma unclosed_fence_loses_text:
  "parseMarkdownToPretext rnd (''a'' @ [newline] @ ''```'' @ [newline] @ ''b'') = ''<p>'' @ [newline] @ ''a'' @ [newline] @ ''</p>''"
proof -
  have "import_pieces (\<lambda>_. x) (''a'' @ [newline] @ ''```'' @ [newline] @ ''b'') = [''<p>'', ''a'', ''</p>'']" for x
    by code_simp
  moreover have "import_pieces rnd (''a'' @ [newline] @ ''```'' @ [newline] @ ''b'')
    = import_pieces (\<lambda>_. []) (''a'' @ [newline] @ ''```'' @ [newline] @ ''b'')"
    by code_simp
  ultimately show ?thesis by (simp add: parseMarkdownToPretext_def)
qed

text \<open>
  The depth of the stack is compared with the level of a heading, not the levels of what it holds: behind a level that was
  left out, two headings of the same level do not stand side by side.
\<close>

lemma skipped_level_nests_siblings:
  "import_pieces (\<lambda>_. ''r'') (''# A'' @ [newline] @ ''### B'' @ [newline] @ ''### C'') =
     [open_heading ''chapter'' ''r'', ''  <title>A</title>'', open_heading ''subsection'' ''r'', ''  <title>B</title>'',
      open_heading ''subsection'' ''r'', ''  <title>C</title>'', ''</subsection>'', ''</subsection>'', ''</chapter>'']"
  by code_simp

section \<open>The import of a PDF file\<close>

datatype abort_reason = Import_timeout | Client_abort

text \<open>
  What the code reads of a thrown value: the reason if it is an \<^verbatim>\<open>ImportAbortedError\<close>, its code and
  its name, its message, and the error in the body of the response it carries.
\<close>

record thrown =
  tw_reason :: "abort_reason option"
  tw_code :: "string option"
  tw_name :: "string option"
  tw_message :: string
  tw_response :: "string option"

definition ImportAbortedError :: "abort_reason \<Rightarrow> string \<Rightarrow> thrown" where
  "ImportAbortedError reason message =
     \<lparr>tw_reason = Some reason, tw_code = None, tw_name = Some ''ImportAbortedError'', tw_message = message, tw_response = None\<rparr>"

definition plain_error :: "string \<Rightarrow> thrown" where
  "plain_error message =
     \<lparr>tw_reason = None, tw_code = None, tw_name = Some ''Error'', tw_message = message, tw_response = None\<rparr>"

definition isAbortError :: "thrown \<Rightarrow> bool" where
  "isAbortError e =
     (tw_reason e \<noteq> None \<or> tw_code e = Some ''ERR_CANCELED'' \<or> tw_code e = Some ''ECONNABORTED'' \<or> tw_name e = Some ''CanceledError'')"

text \<open>
  The service: what each request and each delay gives, a value or what is thrown. A status is the state it names and the
  error it carries, if any; the empty error counts as none.
\<close>

record mathpix =
  mx_upload :: "thrown + (string \<times> string option)"
  mx_delay :: "nat \<Rightarrow> thrown + unit"
  mx_status :: "nat \<Rightarrow> thrown + (string \<times> string option)"
  mx_markdown :: "thrown + string"

definition maxAttempts :: nat where "maxAttempts = 60"

definition reported :: "string option \<Rightarrow> bool" where
  "reported e = (e \<noteq> None \<and> e \<noteq> Some [])"

text \<open>The loop from attempt \<open>i\<close> on; the second part of the result is the number of requests it has sent.\<close>

function poll_from :: "mathpix \<Rightarrow> nat \<Rightarrow> (thrown + unit) \<times> nat" where
  "poll_from mx i =
     (if maxAttempts \<le> i then (Inl (plain_error ''MathPix PDF conversion timed out after 2 minutes.''), 0)
      else case mx_delay mx i of
        Inl e \<Rightarrow> (Inl e, 0)
      | Inr _ \<Rightarrow>
          (case mx_status mx i of
             Inl e \<Rightarrow> (Inl e, 1)
           | Inr (status, err) \<Rightarrow>
               if status = ''completed'' then (Inr (), 1)
               else if status = ''fail'' \<or> reported err then
                 (Inl (plain_error (''MathPix conversion failed: '' @ (if reported err then the err else ''unknown error''))), 1)
               else map_prod id Suc (poll_from mx (Suc i))))"
  by pat_completeness auto

termination by (relation "measure (\<lambda>(mx, i). maxAttempts - i)") auto

declare poll_from.simps [simp del]

definition pollMathPixStatus :: "mathpix \<Rightarrow> (thrown + unit) \<times> nat" where
  "pollMathPixStatus mx = poll_from mx 0"

definition mathpix_failure :: "thrown \<Rightarrow> thrown" where
  "mathpix_failure e =
     (if isAbortError e then e
      else plain_error (''MathPix OCR failed: '' @
        (if reported (tw_response e) then the (tw_response e) else tw_message e)))"

text \<open>\<open>name\<close> is the upper-cased file name.\<close>

definition getMockPretextContent :: "string \<Rightarrow> string" where
  "getMockPretextContent name = join [newline]
     [''<!-- MOCK IMPORT RESULTS FOR '' @ name @ '' -->'',
      ''<chapter xml:id='' @ [CHR 0x22] @ ''imported-chapter-eigenvalues'' @ [CHR 0x22] @ ''>'',
      ''  <title>Eigenvalues and Eigenvectors</title>'',
      ''  '',
      ''  <p>'',
      ''    Let <m>A</m> be an <m>n '' @ [backslash_char] @ ''times n</m> matrix. A scalar <m>'' @ [backslash_char] @ ''lambda</m> is called an <term>eigenvalue</term> of <m>A</m> if there is a non-zero vector <m>x</m> such that:'',
      ''  </p>'',
      ''  '',
      ''  <me>Ax = '' @ [backslash_char] @ ''lambda x</me>'',
      ''  '',
      ''  <p>'',
      ''    The vector <m>x</m> is called an <term>eigenvector</term> corresponding to the eigenvalue <m>'' @ [backslash_char] @ ''lambda</m>. Note that eigenvectors must be non-zero by definition, whereas eigenvalues can be zero.'',
      ''  </p>'',
      ''  '',
      ''  <section xml:id='' @ [CHR 0x22] @ ''imported-section-characteristic-eq'' @ [CHR 0x22] @ ''>'',
      ''    <title>The Characteristic Equation</title>'',
      ''    '',
      ''    <p>'',
      ''      To find eigenvalues of a matrix, we solve the characteristic equation. We can rewrite the eigenvalue equation as:'',
      ''    </p>'',
      ''    '',
      ''    <me>(A - '' @ [backslash_char] @ ''lambda I)x = 0</me>'',
      ''    '',
      ''    <p>'',
      ''      Since <m>x '' @ [backslash_char] @ ''neq 0</m>, the matrix <m>A - '' @ [backslash_char] @ ''lambda I</m> must be non-invertible, which means its determinant must be zero. This gives us the characteristic equation:'',
      ''    </p>'',
      ''    '',
      ''    <me>'' @ [backslash_char] @ ''det(A - '' @ [backslash_char] @ ''lambda I) = 0</me>'',
      ''    '',
      ''    <p>'',
      ''      Let's look at the eigenvalues of this 2x2 matrix:'',
      ''    </p>'',
      ''    '',
      ''    <program><input>'',
      ''A = [[4, 2],'',
      ''     [1, 3]]'',
      ''    </input></program>'',
      ''    '',
      ''    <p>'',
      ''      Here are the steps to find eigenvalues and eigenvectors:'',
      ''    </p>'',
      ''    '',
      ''    <ul>'',
      ''      <item><p>Subtract <m>'' @ [backslash_char] @ ''lambda</m> from diagonal elements: <m>A - '' @ [backslash_char] @ ''lambda I</m></p></item>'',
      ''      <item><p>Compute the determinant: det<m>(A - '' @ [backslash_char] @ ''lambda I)</m></p></item>'',
      ''      <item><p>Solve the quadratic polynomial for <m>'' @ [backslash_char] @ ''lambda</m></p></item>'',
      ''      <item><p>Find eigenvectors by computing the nullspace of <m>A - '' @ [backslash_char] @ ''lambda I</m></p></item>'',
      ''    </ul>'',
      ''  </section>'',
      ''</chapter>'']"

text \<open>
  The run: \<open>keys\<close> says whether credentials are configured, \<open>upper\<close> is the case mapping of the language and
  \<open>wait\<close> what the delay before it gives.
\<close>

definition runImport ::
  "bool \<Rightarrow> (string \<Rightarrow> string) \<Rightarrow> thrown + unit \<Rightarrow> mathpix \<Rightarrow> (nat \<Rightarrow> string) \<Rightarrow> string \<Rightarrow> thrown + string" where
  "runImport keys upper wait mx rnd fileName =
     (if \<not> keys then (case wait of Inl e \<Rightarrow> Inl e | Inr _ \<Rightarrow> Inr (getMockPretextContent (upper fileName)))
      else case mx_upload mx of
        Inl e \<Rightarrow> Inl (mathpix_failure e)
      | Inr (pdfId, err) \<Rightarrow>
          if reported err then Inl (mathpix_failure (plain_error (the err)))
          else (case fst (pollMathPixStatus mx) of
              Inl e \<Rightarrow> Inl (mathpix_failure e)
            | Inr _ \<Rightarrow>
                (case mx_markdown mx of
                   Inl e \<Rightarrow> Inl (mathpix_failure e)
                 | Inr markdown \<Rightarrow> Inr (parseMarkdownToPretext rnd markdown))))"

text \<open>The messages carry the limits, in seconds; \<open>callerAborted\<close> and \<open>timedOut\<close> are the flags when an error is caught.\<close>

definition importPdf :: "string \<Rightarrow> string \<Rightarrow> bool \<Rightarrow> bool \<Rightarrow> thrown + string \<Rightarrow> thrown + string" where
  "importPdf budget perRequest callerAborted timedOut run =
     (case run of
        Inr x \<Rightarrow> Inr x
      | Inl e \<Rightarrow> Inl
          (if callerAborted then ImportAbortedError Client_abort ''PDF import cancelled''
           else if timedOut then ImportAbortedError Import_timeout (''PDF import exceeded the '' @ budget @ ''s limit'')
           else if isAbortError e
             then ImportAbortedError Import_timeout (''A MathPix request exceeded the '' @ perRequest @ ''s per-request limit'')
           else e))"

text \<open>
  The handler: the answer, if one is sent, as its status and what it says. \<open>ended\<close> is
  \<^verbatim>\<open>res.writableEnded\<close>, \<open>clientAborted\<close> whether the connection was closed before.
\<close>

datatype import_reply = Bad_request string | Converted string "bool option" | Timed_out string | Import_failed string

definition reply_status :: "import_reply \<Rightarrow> nat" where
  "reply_status r = (case r of Bad_request _ \<Rightarrow> 400 | Converted _ _ \<Rightarrow> 200 | Timed_out _ \<Rightarrow> 504 | Import_failed _ \<Rightarrow> 500)"

definition importPdf_handler :: "bool \<Rightarrow> bool \<Rightarrow> bool \<Rightarrow> bool \<Rightarrow> thrown + string \<Rightarrow> import_reply option" where
  "importPdf_handler has_file clientAborted ended keys result =
     (if \<not> has_file then Some (Bad_request ''No PDF file uploaded'')
      else case result of
        Inr pretext \<Rightarrow> if ended then None else Some (Converted pretext (Some keys))
      | Inl e \<Rightarrow>
          if clientAborted \<or> ended then None
          else if tw_reason e = Some Import_timeout then Some (Timed_out (tw_message e))
          else Some (Import_failed (tw_message e)))"

definition importText_handler :: "(nat \<Rightarrow> string) \<Rightarrow> string option \<Rightarrow> import_reply" where
  "importText_handler rnd content =
     (case content of
        None \<Rightarrow> Bad_request ''Missing or empty text content''
      | Some c \<Rightarrow> if trim c = [] then Bad_request ''Missing or empty text content'' else Converted (parseMarkdownToPretext rnd c) None)"

text \<open>The attempts before the \<open>n\<close>-th left the conversion pending.\<close>

definition pending_at :: "mathpix \<Rightarrow> nat \<Rightarrow> bool" where
  "pending_at mx i =
     (mx_delay mx i = Inr () \<and>
      (\<exists>status err. mx_status mx i = Inr (status, err) \<and> status \<notin> {''completed'', ''fail''} \<and> \<not> reported err))"

definition completed_at :: "mathpix \<Rightarrow> nat \<Rightarrow> bool" where
  "completed_at mx i = (mx_delay mx i = Inr () \<and> (\<exists>err. mx_status mx i = Inr (''completed'', err)))"

lemma poll_from_completes:
  "fst (poll_from mx i) = Inr () \<longleftrightarrow> (\<exists>n. i \<le> n \<and> n < maxAttempts \<and> completed_at mx n \<and> (\<forall>j. i \<le> j \<and> j < n \<longrightarrow> pending_at mx j))"
proof (induction mx i rule: poll_from.induct)
  case (1 mx i)
  let ?R = "\<lambda>i. \<exists>n. i \<le> n \<and> n < maxAttempts \<and> completed_at mx n \<and> (\<forall>j. i \<le> j \<and> j < n \<longrightarrow> pending_at mx j)"
  have step: "?R i \<longleftrightarrow> i < maxAttempts \<and> (completed_at mx i \<or> pending_at mx i \<and> ?R (Suc i))"
  proof
    assume "?R i"
    then obtain n where n: "i \<le> n" "n < maxAttempts" "completed_at mx n" "\<forall>j. i \<le> j \<and> j < n \<longrightarrow> pending_at mx j" by blast
    show "i < maxAttempts \<and> (completed_at mx i \<or> pending_at mx i \<and> ?R (Suc i))"
    proof (cases "i = n")
      case False
      with n(1) have "Suc i \<le> n" by simp
      moreover have "pending_at mx i" using n(1,4) False by simp
      ultimately show ?thesis using n by (intro conjI disjI2 exI [of _ n]) auto
    qed (use n in simp)
  next
    assume a: "i < maxAttempts \<and> (completed_at mx i \<or> pending_at mx i \<and> ?R (Suc i))"
    show "?R i"
    proof (cases "completed_at mx i")
      case False
      with a obtain n where "Suc i \<le> n" "n < maxAttempts" "completed_at mx n" "\<forall>j. Suc i \<le> j \<and> j < n \<longrightarrow> pending_at mx j"
        "pending_at mx i" by blast
      moreover from this have "pending_at mx j" if "i \<le> j" "j < n" for j using that by (cases "j = i") auto
      ultimately show ?thesis by (meson Suc_leD)
    qed (use a in auto)
  qed
  show ?case
  proof (cases "pending_at mx i \<and> i < maxAttempts")
    case True
    then obtain status err where s: "mx_delay mx i = Inr ()" "mx_status mx i = Inr (status, err)"
      "status \<notin> {''completed'', ''fail''}" "\<not> reported err" by (auto simp: pending_at_def)
    then have "poll_from mx i = map_prod id Suc (poll_from mx (Suc i))"
      using True by (subst poll_from.simps) simp
    moreover have "fst (poll_from mx (Suc i)) = Inr () \<longleftrightarrow> ?R (Suc i)" using 1 True s by auto
    moreover have "\<not> completed_at mx i" using s by (auto simp: completed_at_def)
    ultimately show ?thesis using step True by (simp add: map_prod_def split_beta)
  next
    case False
    then have "fst (poll_from mx i) = Inr () \<longleftrightarrow> i < maxAttempts \<and> completed_at mx i"
      by (subst poll_from.simps) (auto simp: pending_at_def completed_at_def split: sum.split)
    then show ?thesis using step False by blast
  qed
qed

lemma poll_requests: "snd (poll_from mx i) \<le> maxAttempts - i"
proof (induction mx i rule: poll_from.induct)
  case (1 mx i)
  show ?case
    using 1 by (subst poll_from.simps) (fastforce split: sum.split)
qed

text \<open>
  Claim C40. A PDF file is answered with its conversion just when MathPix accepts the upload, one of the first sixty
  questions finds the conversion completed with every earlier one pending, and the result can be fetched. In every other
  case a client that still listens is told 504 if the time ran out or a request was cut off, and 500 otherwise; never more
  than sixty questions are asked.
\<close>

theorem import_answered:
  assumes "\<not> clientAborted" and "\<not> ended"
  shows "let run = runImport True upper wait mx rnd name;
             answer = importPdf_handler True clientAborted ended True (importPdf budget perRequest clientAborted timedOut run)
         in snd (pollMathPixStatus mx) \<le> 60
            \<and> (\<forall>pretext. answer = Some (Converted pretext (Some True)) \<longleftrightarrow>
                 (\<exists>pdfId err. mx_upload mx = Inr (pdfId, err) \<and> \<not> reported err)
                 \<and> (\<exists>n < 60. completed_at mx n \<and> (\<forall>j < n. pending_at mx j))
                 \<and> (\<exists>markdown. mx_markdown mx = Inr markdown \<and> pretext = parseMarkdownToPretext rnd markdown))
            \<and> (\<forall>e. run = Inl e \<longrightarrow>
                 map_option reply_status answer = Some (if timedOut \<or> isAbortError e then 504 else 500))"
proof -
  have "fst (pollMathPixStatus mx) = Inr () \<longleftrightarrow> (\<exists>n < 60. completed_at mx n \<and> (\<forall>j < n. pending_at mx j))"
    using poll_from_completes [of mx 0] by (simp add: pollMathPixStatus_def maxAttempts_def)
  moreover have "snd (pollMathPixStatus mx) \<le> 60"
    using poll_requests [of mx 0] by (simp add: pollMathPixStatus_def maxAttempts_def)
  moreover have "runImport True upper wait mx rnd name = Inr pretext \<longleftrightarrow>
      (\<exists>pdfId err. mx_upload mx = Inr (pdfId, err) \<and> \<not> reported err) \<and> fst (pollMathPixStatus mx) = Inr ()
      \<and> (\<exists>markdown. mx_markdown mx = Inr markdown \<and> pretext = parseMarkdownToPretext rnd markdown)" for pretext
    by (auto simp: runImport_def split: sum.split)
  moreover have "importPdf_handler True clientAborted ended True (importPdf budget perRequest clientAborted timedOut run)
      = Some (Converted pretext (Some True)) \<longleftrightarrow> run = Inr pretext" for run pretext
    using assms by (auto simp: importPdf_handler_def importPdf_def split: sum.split)
  moreover have "map_option reply_status
      (importPdf_handler True clientAborted ended True (importPdf budget perRequest clientAborted timedOut (Inl e)))
      = Some (if timedOut \<or> isAbortError e then 504 else 500)" for e
    using assms by (auto simp: importPdf_handler_def importPdf_def reply_status_def ImportAbortedError_def isAbortError_def)
  ultimately show ?thesis by (simp add: Let_def)
qed

definition sample_mathpix :: mathpix where
  "sample_mathpix = \<lparr>mx_upload = Inr (''id'', None), mx_delay = (\<lambda>_. Inr ()),
     mx_status = (\<lambda>i. Inr (if i = 1 then ''completed'' else ''split'', None)), mx_markdown = Inr ''# A''\<rparr>"

theorem import_answered_witness:
  "importPdf_handler True False False True
     (importPdf ''60'' ''20'' False False (runImport True id (Inr ()) sample_mathpix (\<lambda>_. ''r'') ''a.pdf''))
   = Some (Converted (parseMarkdownToPretext (\<lambda>_. ''r'') ''# A'') (Some True))"
proof -
  have "mx_upload sample_mathpix = Inr (''id'', None)" "mx_markdown sample_mathpix = Inr ''# A''" "\<not> reported None"
    "completed_at sample_mathpix 1" "\<forall>j < 1. pending_at sample_mathpix j"
    by (auto simp: sample_mathpix_def completed_at_def pending_at_def reported_def)
  then have "(\<exists>pdfId err. mx_upload sample_mathpix = Inr (pdfId, err) \<and> \<not> reported err)"
    "\<exists>n < 60. completed_at sample_mathpix n \<and> (\<forall>j < n. pending_at sample_mathpix j)"
    by (auto intro!: exI [of _ "1::nat"])
  then show ?thesis
    using import_answered [of False False id "Inr ()" sample_mathpix "\<lambda>_. ''r''" "''a.pdf''" "''60''" "''20''" False]
    by (simp add: Let_def sample_mathpix_def)
qed

text \<open>The file name stands as it is in a comment of the sample result, and can close the comment.\<close>

lemma mock_comment_can_be_closed:
  "prefix (''<!-- MOCK IMPORT RESULTS FOR --><B/>'' @ '' -->'') (getMockPretextContent ''--><B/>'')"
  by (simp add: getMockPretextContent_def)

end
