(* ===== verification/HttpApi.thy ===== *)
theory HttpApi imports RateLimiter RepoIdentifier PreviewTransform WorkspaceFiles BuildLogs TeamSessions begin

text \<open>
  The HTTP interface: \<^verbatim>\<open>backend/src/routes/*.routes.ts\<close> with the handlers of
  \<^verbatim>\<open>backend/src/controllers/build.controller.ts\<close>, \<^verbatim>\<open>workspace.controller.ts\<close> and
  \<^verbatim>\<open>repository.controller.ts\<close>.

  A handler is a tree: an answer, or a call of a service and a handler for each result of the call. The services are
  modelled in their own theories; here their results are open. \<open>routes\<close> is the table of the routers in the order of
  registration, \<open>dispatch\<close> takes a request through the guards of its route. The matching of a path against a pattern
  belongs to Express and is a parameter.

  The theorems say which calls a request can cause at all, whatever the services answer: who may act on a build session,
  and what is left to a request without a token.
\<close>

section \<open>Requests, answers, calls\<close>

record api_request =
  ar_method :: string
  ar_path :: string
  ar_request :: request
  ar_ip :: string
  ar_params :: "string \<Rightarrow> string"
  ar_query :: jsval
  ar_body :: jsval

text \<open>What a handler reads of a build session.\<close>

record api_session =
  as_access :: build_owner
  as_owner :: string
  as_repo :: string
  as_repoPath :: string
  as_outputPath :: string
  as_pdfReady :: bool
  as_previewPath :: string

text \<open>The operations on a workspace, and on the build of a session.\<close>

datatype workspace_op =
    EnsureGitReady
  | WorkspaceTree string
  | FileContent string
  | WriteFile string jsval
  | ReadMarkers
  | SaveMarkers jsval
  | SearchFiles string
  | GitStatus
  | GitDiff string
  | StageFile string
  | UnstageFile string
  | StageAll
  | UnstageAll
  | CommitChanges jsval
  | SaveDraft jsval
  | PullBranch string
  | PushBranch string
  | SwitchBranch jsval string
  | CreatePull jsval string
  | CommitHistory
  | CommitFileDiff string string
  | RollbackFile string string

datatype build_op =
    StartBuild jsval
  | ServeArtifact string
  | ExportZip
  | BuildPdf
  | PdfAccess string
  | SendPdf string
  | FollowLogs
  | ListSnapshots
  | SnapshotHtml string
  | CreateShare string string jsval
  | ExplainError
  | ExplainFeedback

text \<open>The calls of services; the operations on a session carry its identifier.\<close>

datatype service_call =
    Workspace string workspace_op
  | Build string build_op
  | UpdateFile jsval jsval jsval jsval
  | CleanupSession jsval
  | PrepareWorkspace jsval jsval string bool jsval jsval
  | StartPrewarm string string string
  | GithubRepo string string string
  | GithubList string
  | GithubSearch string string
  | GithubBranches string string string
  | BuildInitAllowed string
  | RepoSearchAllowed string
  | SharedLookup string
  | SharedFile string string
  | RecordEvent
  | ReadEvents jsval
  | Readiness bool
  | GithubUser string
  | ReadMetrics
  | TeamCreate
  | TeamLookup string
  | ImportPdfFile
  | ImportMarkdown

text \<open>The result of a call: a value, or a thrown error with its message and its status, if it has one.\<close>

type_synonym answer_of_call = "(string \<times> nat option) + jsval"

datatype api = Respond nat jsval | Call service_call "answer_of_call \<Rightarrow> api"

record api_env =
  ae_env :: env
  ae_sessions :: "string \<Rightarrow> api_session option"
  ae_cached :: "string \<Rightarrow> string option"
  ae_cache_entries :: "(string \<times> string option \<times> string \<times> string) list"
  ae_pdf_building :: "string \<Rightarrow> bool"
  ae_explainer :: bool
  ae_upload :: "api_request \<Rightarrow> (nat \<times> string) option"
  ae_match :: "string \<Rightarrow> string \<Rightarrow> (string \<Rightarrow> string) option"
  ae_blocks :: preview_blocks

type_synonym handler = "api_env \<Rightarrow> api_request \<Rightarrow> api"

definition fail_with :: "nat \<Rightarrow> string \<Rightarrow> api" where
  "fail_with n message = Respond n (JObj [(''error'', JStr message)])"

text \<open>\<^verbatim>\<open>try { res.json(await call) } catch \<dots>\<close>, the status of an error by its message.\<close>

definition reply_with :: "(string \<Rightarrow> nat) \<Rightarrow> (jsval \<Rightarrow> jsval) \<Rightarrow> answer_of_call \<Rightarrow> api" where
  "reply_with status body a =
     (case a of Inl (message, _) \<Rightarrow> fail_with (status message) message | Inr v \<Rightarrow> Respond 200 (body v))"

definition missing_or_bad :: "string \<Rightarrow> nat" where
  "missing_or_bad message = (if message = ''Workspace session not found'' then 404 else 400)"

definition always_bad :: "string \<Rightarrow> nat" where "always_bad message = 400"

text \<open>\<^verbatim>\<open>{...v, k: x}\<close>.\<close>

definition js_set :: "jsval \<Rightarrow> string \<Rightarrow> jsval \<Rightarrow> jsval" where
  "js_set v k x = (case v of JObj ps \<Rightarrow> JObj (map_set k x ps) | _ \<Rightarrow> JObj [(k, x)])"

definition js_merge :: "(string \<times> jsval) list \<Rightarrow> jsval \<Rightarrow> jsval" where
  "js_merge ps v = (case v of JObj qs \<Rightarrow> JObj (fold (\<lambda>(k, x). map_set k x) qs ps) | _ \<Rightarrow> JObj ps)"

definition sid_param :: "api_request \<Rightarrow> string" where "sid_param r = ar_params r ''sessionId''"

section \<open>The workspace controller\<close>

text \<open>\<^verbatim>\<open>getWorkspaceSession\<close>, with which every operation on a workspace begins.\<close>

definition getWorkspaceSession :: "api_env \<Rightarrow> jsval \<Rightarrow> string + api_session" where
  "getWorkspaceSession E v =
     (if \<not> assertValidSessionId (string_or_empty v) then Inl ''Invalid session ID''
      else case v of
          JStr sid \<Rightarrow>
            (case ae_sessions E sid of
               None \<Rightarrow> Inl ''Workspace session not found''
             | Some s \<Rightarrow> if as_repoPath s = [] then Inl ''Workspace session not found'' else Inr s)
        | _ \<Rightarrow> Inl ''Workspace session not found'')"

definition on_workspace :: "api_env \<Rightarrow> string \<Rightarrow> workspace_op \<Rightarrow> (answer_of_call \<Rightarrow> api) \<Rightarrow> api" where
  "on_workspace E sid c k =
     (case getWorkspaceSession E (JStr sid) of Inl message \<Rightarrow> k (Inl (message, None)) | Inr _ \<Rightarrow> Call (Workspace sid c) k)"

definition em_dash :: string where "em_dash = [CHR 0xE2, CHR 0x80, CHR 0x94]"

definition not_ready :: api where
  "not_ready = Respond 503 (JObj [(''error'', JStr (''Demo build not ready yet '' @ em_dash @ '' try again in a few minutes.'')), (''building'', JBool True)])"

definition getDemoWorkspace :: handler where
  "getDemoWorkspace E r =
     (let firstRepo = trim (hd (split_on (CHR '','') (str_or (opt_str (ae_env E ''PREWARM_REPOS'')) ''QBobWatson/ila'')))
      in case split_on slash firstRepo of
           [owner, repo] \<Rightarrow>
             if \<not> (REPO_IDENTIFIER_PATTERN owner \<and> REPO_IDENTIFIER_PATTERN repo) then not_ready
             else (case ae_cached E (owner @ [slash] @ repo) of
                 None \<Rightarrow> not_ready
               | Some sid \<Rightarrow> Respond 200 (JObj [(''sessionId'', JStr sid), (''owner'', JStr owner), (''repo'', JStr repo)]))
         | _ \<Rightarrow> not_ready)"

definition identifier_message :: "identifier_error \<Rightarrow> string" where
  "identifier_message e =
     (case e of InvalidRepoIdentifierError f reason \<Rightarrow>
        ''Invalid '' @ (case f of Owner \<Rightarrow> ''owner'' | Repo \<Rightarrow> ''repo'') @ '': '' @
        (case reason of
           MustBeString \<Rightarrow> ''must be a string''
         | MustNotBeEmpty \<Rightarrow> ''must not be empty''
         | MustBeAtMost n \<Rightarrow> ''must be at most '' @ dec_nat n @ '' characters''
         | BadCharacter \<Rightarrow> ''may only contain letters, digits, hyphens, underscores and dots''
         | PathSegment \<Rightarrow> ''must not be a path segment''))"

definition creator_of :: "api_request \<Rightarrow> jsval" where
  "creator_of r = js_or (session_login (ar_request r)) JNull"

definition initWorkspace :: handler where
  "initWorkspace E r =
     (let token = req_accessToken (ar_request r); body = ar_body r;
          owner = get_prop body ''owner''; repo = get_prop body ''repo'';
          failed = (\<lambda>message. fail_with 500 (str_or message ''Failed to prepare workspace''))
      in if \<not> truthy owner \<or> \<not> truthy repo then fail_with 400 ''owner and repo are required''
         else case assertValidRepoIdentifier owner repo of
             Inl e \<Rightarrow> fail_with 400 (identifier_message e)
           | Inr _ \<Rightarrow>
               Call (PrepareWorkspace owner repo token (truthy (get_prop body ''preferSeed''))
                       (js_or (get_prop body ''defaultBranch'') (JStr ''main'')) (creator_of r))
                 (\<lambda>a. case a of
                    Inl (message, _) \<Rightarrow> failed message
                  | Inr workspace \<Rightarrow>
                      let sid = js_String (get_prop workspace ''sessionId'')
                      in Call (Workspace sid EnsureGitReady)
                           (\<lambda>b. case b of
                              Inl (message, _) \<Rightarrow> failed message
                            | Inr _ \<Rightarrow>
                                Call (Workspace sid (WorkspaceTree []))
                                  (\<lambda>t. case t of
                                     Inl (message, _) \<Rightarrow> failed message
                                   | Inr tree \<Rightarrow> Respond 200 (js_set workspace ''tree'' tree)))))"

definition getWorkspaceMeta :: handler where
  "getWorkspaceMeta E r =
     (case ae_sessions E (sid_param r) of
        None \<Rightarrow> fail_with 404 ''Session not found''
      | Some s \<Rightarrow> Respond 200 (JObj [(''repo'', JStr (as_owner s @ [slash] @ as_repo s)), (''owner'', JStr (as_owner s))]))"

text \<open>The handlers of the form: call the service for the session of the route, and answer what it gives.\<close>

definition plain_operation :: "(string \<Rightarrow> nat) \<Rightarrow> (jsval \<Rightarrow> jsval) \<Rightarrow> (api_request \<Rightarrow> workspace_op) \<Rightarrow> handler" where
  "plain_operation status body c E r = on_workspace E (sid_param r) (c r) (reply_with status body)"

definition needs_path :: "(api_request \<Rightarrow> jsval) \<Rightarrow> (string \<Rightarrow> handler) \<Rightarrow> handler" where
  "needs_path source h E r =
     (let filePath = trim (string_or_empty (get_prop (source r) ''path''))
      in if filePath = [] then fail_with 400 ''path is required'' else h filePath E r)"

definition getWorkspaceFileTree :: handler where
  "getWorkspaceFileTree =
     plain_operation missing_or_bad id (\<lambda>r. WorkspaceTree (string_or_empty (get_prop (ar_query r) ''path'')))"

definition getWorkspaceFile :: handler where
  "getWorkspaceFile = plain_operation missing_or_bad id (\<lambda>r. FileContent (ar_params r ''0''))"

definition updateWorkspaceFile :: handler where
  "updateWorkspaceFile =
     plain_operation missing_or_bad id
       (\<lambda>r. WriteFile (ar_params r ''0'') (js_or (get_prop (ar_body r) ''content'') (JStr [])))"

definition getReviewMarkers :: handler where
  "getReviewMarkers E r =
     (case getWorkspaceSession E (JStr (sid_param r)) of
        Inl message \<Rightarrow> fail_with (missing_or_bad message) message
      | Inr _ \<Rightarrow>
          Call (Workspace (sid_param r) ReadMarkers)
            (\<lambda>a. case a of Inl _ \<Rightarrow> Respond 200 (JObj []) | Inr v \<Rightarrow> Respond 200 v))"

definition saveReviewMarkers :: handler where
  "saveReviewMarkers E r =
     (let markers = (if ar_body r \<in> {JUndef, JNull} then JObj [] else ar_body r); sid = sid_param r;
          refuse = (\<lambda>message. fail_with (missing_or_bad message) message)
      in case getWorkspaceSession E (JStr sid) of
           Inl message \<Rightarrow> refuse message
         | Inr _ \<Rightarrow>
             (case markers of
                JObj _ \<Rightarrow> Call (Workspace sid (SaveMarkers markers)) (reply_with missing_or_bad (\<lambda>_. JObj [(''success'', JBool True)]))
              | _ \<Rightarrow> refuse ''markers must be a plain object''))"

definition searchWorkspace :: handler where
  "searchWorkspace E r =
     (let query = trim (string_or_empty (get_prop (ar_query r) ''q''))
      in if length query < 2 then Respond 200 (JObj [(''results'', JArr [])])
         else plain_operation missing_or_bad (\<lambda>v. JObj [(''results'', v)]) (\<lambda>r. SearchFiles query) E r)"

section \<open>Git operations\<close>

definition getGitStatus :: handler where
  "getGitStatus = plain_operation always_bad id (\<lambda>r. GitStatus)"

definition getGitDiff :: handler where
  "getGitDiff = needs_path ar_query (\<lambda>f. plain_operation always_bad id (\<lambda>r. GitDiff f))"

definition stageFile :: handler where
  "stageFile = needs_path ar_body (\<lambda>f. plain_operation always_bad id (\<lambda>r. StageFile f))"

definition unstageFile :: handler where
  "unstageFile = needs_path ar_body (\<lambda>f. plain_operation always_bad id (\<lambda>r. UnstageFile f))"

definition stageAll :: handler where
  "stageAll = plain_operation always_bad id (\<lambda>r. StageAll)"

definition unstageAll :: handler where
  "unstageAll = plain_operation always_bad id (\<lambda>r. UnstageAll)"

definition body_or_empty :: "api_request \<Rightarrow> string \<Rightarrow> jsval" where
  "body_or_empty r k = js_or (get_prop (ar_body r) k) (JStr [])"

definition commitChanges :: handler where
  "commitChanges = plain_operation always_bad id (\<lambda>r. CommitChanges (body_or_empty r ''message''))"

definition saveDraft :: handler where
  "saveDraft E r =
     (let username = js_or (session_login (ar_request r)) (get_prop (ar_body r) ''username'')
      in if \<not> truthy username then fail_with 400 ''Unable to determine username for draft branch''
         else plain_operation always_bad id (\<lambda>r. SaveDraft username) E r)"

definition request_token :: "api_request \<Rightarrow> string" where "request_token r = req_accessToken (ar_request r)"

definition pullChanges :: handler where
  "pullChanges = plain_operation always_bad id (\<lambda>r. PullBranch (request_token r))"

definition pushChanges :: handler where
  "pushChanges = plain_operation always_bad id (\<lambda>r. PushBranch (request_token r))"

definition switchBranch :: handler where
  "switchBranch = plain_operation always_bad id (\<lambda>r. SwitchBranch (body_or_empty r ''branchName'') (request_token r))"

definition createPullRequest :: handler where
  "createPullRequest =
     plain_operation always_bad id (\<lambda>r. CreatePull (js_or (ar_body r) (JObj [])) (request_token r))"

definition getGitCommits :: handler where
  "getGitCommits =
     plain_operation always_bad (\<lambda>v. JObj [(''success'', JBool True), (''commits'', v)]) (\<lambda>r. CommitHistory)"

definition getGitCommitFileDiff :: handler where
  "getGitCommitFileDiff =
     needs_path ar_query (\<lambda>f. plain_operation always_bad (js_merge [(''success'', JBool True)])
       (\<lambda>r. CommitFileDiff (ar_params r ''commitSha'') f))"

definition rollbackFileToCommit :: handler where
  "rollbackFileToCommit =
     needs_path ar_body (\<lambda>f. plain_operation always_bad (\<lambda>v. JObj [(''success'', JBool True), (''status'', v)])
       (\<lambda>r. RollbackFile (ar_params r ''commitSha'') f))"

section \<open>The build controller\<close>

definition building :: "jsval \<Rightarrow> api" where
  "building sid = Respond 200 (JObj [(''sessionId'', sid), (''building'', JBool True)])"

definition started :: "jsval \<Rightarrow> jsval \<Rightarrow> api" where
  "started sid result = (if result = JNull then building sid else Respond 200 (js_set result ''sessionId'' sid))"

definition failure_json :: "string \<Rightarrow> string \<Rightarrow> jsval" where
  "failure_json message details =
     (let p = buildFailurePayload message details
      in JObj [(''error'', JStr (fp_error p)), (''details'', JStr (fp_details p)),
           (''code'', JStr (di_code (fp_diagnostic p))), (''advice'', JStr (di_advice (fp_diagnostic p)))])"

text \<open>A failed build: the event is recorded, then the failure is answered. The stack of an error is its message here.\<close>

definition build_failed :: "api_env \<Rightarrow> string \<Rightarrow> api" where
  "build_failed E message =
     Call RecordEvent
       (\<lambda>_. Respond 500 (failure_json message (if ae_env E ''NODE_ENV'' \<noteq> Some ''production'' then message else [])))"

definition optional_value :: "jsval \<Rightarrow> jsval" where "optional_value v = js_or v JNull"

text \<open>A session id from a body names a session only if it is a string.\<close>

definition session_of :: "api_env \<Rightarrow> jsval \<Rightarrow> api_session option" where
  "session_of E v = (case v of JStr sid \<Rightarrow> ae_sessions E sid | _ \<Rightarrow> None)"

definition refused_session :: "api_env \<Rightarrow> jsval \<Rightarrow> api_request \<Rightarrow> bool" where
  "refused_session E v r =
     (case session_of E v of None \<Rightarrow> False | Some s \<Rightarrow> \<not> canAccessBuildSession (as_access s) (ar_request r))"

definition start_prepared :: "api_env \<Rightarrow> jsval \<Rightarrow> jsval \<Rightarrow> api" where
  "start_prepared E xmlId workspace =
     (let sid = get_prop workspace ''sessionId''
      in Call (Build (js_String sid) (StartBuild xmlId))
           (\<lambda>b. case b of Inl (message, _) \<Rightarrow> build_failed E message | Inr result \<Rightarrow> started sid result))"

definition initBuild :: handler where
  "initBuild E r =
     (let token = request_token r; body = ar_body r; sid = get_prop body ''sessionId'';
          owner = get_prop body ''owner''; repo = get_prop body ''repo''; xmlId = optional_value (get_prop body ''xmlId'')
      in Call (BuildInitAllowed (str_or token (str_or (ar_ip r) ''unknown-ip'')))
           (\<lambda>allowed.
              if allowed \<noteq> Inr (JBool True) then
                Respond 429 (JObj [(''error'', JStr ''Build rate limit exceeded. Please wait a few minutes before starting another build.''),
                  (''retryAfter'', JNum 600)])
              else if truthy sid then
                (if refused_session E sid r then fail_with 403 ''Access denied''
                 else case getWorkspaceSession E sid of
                     Inl message \<Rightarrow> fail_with 404 (str_or message ''Workspace session not found'')
                   | Inr _ \<Rightarrow>
                       Call (Build (js_String sid) (StartBuild xmlId))
                         (\<lambda>b. case b of
                            Inl (message, _) \<Rightarrow> fail_with 404 (str_or message ''Workspace session not found'')
                          | Inr result \<Rightarrow> started sid result))
              else if \<not> truthy owner \<or> \<not> truthy repo then fail_with 400 ''owner and repo are required''
              else if \<not> REPO_IDENTIFIER_PATTERN (js_String owner) \<or> \<not> REPO_IDENTIFIER_PATTERN (js_String repo)
                then fail_with 400 ''Invalid owner or repository name''
              else Call (PrepareWorkspace owner repo token (truthy (get_prop body ''preferSeed''))
                           (js_or (get_prop body ''defaultBranch'') (JStr ''main'')) (creator_of r))
                     (\<lambda>a. case a of
                        Inl (message, _) \<Rightarrow> build_failed E message
                      | Inr workspace \<Rightarrow> start_prepared E xmlId workspace)))"

definition section_id :: "string \<Rightarrow> bool" where
  "section_id s = (s \<noteq> [] \<and> list_all (\<lambda>c. is_alpha c \<or> is_digit c \<or> c = CHR ''_'' \<or> c = CHR ''-'') s)"

definition updateBuildFile :: handler where
  "updateBuildFile E r =
     (let body = ar_body r; sid = get_prop body ''sessionId''; xml = get_prop body ''sectionXmlId''
      in if refused_session E sid r then fail_with 403 ''Access denied''
         else Call (UpdateFile sid (get_prop body ''filePath'') (get_prop body ''content'')
                      (if truthy xml \<and> section_id (js_String xml) then xml else JNull))
                (\<lambda>a. case a of Inl (message, _) \<Rightarrow> build_failed E message | Inr v \<Rightarrow> Respond 200 v))"

definition artifact_type :: "string \<Rightarrow> string" where
  "artifact_type ext =
     (case map_of [(''.html'', ''text/html''), (''.pdf'', ''application/pdf''), (''.js'', ''application/javascript''),
        (''.css'', ''text/css''), (''.json'', ''application/json''), (''.txt'', ''text/plain''), (''.xml'', ''application/xml''),
        (''.svg'', ''image/svg+xml''), (''.png'', ''image/png''), (''.jpg'', ''image/jpeg''), (''.jpeg'', ''image/jpeg''),
        (''.gif'', ''image/gif''), (''.webp'', ''image/webp''), (''.ico'', ''image/x-icon''), (''.woff'', ''font/woff''),
        (''.woff2'', ''font/woff2''), (''.ttf'', ''font/ttf''), (''.otf'', ''font/otf''),
        (''.eot'', ''application/vnd.ms-fontobject''), (''.map'', ''application/json'')] ext of
        Some t \<Rightarrow> t
      | None \<Rightarrow> ''application/octet-stream'')"

text \<open>A page or file is answered as its type and its content.\<close>

definition typed :: "string \<Rightarrow> jsval \<Rightarrow> jsval" where "typed t v = JObj [(''Content-Type'', JStr t), (''content'', v)]"

definition serveArtifact_handler :: handler where
  "serveArtifact_handler E r =
     (let artifactPath = ar_params r ''0''
      in Call (Build (sid_param r) (ServeArtifact artifactPath))
           (\<lambda>a. case a of
              Inl _ \<Rightarrow> fail_with 404 ''Artifact not found''
            | Inr content \<Rightarrow> Respond 200 (typed (artifact_type (to_lower (extname artifactPath))) content)))"

definition with_session_id :: "(string \<Rightarrow> handler) \<Rightarrow> handler" where
  "with_session_id h E r =
     (if \<not> assertValidSessionId (sid_param r) then fail_with 400 ''Invalid session ID'' else h (sid_param r) E r)"

definition streamBuildLogs :: handler where
  "streamBuildLogs = with_session_id (\<lambda>sid E r. Call (Build sid FollowLogs) (\<lambda>_. Respond 200 (typed ''text/event-stream'' JUndef)))"

text \<open>The archive is streamed; the error is one that comes before the first byte.\<close>

definition exportZip :: handler where
  "exportZip = with_session_id
     (\<lambda>sid E r. Call (Build sid ExportZip)
        (\<lambda>a. case a of Inl (message, _) \<Rightarrow> fail_with 404 message | Inr v \<Rightarrow> Respond 200 (typed ''application/zip'' v)))"

text \<open>The build runs on; its failure is swallowed.\<close>

definition startPdfBuild :: handler where
  "startPdfBuild = with_session_id
     (\<lambda>sid E r. Call (Build sid BuildPdf) (\<lambda>_. Respond 200 (JObj [(''pdfBuilding'', JBool True)])))"

definition getPdfBuildStatus :: handler where
  "getPdfBuildStatus = with_session_id
     (\<lambda>sid E r. case ae_sessions E sid of
        None \<Rightarrow> fail_with 404 ''Session not found''
      | Some s \<Rightarrow> Respond 200 (JObj [(''status'', JStr
          (if ae_pdf_building E sid then ''building'' else if as_pdfReady s then ''ready'' else ''idle''))]))"

definition downloadPdf :: handler where
  "downloadPdf = with_session_id
     (\<lambda>sid E r. case ae_sessions E sid of
        None \<Rightarrow> fail_with 503 (''PDF not ready '' @ em_dash @ '' start a PDF build first'')
      | Some s \<Rightarrow>
          if \<not> as_pdfReady s then fail_with 503 (''PDF not ready '' @ em_dash @ '' start a PDF build first'')
          else let pdfPath = path_resolve [] [as_outputPath s, ''textbook.pdf'']
               in Call (Build sid (PdfAccess pdfPath))
                    (\<lambda>a. case a of
                       Inl _ \<Rightarrow> fail_with 404 ''PDF file not found''
                     | Inr _ \<Rightarrow> Call (Build sid (SendPdf pdfPath))
                                  (\<lambda>b. Respond 200 (typed ''application/pdf'' (case b of Inr v \<Rightarrow> v | Inl _ \<Rightarrow> JUndef)))))"

definition getPreviewHistory :: handler where
  "getPreviewHistory = with_session_id
     (\<lambda>sid E r. Call (Build sid ListSnapshots)
        (\<lambda>a. case a of
           Inl _ \<Rightarrow> fail_with 500 ''Failed to load preview history''
         | Inr v \<Rightarrow> Respond 200 (JObj [(''snapshots'', v)])))"

section \<open>A page of the preview history\<close>

text \<open>\<^verbatim>\<open>/<base\s/i.test(html)\<close>, and the first match of \<^verbatim>\<open>/<head([^>]*)>/i\<close> as what is
  before it, its first five characters, the group and what is behind it.\<close>

fun has_base_tag :: "string \<Rightarrow> bool" where
  "has_base_tag [] = False"
| "has_base_tag (x # s) =
     (to_lower (take 5 (x # s)) = ''<base'' \<and> drop 5 (x # s) \<noteq> [] \<and> is_space (hd (drop 5 (x # s))) \<or> has_base_tag s)"

fun split_head :: "string \<Rightarrow> (string \<times> string \<times> string \<times> string) option" where
  "split_head [] = None"
| "split_head (x # s) =
     (let rest = drop 5 (x # s); behind = dropWhile (\<lambda>c. c \<noteq> CHR ''>'') rest
      in if to_lower (take 5 (x # s)) = ''<head'' \<and> behind \<noteq> []
         then Some ([], take 5 (x # s), takeWhile (\<lambda>c. c \<noteq> CHR ''>'') rest, tl behind)
         else map_option (\<lambda>(before, h, g, after). (x # before, h, g, after)) (split_head s))"

text \<open>
  The text of a replacement for a pattern with one group: \<open>m\<close> is the match, \<open>g\<close> the group, \<open>b\<close> and \<open>a\<close> what is before
  and behind the match.
\<close>

function expand_dollar :: "string \<Rightarrow> string \<Rightarrow> string \<Rightarrow> string \<Rightarrow> string \<Rightarrow> string" where
  "expand_dollar m g b a [] = []"
| "expand_dollar m g b a [x] = [x]"
| "expand_dollar m g b a (x # y # ys) =
     (if x \<noteq> CHR ''$'' then x # expand_dollar m g b a (y # ys)
      else if y = CHR ''$'' then y # expand_dollar m g b a ys
      else if y = CHR ''&'' then m @ expand_dollar m g b a ys
      else if y = CHR 0x60 then b @ expand_dollar m g b a ys
      else if y = CHR 0x27 then a @ expand_dollar m g b a ys
      else if y = CHR ''0'' \<and> ys \<noteq> [] \<and> hd ys = CHR ''1'' then g @ expand_dollar m g b a (tl ys)
      else if y = CHR ''1'' then g @ expand_dollar m g b a ys
      else x # expand_dollar m g b a (y # ys))"
  by pat_completeness auto

termination by (relation "measure (\<lambda>(m, g, b, a, s). length s)") auto

definition insert_base :: "string \<Rightarrow> string \<Rightarrow> string" where
  "insert_base baseHref html =
     (case split_head html of
        None \<Rightarrow> html
      | Some (pre_part, h, g, back_part) \<Rightarrow>
          pre_part @ expand_dollar (h @ g @ ''>'') g pre_part back_part
            (''<head$1><base href='' @ [CHR 0x22] @ baseHref @ [CHR 0x22] @ ''>'') @ back_part)"

definition snapshot_base :: "string \<Rightarrow> string \<Rightarrow> string" where
  "snapshot_base sid entryFile =
     ''/preview/'' @ sid @ ''/'' @ (if path_dirname entryFile = ''.'' then [] else path_dirname entryFile @ ''/'')"

definition snapshot_id :: "string \<Rightarrow> bool" where
  "snapshot_id s = (length s = 12 \<and> list_all is_hex_lower s)"

definition getPreviewHistorySnapshot :: handler where
  "getPreviewHistorySnapshot = with_session_id
     (\<lambda>sid E r.
        let snapshotId = ar_params r ''snapshotId'';
            entryFile = js_String (js_or (get_prop (ar_query r) ''entryFile'') (JStr ''overview.html''))
        in if \<not> snapshot_id snapshotId then fail_with 400 ''Invalid snapshot ID''
           else Call (Build sid (SnapshotHtml snapshotId))
             (\<lambda>a. case a of
                Inl _ \<Rightarrow> fail_with 404 ''Snapshot not found''
              | Inr page \<Rightarrow>
                  let html = js_String page;
                      based = (if has_base_tag html then html else insert_base (snapshot_base sid entryFile) html);
                      fixed = (case ae_sessions E sid of
                                 Some s \<Rightarrow> if as_previewPath s \<noteq> [] then injectLatestPreTeXtLayoutFix (ae_blocks E) based else based
                               | None \<Rightarrow> based)
                  in Respond 200 (typed ''text/html; charset=utf-8'' (JStr fixed))))"

section \<open>Sharing, cleaning up, cached builds\<close>

definition shareBuild :: handler where
  "shareBuild = with_session_id
     (\<lambda>sid E r. case ae_sessions E sid of
        None \<Rightarrow> fail_with 404 (''Build session not found '' @ em_dash @ '' run a build first'')
      | Some s \<Rightarrow>
          Call (Build sid (CreateShare (as_outputPath s) (as_repoPath s)
                  (js_or (get_prop (ar_body r) ''entryFile'') (JStr ''overview.html''))))
            (\<lambda>a. case a of
               Inl _ \<Rightarrow> fail_with 500 ''Failed to create share link''
             | Inr token \<Rightarrow>
                 let frontendUrl = str_or (opt_str (ae_env E ''FRONTEND_URL''))
                       (''http://localhost:'' @ str_or (opt_str (ae_env E ''PORT'')) ''4000'')
                 in Respond 200 (JObj [(''token'', token), (''url'', JStr (frontendUrl @ ''/shared/'' @ js_String token)),
                      (''expiresInDays'', JNum 7)])))"

definition cleanupBuild :: handler where
  "cleanupBuild E r =
     (let sid = get_prop (ar_body r) ''sessionId''
      in if refused_session E sid r then fail_with 403 ''Access denied''
         else Call (CleanupSession sid)
                (\<lambda>a. case a of
                   Inl (message, _) \<Rightarrow> fail_with 500 message
                 | Inr _ \<Rightarrow> Respond 200 (JObj [(''success'', JBool True)])))"

definition prewarmBuild :: handler where
  "prewarmBuild E r =
     (let owner = get_prop (ar_body r) ''owner''; repo = get_prop (ar_body r) ''repo''
      in if \<not> truthy owner \<or> \<not> truthy repo
            \<or> \<not> REPO_IDENTIFIER_PATTERN (js_String owner) \<or> \<not> REPO_IDENTIFIER_PATTERN (js_String repo)
         then fail_with 400 ''owner and repo are required and must be valid GitHub names''
         else case extractBearerToken (ar_request r) of
             None \<Rightarrow> fail_with 401 ''Unauthorized''
           | Some token \<Rightarrow>
               Call (GithubRepo token (js_String owner) (js_String repo))
                 (\<lambda>a. case a of
                    Inl (_, status) \<Rightarrow>
                      fail_with (if status = Some 404 then 404 else 403) ''Repository not found or access denied''
                  | Inr _ \<Rightarrow>
                      Call (StartPrewarm (js_String owner) (js_String repo) token)
                        (\<lambda>_. Respond 200 (JObj [(''status'', JStr ''prewarm started''), (''owner'', owner), (''repo'', repo)]))))"

definition getBuildCacheStatus :: handler where
  "getBuildCacheStatus E r =
     (let entries = map (\<lambda>(repo, commit, builtAt, out). JObj
            [(''repo'', JStr repo), (''commitHash'', case commit of None \<Rightarrow> JUndef | Some h \<Rightarrow> JStr (take 7 h)),
             (''builtAt'', JStr builtAt), (''outputPath'', JStr out)]) (ae_cache_entries E)
      in Respond 200 (JObj [(''cached'', JNum (int (length entries))), (''entries'', JArr entries)]))"

text \<open>\<^verbatim>\<open>/compile\<close>: the content as it is, in a page for scripts and styles.\<close>

definition script_page :: "string \<Rightarrow> string" where
  "script_page content =
     [newline] @ ''          <!DOCTYPE html>'' @ [newline] @ ''          <html>'' @ [newline] @ ''          <head>''
        @ [newline] @ ''            <title>JavaScript Preview</title>'' @ [newline] @ ''          </head>''
        @ [newline] @ ''          <body>'' @ [newline] @ ''            <div id='' @ [CHR 0x22] @ ''root'' @ [CHR 0x22]
        @ ''></div>'' @ [newline] @ ''            <script>'' @ content @ ''</script>'' @ [newline]
        @ ''          </body>'' @ [newline] @ ''          </html>'' @ [newline] @ ''        ''"

definition style_page :: "string \<Rightarrow> string" where
  "style_page content =
     [newline] @ ''          <!DOCTYPE html>'' @ [newline] @ ''          <html>'' @ [newline] @ ''          <head>''
        @ [newline] @ ''            <title>CSS Preview</title>'' @ [newline] @ ''            <style>'' @ content
        @ ''</style>'' @ [newline] @ ''          </head>'' @ [newline] @ ''          <body>'' @ [newline]
        @ ''            <h1>CSS Preview</h1>'' @ [newline]
        @ ''            <p>Your styles have been applied to this page.</p>'' @ [newline] @ ''            <div class=''
        @ [CHR 0x22] @ ''test'' @ [CHR 0x22] @ ''>Test div with class='' @ [CHR 0x22] @ ''test'' @ [CHR 0x22]
        @ ''</div>'' @ [newline] @ ''            <button>Button</button>'' @ [newline] @ ''            <input type=''
        @ [CHR 0x22] @ ''text'' @ [CHR 0x22] @ '' placeholder='' @ [CHR 0x22] @ ''Input field'' @ [CHR 0x22] @ ''>''
        @ [newline] @ ''          </body>'' @ [newline] @ ''          </html>'' @ [newline] @ ''        ''"

definition legacyCompileFile :: handler where
  "legacyCompileFile E r =
     (let filename = get_prop (ar_body r) ''filename''; content = get_prop (ar_body r) ''content''; txt = js_String content;
          answer = (\<lambda>preview. Respond 200 (JObj [(''success'', JBool True), (''output'', content), (''preview'', preview)]));
          by_type = (\<lambda>ext. answer (if ext = ''html'' then content
                       else if ext \<in> {''js'', ''jsx''} then JStr (script_page txt)
                       else if ext = ''css'' then JStr (style_page txt)
                       else JStr (''<pre>'' @ txt @ ''</pre>'')))
      in case filename of
           JStr f \<Rightarrow> by_type (to_lower (last (split_on (CHR ''.'') f)))
         | JUndef \<Rightarrow> by_type []
         | JNull \<Rightarrow> by_type []
         | _ \<Rightarrow> Respond 500 (JObj [(''success'', JBool False), (''error'', JStr ''Compilation failed''),
                  (''message'', JStr ''filename?.split is not a function'')]))"

definition getSharedPreviewRoot :: handler where
  "getSharedPreviewRoot E r =
     (let token = ar_params r ''token''
      in Call (SharedLookup token)
           (\<lambda>a. case a of
              Inr entry \<Rightarrow>
                if truthy entry
                then Respond 302 (JStr (''/shared/'' @ token @ ''/'' @ js_String (get_prop entry ''entryFile'')))
                else Respond 404 (JStr ''Share link not found or expired.'')
            | Inl (message, _) \<Rightarrow> fail_with 500 message))"

section \<open>The repository controller\<close>

definition local_token_request :: "api_env \<Rightarrow> api_request \<Rightarrow> bool" where
  "local_token_request E r = isLocalTestToken (ae_env E) (request_token r)"

text \<open>The repository of the local test mode.\<close>

definition getRepoOwner :: "env \<Rightarrow> string" where
  "getRepoOwner env = str_or (opt_str (env ''LOCAL_TEST_REPO_OWNER'')) ''demo''"

definition getRepoName :: "env \<Rightarrow> string" where
  "getRepoName env = str_or (opt_str (env ''LOCAL_TEST_REPO_NAME'')) ''course-demo''"

definition local_description :: string where
  "local_description = ''Seeded local repository for testing editor, preview, and collaboration flows.''"

definition getRepositoryDescriptor :: "env \<Rightarrow> jsval" where
  "getRepositoryDescriptor env =
     JObj [(''id'', JNum 999001), (''name'', JStr (getRepoName env)),
       (''full_name'', JStr (getRepoOwner env @ [slash] @ getRepoName env)), (''private'', JBool False),
       (''description'', JStr local_description), (''default_branch'', JStr ''main''), (''stargazers_count'', JNum 0),
       (''language'', JStr ''XML''), (''owner'', JObj [(''login'', JStr (getRepoOwner env))])]"

definition ensureRepo :: "env \<Rightarrow> string \<Rightarrow> string \<Rightarrow> string option" where
  "ensureRepo env owner repo =
     (if owner = getRepoOwner env \<and> repo = getRepoName env then None
      else Some (''Unknown local test repository: '' @ owner @ [slash] @ repo))"

definition getRepositories :: handler where
  "getRepositories E r =
     (if local_token_request E r then Respond 200 (JArr [getRepositoryDescriptor (ae_env E)])
      else Call (GithubList (request_token r))
             (\<lambda>a. case a of Inl _ \<Rightarrow> fail_with 500 ''Failed to fetch repositories'' | Inr v \<Rightarrow> Respond 200 v))"

definition searchRepositories :: handler where
  "searchRepositories E r =
     (let token = request_token r; query = take 200 (trim (string_or_empty (get_prop (ar_query r) ''q'')));
          items = (\<lambda>v. Respond 200 (JObj [(''items'', v)])); name = getRepoName (ae_env E);
          haystack = to_lower (getRepoOwner (ae_env E) @ [slash] @ name @ '' '' @ name @ '' '' @ local_description)
      in Call (RepoSearchAllowed token)
           (\<lambda>allowed.
              if allowed \<noteq> Inr (JBool True)
              then fail_with 429 ''Too many search requests. Please wait a moment before searching again.''
              else if length query < 2 then items (JArr [])
              else if local_token_request E r
                then items (JArr (if str_includes haystack (to_lower query) then [getRepositoryDescriptor (ae_env E)] else []))
              else Call (GithubSearch token query)
                     (\<lambda>a. case a of
                        Inl _ \<Rightarrow> fail_with 500 ''Failed to search repositories''
                      | Inr data \<Rightarrow> items (get_prop data ''items''))))"

definition getRepositoryDetails :: handler where
  "getRepositoryDetails E r =
     (let owner = ar_params r ''owner''; name = ar_params r ''name''
      in if local_token_request E r then
           (case ensureRepo (ae_env E) owner name of
              Some message \<Rightarrow> fail_with 404 message
            | None \<Rightarrow> Respond 200 (getRepositoryDescriptor (ae_env E)))
         else Call (GithubRepo (request_token r) owner name)
                (\<lambda>a. case a of
                   Inr data \<Rightarrow> Respond 200 data
                 | Inl (_, status) \<Rightarrow>
                     if status = Some 404 then fail_with 404 ''Repository not found''
                     else fail_with 500 ''Failed to fetch repository''))"

definition getRepositoryBranches :: handler where
  "getRepositoryBranches E r =
     (let owner = ar_params r ''owner''; name = ar_params r ''name''
      in if local_token_request E r then
           (case ensureRepo (ae_env E) owner name of
              Some message \<Rightarrow> fail_with 404 message
            | None \<Rightarrow> Respond 200 (JArr [JObj [(''name'', JStr ''main''), (''protected'', JBool False)]]))
         else Call (GithubBranches (request_token r) owner name)
                (\<lambda>a. case a of Inl _ \<Rightarrow> fail_with 500 ''Failed to fetch branches'' | Inr v \<Rightarrow> Respond 200 v))"

section \<open>System routes\<close>

text \<open>Time stamps in answers, and what an event records, are not modelled.\<close>

definition health :: handler where
  "health E r = Call (Readiness False) (\<lambda>a. case a of Inr v \<Rightarrow> Respond 200 (js_set v ''status'' (JStr ''OK'')) | Inl (m, _) \<Rightarrow> fail_with 500 m)"

definition health_ready :: handler where
  "health_ready E r =
     Call (Readiness (ae_env E ''NODE_ENV'' = Some ''production''))
       (\<lambda>a. case a of
          Inr v \<Rightarrow> Respond (if truthy (get_prop v ''ready'') then 200 else 503) v
        | Inl (m, _) \<Rightarrow> fail_with 500 m)"

definition read_metrics :: handler where
  "read_metrics E r = Call ReadMetrics (\<lambda>a. case a of Inr v \<Rightarrow> Respond 200 v | Inl (m, _) \<Rightarrow> Respond 500 (JStr m))"

definition client_error :: handler where
  "client_error E r =
     (if trim (string_or_empty (get_prop (ar_body r) ''message'')) = [] then fail_with 400 ''message is required''
      else Call RecordEvent (\<lambda>_. Respond 202 (JObj [(''accepted'', JBool True)])))"

definition recent_events :: handler where
  "recent_events E r =
     Call (ReadEvents (case get_prop (ar_query r) ''limit'' of JStr s \<Rightarrow> JStr s | JNum n \<Rightarrow> JNum n | _ \<Rightarrow> JUndef)) (\<lambda>a. case a of Inr v \<Rightarrow> Respond 200 (JObj [(''events'', v)]) | Inl (m, _) \<Rightarrow> fail_with 500 m)"

definition team_join :: handler where
  "team_join E r =
     (let code = normalizeTeamSessionCode (get_prop (ar_body r) ''code'')
      in if code = [] then fail_with 400 ''Invite code is required''
         else Call (TeamLookup code)
                (\<lambda>a. case a of
                   Inl (m, _) \<Rightarrow> fail_with 500 m
                 | Inr session \<Rightarrow>
                     if truthy session then Respond 200 session else fail_with 404 ''Invite code not found or expired''))"

definition get_user :: handler where
  "get_user E r =
     (if local_token_request E r then Respond 200 local_user
      else Call (GithubUser (request_token r))
             (\<lambda>a. case a of Inr v \<Rightarrow> Respond 200 v | Inl _ \<Rightarrow> fail_with 500 ''Failed to fetch user info''))"

definition isMathPixConfigured :: "env \<Rightarrow> bool" where
  "isMathPixConfigured env =
     (trim (opt_str (env ''MATHPIX_APP_ID'')) \<noteq> [] \<and> trim (opt_str (env ''MATHPIX_APP_KEY'')) \<noteq> [])"

definition getImportConfig :: handler where
  "getImportConfig E r =
     Respond 200 (JObj [(''success'', JBool True), (''mathPixConfigured'', JBool (isMathPixConfigured (ae_env E)))])"

text \<open>A handler that is modelled in a theory of its own: here it is one call with an open result.\<close>

definition modelled_apart :: "(api_request \<Rightarrow> service_call) \<Rightarrow> handler" where
  "modelled_apart c E r =
     Call (c r) (\<lambda>a. case a of Inr v \<Rightarrow> Respond 200 v | Inl (m, n) \<Rightarrow> fail_with (case n of Some k \<Rightarrow> k | None \<Rightarrow> 500) m)"

section \<open>The routes\<close>

datatype guard = Token_guard | Owner_guard | Admin_guard | Explainer_guard | Upload_guard

type_synonym route = "string \<times> string \<times> guard list \<times> handler"

definition system_routes :: "route list" where
  "system_routes =
     [(''GET'', ''/health'', [], health),
      (''GET'', ''/health/ready'', [], health_ready),
      (''GET'', ''/metrics'', [Token_guard], read_metrics),
      (''POST'', ''/monitoring/client-error'', [], client_error),
      (''GET'', ''/monitoring/events'', [Token_guard, Admin_guard], recent_events),
      (''POST'', ''/team-sessions/join'', [], team_join)]"

text \<open>\<^verbatim>\<open>getRepositories\<close> asks for the token itself, as the guard does.\<close>

definition repository_routes :: "route list" where
  "repository_routes =
     [(''GET'', ''/repos'', [Token_guard], getRepositories),
      (''GET'', ''/repos/search'', [Token_guard], searchRepositories),
      (''GET'', ''/repos/:owner/:name'', [Token_guard], getRepositoryDetails),
      (''GET'', ''/repos/:owner/:name/branches'', [Token_guard], getRepositoryBranches)]"

definition owned :: "guard list" where "owned = [Token_guard, Owner_guard]"

definition workspace_routes :: "route list" where
  "workspace_routes =
     [(''GET'', ''/demo'', [], getDemoWorkspace),
      (''POST'', ''/workspace/init'', [Token_guard], initWorkspace),
      (''GET'', ''/workspace/:sessionId/meta'', [Token_guard], getWorkspaceMeta),
      (''GET'', ''/workspace/:sessionId/tree'', owned, getWorkspaceFileTree),
      (''GET'', ''/workspace/:sessionId/contents/*'', owned, getWorkspaceFile),
      (''PUT'', ''/workspace/:sessionId/contents/*'', owned, updateWorkspaceFile),
      (''GET'', ''/workspace/:sessionId/review-markers'', owned, getReviewMarkers),
      (''PUT'', ''/workspace/:sessionId/review-markers'', owned, saveReviewMarkers),
      (''GET'', ''/workspace/:sessionId/search'', owned, searchWorkspace),
      (''GET'', ''/workspace/:sessionId/git/status'', owned, getGitStatus),
      (''GET'', ''/workspace/:sessionId/git/diff'', owned, getGitDiff),
      (''POST'', ''/workspace/:sessionId/git/stage'', owned, stageFile),
      (''POST'', ''/workspace/:sessionId/git/unstage'', owned, unstageFile),
      (''POST'', ''/workspace/:sessionId/git/stage-all'', owned, stageAll),
      (''POST'', ''/workspace/:sessionId/git/unstage-all'', owned, unstageAll),
      (''POST'', ''/workspace/:sessionId/git/commit'', owned, commitChanges),
      (''POST'', ''/workspace/:sessionId/git/draft'', owned, saveDraft),
      (''POST'', ''/workspace/:sessionId/git/pull'', owned, pullChanges),
      (''POST'', ''/workspace/:sessionId/git/push'', owned, pushChanges),
      (''POST'', ''/workspace/:sessionId/git/branch'', owned, switchBranch),
      (''POST'', ''/workspace/:sessionId/git/pull-request'', owned, createPullRequest),
      (''GET'', ''/workspace/:sessionId/git/commits'', owned, getGitCommits),
      (''GET'', ''/workspace/:sessionId/git/commits/:commitSha/diff'', owned, getGitCommitFileDiff),
      (''POST'', ''/workspace/:sessionId/git/commits/:commitSha/rollback'', owned, rollbackFileToCommit)]"

definition explained :: "guard list" where "explained = [Token_guard, Explainer_guard, Owner_guard]"

definition build_routes :: "route list" where
  "build_routes =
     [(''GET'', ''/shared/:token'', [], getSharedPreviewRoot),
      (''GET'', ''/shared/:token/*'', [], modelled_apart (\<lambda>r. SharedFile (ar_params r ''token'') (ar_params r ''0''))),
      (''GET'', ''/build/logs/:sessionId'', owned, streamBuildLogs),
      (''POST'', ''/build/init'', [Token_guard], initBuild),
      (''POST'', ''/build/update'', [Token_guard], updateBuildFile),
      (''GET'', ''/build/artifact/:sessionId/*'', owned, serveArtifact_handler),
      (''GET'', ''/build/export/:sessionId'', owned, exportZip),
      (''POST'', ''/build/pdf/:sessionId'', owned, startPdfBuild),
      (''GET'', ''/build/pdf-status/:sessionId'', owned, getPdfBuildStatus),
      (''GET'', ''/build/pdf-download/:sessionId'', owned, downloadPdf),
      (''GET'', ''/build/preview-history/:sessionId'', owned, getPreviewHistory),
      (''GET'', ''/build/preview-history/:sessionId/:snapshotId'', owned, getPreviewHistorySnapshot),
      (''POST'', ''/build/share/:sessionId'', owned, shareBuild),
      (''POST'', ''/build/cleanup'', [Token_guard], cleanupBuild),
      (''POST'', ''/build/prewarm'', [Token_guard], prewarmBuild),
      (''GET'', ''/build/cache-status'', [Token_guard], getBuildCacheStatus),
      (''POST'', ''/build/explain-error/:sessionId'', explained, modelled_apart (\<lambda>r. Build (sid_param r) ExplainError)),
      (''POST'', ''/build/explain-error/:sessionId/feedback'', explained,
        modelled_apart (\<lambda>r. Build (sid_param r) ExplainFeedback)),
      (''POST'', ''/compile'', [Token_guard], legacyCompileFile)]"

definition team_routes :: "route list" where
  "team_routes =
     [(''POST'', ''/team-sessions/create'', [Token_guard], modelled_apart (\<lambda>_. TeamCreate)),
      (''GET'', ''/team-sessions/:code'', [Token_guard],
        modelled_apart (\<lambda>r. TeamLookup (normalizeTeamSessionCode (JStr (ar_params r ''code'')))))]"

definition import_routes :: "route list" where
  "import_routes =
     [(''POST'', ''/import/pdf'', [Token_guard, Upload_guard], modelled_apart (\<lambda>_. ImportPdfFile)),
      (''POST'', ''/import/text'', [Token_guard], modelled_apart (\<lambda>_. ImportMarkdown)),
      (''GET'', ''/import/config'', [Token_guard], getImportConfig)]"

definition routes :: "route list" where
  "routes = system_routes @ repository_routes @ workspace_routes @ build_routes @ team_routes @ import_routes
     @ [(''GET'', ''/user'', [Token_guard], get_user)]"

section \<open>A request\<close>

text \<open>The outer \<open>None\<close> is the exception of a cookie header that cannot be read.\<close>

fun pass_guards :: "guard list \<Rightarrow> handler \<Rightarrow> api_env \<Rightarrow> int \<Rightarrow> api_request \<Rightarrow> auth_store \<Rightarrow> (api \<times> auth_store) option" where
  "pass_guards [] h E now r st = Some (h E r, st)"
| "pass_guards (Token_guard # gs) h E now r st =
     (case requireAccessToken now (ar_request r) st of
        None \<Rightarrow> None
      | Some (Answer n m, st') \<Rightarrow> Some (fail_with n m, st')
      | Some (Next q, st') \<Rightarrow> pass_guards gs h E now (r\<lparr>ar_request := q\<rparr>) st')"
| "pass_guards (Owner_guard # gs) h E now r st =
     (case checkWorkspaceOwner (\<lambda>sid. map_option as_access (ae_sessions E sid)) (sid_param r) (ar_request r) of
        Answer n m \<Rightarrow> Some (fail_with n m, st)
      | Next q \<Rightarrow> pass_guards gs h E now (r\<lparr>ar_request := q\<rparr>) st)"
| "pass_guards (Admin_guard # gs) h E now r st =
     (case requireAdmin (ae_env E) (ar_request r) of
        Answer n m \<Rightarrow> Some (fail_with n m, st)
      | Next q \<Rightarrow> pass_guards gs h E now (r\<lparr>ar_request := q\<rparr>) st)"
| "pass_guards (Explainer_guard # gs) h E now r st =
     (if ae_explainer E then pass_guards gs h E now r st
      else Some (Respond 503 (JObj [(''error'', JStr ''AI explanations are not enabled on this server''),
             (''code'', JStr ''ai_not_configured'')]), st))"
| "pass_guards (Upload_guard # gs) h E now r st =
     (case ae_upload E r of
        Some (n, m) \<Rightarrow> Some (fail_with n m, st)
      | None \<Rightarrow> pass_guards gs h E now r st)"

fun find_route :: "api_env \<Rightarrow> api_request \<Rightarrow> route list \<Rightarrow> (guard list \<times> handler \<times> (string \<Rightarrow> string)) option" where
  "find_route E r [] = None"
| "find_route E r ((m, pat, gs, h) # rs) =
     (if m = ar_method r then
        (case ae_match E pat (ar_path r) of Some ps \<Rightarrow> Some (gs, h, ps) | None \<Rightarrow> find_route E r rs)
      else find_route E r rs)"

definition dispatch :: "api_env \<Rightarrow> int \<Rightarrow> api_request \<Rightarrow> auth_store \<Rightarrow> (api \<times> auth_store) option" where
  "dispatch E now r st =
     (case find_route E r routes of
        None \<Rightarrow> Some (fail_with 404 ''Not Found'', st)
      | Some (gs, h, ps) \<Rightarrow> pass_guards gs h E now (r\<lparr>ar_params := ps\<rparr>) st)"

section \<open>Who may act on a session\<close>

text \<open>The session that the preparation of a workspace gives to the request.\<close>

definition granted :: "service_call \<Rightarrow> answer_of_call \<Rightarrow> string set" where
  "granted c a =
     (case c of
        PrepareWorkspace _ _ _ _ _ _ \<Rightarrow> (case a of Inr w \<Rightarrow> {js_String (get_prop w ''sessionId'')} | Inl _ \<Rightarrow> {})
      | _ \<Rightarrow> {})"

text \<open>Every call of a tree satisfies \<open>P\<close>, whatever the services answer; \<open>known\<close> are the sessions given so far.\<close>

primrec calls_ok :: "(string set \<Rightarrow> service_call \<Rightarrow> bool) \<Rightarrow> api \<Rightarrow> string set \<Rightarrow> bool" where
  "calls_ok P (Respond n v) = (\<lambda>known. True)"
| "calls_ok P (Call c k) = (\<lambda>known. P known c \<and> (\<forall>a. calls_ok P (k a) (granted c a \<union> known)))"

text \<open>What a handler may call: \<open>own\<close> says whether its route checks the owner of the session in the path.\<close>

fun acts :: "bool \<Rightarrow> api_env \<Rightarrow> api_request \<Rightarrow> string set \<Rightarrow> service_call \<Rightarrow> bool" where
  "acts own E r known (Workspace sid _) = (own \<and> sid = sid_param r \<or> sid \<in> known)"
| "acts own E r known (Build sid _) =
     (own \<and> sid = sid_param r \<or> sid \<in> known
      \<or> (\<exists>s. ae_sessions E sid = Some s \<and> canAccessBuildSession (as_access s) (ar_request r)))"
| "acts own E r known (UpdateFile v _ _ _) = (\<not> refused_session E v r)"
| "acts own E r known (CleanupSession v) = (\<not> refused_session E v r)"
| "acts own E r known _ = True"

lemma calls_fail [simp]: "calls_ok P (fail_with n m) known"
  by (simp add: fail_with_def)

lemma calls_reply [simp]: "calls_ok P (reply_with st b a) known"
  by (simp add: reply_with_def split: sum.split prod.split)

lemma calls_on_workspace:
  assumes "\<And>a. calls_ok (acts True E r) (k a) known" and "sid = sid_param r"
  shows "calls_ok (acts True E r) (on_workspace E sid c k) known"
  using assms by (auto simp: on_workspace_def granted_def split: sum.split)

lemma calls_plain: "calls_ok (acts True E r) (plain_operation st b c E r) known"
  by (simp add: plain_operation_def calls_on_workspace)

lemma calls_needs_path:
  "(\<And>f. calls_ok P (h f E r) known) \<Longrightarrow> calls_ok P (needs_path src h E r) known"
  by (simp add: needs_path_def Let_def)

lemma calls_with_id:
  "(\<And>sid. sid = sid_param r \<Longrightarrow> calls_ok P (h sid E r) known) \<Longrightarrow> calls_ok P (with_session_id h E r) known"
  by (simp add: with_session_id_def)

lemma calls_failed [simp]: "calls_ok (acts own E r) (build_failed E m) known"
  by (simp add: build_failed_def)

lemma calls_started [simp]: "calls_ok P (started v b) known"
  by (simp add: started_def building_def)

definition handler_ok :: "bool \<Rightarrow> handler \<Rightarrow> bool" where
  "handler_ok own h = (\<forall>E r known. calls_ok (acts own E r) (h E r) known)"

lemma handler_okI: "(\<And>E r known. calls_ok (acts own E r) (h E r) known) \<Longrightarrow> handler_ok own h"
  by (simp add: handler_ok_def)

lemma plain_handlers:
  "handler_ok True getWorkspaceFileTree" "handler_ok True getWorkspaceFile" "handler_ok True updateWorkspaceFile"
  "handler_ok True getGitStatus" "handler_ok True stageAll" "handler_ok True unstageAll" "handler_ok True commitChanges"
  "handler_ok True pullChanges" "handler_ok True pushChanges" "handler_ok True switchBranch" "handler_ok True createPullRequest"
  "handler_ok True getGitCommits"
  unfolding getWorkspaceFileTree_def getWorkspaceFile_def updateWorkspaceFile_def getGitStatus_def stageAll_def unstageAll_def
    commitChanges_def pullChanges_def pushChanges_def switchBranch_def createPullRequest_def getGitCommits_def
  by (intro handler_okI calls_plain)+

lemma path_handlers:
  "handler_ok True getGitDiff" "handler_ok True stageFile" "handler_ok True unstageFile" "handler_ok True getGitCommitFileDiff"
  "handler_ok True rollbackFileToCommit"
  unfolding getGitDiff_def stageFile_def unstageFile_def getGitCommitFileDiff_def rollbackFileToCommit_def
  by (intro handler_okI calls_needs_path calls_plain)+

lemma other_workspace_handlers:
  "handler_ok True getReviewMarkers" "handler_ok True saveReviewMarkers" "handler_ok True searchWorkspace"
  "handler_ok True saveDraft"
  by (rule handler_okI, auto simp: getReviewMarkers_def saveReviewMarkers_def searchWorkspace_def saveDraft_def Let_def
      calls_plain split: sum.split jsval.split)+

lemma build_handlers:
  "handler_ok True serveArtifact_handler" "handler_ok True streamBuildLogs" "handler_ok True exportZip"
  "handler_ok True startPdfBuild" "handler_ok True getPdfBuildStatus" "handler_ok True downloadPdf"
  "handler_ok True getPreviewHistory" "handler_ok True getPreviewHistorySnapshot" "handler_ok True shareBuild"
  "handler_ok True (modelled_apart (\<lambda>r. Build (sid_param r) ExplainError))"
  "handler_ok True (modelled_apart (\<lambda>r. Build (sid_param r) ExplainFeedback))"
  unfolding streamBuildLogs_def exportZip_def startPdfBuild_def getPdfBuildStatus_def downloadPdf_def getPreviewHistory_def
    getPreviewHistorySnapshot_def shareBuild_def
  by (intro handler_okI calls_with_id;
      auto simp: serveArtifact_handler_def modelled_apart_def Let_def split: sum.split option.split)+

lemma session_handlers:
  "handler_ok False initWorkspace" "handler_ok False updateBuildFile" "handler_ok False cleanupBuild"
  "handler_ok False prewarmBuild"
proof -
  show "handler_ok False initWorkspace"
    by (rule handler_okI) (auto simp: initWorkspace_def Let_def granted_def split: sum.split)
  show "handler_ok False updateBuildFile" "handler_ok False cleanupBuild"
    by (rule handler_okI, auto simp: updateBuildFile_def cleanupBuild_def Let_def split: sum.split)+
  show "handler_ok False prewarmBuild"
    by (rule handler_okI) (auto simp: prewarmBuild_def Let_def split: sum.split option.split)
qed

lemma init_handler: "handler_ok False initBuild"
proof (rule handler_okI)
  fix E :: api_env and r :: api_request and known
  let ?sid = "get_prop (ar_body r) ''sessionId''"
  have own: "\<exists>s. ae_sessions E (js_String ?sid) = Some s \<and> canAccessBuildSession (as_access s) (ar_request r)"
    if "\<not> refused_session E ?sid r" "getWorkspaceSession E ?sid = Inr s" for s
    using that by (auto simp: refused_session_def session_of_def getWorkspaceSession_def
        split: jsval.splits option.splits if_splits)
  show "calls_ok (acts False E r) (initBuild E r) known"
    using own by (auto simp: initBuild_def Let_def start_prepared_def granted_def split: sum.split)
qed

lemma open_handlers:
  "handler_ok False health" "handler_ok False health_ready" "handler_ok False read_metrics" "handler_ok False client_error"
  "handler_ok False recent_events" "handler_ok False team_join" "handler_ok False getRepositories"
  "handler_ok False searchRepositories" "handler_ok False getRepositoryDetails" "handler_ok False getRepositoryBranches"
  "handler_ok False getWorkspaceMeta" "handler_ok False getSharedPreviewRoot" "handler_ok False getBuildCacheStatus"
  "handler_ok False getImportConfig" "handler_ok False get_user"
  by (rule handler_okI, auto simp: health_def health_ready_def read_metrics_def client_error_def recent_events_def team_join_def
      getRepositories_def searchRepositories_def getRepositoryDetails_def getRepositoryBranches_def getWorkspaceMeta_def
      getSharedPreviewRoot_def getBuildCacheStatus_def getImportConfig_def get_user_def Let_def
      split: sum.split option.split)+

lemma other_open_handlers:
  "handler_ok False getDemoWorkspace" "handler_ok False legacyCompileFile"
  "handler_ok False (modelled_apart (\<lambda>r. SharedFile (ar_params r ''token'') (ar_params r ''0'')))"
  "handler_ok False (modelled_apart (\<lambda>_. TeamCreate))"
  "handler_ok False (modelled_apart (\<lambda>r. TeamLookup (normalizeTeamSessionCode (JStr (ar_params r ''code'')))))"
  "handler_ok False (modelled_apart (\<lambda>_. ImportPdfFile))" "handler_ok False (modelled_apart (\<lambda>_. ImportMarkdown))"
proof -
  show "handler_ok False getDemoWorkspace"
    by (rule handler_okI) (auto simp: getDemoWorkspace_def Let_def not_ready_def split: list.split option.split)
  show "handler_ok False legacyCompileFile"
    by (rule handler_okI) (auto simp: legacyCompileFile_def Let_def split: jsval.split)
qed (rule handler_okI, auto simp: modelled_apart_def split: sum.split)+

text \<open>A request proves to be entitled to a session by its token or by the login of its session.\<close>

definition entitled :: "int \<Rightarrow> request \<Rightarrow> auth_store \<Rightarrow> build_owner \<Rightarrow> bool" where
  "entitled now q st b =
     (presented_token now q st \<noteq> [] \<and> presented_token now q st = build_token b
      \<or> creatorLogin b \<noteq> [] \<and> presented_login now q st = JStr (creatorLogin b))"

definition owns :: "api_env \<Rightarrow> int \<Rightarrow> request \<Rightarrow> auth_store \<Rightarrow> string \<Rightarrow> bool" where
  "owns E now q st sid = (\<exists>s. ae_sessions E sid = Some s \<and> entitled now q st (as_access s))"

fun may_act :: "api_env \<Rightarrow> int \<Rightarrow> request \<Rightarrow> auth_store \<Rightarrow> string set \<Rightarrow> service_call \<Rightarrow> bool" where
  "may_act E now q st known (Workspace sid _) = (owns E now q st sid \<or> sid \<in> known)"
| "may_act E now q st known (Build sid _) = (owns E now q st sid \<or> sid \<in> known)"
| "may_act E now q st known (UpdateFile v _ _ _) = (\<forall>sid. v = JStr sid \<longrightarrow> ae_sessions E sid = None \<or> owns E now q st sid)"
| "may_act E now q st known (CleanupSession v) = (\<forall>sid. v = JStr sid \<longrightarrow> ae_sessions E sid = None \<or> owns E now q st sid)"
| "may_act E now q st known _ = True"

lemma calls_mono:
  assumes "\<And>known c. P known c \<Longrightarrow> Q known c"
  shows "calls_ok P t known \<Longrightarrow> calls_ok Q t known"
proof (induction t arbitrary: known)
  case (Call c k)
  then show ?case using assms by auto
qed simp

text \<open>The request as it came, or as the token guard passed it on.\<close>

definition seen_as :: "int \<Rightarrow> request \<Rightarrow> auth_store \<Rightarrow> request \<Rightarrow> bool" where
  "seen_as now q st q' = (q' = q \<or> (\<exists>st'. requireAccessToken now q st = Some (Next q', st')))"

lemma access_entitled:
  assumes "req_accessToken q = []" and "req_authSession q = None" and "seen_as now q st q'"
    and "canAccessBuildSession b q'"
  shows "entitled now q st b"
proof (cases "q' = q")
  case True
  then show ?thesis using assms by (simp add: canAccessBuildSession_def session_login_def tokensMatch_iff)
next
  case False
  then obtain st' where n: "requireAccessToken now q st = Some (Next q', st')" using assms(3) by (auto simp: seen_as_def)
  then have "req_accessToken q' = presented_token now q st" "session_login q' = presented_login now q st"
    using requireAccessToken_cases [OF assms(1,2), of now st] by (auto split: if_splits)
  then show ?thesis using assms(4) by (auto simp: canAccessBuildSession_def tokensMatch_iff entitled_def split: if_splits)
qed

lemma acts_may_act:
  assumes "req_accessToken q = []" and "req_authSession q = None" and "seen_as now q st (ar_request r)"
    and "own \<longrightarrow> owns E now q st (sid_param r)"
  shows "acts own E r known c \<Longrightarrow> may_act E now q st known c"
  using access_entitled [OF assms(1-3)] assms(4)
  by (cases c) (auto simp: owns_def refused_session_def session_of_def split: option.splits)

lemma handler_may_act:
  assumes "handler_ok own h" and "req_accessToken q = []" and "req_authSession q = None" and "seen_as now q st (ar_request r)"
    and "own \<longrightarrow> owns E now q st (sid_param r)"
  shows "calls_ok (may_act E now q st) (h E r) {}"
  using assms(1) calls_mono [of "acts own E r" "may_act E now q st", OF acts_may_act [OF assms(2-5)]]
  by (simp add: handler_ok_def)

lemma owner_guard_passed:
  assumes "checkWorkspaceOwner (\<lambda>sid. map_option as_access (ae_sessions E sid)) sid q' = Next q''" and "sid \<noteq> []"
    and "req_accessToken q = []" and "req_authSession q = None" and "seen_as now q st q'"
  shows "q'' = q' \<and> owns E now q st sid"
  using assms(1,2) access_entitled [OF assms(3-5)]
  by (auto simp: checkWorkspaceOwner_def owns_def split: option.splits if_splits)

definition has_param :: "string \<Rightarrow> bool" where "has_param pat = str_includes pat '':sessionId''"

text \<open>A route is in order if its handler may only act on the session that its guards have checked.\<close>

definition route_ok :: "route \<Rightarrow> bool" where
  "route_ok rt = (case rt of (m, pat, gs, h) \<Rightarrow>
     gs \<in> {owned, explained} \<and> has_param pat \<and> handler_ok True h
     \<or> gs \<in> {[], [Token_guard], [Token_guard, Admin_guard], [Token_guard, Upload_guard]} \<and> handler_ok False h)"

lemma guards_may_act:
  assumes "pass_guards gs h E now r st = Some (t, st')" and "route_ok (m, pat, gs, h)"
    and "has_param pat \<longrightarrow> sid_param r \<noteq> []"
    and "req_accessToken (ar_request r) = []" and "req_authSession (ar_request r) = None"
  shows "calls_ok (may_act E now (ar_request r) st) t {}"
proof -
  let ?q = "ar_request r"
  note fresh = assms(4,5)
  have raw: "seen_as now ?q st ?q" by (simp add: seen_as_def)
  have nxt: "seen_as now ?q st q'" if "requireAccessToken now ?q st = Some (Next q', s')" for q' s'
    using that by (auto simp: seen_as_def)
  have param [simp]: "sid_param (r\<lparr>ar_request := q'\<rparr>) = sid_param r" for q' by (simp add: sid_param_def)
  have run: "calls_ok (may_act E now ?q st) (h E (r\<lparr>ar_request := q'\<rparr>)) {}"
    if "handler_ok own h" "seen_as now ?q st q'" "own \<longrightarrow> owns E now ?q st (sid_param r)" for own q'
    using handler_may_act [OF that(1) fresh, of now st "r\<lparr>ar_request := q'\<rparr>" E] that(2,3) by simp
  have admin: "requireAdmin e q' = Next q'' \<Longrightarrow> q'' = q'" for e q' q''
    by (auto simp: requireAdmin_def split: if_splits)
  have own: "q'' = q' \<and> owns E now ?q st (sid_param r)"
    if "checkWorkspaceOwner (\<lambda>sid. map_option as_access (ae_sessions E sid)) (sid_param r) q' = Next q''"
      "has_param pat" "seen_as now ?q st q'" for q' q''
    using owner_guard_passed [OF that(1) _ fresh that(3)] assms(3) that(2) by blast
  from assms(2) consider (owned) "gs \<in> {owned, explained}" "has_param pat" "handler_ok True h"
    | (unowned) "gs \<in> {[], [Token_guard], [Token_guard, Admin_guard], [Token_guard, Upload_guard]}" "handler_ok False h"
    by (auto simp: route_ok_def)
  then show ?thesis
  proof cases
    case owned
    have "calls_ok (may_act E now ?q st) (h E (r\<lparr>ar_request := q''\<rparr>)) {}"
      if "requireAccessToken now ?q st = Some (Next q', s')"
        "checkWorkspaceOwner (\<lambda>sid. map_option as_access (ae_sessions E sid)) (sid_param r) q' = Next q''" for q' q'' s'
      using own [OF that(2) owned(2) nxt [OF that(1)]] run [OF owned(3) nxt [OF that(1)]] by simp
    then show ?thesis
      using assms(1) owned(1)
      by (auto simp: owned_def explained_def split: option.splits prod.splits middleware.splits if_splits)
  next
    case unowned
    have plain: "calls_ok (may_act E now ?q st) (h E r) {}" using run [OF unowned(2) raw] by simp
    show ?thesis
      using unowned(1) assms(1) plain run [OF unowned(2) nxt]
      by (auto split: option.splits prod.splits middleware.splits if_splits dest!: admin)
  qed
qed

text \<open>What the router documents: the part of a path that stands for a parameter is not empty.\<close>

definition params_filled :: "api_env \<Rightarrow> api_request \<Rightarrow> bool" where
  "params_filled E r =
     (\<forall>pat ps. ae_match E pat (ar_path r) = Some ps \<and> has_param pat \<longrightarrow> ps ''sessionId'' \<noteq> [])"

lemma routes_ok: "list_all route_ok routes"
proof -
  note handlers = plain_handlers path_handlers other_workspace_handlers build_handlers session_handlers init_handler
    open_handlers other_open_handlers
  have "list_all route_ok system_routes" "list_all route_ok repository_routes" "list_all route_ok team_routes"
    "list_all route_ok import_routes" "route_ok (''GET'', ''/user'', [Token_guard], get_user)"
    by (simp_all add: system_routes_def repository_routes_def team_routes_def import_routes_def route_ok_def handlers)
  moreover have "list_all (\<lambda>(m, pat, gs, h). gs \<in> {owned, explained} \<longrightarrow> has_param pat) workspace_routes"
    "list_all (\<lambda>(m, pat, gs, h). gs \<in> {owned, explained} \<longrightarrow> has_param pat) build_routes"
    by code_simp+
  then have "list_all route_ok workspace_routes" "list_all route_ok build_routes"
    by (simp_all add: workspace_routes_def build_routes_def route_ok_def handlers)
  ultimately show ?thesis by (simp add: routes_def)
qed

lemma find_route_in:
  "find_route E r rs = Some (gs, h, ps) \<Longrightarrow> \<exists>m pat. (m, pat, gs, h) \<in> set rs \<and> ae_match E pat (ar_path r) = Some ps"
  by (induction E r rs rule: find_route.induct) (auto split: if_splits option.splits)

text \<open>
  Claim C4. Whatever a request asks and whatever the services answer, every operation on a workspace or a build that it causes
  is on a session that it was given by preparing a workspace, or whose token or creator's login it proves to have. A
  file is updated, and a session is cleaned up, under the same condition or if no such session is known.
\<close>

theorem session_operations_entitled:
  assumes "req_accessToken (ar_request r) = []" and "req_authSession (ar_request r) = None"
    and "params_filled E r"
    and "dispatch E now r st = Some (t, st')"
  shows "calls_ok (may_act E now (ar_request r) st) t {}"
proof (cases "find_route E r routes")
  case None
  then show ?thesis using assms(4) by (auto simp: dispatch_def)
next
  case (Some p)
  then obtain gs h ps where p: "find_route E r routes = Some (gs, h, ps)" by (cases p) auto
  from find_route_in [OF this] obtain m pat where
    route: "(m, pat, gs, h) \<in> set routes" "ae_match E pat (ar_path r) = Some ps" by blast
  then have "route_ok (m, pat, gs, h)" using routes_ok by (auto simp: list_all_iff)
  moreover have "has_param pat \<longrightarrow> sid_param (r\<lparr>ar_params := ps\<rparr>) \<noteq> []"
    using assms(3) route(2) by (auto simp: sid_param_def params_filled_def)
  moreover have "pass_guards gs h E now (r\<lparr>ar_params := ps\<rparr>) st = Some (t, st')"
    using assms(4) p by (simp add: dispatch_def)
  ultimately show ?thesis using guards_may_act [of gs h E now "r\<lparr>ar_params := ps\<rparr>" st t st' m pat] assms(1,2) by simp
qed

definition sample_api :: api_env where
  "sample_api =
     \<lparr>ae_env = (\<lambda>_. None),
      ae_sessions = (\<lambda>sid. if sid = ''0123456789abcdef'' then
        Some \<lparr>as_access = \<lparr>creatorLogin = ''Ann'', build_token = ''x''\<rparr>, as_owner = ''o'', as_repo = ''r'', as_repoPath = ''/d/repo'',
          as_outputPath = ''/d/output'', as_pdfReady = False, as_previewPath = []\<rparr> else None),
      ae_cached = (\<lambda>_. None), ae_cache_entries = [], ae_pdf_building = (\<lambda>_. False), ae_explainer = False,
      ae_upload = (\<lambda>_. None),
      ae_match = (\<lambda>pat path. if pat = ''/workspace/:sessionId/tree'' \<and> path = ''/tree''
        then Some (\<lambda>k. if k = ''sessionId'' then ''0123456789abcdef'' else [])
        else if pat = ''/team-sessions/join'' \<and> path = ''/join'' then Some (\<lambda>k. []) else None),
      ae_blocks = \<lparr>pb_layoutFix = [], pb_mathBoxFixes = [], pb_fallback = [], pb_structureStyle = []\<rparr>\<rparr>"

definition sample_tree_request :: api_request where
  "sample_tree_request =
     \<lparr>ar_method = ''GET'', ar_path = ''/tree'', ar_request = sample_request, ar_ip = [], ar_params = (\<lambda>_. []),
      ar_query = JUndef, ar_body = JUndef\<rparr>"

lemma sample_route:
  "find_route sample_api sample_tree_request routes =
     Some (owned, getWorkspaceFileTree, \<lambda>k. if k = ''sessionId'' then ''0123456789abcdef'' else [])"
  by (simp add: routes_def system_routes_def repository_routes_def workspace_routes_def sample_api_def sample_tree_request_def)

lemma sample_token:
  "map_option fst (requireAccessToken 9 sample_request sample_store) =
     Some (Next (sample_request\<lparr>req_accessToken := ''tok'',
       req_authSession := Some ((snd (hd (sessions sample_store)))\<lparr>updatedAt := 9\<rparr>)\<rparr>))"
  by code_simp

theorem session_operations_entitled_witness:
  "\<exists>k st'. dispatch sample_api 9 sample_tree_request sample_store = Some (Call (Workspace ''0123456789abcdef'' (WorkspaceTree [])) k, st')
     \<and> calls_ok (may_act sample_api 9 sample_request sample_store) (Call (Workspace ''0123456789abcdef'' (WorkspaceTree [])) k) {}"
proof -
  obtain st' where tok: "requireAccessToken 9 sample_request sample_store = Some (Next (sample_request\<lparr>req_accessToken := ''tok'',
      req_authSession := Some ((snd (hd (sessions sample_store)))\<lparr>updatedAt := 9\<rparr>)\<rparr>), st')"
    using sample_token by auto
  let ?sid = "''0123456789abcdef''"
  let ?q = "sample_request\<lparr>req_accessToken := ''tok'', req_authSession := Some ((snd (hd (sessions sample_store)))\<lparr>updatedAt := 9\<rparr>)\<rparr>"
  have own: "checkWorkspaceOwner (\<lambda>sid. map_option as_access (ae_sessions sample_api sid)) ?sid ?q = Next ?q"
    by (simp add: checkWorkspaceOwner_def sample_api_def canAccessBuildSession_def session_login_def sample_store_def)
  have "assertValidSessionId ?sid" by code_simp
  then have "\<exists>ws. getWorkspaceSession sample_api (JStr ?sid) = Inr ws"
    by (simp add: getWorkspaceSession_def string_or_empty_def sample_api_def)
  then have handle: "on_workspace sample_api ?sid c f = Call (Workspace ?sid c) f" for c f by (auto simp: on_workspace_def)
  have fields: "ar_request sample_tree_request = sample_request" "ar_query sample_tree_request = JUndef"
    by (simp_all add: sample_tree_request_def)
  obtain k where d: "dispatch sample_api 9 sample_tree_request sample_store = Some (Call (Workspace ?sid (WorkspaceTree [])) k, st')"
    by (simp add: dispatch_def sample_route owned_def sid_param_def tok fields own getWorkspaceFileTree_def plain_operation_def
        handle string_or_empty_def)
  have fresh: "req_accessToken (ar_request sample_tree_request) = []" "req_authSession (ar_request sample_tree_request) = None"
    by (simp_all add: fields sample_request_def)
  have named: "params_filled sample_api sample_tree_request"
    by (auto simp: params_filled_def sample_api_def sample_tree_request_def split: if_splits)
  have "calls_ok (may_act sample_api 9 sample_request sample_store) (Call (Workspace ''0123456789abcdef'' (WorkspaceTree [])) k) {}"
    using session_operations_entitled [OF fresh named d] by (simp only: fields)
  with d show ?thesis by blast
qed

text \<open>The calls that need no token.\<close>

fun public_call :: "service_call \<Rightarrow> bool" where
  "public_call (SharedLookup _) = True"
| "public_call (SharedFile _ _) = True"
| "public_call (TeamLookup _) = True"
| "public_call RecordEvent = True"
| "public_call (Readiness _) = True"
| "public_call _ = False"

definition public_handler :: "handler \<Rightarrow> bool" where
  "public_handler h = (\<forall>E r known. calls_ok (\<lambda>_. public_call) (h E r) known)"

definition public_route :: "route \<Rightarrow> bool" where
  "public_route rt = (case rt of (m, pat, gs, h) \<Rightarrow> if gs = [] then public_handler h else hd gs = Token_guard)"

lemma public_handlers:
  "public_handler health" "public_handler health_ready" "public_handler client_error" "public_handler team_join"
  "public_handler getSharedPreviewRoot" "public_handler getDemoWorkspace"
  "public_handler (modelled_apart (\<lambda>r. SharedFile (ar_params r ''token'') (ar_params r ''0'')))"
  by (auto simp: public_handler_def health_def health_ready_def client_error_def team_join_def getSharedPreviewRoot_def
      getDemoWorkspace_def modelled_apart_def not_ready_def Let_def split: sum.split option.split list.split)

lemma public_routes: "list_all public_route routes"
  by (simp add: routes_def system_routes_def repository_routes_def workspace_routes_def build_routes_def team_routes_def
      import_routes_def public_route_def owned_def explained_def public_handlers)


definition sample_join_request :: api_request where
  "sample_join_request =
     \<lparr>ar_method = ''POST'', ar_path = ''/join'',
      ar_request = \<lparr>hdr_authorization = None, hdr_cookie = [], req_accessToken = [], req_authSession = None\<rparr>,
      ar_ip = [], ar_params = (\<lambda>_. []), ar_query = JUndef, ar_body = JObj [(''code'', JStr ''abcd'')]\<rparr>"


section \<open>What slips through\<close>

text \<open>A clean-up of a session that is not in the map, such as one that is still being cloned, asks nothing of the request.\<close>

lemma cleanup_of_unknown_session:
  assumes "ae_sessions E sid = None" and "ar_body r = JObj [(''sessionId'', JStr sid)]"
  shows "\<exists>k. cleanupBuild E r = Call (CleanupSession (JStr sid)) k"
  using assms by (simp add: cleanupBuild_def Let_def refused_session_def session_of_def)

text \<open>A caller with a bearer token and no login session names the author of a draft himself.\<close>

lemma bearer_names_draft_author:
  assumes "req_authSession (ar_request r) = None" and "ar_body r = JObj [(''username'', JStr u)]" and "u \<noteq> []"
    and "getWorkspaceSession E (JStr (sid_param r)) = Inr s"
  shows "\<exists>k. saveDraft E r = Call (Workspace (sid_param r) (SaveDraft (JStr u))) k"
  using assms by (simp add: saveDraft_def Let_def session_login_def js_or_def plain_operation_def on_workspace_def)

text \<open>The name of the entry file comes from the query and goes into the page as it is.\<close>

lemma entry_file_is_markup:
  "insert_base (snapshot_base ''0123456789abcdef'' (CHR 0x22 # ''><script>alert(1)</script><p x=/y'')) ''<head></head>'' =
     ''<head><base href='' @ [CHR 0x22] @ ''/preview/0123456789abcdef/'' @ [CHR 0x22] @ ''><script>alert(1)</script><p x=/''
     @ [CHR 0x22] @ ''></head>''"
  by code_simp

text \<open>A caller with a login session but no authorization header cannot start a pre-build, though the guard has found his token.\<close>

lemma prewarm_ignores_session:
  assumes "hdr_authorization (ar_request r) = None"
    and "ar_body r = JObj [(''owner'', JStr ''o''), (''repo'', JStr ''r'')]"
  shows "prewarmBuild E r = fail_with 401 ''Unauthorized''"
proof -
  have "REPO_IDENTIFIER_PATTERN ''o''" "REPO_IDENTIFIER_PATTERN ''r''" by code_simp+
  then show ?thesis using assms by (simp add: prewarmBuild_def Let_def extractBearerToken_def)
qed

end
