(* ===== verification/LatexPreview.thy ===== *)
theory LatexPreview imports TextScan begin

text \<open>
  \<^verbatim>\<open>frontend/src/utils/pretexPreview.ts\<close>, the part that prepares a formula for MathJax: macros of the
  textbook are expanded, systems of equations become aligned rows, and what MathJax does not know is removed. Each
  pattern of a replacement is a matcher for \<open>replace_all\<close>; the loops over an index are recursions over what is left of
  the text.

  The lemmas show that a formula without these constructs is passed on unchanged, that the pieces of a row are the row,
  and that no character appears which is not in the formula or in the fixed texts.
\<close>

section \<open>Braces\<close>

definition bs :: char where "bs = CHR 0x5C"

definition cmd :: "string \<Rightarrow> string" where "cmd name = bs # name"

definition cons_first :: "string \<Rightarrow> string list \<Rightarrow> string list" where
  "cons_first w ps = (case ps of [] \<Rightarrow> [w] | p # ps' \<Rightarrow> (w @ p) # ps')"

fun split_top :: "char \<Rightarrow> nat \<Rightarrow> string \<Rightarrow> string list" where
  "split_top d n [] = [[]]"
| "split_top d n [x] = (if x \<noteq> bs \<and> x \<noteq> CHR ''{'' \<and> x \<noteq> CHR ''}'' \<and> x = d \<and> n = 0 then [[], []] else [[x]])"
| "split_top d n (x # y # ys) =
     (if x = bs then cons_first [x, y] (split_top d n ys)
      else if x = CHR ''{'' then cons_first [x] (split_top d (Suc n) (y # ys))
      else if x = CHR ''}'' then cons_first [x] (split_top d (n - 1) (y # ys))
      else if x = d \<and> n = 0 then [] # split_top d n (y # ys)
      else cons_first [x] (split_top d n (y # ys)))"

definition splitTopLevel :: "string \<Rightarrow> char \<Rightarrow> string list" where
  "splitTopLevel txt delimiter = split_top delimiter 0 txt"

text \<open>The position of the brace that brings the depth back to zero, counted from the start of the text.\<close>

fun match_brace :: "int \<Rightarrow> string \<Rightarrow> nat option" where
  "match_brace depth [] = None"
| "match_brace depth [x] = (if x = CHR ''}'' \<and> depth = 1 then Some 0 else None)"
| "match_brace depth (x # y # ys) =
     (if x = bs then map_option (\<lambda>k. k + 2) (match_brace depth ys)
      else if x = CHR ''{'' then map_option Suc (match_brace (depth + 1) (y # ys))
      else if x = CHR ''}'' then
        (if depth = 1 then Some 0 else map_option Suc (match_brace (depth - 1) (y # ys)))
      else map_option Suc (match_brace depth (y # ys)))"

text \<open>For a text that begins at the opening brace: what is inside, and what is behind.\<close>

definition braced :: "string \<Rightarrow> (string \<times> string) option" where
  "braced s = map_option (\<lambda>k. (take (k - 1) (tl s), drop (Suc k) s)) (match_brace 0 s)"

section \<open>Systems of equations\<close>

type_synonym matcher = "char option \<Rightarrow> string \<Rightarrow> (nat \<times> string) option"

definition literal :: "string \<Rightarrow> string \<Rightarrow> matcher" where
  "literal p r prev s = (if starts_with p s then Some (length p, r) else None)"

text \<open>The character behind a match of \<open>n\<close> characters is none that continues a word.\<close>

definition word_ends :: "nat \<Rightarrow> string \<Rightarrow> bool" where
  "word_ends n s = (drop n s = [] \<or> \<not> (is_alpha (hd (drop n s)) \<or> is_digit (hd (drop n s)) \<or> hd (drop n s) = CHR ''_''))"

definition rlap_group :: matcher where
  "rlap_group prev s =
     (let g = takeWhile (\<lambda>c. c \<noteq> CHR ''}'') (drop 6 s)
      in if starts_with (cmd ''rlap{'') s \<and> drop (6 + length g) s \<noteq> [] then Some (7 + length g, g) else None)"

definition alignment_letter :: matcher where
  "alignment_letter prev s =
     (if (starts_with (cmd ''r'') s \<or> starts_with (cmd ''b'') s) \<and> word_ends 2 s then Some (2, []) else None)"

definition replaced :: "matcher \<Rightarrow> string \<Rightarrow> string" where
  "replaced m s = replace_all m None s"

text \<open>The first equation sign, with the space around it.\<close>

definition align_equation :: "string \<Rightarrow> string" where
  "align_equation s =
     (if CHR ''='' \<notin> set s then s
      else let a = takeWhile (\<lambda>c. c \<noteq> CHR ''='') s
           in trim_end a @ '' &= '' @ trim_start (drop (Suc (length a)) s))"

definition formatSyseqRow :: "string \<Rightarrow> string" where
  "formatSyseqRow row =
     (let t = trim (replaced alignment_letter (replaced (literal (cmd ''rlap.'') ''.'') (replaced rlap_group
                (replaced (literal (cmd ''+'') ''+'') (replaced (literal (cmd ''.'') ''{}'')
                  (replaced (literal (cmd ''amp'') ''&'') row))))))
      in if t = [] then [] else if CHR ''&'' \<notin> set t then align_equation t else t)"

definition convertSyseq :: "string \<Rightarrow> string" where
  "convertSyseq inner =
     (let rows = filter (\<lambda>r. r \<noteq> []) (map formatSyseqRow (splitTopLevel inner (CHR '';'')))
      in if rows = [] then [] else cmd ''begin{aligned}'' @ join [bs, bs, newline] rows @ cmd ''end{aligned}'')"

lemma match_brace_bound: "match_brace d s = Some k \<Longrightarrow> k < length s"
  by (induction d s arbitrary: k rule: match_brace.induct) (auto split: if_splits)

lemma braced_shorter: "braced s = Some (g, rest) \<Longrightarrow> length rest < length s"
  by (auto simp: braced_def dest: match_brace_bound)

function replaceDelimitedCommands :: "string list \<Rightarrow> (string \<Rightarrow> string) \<Rightarrow> string \<Rightarrow> string" where
  "replaceDelimitedCommands names f [] = []"
| "replaceDelimitedCommands names f (x # xs) =
     (case find (\<lambda>name. starts_with (cmd name @ ''{'') (x # xs)) names of
        None \<Rightarrow> x # replaceDelimitedCommands names f xs
      | Some command \<Rightarrow>
          (case braced (drop (length command) xs) of
             None \<Rightarrow> x # xs
           | Some (inner, rest) \<Rightarrow> f inner @ replaceDelimitedCommands names f rest))"
  by pat_completeness auto
termination by (relation "measure (\<lambda>(names, f, s). length s)") (auto dest!: braced_shorter)

declare replaceDelimitedCommands.simps(2) [simp del]

section \<open>Macros\<close>

definition extractNextTexArg :: "string \<Rightarrow> string \<times> string" where
  "extractNextTexArg txt =
     (case dropWhile (\<lambda>c. c = CHR '' '') txt of
        [] \<Rightarrow> ([], [])
      | x # xs \<Rightarrow>
          if x = CHR ''{'' then (case braced (x # xs) of None \<Rightarrow> (xs, []) | Some p \<Rightarrow> p) else ([x], xs))"

fun take_args :: "nat \<Rightarrow> string \<Rightarrow> string list \<times> string" where
  "take_args 0 s = ([], s)"
| "take_args (Suc n) s =
     (case extractNextTexArg s of (a, rest) \<Rightarrow> (case take_args n rest of (as', rest') \<Rightarrow> (a # as', rest')))"

text \<open>\<^verbatim>\<open>template.replace(/#([1-9])/g, \<dots>)\<close>.\<close>

definition parameter :: "string list \<Rightarrow> matcher" where
  "parameter args prev s =
     (case s of
        x # y # _ \<Rightarrow>
          if x = CHR ''#'' \<and> is_digit y \<and> y \<noteq> CHR ''0''
          then Some (2, if digit_val y \<le> length args then args ! (digit_val y - 1) else []) else None
      | _ \<Rightarrow> None)"

definition fill_template :: "string \<Rightarrow> string list \<Rightarrow> string" where
  "fill_template template args = replaced (parameter args) template"

lemma next_arg_shorter: "length (snd (extractNextTexArg s)) \<le> length s"
proof -
  have "length (dropWhile (\<lambda>c. c = CHR '' '') s) \<le> length s" by (rule length_dropWhile_le)
  then show ?thesis
    by (auto simp: extractNextTexArg_def split: list.split option.split dest: braced_shorter)
qed

lemma take_args_shorter: "length (snd (take_args n s)) \<le> length s"
proof (induction n arbitrary: s)
  case (Suc n)
  show ?case
    using next_arg_shorter [of s] Suc [of "snd (extractNextTexArg s)"]
    by (auto simp: split_beta split: prod.split)
qed simp

definition uses_command :: "string \<Rightarrow> string \<Rightarrow> bool" where
  "uses_command command s =
     (starts_with command s \<and> (drop (length command) s = [] \<or> \<not> is_alpha (hd (drop (length command) s))))"

text \<open>A command that is not the macro is copied whole, another character on its own.\<close>

definition token_length :: "string \<Rightarrow> nat" where
  "token_length s =
     (if hd s \<noteq> bs \<or> tl s = [] then 1
      else if is_alpha (hd (tl s)) then Suc (length (takeWhile is_alpha (tl s))) else 2)"

function expandMacroInText :: "string \<Rightarrow> string \<Rightarrow> nat \<Rightarrow> string \<Rightarrow> string" where
  "expandMacroInText name template numArgs [] = []"
| "expandMacroInText name template numArgs (x # xs) =
     (if uses_command (cmd name) (x # xs) then
        (case take_args numArgs (drop (length name) xs) of
           (args, rest) \<Rightarrow> fill_template template args @ expandMacroInText name template numArgs rest)
      else take (token_length (x # xs)) (x # xs)
             @ expandMacroInText name template numArgs (drop (token_length (x # xs) - 1) xs))"
  by pat_completeness auto
termination
proof (relation "measure (\<lambda>(name, t, n, s). length s)")
  show "((name, template, n, rest), name, template, n, x # xs) \<in> measure (\<lambda>(name, t, n, s). length s)"
    if "(args, rest) = take_args n (drop (length name) xs)" for name template n x xs args rest
    using take_args_shorter [of n "drop (length name) xs"] that [symmetric] by (simp add: less_Suc_eq_le)
qed auto

declare expandMacroInText.simps(2) [simp del]

section \<open>Definitions in a formula\<close>

record tex_macro =
  tm_args :: nat
  tm_template :: string

text \<open>The parameters \<^verbatim>\<open>#1#2\<close> behind the name of a macro.\<close>

fun count_params :: "string \<Rightarrow> nat \<times> string" where
  "count_params (x # y # s) =
     (if x = CHR ''#'' \<and> is_digit y then (case count_params s of (n, rest) \<Rightarrow> (Suc n, rest)) else (0, x # y # s))"
| "count_params s = (0, s)"

definition open_brace :: "string \<Rightarrow> string" where "open_brace s = dropWhile (\<lambda>c. c \<noteq> CHR ''{'') s"

text \<open>A definition at the start of the text: its name, parameters and body, and what is behind it.\<close>

definition def_here :: "string \<Rightarrow> (string \<times> tex_macro \<times> string) option" where
  "def_here s =
     (if \<not> starts_with (cmd ''def'' @ [bs]) s then None
      else let r = drop 5 s; name = takeWhile is_alpha r; p = count_params (drop (length name) r); b = open_brace (snd p)
           in if b = [] then None
              else map_option (\<lambda>(body, rest). (name, \<lparr>tm_args = fst p, tm_template = body\<rparr>, rest)) (braced b))"

definition edef_here :: "string \<Rightarrow> (string \<times> string \<times> string) option" where
  "edef_here s =
     (if \<not> starts_with (cmd ''edef'' @ [bs]) s then None
      else let r = drop 6 s; name = takeWhile is_alpha r; b = open_brace (drop (length name) r)
           in if b = [] then None else map_option (\<lambda>(body, rest). (name, body, rest)) (braced b))"

lemma open_brace_shorter: "length (open_brace s) \<le> length s"
  by (simp add: open_brace_def length_dropWhile_le)

lemma count_params_shorter: "length (snd (count_params s)) \<le> length s"
  by (induction s rule: count_params.induct) (auto split: prod.split)

lemma def_here_shorter: "def_here s = Some (n, m, rest) \<Longrightarrow> length rest < length s"
proof -
  assume d: "def_here s = Some (n, m, rest)"
  let ?r = "drop 5 s"
  let ?p = "count_params (drop (length (takeWhile is_alpha ?r)) ?r)"
  from d obtain body where "braced (open_brace (snd ?p)) = Some (body, rest)"
    by (auto simp: def_here_def Let_def split: if_splits)
  then have "length rest < length (open_brace (snd ?p))" by (rule braced_shorter)
  also have "\<dots> \<le> length (snd ?p)" by (rule open_brace_shorter)
  also have "\<dots> \<le> length (drop (length (takeWhile is_alpha ?r)) ?r)" by (rule count_params_shorter)
  also have "\<dots> \<le> length s" by simp
  finally show ?thesis .
qed

lemma edef_here_shorter: "edef_here s = Some (n, b, rest) \<Longrightarrow> length rest < length s"
proof -
  assume d: "edef_here s = Some (n, b, rest)"
  let ?r = "drop 6 s"
  from d have "braced (open_brace (drop (length (takeWhile is_alpha ?r)) ?r)) = Some (b, rest)"
    by (auto simp: edef_here_def Let_def split: if_splits)
  then have "length rest < length (open_brace (drop (length (takeWhile is_alpha ?r)) ?r))" by (rule braced_shorter)
  also have "\<dots> \<le> length (drop (length (takeWhile is_alpha ?r)) ?r)" by (rule open_brace_shorter)
  also have "\<dots> \<le> length s" by simp
  finally show ?thesis .
qed

function take_defs :: "(string, tex_macro) jsmap \<Rightarrow> string \<Rightarrow> (string, tex_macro) jsmap \<times> string" where
  "take_defs defs [] = (defs, [])"
| "take_defs defs (x # xs) =
     (case def_here (x # xs) of
        Some (name, m, rest) \<Rightarrow> take_defs (map_set name m defs) rest
      | None \<Rightarrow> map_prod id ((#) x) (take_defs defs xs))"
  by pat_completeness auto
termination by (relation "measure (\<lambda>(defs, s). length s)") (auto dest!: def_here_shorter)

declare take_defs.simps(2) [simp del]

definition expand_body :: "(string, tex_macro) jsmap \<Rightarrow> string \<Rightarrow> string" where
  "expand_body defs body = fold (\<lambda>(name, m). expandMacroInText name (tm_template m) (tm_args m)) defs body"

function take_edefs :: "(string, tex_macro) jsmap \<Rightarrow> (string, string) jsmap \<Rightarrow> string \<Rightarrow> (string, string) jsmap \<times> string" where
  "take_edefs defs edefs [] = (edefs, [])"
| "take_edefs defs edefs (x # xs) =
     (case edef_here (x # xs) of
        Some (name, body, rest) \<Rightarrow> take_edefs defs (map_set name (expand_body defs body) edefs) rest
      | None \<Rightarrow> map_prod id ((#) x) (take_edefs defs edefs xs))"
  by pat_completeness auto
termination by (relation "measure (\<lambda>(defs, edefs, s). length s)") (auto dest!: edef_here_shorter)

declare take_edefs.simps(2) [simp del]

definition expandDefMacros :: "string \<Rightarrow> string" where
  "expandDefMacros tex =
     (if \<not> str_includes tex (cmd ''def'') \<and> \<not> str_includes tex (cmd ''edef'') then tex
      else case take_defs [] tex of (defs, afterDefs) \<Rightarrow>
          if defs = [] then afterDefs
          else case take_edefs defs [] afterDefs of (edefs, afterEdefs) \<Rightarrow>
              if edefs = [] then afterEdefs
              else fold (\<lambda>(name, value'). expandMacroInText name value' 0) edefs afterEdefs)"

section \<open>The whole preparation\<close>

definition dollars :: matcher where
  "dollars prev s =
     (let g = takeWhile (\<lambda>c. c \<noteq> CHR ''$'') (tl s)
      in if starts_with ''$'' s \<and> drop (Suc (length g)) s \<noteq> [] then Some (length g + 2, g) else None)"

definition spaces_length :: "string \<Rightarrow> nat" where "spaces_length s = length (takeWhile is_space s)"

definition expandafter :: matcher where
  "expandafter prev s =
     (case find (\<lambda>name. starts_with (cmd ''expandafter'' @ cmd name @ cmd ''expandafter'') s) [''syseq'', ''spalignsys''] of
        None \<Rightarrow> None
      | Some name \<Rightarrow>
          let n = length (cmd ''expandafter'' @ cmd name @ cmd ''expandafter''); k = n + spaces_length (drop n s)
          in if starts_with ''{'' (drop k s) then Some (Suc k, cmd name @ ''{'') else None)"

text \<open>The length of the first alternative that the text starts with, \<open>0\<close> if there is none: an optional group.\<close>

definition optional_length :: "string list \<Rightarrow> string \<Rightarrow> nat" where
  "optional_length alternatives s = (case find (\<lambda>a. starts_with a s) alternatives of None \<Rightarrow> 0 | Some a \<Rightarrow> length a)"

definition sysdelims :: matcher where
  "sysdelims prev s =
     (if \<not> starts_with (cmd ''spalignsysdelims'') s then None
      else let i = 17 + spaces_length (drop 17 s); j = i + optional_length [cmd ''{'', ''('', ''['', ''.''] (drop i s)
           in Some (j + optional_length [cmd ''}'', '')'', '']'', ''.''] (drop j s), []))"

definition tabspace :: matcher where
  "tabspace prev s =
     (if \<not> starts_with (cmd ''spalignsystabspace'') s then None
      else let i = 19 + spaces_length (drop 19 s)
           in if \<not> starts_with ''='' (drop i s) then None
              else let j = Suc i + spaces_length (drop (Suc i) s);
                       n = length (takeWhile (\<lambda>c. c \<noteq> bs \<and> \<not> is_space c) (drop j s))
                   in if n = 0 then None else Some (j + n, []))"

definition hfil :: matcher where
  "hfil prev s =
     (if \<not> starts_with (cmd ''hfil'') s then None
      else let k = 5 + optional_length [''l'', ''r''] (drop 5 s) in if word_ends k s then Some (k, []) else None)"

text \<open>
  \<^verbatim>\<open>/\}%\s*$/m\<close>: the space up to the end of the text, or up to the last line end in it.
\<close>

definition line_end :: "char \<Rightarrow> bool" where "line_end c = (c = newline \<or> c = CHR 0x0D)"

definition brace_comment :: matcher where
  "brace_comment prev s =
     (if \<not> starts_with ''}%'' s then None
      else let w = takeWhile is_space (drop 2 s)
           in if drop (2 + length w) s = [] then Some (2 + length w, ''}'')
              else if \<exists>c \<in> set w. line_end c then Some (2 + length (tl (dropWhile (\<lambda>c. \<not> line_end c) (rev w))), ''}'')
              else None)"

definition preprocessLatexForPreview :: "string \<Rightarrow> string" where
  "preprocessLatexForPreview tex =
     replaced (literal (cmd ''+'') ''+'') (replaced (literal (cmd ''.'') ''{}'')
       (replaceDelimitedCommands [''syseq'', ''spalignsys''] convertSyseq
         (expandDefMacros
           (replaced brace_comment (replaced hfil (replaced tabspace (replaced sysdelims (replaced expandafter
             (replaced dollars tex)))))))))"

section \<open>The parts of a row are the row\<close>

lemma split_top_not_Nil [simp]: "split_top d n s \<noteq> []"
  by (induction d n s rule: split_top.induct) (auto simp: cons_first_def split: list.split)

lemma join_cons_first: "ps \<noteq> [] \<Longrightarrow> join sep (cons_first w ps) = w @ join sep ps"
  by (cases ps) (auto simp: cons_first_def join_Cons)

text \<open>The separator put back between the parts of a text gives the text: no character of a row is lost or added.\<close>

lemma splitTopLevel_join: "join [d] (splitTopLevel s d) = s"
proof -
  have "join [d] (split_top d n s) = s" for n
  proof (induction d n s rule: split_top.induct)
    case (3 d n x y ys)
    then show ?case by (auto simp: join_cons_first join_Cons)
  qed (auto simp: join_Cons)
  then show ?thesis by (simp add: splitTopLevel_def)
qed

section \<open>An ordinary formula is unchanged\<close>

lemma replaced_none: "(\<And>prev k. m prev (drop k s) = None) \<Longrightarrow> replaced m s = s"
proof -
  have "(\<And>prev k. m prev (drop k s) = None) \<Longrightarrow> replace_all m p s = s" for p
  proof (induction s arbitrary: p)
    case (Cons x s)
    have "m prev (drop k s) = None" for prev k using Cons.prems [of prev "Suc k"] by simp
    moreover have "m p (x # s) = None" using Cons.prems [of p 0] by simp
    ultimately show ?case using Cons.IH by (simp add: replace_all.simps)
  qed simp
  then show "(\<And>prev k. m prev (drop k s) = None) \<Longrightarrow> replaced m s = s" by (simp add: replaced_def)
qed

definition special_texts :: "string list" where
  "special_texts = [''$'', ''}%'', cmd ''expandafter'', cmd ''spalignsys'', cmd ''hfil'', cmd ''def'', cmd ''edef'', cmd ''syseq'',
     cmd ''.'', cmd ''+'']"

definition ordinary :: "string \<Rightarrow> bool" where
  "ordinary s = (\<forall>p \<in> set special_texts. \<not> sublist p s)"

lemma ordinary_not_prefix: "ordinary s \<Longrightarrow> p \<in> set special_texts \<Longrightarrow> \<not> prefix (p @ q) (drop k s)"
proof
  assume s: "ordinary s" "p \<in> set special_texts" and "prefix (p @ q) (drop k s)"
  then obtain r where "drop k s = p @ q @ r" by (auto simp: prefix_def)
  then have "s = take k s @ p @ q @ r" by (metis append_take_drop_id)
  then have "sublist p s" by (metis sublist_appendI)
  with s show False by (simp add: ordinary_def)
qed

lemma ordinary_matchers:
  assumes "ordinary s"
  shows "dollars prev (drop k s) = None" "expandafter prev (drop k s) = None" "sysdelims prev (drop k s) = None"
    "tabspace prev (drop k s) = None" "hfil prev (drop k s) = None" "brace_comment prev (drop k s) = None"
    "literal (cmd ''+'') r prev (drop k s) = None" "literal (cmd ''.'') r prev (drop k s) = None"
proof -
  note no = ordinary_not_prefix [OF assms, of _ _ k]
  show "dollars prev (drop k s) = None" using no [of "''$''" "[]"] by (simp add: dollars_def special_texts_def)
  show "expandafter prev (drop k s) = None"
    using no [of "cmd ''expandafter''" "cmd ''syseq'' @ cmd ''expandafter''"]
      no [of "cmd ''expandafter''" "cmd ''spalignsys'' @ cmd ''expandafter''"]
    by (simp add: expandafter_def special_texts_def)
  show "sysdelims prev (drop k s) = None"
    using no [of "cmd ''spalignsys''" "''delims''"] by (simp add: sysdelims_def special_texts_def cmd_def)
  show "tabspace prev (drop k s) = None"
    using no [of "cmd ''spalignsys''" "''tabspace''"] by (simp add: tabspace_def special_texts_def cmd_def)
  show "hfil prev (drop k s) = None" using no [of "cmd ''hfil''" "[]"] by (simp add: hfil_def special_texts_def)
  show "brace_comment prev (drop k s) = None" using no [of "''}%''" "[]"] by (simp add: brace_comment_def special_texts_def)
  show "literal (cmd ''+'') r prev (drop k s) = None" using no [of "cmd ''+''" "[]"] by (simp add: literal_def special_texts_def)
  show "literal (cmd ''.'') r prev (drop k s) = None" using no [of "cmd ''.''" "[]"] by (simp add: literal_def special_texts_def)
qed

lemma no_delimited:
  assumes "\<And>name k. name \<in> set names \<Longrightarrow> \<not> prefix (cmd name @ ''{'') (drop k s)"
  shows "replaceDelimitedCommands names f s = s"
  using assms
proof (induction s)
  case (Cons x s)
  have "\<not> prefix (cmd name @ ''{'') (drop k s)" if "name \<in> set names" for name k
    using Cons.prems [OF that, of "Suc k"] by simp
  moreover have "find (\<lambda>name. prefix (cmd name @ ''{'') (x # s)) names = None"
    using Cons.prems [of _ 0] by (auto simp: find_None_iff)
  ultimately show ?case using Cons.IH by (simp add: replaceDelimitedCommands.simps)
qed simp

text \<open>
  A formula without dollar signs, line comments and the macros of the textbook packages reaches MathJax as it was
  written.
\<close>

theorem ordinary_formula_unchanged:
  assumes "ordinary tex"
  shows "preprocessLatexForPreview tex = tex"
proof -
  note m = ordinary_matchers [OF assms]
  have "\<not> prefix (cmd name @ ''{'') (drop k tex)" if "name \<in> set [''syseq'', ''spalignsys'']" for name k
    using that ordinary_not_prefix [OF assms, of _ "''{''" k] by (auto simp: special_texts_def)
  then have delimited: "replaceDelimitedCommands [''syseq'', ''spalignsys''] convertSyseq tex = tex" by (rule no_delimited)
  have defs: "expandDefMacros tex = tex" using assms by (simp add: expandDefMacros_def ordinary_def special_texts_def)
  show ?thesis by (simp add: preprocessLatexForPreview_def replaced_none m delimited defs)
qed

theorem ordinary_formula_unchanged_witness:
  "preprocessLatexForPreview (bs # ''frac{1}{2} = x'') = bs # ''frac{1}{2} = x''"
proof -
  have "ordinary (bs # ''frac{1}{2} = x'')" by code_simp
  then show ?thesis by (rule ordinary_formula_unchanged)
qed

section \<open>No foreign character\<close>

definition fixed_texts :: string where
  "fixed_texts = cmd ''begin{aligned}'' @ cmd ''end{aligned}'' @ [newline] @ '' &=}+.'' @ cmd ''syseq{'' @ cmd ''spalignsys{''"

definition closed_under :: "char set \<Rightarrow> matcher \<Rightarrow> bool" where
  "closed_under A m = (\<forall>prev s n r. m prev s = Some (n, r) \<longrightarrow> set s \<subseteq> A \<longrightarrow> set r \<subseteq> A)"

lemma replaced_closed: "closed_under A m \<Longrightarrow> set s \<subseteq> A \<Longrightarrow> set (replaced m s) \<subseteq> A"
proof -
  have "closed_under A m \<Longrightarrow> set s \<subseteq> A \<Longrightarrow> set (replace_all m p s) \<subseteq> A" for p
  proof (induction m p s rule: replace_all.induct)
    case (2 m p x xs)
    show ?case
    proof (cases "m p (x # xs)")
      case None
      then show ?thesis using 2 by (simp add: replace_all.simps)
    next
      case (Some nr)
      obtain n r where nr: "nr = (n, r)" by (cases nr)
      have "set r \<subseteq> A" using 2(3,4) Some nr unfolding closed_under_def by blast
      moreover have "set (drop (n - 1) xs) \<subseteq> A" using 2(4) set_drop_subset [of "n - 1" xs] by auto
      ultimately show ?thesis using 2(2) [OF Some nr [symmetric] 2(3)] Some nr by (simp add: replace_all.simps)
    qed
  qed simp
  then show "closed_under A m \<Longrightarrow> set s \<subseteq> A \<Longrightarrow> set (replaced m s) \<subseteq> A" by (simp add: replaced_def)
qed

lemma takeWhile_subset: "set (takeWhile P s) \<subseteq> set s"
  by (auto dest: set_takeWhileD)

lemma dropWhile_subset: "set (dropWhile P s) \<subseteq> set s"
  by (auto dest: set_dropWhileD)

lemma tl_subset: "set (tl s) \<subseteq> set s"
  by (cases s) auto

lemmas parts_subset = takeWhile_subset dropWhile_subset tl_subset set_drop_subset set_take_subset

lemma takeWhile_drop_closed: "set s \<subseteq> A \<Longrightarrow> set (takeWhile P (drop n s)) \<subseteq> A" "set s \<subseteq> A \<Longrightarrow> set (takeWhile P (tl s)) \<subseteq> A"
  using takeWhile_subset set_drop_subset tl_subset by (metis subset_trans)+

lemma literal_closed: "set r \<subseteq> A \<Longrightarrow> closed_under A (literal p r)"
  by (auto simp: closed_under_def literal_def)

lemma matchers_closed:
  assumes "set fixed_texts \<subseteq> A"
  shows "closed_under A dollars" "closed_under A expandafter" "closed_under A sysdelims" "closed_under A tabspace"
    "closed_under A hfil" "closed_under A brace_comment" "closed_under A rlap_group" "closed_under A alignment_letter"
proof -
  have A: "set (cmd ''syseq{'') \<subseteq> A" "set (cmd ''spalignsys{'') \<subseteq> A" "CHR ''}'' \<in> A"
    using assms by (auto simp: fixed_texts_def)
  show "closed_under A expandafter"
    unfolding closed_under_def
  proof (intro allI impI)
    fix prev s n r
    assume "expandafter prev s = Some (n, r)"
    then obtain name where "name \<in> {''syseq'', ''spalignsys''}" "r = cmd name @ ''{''"
      by (auto simp: expandafter_def Let_def split: option.splits if_splits)
    then show "set r \<subseteq> A" using A(1,2) by (auto simp: cmd_def)
  qed
  show "closed_under A dollars" "closed_under A rlap_group"
    by (auto simp: closed_under_def dollars_def rlap_group_def Let_def split: if_splits
        dest: subsetD [OF takeWhile_drop_closed(1)] subsetD [OF takeWhile_drop_closed(2)])
  show "closed_under A sysdelims" "closed_under A tabspace" "closed_under A hfil" "closed_under A alignment_letter"
    by (auto simp: closed_under_def sysdelims_def tabspace_def hfil_def alignment_letter_def Let_def split: if_splits)
  show "closed_under A brace_comment"
    using A(3) by (auto simp: closed_under_def brace_comment_def Let_def split: if_splits)
qed

lemma trim_subset: "set (trim s) \<subseteq> set s" "set (trim_start s) \<subseteq> set s" "set (trim_end s) \<subseteq> set s"
  by (auto simp: trim_def trim_start_def trim_end_def dest!: set_dropWhileD)

lemma splitTopLevel_subset: "p \<in> set (splitTopLevel s d) \<Longrightarrow> set p \<subseteq> set s"
proof -
  have "w \<in> set ws \<Longrightarrow> set w \<subseteq> set (join [d] ws)" for w ws by (induction ws) (auto simp: join_Cons)
  from this [of p "splitTopLevel s d"] show "p \<in> set (splitTopLevel s d) \<Longrightarrow> set p \<subseteq> set s"
    by (simp add: splitTopLevel_join)
qed

lemma formatSyseqRow_closed:
  assumes "set fixed_texts \<subseteq> A" and "set row \<subseteq> A"
  shows "set (formatSyseqRow row) \<subseteq> A"
proof -
  let ?t = "replaced alignment_letter (replaced (literal (cmd ''rlap.'') ''.'') (replaced rlap_group
                (replaced (literal (cmd ''+'') ''+'') (replaced (literal (cmd ''.'') ''{}'')
                  (replaced (literal (cmd ''amp'') ''&'') row)))))"
  have chars: "set ''.'' \<subseteq> A" "set ''+'' \<subseteq> A" "set ''{}'' \<subseteq> A" "set ''&'' \<subseteq> A" "set '' &= '' \<subseteq> A"
    using assms(1) by (auto simp: fixed_texts_def cmd_def)
  have "set ?t \<subseteq> A"
    by (intro replaced_closed matchers_closed [OF assms(1)] literal_closed chars assms(2))
  then have t: "set (trim ?t) \<subseteq> A" using trim_subset(1) by blast
  have "set (align_equation u) \<subseteq> A" if "set u \<subseteq> A" for u
  proof -
    let ?a = "takeWhile (\<lambda>c. c \<noteq> CHR ''='') u"
    have "set (trim_end ?a) \<subseteq> A" using trim_subset(3) [of ?a] takeWhile_subset [of "\<lambda>c. c \<noteq> CHR ''=''" u] that by blast
    moreover have "set (trim_start (drop (Suc (length ?a)) u)) \<subseteq> A"
      using trim_subset(2) [of "drop (Suc (length ?a)) u"] set_drop_subset [of "Suc (length ?a)" u] that by blast
    ultimately show ?thesis using that chars(5) by (simp add: align_equation_def Let_def)
  qed
  then show ?thesis using t by (simp add: formatSyseqRow_def Let_def)
qed

lemma join_subset: "set (join sep ws) \<subseteq> set sep \<union> \<Union> (set ` set ws)"
  by (induction ws) (auto simp: join_Cons)

lemma convertSyseq_closed:
  assumes "set fixed_texts \<subseteq> A" and "set inner \<subseteq> A"
  shows "set (convertSyseq inner) \<subseteq> A"
proof -
  let ?rows = "filter (\<lambda>r. r \<noteq> []) (map formatSyseqRow (splitTopLevel inner (CHR '';'')))"
  have "\<forall>r \<in> set ?rows. set r \<subseteq> A"
    using formatSyseqRow_closed [OF assms(1)] splitTopLevel_subset [of _ inner "CHR '';''"] assms(2) by auto
  then have "set (join [bs, bs, newline] ?rows) \<subseteq> set [bs, bs, newline] \<union> A"
    using join_subset [of "[bs, bs, newline]" ?rows] by blast
  moreover have "set [bs, bs, newline] \<subseteq> A" "set (cmd ''begin{aligned}'') \<subseteq> A" "set (cmd ''end{aligned}'') \<subseteq> A"
    using assms(1) by (auto simp: fixed_texts_def cmd_def)
  ultimately show ?thesis by (simp add: convertSyseq_def Let_def) blast
qed

lemma braced_closed: "braced s = Some (g, rest) \<Longrightarrow> set g \<subseteq> set s \<and> set rest \<subseteq> set s"
  using tl_subset [of s] by (auto simp: braced_def dest: in_set_takeD in_set_dropD)

lemma replaceDelimitedCommands_closed:
  assumes "\<And>u. set u \<subseteq> A \<Longrightarrow> set (f u) \<subseteq> A"
  shows "set s \<subseteq> A \<Longrightarrow> set (replaceDelimitedCommands names f s) \<subseteq> A"
  using assms
proof (induction names f s rule: replaceDelimitedCommands.induct)
  case (2 names f x xs)
  show ?case
  proof (cases "find (\<lambda>name. starts_with (cmd name @ ''{'') (x # xs)) names")
    case None
    then show ?thesis using 2 by (simp add: replaceDelimitedCommands.simps)
  next
    case (Some command)
    show ?thesis
    proof (cases "braced (drop (length command) xs)")
      case None
      then show ?thesis using 2(3) Some by (simp add: replaceDelimitedCommands.simps)
    next
      case (Some p)
      obtain inner rest where p: "p = (inner, rest)" by (cases p)
      have "set (drop (length command) xs) \<subseteq> A" using 2(3) set_drop_subset [of "length command" xs] by auto
      then have "set inner \<subseteq> A" "set rest \<subseteq> A" using braced_closed [OF Some [unfolded p]] by auto
      then show ?thesis
        using 2(2) [OF \<open>find _ names = Some command\<close> Some p [symmetric]] 2(4) Some p
          \<open>find _ names = Some command\<close> by (simp add: replaceDelimitedCommands.simps)
    qed
  qed
qed simp

lemma next_arg_closed: "set s \<subseteq> A \<Longrightarrow> set (fst (extractNextTexArg s)) \<subseteq> A \<and> set (snd (extractNextTexArg s)) \<subseteq> A"
proof -
  assume s: "set s \<subseteq> A"
  have "set (dropWhile (\<lambda>c. c = CHR '' '') s) \<subseteq> A" using s dropWhile_subset by (rule subset_trans [rotated])
  then show ?thesis
    by (auto simp: extractNextTexArg_def split: list.split option.split dest!: braced_closed) blast+
qed

lemma take_args_closed: "set s \<subseteq> A \<Longrightarrow> (\<forall>a \<in> set (fst (take_args n s)). set a \<subseteq> A) \<and> set (snd (take_args n s)) \<subseteq> A"
proof (induction n arbitrary: s)
  case (Suc n)
  from next_arg_closed [OF Suc.prems] Suc.IH [of "snd (extractNextTexArg s)"] show ?case
    by (auto simp: split_beta)
qed simp

lemma fill_closed:
  assumes "set t \<subseteq> A" and "\<forall>a \<in> set args. set a \<subseteq> A"
  shows "set (fill_template t args) \<subseteq> A"
proof -
  have pos: "0 < digit_val y" if "is_digit y" "y \<noteq> CHR ''0''" for y
  proof -
    have "(of_char y :: nat) \<noteq> 48"
    proof
      assume "(of_char y :: nat) = 48"
      then have "y = char_of (48 :: nat)" by (metis char_of_char)
      also have "\<dots> = CHR ''0''" by (simp add: char_of_def bit_simps)
      finally show False using that(2) by simp
    qed
    then show ?thesis using that(1) by (simp add: digit_val_def is_digit_def Let_def)
  qed
  have arg: "set (args ! (digit_val y - 1)) \<subseteq> A" if "is_digit y" "y \<noteq> CHR ''0''" "digit_val y \<le> length args" for y
    using assms(2) pos [OF that(1,2)] that(3) by simp
  have "closed_under A (parameter args)"
    unfolding closed_under_def
  proof (intro allI impI)
    fix prev s n r
    assume "parameter args prev s = Some (n, r)"
    then obtain y where "is_digit y" "y \<noteq> CHR ''0''" "r = (if digit_val y \<le> length args then args ! (digit_val y - 1) else [])"
      by (auto simp: parameter_def split: list.splits if_splits)
    then show "set r \<subseteq> A" using arg [of y] by (cases "digit_val y \<le> length args") auto
  qed
  then show ?thesis unfolding fill_template_def by (rule replaced_closed) (rule assms(1))
qed

lemma expandMacro_closed:
  "set s \<subseteq> A \<Longrightarrow> set template \<subseteq> A \<Longrightarrow> set (expandMacroInText name template n s) \<subseteq> A"
proof (induction name template n s rule: expandMacroInText.induct)
  case (2 name template n x xs)
  show ?case
  proof (cases "uses_command (cmd name) (x # xs)")
    case True
    obtain args rest where a: "take_args n (drop (length name) xs) = (args, rest)" by (cases "take_args n (drop (length name) xs)")
    have "set (drop (length name) xs) \<subseteq> A" using 2(3) set_drop_subset [of "length name" xs] by auto
    from take_args_closed [OF this, of n] a have "\<forall>a \<in> set args. set a \<subseteq> A" "set rest \<subseteq> A" by auto
    then show ?thesis using 2(1) [OF True a [symmetric]] 2(4) fill_closed True a by (simp add: expandMacroInText.simps)
  next
    case False
    let ?k = "token_length (x # xs)"
    have "set (take ?k (x # xs)) \<subseteq> A" "set (drop (?k - 1) xs) \<subseteq> A"
      using 2(3) set_take_subset [of ?k "x # xs"] set_drop_subset [of "?k - 1" xs] by (blast, auto)
    then show ?thesis using 2(2) [OF False] 2(4) False by (simp add: expandMacroInText.simps)
  qed
qed simp

lemma open_brace_closed: "set (open_brace s) \<subseteq> set s"
  by (simp add: open_brace_def dropWhile_subset)

lemma count_params_closed: "set (snd (count_params s)) \<subseteq> set s"
  by (induction s rule: count_params.induct) (auto split: prod.split)

lemma def_here_closed: "def_here s = Some (name, m, rest) \<Longrightarrow> set (tm_template m) \<subseteq> set s \<and> set rest \<subseteq> set s"
proof -
  assume d: "def_here s = Some (name, m, rest)"
  let ?b = "open_brace (snd (count_params (drop (length (takeWhile is_alpha (drop 5 s))) (drop 5 s))))"
  have "set ?b \<subseteq> set s"
    using open_brace_closed count_params_closed set_drop_subset by (metis subset_trans)
  moreover from d have "braced ?b = Some (tm_template m, rest)" by (auto simp: def_here_def Let_def split: if_splits)
  ultimately show ?thesis using braced_closed by blast
qed

lemma edef_here_closed: "edef_here s = Some (name, b, rest) \<Longrightarrow> set b \<subseteq> set s \<and> set rest \<subseteq> set s"
proof -
  assume d: "edef_here s = Some (name, b, rest)"
  let ?b = "open_brace (drop (length (takeWhile is_alpha (drop 6 s))) (drop 6 s))"
  have "set ?b \<subseteq> set s" using open_brace_closed set_drop_subset by (metis subset_trans)
  moreover from d have "braced ?b = Some (b, rest)" by (auto simp: edef_here_def Let_def split: if_splits)
  ultimately show ?thesis using braced_closed by blast
qed

lemma in_map_set: "(k, v) \<in> set (map_set k' v' m) \<Longrightarrow> (k, v) \<in> set m \<or> v = v'"
  using set_map_set by fastforce

lemma take_defs_closed:
  "set s \<subseteq> A \<Longrightarrow> \<forall>(n, m) \<in> set defs. set (tm_template m) \<subseteq> A
   \<Longrightarrow> (\<forall>(n, m) \<in> set (fst (take_defs defs s)). set (tm_template m) \<subseteq> A) \<and> set (snd (take_defs defs s)) \<subseteq> A"
proof (induction defs s rule: take_defs.induct)
  case (2 defs x xs)
  show ?case
  proof (cases "def_here (x # xs)")
    case None
    then show ?thesis using 2(1) [OF None] 2(3,4) by (simp add: take_defs.simps split_beta)
  next
    case (Some p)
    obtain n m rest where p: "p = (n, m, rest)" by (cases p)
    from def_here_closed [OF Some [unfolded p]] 2(3) have c: "set (tm_template m) \<subseteq> A" "set rest \<subseteq> A" by auto
    have "\<forall>(k, v) \<in> set (map_set n m defs). set (tm_template v) \<subseteq> A" using c(1) 2(4) by (auto dest!: in_map_set)
    then show ?thesis using 2(2) [OF Some p [symmetric] refl c(2)] Some p by (simp add: take_defs.simps)
  qed
qed simp

lemma fold_expand_closed:
  "set s \<subseteq> A \<Longrightarrow> \<forall>(n, m) \<in> set defs. set (tm_template m) \<subseteq> A \<Longrightarrow> set (expand_body defs s) \<subseteq> A"
  unfolding expand_body_def
proof (induction defs arbitrary: s)
  case (Cons d defs)
  obtain n m where d: "d = (n, m)" by (cases d)
  have "set (expandMacroInText n (tm_template m) (tm_args m) s) \<subseteq> A" using Cons.prems d by (simp add: expandMacro_closed)
  then show ?case using Cons d by simp
qed simp

lemma take_edefs_closed:
  "set s \<subseteq> A \<Longrightarrow> \<forall>(n, m) \<in> set defs. set (tm_template m) \<subseteq> A \<Longrightarrow> \<forall>(n, b) \<in> set edefs. set b \<subseteq> A
   \<Longrightarrow> (\<forall>(n, b) \<in> set (fst (take_edefs defs edefs s)). set b \<subseteq> A) \<and> set (snd (take_edefs defs edefs s)) \<subseteq> A"
proof (induction defs edefs s rule: take_edefs.induct)
  case (2 defs edefs x xs)
  show ?case
  proof (cases "edef_here (x # xs)")
    case None
    then show ?thesis using 2(1) [OF None] 2(3-5) by (simp add: take_edefs.simps split_beta)
  next
    case (Some p)
    obtain n b rest where p: "p = (n, b, rest)" by (cases p)
    from edef_here_closed [OF Some [unfolded p]] 2(3) have c: "set b \<subseteq> A" "set rest \<subseteq> A" by auto
    have "set (expand_body defs b) \<subseteq> A" using c(1) 2(4) by (rule fold_expand_closed)
    then have "\<forall>(k, v) \<in> set (map_set n (expand_body defs b) edefs). set v \<subseteq> A" using 2(5) by (auto dest!: in_map_set)
    then show ?thesis using 2(2) [OF Some p [symmetric] refl c(2) 2(4)] Some p by (simp add: take_edefs.simps)
  qed
qed simp

lemma expandDefMacros_closed: "set s \<subseteq> A \<Longrightarrow> set (expandDefMacros s) \<subseteq> A"
proof -
  assume s: "set s \<subseteq> A"
  obtain defs u where d: "take_defs [] s = (defs, u)" by (cases "take_defs [] s")
  obtain edefs w where e: "take_edefs defs [] u = (edefs, w)" by (cases "take_edefs defs [] u")
  from take_defs_closed [OF s, of "[]"] d have u: "\<forall>(n, m) \<in> set defs. set (tm_template m) \<subseteq> A" "set u \<subseteq> A" by auto
  from take_edefs_closed [OF u(2,1), of "[]"] e have w: "\<forall>(n, b) \<in> set edefs. set b \<subseteq> A" "set w \<subseteq> A" by auto
  have "set (fold (\<lambda>(name, b). expandMacroInText name b 0) edefs w) \<subseteq> A"
    using w
  proof (induction edefs arbitrary: w)
    case (Cons x edefs)
    obtain n b where x: "x = (n, b)" by (cases x)
    have "set (expandMacroInText n b 0 w) \<subseteq> A" using Cons.prems x by (simp add: expandMacro_closed)
    then show ?case using Cons x by simp
  qed simp
  then show ?thesis using s u(2) w(2) d e by (simp add: expandDefMacros_def)
qed

text \<open>Every character of a prepared formula is one of the formula or of the fixed texts, among which is no \<open><\<close>.\<close>

lemma preprocess_closed: "set (preprocessLatexForPreview tex) \<subseteq> set tex \<union> set fixed_texts"
proof -
  let ?A = "set tex \<union> set fixed_texts"
  note m = matchers_closed [of ?A]
  have chars: "set ''{}'' \<subseteq> ?A" "set ''+'' \<subseteq> ?A" by (auto simp: fixed_texts_def cmd_def)
  show ?thesis
    unfolding preprocessLatexForPreview_def
    by (intro replaced_closed m literal_closed chars replaceDelimitedCommands_closed convertSyseq_closed expandDefMacros_closed)
      auto
qed

section \<open>Definitions that are lost\<close>

text \<open>A definition that no \<^verbatim>\<open>\edef\<close> uses is removed, and its uses stay.\<close>

lemma plain_definition_is_lost:
  "preprocessLatexForPreview (cmd ''def'' @ cmd ''x{1}'' @ cmd ''x+2'') = cmd ''x+2''"
  by code_simp

text \<open>A definition that uses an earlier one is expanded only once, and the earlier one is removed.\<close>

lemma nested_definition_is_lost:
  "preprocessLatexForPreview (cmd ''def'' @ cmd ''x{1}'' @ cmd ''def'' @ cmd ''y{'' @ cmd ''x}'' @ cmd ''edef'' @ cmd ''z{'' @ cmd ''y}''
     @ cmd ''z'') = cmd ''x''"
  by code_simp

end
