(* ===== verification/LivePreview.thy ===== *)
theory LivePreview imports LatexPreview begin

text \<open>
  \<^verbatim>\<open>frontend/src/utils/pretexPreview.ts\<close>, the converter from PreTeXt to HTML behind the live preview. A
  document is a tree of nodes as the XML parser of the browser gives it; the parser is a parameter. The converter yields
  a list of pieces, which \<open>render\<close> joins to the string of the source, so that lemmas can speak of tags and numbers.

  The lemmas show that the tags of a preview nest, and that no number is given twice.
\<close>

section \<open>The document\<close>

text \<open>A node: an element with its attributes and children, text, a CDATA section, or anything else.\<close>

datatype dom = Elem string "(string \<times> string) list" "dom list" | Text string | Cdata string | Other

text \<open>\<^verbatim>\<open>textContent\<close>.\<close>

fun text_content :: "dom \<Rightarrow> string" where
  "text_content (Elem tag attrs nodes) = concat (map text_content nodes)"
| "text_content (Text s) = s"
| "text_content (Cdata s) = s"
| "text_content Other = []"

text \<open>\<^verbatim>\<open>tagName.replace(/^[^:]+:/, '')\<close>, which is the local name as well.\<close>

definition local_name :: "string \<Rightarrow> string" where
  "local_name tag =
     (let w = takeWhile (\<lambda>c. c \<noteq> CHR '':'') tag
      in if w \<noteq> [] \<and> w \<noteq> tag then drop (Suc (length w)) tag else tag)"

definition attribute :: "string \<Rightarrow> (string \<times> string) list \<Rightarrow> string" where
  "attribute name attrs = (case map_of attrs name of Some v \<Rightarrow> v | None \<Rightarrow> [])"

fun is_named :: "string \<Rightarrow> dom \<Rightarrow> bool" where
  "is_named name (Elem tag attrs nodes) = (local_name tag = name)"
| "is_named name _ = False"

text \<open>The nodes below a list of nodes, in the order of the document.\<close>

fun descendants :: "dom \<Rightarrow> dom list" where
  "descendants (Elem tag attrs nodes) = Elem tag attrs nodes # concat (map descendants nodes)"
| "descendants n = [n]"

definition first_named :: "string list \<Rightarrow> dom list \<Rightarrow> dom option" where
  "first_named names nodes = find (\<lambda>n. \<exists>name \<in> set names. is_named name n) (concat (map descendants nodes))"

section \<open>The pieces of a preview\<close>

datatype counter = Theorems | Definitions | Examples | Exercises | Figures | Equations

type_synonym counters = "counter \<Rightarrow> nat"

definition count_up :: "counter \<Rightarrow> counters \<Rightarrow> counters" where "count_up k c = c(k := Suc (c k))"

text \<open>
  A start tag with its attributes, an end tag, an element without content, fixed text, text of the document, a number.
\<close>

datatype piece = Open string string | Close string | Void string | Fixed string | Source string | Number counter nat

fun piece_text :: "piece \<Rightarrow> string" where
  "piece_text (Open t a) = ''<'' @ t @ a @ ''>''"
| "piece_text (Close t) = ''</'' @ t @ ''>''"
| "piece_text (Void a) = ''<'' @ a @ ''>''"
| "piece_text (Fixed s) = s"
| "piece_text (Source s) = s"
| "piece_text (Number k n) = dec_nat n"

definition render :: "piece list \<Rightarrow> string" where "render ps = concat (map piece_text ps)"

text \<open>\<^verbatim>\<open> class="c"\<close>, and an attribute with a value of the document.\<close>

definition attr :: "string \<Rightarrow> string \<Rightarrow> string" where
  "attr name v = '' '' @ name @ ''='' @ [CHR 0x22] @ v @ [CHR 0x22]"

definition classed :: "string \<Rightarrow> string \<Rightarrow> piece" where "classed t c = Open t (attr ''class'' c)"

definition within :: "piece \<Rightarrow> string \<Rightarrow> piece list \<Rightarrow> piece list" where "within op t ps = op # ps @ [Close t]"

definition el :: "string \<Rightarrow> piece list \<Rightarrow> piece list" where "el t ps = within (Open t []) t ps"

definition boxed :: "string \<Rightarrow> string \<Rightarrow> piece list \<Rightarrow> piece list" where "boxed t c ps = within (classed t c) t ps"

section \<open>What becomes of an element\<close>

text \<open>
  The cases of the \<^verbatim>\<open>switch\<close>. \<open>Plain f\<close> puts the children into \<open>f\<close>; \<open>Titled f g\<close> puts the other children
  behind the title, which \<open>g\<close> surrounds if it is not empty; \<open>Labelled k l c\<close> is a box with the label \<open>l\<close>, numbered by
  \<open>k\<close> if there is a counter.
\<close>

datatype rule =
    Plain "piece list \<Rightarrow> piece list"
  | Titled "piece list \<Rightarrow> piece list" "piece list \<Rightarrow> piece list"
  | Labelled "counter option" string string
  | Formula "piece list \<Rightarrow> piece list"
  | Tagged_formula
  | Rows string
  | Figure
  | Image
  | Verbatim "piece list \<Rightarrow> piece list"
  | Program
  | Link
  | Email
  | Footnote
  | Side_by_side
  | Included
  | Replaced "piece list"

definition capital :: "string \<Rightarrow> string" where
  "capital s = (case s of [] \<Rightarrow> [] | x # xs \<Rightarrow> (if is_lower_az x then char_of (of_char x - 32 :: nat) else x) # xs)"

definition ptx :: "string \<Rightarrow> string" where "ptx s = ''ptx-'' @ s"

definition placeholder :: "piece list \<Rightarrow> piece list" where "placeholder = boxed ''div'' (ptx ''placeholder'')"

definition block_rule :: "string \<Rightarrow> rule option" where
  "block_rule tag =
     (if tag \<in> {''pretext'', ''mathbook''} then Some (Plain id)
      else if tag \<in> {''book'', ''article''} then
        Some (Titled (boxed ''div'' (ptx ''book'')) (boxed ''h1'' (ptx ''title'')))
      else if tag = ''chapter'' then Some (Titled (boxed ''section'' (ptx ''chapter'')) (el ''h2''))
      else if tag = ''section'' then Some (Titled (boxed ''section'' (ptx ''section'')) (el ''h3''))
      else if tag = ''subsection'' then Some (Titled (boxed ''section'' (ptx ''subsection'')) (el ''h4''))
      else if tag = ''subsubsection'' then Some (Titled (boxed ''section'' (ptx ''subsubsection'')) (el ''h5''))
      else if tag \<in> {''introduction'', ''conclusion'', ''objectives'', ''outcomes''} then Some (Plain (boxed ''div'' (ptx tag)))
      else if tag = ''paragraphs'' then
        Some (Titled (boxed ''div'' (ptx ''paragraphs'')) (\<lambda>t. boxed ''p'' (ptx ''paragraphs-title'') (el ''strong'' t)))
      else if tag = ''title'' then Some (Replaced [])
      else if tag = ''p'' then Some (Plain (el ''p''))
      else if tag = ''blockquote'' then Some (Plain (el ''blockquote''))
      else None)"

definition equation_box :: "piece list \<Rightarrow> piece list" where
  "equation_box ps = boxed ''div'' (ptx ''equation'') ([Fixed (bs # ''['')] @ ps @ [Fixed (bs # '']'')])"

definition math_rule :: "string \<Rightarrow> rule option" where
  "math_rule tag =
     (if tag = ''m'' then Some (Formula (\<lambda>ps. [Fixed (bs # ''('')] @ ps @ [Fixed (bs # '')'')]))
      else if tag = ''me'' then Some (Formula equation_box)
      else if tag = ''men'' then Some Tagged_formula
      else if tag = ''md'' then Some (Rows ''align*'')
      else if tag = ''mdn'' then Some (Rows ''align'')
      else if tag = ''mrow'' then Some (Replaced [])
      else None)"

definition box_rule :: "string \<Rightarrow> rule option" where
  "box_rule tag =
     (if tag \<in> {''theorem'', ''lemma'', ''proposition'', ''corollary'', ''claim'', ''identity''}
        then Some (Labelled (Some Theorems) (capital tag) tag)
      else if tag = ''proof'' then
        Some (Plain (\<lambda>ps. boxed ''div'' (ptx ''proof'') (boxed ''span'' (ptx ''proof-title'') [Fixed ''Proof.''] @ [Fixed '' ''] @ ps
          @ [Fixed '' ''] @ boxed ''span'' (ptx ''qed'') [Fixed [CHR 0xE2, CHR 0x88, CHR 0x8E]])))
      else if tag = ''definition'' then Some (Labelled (Some Definitions) ''Definition'' ''definition'')
      else if tag \<in> {''example'', ''question'', ''problem''} then Some (Labelled (Some Examples) (capital tag) tag)
      else if tag = ''exercise'' then Some (Labelled (Some Exercises) ''Exercise'' ''exercise'')
      else if tag \<in> {''remark'', ''note'', ''observation'', ''warning'', ''fact'', ''convention'', ''insight'', ''assumption''}
        then Some (Labelled None (capital tag) tag)
      else if tag = ''statement'' then Some (Plain (boxed ''div'' (ptx ''statement'')))
      else if tag \<in> {''hint'', ''answer'', ''solution''} then
        Some (Plain (\<lambda>ps. boxed ''details'' (ptx tag) (el ''summary'' [Fixed (capital tag)] @ ps)))
      else None)"

definition list_rule :: "string \<Rightarrow> rule option" where
  "list_rule tag =
     (if tag \<in> {''ol'', ''ul'', ''dl'', ''dt'', ''dd''} then Some (Plain (el tag))
      else if tag = ''li'' then Some (Titled (el ''li'') (\<lambda>t. boxed ''em'' (ptx ''li-title'') t @ [Fixed '' '']))
      else if tag = ''figure'' then Some Figure
      else if tag = ''caption'' then Some (Replaced [])
      else if tag = ''image'' then Some Image
      else if tag = ''video'' then Some (Replaced (placeholder [Fixed ''[Video]'']))
      else if tag = ''interactive'' then
        Some (Replaced (placeholder [Fixed (''[Interactive element '' @ [CHR 0xE2, CHR 0x80, CHR 0x94] @ '' view in full build]'')]))
      else None)"

definition inline_rule :: "string \<Rightarrow> rule option" where
  "inline_rule tag =
     (if tag = ''c'' then Some (Verbatim (el ''code''))
      else if tag \<in> {''cd'', ''pre''} then Some (Verbatim (\<lambda>ps. el ''pre'' (el ''code'' ps)))
      else if tag \<in> {''program'', ''console''} then Some Program
      else if tag = ''sage'' then Some (Verbatim (\<lambda>ps. boxed ''pre'' (ptx ''sage'') (el ''code'' ps)))
      else if tag = ''em'' then Some (Plain (el ''em''))
      else if tag = ''alert'' then Some (Plain (boxed ''strong'' (ptx ''alert'')))
      else if tag = ''term'' then Some (Plain (boxed ''em'' (ptx ''term'')))
      else if tag = ''q'' then
        Some (Plain (\<lambda>ps. [Fixed [CHR 0xE2, CHR 0x80, CHR 0x9C]] @ ps @ [Fixed [CHR 0xE2, CHR 0x80, CHR 0x9D]]))
      else if tag = ''sq'' then
        Some (Plain (\<lambda>ps. [Fixed [CHR 0xE2, CHR 0x80, CHR 0x98]] @ ps @ [Fixed [CHR 0xE2, CHR 0x80, CHR 0x99]]))
      else if tag = ''url'' then Some Link
      else if tag = ''email'' then Some Email
      else if tag = ''fn'' then Some Footnote
      else if tag = ''xref'' then Some (Replaced (boxed ''span'' (ptx ''xref'') [Fixed ''[ref]'']))
      else if tag = ''sidebyside'' then Some Side_by_side
      else if tag = ''stack'' then Some (Plain (boxed ''div'' (ptx ''stack'')))
      else if tag = ''tabular'' then Some (Plain (boxed ''table'' (ptx ''table'')))
      else if tag = ''row'' then Some (Plain (el ''tr''))
      else if tag = ''cell'' then Some (Plain (el ''td''))
      else if tag \<in> {''index'', ''idx'', ''notation'', ''biblio'', ''references''} then Some (Replaced [])
      else if tag = ''include'' then Some Included
      else None)"

text \<open>The cases exclude each other; an element that none names keeps its children.\<close>

definition rule_of :: "string \<Rightarrow> rule" where
  "rule_of tag =
     (case block_rule tag of Some x \<Rightarrow> x | None \<Rightarrow>
     (case math_rule tag of Some x \<Rightarrow> x | None \<Rightarrow>
     (case box_rule tag of Some x \<Rightarrow> x | None \<Rightarrow>
     (case list_rule tag of Some x \<Rightarrow> x | None \<Rightarrow>
     (case inline_rule tag of Some x \<Rightarrow> x | None \<Rightarrow> Plain id)))))"

section \<open>The conversion\<close>

definition indent :: "nat \<Rightarrow> piece" where "indent n = Fixed (newline # replicate n (CHR '' ''))"

text \<open>\<^verbatim>\<open>childrenSkipping\<close>: the tag of the document, with its prefix.\<close>

fun skipped :: "string list \<Rightarrow> dom \<Rightarrow> bool" where
  "skipped tags (Elem tag attrs nodes) = (to_lower tag \<in> set tags)"
| "skipped tags _ = False"

definition math :: "dom \<Rightarrow> piece" where "math n = Source (preprocessLatexForPreview (text_content n))"

definition math_rows :: "dom list \<Rightarrow> piece list" where
  "math_rows nodes =
     [Source (join ('' '' @ [bs, bs, newline]) (map (\<lambda>n. preprocessLatexForPreview (text_content n)) (filter (is_named ''mrow'') nodes)))]"

definition rows_box :: "string \<Rightarrow> dom list \<Rightarrow> piece list" where
  "rows_box env nodes =
     equation_box ([Fixed (cmd ''begin{'' @ env @ ''}'' @ [newline])] @ math_rows nodes
       @ [Fixed ([newline] @ cmd ''end{'' @ env @ ''}'')])"

definition image_box :: "(string \<times> string) list \<Rightarrow> dom list \<Rightarrow> piece list" where
  "image_box attrs nodes =
     (let src = str_or (attribute ''source'' attrs) (attribute ''href'' attrs);
          alt = (case first_named [''description''] nodes of None \<Rightarrow> [] | Some d \<Rightarrow> text_content d)
      in if src = [] then boxed ''span'' (ptx ''placeholder'') [Fixed ''[Image: '', Source (str_or alt ''no source''), Fixed '']'']
         else [Void (''img'' @ attr ''src'' src @ attr ''alt'' alt @ attr ''style'' ''max-width:100%;height:auto'')])"

definition escHtml :: "string \<Rightarrow> string" where
  "escHtml s =
     concat (map (\<lambda>c. if c = CHR ''&'' then ''&amp;'' else if c = CHR ''<'' then ''&lt;'' else if c = CHR ''>'' then ''&gt;'' else [c]) s)"

definition program_box :: "dom \<Rightarrow> (string \<times> string) list \<Rightarrow> dom list \<Rightarrow> piece list" where
  "program_box self attrs nodes =
     (let code = (case first_named [''input'', ''code''] nodes of None \<Rightarrow> text_content self | Some n \<Rightarrow> text_content n)
      in el ''pre'' (boxed ''code'' (''language-'' @ attribute ''language'' attrs) [Source (escHtml code)]))"

definition footnote_box :: "dom \<Rightarrow> piece list" where
  "footnote_box self =
     within (Open ''sup'' (attr ''title'' (trim (text_content self)) @ attr ''style'' ''cursor:help;color:#2c7be5'')) ''sup'' [Fixed ''[fn]'']"

definition link_box :: "string \<Rightarrow> piece list \<Rightarrow> piece list" where
  "link_box href vis =
     within (Open ''a'' (attr ''href'' href @ attr ''target'' ''_blank'' @ attr ''rel'' ''noopener'')) ''a'' vis"

definition email_box :: "string \<Rightarrow> piece list \<Rightarrow> piece list" where
  "email_box address vis = within (Open ''a'' (attr ''href'' (''mailto:'' @ address))) ''a'' vis"

definition include_box :: "(string \<times> string) list \<Rightarrow> piece list" where
  "include_box attrs =
     placeholder ([Fixed ''[Included file: ''] @ el ''code'' [Source (str_or (attribute ''href'' attrs) ''?'')] @ [Fixed '']''])"

definition titled :: "(piece list \<Rightarrow> piece list) \<Rightarrow> piece list \<Rightarrow> piece list" where
  "titled g t = (if render t = [] then [] else g t)"

definition parenthesised :: "piece list \<Rightarrow> piece list" where "parenthesised t = [Fixed '' (''] @ t @ [Fixed '')'']"

text \<open>A box: the number stands before the title although it is read behind it.\<close>

definition label_box :: "string \<Rightarrow> string \<Rightarrow> piece list \<Rightarrow> piece list \<Rightarrow> piece list \<Rightarrow> piece list" where
  "label_box cls lbl number t others =
     boxed ''div'' (''ptx-thmlike ptx-'' @ cls)
       ([indent 8] @ boxed ''span'' (ptx ''label'') ([Fixed lbl] @ number @ titled parenthesised t)
        @ [indent 8] @ others @ [indent 6])"

definition number_of :: "counter option \<Rightarrow> counters \<Rightarrow> piece list" where
  "number_of k c = (case k of None \<Rightarrow> [] | Some k \<Rightarrow> [Fixed '' '', Number k (c k)])"

definition figure_box :: "bool \<Rightarrow> piece list \<Rightarrow> nat \<Rightarrow> piece list \<Rightarrow> piece list" where
  "figure_box captioned others n cap =
     boxed ''figure'' (ptx ''figure'')
       ([indent 8] @ boxed ''div'' (ptx ''figure-body'') others @ [indent 8]
        @ (if captioned then el ''figcaption'' ([Fixed ''Figure '', Number Figures n, Fixed '': ''] @ cap) else []) @ [indent 6])"

text \<open>
  \<open>convert_all skip\<close> converts the children in order, without those that are skipped; \<open>convert_part name\<close> converts the
  children of the first child with that name; \<open>panels\<close> puts each child element into a panel.
\<close>

fun convertNode :: "dom \<Rightarrow> counters \<Rightarrow> piece list \<times> counters"
and convert_all :: "string list \<Rightarrow> dom list \<Rightarrow> counters \<Rightarrow> piece list \<times> counters"
and convert_part :: "string \<Rightarrow> dom list \<Rightarrow> counters \<Rightarrow> piece list \<times> counters"
and panels :: "dom list \<Rightarrow> counters \<Rightarrow> piece list \<times> counters" where
  "convertNode (Text s) c = ([Source s], c)"
| "convertNode (Cdata s) c = ([], c)"
| "convertNode Other c = ([], c)"
| "convertNode (Elem tag attrs nodes) c =
     (case rule_of (to_lower (local_name tag)) of
        Plain f \<Rightarrow> (case convert_all [] nodes c of (ps, c1) \<Rightarrow> (f ps, c1))
      | Titled f g \<Rightarrow>
          (case convert_part ''title'' nodes c of (t, c1) \<Rightarrow>
           case convert_all [''title''] nodes c1 of (ps, c2) \<Rightarrow> (f (titled g t @ ps), c2))
      | Labelled k lbl cls \<Rightarrow>
          (case convert_part ''title'' nodes (case k of None \<Rightarrow> c | Some k \<Rightarrow> count_up k c) of (t, c1) \<Rightarrow>
           case convert_all [''title''] nodes c1 of (ps, c2) \<Rightarrow> (label_box cls lbl (number_of k c1) t ps, c2))
      | Formula f \<Rightarrow> (f [math (Elem tag attrs nodes)], c)
      | Tagged_formula \<Rightarrow>
          (let c1 = count_up Equations c
           in (equation_box [math (Elem tag attrs nodes), Fixed ('' '' @ cmd ''tag{''), Number Equations (c1 Equations), Fixed ''}''], c1))
      | Rows env \<Rightarrow> (rows_box env nodes, c)
      | Figure \<Rightarrow>
          (case convert_all [''caption''] nodes (count_up Figures c) of (ps, c1) \<Rightarrow>
           if list_ex (is_named ''caption'') nodes
           then (case convert_part ''caption'' nodes c1 of (cap, c2) \<Rightarrow> (figure_box True ps (c1 Figures) cap, c2))
           else (figure_box False ps 0 [], c1))
      | Image \<Rightarrow> (image_box attrs nodes, c)
      | Verbatim f \<Rightarrow> (f [Source (text_content (Elem tag attrs nodes))], c)
      | Program \<Rightarrow> (program_box (Elem tag attrs nodes) attrs nodes, c)
      | Link \<Rightarrow>
          (if attribute ''href'' attrs \<noteq> [] then
             (case convert_all [] nodes c of (v, c1) \<Rightarrow>
                (link_box (attribute ''href'' attrs) (if render v = [] then [Source (attribute ''href'' attrs)] else v), c1))
           else
             (case convert_all [] nodes c of (h, c1) \<Rightarrow>
              case convert_all [] nodes c1 of (v, c2) \<Rightarrow>
                (link_box (render h) (if render v = [] then [Source (render h)] else v), c2)))
      | Email \<Rightarrow>
          (case convert_all [] nodes c of (h, c1) \<Rightarrow>
           case convert_all [] nodes c1 of (v, c2) \<Rightarrow> (email_box (render h) v, c2))
      | Footnote \<Rightarrow> (footnote_box (Elem tag attrs nodes), c)
      | Side_by_side \<Rightarrow> (case panels nodes c of (ps, c1) \<Rightarrow> (boxed ''div'' (ptx ''sidebyside'') ps, c1))
      | Included \<Rightarrow> (include_box attrs, c)
      | Replaced ps \<Rightarrow> (ps, c))"
| "convert_all skip [] c = ([], c)"
| "convert_all skip (n # nodes) c =
     (if skipped skip n then convert_all skip nodes c
      else case convertNode n c of (p, c1) \<Rightarrow> case convert_all skip nodes c1 of (ps, c2) \<Rightarrow> (p @ ps, c2))"
| "convert_part name [] c = ([], c)"
| "convert_part name (Elem tag attrs kids # nodes) c =
     (if local_name tag = name then convert_all [] kids c else convert_part name nodes c)"
| "convert_part name (Text s # nodes) c = convert_part name nodes c"
| "convert_part name (Cdata s # nodes) c = convert_part name nodes c"
| "convert_part name (Other # nodes) c = convert_part name nodes c"
| "panels [] c = ([], c)"
| "panels (Elem tag attrs kids # nodes) c =
     (case convertNode (Elem tag attrs kids) c of (p, c1) \<Rightarrow>
      case panels nodes c1 of (ps, c2) \<Rightarrow> (boxed ''div'' (ptx ''sbspanel'') p @ ps, c2))"
| "panels (Text s # nodes) c = panels nodes c"
| "panels (Cdata s # nodes) c = panels nodes c"
| "panels (Other # nodes) c = panels nodes c"

section \<open>The page\<close>

text \<open>The style sheet, the layout guard and the MathJax snippet, which do not depend on the document.\<close>

record page_texts =
  pg_css :: string
  pg_guard :: string
  pg_mathjax :: string
  pg_warning_head :: string

definition start_counters :: counters where "start_counters k = 0"

definition broken :: "dom \<Rightarrow> bool" where "broken root = (first_named [''parsererror''] [root] \<noteq> None)"

definition quoted :: "string \<Rightarrow> string" where "quoted s = [CHR 0x22] @ s @ [CHR 0x22]"

definition preview_page :: "page_texts \<Rightarrow> string \<Rightarrow> string" where
  "preview_page txts body =
     join [newline]
       [''<!DOCTYPE html>'', ''<html lang='' @ quoted ''en'' @ ''>'', ''<head>'', ''  <meta charset='' @ quoted ''utf-8'' @ ''>'',
        ''  <meta name='' @ quoted ''viewport'' @ '' content='' @ quoted ''width=device-width, initial-scale=1'' @ ''>'',
        ''  <title>Live Preview</title>'', ''  <style>'' @ pg_css txts @ ''</style>'', ''  '' @ pg_guard txts, ''  '' @ pg_mathjax txts,
        ''</head>'', ''<body>'' @ body @ ''</body>'', ''</html>'']"

definition warning_page :: "page_texts \<Rightarrow> string \<Rightarrow> string" where
  "warning_page txts xml = pg_warning_head txts @ ''<pre>'' @ escHtml xml @ ''</pre>'' @ [newline] @ ''</body></html>''"

definition pretexToHtml :: "(string \<Rightarrow> dom) \<Rightarrow> page_texts \<Rightarrow> string \<Rightarrow> string" where
  "pretexToHtml parse txts xml =
     (if broken (parse xml) then warning_page txts xml
      else preview_page txts (render (fst (convertNode (parse xml) start_counters))))"

definition isPreTeXtFile :: "string \<Rightarrow> bool" where
  "isPreTeXtFile filename = (to_lower (last (split_on (CHR ''.'') filename)) \<in> {''xml'', ''ptx'', ''pretext''})"

section \<open>The tags nest\<close>

fun html_nest :: "string list \<Rightarrow> piece list \<Rightarrow> string list option" where
  "html_nest opened [] = Some opened"
| "html_nest opened (Open t a # ps) = html_nest (t # opened) ps"
| "html_nest opened (Close t # ps) = (case opened of [] \<Rightarrow> None | u # us \<Rightarrow> if u = t then html_nest us ps else None)"
| "html_nest opened (_ # ps) = html_nest opened ps"

definition balanced :: "piece list \<Rightarrow> bool" where "balanced ps = (\<forall>opened. html_nest opened ps = Some opened)"

lemma html_nest_append: "html_nest opened (a @ b) = (case html_nest opened a of None \<Rightarrow> None | Some o' \<Rightarrow> html_nest o' b)"
  by (induction opened a rule: html_nest.induct) (auto split: list.split)

lemma preview_balanced_append [simp]: "balanced a \<Longrightarrow> balanced b \<Longrightarrow> balanced (a @ b)"
  by (simp add: balanced_def html_nest_append)

lemma preview_balanced_plain [simp]:
  "balanced []" "balanced (Fixed s # ps) = balanced ps" "balanced (Source s # ps) = balanced ps"
  "balanced (Void s # ps) = balanced ps" "balanced (Number k n # ps) = balanced ps" "balanced (indent n # ps) = balanced ps"
  "balanced (math n' # ps) = balanced ps"
  by (simp_all add: balanced_def indent_def math_def)

lemma balanced_within [simp]: "balanced ps \<Longrightarrow> balanced (within (Open t a) t ps)"
  by (simp add: balanced_def within_def html_nest_append)

lemma balanced_boxes [simp]:
  "balanced ps \<Longrightarrow> balanced (el t ps)" "balanced ps \<Longrightarrow> balanced (boxed t c ps)"
  "balanced ps \<Longrightarrow> balanced (equation_box ps)" "balanced ps \<Longrightarrow> balanced (placeholder ps)"
  by (simp_all add: el_def boxed_def classed_def equation_box_def placeholder_def)

fun rule_nests :: "rule \<Rightarrow> bool" where
  "rule_nests (Plain f) = (\<forall>ps. balanced ps \<longrightarrow> balanced (f ps))"
| "rule_nests (Titled f g) = (\<forall>ps. balanced ps \<longrightarrow> balanced (f ps) \<and> balanced (g ps))"
| "rule_nests (Formula f) = (\<forall>ps. balanced ps \<longrightarrow> balanced (f ps))"
| "rule_nests (Verbatim f) = (\<forall>ps. balanced ps \<longrightarrow> balanced (f ps))"
| "rule_nests (Replaced ps) = balanced ps"
| "rule_nests _ = True"

lemma rules_nest:
  "pred_option rule_nests (block_rule tag)" "pred_option rule_nests (math_rule tag)" "pred_option rule_nests (box_rule tag)"
  "pred_option rule_nests (list_rule tag)" "pred_option rule_nests (inline_rule tag)"
  by (simp_all add: block_rule_def math_rule_def box_rule_def list_rule_def inline_rule_def del: insert_iff)

lemma rule_of_nests: "rule_nests (rule_of tag)"
  using rules_nest [of tag]
  by (cases "block_rule tag"; cases "math_rule tag"; cases "box_rule tag"; cases "list_rule tag"; cases "inline_rule tag")
    (simp_all add: rule_of_def)

lemma balanced_leaves [simp]:
  "balanced (rows_box env nodes)" "balanced (image_box attrs nodes)" "balanced (program_box self attrs nodes)"
  "balanced (footnote_box self)" "balanced (include_box attrs)"
  by (simp_all add: rows_box_def math_rows_def image_box_def program_box_def footnote_box_def include_box_def Let_def)

lemma balanced_built [simp]:
  "balanced v \<Longrightarrow> balanced (link_box href v)" "balanced v \<Longrightarrow> balanced (email_box href v)"
  "balanced t \<Longrightarrow> balanced ps \<Longrightarrow> balanced (label_box cls lbl (number_of k c) t ps)"
  "balanced ps \<Longrightarrow> balanced cap \<Longrightarrow> balanced (figure_box b ps n cap)"
  "balanced (g t) \<Longrightarrow> balanced (titled g t)"
  by (simp_all add: link_box_def email_box_def label_box_def figure_box_def titled_def parenthesised_def number_of_def
      split: option.split)

lemma convert_list_balanced:
  assumes "\<forall>n \<in> set nodes. \<forall>c. balanced (fst (convertNode n c))"
  shows "balanced (fst (convert_all skip nodes c))" and "balanced (fst (panels nodes c))"
  using assms
proof (induction nodes arbitrary: c)
  case (Cons n nodes)
  { case 1 then show ?case using Cons by (simp add: split_beta) }
  { case 2 then show ?case using Cons by (cases n) (simp_all add: split_beta) }
qed simp_all

fun kids :: "dom \<Rightarrow> dom list" where
  "kids (Elem tag attrs nodes) = nodes"
| "kids _ = []"

lemma convert_part_balanced:
  "\<forall>n \<in> set nodes. \<forall>c. balanced (fst (convert_all [] (kids n) c)) \<Longrightarrow> balanced (fst (convert_part name nodes c))"
proof (induction nodes)
  case (Cons n nodes)
  then show ?case by (cases n) simp_all
qed simp

lemma element_balanced:
  assumes "\<And>skip c. balanced (fst (convert_all skip nodes c))" and "\<And>c. balanced (fst (panels nodes c))"
    and "\<And>name c. balanced (fst (convert_part name nodes c))"
  shows "balanced (fst (convertNode (Elem tag attrs nodes) c))"
  using assms rule_of_nests [of "to_lower (local_name tag)"]
  by (cases "rule_of (to_lower (local_name tag))") (simp_all add: Let_def split_beta)

lemma convert_balanced:
  "(\<forall>c. balanced (fst (convertNode n c))) \<and> (\<forall>skip c. balanced (fst (convert_all skip (kids n) c)))"
proof (induction n)
  case (Elem tag attrs nodes)
  have kids: "\<forall>n \<in> set nodes. \<forall>c. balanced (fst (convertNode n c))"
    "\<forall>n \<in> set nodes. \<forall>c. balanced (fst (convert_all [] (kids n) c))"
    using Elem by blast+
  show ?case
    using convert_list_balanced [OF kids(1)] convert_part_balanced [OF kids(2)] element_balanced [of nodes] by auto
qed simp_all


section \<open>No number is given twice\<close>

definition numbers :: "counter \<Rightarrow> piece list \<Rightarrow> nat list" where
  "numbers k ps = concat (map (\<lambda>p. case p of Number k' n \<Rightarrow> if k' = k then [n] else [] | _ \<Rightarrow> []) ps)"

definition counted_by :: "string \<Rightarrow> counter option" where
  "counted_by tag =
     (case rule_of (to_lower (local_name tag)) of
        Labelled k _ _ \<Rightarrow> k
      | Tagged_formula \<Rightarrow> Some Equations
      | Figure \<Rightarrow> Some Figures
      | _ \<Rightarrow> None)"

text \<open>No element below is counted by \<open>k\<close>.\<close>

fun free_of :: "counter \<Rightarrow> dom \<Rightarrow> bool" where
  "free_of k (Elem tag attrs nodes) = (counted_by tag \<noteq> Some k \<and> list_all (free_of k) nodes)"
| "free_of k _ = True"

text \<open>What stands before a number in time, but not on the page, is free of elements with the same counter.\<close>

definition early :: "string \<Rightarrow> dom list \<Rightarrow> dom list" where
  "early tag nodes =
     (case rule_of (to_lower (local_name tag)) of
        Figure \<Rightarrow> nodes
      | _ \<Rightarrow> concat (map kids (filter (is_named ''title'') nodes)))"

fun in_turn :: "counter \<Rightarrow> dom \<Rightarrow> bool" where
  "in_turn k (Elem tag attrs nodes) =
     ((counted_by tag = Some k \<longrightarrow> list_all (free_of k) (early tag nodes)) \<and> list_all (in_turn k) nodes)"
| "in_turn k _ = True"

text \<open>The numbers of a list of pieces rise from above \<open>a\<close> up to at most \<open>b\<close>.\<close>

definition rising :: "counter \<Rightarrow> nat \<Rightarrow> piece list \<Rightarrow> nat \<Rightarrow> bool" where
  "rising k a ps b = (a \<le> b \<and> sorted_wrt (<) (numbers k ps) \<and> (\<forall>n \<in> set (numbers k ps). a < n \<and> n \<le> b))"

lemma numbers_append [simp]: "numbers k (a @ b) = numbers k a @ numbers k b"
  by (simp add: numbers_def)

lemma numbers_plain [simp]:
  "numbers k [] = []" "numbers k (Fixed s # ps) = numbers k ps" "numbers k (Source s # ps) = numbers k ps"
  "numbers k (Open t a # ps) = numbers k ps" "numbers k (Close t # ps) = numbers k ps" "numbers k (Void t # ps) = numbers k ps"
  "numbers k (indent n # ps) = numbers k ps" "numbers k (math m # ps) = numbers k ps"
  "numbers k (Number k' n # ps) = (if k' = k then n # numbers k ps else numbers k ps)"
  by (simp_all add: numbers_def indent_def math_def)

lemma numbers_boxes [simp]:
  "numbers k (within op t ps) = numbers k (op # ps)" "numbers k (el t ps) = numbers k ps"
  "numbers k (boxed t c ps) = numbers k ps" "numbers k (equation_box ps) = numbers k ps"
  "numbers k (placeholder ps) = numbers k ps"
proof -
  have w: "numbers k (within op t ps) = numbers k (op # ps)" for op t ps
    using numbers_append [of k "op # ps" "[Close t]"] by (simp add: within_def del: numbers_append)
  then show "numbers k (within op t ps) = numbers k (op # ps)" "numbers k (el t ps) = numbers k ps"
    "numbers k (boxed t c ps) = numbers k ps" "numbers k (equation_box ps) = numbers k ps"
    "numbers k (placeholder ps) = numbers k ps"
    by (simp_all add: el_def boxed_def classed_def equation_box_def placeholder_def)
qed

lemma rising_append: "rising k a ps b \<Longrightarrow> rising k b qs d \<Longrightarrow> rising k a (ps @ qs) d"
  by (fastforce simp: rising_def sorted_wrt_append)

lemma rising_boxed: "rising k a (boxed t c ps) b = rising k a ps b"
  by (simp add: rising_def)

lemma rising_none: "numbers k ps = [] \<Longrightarrow> a \<le> b \<Longrightarrow> rising k a ps b"
  by (simp add: rising_def)

fun rule_keeps :: "counter \<Rightarrow> rule \<Rightarrow> bool" where
  "rule_keeps k (Plain f) = (\<forall>ps. numbers k (f ps) = numbers k ps)"
| "rule_keeps k (Titled f g) = (\<forall>ps. numbers k (f ps) = numbers k ps \<and> numbers k (g ps) = numbers k ps)"
| "rule_keeps k (Formula f) = (\<forall>ps. numbers k (f ps) = numbers k ps)"
| "rule_keeps k (Verbatim f) = (\<forall>ps. numbers k (f ps) = numbers k ps)"
| "rule_keeps k (Replaced ps) = (numbers k ps = [])"
| "rule_keeps k _ = True"

lemma rules_keep:
  "pred_option (rule_keeps k) (block_rule tag)" "pred_option (rule_keeps k) (math_rule tag)"
  "pred_option (rule_keeps k) (box_rule tag)" "pred_option (rule_keeps k) (list_rule tag)"
  "pred_option (rule_keeps k) (inline_rule tag)"
  by (simp_all add: block_rule_def math_rule_def box_rule_def list_rule_def inline_rule_def del: insert_iff)

lemma rule_of_keeps: "rule_keeps k (rule_of tag)"
  using rules_keep [of k tag]
  by (cases "block_rule tag"; cases "math_rule tag"; cases "box_rule tag"; cases "list_rule tag"; cases "inline_rule tag")
    (simp_all add: rule_of_def)

lemma numbers_leaves [simp]:
  "numbers k (rows_box env nodes) = []" "numbers k (image_box attrs nodes) = []" "numbers k (program_box self attrs nodes) = []"
  "numbers k (footnote_box self) = []" "numbers k (include_box attrs) = []" "numbers k (link_box h v) = numbers k v"
  "numbers k (email_box h v) = numbers k v"
  by (simp_all add: rows_box_def math_rows_def image_box_def program_box_def footnote_box_def include_box_def link_box_def
      email_box_def Let_def)

lemma numbers_label [simp]:
  "numbers k (label_box cls lbl num t ps) = numbers k num @ (if render t = [] then [] else numbers k t) @ numbers k ps"
  by (simp add: label_box_def titled_def parenthesised_def)

lemma numbers_figure [simp]:
  "numbers k (figure_box b ps n cap) = numbers k ps @ (if b then (if k = Figures then [n] else []) @ numbers k cap else [])"
  by (simp add: figure_box_def)

lemma numbers_number_of [simp]: "numbers k (number_of k' c) = (if k' = Some k then [c k] else [])"
  by (simp add: number_of_def split: option.split)

type_synonym conversion = "counters \<Rightarrow> piece list \<times> counters"

definition quiet :: "counter \<Rightarrow> conversion \<Rightarrow> bool" where
  "quiet k f = (\<forall>c. numbers k (fst (f c)) = [] \<and> snd (f c) k = c k)"

definition rises :: "counter \<Rightarrow> conversion \<Rightarrow> bool" where
  "rises k f = (\<forall>c. rising k (c k) (fst (f c)) (snd (f c) k))"

lemma quiet_rises: "quiet k f \<Longrightarrow> rises k f"
  by (simp add: quiet_def rises_def rising_none)

lemma quiet_list:
  assumes "\<forall>n \<in> set nodes. quiet k (convertNode n)"
  shows "quiet k (convert_all skip nodes)" and "quiet k (panels nodes)"
  using assms
proof (induction nodes)
  case (Cons n nodes)
  { case 1 then show ?case using Cons(1) by (simp add: quiet_def split_beta) }
  { case 2 then show ?case using Cons(2) by (cases n) (simp_all add: quiet_def split_beta) }
qed (simp_all add: quiet_def)

lemma quiet_part: "\<forall>n \<in> set nodes. is_named name n \<longrightarrow> quiet k (convert_all [] (kids n)) \<Longrightarrow> quiet k (convert_part name nodes)"
proof (induction nodes)
  case (Cons n nodes)
  then show ?case by (cases n) (simp_all add: quiet_def)
qed (simp add: quiet_def)

lemma quiet_element:
  assumes "\<And>skip. quiet k (convert_all skip nodes)" and "quiet k (panels nodes)" and "\<And>name. quiet k (convert_part name nodes)"
    and "counted_by tag \<noteq> Some k"
  shows "quiet k (convertNode (Elem tag attrs nodes))"
  using assms rule_of_keeps [of k "to_lower (local_name tag)"]
  by (cases "rule_of (to_lower (local_name tag))")
    (auto simp: quiet_def Let_def split_beta counted_by_def count_up_def titled_def split: option.split)

lemma free_quiet:
  "(free_of k n \<longrightarrow> quiet k (convertNode n)) \<and> (list_all (free_of k) (kids n) \<longrightarrow> (\<forall>skip. quiet k (convert_all skip (kids n))))"
proof (induction n)
  case (Elem tag attrs nodes)
  show ?case
  proof (intro conjI impI)
    assume "free_of k (Elem tag attrs nodes)"
    then have f: "counted_by tag \<noteq> Some k" "\<forall>n \<in> set nodes. free_of k n" by (auto simp: list_all_iff)
    have "list_all (free_of k) (kids n)" if "n \<in> set nodes" for n using f(2) that by (cases n) auto
    then have "\<forall>n \<in> set nodes. quiet k (convertNode n)" "\<forall>n \<in> set nodes. \<forall>skip. quiet k (convert_all skip (kids n))"
      using f(2) Elem by blast+
    then show "quiet k (convertNode (Elem tag attrs nodes))"
      using f(1) by (intro quiet_element quiet_list quiet_part) auto
  next
    assume "list_all (free_of k) (kids (Elem tag attrs nodes))"
    then have "\<forall>n \<in> set nodes. quiet k (convertNode n)" using Elem by (auto simp: list_all_iff)
    then show "\<forall>skip. quiet k (convert_all skip (kids (Elem tag attrs nodes)))" by (simp add: quiet_list)
  qed
qed (simp_all add: quiet_def)

lemma free_all_quiet: "list_all (free_of k) nodes \<Longrightarrow> quiet k (convert_all skip nodes)"
  using quiet_list free_quiet by (auto simp: list_all_iff)

lemma free_part_quiet:
  "list_all (free_of k) (concat (map kids (filter (is_named name) nodes))) \<Longrightarrow> quiet k (convert_part name nodes)"
  by (rule quiet_part) (auto simp: list_all_iff intro!: free_all_quiet)

lemma rises_list:
  assumes "\<forall>n \<in> set nodes. rises k (convertNode n)"
  shows "rises k (convert_all skip nodes)" and "rises k (panels nodes)"
  using assms
proof (induction nodes)
  case (Cons n nodes)
  { case 1 then show ?case using Cons(1) by (auto simp: rises_def split_beta intro: rising_append) }
  { case 2
    have rest: "rises k (panels nodes)" using Cons(2) 2 by simp
    show ?case
    proof (cases n)
      case (Elem tag attrs ns)
      let ?b = "boxed ''div'' (ptx ''sbspanel'')"
      have "rising k (c k) (?b (fst (convertNode n c)) @ fst (panels nodes (snd (convertNode n c))))
          (snd (panels nodes (snd (convertNode n c))) k)" for c
        using 2 rest by (intro rising_append) (auto simp: rises_def rising_boxed)
      then show ?thesis by (simp add: rises_def split_beta Elem)
    qed (use rest in \<open>simp_all add: rises_def\<close>) }
qed (simp_all add: rises_def rising_none)

lemma rises_part: "\<forall>n \<in> set nodes. rises k (convert_all [] (kids n)) \<Longrightarrow> rises k (convert_part name nodes)"
proof (induction nodes)
  case (Cons n nodes)
  then show ?case by (cases n) (simp_all add: rises_def)
qed (simp add: rises_def rising_none)

lemma rising_same: "numbers k ps = numbers k qs \<Longrightarrow> rising k a ps b \<Longrightarrow> rising k a qs b"
  by (simp add: rising_def)

lemma rising_weaken: "rising k b ps d \<Longrightarrow> a \<le> b \<Longrightarrow> rising k a ps d"
  by (auto simp: rising_def)

lemma rising_le: "rising k a ps b \<Longrightarrow> a \<le> b"
  by (simp add: rising_def)

lemma rising_number: "rising k b ps d \<Longrightarrow> a < b \<Longrightarrow> rising k a (Number k b # ps) d"
  by (auto simp: rising_def)

text \<open>The parts of an element follow one another in time as on the page.\<close>

lemma two_parts_rise:
  assumes "rises k f" and "rises k g"
  shows "rising k (c k) (fst (f c) @ fst (g (snd (f c)))) (snd (g (snd (f c))) k)"
  using assms by (auto simp: rises_def intro: rising_append)

lemma labelled_rises:
  assumes "rises k part" and "rises k all" and "k' = Some k \<Longrightarrow> quiet k part"
  shows "rises k (\<lambda>c. case part (case k' of None \<Rightarrow> c | Some j \<Rightarrow> count_up j c) of (t, c1) \<Rightarrow>
           case all c1 of (ps, c2) \<Rightarrow> (label_box cls lbl (number_of k' c1) t ps, c2))"
  unfolding rises_def
proof
  fix c :: counters
  let ?c = "case k' of None \<Rightarrow> c | Some j \<Rightarrow> count_up j c"
  let ?t = "fst (part ?c)" and ?c1 = "snd (part ?c)"
  let ?ps = "fst (all ?c1)" and ?c2 = "snd (all ?c1)"
  have all: "rising k (?c1 k) ?ps (?c2 k)" using assms(2) by (simp add: rises_def)
  have "rising k (c k) (label_box cls lbl (number_of k' ?c1) ?t ?ps) (?c2 k)"
  proof (cases "k' = Some k")
    case True
    have q: "numbers k ?t = []" "?c1 k = Suc (c k)" using assms(3) [OF True] True by (simp_all add: quiet_def count_up_def)
    have "rising k (c k) (Number k (?c1 k) # ?ps) (?c2 k)" using all q(2) by (intro rising_number) simp_all
    then show ?thesis by (rule rising_same [rotated]) (use q(1) True in simp)
  next
    case False
    then have same: "?c k = c k" by (auto simp: count_up_def split: option.split)
    have part: "rising k (c k) ?t (?c1 k)" using assms(1) same unfolding rises_def by metis
    show ?thesis
    proof (cases "render ?t = []")
      case True
      then show ?thesis
        by (intro rising_same [rotated, OF rising_weaken [OF all rising_le [OF part]]]) (simp add: False True)
    next
      case ne: False
      then show ?thesis
        by (intro rising_same [rotated, OF rising_append [OF part all]]) (simp add: False ne)
    qed
  qed
  then show "rising k (c k) (fst (case part ?c of (t, c1) \<Rightarrow> case all c1 of (ps, c2) \<Rightarrow> (label_box cls lbl (number_of k' c1) t ps, c2)))
      (snd (case part ?c of (t, c1) \<Rightarrow> case all c1 of (ps, c2) \<Rightarrow> (label_box cls lbl (number_of k' c1) t ps, c2)) k)"
    by (simp add: split_beta)
qed

lemma figure_rises:
  assumes "rises k all" and "rises k cap" and "k = Figures \<Longrightarrow> quiet k all"
  shows "rises k (\<lambda>c. case all (count_up Figures c) of (ps, c1) \<Rightarrow>
           if b then (case cap c1 of (q, c2) \<Rightarrow> (figure_box True ps (c1 Figures) q, c2)) else (figure_box False ps 0 [], c1))"
  unfolding rises_def
proof
  fix c :: counters
  let ?ps = "fst (all (count_up Figures c))" and ?c1 = "snd (all (count_up Figures c))"
  let ?q = "fst (cap ?c1)" and ?c2 = "snd (cap ?c1)"
  have cap: "rising k (?c1 k) ?q (?c2 k)" using assms(2) by (simp add: rises_def)
  have both: "rising k (c k) (figure_box True ?ps (?c1 Figures) ?q) (?c2 k) \<and> rising k (c k) (figure_box False ?ps 0 []) (?c1 k)"
  proof (cases "k = Figures")
    case True
    have q: "numbers k ?ps = []" "?c1 k = Suc (c k)" using assms(3) [OF True] True by (simp_all add: quiet_def count_up_def)
    have "rising k (c k) (Number k (?c1 k) # ?q) (?c2 k)" using cap q(2) by (intro rising_number) simp_all
    then have "rising k (c k) (figure_box True ?ps (?c1 Figures) ?q) (?c2 k)"
      by (rule rising_same [rotated]) (use q(1) True in simp)
    then show ?thesis using q by (simp add: rising_none)
  next
    case False
    then have same: "count_up Figures c k = c k" by (simp add: count_up_def)
    have all: "rising k (c k) ?ps (?c1 k)" using assms(1) same unfolding rises_def by metis
    from rising_append [OF all cap] have "rising k (c k) (figure_box True ?ps (?c1 Figures) ?q) (?c2 k)"
      by (rule rising_same [rotated]) (simp add: False)
    moreover from all have "rising k (c k) (figure_box False ?ps 0 []) (?c1 k)" by (rule rising_same [rotated]) simp
    ultimately show ?thesis by blast
  qed
  then show "rising k (c k)
      (fst (case all (count_up Figures c) of (ps, c1) \<Rightarrow>
         if b then (case cap c1 of (q, c2) \<Rightarrow> (figure_box True ps (c1 Figures) q, c2)) else (figure_box False ps 0 [], c1)))
      (snd (case all (count_up Figures c) of (ps, c1) \<Rightarrow>
         if b then (case cap c1 of (q, c2) \<Rightarrow> (figure_box True ps (c1 Figures) q, c2)) else (figure_box False ps 0 [], c1)) k)"
    by (simp add: split_beta)
qed

lemma rises_element:
  assumes "\<And>skip. rises k (convert_all skip nodes)" and "rises k (panels nodes)" and "\<And>name. rises k (convert_part name nodes)"
    and "counted_by tag = Some k \<Longrightarrow> list_all (free_of k) (early tag nodes)"
  shows "rises k (convertNode (Elem tag attrs nodes))"
proof -
  note keep = rule_of_keeps [of k "to_lower (local_name tag)"]
  have all: "rising k (c k) (fst (convert_all skip nodes c)) (snd (convert_all skip nodes c) k)" for skip c
    using assms(1) by (simp add: rises_def)
  note once = all [of _ "[]"]
  have twice: "rising k (c k) (fst (convert_all [] nodes (snd (convert_all [] nodes c))))
      (snd (convert_all [] nodes (snd (convert_all [] nodes c))) k)" for c
    using once [of "snd (convert_all [] nodes c)"] rising_le [OF once [of c]] by (rule rising_weaken)
  show ?thesis
  proof (cases "rule_of (to_lower (local_name tag))")
    case (Plain f)
    have "rising k (c k) (f (fst (convert_all [] nodes c))) (snd (convert_all [] nodes c) k)" for c
      using all by (rule rising_same [rotated]) (use keep Plain in simp)
    then show ?thesis by (simp add: rises_def split_beta Plain)
  next
    case (Titled f g)
    have "rising k (c k) (f (titled g (fst (convert_part ''title'' nodes c)) @ fst (convert_all [''title''] nodes (snd (convert_part ''title'' nodes c)))))
        (snd (convert_all [''title''] nodes (snd (convert_part ''title'' nodes c))) k)" for c
    proof (cases "render (fst (convert_part ''title'' nodes c)) = []")
      case True
      have "c k \<le> snd (convert_part ''title'' nodes c) k" using assms(3) [of "''title''"] by (auto simp: rises_def dest: rising_le)
      with all have "rising k (c k) (fst (convert_all [''title''] nodes (snd (convert_part ''title'' nodes c))))
          (snd (convert_all [''title''] nodes (snd (convert_part ''title'' nodes c))) k)" by (rule rising_weaken)
      then show ?thesis by (rule rising_same [rotated]) (use keep Titled True in \<open>simp add: titled_def\<close>)
    next
      case False
      from two_parts_rise [OF assms(3) [of "''title''"] assms(1) [of "[''title'']"], of c] show ?thesis
        by (rule rising_same [rotated]) (use keep Titled False in \<open>simp add: titled_def\<close>)
    qed
    then show ?thesis using Titled by (simp add: rises_def split_beta)
  next
    case (Labelled k' lbl cls)
    have "quiet k (convert_part ''title'' nodes)" if "k' = Some k"
      using assms(4) that Labelled by (intro free_part_quiet) (simp add: counted_by_def early_def)
    from labelled_rises [OF assms(3) assms(1) this] show ?thesis using Labelled by (simp add: rises_def)
  next
    case Figure
    have "quiet k (convert_all [''caption''] nodes)" if "k = Figures"
      using assms(4) that Figure by (intro free_all_quiet) (simp add: counted_by_def early_def)
    from figure_rises [OF assms(1) assms(3) this] show ?thesis using Figure by (simp add: rises_def)
  next
    case Link
    have "rising k (c k) (link_box h (if render v = [] then [Source s] else v)) b" if "rising k (c k) v b" for c h v s b
      using that by (auto intro: rising_same [rotated] rising_none rising_le)
    then show ?thesis using Link once twice by (simp add: rises_def split_beta)
  next
    case Email
    have "rising k (c k) (email_box h v) b" if "rising k (c k) v b" for c h v b
      using that by (rule rising_same [rotated]) simp
    then show ?thesis using Email twice by (simp add: rises_def split_beta)
  next
    case Side_by_side
    then show ?thesis using assms(2) by (auto simp: rises_def split_beta rising_boxed)
  next
    case Tagged_formula
    then show ?thesis by (auto simp: rises_def Let_def count_up_def rising_def)
  qed (use keep in \<open>auto simp: rises_def rising_none\<close>)
qed

text \<open>
  Claim C27. Unless something with the same counter stands in the title of a numbered box, or a figure in a figure, the numbers
  of a kind in a preview rise from one to the next: no number is given twice, and none exceeds the final count.
\<close>

theorem preview_numbers_rise:
  assumes "in_turn k n"
  shows "rising k (c k) (fst (convertNode n c)) (snd (convertNode n c) k)"
proof -
  have "(in_turn k n \<longrightarrow> rises k (convertNode n)) \<and> (list_all (in_turn k) (kids n) \<longrightarrow> (\<forall>skip. rises k (convert_all skip (kids n))))"
  proof (induction n)
    case (Elem tag attrs nodes)
    show ?case
    proof (intro conjI impI)
      assume "in_turn k (Elem tag attrs nodes)"
      then have t: "counted_by tag = Some k \<Longrightarrow> list_all (free_of k) (early tag nodes)" "\<forall>n \<in> set nodes. in_turn k n"
        by (auto simp: list_all_iff)
      have "list_all (in_turn k) (kids n)" if "n \<in> set nodes" for n using t(2) that by (cases n) auto
      then have "\<forall>n \<in> set nodes. rises k (convertNode n)" "\<forall>n \<in> set nodes. \<forall>skip. rises k (convert_all skip (kids n))"
        using t(2) Elem by blast+
      then show "rises k (convertNode (Elem tag attrs nodes))"
        using t(1) by (intro rises_element rises_list rises_part) auto
    next
      assume "list_all (in_turn k) (kids (Elem tag attrs nodes))"
      then have "\<forall>n \<in> set nodes. rises k (convertNode n)" using Elem by (auto simp: list_all_iff)
      then show "\<forall>skip. rises k (convert_all skip (kids (Elem tag attrs nodes)))" by (simp add: rises_list)
    qed
  qed (simp_all add: rises_def rising_none)
  with assms show ?thesis by (simp add: rises_def)
qed

definition two_statements :: dom where
  "two_statements =
     Elem ''section'' [] [Elem ''title'' [] [Text ''S''],
       Elem ''theorem'' [] [Elem ''title'' [] [Text ''T''], Elem ''figure'' [] []], Elem ''lemma'' [] [Text ''L'']]"

lemma preview_numbers_rise_witness:
  "in_turn Theorems two_statements \<and> numbers Theorems (fst (convertNode two_statements start_counters)) = [1, 2]
   \<and> rising Theorems (start_counters Theorems) (fst (convertNode two_statements start_counters))
       (snd (convertNode two_statements start_counters) Theorems)"
proof -
  have "in_turn Theorems two_statements" by code_simp
  moreover have "numbers Theorems (fst (convertNode two_statements start_counters)) = [1, 2]" by code_simp
  ultimately show ?thesis using preview_numbers_rise by blast
qed

section \<open>What the conversion does not keep\<close>

text \<open>Text is put into the page as it is: what the XML parser decoded to a tag is one in the preview.\<close>

lemma decoded_text_is_markup:
  "render (fst (convertNode (Elem ''p'' [] [Text ''<img onerror=f()>'']) c)) = ''<p><img onerror=f()></p>''"
  by code_simp

text \<open>A figure around another is given the number of the inner one.\<close>

lemma outer_figure_has_inner_number:
  "numbers Figures (fst (convertNode
     (Elem ''figure'' [] [Elem ''figure'' [] [Elem ''caption'' [] [Text ''a'']], Elem ''caption'' [] [Text ''b'']]) start_counters)) = [2, 2]"
  by code_simp

text \<open>A CDATA section, in which PreTeXt authors write text with special characters, is dropped.\<close>

lemma cdata_is_dropped: "render (fst (convertNode (Elem ''p'' [] [Cdata s]) c)) = ''<p></p>''"
  by code_simp

text \<open>The pages of the two outcomes, and that a broken document shows its text as text.\<close>

lemma broken_document_is_escaped:
  assumes "broken (parse xml)"
  shows "pretexToHtml parse txts xml = pg_warning_head txts @ ''<pre>'' @ escHtml xml @ ''</pre>'' @ [newline] @ ''</body></html>''"
    and "CHR ''<'' \<notin> set (escHtml xml)" "CHR ''>'' \<notin> set (escHtml xml)"
  using assms by (auto simp: pretexToHtml_def warning_page_def escHtml_def)

end
