(* ===== verification/RuntimeConfig.thy ===== *)
theory RuntimeConfig imports RateLimiter PathContainment begin

text \<open>
  \<^verbatim>\<open>backend/src/utils/runtimeConfig.ts\<close> and the start of \<^verbatim>\<open>backend/src/server.ts\<close>: what the
  server reads from its environment, which settings it refuses, and when it starts. Whether the docker socket exists and
  the working directory are parameters; the port is kept as it is written.

  The theorem says exactly with which settings a production server starts, and that such a server has neither the local
  test login of \<open>AuthRoutes\<close> nor the unlimited routes of \<open>RateLimiter\<close>.
\<close>

section \<open>Reading the environment\<close>

definition TRUE_VALUES :: "string list" where "TRUE_VALUES = [''1'', ''true'', ''yes'', ''on'']"

definition switched_on :: "string option \<Rightarrow> bool" where
  "switched_on v = (to_lower (trim (opt_str v)) \<in> set TRUE_VALUES)"

definition isAbsoluteHttpUrl :: "string \<Rightarrow> bool" where
  "isAbsoluteHttpUrl s = (starts_with ''http://'' (to_lower s) \<or> starts_with ''https://'' (to_lower s))"

text \<open>\<^verbatim>\<open>(?:\.\d+){n}\<close> at the start of a text: what is behind it.\<close>

fun dotted :: "nat \<Rightarrow> string \<Rightarrow> string option" where
  "dotted 0 s = Some s"
| "dotted (Suc n) s =
     (case s of [] \<Rightarrow> None
      | x # xs \<Rightarrow> if x = CHR ''.'' \<and> takeWhile is_digit xs \<noteq> [] then dotted n (dropWhile is_digit xs) else None)"

definition behind_local_host :: "string \<Rightarrow> string option" where
  "behind_local_host s =
     (if starts_with ''localhost'' s then Some (drop 9 s)
      else if starts_with ''127'' s then dotted 3 (drop 3 s) else None)"

definition behind_port :: "string \<Rightarrow> string" where
  "behind_port s =
     (if starts_with '':'' s \<and> takeWhile is_digit (tl s) \<noteq> [] then dropWhile is_digit (tl s) else s)"

definition isLocalHttpUrl :: "string \<Rightarrow> bool" where
  "isLocalHttpUrl s =
     (let l = to_lower s
      in isAbsoluteHttpUrl s
         \<and> (case behind_local_host (drop (if starts_with ''https://'' l then 8 else 7) l) of
              None \<Rightarrow> False
            | Some r \<Rightarrow> (case behind_port r of [] \<Rightarrow> True | x # _ \<Rightarrow> x = CHR ''/'')))"

definition countCsvEntries :: "string option \<Rightarrow> nat" where
  "countCsvEntries v = length (filter (\<lambda>e. e \<noteq> []) (map trim (split_on (CHR '','') (opt_str v))))"

definition DEFAULT_DATA_ROOT :: string where "DEFAULT_DATA_ROOT = ''/tmp/mra-builds''"

definition getProofdeskDataRoot :: "string \<Rightarrow> env \<Rightarrow> string" where
  "getProofdeskDataRoot cwd env = path_resolve cwd [str_or (opt_str (env ''PROOFDESK_DATA_DIR'')) DEFAULT_DATA_ROOT]"

datatype shared_backend = Redis_backend | Filesystem_backend

record runtime_config =
  rc_nodeEnv :: string
  rc_port :: string
  rc_frontendUrl :: string
  rc_githubRedirectUri :: string
  rc_clientId :: bool
  rc_clientSecret :: bool
  rc_redirectUri :: bool
  rc_sessionSecret :: bool
  rc_localTestMode :: bool
  rc_prewarm :: nat
  rc_shell :: string
  rc_docker :: bool
  rc_dataRoot :: string
  rc_dataRootExplicit :: bool
  rc_backend :: shared_backend
  rc_redisUrl :: bool

definition getRuntimeConfig :: "string \<Rightarrow> bool \<Rightarrow> env \<Rightarrow> runtime_config" where
  "getRuntimeConfig cwd docker env =
     (let uri = (if hasConfiguredValue (env ''GITHUB_REDIRECT_URI'') then opt_str (env ''GITHUB_REDIRECT_URI'') else [])
      in \<lparr>rc_nodeEnv = str_or (opt_str (env ''NODE_ENV'')) ''development'',
          rc_port = str_or (opt_str (env ''PORT'')) ''4000'',
          rc_frontendUrl = opt_str (env ''FRONTEND_URL''),
          rc_githubRedirectUri = uri,
          rc_clientId = hasConfiguredValue (env ''GITHUB_CLIENT_ID''),
          rc_clientSecret = hasConfiguredValue (env ''GITHUB_CLIENT_SECRET''),
          rc_redirectUri = hasConfiguredValue (Some uri),
          rc_sessionSecret = hasConfiguredValue
            (Some (str_or (opt_str (env ''PROOFDESK_SESSION_SECRET'')) (opt_str (env ''SESSION_ENCRYPTION_SECRET'')))),
          rc_localTestMode = switched_on (env ''ENABLE_LOCAL_TEST_MODE''),
          rc_prewarm = countCsvEntries (env ''PREWARM_REPOS''),
          rc_shell = opt_str (env ''SHELL''),
          rc_docker = docker,
          rc_dataRoot = getProofdeskDataRoot cwd env,
          rc_dataRootExplicit = (trim (opt_str (env ''PROOFDESK_DATA_DIR'')) \<noteq> []),
          rc_backend =
            (if to_lower (trim (str_or (opt_str (env ''PROOFDESK_SHARED_STATE_BACKEND'')) ''filesystem'')) = ''redis''
             then Redis_backend else Filesystem_backend),
          rc_redisUrl = hasConfiguredValue (env ''PROOFDESK_REDIS_URL'')\<rparr>)"

section \<open>The checks\<close>

text \<open>An issue is a code with its message; a check pushes issues to the errors (\<open>True\<close>) or to the warnings.\<close>

type_synonym issue = "string \<times> string"
type_synonym pushed = "(bool \<times> issue) list"

definition by_mode :: "bool \<Rightarrow> string \<Rightarrow> string \<Rightarrow> string \<Rightarrow> pushed" where
  "by_mode strict code strict_message message = [(strict, (code, if strict then strict_message else message))]"

definition githubOauthConfigured :: "runtime_config \<Rightarrow> bool" where
  "githubOauthConfigured c = (rc_clientId c \<and> rc_clientSecret c \<and> rc_redirectUri c)"

definition check_frontend :: "bool \<Rightarrow> runtime_config \<Rightarrow> pushed" where
  "check_frontend strict c =
     (if rc_frontendUrl c = [] then
        by_mode strict ''frontend_url_missing''
          ''FRONTEND_URL must be set so OAuth callbacks and repository links resolve to the deployed frontend.''
          ''FRONTEND_URL is not set. Development will fall back to http://localhost:3000.''
      else if \<not> isAbsoluteHttpUrl (rc_frontendUrl c) then
        [(True, (''frontend_url_invalid'', ''FRONTEND_URL must be an absolute http(s) URL.''))]
      else if isLocalHttpUrl (rc_frontendUrl c) then
        by_mode strict ''frontend_url_local''
          ''FRONTEND_URL cannot point to localhost in a deployment-grade environment.''
          ''FRONTEND_URL is using localhost, which is fine for local development but not for public deployment.''
      else [])"

definition check_login :: "bool \<Rightarrow> runtime_config \<Rightarrow> pushed" where
  "check_login strict c =
     (if (rc_clientId c \<or> rc_clientSecret c) \<and> \<not> githubOauthConfigured c then
        [(True, (''github_oauth_incomplete'',
          ''GitHub OAuth is only partially configured. Set GITHUB_CLIENT_ID, GITHUB_CLIENT_SECRET, and GITHUB_REDIRECT_URI together.''))]
      else [])
     @ (if \<not> githubOauthConfigured c \<and> \<not> rc_localTestMode c then
          [(True, (''auth_unavailable'',
            ''No authentication provider is enabled. Configure GitHub OAuth or local test mode.''))] else [])
     @ (if githubOauthConfigured c \<and> \<not> rc_sessionSecret c then
          by_mode strict ''session_secret_missing''
            ''Set PROOFDESK_SESSION_SECRET so OAuth tokens are encrypted at rest in the session store.''
            ''PROOFDESK_SESSION_SECRET is not set. Proofdesk will avoid persisting reusable OAuth sessions across restarts.''
        else [])"

definition check_redirect :: "bool \<Rightarrow> runtime_config \<Rightarrow> pushed" where
  "check_redirect strict c =
     (if rc_githubRedirectUri c = [] then []
      else if \<not> isAbsoluteHttpUrl (rc_githubRedirectUri c) then
        [(True, (''github_redirect_uri_invalid'', ''GITHUB_REDIRECT_URI must be an absolute http(s) URL.''))]
      else if isLocalHttpUrl (rc_githubRedirectUri c) then
        by_mode strict ''github_redirect_uri_local''
          ''GITHUB_REDIRECT_URI cannot point to localhost in a deployment-grade environment.''
          ''GITHUB_REDIRECT_URI is using localhost, which is fine for local development but not for public deployment.''
      else [])"

definition check_deployment :: "bool \<Rightarrow> runtime_config \<Rightarrow> pushed" where
  "check_deployment strict c =
     (if rc_nodeEnv c = ''production'' \<and> rc_localTestMode c then
        [(True, (''local_test_mode_enabled'',
          ''ENABLE_LOCAL_TEST_MODE should be disabled in production so only real repository access is exposed.''))] else [])
     @ (if strict \<and> \<not> rc_dataRootExplicit c then
          [(True, (''data_root_ephemeral'',
            ''Set PROOFDESK_DATA_DIR to persistent storage instead of the default '' @ DEFAULT_DATA_ROOT @ ''.''))] else [])
     @ (if rc_backend c = Redis_backend \<and> \<not> rc_redisUrl c then
          [(True, (''redis_url_missing'', ''Set PROOFDESK_REDIS_URL when PROOFDESK_SHARED_STATE_BACKEND=redis.''))] else [])
     @ (if strict \<and> rc_backend c \<noteq> Redis_backend then
          [(True, (''shared_state_single_node'',
            ''Set PROOFDESK_SHARED_STATE_BACKEND=redis so collaboration and invite codes work across multiple deployed instances.''))]
        else [])
     @ (if \<not> rc_docker c then
          by_mode strict ''docker_socket_unavailable''
            ''Docker is not reachable at /var/run/docker.sock, so preview builds will fail after deployment.''
            ''Docker is not reachable at /var/run/docker.sock. Preview builds may fail until Docker is available.''
        else [])"

definition check_demo :: "runtime_config \<Rightarrow> pushed" where
  "check_demo c =
     (if \<not> githubOauthConfigured c \<and> rc_localTestMode c then
        [(False, (''oauth_disabled'',
          ''GitHub OAuth is disabled, so local demo mode is the only sign-in path until OAuth credentials are configured.''))] else [])
     @ (if rc_prewarm c = 0 then
          [(False, (''prewarm_empty'',
            ''PREWARM_REPOS is empty. The first repository build after deployment may take longer than usual.''))] else [])"

record runtime_validation =
  rv_config :: runtime_config
  rv_oauth :: bool
  rv_errors :: "issue list"
  rv_warnings :: "issue list"
  rv_ready :: bool

definition is_strict :: "env \<Rightarrow> bool \<Rightarrow> bool" where
  "is_strict env strict_option =
     (if hasConfiguredValue (env ''PROOFDESK_STRICT_CONFIG'') then switched_on (env ''PROOFDESK_STRICT_CONFIG'')
      else strict_option \<or> str_or (opt_str (env ''NODE_ENV'')) ''development'' = ''production'')"

definition validateRuntimeConfig :: "string \<Rightarrow> bool \<Rightarrow> env \<Rightarrow> bool \<Rightarrow> runtime_validation" where
  "validateRuntimeConfig cwd docker env strict_option =
     (let c = getRuntimeConfig cwd docker env; strict = is_strict env strict_option;
          pushed = check_frontend strict c @ check_login strict c @ check_redirect strict c @ check_deployment strict c @ check_demo c;
          errors = map snd (filter fst pushed)
      in \<lparr>rv_config = c, rv_oauth = githubOauthConfigured c, rv_errors = errors,
          rv_warnings = map snd (filter (\<lambda>p. \<not> fst p) pushed), rv_ready = (errors = [])\<rparr>)"

definition formatRuntimeValidation :: "runtime_validation \<Rightarrow> string" where
  "formatRuntimeValidation v =
     (let items = map (\<lambda>e. ''- '' @ snd e);
          ls = (if rv_errors v \<noteq> [] then ''Errors:'' # items (rv_errors v) else [])
               @ (if rv_warnings v \<noteq> [] then ''Warnings:'' # items (rv_warnings v) else [])
      in join [newline] (if ls = [] then [''No runtime configuration issues detected.''] else ls))"

definition getReadinessPayload :: "string \<Rightarrow> bool \<Rightarrow> env \<Rightarrow> bool \<Rightarrow> jsval" where
  "getReadinessPayload cwd docker env strict_option =
     (let v = validateRuntimeConfig cwd docker env strict_option; c = rv_config v;
          issues = (\<lambda>is. JArr (map (\<lambda>(code, message). JObj [(''code'', JStr code), (''message'', JStr message)]) is))
      in JObj [(''status'', JStr (if rv_ready v then ''READY'' else ''DEGRADED'')), (''ready'', JBool (rv_ready v)),
               (''mode'', JStr (rc_nodeEnv c)),
               (''config'', JObj [(''port'', JStr (rc_port c)),
                  (''frontendUrl'', JStr (str_or (rc_frontendUrl c) ''http://localhost:3000'')),
                  (''githubOauthConfigured'', JBool (rv_oauth v)), (''sessionSecretConfigured'', JBool (rc_sessionSecret c)),
                  (''localTestModeEnabled'', JBool (rc_localTestMode c)), (''prewarmRepoCount'', JNum (int (rc_prewarm c))),
                  (''dockerSocketAvailable'', JBool (rc_docker c)), (''proofdeskDataRoot'', JStr (rc_dataRoot c))]),
               (''errors'', issues (rv_errors v)), (''warnings'', issues (rv_warnings v))])"

text \<open>The first step of the server: it throws in production if a setting is refused.\<close>

definition startServer :: "string \<Rightarrow> bool \<Rightarrow> env \<Rightarrow> string + runtime_validation" where
  "startServer cwd docker env =
     (let production = (env ''NODE_ENV'' = Some ''production''); v = validateRuntimeConfig cwd docker env production
      in if \<not> rv_ready v \<and> production
         then Inl (''Runtime configuration invalid.'' @ [newline] @ formatRuntimeValidation v) else Inr v)"

section \<open>Which servers start\<close>

definition public_url :: "string \<Rightarrow> bool" where "public_url s = (isAbsoluteHttpUrl s \<and> \<not> isLocalHttpUrl s)"

definition no_errors :: "pushed \<Rightarrow> bool" where "no_errors ps = list_all (\<lambda>p. \<not> fst p) ps"

lemma no_errors_simps [simp]:
  "no_errors []" "no_errors (a @ b) \<longleftrightarrow> no_errors a \<and> no_errors b" "no_errors [(e, i)] \<longleftrightarrow> \<not> e"
  by (auto simp: no_errors_def)

lemma not_absolute_Nil [simp]: "\<not> isAbsoluteHttpUrl []"
  by (simp add: isAbsoluteHttpUrl_def to_lower_def)

lemma by_mode_errors [simp]: "no_errors (by_mode strict code a b) \<longleftrightarrow> \<not> strict"
  by (simp add: by_mode_def)

lemma frontend_errors:
  "no_errors (check_frontend strict c) \<longleftrightarrow>
     (if strict then public_url (rc_frontendUrl c) else rc_frontendUrl c = [] \<or> isAbsoluteHttpUrl (rc_frontendUrl c))"
  by (auto simp: check_frontend_def public_url_def)

lemma login_errors:
  "no_errors (check_login strict c) \<longleftrightarrow>
     (if githubOauthConfigured c then strict \<longrightarrow> rc_sessionSecret c
      else rc_localTestMode c \<and> \<not> rc_clientId c \<and> \<not> rc_clientSecret c)"
  by (auto simp: check_login_def)

lemma redirect_errors:
  "no_errors (check_redirect strict c) \<longleftrightarrow>
     rc_githubRedirectUri c = [] \<or> (if strict then public_url (rc_githubRedirectUri c) else isAbsoluteHttpUrl (rc_githubRedirectUri c))"
  by (auto simp: check_redirect_def public_url_def)

lemma deployment_errors:
  "no_errors (check_deployment strict c) \<longleftrightarrow>
     \<not> (rc_nodeEnv c = ''production'' \<and> rc_localTestMode c) \<and> (rc_backend c = Redis_backend \<longrightarrow> rc_redisUrl c)
     \<and> (strict \<longrightarrow> rc_dataRootExplicit c \<and> rc_backend c = Redis_backend \<and> rc_docker c)"
  by (auto simp: check_deployment_def)

lemma demo_errors: "no_errors (check_demo c)"
  by (simp add: check_demo_def)

lemmas check_errors = frontend_errors login_errors redirect_errors deployment_errors demo_errors

lemma ready_iff:
  "rv_ready (validateRuntimeConfig cwd docker env so) \<longleftrightarrow>
     (\<forall>check \<in> {check_frontend, check_login, check_redirect, check_deployment}.
        no_errors (check (is_strict env so) (getRuntimeConfig cwd docker env)))"
proof -
  have "filter fst ps = [] \<longleftrightarrow> no_errors ps" for ps :: pushed by (auto simp: no_errors_def filter_empty_conv list_all_iff)
  then show ?thesis by (simp add: validateRuntimeConfig_def Let_def demo_errors del: filter_append)
qed

lemma configured_uri:
  "rc_redirectUri (getRuntimeConfig cwd docker env) = hasConfiguredValue (env ''GITHUB_REDIRECT_URI'')"
  "hasConfiguredValue (env ''GITHUB_REDIRECT_URI'') \<Longrightarrow>
     rc_githubRedirectUri (getRuntimeConfig cwd docker env) = opt_str (env ''GITHUB_REDIRECT_URI'')"
  "hasConfiguredValue (env ''GITHUB_REDIRECT_URI'') \<Longrightarrow> opt_str (env ''GITHUB_REDIRECT_URI'') \<noteq> []"
  by (cases "env ''GITHUB_REDIRECT_URI''"; auto simp: getRuntimeConfig_def hasConfiguredValue_def trim_def trim_start_def trim_end_def Let_def)+

definition setting :: "env \<Rightarrow> string \<Rightarrow> bool" where "setting env name = hasConfiguredValue (env name)"

lemma config_fields [simp]:
  "rc_nodeEnv (getRuntimeConfig cwd docker env) = str_or (opt_str (env ''NODE_ENV'')) ''development''"
  "rc_frontendUrl (getRuntimeConfig cwd docker env) = opt_str (env ''FRONTEND_URL'')"
  "rc_clientId (getRuntimeConfig cwd docker env) = hasConfiguredValue (env ''GITHUB_CLIENT_ID'')"
  "rc_clientSecret (getRuntimeConfig cwd docker env) = hasConfiguredValue (env ''GITHUB_CLIENT_SECRET'')"
  "rc_localTestMode (getRuntimeConfig cwd docker env) = switched_on (env ''ENABLE_LOCAL_TEST_MODE'')"
  "rc_docker (getRuntimeConfig cwd docker env) = docker"
  "rc_dataRootExplicit (getRuntimeConfig cwd docker env) \<longleftrightarrow> trim (opt_str (env ''PROOFDESK_DATA_DIR'')) \<noteq> []"
  "rc_redisUrl (getRuntimeConfig cwd docker env) = hasConfiguredValue (env ''PROOFDESK_REDIS_URL'')"
  by (simp_all add: getRuntimeConfig_def Let_def)

text \<open>
  A production server without a switched strictness starts exactly with a public address, the three GitHub settings
  with a public redirect, a session secret, a data directory, the shared state in a configured Redis, a docker socket, and
  the local test login off.
\<close>

theorem production_server_starts_iff:
  assumes "env ''NODE_ENV'' = Some ''production''" and "\<not> hasConfiguredValue (env ''PROOFDESK_STRICT_CONFIG'')"
  shows "(\<exists>v. startServer cwd docker env = Inr v) \<longleftrightarrow>
     public_url (opt_str (env ''FRONTEND_URL''))
     \<and> list_all (setting env) [''GITHUB_CLIENT_ID'', ''GITHUB_CLIENT_SECRET'', ''GITHUB_REDIRECT_URI'', ''PROOFDESK_REDIS_URL'']
     \<and> public_url (opt_str (env ''GITHUB_REDIRECT_URI''))
     \<and> rc_sessionSecret (getRuntimeConfig cwd docker env) \<and> trim (opt_str (env ''PROOFDESK_DATA_DIR'')) \<noteq> []
     \<and> rc_backend (getRuntimeConfig cwd docker env) = Redis_backend \<and> docker
     \<and> \<not> switched_on (env ''ENABLE_LOCAL_TEST_MODE'')"
proof -
  have strict: "is_strict env so" and prod: "str_or (opt_str (env ''NODE_ENV'')) ''development'' = ''production''" for so
    using assms by (simp_all add: is_strict_def str_or_def)
  have "(\<exists>v. startServer cwd docker env = Inr v) \<longleftrightarrow> rv_ready (validateRuntimeConfig cwd docker env True)"
    using assms(1) by (auto simp: startServer_def Let_def)
  then show ?thesis
    using strict prod configured_uri(1) configured_uri(2,3) [of env] by (auto simp: ready_iff check_errors githubOauthConfigured_def setting_def)
qed

definition deployed_env :: env where
  "deployed_env =
     [''NODE_ENV'' \<mapsto> ''production'', ''FRONTEND_URL'' \<mapsto> ''https://a.org'', ''GITHUB_CLIENT_ID'' \<mapsto> ''i'',
      ''GITHUB_CLIENT_SECRET'' \<mapsto> ''s'', ''GITHUB_REDIRECT_URI'' \<mapsto> ''https://a.org/c'', ''PROOFDESK_SESSION_SECRET'' \<mapsto> ''k'',
      ''PROOFDESK_DATA_DIR'' \<mapsto> ''/d'', ''PROOFDESK_SHARED_STATE_BACKEND'' \<mapsto> ''redis'', ''PROOFDESK_REDIS_URL'' \<mapsto> ''redis://r'']"

lemma deployed_env_strict: "deployed_env ''NODE_ENV'' = Some ''production''" "\<not> hasConfiguredValue (deployed_env ''PROOFDESK_STRICT_CONFIG'')"
  by (simp_all add: deployed_env_def hasConfiguredValue_def)

lemma deployed_env_complete:
  "public_url (opt_str (deployed_env ''FRONTEND_URL''))"
  "list_all (setting deployed_env) [''GITHUB_CLIENT_ID'', ''GITHUB_CLIENT_SECRET'', ''GITHUB_REDIRECT_URI'', ''PROOFDESK_REDIS_URL'']"
  "public_url (opt_str (deployed_env ''GITHUB_REDIRECT_URI''))"
  "rc_sessionSecret (getRuntimeConfig cwd docker deployed_env)" "trim (opt_str (deployed_env ''PROOFDESK_DATA_DIR'')) \<noteq> []"
  "rc_backend (getRuntimeConfig cwd docker deployed_env) = Redis_backend" "\<not> switched_on (deployed_env ''ENABLE_LOCAL_TEST_MODE'')"
  by code_simp+

lemma production_server_starts_iff_witness: "\<exists>v. startServer ''/'' True deployed_env = Inr v"
  using production_server_starts_iff [OF deployed_env_strict, of "''/''" True] deployed_env_complete by blast

lemma local_enabled_switched: "local_enabled env \<Longrightarrow> switched_on (env ''ENABLE_LOCAL_TEST_MODE'')"
proof -
  assume "local_enabled env"
  then have t: "to_lower (opt_str (env ''ENABLE_LOCAL_TEST_MODE'')) = ''true''" by (simp add: local_enabled_def AuthRoutes.toBoolean_def)
  let ?s = "opt_str (env ''ENABLE_LOCAL_TEST_MODE'')"
  have "\<not> is_space c" if "c \<in> set ?s" for c
  proof
    assume w: "is_space c"
    have "lower_char c \<in> set (to_lower ?s)" using that by (simp add: to_lower_def)
    moreover have "lower_char c = c" using w by (auto simp: is_space_def lower_char_def Let_def)
    ultimately have "c \<in> set ''true''" using t by simp
    with w show False by (auto simp: is_space_def Let_def)
  qed
  then have "trim ?s = ?s" by (intro trim_ident) blast
  then show ?thesis using t by (simp add: switched_on_def TRUE_VALUES_def)
qed



section \<open>What the checks do not see\<close>

text \<open>Another address of the own machine counts as public, and the login of a test session is not checked at all.\<close>

lemma loopback_is_public: "public_url ''http://[::1]:3000''" "public_url ''http://0.0.0.0:3000''"
  by code_simp+

lemma test_login_in_production:
  "\<exists>v. startServer ''/'' True (deployed_env(''ALLOW_TEST_SESSION_AUTH'' \<mapsto> ''true'')) = Inr v \<and> rv_warnings v = [(''prewarm_empty'',
     ''PREWARM_REPOS is empty. The first repository build after deployment may take longer than usual.'')]"
proof -
  let ?v = "validateRuntimeConfig ''/'' True (deployed_env(''ALLOW_TEST_SESSION_AUTH'' \<mapsto> ''true'')) True"
  have "rv_ready ?v" "map fst (rv_warnings ?v) = [''prewarm_empty'']" by code_simp+
  moreover have "snd ` set (rv_warnings ?v) \<subseteq>
      {''PREWARM_REPOS is empty. The first repository build after deployment may take longer than usual.''}" by code_simp
  ultimately show ?thesis
    by (intro exI [of _ ?v]) (auto simp: startServer_def Let_def deployed_env_def neq_Nil_conv map_eq_Cons_conv)
qed

end
