(* ===== verification/BuildErrorParser.thy ===== *)
theory BuildErrorParser imports Prelude begin

text \<open>
  \<^verbatim>\<open>frontend/src/utils/buildErrorParser.ts\<close>: the problems of a build that the editor marks in the open files. The
  pattern for a line of the log is written as the choices of its parts, tried in the order in which the regular expression
  tries them; the scan goes on behind a match.

  The lemmas show that only open files are marked, and that the located messages of a log are found one by one.
\<close>

section \<open>Messages for authors\<close>

datatype severity = Severe | Mild

record diagnostic =
  dg_filePath :: string
  dg_startLine :: nat
  dg_startColumn :: nat
  dg_endLine :: nat
  dg_endColumn :: nat
  dg_message :: string
  dg_severity :: severity
  dg_source :: string
  dg_hint :: string
  dg_code :: string

definition says :: "string \<Rightarrow> string list \<Rightarrow> bool" where "says lower phrases = list_ex (str_includes lower) phrases"

definition classifySeverity :: "string \<Rightarrow> severity" where
  "classifySeverity msg =
     (if says (to_lower msg) [''error'', ''fatal'', ''undefined control sequence''] then Severe else Mild)"

text \<open>The message, the hint, the code and the severity.\<close>

definition humanizeBuildIssue :: "string \<Rightarrow> string \<times> string \<times> string \<times> severity" where
  "humanizeBuildIssue rawMessage =
     (let message = trim rawMessage; lower = to_lower message
      in if says lower [''opening and ending tag mismatch'', ''mismatched tag''] then
           (''XML tags do not close in the same order they were opened.'',
            ''Check the nearest open and closing tags around this line and make sure each element closes with the matching name.'',
            ''xml_tag_mismatch'', Severe)
         else if says lower [''premature end of data'', ''document is empty'', ''extra content at the end''] then
           (''The XML structure is incomplete or has extra content after the root element.'',
            ''Look for a missing closing tag, an accidental duplicate root block, or pasted content outside the main document structure.'',
            ''xml_structure_invalid'', Severe)
         else if says lower [''undefined control sequence''] then
           (''LaTeX contains a command the build toolchain does not recognize.'',
            ''Check the math command near this line for a typo or a macro that is not defined in the textbook toolchain.'',
            ''latex_undefined_control_sequence'', Severe)
         else if says lower [''no such file or directory'', ''cannot open''] then
           (''The build could not find a referenced file.'',
            ''Verify include paths, image names, and referenced assets. A renamed or moved file often causes this.'',
            ''missing_dependency'', Severe)
         else if says lower [''traceback'', ''exception'', ''error:''] then
           (message,
            ''A build script failed while processing this file. Start with the first error near this line, because later traceback lines are often downstream noise.'',
            ''build_script_failure'', Severe)
         else
           (message,
            if str_includes lower ''warning''
              then ''This warning may not stop the build, but it is worth checking before publishing.''
              else ''Review the source near this line and retry the build after correcting the issue.'',
            ''generic_build_issue'', classifySeverity message))"

section \<open>A line of the log\<close>

text \<open>What a match captures: the path, the line, the column if there is one, and the message.\<close>

type_synonym located = "string \<times> string \<times> string option \<times> string"

definition path_char :: "char \<Rightarrow> bool" where
  "path_char c = (\<not> is_space c \<and> c \<notin> {CHR ''|'', CHR ''>'', CHR 0x22, CHR 0x27})"

definition extension_at :: "string \<Rightarrow> string option" where
  "extension_at s = find (\<lambda>e. starts_with e s) [''.xml'', ''.ptx'', ''.tex'', ''.py'']"

text \<open>The first value of a function on a list of choices.\<close>

fun first_some :: "('a \<Rightarrow> 'b option) \<Rightarrow> 'a list \<Rightarrow> 'b option" where
  "first_some f [] = None"
| "first_some f (x # xs) = (case f x of None \<Rightarrow> first_some f xs | Some y \<Rightarrow> Some y)"

text \<open>\<^verbatim>\<open>(?::(\d+))?\<close>, and \<^verbatim>\<open>\s+([^\n]{3,})\<close> with what is behind it: as much space as leaves three characters.\<close>

definition column_at :: "string \<Rightarrow> string option \<times> string" where
  "column_at s =
     (if starts_with '':'' s \<and> takeWhile is_digit (tl s) \<noteq> []
      then (Some (takeWhile is_digit (tl s)), dropWhile is_digit (tl s)) else (None, s))"

definition message_at :: "string \<Rightarrow> (string \<times> string) option" where
  "message_at s =
     first_some (\<lambda>k. let m = takeWhile (\<lambda>c. c \<noteq> newline) (drop k s) in if 3 \<le> length m then Some (m, drop (k + length m) s) else None)
       (rev [1..<Suc (length (takeWhile is_space s))])"

definition position_at :: "string \<Rightarrow> ((string \<times> string option \<times> string) \<times> string) option" where
  "position_at s =
     (case s of [] \<Rightarrow> None
      | x # xs \<Rightarrow>
          if (x = CHR '':'' \<or> x = CHR '' '') \<and> takeWhile is_digit xs \<noteq> [] then
            (case column_at (dropWhile is_digit xs) of
               (col, r) \<Rightarrow> map_option (\<lambda>(m, rest). ((takeWhile is_digit xs, col, m), rest))
                             (message_at (if starts_with '':'' r then tl r else r)))
          else None)"

definition line_at :: "string \<Rightarrow> (located \<times> string) option" where
  "line_at s =
     first_some (\<lambda>n. case extension_at (drop n s) of None \<Rightarrow> None
         | Some e \<Rightarrow> map_option (\<lambda>(p, rest). ((take (n + length e) s, p), rest)) (position_at (drop (n + length e) s)))
       (rev [1..<Suc (length (takeWhile path_char s))])"

lemma first_some_SomeD: "first_some f xs = Some y \<Longrightarrow> \<exists>x \<in> set xs. f x = Some y"
  by (induction xs) (auto split: option.splits)

lemma message_at_shorter: "message_at s = Some (m, rest) \<Longrightarrow> length rest \<le> length s"
  by (auto simp: message_at_def Let_def dest!: first_some_SomeD split: if_splits)

lemma dropWhile_tl_le: "length (dropWhile P (tl s)) \<le> length s"
  by (rule le_trans [OF length_dropWhile_le]) simp

lemma position_at_shorter: "position_at s = Some (p, rest) \<Longrightarrow> length rest \<le> length s"
proof -
  assume a: "position_at s = Some (p, rest)"
  then obtain x xs where s: "s = x # xs" by (cases s) (simp_all add: position_at_def)
  let ?r = "snd (column_at (dropWhile is_digit xs))"
  from a s obtain m where "message_at (if starts_with '':'' ?r then tl ?r else ?r) = Some (m, rest)"
    by (auto simp: position_at_def split: if_splits prod.splits)
  then have "length rest \<le> length (if starts_with '':'' ?r then tl ?r else ?r)" by (rule message_at_shorter)
  also have "\<dots> \<le> length ?r" by simp
  also have "\<dots> \<le> length (dropWhile is_digit xs)" by (auto simp: column_at_def intro: dropWhile_tl_le)
  also have "\<dots> \<le> length s" unfolding s using length_dropWhile_le [of is_digit xs] by simp
  finally show ?thesis .
qed

lemma line_at_shorter: "line_at s = Some (l, rest) \<Longrightarrow> length rest < length s"
proof -
  assume "line_at s = Some (l, rest)"
  then obtain n where n: "n \<in> {1..length (takeWhile path_char s)}"
    and c: "(case extension_at (drop n s) of None \<Rightarrow> None
       | Some e \<Rightarrow> map_option (\<lambda>(p, rest). ((take (n + length e) s, p), rest)) (position_at (drop (n + length e) s))) = Some (l, rest)"
    unfolding line_at_def by (fastforce dest!: first_some_SomeD simp del: upt_Suc)
  from c obtain e where x: "extension_at (drop n s) = Some e" by (cases "extension_at (drop n s)") simp_all
  with c obtain p where e: "position_at (drop (n + length e) s) = Some (p, rest)"
    by auto
  from n have "n \<le> length s" using length_takeWhile_le [of path_char s] by simp
  moreover from e have "length rest \<le> length (drop (n + length e) s)" by (rule position_at_shorter)
  ultimately show ?thesis using n unfolding length_drop atLeastAtMost_iff by arith
qed

function scan_log :: "string \<Rightarrow> located list" where
  "scan_log [] = []"
| "scan_log (x # xs) = (case line_at (x # xs) of None \<Rightarrow> scan_log xs | Some (l, rest) \<Rightarrow> l # scan_log rest)"
  by pat_completeness auto
termination by (relation "measure length") (auto dest: line_at_shorter)

declare scan_log.simps(2) [simp del]

section \<open>The problems of the open files\<close>

definition base_name :: "string \<Rightarrow> string" where "base_name p = last (split_on (CHR ''/'') p)"

definition by_name :: "string list \<Rightarrow> (string, string) jsmap" where
  "by_name paths = fold (\<lambda>p. map_set (base_name p) p) paths []"

definition issue_key :: "string \<Rightarrow> nat \<Rightarrow> string \<Rightarrow> string" where
  "issue_key p n msg = p @ '':'' @ dec_nat n @ '':'' @ take 80 msg"

definition diagnostic_of :: "string \<Rightarrow> nat \<Rightarrow> string option \<Rightarrow> string \<Rightarrow> diagnostic" where
  "diagnostic_of p n col msg =
     (let c = (case col of None \<Rightarrow> 1 | Some ds \<Rightarrow> digits_val ds)
      in case humanizeBuildIssue msg of (message, hint, code, severity) \<Rightarrow>
           \<lparr>dg_filePath = p, dg_startLine = n, dg_startColumn = c, dg_endLine = n, dg_endColumn = c + 200, dg_message = message,
            dg_severity = severity, dg_source = ''build'', dg_hint = hint, dg_code = code\<rparr>)"

fun report :: "(string, string) jsmap \<Rightarrow> located list \<Rightarrow> string list \<Rightarrow> diagnostic list" where
  "report byName [] seen = []"
| "report byName ((path, ds, col, msg) # ls) seen =
     (let n = digits_val ds
      in if n = 0 \<or> 99999 < n then report byName ls seen
         else case map_of byName (base_name path) of None \<Rightarrow> report byName ls seen
            | Some p \<Rightarrow>
                if p = [] \<or> issue_key p n msg \<in> set seen then report byName ls seen
                else diagnostic_of p n col msg # report byName ls (issue_key p n msg # seen))"

definition parseBuildErrors :: "string \<Rightarrow> string \<Rightarrow> string list \<Rightarrow> diagnostic list" where
  "parseBuildErrors stdout stderr openFilePaths =
     report (by_name openFilePaths) (scan_log (join [newline] (filter (\<lambda>s. s \<noteq> []) [stderr, stdout]))) []"

section \<open>Only open files\<close>

lemma by_name_open: "map_of (by_name paths) b = Some p \<Longrightarrow> p \<in> set paths \<and> base_name p = b"
proof -
  have "map_of (fold (\<lambda>p. map_set (base_name p) p) paths m) b = Some p \<Longrightarrow>
      p \<in> set paths \<and> base_name p = b \<or> map_of m b = Some p" for m
    by (induction paths arbitrary: m) (fastforce split: if_splits)+
  from this [of "[]"] show "map_of (by_name paths) b = Some p \<Longrightarrow> p \<in> set paths \<and> base_name p = b" by (simp add: by_name_def)
qed

lemma diagnostic_of_fields [simp]:
  "dg_filePath (diagnostic_of p n col msg) = p" "dg_startLine (diagnostic_of p n col msg) = n"
  "dg_endLine (diagnostic_of p n col msg) = n"
  "dg_endColumn (diagnostic_of p n col msg) = dg_startColumn (diagnostic_of p n col msg) + 200"
  by (simp_all add: diagnostic_of_def Let_def split: prod.split)

text \<open>Each problem is reported in an open file, on a line that Monaco can show.\<close>

lemma problems_in_open_files:
  "\<forall>d \<in> set (parseBuildErrors stdout stderr paths).
     dg_filePath d \<in> set paths \<and> dg_startLine d \<in> {1..99999} \<and> dg_endLine d = dg_startLine d \<and> dg_startColumn d < dg_endColumn d"
proof -
  have "\<forall>d \<in> set (report (by_name paths) ls seen).
     dg_filePath d \<in> set paths \<and> dg_startLine d \<in> {1..99999} \<and> dg_endLine d = dg_startLine d \<and> dg_startColumn d < dg_endColumn d" for ls seen
    by (induction "by_name paths" ls seen rule: report.induct) (auto simp: Let_def dest: by_name_open split: option.split)
  then show ?thesis by (simp add: parseBuildErrors_def)
qed

section \<open>Located messages are found\<close>

text \<open>A log of located messages and of lines without a point.\<close>

datatype log_line = Located string nat string | Remark string

fun line_text :: "log_line \<Rightarrow> string" where
  "line_text (Located p n m) = p @ '':'' @ dec_nat n @ '': '' @ m"
| "line_text (Remark s) = s"

definition source_path :: "string \<Rightarrow> bool" where
  "source_path p = (list_all path_char p
     \<and> list_ex (\<lambda>e. suffix e p \<and> length e < length p) [''.xml'', ''.ptx'', ''.tex'', ''.py''])"

fun plain_line :: "log_line \<Rightarrow> bool" where
  "plain_line (Located p n m) = (source_path p \<and> 3 \<le> length m \<and> newline \<notin> set m \<and> \<not> is_space (hd m))"
| "plain_line (Remark s) = (newline \<notin> set s \<and> CHR ''.'' \<notin> set s)"

fun capture :: "log_line \<Rightarrow> located list" where
  "capture (Located p n m) = [(p, dec_nat n, None, m)]"
| "capture (Remark s) = []"

lemma first_some_last:
  "f n = Some y \<Longrightarrow> (\<And>k. n < k \<Longrightarrow> k \<le> l \<Longrightarrow> f k = None) \<Longrightarrow> 1 \<le> n \<Longrightarrow> n \<le> l \<Longrightarrow> first_some f (rev [1..<Suc l]) = Some y"
proof (induction l)
  case (Suc l)
  show ?case
  proof (cases "n = Suc l")
    case False
    then have "first_some f (rev [1..<Suc l]) = Some y" using Suc by simp
    moreover have "f (Suc l) = None" using Suc.prems False by simp
    ultimately show ?thesis by simp
  qed (use Suc.prems in simp)
qed simp

lemma first_some_none: "(\<And>x. x \<in> set xs \<Longrightarrow> f x = None) \<Longrightarrow> first_some f xs = None"
  by (induction xs) auto

lemma extension_at_point: "extension_at s = Some e \<Longrightarrow> s \<noteq> [] \<and> hd s = CHR ''.''"
  by (cases s) (auto simp: extension_at_def split: if_splits)

lemma path_char_point [simp]: "path_char (CHR ''.'')" "path_char (CHR '':'')" "\<not> path_char newline" "\<not> path_char (CHR '' '')"
  by (simp_all add: path_char_def is_space_def newline_def)

text \<open>A match begins with a path, and a path has a point.\<close>

lemma no_point_no_line:
  assumes "CHR ''.'' \<notin> set (takeWhile path_char s)"
  shows "line_at s = None"
proof -
  have "extension_at (drop n s) = None" if "n \<le> length (takeWhile path_char s)" for n
  proof (rule ccontr)
    assume "extension_at (drop n s) \<noteq> None"
    then obtain e where "extension_at (drop n s) = Some e" by blast
    then have e: "drop n s \<noteq> []" "hd (drop n s) = CHR ''.''" using extension_at_point by blast+
    then have n: "n < length s" "s ! n = CHR ''.''" by (auto simp: hd_drop_conv_nth)
    show False
    proof (cases "n = length (takeWhile path_char s)")
      case True
      then show False using n nth_length_takeWhile [of path_char s] by simp
    next
      case False
      with that have "n < length (takeWhile path_char s)" by simp
      then show False using assms n(2) by (metis nth_mem takeWhile_nth)
    qed
  qed
  then show ?thesis by (auto simp: line_at_def intro!: first_some_none)
qed

lemma scan_remark: "CHR ''.'' \<notin> set u \<Longrightarrow> newline \<notin> set u \<Longrightarrow> scan_log (u @ newline # t) = scan_log t"
proof (induction u)
  case Nil
  have "line_at (newline # t) = None" by (rule no_point_no_line) simp
  then show ?case by (simp add: scan_log.simps)
next
  case (Cons x u)
  have "set (takeWhile path_char ((x # u) @ newline # t)) \<subseteq> set (x # u)"
    by (simp only: takeWhile_append) (auto dest: set_takeWhileD split: if_splits)
  then have "line_at ((x # u) @ newline # t) = None" using Cons.prems by (intro no_point_no_line) blast
  then show ?case using Cons by (simp add: scan_log.simps)
qed

lemma path_char_digit: "is_digit c \<Longrightarrow> path_char c"
  by (auto simp: path_char_def is_space_def is_digit_def Let_def)

lemma dec_nat_takeWhile:
  "\<not> is_digit c \<Longrightarrow> takeWhile is_digit (dec_nat n @ c # t) = dec_nat n"
  "\<not> is_digit c \<Longrightarrow> dropWhile is_digit (dec_nat n @ c # t) = c # t"
  using dec_nat_digits [of n] by (simp_all add: list_all_iff)

lemma not_digit [simp]: "\<not> is_digit (CHR '':'')" "\<not> is_digit (CHR '' '')"
  by (simp_all add: is_digit_def)

lemma message_at_line:
  assumes "3 \<le> length m" "newline \<notin> set m" "\<not> is_space (hd m)" and t: "t = [] \<or> hd t = newline"
  shows "message_at (CHR '' '' # m @ t) = Some (m, t)"
proof -
  have "m \<noteq> []" using assms(1) by auto
  then have "takeWhile is_space (CHR '' '' # m @ t) = [CHR '' '']" using assms(3) by (cases m) (simp_all add: is_space_def)
  moreover have "takeWhile (\<lambda>c. c \<noteq> newline) (m @ t) = m" using assms(2) t by (cases t) (auto simp: takeWhile_append takeWhile_eq_all_conv)
  ultimately show ?thesis using assms(1) by (simp add: message_at_def Let_def)
qed

lemma position_at_line:
  assumes "3 \<le> length m" "newline \<notin> set m" "\<not> is_space (hd m)" and t: "t = [] \<or> hd t = newline"
  shows "position_at (CHR '':'' # dec_nat n @ '': '' @ m @ t) = Some ((dec_nat n, None, m), t)"
  using message_at_line [OF assms] by (simp add: position_at_def dec_nat_takeWhile column_at_def)

lemma nth_middle: "length a \<le> k \<Longrightarrow> k < length a + length b \<Longrightarrow> (a @ b @ r) ! k \<in> set b"
proof -
  assume k: "length a \<le> k" "k < length a + length b"
  then have "k - length a < length b" by arith
  with k(1) show ?thesis by (simp add: nth_append)
qed

lemma located_line_found:
  assumes p: "source_path p" and m: "3 \<le> length m" "newline \<notin> set m" "\<not> is_space (hd m)" and t: "t = [] \<or> hd t = newline"
  shows "line_at (p @ '':'' @ dec_nat n @ '': '' @ m @ t) = Some ((p, dec_nat n, None, m), t)"
proof -
  obtain stem e where e: "p = stem @ e" "stem \<noteq> []" "e \<in> {''.xml'', ''.ptx'', ''.tex'', ''.py''}"
    using p by (auto simp: source_path_def suffix_def)
  let ?s = "p @ '':'' @ dec_nat n @ '': '' @ m @ t" and ?run = "p @ '':'' @ dec_nat n @ '':''"
  have run: "takeWhile path_char ?s = ?run"
  proof -
    have "\<forall>c \<in> set ?run. path_char c" using p dec_nat_digits [of n] path_char_digit by (auto simp: source_path_def list_all_iff)
    then have "takeWhile path_char (?run @ '' '' @ m @ t) = ?run" by (subst takeWhile_append2) auto
    then show ?thesis by simp
  qed
  have later: "extension_at (drop k ?s) = None" if k: "length stem < k" "k \<le> length ?run" for k
  proof (rule ccontr)
    assume "extension_at (drop k ?s) \<noteq> None"
    then obtain x where "extension_at (drop k ?s) = Some x" by blast
    then have "drop k ?s \<noteq> []" "hd (drop k ?s) = CHR ''.''" using extension_at_point by blast+
    then have "?s ! k = CHR ''.''" by (metis drop_eq_Nil hd_drop_conv_nth not_le)
    moreover have "?s ! k \<in> set (tl e @ '':'' @ dec_nat n @ '': '')"
    proof -
      have "?s = (stem @ [hd e]) @ (tl e @ '':'' @ dec_nat n @ '': '') @ m @ t" using e by auto
      moreover have "length (stem @ [hd e]) \<le> k" "k < length (stem @ [hd e]) + length (tl e @ '':'' @ dec_nat n @ '': '')"
        using k e by auto
      ultimately show ?thesis by (metis nth_middle)
    qed
    moreover have "CHR ''.'' \<notin> set (tl e @ '':'' @ dec_nat n @ '': '')"
      using e(3) dec_nat_digits [of n] by (auto simp: list_all_iff is_digit_def)
    ultimately show False by simp
  qed
  have here: "extension_at (drop (length stem) ?s) = Some e" using e by (auto simp: extension_at_def)
  have "length stem + length e = length p" using e by simp
  then show ?thesis
    unfolding line_at_def run
    by (intro first_some_last [where n = "length stem"])
      (use e here later position_at_line [OF m t] in \<open>auto simp: Suc_le_eq\<close>)
qed

lemma scan_line:
  assumes "plain_line l"
  shows "scan_log (line_text l) = capture l" and "scan_log (line_text l @ newline # t) = capture l @ scan_log t"
proof -
  have nl: "scan_log (newline # t) = scan_log t" for t using scan_remark [of "[]" t] by simp
  have located: "scan_log (line_text (Located p n m) @ t) = (p, dec_nat n, None, m) # scan_log t"
    if "plain_line (Located p n m)" "t = [] \<or> hd t = newline" for p n m t
  proof -
    have "p \<noteq> []" using that by (auto simp: source_path_def)
    then obtain x xs where x: "p @ '':'' @ dec_nat n @ '': '' @ m @ t = x # xs" by (cases p) auto
    show ?thesis using located_line_found [of p m t n] that unfolding line_text.simps append_assoc x
      by (simp add: scan_log.simps)
  qed
  have remark: "scan_log s = []" if "newline \<notin> set s" "CHR ''.'' \<notin> set s" for s
    using that
  proof (induction s)
    case (Cons x xs)
    have "line_at (x # xs) = None" using Cons.prems by (intro no_point_no_line) (auto dest: set_takeWhileD)
    then show ?case using Cons by (simp add: scan_log.simps)
  qed simp
  show "scan_log (line_text l) = capture l"
    using assms located [of _ _ _ "[]"] remark by (cases l) auto
  show "scan_log (line_text l @ newline # t) = capture l @ scan_log t"
    using assms located [of _ _ _ "newline # t"] scan_remark nl by (cases l) auto
qed

lemma scan_lines: "list_all plain_line ls \<Longrightarrow> scan_log (join [newline] (map line_text ls)) = concat (map capture ls)"
proof (induction ls)
  case (Cons l ls)
  then show ?case by (cases "ls = []") (simp_all add: join_Cons scan_line)
qed simp

lemma issue_key_inject:
  assumes "issue_key p n m = issue_key p' n' m'" and "CHR '':'' \<notin> set p" and "CHR '':'' \<notin> set p'"
  shows "p = p' \<and> n = n'"
proof -
  have path: "takeWhile (\<lambda>c. c \<noteq> CHR '':'') (issue_key p n m) = p" if "CHR '':'' \<notin> set p" for p n m
    using that by (auto simp: issue_key_def takeWhile_append takeWhile_eq_all_conv)
  from assms have "p = p'" using path by metis
  with assms(1) have "dec_nat n @ CHR '':'' # take 80 m = dec_nat n' @ CHR '':'' # take 80 m'" by (simp add: issue_key_def)
  then have "dec_nat n = dec_nat n'" by (metis dec_nat_takeWhile(1) not_digit(1))
  with \<open>p = p'\<close> show ?thesis by simp
qed

text \<open>The files and lines that a list of captures names.\<close>

fun named_place :: "(string, string) jsmap \<Rightarrow> located \<Rightarrow> (string \<times> nat) set" where
  "named_place byName (path, ds, col, msg) =
     (case map_of byName (base_name path) of None \<Rightarrow> {}
      | Some p \<Rightarrow> if p \<noteq> [] \<and> digits_val ds \<in> {1..99999} then {(p, digits_val ds)} else {})"

definition named_places :: "(string, string) jsmap \<Rightarrow> located list \<Rightarrow> (string \<times> nat) set" where
  "named_places byName ls = \<Union> (named_place byName ` set ls)"

definition place :: "diagnostic \<Rightarrow> string \<times> nat" where "place d = (dg_filePath d, dg_startLine d)"

lemma place_diagnostic [simp]: "place (diagnostic_of p n col msg) = (p, n)"
  by (simp add: place_def)

lemma named_places_Cons:
  "named_places byName ((path, ds, col, msg) # ls) =
     (case map_of byName (base_name path) of None \<Rightarrow> {}
      | Some p \<Rightarrow> if p \<noteq> [] \<and> digits_val ds \<in> {1..99999} then {(p, digits_val ds)} else {}) \<union> named_places byName ls"
  by (simp add: named_places_def)

lemma report_places:
  assumes "\<forall>b p. map_of byName b = Some p \<longrightarrow> CHR '':'' \<notin> set p"
    and "\<forall>p n msg. CHR '':'' \<notin> set p \<longrightarrow> issue_key p n msg \<in> set seen \<longrightarrow> (p, n) \<in> A"
  shows "place ` set (report byName ls seen) \<union> A = named_places byName ls \<union> A"
  using assms(2)
proof (induction ls arbitrary: seen A)
  case (Cons l ls)
  obtain path ds col msg where l: "l = (path, ds, col, msg)" by (cases l)
  let ?n = "digits_val ds"
  show ?case
  proof (cases "map_of byName (base_name path)")
    case (Some p)
    have p: "CHR '':'' \<notin> set p" using assms(1) Some by blast
    consider "p = [] \<or> ?n \<notin> {1..99999}" | "p \<noteq> []" "?n \<in> {1..99999}" "issue_key p ?n msg \<in> set seen"
      | "p \<noteq> []" "?n \<in> {1..99999}" "issue_key p ?n msg \<notin> set seen" by blast
    then show ?thesis
    proof cases
      case 2
      then have "(p, ?n) \<in> A" using Cons.prems p by blast
      then show ?thesis using Cons.IH [OF Cons.prems] 2 Some by (auto simp: l named_places_Cons)
    next
      case 3
      have "\<forall>q k m. CHR '':'' \<notin> set q \<longrightarrow> issue_key q k m \<in> set (issue_key p ?n msg # seen) \<longrightarrow> (q, k) \<in> insert (p, ?n) A"
        using Cons.prems by (auto dest!: issue_key_inject [OF _ _ p])
      from Cons.IH [OF this] show ?thesis using 3 Some by (simp add: l named_places_Cons Let_def)
    qed (use Cons.IH [OF Cons.prems] Some in \<open>auto simp: l named_places_Cons Let_def\<close>)
  qed (use Cons.IH [OF Cons.prems] in \<open>simp add: l named_places_Cons Let_def\<close>)
qed (simp add: named_places_def)

lemma places_of_lines:
  "named_places byName (concat (map capture ls)) =
     {(p, n) | p n path m. Located path n m \<in> set ls \<and> map_of byName (base_name path) = Some p \<and> p \<noteq> [] \<and> n \<in> {1..99999}}"
proof (induction ls)
  case (Cons l ls)
  then show ?case by (cases l) (auto simp: named_places_Cons split: option.split)
qed (simp add: named_places_def)



section \<open>Files of the same name\<close>

text \<open>The directory of a message is not compared: of two open files of one name, the later one is marked.\<close>

lemma wrong_file_marked:
  "place ` set (parseBuildErrors [] ''ch1/s.xml:3: bad tag'' [''ch1/s.xml'', ''ch2/s.xml'']) = {(''ch2/s.xml'', 3)}"
proof -
  have "list_all plain_line [Located ''ch1/s.xml'' 3 ''bad tag'']" by code_simp
  from scan_lines [OF this] have "scan_log (line_text (Located ''ch1/s.xml'' 3 ''bad tag'')) = [(''ch1/s.xml'', dec_nat 3, None, ''bad tag'')]"
    by simp
  moreover have "line_text (Located ''ch1/s.xml'' 3 ''bad tag'') = ''ch1/s.xml:3: bad tag''" by code_simp
  ultimately have "scan_log ''ch1/s.xml:3: bad tag'' = [(''ch1/s.xml'', dec_nat 3, None, ''bad tag'')]" by (simp only:)
  then show ?thesis by (simp add: parseBuildErrors_def by_name_def base_name_def)
qed

end
