(* ===== verification/MathValidator.thy ===== *)
theory MathValidator imports PretexValidator TextScan begin

text \<open>
  \<^verbatim>\<open>frontend/src/utils/mathValidator.ts\<close>: the formulas of a buffer and the problems that KaTeX finds in them. KaTeX
  is a parameter. The extension of a file and the position of an offset are computed as in \<open>PretexValidator\<close>, whose
  source has the same two functions.

  The lemmas show that a formula stands in the buffer where its record says, and that the positions of the issues lie in
  the formula.
\<close>

section \<open>The formulas of a buffer\<close>

record math_snippet =
  sn_text :: string
  sn_offset :: nat
  sn_display :: bool

definition PRETEXT_MATH_TAGS :: "string list" where "PRETEXT_MATH_TAGS = [''m'', ''me'', ''men'', ''mrow'']"

definition LATEX_EXTENSIONS :: "string list" where "LATEX_EXTENSIONS = [''tex'', ''ltx'']"

definition isMathValidatableFile :: "string option \<Rightarrow> bool" where
  "isMathValidatableFile filename =
     (opt_str filename \<noteq> []
      \<and> getFileExtension (opt_str filename) \<in> set PTX_FILE_EXTENSIONS \<union> set LATEX_EXTENSIONS)"

text \<open>The length of \<^verbatim>\<open><tag(?:\s[^>]*)?>\<close> at the start of a text.\<close>

definition open_tag_length :: "string \<Rightarrow> string \<Rightarrow> nat option" where
  "open_tag_length tag s =
     (if \<not> starts_with (CHR ''<'' # tag) s then None
      else case drop (Suc (length tag)) s of
          [] \<Rightarrow> None
        | x # xs \<Rightarrow>
            if x = CHR ''>'' then Some (length tag + 2)
            else if is_space x then map_option (\<lambda>k. length tag + k + 2) (find_sub ''>'' (x # xs)) else None)"

text \<open>The whole match of an element or of a pair of delimiters, and what is inside.\<close>

definition element_here :: "string \<Rightarrow> string \<Rightarrow> (nat \<times> string) option" where
  "element_here tag s =
     (case open_tag_length tag s of None \<Rightarrow> None
      | Some n \<Rightarrow>
          map_option (\<lambda>k. (n + k + length tag + 3, take k (drop n s))) (find_sub (''</'' @ tag @ ''>'') (drop n s)))"

definition delimited_here :: "string \<Rightarrow> string \<Rightarrow> string \<Rightarrow> (nat \<times> string) option" where
  "delimited_here opener closer s =
     (if \<not> starts_with opener s then None
      else map_option (\<lambda>k. (length opener + k + length closer, take k (drop (length opener) s)))
             (find_sub closer (drop (length opener) s)))"

text \<open>
  The loop \<^verbatim>\<open>while ((match = pattern.exec(content)) !== null)\<close>: the index of each match, its length and its
  group. A pattern matches at least one character.
\<close>

function exec_all :: "(string \<Rightarrow> (nat \<times> string) option) \<Rightarrow> nat \<Rightarrow> string \<Rightarrow> (nat \<times> nat \<times> string) list" where
  "exec_all m i [] = []"
| "exec_all m i (x # xs) =
     (case m (x # xs) of
        None \<Rightarrow> exec_all m (Suc i) xs
      | Some (n, inner) \<Rightarrow> (i, n, inner) # exec_all m (i + n) (drop (n - 1) xs))"
  by pat_completeness auto
termination by (relation "measure (\<lambda>(m, i, s). length s)") auto

declare exec_all.simps(2) [simp del]

definition extractPreTeXtSnippets :: "string \<Rightarrow> math_snippet list" where
  "extractPreTeXtSnippets content =
     concat (map (\<lambda>tag. map (\<lambda>(i, n, inner).
         \<lparr>sn_text = inner, sn_offset = i + the (find_sub inner (take n (drop i content))), sn_display = (tag \<noteq> ''m'')\<rparr>)
       (exec_all (element_here tag) 0 content)) PRETEXT_MATH_TAGS)"

definition extractLatexDelimiterSnippets :: "string \<Rightarrow> math_snippet list" where
  "extractLatexDelimiterSnippets content =
     concat (map (\<lambda>(opener, closer, display). map (\<lambda>(i, n, inner). \<lparr>sn_text = inner, sn_offset = i + 2, sn_display = display\<rparr>)
         (exec_all (delimited_here opener closer) 0 content))
       [(CHR 0x5C # ''('', CHR 0x5C # '')'', False), (CHR 0x5C # ''['', CHR 0x5C # '']'', True)])"

definition extractMathSnippets :: "string \<Rightarrow> string \<Rightarrow> math_snippet list" where
  "extractMathSnippets content filename =
     (let ext = getFileExtension filename
      in if ext \<in> set PTX_FILE_EXTENSIONS then extractPreTeXtSnippets content @ extractLatexDelimiterSnippets content
         else if ext \<in> set LATEX_EXTENSIONS then extractLatexDelimiterSnippets content
         else [])"

section \<open>The problems of a formula\<close>

text \<open>What KaTeX throws.\<close>

record katex_error =
  ke_rawMessage :: "string option"
  ke_message :: "string option"
  ke_position :: "int option"
  ke_length :: "int option"

definition word_char :: "char \<Rightarrow> bool" where "word_char c = (is_alpha c \<or> is_digit c \<or> c = CHR ''_'')"

text \<open>\<^verbatim>\<open>PRETEXT_ONLY_PATTERN\<close> at the start of a text, and anywhere in it.\<close>

definition pretext_only_here :: "string \<Rightarrow> bool" where
  "pretext_only_here s =
     (list_ex (\<lambda>name. starts_with (CHR 0x5C # name) s
         \<and> (case drop (Suc (length name)) s of [] \<Rightarrow> True | x # _ \<Rightarrow> \<not> word_char x))
        [''syseq'', ''rlap'', ''amp'', ''lt'', ''gt'', ''nbsp'']
      \<or> starts_with [CHR 0x5C, CHR ''.''] s \<or> starts_with [CHR 0x5C, CHR ''+''] s)"

fun pretext_only :: "string \<Rightarrow> bool" where
  "pretext_only [] = False"
| "pretext_only (x # xs) = (pretext_only_here (x # xs) \<or> pretext_only xs)"

definition without_katex_prefix :: "string \<Rightarrow> string" where
  "without_katex_prefix s =
     (if starts_with ''katex parse error:'' (to_lower s) then trim_start (drop 18 s) else s)"

definition or_else :: "'a option \<Rightarrow> 'a \<Rightarrow> 'a" where "or_else v d = (case v of None \<Rightarrow> d | Some x \<Rightarrow> x)"

definition validateSnippet :: "(string \<Rightarrow> bool \<Rightarrow> katex_error option) \<Rightarrow> math_snippet \<Rightarrow> (string \<times> nat \<times> nat) option" where
  "validateSnippet katex snippet =
     (if pretext_only (sn_text snippet) then None
      else map_option (\<lambda>e.
          (without_katex_prefix (or_else (ke_rawMessage e) (or_else (ke_message e) ''Math parse error'')),
           nat (max 0 (min (or_else (ke_position e) 0) (int (length (sn_text snippet))))),
           nat (max 1 (or_else (ke_length e) 1))))
        (katex (sn_text snippet) (sn_display snippet)))"

record math_issue =
  mi_start :: "int \<times> int"
  mi_end :: "int \<times> int"
  mi_message :: string

definition snippet_issues :: "(string \<Rightarrow> bool \<Rightarrow> katex_error option) \<Rightarrow> string \<Rightarrow> math_snippet \<Rightarrow> math_issue list" where
  "snippet_issues katex content sn =
     (case validateSnippet katex sn of None \<Rightarrow> []
      | Some (message, localOffset, localLength) \<Rightarrow>
          [\<lparr>mi_start = offsetToPosition content (sn_offset sn + localOffset),
            mi_end = offsetToPosition content (sn_offset sn + localOffset + localLength), mi_message = message\<rparr>])"

definition validateMathInBuffer :: "(string \<Rightarrow> bool \<Rightarrow> katex_error option) \<Rightarrow> string \<Rightarrow> string option \<Rightarrow> math_issue list" where
  "validateMathInBuffer katex content filename =
     (if \<not> isMathValidatableFile filename then []
      else concat (map (snippet_issues katex content) (extractMathSnippets content (opt_str filename))))"

section \<open>A formula stands where its record says\<close>

definition stands_at :: "string \<Rightarrow> math_snippet \<Rightarrow> bool" where
  "stands_at content sn = (\<exists>a b. content = a @ sn_text sn @ b \<and> length a = sn_offset sn)"

lemma stands_atI: "prefix (sn_text sn) (drop (sn_offset sn) content) \<Longrightarrow> sn_offset sn \<le> length content \<Longrightarrow> stands_at content sn"
proof -
  assume "prefix (sn_text sn) (drop (sn_offset sn) content)" "sn_offset sn \<le> length content"
  then obtain b where "content = take (sn_offset sn) content @ sn_text sn @ b" "length (take (sn_offset sn) content) = sn_offset sn"
    by (metis append_take_drop_id length_take min.absorb2 prefixE)
  then show ?thesis unfolding stands_at_def by blast
qed

definition consumes :: "(string \<Rightarrow> (nat \<times> string) option) \<Rightarrow> bool" where
  "consumes m = (\<forall>s n w. m s = Some (n, w) \<longrightarrow> 0 < n)"

lemma exec_all_match:
  "consumes m \<Longrightarrow> (j, n, inner) \<in> set (exec_all m i s) \<Longrightarrow> i \<le> j \<and> m (drop (j - i) s) = Some (n, inner)"
proof (induction m i s rule: exec_all.induct)
  case (2 m i x xs)
  show ?case
  proof (cases "m (x # xs)")
    case None
    with 2 have "Suc i \<le> j \<and> m (drop (j - Suc i) xs) = Some (n, inner)" by (simp add: exec_all.simps)
    moreover from this have "j - i = Suc (j - Suc i)" by arith
    ultimately show ?thesis by simp
  next
    case (Some p)
    obtain k w where p: "p = (k, w)" by (cases p)
    then have k: "0 < k" using Some "2.prems"(1) by (auto simp: consumes_def)
    show ?thesis
    proof (cases "(j, n, inner) = (i, k, w)")
      case False
      with 2 Some p have r: "i + k \<le> j \<and> m (drop (j - (i + k)) (drop (k - 1) xs)) = Some (n, inner)" by (auto simp: exec_all.simps)
      moreover have "drop (j - (i + k)) (drop (k - 1) xs) = drop (j - i) (x # xs)"
      proof -
        have "drop (k - 1) xs = drop k (x # xs)" using k by (cases k) simp_all
        moreover have "j - (i + k) + k = j - i" using r by arith
        ultimately show ?thesis by (simp only: drop_drop)
      qed
      ultimately show ?thesis by (simp only:) simp
    qed (use Some p in simp)
  qed
qed simp

lemma element_match:
  assumes "element_here tag s = Some (n, w)"
  shows "0 < n \<and> sublist w (take n s)"
proof -
  obtain a k where a: "find_sub (''</'' @ tag @ ''>'') (drop a s) = Some k" "n = a + k + length tag + 3" "w = take k (drop a s)"
    using assms by (auto simp: element_here_def split: option.splits)
  have "w = drop a (take (a + k) (take n s))" using a(2,3) by (simp add: drop_take min_def)
  then have "sublist w (take n s)" by (metis sublist_drop sublist_order.order.trans sublist_take)
  with a(2) show ?thesis by simp
qed

lemma find_sub_sublist: "sublist p s \<Longrightarrow> \<exists>k. find_sub p s = Some k"
  by (induction s) (auto simp: sublist_Cons_right)

lemma consumes_matchers: "consumes (element_here tag)" "opener \<noteq> [] \<Longrightarrow> consumes (delimited_here opener closer)"
  by (auto simp: consumes_def delimited_here_def dest: element_match)

text \<open>Every formula of a buffer, whatever the file and the buffer are.\<close>

lemma snippet_stands: "sn \<in> set (extractMathSnippets content filename) \<Longrightarrow> stands_at content sn"
proof -
  have pretext: "stands_at content sn" if "sn \<in> set (extractPreTeXtSnippets content)"
  proof -
    from that obtain tag i n where m: "(i, n, sn_text sn) \<in> set (exec_all (element_here tag) 0 content)"
      and o': "sn_offset sn = i + the (find_sub (sn_text sn) (take n (drop i content)))"
      by (auto simp: extractPreTeXtSnippets_def)
    from exec_all_match [OF consumes_matchers(1) m] have here: "element_here tag (drop i content) = Some (n, sn_text sn)" by simp
    then have i: "i < length content" by (cases "i < length content") (simp_all add: element_here_def open_tag_length_def)
    from here have "sublist (sn_text sn) (take n (drop i content))" using element_match by blast
    then obtain k where k: "find_sub (sn_text sn) (take n (drop i content)) = Some k" using find_sub_sublist by blast
    then have "prefix (sn_text sn) (drop k (take n (drop i content)))" by (rule find_sub_prefix)
    then have "prefix (sn_text sn) (take (n - k) (drop (i + k) content))" by (simp add: drop_take add.commute)
    then have "prefix (sn_text sn) (drop (i + k) content)" using take_is_prefix prefix_order.trans by blast
    then show ?thesis using o' k i find_sub_bound [OF k] by (intro stands_atI) auto
  qed
  have latex: "stands_at content sn" if "sn \<in> set (extractLatexDelimiterSnippets content)"
  proof -
    from that obtain opener closer i n where m: "(i, n, sn_text sn) \<in> set (exec_all (delimited_here opener closer) 0 content)"
      and o': "sn_offset sn = i + 2" "length opener = 2"
      by (auto simp: extractLatexDelimiterSnippets_def)
    then have c: "consumes (delimited_here opener closer)" by (intro consumes_matchers) auto
    from exec_all_match [OF c m] have here: "delimited_here opener closer (drop i content) = Some (n, sn_text sn)" by simp
    then have p: "starts_with opener (drop i content)" by (simp add: delimited_here_def split: if_splits)
    with here obtain k where "take k (drop (length opener) (drop i content)) = sn_text sn"
      unfolding delimited_here_def by auto
    then have k: "sn_text sn = take k (drop (i + 2) content)" using o'(2) by (simp add: add.commute)
    from p have "i + 2 \<le> length content" using o'(2) prefix_length_le by fastforce
    then show ?thesis using o'(1) k take_is_prefix by (intro stands_atI) auto
  qed
  show "sn \<in> set (extractMathSnippets content filename) \<Longrightarrow> stands_at content sn"
    using pretext latex by (auto simp: extractMathSnippets_def Let_def split: if_splits)
qed

section \<open>Positions\<close>

lemma split_on_snoc:
  "split_on d (a @ [c]) =
     (if c = d then split_on d a @ [[]] else butlast (split_on d a) @ [last (split_on d a) @ [c]])"
proof (induction a)
  case (Cons x a)
  obtain w ws where "split_on d a = w # ws" by (meson neq_Nil_conv split_on_not_Nil)
  with Cons show ?case by (auto split: list.split)
qed simp

text \<open>The line is the number of lines up to the offset, and the column counts from one in the last of them.\<close>

lemma position_reads:
  assumes "p \<le> length content"
  shows "offsetToPosition content p =
     (int (length (split_on newline (take p content))), int (length (last (split_on newline (take p content)))) + 1)"
proof -
  let ?f = "\<lambda>i (line, lastNewline). if content ! i = newline then (line + 1, int i) else (line, lastNewline)"
  let ?ls = "\<lambda>k. split_on newline (take k content)"
  have "fold ?f [0..<k] (1, - 1) = (int (length (?ls k)), int k - int (length (last (?ls k))) - 1)" if "k \<le> length content" for k
    using that
  proof (induction k)
    case (Suc k)
    have "take (Suc k) content = take k content @ [content ! k]" using Suc.prems by (simp add: take_Suc_conv_app_nth)
    then have "?ls (Suc k) = (if content ! k = newline then ?ls k @ [[]] else butlast (?ls k) @ [last (?ls k) @ [content ! k]])"
      by (simp only: split_on_snoc)
    then show ?case using Suc by (simp add: of_nat_diff Suc_le_eq)
  qed simp
  from this [OF assms] show ?thesis using assms by (simp add: offsetToPosition_def min_def)
qed

text \<open>
  Whatever KaTeX answers, an issue begins inside a formula of the buffer or at its end: its line and column count the
  characters of the buffer up to there.
\<close>

theorem math_issues_in_formula:
  assumes "issue \<in> set (validateMathInBuffer katex content filename)"
  shows "\<exists>sn a b p. sn \<in> set (extractMathSnippets content (opt_str filename))
     \<and> content = a @ sn_text sn @ b \<and> length a = sn_offset sn \<and> length a \<le> p \<and> p \<le> length a + length (sn_text sn)
     \<and> mi_start issue = (int (length (split_on newline (take p content))), int (length (last (split_on newline (take p content)))) + 1)"
proof -
  obtain sn where sn: "sn \<in> set (extractMathSnippets content (opt_str filename))" "issue \<in> set (snippet_issues katex content sn)"
    using assms by (auto simp: validateMathInBuffer_def split: if_splits)
  then obtain message l k where v: "validateSnippet katex sn = Some (message, l, k)" "mi_start issue = offsetToPosition content (sn_offset sn + l)"
    by (cases "validateSnippet katex sn") (auto simp: snippet_issues_def)
  have l: "l \<le> length (sn_text sn)" using v(1) by (auto simp: validateSnippet_def split: if_splits)
  obtain a b where c: "content = a @ sn_text sn @ b" "length a = sn_offset sn" using snippet_stands [OF sn(1)] by (auto simp: stands_at_def)
  then have "sn_offset sn + l \<le> length content" using l by simp
  from position_reads [OF this] show ?thesis
    using sn(1) c l v(2) by (intro exI [of _ sn] exI [of _ a] exI [of _ b] exI [of _ "sn_offset sn + l"]) simp
qed

definition strict_katex :: "string \<Rightarrow> bool \<Rightarrow> katex_error option" where
  "strict_katex t display =
     (if t = ''x^'' then Some \<lparr>ke_rawMessage = Some ''end of input'', ke_message = None, ke_position = Some 2, ke_length = None\<rparr> else None)"

lemma math_issues_in_formula_witness:
  "let content = ''a'' @ [newline] @ ''<m>x^</m>''; issue = \<lparr>mi_start = (2, 6), mi_end = (2, 7), mi_message = ''end of input''\<rparr>
   in validateMathInBuffer strict_katex content (Some ''a.xml'') = [issue]
      \<and> (\<exists>sn a b p. sn \<in> set (extractMathSnippets content ''a.xml'')
           \<and> content = a @ sn_text sn @ b \<and> length a = sn_offset sn \<and> length a \<le> p \<and> p \<le> length a + length (sn_text sn)
           \<and> mi_start issue = (int (length (split_on newline (take p content))), int (length (last (split_on newline (take p content)))) + 1))"
proof -
  let ?content = "''a'' @ [newline] @ ''<m>x^</m>''"
  have v: "validateMathInBuffer strict_katex ?content (Some ''a.xml'') = [\<lparr>mi_start = (2, 6), mi_end = (2, 7), mi_message = ''end of input''\<rparr>]"
    by code_simp
  then have "\<lparr>mi_start = (2, 6), mi_end = (2, 7), mi_message = ''end of input''\<rparr> \<in> set (validateMathInBuffer strict_katex ?content (Some ''a.xml''))"
    by simp
  from math_issues_in_formula [OF this] v show ?thesis by (simp add: Let_def del: append.simps)
qed

section \<open>A formula that its tag repeats\<close>

text \<open>The offset of a formula is where its text occurs first in the match, which may be in the attributes of the tag.\<close>

lemma formula_found_in_tag:
  "map sn_offset (extractMathSnippets (''<m a='' @ [CHR 0x22] @ ''x^'' @ [CHR 0x22] @ ''>x^</m>'') ''a.xml'') = [6]"
  by code_simp

end
