(* ===== verification/DraftSave.thy ===== *)
theory DraftSave imports Cookies begin

text \<open>
  \<^verbatim>\<open>frontend/src/utils/draftSaveService.ts\<close> and the timer of \<^verbatim>\<open>frontend/src/components/EditorPage.tsx\<close>
  that uses it: the drafts that the editor asks the server to save every ten minutes. The answers of the server and
  \<^verbatim>\<open>JSON.parse\<close> are parameters; times are milliseconds.

  The lemmas show that at most one request is under way, and that the label tells the time of the last draft written.
\<close>

section \<open>The state of the indicator\<close>

datatype draft_status = Idle | Saving | Saved | Unchanged | Failed

record draft_state =
  dst_status :: draft_status
  dst_lastSavedAt :: "int option"
  dst_error :: "string option"

definition DRAFT_SAVE_INTERVAL_MS :: int where "DRAFT_SAVE_INTERVAL_MS = 10 * 60 * 1000"

definition initialDraftSaveState :: draft_state where
  "initialDraftSaveState = \<lparr>dst_status = Idle, dst_lastSavedAt = None, dst_error = None\<rparr>"

text \<open>The dots of \<^verbatim>\<open>Saving draft\<dots>\<close> are one character beyond Latin-1, written as its UTF-8 bytes.\<close>

definition formatDraftSavedLabel :: "draft_state \<Rightarrow> int \<Rightarrow> string" where
  "formatDraftSavedLabel state now =
     (if dst_status state = Saving then ''Saving draft'' @ [CHR 0xE2, CHR 0x80, CHR 0xA6]
      else if dst_status state = Failed then ''Draft save failed''
      else case dst_lastSavedAt state of
          None \<Rightarrow> ''No draft saved yet''
        | Some t \<Rightarrow>
            let minutes = max 0 (now - t) div 60000; hours = minutes div 60
            in if minutes < 1 then ''Draft saved just now''
               else if minutes = 1 then ''Draft saved 1 min ago''
               else if minutes < 60 then ''Draft saved '' @ dec_int minutes @ '' min ago''
               else if hours = 1 then ''Draft saved 1 hr ago''
               else ''Draft saved '' @ dec_int hours @ '' hr ago'')"

section \<open>The request\<close>

text \<open>What \<^verbatim>\<open>fetch\<close> gives: it is rejected with a message, or answers with a status and a body.\<close>

datatype fetch_result = Rejected string | Response nat string

definition draft_url :: "string \<Rightarrow> string \<Rightarrow> string" where
  "draft_url apiUrl sessionId = apiUrl @ ''/workspace/'' @ encodeURIComponent sessionId @ ''/git/draft''"

fun is_object :: "jsval \<Rightarrow> bool" where
  "is_object (JObj ps) = True"
| "is_object (JArr vs) = True"
| "is_object _ = False"

text \<open>\<^verbatim>\<open>a ?? b\<close>, as the message of an error has it.\<close>

definition nullish_or :: "jsval \<Rightarrow> string \<Rightarrow> string" where
  "nullish_or v s = (if v = JUndef \<or> v = JNull then s else js_String v)"

definition requestDraftSave :: "(string \<Rightarrow> jsval option) \<Rightarrow> (string \<Rightarrow> fetch_result) \<Rightarrow> string \<Rightarrow> string \<Rightarrow> string + jsval" where
  "requestDraftSave parse fetch apiUrl sessionId =
     (case fetch (draft_url apiUrl sessionId) of
        Rejected e \<Rightarrow> Inl e
      | Response status body \<Rightarrow>
          (let parsed = (if body = [] then JNull else case parse body of None \<Rightarrow> JNull | Some v \<Rightarrow> v)
           in if \<not> (200 \<le> status \<and> status \<le> 299) then
                Inl (nullish_or (get_prop parsed ''error'') (''Draft save failed (HTTP '' @ dec_nat status @ '')''))
              else if \<not> is_object parsed then Inl ''Draft save returned an unexpected response''
              else Inr parsed))"

definition applyDraftSaveResult :: "draft_state \<Rightarrow> jsval \<Rightarrow> int \<Rightarrow> draft_state" where
  "applyDraftSaveResult previous result now =
     (if truthy (get_prop result ''saved'')
      then \<lparr>dst_status = Saved, dst_lastSavedAt = Some now, dst_error = None\<rparr>
      else \<lparr>dst_status = (if get_prop result ''reason'' = JStr ''unchanged'' then Unchanged else Idle),
            dst_lastSavedAt = dst_lastSavedAt previous, dst_error = None\<rparr>)"

definition applyDraftSaveError :: "draft_state \<Rightarrow> string \<Rightarrow> draft_state" where
  "applyDraftSaveError previous message =
     \<lparr>dst_status = Failed, dst_lastSavedAt = dst_lastSavedAt previous, dst_error = Some message\<rparr>"

definition shouldAttemptDraftSave :: "string option \<Rightarrow> draft_status \<Rightarrow> nat \<Rightarrow> bool" where
  "shouldAttemptDraftSave sessionId status unsavedCount =
     (opt_str sessionId \<noteq> [] \<and> status \<noteq> Saving \<and> 0 < unsavedCount)"

section \<open>The timer of the editor\<close>

text \<open>The open workspace, its number of unsaved tabs, the indicator, and the workspaces of the requests under way.\<close>

record draft_editor =
  de_session :: "string option"
  de_unsaved :: nat
  de_state :: draft_state
  de_pending :: "string list"

text \<open>The timer fires, the answer to a request comes at a time, the author edits or opens another workspace.\<close>

datatype draft_event = Tick | Answer "string + jsval" int | Edited nat | Opened "string option"

fun draft_step :: "draft_event \<Rightarrow> draft_editor \<Rightarrow> draft_editor" where
  "draft_step Tick e =
     (if shouldAttemptDraftSave (de_session e) (dst_status (de_state e)) (de_unsaved e)
      then e\<lparr>de_state := (de_state e)\<lparr>dst_status := Saving\<rparr>, de_pending := de_pending e @ [opt_str (de_session e)]\<rparr>
      else e)"
| "draft_step (Answer a now) e =
     (if de_pending e = [] then e
      else e\<lparr>de_state := (case a of Inl m \<Rightarrow> applyDraftSaveError (de_state e) m | Inr r \<Rightarrow> applyDraftSaveResult (de_state e) r now),
             de_pending := tl (de_pending e)\<rparr>)"
| "draft_step (Edited n) e = e\<lparr>de_unsaved := n\<rparr>"
| "draft_step (Opened s) e = e\<lparr>de_session := s\<rparr>"

definition opened_editor :: "string option \<Rightarrow> draft_editor" where
  "opened_editor s = \<lparr>de_session = s, de_unsaved = 0, de_state = initialDraftSaveState, de_pending = []\<rparr>"

section \<open>The label is true\<close>

text \<open>The time of the last answer that reported a draft, among the answers that a request waited for.\<close>

fun last_draft :: "draft_event list \<Rightarrow> draft_editor \<Rightarrow> int option \<Rightarrow> int option" where
  "last_draft [] e t = t"
| "last_draft (ev # evs) e t =
     last_draft evs (draft_step ev e)
       (case ev of
          Answer (Inr r) now \<Rightarrow> if de_pending e \<noteq> [] \<and> truthy (get_prop r ''saved'') then Some now else t
        | _ \<Rightarrow> t)"

definition one_request :: "draft_editor \<Rightarrow> bool" where
  "one_request e = (length (de_pending e) = (if dst_status (de_state e) = Saving then 1 else 0))"

lemma answered_status:
  "dst_status (applyDraftSaveResult s r now) \<noteq> Saving" "dst_status (applyDraftSaveError s m) \<noteq> Saving"
  "dst_lastSavedAt (applyDraftSaveError s m) = dst_lastSavedAt s"
  "dst_lastSavedAt (applyDraftSaveResult s r now) = (if truthy (get_prop r ''saved'') then Some now else dst_lastSavedAt s)"
  by (simp_all add: applyDraftSaveResult_def applyDraftSaveError_def)

lemma one_request_step: "one_request e \<Longrightarrow> one_request (draft_step ev e)"
  by (cases ev) (auto simp: one_request_def shouldAttemptDraftSave_def answered_status length_Suc_conv split: sum.split if_splits)

lemma saved_step:
  "dst_lastSavedAt (de_state (draft_step ev e)) =
     (case ev of
        Answer (Inr r) now \<Rightarrow> if de_pending e \<noteq> [] \<and> truthy (get_prop r ''saved'') then Some now else dst_lastSavedAt (de_state e)
      | _ \<Rightarrow> dst_lastSavedAt (de_state e))"
  by (cases ev) (auto simp: answered_status split: sum.split)

text \<open>
  Over any events there is at most one request under way, and the indicator says so; the time it shows is that of the last
  answer that reported a draft.
\<close>

theorem draft_indicator_true:
  "let e = fold draft_step evs (opened_editor s)
   in length (de_pending e) = (if dst_status (de_state e) = Saving then 1 else 0)
      \<and> dst_lastSavedAt (de_state e) = last_draft evs (opened_editor s) None"
proof -
  have "one_request e \<Longrightarrow> one_request (fold draft_step evs e)" for e
    by (induction evs arbitrary: e) (simp_all add: one_request_step)
  moreover have "one_request (opened_editor s)" by (simp add: one_request_def opened_editor_def initialDraftSaveState_def)
  moreover have "dst_lastSavedAt (de_state (fold draft_step evs e)) = last_draft evs e (dst_lastSavedAt (de_state e))" for e
    by (induction evs arbitrary: e) (simp_all add: saved_step)
  moreover have "dst_lastSavedAt (de_state (opened_editor s)) = None" by (simp add: opened_editor_def initialDraftSaveState_def)
  ultimately show ?thesis by (auto simp: Let_def one_request_def)
qed

text \<open>The label never claims a draft that was not written.\<close>

lemma label_claims_draft:
  assumes "formatDraftSavedLabel state now = ''Draft saved just now''"
  shows "\<exists>t. dst_lastSavedAt state = Some t \<and> now - t < 60000"
proof (cases "dst_lastSavedAt state")
  case (Some t)
  have "max 0 (now - t) div 60000 < 1"
  proof (rule ccontr)
    assume "\<not> ?thesis"
    with assms Some show False
      by (auto simp: formatDraftSavedLabel_def Let_def dec_int_def split: if_splits)
  qed
  then show ?thesis using Some by auto
qed (use assms in \<open>simp add: formatDraftSavedLabel_def split: if_splits\<close>)

section \<open>Another workspace\<close>

text \<open>The indicator belongs to no workspace: after another one was opened it shows the draft of the one before.\<close>

lemma label_of_other_workspace:
  "let e = fold draft_step [Edited 1, Tick, Answer (Inr (JObj [(''saved'', JBool True)])) 5, Opened (Some ''b'')] (opened_editor (Some ''a''))
   in de_session e = Some ''b'' \<and> formatDraftSavedLabel (de_state e) 6 = ''Draft saved just now''"
  by (simp add: Let_def opened_editor_def initialDraftSaveState_def shouldAttemptDraftSave_def applyDraftSaveResult_def
      formatDraftSavedLabel_def)

end
