(* ===== verification/BrowserStorage.thy ===== *)
theory BrowserStorage imports Prelude begin

text \<open>
  What the front end keeps in the browser: \<^verbatim>\<open>frontend/src/utils/workspaceStorage.ts\<close> with the repository and the team
  session of a tab, and of \<^verbatim>\<open>frontend/src/utils/editorWorkspace.ts\<close> the recent files, the page that belongs to
  a file, and the labels of a review. \<^verbatim>\<open>JSON.parse\<close> and \<^verbatim>\<open>JSON.stringify\<close> are parameters.

  The lemmas show that a session is read as it was written, whatever else is in the storage, and that the recent files are the
  last eight different ones.
\<close>

type_synonym storage = "string \<Rightarrow> string option"
type_synonym parser = "string \<Rightarrow> jsval option"
type_synonym printer = "jsval \<Rightarrow> string"

text \<open>JSON is read as it was written, and never written as the empty text.\<close>

definition json_reads_back :: "parser \<Rightarrow> printer \<Rightarrow> bool" where
  "json_reads_back parse print = (\<forall>v. v \<noteq> JUndef \<longrightarrow> parse (print v) = Some v \<and> print v \<noteq> [])"

section \<open>The selected repository and the team session\<close>

record repository =
  rp_owner :: string
  rp_name :: string
  rp_fullName :: string
  rp_defaultBranch :: string

record team_data =
  td_code :: string
  td_repo :: repository
  td_hostName :: "string option"
  td_hostLogin :: "string option"
  td_createdAt :: "int option"

fun isNonEmptyString :: "jsval \<Rightarrow> bool" where
  "isNonEmptyString (JStr s) = (s \<noteq> [])"
| "isNonEmptyString _ = False"

definition string_field :: "jsval \<Rightarrow> string \<Rightarrow> string option" where
  "string_field v k = (if isNonEmptyString (get_prop v k) then Some (js_String (get_prop v k)) else None)"

definition parseRepository :: "jsval \<Rightarrow> repository option" where
  "parseRepository v =
     (case (string_field v ''owner'', string_field v ''name'', string_field v ''fullName'') of
        (Some a, Some n, Some f) \<Rightarrow>
          Some \<lparr>rp_owner = a, rp_name = n, rp_fullName = f,
                rp_defaultBranch = (case string_field v ''defaultBranch'' of None \<Rightarrow> ''main'' | Some b \<Rightarrow> b)\<rparr>
      | _ \<Rightarrow> None)"

text \<open>\<^verbatim>\<open>JSON.parse\<close> of an item; an item that is not there, is empty or cannot be read gives nothing.\<close>

definition stored_value :: "parser \<Rightarrow> storage \<Rightarrow> string \<Rightarrow> jsval option" where
  "stored_value parse st key = (case st key of None \<Rightarrow> None | Some raw \<Rightarrow> if raw = [] then None else parse raw)"

definition getSelectedRepo :: "parser \<Rightarrow> storage \<Rightarrow> repository option" where
  "getSelectedRepo parse st = Option.bind (stored_value parse st ''selectedRepo'') parseRepository"

text \<open>The JSON object of a record; a field that is \<^verbatim>\<open>undefined\<close> is not written.\<close>

definition repository_json :: "repository \<Rightarrow> jsval" where
  "repository_json r =
     JObj [(''owner'', JStr (rp_owner r)), (''name'', JStr (rp_name r)), (''fullName'', JStr (rp_fullName r)),
           (''defaultBranch'', JStr (rp_defaultBranch r))]"

definition given :: "string \<Rightarrow> jsval option \<Rightarrow> (string \<times> jsval) list" where
  "given k v = (case v of None \<Rightarrow> [] | Some x \<Rightarrow> [(k, x)])"

definition team_json :: "team_data \<Rightarrow> jsval" where
  "team_json t =
     JObj ([(''code'', JStr (td_code t)), (''repo'', repository_json (td_repo t))]
       @ given ''hostName'' (map_option JStr (td_hostName t)) @ given ''hostLogin'' (map_option JStr (td_hostLogin t))
       @ given ''createdAt'' (map_option JNum (td_createdAt t)))"

definition set_item :: "printer \<Rightarrow> string \<Rightarrow> jsval option \<Rightarrow> storage \<Rightarrow> storage" where
  "set_item print key v st = st(key := map_option print v)"

definition setSelectedRepo :: "printer \<Rightarrow> repository option \<Rightarrow> storage \<Rightarrow> storage" where
  "setSelectedRepo print repo st = set_item print ''selectedRepo'' (map_option repository_json repo) st"

definition setTeamSession :: "printer \<Rightarrow> team_data option \<Rightarrow> storage \<Rightarrow> storage" where
  "setTeamSession print session st = set_item print ''teamSession'' (map_option team_json session) st"

definition number_field :: "jsval \<Rightarrow> string \<Rightarrow> int option" where
  "number_field v k = (case get_prop v k of JNum n \<Rightarrow> Some n | _ \<Rightarrow> None)"

definition getTeamSession :: "parser \<Rightarrow> storage \<Rightarrow> team_data option" where
  "getTeamSession parse st =
     Option.bind (stored_value parse st ''teamSession'') (\<lambda>v.
       case (string_field v ''code'', parseRepository (get_prop v ''repo'')) of
         (Some c, Some r) \<Rightarrow>
           Some \<lparr>td_code = c, td_repo = r, td_hostName = string_field v ''hostName'', td_hostLogin = string_field v ''hostLogin'',
                 td_createdAt = number_field v ''createdAt''\<rparr>
       | _ \<Rightarrow> None)"

definition clearSessionStorage :: "storage \<Rightarrow> storage" where
  "clearSessionStorage st = st(''selectedRepo'' := None, ''teamSession'' := None)"

definition repository_filled :: "repository \<Rightarrow> bool" where
  "repository_filled r = (rp_owner r \<noteq> [] \<and> rp_name r \<noteq> [] \<and> rp_fullName r \<noteq> [] \<and> rp_defaultBranch r \<noteq> [])"

definition team_filled :: "team_data \<Rightarrow> bool" where
  "team_filled t = (td_code t \<noteq> [] \<and> repository_filled (td_repo t) \<and> td_hostName t \<noteq> Some [] \<and> td_hostLogin t \<noteq> Some [])"

lemma repository_reads_back: "repository_filled r \<Longrightarrow> parseRepository (repository_json r) = Some r"
  by (simp add: parseRepository_def repository_json_def string_field_def repository_filled_def)

text \<open>A team session is read as it was written, and writing it leaves the selected repository alone.\<close>

theorem team_session_reads_back:
  assumes "json_reads_back parse print" and "team_filled t"
  shows "getTeamSession parse (setTeamSession print (Some t) st) = Some t
     \<and> getSelectedRepo parse (setTeamSession print (Some t) st) = getSelectedRepo parse st
     \<and> getTeamSession parse (setSelectedRepo print repo (setTeamSession print (Some t) st)) = Some t
     \<and> getTeamSession parse (clearSessionStorage (setTeamSession print (Some t) st)) = None"
proof -
  have v: "stored_value parse (setTeamSession print (Some t) st) ''teamSession'' = Some (team_json t)"
    using assms(1) by (simp add: stored_value_def setTeamSession_def set_item_def json_reads_back_def team_json_def)
  have "string_field (team_json t) ''hostName'' = td_hostName t" "string_field (team_json t) ''hostLogin'' = td_hostLogin t"
    "number_field (team_json t) ''createdAt'' = td_createdAt t" "string_field (team_json t) ''code'' = Some (td_code t)"
    using assms(2)
    by (cases "td_hostName t"; cases "td_hostLogin t"; cases "td_createdAt t";
        simp add: team_json_def string_field_def number_field_def given_def team_filled_def)+
  moreover have "parseRepository (get_prop (team_json t) ''repo'') = Some (td_repo t)"
    using assms(2) repository_reads_back by (simp add: team_json_def team_filled_def)
  ultimately have g: "getTeamSession parse s = Some t" if "stored_value parse s ''teamSession'' = Some (team_json t)" for s
    using that by (simp add: getTeamSession_def)
  have "stored_value parse (setSelectedRepo print repo (setTeamSession print (Some t) st)) ''teamSession'' = Some (team_json t)"
    using v by (simp add: stored_value_def setSelectedRepo_def set_item_def)
  then show ?thesis using v g
    by (simp add: getSelectedRepo_def stored_value_def setTeamSession_def set_item_def clearSessionStorage_def)
      (simp add: getTeamSession_def stored_value_def)
qed

text \<open>Whatever a script has put into the storage, a repository that is read has all its fields.\<close>

lemma string_field_filled: "string_field v k = Some s \<Longrightarrow> s \<noteq> []"
  by (cases "get_prop v k") (auto simp: string_field_def split: if_splits)

lemma parsed_repository_filled: "parseRepository v = Some r \<Longrightarrow> repository_filled r"
  by (cases "string_field v ''owner''"; cases "string_field v ''name''"; cases "string_field v ''fullName''";
      cases "string_field v ''defaultBranch''")
    (auto simp: parseRepository_def repository_filled_def dest: string_field_filled)

lemma selected_repository_filled: "getSelectedRepo parse st = Some r \<Longrightarrow> repository_filled r"
  by (auto simp: getSelectedRepo_def Option.bind_eq_Some_conv dest: parsed_repository_filled)

section \<open>Recent files\<close>

definition RECENT_FILES_LIMIT :: nat where "RECENT_FILES_LIMIT = 8"

definition getWorkspaceStorageKey :: "string option \<Rightarrow> string \<Rightarrow> string option" where
  "getWorkspaceStorageKey repo name = (if opt_str repo = [] then None else Some (''mra:'' @ opt_str repo @ '':'' @ name))"

definition readJson :: "parser \<Rightarrow> storage \<Rightarrow> string option \<Rightarrow> jsval \<Rightarrow> jsval" where
  "readJson parse st key fallback =
     (case key of None \<Rightarrow> fallback
      | Some k \<Rightarrow> (case stored_value parse st k of None \<Rightarrow> fallback | Some v \<Rightarrow> v))"

definition writeJson :: "printer \<Rightarrow> string option \<Rightarrow> jsval \<Rightarrow> storage \<Rightarrow> storage" where
  "writeJson print key v st = (case key of None \<Rightarrow> st | Some k \<Rightarrow> set_item print k (Some v) st)"

definition recent_key :: "string option \<Rightarrow> string option" where "recent_key repo = getWorkspaceStorageKey repo ''recent-files''"

definition readRecentFiles :: "parser \<Rightarrow> storage \<Rightarrow> string option \<Rightarrow> jsval" where
  "readRecentFiles parse st repo = readJson parse st (recent_key repo) (JArr [])"

definition recent_entry :: "string \<Rightarrow> string \<Rightarrow> string \<Rightarrow> jsval" where
  "recent_entry path name openedAt = JObj [(''path'', JStr path), (''name'', JStr name), (''openedAt'', JStr openedAt)]"

text \<open>\<^verbatim>\<open>None\<close> is the exception that the code gets from a stored value that is no list, or from an item that is null.\<close>

definition pushRecentFile :: "parser \<Rightarrow> printer \<Rightarrow> string option \<Rightarrow> string \<Rightarrow> string \<Rightarrow> string \<Rightarrow> storage \<Rightarrow> (jsval \<times> storage) option" where
  "pushRecentFile parse print repo path name openedAt st =
     (case readRecentFiles parse st repo of
        JArr items \<Rightarrow>
          (if JNull \<in> set items then None
           else let next_items = take RECENT_FILES_LIMIT
                      (recent_entry path name openedAt # filter (\<lambda>i. get_prop i ''path'' \<noteq> JStr path) items)
                in Some (JArr next_items, writeJson print (recent_key repo) (JArr next_items) st))
      | _ \<Rightarrow> None)"

definition push_all :: "parser \<Rightarrow> printer \<Rightarrow> string option \<Rightarrow> (string \<times> string \<times> string) list \<Rightarrow> storage \<Rightarrow> storage option" where
  "push_all parse print repo opened st =
     fold (\<lambda>(path, name, t) s. Option.bind s (\<lambda>s. map_option snd (pushRecentFile parse print repo path name t s))) opened (Some st)"

fun item_paths :: "jsval \<Rightarrow> jsval list" where
  "item_paths (JArr items) = map (\<lambda>i. get_prop i ''path'') items"
| "item_paths _ = []"

lemma remdups_snoc: "remdups (xs @ [x]) = filter (\<lambda>y. y \<noteq> x) (remdups xs) @ [x]"
  by (induction xs) auto

lemma take_filter_distinct: "distinct xs \<Longrightarrow> take n (filter (\<lambda>y. y \<noteq> x) (take (Suc n) xs)) = take n (filter (\<lambda>y. y \<noteq> x) xs)"
proof (induction xs arbitrary: n)
  case (Cons y ys)
  show ?case
  proof (cases "y = x")
    case True
    then have "filter (\<lambda>y. y \<noteq> x) ys = ys" "filter (\<lambda>y. y \<noteq> x) (take n ys) = take n ys"
      using Cons.prems by (auto intro!: filter_True dest: in_set_takeD)
    with True show ?thesis by simp
  next
    case False
    then show ?thesis using Cons by (cases n) simp_all
  qed
qed simp

definition holds_paths :: "parser \<Rightarrow> string option \<Rightarrow> string list \<Rightarrow> storage \<Rightarrow> bool" where
  "holds_paths parse repo ps st =
     (\<exists>items. readRecentFiles parse st repo = JArr items \<and> JNull \<notin> set items
        \<and> map (\<lambda>i. get_prop i ''path'') items = map JStr ps)"

lemma push_holds:
  assumes "json_reads_back parse print" and "opt_str repo \<noteq> []" and "holds_paths parse repo (take 8 ps) st" and "distinct ps"
  shows "\<exists>v s. pushRecentFile parse print repo path name t st = Some (v, s)
     \<and> holds_paths parse repo (take 8 (path # filter (\<lambda>p. p \<noteq> path) ps)) s"
proof -
  obtain items where items: "readRecentFiles parse st repo = JArr items" "JNull \<notin> set items"
    "map (\<lambda>i. get_prop i ''path'') items = map JStr (take 8 ps)" using assms(3) by (auto simp: holds_paths_def)
  let ?e = "recent_entry path name t"
  let ?n = "take RECENT_FILES_LIMIT (?e # filter (\<lambda>i. get_prop i ''path'' \<noteq> JStr path) items)"
  let ?s = "writeJson print (recent_key repo) (JArr ?n) st"
  have push: "pushRecentFile parse print repo path name t st = Some (JArr ?n, ?s)"
    using items(1,2) by (simp add: pushRecentFile_def Let_def)
  have read: "readRecentFiles parse ?s repo = JArr ?n"
    using assms(1,2) by (simp add: readRecentFiles_def readJson_def writeJson_def recent_key_def getWorkspaceStorageKey_def
        stored_value_def set_item_def json_reads_back_def)
  have null: "JNull \<notin> set ?n" using items(2) by (auto simp: recent_entry_def dest!: in_set_takeD)
  have "map (\<lambda>i. get_prop i ''path'') (filter (\<lambda>i. get_prop i ''path'' \<noteq> JStr path) items)
      = filter (\<lambda>v. v \<noteq> JStr path) (map (\<lambda>i. get_prop i ''path'') items)" by (simp add: filter_map o_def)
  also have "\<dots> = map JStr (filter (\<lambda>p. p \<noteq> path) (take 8 ps))" by (simp add: items(3) filter_map o_def)
  finally have "map (\<lambda>i. get_prop i ''path'') ?n = map JStr (take 8 (path # filter (\<lambda>p. p \<noteq> path) (take 8 ps)))"
    by (simp add: RECENT_FILES_LIMIT_def take_map [symmetric] recent_entry_def)
  also have "take 8 (path # filter (\<lambda>p. p \<noteq> path) (take 8 ps)) = take 8 (path # filter (\<lambda>p. p \<noteq> path) ps)"
    using take_filter_distinct [OF assms(4), of 7 path] by simp
  finally have "map (\<lambda>i. get_prop i ''path'') ?n = map JStr (take 8 (path # filter (\<lambda>p. p \<noteq> path) ps))" .
  with push read null show ?thesis by (intro exI [of _ "JArr ?n"] exI [of _ ?s]) (simp add: holds_paths_def)
qed

text \<open>
  However files are opened, no exception is thrown, and the recent files are the last eight different ones, the latest first.
\<close>

theorem recent_files_are_last_opened:
  assumes "json_reads_back parse print" and "opt_str repo \<noteq> []" and "\<forall>k. recent_key repo = Some k \<longrightarrow> st k = None"
  shows "\<exists>s. push_all parse print repo opened st = Some s
     \<and> item_paths (readRecentFiles parse s repo) = map JStr (take 8 (rev (remdups (map fst opened))))"
proof -
  have "\<exists>s. push_all parse print repo opened st = Some s \<and> holds_paths parse repo (take 8 (rev (remdups (map fst opened)))) s"
  proof (induction opened rule: rev_induct)
    case Nil
    have "readRecentFiles parse st repo = JArr []"
      using assms(3) by (auto simp: readRecentFiles_def readJson_def stored_value_def split: option.splits)
    then show ?case by (simp add: push_all_def holds_paths_def)
  next
    case (snoc x xs)
    obtain path name t where x: "x = (path, name, t)" by (cases x)
    from snoc obtain s where s: "push_all parse print repo xs st = Some s"
      "holds_paths parse repo (take 8 (rev (remdups (map fst xs)))) s" by blast
    from push_holds [OF assms(1,2) s(2), of path name t]
    obtain v s' where "pushRecentFile parse print repo path name t s = Some (v, s')"
      "holds_paths parse repo (take 8 (path # filter (\<lambda>p. p \<noteq> path) (rev (remdups (map fst xs))))) s'" by auto
    then show ?case using s(1) x by (simp add: push_all_def remdups_snoc rev_filter)
  qed
  then show ?thesis by (auto simp: holds_paths_def)
qed

text \<open>A stored null, which is valid JSON, makes every opening of a file throw.\<close>

lemma stored_null_throws:
  assumes "recent_key repo = Some k" and "st k = Some ''null''" and "parse ''null'' = Some JNull"
  shows "pushRecentFile parse print repo path name t st = None"
  using assms by (simp add: pushRecentFile_def readRecentFiles_def readJson_def stored_value_def)

section \<open>The page of a file\<close>

definition getFileStem :: "string \<Rightarrow> string" where
  "getFileStem filePath =
     (let fileName = str_or (last (split_on (CHR ''/'') filePath)) filePath
      in if CHR ''.'' \<in> set fileName then join ''.'' (butlast (split_on (CHR ''.'') fileName)) else fileName)"

definition resolvePreviewTarget :: "string option \<Rightarrow> string option \<Rightarrow> string list \<Rightarrow> string option" where
  "resolvePreviewTarget activeFilePath previewEntryFile artifacts =
     (let entry = (if opt_str previewEntryFile = [] then None else previewEntryFile); active = opt_str activeFilePath;
          html = filter (\<lambda>p. ends_with ''.html'' (to_lower p)) artifacts; stem = to_lower (getFileStem active)
      in if active = [] then entry
         else if ends_with ''.html'' (to_lower active) \<or> ends_with ''.htm'' (to_lower active) then Some active
         else if html = [] then entry
         else case find (\<lambda>p. to_lower (getFileStem p) = stem) html of
             Some p \<Rightarrow> Some p
           | None \<Rightarrow>
               (case find (\<lambda>p. str_includes (to_lower p) stem) html of
                  Some p \<Rightarrow> Some p
                | None \<Rightarrow> Some (opt_str (if entry \<noteq> None then entry else Some (hd html)))))"

text \<open>What is shown is the file itself, the page that was shown, or a page of the build; if a page has its stem, such a page.\<close>

lemma found_in: "find P xs = Some x \<Longrightarrow> x \<in> set xs \<and> P x"
  by (auto simp: find_Some_iff)

lemma preview_target:
  assumes "resolvePreviewTarget (Some active) entry artifacts = Some p" and "active \<noteq> []"
    and "\<not> ends_with ''.html'' (to_lower active)" and "\<not> ends_with ''.htm'' (to_lower active)"
  shows "p \<in> set (filter (\<lambda>p. ends_with ''.html'' (to_lower p)) artifacts) \<or> entry = Some p"
    and "list_ex (\<lambda>q. to_lower (getFileStem q) = to_lower (getFileStem active)) (filter (\<lambda>p. ends_with ''.html'' (to_lower p)) artifacts)
      \<Longrightarrow> to_lower (getFileStem p) = to_lower (getFileStem active)"
proof -
  define html where "html = filter (\<lambda>p. ends_with ''.html'' (to_lower p)) artifacts"
  let ?exact = "find (\<lambda>p. to_lower (getFileStem p) = to_lower (getFileStem active)) html"
  let ?part = "find (\<lambda>p. str_includes (to_lower p) (to_lower (getFileStem active))) html"
  have r: "Some p = (if html = [] then (if opt_str entry = [] then None else entry) else case ?exact of Some p \<Rightarrow> Some p
      | None \<Rightarrow> (case ?part of Some p \<Rightarrow> Some p | None \<Rightarrow> Some (if opt_str entry \<noteq> [] then opt_str entry else hd html)))"
    using assms unfolding html_def by (auto simp: resolvePreviewTarget_def Let_def split: if_splits option.splits)
  have e: "opt_str entry \<noteq> [] \<Longrightarrow> entry = Some (opt_str entry)" by (cases entry) simp_all
  show "p \<in> set html \<or> entry = Some p"
    using r e by (cases ?exact; cases ?part) (auto dest: found_in split: if_splits)
  show "to_lower (getFileStem p) = to_lower (getFileStem active)"
    if "list_ex (\<lambda>q. to_lower (getFileStem q) = to_lower (getFileStem active)) html"
  proof (cases ?exact)
    case None
    then show ?thesis using that by (auto simp: find_None_iff list_ex_iff)
  next
    case (Some q)
    then have "html \<noteq> []" by auto
    then show ?thesis using r Some found_in [OF Some] by simp
  qed
qed

datatype marker_status = Needs_review | Changes_requested | Verify_preview | Approved | Ready

fun getReviewMarkerLabel :: "marker_status \<Rightarrow> string" where
  "getReviewMarkerLabel Needs_review = ''Needs review''"
| "getReviewMarkerLabel Changes_requested = ''Changes requested''"
| "getReviewMarkerLabel Verify_preview = ''Verify preview''"
| "getReviewMarkerLabel Approved = ''Approved''"
| "getReviewMarkerLabel Ready = ''Approved''"

section \<open>Review markers\<close>

text \<open>The own properties that \<^verbatim>\<open>{...v}\<close> copies.\<close>

definition spread :: "jsval \<Rightarrow> (string, jsval) jsmap" where
  "spread v =
     (case v of
        JObj ps \<Rightarrow> ps
      | JArr vs \<Rightarrow> zip (map dec_nat [0..<length vs]) vs
      | JStr t \<Rightarrow> zip (map dec_nat [0..<length t]) (map (\<lambda>c. JStr [c]) t)
      | _ \<Rightarrow> [])"

fun status_name :: "marker_status \<Rightarrow> string" where
  "status_name Needs_review = ''needs-review''"
| "status_name Changes_requested = ''changes-requested''"
| "status_name Verify_preview = ''verify-preview''"
| "status_name Approved = ''approved''"
| "status_name Ready = ''ready''"

record review_marker =
  rm_path :: string
  rm_status :: marker_status
  rm_note :: string
  rm_threads :: "jsval option"

definition markers_key :: "string option \<Rightarrow> string option" where "markers_key repo = getWorkspaceStorageKey repo ''review-markers''"

definition readReviewMarkers :: "parser \<Rightarrow> storage \<Rightarrow> string option \<Rightarrow> jsval" where
  "readReviewMarkers parse st repo = readJson parse st (markers_key repo) (JObj [])"

definition marker_json :: "review_marker \<Rightarrow> string \<Rightarrow> jsval" where
  "marker_json m updatedAt =
     JObj ([(''path'', JStr (rm_path m)), (''status'', JStr (status_name (rm_status m))), (''note'', JStr (rm_note m))]
       @ given ''threads'' (rm_threads m) @ [(''updatedAt'', JStr updatedAt)])"

definition upsertReviewMarker :: "parser \<Rightarrow> printer \<Rightarrow> string option \<Rightarrow> review_marker \<Rightarrow> string \<Rightarrow> storage \<Rightarrow> jsval \<times> storage" where
  "upsertReviewMarker parse print repo m now st =
     (let updated = JObj (map_set (rm_path m) (marker_json m now) (spread (readReviewMarkers parse st repo)))
      in (updated, writeJson print (markers_key repo) updated st))"

text \<open>\<^verbatim>\<open>None\<close> is the exception of a stored null.\<close>

definition removeReviewMarker :: "parser \<Rightarrow> printer \<Rightarrow> string option \<Rightarrow> string \<Rightarrow> storage \<Rightarrow> (jsval \<times> storage) option" where
  "removeReviewMarker parse print repo filePath st =
     (let current = readReviewMarkers parse st repo
      in if current = JNull then None
         else if \<not> truthy (case map_of (spread current) filePath of None \<Rightarrow> JUndef | Some v \<Rightarrow> v) then Some (current, st)
         else let rest = JObj (map_del filePath (spread current)) in Some (rest, writeJson print (markers_key repo) rest st))"

lemma written_markers_read:
  "json_reads_back parse print \<Longrightarrow> opt_str repo \<noteq> [] \<Longrightarrow> readReviewMarkers parse (writeJson print (markers_key repo) (JObj ps) st) repo = JObj ps"
  by (simp add: readReviewMarkers_def readJson_def writeJson_def markers_key_def getWorkspaceStorageKey_def stored_value_def
      set_item_def json_reads_back_def)

text \<open>A marker is read as it was set, those of other files stay, and a marker that was removed is gone.\<close>

lemma marker_set_and_removed:
  assumes "json_reads_back parse print" and "opt_str repo \<noteq> []"
    and "upsertReviewMarker parse print repo m now st = (v, s)" and "removeReviewMarker parse print repo (rm_path m) s = Some (w, s')"
  shows "map_of (spread (readReviewMarkers parse s repo)) =
      (map_of (spread (readReviewMarkers parse st repo)))(rm_path m \<mapsto> marker_json m now)"
    and "map_of (spread (readReviewMarkers parse s' repo)) =
      (map_of (spread (readReviewMarkers parse st repo)))(rm_path m := None)"
proof -
  have s: "readReviewMarkers parse s repo = JObj (map_set (rm_path m) (marker_json m now) (spread (readReviewMarkers parse st repo)))"
    using assms(3) written_markers_read [OF assms(1,2)] by (auto simp: upsertReviewMarker_def Let_def)
  then show "map_of (spread (readReviewMarkers parse s repo)) =
      (map_of (spread (readReviewMarkers parse st repo)))(rm_path m \<mapsto> marker_json m now)"
    by (auto simp: spread_def)
  have "readReviewMarkers parse s' repo = JObj (map_del (rm_path m) (spread (readReviewMarkers parse s repo)))"
    using assms(4) s written_markers_read [OF assms(1,2)]
    by (auto simp: removeReviewMarker_def Let_def spread_def marker_json_def)
  then show "map_of (spread (readReviewMarkers parse s' repo)) =
      (map_of (spread (readReviewMarkers parse st repo)))(rm_path m := None)"
    using s by (auto simp: spread_def)
qed

end
