(* ===== verification/SrcDoc.thy ===== *)
theory SrcDoc imports PreviewTransform begin

text \<open>
  \<^verbatim>\<open>frontend/src/utils/editorPreview.ts\<close>: the page that the editor shows for an HTML file as it is typed, the address
  that its links are relative to, and the language of a file. The long constant blocks and the parser of addresses are parameters.
  The rewriting of style sheet addresses and of bare attributes and the removal of an old layout fix are those of
  \<open>PreviewTransform\<close>, whose source has the same patterns.

  The lemmas show that a page without a base address loses nothing, and where a base address goes wrong.
\<close>

section \<open>Addresses\<close>

record src_blocks =
  sb_pretexFixes :: string
  sb_layoutFix :: string
  sb_mathBoxFixes :: string
  sb_mathJax :: "string \<Rightarrow> string"

text \<open>\<^verbatim>\<open>/(href|src|action)="\//g\<close> and the four patterns for style sheets.\<close>

definition rooted_attribute :: "string \<Rightarrow> string \<Rightarrow> (string \<times> string) option" where
  "rooted_attribute baseHref s =
     (case after_one_of (map (\<lambda>a. a @ ''='' @ [dq] @ ''/'') [''href'', ''src'', ''action'']) s of
        None \<Rightarrow> None
      | Some (p, r) \<Rightarrow> Some (r, butlast p @ baseHref))"

definition rewriteRootedUrls :: "string \<Rightarrow> string \<Rightarrow> string" where
  "rewriteRootedUrls html baseHref =
     replace_text (''@import url('' @ [dq] @ ''/'') (''@import url('' @ [dq] @ baseHref)
       (replace_text (''url('' @ [dq] @ ''/'') (''url('' @ [dq] @ baseHref)
         (replace_text (''url('' @ [sq] @ ''/'') (''url('' @ [sq] @ baseHref)
           (replace_text ''url(/'' (''url('' @ baseHref)
             (replace_all (rooted_attribute baseHref) html))))"

definition injectLayoutFix :: "src_blocks \<Rightarrow> string \<Rightarrow> string" where
  "injectLayoutFix blocks html =
     (let cleaned = removeExistingPreTeXtLayoutFix html
      in if str_includes cleaned ''</head>''
         then replace_first ''</head>'' (sb_layoutFix blocks @ [newline] @ ''</head>'') cleaned
         else sb_layoutFix blocks @ [newline] @ cleaned)"

text \<open>\<open>resolve dir base\<close> is \<^verbatim>\<open>new URL(dir, base).toString()\<close>, \<open>None\<close> where it throws.\<close>

definition getDocumentBaseHref :: "(string \<Rightarrow> string \<Rightarrow> string option) \<Rightarrow> string \<Rightarrow> string \<Rightarrow> string" where
  "getDocumentBaseHref resolve sessionBaseHref previewFilePath =
     (if sessionBaseHref = [] then []
      else let normalizedPath = dropWhile (\<lambda>c. c = slash) previewFilePath
           in if slash \<notin> set normalizedPath then sessionBaseHref
              else let directoryPath = rev (dropWhile (\<lambda>c. c \<noteq> slash) (rev normalizedPath))
                   in case resolve directoryPath sessionBaseHref of Some u \<Rightarrow> u | None \<Rightarrow> sessionBaseHref @ directoryPath)"

section \<open>The page\<close>

definition is_pretext_page :: "string \<Rightarrow> bool" where
  "is_pretext_page html =
     list_ex (str_includes html) [''mathbook-content'', ''js/ila.js'', ''class='' @ [dq] @ ''pretex'', ''class='' @ [dq] @ ''mathbook-'']"

definition base_tag :: "string \<Rightarrow> string" where
  "base_tag documentBaseHref = (if documentBaseHref = [] then [] else ''<base href='' @ [dq] @ documentBaseHref @ [dq] @ ''>'')"

definition asset_link :: "string \<Rightarrow> string \<Rightarrow> string" where
  "asset_link baseHref html =
     (if baseHref \<noteq> [] \<and> is_pretext_page html \<and> \<not> str_includes html ''ila-add-on.css''
      then ''<link rel='' @ [dq] @ ''stylesheet'' @ [dq] @ '' href='' @ [dq] @ baseHref @ ''css/ila-add-on.css'' @ [dq]
           @ '' type='' @ [dq] @ ''text/css'' @ [dq] @ ''>''
      else [])"

definition is_fragment :: "string \<Rightarrow> bool" where
  "is_fragment html = (\<not> starts_with ''<!doctype'' (to_lower (trim html)) \<and> \<not> str_includes html ''<html'')"

text \<open>A change that is made if the page passes a test.\<close>

definition provided :: "('a \<Rightarrow> bool) \<Rightarrow> ('a \<Rightarrow> 'a) \<Rightarrow> 'a \<Rightarrow> 'a" where "provided P f x = (if P x then f x else x)"

text \<open>
  \<^verbatim>\<open>.replace(/<head([^>]*)>/i, `<head$1>\n${new}`)\<close>: the first tag whose name begins with \<^verbatim>\<open>head\<close>, which is
  written in lower case. No block has a \<^verbatim>\<open>$\<close> that a replacement would interpret, and addresses are taken to have none.
\<close>

fun in_head :: "string \<Rightarrow> string \<Rightarrow> string" where
  "in_head new [] = []"
| "in_head new (c # cs) =
     (if starts_with ''<head'' (to_lower (c # cs)) \<and> CHR ''>'' \<in> set cs
      then let tag = takeWhile (\<lambda>c. c \<noteq> CHR ''>'') (c # cs)
           in ''<head'' @ drop 5 tag @ ''>'' @ [newline] @ new @ drop (Suc (length tag)) (c # cs)
      else c # in_head new cs)"

definition fragment_page :: "src_blocks \<Rightarrow> string \<Rightarrow> string \<Rightarrow> bool \<Rightarrow> bool \<Rightarrow> string \<Rightarrow> string \<Rightarrow> string" where
  "fragment_page blocks base link pretext needsMathJax mathJax html =
     ''<!DOCTYPE html><html><head><meta charset='' @ [dq] @ ''utf-8'' @ [dq] @ ''>'' @ base @ [newline]
     @ link @ [newline] @ (if pretext then sb_pretexFixes blocks else []) @ [newline]
     @ (if pretext then sb_layoutFix blocks else []) @ [newline] @ sb_mathBoxFixes blocks @ [newline]
     @ (if needsMathJax then mathJax else []) @ [newline]
     @ ''<style>body{font-family:Georgia,serif;max-width:900px;margin:2rem auto;padding:0 1rem;line-height:1.6;}</style>'' @ [newline]
     @ ''</head><body>'' @ html @ ''</body></html>''"

definition with_mathJax :: "string \<Rightarrow> string \<Rightarrow> string" where
  "with_mathJax mathJax html =
     (if str_includes html ''</head>'' then replace_first ''</head>'' (mathJax @ [newline] @ ''</head>'') html
      else mathJax @ [newline] @ html)"

text \<open>The changes of a whole page, in the order of the code; each test is made on the page as it is then.\<close>

definition prepareHtmlForSrcDoc :: "src_blocks \<Rightarrow> (string \<Rightarrow> string \<Rightarrow> string option) \<Rightarrow> string \<Rightarrow> string \<Rightarrow> string \<Rightarrow> string" where
  "prepareHtmlForSrcDoc blocks resolve content baseHref previewFilePath =
     (let documentBase = getDocumentBaseHref resolve baseHref previewFilePath;
          base = base_tag documentBase; link = asset_link baseHref content; pretext = is_pretext_page content;
          mathJax = sb_mathJax blocks (str_or documentBase baseHref);
          needsMathJax = (\<not> str_includes content ''MathJax'' \<and> \<not> str_includes content ''katex'')
      in if is_fragment content then fragment_page blocks base link pretext needsMathJax mathJax content
         else provided (\<lambda>h. pretext) (injectLayoutFix blocks)
             (provided (\<lambda>h. needsMathJax) (with_mathJax mathJax)
               (provided (\<lambda>h. \<not> str_includes h ''mathbox-loader-preview-fix'') (in_head (sb_mathBoxFixes blocks))
                 (provided (\<lambda>h. pretext \<and> \<not> str_includes h ''pretex-preview-fixes'') (in_head (sb_pretexFixes blocks))
                   (provided (\<lambda>h. link \<noteq> [] \<and> \<not> str_includes h ''ila-add-on.css'') (in_head link)
                     (provided (\<lambda>h. base \<noteq> [] \<and> \<not> str_includes h ''<base '') (in_head base)
                       (provided (\<lambda>h. baseHref \<noteq> [])
                          (\<lambda>h. provided (\<lambda>h. starts_with ''knowl/'' previewFilePath)
                             (\<lambda>h. rewriteCssUrls (rewriteBareRelativeAttributes h baseHref) baseHref PREVIEW_SHARED_ROOT_DIRS)
                             (rewriteRootedUrls h baseHref))
                          content)))))))"

section \<open>The base of an editor's page\<close>

text \<open>An address as the URL parser takes it apart: what is before the path, the path, the query and the fragment.\<close>

record url_parts =
  up_origin :: string
  up_path :: string
  up_search :: string
  up_hash :: string

definition url_text :: "url_parts \<Rightarrow> string" where "url_text u = up_origin u @ up_path u @ up_search u @ up_hash u"

definition getPreviewBaseHref :: "(string \<Rightarrow> url_parts option) \<Rightarrow> string option \<Rightarrow> string \<Rightarrow> string" where
  "getPreviewBaseHref parse previewUrl apiUrl =
     (case (if opt_str previewUrl = [] then None else parse (opt_str previewUrl)) of
        Some u \<Rightarrow> url_text (u\<lparr>up_search := [], up_hash := [], up_path := rev (dropWhile (\<lambda>c. c \<noteq> slash) (rev (up_path u)))\<rparr>)
      | None \<Rightarrow>
          (case parse apiUrl of
             Some u \<Rightarrow> url_text (u\<lparr>up_search := [], up_hash := [],
                                   up_path := (if ends_with ''/'' (up_path u) then up_path u else up_path u @ ''/'')\<rparr>)
           | None \<Rightarrow> if ends_with ''/'' apiUrl then apiUrl else apiUrl @ ''/''))"

text \<open>The counter of the module makes each address new; it is returned with the address.\<close>

definition buildPreviewHref :: "string \<Rightarrow> string \<Rightarrow> string \<Rightarrow> int \<Rightarrow> nat \<Rightarrow> string \<times> nat" where
  "buildPreviewHref apiUrl sessionId entryFile now nonce =
     (apiUrl @ ''/preview/'' @ sessionId @ ''/'' @ entryFile @ ''?t='' @ dec_int now @ ''-'' @ dec_nat (Suc nonce), Suc nonce)"

section \<open>The language of a file\<close>

text \<open>A language of the table, or a property that the table object inherits.\<close>

datatype language = Language string | Inherited string

definition languageMap :: "(string \<times> string) list" where
  "languageMap =
     [(''js'', ''javascript''), (''jsx'', ''javascript''), (''ts'', ''typescript''), (''tsx'', ''typescript''), (''py'', ''python''),
      (''java'', ''java''), (''c'', ''c''), (''cpp'', ''cpp''), (''cs'', ''csharp''), (''php'', ''php''), (''rb'', ''ruby''),
      (''go'', ''go''), (''rs'', ''rust''), (''kt'', ''kotlin''), (''swift'', ''swift''), (''m'', ''objective-c''),
      (''scala'', ''scala''), (''sh'', ''shell''), (''ps1'', ''powershell''), (''bash'', ''shell''), (''zsh'', ''shell''),
      (''fish'', ''shell''), (''powershell'', ''powershell''), (''json'', ''json''), (''xml'', ''xml''), (''ptx'', ''xml''),
      (''yaml'', ''yaml''), (''yml'', ''yaml''), (''toml'', ''toml''), (''ini'', ''ini''), (''cfg'', ''ini''), (''conf'', ''ini''),
      (''sql'', ''sql''), (''mysql'', ''mysql''), (''pgsql'', ''pgsql''), (''sqlite'', ''sql''), (''dockerfile'', ''dockerfile''),
      (''docker'', ''dockerfile''), (''makefile'', ''makefile''), (''mk'', ''makefile''), (''make'', ''makefile''),
      (''html'', ''html''), (''htm'', ''html''), (''css'', ''css''), (''scss'', ''scss''), (''sass'', ''sass''), (''less'', ''less''),
      (''md'', ''markdown''), (''markdown'', ''markdown''), (''rst'', ''restructuredtext''), (''adoc'', ''asciidoc''),
      (''tex'', ''latex''), (''r'', ''r''), (''R'', ''r''), (''matlab'', ''matlab''), (''lua'', ''lua''), (''perl'', ''perl''),
      (''pl'', ''perl'')]"

definition getLanguageFromFilename :: "string \<Rightarrow> language" where
  "getLanguageFromFilename filename =
     (let ext = to_lower (last (split_on (CHR ''.'') filename))
      in case map_of languageMap ext of
          Some l \<Rightarrow> Language l
        | None \<Rightarrow> if ext \<in> {''constructor'', ''__proto__''} then Inherited ext else Language ''plaintext'')"

section \<open>Nothing is lost\<close>

text \<open>The page still has all characters of the file in their order, up to the case of its head tag.\<close>

definition kept :: "string \<Rightarrow> string \<Rightarrow> bool" where "kept s t = subseq (to_lower s) (to_lower t)"

lemma kept_refl [simp]: "kept s s"
  by (simp add: kept_def)

lemma kept_Nil [simp]: "kept [] t"
  by (simp add: kept_def to_lower_def)

lemma kept_trans: "kept s t \<Longrightarrow> kept t u \<Longrightarrow> kept s u"
  by (auto simp: kept_def intro: subseq_order.trans)

lemma kept_append: "kept s t \<Longrightarrow> kept s' t' \<Longrightarrow> kept (s @ s') (t @ t')"
  by (simp add: kept_def to_lower_def list_emb_append_mono)

lemma kept_front: "kept s t \<Longrightarrow> kept s (u @ t)"
  by (simp add: kept_def to_lower_def list_emb_append2)

lemma kept_provided: "kept s h \<Longrightarrow> (\<And>h. P h \<Longrightarrow> kept h (f h)) \<Longrightarrow> kept s (provided P f h)"
  by (auto simp: provided_def intro: kept_trans)

lemma head_tag_split:
  assumes "starts_with ''<head'' (to_lower s)" and "CHR ''>'' \<in> set (tl s)"
  shows "\<exists>h a r. s = h @ a @ ''>'' @ r \<and> to_lower h = ''<head'' \<and> takeWhile (\<lambda>c. c \<noteq> CHR ''>'') s = h @ a \<and> length h = 5"
proof -
  let ?t = "takeWhile (\<lambda>c. c \<noteq> CHR ''>'') s"
  obtain u where u: "to_lower s = ''<head'' @ u" using assms(1) by (auto simp: prefix_def)
  then have h: "to_lower (take 5 s) = ''<head''" by (simp add: to_lower_def take_map [symmetric])
  then have n: "CHR ''>'' \<notin> set (take 5 s)"
  proof -
    have "lower_char (CHR ''>'') = CHR ''>''" by code_simp
    then have "CHR ''>'' \<in> set (take 5 s) \<Longrightarrow> CHR ''>'' \<in> set (to_lower (take 5 s))" by (force simp: to_lower_def)
    then show ?thesis using h by auto
  qed
  have l: "length (take 5 s) = 5" using arg_cong [OF h, of length] by simp
  obtain a r where ar: "drop 5 s = a @ CHR ''>'' # r" "CHR ''>'' \<notin> set a"
  proof -
    have "CHR ''>'' \<in> set s" using assms(2) by (cases s) auto
    then have "CHR ''>'' \<in> set (drop 5 s)" using n by (metis Un_iff append_take_drop_id set_append)
    then show ?thesis using that by (meson split_list_first)
  qed
  have s: "s = take 5 s @ a @ ''>'' @ r" using ar(1) by (metis append_Cons append_Nil append_take_drop_id)
  have "?t = take 5 s @ a"
    by (subst s, subst takeWhile_append2) (use n ar(2) in \<open>auto simp: takeWhile_append\<close>)
  with s h l show ?thesis by blast
qed

lemma in_head_keeps: "kept s (in_head new s)"
proof (induction s)
  case (Cons c cs)
  show ?case
  proof (cases "starts_with ''<head'' (to_lower (c # cs)) \<and> CHR ''>'' \<in> set cs")
    case True
    have "\<exists>h a r. c # cs = h @ a @ ''>'' @ r \<and> to_lower h = ''<head'' \<and> takeWhile (\<lambda>c. c \<noteq> CHR ''>'') (c # cs) = h @ a \<and> length h = 5"
      by (rule head_tag_split) (use True in simp_all)
    then obtain h a r where s: "c # cs = h @ a @ ''>'' @ r" "to_lower h = ''<head''"
      "takeWhile (\<lambda>c. c \<noteq> CHR ''>'') (c # cs) = h @ a" "length h = 5" by blast
    have d: "drop (Suc (length (h @ a))) (c # cs) = r" unfolding s(1) by simp
    have "in_head new (c # cs) = ''<head'' @ drop 5 (h @ a) @ ''>'' @ [newline] @ new @ drop (Suc (length (h @ a))) (c # cs)"
      unfolding in_head.simps s(3) Let_def using True by (rule if_P)
    then have "in_head new (c # cs) = ''<head'' @ a @ ''>'' @ [newline] @ new @ r" unfolding d using s(4) by simp
    moreover have "kept h ''<head''" using s(2) by (simp add: kept_def to_lower_def lower_char_def)
    then have "kept (h @ a @ ''>'' @ r) (''<head'' @ a @ ''>'' @ [newline] @ new @ r)"
      by (rule kept_append) (rule kept_append kept_front kept_refl)+
    ultimately show ?thesis using s(1) by simp
  qed (use Cons kept_append [of "[c]" "[c]"] in auto)
qed simp

lemma replace_first_keeps: "kept p new \<Longrightarrow> kept s (replace_first p new s)"
proof (cases "index_of p s")
  case (Some k)
  assume p: "kept p new"
  have "prefix p (drop k s)" using Some by (induction s arbitrary: k) (auto split: if_splits)
  then obtain r where r: "drop k s = p @ r" by (auto simp: prefix_def)
  then have s: "s = take k s @ p @ r" by (metis append_take_drop_id)
  have "drop (length p) (drop k s) = r" using r by simp
  then have "replace_first p new s = take k s @ new @ r" using Some by (simp add: replace_first_def add.commute)
  moreover have "kept (take k s @ p @ r) (take k s @ new @ r)" using p by (intro kept_append) simp_all
  ultimately show ?thesis using s by simp
qed (simp add: replace_first_def)

lemma mathJax_keeps: "kept s (with_mathJax m s)"
proof (cases "str_includes s ''</head>''")
  case True
  have "kept ''</head>'' (m @ [newline] @ ''</head>'')" by (intro kept_front) simp
  with True show ?thesis unfolding with_mathJax_def by (simp only: if_True replace_first_keeps)
next
  case False
  have "kept s (m @ [newline] @ s)" by (intro kept_front) simp
  with False show ?thesis by (simp add: with_mathJax_def)
qed

text \<open>
  A page without a base address and without the marks of PreTeXt keeps every character of the file, whether it is a whole page or
  a fragment.
\<close>

theorem plain_page_keeps_file:
  assumes "\<not> is_pretext_page content"
  shows "kept content (prepareHtmlForSrcDoc blocks resolve content [] path)"
proof (cases "is_fragment content")
  case True
  have tail: "kept content (content @ v)" for v using kept_append [of content content "[]" v] by simp
  have "kept content (fragment_page blocks base link pretext nm mj content)" for base link pretext nm mj
    unfolding fragment_page_def by (rule tail kept_front)+
  with True show ?thesis by (simp add: prepareHtmlForSrcDoc_def Let_def)
next
  case False
  have base: "getDocumentBaseHref resolve [] path = []" by (simp add: getDocumentBaseHref_def)
  show ?thesis
    unfolding prepareHtmlForSrcDoc_def Let_def base if_not_P [OF False]
    by (intro kept_provided kept_refl) (use assms in \<open>simp_all add: in_head_keeps mathJax_keeps base_tag_def asset_link_def\<close>)
qed

section \<open>The address of a document\<close>

text \<open>The base of a document is a directory if that of the session is one and the resolver appends.\<close>

lemma document_base_is_directory:
  assumes "suffix ''/'' base" and "\<And>d b u. resolve d b = Some u \<Longrightarrow> u = b @ d"
  shows "suffix ''/'' (getDocumentBaseHref resolve base path)"
proof -
  let ?p = "dropWhile (\<lambda>c. c = slash) path"
  let ?d = "rev (dropWhile (\<lambda>c. c \<noteq> slash) (rev ?p))"
  have dir: "suffix ''/'' ?d" if "slash \<in> set ?p"
  proof -
    from that have "dropWhile (\<lambda>c. c \<noteq> slash) (rev ?p) \<noteq> []" by (simp add: dropWhile_eq_Nil_conv)
    then obtain x xs where x: "dropWhile (\<lambda>c. c \<noteq> slash) (rev ?p) = x # xs" by (cases "dropWhile (\<lambda>c. c \<noteq> slash) (rev ?p)") auto
    then have "x = slash" using hd_dropWhile [of "\<lambda>c. c \<noteq> slash" "rev ?p"] by simp
    then show ?thesis unfolding x by (simp add: suffix_def)
  qed
  have longer: "suffix ''/'' (base @ d)" if "suffix ''/'' d" for d using that by (auto simp: suffix_def)
  show ?thesis
  proof (cases "base = [] \<or> slash \<notin> set ?p")
    case False
    then have "getDocumentBaseHref resolve base path = (case resolve ?d base of Some u \<Rightarrow> u | None \<Rightarrow> base @ ?d)"
      by (simp add: getDocumentBaseHref_def Let_def)
    moreover have "suffix ''/'' (base @ ?d)" using dir False longer by blast
    ultimately show ?thesis using assms(2) by (cases "resolve ?d base") auto
  qed (use assms(1) in \<open>auto simp: getDocumentBaseHref_def\<close>)
qed

text \<open>Two requests for a page never have the same address, even in the same millisecond.\<close>

lemma preview_address_new: "fst (buildPreviewHref api sid f t n) = fst (buildPreviewHref api sid f t m) \<Longrightarrow> n = m"
  by (simp add: buildPreviewHref_def)

section \<open>Where it goes wrong\<close>

text \<open>An address without a scheme begins with two slashes and is taken for one on the own server.\<close>

lemma other_host_lost:
  "rewriteRootedUrls (''src='' @ [dq] @ ''//cdn.org/x.js'' @ [dq]) ''https://a.org/'' = ''src='' @ [dq] @ ''https://a.org//cdn.org/x.js'' @ [dq]"
  by code_simp

text \<open>In a page without a head the blocks are put into the first header.\<close>

lemma blocks_in_header: "in_head ''B'' ''<html><body><header>'' = ''<html><body><header>'' @ [newline] @ ''B''"
  by code_simp

text \<open>The table of languages is an object, which has more properties than were written.\<close>

lemma language_inherited: "getLanguageFromFilename ''notes.constructor'' = Inherited ''constructor''"
  by code_simp

end
