(* ===== verification/Spec2Isabelle.thy ===== *)
theory Spec2Isabelle
  imports RepoIdentifier AiBudget AuthRoutes ShareTokens BuildQueue ImportDiff CursorReconciliation
    PreviewServer BuildLogs ErrorExplainer SpellPositions PretexValidator CommandPalette GitWorkspace RedisClient PreviewHistory GithubCache Collaboration PristineCache
    MarkdownImport HttpApi LivePreview RuntimeConfig BuildErrorParser MathValidator DraftSave BrowserStorage SrcDoc
begin

text \<open>
  A verification library for Proofdesk, a web editor for textbooks written in PreTeXt. A server (\<^verbatim>\<open>backend/src\<close>, Express
  and web sockets) clones a repository of GitHub into a workspace on its disk, builds it with Docker, serves the preview, commits
  and pushes; a front end (\<^verbatim>\<open>frontend/src\<close>) edits the files, checks them as they are typed and shows a live preview. Several
  authors can edit one document.

  \<^bold>\<open>How the code is modelled.\<close> A class or module with state is a record, an operation a function that returns the
  new state; where a handler waits (\<^verbatim>\<open>await\<close>) and other requests can run, it is split into steps, and the theorems speak
  of every interleaving of the steps. Exceptions are values of a sum or an option. Strings are lists of characters, which stand
  for the UTF-16 code units below 256; where offsets of an editor matter, lists of code units as numbers (\<open>TextScan\<close>). The
  few fixed texts with characters beyond are written as their UTF-8 bytes. A regular expression is a matcher that tries the
  choices of its parts in the order in which JavaScript tries them. A \<^verbatim>\<open>Map\<close> is a list of pairs in the order of
  insertion (\<open>jsmap\<close> of \<open>Prelude\<close>), a JSON value a \<open>jsval\<close>. The clock, random identifiers, git, Docker, GitHub, the model
  service, MathPix, Redis, Yjs, KaTeX, the XML and the JSON parser, hashes and ciphers, and the file system below the calls of
  Node are parameters; what the code relies on is a hypothesis with a name.

  \<^bold>\<open>Login and authorisation\<close> (\<^verbatim>\<open>services/authSessionStore.ts\<close>, \<^verbatim>\<open>githubIdentity.ts\<close>, \<^verbatim>\<open>shareTokenStore.ts\<close>,
  \<^verbatim>\<open>middleware/auth.ts\<close>, \<^verbatim>\<open>routes/auth.routes.ts\<close>). \<open>Cookies\<close> reads and writes cookie headers. \<open>ExpiringStore\<close> is the
  contract of the two stores of credentials, a locale that \<open>AuthSession\<close> and \<open>ShareTokens\<close> interpret: what was destroyed or
  has expired does not return, and what was stored is found until then, across writes, restarts and rotations of the secret.
  \<open>AccessControl\<close> has the guards of the routes, \<open>AuthRoutes\<close> the ways to a login session. \<open>RuntimeConfig\<close>
  (\<^verbatim>\<open>utils/runtimeConfig.ts\<close>, start of \<^verbatim>\<open>server.ts\<close>) says which servers start, and that one in production has no test login.

  \<^bold>\<open>Requests\<close> (\<^verbatim>\<open>routes\<close>, \<^verbatim>\<open>controllers\<close>). \<open>HttpApi\<close> has the table of all routes and their handlers; a handler is a
  tree of service calls, so that the theorems hold whatever the services of the other theories answer: no operation on a build
  session without being entitled to it, and none at all without a token. \<open>RateLimiter\<close> and \<open>AiBudget\<close>
  (\<^verbatim>\<open>rateLimiter.ts\<close>, \<^verbatim>\<open>aiUsageBudget.ts\<close>) bound the calls in a window; the latter has a locale for its counters,
  interpreted on the store in memory. \<open>RepoIdentifier\<close> and \<open>PathContainment\<close> (\<^verbatim>\<open>repoIdentifier.ts\<close>,
  \<^verbatim>\<open>pathContainment.ts\<close>) decide which names and paths pass, symbolic links included.

  \<^bold>\<open>Workspaces and builds\<close> (\<^verbatim>\<open>services/buildExecutor.ts\<close>, \<^verbatim>\<open>buildQueue.ts\<close>, \<^verbatim>\<open>workspaceService.ts\<close>,
  \<^verbatim>\<open>gitWorkspaceService.ts\<close>). \<open>BuildWorkspaces\<close> has the sessions, the cache of builds and the directories they share, one
  step per stretch between two waits; \<open>WorkspaceSafety\<close> shows that no used directory is removed, \<open>PristineCache\<close> that the cache
  hands out the tree of a commit. \<open>BuildQueue\<close> runs the builds one by one, \<open>BuildLogs\<close> cuts their output into lines and
  sends it to those who follow, \<open>ArtifactCache\<close> keeps the served files and refines a list in the order of use.
  \<open>WorkspaceFiles\<close> reads, writes, searches and replaces; \<open>GitWorkspace\<close> is the sequence of git processes of every operation, with
  the environment of each. \<open>GithubCache\<close> and \<open>RedisClient\<close> (\<^verbatim>\<open>githubCacheStore.ts\<close>, \<^verbatim>\<open>redisClient.ts\<close>) connect to
  the outside.

  \<^bold>\<open>Previews\<close> (\<^verbatim>\<open>previewTransformService.ts\<close>, \<^verbatim>\<open>previewBundleService.ts\<close>, \<^verbatim>\<open>previewHistoryService.ts\<close>).
  \<open>PreviewTransform\<close> rewrites the addresses of a page, \<open>PreviewServer\<close> makes the bundle and decides who reads which file of
  it, \<open>PreviewHistory\<close> keeps the snapshots.

  \<^bold>\<open>Working together\<close> (\<^verbatim>\<open>teamSessions.ts\<close>, \<^verbatim>\<open>collaborationServer.ts\<close>). \<open>TeamSessions\<close> keeps the invite codes in
  memory, in a file and in Redis. \<open>Collaboration\<close> has connections, rooms and documents; every callback is a step.

  \<^bold>\<open>Explaining a failed build\<close> (\<^verbatim>\<open>buildErrorExplainer.ts\<close>, \<^verbatim>\<open>buildSourceContext.ts\<close>,
  \<^verbatim>\<open>controllers/aiAssist.controller.ts\<close>). \<open>LogRedaction\<close> removes credentials from a log, \<open>SourceContext\<close> collects the
  lines of the source that it names, \<open>ErrorExplainer\<close> composes the question, keeps to the budget, caches the answer and checks
  its form.

  \<^bold>\<open>Import\<close> (\<^verbatim>\<open>pdfImportService.ts\<close>, \<^verbatim>\<open>controllers/import.controller.ts\<close>). \<open>MarkdownImport\<close> turns Markdown into
  PreTeXt and asks MathPix for that of a PDF file.

  \<^bold>\<open>The editor\<close> (\<^verbatim>\<open>frontend/src/utils\<close>). \<open>PretexValidator\<close> and \<open>MathValidator\<close> check structure and formulas,
  \<open>SpellCheck\<close> the prose: \<open>SpellScan\<close> and \<open>SpellTree\<close> compare its scan with documents as trees, \<open>SpellPositions\<close> shows where
  its issues point and that its early exits and its cache do not show. \<open>LatexPreview\<close> and \<open>LivePreview\<close>
  (\<^verbatim>\<open>pretexPreview.ts\<close>) prepare the formulas and convert a document to HTML. \<open>BuildErrorParser\<close> finds the problems in the
  log of a build, \<open>ImportDiff\<close> compares texts line by line, \<open>CursorReconciliation\<close> moves the cursor over changes of others,
  \<open>CommandPalette\<close> ranks commands, \<open>DraftSave\<close> drives the indicator of saved drafts, \<open>BrowserStorage\<close> keeps the team session and
  the recent files in the browser, \<open>SrcDoc\<close> makes a page of an HTML file that is edited.

  \<^bold>\<open>Ends and bounds.\<close> There is no fuel that can run out unnoticed. Scans of a text are recursions on what is left of it, with
  the length as measure, or structural. The loops over an offset of \<open>SpellCheck\<close> are \<open>while_option\<close>; the rule \<open>scan_ends\<close> of
  \<open>TextScan\<close> shows that they end because the offset grows up to the length of the text. Walks of directories recur on the
  tree, whose finiteness is a named hypothesis with a weight as measure in \<open>SourceContext\<close>. Sixty questions to MathPix, five
  redirects of a GitHub download and the other limits of the code are the numbers of the source. Numbers that the code only
  counts or compares are \<open>nat\<close> or \<open>int\<close>, as they stay below the range in which JavaScript numbers are exact; the bytes
  of the messages of \<open>Collaboration\<close> are words of 8 bits.

  \<^bold>\<open>What the lemmas show besides.\<close> Each theory ends with lemmas on what the code does not do although a comment, a test or
  the purpose says so; each is a computation on a concrete input.

  \<^bold>\<open>Not modelled.\<close> The React components and hooks that only render state or pass events on, the registration of
  Monaco providers, and the tables of hover texts, snippets and themes; \<^verbatim>\<open>EditorPage.tsx\<close> beyond its draft timer. The
  compilers \<^verbatim>\<open>compilerService.ts\<close>, \<^verbatim>\<open>repositoryCompiler.ts\<close> and \<^verbatim>\<open>wasmCompiler.ts\<close>, which are sequences of calls of
  external programs. The style sheets and scripts that a preview carries. Monitoring, metrics, tracing, logging and mail,
  which return nothing that the modelled code uses, the Prisma repositories, whose answers are parameters, the parts of
  \<^verbatim>\<open>server.ts\<close> that configure Express, and the demo repository. Docker files, deployment, benchmarks and tests.
\<close>

end
